(* ===== verification/Prelude.thy ===== *)
theory Prelude
  imports
    Complex_Main
    "HOL-Library.AList"
    "HOL-Library.Char_ord"
    "HOL-Library.List_Lexorder"
    "HOL-Library.Product_Lexorder"
    "HOL-Library.Option_ord"
    "HOL-Library.Monad_Syntax"
begin

text \<open>
  What every component of the development shares.

  \<^item> Python values: insertion-ordered dictionaries (association lists, updated in place or
    appended at the end, as CPython's \<open>dict\<close> does), floats (exact rationals), \<open>int()\<close>
    truncation, decoded JSON and the exceptions the code raises or lets through.
  \<^item> The named theorem collections the component proofs draw on.
  \<^item> The locale \<open>step_invariant\<close>: an operation alphabet, a step function and an invariant that
    every operation keeps; its lemmas lift the invariant to whole runs and to every state on the
    way. Each stateful component interprets it on its own step function.
\<close>

named_theorems frame_simps \<open>fields an operation does not write\<close>
named_theorems inv_intros \<open>operations that keep a component's invariant\<close>

section \<open>Python values\<close>

text \<open>
  A Python float is an exact rational here: rounding, infinities and NaN are not modelled.
\<close>

type_synonym pyfloat = rat

text \<open>
  \<open>int(x)\<close> on a float truncates towards zero.
\<close>

definition py_int :: "pyfloat \<Rightarrow> int" where
  "py_int q = (if 0 \<le> q then \<lfloor>q\<rfloor> else \<lceil>q\<rceil>)"

text \<open>
  A \<open>dict\<close> is an association list with distinct keys. \<open>d[k] = v\<close> keeps the position of a key
  that is present and appends a new one; \<open>del d[k]\<close> and \<open>d.pop(k, None)\<close> remove the entry.
\<close>

type_synonym ('k, 'v) dict = "('k \<times> 'v) list"

abbreviation dict_get :: "('k, 'v) dict \<Rightarrow> 'k \<Rightarrow> 'v option" where
  "dict_get \<equiv> map_of"

abbreviation dict_set :: "'k \<Rightarrow> 'v \<Rightarrow> ('k, 'v) dict \<Rightarrow> ('k, 'v) dict" where
  "dict_set \<equiv> AList.update"

abbreviation dict_pop :: "'k \<Rightarrow> ('k, 'v) dict \<Rightarrow> ('k, 'v) dict" where
  "dict_pop \<equiv> AList.delete"

abbreviation dict_keys :: "('k, 'v) dict \<Rightarrow> 'k list" where
  "dict_keys d \<equiv> map fst d"

abbreviation dict_values :: "('k, 'v) dict \<Rightarrow> 'v list" where
  "dict_values d \<equiv> map snd d"

abbreviation in_dict :: "'k \<Rightarrow> ('k, 'v) dict \<Rightarrow> bool" where
  "in_dict k d \<equiv> map_of d k \<noteq> None"

text \<open>
  In-place mutation of the object a key refers to: nothing happens when the key is absent.
\<close>

abbreviation dict_modify :: "'k \<Rightarrow> ('v \<Rightarrow> 'v) \<Rightarrow> ('k, 'v) dict \<Rightarrow> ('k, 'v) dict" where
  "dict_modify \<equiv> AList.map_entry"

datatype json =
    JNull
  | JBool bool
  | JInt int
  | JFloat pyfloat
  | JStr string
  | JList "json list"
  | JObj "(string \<times> json) list"

text \<open>
  The truth value of a decoded JSON value.
\<close>

definition truthy :: "json \<Rightarrow> bool" where
  "truthy j = (case j of
     JNull \<Rightarrow> False | JBool b \<Rightarrow> b | JInt n \<Rightarrow> n \<noteq> 0 | JFloat q \<Rightarrow> q \<noteq> 0 | JStr s \<Rightarrow> s \<noteq> []
   | JList xs \<Rightarrow> xs \<noteq> [] | JObj d \<Rightarrow> d \<noteq> [])"

datatype py_error =
    ValueError
  | KeyError
  | TypeError
  | AttributeError
  | IndexError
  | ZeroDivisionError
  | ValidationError
  | HTTPException int
  | InstanceIdConflictError int
  | OverflowError
  | PortConflictError
  | StructError
  | StopIteration
  | RuntimeError
  | LookupError

text \<open>
  \<open>d.get(k)\<close>: an absent key and a null value are both \<open>None\<close>.
\<close>

definition obj_get :: "(string \<times> json) list \<Rightarrow> string \<Rightarrow> json" where
  "obj_get d k = (case dict_get d k of Some v \<Rightarrow> v | None \<Rightarrow> JNull)"

text \<open>
  Text outside ASCII is a list of code points; \<open>find(sub, start)\<close> for a non-negative start.
\<close>

type_synonym ptext = "nat list"

definition codes :: "string \<Rightarrow> ptext" where
  "codes s = map of_char s"

definition occurs_at :: "'a list \<Rightarrow> 'a list \<Rightarrow> nat \<Rightarrow> bool" where
  "occurs_at xs sub i \<longleftrightarrow> take (length sub) (drop i xs) = sub"

definition py_find :: "'a list \<Rightarrow> 'a list \<Rightarrow> nat \<Rightarrow> nat option" where
  "py_find xs sub start = List.find (\<lambda>i. occurs_at xs sub i) [start..<length xs + 1 - length sub]"

section \<open>Lemmas on dictionaries\<close>

lemma dict_get_set [simp]: "dict_get (dict_set k v d) k' = (if k' = k then Some v else dict_get d k')"
  by (simp add: update_conv')

lemma dict_get_pop [simp]: "dict_get (dict_pop k d) k' = (if k' = k then None else dict_get d k')"
  by (simp add: delete_conv')

lemma dict_get_modify [simp]:
  "dict_get (dict_modify k f d) k' = (if k' = k then map_option f (dict_get d k') else dict_get d k')"
  by (simp add: map_of_map_entry map_option_case)

lemma dict_keys_modify [simp]: "dict_keys (dict_modify k f d) = dict_keys d"
  by (induction d) auto

lemma dict_modify_absent [simp]: "dict_get d k = None \<Longrightarrow> dict_modify k f d = d"
  by (induction d) (auto split: if_splits)

lemma in_dict_iff: "in_dict k d \<longleftrightarrow> k \<in> fst ` set d"
  by (induction d) auto

lemma dict_get_None_iff: "dict_get d k = None \<longleftrightarrow> k \<notin> fst ` set d"
  by (rule map_of_eq_None_iff)

lemma dict_get_in: "dict_get d k = Some v \<Longrightarrow> (k, v) \<in> set d"
  by (rule map_of_SomeD)

lemma dict_get_eq_iff: "distinct (dict_keys d) \<Longrightarrow> dict_get d k = Some v \<longleftrightarrow> (k, v) \<in> set d"
  by (simp add: map_of_eq_Some_iff)

lemma distinct_dict_set [simp, intro]:
  "distinct (dict_keys d) \<Longrightarrow> distinct (dict_keys (dict_set k v d))"
  by (rule distinct_update)

lemma distinct_dict_pop [simp, intro]:
  "distinct (dict_keys d) \<Longrightarrow> distinct (dict_keys (dict_pop k d))"
  by (rule distinct_delete)

lemma keys_dict_set [simp]: "fst ` set (dict_set k v d) = insert k (fst ` set d)"
  by (simp add: dom_update)

lemma keys_dict_pop [simp]: "fst ` set (dict_pop k d) = fst ` set d - {k}"
  by (auto simp: AList.delete_eq)

lemma keys_dict_modify [simp]: "fst ` set (dict_modify k f d) = fst ` set d"
  by (metis dict_keys_modify set_map)

lemma dict_set_fresh: "dict_get d k = None \<Longrightarrow> dict_set k v d = d @ [(k, v)]"
  by (induction d) (auto split: if_splits)

lemma dict_pop_absent [simp]: "dict_get d k = None \<Longrightarrow> dict_pop k d = d"
  by (induction d) (auto simp: AList.delete_eq split: if_splits)

lemma set_dict_pop: "set (dict_pop k d) = {p \<in> set d. fst p \<noteq> k}"
  by (auto simp: AList.delete_eq)

lemma set_dict_set:
  "distinct (dict_keys d) \<Longrightarrow> set (dict_set k v d) = insert (k, v) {p \<in> set d. fst p \<noteq> k}"
  by (induction d) (auto simp: image_iff)

lemma set_dict_modify:
  "distinct (dict_keys d) \<Longrightarrow>
   set (dict_modify k f d) = {p \<in> set d. fst p \<noteq> k} \<union> {(k, f v) |v. (k, v) \<in> set d}"
  by (induction d) (auto simp: image_iff)

text \<open>
  Dictionaries built or filtered by a loop.
\<close>

lemma foldl_if_filter: "foldl (\<lambda>d x. if P x then f d x else d) d xs = foldl f d (filter P xs)"
  by (induction xs arbitrary: d) auto

lemma foldl_dict_set_keys: "fst ` set (foldl (\<lambda>d x. dict_set (k x) (v x) d) d xs) = fst ` set d \<union> k ` set xs"
  by (induction xs arbitrary: d) auto

lemma foldl_dict_set_fresh:
  "distinct (map k xs) \<Longrightarrow> \<forall>x \<in> set xs. dict_get d (k x) = None \<Longrightarrow>
   foldl (\<lambda>d x. dict_set (k x) (v x) d) d xs = d @ map (\<lambda>x. (k x, v x)) xs"
proof (induction xs arbitrary: d)
  case (Cons x xs)
  then have "dict_set (k x) (v x) d = d @ [(k x, v x)]" by (intro dict_set_fresh) simp
  moreover have "\<forall>y \<in> set xs. dict_get (d @ [(k x, v x)]) (k y) = None"
    using Cons.prems by (auto simp: map_add_def image_iff split: option.splits)
  ultimately show ?case using Cons.IH[of "d @ [(k x, v x)]"] Cons.prems by simp
qed simp

lemma distinct_map_inj: "inj f \<Longrightarrow> distinct (map k xs) \<Longrightarrow> distinct (map (\<lambda>x. f (k x)) xs)"
  by (auto simp: distinct_map inj_on_def dest: injD)

lemma dict_get_filter_map:
  "distinct (dict_keys d) \<Longrightarrow> dict_get (map (\<lambda>(k, v). (k, f v)) (filter (\<lambda>(k, v). P v) d)) k =
     (case dict_get d k of None \<Rightarrow> None | Some v \<Rightarrow> if P v then Some (f v) else None)"
proof (induction d)
  case (Cons x d)
  obtain k' v where x: "x = (k', v)" by (cases x)
  show ?case
  proof (cases "k = k'")
    case True
    with Cons.prems x have "dict_get (map (\<lambda>(k, v). (k, f v)) (filter (\<lambda>(k, v). P v) d)) k = None"
      by (auto simp: map_of_eq_None_iff rev_image_eqI)
    with True x show ?thesis by simp
  next
    case False
    with Cons x show ?thesis by simp
  qed
qed simp

lemma dict_set_nonempty [simp]: "dict_set k v d \<noteq> []"
  by (cases d) auto

lemma obj_get_set [simp]: "obj_get (dict_set k v d) k' = (if k' = k then v else obj_get d k')"
  by (simp add: obj_get_def)

lemma truthy_obj [simp]: "truthy (JObj d) \<longleftrightarrow> d \<noteq> []"
  by (simp add: truthy_def)

subsection \<open>Integers as strings\<close>

text \<open>
  \<open>str(n)\<close> of an integer, and \<open>int(s)\<close> of a string: surrounding white space, one sign, decimal
  digits with single underscores between them; anything else raises \<open>ValueError\<close> (here \<open>None\<close>).
  Digits outside ASCII are not modelled.
\<close>

fun show_nat :: "nat \<Rightarrow> string" where
  "show_nat n = (if n < 10 then [char_of (48 + n)] else show_nat (n div 10) @ [char_of (48 + n mod 10)])"

declare show_nat.simps [simp del]

definition py_str_int :: "int \<Rightarrow> string" where
  "py_str_int i = (if i < 0 then CHR ''-'' # show_nat (nat (- i)) else show_nat (nat i))"

definition digit_val :: "char \<Rightarrow> nat option" where
  "digit_val c = (let n = (of_char c :: nat) in if 48 \<le> n \<and> n \<le> 57 then Some (n - 48) else None)"

definition is_space :: "char \<Rightarrow> bool" where
  "is_space c = (let n = (of_char c :: nat) in n = 32 \<or> (9 \<le> n \<and> n \<le> 13) \<or> (28 \<le> n \<and> n \<le> 31))"

definition py_strip :: "string \<Rightarrow> string" where
  "py_strip s = rev (dropWhile is_space (rev (dropWhile is_space s)))"

fun parse_digits :: "nat \<Rightarrow> bool \<Rightarrow> string \<Rightarrow> nat option" where
  "parse_digits acc after_digit [] = (if after_digit then Some acc else None)"
| "parse_digits acc after_digit (c # cs) =
     (case digit_val c of
        Some d \<Rightarrow> parse_digits (10 * acc + d) True cs
      | None \<Rightarrow> if c = CHR ''_'' \<and> after_digit then parse_digits acc False cs else None)"

definition py_parse_int :: "string \<Rightarrow> int option" where
  "py_parse_int s =
     (case py_strip s of
        [] \<Rightarrow> None
      | c # cs \<Rightarrow>
          if c = CHR ''-'' then map_option (\<lambda>n. - int n) (parse_digits 0 False cs)
          else if c = CHR ''+'' then map_option int (parse_digits 0 False cs)
          else map_option int (parse_digits 0 False (c # cs)))"

text \<open>
  \<open>s.startswith(p)\<close>, \<open>s.split(sep)\<close> for a non-empty separator, and \<open>sep.join(parts)\<close>.
\<close>

definition py_startswith :: "string \<Rightarrow> string \<Rightarrow> bool" where
  "py_startswith s p \<longleftrightarrow> take (length p) s = p"

fun split_from :: "string \<Rightarrow> nat \<Rightarrow> string \<Rightarrow> string \<Rightarrow> string list" where
  "split_from sep skip piece [] = [rev piece]"
| "split_from sep (Suc n) piece (c # cs) = split_from sep n piece cs"
| "split_from sep 0 piece (c # cs) =
     (if py_startswith (c # cs) sep then rev piece # split_from sep (length sep - 1) [] cs
      else split_from sep 0 (c # piece) cs)"

definition py_split :: "string \<Rightarrow> string \<Rightarrow> string list" where
  "py_split sep s = split_from sep 0 [] s"

fun py_join :: "string \<Rightarrow> string list \<Rightarrow> string" where
  "py_join sep [] = []"
| "py_join sep [x] = x"
| "py_join sep (x # y # ys) = x @ sep @ py_join sep (y # ys)"

section \<open>Lemmas on integers as strings\<close>

lemma digit_val_char [simp]: "n < 10 \<Longrightarrow> digit_val (char_of (48 + n)) = Some n"
  by (simp add: digit_val_def Let_def)

lemma parse_digits_append:
  "parse_digits acc True (show_nat n @ cs) = parse_digits (acc * 10 ^ length (show_nat n) + n) True cs"
proof (induction n arbitrary: acc cs rule: show_nat.induct)
  case (1 n)
  show ?case
  proof (cases "n < 10")
    case True
    then show ?thesis by (simp add: show_nat.simps[of n] mult.commute)
  next
    case False
    have "10 * (acc * 10 ^ k + n div 10) + n mod 10 = acc * (10 * 10 ^ k) + n" for k
      using div_mult_mod_eq[of n 10] by (simp add: algebra_simps)
    with 1[OF False] False show ?thesis by (simp add: show_nat.simps[of n] ac_simps)
  qed
qed

lemma show_nat_digits: "c \<in> set (show_nat n) \<Longrightarrow> \<exists>d :: nat. d < 10 \<and> c = char_of (48 + d)"
proof (induction n rule: show_nat.induct)
  case (1 n)
  from 1(2) consider "n < 10" "c = char_of (48 + n)" | "\<not> n < 10" "c \<in> set (show_nat (n div 10))"
    | "c = char_of (48 + n mod 10)"
    by (subst (asm) show_nat.simps) (auto split: if_splits)
  then show ?case
  proof cases
    case 3
    moreover have "n mod 10 < 10" by simp
    ultimately show ?thesis by blast
  qed (use 1(1) in blast)+
qed

lemma show_nat_nonempty [simp]: "show_nat n \<noteq> []"
  by (subst show_nat.simps) simp

lemma parse_show_nat: "parse_digits 0 False (show_nat n) = Some n"
proof -
  obtain c cs where s: "show_nat n = c # cs" by (cases "show_nat n") auto
  then obtain d :: nat where "d < 10" "c = char_of (48 + d)" using show_nat_digits[of c n] by auto
  then have "parse_digits 0 False (show_nat n) = parse_digits 0 True (show_nat n)" using s by simp
  also have "\<dots> = Some n" using parse_digits_append[of 0 n "[]"] by simp
  finally show ?thesis .
qed

lemma digit_char_plain:
  assumes "d < 10" and "c = char_of (48 + d :: nat)"
  shows "\<not> is_space c" "c \<noteq> CHR ''-''" "c \<noteq> CHR ''+''"
proof -
  have n: "(of_char c :: nat) = 48 + d" using assms by simp
  then show "\<not> is_space c" by (simp add: is_space_def)
  have "(of_char CHR ''-'' :: nat) = 45" "(of_char CHR ''+'' :: nat) = 43" by simp_all
  with n show "c \<noteq> CHR ''-''" "c \<noteq> CHR ''+''" by auto
qed

lemma py_strip_plain:
  assumes "s \<noteq> []" and "\<not> is_space (hd s)" and "\<not> is_space (last s)"
  shows "py_strip s = s"
proof -
  have "dropWhile is_space s = s" using assms by (cases s) auto
  moreover have "dropWhile is_space (rev s) = rev s" using assms by (cases "rev s") (auto simp: last_rev[symmetric] hd_rev)
  ultimately show ?thesis by (simp add: py_strip_def)
qed

lemma parse_str_int [simp]: "py_parse_int (py_str_int i) = Some i"
proof -
  let ?s = "show_nat (nat \<bar>i\<bar>)"
  obtain d :: nat where d: "d < 10" "hd ?s = char_of (48 + d)"
    using show_nat_digits[of "hd ?s"] hd_in_set show_nat_nonempty by blast
  obtain e :: nat where e: "e < 10" "last ?s = char_of (48 + e)"
    using show_nat_digits[of "last ?s"] last_in_set show_nat_nonempty by blast
  have hyphen: "\<not> is_space CHR ''-''" by (simp add: is_space_def)
  have "py_strip (py_str_int i) = py_str_int i"
    using digit_char_plain[OF d] digit_char_plain[OF e] hyphen
    by (intro py_strip_plain) (auto simp: py_str_int_def)
  moreover have "\<not> i < 0 \<Longrightarrow> py_str_int i = hd ?s # tl ?s"
    by (simp add: py_str_int_def)
  ultimately show ?thesis
    using digit_char_plain[OF d] parse_show_nat[of "nat \<bar>i\<bar>"]
    by (cases "i < 0") (auto simp: py_parse_int_def py_str_int_def simp del: parse_digits.simps split: list.splits)
qed

lemma inj_py_str_int: "inj py_str_int"
  by (metis injI option.inject parse_str_int)

section \<open>Scans for the least element\<close>

text \<open>
  The loops that keep the first element of the smallest score. Tuples are compared
  lexicographically, as in Python.
\<close>

fun min_scan :: "('a \<Rightarrow> 'k :: linorder) \<Rightarrow> 'a option \<Rightarrow> 'a list \<Rightarrow> 'a option" where
  "min_scan score best [] = best"
| "min_scan score best (x # xs) =
     min_scan score (case best of
                       None \<Rightarrow> Some x
                     | Some b \<Rightarrow> if score x < score b then Some x else Some b) xs"

lemma min_scan_Some:
  assumes "min_scan f (Some b) xs = r"
  shows "\<exists>y. r = Some y \<and> (y = b \<and> (\<forall>x \<in> set xs. f b \<le> f x) \<or>
    (\<exists>us vs. xs = us @ y # vs \<and> f y < f b \<and> (\<forall>u \<in> set us. f y < f u) \<and> (\<forall>v \<in> set vs. f y \<le> f v)))"
  using assms
proof (induction xs arbitrary: b)
  case (Cons x xs)
  let ?b = "if f x < f b then x else b"
  from Cons.prems have "min_scan f (Some ?b) xs = r" by (simp split: if_splits)
  from Cons.IH[OF this] obtain y where r: "r = Some y" and
    c: "y = ?b \<and> (\<forall>z \<in> set xs. f ?b \<le> f z) \<or>
      (\<exists>us vs. xs = us @ y # vs \<and> f y < f ?b \<and> (\<forall>u \<in> set us. f y < f u) \<and> (\<forall>v \<in> set vs. f y \<le> f v))" by blast
  from c show ?case
  proof
    assume "y = ?b \<and> (\<forall>z \<in> set xs. f ?b \<le> f z)"
    then show ?case using r by (cases "f x < f b") (auto intro: exI[of _ "[]"])
  next
    assume "\<exists>us vs. xs = us @ y # vs \<and> f y < f ?b \<and> (\<forall>u \<in> set us. f y < f u) \<and> (\<forall>v \<in> set vs. f y \<le> f v)"
    then obtain us vs where u: "xs = us @ y # vs" "f y < f ?b" "\<forall>u \<in> set us. f y < f u" "\<forall>v \<in> set vs. f y \<le> f v" by blast
    then have "x # xs = (x # us) @ y # vs" "f y < f b" "\<forall>u \<in> set (x # us). f y < f u" by (auto split: if_splits)
    then show ?case using r u(4) by blast
  qed
qed auto

lemma min_scan_None_iff: "min_scan f None xs = None \<longleftrightarrow> xs = []"
  using min_scan_Some[of f "hd xs" "tl xs"] by (cases xs) auto

lemma min_scan_first:
  assumes "min_scan f None xs = Some y"
  shows "\<exists>us vs. xs = us @ y # vs \<and> (\<forall>u \<in> set us. f y < f u) \<and> (\<forall>v \<in> set vs. f y \<le> f v)"
proof (cases xs)
  case (Cons x zs)
  with assms min_scan_Some[of f x zs] have "y = x \<and> (\<forall>z \<in> set zs. f x \<le> f z) \<or>
      (\<exists>us vs. zs = us @ y # vs \<and> f y < f x \<and> (\<forall>u \<in> set us. f y < f u) \<and> (\<forall>v \<in> set vs. f y \<le> f v))" by simp
  then show ?thesis
  proof
    assume "\<exists>us vs. zs = us @ y # vs \<and> f y < f x \<and> (\<forall>u \<in> set us. f y < f u) \<and> (\<forall>v \<in> set vs. f y \<le> f v)"
    then obtain us vs where u: "zs = us @ y # vs" "f y < f x" "\<forall>u \<in> set us. f y < f u" "\<forall>v \<in> set vs. f y \<le> f v" by blast
    then have "xs = (x # us) @ y # vs" "\<forall>u \<in> set (x # us). f y < f u" using Cons by auto
    then show ?thesis using u(4) by blast
  qed (use Cons in \<open>auto intro: exI[of _ "[]"]\<close>)
qed (use assms in simp)

lemma min_scan_least:
  assumes "min_scan f None xs = Some y"
  shows "y \<in> set xs" "x \<in> set xs \<Longrightarrow> f y \<le> f x"
proof -
  obtain us vs where u: "xs = us @ y # vs" "\<forall>u \<in> set us. f y < f u" "\<forall>v \<in> set vs. f y \<le> f v"
    using min_scan_first[OF assms] by blast
  then show "y \<in> set xs" by simp
  show "f y \<le> f x" if "x \<in> set xs" using that u order.strict_implies_order by auto
qed

section \<open>Lemmas on lists\<close>

lemma length_filter_update:
  "i < length xs \<Longrightarrow>
   int (length (filter P (xs[i := y]))) = int (length (filter P xs)) - (if P (xs ! i) then 1 else 0) + (if P y then 1 else 0)"
proof (induction xs arbitrary: i)
  case (Cons x xs)
  show ?case
  proof (cases i)
    case 0
    then show ?thesis by simp
  next
    case (Suc j)
    with Cons.prems have "j < length xs" by simp
    from Cons.IH[OF this] Suc show ?thesis by (auto split: if_splits)
  qed
qed simp

section \<open>Runs of a component\<close>

text \<open>
  A component is a step function over an alphabet of operations, of which the legal ones are
  those its callers can issue. Its invariant is kept by every single legal operation; then it
  holds after every legal run and in every state on the way.
\<close>

locale step_invariant =
  fixes step :: "'s \<Rightarrow> 'e \<Rightarrow> 's"
    and legal :: "'e \<Rightarrow> bool"
    and invar :: "'s \<Rightarrow> bool"
  assumes step_keeps: "invar s \<Longrightarrow> legal e \<Longrightarrow> invar (step s e)"
begin

lemma run_keeps: "invar s \<Longrightarrow> list_all legal es \<Longrightarrow> invar (foldl step s es)"
  by (induction es arbitrary: s) (simp_all add: step_keeps)

lemma prefix_keeps: "invar s \<Longrightarrow> list_all legal es \<Longrightarrow> invar (foldl step s (take n es))"
  by (rule run_keeps) (auto simp: list_all_iff dest: in_set_takeD)

end

end
