(* ===== verification/Resources.thy ===== *)
theory Resources
  imports Prelude
begin

text \<open>
  The resource model shared by controller, coordinator and node manager:
  \<^verbatim>\<open>motor/common/resources/endpoint.py\<close> and \<^verbatim>\<open>motor/common/resources/instance.py\<close>.

  An \<open>Instance\<close> owns its \<open>Endpoint\<close> objects in a two-level dictionary (pod IP, then a local key).
  The tuple that \<open>get_all_endpoints\<close> caches holds references to those objects, so it is modelled
  as a list of paths (pod IP, key) that are looked up again when the cache is read.
  An argument \<open>ignored_endpoint_ids = None\<close> is the empty set, as in the code. Clock readings are
  arguments.
\<close>

section \<open>Endpoints: \<^verbatim>\<open>endpoint.py\<close>\<close>

record Workload =
  active_tokens :: pyfloat

definition empty_workload :: Workload where
  "empty_workload = \<lparr>active_tokens = 0\<rparr>"

definition workload_iadd :: "Workload \<Rightarrow> Workload \<Rightarrow> Workload" where
  "workload_iadd w other = w\<lparr>active_tokens := active_tokens w + active_tokens other\<rparr>"

definition calculate_workload_score :: "Workload \<Rightarrow> pyfloat" where
  "calculate_workload_score w = active_tokens w"

datatype WorkloadAction = ALLOCATION | RELEASE_TOKENS

record DeviceInfo =
  device_ip :: "string option"
  device_id :: string
  rank_id :: string
  super_device_id :: "string option"

datatype EndpointStatus = EP_INITIAL | EP_NORMAL | EP_ABNORMAL | EP_PAUSED | EP_WAIT2START

record Endpoint =
  ep_id :: int
  ep_ip :: string
  business_port :: string
  bootstrap_port :: "int option"
  kv_events_port :: "int option"
  ep_status :: EndpointStatus
  device_infos :: "DeviceInfo list"
  hb_timestamp :: pyfloat
  ep_workload :: Workload
  headless :: bool
  engine_rank :: "int option"

text \<open>
  The constructor: pydantic rejects a port outside 1..65535; a missing timestamp is the clock.
\<close>

definition port_ok :: "int option \<Rightarrow> bool" where
  "port_ok p = (case p of None \<Rightarrow> True | Some n \<Rightarrow> 1 \<le> n \<and> n \<le> 65535)"

definition Endpoint_init ::
  "pyfloat \<Rightarrow> int \<Rightarrow> string \<Rightarrow> string \<Rightarrow> int option \<Rightarrow> int option \<Rightarrow> EndpointStatus option
   \<Rightarrow> DeviceInfo list option \<Rightarrow> pyfloat option \<Rightarrow> Workload option \<Rightarrow> bool \<Rightarrow> int option
   \<Rightarrow> py_error + Endpoint" where
  "Endpoint_init now i ip bport boot kvp st devs hb wl hl er =
     (if \<not> port_ok boot \<or> \<not> port_ok kvp then Inl ValidationError
      else Inr \<lparr>ep_id = i, ep_ip = ip, business_port = bport, bootstrap_port = boot,
        kv_events_port = kvp,
        ep_status = (case st of Some s \<Rightarrow> s | None \<Rightarrow> EP_INITIAL),
        device_infos = (case devs of Some ds \<Rightarrow> ds | None \<Rightarrow> []),
        hb_timestamp = (case hb of Some t \<Rightarrow> t | None \<Rightarrow> now),
        ep_workload = (case wl of Some w \<Rightarrow> w | None \<Rightarrow> empty_workload),
        headless = hl, engine_rank = er\<rparr>)"

definition engine_dp_rank :: "Endpoint \<Rightarrow> int" where
  "engine_dp_rank ep = ep_id ep"

definition add_device :: "DeviceInfo \<Rightarrow> Endpoint \<Rightarrow> Endpoint" where
  "add_device d ep =
     (if d \<notin> set (device_infos ep) then ep\<lparr>device_infos := device_infos ep @ [d]\<rparr> else ep)"

definition del_device :: "DeviceInfo \<Rightarrow> Endpoint \<Rightarrow> Endpoint" where
  "del_device d ep =
     (if d \<in> set (device_infos ep) then ep\<lparr>device_infos := remove1 d (device_infos ep)\<rparr> else ep)"

definition is_alive :: "Endpoint \<Rightarrow> pyfloat \<Rightarrow> pyfloat \<Rightarrow> bool" where
  "is_alive ep timestamp heartbeat_timeout \<longleftrightarrow> timestamp - hb_timestamp ep \<le> heartbeat_timeout"

section \<open>Instances: \<^verbatim>\<open>instance.py\<close>\<close>

datatype InsStatus = INITIAL | INACTIVE | ACTIVE | PAUSED | DELETED

datatype PDRole = ROLE_E | ROLE_P | ROLE_D | ROLE_U

definition role_value :: "PDRole \<Rightarrow> string" where
  "role_value r = (case r of ROLE_E \<Rightarrow> ''encode'' | ROLE_P \<Rightarrow> ''prefill''
     | ROLE_D \<Rightarrow> ''decode'' | ROLE_U \<Rightarrow> ''union'')"

text \<open>
  \<open>PDRole(value)\<close>: the historical literal \<open>both\<close> is the union role; anything else raises.
\<close>

definition PDRole_of :: "string \<Rightarrow> PDRole option" where
  "PDRole_of v =
     (if v = ''encode'' then Some ROLE_E
      else if v = ''prefill'' then Some ROLE_P
      else if v = ''decode'' then Some ROLE_D
      else if v = ''union'' then Some ROLE_U
      else if v = ''both'' then Some ROLE_U
      else None)"

datatype InsConditionEvent =
    INSTANCE_INIT
  | INSTANCE_HEARTBEAT_TIMEOUT
  | INSTANCE_NORMAL
  | INSTANCE_ABNORMAL
  | INSTANCE_PAUSED
  | INSTANCE_RESUMED

record NodeManagerInfo =
  pod_ip :: string
  nm_port :: string
  device_num :: int

record FtCapabilitySnapshot =
  ft_enabled :: bool
  scale_down_supported :: bool
  external_lb :: bool
  auto_recovery :: bool
  fused_mc2_enabled :: bool
  eplb_enabled :: bool
  num_redundant_experts :: int

definition default_ft_capability :: FtCapabilitySnapshot where
  "default_ft_capability = \<lparr>ft_enabled = False, scale_down_supported = False, external_lb = False,
     auto_recovery = False, fused_mc2_enabled = False, eplb_enabled = False,
     num_redundant_experts = 0\<rparr>"

record ParallelConfig =
  dp_size :: int
  pcp_size :: int
  tp_size :: int
  ep_size :: int
  pp_size :: int
  world_size :: int
  local_world_size :: int
  dp_master_port :: int

definition ParallelConfig_init ::
  "int option \<Rightarrow> int option \<Rightarrow> int option \<Rightarrow> int option \<Rightarrow> int option \<Rightarrow> int option \<Rightarrow> int option
   \<Rightarrow> int \<Rightarrow> bool \<Rightarrow> py_error + ParallelConfig" where
  "ParallelConfig_init dp pcp tp ep pp ws lws port enable_ep =
     (let default = (\<lambda>d x. case x of Some v \<Rightarrow> v | None \<Rightarrow> d);
          dp_val = default 1 dp; pcp_val = default 1 pcp; tp_val = default 1 tp;
          pp_val = default 1 pp;
          ws0 = default 0 ws; lws0 = default 0 lws;
          ws_val = (if ws0 = 0 then dp_val * pcp_val * tp_val * pp_val else ws0);
          lws_val = (if lws0 = 0 then pcp_val * tp_val * pp_val else lws0);
          ep_val = (if enable_ep then ws_val else default 1 ep)
      in if \<not> (1 \<le> port \<and> port \<le> 65535) then Inl ValidationError
         else Inr \<lparr>dp_size = dp_val, pcp_size = pcp_val, tp_size = tp_val, ep_size = ep_val,
           pp_size = pp_val, world_size = ws_val, local_world_size = lws_val,
           dp_master_port = port\<rparr>)"

record Instance =
  job_name :: string
  model_name :: string
  engine_type :: "string option"
  dispatch_capabilities :: "string list"
  ft_capability :: FtCapabilitySnapshot
  ins_id :: int
  ins_role :: string
  ins_status :: InsStatus
  parallel_config :: "ParallelConfig option"
  enable_multi_endpoints :: bool
  node_managers :: "NodeManagerInfo list"
  endpoints :: "(string, (int, Endpoint) dict) dict"
  gathered_workload :: Workload
  endpoints_version :: int
  cached_endpoints_tuple :: "(string \<times> int) list option"
  cached_endpoints_version :: "int option"

definition CLEAR_INSTANCE_TIMEOUT :: pyfloat where
  "CLEAR_INSTANCE_TIMEOUT = 300"

definition DEFAULT_ACTIVE_HEARTBEAT_TIMEOUT :: pyfloat where
  "DEFAULT_ACTIVE_HEARTBEAT_TIMEOUT = 10"

text \<open>
  The nested loop over pods and their endpoints, with the path of every endpoint.
\<close>

definition ep_entries :: "Instance \<Rightarrow> ((string \<times> int) \<times> Endpoint) list" where
  "ep_entries ins =
     concat (map (\<lambda>(pod, eps). map (\<lambda>(k, ep). ((pod, k), ep)) eps) (endpoints ins))"

definition all_eps :: "Instance \<Rightarrow> Endpoint list" where
  "all_eps ins = concat (map (\<lambda>(pod, eps). dict_values eps) (endpoints ins))"

subsection \<open>Node managers\<close>

definition add_node_mgr :: "string option \<Rightarrow> string option \<Rightarrow> int \<Rightarrow> Instance \<Rightarrow> Instance" where
  "add_node_mgr ip port dev ins =
     (case (ip, port) of
        (Some i, Some p) \<Rightarrow>
          (let nm = \<lparr>pod_ip = i, nm_port = p, device_num = dev\<rparr>
           in if nm \<notin> set (node_managers ins)
              then ins\<lparr>node_managers := node_managers ins @ [nm]\<rparr> else ins)
      | _ \<Rightarrow> ins)"

fun pop_node_mgr :: "string \<Rightarrow> string \<Rightarrow> NodeManagerInfo list \<Rightarrow> NodeManagerInfo list" where
  "pop_node_mgr ip port [] = []"
| "pop_node_mgr ip port (nm # nms) =
     (if pod_ip nm = ip \<and> nm_port nm = port then nms else nm # pop_node_mgr ip port nms)"

definition del_node_mgr :: "string option \<Rightarrow> string option \<Rightarrow> Instance \<Rightarrow> Instance" where
  "del_node_mgr ip port ins =
     (case (ip, port) of
        (Some i, Some p) \<Rightarrow> ins\<lparr>node_managers := pop_node_mgr i p (node_managers ins)\<rparr>
      | _ \<Rightarrow> ins)"

definition has_node_mgr :: "string option \<Rightarrow> Instance \<Rightarrow> bool" where
  "has_node_mgr ip ins =
     (case ip of None \<Rightarrow> False | Some i \<Rightarrow> \<exists>nm \<in> set (node_managers ins). pod_ip nm = i)"

subsection \<open>Endpoint topology\<close>

definition get_endpoints_num :: "Instance \<Rightarrow> int" where
  "get_endpoints_num ins = int (sum_list (map (\<lambda>(pod, eps). length eps) (endpoints ins)))"

text \<open>
  A non-dictionary argument is \<open>None\<close>.
\<close>

definition add_endpoints :: "string \<Rightarrow> (int, Endpoint) dict option \<Rightarrow> Instance \<Rightarrow> Instance" where
  "add_endpoints ip new ins =
     (case new of
        None \<Rightarrow> ins
      | Some eps \<Rightarrow> ins\<lparr>endpoints := dict_set ip eps (endpoints ins),
                        endpoints_version := endpoints_version ins + 1\<rparr>)"

definition del_endpoints :: "string \<Rightarrow> Instance \<Rightarrow> Instance" where
  "del_endpoints ip ins =
     (if in_dict ip (endpoints ins)
      then ins\<lparr>endpoints := dict_pop ip (endpoints ins),
               endpoints_version := endpoints_version ins + 1\<rparr>
      else ins)"

definition get_expected_endpoint_count :: "Instance \<Rightarrow> int" where
  "get_expected_endpoint_count ins =
     (case parallel_config ins of
        None \<Rightarrow> 0
      | Some pc \<Rightarrow>
          if enable_multi_endpoints ins then dp_size pc
          else (case node_managers ins of
                  [] \<Rightarrow> 0
                | nm # _ \<Rightarrow>
                    if device_num nm \<le> 0 then 0
                    else (world_size pc + device_num nm - 1) div device_num nm))"

definition is_endpoints_enough :: "Instance \<Rightarrow> bool" where
  "is_endpoints_enough ins =
     (case parallel_config ins of
        None \<Rightarrow> False
      | Some pc \<Rightarrow>
          if enable_multi_endpoints ins then get_endpoints_num ins = dp_size pc
          else (let expected = get_expected_endpoint_count ins
                in if expected \<le> 0 then False else int (length (node_managers ins)) = expected))"

definition is_ip_in_endpoints :: "string \<Rightarrow> Instance \<Rightarrow> bool" where
  "is_ip_in_endpoints ip ins = in_dict ip (endpoints ins)"

definition get_endpoints :: "string \<Rightarrow> Instance \<Rightarrow> (int, Endpoint) dict" where
  "get_endpoints ip ins = (case dict_get (endpoints ins) ip of None \<Rightarrow> [] | Some eps \<Rightarrow> eps)"

definition invalidate_endpoints_cache :: "Instance \<Rightarrow> Instance" where
  "invalidate_endpoints_cache ins = ins\<lparr>endpoints_version := endpoints_version ins + 1\<rparr>"

text \<open>
  The object a path of the cached tuple refers to, the endpoints a scan keeps, and the scan with
  its versioned cache.
\<close>

definition deref :: "Instance \<Rightarrow> string \<times> int \<Rightarrow> Endpoint option" where
  "deref ins p =
     (case dict_get (endpoints ins) (fst p) of None \<Rightarrow> None | Some eps \<Rightarrow> dict_get eps (snd p))"

definition scan_endpoints :: "bool \<Rightarrow> Instance \<Rightarrow> ((string \<times> int) \<times> Endpoint) list" where
  "scan_endpoints include_headless ins =
     filter (\<lambda>(p, ep). (include_headless \<or> \<not> headless ep) \<and>
               (enable_multi_endpoints ins \<or> ep_id ep = 0))
            (ep_entries ins)"

definition get_all_endpoints :: "bool \<Rightarrow> Instance \<Rightarrow> Instance \<times> Endpoint list" where
  "get_all_endpoints include_headless ins =
     (case (if include_headless then None else cached_endpoints_tuple ins) of
        Some paths \<Rightarrow>
          if cached_endpoints_version ins = Some (endpoints_version ins)
          then (ins, List.map_filter (deref ins) paths)
          else (ins\<lparr>cached_endpoints_tuple := Some (map fst (scan_endpoints False ins)),
                    cached_endpoints_version := Some (endpoints_version ins)\<rparr>,
                map snd (scan_endpoints False ins))
      | None \<Rightarrow>
          (if include_headless then ins
           else ins\<lparr>cached_endpoints_tuple := Some (map fst (scan_endpoints False ins)),
                    cached_endpoints_version := Some (endpoints_version ins)\<rparr>,
           map snd (scan_endpoints include_headless ins)))"

subsection \<open>Health checks\<close>

datatype ServerExceptionReason = HEARTBEAT_TIMEOUT | ENDPOINT_ABNORMAL

record ServerExceptionEvent =
  endpoint_ip :: string
  endpoint_ids :: "int list"
  reason_id :: ServerExceptionReason

text \<open>
  The dictionary \<open>pod_ip -> [endpoint_id]\<close> a check collects, and the alarms it raises, one per IP
  in the order the IPs were first met.
\<close>

definition collect_by_ip :: "Endpoint list \<Rightarrow> (string, int list) dict" where
  "collect_by_ip eps =
     foldl (\<lambda>d ep. dict_set (ep_ip ep)
              ((case dict_get d (ep_ip ep) of None \<Rightarrow> [] | Some ids \<Rightarrow> ids) @ [ep_id ep]) d)
           [] eps"

definition exception_events :: "ServerExceptionReason \<Rightarrow> (string, int list) dict \<Rightarrow> ServerExceptionEvent list" where
  "exception_events r d = map (\<lambda>(ip, ids). \<lparr>endpoint_ip = ip, endpoint_ids = ids, reason_id = r\<rparr>) d"

definition is_all_endpoints_alive ::
  "pyfloat \<Rightarrow> pyfloat option \<Rightarrow> int set \<Rightarrow> Instance \<Rightarrow> bool \<times> ServerExceptionEvent list" where
  "is_all_endpoints_alive now active_timeout ignored ins =
     (let timeout = (if ins_status ins = ACTIVE
                     then (case active_timeout of Some t \<Rightarrow> t
                           | None \<Rightarrow> DEFAULT_ACTIVE_HEARTBEAT_TIMEOUT)
                     else CLEAR_INSTANCE_TIMEOUT);
          dead = collect_by_ip (filter (\<lambda>ep. ep_id ep \<notin> ignored \<and> \<not> is_alive ep now timeout)
                                       (all_eps ins))
      in if dead \<noteq> [] then (False, exception_events HEARTBEAT_TIMEOUT dead) else (True, []))"

fun ready_loop :: "int set \<Rightarrow> bool \<Rightarrow> Endpoint list \<Rightarrow> bool" where
  "ready_loop ignored has_routable [] = has_routable"
| "ready_loop ignored has_routable (ep # eps) =
     (if ep_id ep \<in> ignored then ready_loop ignored has_routable eps
      else if headless ep
      then (if ep_status ep \<notin> {EP_NORMAL, EP_WAIT2START} then False
            else ready_loop ignored has_routable eps)
      else if ep_status ep \<noteq> EP_NORMAL then False
      else ready_loop ignored True eps)"

definition is_all_endpoints_ready :: "int set \<Rightarrow> Instance \<Rightarrow> bool" where
  "is_all_endpoints_ready ignored ins = ready_loop ignored False (all_eps ins)"

definition is_all_endpoints_heartbeat_fresh :: "pyfloat \<Rightarrow> pyfloat \<Rightarrow> int set \<Rightarrow> Instance \<Rightarrow> bool" where
  "is_all_endpoints_heartbeat_fresh now timeout ignored ins =
     list_all (\<lambda>ep. ep_id ep \<in> ignored \<or> is_alive ep now timeout) (all_eps ins)"

definition is_have_one_endpoint_abnormal ::
  "int set \<Rightarrow> Instance \<Rightarrow> bool \<times> ServerExceptionEvent list" where
  "is_have_one_endpoint_abnormal ignored ins =
     (let abnormal = collect_by_ip (filter (\<lambda>ep. ep_id ep \<notin> ignored \<and> ep_status ep = EP_ABNORMAL)
                                           (all_eps ins))
      in if abnormal \<noteq> [] then (True, exception_events ENDPOINT_ABNORMAL abnormal) else (False, []))"

fun paused_loop :: "int set \<Rightarrow> bool \<Rightarrow> Endpoint list \<Rightarrow> bool" where
  "paused_loop ignored found [] = found"
| "paused_loop ignored found (ep # eps) =
     (if ep_id ep \<in> ignored then paused_loop ignored found eps
      else if ep_status ep \<noteq> EP_PAUSED then False
      else paused_loop ignored True eps)"

definition is_all_endpoints_paused :: "int set \<Rightarrow> Instance \<Rightarrow> bool" where
  "is_all_endpoints_paused ignored ins =
     (if endpoints ins = [] then False else paused_loop ignored False (all_eps ins))"

definition is_any_endpoint_paused :: "int set \<Rightarrow> Instance \<Rightarrow> bool" where
  "is_any_endpoint_paused ignored ins =
     list_ex (\<lambda>ep. ep_id ep \<notin> ignored \<and> ep_status ep = EP_PAUSED) (all_eps ins)"

subsection \<open>Heartbeats, status and copies\<close>

text \<open>
  \<open>expected_endpoints\<close>: from endpoint ID to the endpoint, here its key in the pod's dictionary; a
  repeated ID keeps the later endpoint.
\<close>

definition expected_endpoints :: "int set \<Rightarrow> (int, Endpoint) dict \<Rightarrow> (int, int) dict" where
  "expected_endpoints ignored eps =
     foldl (\<lambda>d (k, ep). if ep_id ep \<in> ignored then d else dict_set (ep_id ep) k d) [] eps"

definition write_heartbeat ::
  "pyfloat \<Rightarrow> (int, EndpointStatus) dict \<Rightarrow> int \<times> int \<Rightarrow> (int, Endpoint) dict \<Rightarrow> (int, Endpoint) dict" where
  "write_heartbeat ts st ik eps =
     dict_modify (snd ik)
       (\<lambda>ep. case dict_get st (fst ik) of
               None \<Rightarrow> ep
             | Some x \<Rightarrow> ep\<lparr>hb_timestamp := ts, ep_status := x\<rparr>)
       eps"

definition update_heartbeat ::
  "string \<Rightarrow> pyfloat \<Rightarrow> (int, EndpointStatus) dict \<Rightarrow> int set \<Rightarrow> Instance \<Rightarrow> Instance \<times> bool" where
  "update_heartbeat ip ts st ignored ins =
     (case dict_get (endpoints ins) ip of
        None \<Rightarrow> (ins, False)
      | Some eps \<Rightarrow>
          (let expected = expected_endpoints ignored eps
           in if set (dict_keys st) \<noteq> set (dict_keys expected) then (ins, False)
              else (ins\<lparr>endpoints := dict_set ip (fold (write_heartbeat ts st) expected eps)
                                        (endpoints ins)\<rparr>, True)))"

definition update_instance_status :: "InsStatus \<Rightarrow> Instance \<Rightarrow> Instance" where
  "update_instance_status st ins = ins\<lparr>ins_status := st\<rparr>"

text \<open>
  \<open>for endpoints in instance.endpoints.values(): ... endpoint.hb_timestamp = t\<close>
\<close>

definition refresh_all_heartbeats :: "pyfloat \<Rightarrow> Instance \<Rightarrow> Instance" where
  "refresh_all_heartbeats t ins =
     ins\<lparr>endpoints := map (\<lambda>(pod, eps). (pod, map (\<lambda>(k, ep). (k, ep\<lparr>hb_timestamp := t\<rparr>)) eps))
                          (endpoints ins)\<rparr>"

text \<open>
  \<open>ReadOnlyInstance.to_instance\<close> and \<open>ReadOnlyInstance.__deepcopy__\<close>: a fresh \<open>Instance\<close> whose cache
  fields are reset. The deep copy does not carry \<open>ft_capability\<close> over.
\<close>

definition to_instance :: "Instance \<Rightarrow> Instance" where
  "to_instance ins =
     \<lparr>job_name = job_name ins, model_name = model_name ins, engine_type = engine_type ins,
      dispatch_capabilities = dispatch_capabilities ins, ft_capability = ft_capability ins,
      ins_id = ins_id ins, ins_role = ins_role ins, ins_status = ins_status ins,
      parallel_config = parallel_config ins,
      enable_multi_endpoints = enable_multi_endpoints ins,
      node_managers = node_managers ins, endpoints = endpoints ins,
      gathered_workload = gathered_workload ins,
      endpoints_version = 0, cached_endpoints_tuple = None, cached_endpoints_version = None\<rparr>"

definition deepcopy_instance :: "Instance \<Rightarrow> Instance" where
  "deepcopy_instance ins =
     \<lparr>job_name = job_name ins, model_name = model_name ins, engine_type = engine_type ins,
      dispatch_capabilities = dispatch_capabilities ins, ft_capability = default_ft_capability,
      ins_id = ins_id ins, ins_role = ins_role ins, ins_status = ins_status ins,
      parallel_config = parallel_config ins,
      enable_multi_endpoints = enable_multi_endpoints ins,
      node_managers = node_managers ins, endpoints = endpoints ins,
      gathered_workload = gathered_workload ins,
      endpoints_version = 0, cached_endpoints_tuple = None, cached_endpoints_version = None\<rparr>"

subsection \<open>The instance as a component\<close>

datatype inst_op =
    Op_add_node_mgr "string option" "string option" int
  | Op_del_node_mgr "string option" "string option"
  | Op_add_endpoints string "(int, Endpoint) dict option"
  | Op_del_endpoints string
  | Op_invalidate
  | Op_get_all bool
  | Op_update_heartbeat string pyfloat "(int, EndpointStatus) dict" "int set"
  | Op_update_status InsStatus
  | Op_refresh pyfloat

fun inst_step :: "Instance \<Rightarrow> inst_op \<Rightarrow> Instance" where
  "inst_step ins (Op_add_node_mgr ip port dev) = add_node_mgr ip port dev ins"
| "inst_step ins (Op_del_node_mgr ip port) = del_node_mgr ip port ins"
| "inst_step ins (Op_add_endpoints ip new) = add_endpoints ip new ins"
| "inst_step ins (Op_del_endpoints ip) = del_endpoints ip ins"
| "inst_step ins Op_invalidate = invalidate_endpoints_cache ins"
| "inst_step ins (Op_get_all b) = fst (get_all_endpoints b ins)"
| "inst_step ins (Op_update_heartbeat ip ts st ign) = fst (update_heartbeat ip ts st ign ins)"
| "inst_step ins (Op_update_status st) = update_instance_status st ins"
| "inst_step ins (Op_refresh t) = refresh_all_heartbeats t ins"

text \<open>
  A dictionary argument has distinct keys.
\<close>

definition legal_inst_op :: "inst_op \<Rightarrow> bool" where
  "legal_inst_op op =
     (case op of Op_add_endpoints ip (Some eps) \<Rightarrow> distinct (dict_keys eps) | _ \<Rightarrow> True)"

definition wf_endpoints :: "Instance \<Rightarrow> bool" where
  "wf_endpoints ins \<longleftrightarrow> distinct (dict_keys (endpoints ins)) \<and>
     list_all (\<lambda>(pod, eps). distinct (dict_keys eps)) (endpoints ins)"

definition cache_ok :: "Instance \<Rightarrow> bool" where
  "cache_ok ins \<longleftrightarrow>
     (case cached_endpoints_version ins of
        None \<Rightarrow> True
      | Some v \<Rightarrow> v \<le> endpoints_version ins \<and>
          (v = endpoints_version ins \<longrightarrow>
             cached_endpoints_tuple ins = Some (map fst (scan_endpoints False ins))))"

definition instance_ok :: "Instance \<Rightarrow> bool" where
  "instance_ok ins \<longleftrightarrow> wf_endpoints ins \<and> cache_ok ins"

text \<open>
  The timeout the liveness check applies.
\<close>

definition liveness_timeout :: "pyfloat option \<Rightarrow> Instance \<Rightarrow> pyfloat" where
  "liveness_timeout t ins =
     (if ins_status ins = ACTIVE then (case t of Some t \<Rightarrow> t | None \<Rightarrow> DEFAULT_ACTIVE_HEARTBEAT_TIMEOUT)
      else CLEAR_INSTANCE_TIMEOUT)"

text \<open>
  A small instance for the witnesses: one pod with two endpoints.
\<close>

definition demo_endpoint :: "int \<Rightarrow> EndpointStatus \<Rightarrow> Endpoint" where
  "demo_endpoint i st = \<lparr>ep_id = i, ep_ip = ''10.0.0.1'', business_port = ''8000'', bootstrap_port = None,
     kv_events_port = None, ep_status = st, device_infos = [], hb_timestamp = 0,
     ep_workload = empty_workload, headless = False, engine_rank = None\<rparr>"

definition demo_instance :: "int \<Rightarrow> string \<Rightarrow> InsStatus \<Rightarrow> Instance" where
  "demo_instance i r st = \<lparr>job_name = ''job'', model_name = ''m'', engine_type = Some ''vllm'',
     dispatch_capabilities = [], ft_capability = default_ft_capability, ins_id = i, ins_role = r,
     ins_status = st, parallel_config = None, enable_multi_endpoints = True,
     node_managers = [\<lparr>pod_ip = ''10.0.0.1'', nm_port = ''90'', device_num = 2\<rparr>],
     endpoints = [(''10.0.0.1'', [(0, demo_endpoint 0 EP_NORMAL), (1, demo_endpoint 1 EP_NORMAL)])],
     gathered_workload = empty_workload, endpoints_version = 0, cached_endpoints_tuple = None,
     cached_endpoints_version = None\<rparr>"

text \<open>
  The IDs a pod is expected to report: those of its endpoints that are not ignored.
\<close>

definition pod_ids :: "int set \<Rightarrow> Instance \<Rightarrow> string \<Rightarrow> int list" where
  "pod_ids ign ins ip = map (ep_id \<circ> snd) (filter (\<lambda>(k, ep). ep_id ep \<notin> ign) (get_endpoints ip ins))"

text \<open>
  What a scan reads of the topology: paths, endpoint IDs and headless flags.
\<close>

definition pod_shape :: "(int, Endpoint) dict \<Rightarrow> (int \<times> int \<times> bool) list" where
  "pod_shape eps = map (\<lambda>(k, ep). (k, ep_id ep, headless ep)) eps"

definition shape :: "Instance \<Rightarrow> (string \<times> (int \<times> int \<times> bool) list) list" where
  "shape ins = map (\<lambda>(pod, eps). (pod, pod_shape eps)) (endpoints ins)"

section \<open>Endpoints of an instance\<close>

lemma map_snd_ep_entries: "map snd (ep_entries ins) = all_eps ins"
  unfolding ep_entries_def all_eps_def
  by (simp add: map_concat o_def case_prod_unfold)

lemma ep_entries_iff:
  assumes "wf_endpoints ins"
  shows "(p, ep) \<in> set (ep_entries ins) \<longleftrightarrow> deref ins p = Some ep"
proof -
  have "(p, ep) \<in> set (ep_entries ins) \<longleftrightarrow>
      (\<exists>eps. (fst p, eps) \<in> set (endpoints ins) \<and> (snd p, ep) \<in> set eps)"
    by (cases p) (force simp: ep_entries_def)
  also have "\<dots> \<longleftrightarrow> (\<exists>eps. dict_get (endpoints ins) (fst p) = Some eps \<and> dict_get eps (snd p) = Some ep)"
    using assms by (force simp: wf_endpoints_def list_all_iff dict_get_eq_iff)
  also have "\<dots> \<longleftrightarrow> deref ins p = Some ep"
    by (simp add: deref_def split: option.split)
  finally show ?thesis .
qed

lemma all_eps_iff:
  "wf_endpoints ins \<Longrightarrow> ep \<in> set (all_eps ins) \<longleftrightarrow> (\<exists>p. deref ins p = Some ep)"
  by (force simp: map_snd_ep_entries[symmetric] image_iff ep_entries_iff[symmetric])

lemma map_filter_deref:
  "list_all (\<lambda>(p, ep). deref ins p = Some ep) xs \<Longrightarrow>
   List.map_filter (deref ins) (map fst xs) = map snd xs"
  by (induction xs) (auto simp: List.map_filter_simps)

lemma scan_deref:
  "wf_endpoints ins \<Longrightarrow> List.map_filter (deref ins) (map fst (scan_endpoints b ins)) = map snd (scan_endpoints b ins)"
  by (rule map_filter_deref) (auto simp: list_all_iff scan_endpoints_def ep_entries_iff)

lemma snd_get_all_endpoints:
  "instance_ok ins \<Longrightarrow> snd (get_all_endpoints b ins) = map snd (scan_endpoints b ins)"
  by (auto simp: get_all_endpoints_def instance_ok_def cache_ok_def scan_deref split: option.splits)

subsection \<open>The shape a scan reads\<close>

lemma scan_paths_shape:
  "map fst (scan_endpoints b ins) =
   map fst (filter (\<lambda>(p, i, h). (b \<or> \<not> h) \<and> (enable_multi_endpoints ins \<or> i = 0))
     (concat (map (\<lambda>(pod, eps). map (\<lambda>(k, ih). ((pod, k), ih)) eps) (shape ins))))"
proof -
  have pod: "map fst (filter (\<lambda>(p, ep). Q (ep_id ep) (headless ep)) (map (\<lambda>(k, ep). ((pod, k), ep)) eps)) =
     map fst (filter (\<lambda>(p, i, h). Q i h) (map (\<lambda>(k, ih). ((pod, k), ih)) (pod_shape eps)))" for Q pod eps
    by (induction eps) (auto simp: pod_shape_def)
  have all: "map fst (filter (\<lambda>(p, ep). Q (ep_id ep) (headless ep))
        (concat (map (\<lambda>(pod, eps). map (\<lambda>(k, ep). ((pod, k), ep)) eps) xs))) =
     map fst (filter (\<lambda>(p, i, h). Q i h)
        (concat (map (\<lambda>(pod, eps). map (\<lambda>(k, ih). ((pod, k), ih)) eps)
           (map (\<lambda>(pod, eps). (pod, pod_shape eps)) xs))))" for Q xs
    by (induction xs) (auto simp: pod)
  show ?thesis
    unfolding scan_endpoints_def ep_entries_def shape_def
    by (rule all[of "\<lambda>i h. (b \<or> \<not> h) \<and> (enable_multi_endpoints ins \<or> i = 0)"])
qed

lemma scan_paths_cong:
  "shape ins = shape ins' \<Longrightarrow> enable_multi_endpoints ins = enable_multi_endpoints ins' \<Longrightarrow>
   map fst (scan_endpoints b ins) = map fst (scan_endpoints b ins')"
  by (simp add: scan_paths_shape)

lemma wf_endpoints_shape:
  "wf_endpoints ins \<longleftrightarrow> distinct (map fst (shape ins)) \<and>
     list_all (\<lambda>(pod, eps). distinct (map fst eps)) (shape ins)"
  by (auto simp: wf_endpoints_def shape_def pod_shape_def list_all_iff split_beta o_def)

lemma instance_ok_cong:
  assumes "shape ins' = shape ins"
    and "enable_multi_endpoints ins' = enable_multi_endpoints ins"
    and "endpoints_version ins' = endpoints_version ins"
    and "cached_endpoints_tuple ins' = cached_endpoints_tuple ins"
    and "cached_endpoints_version ins' = cached_endpoints_version ins"
    and "instance_ok ins"
  shows "instance_ok ins'"
proof -
  have "map fst (scan_endpoints False ins') = map fst (scan_endpoints False ins)"
    using assms(1,2) by (rule scan_paths_cong)
  then show ?thesis
    using assms by (simp add: instance_ok_def cache_ok_def wf_endpoints_shape cong: option.case_cong)
qed

lemma pod_shape_modify:
  assumes "\<And>ep. ep_id (f ep) = ep_id ep" and "\<And>ep. headless (f ep) = headless ep"
  shows "pod_shape (dict_modify k f eps) = pod_shape eps"
  by (induction eps) (auto simp: pod_shape_def assms)

lemma pod_shape_write [simp]: "pod_shape (write_heartbeat ts st ik eps) = pod_shape eps"
  unfolding write_heartbeat_def by (rule pod_shape_modify) (auto split: option.splits)

lemma pod_shape_fold_write [simp]: "pod_shape (fold (write_heartbeat ts st) xs eps) = pod_shape eps"
  by (induction xs arbitrary: eps) auto

lemma shape_dict_set:
  "dict_get es ip = Some eps \<Longrightarrow> pod_shape eps' = pod_shape eps \<Longrightarrow>
   map (\<lambda>(pod, eps). (pod, pod_shape eps)) (dict_set ip eps' es) =
   map (\<lambda>(pod, eps). (pod, pod_shape eps)) es"
  by (induction es) (auto split: if_splits)

lemma shape_update_heartbeat [simp]: "shape (fst (update_heartbeat ip ts st ign ins)) = shape ins"
  by (auto simp: update_heartbeat_def shape_def Let_def shape_dict_set split: option.splits)

lemma shape_refresh [simp]: "shape (refresh_all_heartbeats t ins) = shape ins"
  by (auto simp: refresh_all_heartbeats_def shape_def pod_shape_def)

lemma update_heartbeat_frame [frame_simps]:
  "enable_multi_endpoints (fst (update_heartbeat ip ts st ign ins)) = enable_multi_endpoints ins"
  "endpoints_version (fst (update_heartbeat ip ts st ign ins)) = endpoints_version ins"
  "cached_endpoints_tuple (fst (update_heartbeat ip ts st ign ins)) = cached_endpoints_tuple ins"
  "cached_endpoints_version (fst (update_heartbeat ip ts st ign ins)) = cached_endpoints_version ins"
  "ins_status (fst (update_heartbeat ip ts st ign ins)) = ins_status ins"
  "ins_id (fst (update_heartbeat ip ts st ign ins)) = ins_id ins"
  "job_name (fst (update_heartbeat ip ts st ign ins)) = job_name ins"
  "node_managers (fst (update_heartbeat ip ts st ign ins)) = node_managers ins"
  "ins_role (fst (update_heartbeat ip ts st ign ins)) = ins_role ins"
  by (auto simp: update_heartbeat_def Let_def split: option.splits)

lemma refresh_frame [frame_simps]:
  "ins_status (refresh_all_heartbeats t ins) = ins_status ins"
  "ins_id (refresh_all_heartbeats t ins) = ins_id ins"
  "job_name (refresh_all_heartbeats t ins) = job_name ins"
  "node_managers (refresh_all_heartbeats t ins) = node_managers ins"
  "ins_role (refresh_all_heartbeats t ins) = ins_role ins"
  by (simp_all add: refresh_all_heartbeats_def)

lemma instance_ok_step:
  assumes "instance_ok ins" and "legal_inst_op op"
  shows "instance_ok (inst_step ins op)"
proof (cases op)
  case (Op_add_node_mgr ip port dev)
  with assms show ?thesis
    by (auto simp: add_node_mgr_def Let_def split: option.splits elim!: instance_ok_cong[rotated -1] simp: shape_def)
next
  case (Op_del_node_mgr ip port)
  with assms show ?thesis
    by (auto simp: del_node_mgr_def split: option.splits elim!: instance_ok_cong[rotated -1] simp: shape_def)
next
  case (Op_add_endpoints ip new)
  with assms show ?thesis
    by (cases new) (auto simp: legal_inst_op_def add_endpoints_def instance_ok_def cache_ok_def wf_endpoints_def
        list_all_iff set_dict_set split: option.splits)
next
  case (Op_del_endpoints ip)
  with assms show ?thesis
    by (auto simp: del_endpoints_def instance_ok_def cache_ok_def wf_endpoints_def
        list_all_iff set_dict_pop split: option.splits)
next
  case Op_invalidate
  with assms show ?thesis
    by (auto simp: invalidate_endpoints_cache_def instance_ok_def cache_ok_def wf_endpoints_def split: option.splits)
next
  case (Op_get_all b)
  have scan: "scan_endpoints c (ins\<lparr>cached_endpoints_tuple := x, cached_endpoints_version := y\<rparr>) = scan_endpoints c ins" for c x y
    by (simp add: scan_endpoints_def ep_entries_def)
  from assms Op_get_all show ?thesis
    by (auto simp: get_all_endpoints_def instance_ok_def cache_ok_def wf_endpoints_def scan split: option.splits)
next
  case (Op_update_heartbeat ip ts st ign)
  with assms show ?thesis
    by (auto intro: instance_ok_cong[of _ ins] simp: frame_simps)
next
  case (Op_update_status st)
  with assms show ?thesis
    by (auto simp: update_instance_status_def elim!: instance_ok_cong[rotated -1] simp: shape_def)
next
  case (Op_refresh t)
  with assms show ?thesis
    by (auto intro!: instance_ok_cong[of "refresh_all_heartbeats t ins" ins]) (auto simp: refresh_all_heartbeats_def)
qed

interpretation inst_run: step_invariant inst_step legal_inst_op instance_ok
  by unfold_locales (rule instance_ok_step)

section \<open>Heartbeats\<close>

lemma expected_endpoints_filter:
  "expected_endpoints ign eps =
     foldl (\<lambda>d x. dict_set (ep_id (snd x)) (fst x) d) [] (filter (\<lambda>(k, ep). ep_id ep \<notin> ign) eps)"
proof -
  have "expected_endpoints ign eps =
      foldl (\<lambda>d x. if ep_id (snd x) \<notin> ign then dict_set (ep_id (snd x)) (fst x) d else d) [] eps"
    unfolding expected_endpoints_def by (rule arg_cong[of _ _ "\<lambda>f. foldl f [] eps"]) (simp add: fun_eq_iff)
  then show ?thesis by (simp only: foldl_if_filter case_prod_unfold)
qed

lemma expected_endpoints_keys:
  "fst ` set (expected_endpoints ign eps) = ep_id ` {ep \<in> snd ` set eps. ep_id ep \<notin> ign}"
  by (auto simp: expected_endpoints_filter foldl_dict_set_keys)

lemma expected_endpoints_distinct:
  assumes "distinct (map (ep_id \<circ> snd) (filter (\<lambda>(k, ep). ep_id ep \<notin> ign) eps))"
  shows "expected_endpoints ign eps = map (\<lambda>(k, ep). (ep_id ep, k)) (filter (\<lambda>(k, ep). ep_id ep \<notin> ign) eps)"
  using foldl_dict_set_fresh[of "ep_id \<circ> snd" "filter (\<lambda>(k, ep). ep_id ep \<notin> ign) eps" "[]" fst] assms
  by (simp add: expected_endpoints_filter case_prod_unfold)

lemma fold_write_heartbeat:
  assumes "distinct (map snd xs)"
  shows "dict_get (fold (write_heartbeat ts st) xs eps) k =
     (case dict_get (map (\<lambda>(i, k). (k, i)) xs) k of
        None \<Rightarrow> dict_get eps k
      | Some i \<Rightarrow> map_option (\<lambda>ep. case dict_get st i of None \<Rightarrow> ep
                    | Some x \<Rightarrow> ep\<lparr>hb_timestamp := ts, ep_status := x\<rparr>) (dict_get eps k))"
  using assms
proof (induction xs arbitrary: eps)
  case (Cons x xs)
  obtain i k' where x: "x = (i, k')" by (cases x)
  from Cons.prems x have "k' \<notin> snd ` set xs" by auto
  then have "dict_get (map (\<lambda>(i, k). (k, i)) xs) k' = None"
    by (auto simp: map_of_eq_None_iff image_iff case_prod_unfold)
  with Cons x show ?case
    by (auto simp: write_heartbeat_def split: option.splits)
qed simp

lemma update_heartbeat_iff:
  "snd (update_heartbeat ip ts st ign ins) \<longleftrightarrow>
     in_dict ip (endpoints ins) \<and> set (dict_keys st) = set (pod_ids ign ins ip)"
proof (cases "dict_get (endpoints ins) ip")
  case (Some eps)
  have "ep_id ` {ep \<in> snd ` set eps. ep_id ep \<notin> ign} = set (pod_ids ign ins ip)"
    using Some by (auto simp: pod_ids_def get_endpoints_def case_prod_unfold image_iff)
  with Some show ?thesis
    by (simp add: update_heartbeat_def Let_def expected_endpoints_keys)
qed (simp add: update_heartbeat_def)

lemma update_heartbeat_accepted:
  assumes "snd (update_heartbeat ip ts st ign ins)" and "dict_get (endpoints ins) ip = Some eps"
  shows "fst (update_heartbeat ip ts st ign ins) =
    ins\<lparr>endpoints := dict_set ip (fold (write_heartbeat ts st) (expected_endpoints ign eps) eps) (endpoints ins)\<rparr>"
proof -
  from assms have "set (dict_keys st) = set (dict_keys (expected_endpoints ign eps))"
    by (simp add: update_heartbeat_def Let_def split: if_split_asm)
  then show ?thesis by (simp only: update_heartbeat_def assms(2) Let_def) simp
qed

lemma update_heartbeat_rejected:
  assumes "\<not> snd (update_heartbeat ip ts st ign ins)"
  shows "fst (update_heartbeat ip ts st ign ins) = ins"
proof (cases "dict_get (endpoints ins) ip")
  case (Some eps)
  with assms have "set (dict_keys st) \<noteq> set (dict_keys (expected_endpoints ign eps))"
    by (simp add: update_heartbeat_def Let_def split: if_split_asm)
  then show ?thesis by (simp only: update_heartbeat_def Some Let_def) simp
qed (simp add: update_heartbeat_def)

lemma update_heartbeat_other_pod:
  "pod \<noteq> ip \<Longrightarrow> deref (fst (update_heartbeat ip ts st ign ins)) (pod, k) = deref ins (pod, k)"
  by (simp add: update_heartbeat_def Let_def deref_def split: option.split)

lemma update_heartbeat_pod:
  assumes wf: "wf_endpoints ins" and ids: "distinct (pod_ids ign ins ip)"
    and acc: "snd (update_heartbeat ip ts st ign ins)"
    and ep: "deref ins (ip, k) = Some ep"
  shows "deref (fst (update_heartbeat ip ts st ign ins)) (ip, k) =
     Some (if ep_id ep \<in> ign then ep
           else ep\<lparr>hb_timestamp := ts, ep_status := the (dict_get st (ep_id ep))\<rparr>)"
proof -
  from ep obtain eps where eps: "dict_get (endpoints ins) ip = Some eps" and k: "dict_get eps k = Some ep"
    by (auto simp: deref_def split: option.splits)
  let ?live = "filter (\<lambda>(k, ep). ep_id ep \<notin> ign) eps"
  let ?xs = "map (\<lambda>(k, ep). (ep_id ep, k)) ?live"
  from wf eps have dk: "distinct (dict_keys eps)"
    by (auto simp: wf_endpoints_def list_all_iff dest!: dict_get_in)
  from ids eps have exp: "expected_endpoints ign eps = ?xs"
    by (intro expected_endpoints_distinct) (simp add: pod_ids_def get_endpoints_def)
  have dl: "distinct (map fst ?live)"
    using dk by (rule distinct_map_filter)
  then have ds: "distinct (map snd ?xs)" by (simp add: o_def case_prod_unfold)
  have inv: "dict_get (map (\<lambda>(i, k). (k, i)) ?xs) k = (if ep_id ep \<in> ign then None else Some (ep_id ep))"
    using dict_get_filter_map[OF dk, where P = "\<lambda>ep. ep_id ep \<notin> ign" and f = ep_id and k = k] k
    by (simp add: o_def case_prod_unfold)
  have keys: "dict_get st (ep_id ep) \<noteq> None" if "ep_id ep \<notin> ign"
  proof -
    from that k eps have "ep_id ep \<in> set (pod_ids ign ins ip)"
      by (force simp: pod_ids_def get_endpoints_def dest: dict_get_in)
    with acc have "ep_id ep \<in> fst ` set st" by (simp add: update_heartbeat_iff)
    then show ?thesis by (rule in_dict_iff[THEN iffD2])
  qed
  from update_heartbeat_accepted[OF acc eps] have "fst (update_heartbeat ip ts st ign ins) =
      ins\<lparr>endpoints := dict_set ip (fold (write_heartbeat ts st) ?xs eps) (endpoints ins)\<rparr>"
    by (simp only: exp)
  then have "deref (fst (update_heartbeat ip ts st ign ins)) (ip, k) =
      dict_get (fold (write_heartbeat ts st) ?xs eps) k"
    by (simp add: deref_def)
  also have "\<dots> = Some (if ep_id ep \<in> ign then ep
           else ep\<lparr>hb_timestamp := ts, ep_status := the (dict_get st (ep_id ep))\<rparr>)"
    using keys by (cases "dict_get st (ep_id ep)"; cases "ep_id ep \<in> ign") (simp_all add: fold_write_heartbeat[OF ds] inv k del: map_map)
  finally show ?thesis .
qed

section \<open>Health checks\<close>

lemma ready_loop_iff:
  "ready_loop ign b eps \<longleftrightarrow>
     (b \<or> (\<exists>ep \<in> set eps. ep_id ep \<notin> ign \<and> \<not> headless ep)) \<and>
     (\<forall>ep \<in> set eps. ep_id ep \<notin> ign \<longrightarrow>
        (if headless ep then ep_status ep \<in> {EP_NORMAL, EP_WAIT2START} else ep_status ep = EP_NORMAL))"
  by (induction eps arbitrary: b) auto

lemma paused_loop_iff:
  "paused_loop ign b eps \<longleftrightarrow>
     (b \<or> (\<exists>ep \<in> set eps. ep_id ep \<notin> ign)) \<and>
     (\<forall>ep \<in> set eps. ep_id ep \<notin> ign \<longrightarrow> ep_status ep = EP_PAUSED)"
  by (induction eps arbitrary: b) auto

lemma is_all_endpoints_paused_iff:
  "is_all_endpoints_paused ign ins \<longleftrightarrow>
     (\<exists>ep \<in> set (all_eps ins). ep_id ep \<notin> ign) \<and>
     (\<forall>ep \<in> set (all_eps ins). ep_id ep \<notin> ign \<longrightarrow> ep_status ep = EP_PAUSED)"
  by (auto simp: is_all_endpoints_paused_def paused_loop_iff all_eps_def)

lemma collect_by_ip_nonempty:
  "d \<noteq> [] \<or> eps \<noteq> [] \<Longrightarrow> foldl (\<lambda>d ep. dict_set (ep_ip ep) (f d ep) d) d eps \<noteq> []"
proof (induction eps arbitrary: d)
  case (Cons ep eps)
  have "dict_set (ep_ip ep) (f d ep) d \<noteq> []" by (cases d) auto
  then show ?case using Cons.IH by simp
qed simp

lemma collect_by_ip_empty_iff: "collect_by_ip eps = [] \<longleftrightarrow> eps = []"
  unfolding collect_by_ip_def using collect_by_ip_nonempty by force

lemma is_all_endpoints_alive_iff:
  "fst (is_all_endpoints_alive now t ign ins) \<longleftrightarrow>
     (\<forall>ep \<in> set (all_eps ins). ep_id ep \<in> ign \<or> is_alive ep now (liveness_timeout t ins))"
  by (auto simp: is_all_endpoints_alive_def Let_def collect_by_ip_empty_iff filter_empty_conv liveness_timeout_def)

lemma is_have_one_endpoint_abnormal_iff:
  "fst (is_have_one_endpoint_abnormal ign ins) \<longleftrightarrow>
     (\<exists>ep \<in> set (all_eps ins). ep_id ep \<notin> ign \<and> ep_status ep = EP_ABNORMAL)"
  by (auto simp: is_have_one_endpoint_abnormal_def Let_def collect_by_ip_empty_iff filter_empty_conv)

lemma is_all_endpoints_ready_iff:
  "is_all_endpoints_ready ign ins \<longleftrightarrow>
     (\<exists>ep \<in> set (all_eps ins). ep_id ep \<notin> ign \<and> \<not> headless ep) \<and>
     (\<forall>ep \<in> set (all_eps ins). ep_id ep \<in> ign \<or>
        ep_status ep = EP_NORMAL \<or> (headless ep \<and> ep_status ep = EP_WAIT2START))"
  by (auto simp: is_all_endpoints_ready_def ready_loop_iff split: if_splits)

section \<open>Properties\<close>

text \<open>
  C30: a heartbeat is all or nothing. It is accepted exactly when its pod is registered and the
  reported IDs are those of the pod's endpoints that are not ignored; a rejected heartbeat leaves
  the instance as it was; an accepted one stamps every such endpoint of that pod with the
  timestamp and its own reported status, and changes no other endpoint.
\<close>

theorem update_heartbeat_exact:
  assumes "wf_endpoints ins" and "distinct (pod_ids ign ins ip)"
    and "update_heartbeat ip ts st ign ins = (ins', accepted)"
  shows "accepted = (in_dict ip (endpoints ins) \<and> set (dict_keys st) = set (pod_ids ign ins ip)) \<and>
    (if accepted
     then \<forall>pod k ep. deref ins (pod, k) = Some ep \<longrightarrow>
            deref ins' (pod, k) =
              Some (if pod = ip \<and> ep_id ep \<notin> ign
                    then ep\<lparr>hb_timestamp := ts, ep_status := the (dict_get st (ep_id ep))\<rparr> else ep)
     else ins' = ins)"
proof -
  have u: "ins' = fst (update_heartbeat ip ts st ign ins)" "accepted = snd (update_heartbeat ip ts st ign ins)"
    using assms(3) by simp_all
  have "ins' = ins" if "\<not> accepted"
    using that u update_heartbeat_rejected by blast
  moreover have "deref ins' (pod, k) =
      Some (if pod = ip \<and> ep_id ep \<notin> ign
            then ep\<lparr>hb_timestamp := ts, ep_status := the (dict_get st (ep_id ep))\<rparr> else ep)"
    if "accepted" "deref ins (pod, k) = Some ep" for pod k ep
    using that u update_heartbeat_other_pod[of pod ip ts st ign ins k]
      update_heartbeat_pod[OF assms(1,2), of ts st k ep]
    by (cases "pod = ip") simp_all
  ultimately show ?thesis using u update_heartbeat_iff by auto
qed

theorem update_heartbeat_exact_witness:
  "let ins = demo_instance 7 ''prefill'' ACTIVE;
       (ins', ok) = update_heartbeat ''10.0.0.1'' 5 [(1, EP_NORMAL), (0, EP_PAUSED)] {} ins
   in ok \<and> deref ins' (''10.0.0.1'', 0) =
        Some ((demo_endpoint 0 EP_NORMAL)\<lparr>hb_timestamp := 5, ep_status := EP_PAUSED\<rparr>)"
proof -
  let ?i = "demo_instance 7 ''prefill'' ACTIVE" and ?st = "[(1, EP_NORMAL), (0, EP_PAUSED)]"
  have wf: "wf_endpoints ?i" by (simp add: wf_endpoints_def demo_instance_def)
  have ids: "pod_ids {} ?i ''10.0.0.1'' = [0, 1]"
    by (simp add: pod_ids_def get_endpoints_def demo_instance_def demo_endpoint_def)
  have d: "deref ?i (''10.0.0.1'', 0) = Some (demo_endpoint 0 EP_NORMAL)"
    by (simp add: deref_def demo_instance_def)
  obtain ins' ok where u: "update_heartbeat ''10.0.0.1'' 5 ?st {} ?i = (ins', ok)" by fastforce
  have "ok" "deref ins' (''10.0.0.1'', 0) = Some ((demo_endpoint 0 EP_NORMAL)\<lparr>hb_timestamp := 5, ep_status := EP_PAUSED\<rparr>)"
    using update_heartbeat_exact[OF wf _ u] ids d by (auto simp: demo_instance_def demo_endpoint_def split: if_splits)
  with u show ?thesis by simp
qed

text \<open>
  The cached scan is coherent. After any sequence of operations on a freshly constructed
  instance, \<open>get_all_endpoints\<close> returns what an uncached scan of the current topology returns: in
  dictionary order the endpoints that are not headless (unless asked for), all of them in
  multi-endpoint mode and those with ID 0 otherwise.
\<close>

theorem get_all_endpoints_coherent:
  assumes "wf_endpoints ins" and "cached_endpoints_version ins = None" and "list_all legal_inst_op ops"
  shows "snd (get_all_endpoints b (foldl inst_step ins ops)) =
    filter (\<lambda>ep. (b \<or> \<not> headless ep) \<and>
                 (enable_multi_endpoints (foldl inst_step ins ops) \<or> ep_id ep = 0))
           (all_eps (foldl inst_step ins ops))"
proof -
  let ?i = "foldl inst_step ins ops"
  have "instance_ok ins" using assms by (simp add: instance_ok_def cache_ok_def)
  then have ok: "instance_ok ?i" using assms(3) by (rule inst_run.run_keeps)
  show ?thesis
    by (simp add: snd_get_all_endpoints[OF ok] scan_endpoints_def map_snd_ep_entries[symmetric]
        filter_map o_def case_prod_unfold)
qed

theorem get_all_endpoints_coherent_witness:
  "snd (get_all_endpoints False
     (foldl inst_step (demo_instance 7 ''prefill'' ACTIVE)
        [Op_get_all False, Op_add_endpoints ''10.0.0.2'' (Some [(0, demo_endpoint 2 EP_NORMAL)]), Op_get_all False,
         Op_update_heartbeat ''10.0.0.2'' 9 [(2, EP_ABNORMAL)] {}])) =
   [demo_endpoint 0 EP_NORMAL, demo_endpoint 1 EP_NORMAL,
    (demo_endpoint 2 EP_NORMAL)\<lparr>hb_timestamp := 9, ep_status := EP_ABNORMAL\<rparr>]"
proof -
  let ?i = "demo_instance 7 ''prefill'' ACTIVE"
  have "wf_endpoints ?i" "cached_endpoints_version ?i = None"
    by (simp_all add: wf_endpoints_def demo_instance_def)
  note c = get_all_endpoints_coherent[OF this, of "[Op_get_all False, Op_add_endpoints ''10.0.0.2'' (Some [(0, demo_endpoint 2 EP_NORMAL)]), Op_get_all False,
         Op_update_heartbeat ''10.0.0.2'' 9 [(2, EP_ABNORMAL)] {}]" False]
  show ?thesis
    by (subst c) (simp_all add: legal_inst_op_def demo_instance_def demo_endpoint_def get_all_endpoints_def add_endpoints_def
      update_heartbeat_def Let_def expected_endpoints_def write_heartbeat_def all_eps_def)
qed

end
