(* ===== verification/Ft_Runtime.thy ===== *)
theory Ft_Runtime
  imports Resources
begin

text \<open>
  The fault-tolerance runtime of the controller:
  \<^verbatim>\<open>motor/controller/fault_tolerance/dp_scale_down.py\<close>.

  \<open>FtRuntimeStore\<close> keeps one \<open>FtRuntime\<close> per instance. Its lock makes every operation atomic, and
  it hands out copies only, so the store is a dictionary of values. The persist callback is
  modelled by whether it is installed and by the number of times it was called.
  The topology functions read an instance's endpoint table; the cache write inside
  \<open>get_all_endpoints\<close> is the subject of theory \<open>Resources\<close> and is not threaded here.
  \<open>str()\<close> of a JSON float, list or object is the argument \<open>rp\<close>.
\<close>

section \<open>Runtime records\<close>

datatype FtPhase =
    PH_DISABLED
  | PH_NORMAL
  | PH_DECIDING
  | PH_WAITING_ENGINE_FAULT
  | PH_SCALING_DOWN
  | PH_POST_SCALE_CLEANUP
  | PH_SCALED_DOWN_RUNNING
  | PH_WARMING_UP
  | PH_RECONFIGURING

definition phase_value :: "FtPhase \<Rightarrow> string" where
  "phase_value p = (case p of
     PH_DISABLED \<Rightarrow> ''DISABLED''
   | PH_NORMAL \<Rightarrow> ''NORMAL''
   | PH_DECIDING \<Rightarrow> ''DECIDING''
   | PH_WAITING_ENGINE_FAULT \<Rightarrow> ''WAITING_ENGINE_FAULT''
   | PH_SCALING_DOWN \<Rightarrow> ''SCALING_DOWN''
   | PH_POST_SCALE_CLEANUP \<Rightarrow> ''POST_SCALE_CLEANUP''
   | PH_SCALED_DOWN_RUNNING \<Rightarrow> ''SCALED_DOWN_RUNNING''
   | PH_WARMING_UP \<Rightarrow> ''WARMING_UP''
   | PH_RECONFIGURING \<Rightarrow> ''RECONFIGURING'')"

definition all_phases :: "FtPhase list" where
  "all_phases = [PH_DISABLED, PH_NORMAL, PH_DECIDING, PH_WAITING_ENGINE_FAULT, PH_SCALING_DOWN,
     PH_POST_SCALE_CLEANUP, PH_SCALED_DOWN_RUNNING, PH_WARMING_UP, PH_RECONFIGURING]"

text \<open>
  \<open>FtPhase(value)\<close>, which raises \<open>ValueError\<close> (here \<open>None\<close>) on anything that is not a value.
\<close>

definition FtPhase_of :: "json \<Rightarrow> FtPhase option" where
  "FtPhase_of j = (case j of JStr s \<Rightarrow> find (\<lambda>p. phase_value p = s) all_phases | _ \<Rightarrow> None)"

record GateSnapshot =
  gate_allowed :: bool
  reason_codes :: "string list"

definition default_gate :: GateSnapshot where
  "default_gate = \<lparr>gate_allowed = False, reason_codes = []\<rparr>"

record FtRuntime =
  rt_instance_id :: int
  phase :: FtPhase
  original_dp_ranks :: "int list"
  request_id :: string
  dead_committed :: "int list"
  serving_dp_ranks :: "int list"
  pending_removed_ranks :: "int list"
  fallback_strategy :: string
  gate :: GateSnapshot
  engine_statuses :: "(int, json) dict"
  serving_published :: bool
  reconfiguration_dispatched :: bool
  last_error :: "string option"

definition new_runtime :: "int \<Rightarrow> FtRuntime" where
  "new_runtime i = \<lparr>rt_instance_id = i, phase = PH_NORMAL, original_dp_ranks = [], request_id = [],
     dead_committed = [], serving_dp_ranks = [], pending_removed_ranks = [], fallback_strategy = [],
     gate = default_gate, engine_statuses = [], serving_published = True,
     reconfiguration_dispatched = False, last_error = None\<rparr>"

text \<open>
  The two derived entries of \<open>to_dict\<close>.
\<close>

definition alive_dp_ranks :: "FtRuntime \<Rightarrow> int list" where
  "alive_dp_ranks rt =
     sorted_list_of_set (set (original_dp_ranks rt) -
       (set (dead_committed rt) \<union> set (pending_removed_ranks rt)))"

definition can_serve :: "FtRuntime \<Rightarrow> bool" where
  "can_serve rt \<longleftrightarrow>
     phase rt \<in> {PH_NORMAL, PH_SCALED_DOWN_RUNNING, PH_WARMING_UP} \<and> serving_published rt"

section \<open>The store\<close>

record FtRuntimeStore =
  rt_instances :: "(int, FtRuntime) dict"
  rt_persist_callback :: bool
  rt_persist_calls :: nat

definition empty_store :: FtRuntimeStore where
  "empty_store = \<lparr>rt_instances = [], rt_persist_callback = False, rt_persist_calls = 0\<rparr>"

definition COMMITTED_PHASES :: "FtPhase set" where
  "COMMITTED_PHASES = {PH_POST_SCALE_CLEANUP, PH_SCALED_DOWN_RUNNING}"

definition INCOMPLETE_PHASES :: "FtPhase set" where
  "INCOMPLETE_PHASES = {PH_DECIDING, PH_WAITING_ENGINE_FAULT, PH_SCALING_DOWN, PH_RECONFIGURING,
     PH_WARMING_UP}"

definition set_persist_callback :: "bool \<Rightarrow> FtRuntimeStore \<Rightarrow> FtRuntimeStore" where
  "set_persist_callback b st = st\<lparr>rt_persist_callback := b\<rparr>"

definition call_persist :: "FtRuntimeStore \<Rightarrow> FtRuntimeStore" where
  "call_persist st =
     (if rt_persist_callback st then st\<lparr>rt_persist_calls := rt_persist_calls st + 1\<rparr> else st)"

text \<open>
  \<open>self._instances.setdefault(instance_id, FtRuntime(instance_id=instance_id))\<close>
\<close>

definition setdefault :: "int \<Rightarrow> FtRuntimeStore \<Rightarrow> FtRuntimeStore \<times> FtRuntime" where
  "setdefault i st =
     (case dict_get (rt_instances st) i of
        Some rt \<Rightarrow> (st, rt)
      | None \<Rightarrow> (st\<lparr>rt_instances := dict_set i (new_runtime i) (rt_instances st)\<rparr>, new_runtime i))"

definition get_or_create :: "int \<Rightarrow> FtRuntimeStore \<Rightarrow> FtRuntimeStore \<times> FtRuntime" where
  "get_or_create i st = setdefault i st"

definition put :: "FtRuntime \<Rightarrow> FtRuntimeStore \<Rightarrow> FtRuntimeStore" where
  "put rt st = st\<lparr>rt_instances := dict_set (rt_instance_id rt) rt (rt_instances st)\<rparr>"

text \<open>
  The keyword arguments of \<open>transition\<close>, in the order given. \<open>Ch_unknown\<close> is a name that is not
  an attribute of the runtime.
\<close>

datatype ft_change =
    Ch_phase FtPhase
  | Ch_original_dp_ranks "int list"
  | Ch_request_id string
  | Ch_dead_committed "int list"
  | Ch_serving_dp_ranks "int list"
  | Ch_pending_removed_ranks "int list"
  | Ch_fallback_strategy string
  | Ch_gate GateSnapshot
  | Ch_engine_statuses "(int, json) dict"
  | Ch_serving_published bool
  | Ch_reconfiguration_dispatched bool
  | Ch_last_error "string option"
  | Ch_unknown string

text \<open>
  \<open>setattr\<close> of one change, and whether it changes a field of \<open>_DURABLE_FIELDS\<close>.
\<close>

fun setattr :: "ft_change \<Rightarrow> FtRuntime \<Rightarrow> FtRuntime" where
  "setattr (Ch_phase p) rt = rt\<lparr>phase := p\<rparr>"
| "setattr (Ch_original_dp_ranks r) rt = rt\<lparr>original_dp_ranks := r\<rparr>"
| "setattr (Ch_request_id r) rt = rt\<lparr>request_id := r\<rparr>"
| "setattr (Ch_dead_committed r) rt = rt\<lparr>dead_committed := r\<rparr>"
| "setattr (Ch_serving_dp_ranks r) rt = rt\<lparr>serving_dp_ranks := r\<rparr>"
| "setattr (Ch_pending_removed_ranks r) rt = rt\<lparr>pending_removed_ranks := r\<rparr>"
| "setattr (Ch_fallback_strategy f) rt = rt\<lparr>fallback_strategy := f\<rparr>"
| "setattr (Ch_gate g) rt = rt\<lparr>gate := g\<rparr>"
| "setattr (Ch_engine_statuses e) rt = rt\<lparr>engine_statuses := e\<rparr>"
| "setattr (Ch_serving_published b) rt = rt\<lparr>serving_published := b\<rparr>"
| "setattr (Ch_reconfiguration_dispatched b) rt = rt\<lparr>reconfiguration_dispatched := b\<rparr>"
| "setattr (Ch_last_error e) rt = rt\<lparr>last_error := e\<rparr>"
| "setattr (Ch_unknown n) rt = rt"

fun durable_change :: "ft_change \<Rightarrow> FtRuntime \<Rightarrow> bool" where
  "durable_change (Ch_phase p) rt = (phase rt \<noteq> p)"
| "durable_change (Ch_original_dp_ranks r) rt = (original_dp_ranks rt \<noteq> r)"
| "durable_change (Ch_dead_committed r) rt = (dead_committed rt \<noteq> r)"
| "durable_change (Ch_fallback_strategy f) rt = (fallback_strategy rt \<noteq> f)"
| "durable_change (Ch_reconfiguration_dispatched b) rt = (reconfiguration_dispatched rt \<noteq> b)"
| "durable_change _ rt = False"

fun is_unknown :: "ft_change \<Rightarrow> bool" where
  "is_unknown (Ch_unknown n) = True"
| "is_unknown _ = False"

text \<open>
  The loop over the changes: the runtime reached, whether a durable field changed, and whether an
  unknown name ended it. Changes made before an unknown name stay.
\<close>

fun apply_changes :: "ft_change list \<Rightarrow> bool \<Rightarrow> FtRuntime \<Rightarrow> FtRuntime \<times> bool \<times> bool" where
  "apply_changes [] durable rt = (rt, durable, False)"
| "apply_changes (c # cs) durable rt =
     (if is_unknown c then (rt, durable, True)
      else apply_changes cs (durable \<or> durable_change c rt) (setattr c rt))"

definition transition ::
  "int \<Rightarrow> ft_change list \<Rightarrow> FtRuntimeStore \<Rightarrow> FtRuntimeStore \<times> (py_error + FtRuntime)" where
  "transition i changes st =
     (let (st1, rt) = setdefault i st;
          (rt', durable, bad) = apply_changes changes False rt;
          st2 = st1\<lparr>rt_instances := dict_set i rt' (rt_instances st1)\<rparr>
      in if bad then (st2, Inl ValueError)
         else ((if durable then call_persist st2 else st2), Inr rt'))"

definition rt_get :: "int \<Rightarrow> FtRuntimeStore \<Rightarrow> FtRuntime option" where
  "rt_get i st = dict_get (rt_instances st) i"

definition rt_list :: "FtRuntimeStore \<Rightarrow> FtRuntime list" where
  "rt_list st = List.map_filter (\<lambda>i. rt_get i st) (sort (dict_keys (rt_instances st)))"

text \<open>
  The runtimes worth persisting.
\<close>

definition is_durable :: "FtRuntime \<Rightarrow> bool" where
  "is_durable rt \<longleftrightarrow> phase rt \<notin> {PH_DISABLED, PH_NORMAL} \<or> dead_committed rt \<noteq> []"

definition rt_remove :: "int \<Rightarrow> FtRuntimeStore \<Rightarrow> FtRuntimeStore \<times> bool" where
  "rt_remove i st =
     (case dict_get (rt_instances st) i of
        None \<Rightarrow> (st, False)
      | Some rt \<Rightarrow>
          (let st1 = st\<lparr>rt_instances := dict_pop i (rt_instances st)\<rparr>
           in (if is_durable rt then call_persist st1 else st1, True)))"

subsection \<open>Persistence\<close>

definition runtime_json :: "int \<Rightarrow> FtRuntime \<Rightarrow> json" where
  "runtime_json i rt = JObj
     [(''instance_id'', JInt i),
      (''phase'', JStr (phase_value (phase rt))),
      (''original_dp_ranks'', JList (map JInt (original_dp_ranks rt))),
      (''dead_committed'', JList (map JInt (dead_committed rt))),
      (''fallback_strategy'', JStr (fallback_strategy rt)),
      (''reconfiguration_dispatched'', JBool (reconfiguration_dispatched rt))]"

definition persistent_data :: "FtRuntimeStore \<Rightarrow> (string, json) dict" where
  "persistent_data st =
     foldl (\<lambda>d (i, rt). if is_durable rt then dict_set (py_str_int i) (runtime_json i rt) d else d)
           [] (rt_instances st)"

text \<open>
  \<open>int(x)\<close>, \<open>str(x)\<close> and \<open>x is True\<close> on decoded JSON, and \<open>raw.get(key, default)\<close>.
\<close>

definition int_of_json :: "json \<Rightarrow> int option" where
  "int_of_json j = (case j of
     JInt n \<Rightarrow> Some n
   | JBool b \<Rightarrow> Some (if b then 1 else 0)
   | JFloat q \<Rightarrow> Some (py_int q)
   | JStr s \<Rightarrow> py_parse_int s
   | _ \<Rightarrow> None)"

definition str_of_json :: "(json \<Rightarrow> string) \<Rightarrow> json \<Rightarrow> string" where
  "str_of_json rp j = (case j of
     JNull \<Rightarrow> ''None''
   | JBool b \<Rightarrow> (if b then ''True'' else ''False'')
   | JInt n \<Rightarrow> py_str_int n
   | JStr s \<Rightarrow> s
   | _ \<Rightarrow> rp j)"

definition json_get :: "(string \<times> json) list \<Rightarrow> string \<Rightarrow> json \<Rightarrow> json" where
  "json_get raw k dflt = (case dict_get raw k of Some v \<Rightarrow> v | None \<Rightarrow> dflt)"

fun rank_list :: "json list \<Rightarrow> int list option" where
  "rank_list [] = Some []"
| "rank_list (JInt n # js) = (if n < 0 then None else map_option ((#) n) (rank_list js))"
| "rank_list (_ # js) = None"

definition restore_ranks :: "json \<Rightarrow> int list option" where
  "restore_ranks raw = (case raw of
     JList js \<Rightarrow> map_option (\<lambda>ns. sorted_list_of_set (set ns)) (rank_list js)
   | _ \<Rightarrow> None)"

definition scale_up_error :: string where
  "scale_up_error = ''controller restarted during DP scale-up; original fallback required''"

definition scale_down_error :: string where
  "scale_down_error = ''controller restarted during DP scale-down; original fallback required''"

text \<open>
  The classification of one persisted phase: the restored phase, the fallback, the error text and
  whether the attempt was interrupted.
\<close>

definition restore_phase :: "FtPhase \<Rightarrow> bool \<Rightarrow> string \<Rightarrow> FtPhase \<times> string \<times> string option \<times> bool" where
  "restore_phase p dispatched fallback =
     (if p \<in> COMMITTED_PHASES then (PH_SCALED_DOWN_RUNNING, fallback, None, False)
      else if p = PH_RECONFIGURING \<and> dispatched then (PH_RECONFIGURING, fallback, None, False)
      else if p \<in> INCOMPLETE_PHASES
      then (PH_RECONFIGURING, (if fallback = [] then ''InstanceReconfigurationStrategy'' else fallback),
            Some (if p = PH_WARMING_UP then scale_up_error else scale_down_error), True)
      else (p, fallback, None, False))"

text \<open>
  The fields one entry of the data holds; \<open>None\<close> when it is not a dictionary or a conversion raises.
\<close>

definition decode_entry ::
  "(json \<Rightarrow> string) \<Rightarrow> string \<times> json \<Rightarrow> (int \<times> FtPhase \<times> int list \<times> int list \<times> string \<times> bool) option" where
  "decode_entry rp entry =
     (case snd entry of
        JObj raw \<Rightarrow> do {
          i \<leftarrow> int_of_json (json_get raw ''instance_id'' (JStr (fst entry)));
          p \<leftarrow> FtPhase_of (json_get raw ''phase'' (JStr (phase_value PH_NORMAL)));
          orig \<leftarrow> restore_ranks (json_get raw ''original_dp_ranks'' (JList []));
          dead \<leftarrow> restore_ranks (json_get raw ''dead_committed'' (JList []));
          Some (i, p, orig, dead, str_of_json rp (json_get raw ''fallback_strategy'' (JStr [])),
                dict_get raw ''reconfiguration_dispatched'' = Some (JBool True))
        }
      | _ \<Rightarrow> None)"

definition restored_runtime :: "int \<Rightarrow> FtPhase \<Rightarrow> int list \<Rightarrow> int list \<Rightarrow> string \<Rightarrow> bool \<Rightarrow> FtRuntime" where
  "restored_runtime i p orig dead fallback dispatched =
     (let (p', fb, err, intr) = restore_phase p dispatched fallback
      in \<lparr>rt_instance_id = i, phase = p', original_dp_ranks = orig, request_id = [],
          dead_committed = dead, serving_dp_ranks = [], pending_removed_ranks = [],
          fallback_strategy = fb, gate = default_gate, engine_statuses = [],
          serving_published = (dead = [] \<and> p' = PH_NORMAL),
          reconfiguration_dispatched = dispatched, last_error = err\<rparr>)"

text \<open>
  One iteration of the restore loop.
\<close>

definition restore_one ::
  "(json \<Rightarrow> string) \<Rightarrow> (int, FtRuntime) dict \<times> (int, string) dict \<Rightarrow> string \<times> json
   \<Rightarrow> (int, FtRuntime) dict \<times> (int, string) dict" where
  "restore_one rp acc entry =
     (case decode_entry rp entry of
        None \<Rightarrow> acc
      | Some (i, p, orig, dead, fallback, dispatched) \<Rightarrow>
          (let (p', fb, err, intr) = restore_phase p dispatched fallback
           in (dict_set i (restored_runtime i p orig dead fallback dispatched) (fst acc),
               if intr then dict_set i fb (snd acc) else snd acc)))"

text \<open>
  The argument is \<open>None\<close> when it is not a dictionary.
\<close>

definition restore_persistent_data ::
  "(json \<Rightarrow> string) \<Rightarrow> (string, json) dict option \<Rightarrow> FtRuntimeStore \<Rightarrow> FtRuntimeStore \<times> (int, string) dict" where
  "restore_persistent_data rp data st =
     (case data of
        None \<Rightarrow> (st, [])
      | Some d \<Rightarrow>
          (let (restored, interrupted) = foldl (restore_one rp) ([], []) d
           in (st\<lparr>rt_instances := restored\<rparr>, interrupted)))"

subsection \<open>Publication and recovery\<close>

definition clear_publication_error :: "string option \<Rightarrow> string option" where
  "clear_publication_error err =
     (case err of
        None \<Rightarrow> None
      | Some e \<Rightarrow>
          if e = [] then err
          else (let joined = py_join ''; ''
                      (filter (\<lambda>x. \<not> py_startswith x ''ServingOverlay publication pending'') (py_split ''; '' e))
                in if joined = [] then None else Some joined))"

definition publish_runtime :: "FtRuntime \<Rightarrow> FtRuntime" where
  "publish_runtime rt =
     (if phase rt \<notin> {PH_NORMAL, PH_SCALED_DOWN_RUNNING, PH_WARMING_UP} then rt
      else rt\<lparr>serving_published := True, last_error := clear_publication_error (last_error rt)\<rparr>)"

text \<open>
  The instance IDs come as a list: the iteration order of the set does not matter, since every ID
  touches its own entry.
\<close>

definition mark_serving_published :: "int list \<Rightarrow> FtRuntimeStore \<Rightarrow> FtRuntimeStore" where
  "mark_serving_published ids st =
     st\<lparr>rt_instances := foldl (\<lambda>d i. dict_modify i publish_runtime d) (rt_instances st) ids\<rparr>"

definition committed_phase :: "FtRuntime \<Rightarrow> FtPhase" where
  "committed_phase rt = (if dead_committed rt \<noteq> [] then PH_SCALED_DOWN_RUNNING else PH_NORMAL)"

definition prepare_after_engine_relaunch :: "int \<Rightarrow> FtRuntimeStore \<Rightarrow> FtRuntimeStore" where
  "prepare_after_engine_relaunch i st =
     (case dict_get (rt_instances st) i of
        None \<Rightarrow> st
      | Some rt \<Rightarrow>
          if phase rt \<noteq> PH_RECONFIGURING then st
          else st\<lparr>rt_instances := dict_set i
                 (rt\<lparr>phase := committed_phase rt, pending_removed_ranks := [],
                     serving_published := False, last_error := None\<rparr>) (rt_instances st)\<rparr>)"

definition resume_after_fault_clear :: "int \<Rightarrow> FtRuntimeStore \<Rightarrow> FtRuntimeStore \<times> FtRuntime option" where
  "resume_after_fault_clear i st =
     (case dict_get (rt_instances st) i of
        None \<Rightarrow> (st, None)
      | Some rt \<Rightarrow>
          if phase rt \<noteq> PH_WAITING_ENGINE_FAULT then (st, None)
          else (let rt' = rt\<lparr>phase := committed_phase rt, pending_removed_ranks := [],
                       engine_statuses := [], serving_published := False, last_error := None\<rparr>
                in (st\<lparr>rt_instances := dict_set i rt' (rt_instances st)\<rparr>, Some rt')))"

definition mark_instance_reconfiguration_dispatched :: "int \<Rightarrow> FtRuntimeStore \<Rightarrow> FtRuntimeStore" where
  "mark_instance_reconfiguration_dispatched i st =
     fst (transition i
       [Ch_phase PH_RECONFIGURING, Ch_original_dp_ranks [], Ch_request_id [], Ch_dead_committed [],
        Ch_pending_removed_ranks [], Ch_gate default_gate, Ch_engine_statuses [],
        Ch_serving_published False, Ch_reconfiguration_dispatched True, Ch_last_error None] st)"

definition rt_clear :: "FtRuntimeStore \<Rightarrow> FtRuntimeStore" where
  "rt_clear st = st\<lparr>rt_instances := []\<rparr>"

section \<open>Topology\<close>

definition topo_original_dp_ranks :: "Instance \<Rightarrow> py_error + int list" where
  "topo_original_dp_ranks ins =
     (let dp = (case parallel_config ins of None \<Rightarrow> 0 | Some pc \<Rightarrow> dp_size pc)
      in if dp \<le> 0 then Inl ValueError
         else (let ranks = sorted_list_of_set (set (map ep_id (snd (get_all_endpoints False ins))))
               in if ranks \<noteq> [0..dp - 1] then Inl ValueError else Inr ranks))"

definition pod_dp_ranks :: "Instance \<Rightarrow> py_error + (string, int set) dict" where
  "pod_dp_ranks ins =
     (case topo_original_dp_ranks ins of
        Inl e \<Rightarrow> Inl e
      | Inr orig \<Rightarrow>
          Inr (filter (\<lambda>(pod, ranks). ranks \<noteq> {})
                (map (\<lambda>(pod, eps). (pod, set (filter (\<lambda>i. i \<in> set orig) (map ep_id (dict_values eps)))))
                     (endpoints ins))))"

definition expand_problem_pod_ranks :: "Instance \<Rightarrow> int set \<Rightarrow> py_error + int set" where
  "expand_problem_pod_ranks ins seed =
     (if seed = {} then Inr {}
      else case pod_dp_ranks ins of
             Inl e \<Rightarrow> Inl e
           | Inr pods \<Rightarrow>
               Inr (foldl (\<lambda>acc (pod, ranks). if ranks \<inter> seed \<noteq> {} then acc \<union> ranks else acc) {} pods))"

definition elastic_pod_cut_target_dp :: "int set \<Rightarrow> int set \<Rightarrow> int option" where
  "elastic_pod_cut_target_dp original expanded =
     (if expanded = {} then None
      else if original = {} \<or> \<not> expanded \<subseteq> original then None
      else (let keep = int (card original) - int (card expanded)
            in if keep \<ge> 1 then Some keep else None))"

definition recyclable_pods :: "Instance \<Rightarrow> int set \<Rightarrow> py_error + string list" where
  "recyclable_pods ins dead =
     (case pod_dp_ranks ins of
        Inl e \<Rightarrow> Inl e
      | Inr pods \<Rightarrow> Inr (sort (dict_keys (filter (\<lambda>(pod, ranks). ranks \<subseteq> dead) pods))))"

definition can_stop_all_problem_pods :: "Instance \<Rightarrow> int set \<Rightarrow> bool" where
  "can_stop_all_problem_pods ins dead =
     (if dead = {} then False
      else case pod_dp_ranks ins of
             Inl e \<Rightarrow> False
           | Inr pods \<Rightarrow>
               dead \<subseteq> foldl (\<lambda>acc (pod, ranks). if ranks \<noteq> {} \<and> ranks \<subseteq> dead then acc \<union> ranks else acc)
                         {} pods)"

section \<open>Partial-loss policy\<close>

definition committed_dp_ranks :: "FtRuntimeStore \<Rightarrow> int \<Rightarrow> int set" where
  "committed_dp_ranks st i = (case rt_get i st of None \<Rightarrow> {} | Some rt \<Rightarrow> set (dead_committed rt))"

definition PARTIAL_LOSS_TRANSACTION_PHASES :: "FtPhase set" where
  "PARTIAL_LOSS_TRANSACTION_PHASES =
     {PH_DECIDING, PH_WAITING_ENGINE_FAULT, PH_SCALING_DOWN, PH_POST_SCALE_CLEANUP}"

record PartialLossPolicy =
  protect_transaction :: bool
  ignored_dead_ranks :: "int set"
  suppress_legacy_shutdown :: bool

definition default_policy :: PartialLossPolicy where
  "default_policy = \<lparr>protect_transaction = False, ignored_dead_ranks = {}, suppress_legacy_shutdown = False\<rparr>"

definition partial_loss_policy :: "FtRuntimeStore \<Rightarrow> int \<Rightarrow> PartialLossPolicy" where
  "partial_loss_policy st i =
     (case rt_get i st of
        None \<Rightarrow> default_policy
      | Some rt \<Rightarrow>
          if phase rt \<in> PARTIAL_LOSS_TRANSACTION_PHASES
          then default_policy\<lparr>protect_transaction := True, suppress_legacy_shutdown := True\<rparr>
          else if phase rt \<in> {PH_SCALED_DOWN_RUNNING, PH_WARMING_UP}
          then default_policy\<lparr>ignored_dead_ranks := set (dead_committed rt), suppress_legacy_shutdown := True\<rparr>
          else default_policy)"

section \<open>The store as a component\<close>

datatype rt_op =
    Rt_callback bool
  | Rt_get_or_create int
  | Rt_put FtRuntime
  | Rt_transition int "ft_change list"
  | Rt_remove int
  | Rt_publish "int list"
  | Rt_prepare int
  | Rt_resume int
  | Rt_dispatched int
  | Rt_restore "json \<Rightarrow> string" "(string, json) dict option"
  | Rt_clear

fun rt_step :: "FtRuntimeStore \<Rightarrow> rt_op \<Rightarrow> FtRuntimeStore" where
  "rt_step st (Rt_callback b) = set_persist_callback b st"
| "rt_step st (Rt_get_or_create i) = fst (get_or_create i st)"
| "rt_step st (Rt_put rt) = put rt st"
| "rt_step st (Rt_transition i cs) = fst (transition i cs st)"
| "rt_step st (Rt_remove i) = fst (rt_remove i st)"
| "rt_step st (Rt_publish ids) = mark_serving_published ids st"
| "rt_step st (Rt_prepare i) = prepare_after_engine_relaunch i st"
| "rt_step st (Rt_resume i) = fst (resume_after_fault_clear i st)"
| "rt_step st (Rt_dispatched i) = mark_instance_reconfiguration_dispatched i st"
| "rt_step st (Rt_restore rp d) = fst (restore_persistent_data rp d st)"
| "rt_step st Rt_clear = rt_clear st"

text \<open>
  DP ranks are non-negative, in the runtimes stored and in the changes callers issue.
\<close>

abbreviation ranks_ok :: "int list \<Rightarrow> bool" where
  "ranks_ok rs \<equiv> list_all (\<lambda>r. 0 \<le> r) rs"

definition runtime_ok :: "FtRuntime \<Rightarrow> bool" where
  "runtime_ok rt \<longleftrightarrow> ranks_ok (original_dp_ranks rt) \<and> ranks_ok (dead_committed rt)"

fun change_ok :: "ft_change \<Rightarrow> bool" where
  "change_ok (Ch_original_dp_ranks rs) = ranks_ok rs"
| "change_ok (Ch_dead_committed rs) = ranks_ok rs"
| "change_ok _ = True"

fun legal_rt_op :: "rt_op \<Rightarrow> bool" where
  "legal_rt_op (Rt_put rt) = runtime_ok rt"
| "legal_rt_op (Rt_transition i cs) = list_all change_ok cs"
| "legal_rt_op _ = True"

definition store_ok :: "FtRuntimeStore \<Rightarrow> bool" where
  "store_ok st \<longleftrightarrow> distinct (dict_keys (rt_instances st)) \<and>
     (\<forall>i rt. dict_get (rt_instances st) i = Some rt \<longrightarrow> rt_instance_id rt = i \<and> runtime_ok rt)"

text \<open>
  What a restart promises: an attempt that had neither committed nor handed over to its fallback
  is interrupted; every other durable runtime keeps its committed topology.
\<close>

definition attempt_open :: "FtRuntime \<Rightarrow> bool" where
  "attempt_open rt \<longleftrightarrow>
     phase rt \<in> {PH_DECIDING, PH_WAITING_ENGINE_FAULT, PH_SCALING_DOWN, PH_WARMING_UP} \<or>
     (phase rt = PH_RECONFIGURING \<and> \<not> reconfiguration_dispatched rt)"

definition recovery_fallback :: "FtRuntime \<Rightarrow> string" where
  "recovery_fallback rt =
     (if fallback_strategy rt = [] then ''InstanceReconfigurationStrategy'' else fallback_strategy rt)"

definition phase_after_restart :: "FtRuntime \<Rightarrow> FtPhase" where
  "phase_after_restart rt =
     (if attempt_open rt then PH_RECONFIGURING
      else if phase rt = PH_POST_SCALE_CLEANUP then PH_SCALED_DOWN_RUNNING else phase rt)"

text \<open>
  The part of a runtime that survives a restart.
\<close>

definition durable_view :: "FtRuntime \<Rightarrow> FtPhase \<times> int list \<times> int list \<times> string \<times> bool" where
  "durable_view rt = (phase rt, original_dp_ranks rt, dead_committed rt, fallback_strategy rt,
     reconfiguration_dispatched rt)"

text \<open>
  The attribute a change writes: keyword arguments have distinct names.
\<close>

fun change_name :: "ft_change \<Rightarrow> string" where
  "change_name (Ch_phase _) = ''phase''"
| "change_name (Ch_original_dp_ranks _) = ''original_dp_ranks''"
| "change_name (Ch_request_id _) = ''request_id''"
| "change_name (Ch_dead_committed _) = ''dead_committed''"
| "change_name (Ch_serving_dp_ranks _) = ''serving_dp_ranks''"
| "change_name (Ch_pending_removed_ranks _) = ''pending_removed_ranks''"
| "change_name (Ch_fallback_strategy _) = ''fallback_strategy''"
| "change_name (Ch_gate _) = ''gate''"
| "change_name (Ch_engine_statuses _) = ''engine_statuses''"
| "change_name (Ch_serving_published _) = ''serving_published''"
| "change_name (Ch_reconfiguration_dispatched _) = ''reconfiguration_dispatched''"
| "change_name (Ch_last_error _) = ''last_error''"
| "change_name (Ch_unknown n) = n"

text \<open>
  A controller restart: the data persisted last is restored into a new store.
\<close>

definition restart :: "(json \<Rightarrow> string) \<Rightarrow> FtRuntimeStore \<Rightarrow> FtRuntimeStore \<times> (int, string) dict" where
  "restart rp st = restore_persistent_data rp (Some (persistent_data st)) empty_store"

definition recovered :: "FtRuntime \<Rightarrow> FtRuntime" where
  "recovered rt = restored_runtime (rt_instance_id rt) (phase rt)
     (sorted_list_of_set (set (original_dp_ranks rt))) (sorted_list_of_set (set (dead_committed rt)))
     (fallback_strategy rt) (reconfiguration_dispatched rt)"

text \<open>
  Inputs for the witnesses.
\<close>

definition demo_rt_ops :: "rt_op list" where
  "demo_rt_ops = [Rt_callback True,
     Rt_transition 7 [Ch_phase PH_SCALING_DOWN, Ch_original_dp_ranks [0, 1, 2, 3], Ch_dead_committed [2]],
     Rt_get_or_create 8]"

definition demo_parallel :: ParallelConfig where
  "demo_parallel = \<lparr>dp_size = 3, pcp_size = 1, tp_size = 1, ep_size = 1, pp_size = 1, world_size = 3,
     local_world_size = 1, dp_master_port = 9000\<rparr>"

definition demo_dp_instance :: Instance where
  "demo_dp_instance = (demo_instance 7 ''decode'' ACTIVE)\<lparr>parallel_config := Some demo_parallel,
     endpoints := [(''10.0.0.1'', [(0, demo_endpoint 0 EP_NORMAL), (1, demo_endpoint 1 EP_NORMAL)]),
                   (''10.0.0.2'', [(0, demo_endpoint 2 EP_NORMAL)])]\<rparr>"

section \<open>The store invariant\<close>

lemma phase_value_inj: "phase_value p = phase_value q \<longleftrightarrow> p = q"
  by (cases p; cases q) (simp_all add: phase_value_def)

lemma FtPhase_of_value [simp]: "FtPhase_of (JStr (phase_value p)) = Some p"
  unfolding FtPhase_of_def json.case all_phases_def by (cases p) (simp_all add: phase_value_inj)

lemma rank_list_map [simp]: "ranks_ok rs \<Longrightarrow> rank_list (map JInt rs) = Some rs"
  by (induction rs) auto

lemma rank_list_ok: "rank_list js = Some rs \<Longrightarrow> ranks_ok rs"
  by (induction js arbitrary: rs rule: rank_list.induct) (auto split: if_splits)

lemma restore_ranks_ok: "restore_ranks j = Some rs \<Longrightarrow> ranks_ok rs"
  by (auto simp: restore_ranks_def list_all_iff split: json.splits dest!: rank_list_ok)

lemma setattr_id [simp]: "rt_instance_id (setattr c rt) = rt_instance_id rt"
  by (cases c) auto

lemma setattr_ok: "runtime_ok rt \<Longrightarrow> change_ok c \<Longrightarrow> runtime_ok (setattr c rt)"
  by (cases c) (auto simp: runtime_ok_def)

lemma apply_changes_ok:
  "runtime_ok rt \<Longrightarrow> list_all change_ok cs \<Longrightarrow> apply_changes cs d rt = (rt', d', bad) \<Longrightarrow>
   runtime_ok rt' \<and> rt_instance_id rt' = rt_instance_id rt"
proof (induction cs arbitrary: d rt)
  case (Cons c cs)
  show ?case
  proof (cases "is_unknown c")
    case False
    with Cons.prems have "apply_changes cs (d \<or> durable_change c rt) (setattr c rt) = (rt', d', bad)" by simp
    with Cons.IH[of "setattr c rt"] Cons.prems setattr_ok[of rt c] show ?thesis by simp
  qed (use Cons.prems in auto)
qed simp

lemma new_runtime_ok [simp]: "runtime_ok (new_runtime i)" "rt_instance_id (new_runtime i) = i"
  by (simp_all add: runtime_ok_def new_runtime_def)

lemma call_persist_instances [simp]: "rt_instances (call_persist st) = rt_instances st"
  by (simp add: call_persist_def)

lemma store_ok_set:
  "store_ok st \<Longrightarrow> rt_instance_id rt = i \<Longrightarrow> runtime_ok rt \<Longrightarrow>
   rt_instances st' = dict_set i rt (rt_instances st) \<Longrightarrow> store_ok st'"
  by (auto simp: store_ok_def split: if_splits)

lemma store_ok_get:
  "store_ok st \<Longrightarrow> dict_get (rt_instances st) i = Some rt \<Longrightarrow> rt_instance_id rt = i \<and> runtime_ok rt"
  by (simp add: store_ok_def)

lemma setdefault_ok:
  assumes "store_ok st"
  shows "store_ok (fst (setdefault i st)) \<and> runtime_ok (snd (setdefault i st)) \<and>
     rt_instance_id (snd (setdefault i st)) = i"
proof (cases "dict_get (rt_instances st) i")
  case None
  have "store_ok (st\<lparr>rt_instances := dict_set i (new_runtime i) (rt_instances st)\<rparr>)"
    using assms by (rule store_ok_set[of _ "new_runtime i" i]) simp_all
  with None show ?thesis by (simp add: setdefault_def)
qed (use assms in \<open>auto simp: setdefault_def store_ok_def\<close>)

lemma transition_instances:
  "rt_instances (fst (transition i cs st)) =
     dict_set i (fst (apply_changes cs False (snd (setdefault i st)))) (rt_instances (fst (setdefault i st)))"
  by (simp add: transition_def Let_def case_prod_unfold)

lemma transition_ok:
  assumes "store_ok st" and "list_all change_ok cs"
  shows "store_ok (fst (transition i cs st))"
proof -
  obtain rt' d bad where a: "apply_changes cs False (snd (setdefault i st)) = (rt', d, bad)"
    using prod_cases3 by blast
  with assms setdefault_ok[OF assms(1), of i] have "runtime_ok rt' \<and> rt_instance_id rt' = i"
    using apply_changes_ok by metis
  with a setdefault_ok[OF assms(1), of i] show ?thesis
    by - (rule store_ok_set[of "fst (setdefault i st)" rt' i]; simp add: transition_instances)
qed

lemma publish_frame [frame_simps]:
  "rt_instance_id (publish_runtime rt) = rt_instance_id rt"
  "runtime_ok (publish_runtime rt) = runtime_ok rt"
  "phase (publish_runtime rt) = phase rt"
  by (simp_all add: publish_runtime_def runtime_ok_def)

lemma store_ok_modify:
  "store_ok st \<Longrightarrow> (\<And>rt. rt_instance_id (f rt) = rt_instance_id rt) \<Longrightarrow>
   (\<And>rt. runtime_ok rt \<Longrightarrow> runtime_ok (f rt)) \<Longrightarrow>
   store_ok (st\<lparr>rt_instances := dict_modify i f (rt_instances st)\<rparr>)"
  by (auto simp: store_ok_def split: if_splits)

lemma publish_ok: "store_ok st \<Longrightarrow> store_ok (mark_serving_published ids st)"
proof (induction ids arbitrary: st)
  case (Cons i ids)
  have "store_ok (st\<lparr>rt_instances := dict_modify i publish_runtime (rt_instances st)\<rparr>)"
    using Cons.prems by (rule store_ok_modify) (simp_all add: frame_simps)
  from Cons.IH[OF this] show ?case by (simp add: mark_serving_published_def)
qed (simp add: mark_serving_published_def)

lemma decode_entry_ranks:
  "decode_entry rp e = Some (i, p, orig, dead, fb, disp) \<Longrightarrow> ranks_ok orig \<and> ranks_ok dead"
  by (auto simp: decode_entry_def Option.bind_eq_Some_conv split: json.splits dest!: restore_ranks_ok)

lemma restored_runtime_sel [simp]:
  "rt_instance_id (restored_runtime i p orig dead fb disp) = i"
  "original_dp_ranks (restored_runtime i p orig dead fb disp) = orig"
  "dead_committed (restored_runtime i p orig dead fb disp) = dead"
  "reconfiguration_dispatched (restored_runtime i p orig dead fb disp) = disp"
  by (simp_all add: restored_runtime_def Let_def case_prod_unfold)

lemma restore_one_ok:
  assumes "distinct (dict_keys (fst acc))"
    and "\<forall>i rt. dict_get (fst acc) i = Some rt \<longrightarrow> rt_instance_id rt = i \<and> runtime_ok rt"
  shows "distinct (dict_keys (fst (restore_one rp acc e))) \<and>
    (\<forall>i rt. dict_get (fst (restore_one rp acc e)) i = Some rt \<longrightarrow> rt_instance_id rt = i \<and> runtime_ok rt)"
proof (cases "decode_entry rp e")
  case (Some f)
  obtain i p orig dead fb disp where f: "f = (i, p, orig, dead, fb, disp)" by (cases f)
  have "runtime_ok (restored_runtime i p orig dead fb disp)"
    using decode_entry_ranks Some f by (simp add: runtime_ok_def)
  with Some f assms show ?thesis by (simp add: restore_one_def Let_def case_prod_unfold)
qed (use assms in \<open>simp add: restore_one_def\<close>)

lemma restore_ok: "store_ok st \<Longrightarrow> store_ok (fst (restore_persistent_data rp d st))"
proof (cases d)
  case (Some xs)
  have "distinct (dict_keys (fst (foldl (restore_one rp) acc xs))) \<and>
    (\<forall>i rt. dict_get (fst (foldl (restore_one rp) acc xs)) i = Some rt \<longrightarrow> rt_instance_id rt = i \<and> runtime_ok rt)"
    if "distinct (dict_keys (fst acc))" "\<forall>i rt. dict_get (fst acc) i = Some rt \<longrightarrow> rt_instance_id rt = i \<and> runtime_ok rt"
    for acc
    using that
  proof (induction xs arbitrary: acc)
    case (Cons x xs)
    show ?case
      unfolding foldl_Cons
      by (rule Cons.IH) (use restore_one_ok[OF Cons.prems, of rp x] in blast)+
  qed simp
  from this[of "([], [])"] Some show ?thesis
    by (simp add: restore_persistent_data_def store_ok_def case_prod_unfold Let_def)
qed (simp add: restore_persistent_data_def)

lemma store_ok_runtime_update:
  assumes "store_ok st" and "dict_get (rt_instances st) i = Some rt" and "rt_instance_id rt' = rt_instance_id rt"
    and "original_dp_ranks rt' = original_dp_ranks rt" and "dead_committed rt' = dead_committed rt"
  shows "store_ok (st\<lparr>rt_instances := dict_set i rt' (rt_instances st)\<rparr>)"
  using assms(1) by (rule store_ok_set[of _ rt' i]) (use assms store_ok_get in \<open>auto simp: runtime_ok_def\<close>)

lemma prepare_ok: "store_ok st \<Longrightarrow> store_ok (prepare_after_engine_relaunch i st)"
  by (cases "dict_get (rt_instances st) i")
    (simp_all add: prepare_after_engine_relaunch_def store_ok_runtime_update)

lemma resume_ok: "store_ok st \<Longrightarrow> store_ok (fst (resume_after_fault_clear i st))"
  by (cases "dict_get (rt_instances st) i")
    (simp_all add: resume_after_fault_clear_def Let_def store_ok_runtime_update)

lemma put_ok: "store_ok st \<Longrightarrow> runtime_ok rt \<Longrightarrow> store_ok (put rt st)"
  by (rule store_ok_set[of st rt "rt_instance_id rt"]) (simp_all add: put_def)

lemma remove_ok: "store_ok st \<Longrightarrow> store_ok (fst (rt_remove i st))"
  by (cases "dict_get (rt_instances st) i") (auto simp: rt_remove_def Let_def store_ok_def set_dict_pop)

lemma store_ok_step: "store_ok st \<Longrightarrow> legal_rt_op op \<Longrightarrow> store_ok (rt_step st op)"
  by (cases op) (simp_all add: set_persist_callback_def get_or_create_def setdefault_ok publish_ok restore_ok
      rt_clear_def transition_ok prepare_ok resume_ok put_ok remove_ok
      mark_instance_reconfiguration_dispatched_def, simp_all add: store_ok_def)

interpretation rt_run: step_invariant rt_step legal_rt_op store_ok
  by unfold_locales (rule store_ok_step)

section \<open>Restart\<close>

lemma decode_runtime_json:
  "runtime_ok rt \<Longrightarrow> decode_entry rp (s, runtime_json i rt) =
     Some (i, phase rt, sorted_list_of_set (set (original_dp_ranks rt)),
           sorted_list_of_set (set (dead_committed rt)), fallback_strategy rt, reconfiguration_dispatched rt)"
  by (simp add: decode_entry_def runtime_json_def json_get_def int_of_json_def str_of_json_def
      restore_ranks_def runtime_ok_def)

lemma persistent_data_map:
  assumes "distinct (dict_keys (rt_instances st))"
  shows "persistent_data st =
    map (\<lambda>(i, rt). (py_str_int i, runtime_json i rt)) (filter (\<lambda>(i, rt). is_durable rt) (rt_instances st))"
proof -
  let ?xs = "filter (\<lambda>(i, rt). is_durable rt) (rt_instances st)"
  have "distinct (map fst ?xs)" using assms by (rule distinct_map_filter)
  then have "distinct (map (\<lambda>x. py_str_int (fst x)) ?xs)"
    by (rule distinct_map_inj[OF inj_py_str_int])
  then have "foldl (\<lambda>d x. dict_set (py_str_int (fst x)) (runtime_json (fst x) (snd x)) d) [] ?xs =
      map (\<lambda>x. (py_str_int (fst x), runtime_json (fst x) (snd x))) ?xs"
    using foldl_dict_set_fresh[of "\<lambda>x. py_str_int (fst x)" ?xs "[]"] by simp
  then show ?thesis
    by (simp add: persistent_data_def foldl_if_filter case_prod_unfold)
qed

lemma restore_phase_spec:
  "restore_phase (phase rt) (reconfiguration_dispatched rt) (fallback_strategy rt) =
     (phase_after_restart rt,
      if attempt_open rt then recovery_fallback rt else fallback_strategy rt,
      if attempt_open rt then Some (if phase rt = PH_WARMING_UP then scale_up_error else scale_down_error) else None,
      attempt_open rt)"
  by (cases "phase rt") (simp_all add: restore_phase_def COMMITTED_PHASES_def INCOMPLETE_PHASES_def attempt_open_def
      phase_after_restart_def recovery_fallback_def)

lemma restore_one_runtime:
  "runtime_ok rt \<Longrightarrow> rt_instance_id rt = i \<Longrightarrow> restore_one rp acc (py_str_int i, runtime_json i rt) =
     (dict_set i (recovered rt) (fst acc),
      if attempt_open rt then dict_set i (recovery_fallback rt) (snd acc) else snd acc)"
  by (simp add: restore_one_def decode_runtime_json restore_phase_spec recovered_def Let_def)

lemma foldl_restore:
  "\<forall>(i, rt) \<in> set xs. runtime_ok rt \<and> rt_instance_id rt = i \<Longrightarrow>
   foldl (restore_one rp) acc (map (\<lambda>(i, rt). (py_str_int i, runtime_json i rt)) xs) =
     (foldl (\<lambda>d x. dict_set (fst x) (recovered (snd x)) d) (fst acc) xs,
      foldl (\<lambda>d x. if attempt_open (snd x) then dict_set (fst x) (recovery_fallback (snd x)) d else d) (snd acc) xs)"
proof (induction xs arbitrary: acc)
  case (Cons x xs)
  obtain i rt where x: "x = (i, rt)" by (cases x)
  from Cons.prems x have "restore_one rp acc (py_str_int i, runtime_json i rt) =
     (dict_set i (recovered rt) (fst acc),
      if attempt_open rt then dict_set i (recovery_fallback rt) (snd acc) else snd acc)"
    by (intro restore_one_runtime) auto
  with Cons x show ?case by simp
qed simp

lemma restart_get:
  assumes ok: "store_ok st"
  shows "rt_get i (fst (restart rp st)) =
      (case rt_get i st of None \<Rightarrow> None | Some rt \<Rightarrow> if is_durable rt then Some (recovered rt) else None)"
    and "dict_get (snd (restart rp st)) i =
      (case rt_get i st of None \<Rightarrow> None
       | Some rt \<Rightarrow> if is_durable rt \<and> attempt_open rt then Some (recovery_fallback rt) else None)"
proof -
  let ?d = "rt_instances st"
  let ?xs = "filter (\<lambda>(i, rt). is_durable rt) ?d"
  let ?ys = "filter (\<lambda>(i, rt). attempt_open rt) ?xs"
  from ok have dk: "distinct (dict_keys ?d)" by (simp add: store_ok_def)
  then have wf: "\<forall>(i, rt) \<in> set ?xs. runtime_ok rt \<and> rt_instance_id rt = i"
    using ok by (auto simp: store_ok_def)
  have dxs: "distinct (map fst ?xs)" "distinct (map fst ?ys)"
    using dk by (auto intro!: distinct_map_filter)
  then have "foldl (restore_one rp) ([], []) (persistent_data st) =
     (map (\<lambda>(i, rt). (i, recovered rt)) ?xs, map (\<lambda>(i, rt). (i, recovery_fallback rt)) ?ys)"
    using foldl_restore[OF wf, of rp "([], [])"] foldl_dict_set_fresh[OF dxs(1), of "[]" "\<lambda>x. recovered (snd x)"]
      foldl_dict_set_fresh[OF dxs(2), of "[]" "\<lambda>x. recovery_fallback (snd x)"]
    by (simp add: persistent_data_map[OF dk] foldl_if_filter case_prod_unfold)
  then have r: "fst (restart rp st) = empty_store\<lparr>rt_instances := map (\<lambda>(i, rt). (i, recovered rt)) ?xs\<rparr>"
    "snd (restart rp st) = map (\<lambda>(i, rt). (i, recovery_fallback rt)) ?ys"
    by (simp_all add: restart_def restore_persistent_data_def)
  show "rt_get i (fst (restart rp st)) =
      (case rt_get i st of None \<Rightarrow> None | Some rt \<Rightarrow> if is_durable rt then Some (recovered rt) else None)"
    by (simp add: r rt_get_def dict_get_filter_map[OF dk])
  have "?ys = filter (\<lambda>(i, rt). is_durable rt \<and> attempt_open rt) ?d"
    by (simp add: case_prod_unfold conj_commute)
  then show "dict_get (snd (restart rp st)) i =
      (case rt_get i st of None \<Rightarrow> None
       | Some rt \<Rightarrow> if is_durable rt \<and> attempt_open rt then Some (recovery_fallback rt) else None)"
    by (simp only: r rt_get_def dict_get_filter_map[OF dk])
qed

lemma recovered_sel [simp]:
  "phase (recovered rt) = phase_after_restart rt"
  "original_dp_ranks (recovered rt) = sorted_list_of_set (set (original_dp_ranks rt))"
  "dead_committed (recovered rt) = sorted_list_of_set (set (dead_committed rt))"
  "reconfiguration_dispatched (recovered rt) = reconfiguration_dispatched rt"
  "rt_instance_id (recovered rt) = rt_instance_id rt"
  "fallback_strategy (recovered rt) = (if attempt_open rt then recovery_fallback rt else fallback_strategy rt)"
  "request_id (recovered rt) = []" "serving_dp_ranks (recovered rt) = []"
  "pending_removed_ranks (recovered rt) = []" "gate (recovered rt) = default_gate"
  "engine_statuses (recovered rt) = []"
  "serving_published (recovered rt) \<longleftrightarrow> dead_committed rt = [] \<and> phase_after_restart rt = PH_NORMAL"
  by (simp_all add: recovered_def restored_runtime_def restore_phase_spec sorted_list_of_set_eq_Nil_iff)

lemma recovered_not_serving: "is_durable rt \<Longrightarrow> \<not> can_serve (recovered rt)"
  by (auto simp: can_serve_def is_durable_def phase_after_restart_def attempt_open_def split: if_splits)

lemma recovered_durable: "is_durable (recovered rt) \<longleftrightarrow> is_durable rt"
  by (cases "phase rt") (auto simp: is_durable_def phase_after_restart_def attempt_open_def sorted_list_of_set_eq_Nil_iff)

lemma recovered_open:
  "attempt_open (recovered rt) \<longleftrightarrow> attempt_open rt \<and> \<not> reconfiguration_dispatched rt"
  by (cases "phase rt") (auto simp: phase_after_restart_def attempt_open_def)

lemma recovered_twice:
  assumes "attempt_open rt \<longrightarrow> \<not> reconfiguration_dispatched rt"
  shows "(recovered (recovered rt))\<lparr>last_error := None\<rparr> = (recovered rt)\<lparr>last_error := None\<rparr>"
proof -
  have p: "phase_after_restart (recovered rt) = phase_after_restart rt"
    using assms by (auto simp: phase_after_restart_def recovered_open)
  have f: "fallback_strategy (recovered (recovered rt)) = fallback_strategy (recovered rt)"
    using assms by (auto simp: recovery_fallback_def recovered_open)
  show ?thesis
    by (rule FtRuntime.equality) (simp_all add: p f sorted_list_of_set_eq_Nil_iff del: recovered_sel(6))
qed

section \<open>Transitions\<close>

lemma apply_changes_untouched:
  "apply_changes cs d rt = (rt', d', bad) \<Longrightarrow>
   (''phase'' \<notin> change_name ` set cs \<longrightarrow> phase rt' = phase rt) \<and>
   (''original_dp_ranks'' \<notin> change_name ` set cs \<longrightarrow> original_dp_ranks rt' = original_dp_ranks rt) \<and>
   (''dead_committed'' \<notin> change_name ` set cs \<longrightarrow> dead_committed rt' = dead_committed rt) \<and>
   (''fallback_strategy'' \<notin> change_name ` set cs \<longrightarrow> fallback_strategy rt' = fallback_strategy rt) \<and>
   (''reconfiguration_dispatched'' \<notin> change_name ` set cs \<longrightarrow>
      reconfiguration_dispatched rt' = reconfiguration_dispatched rt)"
proof (induction cs arbitrary: d rt)
  case (Cons c cs)
  show ?case
  proof (cases "is_unknown c")
    case False
    with Cons.prems have "apply_changes cs (d \<or> durable_change c rt) (setattr c rt) = (rt', d', bad)" by simp
    from Cons.IH[OF this] show ?thesis by (cases c) simp_all
  qed (use Cons.prems in auto)
qed simp

lemma setattr_not_durable: "\<not> durable_change c rt \<Longrightarrow> durable_view (setattr c rt) = durable_view rt"
  by (cases c) (simp_all add: durable_view_def)

lemma apply_changes_durable:
  "apply_changes cs d rt = (rt', d', False) \<Longrightarrow> distinct (map change_name cs) \<Longrightarrow>
   d' \<longleftrightarrow> d \<or> durable_view rt' \<noteq> durable_view rt"
proof (induction cs arbitrary: d rt)
  case (Cons c cs)
  then have k: "\<not> is_unknown c" by auto
  with Cons.prems have a: "apply_changes cs (d \<or> durable_change c rt) (setattr c rt) = (rt', d', False)" by simp
  note ih = Cons.IH[OF a]
  show ?case
  proof (cases "durable_change c rt")
    case True
    then have "durable_view rt' \<noteq> durable_view rt"
      using Cons.prems apply_changes_untouched[OF a] by (cases c) (auto simp: durable_view_def)
    with True ih Cons.prems show ?thesis by simp
  next
    case False
    with ih setattr_not_durable[OF False] Cons.prems show ?thesis by simp
  qed
qed simp

lemma apply_changes_bad: "snd (snd (apply_changes cs d rt)) \<longleftrightarrow> list_ex is_unknown cs"
  by (induction cs arbitrary: d rt) auto

lemma setdefault_frame:
  "snd (setdefault i st) = (case rt_get i st of Some rt \<Rightarrow> rt | None \<Rightarrow> new_runtime i)"
  "j \<noteq> i \<Longrightarrow> rt_get j (fst (setdefault i st)) = rt_get j st"
  "rt_persist_calls (fst (setdefault i st)) = rt_persist_calls st"
  "rt_persist_callback (fst (setdefault i st)) = rt_persist_callback st"
  by (simp_all add: setdefault_def rt_get_def split: option.split)

section \<open>Topology\<close>

lemma foldl_union:
  "foldl (\<lambda>acc (pod, ranks). if Q ranks then acc \<union> ranks else acc) A pods =
     A \<union> \<Union> {ranks. \<exists>pod. (pod, ranks) \<in> set pods \<and> Q ranks}"
  by (induction pods arbitrary: A) (auto split: if_splits)

lemma scan_subset: "set (map snd (scan_endpoints b ins)) \<subseteq> set (all_eps ins)"
  by (auto simp: scan_endpoints_def map_snd_ep_entries[symmetric])

lemma pod_dp_ranks_cover:
  assumes ok: "instance_ok ins" and orig: "topo_original_dp_ranks ins = Inr orig" and pods: "pod_dp_ranks ins = Inr pods"
  shows "\<Union> {ranks. \<exists>pod. (pod, ranks) \<in> set pods} = set orig"
proof -
  have "set orig = ep_id ` set (map snd (scan_endpoints False ins))"
  proof -
    have "orig = sorted_list_of_set (set (map ep_id (map snd (scan_endpoints False ins))))"
      using orig ok by (simp only: topo_original_dp_ranks_def Let_def snd_get_all_endpoints split: if_splits) simp_all
    then show ?thesis by (simp add: image_image)
  qed
  then have sub: "set orig \<subseteq> ep_id ` set (all_eps ins)" using scan_subset by blast
  have pods': "pods = filter (\<lambda>(pod, ranks). ranks \<noteq> {})
      (map (\<lambda>(pod, eps). (pod, set (filter (\<lambda>i. i \<in> set orig) (map ep_id (dict_values eps))))) (endpoints ins))"
    using pods orig by (simp add: pod_dp_ranks_def)
  have "\<exists>ranks. (\<exists>pod. (pod, ranks) \<in> set pods) \<and> r \<in> ranks" if r: "r \<in> set orig" for r
  proof -
    from r sub obtain pod eps ep k where e: "(pod, eps) \<in> set (endpoints ins)" "(k, ep) \<in> set eps" "ep_id ep = r"
      by (auto simp: all_eps_def)
    let ?ranks = "set (filter (\<lambda>i. i \<in> set orig) (map ep_id (dict_values eps)))"
    have rk: "r \<in> ?ranks" using e r by (force simp: image_iff)
    then have "(pod, ?ranks) \<in> set pods" unfolding pods' using e by force
    with rk show ?thesis by blast
  qed
  moreover have "r \<in> set orig" if "(pod, ranks) \<in> set pods" "r \<in> ranks" for pod ranks r
    using that by (auto simp: pods')
  ultimately show ?thesis by blast
qed

lemma expand_eq:
  "pod_dp_ranks ins = Inr pods \<Longrightarrow> expand_problem_pod_ranks ins seed =
     Inr (\<Union> {ranks. \<exists>pod. (pod, ranks) \<in> set pods \<and> ranks \<inter> seed \<noteq> {}})"
  by (simp add: expand_problem_pod_ranks_def foldl_union)

lemma can_stop_iff:
  "pod_dp_ranks ins = Inr pods \<Longrightarrow> can_stop_all_problem_pods ins dead \<longleftrightarrow>
     dead \<noteq> {} \<and> dead \<subseteq> \<Union> {ranks. \<exists>pod. (pod, ranks) \<in> set pods \<and> ranks \<noteq> {} \<and> ranks \<subseteq> dead}"
  by (simp add: can_stop_all_problem_pods_def foldl_union[where Q = "\<lambda>r. r \<noteq> {} \<and> r \<subseteq> dead"])

section \<open>Properties\<close>

text \<open>
  C5: a restart loses no committed topology and forgets no open attempt. After any run of the
  store's operations, persisting and restoring keeps exactly the durable runtimes; each keeps its
  original and removed DP ranks and its dispatch flag, is settled (an open attempt becomes
  RECONFIGURING, a finished one SCALED_DOWN_RUNNING), does not serve before it is published
  again, and the open attempts are exactly those reported for their fallback strategy.
\<close>

theorem restart_recovers:
  assumes "list_all legal_rt_op ops" and "st = foldl rt_step empty_store ops" and "restart rp st = (st', interrupted)"
  shows "case rt_get i st of
      None \<Rightarrow> rt_get i st' = None \<and> dict_get interrupted i = None
    | Some rt \<Rightarrow>
        if \<not> is_durable rt then rt_get i st' = None \<and> dict_get interrupted i = None
        else (\<exists>rt'. rt_get i st' = Some rt' \<and> phase rt' = phase_after_restart rt \<and> \<not> can_serve rt' \<and>
               set (original_dp_ranks rt') = set (original_dp_ranks rt) \<and>
               set (dead_committed rt') = set (dead_committed rt) \<and>
               reconfiguration_dispatched rt' = reconfiguration_dispatched rt) \<and>
             dict_get interrupted i = (if attempt_open rt then Some (recovery_fallback rt) else None)"
proof -
  have "store_ok empty_store" by (simp add: store_ok_def empty_store_def)
  then have ok: "store_ok st" using assms rt_run.run_keeps by blast
  have "st' = fst (restart rp st)" "interrupted = snd (restart rp st)" using assms(3) by simp_all
  with restart_get[OF ok, where rp = rp and i = i] show ?thesis
    by (simp add: recovered_not_serving split: option.split)
qed

theorem restart_recovers_witness:
  "dict_get (snd (restart (\<lambda>_. []) (foldl rt_step empty_store demo_rt_ops))) 7 =
     Some ''InstanceReconfigurationStrategy'' \<and>
   rt_get 8 (fst (restart (\<lambda>_. []) (foldl rt_step empty_store demo_rt_ops))) = None"
proof -
  let ?st = "foldl rt_step empty_store demo_rt_ops"
  have l: "list_all legal_rt_op demo_rt_ops" by (simp add: demo_rt_ops_def)
  have g: "rt_get 7 ?st = Some ((new_runtime 7)\<lparr>phase := PH_SCALING_DOWN,
      original_dp_ranks := [0, 1, 2, 3], dead_committed := [2]\<rparr>)" "rt_get 8 ?st = Some (new_runtime 8)"
    by (simp_all add: demo_rt_ops_def empty_store_def set_persist_callback_def transition_def setdefault_def
        call_persist_def get_or_create_def rt_get_def new_runtime_def)
  note r = restart_recovers[OF l refl, of "\<lambda>_. []" "fst (restart (\<lambda>_. []) ?st)" "snd (restart (\<lambda>_. []) ?st)"]
  show ?thesis
    using r[of 7] r[of 8] by (simp add: g is_durable_def new_runtime_def attempt_open_def recovery_fallback_def)
qed

text \<open>
  Restarts are repeatable. Provided no open attempt carries the dispatched flag of an earlier
  one, a second restart reports the same interrupted attempts as the first and restores the same
  runtimes, up to the error text.
\<close>

theorem restart_repeatable:
  assumes "store_ok st" and "\<forall>i rt. rt_get i st = Some rt \<and> attempt_open rt \<longrightarrow> \<not> reconfiguration_dispatched rt"
    and "restart rp st = (st1, interrupted1)" and "restart rp st1 = (st2, interrupted2)"
  shows "dict_get interrupted2 i = dict_get interrupted1 i \<and>
    map_option (\<lambda>rt. rt\<lparr>last_error := None\<rparr>) (rt_get i st2) = map_option (\<lambda>rt. rt\<lparr>last_error := None\<rparr>) (rt_get i st1)"
proof -
  have s: "st1 = fst (restart rp st)" "interrupted1 = snd (restart rp st)"
    "st2 = fst (restart rp st1)" "interrupted2 = snd (restart rp st1)" using assms by simp_all
  have ok: "store_ok st1"
    unfolding s restart_def by (rule restore_ok) (simp add: store_ok_def empty_store_def)
  note g = restart_get[OF assms(1), where rp = rp and i = i, folded s] restart_get[OF ok, where rp = rp and i = i, folded s]
  show ?thesis
  proof (cases "rt_get i st")
    case (Some rt)
    then have "attempt_open rt \<longrightarrow> \<not> reconfiguration_dispatched rt" using assms(2) by blast
    then show ?thesis using Some g recovered_twice[of rt]
      by (auto simp: recovered_durable recovered_open recovery_fallback_def)
  qed (use g in simp)
qed

theorem restart_repeatable_witness:
  "let st = put ((new_runtime 7)\<lparr>phase := PH_DECIDING\<rparr>) empty_store; r1 = restart (\<lambda>_. []) st; r2 = restart (\<lambda>_. []) (fst r1)
   in dict_get (snd r2) 7 = dict_get (snd r1) 7"
proof -
  let ?st = "put ((new_runtime 7)\<lparr>phase := PH_DECIDING\<rparr>) empty_store"
  have ok: "store_ok ?st" by (simp add: store_ok_def put_def empty_store_def new_runtime_def runtime_ok_def)
  have "\<forall>i rt. rt_get i ?st = Some rt \<and> attempt_open rt \<longrightarrow> \<not> reconfiguration_dispatched rt"
    by (simp add: rt_get_def put_def empty_store_def new_runtime_def)
  from restart_repeatable[OF ok this, of "\<lambda>_. []" "fst (restart (\<lambda>_. []) ?st)" "snd (restart (\<lambda>_. []) ?st)"
      "fst (restart (\<lambda>_. []) (fst (restart (\<lambda>_. []) ?st)))" "snd (restart (\<lambda>_. []) (fst (restart (\<lambda>_. []) ?st)))" 7]
  show ?thesis by simp
qed

text \<open>
  \<open>transition\<close> persists exactly the durable changes. With keyword arguments of distinct known
  names it returns the stored runtime, leaves every other instance alone, and calls an installed
  persist callback once exactly when the durable part of the runtime differs from before; an
  unknown name raises \<open>ValueError\<close> and nothing is persisted.
\<close>

theorem transition_persists:
  assumes "distinct (map change_name cs)" and "transition i cs st = (st', res)"
  shows "if list_ex is_unknown cs then res = Inl ValueError \<and> rt_persist_calls st' = rt_persist_calls st
    else \<exists>rt'. res = Inr rt' \<and> rt_get i st' = Some rt' \<and>
      (\<forall>j. j \<noteq> i \<longrightarrow> rt_get j st' = rt_get j st) \<and>
      rt_persist_calls st' = rt_persist_calls st +
        (if rt_persist_callback st \<and>
            durable_view rt' \<noteq> durable_view (case rt_get i st of Some rt \<Rightarrow> rt | None \<Rightarrow> new_runtime i)
         then 1 else 0)"
proof -
  let ?rt = "snd (setdefault i st)"
  obtain rt' d bad where a: "apply_changes cs False ?rt = (rt', d, bad)" using prod_cases3 by blast
  have bad: "bad \<longleftrightarrow> list_ex is_unknown cs" using apply_changes_bad[of cs False ?rt] a by simp
  have "\<not> bad \<Longrightarrow> d \<longleftrightarrow> durable_view rt' \<noteq> durable_view ?rt"
    using apply_changes_durable[of cs False ?rt rt' d] a assms(1) by simp
  then have d: "\<not> bad \<Longrightarrow> d \<longleftrightarrow> durable_view rt' \<noteq> durable_view (case rt_get i st of Some rt \<Rightarrow> rt | None \<Rightarrow> new_runtime i)"
    unfolding setdefault_frame(1) .
  define st2 where "st2 = (fst (setdefault i st))\<lparr>rt_instances := dict_set i rt' (rt_instances (fst (setdefault i st)))\<rparr>"
  have st2: "rt_get i st2 = Some rt'" "\<And>j. j \<noteq> i \<Longrightarrow> rt_get j st2 = rt_get j st"
    "rt_persist_calls st2 = rt_persist_calls st" "rt_persist_callback st2 = rt_persist_callback st"
    using setdefault_frame(2)[of _ i st] by (simp_all add: st2_def rt_get_def setdefault_frame)
  have "(st', res) = (if bad then (st2, Inl ValueError) else (if d then call_persist st2 else st2, Inr rt'))"
    unfolding assms(2)[symmetric] by (simp add: transition_def Let_def case_prod_unfold st2_def a)
  then show ?thesis
    using bad d st2 by (cases bad) (simp_all add: call_persist_def rt_get_def)
qed

theorem transition_persists_witness:
  "let st = set_persist_callback True empty_store;
       (st', res) = transition 7 [Ch_phase PH_DECIDING, Ch_request_id ''r''] st
   in rt_persist_calls st' = 1"
proof -
  let ?st = "set_persist_callback True empty_store" and ?cs = "[Ch_phase PH_DECIDING, Ch_request_id ''r'']"
  have d: "distinct (map change_name ?cs)" by simp
  obtain st' res where t: "transition 7 ?cs ?st = (st', res)" by fastforce
  from t have "res = Inr ((new_runtime 7)\<lparr>phase := PH_DECIDING, request_id := ''r''\<rparr>)"
    by (auto simp: transition_def setdefault_def set_persist_callback_def empty_store_def Let_def)
  then have "rt_persist_calls st' = 1"
    using transition_persists[OF d t] by (auto simp: set_persist_callback_def empty_store_def rt_get_def durable_view_def new_runtime_def)
  with t show ?thesis by simp
qed

text \<open>
  Whole-pod expansion. When no DP rank is hosted by two pods, expanding failed ranks to whole
  pods covers them, adds nothing outside the original ranks, is idempotent and can always be
  stopped pod by pod; the unexpanded ranks can be stopped pod by pod exactly when they already
  are whole pods; and the elastic cut keeps exactly the surviving ranks, at least one, or is refused.
\<close>

theorem expand_whole_pods:
  assumes "instance_ok ins" and "topo_original_dp_ranks ins = Inr orig" and "pod_dp_ranks ins = Inr pods"
    and "\<forall>p r q s. (p, r) \<in> set pods \<and> (q, s) \<in> set pods \<and> r \<noteq> s \<longrightarrow> r \<inter> s = {}"
    and "seed \<noteq> {}" and "seed \<subseteq> set orig"
  shows "\<exists>E. expand_problem_pod_ranks ins seed = Inr E \<and> seed \<subseteq> E \<and> E \<subseteq> set orig \<and>
    expand_problem_pod_ranks ins E = Inr E \<and> can_stop_all_problem_pods ins E \<and>
    (can_stop_all_problem_pods ins seed \<longleftrightarrow> E = seed) \<and>
    elastic_pod_cut_target_dp (set orig) E = (if E = set orig then None else Some (int (card (set orig - E))))"
proof -
  define E where "E = \<Union> {ranks. \<exists>pod. (pod, ranks) \<in> set pods \<and> ranks \<inter> seed \<noteq> {}}"
  note cover = pod_dp_ranks_cover[OF assms(1-3)]
  have sub: "seed \<subseteq> E"
  proof
    fix x assume x: "x \<in> seed"
    then obtain p r where "(p, r) \<in> set pods" "x \<in> r" using cover assms(6) by blast
    with x show "x \<in> E" unfolding E_def by blast
  qed
  have in_orig: "E \<subseteq> set orig" unfolding E_def using cover by blast
  have touch: "r \<inter> E \<noteq> {} \<longleftrightarrow> r \<inter> seed \<noteq> {}" if "(p, r) \<in> set pods" for p r
  proof
    assume "r \<inter> E \<noteq> {}"
    then obtain x q s where "x \<in> r" "x \<in> s" "(q, s) \<in> set pods" "s \<inter> seed \<noteq> {}" unfolding E_def by blast
    with that assms(4) show "r \<inter> seed \<noteq> {}" by (cases "r = s") blast+
  qed (use sub in blast)
  have exp: "expand_problem_pod_ranks ins seed = Inr E" unfolding E_def by (rule expand_eq[OF assms(3)])
  have "{ranks. \<exists>pod. (pod, ranks) \<in> set pods \<and> ranks \<inter> E \<noteq> {}} =
      {ranks. \<exists>pod. (pod, ranks) \<in> set pods \<and> ranks \<inter> seed \<noteq> {}}"
    by (rule Collect_cong) (use touch in metis)
  then have idem: "expand_problem_pod_ranks ins E = Inr E" using expand_eq[OF assms(3), of E] by (simp only: E_def)
  have ne: "E \<noteq> {}" using sub assms(5) by blast
  have "E \<subseteq> \<Union> {ranks. \<exists>pod. (pod, ranks) \<in> set pods \<and> ranks \<noteq> {} \<and> ranks \<subseteq> E}"
    unfolding E_def by blast
  then have stopE: "can_stop_all_problem_pods ins E" using ne by (simp add: can_stop_iff[OF assms(3)])
  have "E = seed" if whole: "seed \<subseteq> \<Union> {ranks. \<exists>pod. (pod, ranks) \<in> set pods \<and> ranks \<noteq> {} \<and> ranks \<subseteq> seed}"
  proof
    show "E \<subseteq> seed"
    proof
      fix x assume "x \<in> E"
      then obtain q s y where s: "x \<in> s" "(q, s) \<in> set pods" "y \<in> s" "y \<in> seed" unfolding E_def by blast
      then obtain p r where "(p, r) \<in> set pods" "y \<in> r" "r \<subseteq> seed" using whole by blast
      with s assms(4) show "x \<in> seed" by (cases "r = s") blast+
    qed
  qed (rule sub)
  with stopE have stop: "can_stop_all_problem_pods ins seed \<longleftrightarrow> E = seed"
    by (auto simp: can_stop_iff[OF assms(3)])
  have "card (set orig - E) = card (set orig) - card E" "card E \<le> card (set orig)"
    using in_orig by (simp_all add: card_Diff_subset finite_subset card_mono)
  moreover have "card E < card (set orig)" if "E \<noteq> set orig"
    using in_orig that by (simp add: psubset_card_mono psubset_eq)
  moreover have "set orig \<noteq> {}" using assms(5,6) by auto
  ultimately have "elastic_pod_cut_target_dp (set orig) E = (if E = set orig then None else Some (int (card (set orig - E))))"
    using ne in_orig by (auto simp: elastic_pod_cut_target_dp_def Let_def)
  with exp sub in_orig idem stopE stop show ?thesis by blast
qed

theorem expand_whole_pods_witness:
  "expand_problem_pod_ranks demo_dp_instance {1} = Inr {0, 1} \<and>
   elastic_pod_cut_target_dp (set [0, 1, 2]) {0, 1} = Some 1"
proof -
  have scan: "map ep_id (snd (get_all_endpoints False demo_dp_instance)) = [0, 1, 2]"
    by (simp add: demo_dp_instance_def demo_instance_def demo_endpoint_def get_all_endpoints_def scan_endpoints_def ep_entries_def)
  have "sorted_list_of_set (set [0, 1, 2 :: int]) = [0, 1, 2]" by code_simp
  moreover have "parallel_config demo_dp_instance = Some demo_parallel" "dp_size demo_parallel = 3"
    by (simp_all add: demo_dp_instance_def demo_parallel_def)
  ultimately have orig: "topo_original_dp_ranks demo_dp_instance = Inr [0, 1, 2]"
    by (simp only: topo_original_dp_ranks_def scan Let_def option.case) (simp add: upto.simps)
  have pods: "pod_dp_ranks demo_dp_instance = Inr [(''10.0.0.1'', {0, 1}), (''10.0.0.2'', {2})]"
    by (simp add: pod_dp_ranks_def orig) (auto simp: demo_dp_instance_def demo_instance_def demo_endpoint_def)
  have ok: "instance_ok demo_dp_instance"
    by (simp add: instance_ok_def cache_ok_def wf_endpoints_def demo_dp_instance_def demo_instance_def)
  have e: "expand_problem_pod_ranks demo_dp_instance {1} = Inr {0, 1}"
    by (simp add: expand_problem_pod_ranks_def pods)
  have "\<forall>p r q s. (p, r) \<in> set [(''10.0.0.1'', {0, 1 :: int}), (''10.0.0.2'', {2})] \<and>
      (q, s) \<in> set [(''10.0.0.1'', {0, 1}), (''10.0.0.2'', {2})] \<and> r \<noteq> s \<longrightarrow> r \<inter> s = {}" by auto
  from expand_whole_pods[OF ok orig pods this, of "{1}"] e
  have "elastic_pod_cut_target_dp (set [0, 1, 2]) {0, 1} =
      (if {0, 1} = set [0, 1, 2 :: int] then None else Some (int (card (set [0, 1, 2 :: int] - {0, 1}))))"
    by auto
  moreover have "set [0, 1, 2 :: int] - {0, 1} = {2}" by auto
  moreover have "2 \<in> set [0, 1, 2 :: int]" "2 \<notin> {0, 1 :: int}" by simp_all
  then have "{0, 1} \<noteq> set [0, 1, 2 :: int]" by blast
  ultimately show ?thesis using e by simp
qed

text \<open>
  Clearing a fault before the engine is touched leaves the phase persisted earlier in place: no
  persist callback runs, so a later restart restores the abandoned attempt as interrupted.
\<close>

theorem resume_is_not_persisted:
  assumes "store_ok st" and "rt_get i st = Some rt" and "phase rt = PH_WAITING_ENGINE_FAULT"
  shows "rt_persist_calls (fst (resume_after_fault_clear i st)) = rt_persist_calls st \<and>
    dict_get (snd (restart rp st)) i = Some (recovery_fallback rt) \<and>
    dict_get (snd (restart rp (fst (resume_after_fault_clear i st)))) i = None"
proof -
  let ?rt = "rt\<lparr>phase := committed_phase rt, pending_removed_ranks := [], engine_statuses := [],
    serving_published := False, last_error := None\<rparr>"
  let ?st = "fst (resume_after_fault_clear i st)"
  have r: "?st = st\<lparr>rt_instances := dict_set i ?rt (rt_instances st)\<rparr>"
    using assms by (simp add: resume_after_fault_clear_def rt_get_def Let_def)
  have g: "rt_get i ?st = Some ?rt" by (simp add: r rt_get_def)
  have "\<not> attempt_open ?rt" by (simp add: attempt_open_def committed_phase_def)
  then have "dict_get (snd (restart rp ?st)) i = None"
    using restart_get(2)[OF resume_ok[OF assms(1)]] g by simp
  moreover have "dict_get (snd (restart rp st)) i = Some (recovery_fallback rt)"
    using restart_get(2)[OF assms(1)] assms by (simp add: is_durable_def attempt_open_def)
  moreover have "rt_persist_calls ?st = rt_persist_calls st" by (simp add: r)
  ultimately show ?thesis by blast
qed

theorem resume_is_not_persisted_witness:
  "let st = put ((new_runtime 7)\<lparr>phase := PH_WAITING_ENGINE_FAULT\<rparr>) empty_store
   in dict_get (snd (restart (\<lambda>_. []) st)) 7 = Some ''InstanceReconfigurationStrategy''"
proof -
  let ?rt = "(new_runtime 7)\<lparr>phase := PH_WAITING_ENGINE_FAULT\<rparr>"
  have ok: "store_ok (put ?rt empty_store)" by (simp add: store_ok_def put_def empty_store_def new_runtime_def runtime_ok_def)
  have g: "rt_get 7 (put ?rt empty_store) = Some ?rt" by (simp add: rt_get_def put_def empty_store_def new_runtime_def)
  show ?thesis
    using resume_is_not_persisted[OF ok g, of "\<lambda>_. []"] by (simp add: recovery_fallback_def new_runtime_def)
qed

end
