(* ===== verification/Controller_Instances.thy ===== *)
theory Controller_Instances
  imports Ft_Runtime
begin

text \<open>
  The controller's instance manager: \<^verbatim>\<open>motor/controller/core/instance_manager.py\<close>.

  The state is the singleton's fields and a log of what it sends out (observer notifications,
  alarms, stop requests, the SET event). A handler works on an instance object; an object of the
  \<open>instances\<close> dictionary is identified with its value there, and a handler that removes the object
  from the dictionary keeps working on its own copy, as the code does on the detached object.
  A handler runs without interruption; the readings of the clock and the answers of the outside
  world during one handler are the fields of an environment \<open>env\<close>: the node managers' answers, whether
  ETCD accepts the write, the fault-tolerance store, and the pydantic dump and load of an
  instance together with the checksum, which are library code.
\<close>

section \<open>State and environment\<close>

datatype ObserverEvent = OBS_INITIAL | OBS_READY | OBS_SEPARATED | OBS_REMOVED | OBS_PAUSED | OBS_RESUMED

datatype ctl_effect =
    Notify int ObserverEvent
  | Push_SET
  | Server_event ServerExceptionEvent
  | Inst_alarm string bool
  | Coordinator_alarm bool
  | Stop_node_manager int NodeManagerInfo

text \<open>
  A node manager's answer to a status query: a dictionary with a \<open>status\<close> entry (its truth value),
  anything else, or an exception of the client.
\<close>

datatype nm_response = Resp_status bool | Resp_invalid | Resp_exception

record 'r PersistentState =
  ps_data :: "(string, 'r) dict"
  ps_version :: int
  ps_timestamp :: pyfloat
  ps_checksum :: string

text \<open>
  What ETCD holds under \<^verbatim>\<open>/controller/instance_manager\<close>: nothing, something without a usable
  \<open>state\<close> entry, or a persisted state.
\<close>

datatype 'r etcd_cell = Cell_empty | Cell_malformed | Cell_state "'r PersistentState"

record 'r ctl_env =
  env_now :: pyfloat
  query_status :: "NodeManagerInfo \<Rightarrow> nm_response"
  etcd_up :: bool
  ft_store :: FtRuntimeStore
  model_dump :: "Instance \<Rightarrow> 'r"
  model_load :: "'r \<Rightarrow> Instance option"
  digest :: "(string, 'r) dict \<Rightarrow> int \<Rightarrow> pyfloat \<Rightarrow> string"

record 'r InstanceManager =
  instances :: "(int, Instance) dict"
  forced_separated_instances :: "int set"
  partial_loss_shutdown_sent :: "int set"
  enable_etcd_persistence :: bool
  enable_dp_scale_down :: bool
  has_event_pusher :: bool
  data_version :: int
  etcd :: "'r etcd_cell"
  effects :: "ctl_effect list"

record HeartbeatMsg =
  hb_job_name :: string
  hb_ins_id :: int
  hb_ip :: string
  hb_status :: "(int, EndpointStatus) dict"

fun transitions :: "InsStatus \<Rightarrow> InsConditionEvent \<Rightarrow> InsStatus option" where
  "transitions INITIAL INSTANCE_INIT = Some INITIAL"
| "transitions INITIAL INSTANCE_NORMAL = Some ACTIVE"
| "transitions INITIAL INSTANCE_ABNORMAL = Some INACTIVE"
| "transitions INITIAL INSTANCE_HEARTBEAT_TIMEOUT = Some DELETED"
| "transitions ACTIVE INSTANCE_NORMAL = Some ACTIVE"
| "transitions ACTIVE INSTANCE_HEARTBEAT_TIMEOUT = Some INACTIVE"
| "transitions ACTIVE INSTANCE_ABNORMAL = Some INACTIVE"
| "transitions INACTIVE INSTANCE_ABNORMAL = Some INACTIVE"
| "transitions INACTIVE INSTANCE_NORMAL = Some ACTIVE"
| "transitions INACTIVE INSTANCE_INIT = Some INITIAL"
| "transitions INACTIVE INSTANCE_HEARTBEAT_TIMEOUT = Some DELETED"
| "transitions ACTIVE INSTANCE_PAUSED = Some PAUSED"
| "transitions INACTIVE INSTANCE_PAUSED = Some PAUSED"
| "transitions INITIAL INSTANCE_PAUSED = Some PAUSED"
| "transitions PAUSED INSTANCE_PAUSED = Some PAUSED"
| "transitions PAUSED INSTANCE_RESUMED = Some ACTIVE"
| "transitions PAUSED INSTANCE_NORMAL = Some ACTIVE"
| "transitions PAUSED INSTANCE_HEARTBEAT_TIMEOUT = Some DELETED"
| "transitions PAUSED INSTANCE_ABNORMAL = Some INACTIVE"
| "transitions _ _ = None"

definition emit :: "ctl_effect list \<Rightarrow> 'r InstanceManager \<Rightarrow> 'r InstanceManager" where
  "emit es st = st\<lparr>effects := effects st @ es\<rparr>"

definition notify :: "Instance \<Rightarrow> ObserverEvent \<Rightarrow> 'r InstanceManager \<Rightarrow> 'r InstanceManager" where
  "notify ins ev st = emit [Notify (ins_id ins) ev] st"

definition update_config :: "bool \<Rightarrow> bool \<Rightarrow> bool \<Rightarrow> 'r InstanceManager \<Rightarrow> 'r InstanceManager" where
  "update_config persistence fault_tolerance dp_scale_down st =
     st\<lparr>enable_etcd_persistence := persistence,
        enable_dp_scale_down := (fault_tolerance \<and> dp_scale_down)\<rparr>"

section \<open>Persistence\<close>

definition get_next_version :: "'r InstanceManager \<Rightarrow> 'r InstanceManager \<times> int" where
  "get_next_version st = (st\<lparr>data_version := data_version st + 1\<rparr>, data_version st + 1)"

definition calculate_checksum :: "'r ctl_env \<Rightarrow> 'r PersistentState \<Rightarrow> string" where
  "calculate_checksum env ps = digest env (ps_data ps) (ps_version ps) (ps_timestamp ps)"

definition ps_is_valid :: "'r ctl_env \<Rightarrow> 'r PersistentState \<Rightarrow> bool" where
  "ps_is_valid env ps \<longleftrightarrow> ps_checksum ps = calculate_checksum env ps"

definition persist_data :: "'r ctl_env \<Rightarrow> 'r InstanceManager \<Rightarrow> 'r InstanceManager \<times> bool" where
  "persist_data env st =
     (let (st1, v) = get_next_version st;
          data = foldl (\<lambda>d (i, ins). dict_set (py_str_int i) (model_dump env ins) d) [] (instances st);
          ps = \<lparr>ps_data = data, ps_version = v, ps_timestamp = env_now env, ps_checksum = []\<rparr>;
          ps' = ps\<lparr>ps_checksum := calculate_checksum env ps\<rparr>
      in if etcd_up env then (st1\<lparr>etcd := Cell_state ps'\<rparr>, True) else (st1, False))"

definition persist_topology :: "'r ctl_env \<Rightarrow> 'r InstanceManager \<Rightarrow> 'r InstanceManager \<times> bool" where
  "persist_topology env st =
     (if \<not> enable_etcd_persistence st then (st, True) else persist_data env st)"

definition maybe_refresh_heartbeat ::
  "pyfloat \<Rightarrow> bool \<Rightarrow> Instance \<Rightarrow> 'r InstanceManager \<Rightarrow> 'r InstanceManager \<times> Instance" where
  "maybe_refresh_heartbeat now should_notify ins st =
     (if ins_status ins = ACTIVE
      then (let ins' = refresh_all_heartbeats now ins
            in (if should_notify then notify ins' OBS_READY st else st, ins'))
      else (st, ins))"

text \<open>
  One entry of the restore loop: the dictionary built so far and the ACTIVE instances met.
\<close>

definition restore_entry ::
  "'r ctl_env \<Rightarrow> (int, Instance) dict \<times> Instance list \<Rightarrow> string \<times> 'r \<Rightarrow> (int, Instance) dict \<times> Instance list" where
  "restore_entry env acc entry =
     (case model_load env (snd entry) of
        None \<Rightarrow> acc
      | Some raw \<Rightarrow>
          (let ins = (if ins_status raw = ACTIVE then refresh_all_heartbeats (env_now env) raw else raw)
           in (dict_set (ins_id ins) ins (fst acc),
               if ins_status ins = ACTIVE then snd acc @ [ins] else snd acc)))"

definition restore_data :: "'r ctl_env \<Rightarrow> 'r InstanceManager \<Rightarrow> 'r InstanceManager \<times> bool" where
  "restore_data env st =
     (case etcd st of
        Cell_empty \<Rightarrow> (st, True)
      | Cell_malformed \<Rightarrow> (st, False)
      | Cell_state ps \<Rightarrow>
          if \<not> ps_is_valid env ps then (st, False)
          else (let (restored, active) = foldl (restore_entry env) ([], []) (ps_data ps)
                in (emit (map (\<lambda>ins. Notify (ins_id ins) OBS_READY) active @
                          (if has_event_pusher st then [Push_SET] else []))
                      (st\<lparr>data_version := max (data_version st) (ps_version ps), instances := restored\<rparr>),
                    True)))"

text \<open>
  The part of \<open>start\<close> that touches the instances.
\<close>

definition start_manager :: "'r ctl_env \<Rightarrow> 'r InstanceManager \<Rightarrow> 'r InstanceManager" where
  "start_manager env st =
     (if enable_etcd_persistence st then fst (restore_data env st)
      else st\<lparr>instances := map (\<lambda>(i, ins). (i, snd (maybe_refresh_heartbeat (env_now env) False ins st)))
                              (instances st)\<rparr>)"

section \<open>Registry\<close>

definition get_instance_num :: "'r InstanceManager \<Rightarrow> nat" where
  "get_instance_num st = length (instances st)"

definition instances_with :: "InsStatus set \<Rightarrow> 'r InstanceManager \<Rightarrow> Instance list" where
  "instances_with ss st = filter (\<lambda>ins. ins_status ins \<in> ss) (dict_values (instances st))"

definition get_active_instances :: "'r InstanceManager \<Rightarrow> Instance list" where
  "get_active_instances st = instances_with {ACTIVE} st"

definition get_initial_instances :: "'r InstanceManager \<Rightarrow> Instance list" where
  "get_initial_instances st = instances_with {INITIAL} st"

definition get_inactive_instances :: "'r InstanceManager \<Rightarrow> Instance list" where
  "get_inactive_instances st = instances_with {INACTIVE} st"

definition get_instances :: "InsStatus set option \<Rightarrow> 'r InstanceManager \<Rightarrow> Instance list" where
  "get_instances statuses st =
     instances_with (case statuses of Some ss \<Rightarrow> ss | None \<Rightarrow> {INITIAL, ACTIVE, INACTIVE}) st"

definition get_instances_by_role :: "string \<Rightarrow> 'r InstanceManager \<Rightarrow> Instance list" where
  "get_instances_by_role role st = filter (\<lambda>ins. ins_role ins = role) (dict_values (instances st))"

definition initial_status :: "(int, Endpoint) dict \<Rightarrow> (int, EndpointStatus) dict" where
  "initial_status eps = foldl (\<lambda>d ep. dict_set (ep_id ep) EP_INITIAL d) [] (dict_values eps)"

text \<open>
  The loop that gives every pod of a new instance a first heartbeat with status INITIAL.
\<close>

definition register_heartbeats :: "pyfloat \<Rightarrow> Instance \<Rightarrow> Instance" where
  "register_heartbeats ts ins =
     foldl (\<lambda>x pod. fst (update_heartbeat pod ts (initial_status (get_endpoints pod x)) {} x))
           ins (dict_keys (endpoints ins))"

definition add_instance :: "pyfloat \<Rightarrow> Instance \<Rightarrow> 'r InstanceManager \<Rightarrow> 'r InstanceManager" where
  "add_instance ts ins st =
     (if in_dict (ins_id ins) (instances st) then st
      else (let ins' = register_heartbeats ts ins
            in notify ins' OBS_INITIAL (st\<lparr>instances := dict_set (ins_id ins) ins' (instances st)\<rparr>)))"

definition del_instance :: "int \<Rightarrow> 'r InstanceManager \<Rightarrow> 'r InstanceManager" where
  "del_instance i st =
     (if in_dict i (instances st)
      then st\<lparr>instances := dict_pop i (instances st),
              forced_separated_instances := forced_separated_instances st - {i}\<rparr>
      else st)"

definition get_instance :: "int \<Rightarrow> 'r InstanceManager \<Rightarrow> Instance option" where
  "get_instance i st = dict_get (instances st) i"

definition get_instance_by_podip :: "string \<Rightarrow> 'r InstanceManager \<Rightarrow> Instance option" where
  "get_instance_by_podip ip st = find (is_ip_in_endpoints ip) (dict_values (instances st))"

text \<open>
  \<open>instance.update_instance_status(s)\<close>: the object in hand and, while it is registered, the
  dictionary's view of it.
\<close>

definition set_status :: "InsStatus \<Rightarrow> 'r InstanceManager \<times> Instance \<Rightarrow> 'r InstanceManager \<times> Instance" where
  "set_status s p =
     ((fst p)\<lparr>instances := dict_modify (ins_id (snd p)) (update_instance_status s) (instances (fst p))\<rparr>,
      update_instance_status s (snd p))"

definition separate_instance :: "'r ctl_env \<Rightarrow> int \<Rightarrow> 'r InstanceManager \<Rightarrow> 'r InstanceManager" where
  "separate_instance env i st =
     (case get_instance i st of
        None \<Rightarrow> st
      | Some ins \<Rightarrow>
          (let st1 = st\<lparr>forced_separated_instances := insert (ins_id ins) (forced_separated_instances st)\<rparr>
           in if ins_status ins = ACTIVE
              then (let (st2, ins') = set_status INACTIVE (st1, ins);
                        st3 = notify ins' OBS_SEPARATED st2
                    in if enable_etcd_persistence st3 then fst (persist_data env st3) else st3)
              else st1))"

definition is_instance_separated :: "int \<Rightarrow> 'r InstanceManager \<Rightarrow> bool" where
  "is_instance_separated i st =
     (case get_instance i st of
        None \<Rightarrow> False
      | Some ins \<Rightarrow> ins_id ins \<in> forced_separated_instances st)"

definition find_newer_instance_by_job_name :: "string \<Rightarrow> int \<Rightarrow> 'r InstanceManager \<Rightarrow> Instance option" where
  "find_newer_instance_by_job_name job current st =
     find (\<lambda>ins. job_name ins = job \<and> ins_id ins > current) (dict_values (instances st))"

definition recover_instance :: "int \<Rightarrow> 'r InstanceManager \<Rightarrow> 'r InstanceManager" where
  "recover_instance i st =
     (case get_instance i st of
        None \<Rightarrow> st
      | Some ins \<Rightarrow>
          (case find_newer_instance_by_job_name (job_name ins) (ins_id ins) st of
             Some newer \<Rightarrow>
               st\<lparr>forced_separated_instances := forced_separated_instances st - {ins_id ins}\<rparr>
           | None \<Rightarrow>
               if ins_id ins \<in> forced_separated_instances st
               then st\<lparr>forced_separated_instances := forced_separated_instances st - {ins_id ins}\<rparr>
               else st))"

definition get_instance_by_job_name :: "string \<Rightarrow> 'r InstanceManager \<Rightarrow> Instance option" where
  "get_instance_by_job_name job st =
     foldl (\<lambda>current ins.
              if job_name ins \<noteq> job then current
              else case current of
                     None \<Rightarrow> Some ins
                   | Some c \<Rightarrow> if ins_id ins > ins_id c then Some ins else current)
           None (dict_values (instances st))"

definition has_instance_by_job_name :: "string \<Rightarrow> 'r InstanceManager \<Rightarrow> bool" where
  "has_instance_by_job_name job st = list_ex (\<lambda>ins. job_name ins = job) (dict_values (instances st))"

definition has_active_instance_by_job_name :: "string \<Rightarrow> 'r InstanceManager \<Rightarrow> bool" where
  "has_active_instance_by_job_name job st =
     list_ex (\<lambda>ins. job_name ins = job \<and> ins_status ins = ACTIVE) (dict_values (instances st))"

section \<open>Probing, alarms and shutdown\<close>

definition check_node_managers_status :: "'r ctl_env \<Rightarrow> Instance \<Rightarrow> bool \<times> NodeManagerInfo list" where
  "check_node_managers_status env ins =
     (if node_managers ins = [] then (True, [])
      else foldl (\<lambda>(abnormal, reachable) nm.
                    case query_status env nm of
                      Resp_status ok \<Rightarrow> if ok then (abnormal, reachable @ [nm]) else (True, reachable)
                    | _ \<Rightarrow> (True, reachable))
                 (False, []) (node_managers ins))"

definition report_inst_alarm :: "Instance \<Rightarrow> bool \<Rightarrow> 'r InstanceManager \<Rightarrow> 'r InstanceManager" where
  "report_inst_alarm ins is_cleared st = emit [Inst_alarm (job_name ins) is_cleared] st"

definition partner_role :: "string \<Rightarrow> string option" where
  "partner_role r = (if r = ''prefill'' then Some ''decode'' else if r = ''decode'' then Some ''prefill'' else None)"

definition report_coordinator_alarm :: "Instance \<Rightarrow> bool \<Rightarrow> 'r InstanceManager \<Rightarrow> 'r InstanceManager" where
  "report_coordinator_alarm ins is_cleared st =
     (case (if is_cleared then partner_role (ins_role ins) else Some (ins_role ins)) of
        None \<Rightarrow> st
      | Some role \<Rightarrow>
          (let has_role = list_ex (\<lambda>x. ins_role x = role) (get_active_instances st)
           in if has_role \<noteq> is_cleared then st else emit [Coordinator_alarm is_cleared] st))"

text \<open>
  The policy of an instance: none when DP scale-down is off.
\<close>

definition policy_of :: "'r ctl_env \<Rightarrow> Instance \<Rightarrow> 'r InstanceManager \<Rightarrow> PartialLossPolicy option" where
  "policy_of env ins st =
     (if enable_dp_scale_down st then Some (partial_loss_policy (ft_store env) (ins_id ins)) else None)"

definition dispatch_partial_loss_shutdown ::
  "'r ctl_env \<Rightarrow> Instance \<Rightarrow> NodeManagerInfo list \<Rightarrow> 'r InstanceManager \<Rightarrow> 'r InstanceManager" where
  "dispatch_partial_loss_shutdown env ins reachable st =
     (if (case policy_of env ins st of Some p \<Rightarrow> suppress_legacy_shutdown p | None \<Rightarrow> False) then st
      else if ins_id ins \<in> partial_loss_shutdown_sent st then st
      else emit (map (Stop_node_manager (ins_id ins)) reachable)
             (st\<lparr>partial_loss_shutdown_sent := insert (ins_id ins) (partial_loss_shutdown_sent st)\<rparr>))"

section \<open>State handlers\<close>

type_synonym 'r handler =
  "'r ctl_env \<Rightarrow> InsStatus \<Rightarrow> InsConditionEvent \<Rightarrow> 'r InstanceManager \<times> Instance \<Rightarrow> 'r InstanceManager \<times> Instance"

definition handle_initial :: "'r handler" where
  "handle_initial env from event p =
     (if from = INITIAL then p
      else if from = INACTIVE \<and> event = INSTANCE_INIT then set_status INITIAL p
      else p)"

definition handle_active :: "'r handler" where
  "handle_active env from event p =
     (if from = ACTIVE then p
      else (let (st, ins) = p;
                st1 = st\<lparr>partial_loss_shutdown_sent := partial_loss_shutdown_sent st - {ins_id ins}\<rparr>
            in if event \<in> {INSTANCE_NORMAL, INSTANCE_RESUMED}
               then (let (st2, ins') = set_status ACTIVE (st1, ins);
                         st3 = notify ins' (if event = INSTANCE_RESUMED then OBS_RESUMED else OBS_READY) st2
                     in (report_coordinator_alarm ins' True (report_inst_alarm ins' True st3), ins'))
               else (st1, ins)))"

definition handle_inactive :: "'r handler" where
  "handle_inactive env from event p =
     (if from = INACTIVE then p
      else if event = INSTANCE_ABNORMAL
      then (let (st1, ins') = set_status INACTIVE p in (notify ins' OBS_SEPARATED st1, ins'))
      else if event = INSTANCE_HEARTBEAT_TIMEOUT
      then (let (st, ins) = p
            in if (case policy_of env ins st of Some pol \<Rightarrow> protect_transaction pol | None \<Rightarrow> False) then p
               else (let (has_abnormal, reachable) = check_node_managers_status env ins
                     in if has_abnormal
                        then (let (st1, ins') = set_status INACTIVE p
                              in (dispatch_partial_loss_shutdown env ins' reachable
                                    (report_coordinator_alarm ins' False
                                      (report_inst_alarm ins' False (notify ins' OBS_SEPARATED st1))), ins'))
                        else (st\<lparr>instances := dict_modify (ins_id ins) (refresh_all_heartbeats (env_now env))
                                               (instances st)\<rparr>,
                              refresh_all_heartbeats (env_now env) ins)))
      else p)"

definition handle_paused :: "'r handler" where
  "handle_paused env from event p =
     (if event = INSTANCE_PAUSED \<and> from \<noteq> PAUSED
      then (let (st1, ins') = set_status PAUSED p
            in (report_inst_alarm ins' False (notify ins' OBS_PAUSED st1), ins'))
      else p)"

definition handle_deleted :: "'r handler" where
  "handle_deleted env from event p =
     (if from = DELETED then p
      else if event \<in> {INSTANCE_HEARTBEAT_TIMEOUT, INSTANCE_ABNORMAL}
      then (let (st1, ins') = set_status DELETED p
            in (del_instance (ins_id ins') (notify ins' OBS_REMOVED st1), ins'))
      else p)"

definition states :: "InsStatus \<Rightarrow> 'r handler" where
  "states s = (case s of
     INITIAL \<Rightarrow> handle_initial
   | ACTIVE \<Rightarrow> handle_active
   | INACTIVE \<Rightarrow> handle_inactive
   | PAUSED \<Rightarrow> handle_paused
   | DELETED \<Rightarrow> handle_deleted)"

section \<open>State transition\<close>

text \<open>
  The condition event of an instance, with the alarms the check for abnormal endpoints raises;
  \<open>None\<close> when the endpoints are ready by status but some heartbeat is stale.
\<close>

definition detect_event ::
  "pyfloat \<Rightarrow> int set \<Rightarrow> Instance \<Rightarrow> InsConditionEvent option \<times> ServerExceptionEvent list" where
  "detect_event now ignored ins =
     (if is_all_endpoints_paused ignored ins then (Some INSTANCE_PAUSED, [])
      else if is_all_endpoints_ready ignored ins
      then (if \<not> is_all_endpoints_heartbeat_fresh now DEFAULT_ACTIVE_HEARTBEAT_TIMEOUT ignored ins
            then (None, [])
            else (Some (if ins_status ins = PAUSED then INSTANCE_RESUMED else INSTANCE_NORMAL), []))
      else (let (abnormal, evs) = is_have_one_endpoint_abnormal ignored ins
            in if abnormal then (Some INSTANCE_ABNORMAL, evs)
               else if is_any_endpoint_paused ignored ins then (Some INSTANCE_PAUSED, evs)
               else (Some INSTANCE_INIT, evs)))"

text \<open>
  The second half of \<open>_handle_state_transition\<close>, once the event is known.
\<close>

definition apply_event ::
  "'r ctl_env \<Rightarrow> InsConditionEvent \<Rightarrow> 'r InstanceManager \<times> Instance \<Rightarrow> 'r InstanceManager \<times> Instance \<times> bool" where
  "apply_event env event p =
     (let (st, ins) = p; from = ins_status ins
      in case transitions from event of
           None \<Rightarrow> (st, ins, False)
         | Some to \<Rightarrow>
             if ins_id ins \<in> forced_separated_instances st \<and> to = ACTIVE then (st, ins, True)
             else (let (st1, ins1) = states to env from event (st, ins);
                       st2 = (if from \<noteq> ins_status ins1 \<and> enable_etcd_persistence st1
                              then fst (persist_data env st1) else st1);
                       st3 = (if to = DELETED \<and> ins_id ins1 \<in> forced_separated_instances st2
                              then st2\<lparr>forced_separated_instances :=
                                         forced_separated_instances st2 - {ins_id ins1}\<rparr>
                              else st2)
                   in (st3, ins1, True)))"

definition handle_state_transition ::
  "'r ctl_env \<Rightarrow> InsConditionEvent option \<Rightarrow> 'r InstanceManager \<times> Instance \<Rightarrow> 'r InstanceManager \<times> Instance \<times> bool" where
  "handle_state_transition env event_override p =
     (let (st, ins) = p; policy = policy_of env ins st;
          ignored = (case policy of Some pol \<Rightarrow> ignored_dead_ranks pol | None \<Rightarrow> {})
      in if (case policy of Some pol \<Rightarrow> protect_transaction pol | None \<Rightarrow> False) then (st, ins, True)
         else case event_override of
                Some event \<Rightarrow> apply_event env event (st, ins)
              | None \<Rightarrow>
                  (let (detected, evs) = detect_event (env_now env) ignored ins;
                       st1 = emit (map Server_event evs) st
                   in case detected of
                        None \<Rightarrow> (st1, ins, True)
                      | Some event \<Rightarrow> apply_event env event (st1, ins)))"

text \<open>
  A message that is not a \<open>HeartbeatMsg\<close> is \<open>None\<close>. The timestamp is read before the checks.
\<close>

definition handle_heartbeat ::
  "'r ctl_env \<Rightarrow> pyfloat \<Rightarrow> HeartbeatMsg option \<Rightarrow> 'r InstanceManager \<Rightarrow> 'r InstanceManager \<times> (py_error + bool \<times> int)" where
  "handle_heartbeat env ts msg st =
     (case msg of
        None \<Rightarrow> (st, Inr (False, 500))
      | Some m \<Rightarrow>
          (case dict_get (instances st) (hb_ins_id m) of
             None \<Rightarrow> (st, Inl (HTTPException 503))
           | Some ins \<Rightarrow>
               (let ignored = (if enable_dp_scale_down st
                               then committed_dp_ranks (ft_store env) (hb_ins_id m) else {});
                    (ins', ok) = update_heartbeat (hb_ip m) ts (hb_status m) ignored ins
                in if \<not> ok then (st, Inl (HTTPException 500))
                   else (let st1 = st\<lparr>instances := dict_set (hb_ins_id m) ins' (instances st)\<rparr>;
                             (st2, ins2, done) = handle_state_transition env None (st1, ins')
                         in if done then (st2, Inr (True, 200)) else (st2, Inl (HTTPException 500))))))"

section \<open>Management loop\<close>

definition is_effective_heartbeat_complete ::
  "'r ctl_env \<Rightarrow> Instance \<Rightarrow> 'r InstanceManager \<Rightarrow> 'r InstanceManager \<times> bool" where
  "is_effective_heartbeat_complete env ins st =
     (case policy_of env ins st of
        None \<Rightarrow>
          (let (ok, evs) = is_all_endpoints_alive (env_now env) None {} ins
           in (emit (map Server_event evs) st, ok))
      | Some pol \<Rightarrow>
          if protect_transaction pol then (st, True)
          else (let (ok, evs) = is_all_endpoints_alive (env_now env) None (ignored_dead_ranks pol) ins
                in (emit (map Server_event evs) st, ok)))"

text \<open>
  One instance of a round, and a round over the snapshot of the registered instances.
\<close>

definition manage_instance :: "'r ctl_env \<Rightarrow> 'r InstanceManager \<Rightarrow> int \<Rightarrow> 'r InstanceManager" where
  "manage_instance env st i =
     (case dict_get (instances st) i of
        None \<Rightarrow> st
      | Some ins \<Rightarrow>
          if ins_status ins = DELETED then st
          else (let (st1, complete) = is_effective_heartbeat_complete env ins st
                in if complete then st1
                   else fst (handle_state_transition env (Some INSTANCE_HEARTBEAT_TIMEOUT) (st1, ins))))"

definition management_round :: "'r ctl_env \<Rightarrow> 'r InstanceManager \<Rightarrow> 'r InstanceManager" where
  "management_round env st = foldl (manage_instance env) st (dict_keys (instances st))"

section \<open>The manager as a component\<close>

datatype 'r ctl_op =
    Ctl_add pyfloat Instance
  | Ctl_del int
  | Ctl_separate "'r ctl_env" int
  | Ctl_recover int
  | Ctl_heartbeat "'r ctl_env" pyfloat "HeartbeatMsg option"
  | Ctl_manage "'r ctl_env"
  | Ctl_persist "'r ctl_env"
  | Ctl_restore "'r ctl_env"
  | Ctl_start "'r ctl_env"
  | Ctl_config bool bool bool

fun ctl_step :: "'r InstanceManager \<Rightarrow> 'r ctl_op \<Rightarrow> 'r InstanceManager" where
  "ctl_step st (Ctl_add ts ins) = add_instance ts ins st"
| "ctl_step st (Ctl_del i) = del_instance i st"
| "ctl_step st (Ctl_separate env i) = separate_instance env i st"
| "ctl_step st (Ctl_recover i) = recover_instance i st"
| "ctl_step st (Ctl_heartbeat env ts msg) = fst (handle_heartbeat env ts msg st)"
| "ctl_step st (Ctl_manage env) = management_round env st"
| "ctl_step st (Ctl_persist env) = fst (persist_topology env st)"
| "ctl_step st (Ctl_restore env) = fst (restore_data env st)"
| "ctl_step st (Ctl_start env) = start_manager env st"
| "ctl_step st (Ctl_config b c d) = update_config b c d st"

text \<open>
  The status of a registered instance, and the registry's invariant: every instance is filed under
  its own ID, once, and none is in status DELETED.
\<close>

definition status_of :: "'r InstanceManager \<Rightarrow> int \<Rightarrow> InsStatus option" where
  "status_of st i = map_option ins_status (dict_get (instances st) i)"

definition registry_ok :: "'r InstanceManager \<Rightarrow> bool" where
  "registry_ok st \<longleftrightarrow> distinct (dict_keys (instances st)) \<and>
     (\<forall>i ins. dict_get (instances st) i = Some ins \<longrightarrow> ins_id ins = i \<and> ins_status ins \<noteq> DELETED)"

text \<open>
  What a transition does to the registry: the instance it is about is written back or, in status
  DELETED, removed together with its separation mark; nothing else changes.
\<close>

definition settled :: "Instance \<Rightarrow> 'r InstanceManager \<Rightarrow> 'r InstanceManager \<Rightarrow> Instance \<Rightarrow> bool" where
  "settled ins st st' ins' \<longleftrightarrow> ins_id ins' = ins_id ins \<and>
     (ins_status ins' \<noteq> ins_status ins \<longrightarrow> endpoints ins' = endpoints ins) \<and>
     instances st' = (if ins_status ins' = DELETED then dict_pop (ins_id ins) (instances st)
                      else dict_set (ins_id ins) ins' (instances st)) \<and>
     forced_separated_instances st' =
       (if ins_status ins' = DELETED then forced_separated_instances st - {ins_id ins}
        else forced_separated_instances st)"

text \<open>
  The endpoint IDs a state transition leaves out, and whether it is deferred.
\<close>

definition ignored_of :: "'r ctl_env \<Rightarrow> Instance \<Rightarrow> 'r InstanceManager \<Rightarrow> int set" where
  "ignored_of env ins st = (case policy_of env ins st of Some pol \<Rightarrow> ignored_dead_ranks pol | None \<Rightarrow> {})"

definition protected :: "'r ctl_env \<Rightarrow> Instance \<Rightarrow> 'r InstanceManager \<Rightarrow> bool" where
  "protected env ins st = (case policy_of env ins st of Some pol \<Rightarrow> protect_transaction pol | None \<Rightarrow> False)"

text \<open>
  The lifecycle an observer of one instance sees between registration and removal: it stays, moves
  along the transition table, or leaves where the table says DELETED.
\<close>

inductive life_step :: "InsStatus option \<Rightarrow> InsStatus option \<Rightarrow> bool" where
  stay: "life_step s s"
| move: "transitions s e = Some t \<Longrightarrow> t \<noteq> DELETED \<Longrightarrow> life_step (Some s) (Some t)"
| expire: "transitions s e = Some DELETED \<Longrightarrow> life_step (Some s) None"

text \<open>
  The registry between the stamping of a heartbeat and the state transition.
\<close>

definition stamped :: "int \<Rightarrow> Instance \<Rightarrow> 'r InstanceManager \<Rightarrow> 'r InstanceManager" where
  "stamped i ins st = st\<lparr>instances := dict_set i ins (instances st)\<rparr>"

definition hb_ignored :: "'r ctl_env \<Rightarrow> int \<Rightarrow> 'r InstanceManager \<Rightarrow> int set" where
  "hb_ignored env i st = (if enable_dp_scale_down st then committed_dp_ranks (ft_store env) i else {})"

text \<open>
  The operations between two restarts, as their callers issue them.
\<close>

fun legal_ctl_op :: "'r ctl_op \<Rightarrow> bool" where
  "legal_ctl_op (Ctl_add ts ins) = (ins_status ins = INITIAL)"
| "legal_ctl_op (Ctl_restore env) = False"
| "legal_ctl_op (Ctl_start env) = False"
| "legal_ctl_op _ = True"

text \<open>
  The operations that leave a forced separation of \<open>i\<close> in force: all but recovering it,
  registering a new instance under its ID and restarting the controller.
\<close>

fun keeps_separation :: "int \<Rightarrow> 'r ctl_op \<Rightarrow> bool" where
  "keeps_separation i (Ctl_add ts ins) = (ins_status ins = INITIAL \<and> ins_id ins \<noteq> i)"
| "keeps_separation i (Ctl_recover j) = (j \<noteq> i)"
| "keeps_separation i (Ctl_restore env) = False"
| "keeps_separation i (Ctl_start env) = False"
| "keeps_separation i _ = True"

definition separated :: "int \<Rightarrow> 'r InstanceManager \<Rightarrow> bool" where
  "separated i st \<longleftrightarrow> registry_ok st \<and>
     (dict_get (instances st) i \<noteq> None \<longrightarrow> i \<in> forced_separated_instances st \<and> status_of st i \<noteq> Some ACTIVE)"

text \<open>
  The stop requests in a log of effects.
\<close>

fun stops :: "ctl_effect list \<Rightarrow> (int \<times> NodeManagerInfo) list" where
  "stops [] = []"
| "stops (Stop_node_manager i nm # es) = (i, nm) # stops es"
| "stops (_ # es) = stops es"

text \<open>
  When survivors are told to exit: an ACTIVE instance timed out, some node manager did not confirm
  that it is well, the fault-tolerance runtime neither protects nor replaces the shutdown, and it
  was not sent before.
\<close>

definition loses_part :: "'r ctl_env \<Rightarrow> Instance \<Rightarrow> 'r InstanceManager \<Rightarrow> bool" where
  "loses_part env ins st \<longleftrightarrow> ins_status ins = ACTIVE \<and>
     (node_managers ins = [] \<or> (\<exists>nm \<in> set (node_managers ins). query_status env nm \<noteq> Resp_status True)) \<and>
     (case policy_of env ins st of Some pol \<Rightarrow> \<not> protect_transaction pol \<and> \<not> suppress_legacy_shutdown pol | None \<Rightarrow> True) \<and>
     ins_id ins \<notin> partial_loss_shutdown_sent st"

text \<open>
  Inputs for the witnesses: one instance, an ETCD that accepts every write, and a codec that is
  the identity up to the private cache fields.
\<close>

definition demo_env :: "Instance ctl_env" where
  "demo_env = \<lparr>env_now = 5, query_status = (\<lambda>nm. Resp_exception), etcd_up = True, ft_store = empty_store,
     model_dump = to_instance, model_load = Some, digest = (\<lambda>d v t. ''sum'')\<rparr>"

definition demo_manager :: "InsStatus \<Rightarrow> Instance InstanceManager" where
  "demo_manager s = \<lparr>instances = [(7, demo_instance 7 ''prefill'' s)], forced_separated_instances = {},
     partial_loss_shutdown_sent = {}, enable_etcd_persistence = True, enable_dp_scale_down = False,
     has_event_pusher = True, data_version = 3, etcd = Cell_empty, effects = []\<rparr>"

definition demo_heartbeat :: HeartbeatMsg where
  "demo_heartbeat = \<lparr>hb_job_name = ''job'', hb_ins_id = 7, hb_ip = ''10.0.0.1'',
     hb_status = [(0, EP_NORMAL), (1, EP_NORMAL)]\<rparr>"

text \<open>
  The instance a restart makes of a persisted one.
\<close>

definition after_restart :: "pyfloat \<Rightarrow> Instance \<Rightarrow> Instance" where
  "after_restart now ins =
     (if ins_status ins = ACTIVE then refresh_all_heartbeats now (to_instance ins) else to_instance ins)"


section \<open>What the outside sees and what it leaves alone\<close>

lemma emit_frame [simp]:
  "instances (emit es st) = instances st"
  "forced_separated_instances (emit es st) = forced_separated_instances st"
  "partial_loss_shutdown_sent (emit es st) = partial_loss_shutdown_sent st"
  "enable_etcd_persistence (emit es st) = enable_etcd_persistence st"
  "enable_dp_scale_down (emit es st) = enable_dp_scale_down st"
  "data_version (emit es st) = data_version st" "etcd (emit es st) = etcd st"
  "effects (emit es st) = effects st @ es"
  by (simp_all add: emit_def)

lemma notify_frame [simp]:
  "instances (notify ins ev st) = instances st"
  "forced_separated_instances (notify ins ev st) = forced_separated_instances st"
  "partial_loss_shutdown_sent (notify ins ev st) = partial_loss_shutdown_sent st"
  "enable_etcd_persistence (notify ins ev st) = enable_etcd_persistence st"
  "enable_dp_scale_down (notify ins ev st) = enable_dp_scale_down st"
  "data_version (notify ins ev st) = data_version st" "etcd (notify ins ev st) = etcd st"
  "effects (notify ins ev st) = effects st @ [Notify (ins_id ins) ev]"
  by (simp_all add: notify_def)

lemma persist_frame [simp]:
  "instances (fst (persist_data env st)) = instances st"
  "forced_separated_instances (fst (persist_data env st)) = forced_separated_instances st"
  "partial_loss_shutdown_sent (fst (persist_data env st)) = partial_loss_shutdown_sent st"
  "enable_etcd_persistence (fst (persist_data env st)) = enable_etcd_persistence st"
  "enable_dp_scale_down (fst (persist_data env st)) = enable_dp_scale_down st"
  "data_version (fst (persist_data env st)) = data_version st + 1"
  "effects (fst (persist_data env st)) = effects st"
  by (simp_all add: persist_data_def get_next_version_def Let_def)

lemma alarm_frame [simp]:
  "instances (report_inst_alarm ins b st) = instances st"
  "forced_separated_instances (report_inst_alarm ins b st) = forced_separated_instances st"
  "enable_dp_scale_down (report_inst_alarm ins b st) = enable_dp_scale_down st"
  "partial_loss_shutdown_sent (report_inst_alarm ins b st) = partial_loss_shutdown_sent st"
  "instances (report_coordinator_alarm ins b st) = instances st"
  "forced_separated_instances (report_coordinator_alarm ins b st) = forced_separated_instances st"
  "enable_dp_scale_down (report_coordinator_alarm ins b st) = enable_dp_scale_down st"
  "partial_loss_shutdown_sent (report_coordinator_alarm ins b st) = partial_loss_shutdown_sent st"
  by (simp_all add: report_inst_alarm_def report_coordinator_alarm_def Let_def split: option.split)

lemma dispatch_frame [simp]:
  "instances (dispatch_partial_loss_shutdown env ins nms st) = instances st"
  "forced_separated_instances (dispatch_partial_loss_shutdown env ins nms st) = forced_separated_instances st"
  by (simp_all add: dispatch_partial_loss_shutdown_def)

lemma status_update_sel [simp]:
  "ins_status (update_instance_status s ins) = s" "ins_id (update_instance_status s ins) = ins_id ins"
  "endpoints (update_instance_status s ins) = endpoints ins" "job_name (update_instance_status s ins) = job_name ins"
  "node_managers (update_instance_status s ins) = node_managers ins"
  by (simp_all add: update_instance_status_def)

lemma dict_modify_set: "dict_get d k = Some v \<Longrightarrow> dict_modify k f d = dict_set k (f v) d"
  by (induction d) (auto split: if_splits)

lemma dict_set_same: "dict_get d k = Some v \<Longrightarrow> dict_set k v d = d"
  by (induction d) (auto split: if_splits)

section \<open>One state transition\<close>

lemma settled_same:
  "dict_get (instances st) (ins_id ins) = Some ins \<Longrightarrow> ins_status ins \<noteq> DELETED \<Longrightarrow>
   instances st' = instances st \<Longrightarrow> forced_separated_instances st' = forced_separated_instances st \<Longrightarrow>
   settled ins st st' ins"
  by (simp add: settled_def dict_set_same)

lemma states_settled:
  assumes reg: "dict_get (instances st) (ins_id ins) = Some ins" and tr: "transitions (ins_status ins) event = Some to"
    and h: "states to env (ins_status ins) event (st, ins) = (st', ins')"
  shows "settled ins st st' ins' \<and> (ins_status ins' = ins_status ins \<or> ins_status ins' = to)"
proof -
  have nd: "ins_status ins \<noteq> DELETED" using tr by auto
  note defs = settled_def set_status_def dict_modify_set[OF reg] dict_set_same Let_def
  show ?thesis
  proof (cases to)
    case INITIAL
    with h reg nd show ?thesis
      by (auto simp: states_def handle_initial_def defs split: if_splits)
  next
    case INACTIVE
    show ?thesis
    proof (cases "event = INSTANCE_HEARTBEAT_TIMEOUT \<and> ins_status ins \<noteq> INACTIVE")
      case True
      obtain ab nms where c: "check_node_managers_status env ins = (ab, nms)" by fastforce
      from h INACTIVE True c reg nd show ?thesis
        by (cases "case policy_of env ins st of Some pol \<Rightarrow> protect_transaction pol | None \<Rightarrow> False"; cases ab)
          (auto simp: states_def handle_inactive_def defs frame_simps)
    next
      case False
      with h INACTIVE reg nd show ?thesis
        by (auto simp: states_def handle_inactive_def defs split: if_splits)
    qed
  next
    case ACTIVE
    with h reg nd show ?thesis
      by (auto simp: states_def handle_active_def defs split: if_splits)
  next
    case PAUSED
    with h reg nd show ?thesis
      by (auto simp: states_def handle_paused_def defs split: if_splits)
  next
    case DELETED
    with h reg nd show ?thesis
      by (auto simp: states_def handle_deleted_def defs del_instance_def delete_update_same split: if_splits)
  qed
qed


lemma to_deleted: "transitions s e = Some DELETED \<Longrightarrow> e = INSTANCE_HEARTBEAT_TIMEOUT \<and> s \<noteq> DELETED \<and> s \<noteq> ACTIVE"
  by (cases s; cases e) auto

lemma apply_event_settled:
  assumes reg: "dict_get (instances st) (ins_id ins) = Some ins" and nd: "ins_status ins \<noteq> DELETED"
    and a: "apply_event env event (st, ins) = (st', ins', ok)"
  shows "settled ins st st' ins' \<and>
    (ins_status ins' = ins_status ins \<or>
      transitions (ins_status ins) event = Some (ins_status ins') \<and>
      (ins_status ins' = ACTIVE \<longrightarrow> ins_id ins \<notin> forced_separated_instances st)) \<and>
    (ok \<longleftrightarrow> transitions (ins_status ins) event \<noteq> None)"
proof (cases "transitions (ins_status ins) event")
  case None
  with a reg nd show ?thesis by (auto simp: apply_event_def intro: settled_same)
next
  case (Some to)
  show ?thesis
  proof (cases "ins_id ins \<in> forced_separated_instances st \<and> to = ACTIVE")
    case True
    with a Some reg nd show ?thesis by (auto simp: apply_event_def intro: settled_same)
  next
    case False
    obtain st1 ins1 where h: "states to env (ins_status ins) event (st, ins) = (st1, ins1)" by fastforce
    note s = states_settled[OF reg Some h]
    define st2 where "st2 = (if ins_status ins \<noteq> ins_status ins1 \<and> enable_etcd_persistence st1
        then fst (persist_data env st1) else st1)"
    have f2: "instances st2 = instances st1" "forced_separated_instances st2 = forced_separated_instances st1"
      by (simp_all add: st2_def)
    have "(st', ins', ok) = ((if to = DELETED \<and> ins_id ins1 \<in> forced_separated_instances st2
        then st2\<lparr>forced_separated_instances := forced_separated_instances st2 - {ins_id ins1}\<rparr> else st2), ins1, True)"
      unfolding a[symmetric] st2_def using Some False h by (auto simp: apply_event_def Let_def)
    then have i: "ins' = ins1" and ok and inst: "instances st' = instances st1"
      and f: "forced_separated_instances st' = (if to = DELETED then forced_separated_instances st1 - {ins_id ins1}
        else forced_separated_instances st1)"
      by (simp_all add: f2)
    have d: "to = DELETED \<Longrightarrow> ins_status ins1 = DELETED"
      using h Some to_deleted[of "ins_status ins" event] by (auto simp: states_def handle_deleted_def set_status_def Let_def)
    have "settled ins st st' ins1"
      using s f inst d by (auto simp: settled_def)
    then show ?thesis using s i \<open>ok\<close> Some False by auto
  qed
qed

lemma ready_event:
  assumes "fst (detect_event now ign ins) = Some ev" and "transitions (ins_status ins) ev = Some ACTIVE"
  shows "is_all_endpoints_ready ign ins \<and>
    is_all_endpoints_heartbeat_fresh now DEFAULT_ACTIVE_HEARTBEAT_TIMEOUT ign ins"
  using assms by (cases "ins_status ins") (auto simp: detect_event_def case_prod_unfold Let_def split: if_splits)

lemma transition_settled:
  assumes reg: "dict_get (instances st) (ins_id ins) = Some ins" and nd: "ins_status ins \<noteq> DELETED"
    and t: "handle_state_transition env ov (st, ins) = (st', ins', ok)"
  shows "settled ins st st' ins' \<and>
    (ins_status ins' = ins_status ins \<or>
      (\<exists>event. transitions (ins_status ins) event = Some (ins_status ins') \<and>
        (case ov of Some e \<Rightarrow> event = e | None \<Rightarrow> fst (detect_event (env_now env) (ignored_of env ins st) ins) = Some event)) \<and>
      \<not> protected env ins st \<and>
      (ins_status ins' = ACTIVE \<longrightarrow> ins_id ins \<notin> forced_separated_instances st))"
proof (cases "protected env ins st")
  case True
  with t reg nd show ?thesis
    by (auto simp: handle_state_transition_def protected_def Let_def intro: settled_same)
next
  case False
  show ?thesis
  proof (cases ov)
    case (Some e)
    with t False have "apply_event env e (st, ins) = (st', ins', ok)"
      by (simp add: handle_state_transition_def protected_def Let_def)
    from apply_event_settled[OF reg nd this] Some False show ?thesis by auto
  next
    case None
    obtain det evs where d: "detect_event (env_now env) (ignored_of env ins st) ins = (det, evs)" by fastforce
    let ?st = "emit (map Server_event evs) st"
    from t False None d have t': "(case det of None \<Rightarrow> (?st, ins, True) | Some event \<Rightarrow> apply_event env event (?st, ins)) = (st', ins', ok)"
      by (simp add: handle_state_transition_def protected_def ignored_of_def Let_def)
    show ?thesis
    proof (cases det)
      case None
      with t' reg nd show ?thesis by (auto intro!: settled_same)
    next
      case (Some e)
      from reg have reg': "dict_get (instances ?st) (ins_id ins) = Some ins" by simp
      from Some t' have "apply_event env e (?st, ins) = (st', ins', ok)" by simp
      from apply_event_settled[OF reg' nd this] show ?thesis
        using Some d None False by (auto simp: settled_def)
    qed
  qed
qed

section \<open>Lifecycle\<close>

inductive_simps life_step_from_active: "life_step (Some ACTIVE) t"
inductive_simps life_step_to_active: "life_step (Some s) (Some ACTIVE)"
inductive_cases life_step_none: "life_step None t"

lemma settled_life:
  assumes reg: "dict_get (instances st) (ins_id ins) = Some ins" and ok: "registry_ok st"
    and s: "settled ins st st' ins'"
    and t: "ins_status ins' = ins_status ins \<or> (\<exists>e. transitions (ins_status ins) e = Some (ins_status ins'))"
  shows "registry_ok st' \<and> life_step (status_of st j) (status_of st' j) \<and>
    (j \<noteq> ins_id ins \<longrightarrow> dict_get (instances st') j = dict_get (instances st) j)"
proof -
  have inst: "instances st' = (if ins_status ins' = DELETED then dict_pop (ins_id ins) (instances st)
      else dict_set (ins_id ins) ins' (instances st))" and i: "ins_id ins' = ins_id ins"
    using s by (simp_all add: settled_def)
  have other: "j \<noteq> ins_id ins \<longrightarrow> dict_get (instances st') j = dict_get (instances st) j" by (simp add: inst)
  have "dict_get (instances st') k = Some x \<Longrightarrow> ins_id x = k \<and> ins_status x \<noteq> DELETED" for k x
    using ok i unfolding inst registry_ok_def
    by (simp only: dict_get_set dict_get_pop split: if_splits) auto
  moreover have "distinct (dict_keys (instances st'))"
    using ok by (simp add: inst registry_ok_def)
  ultimately have "registry_ok st'" by (simp only: registry_ok_def) blast
  moreover have "life_step (Some (ins_status ins)) (if ins_status ins' = DELETED then None else Some (ins_status ins'))"
  proof (cases "ins_status ins' = ins_status ins")
    case True
    moreover have "ins_status ins \<noteq> DELETED" using reg ok unfolding registry_ok_def by blast
    ultimately show ?thesis by (simp add: life_step.stay)
  next
    case False
    with t obtain e where "transitions (ins_status ins) e = Some (ins_status ins')" by blast
    then show ?thesis by (auto intro: life_step.intros)
  qed
  then have "life_step (status_of st j) (status_of st' j)"
    using reg by (cases "j = ins_id ins") (auto simp: status_of_def inst life_step.stay)
  ultimately show ?thesis using other by blast
qed


section \<open>Heartbeats and management rounds\<close>

lemma registry_get: "registry_ok st \<Longrightarrow> dict_get (instances st) i = Some ins \<Longrightarrow> ins_id ins = i \<and> ins_status ins \<noteq> DELETED"
  by (simp add: registry_ok_def)

lemma registry_set:
  assumes "registry_ok st" and "ins_id ins = i" and "ins_status ins \<noteq> DELETED"
    and "instances st' = dict_set i ins (instances st)"
  shows "registry_ok st'"
proof -
  have "dict_get (instances st') j = Some x \<Longrightarrow> ins_id x = j \<and> ins_status x \<noteq> DELETED" for j x
    using assms unfolding registry_ok_def by (cases "j = i") (simp_all only: dict_get_set, auto)
  moreover have "distinct (dict_keys (instances st'))" using assms by (simp add: registry_ok_def)
  ultimately show ?thesis by (simp only: registry_ok_def) blast
qed

lemma registry_cong: "registry_ok st \<Longrightarrow> instances st' = instances st \<Longrightarrow> registry_ok st'"
  by (simp add: registry_ok_def)

lemma heartbeat_ignored:
  "handle_heartbeat env ts None st = (st, Inr (False, 500))"
  "dict_get (instances st) (hb_ins_id m) = None \<Longrightarrow> handle_heartbeat env ts (Some m) st = (st, Inl (HTTPException 503))"
  by (simp_all add: handle_heartbeat_def)

lemma heartbeat_known:
  assumes "dict_get (instances st) (hb_ins_id m) = Some ins"
    and "update_heartbeat (hb_ip m) ts (hb_status m) (hb_ignored env (hb_ins_id m) st) ins = (ins1, acc)"
    and "handle_state_transition env None (stamped (hb_ins_id m) ins1 st, ins1) = (st2, ins2, fin)"
  shows "handle_heartbeat env ts (Some m) st =
    (if acc then (st2, if fin then Inr (True, 200) else Inl (HTTPException 500)) else (st, Inl (HTTPException 500)))"
  using assms by (simp add: handle_heartbeat_def hb_ignored_def stamped_def Let_def)

lemma stamped_registry:
  assumes "registry_ok st" and "dict_get (instances st) i = Some ins"
    and "ins1 = fst (update_heartbeat ip ts hs ign ins)"
  shows "ins_id ins1 = i" "ins_status ins1 = ins_status ins" "ins_status ins1 \<noteq> DELETED"
    "registry_ok (stamped i ins1 st)" "dict_get (instances (stamped i ins1 st)) (ins_id ins1) = Some ins1"
    "status_of (stamped i ins1 st) j = status_of st j"
proof -
  show i: "ins_id ins1 = i" "ins_status ins1 = ins_status ins" and d: "ins_status ins1 \<noteq> DELETED"
    using registry_get[OF assms(1,2)] assms(3) by (simp_all add: frame_simps)
  show "registry_ok (stamped i ins1 st)"
    by (rule registry_set[OF assms(1) i(1) d]) (simp add: stamped_def)
  show "dict_get (instances (stamped i ins1 st)) (ins_id ins1) = Some ins1" by (simp add: stamped_def i)
  show "status_of (stamped i ins1 st) j = status_of st j"
    using assms(2) i by (simp add: stamped_def status_of_def)
qed

text \<open>
  Everything the two handlers do to the registry, in one statement each.
\<close>

lemma heartbeat_life:
  assumes ok: "registry_ok st" and h: "handle_heartbeat env ts msg st = (st', res)"
  shows "registry_ok st' \<and> life_step (status_of st j) (status_of st' j) \<and>
    forced_separated_instances st' \<subseteq> forced_separated_instances st \<and>
    (dict_get (instances st') j \<noteq> None \<longrightarrow> (j \<in> forced_separated_instances st' \<longleftrightarrow> j \<in> forced_separated_instances st)) \<and>
    (j \<in> forced_separated_instances st \<longrightarrow> status_of st' j = Some ACTIVE \<longrightarrow> status_of st j = Some ACTIVE)"
proof (cases "st' = st")
  case True
  with ok show ?thesis by (simp add: life_step.stay)
next
  case False
  then obtain m where m: "msg = Some m" using h by (cases msg) (simp_all add: heartbeat_ignored)
  with False h obtain ins where ins: "dict_get (instances st) (hb_ins_id m) = Some ins"
    by (cases "dict_get (instances st) (hb_ins_id m)") (simp_all add: heartbeat_ignored)
  obtain ins1 acc where u: "update_heartbeat (hb_ip m) ts (hb_status m) (hb_ignored env (hb_ins_id m) st) ins = (ins1, acc)"
    by fastforce
  let ?s = "stamped (hb_ins_id m) ins1 st"
  obtain st2 ins2 fin where t: "handle_state_transition env None (?s, ins1) = (st2, ins2, fin)"
    using prod_cases3 by blast
  from h m heartbeat_known[OF ins u t] False have st': "st' = st2" by (auto split: if_splits)
  from u have "ins1 = fst (update_heartbeat (hb_ip m) ts (hb_status m) (hb_ignored env (hb_ins_id m) st) ins)" by simp
  note r = stamped_registry[OF ok ins this]
  note s = transition_settled[OF r(5,3) t]
  from s have "settled ins1 ?s st2 ins2"
    "ins_status ins2 = ins_status ins1 \<or> (\<exists>e. transitions (ins_status ins1) e = Some (ins_status ins2))" by blast+
  note l = settled_life[OF r(5,4) this, of j]
  have f: "forced_separated_instances st2 =
     (if ins_status ins2 = DELETED then forced_separated_instances st - {hb_ins_id m} else forced_separated_instances st)"
    using s r(1) by (simp add: settled_def stamped_def)
  have g: "dict_get (instances st2) (hb_ins_id m) = (if ins_status ins2 = DELETED then None else Some ins2)"
    using s r(1) by (simp add: settled_def)
  have "j \<in> forced_separated_instances st \<longrightarrow> status_of st2 j = Some ACTIVE \<longrightarrow> status_of st j = Some ACTIVE"
  proof (cases "j = hb_ins_id m")
    case True
    then have "status_of st j = Some (ins_status ins1)" using ins r(2) by (simp add: status_of_def)
    moreover have "status_of st2 j = Some ACTIVE \<longrightarrow> ins_status ins2 = ACTIVE" using True g by (auto simp: status_of_def)
    ultimately show ?thesis using s r(1) True by (auto simp: stamped_def)
  next
    case False
    then have "status_of st2 j = status_of st j" using l r(1) by (simp add: status_of_def stamped_def)
    then show ?thesis by simp
  qed
  moreover have "dict_get (instances st2) j \<noteq> None \<longrightarrow> (j \<in> forced_separated_instances st2 \<longleftrightarrow> j \<in> forced_separated_instances st)"
    using f g by auto
  moreover have "forced_separated_instances st2 \<subseteq> forced_separated_instances st" using f by auto
  moreover have "life_step (status_of st j) (status_of st2 j)" using l r(6) by simp
  ultimately show ?thesis using l st' by blast
qed

lemma emit_Nil [simp]: "emit [] st = st"
  by (simp add: emit_def)

lemma is_complete_frame:
  assumes "is_effective_heartbeat_complete env ins st = (st1, b)"
  obtains evs where "st1 = emit (map Server_event evs) st"
proof -
  have "\<exists>evs. fst (is_effective_heartbeat_complete env ins st) = emit (map Server_event evs) st"
    by (cases "policy_of env ins st")
      (auto simp: is_effective_heartbeat_complete_def case_prod_unfold Let_def intro: exI[of _ "[]"])
  with assms that show ?thesis by auto
qed

lemma manage_life:
  assumes ok: "registry_ok st"
  shows "registry_ok (manage_instance env st i) \<and>
    life_step (status_of st j) (status_of (manage_instance env st i) j) \<and>
    (j \<noteq> i \<longrightarrow> dict_get (instances (manage_instance env st i)) j = dict_get (instances st) j) \<and>
    (dict_get (instances (manage_instance env st i)) j \<noteq> None \<longrightarrow>
       (j \<in> forced_separated_instances (manage_instance env st i) \<longleftrightarrow> j \<in> forced_separated_instances st)) \<and>
    (status_of (manage_instance env st i) j = Some ACTIVE \<longrightarrow> status_of st j = Some ACTIVE)"
proof (cases "manage_instance env st i = st")
  case True
  with ok show ?thesis by (simp add: life_step.stay)
next
  case False
  then obtain ins where ins: "dict_get (instances st) i = Some ins"
    by (cases "dict_get (instances st) i") (simp_all add: manage_instance_def)
  note n = registry_get[OF ok ins]
  obtain st1 b where c: "is_effective_heartbeat_complete env ins st = (st1, b)" by fastforce
  then obtain evs where st1: "st1 = emit (map Server_event evs) st" by (rule is_complete_frame)
  obtain st2 ins2 fin where t: "handle_state_transition env (Some INSTANCE_HEARTBEAT_TIMEOUT) (st1, ins) = (st2, ins2, fin)"
    using prod_cases3 by blast
  have m: "manage_instance env st i = (if b then st1 else st2)"
    using ins n c t by (simp add: manage_instance_def)
  have r: "dict_get (instances st1) (ins_id ins) = Some ins" "registry_ok st1"
    using ins n ok by (simp_all add: st1 registry_ok_def)
  have same: "status_of st1 j = status_of st j" "instances st1 = instances st"
    "forced_separated_instances st1 = forced_separated_instances st" by (simp_all add: st1 status_of_def)
  show ?thesis
  proof (cases b)
    case True
    with m r same show ?thesis by (simp add: life_step.stay)
  next
    case False
    note s = transition_settled[OF r(1) conjunct2[OF n] t]
    from s have "settled ins st1 st2 ins2"
      "ins_status ins2 = ins_status ins \<or> (\<exists>e. transitions (ins_status ins) e = Some (ins_status ins2))" by blast+
    note l = settled_life[OF r this, of j]
    have f: "forced_separated_instances st2 =
       (if ins_status ins2 = DELETED then forced_separated_instances st - {i} else forced_separated_instances st)"
      using s n same by (simp add: settled_def)
    have g: "dict_get (instances st2) i = (if ins_status ins2 = DELETED then None else Some ins2)"
      using s n by (simp add: settled_def)
    have "ins_status ins2 = ACTIVE \<Longrightarrow> ins_status ins = ACTIVE"
      using s by (cases "ins_status ins") auto
    then have "status_of st2 j = Some ACTIVE \<longrightarrow> status_of st j = Some ACTIVE"
      using l g ins n same by (cases "j = i") (auto simp: status_of_def)
    moreover have "dict_get (instances st2) j \<noteq> None \<longrightarrow> (j \<in> forced_separated_instances st2 \<longleftrightarrow> j \<in> forced_separated_instances st)"
      using f g by auto
    ultimately show ?thesis using m False l same n by auto
  qed
qed

lemma round_life:
  "registry_ok st \<Longrightarrow> distinct ks \<Longrightarrow>
   registry_ok (foldl (manage_instance env) st ks) \<and>
   life_step (status_of st j) (status_of (foldl (manage_instance env) st ks) j) \<and>
   (j \<notin> set ks \<longrightarrow> status_of (foldl (manage_instance env) st ks) j = status_of st j) \<and>
   (dict_get (instances (foldl (manage_instance env) st ks)) j \<noteq> None \<longrightarrow>
      (j \<in> forced_separated_instances (foldl (manage_instance env) st ks) \<longleftrightarrow> j \<in> forced_separated_instances st)) \<and>
   (status_of (foldl (manage_instance env) st ks) j = Some ACTIVE \<longrightarrow> status_of st j = Some ACTIVE)"
proof (induction ks arbitrary: st)
  case Nil
  then show ?case by (simp add: life_step.stay)
next
  case (Cons k ks)
  let ?s = "manage_instance env st k" and ?r = "foldl (manage_instance env) (manage_instance env st k) ks"
  note m = manage_life[OF Cons.prems(1), of env k j]
  have ih: "registry_ok ?r" "life_step (status_of ?s j) (status_of ?r j)" "j \<notin> set ks \<longrightarrow> status_of ?r j = status_of ?s j"
    "dict_get (instances ?r) j \<noteq> None \<longrightarrow> (j \<in> forced_separated_instances ?r \<longleftrightarrow> j \<in> forced_separated_instances ?s)"
    "status_of ?r j = Some ACTIVE \<longrightarrow> status_of ?s j = Some ACTIVE"
    using Cons.IH[of ?s] m Cons.prems by auto
  have none: "status_of ?s j = None \<Longrightarrow> status_of ?r j = None"
    using ih(2) by (auto elim: life_step_none)
  have other: "j \<noteq> k \<longrightarrow> status_of ?s j = status_of st j" using m by (simp add: status_of_def)
  have l: "life_step (status_of st j) (status_of ?r j)"
    using ih(2,3) m other Cons.prems(2) by (cases "j = k") auto
  have kept: "dict_get (instances ?r) j \<noteq> None \<longrightarrow> dict_get (instances ?s) j \<noteq> None"
    using none by (cases "dict_get (instances ?s) j") (simp_all add: status_of_def)
  have f: "dict_get (instances ?r) j \<noteq> None \<longrightarrow> (j \<in> forced_separated_instances ?r \<longleftrightarrow> j \<in> forced_separated_instances st)"
    using ih(4) kept m by blast
  have "j \<notin> set (k # ks) \<longrightarrow> status_of ?r j = status_of st j" using ih(3) other by simp
  moreover have "status_of ?r j = Some ACTIVE \<longrightarrow> status_of st j = Some ACTIVE" using ih(5) m by blast
  ultimately show ?case unfolding foldl_Cons using ih(1) l f by blast
qed

section \<open>The registry invariant\<close>

lemma foldl_heartbeat_frame:
  "ins_id (foldl (\<lambda>x pod. fst (update_heartbeat pod ts (f pod x) {} x)) ins pods) = ins_id ins"
  "ins_status (foldl (\<lambda>x pod. fst (update_heartbeat pod ts (f pod x) {} x)) ins pods) = ins_status ins"
  by (induction pods arbitrary: ins) (simp_all add: frame_simps)

lemma register_heartbeats_frame [simp]:
  "ins_id (register_heartbeats ts ins) = ins_id ins" "ins_status (register_heartbeats ts ins) = ins_status ins"
  by (simp_all add: register_heartbeats_def foldl_heartbeat_frame)

lemma add_instance_frame:
  "instances (add_instance ts ins st) =
     (if in_dict (ins_id ins) (instances st) then instances st
      else dict_set (ins_id ins) (register_heartbeats ts ins) (instances st))"
  "forced_separated_instances (add_instance ts ins st) = forced_separated_instances st"
  by (simp_all add: add_instance_def Let_def)

lemma add_ok:
  assumes "registry_ok st" and "ins_status ins = INITIAL"
  shows "registry_ok (add_instance ts ins st)"
proof (cases "in_dict (ins_id ins) (instances st)")
  case False
  then have "instances (add_instance ts ins st) = dict_set (ins_id ins) (register_heartbeats ts ins) (instances st)"
    by (simp add: add_instance_frame)
  then show ?thesis by (rule registry_set[OF assms(1), rotated -1]) (use assms(2) in simp_all)
qed (use assms registry_cong in \<open>simp add: add_instance_def\<close>)

lemma del_ok: "registry_ok st \<Longrightarrow> registry_ok (del_instance i st)"
  by (auto simp: registry_ok_def del_instance_def set_dict_pop)

lemma separate_get:
  assumes "registry_ok st"
  shows "registry_ok (separate_instance env i st) \<and>
    status_of (separate_instance env i st) j =
      (if j = i \<and> status_of st i = Some ACTIVE then Some INACTIVE else status_of st j) \<and>
    forced_separated_instances (separate_instance env i st) =
      (if dict_get (instances st) i = None then forced_separated_instances st
       else insert i (forced_separated_instances st))"
proof (cases "dict_get (instances st) i")
  case (Some ins)
  note n = registry_get[OF assms Some]
  let ?s = "separate_instance env i st"
  have f: "forced_separated_instances ?s = insert i (forced_separated_instances st)"
    using Some n by (simp add: separate_instance_def get_instance_def Let_def set_status_def)
  have inst: "instances ?s = (if ins_status ins = ACTIVE then dict_set i (update_instance_status INACTIVE ins) (instances st)
      else instances st)"
    using Some n dict_modify_set[OF Some] by (simp add: separate_instance_def get_instance_def Let_def set_status_def)
  have "registry_ok ?s"
  proof (cases "ins_status ins = ACTIVE")
    case True
    with inst have "instances ?s = dict_set i (update_instance_status INACTIVE ins) (instances st)" by simp
    then show ?thesis by (rule registry_set[OF assms, rotated -1]) (use n in simp_all)
  qed (use inst assms in \<open>simp add: registry_ok_def\<close>)
  moreover have "status_of ?s j = (if j = i \<and> status_of st i = Some ACTIVE then Some INACTIVE else status_of st j)"
    using Some by (simp add: status_of_def inst)
  ultimately show ?thesis using f Some by simp
qed (use assms in \<open>simp add: separate_instance_def get_instance_def status_of_def\<close>)

lemma recover_get:
  assumes "registry_ok st"
  shows "instances (recover_instance i st) = instances st \<and>
    (j \<noteq> i \<longrightarrow> (j \<in> forced_separated_instances (recover_instance i st) \<longleftrightarrow> j \<in> forced_separated_instances st))"
proof (cases "dict_get (instances st) i")
  case (Some ins)
  with registry_get[OF assms Some] show ?thesis
    by (auto simp: recover_instance_def get_instance_def split: option.split)
qed (simp add: recover_instance_def get_instance_def)

lemma registry_step: "registry_ok st \<Longrightarrow> legal_ctl_op op \<Longrightarrow> registry_ok (ctl_step st op)"
proof (cases op)
  case (Ctl_heartbeat env ts msg)
  moreover assume "registry_ok st"
  moreover obtain st' res where "handle_heartbeat env ts msg st = (st', res)" by fastforce
  ultimately show ?thesis using heartbeat_life by fastforce
next
  case (Ctl_manage env)
  moreover assume "registry_ok st"
  ultimately show ?thesis
    using round_life[of st "dict_keys (instances st)" env] by (simp add: management_round_def registry_ok_def)
next
  case (Ctl_recover i)
  moreover assume "registry_ok st"
  ultimately show ?thesis using recover_get registry_cong by fastforce
qed (simp_all add: add_ok del_ok separate_get persist_topology_def update_config_def, simp_all add: registry_ok_def)

interpretation ctl_run: step_invariant ctl_step legal_ctl_op registry_ok
  by unfold_locales (rule registry_step)

section \<open>Separation\<close>

lemma separated_step: "separated i st \<Longrightarrow> keeps_separation i op \<Longrightarrow> separated i (ctl_step st op)"
proof -
  assume s: "separated i st" and k: "keeps_separation i op"
  then have ok: "registry_ok st" by (simp add: separated_def)
  have "legal_ctl_op op" using k by (cases op) simp_all
  then have ok': "registry_ok (ctl_step st op)" by (rule registry_step[OF ok])
  have none: "dict_get (instances st) i = None \<longleftrightarrow> status_of st i = None" for st :: "'a InstanceManager"
    by (simp add: status_of_def)
  show ?thesis
  proof (cases op)
    case (Ctl_add ts ins)
    with k have "dict_get (instances (add_instance ts ins st)) i = dict_get (instances st) i"
      by (simp add: add_instance_frame)
    with s ok' Ctl_add show ?thesis by (simp add: separated_def status_of_def add_instance_frame(2))
  next
    case (Ctl_del j)
    with s ok' show ?thesis by (simp add: separated_def del_instance_def status_of_def)
  next
    case (Ctl_separate env j)
    with s ok' separate_get[OF ok, of env j i] show ?thesis
      by (auto simp: separated_def none)
  next
    case (Ctl_recover j)
    with s ok' k recover_get[OF ok, of j i] show ?thesis by (simp add: separated_def status_of_def)
  next
    case (Ctl_heartbeat env ts msg)
    obtain st' res where h: "handle_heartbeat env ts msg st = (st', res)" by fastforce
    note l = heartbeat_life[OF ok h, of i]
    have "dict_get (instances st') i \<noteq> None \<Longrightarrow> dict_get (instances st) i \<noteq> None"
      using l by (metis life_step_none none)
    with s ok' l h Ctl_heartbeat show ?thesis unfolding separated_def by simp blast
  next
    case (Ctl_manage env)
    have "distinct (dict_keys (instances st))" using ok by (simp add: registry_ok_def)
    note l = round_life[OF ok this, of env i, folded management_round_def]
    have "dict_get (instances (management_round env st)) i \<noteq> None \<Longrightarrow> dict_get (instances st) i \<noteq> None"
      using l by (metis life_step_none none)
    with s ok' l Ctl_manage show ?thesis unfolding separated_def by simp blast
  qed (use s k ok' in \<open>simp_all add: separated_def status_of_def persist_topology_def update_config_def\<close>)
qed

interpretation sep_run: step_invariant ctl_step "keeps_separation i" "separated i" for i
  by unfold_locales (rule separated_step)

section \<open>Stop requests\<close>

lemma demo_manager_ok: "s \<noteq> DELETED \<Longrightarrow> registry_ok (demo_manager s)"
  by (simp add: registry_ok_def demo_manager_def demo_instance_def)

lemma dispatch_config [simp]:
  "enable_dp_scale_down (dispatch_partial_loss_shutdown env ins nms st) = enable_dp_scale_down st"
  by (simp add: dispatch_partial_loss_shutdown_def)

lemma states_config:
  "enable_dp_scale_down (fst (states to env from event p)) = enable_dp_scale_down (fst p)"
  by (cases to) (simp_all add: states_def handle_initial_def handle_active_def handle_inactive_def handle_paused_def
      handle_deleted_def set_status_def del_instance_def Let_def case_prod_unfold)

lemma manage_config: "enable_dp_scale_down st \<Longrightarrow> enable_dp_scale_down (manage_instance env st k)"
proof (cases "dict_get (instances st) k")
  case (Some ins)
  obtain st1 b where c: "is_effective_heartbeat_complete env ins st = (st1, b)" by fastforce
  then obtain evs where st1: "st1 = emit (map Server_event evs) st" by (rule is_complete_frame)
  assume dp: "enable_dp_scale_down st"
  have "enable_dp_scale_down (fst (handle_state_transition env (Some INSTANCE_HEARTBEAT_TIMEOUT) (st1, ins)))"
    using dp by (auto simp: handle_state_transition_def apply_event_def Let_def case_prod_unfold states_config st1 split: option.split)
  with Some c dp st1 show ?thesis by (simp add: manage_instance_def)
qed (simp add: manage_instance_def)

lemma protected_manage:
  assumes ok: "registry_ok st" and pr: "\<forall>ins s. ins_id ins = i \<longrightarrow> enable_dp_scale_down s \<longrightarrow> protected env ins s"
    and dp: "enable_dp_scale_down st"
  shows "status_of (manage_instance env st k) i = status_of st i \<and> enable_dp_scale_down (manage_instance env st k)"
proof
  show "status_of (manage_instance env st k) i = status_of st i"
  proof (cases "k = i")
    case True
    show ?thesis
    proof (cases "dict_get (instances st) i")
      case (Some ins)
      then have "protected env ins st" using registry_get[OF ok Some] pr dp by blast
      then obtain pol where "policy_of env ins st = Some pol" "protect_transaction pol"
        by (auto simp: protected_def split: option.splits)
      with registry_get[OF ok Some] Some True show ?thesis
        by (simp add: manage_instance_def is_effective_heartbeat_complete_def)
    qed (simp add: True manage_instance_def)
  qed (use manage_life[OF ok, of env k i] in \<open>simp add: status_of_def\<close>)
  show "enable_dp_scale_down (manage_instance env st k)"
    using dp by (rule manage_config)
qed

lemma protected_round:
  assumes "registry_ok st" and "distinct ks" and "\<forall>ins s. ins_id ins = i \<longrightarrow> enable_dp_scale_down s \<longrightarrow> protected env ins s"
    and "enable_dp_scale_down st"
  shows "status_of (foldl (manage_instance env) st ks) i = status_of st i"
  using assms
proof (induction ks arbitrary: st)
  case (Cons k ks)
  have "registry_ok (manage_instance env st k)" using manage_life[OF Cons.prems(1)] by blast
  moreover note protected_manage[OF Cons.prems(1,3,4), of k]
  ultimately show ?case using Cons.IH[of "manage_instance env st k"] Cons.prems by simp
qed simp

lemma stops_append [simp]: "stops (xs @ ys) = stops xs @ stops ys"
  by (induction xs rule: stops.induct) auto

lemma stops_server [simp]: "stops (map Server_event evs) = []"
  by (induction evs) auto

lemma stops_stop [simp]: "stops (map (Stop_node_manager i) nms) = map (Pair i) nms"
  by (induction nms) auto

lemma stops_alarm [simp]:
  "stops (effects (report_inst_alarm ins b st)) = stops (effects st)"
  "stops (effects (report_coordinator_alarm ins b st)) = stops (effects st)"
  by (simp_all add: report_inst_alarm_def report_coordinator_alarm_def Let_def split: option.split)

lemma check_node_managers:
  "check_node_managers_status env ins =
     (node_managers ins = [] \<or> (\<exists>nm \<in> set (node_managers ins). query_status env nm \<noteq> Resp_status True),
      filter (\<lambda>nm. query_status env nm = Resp_status True) (node_managers ins))"
proof -
  have "foldl (\<lambda>(abnormal, reachable) nm.
                    case query_status env nm of
                      Resp_status ok \<Rightarrow> if ok then (abnormal, reachable @ [nm]) else (True, reachable)
                    | _ \<Rightarrow> (True, reachable)) (a, r) nms =
     (a \<or> (\<exists>nm \<in> set nms. query_status env nm \<noteq> Resp_status True),
      r @ filter (\<lambda>nm. query_status env nm = Resp_status True) nms)" for a r nms
    by (induction nms arbitrary: a r) (auto split: nm_response.split)
  then show ?thesis by (simp add: check_node_managers_status_def)
qed

lemma policy_cong: "enable_dp_scale_down st' = enable_dp_scale_down st \<Longrightarrow> ins_id ins' = ins_id ins \<Longrightarrow>
   policy_of env ins' st' = policy_of env ins st"
  by (simp add: policy_of_def)

lemma timeout_active:
  assumes act: "ins_status ins = ACTIVE" and np: "\<not> protected env ins st"
  shows "handle_state_transition env (Some INSTANCE_HEARTBEAT_TIMEOUT) (st, ins) =
    apply_event env INSTANCE_HEARTBEAT_TIMEOUT (st, ins)"
  using np by (simp add: handle_state_transition_def protected_def Let_def)

lemma dispatch_stops:
  "stops (effects (dispatch_partial_loss_shutdown env ins nms st)) = stops (effects st) @
     (if (case policy_of env ins st of Some p \<Rightarrow> suppress_legacy_shutdown p | None \<Rightarrow> False) \<or>
         ins_id ins \<in> partial_loss_shutdown_sent st then [] else map (Pair (ins_id ins)) nms)"
  by (simp add: dispatch_partial_loss_shutdown_def)

lemma inactive_stops:
  assumes "ins_status ins = ACTIVE" and np: "\<not> protected env ins st"
  shows "stops (effects (fst (handle_inactive env ACTIVE INSTANCE_HEARTBEAT_TIMEOUT (st, ins)))) =
    stops (effects st) @ (if loses_part env ins st
      then map (Pair (ins_id ins)) (filter (\<lambda>nm. query_status env nm = Resp_status True) (node_managers ins)) else [])"
proof -
  let ?ab = "node_managers ins = [] \<or> (\<exists>nm \<in> set (node_managers ins). query_status env nm \<noteq> Resp_status True)"
  let ?nms = "filter (\<lambda>nm. query_status env nm = Resp_status True) (node_managers ins)"
  let ?i = "update_instance_status INACTIVE ins"
  define st3 where "st3 = report_coordinator_alarm ?i False (report_inst_alarm ?i False (notify ?i OBS_SEPARATED
     (fst (set_status INACTIVE (st, ins)))))"
  have st3: "stops (effects st3) = stops (effects st)" "partial_loss_shutdown_sent st3 = partial_loss_shutdown_sent st"
    "enable_dp_scale_down st3 = enable_dp_scale_down st"
    by (simp_all add: st3_def set_status_def)
  have "\<not> (case policy_of env ins st of Some pol \<Rightarrow> protect_transaction pol | None \<Rightarrow> False)"
    using np by (simp add: protected_def)
  then have "fst (handle_inactive env ACTIVE INSTANCE_HEARTBEAT_TIMEOUT (st, ins)) =
     (if ?ab then dispatch_partial_loss_shutdown env ?i ?nms st3
      else st\<lparr>instances := dict_modify (ins_id ins) (refresh_all_heartbeats (env_now env)) (instances st)\<rparr>)"
    by (simp add: handle_inactive_def check_node_managers st3_def set_status_def Let_def)
  moreover have "policy_of env ?i st3 = policy_of env ins st" by (rule policy_cong) (simp_all add: st3)
  ultimately show ?thesis
    using assms by (auto simp: dispatch_stops st3 loses_part_def protected_def split: option.splits)
qed

lemma manage_stops:
  assumes ins: "dict_get (instances st) i = Some ins" and ok: "registry_ok st"
    and "is_effective_heartbeat_complete env ins st = (st1, False)"
  shows "stops (effects (manage_instance env st i)) = stops (effects st) @ (if loses_part env ins st
      then map (Pair i) (filter (\<lambda>nm. query_status env nm = Resp_status True) (node_managers ins)) else [])"
proof -
  note n = registry_get[OF ok ins]
  obtain evs where st1: "st1 = emit (map Server_event evs) st" using is_complete_frame[OF assms(3)] .
  have m: "manage_instance env st i = fst (handle_state_transition env (Some INSTANCE_HEARTBEAT_TIMEOUT) (st1, ins))"
    using ins n assms(3) by (simp add: manage_instance_def)
  have p: "policy_of env ins st1 = policy_of env ins st" by (rule policy_cong) (simp_all add: st1)
  have np: "\<not> protected env ins st1"
    using assms(3) by (auto simp: is_effective_heartbeat_complete_def protected_def p split: option.splits if_splits)
  have lp: "loses_part env ins st1 = loses_part env ins st" by (simp add: loses_part_def p[unfolded st1] st1)
  show ?thesis
  proof (cases "ins_status ins = ACTIVE")
    case True
    then have "handle_state_transition env (Some INSTANCE_HEARTBEAT_TIMEOUT) (st1, ins) =
      apply_event env INSTANCE_HEARTBEAT_TIMEOUT (st1, ins)" using np by (rule timeout_active)
    moreover have "effects (fst (apply_event env INSTANCE_HEARTBEAT_TIMEOUT (st1, ins))) =
      effects (fst (handle_inactive env ACTIVE INSTANCE_HEARTBEAT_TIMEOUT (st1, ins)))"
      using True by (simp add: apply_event_def states_def Let_def case_prod_unfold)
    ultimately show ?thesis
      using m inactive_stops[OF True np] n by (simp add: lp) (simp add: st1)
  next
    case False
    have "stops (effects (fst (handle_state_transition env (Some INSTANCE_HEARTBEAT_TIMEOUT) (st1, ins)))) = stops (effects st1)"
      using False n np by (cases "ins_status ins")
        (simp_all add: handle_state_transition_def protected_def apply_event_def states_def handle_deleted_def set_status_def
          del_instance_def Let_def)
    with m False show ?thesis by (simp add: loses_part_def st1)
  qed
qed


section \<open>Persistence\<close>

lemma persist_data_cell:
  assumes "distinct (dict_keys (instances st))" and "etcd_up env"
  shows "\<exists>ps. persist_data env st = (st\<lparr>data_version := data_version st + 1, etcd := Cell_state ps\<rparr>, True) \<and>
    ps_is_valid env ps \<and> ps_version ps = data_version st + 1 \<and>
    ps_data ps = map (\<lambda>(i, ins). (py_str_int i, model_dump env ins)) (instances st)"
proof -
  let ?d = "map (\<lambda>(i, ins). (py_str_int i, model_dump env ins)) (instances st)"
  have "distinct (map (\<lambda>x. py_str_int (fst x)) (instances st))"
    using distinct_map_inj[OF inj_py_str_int assms(1)] .
  then have "foldl (\<lambda>d x. dict_set (py_str_int (fst x)) (model_dump env (snd x)) d) [] (instances st) = ?d"
    using foldl_dict_set_fresh[of "\<lambda>x. py_str_int (fst x)" "instances st" "[]"] by (simp add: case_prod_unfold)
  then have d: "foldl (\<lambda>d (i, ins). dict_set (py_str_int i) (model_dump env ins) d) [] (instances st) = ?d"
    by (simp add: case_prod_unfold)
  let ?ps = "\<lparr>ps_data = ?d, ps_version = data_version st + 1, ps_timestamp = env_now env,
    ps_checksum = digest env ?d (data_version st + 1) (env_now env)\<rparr>"
  have "persist_data env st = (st\<lparr>data_version := data_version st + 1, etcd := Cell_state ?ps\<rparr>, True)"
    using assms(2) by (simp add: persist_data_def get_next_version_def d calculate_checksum_def Let_def)
  then show ?thesis by (intro exI[of _ ?ps]) (simp add: ps_is_valid_def calculate_checksum_def)
qed

lemma foldl_restore_entry:
  assumes "\<forall>ins. model_load env (dump ins) = Some (to_instance ins)" and "\<forall>(i, ins) \<in> set xs. ins_id ins = i"
  shows "foldl (restore_entry env) acc (map (\<lambda>(i, ins). (py_str_int i, dump ins)) xs) =
    (foldl (\<lambda>d x. dict_set (fst x) (after_restart (env_now env) (snd x)) d) (fst acc) xs,
     snd acc @ map (after_restart (env_now env)) (filter (\<lambda>ins. ins_status ins = ACTIVE) (map snd xs)))"
  using assms(2)
proof (induction xs arbitrary: acc)
  case (Cons x xs)
  obtain i ins where x: "x = (i, ins)" by (cases x)
  have "restore_entry env acc (py_str_int i, dump ins) =
     (dict_set i (after_restart (env_now env) ins) (fst acc),
      if ins_status ins = ACTIVE then snd acc @ [after_restart (env_now env) ins] else snd acc)"
    using assms(1) Cons.prems x
    by (simp add: restore_entry_def after_restart_def Let_def frame_simps, simp add: to_instance_def)
  with Cons x show ?case by simp
qed simp

lemma after_restart_sel [simp]:
  "ins_id (after_restart now ins) = ins_id ins" "ins_status (after_restart now ins) = ins_status ins"
  by (simp_all add: after_restart_def frame_simps to_instance_def)

lemma dict_get_map_values: "dict_get (map (\<lambda>x. (fst x, f (snd x))) d) k = map_option f (dict_get d k)"
  by (induction d) auto

section \<open>Properties\<close>

text \<open>
  C1: forced separation holds. Once an instance has been separated, no heartbeat, management round,
  registration of another instance, persistence or reconfiguration makes it ACTIVE again, in any
  state on the way, until it is recovered, its ID is registered anew or the controller restarts.
\<close>

theorem separated_never_active:
  assumes "registry_ok st" and "list_all (keeps_separation i) ops"
    and "dict_get (instances st) i \<noteq> None"
  shows "status_of (foldl ctl_step (separate_instance env i st) (take n ops)) i \<noteq> Some ACTIVE"
proof -
  have "separated i (separate_instance env i st)"
    using separate_get[OF assms(1), of env i i] assms(3) by (simp add: separated_def)
  then have "separated i (foldl ctl_step (separate_instance env i st) (take n ops))"
    using assms(2) by (rule sep_run.prefix_keeps)
  then show ?thesis by (auto simp: separated_def status_of_def)
qed


text \<open>
  Activation requires health. A heartbeat or management round makes an instance ACTIVE only if
  it is a heartbeat of that instance, no fault-tolerance transaction protects it, it is not
  forcibly separated, some checked endpoint is routable, and every checked endpoint is ready and
  was heard of within the active timeout.
\<close>

theorem activation_requires_health:
  assumes "registry_ok st" and "op = Ctl_heartbeat env ts msg \<or> op = Ctl_manage env"
    and "status_of st i \<noteq> Some ACTIVE" and "status_of (ctl_step st op) i = Some ACTIVE"
  shows "\<exists>m ins. op = Ctl_heartbeat env ts (Some m) \<and> hb_ins_id m = i \<and>
    dict_get (instances (ctl_step st op)) i = Some ins \<and> i \<notin> forced_separated_instances st \<and> \<not> protected env ins st \<and>
    (\<exists>ep \<in> set (all_eps ins). ep_id ep \<notin> ignored_of env ins st \<and> \<not> headless ep) \<and>
    (\<forall>ep \<in> set (all_eps ins). ep_id ep \<in> ignored_of env ins st \<or>
       (ep_status ep = EP_NORMAL \<or> headless ep \<and> ep_status ep = EP_WAIT2START) \<and>
       env_now env - hb_timestamp ep \<le> 10)"
proof -
  have d: "distinct (dict_keys (instances st))" using assms(1) by (simp add: registry_ok_def)
  have "op \<noteq> Ctl_manage env"
    using round_life[OF assms(1) d, of env i] assms(3,4) by (auto simp: management_round_def)
  with assms(2) have op: "op = Ctl_heartbeat env ts msg" by simp
  have ne: "fst (handle_heartbeat env ts msg st) \<noteq> st" using assms(3,4) op by auto
  then obtain m where m: "msg = Some m" by (cases msg) (simp_all add: heartbeat_ignored)
  with ne obtain ins where ins: "dict_get (instances st) (hb_ins_id m) = Some ins"
    by (cases "dict_get (instances st) (hb_ins_id m)") (simp_all add: heartbeat_ignored)
  obtain ins1 acc where u: "update_heartbeat (hb_ip m) ts (hb_status m) (hb_ignored env (hb_ins_id m) st) ins = (ins1, acc)"
    by fastforce
  let ?s = "stamped (hb_ins_id m) ins1 st"
  obtain st2 ins2 fin where t: "handle_state_transition env None (?s, ins1) = (st2, ins2, fin)"
    using prod_cases3 by blast
  from ne m heartbeat_known[OF ins u t] have st2: "ctl_step st op = st2" using op by (auto split: if_splits)
  from u have "ins1 = fst (update_heartbeat (hb_ip m) ts (hb_status m) (hb_ignored env (hb_ins_id m) st) ins)" by simp
  note r = stamped_registry[OF assms(1) ins this]
  note s = transition_settled[OF r(5,3) t]
  have i: "i = hb_ins_id m"
  proof (rule ccontr)
    assume "i \<noteq> hb_ins_id m"
    moreover have "settled ins1 ?s st2 ins2" using s by blast
    ultimately have "status_of st2 i = status_of st i" using r(1) by (simp add: settled_def status_of_def stamped_def)
    with assms(3,4) st2 show False by simp
  qed
  have g: "dict_get (instances st2) i = (if ins_status ins2 = DELETED then None else Some ins2)"
    using s r(1) i by (simp add: settled_def)
  with assms(4) st2 have act: "ins_status ins2 = ACTIVE" by (auto simp: status_of_def split: if_splits)
  have nact: "ins_status ins1 \<noteq> ACTIVE" using assms(3) ins i r(2) by (auto simp: status_of_def)
  from s act nact obtain event where e: "transitions (ins_status ins1) event = Some ACTIVE"
    "fst (detect_event (env_now env) (ignored_of env ins1 ?s) ins1) = Some event"
    and np: "\<not> protected env ins1 ?s" and nf: "ins_id ins1 \<notin> forced_separated_instances ?s" by auto
  note ready = ready_event[OF e(2,1)]
  have id2: "ins_id ins2 = ins_id ins1" and eps: "all_eps ins2 = all_eps ins1"
    using s act nact by (simp_all add: settled_def all_eps_def)
  have pol: "policy_of env ins2 st = policy_of env ins1 ?s" by (rule policy_cong) (simp_all add: id2 stamped_def)
  have ign: "ignored_of env ins2 st = ignored_of env ins1 ?s" "protected env ins2 st = protected env ins1 ?s"
    by (simp_all add: ignored_of_def protected_def pol)
  have "(\<exists>ep \<in> set (all_eps ins2). ep_id ep \<notin> ignored_of env ins2 st \<and> \<not> headless ep) \<and>
    (\<forall>ep \<in> set (all_eps ins2). ep_id ep \<in> ignored_of env ins2 st \<or>
       (ep_status ep = EP_NORMAL \<or> headless ep \<and> ep_status ep = EP_WAIT2START) \<and> env_now env - hb_timestamp ep \<le> 10)"
    using ready unfolding eps ign is_all_endpoints_ready_iff is_all_endpoints_heartbeat_fresh_def
    by (auto simp: list_all_iff is_alive_def DEFAULT_ACTIVE_HEARTBEAT_TIMEOUT_def)
  then show ?thesis
    using op m i st2 g act nf np ign r(1) by (intro exI[of _ m] exI[of _ ins2]) (simp add: stamped_def)
qed


theorem activation_requires_health_witness:
  "status_of (ctl_step (demo_manager INITIAL) (Ctl_heartbeat demo_env 5 (Some demo_heartbeat))) 7 = Some ACTIVE \<and>
   7 \<notin> forced_separated_instances (demo_manager INITIAL)"
proof -
  have s: "status_of (ctl_step (demo_manager INITIAL) (Ctl_heartbeat demo_env 5 (Some demo_heartbeat))) 7 = Some ACTIVE"
    by code_simp
  have "status_of (demo_manager INITIAL) 7 \<noteq> Some ACTIVE" by code_simp
  with activation_requires_health[OF demo_manager_ok _ this s] s show ?thesis by auto
qed

theorem separated_never_active_witness:
  "status_of (foldl ctl_step (separate_instance demo_env 7 (demo_manager ACTIVE))
     (take 2 [Ctl_heartbeat demo_env 5 (Some demo_heartbeat), Ctl_manage demo_env])) 7 \<noteq> Some ACTIVE"
  by (rule separated_never_active[OF demo_manager_ok]) (simp_all add: demo_manager_def)


text \<open>
  Engine FT transactions are protected. While DP scale-down is enabled and the runtime of an
  instance is deciding, waiting, scaling down or cleaning up, no heartbeat and no management round
  changes the status of that instance.
\<close>

theorem transaction_protected:
  assumes "registry_ok st" and "op = Ctl_heartbeat env ts msg \<or> op = Ctl_manage env"
    and "enable_dp_scale_down st" and "rt_get i (ft_store env) = Some rt"
    and "phase rt \<in> {PH_DECIDING, PH_WAITING_ENGINE_FAULT, PH_SCALING_DOWN, PH_POST_SCALE_CLEANUP}"
  shows "status_of (ctl_step st op) i = status_of st i"
proof -
  have pr: "protected env ins s" if "ins_id ins = i" "enable_dp_scale_down s" for ins and s :: "'a InstanceManager"
    using that assms(4,5)
    by (simp add: protected_def policy_of_def partial_loss_policy_def PARTIAL_LOSS_TRANSACTION_PHASES_def)
  show ?thesis
  proof (cases "op = Ctl_manage env")
    case True
    show ?thesis unfolding True ctl_step.simps management_round_def
      by (rule protected_round[OF assms(1)]) (use assms(1,3) pr in \<open>auto simp: registry_ok_def\<close>)
  next
    case False
    with assms(2) have op: "op = Ctl_heartbeat env ts msg" by simp
    show ?thesis
    proof (cases "ctl_step st op = st")
      case False
      then obtain m where m: "msg = Some m" using op by (cases msg) (simp_all add: heartbeat_ignored)
      with False op obtain ins where ins: "dict_get (instances st) (hb_ins_id m) = Some ins"
        by (cases "dict_get (instances st) (hb_ins_id m)") (simp_all add: heartbeat_ignored)
      obtain ins1 acc where u: "update_heartbeat (hb_ip m) ts (hb_status m) (hb_ignored env (hb_ins_id m) st) ins = (ins1, acc)"
        by fastforce
      let ?s = "stamped (hb_ins_id m) ins1 st"
      obtain st2 ins2 fin where t: "handle_state_transition env None (?s, ins1) = (st2, ins2, fin)"
        using prod_cases3 by blast
      from False op m heartbeat_known[OF ins u t] have st2: "ctl_step st op = st2" by (auto split: if_splits)
      from u have "ins1 = fst (update_heartbeat (hb_ip m) ts (hb_status m) (hb_ignored env (hb_ins_id m) st) ins)" by simp
      note r = stamped_registry[OF assms(1) ins this]
      note s = transition_settled[OF r(5,3) t]
      have "settled ins1 ?s st2 ins2" using s by blast
      moreover have "i = hb_ins_id m \<Longrightarrow> ins_status ins2 = ins_status ins1"
        using s pr[of ins1 ?s] r(1) assms(3) by (auto simp: stamped_def)
      ultimately show ?thesis
        using r st2 ins by (cases "i = hb_ins_id m") (auto simp: settled_def status_of_def stamped_def)
    qed simp
  qed
qed

lemma no_transition:
  assumes "s \<noteq> DELETED" and "fst (detect_event now ign ins) = Some ev" and "ins_status ins = s"
  shows "transitions s ev = None \<longleftrightarrow> s \<in> {ACTIVE, PAUSED} \<and> ev = INSTANCE_INIT"
proof -
  have "ev \<noteq> INSTANCE_HEARTBEAT_TIMEOUT \<and> (ev = INSTANCE_RESUMED \<longrightarrow> s = PAUSED)"
    using assms(2,3) by (auto simp: detect_event_def case_prod_unfold Let_def split: if_splits)
  with assms(1) show ?thesis by (cases s; cases ev) auto
qed

lemma transition_answer:
  assumes nd: "ins_status ins \<noteq> DELETED" and t: "handle_state_transition env None (st, ins) = (st', ins', ok)"
  shows "ok \<longleftrightarrow> \<not> (\<not> protected env ins st \<and> ins_status ins \<in> {ACTIVE, PAUSED} \<and>
    fst (detect_event (env_now env) (ignored_of env ins st) ins) = Some INSTANCE_INIT)"
proof -
  obtain det evs where d: "detect_event (env_now env) (ignored_of env ins st) ins = (det, evs)" by fastforce
  have a: "snd (snd (apply_event env ev (s, ins))) \<longleftrightarrow> transitions (ins_status ins) ev \<noteq> None"
    for ev and s :: "'a InstanceManager"
    by (simp add: apply_event_def Let_def case_prod_unfold split: option.split)
  have "ok = snd (snd (handle_state_transition env None (st, ins)))" using t by simp
  also have "\<dots> \<longleftrightarrow> protected env ins st \<or> (case det of None \<Rightarrow> True | Some ev \<Rightarrow> transitions (ins_status ins) ev \<noteq> None)"
    using d by (simp add: handle_state_transition_def protected_def ignored_of_def Let_def a split: option.split)
  finally show ?thesis using no_transition[OF nd, of "env_now env" "ignored_of env ins st" ins] d
    by (cases det) auto
qed

theorem transaction_protected_witness:
  "let st = (demo_manager ACTIVE)\<lparr>enable_dp_scale_down := True\<rparr>;
       env = demo_env\<lparr>ft_store := put ((new_runtime 7)\<lparr>phase := PH_SCALING_DOWN\<rparr>) empty_store, env_now := 500\<rparr>
   in status_of (ctl_step st (Ctl_manage env)) 7 = Some ACTIVE"
proof -
  let ?st = "(demo_manager ACTIVE)\<lparr>enable_dp_scale_down := True\<rparr>"
  let ?rt = "(new_runtime 7)\<lparr>phase := PH_SCALING_DOWN\<rparr>"
  let ?env = "demo_env\<lparr>ft_store := put ?rt empty_store, env_now := 500\<rparr>"
  have ok: "registry_ok ?st" using demo_manager_ok[of ACTIVE] by (simp add: registry_ok_def)
  have rt: "rt_get 7 (ft_store ?env) = Some ?rt" by (simp add: rt_get_def put_def empty_store_def new_runtime_def)
  have "status_of (ctl_step ?st (Ctl_manage ?env)) 7 = status_of ?st 7"
    by (rule transaction_protected[OF ok _ _ rt, where ts = 0 and msg = None]) simp_all
  then show ?thesis by (simp add: status_of_def demo_manager_def demo_instance_def)
qed

text \<open>
  Survivors of a partial loss are stopped exactly when they must be. In a management round, an
  instance whose heartbeats are incomplete sends stop requests only if it was ACTIVE, some node
  manager failed to confirm that it is well, no fault-tolerance runtime protects it or suppresses
  the shutdown, and none was sent in this loss episode; then the requests go to exactly the node
  managers that answered well, in order.
\<close>

theorem survivors_stopped_exactly:
  assumes "registry_ok st" and "dict_get (instances st) i = Some ins"
    and "\<not> snd (is_effective_heartbeat_complete env ins st)"
  shows "stops (effects (manage_instance env st i)) = stops (effects st) @
    (if ins_status ins = ACTIVE \<and>
        (node_managers ins = [] \<or> (\<exists>nm \<in> set (node_managers ins). query_status env nm \<noteq> Resp_status True)) \<and>
        (case policy_of env ins st of Some pol \<Rightarrow> \<not> protect_transaction pol \<and> \<not> suppress_legacy_shutdown pol | None \<Rightarrow> True) \<and>
        i \<notin> partial_loss_shutdown_sent st
     then map (Pair i) (filter (\<lambda>nm. query_status env nm = Resp_status True) (node_managers ins)) else [])"
proof -
  obtain st1 b where c: "is_effective_heartbeat_complete env ins st = (st1, b)" by fastforce
  with assms(3) have "is_effective_heartbeat_complete env ins st = (st1, False)" by simp
  from manage_stops[OF assms(2,1) this] registry_get[OF assms(1,2)] show ?thesis by (simp add: loses_part_def)
qed

theorem survivors_stopped_exactly_witness:
  "let nm1 = \<lparr>pod_ip = ''10.0.0.1'', nm_port = ''90'', device_num = 2\<rparr>; nm2 = nm1\<lparr>pod_ip := ''10.0.0.2''\<rparr>;
       ins = (demo_instance 7 ''prefill'' ACTIVE)\<lparr>node_managers := [nm1, nm2]\<rparr>;
       st = (demo_manager ACTIVE)\<lparr>instances := [(7, ins)]\<rparr>;
       env = demo_env\<lparr>env_now := 500, query_status := (\<lambda>nm. if nm = nm1 then Resp_exception else Resp_status True)\<rparr>
   in stops (effects (manage_instance env st 7)) = [(7, nm2)]"
proof -
  let ?nm1 = "\<lparr>pod_ip = ''10.0.0.1'', nm_port = ''90'', device_num = 2\<rparr>" and ?nm2 = "\<lparr>pod_ip = ''10.0.0.2'', nm_port = ''90'', device_num = 2\<rparr>"
  let ?ins = "(demo_instance 7 ''prefill'' ACTIVE)\<lparr>node_managers := [?nm1, ?nm2]\<rparr>"
  let ?st = "(demo_manager ACTIVE)\<lparr>instances := [(7, ?ins)]\<rparr>"
  let ?env = "demo_env\<lparr>env_now := 500, query_status := (\<lambda>nm. if nm = ?nm1 then Resp_exception else Resp_status True)\<rparr>"
  have ok: "registry_ok ?st" by (simp add: registry_ok_def demo_instance_def)
  have g: "dict_get (instances ?st) 7 = Some ?ins" by simp
  have "policy_of ?env ?ins ?st = None" by (simp add: policy_of_def demo_manager_def)
  moreover have "\<not> fst (is_all_endpoints_alive 500 None {} ?ins)"
    by (simp add: is_all_endpoints_alive_iff all_eps_def demo_instance_def demo_endpoint_def is_alive_def liveness_timeout_def
        DEFAULT_ACTIVE_HEARTBEAT_TIMEOUT_def)
  ultimately have "\<not> snd (is_effective_heartbeat_complete ?env ?ins ?st)"
    by (simp add: is_effective_heartbeat_complete_def case_prod_unfold Let_def)
  from survivors_stopped_exactly[OF ok g this] show ?thesis
    by (simp add: policy_of_def demo_manager_def demo_instance_def)
qed

text \<open>
  Persisting and restoring is a round trip. When ETCD accepts the write and the codec loads what
  it dumped (up to the private cache fields), the data persisted is restored in a new process: the
  same instances under the same IDs, ACTIVE ones with refreshed heartbeats, a version at least the
  persisted one, and READY notifications for exactly the ACTIVE ones, followed by the SET event.
\<close>

theorem persist_restore_roundtrip:
  assumes "registry_ok st" and "etcd_up env" and "persist_data env st = (st1, b)"
    and "\<forall>ins. model_load env' (model_dump env ins) = Some (to_instance ins)" and "digest env' = digest env"
    and "etcd st0 = etcd st1" and "restore_data env' st0 = (st2, c)"
  shows "b \<and> c \<and> (\<forall>i. dict_get (instances st2) i = map_option (after_restart (env_now env')) (dict_get (instances st) i)) \<and>
    registry_ok st2 \<and> data_version st1 = data_version st + 1 \<and>
    data_version st2 = max (data_version st0) (data_version st1) \<and>
    effects st2 = effects st0 @ map (\<lambda>ins. Notify (ins_id ins) OBS_READY) (get_active_instances st) @
      (if has_event_pusher st0 then [Push_SET] else [])"
proof -
  have dk: "distinct (dict_keys (instances st))" using assms(1) by (simp add: registry_ok_def)
  obtain ps where p: "persist_data env st = (st\<lparr>data_version := data_version st + 1, etcd := Cell_state ps\<rparr>, True)"
    and v: "ps_is_valid env ps" "ps_version ps = data_version st + 1"
    and d: "ps_data ps = map (\<lambda>(i, ins). (py_str_int i, model_dump env ins)) (instances st)"
    using persist_data_cell[OF dk assms(2)] by blast
  have st1: "b" "data_version st1 = data_version st + 1" "etcd st0 = Cell_state ps"
    using p assms(3,6) by auto
  have v': "ps_is_valid env' ps" using v(1) assms(5) by (simp add: ps_is_valid_def calculate_checksum_def)
  let ?now = "env_now env'"
  have ids: "\<forall>(i, ins) \<in> set (instances st). ins_id ins = i"
    using assms(1) dk by (auto simp: registry_ok_def)
  have f: "foldl (restore_entry env') ([], []) (ps_data ps) =
      (map (\<lambda>x. (fst x, after_restart ?now (snd x))) (instances st),
       map (after_restart ?now) (filter (\<lambda>ins. ins_status ins = ACTIVE) (map snd (instances st))))"
    using foldl_dict_set_fresh[OF dk, of "[]" "\<lambda>x. after_restart ?now (snd x)"]
    unfolding d by (subst foldl_restore_entry[OF assms(4) ids]) simp
  have r: "(st2, c) = (emit (map (\<lambda>ins. Notify (ins_id ins) OBS_READY) (get_active_instances st) @
        (if has_event_pusher st0 then [Push_SET] else []))
      (st0\<lparr>data_version := max (data_version st0) (ps_version ps),
           instances := map (\<lambda>x. (fst x, after_restart ?now (snd x))) (instances st)\<rparr>), True)"
    unfolding assms(7)[symmetric] restore_data_def
    using v' by (simp add: st1 f get_active_instances_def instances_with_def o_def)
  then have i2: "instances st2 = map (\<lambda>x. (fst x, after_restart ?now (snd x))) (instances st)" by simp
  have "registry_ok st2"
    unfolding registry_ok_def i2 dict_get_map_values
    using assms(1) dk by (auto simp: registry_ok_def o_def)
  then show ?thesis using r st1 v(2) by (simp add: i2 dict_get_map_values)
qed

theorem persist_restore_roundtrip_witness:
  "let st1 = fst (persist_data demo_env (demo_manager ACTIVE));
       (st2, c) = restore_data demo_env ((demo_manager INITIAL)\<lparr>instances := [], etcd := etcd st1\<rparr>)
   in c \<and> status_of st2 7 = Some ACTIVE"
proof -
  let ?st = "demo_manager ACTIVE"
  let ?st1 = "fst (persist_data demo_env ?st)"
  let ?fresh = "(demo_manager INITIAL)\<lparr>instances := [], etcd := etcd ?st1\<rparr>"
  obtain st2 c where r: "restore_data demo_env ?fresh = (st2, c)" by fastforce
  have p: "persist_data demo_env ?st = (?st1, snd (persist_data demo_env ?st))" by simp
  have "c \<and> (\<forall>i. dict_get (instances st2) i = map_option (after_restart (env_now demo_env)) (dict_get (instances ?st) i))"
    using persist_restore_roundtrip[OF demo_manager_ok _ p _ refl _ r] by (simp add: demo_env_def)
  with r show ?thesis by (simp add: status_of_def demo_manager_def demo_instance_def)
qed

text \<open>
  The answer to a heartbeat. An unknown instance is told to register again (503); a heartbeat
  whose endpoints do not match is refused (500) and changes nothing; an accepted one is answered
  200 unless no transaction protects the instance and it is ACTIVE or PAUSED while its endpoints
  have fallen back to initialising, which the transition table does not allow (500).
\<close>

theorem heartbeat_answer:
  assumes "registry_ok st" and "update_heartbeat (hb_ip m) ts (hb_status m) (hb_ignored env (hb_ins_id m) st)
      (the (dict_get (instances st) (hb_ins_id m))) = (ins1, accepted)"
  shows "snd (handle_heartbeat env ts (Some m) st) =
    (if dict_get (instances st) (hb_ins_id m) = None then Inl (HTTPException 503)
     else if \<not> accepted then Inl (HTTPException 500)
     else if \<not> protected env ins1 st \<and> ins_status ins1 \<in> {ACTIVE, PAUSED} \<and>
             fst (detect_event (env_now env) (ignored_of env ins1 st) ins1) = Some INSTANCE_INIT
     then Inl (HTTPException 500) else Inr (True, 200)) \<and>
   (dict_get (instances st) (hb_ins_id m) = None \<or> \<not> accepted \<longrightarrow> fst (handle_heartbeat env ts (Some m) st) = st)"
proof (cases "dict_get (instances st) (hb_ins_id m)")
  case (Some ins)
  with assms(2) have u: "update_heartbeat (hb_ip m) ts (hb_status m) (hb_ignored env (hb_ins_id m) st) ins = (ins1, accepted)"
    by simp
  then have "ins1 = fst (update_heartbeat (hb_ip m) ts (hb_status m) (hb_ignored env (hb_ins_id m) st) ins)" by simp
  note r = stamped_registry[OF assms(1) Some this]
  let ?s = "stamped (hb_ins_id m) ins1 st"
  obtain st2 ins2 fin where t: "handle_state_transition env None (?s, ins1) = (st2, ins2, fin)"
    using prod_cases3 by blast
  have pol: "policy_of env ins1 ?s = policy_of env ins1 st" by (rule policy_cong) (simp_all add: stamped_def)
  have "fin \<longleftrightarrow> \<not> (\<not> protected env ins1 st \<and> ins_status ins1 \<in> {ACTIVE, PAUSED} \<and>
      fst (detect_event (env_now env) (ignored_of env ins1 st) ins1) = Some INSTANCE_INIT)"
    using transition_answer[OF r(3) t] by (simp add: protected_def ignored_of_def pol)
  then show ?thesis using heartbeat_known[OF Some u t] Some by auto
qed (simp add: heartbeat_ignored)

theorem heartbeat_answer_witness:
  "snd (handle_heartbeat demo_env 5 (Some (demo_heartbeat\<lparr>hb_status := [(0, EP_NORMAL), (1, EP_INITIAL)]\<rparr>)) (demo_manager ACTIVE)) =
     Inl (HTTPException 500)"
proof -
  let ?m = "demo_heartbeat\<lparr>hb_status := [(0, EP_NORMAL), (1, EP_INITIAL)]\<rparr>" and ?st = "demo_manager ACTIVE"
  let ?ins = "demo_instance 7 ''prefill'' ACTIVE"
  have g: "dict_get (instances ?st) (hb_ins_id ?m) = Some ?ins" "hb_ignored demo_env (hb_ins_id ?m) ?st = {}"
    by (simp_all add: demo_manager_def demo_heartbeat_def hb_ignored_def)
  let ?u = "update_heartbeat (hb_ip ?m) 5 (hb_status ?m) {} ?ins"
  obtain ins1 acc where u: "?u = (ins1, acc)" by fastforce
  have "snd ?u" "ins_status (fst ?u) = ACTIVE" "fst (detect_event 5 {} (fst ?u)) = Some INSTANCE_INIT" by code_simp+
  then have "acc" "ins_status ins1 = ACTIVE" "fst (detect_event 5 {} ins1) = Some INSTANCE_INIT" using u by simp_all
  moreover have "policy_of demo_env ins1 ?st = None" by (simp add: policy_of_def demo_manager_def)
  ultimately show ?thesis
    using heartbeat_answer[OF demo_manager_ok, of ACTIVE ?m 5 demo_env ins1 acc] g u
    by (simp add: protected_def ignored_of_def demo_env_def)
qed

end
