(* ===== verification/Circuit_Breaker.thy ===== *)
theory Circuit_Breaker
  imports Prelude
begin

text \<open>
  The circuit breakers of the coordinator's scheduler:
  \<^verbatim>\<open>motor/coordinator/domain/circuit_breaker.py\<close>.

  The manager keeps one breaker per instance in a dictionary and a snapshot of its configuration.
  The abstract specification is one small machine per instance, either counting consecutive
  failures or tripped with a number of failed probes; the pool refines it.
\<close>

section \<open>States and operations\<close>

datatype cb_state = CB_CLOSED | CB_OPEN

record CircuitBreakerState =
  cb_state :: cb_state
  trip_count :: int
  failure_count :: int
  current_timeout :: pyfloat

definition new_breaker :: CircuitBreakerState where
  "new_breaker = \<lparr>cb_state = CB_CLOSED, trip_count = 0, failure_count = 0, current_timeout = 0\<rparr>"

record CircuitConfig =
  cb_enable :: bool
  failure_threshold :: int
  base_timeout_s :: pyfloat
  max_timeout_s :: pyfloat

record CircuitBreakerManager =
  cb_config :: CircuitConfig
  cb_pool :: "(int, CircuitBreakerState) dict"

definition CircuitBreakerManager_init :: "CircuitConfig \<Rightarrow> CircuitBreakerManager" where
  "CircuitBreakerManager_init cfg = \<lparr>cb_config = cfg, cb_pool = []\<rparr>"

definition cb_get :: "int \<Rightarrow> CircuitBreakerManager \<Rightarrow> CircuitBreakerState option" where
  "cb_get i m = dict_get (cb_pool m) i"

definition is_open :: "int \<Rightarrow> CircuitBreakerManager \<Rightarrow> bool" where
  "is_open i m = (case cb_get i m of None \<Rightarrow> False | Some s \<Rightarrow> cb_state s = CB_OPEN)"

definition is_closed :: "int \<Rightarrow> CircuitBreakerManager \<Rightarrow> bool" where
  "is_closed i m = (case cb_get i m of None \<Rightarrow> True | Some s \<Rightarrow> cb_state s = CB_CLOSED)"

definition cb_put :: "int \<Rightarrow> CircuitBreakerState \<Rightarrow> CircuitBreakerManager \<Rightarrow> CircuitBreakerManager" where
  "cb_put i s m = m\<lparr>cb_pool := dict_set i s (cb_pool m)\<rparr>"

definition cb_get_or_create :: "int \<Rightarrow> CircuitBreakerManager \<Rightarrow> CircuitBreakerManager \<times> CircuitBreakerState" where
  "cb_get_or_create i m =
     (case cb_get i m of Some s \<Rightarrow> (m, s) | None \<Rightarrow> (cb_put i new_breaker m, new_breaker))"

definition backoff :: "CircuitConfig \<Rightarrow> int \<Rightarrow> pyfloat" where
  "backoff cfg trips = min (base_timeout_s cfg * 2 ^ nat (trips - 1)) (max_timeout_s cfg)"

definition trip_state :: "pyfloat \<Rightarrow> CircuitBreakerState \<Rightarrow> CircuitBreakerState" where
  "trip_state timeout s = s\<lparr>cb_state := CB_OPEN, current_timeout := timeout\<rparr>"

definition process_failure :: "int \<Rightarrow> CircuitBreakerManager \<Rightarrow> CircuitBreakerManager \<times> bool \<times> pyfloat" where
  "process_failure i m =
     (if \<not> cb_enable (cb_config m) then (m, False, 0)
      else (let (m1, s) = cb_get_or_create i m
            in if cb_state s = CB_OPEN then (m1, False, 0)
               else (let s1 = s\<lparr>failure_count := failure_count s + 1\<rparr>
                     in if failure_count s1 < failure_threshold (cb_config m) then (cb_put i s1 m1, False, 0)
                        else (let s2 = s1\<lparr>trip_count := trip_count s1 + 1\<rparr>;
                                  timeout = backoff (cb_config m) (trip_count s2)
                              in (cb_put i (trip_state timeout s2) m1, True, timeout)))))"

definition process_success :: "int \<Rightarrow> CircuitBreakerManager \<Rightarrow> CircuitBreakerManager \<times> bool" where
  "process_success i m =
     (if \<not> cb_enable (cb_config m) then (m, False)
      else case cb_get i m of
             None \<Rightarrow> (m, False)
           | Some s \<Rightarrow>
               (let s1 = s\<lparr>trip_count := 0, failure_count := 0, current_timeout := 0\<rparr>
                in if cb_state s1 = CB_OPEN then (cb_put i (s1\<lparr>cb_state := CB_CLOSED\<rparr>) m, True)
                   else (cb_put i s1 m, False)))"

definition process_probe_failure :: "int \<Rightarrow> CircuitBreakerManager \<Rightarrow> CircuitBreakerManager \<times> pyfloat option" where
  "process_probe_failure i m =
     (if \<not> cb_enable (cb_config m) then (m, None)
      else case cb_get i m of
             None \<Rightarrow> (m, None)
           | Some s \<Rightarrow>
               if cb_state s \<noteq> CB_OPEN then (m, None)
               else (let s1 = s\<lparr>trip_count := trip_count s + 1\<rparr>;
                         timeout = backoff (cb_config m) (trip_count s1)
                     in (cb_put i (s1\<lparr>current_timeout := timeout\<rparr>) m, Some timeout)))"

definition auto_recover :: "int \<Rightarrow> CircuitBreakerManager \<Rightarrow> CircuitBreakerManager \<times> bool" where
  "auto_recover i m =
     (if \<not> cb_enable (cb_config m) then (m, False)
      else case cb_get i m of
             None \<Rightarrow> (m, False)
           | Some s \<Rightarrow>
               if cb_state s \<noteq> CB_OPEN then (m, False)
               else (cb_put i (s\<lparr>cb_state := CB_CLOSED, failure_count := 0, trip_count := 0,
                                 current_timeout := 0\<rparr>) m, True))"

definition clear_instance :: "int \<Rightarrow> CircuitBreakerManager \<Rightarrow> CircuitBreakerManager" where
  "clear_instance i m =
     (if in_dict i (cb_pool m) then m\<lparr>cb_pool := dict_pop i (cb_pool m)\<rparr> else m)"

definition clear_all :: "CircuitBreakerManager \<Rightarrow> CircuitBreakerManager \<times> nat" where
  "clear_all m = (m\<lparr>cb_pool := []\<rparr>, length (cb_pool m))"

definition get_open_instance_ids :: "CircuitBreakerManager \<Rightarrow> int list" where
  "get_open_instance_ids m = dict_keys (filter (\<lambda>(i, s). cb_state s = CB_OPEN) (cb_pool m))"

section \<open>The manager as a component\<close>

datatype cb_op =
    Cb_failure int
  | Cb_success int
  | Cb_probe_failure int
  | Cb_recover int
  | Cb_clear int
  | Cb_clear_all

text \<open>
  The answer of an operation: whether it changed the circuit, and the recovery timeout to arm.
\<close>

fun cb_step :: "CircuitBreakerManager \<Rightarrow> cb_op \<Rightarrow> CircuitBreakerManager" where
  "cb_step m (Cb_failure i) = fst (process_failure i m)"
| "cb_step m (Cb_success i) = fst (process_success i m)"
| "cb_step m (Cb_probe_failure i) = fst (process_probe_failure i m)"
| "cb_step m (Cb_recover i) = fst (auto_recover i m)"
| "cb_step m (Cb_clear i) = clear_instance i m"
| "cb_step m Cb_clear_all = fst (clear_all m)"

text \<open>
  The abstract machine of one instance: \<open>Counting n\<close> after \<open>n\<close> consecutive failures, \<open>Tripped k\<close>
  after \<open>k\<close> failed probes. An operation on another instance does nothing.
\<close>

datatype circuit = Counting nat | Tripped nat

fun circuit_step :: "CircuitConfig \<Rightarrow> int \<Rightarrow> circuit \<Rightarrow> cb_op \<Rightarrow> circuit" where
  "circuit_step cfg i (Counting n) (Cb_failure j) =
     (if j \<noteq> i then Counting n else if int (Suc n) < failure_threshold cfg then Counting (Suc n) else Tripped 0)"
| "circuit_step cfg i (Tripped k) (Cb_probe_failure j) = (if j \<noteq> i then Tripped k else Tripped (Suc k))"
| "circuit_step cfg i c (Cb_success j) = (if j \<noteq> i then c else Counting 0)"
| "circuit_step cfg i (Tripped k) (Cb_recover j) = (if j \<noteq> i then Tripped k else Counting 0)"
| "circuit_step cfg i c (Cb_clear j) = (if j \<noteq> i then c else Counting 0)"
| "circuit_step cfg i c Cb_clear_all = Counting 0"
| "circuit_step cfg i c _ = c"

text \<open>
  The breaker a circuit stands for, and the simulation relation.
\<close>

fun breaker_of :: "CircuitConfig \<Rightarrow> circuit \<Rightarrow> CircuitBreakerState \<Rightarrow> bool" where
  "breaker_of cfg (Counting n) s \<longleftrightarrow>
     cb_state s = CB_CLOSED \<and> trip_count s = 0 \<and> failure_count s = int n \<and> current_timeout s = 0"
| "breaker_of cfg (Tripped k) s \<longleftrightarrow>
     cb_state s = CB_OPEN \<and> trip_count s = int k + 1 \<and> current_timeout s = backoff cfg (int k + 1)"

definition simulates :: "CircuitBreakerManager \<Rightarrow> (int \<Rightarrow> circuit) \<Rightarrow> bool" where
  "simulates m c \<longleftrightarrow> distinct (dict_keys (cb_pool m)) \<and>
     (\<forall>i. case cb_get i m of
            None \<Rightarrow> c i = Counting 0
          | Some s \<Rightarrow> breaker_of (cb_config m) (c i) s)"

text \<open>
  An operation that neither clears nor recovers nor reports a success of instance \<open>i\<close>.
\<close>

fun leaves_counting :: "int \<Rightarrow> cb_op \<Rightarrow> bool" where
  "leaves_counting i (Cb_success j) = (j \<noteq> i)"
| "leaves_counting i (Cb_recover j) = (j \<noteq> i)"
| "leaves_counting i (Cb_clear j) = (j \<noteq> i)"
| "leaves_counting i Cb_clear_all = False"
| "leaves_counting i _ = True"

definition demo_circuit_config :: CircuitConfig where
  "demo_circuit_config = \<lparr>cb_enable = True, failure_threshold = 3, base_timeout_s = 30, max_timeout_s = 300\<rparr>"


section \<open>Simulation\<close>

lemma cb_put_frame [simp]:
  "cb_config (cb_put i s m) = cb_config m" "cb_get j (cb_put i s m) = (if j = i then Some s else cb_get j m)"
  "cb_pool (cb_put i s m) = dict_set i s (cb_pool m)"
  by (simp_all add: cb_put_def cb_get_def)

lemma simulates_get:
  assumes "simulates m c"
  shows "cb_get i m = None \<Longrightarrow> c i = Counting 0" "cb_get i m = Some s \<Longrightarrow> breaker_of (cb_config m) (c i) s"
proof -
  have "case cb_get i m of None \<Rightarrow> c i = Counting 0 | Some s \<Rightarrow> breaker_of (cb_config m) (c i) s"
    using assms unfolding simulates_def by blast
  then show "cb_get i m = None \<Longrightarrow> c i = Counting 0" "cb_get i m = Some s \<Longrightarrow> breaker_of (cb_config m) (c i) s"
    by simp_all
qed

lemma simulatesI:
  assumes "distinct (dict_keys (cb_pool m))" and "\<And>i. cb_get i m = None \<Longrightarrow> c i = Counting 0"
    and "\<And>i s. cb_get i m = Some s \<Longrightarrow> breaker_of (cb_config m) (c i) s"
  shows "simulates m c"
  using assms by (simp add: simulates_def split: option.split)

lemma simulates_put:
  assumes "simulates m c" and "breaker_of (cb_config m) x s"
  shows "simulates (cb_put i s m) (c(i := x))"
  by (rule simulatesI) (use assms simulates_get[OF assms(1)] in \<open>auto simp: simulates_def split: if_splits\<close>)

lemma simulates_pop:
  assumes "simulates m c"
  shows "simulates (m\<lparr>cb_pool := dict_pop i (cb_pool m)\<rparr>) (c(i := Counting 0))"
proof (rule simulatesI)
  show "distinct (dict_keys (cb_pool (m\<lparr>cb_pool := dict_pop i (cb_pool m)\<rparr>)))"
    using assms by (simp add: simulates_def)
qed (use simulates_get[OF assms] in \<open>auto simp: cb_get_def split: if_splits\<close>)

lemma get_or_create_simulates:
  assumes "simulates m c" and "cb_get_or_create i m = (m1, s)"
  shows "simulates m1 c \<and> breaker_of (cb_config m) (c i) s \<and> cb_config m1 = cb_config m"
proof (cases "cb_get i m")
  case None
  then have c: "c(i := Counting 0) = c" using simulates_get(1)[OF assms(1)] by auto
  have "simulates (cb_put i new_breaker m) (c(i := Counting 0))"
    by (rule simulates_put[OF assms(1)]) (simp add: new_breaker_def)
  with None assms(2) c simulates_get(1)[OF assms(1) None] show ?thesis
    by (auto simp: cb_get_or_create_def new_breaker_def)
next
  case (Some s')
  with assms simulates_get(2)[OF assms(1) Some] show ?thesis by (simp add: cb_get_or_create_def)
qed

text \<open>
  The answer and the effect of each operation on an enabled manager, seen through the circuit.
\<close>

lemma failure_simulates:
  assumes s: "simulates m c" and en: "cb_enable (cb_config m)"
  shows "simulates (fst (process_failure i m)) (c(i := circuit_step (cb_config m) i (c i) (Cb_failure i))) \<and>
    cb_config (fst (process_failure i m)) = cb_config m \<and>
    snd (process_failure i m) =
      (case c i of Counting n \<Rightarrow> if int (Suc n) < failure_threshold (cb_config m) then (False, 0) else (True, backoff (cb_config m) 1)
       | Tripped k \<Rightarrow> (False, 0))"
proof -
  obtain m1 s1 where g: "cb_get_or_create i m = (m1, s1)" by fastforce
  note k = get_or_create_simulates[OF s g]
  show ?thesis
  proof (cases "c i")
    case (Counting n)
    let ?s2 = "s1\<lparr>failure_count := failure_count s1 + 1\<rparr>"
    let ?s3 = "trip_state (backoff (cb_config m) 1) (?s2\<lparr>trip_count := trip_count ?s2 + 1\<rparr>)"
    have b: "breaker_of (cb_config m1) (Counting (Suc n)) ?s2" "breaker_of (cb_config m1) (Tripped 0) ?s3"
      using k Counting by (simp_all add: trip_state_def)
    have p: "process_failure i m = (if int (Suc n) < failure_threshold (cb_config m) then (cb_put i ?s2 m1, False, 0)
        else (cb_put i ?s3 m1, True, backoff (cb_config m) 1))"
      using en g k Counting by (simp add: process_failure_def Let_def add.commute)
    show ?thesis unfolding p
      using simulates_put[OF conjunct1[OF k] b(1)] simulates_put[OF conjunct1[OF k] b(2)] Counting k by simp
  next
    case (Tripped n)
    have "process_failure i m = (m1, False, 0)"
      using en g k Tripped by (simp add: process_failure_def)
    moreover have "c(i := c i) = c" by simp
    ultimately show ?thesis using k Tripped by (simp add: fun_upd_idem)
  qed
qed

lemma success_simulates:
  assumes s: "simulates m c" and en: "cb_enable (cb_config m)"
  shows "simulates (fst (process_success i m)) (c(i := Counting 0)) \<and>
    cb_config (fst (process_success i m)) = cb_config m \<and>
    (snd (process_success i m) \<longleftrightarrow> (\<exists>k. c i = Tripped k))"
proof (cases "cb_get i m")
  case None
  with simulates_get(1)[OF s None] s en show ?thesis by (simp add: process_success_def fun_upd_idem)
next
  case (Some b)
  note k = simulates_get(2)[OF s Some]
  let ?b = "b\<lparr>trip_count := 0, failure_count := 0, current_timeout := 0, cb_state := CB_CLOSED\<rparr>"
  have "simulates (cb_put i ?b m) (c(i := Counting 0))" by (rule simulates_put[OF s]) simp
  moreover have "process_success i m = (cb_put i ?b m, cb_state b = CB_OPEN)"
    using Some en by (cases b) (auto simp: process_success_def Let_def, metis cb_state.exhaust)
  ultimately show ?thesis using k by (cases "c i") simp_all
qed

lemma probe_simulates:
  assumes s: "simulates m c" and en: "cb_enable (cb_config m)"
  shows "simulates (fst (process_probe_failure i m)) (c(i := circuit_step (cb_config m) i (c i) (Cb_probe_failure i))) \<and>
    cb_config (fst (process_probe_failure i m)) = cb_config m \<and>
    snd (process_probe_failure i m) =
      (case c i of Counting n \<Rightarrow> None | Tripped k \<Rightarrow> Some (backoff (cb_config m) (int k + 2)))"
proof (cases "cb_get i m")
  case None
  with simulates_get(1)[OF s None] s en show ?thesis by (simp add: process_probe_failure_def fun_upd_idem)
next
  case (Some b)
  note k = simulates_get(2)[OF s Some]
  show ?thesis
  proof (cases "c i")
    case (Counting n)
    with Some k en s show ?thesis by (simp add: process_probe_failure_def fun_upd_idem)
  next
    case (Tripped n)
    let ?b = "b\<lparr>trip_count := trip_count b + 1, current_timeout := backoff (cb_config m) (int n + 2)\<rparr>"
    have "simulates (cb_put i ?b m) (c(i := Tripped (Suc n)))"
      by (rule simulates_put[OF s]) (use k Tripped in \<open>simp add: algebra_simps\<close>)
    with Some k en Tripped show ?thesis
      by (simp add: process_probe_failure_def Let_def algebra_simps)
  qed
qed

lemma recover_simulates:
  assumes s: "simulates m c" and en: "cb_enable (cb_config m)"
  shows "simulates (fst (auto_recover i m)) (c(i := circuit_step (cb_config m) i (c i) (Cb_recover i))) \<and>
    cb_config (fst (auto_recover i m)) = cb_config m \<and> (snd (auto_recover i m) \<longleftrightarrow> (\<exists>k. c i = Tripped k))"
proof (cases "cb_get i m")
  case None
  with simulates_get(1)[OF s None] s en show ?thesis by (simp add: auto_recover_def fun_upd_idem)
next
  case (Some b)
  note k = simulates_get(2)[OF s Some]
  show ?thesis
  proof (cases "c i")
    case (Counting n)
    with Some k en s show ?thesis by (simp add: auto_recover_def fun_upd_idem)
  next
    case (Tripped n)
    have "simulates (cb_put i (b\<lparr>cb_state := CB_CLOSED, failure_count := 0, trip_count := 0, current_timeout := 0\<rparr>) m)
        (c(i := Counting 0))"
      by (rule simulates_put[OF s]) simp
    with Some k en Tripped show ?thesis by (simp add: auto_recover_def)
  qed
qed

lemma circuit_step_other:
  "op \<in> {Cb_failure i, Cb_success i, Cb_probe_failure i, Cb_recover i, Cb_clear i} \<Longrightarrow>
   (\<lambda>j. circuit_step cfg j (c j) op) = c(i := circuit_step cfg i (c i) op)"
  by (rule ext) (auto, (case_tac "c j"; simp)+)

lemma simulates_step:
  assumes "simulates m c" and "cb_enable (cb_config m)"
  shows "simulates (cb_step m op) (\<lambda>i. circuit_step (cb_config m) i (c i) op) \<and> cb_config (cb_step m op) = cb_config m"
proof (cases op)
  case (Cb_failure i)
  with failure_simulates[OF assms, of i] circuit_step_other[of op i "cb_config m" c] show ?thesis by simp
next
  case (Cb_success i)
  with success_simulates[OF assms, of i] circuit_step_other[of op i "cb_config m" c] show ?thesis by (cases "c i") simp_all
next
  case (Cb_probe_failure i)
  with probe_simulates[OF assms, of i] circuit_step_other[of op i "cb_config m" c] show ?thesis by simp
next
  case (Cb_recover i)
  with recover_simulates[OF assms, of i] circuit_step_other[of op i "cb_config m" c] show ?thesis by simp
next
  case (Cb_clear i)
  have "c(i := circuit_step (cb_config m) i (c i) (Cb_clear i)) = c(i := Counting 0)" by (cases "c i") simp_all
  moreover have "simulates (clear_instance i m) (c(i := Counting 0))"
  proof (cases "in_dict i (cb_pool m)")
    case False
    then have "c i = Counting 0" using simulates_get(1)[OF assms(1), of i] by (simp add: cb_get_def)
    then show ?thesis using False assms(1) by (simp add: clear_instance_def fun_upd_idem)
  qed (use simulates_pop[OF assms(1)] in \<open>simp add: clear_instance_def\<close>)
  ultimately show ?thesis
    using Cb_clear circuit_step_other[of op i "cb_config m" c] by (simp add: clear_instance_def)
next
  case Cb_clear_all
  have "circuit_step (cb_config m) i (c i) Cb_clear_all = Counting 0" for i by (cases "c i") simp_all
  with Cb_clear_all show ?thesis by (simp add: clear_all_def simulates_def cb_get_def)
qed

lemma simulates_run:
  "simulates m c \<Longrightarrow> cb_enable (cb_config m) \<Longrightarrow>
   simulates (foldl cb_step m ops) (\<lambda>i. foldl (circuit_step (cb_config m) i) (c i) ops) \<and>
   cb_config (foldl cb_step m ops) = cb_config m"
proof (induction ops arbitrary: m c)
  case (Cons op ops)
  note s = simulates_step[OF Cons.prems, of op]
  from Cons.IH[OF conjunct1[OF s]] s Cons.prems show ?case by simp
qed simp

lemma simulates_init: "simulates (CircuitBreakerManager_init cfg) (\<lambda>i. Counting 0)"
  by (simp add: simulates_def CircuitBreakerManager_init_def cb_get_def)

lemma is_open_circuit: "simulates m c \<Longrightarrow> is_open i m \<longleftrightarrow> (\<exists>k. c i = Tripped k)"
  using simulates_get[of m c i] by (cases "cb_get i m"; cases "c i") (auto simp: is_open_def)

lemma count_failures:
  "list_all (leaves_counting i) ops \<Longrightarrow> int n < failure_threshold cfg \<Longrightarrow>
   (\<exists>k. foldl (circuit_step cfg i) (Counting n) ops = Tripped k) \<longleftrightarrow>
     failure_threshold cfg \<le> int n + int (count_list ops (Cb_failure i))"
proof (induction ops arbitrary: n)
  case (Cons op ops)
  have stuck: "list_all (leaves_counting i) ops \<Longrightarrow> \<exists>j. foldl (circuit_step cfg i) (Tripped k) ops = Tripped j" for k ops
  proof (induction ops arbitrary: k)
    case (Cons op ops)
    then show ?case by (cases op) (auto split: if_splits)
  qed simp
  have l: "list_all (leaves_counting i) ops" using Cons.prems by simp
  show ?case
  proof (cases "op = Cb_failure i \<and> failure_threshold cfg \<le> int (Suc n)")
    case True
    with stuck[OF l] show ?thesis by auto
  next
    case False
    have "circuit_step cfg i (Counting n) op = Counting (if op = Cb_failure i then Suc n else n)"
      using False Cons.prems by (cases op) auto
    moreover have "int (if op = Cb_failure i then Suc n else n) < failure_threshold cfg"
      using False Cons.prems by auto
    ultimately show ?thesis using Cons.IH[OF l] by auto
  qed
qed auto

section \<open>Properties\<close>

text \<open>
  C6: the pool of breakers refines one independent circuit per instance. After any sequence of
  operations on a new, enabled manager, an instance is open exactly when its own circuit is
  tripped; then the armed timeout is the base timeout doubled for every failed probe, capped.
\<close>

theorem breaker_refines_circuit:
  assumes "cb_enable cfg" and "m = foldl cb_step (CircuitBreakerManager_init cfg) ops"
  shows "case foldl (circuit_step cfg i) (Counting 0) ops of
      Counting n \<Rightarrow> is_closed i m \<and> \<not> is_open i m
    | Tripped k \<Rightarrow> is_open i m \<and> \<not> is_closed i m \<and>
        (\<exists>s. cb_get i m = Some s \<and> current_timeout s = min (base_timeout_s cfg * 2 ^ k) (max_timeout_s cfg))"
proof -
  have c: "cb_config (CircuitBreakerManager_init cfg) = cfg" by (simp add: CircuitBreakerManager_init_def)
  let ?c = "foldl (circuit_step cfg i) (Counting 0) ops"
  have s: "simulates m (\<lambda>i. foldl (circuit_step cfg i) (Counting 0) ops)" "cb_config m = cfg"
    using simulates_run[OF simulates_init, of cfg ops] assms c by simp_all
  note g = simulates_get[OF s(1), of i, unfolded s(2)]
  show ?thesis
  proof (cases ?c)
    case (Counting n)
    with g show ?thesis by (cases "cb_get i m") (auto simp: is_open_def is_closed_def)
  next
    case (Tripped k)
    with g show ?thesis by (cases "cb_get i m") (auto simp: is_open_def is_closed_def backoff_def)
  qed
qed

theorem breaker_refines_circuit_witness:
  "is_open 4 (foldl cb_step (CircuitBreakerManager_init demo_circuit_config)
     [Cb_failure 4, Cb_failure 5, Cb_failure 4, Cb_failure 4, Cb_probe_failure 4])"
  using breaker_refines_circuit[OF _ refl, of demo_circuit_config 4
      "[Cb_failure 4, Cb_failure 5, Cb_failure 4, Cb_failure 4, Cb_probe_failure 4]"]
  by (simp add: demo_circuit_config_def)

text \<open>
  The circuit trips exactly at the threshold of consecutive failures. After a success of an
  instance, whatever happened before and whatever is reported of other instances meanwhile, the
  instance is open exactly when the failures reported since have reached the threshold.
\<close>

theorem trips_at_threshold:
  assumes "cb_enable cfg" and "1 \<le> failure_threshold cfg" and "list_all (leaves_counting i) after"
  shows "is_open i (foldl cb_step (CircuitBreakerManager_init cfg) (before @ [Cb_success i] @ after)) \<longleftrightarrow>
    failure_threshold cfg \<le> int (count_list after (Cb_failure i))"
proof -
  let ?ops = "before @ [Cb_success i] @ after"
  have c: "cb_config (CircuitBreakerManager_init cfg) = cfg" by (simp add: CircuitBreakerManager_init_def)
  have "simulates (foldl cb_step (CircuitBreakerManager_init cfg) ?ops) (\<lambda>i. foldl (circuit_step cfg i) (Counting 0) ?ops)"
    using simulates_run[OF simulates_init, of cfg ?ops] assms(1) c by simp
  note o = is_open_circuit[OF this, of i]
  let ?c = "foldl (circuit_step cfg i) (Counting 0) before"
  have "circuit_step cfg i ?c (Cb_success i) = Counting 0" by (cases ?c) simp_all
  then show ?thesis
    unfolding o using count_failures[OF assms(3), of 0 cfg] assms(2) by simp
qed

theorem trips_at_threshold_witness:
  "\<not> is_open 4 (foldl cb_step (CircuitBreakerManager_init demo_circuit_config)
     ([Cb_failure 4, Cb_failure 4] @ [Cb_success 4] @ [Cb_failure 4, Cb_failure 5, Cb_failure 4]))"
proof -
  have "list_all (leaves_counting 4) [Cb_failure 4, Cb_failure 5, Cb_failure 4]" by simp
  from trips_at_threshold[OF _ _ this, of demo_circuit_config "[Cb_failure 4, Cb_failure 4]"] show ?thesis
    by (simp add: demo_circuit_config_def)
qed

text \<open>
  Every trip arms the base timeout. Recovery and success forget earlier trips, so on a closed
  circuit the timeout returned by a trip is the base timeout (capped), however often the instance
  has tripped before; only failed probes double it.
\<close>

theorem trip_timeout_is_base:
  assumes "cb_enable cfg"
    and "process_failure i (foldl cb_step (CircuitBreakerManager_init cfg) ops) = (m', True, timeout)"
  shows "timeout = min (base_timeout_s cfg) (max_timeout_s cfg)"
proof -
  have c: "cb_config (CircuitBreakerManager_init cfg) = cfg" by (simp add: CircuitBreakerManager_init_def)
  let ?m = "foldl cb_step (CircuitBreakerManager_init cfg) ops"
  have s: "simulates ?m (\<lambda>i. foldl (circuit_step cfg i) (Counting 0) ops)" "cb_config ?m = cfg"
    using simulates_run[OF simulates_init, of cfg ops] assms(1) c by simp_all
  from failure_simulates[OF s(1), of i] s(2) assms show ?thesis
    by (simp add: backoff_def split: circuit.splits if_splits)
qed

theorem trip_timeout_is_base_witness:
  "snd (snd (process_failure 4 (foldl cb_step (CircuitBreakerManager_init demo_circuit_config)
     [Cb_failure 4, Cb_failure 4, Cb_failure 4, Cb_recover 4, Cb_failure 4, Cb_failure 4]))) = 30"
proof -
  let ?m = "foldl cb_step (CircuitBreakerManager_init demo_circuit_config)
     [Cb_failure 4, Cb_failure 4, Cb_failure 4, Cb_recover 4, Cb_failure 4, Cb_failure 4]"
  obtain m' b t where p: "process_failure 4 ?m = (m', b, t)" using prod_cases3 by blast
  have "fst (snd (process_failure 4 ?m))" by code_simp
  with p have "process_failure 4 ?m = (m', True, t)" by simp
  from trip_timeout_is_base[OF _ this] p show ?thesis by (simp add: demo_circuit_config_def)
qed

end
