(* ===== verification/Rate_Limiter.thy ===== *)
theory Rate_Limiter
  imports Prelude
begin

text \<open>
  The coordinator's rate limiter: \<^verbatim>\<open>motor/coordinator/middleware/rate_limiter.py\<close>.

  One global token bucket with a reserve for high-priority requests, and the congestion alarm
  with its hysteresis. Every reading of the wall clock or the monotonic clock is an argument, and
  so is the controller's answer to an alarm report.
\<close>

section \<open>Token bucket\<close>

record TokenBucket =
  capacity :: int
  refill_rate :: pyfloat
  tokens :: pyfloat
  last_refill :: pyfloat

definition TokenBucket_init :: "pyfloat \<Rightarrow> int \<Rightarrow> pyfloat \<Rightarrow> TokenBucket" where
  "TokenBucket_init now cap rate =
     \<lparr>capacity = cap, refill_rate = rate, tokens = of_int cap, last_refill = now\<rparr>"

definition refilled :: "pyfloat \<Rightarrow> TokenBucket \<Rightarrow> pyfloat" where
  "refilled now b = min (of_int (capacity b)) (tokens b + (now - last_refill b) * refill_rate b)"

definition try_consume :: "pyfloat \<Rightarrow> int \<Rightarrow> int \<Rightarrow> TokenBucket \<Rightarrow> TokenBucket \<times> bool" where
  "try_consume now n flr b =
     (let b1 = b\<lparr>tokens := refilled now b, last_refill := now\<rparr>
      in if tokens b1 - of_int n \<ge> of_int flr then (b1\<lparr>tokens := tokens b1 - of_int n\<rparr>, True)
         else (b1, False))"

definition get_available_tokens :: "pyfloat \<Rightarrow> TokenBucket \<Rightarrow> int" where
  "get_available_tokens now b = py_int (refilled now b)"

definition update_params :: "pyfloat \<Rightarrow> int \<Rightarrow> pyfloat \<Rightarrow> TokenBucket \<Rightarrow> TokenBucket" where
  "update_params now cap rate b =
     (if cap < 0 \<or> rate < 0 then b
      else (let elapsed = now - last_refill b;
                settled = (if elapsed > 0 then min (of_int (capacity b)) (tokens b + elapsed * refill_rate b) else tokens b);
                final = (if settled > of_int cap then of_int cap
                         else if cap > capacity b then min (of_int cap) (settled + of_int (cap - capacity b))
                         else settled)
            in \<lparr>capacity = cap, refill_rate = rate, tokens = final, last_refill = now\<rparr>))"

section \<open>Rate limiter\<close>

record SimpleRateLimiter =
  max_requests :: int
  window_size :: int
  priority_admission_level :: int
  priority_reserve_ratio :: pyfloat
  reserve :: int
  bucket :: TokenBucket
  congestion_alarm_sent :: bool
  congestion_alarm_retry_at :: pyfloat

definition compute_reserve :: "int \<Rightarrow> pyfloat \<Rightarrow> int" where
  "compute_reserve n ratio = (if n \<le> 0 then 0 else min (py_int (of_int n * ratio)) (n - 1))"

definition SimpleRateLimiter_init :: "pyfloat \<Rightarrow> int \<Rightarrow> int \<Rightarrow> pyfloat \<Rightarrow> int \<Rightarrow> py_error + SimpleRateLimiter" where
  "SimpleRateLimiter_init now n window ratio level =
     (if window = 0 then Inl ZeroDivisionError
      else Inr \<lparr>max_requests = n, window_size = window, priority_admission_level = level,
             priority_reserve_ratio = ratio, reserve = compute_reserve n ratio,
             bucket = TokenBucket_init now n (of_int n / of_int window),
             congestion_alarm_sent = False, congestion_alarm_retry_at = 0\<rparr>)"

text \<open>
  \<open>isinstance(priority, int)\<close> holds for a bool, which compares as 0 or 1.
\<close>

definition extract_priority :: "(string, json) dict option \<Rightarrow> int option" where
  "extract_priority req =
     (case req of
        None \<Rightarrow> None
      | Some d \<Rightarrow>
          (case dict_get d ''priority'' of
             Some (JInt n) \<Rightarrow> Some n
           | Some (JBool b) \<Rightarrow> Some (if b then 1 else 0)
           | _ \<Rightarrow> None))"

definition is_strict :: "(string, json) dict option \<Rightarrow> bool" where
  "is_strict req =
     (case req of
        None \<Rightarrow> False
      | Some d \<Rightarrow> (case dict_get d ''strict_priority'' of None \<Rightarrow> False | Some JNull \<Rightarrow> False | Some v \<Rightarrow> True))"

definition congestion_threshold :: "pyfloat \<Rightarrow> SimpleRateLimiter \<Rightarrow> int" where
  "congestion_threshold ratio l = py_int (of_int (max_requests l) * ratio)"

text \<open>
  The alarm: the two readings of the monotonic clock, and whether the controller accepts the report
  (a refusal and an exception of the client are the same).
\<close>

record alarm_env =
  mono_check :: pyfloat
  mono_retry :: pyfloat
  report_accepted :: bool

definition sync_congestion_alarm :: "alarm_env \<Rightarrow> int \<Rightarrow> SimpleRateLimiter \<Rightarrow> SimpleRateLimiter" where
  "sync_congestion_alarm env used l =
     (let trigger = congestion_threshold (85 / 100) l; clear = congestion_threshold (75 / 100) l;
          crossing = (if \<not> congestion_alarm_sent l \<and> used \<ge> trigger then Some True
                      else if congestion_alarm_sent l \<and> used < clear then Some False
                      else None)
      in case crossing of
           None \<Rightarrow> l
         | Some active \<Rightarrow>
             if mono_check env < congestion_alarm_retry_at l then l
             else if \<not> report_accepted env then l\<lparr>congestion_alarm_retry_at := mono_retry env + 1\<rparr>
             else l\<lparr>congestion_alarm_sent := active, congestion_alarm_retry_at := 0\<rparr>)"

record limit_info =
  li_allowed :: bool
  li_available :: int
  li_limit :: int
  li_window_size :: int
  li_priority :: "int option"
  li_reserve :: int
  li_strict :: bool

definition is_high_priority :: "SimpleRateLimiter \<Rightarrow> (string, json) dict option \<Rightarrow> bool" where
  "is_high_priority l req =
     (case extract_priority req of None \<Rightarrow> False | Some p \<Rightarrow> p \<ge> priority_admission_level l)"

text \<open>
  The clock is read once to consume and once to report the tokens left.
\<close>

definition is_allowed ::
  "pyfloat \<Rightarrow> pyfloat \<Rightarrow> alarm_env \<Rightarrow> (string, json) dict option \<Rightarrow> SimpleRateLimiter
   \<Rightarrow> SimpleRateLimiter \<times> bool \<times> limit_info" where
  "is_allowed now now2 env req l =
     (let info = (\<lambda>ok available strict.
            \<lparr>li_allowed = ok, li_available = available, li_limit = max_requests l, li_window_size = window_size l,
             li_priority = extract_priority req, li_reserve = reserve l, li_strict = strict\<rparr>)
      in if is_strict req then (l, True, info True (get_available_tokens now2 (bucket l)) True)
         else (let flr = (if is_high_priority l req then 0 else reserve l);
                   (b, allowed) = try_consume now 1 flr (bucket l);
                   available = get_available_tokens now2 b;
                   used = max_requests l - available
               in (sync_congestion_alarm env used (l\<lparr>bucket := b\<rparr>), allowed, info allowed available False)))"

definition rl_update_config ::
  "pyfloat \<Rightarrow> int option \<Rightarrow> int option \<Rightarrow> pyfloat option \<Rightarrow> SimpleRateLimiter \<Rightarrow> SimpleRateLimiter" where
  "rl_update_config now n window ratio l =
     (if n = None \<and> window = None \<and> ratio = None then l
      else if (case n of Some x \<Rightarrow> x < 0 | None \<Rightarrow> False) then l
      else if (case window of Some x \<Rightarrow> x \<le> 0 | None \<Rightarrow> False) then l
      else if (case ratio of Some r \<Rightarrow> \<not> (0 \<le> r \<and> r \<le> 9 / 10) | None \<Rightarrow> False) then l
      else (let n' = (case n of Some x \<Rightarrow> x | None \<Rightarrow> max_requests l);
                w' = (case window of Some x \<Rightarrow> x | None \<Rightarrow> window_size l);
                r' = (case ratio of Some r \<Rightarrow> r | None \<Rightarrow> priority_reserve_ratio l)
            in l\<lparr>max_requests := n', window_size := w', priority_reserve_ratio := r',
                 reserve := compute_reserve n' r',
                 bucket := update_params now n' (of_int n' / of_int w') (bucket l)\<rparr>))"

section \<open>The limiter as a component\<close>

datatype rl_op =
    Rl_request pyfloat pyfloat alarm_env "(string, json) dict option"
  | Rl_update pyfloat "int option" "int option" "pyfloat option"

fun rl_step :: "SimpleRateLimiter \<Rightarrow> rl_op \<Rightarrow> SimpleRateLimiter" where
  "rl_step l (Rl_request now now2 env req) = fst (is_allowed now now2 env req l)"
| "rl_step l (Rl_update now n w r) = rl_update_config now n w r l"

fun rl_time :: "rl_op \<Rightarrow> pyfloat" where
  "rl_time (Rl_request now now2 env req) = now"
| "rl_time (Rl_update now n w r) = now"

text \<open>
  A limiter in working order at a time not before its last refill; the clock does not go back.
\<close>

definition bucket_ok :: "TokenBucket \<Rightarrow> bool" where
  "bucket_ok b \<longleftrightarrow> 0 \<le> tokens b \<and> tokens b \<le> of_int (capacity b) \<and> 0 \<le> refill_rate b"

definition limiter_ok :: "SimpleRateLimiter \<Rightarrow> bool" where
  "limiter_ok l \<longleftrightarrow> bucket_ok (bucket l) \<and> capacity (bucket l) = max_requests l \<and> 0 < window_size l \<and>
     0 \<le> reserve l \<and> 0 \<le> priority_reserve_ratio l \<and> (0 < max_requests l \<longrightarrow> reserve l < max_requests l)"

fun monotone_from :: "pyfloat \<Rightarrow> rl_op list \<Rightarrow> bool" where
  "monotone_from t [] = True"
| "monotone_from t (op # ops) = (t \<le> rl_time op \<and> monotone_from (rl_time op) ops)"

text \<open>
  The requests of a run that took a token: admitted and not strict.
\<close>

fun admitted :: "SimpleRateLimiter \<Rightarrow> rl_op list \<Rightarrow> nat" where
  "admitted l [] = 0"
| "admitted l (Rl_request now now2 env req # ops) =
     (if fst (snd (is_allowed now now2 env req l)) \<and> \<not> is_strict req then 1 else 0) +
     admitted (fst (is_allowed now now2 env req l)) ops"
| "admitted l (Rl_update now n w r # ops) = admitted (rl_update_config now n w r l) ops"

fun is_request :: "rl_op \<Rightarrow> bool" where
  "is_request (Rl_request now now2 env req) = True"
| "is_request (Rl_update now n w r) = False"

text \<open>
  A normal request, which stops at the reserve, and a high-priority one, which may use it.
\<close>

fun is_normal :: "SimpleRateLimiter \<Rightarrow> rl_op \<Rightarrow> bool" where
  "is_normal l (Rl_request now now2 env req) = (\<not> is_high_priority l req)"
| "is_normal l (Rl_update now n w r) = False"

fun is_urgent :: "SimpleRateLimiter \<Rightarrow> rl_op \<Rightarrow> bool" where
  "is_urgent l (Rl_request now now2 env req) = (is_high_priority l req \<and> \<not> is_strict req)"
| "is_urgent l (Rl_update now n w r) = False"

definition end_time :: "pyfloat \<Rightarrow> rl_op list \<Rightarrow> pyfloat" where
  "end_time t ops = (if ops = [] then t else rl_time (last ops))"

definition demo_limiter :: SimpleRateLimiter where
  "demo_limiter = \<lparr>max_requests = 10, window_size = 5, priority_admission_level = 3, priority_reserve_ratio = 2 / 10,
     reserve = 2, bucket = \<lparr>capacity = 10, refill_rate = 2, tokens = 10, last_refill = 0\<rparr>,
     congestion_alarm_sent = False, congestion_alarm_retry_at = 0\<rparr>"

definition demo_alarm :: alarm_env where
  "demo_alarm = \<lparr>mono_check = 1, mono_retry = 1, report_accepted = True\<rparr>"


section \<open>The bucket\<close>

lemma refilled_bounds:
  assumes "bucket_ok b" and "last_refill b \<le> now"
  shows "tokens b \<le> refilled now b" "refilled now b \<le> of_int (capacity b)"
    "refilled now b \<le> tokens b + (now - last_refill b) * refill_rate b" "0 \<le> refilled now b"
proof -
  have "0 \<le> (now - last_refill b) * refill_rate b" using assms by (simp add: bucket_ok_def)
  then show "tokens b \<le> refilled now b" using assms(1) by (auto simp: refilled_def bucket_ok_def)
  then show "0 \<le> refilled now b" using assms(1) by (simp add: bucket_ok_def)
qed (simp_all add: refilled_def)

lemma try_consume_ok:
  assumes "bucket_ok b" and "last_refill b \<le> now" and "0 \<le> flr" and "0 \<le> n"
  shows "bucket_ok (fst (try_consume now n flr b))"
  using assms refilled_bounds[OF assms(1,2)] by (auto simp: try_consume_def Let_def bucket_ok_def)

lemma update_params_ok:
  assumes "bucket_ok b" and "0 \<le> cap" and "0 \<le> rate"
  shows "bucket_ok (update_params now cap rate b)" "capacity (update_params now cap rate b) = cap"
    "refill_rate (update_params now cap rate b) = rate" "last_refill (update_params now cap rate b) = now"
proof -
  define settled where "settled = (if now - last_refill b > 0
      then min (of_int (capacity b)) (tokens b + (now - last_refill b) * refill_rate b) else tokens b)"
  have "0 \<le> settled" "settled \<le> of_int (capacity b)"
    using assms(1) by (auto simp: settled_def bucket_ok_def)
  moreover have u: "update_params now cap rate b = \<lparr>capacity = cap, refill_rate = rate,
      tokens = (if settled > of_int cap then of_int cap
         else if cap > capacity b then min (of_int cap) (settled + of_int (cap - capacity b)) else settled),
      last_refill = now\<rparr>"
    using assms(2,3) by (simp add: update_params_def Let_def settled_def)
  ultimately show "bucket_ok (update_params now cap rate b)"
    using assms(2,3) by (auto simp: bucket_ok_def)
  show "capacity (update_params now cap rate b) = cap"
    "refill_rate (update_params now cap rate b) = rate" "last_refill (update_params now cap rate b) = now"
    by (simp_all add: u)
qed

section \<open>Requests\<close>

lemma sync_frame [simp]:
  "bucket (sync_congestion_alarm env used l) = bucket l" "max_requests (sync_congestion_alarm env used l) = max_requests l"
  "window_size (sync_congestion_alarm env used l) = window_size l" "reserve (sync_congestion_alarm env used l) = reserve l"
  "priority_reserve_ratio (sync_congestion_alarm env used l) = priority_reserve_ratio l"
  "priority_admission_level (sync_congestion_alarm env used l) = priority_admission_level l"
  by (simp_all add: sync_congestion_alarm_def Let_def split: option.split)

lemma is_allowed_frame:
  "max_requests (fst (is_allowed now now2 env req l)) = max_requests l"
  "window_size (fst (is_allowed now now2 env req l)) = window_size l"
  "reserve (fst (is_allowed now now2 env req l)) = reserve l"
  "priority_reserve_ratio (fst (is_allowed now now2 env req l)) = priority_reserve_ratio l"
  "priority_admission_level (fst (is_allowed now now2 env req l)) = priority_admission_level l"
  "capacity (bucket (fst (is_allowed now now2 env req l))) = capacity (bucket l)"
  "refill_rate (bucket (fst (is_allowed now now2 env req l))) = refill_rate (bucket l)"
  by (simp_all add: is_allowed_def try_consume_def Let_def case_prod_unfold)

lemma is_allowed_bucket:
  "bucket (fst (is_allowed now now2 env req l)) =
     (if is_strict req then bucket l
      else fst (try_consume now 1 (if is_high_priority l req then 0 else reserve l) (bucket l)))"
  "fst (snd (is_allowed now now2 env req l)) \<longleftrightarrow>
     is_strict req \<or> snd (try_consume now 1 (if is_high_priority l req then 0 else reserve l) (bucket l))"
  by (simp_all add: is_allowed_def Let_def case_prod_unfold)

lemma compute_reserve_bounds:
  assumes "0 \<le> n" and "0 \<le> ratio"
  shows "0 \<le> compute_reserve n ratio" "0 < n \<Longrightarrow> compute_reserve n ratio < n"
  using assms by (auto simp: compute_reserve_def py_int_def)

lemma limiter_step_ok:
  assumes ok: "limiter_ok l" and t: "last_refill (bucket l) \<le> rl_time op"
  shows "limiter_ok (rl_step l op)"
proof (cases op)
  case (Rl_request now now2 env req)
  have "bucket_ok (bucket (fst (is_allowed now now2 env req l)))"
    using ok t Rl_request by (simp add: is_allowed_bucket limiter_ok_def try_consume_ok)
  with ok Rl_request show ?thesis by (simp add: limiter_ok_def is_allowed_frame)
next
  case (Rl_update now n w r)
  show ?thesis
  proof (cases "rl_update_config now n w r l = l")
    case False
    let ?n = "case n of Some x \<Rightarrow> x | None \<Rightarrow> max_requests l"
    let ?w = "case w of Some x \<Rightarrow> x | None \<Rightarrow> window_size l"
    let ?r = "case r of Some x \<Rightarrow> x | None \<Rightarrow> priority_reserve_ratio l"
    have u: "rl_update_config now n w r l = l\<lparr>max_requests := ?n, window_size := ?w, priority_reserve_ratio := ?r,
        reserve := compute_reserve ?n ?r, bucket := update_params now ?n (of_int ?n / of_int ?w) (bucket l)\<rparr>"
      and v: "\<not> (case n of Some x \<Rightarrow> x < 0 | None \<Rightarrow> False)" "\<not> (case w of Some x \<Rightarrow> x \<le> 0 | None \<Rightarrow> False)"
        "\<not> (case r of Some r \<Rightarrow> \<not> (0 \<le> r \<and> r \<le> 9 / 10) | None \<Rightarrow> False)"
      using False by (auto simp: rl_update_config_def Let_def split: if_splits)
    have "(0 :: rat) \<le> of_int (capacity (bucket l))" using ok by (simp add: limiter_ok_def bucket_ok_def)
    then have "0 \<le> max_requests l" using ok by (simp add: limiter_ok_def)
    then have "0 \<le> ?n" "0 < ?w" "0 \<le> ?r" using v ok by (simp_all add: limiter_ok_def split: option.splits)
    moreover from this have "0 \<le> (of_int ?n / of_int ?w :: rat)" by simp
    ultimately show ?thesis
      using ok update_params_ok[of "bucket l" ?n "of_int ?n / of_int ?w" now] compute_reserve_bounds[of ?n ?r] Rl_update u
      by (simp add: limiter_ok_def)
  qed (use ok Rl_update in simp)
qed

lemma step_refill_time:
  "last_refill (bucket l) \<le> rl_time op \<Longrightarrow> last_refill (bucket (rl_step l op)) \<le> rl_time op"
  by (cases op) (auto simp: is_allowed_bucket try_consume_def Let_def rl_update_config_def update_params_def)

lemma run_ok:
  "limiter_ok l \<Longrightarrow> last_refill (bucket l) \<le> t \<Longrightarrow> monotone_from t ops \<Longrightarrow>
   limiter_ok (foldl rl_step l ops) \<and> last_refill (bucket (foldl rl_step l ops)) \<le> end_time t ops"
proof (induction ops arbitrary: l t)
  case (Cons op ops)
  then have le: "last_refill (bucket l) \<le> rl_time op" by simp
  have "limiter_ok (rl_step l op)" using Cons.prems(1) le by (rule limiter_step_ok)
  from Cons.IH[OF this step_refill_time[OF le]] Cons.prems show ?case by (auto simp: end_time_def)
qed (simp add: end_time_def)


section \<open>Counting admissions\<close>

lemma priority_cong:
  assumes "priority_admission_level l' = priority_admission_level l"
  shows "is_normal l' = is_normal l" "is_urgent l' = is_urgent l"
proof -
  have h: "is_high_priority l' req = is_high_priority l req" for req
    by (simp add: is_high_priority_def assms split: option.split)
  show "is_normal l' = is_normal l"
  proof
    show "is_normal l' op = is_normal l op" for op by (cases op) (simp_all add: h)
  qed
  show "is_urgent l' = is_urgent l"
  proof
    show "is_urgent l' op = is_urgent l op" for op by (cases op) (simp_all add: h)
  qed
qed

text \<open>
  One request: the token it took, if any, was in the bucket or had dripped in since.
\<close>

lemma request_budget:
  assumes ok: "limiter_ok l" and t: "last_refill (bucket l) \<le> now"
    and l'_def: "l' = fst (is_allowed now now2 env req l)"
  shows "(if fst (snd (is_allowed now now2 env req l)) \<and> \<not> is_strict req then 1 else 0) + tokens (bucket l') +
      (T - last_refill (bucket l')) * refill_rate (bucket l') \<le>
    tokens (bucket l) + (T - last_refill (bucket l)) * refill_rate (bucket l)"
proof (cases "is_strict req")
  case True
  then show ?thesis by (simp add: l'_def is_allowed_bucket)
next
  case False
  let ?b = "bucket l"
  have "refilled now ?b \<le> tokens ?b + (now - last_refill ?b) * refill_rate ?b"
    using refilled_bounds(3)[OF _ t] ok by (simp add: limiter_ok_def)
  then show ?thesis using False
    by (auto simp: l'_def is_allowed_bucket try_consume_def Let_def algebra_simps)
qed

lemma admitted_budget:
  "limiter_ok l \<Longrightarrow> last_refill (bucket l) \<le> t \<Longrightarrow> monotone_from t ops \<Longrightarrow> list_all is_request ops \<Longrightarrow>
   of_nat (admitted l ops) + tokens (bucket (foldl rl_step l ops)) +
     (T - last_refill (bucket (foldl rl_step l ops))) * refill_rate (bucket (foldl rl_step l ops)) \<le>
   tokens (bucket l) + (T - last_refill (bucket l)) * refill_rate (bucket l)"
proof (induction ops arbitrary: l t)
  case (Cons op ops)
  then obtain now now2 env req where op: "op = Rl_request now now2 env req" by (cases op) auto
  from Cons.prems op have le: "last_refill (bucket l) \<le> now" by simp
  let ?l = "rl_step l op"
  have "limiter_ok ?l" "last_refill (bucket ?l) \<le> now"
    using limiter_step_ok[OF Cons.prems(1), of op] step_refill_time[of l op] le op by simp_all
  from Cons.IH[OF this] Cons.prems op request_budget[OF Cons.prems(1) le refl, of now2 env req T] show ?case by auto
qed simp

lemma tokens_after_normal:
  "limiter_ok l \<Longrightarrow> last_refill (bucket l) \<le> t \<Longrightarrow> monotone_from t ops \<Longrightarrow> list_all (is_normal l) ops \<Longrightarrow>
   of_int (reserve l) \<le> tokens (bucket l) \<Longrightarrow>
   of_int (reserve l) \<le> tokens (bucket (foldl rl_step l ops)) \<and> reserve (foldl rl_step l ops) = reserve l \<and>
   priority_admission_level (foldl rl_step l ops) = priority_admission_level l"
proof (induction ops arbitrary: l t)
  case (Cons op ops)
  then obtain now now2 env req where op: "op = Rl_request now now2 env req" by (cases op) auto
  from Cons.prems op have le: "last_refill (bucket l) \<le> now" and nh: "\<not> is_high_priority l req" by simp_all
  let ?l = "rl_step l op"
  have fr: "reserve ?l = reserve l" "priority_admission_level ?l = priority_admission_level l"
    by (simp_all add: op is_allowed_frame)
  have "bucket_ok (bucket l)" using Cons.prems by (simp add: limiter_ok_def)
  note b = refilled_bounds[OF this le]
  have "of_int (reserve l) \<le> tokens (bucket ?l)"
    using Cons.prems(5) b nh by (simp add: op is_allowed_bucket try_consume_def Let_def)
  moreover have "list_all (is_normal ?l) ops"
    using Cons.prems(4) fr(2) by (simp add: priority_cong[of ?l l])
  moreover have "limiter_ok ?l" "last_refill (bucket ?l) \<le> now"
    using limiter_step_ok[OF Cons.prems(1), of op] step_refill_time[of l op] le op by simp_all
  ultimately show ?case using Cons.IH[of ?l now] Cons.prems(3) fr op by simp
qed simp

lemma urgent_all_admitted:
  "limiter_ok l \<Longrightarrow> last_refill (bucket l) \<le> t \<Longrightarrow> monotone_from t ops \<Longrightarrow> list_all (is_urgent l) ops \<Longrightarrow>
   of_nat (length ops) \<le> tokens (bucket l) \<Longrightarrow> admitted l ops = length ops"
proof (induction ops arbitrary: l t)
  case (Cons op ops)
  then obtain now now2 env req where op: "op = Rl_request now now2 env req" by (cases op) auto
  from Cons.prems op have le: "last_refill (bucket l) \<le> now" and h: "is_high_priority l req" "\<not> is_strict req" by simp_all
  let ?l = "rl_step l op"
  have "bucket_ok (bucket l)" using Cons.prems by (simp add: limiter_ok_def)
  note b = refilled_bounds[OF this le]
  have a: "fst (snd (is_allowed now now2 env req l))" and tk: "of_nat (length ops) \<le> tokens (bucket ?l)"
    using Cons.prems(5) b h by (simp_all add: op is_allowed_bucket try_consume_def Let_def)
  moreover have "list_all (is_urgent ?l) ops"
    using Cons.prems(4) priority_cong(2)[of ?l l] by (simp add: op is_allowed_frame)
  moreover have "limiter_ok ?l" "last_refill (bucket ?l) \<le> now"
    using limiter_step_ok[OF Cons.prems(1), of op] step_refill_time[of l op] le op by simp_all
  ultimately show ?case using Cons.IH[of ?l now] Cons.prems(3) op h by simp
qed simp

section \<open>Properties\<close>

text \<open>
  C7: the rate is bounded. Over any run of requests with a clock that does not go back, the
  requests that took a token are at most the tokens in the bucket at the start plus the refill
  rate times the time passed; strict requests take none.
\<close>

theorem admissions_bounded:
  assumes "limiter_ok l" and "monotone_from (last_refill (bucket l)) ops" and "list_all is_request ops"
  shows "of_nat (admitted l ops) \<le>
    tokens (bucket l) + (end_time (last_refill (bucket l)) ops - last_refill (bucket l)) * refill_rate (bucket l)"
proof -
  let ?l = "foldl rl_step l ops" and ?T = "end_time (last_refill (bucket l)) ops"
  have r: "limiter_ok ?l" "last_refill (bucket ?l) \<le> ?T" using run_ok[OF assms(1) order_refl assms(2)] by simp_all
  then have "0 \<le> (?T - last_refill (bucket ?l)) * refill_rate (bucket ?l)" "0 \<le> tokens (bucket ?l)"
    by (simp_all add: limiter_ok_def bucket_ok_def)
  with admitted_budget[OF assms(1) order_refl assms(2,3), of ?T] show ?thesis by linarith
qed

theorem admissions_bounded_witness:
  "of_nat (admitted demo_limiter [Rl_request 1 1 demo_alarm None, Rl_request 2 2 demo_alarm None]) \<le> (14 :: rat)"
  using admissions_bounded[of demo_limiter "[Rl_request 1 1 demo_alarm None, Rl_request 2 2 demo_alarm None]"]
  by (simp add: demo_limiter_def limiter_ok_def bucket_ok_def end_time_def)

text \<open>
  The limiter stays in working order. Requests and configuration updates, valid or not, with a
  clock that does not go back keep the tokens between 0 and the capacity, the capacity equal to
  the configured maximum, and the reserve non-negative and below it.
\<close>

theorem limiter_stays_ok:
  assumes "SimpleRateLimiter_init now n window ratio level = Inr l" and "0 \<le> n" and "0 < window" and "0 \<le> ratio"
    and "monotone_from now ops" and "l' = foldl rl_step l ops"
  shows "0 \<le> tokens (bucket l') \<and> tokens (bucket l') \<le> of_int (max_requests l') \<and>
    capacity (bucket l') = max_requests l' \<and> 0 \<le> reserve l' \<and> (0 < max_requests l' \<longrightarrow> reserve l' < max_requests l')"
proof -
  have "limiter_ok l" "last_refill (bucket l) = now"
    using assms(1-4) compute_reserve_bounds[OF assms(2,4)]
    by (auto simp: SimpleRateLimiter_init_def limiter_ok_def bucket_ok_def TokenBucket_init_def split: if_splits)
  with run_ok[of l now ops] assms(5,6) show ?thesis by (simp add: limiter_ok_def bucket_ok_def)
qed

theorem limiter_stays_ok_witness:
  "\<exists>l. SimpleRateLimiter_init 0 10 5 (2 / 10) 3 = Inr l \<and>
     0 \<le> tokens (bucket (foldl rl_step l [Rl_request 1 1 demo_alarm None, Rl_update 2 (Some 4) None None, Rl_update 2 (Some (-1)) None None]))"
proof -
  obtain l where l: "SimpleRateLimiter_init 0 10 5 (2 / 10) 3 = Inr l" by (simp add: SimpleRateLimiter_init_def)
  from limiter_stays_ok[OF l _ _ _ _ refl, of "[Rl_request 1 1 demo_alarm None, Rl_update 2 (Some 4) None None, Rl_update 2 (Some (-1)) None None]"] l
  show ?thesis by simp
qed

text \<open>
  The reserve is kept for high-priority requests. After any run of normal requests that starts
  with the reserve in the bucket, as many high-priority requests as the reserve holds tokens are
  all admitted, at any times the clock may show.
\<close>

theorem reserve_serves_urgent:
  assumes "limiter_ok l" and "of_int (reserve l) \<le> tokens (bucket l)"
    and "monotone_from (last_refill (bucket l)) (normal @ urgent)" and "list_all (is_normal l) normal"
    and "list_all (is_urgent l) urgent" and "int (length urgent) \<le> reserve l"
  shows "admitted (foldl rl_step l normal) urgent = length urgent"
proof -
  let ?t = "last_refill (bucket l)" and ?l = "foldl rl_step l normal"
  have split: "monotone_from t (xs @ ys) \<longleftrightarrow> monotone_from t xs \<and> monotone_from (end_time t xs) ys" for t xs ys
    by (induction xs arbitrary: t) (auto simp: end_time_def)
  have m: "monotone_from ?t normal" "monotone_from (end_time ?t normal) urgent" using assms(3) split by auto
  have r: "limiter_ok ?l" "last_refill (bucket ?l) \<le> end_time ?t normal"
    using run_ok[OF assms(1) order_refl m(1)] by simp_all
  have k: "of_int (reserve l) \<le> tokens (bucket ?l)" "priority_admission_level ?l = priority_admission_level l"
    using tokens_after_normal[OF assms(1) order_refl m(1) assms(4,2)] by simp_all
  have "list_all (is_urgent ?l) urgent"
    using assms(5) k(2) by (simp add: priority_cong[of ?l l])
  moreover have "of_nat (length urgent) \<le> tokens (bucket ?l)"
    using assms(6) k(1) by (metis of_int_le_iff of_int_of_nat_eq order_trans)
  ultimately show ?thesis using urgent_all_admitted[OF r m(2)] by blast
qed

theorem reserve_serves_urgent_witness:
  "let urgent = Rl_request 2 2 demo_alarm (Some [(''priority'', JInt 5)])
   in admitted (foldl rl_step demo_limiter (replicate 20 (Rl_request 1 1 demo_alarm None))) [urgent, urgent] = 2"
proof -
  let ?u = "Rl_request 2 2 demo_alarm (Some [(''priority'', JInt 5)])" and ?n = "Rl_request 1 1 demo_alarm None"
  have "monotone_from t (replicate k ?n @ [?u, ?u])" if "t \<le> 1" for t k
    using that by (induction k arbitrary: t) simp_all
  then have "monotone_from (last_refill (bucket demo_limiter)) (replicate 20 ?n @ [?u, ?u])"
    by (simp add: demo_limiter_def)
  from reserve_serves_urgent[OF _ _ this] show ?thesis
    by (simp add: demo_limiter_def limiter_ok_def bucket_ok_def list_all_iff is_high_priority_def extract_priority_def is_strict_def)
qed

end
