(* ===== verification/Workload_Ledger.thy ===== *)
theory Workload_Ledger
  imports Resources
begin

text \<open>
  The coordinator's book of what each request has charged to the scheduler:
  \<^verbatim>\<open>motor/coordinator/domain/request_manager.py\<close> (the records),
  \<^verbatim>\<open>motor/coordinator/domain/workload_calculator.py\<close> (what a request costs) and
  \<^verbatim>\<open>motor/coordinator/router/workload.py\<close> (allocation and release).

  Every method of the request manager holds its lock for its whole body, so a method is one step.
  The size of an image, which the code takes from PIL or the file system, is the argument \<open>hw\<close>.
\<close>

section \<open>Request manager\<close>

text \<open>
  The affinity record of an endpoint: (matched tokens, load cost, prefill cost, ...), each possibly \<open>None\<close>.
\<close>

record RequestInfo =
  ri_req_id :: string
  req_data :: "(string, json) dict"
  req_len :: int
  token_ids :: "int list option"
  kv_affinity_debug :: "(int \<times> int, pyfloat option list) dict option"

text \<open>
  \<open>(req_id, role)\<close> or \<open>(req_id, attempt_seq, role)\<close>.
\<close>

datatype workload_key = Legacy_key string PDRole | Attempt_key string int PDRole

fun key_request :: "workload_key \<Rightarrow> string" where
  "key_request (Legacy_key r role) = r"
| "key_request (Attempt_key r a role) = r"

definition make_workload_key :: "string \<Rightarrow> PDRole \<Rightarrow> int option \<Rightarrow> workload_key" where
  "make_workload_key req_id role attempt =
     (case attempt of None \<Rightarrow> Legacy_key req_id role | Some a \<Rightarrow> Attempt_key req_id a role)"

record RequestManager =
  rm_counter :: int
  rm_last_timestamp :: int
  req_infos :: "(string, RequestInfo) dict"
  req_workloads :: "(workload_key, Workload) dict"
  req_owners :: "(workload_key, int \<times> int) dict"

definition empty_manager :: RequestManager where
  "empty_manager = \<lparr>rm_counter = 0, rm_last_timestamp = 0, req_infos = [], req_workloads = [], req_owners = []\<rparr>"

text \<open>
  \<open>f"{n:04d}"\<close>, and the generated ID: timestamp, counter and eight random characters.
\<close>

definition pad4 :: "int \<Rightarrow> string" where
  "pad4 n = replicate (4 - length (py_str_int n)) CHR ''0'' @ py_str_int n"

definition generate_request_id :: "int \<Rightarrow> string \<Rightarrow> RequestManager \<Rightarrow> RequestManager \<times> string" where
  "generate_request_id ts suffix m =
     (let m1 = (if ts = rm_last_timestamp m then m\<lparr>rm_counter := rm_counter m + 1\<rparr>
                else m\<lparr>rm_counter := 0, rm_last_timestamp := ts\<rparr>)
      in (m1, py_str_int ts @ pad4 (rm_counter m1) @ suffix))"

definition get_req_info :: "string \<Rightarrow> RequestManager \<Rightarrow> RequestInfo option" where
  "get_req_info r m = dict_get (req_infos m) r"

definition add_req_info :: "RequestInfo \<Rightarrow> RequestManager \<Rightarrow> RequestManager \<times> bool" where
  "add_req_info info m =
     (if in_dict (ri_req_id info) (req_infos m) then (m, False)
      else (m\<lparr>req_infos := dict_set (ri_req_id info) info (req_infos m)\<rparr>, True))"

text \<open>
  The records of one request, in dictionary order, and their removal from both dictionaries.
\<close>

definition keys_of_request :: "string \<Rightarrow> RequestManager \<Rightarrow> workload_key list" where
  "keys_of_request r m = filter (\<lambda>k. key_request k = r) (dict_keys (req_workloads m))"

definition pop_keys :: "workload_key list \<Rightarrow> RequestManager \<Rightarrow> RequestManager" where
  "pop_keys ks m = m\<lparr>req_workloads := foldl (\<lambda>d k. dict_pop k d) (req_workloads m) ks,
                     req_owners := foldl (\<lambda>d k. dict_pop k d) (req_owners m) ks\<rparr>"

definition del_req_info :: "string \<Rightarrow> RequestManager \<Rightarrow> RequestManager \<times> bool" where
  "del_req_info r m =
     (if \<not> in_dict r (req_infos m) then (m, False)
      else (pop_keys (keys_of_request r m) (m\<lparr>req_infos := dict_pop r (req_infos m)\<rparr>), True))"

definition add_req_attempt_workload ::
  "string \<Rightarrow> int option \<Rightarrow> PDRole \<Rightarrow> Workload \<Rightarrow> int option \<Rightarrow> int option \<Rightarrow> RequestManager \<Rightarrow> RequestManager \<times> bool" where
  "add_req_attempt_workload r attempt role w ins ep m =
     (let key = make_workload_key r role attempt
      in if in_dict key (req_workloads m) then (m, False)
         else (let m1 = m\<lparr>req_workloads := dict_set key w (req_workloads m)\<rparr>
               in (case (ins, ep) of
                     (Some i, Some e) \<Rightarrow> m1\<lparr>req_owners := dict_set key (i, e) (req_owners m1)\<rparr>
                   | _ \<Rightarrow> m1, True)))"

definition get_req_attempt_workload :: "string \<Rightarrow> int option \<Rightarrow> PDRole \<Rightarrow> RequestManager \<Rightarrow> Workload option" where
  "get_req_attempt_workload r attempt role m = dict_get (req_workloads m) (make_workload_key r role attempt)"

definition update_req_attempt_workload ::
  "string \<Rightarrow> int option \<Rightarrow> PDRole \<Rightarrow> Workload \<Rightarrow> RequestManager \<Rightarrow> RequestManager \<times> bool" where
  "update_req_attempt_workload r attempt role w m =
     (let key = make_workload_key r role attempt
      in if \<not> in_dict key (req_workloads m) then (m, False)
         else (m\<lparr>req_workloads := dict_set key w (req_workloads m)\<rparr>, True))"

definition del_req_attempt_workload :: "string \<Rightarrow> int option \<Rightarrow> PDRole \<Rightarrow> RequestManager \<Rightarrow> RequestManager \<times> bool" where
  "del_req_attempt_workload r attempt role m =
     (let key = make_workload_key r role attempt
      in if \<not> in_dict key (req_workloads m) then (m, False)
         else (m\<lparr>req_workloads := dict_pop key (req_workloads m), req_owners := dict_pop key (req_owners m)\<rparr>, True))"

definition add_req_workload ::
  "string \<Rightarrow> PDRole \<Rightarrow> Workload \<Rightarrow> int option \<Rightarrow> int option \<Rightarrow> RequestManager \<Rightarrow> RequestManager \<times> bool" where
  "add_req_workload r role w ins ep m = add_req_attempt_workload r None role w ins ep m"

definition get_req_workload :: "string \<Rightarrow> PDRole \<Rightarrow> RequestManager \<Rightarrow> Workload option" where
  "get_req_workload r role m = get_req_attempt_workload r None role m"

definition update_req_workload :: "string \<Rightarrow> PDRole \<Rightarrow> Workload \<Rightarrow> RequestManager \<Rightarrow> RequestManager \<times> bool" where
  "update_req_workload r role w m = update_req_attempt_workload r None role w m"

definition del_req_workload :: "string \<Rightarrow> PDRole \<Rightarrow> RequestManager \<Rightarrow> RequestManager \<times> bool" where
  "del_req_workload r role m = del_req_attempt_workload r None role m"

definition pop_residual_workloads ::
  "string \<Rightarrow> RequestManager \<Rightarrow> RequestManager \<times> (workload_key \<times> Workload option \<times> (int \<times> int) option) list" where
  "pop_residual_workloads r m =
     (let ks = keys_of_request r m
      in (pop_keys ks m, map (\<lambda>k. (k, dict_get (req_workloads m) k, dict_get (req_owners m) k)) ks))"

section \<open>Cost of a request\<close>

definition get_mul_token :: "(string \<Rightarrow> py_error + int \<times> int) \<Rightarrow> string \<Rightarrow> py_error + pyfloat" where
  "get_mul_token hw url =
     (case hw url of
        Inl e \<Rightarrow> Inl e
      | Inr (h, w) \<Rightarrow> Inr (of_int (\<lceil>(of_int h / 32 :: rat)\<rceil> * \<lceil>(of_int w / 32 :: rat)\<rceil>)))"

definition encode_item :: "(string \<Rightarrow> py_error + int \<times> int) \<Rightarrow> int \<Rightarrow> json \<Rightarrow> py_error + pyfloat" where
  "encode_item hw len item =
     (case item of
        JObj d \<Rightarrow>
          (case dict_get d ''type'' of
             Some (JStr t) \<Rightarrow>
               if t = ''image_url''
               then (case dict_get d ''image_url'' of
                       None \<Rightarrow> get_mul_token hw []
                     | Some (JObj u) \<Rightarrow>
                         (case dict_get u ''url'' of
                            None \<Rightarrow> get_mul_token hw []
                          | Some (JStr url) \<Rightarrow> get_mul_token hw url
                          | Some _ \<Rightarrow> Inl AttributeError)
                     | Some _ \<Rightarrow> Inl AttributeError)
               else if t = ''video_url'' then Inr (of_int (len * 32))
               else Inr 0
           | _ \<Rightarrow> Inr 0)
      | _ \<Rightarrow> Inl AttributeError)"

fun encode_items :: "(string \<Rightarrow> py_error + int \<times> int) \<Rightarrow> int \<Rightarrow> json list \<Rightarrow> py_error + pyfloat" where
  "encode_items hw len [] = Inr 0"
| "encode_items hw len (j # js) =
     (case encode_item hw len j of
        Inl e \<Rightarrow> Inl e
      | Inr q \<Rightarrow> (case encode_items hw len js of Inl e \<Rightarrow> Inl e | Inr q' \<Rightarrow> Inr (q + q')))"

fun encode_messages :: "(string \<Rightarrow> py_error + int \<times> int) \<Rightarrow> int \<Rightarrow> json list \<Rightarrow> py_error + pyfloat" where
  "encode_messages hw len [] = Inr 0"
| "encode_messages hw len (msg # msgs) =
     (case msg of
        JObj d \<Rightarrow>
          (case (case dict_get d ''content'' of Some (JList items) \<Rightarrow> encode_items hw len items | _ \<Rightarrow> Inr 0) of
             Inl e \<Rightarrow> Inl e
           | Inr q \<Rightarrow> (case encode_messages hw len msgs of Inl e \<Rightarrow> Inl e | Inr q' \<Rightarrow> Inr (q + q')))
      | _ \<Rightarrow> Inl AttributeError)"

definition calculate_encode_scores :: "(string \<Rightarrow> py_error + int \<times> int) \<Rightarrow> RequestInfo \<Rightarrow> py_error + pyfloat" where
  "calculate_encode_scores hw info =
     (case dict_get (req_data info) ''messages'' of
        None \<Rightarrow> Inr 0
      | Some j \<Rightarrow>
          if \<not> truthy j then Inr 0
          else (case j of
                  JList msgs \<Rightarrow> encode_messages hw (req_len info) msgs
                | JStr s \<Rightarrow> Inl AttributeError
                | JObj d \<Rightarrow> Inl AttributeError
                | _ \<Rightarrow> Inl TypeError))"

definition calculate_prefill_scores :: "int \<Rightarrow> pyfloat" where
  "calculate_prefill_scores len = (of_int len / 4) * (345 / 10000) + 1200745 / 10000"

definition calculate_decode_scores :: "int \<Rightarrow> pyfloat" where
  "calculate_decode_scores len = of_int len"

definition prefill_load_score :: "RequestInfo \<Rightarrow> pyfloat" where
  "prefill_load_score info =
     (case token_ids info of
        Some (t # ts) \<Rightarrow> of_nat (length (t # ts))
      | _ \<Rightarrow> calculate_prefill_scores (req_len info))"

definition calculate_demand_workload ::
  "(string \<Rightarrow> py_error + int \<times> int) \<Rightarrow> PDRole \<Rightarrow> RequestInfo \<Rightarrow> py_error + Workload" where
  "calculate_demand_workload hw role info =
     (case role of
        ROLE_E \<Rightarrow> map_sum id (\<lambda>q. \<lparr>active_tokens = q\<rparr>) (calculate_encode_scores hw info)
      | ROLE_P \<Rightarrow> Inr \<lparr>active_tokens = prefill_load_score info\<rparr>
      | ROLE_D \<Rightarrow> Inr \<lparr>active_tokens = calculate_decode_scores (req_len info)\<rparr>
      | ROLE_U \<Rightarrow> Inr \<lparr>active_tokens = prefill_load_score info\<rparr>)"

definition calculate_committed_workload :: "PDRole \<Rightarrow> pyfloat \<Rightarrow> pyfloat \<Rightarrow> Workload" where
  "calculate_committed_workload role isl0 matched_tokens =
     (let isl_f = max 0 isl0; matched = min (max 0 matched_tokens) isl_f
      in \<lparr>active_tokens = isl_f - matched\<rparr>)"

text \<open>
  \<open>KvCacheAffinityPolicy.unhit_prefill_workload\<close> with its default credit of 1; \<open>Inr None\<close> when
  the request has no affinity record for the endpoint.
\<close>

definition unhit_prefill_workload :: "RequestInfo \<Rightarrow> int \<Rightarrow> int \<Rightarrow> py_error + Workload option" where
  "unhit_prefill_workload info ins ep =
     (case kv_affinity_debug info of
        None \<Rightarrow> Inr None
      | Some debug \<Rightarrow>
          (case dict_get debug (ins, ep) of
             Some (matched # load # rest) \<Rightarrow>
               (case rest of
                  Some cost # _ \<Rightarrow> Inr (Some \<lparr>active_tokens = max 0 cost\<rparr>)
                | _ \<Rightarrow>
                    (case matched of
                       None \<Rightarrow> Inl TypeError
                     | Some q \<Rightarrow>
                         Inr (Some \<lparr>active_tokens =
                           max 0 (of_nat (case token_ids info of Some ts \<Rightarrow> length ts | None \<Rightarrow> 0) - q)\<rparr>)))
           | _ \<Rightarrow> Inr None))"

section \<open>Allocation and release\<close>

record ScheduledResource =
  sr_instance :: "Instance option"
  sr_endpoint :: "Endpoint option"

definition normalize_role :: "Instance \<Rightarrow> PDRole option" where
  "normalize_role ins = PDRole_of (ins_role ins)"

text \<open>
  The workload an allocation charges.
\<close>

definition allocation_workload ::
  "(string \<Rightarrow> py_error + int \<times> int) \<Rightarrow> PDRole \<Rightarrow> RequestInfo \<Rightarrow> Instance \<Rightarrow> Endpoint \<Rightarrow> py_error + Workload" where
  "allocation_workload hw role info ins ep =
     (case calculate_demand_workload hw role info of
        Inl e \<Rightarrow> Inl e
      | Inr demand \<Rightarrow>
          if role = ROLE_P
          then (case unhit_prefill_workload info (ins_id ins) (ep_id ep) of
                  Inl e \<Rightarrow> Inl e
                | Inr None \<Rightarrow> Inr demand
                | Inr (Some unhit) \<Rightarrow> Inr unhit)
          else Inr demand)"

text \<open>
  The answer is the change to send to the scheduler with its role, or \<open>None\<close> for \<open>(None, None)\<close>.
\<close>

definition compute_and_update ::
  "(string \<Rightarrow> py_error + int \<times> int) \<Rightarrow> ScheduledResource option \<Rightarrow> string \<Rightarrow> WorkloadAction \<Rightarrow> RequestInfo \<Rightarrow> int option
   \<Rightarrow> RequestManager \<Rightarrow> RequestManager \<times> (py_error + (Workload \<times> PDRole) option)" where
  "compute_and_update hw resource req_id action info attempt m =
     (case resource of
        Some r \<Rightarrow>
          (case (sr_instance r, sr_endpoint r) of
             (Some ins, Some ep) \<Rightarrow>
               (case normalize_role ins of
                  None \<Rightarrow> (m, Inr None)
                | Some role \<Rightarrow>
                    (case action of
                       ALLOCATION \<Rightarrow>
                         (case allocation_workload hw role info ins ep of
                            Inl e \<Rightarrow> (m, Inl e)
                          | Inr w \<Rightarrow>
                              (let (m1, added) = add_req_attempt_workload req_id attempt role w
                                                   (Some (ins_id ins)) (Some (ep_id ep)) m
                               in if added then (m1, Inr (Some (w, role))) else (m1, Inr None)))
                     | RELEASE_TOKENS \<Rightarrow>
                         (case get_req_attempt_workload req_id attempt role m of
                            None \<Rightarrow> (m, Inr None)
                          | Some w \<Rightarrow> (m, Inr (Some (\<lparr>active_tokens = - active_tokens w\<rparr>, role))))))
           | _ \<Rightarrow> (m, Inr None))
      | None \<Rightarrow> (m, Inr None))"

definition finalize_release :: "string \<Rightarrow> PDRole \<Rightarrow> int option \<Rightarrow> RequestManager \<Rightarrow> RequestManager \<times> bool" where
  "finalize_release req_id role attempt m = del_req_attempt_workload req_id attempt role m"

section \<open>The book and the scheduler's ledger\<close>

text \<open>
  \<open>BaseRouter._update_workload\<close> and the attempt-wise variant of the unified router: the state is the
  request manager and the total the scheduler's ledger has applied, \<open>ok\<close> is the answer of the
  scheduler's \<open>update_workload\<close>, which applies the change when it answers \<open>True\<close>.
\<close>

definition update_workload ::
  "(string \<Rightarrow> py_error + int \<times> int) \<Rightarrow> ScheduledResource option \<Rightarrow> string \<Rightarrow> WorkloadAction \<Rightarrow> RequestInfo \<Rightarrow> int option \<Rightarrow> bool
   \<Rightarrow> RequestManager \<times> pyfloat \<Rightarrow> (RequestManager \<times> pyfloat) \<times> (py_error + bool)" where
  "update_workload hw res r action info a ok s =
     (let (m, led) = s; (m1, ans) = compute_and_update hw res r action info a m
      in case ans of
           Inl e \<Rightarrow> ((m1, led), Inl e)
         | Inr None \<Rightarrow> ((m1, led), Inr False)
         | Inr (Some (w, role)) \<Rightarrow>
             if \<not> ok then ((m1, led), Inr False)
             else if action = RELEASE_TOKENS then ((fst (finalize_release r role a m1), led + active_tokens w), Inr True)
             else ((m1, led + active_tokens w), Inr True))"

text \<open>
  \<open>BaseRouter._reclaim_residual_workloads\<close> once the pending releases are drained; \<open>answers\<close> says for
  which records the scheduler applies the release. A record without owner cannot be reclaimed.
\<close>

definition reclaim_residual_workloads ::
  "string \<Rightarrow> (workload_key \<Rightarrow> bool) \<Rightarrow> RequestManager \<times> pyfloat \<Rightarrow> RequestManager \<times> pyfloat" where
  "reclaim_residual_workloads r answers s =
     (let (m, led) = s; (m1, popped) = pop_residual_workloads r m
      in (m1, foldl (\<lambda>led x. case x of
                       (k, Some w, Some own) \<Rightarrow> if answers k then led - active_tokens w else led
                     | _ \<Rightarrow> led) led popped))"

datatype ledger_op =
    Led_update "string \<Rightarrow> py_error + int \<times> int" "ScheduledResource option" string WorkloadAction RequestInfo "int option" bool
  | Led_reclaim string "workload_key \<Rightarrow> bool"

fun ledger_step :: "RequestManager \<times> pyfloat \<Rightarrow> ledger_op \<Rightarrow> RequestManager \<times> pyfloat" where
  "ledger_step s (Led_update hw res r action info a ok) = fst (update_workload hw res r action info a ok s)"
| "ledger_step s (Led_reclaim r answers) = reclaim_residual_workloads r answers s"

text \<open>
  The scheduler applies every charge and every reclaim; a release may fail and be sent again.
\<close>

fun applied :: "ledger_op \<Rightarrow> bool" where
  "applied (Led_update hw res r action info a ok) = (action = ALLOCATION \<longrightarrow> ok)"
| "applied (Led_reclaim r answers) = (answers = (\<lambda>k. True))"

text \<open>
  Whether a router step can remove the record of a key.
\<close>

fun may_remove :: "string \<Rightarrow> int option \<Rightarrow> ledger_op \<Rightarrow> bool" where
  "may_remove r a (Led_update hw res r' action info a' ok) = (ok \<and> action = RELEASE_TOKENS \<and> r' = r \<and> a' = a)"
| "may_remove r a (Led_reclaim r' answers) = (r' = r)"

definition recorded :: "RequestManager \<Rightarrow> pyfloat" where
  "recorded m = sum_list (map (active_tokens \<circ> snd) (req_workloads m))"

definition book_ok :: "RequestManager \<Rightarrow> bool" where
  "book_ok m \<longleftrightarrow> distinct (dict_keys (req_workloads m)) \<and> distinct (dict_keys (req_owners m)) \<and>
     fst ` set (req_owners m) = fst ` set (req_workloads m)"

text \<open>
  The IDs drawn one after the other, with the clock readings and random suffixes given.
\<close>

fun draw_ids :: "RequestManager \<Rightarrow> (int \<times> string) list \<Rightarrow> string list" where
  "draw_ids m [] = []"
| "draw_ids m (d # ds) =
     (let (m1, i) = generate_request_id (fst d) (snd d) m in i # draw_ids m1 ds)"

definition charge :: "(workload_key, Workload) dict \<Rightarrow> workload_key \<Rightarrow> pyfloat" where
  "charge d k = (case dict_get d k of Some x \<Rightarrow> active_tokens x | None \<Rightarrow> 0)"

text \<open>
  A decode request of length 12 routed to endpoint 0 of the demonstration instance.
\<close>

definition demo_resource :: "ScheduledResource option" where
  "demo_resource = Some \<lparr>sr_instance = Some (demo_instance 7 ''decode'' ACTIVE), sr_endpoint = Some (demo_endpoint 0 EP_NORMAL)\<rparr>"

definition demo_request :: RequestInfo where
  "demo_request = \<lparr>ri_req_id = ''r'', req_data = [], req_len = 12, token_ids = None, kv_affinity_debug = None\<rparr>"

definition demo_charge :: ledger_op where
  "demo_charge = Led_update (\<lambda>u. Inl ValueError) demo_resource ''r'' ALLOCATION demo_request (Some 1) True"

definition demo_release :: "bool \<Rightarrow> ledger_op" where
  "demo_release ok = Led_update (\<lambda>u. Inl ValueError) demo_resource ''r'' RELEASE_TOKENS demo_request (Some 1) ok"


section \<open>The store of workload records\<close>

text \<open>
  What the handler relies on: adding does not overwrite, deleting forgets, and both touch one key.
\<close>

locale workload_store =
  fixes add :: "'k \<Rightarrow> 'v \<Rightarrow> 's \<Rightarrow> 's \<times> bool"
    and get :: "'k \<Rightarrow> 's \<Rightarrow> 'v option"
    and del :: "'k \<Rightarrow> 's \<Rightarrow> 's \<times> bool"
  assumes add_answer: "snd (add k v s) \<longleftrightarrow> get k s = None"
    and get_add: "get k' (fst (add k v s)) = (if k' = k \<and> get k s = None then Some v else get k' s)"
    and del_answer: "snd (del k s) \<longleftrightarrow> get k s \<noteq> None"
    and get_del: "get k' (fst (del k s)) = (if k' = k then None else get k' s)"
begin

lemma first_add_wins: "get k (fst (add k v' (fst (add k v s)))) = get k (fst (add k v s))"
  by (simp add: get_add)

lemma delete_once: "\<not> snd (del k (fst (del k s)))"
  by (simp add: del_answer get_del)

lemma add_then_delete: "snd (add k v s) \<Longrightarrow> get k' (fst (del k (fst (add k v s)))) = get k' s"
  by (auto simp: get_add get_del add_answer)

lemma other_keys:
  "k \<notin> fst ` set ops \<Longrightarrow>
   get k (foldl (\<lambda>s (k, v). case v of Some x \<Rightarrow> fst (add k x s) | None \<Rightarrow> fst (del k s)) s ops) = get k s"
proof (induction ops arbitrary: s)
  case (Cons op ops)
  then show ?case by (cases op; cases "snd op") (auto simp: get_add get_del)
qed simp

end

lemma make_key_eq [simp]:
  "make_workload_key r role a = make_workload_key r' role' a' \<longleftrightarrow> r = r' \<and> role = role' \<and> a = a'"
  by (auto simp: make_workload_key_def split: option.splits)

lemma key_request_make [simp]: "key_request (make_workload_key r role a) = r"
  by (simp add: make_workload_key_def split: option.split)

lemma add_workloads:
  "req_workloads (fst (add_req_attempt_workload r a role w ins ep m)) =
     (if in_dict (make_workload_key r role a) (req_workloads m) then req_workloads m
      else dict_set (make_workload_key r role a) w (req_workloads m))"
  "snd (add_req_attempt_workload r a role w ins ep m) \<longleftrightarrow> \<not> in_dict (make_workload_key r role a) (req_workloads m)"
  by (simp_all add: add_req_attempt_workload_def Let_def split: option.split)

lemma del_workloads:
  "req_workloads (fst (del_req_attempt_workload r a role m)) = dict_pop (make_workload_key r role a) (req_workloads m)"
  "snd (del_req_attempt_workload r a role m) \<longleftrightarrow> in_dict (make_workload_key r role a) (req_workloads m)"
  by (simp_all add: del_req_attempt_workload_def Let_def)

interpretation attempts: workload_store
  "\<lambda>(r, a, role) w. add_req_attempt_workload r a role w ins ep"
  "\<lambda>(r, a, role). get_req_attempt_workload r a role"
  "\<lambda>(r, a, role). del_req_attempt_workload r a role" for ins ep
  by unfold_locales (auto simp: get_req_attempt_workload_def add_workloads del_workloads split: if_splits)

section \<open>Request IDs\<close>

lemma parse_zeros: "parse_digits 0 False (replicate k CHR ''0'' @ show_nat n) = Some n"
proof -
  have "parse_digits 0 True (replicate k CHR ''0'' @ show_nat n) = Some n" for k
  proof (induction k)
    case 0
    then show ?case using parse_digits_append[of 0 n "[]"] by simp
  next
    case (Suc k)
    have "digit_val CHR ''0'' = Some 0" by (simp add: digit_val_def)
    with Suc show ?case by simp
  qed
  moreover have "digit_val CHR ''0'' = Some 0" by (simp add: digit_val_def)
  ultimately show ?thesis by (cases k) (simp_all add: parse_show_nat)
qed

lemma pad4_inj: "0 \<le> n \<Longrightarrow> 0 \<le> n' \<Longrightarrow> pad4 n = pad4 n' \<Longrightarrow> n = n'"
proof -
  have p: "parse_digits 0 False (pad4 i) = Some (nat i)" if "0 \<le> i" for i
    using that by (simp add: pad4_def py_str_int_def parse_zeros)
  assume "0 \<le> n" "0 \<le> n'" "pad4 n = pad4 n'"
  with p[of n] p[of n'] show ?thesis by simp
qed


text \<open>
  The pair (timestamp, counter) an ID is made of; it grows when the clock does not go back.
\<close>

lemma id_parts:
  assumes "length (py_str_int t) = 16" "length (py_str_int t') = 16" "0 \<le> c" "0 \<le> c'"
    and "length s = length s'" and "py_str_int t @ pad4 c @ s = py_str_int t' @ pad4 c' @ s'"
  shows "t = t' \<and> c = c'"
proof -
  from assms(1,2,6) have a: "py_str_int t = py_str_int t'" "pad4 c @ s = pad4 c' @ s'"
    by (metis append_eq_append_conv)+
  then have "pad4 c = pad4 c'" using assms(5) append_eq_append_conv by blast
  then show ?thesis using a(1) pad4_inj assms(3,4) injD[OF inj_py_str_int] by blast
qed

lemma draw_ids_later:
  assumes "0 \<le> rm_counter m" and "sorted (rm_last_timestamp m # map fst ds)"
    and "\<forall>(t, s) \<in> set ds. length (py_str_int t) = 16 \<and> length s = 8" and "i \<in> set (draw_ids m ds)"
  shows "\<exists>t c s. i = py_str_int t @ pad4 c @ s \<and> length (py_str_int t) = 16 \<and> length s = 8 \<and> 0 \<le> c \<and>
    (rm_last_timestamp m, rm_counter m) < (t, c)"
  using assms
proof (induction ds arbitrary: m)
  case (Cons d ds)
  obtain t s where d: "d = (t, s)" by (cases d)
  define m1 where "m1 = fst (generate_request_id t s m)"
  have m1: "rm_last_timestamp m1 = t" "0 \<le> rm_counter m1" "(rm_last_timestamp m, rm_counter m) < (t, rm_counter m1)"
    using Cons.prems d by (auto simp: m1_def generate_request_id_def Let_def)
  have i: "snd (generate_request_id t s m) = py_str_int t @ pad4 (rm_counter m1) @ s"
    by (simp add: m1_def generate_request_id_def Let_def)
  from Cons.prems(4) d i consider "i = py_str_int t @ pad4 (rm_counter m1) @ s" | "i \<in> set (draw_ids m1 ds)"
    by (auto simp: m1_def case_prod_unfold Let_def)
  then show ?case
  proof cases
    case 1
    then show ?thesis using Cons.prems(3) d m1 by auto
  next
    case 2
    from Cons.IH[OF m1(2) _ _ this] Cons.prems(2,3) d m1
    have "\<exists>t' c s. i = py_str_int t' @ pad4 c @ s \<and> length (py_str_int t') = 16 \<and> length s = 8 \<and> 0 \<le> c \<and>
      (t, rm_counter m1) < (t', c)" by simp
    then show ?thesis using m1(3) less_trans by blast
  qed
qed simp

section \<open>Sums over the book\<close>

lemma recorded_set:
  "dict_get (req_workloads m) k = None \<Longrightarrow>
   recorded (m\<lparr>req_workloads := dict_set k w (req_workloads m), req_owners := o'\<rparr>) = recorded m + active_tokens w"
  by (simp add: recorded_def dict_set_fresh)

lemma sum_dict_pop:
  "distinct (dict_keys d) \<Longrightarrow> dict_get d k = Some w \<Longrightarrow>
   sum_list (map (active_tokens \<circ> snd) (dict_pop k d)) = sum_list (map (active_tokens \<circ> snd) d) - active_tokens w"
proof (induction d)
  case (Cons x d)
  show ?case
  proof (cases "fst x = k")
    case True
    then have "dict_get d k = None" using Cons.prems by (auto simp: dict_get_None_iff)
    then show ?thesis using True Cons.prems by simp
  next
    case False
    then show ?thesis using Cons by (cases x) (simp add: AList.delete_eq)
  qed
qed simp

lemma sum_pop_keys:
  "distinct (dict_keys d) \<Longrightarrow> distinct ks \<Longrightarrow> set ks \<subseteq> fst ` set d \<Longrightarrow>
   sum_list (map (active_tokens \<circ> snd) (foldl (\<lambda>d k. dict_pop k d) d ks)) =
     sum_list (map (active_tokens \<circ> snd) d) - sum_list (map (charge d) ks)"
proof (induction ks arbitrary: d)
  case (Cons k ks)
  then obtain w where w: "dict_get d k = Some w" by (auto simp: in_dict_iff[symmetric])
  have m: "map (charge (dict_pop k d)) ks = map (charge d) ks"
    by (rule map_cong) (use Cons.prems in \<open>auto simp: charge_def\<close>)
  have "sum_list (map (active_tokens \<circ> snd) (foldl (\<lambda>d k. dict_pop k d) (dict_pop k d) ks)) =
      sum_list (map (active_tokens \<circ> snd) (dict_pop k d)) - sum_list (map (charge d) ks)"
    unfolding m[symmetric] by (rule Cons.IH) (use Cons.prems in auto)
  moreover have "charge d k = active_tokens w" using w by (simp only: charge_def option.case)
  ultimately show ?case using sum_dict_pop[OF Cons.prems(1) w] by (simp only: foldl_Cons list.map sum_list.Cons)
qed simp

lemma get_pop_keys: "dict_get (foldl (\<lambda>d k. dict_pop k d) d ks) k = (if k \<in> set ks then None else dict_get d k)"
  by (induction ks arbitrary: d) auto

lemma keys_pop_keys: "fst ` set (foldl (\<lambda>d k. dict_pop k d) d ks) = fst ` set d - set ks"
  by (induction ks arbitrary: d) auto

lemma distinct_pop_keys: "distinct (dict_keys d) \<Longrightarrow> distinct (dict_keys (foldl (\<lambda>d k. dict_pop k d) d ks))"
  by (induction ks arbitrary: d) auto


section \<open>Allocation and release, case by case\<close>

lemma resource_cases:
  obtains "\<And>hw r action info a m. compute_and_update hw res r action info a m = (m, Inr None)"
  | x ins ep role where "res = Some x" "sr_instance x = Some ins" "sr_endpoint x = Some ep" "normalize_role ins = Some role"
proof (cases res)
  case None
  then show ?thesis by (intro that(1)) (simp add: compute_and_update_def)
next
  case (Some x)
  show ?thesis
  proof (cases "sr_instance x = None \<or> sr_endpoint x = None")
    case True
    then show ?thesis using Some by (intro that(1)) (auto simp: compute_and_update_def split: option.split)
  next
    case False
    then obtain ins ep where i: "sr_instance x = Some ins" "sr_endpoint x = Some ep" by auto
    show ?thesis
    proof (cases "normalize_role ins")
      case None
      then show ?thesis using Some i by (intro that(1)) (simp add: compute_and_update_def)
    next
      case (Some role)
      with \<open>res = Some x\<close> i show ?thesis by (rule that(2))
    qed
  qed
qed

lemma allocate_cases:
  assumes c: "compute_and_update hw res r ALLOCATION info a m = (m1, ans)"
  obtains "m1 = m" "\<And>x. ans \<noteq> Inr (Some x)"
  | w role own where "ans = Inr (Some (w, role))" "dict_get (req_workloads m) (make_workload_key r role a) = None"
      "m1 = m\<lparr>req_workloads := dict_set (make_workload_key r role a) w (req_workloads m),
              req_owners := dict_set (make_workload_key r role a) own (req_owners m)\<rparr>"
proof (cases res rule: resource_cases)
  case 1
  then show ?thesis using c by (intro that(1)) auto
next
  case (2 x ins ep role)
  show ?thesis
  proof (cases "allocation_workload hw role info ins ep")
    case (Inl e)
    then show ?thesis using c 2 by (intro that(1)) (auto simp: compute_and_update_def)
  next
    case (Inr w)
    let ?k = "make_workload_key r role a"
    have e: "compute_and_update hw res r ALLOCATION info a m =
      (let (m1, added) = add_req_attempt_workload r a role w (Some (ins_id ins)) (Some (ep_id ep)) m
       in if added then (m1, Inr (Some (w, role))) else (m1, Inr None))"
      using 2 Inr by (simp add: compute_and_update_def)
    show ?thesis
    proof (cases "dict_get (req_workloads m) ?k")
      case None
      show ?thesis
        by (rule that(2)[of w role "(ins_id ins, ep_id ep)"]) (use c e None in \<open>simp_all add: add_req_attempt_workload_def Let_def\<close>)
    next
      case (Some y)
      then show ?thesis using c e by (intro that(1)) (auto simp: add_req_attempt_workload_def Let_def)
    qed
  qed
qed

lemma release_cases:
  assumes c: "compute_and_update hw res r RELEASE_TOKENS info a m = (m1, ans)"
  obtains "m1 = m" "ans = Inr None"
  | w role where "m1 = m" "ans = Inr (Some (\<lparr>active_tokens = - active_tokens w\<rparr>, role))"
      "dict_get (req_workloads m) (make_workload_key r role a) = Some w"
proof (cases res rule: resource_cases)
  case 1
  then show ?thesis using c by (intro that(1)) auto
next
  case (2 x ins ep role)
  have e: "compute_and_update hw res r RELEASE_TOKENS info a m =
     (case dict_get (req_workloads m) (make_workload_key r role a) of
        None \<Rightarrow> (m, Inr None) | Some w \<Rightarrow> (m, Inr (Some (\<lparr>active_tokens = - active_tokens w\<rparr>, role))))"
    using 2 by (simp add: compute_and_update_def get_req_attempt_workload_def)
  then show ?thesis
    using c by (cases "dict_get (req_workloads m) (make_workload_key r role a)") (auto intro: that)
qed

lemma residual_frame:
  assumes "book_ok m"
  shows "book_ok (fst (pop_residual_workloads r m))"
    "recorded (fst (pop_residual_workloads r m)) = recorded m - sum_list (map (charge (req_workloads m)) (keys_of_request r m))"
proof -
  let ?ks = "keys_of_request r m"
  have k: "distinct ?ks" "set ?ks \<subseteq> fst ` set (req_workloads m)"
    using assms by (auto simp: keys_of_request_def book_ok_def)
  show "book_ok (fst (pop_residual_workloads r m))"
    using assms by (simp add: book_ok_def pop_residual_workloads_def pop_keys_def Let_def keys_pop_keys distinct_pop_keys)
  show "recorded (fst (pop_residual_workloads r m)) = recorded m - sum_list (map (charge (req_workloads m)) ?ks)"
    using sum_pop_keys[OF _ k] assms
    by (simp add: recorded_def pop_residual_workloads_def pop_keys_def Let_def book_ok_def)
qed

lemma reclaim_all:
  assumes "book_ok m"
  shows "reclaim_residual_workloads r (\<lambda>k. True) (m, led) =
    (fst (pop_residual_workloads r m), led - sum_list (map (charge (req_workloads m)) (keys_of_request r m)))"
proof -
  have "foldl (\<lambda>led x. case x of (k, Some w, Some own) \<Rightarrow> if True then led - active_tokens w else led | _ \<Rightarrow> led) led
      (map (\<lambda>k. (k, dict_get (req_workloads m) k, dict_get (req_owners m) k)) ks) =
    led - sum_list (map (charge (req_workloads m)) ks)" if "set ks \<subseteq> set (keys_of_request r m)" for ks led
    using that
  proof (induction ks arbitrary: led)
    case (Cons k ks)
    have "k \<in> fst ` set (req_workloads m)" using Cons.prems by (auto simp: keys_of_request_def)
    moreover from this have "k \<in> fst ` set (req_owners m)" using assms by (simp add: book_ok_def)
    ultimately have k: "in_dict k (req_workloads m)" "in_dict k (req_owners m)" by (simp_all only: in_dict_iff)
    then obtain w own where "dict_get (req_workloads m) k = Some w" "dict_get (req_owners m) k = Some own" by auto
    then show ?case using Cons by (simp add: charge_def)
  qed simp
  then show ?thesis by (simp add: reclaim_residual_workloads_def pop_residual_workloads_def Let_def)
qed

lemma update_workload_skip:
  "compute_and_update hw res r action info a m = (m, ans) \<Longrightarrow> (\<And>x. ans \<noteq> Inr (Some x)) \<Longrightarrow>
   fst (update_workload hw res r action info a ok (m, led)) = (m, led)"
  by (simp add: update_workload_def split: sum.split option.split)

lemma update_workload_some:
  "compute_and_update hw res r action info a m = (m1, Inr (Some (w, role))) \<Longrightarrow>
   fst (update_workload hw res r action info a ok (m, led)) =
     (if \<not> ok then (m1, led)
      else if action = RELEASE_TOKENS then (fst (finalize_release r role a m1), led + active_tokens w)
      else (m1, led + active_tokens w))"
  by (simp add: update_workload_def)

lemma finalize_state:
  "dict_get (req_workloads m) (make_workload_key r role a) = Some w \<Longrightarrow>
   fst (finalize_release r role a m) =
     m\<lparr>req_workloads := dict_pop (make_workload_key r role a) (req_workloads m),
       req_owners := dict_pop (make_workload_key r role a) (req_owners m)\<rparr>"
  by (simp add: finalize_release_def del_req_attempt_workload_def Let_def)

lemma ledger_step_ok:
  assumes ok: "book_ok m" and ap: "applied op" and s: "ledger_step (m, led) op = (m', led')"
  shows "book_ok m' \<and> led' - recorded m' = led - recorded m"
proof (cases op)
  case (Led_update hw res r action info a k)
  obtain m1 ans where c: "compute_and_update hw res r action info a m = (m1, ans)" by fastforce
  have s': "fst (update_workload hw res r action info a k (m, led)) = (m', led')" using s Led_update by simp
  show ?thesis
  proof (cases action)
    case ALLOCATION
    from c[unfolded ALLOCATION] show ?thesis
    proof (cases rule: allocate_cases)
      case 1
      then show ?thesis using s' update_workload_skip c ok by auto
    next
      case (2 w role own)
      then have m: "m' = m1" "led' = led + active_tokens w"
        using s' update_workload_some[of hw res r action info a m] c ap Led_update ALLOCATION by simp_all
      have "recorded m1 = recorded m + active_tokens w" using 2 by (simp only: recorded_set)
      moreover have "book_ok m1" using 2 ok by (simp add: book_ok_def)
      ultimately show ?thesis using m by simp
    qed
  next
    case RELEASE_TOKENS
    from c[unfolded RELEASE_TOKENS] show ?thesis
    proof (cases rule: release_cases)
      case 1
      then show ?thesis using s' update_workload_skip c ok by auto
    next
      case (2 w role)
      note u = update_workload_some[of hw res r action info a m, OF c[unfolded 2(1,2)], of k led]
      show ?thesis
      proof (cases k)
        case True
        note f = finalize_state[OF 2(3)]
        have m: "m' = fst (finalize_release r role a m)" "led' = led - active_tokens w"
          using s' u RELEASE_TOKENS True by simp_all
        have "book_ok m'" using ok unfolding m f by (simp add: book_ok_def)
        moreover have "recorded m' = recorded m - active_tokens w"
          unfolding m f recorded_def using sum_dict_pop[OF _ 2(3)] ok by (simp add: book_ok_def)
        ultimately show ?thesis using m by simp
      next
        case False
        then show ?thesis using s' u ok by simp
      qed
    qed
  qed
next
  case (Led_reclaim r answers)
  then show ?thesis using residual_frame[OF ok, of r] reclaim_all[OF ok, of r led] ap s by simp
qed

lemma ledger_run:
  "book_ok m \<Longrightarrow> list_all applied ops \<Longrightarrow> foldl ledger_step (m, led) ops = (m', led') \<Longrightarrow>
   book_ok m' \<and> led' - recorded m' = led - recorded m"
proof (induction ops arbitrary: m led)
  case (Cons op ops)
  obtain m1 led1 where s: "ledger_step (m, led) op = (m1, led1)" by fastforce
  note k = ledger_step_ok[OF Cons.prems(1) _ s]
  from Cons.IH[of m1 led1] Cons.prems(2,3) s k show ?case by simp
qed simp

lemma record_kept_step:
  assumes g: "dict_get (req_workloads m) (make_workload_key r role a) = Some w" and n: "\<not> may_remove r a op"
    and s: "ledger_step (m, led) op = (m', led')"
  shows "dict_get (req_workloads m') (make_workload_key r role a) = Some w"
proof (cases op)
  case (Led_update hw res r' action info a' k)
  obtain m1 ans where c: "compute_and_update hw res r' action info a' m = (m1, ans)" by fastforce
  have s': "fst (update_workload hw res r' action info a' k (m, led)) = (m', led')" using s Led_update by simp
  show ?thesis
  proof (cases action)
    case ALLOCATION
    from c[unfolded ALLOCATION] show ?thesis
    proof (cases rule: allocate_cases)
      case 1
      then show ?thesis using s' update_workload_skip c g by auto
    next
      case (2 w' role' own)
      then have "m' = m1" using s' update_workload_some[of hw res r' action info a' m] c ALLOCATION by (auto split: if_splits)
      then show ?thesis using 2 g by auto
    qed
  next
    case RELEASE_TOKENS
    from c[unfolded RELEASE_TOKENS] show ?thesis
    proof (cases rule: release_cases)
      case 1
      then show ?thesis using s' update_workload_skip c g by auto
    next
      case (2 w' role')
      note u = update_workload_some[of hw res r' action info a' m, OF c[unfolded 2(1,2)], of k led]
      have "k \<Longrightarrow> dict_get (req_workloads (fst (finalize_release r' role' a' m))) (make_workload_key r role a) = Some w"
        using g n Led_update RELEASE_TOKENS by (auto simp: finalize_release_def del_workloads)
      then show ?thesis using s' u g RELEASE_TOKENS by (auto split: if_splits)
    qed
  qed
next
  case (Led_reclaim r' answers)
  then have "make_workload_key r role a \<notin> set (keys_of_request r' m)" using n by (auto simp: keys_of_request_def)
  moreover have "m' = fst (pop_residual_workloads r' m)"
    using s Led_reclaim by (auto simp: reclaim_residual_workloads_def case_prod_unfold Let_def)
  ultimately show ?thesis
    using g by (simp add: pop_residual_workloads_def pop_keys_def get_pop_keys Let_def)
qed

lemma record_kept:
  "dict_get (req_workloads m) (make_workload_key r role a) = Some w \<Longrightarrow> list_all (\<lambda>op. \<not> may_remove r a op) ops \<Longrightarrow>
   foldl ledger_step (m, led) ops = (m', led') \<Longrightarrow> dict_get (req_workloads m') (make_workload_key r role a) = Some w"
proof (induction ops arbitrary: m led)
  case (Cons op ops)
  obtain m1 led1 where s: "ledger_step (m, led) op = (m1, led1)" by fastforce
  have "dict_get (req_workloads m1) (make_workload_key r role a) = Some w"
    using record_kept_step[OF Cons.prems(1) _ s] Cons.prems(2) by simp
  with Cons.IH[of m1 led1] Cons.prems(2,3) s show ?case by simp
qed simp

section \<open>Properties\<close>


text \<open>
  What an allocation charges is what its release gives back: after a charge for a request,
  attempt and role, and any steps that do not release or reclaim that request and attempt, a release
  on the same instance answers exactly the negated charge with the same role. Once the release is
  acknowledged, a second release answers nothing.
\<close>

theorem release_returns_charge:
  assumes al: "compute_and_update hw res r ALLOCATION info a m = (m1, Inr (Some (w, role)))"
    and k: "list_all (\<lambda>op. \<not> may_remove r a op) ops"
    and run: "foldl ledger_step (m1, led) ops = (m2, led2)"
  shows "compute_and_update hw' res r RELEASE_TOKENS info' a m2 = (m2, Inr (Some (\<lparr>active_tokens = - active_tokens w\<rparr>, role))) \<and>
    compute_and_update hw' res r RELEASE_TOKENS info' a (fst (finalize_release r role a m2)) =
      (fst (finalize_release r role a m2), Inr None)"
proof -
  from al have g: "dict_get (req_workloads m1) (make_workload_key r role a) = Some w"
    by (cases rule: allocate_cases) auto
  obtain x ins ep role' where x: "res = Some x" "sr_instance x = Some ins" "sr_endpoint x = Some ep" "normalize_role ins = Some role'"
    using al by (cases res rule: resource_cases) auto
  moreover have "role' = role"
    using al x by (simp add: compute_and_update_def split: sum.splits if_splits prod.splits)
  ultimately have e: "compute_and_update hw' res r RELEASE_TOKENS info' a m =
     (case dict_get (req_workloads m) (make_workload_key r role a) of
        None \<Rightarrow> (m, Inr None) | Some w \<Rightarrow> (m, Inr (Some (\<lparr>active_tokens = - active_tokens w\<rparr>, role))))" for m
    by (simp add: compute_and_update_def get_req_attempt_workload_def)
  show ?thesis using record_kept[OF g k run] by (simp add: e finalize_release_def del_workloads)
qed

text \<open>
  Popping the residual workloads of a request leaves no record of it, answers each of its records
  with the owner it was charged to, and leaves every record of every other request as it was.
\<close>

theorem residual_complete:
  assumes "book_ok m" and "pop_residual_workloads r m = (m1, popped)"
  shows "(\<forall>role a. get_req_attempt_workload r a role m1 = None) \<and>
    (\<forall>role a w. get_req_attempt_workload r a role m = Some w \<longrightarrow>
       (\<exists>own. (make_workload_key r role a, Some w, Some own) \<in> set popped \<and>
              dict_get (req_owners m) (make_workload_key r role a) = Some own)) \<and>
    (\<forall>r' role a. r' \<noteq> r \<longrightarrow> get_req_attempt_workload r' a role m1 = get_req_attempt_workload r' a role m) \<and>
    distinct (map fst popped)"
proof (intro conjI)
  have m1: "m1 = pop_keys (keys_of_request r m) m"
    and p: "popped = map (\<lambda>k. (k, dict_get (req_workloads m) k, dict_get (req_owners m) k)) (keys_of_request r m)"
    using assms(2) by (auto simp: pop_residual_workloads_def Let_def)
  have g: "get_req_attempt_workload r' a role m1 = (if r' = r then None else get_req_attempt_workload r' a role m)" for r' a role
    by (auto simp: m1 get_req_attempt_workload_def pop_keys_def get_pop_keys keys_of_request_def dict_get_None_iff)
  then show "\<forall>role a. get_req_attempt_workload r a role m1 = None"
    and "\<forall>r' role a. r' \<noteq> r \<longrightarrow> get_req_attempt_workload r' a role m1 = get_req_attempt_workload r' a role m" by simp_all
  show "distinct (map fst popped)" using assms(1) by (simp add: p keys_of_request_def book_ok_def comp_def)
  show "\<forall>role a w. get_req_attempt_workload r a role m = Some w \<longrightarrow>
           (\<exists>own. (make_workload_key r role a, Some w, Some own) \<in> set popped \<and>
                  dict_get (req_owners m) (make_workload_key r role a) = Some own)"
  proof (intro allI impI)
    fix role a w
    let ?k = "make_workload_key r role a"
    assume w: "get_req_attempt_workload r a role m = Some w"
    then have "in_dict ?k (req_workloads m)" by (simp add: get_req_attempt_workload_def)
    then have k: "?k \<in> fst ` set (req_workloads m)" by (simp only: in_dict_iff)
    then have "?k \<in> fst ` set (req_owners m)" using assms(1) by (simp add: book_ok_def)
    then have "in_dict ?k (req_owners m)" by (simp only: in_dict_iff)
    then obtain own where "dict_get (req_owners m) ?k = Some own" by auto
    moreover have "?k \<in> set (keys_of_request r m)" using k by (auto simp: keys_of_request_def)
    ultimately show "\<exists>own. (?k, Some w, Some own) \<in> set popped \<and> dict_get (req_owners m) ?k = Some own"
      using w by (auto simp: p get_req_attempt_workload_def image_iff)
  qed
qed

text \<open>
  Request IDs drawn while the microsecond clock does not go back (16-digit readings) are
  pairwise different, whatever the random suffixes and however many are drawn in one microsecond.
\<close>

theorem request_ids_distinct:
  assumes "0 \<le> rm_counter m" and "sorted (rm_last_timestamp m # map fst ds)"
    and "\<forall>(t, s) \<in> set ds. length (py_str_int t) = 16 \<and> length s = 8"
  shows "distinct (draw_ids m ds)"
  using assms
proof (induction ds arbitrary: m)
  case (Cons d ds)
  obtain t s where d: "d = (t, s)" by (cases d)
  define m1 where "m1 = fst (generate_request_id t s m)"
  have m1: "rm_last_timestamp m1 = t" "0 \<le> rm_counter m1"
    using Cons.prems d by (auto simp: m1_def generate_request_id_def Let_def)
  have i: "draw_ids m (d # ds) = (py_str_int t @ pad4 (rm_counter m1) @ s) # draw_ids m1 ds"
    by (simp add: d m1_def generate_request_id_def Let_def)
  have pre: "sorted (rm_last_timestamp m1 # map fst ds)" "\<forall>(t, s) \<in> set ds. length (py_str_int t) = 16 \<and> length s = 8"
    using Cons.prems d m1 by simp_all
  have "py_str_int t @ pad4 (rm_counter m1) @ s \<notin> set (draw_ids m1 ds)"
  proof
    assume "py_str_int t @ pad4 (rm_counter m1) @ s \<in> set (draw_ids m1 ds)"
    from draw_ids_later[OF m1(2) pre this] obtain t' c s' where
      e: "py_str_int t @ pad4 (rm_counter m1) @ s = py_str_int t' @ pad4 c @ s'" "length (py_str_int t') = 16"
         "length s' = 8" "0 \<le> c" "(rm_last_timestamp m1, rm_counter m1) < (t', c)" by blast
    have "t = t' \<and> rm_counter m1 = c"
      using id_parts[OF _ e(2) m1(2) e(4) _ e(1)] Cons.prems(3) d e(3) by simp
    then show False using e(5) m1(1) by simp
  qed
  then show ?case unfolding i using Cons.IH[OF m1(2) pre] by simp
qed simp

section \<open>Witnesses\<close>

lemmas demo_ledger_defs = demo_resource_def demo_request_def demo_charge_def demo_release_def empty_manager_def
  update_workload_def compute_and_update_def normalize_role_def allocation_workload_def demo_instance_def demo_endpoint_def
  PDRole_of_def calculate_demand_workload_def calculate_decode_scores_def add_req_attempt_workload_def
  make_workload_key_def get_req_attempt_workload_def Let_def


theorem release_returns_charge_witness:
  "let m = fst (compute_and_update (\<lambda>u. Inl ValueError) demo_resource ''r'' ALLOCATION demo_request (Some 1) empty_manager)
   in snd (compute_and_update (\<lambda>u. Inl ValueError) demo_resource ''r'' RELEASE_TOKENS demo_request (Some 1) m) =
      Inr (Some (\<lparr>active_tokens = - 12\<rparr>, ROLE_D))"
proof -
  obtain m1 where a: "compute_and_update (\<lambda>u. Inl ValueError) demo_resource ''r'' ALLOCATION demo_request (Some 1) empty_manager =
      (m1, Inr (Some (\<lparr>active_tokens = 12\<rparr>, ROLE_D)))"
    by (simp add: demo_ledger_defs)
  obtain m2 led2 where r: "foldl ledger_step (m1, 12) [demo_release False] = (m2, led2)" by fastforce
  have "m2 = m1" using r a by (auto simp: demo_ledger_defs)
  moreover have "list_all (\<lambda>op. \<not> may_remove ''r'' (Some 1) op) [demo_release False]" by (simp add: demo_release_def)
  note release_returns_charge[OF a this r]
  ultimately show ?thesis by (simp add: a)
qed

theorem residual_complete_witness:
  "let m = fst (foldl ledger_step (empty_manager, 0) [demo_charge])
   in get_req_attempt_workload ''r'' (Some 1) ROLE_D (fst (pop_residual_workloads ''r'' m)) = None \<and>
      (Attempt_key ''r'' 1 ROLE_D, Some \<lparr>active_tokens = 12\<rparr>, Some (7, 0)) \<in> set (snd (pop_residual_workloads ''r'' m))"
proof -
  define m where "m = fst (foldl ledger_step (empty_manager, 0) [demo_charge])"
  have m: "req_workloads m = [(Attempt_key ''r'' 1 ROLE_D, \<lparr>active_tokens = 12\<rparr>)]"
    "req_owners m = [(Attempt_key ''r'' 1 ROLE_D, (7, 0))]"
    by (simp_all add: m_def demo_ledger_defs)
  then have b: "book_ok m" by (simp add: book_ok_def)
  obtain m1 popped where p: "pop_residual_workloads ''r'' m = (m1, popped)" by fastforce
  from residual_complete[OF b p]
  have c: "\<forall>role a. get_req_attempt_workload ''r'' a role m1 = None"
    "\<forall>role a w. get_req_attempt_workload ''r'' a role m = Some w \<longrightarrow>
       (\<exists>own. (make_workload_key ''r'' role a, Some w, Some own) \<in> set popped \<and>
              dict_get (req_owners m) (make_workload_key ''r'' role a) = Some own)" by simp_all
  have "get_req_attempt_workload ''r'' (Some 1) ROLE_D m = Some \<lparr>active_tokens = 12\<rparr>"
    by (simp add: get_req_attempt_workload_def make_workload_key_def m)
  with c(2) have "(Attempt_key ''r'' 1 ROLE_D, Some \<lparr>active_tokens = 12\<rparr>, Some (7, 0)) \<in> set popped"
    by (fastforce simp: make_workload_key_def m)
  with c(1) p show ?thesis unfolding m_def[symmetric] by simp
qed

theorem request_ids_distinct_witness:
  "distinct (draw_ids empty_manager [(1700000000000000, ''aaaaaaaa''), (1700000000000000, ''aaaaaaaa''), (1700000000000001, ''aaaaaaaa'')])"
proof (rule request_ids_distinct)
  have "length (py_str_int 1700000000000000) = 16" "length (py_str_int 1700000000000001) = 16" by (simp_all add: py_str_int_def show_nat.simps)
  then show "\<forall>(t, s) \<in> set [(1700000000000000, ''aaaaaaaa''), (1700000000000000, ''aaaaaaaa''), (1700000000000001, ''aaaaaaaa'')].
      length (py_str_int t) = 16 \<and> length s = 8" by simp
qed (simp_all add: empty_manager_def)

end
