(* ===== verification/Image_Sizes.thy ===== *)
theory Image_Sizes
  imports Workload_Ledger "HOL-Library.Word"
begin

text \<open>
  The size of an image from its header, \<^verbatim>\<open>motor/common/utils/image_utils.py\<close>, which prices an image
  for the encode scheduler.

  A \<open>bytes\<close> object is a list of 8-bit words; reading outside of it raises \<open>IndexError\<close>, which is a
  branch of the model. The content of a file is the argument \<open>files\<close>, and the size PIL reports for a
  data URI the argument \<open>pil\<close>: PIL is not part of the repository.
\<close>

unbundle bit_operations_syntax

type_synonym bytes = "8 word list"

section \<open>Reading bytes\<close>

definition byte_at :: "bytes \<Rightarrow> nat \<Rightarrow> py_error + int" where
  "byte_at data i = (if i < length data then Inr (uint (data ! i)) else Inl IndexError)"

text \<open>
  \<open>(data[i] << 8) | data[i + 1]\<close>
\<close>

definition read16 :: "bytes \<Rightarrow> nat \<Rightarrow> py_error + int" where
  "read16 data i =
     (case byte_at data i of
        Inl e \<Rightarrow> Inl e
      | Inr a \<Rightarrow> (case byte_at data (i + 1) of Inl e \<Rightarrow> Inl e | Inr b \<Rightarrow> Inr (push_bit 8 a OR b)))"

text \<open>
  \<open>int.from_bytes(data, "big")\<close>
\<close>

definition from_bytes_big :: "bytes \<Rightarrow> int" where
  "from_bytes_big = foldl (\<lambda>acc b. acc * 256 + uint b) 0"

section \<open>JPEG and PNG headers\<close>

definition SOF_MARKERS :: "int set" where
  "SOF_MARKERS = {0xC0, 0xC1, 0xC2, 0xC3, 0xC5, 0xC6, 0xC7, 0xC9, 0xCA, 0xCB, 0xCD, 0xCE, 0xCF}"

text \<open>
  The loop of \<open>parse_jpeg_size\<close>; leaving it raises \<open>ValueError\<close>.
\<close>

function parse_jpeg_from :: "bytes \<Rightarrow> nat \<Rightarrow> py_error + int \<times> int" where
  "parse_jpeg_from data idx =
     (if idx + 9 < length data
      then case byte_at data idx of
             Inl e \<Rightarrow> Inl e
           | Inr prefix \<Rightarrow>
               if prefix \<noteq> 0xFF then parse_jpeg_from data (idx + 1)
               else case byte_at data (idx + 1) of
                      Inl e \<Rightarrow> Inl e
                    | Inr marker \<Rightarrow>
                        if marker = 0xFF then parse_jpeg_from data (idx + 1)
                        else if marker \<in> SOF_MARKERS
                        then (case read16 data (idx + 5) of
                                Inl e \<Rightarrow> Inl e
                              | Inr h \<Rightarrow> (case read16 data (idx + 7) of Inl e \<Rightarrow> Inl e | Inr w \<Rightarrow> Inr (w, h)))
                        else if marker \<in> {0xD9, 0xDA} then Inl ValueError
                        else if length data \<le> idx + 3 then Inl ValueError
                        else (case read16 data (idx + 2) of
                                Inl e \<Rightarrow> Inl e
                              | Inr seg_len \<Rightarrow>
                                  if seg_len < 2 then Inl ValueError
                                  else parse_jpeg_from data (idx + 2 + nat seg_len))
      else Inl ValueError)"
  by pat_completeness auto
termination
  by (relation "measure (\<lambda>(data, idx). length data - idx)") auto

definition parse_jpeg_size :: "bytes \<Rightarrow> py_error + int \<times> int" where
  "parse_jpeg_size data =
     (if length data < 2 \<or> take 2 data \<noteq> [0xFF, 0xD8] then Inl ValueError else parse_jpeg_from data 2)"

definition parse_png_size :: "bytes \<Rightarrow> int \<times> int" where
  "parse_png_size data = (from_bytes_big (take 4 (drop 16 data)), from_bytes_big (take 4 (drop 20 data)))"

section \<open>Where the image comes from\<close>

definition get_hw_from_local :: "(string \<Rightarrow> py_error + bytes) \<Rightarrow> string \<Rightarrow> py_error + int \<times> int" where
  "get_hw_from_local files path =
     (case files (if py_startswith path ''file://'' then drop 7 path else path) of
        Inl e \<Rightarrow> Inl e
      | Inr content \<Rightarrow>
          (let data = take 65536 content
           in if take 4 data = [0x89, 0x50, 0x4E, 0x47] then Inr (parse_png_size data) else parse_jpeg_size data))"

definition image_hw ::
  "(string \<Rightarrow> py_error + int \<times> int) \<Rightarrow> (string \<Rightarrow> py_error + bytes) \<Rightarrow> string \<Rightarrow> py_error + int \<times> int" where
  "image_hw pil files img_url =
     (if py_startswith img_url ''data:image'' then pil img_url else get_hw_from_local files img_url)"

section \<open>The format, as a specification\<close>

text \<open>
  A JPEG file up to its frame header: the start marker, segments that are neither a frame header nor
  the start of the scan or the end of the image, each after any number of fill bytes and with a
  payload of any content, then the frame header with precision, height and width, and more data.
\<close>

record jpeg_segment =
  fill :: nat
  marker :: "8 word"
  payload :: bytes

definition hi_byte :: "int \<Rightarrow> 8 word" where
  "hi_byte n = word_of_int (n div 256)"

definition lo_byte :: "int \<Rightarrow> 8 word" where
  "lo_byte n = word_of_int n"

definition segment_bytes :: "jpeg_segment \<Rightarrow> bytes" where
  "segment_bytes s = replicate (fill s) 0xFF @
     [0xFF, marker s, hi_byte (int (length (payload s)) + 2), lo_byte (int (length (payload s)) + 2)] @ payload s"

definition segment_ok :: "jpeg_segment \<Rightarrow> bool" where
  "segment_ok s \<longleftrightarrow> uint (marker s) \<notin> SOF_MARKERS \<and> marker s \<notin> {0xFF, 0xD9, 0xDA} \<and> length (payload s) + 2 < 65536"

definition frame_header :: "nat \<Rightarrow> 8 word \<Rightarrow> 8 word \<Rightarrow> 8 word \<Rightarrow> 8 word \<Rightarrow> int \<Rightarrow> int \<Rightarrow> bytes" where
  "frame_header n sof l1 l2 precision h w =
     replicate n 0xFF @ [0xFF, sof, l1, l2, precision, hi_byte h, lo_byte h, hi_byte w, lo_byte w]"

declare parse_jpeg_from.simps [simp del]

section \<open>Bytes\<close>

lemma byte_at_in [simp]: "i < length data \<Longrightarrow> byte_at data i = Inr (uint (data ! i))"
  by (simp add: byte_at_def)

lemma join_bytes: "push_bit 8 (uint a) OR uint b = uint a * 256 + uint b" for a b :: "8 word"
proof -
  have "take_bit 8 (uint b) = uint b" using uint_lt2p[of b] by (simp add: take_bit_int_eq_self)
  then have "push_bit 8 (uint a) OR uint b = concat_bit 8 (uint b) (uint a)" by (simp add: concat_bit_def or.commute)
  also have "\<dots> = uint a * 256 + uint b"
    using \<open>take_bit 8 (uint b) = uint b\<close> by (simp add: concat_bit_eq push_bit_eq_mult)
  finally show ?thesis .
qed

lemma read16_in: "i + 1 < length data \<Longrightarrow> read16 data i = Inr (uint (data ! i) * 256 + uint (data ! (i + 1)))"
  by (simp add: read16_def join_bytes)

lemma header_reads:
  assumes "idx + 9 < length data"
  shows "read16 data (idx + 2) = Inr (uint (data ! (idx + 2)) * 256 + uint (data ! (idx + 3)))"
    "read16 data (Suc (Suc idx)) = Inr (uint (data ! Suc (Suc idx)) * 256 + uint (data ! (idx + 3)))"
    "read16 data (idx + 5) = Inr (uint (data ! (idx + 5)) * 256 + uint (data ! (idx + 6)))"
    "read16 data (idx + 7) = Inr (uint (data ! (idx + 7)) * 256 + uint (data ! (idx + 8)))"
  using assms read16_in[of "idx + 2" data] read16_in[of "idx + 5" data] read16_in[of "idx + 7" data]
  by (simp_all add: eval_nat_numeral)

lemma byte_bound: "0 \<le> uint a" "uint a < 256" for a :: "8 word"
  using uint_lt2p[of a] by simp_all

lemma two_bytes_bound: "0 \<le> uint a * 256 + uint b" "uint a * 256 + uint b < 65536" for a b :: "8 word"
  using byte_bound[of a] byte_bound[of b] by linarith+

lemma hi_lo:
  assumes "0 \<le> n" and "n < 65536"
  shows "uint (hi_byte n) * 256 + uint (lo_byte n) = n"
proof -
  have "uint (hi_byte n) = n div 256" using assms by (simp add: hi_byte_def uint_word_of_int)
  moreover have "uint (lo_byte n) = n mod 256" by (simp add: lo_byte_def uint_word_of_int)
  ultimately show ?thesis by (simp add: mult.commute)
qed

lemma uint_marker: "uint (m :: 8 word) = 255 \<longleftrightarrow> m = 0xFF" "uint m = 217 \<longleftrightarrow> m = 0xD9" "uint m = 218 \<longleftrightarrow> m = 0xDA"
  by (simp_all add: word_uint_eq_iff)

section \<open>The scan of a header\<close>

text \<open>
  What the loop does at a given position.
\<close>

lemma parse_end: "\<not> idx + 9 < length data \<Longrightarrow> parse_jpeg_from data idx = Inl ValueError"
  by (simp add: parse_jpeg_from.simps[of data idx])

lemma parse_pad:
  assumes "idx + 9 < length data" and "data ! idx = 0xFF" and "data ! (idx + 1) = 0xFF"
  shows "parse_jpeg_from data idx = parse_jpeg_from data (idx + 1)"
  using assms by (simp add: parse_jpeg_from.simps[of data idx])

lemma parse_sof:
  assumes "idx + 9 < length data" and "data ! idx = 0xFF" and "uint (data ! (idx + 1)) \<in> SOF_MARKERS"
  shows "parse_jpeg_from data idx =
    Inr (uint (data ! (idx + 7)) * 256 + uint (data ! (idx + 8)), uint (data ! (idx + 5)) * 256 + uint (data ! (idx + 6)))"
proof -
  have "uint (data ! (idx + 1)) \<noteq> 255" using assms(3) by (auto simp: SOF_MARKERS_def)
  then show ?thesis using assms by (simp add: parse_jpeg_from.simps[of data idx] header_reads)
qed

lemma parse_skip:
  assumes "idx + 9 < length data" and "data ! idx = 0xFF" and "uint (data ! (idx + 1)) \<notin> SOF_MARKERS"
    and "data ! (idx + 1) \<notin> {0xFF, 0xD9, 0xDA}"
    and "uint (data ! (idx + 2)) * 256 + uint (data ! (idx + 3)) = int n" and "2 \<le> n"
  shows "parse_jpeg_from data idx = parse_jpeg_from data (idx + 2 + n)"
  using assms by (simp add: parse_jpeg_from.simps[of data idx] uint_marker header_reads)

text \<open>
  Whatever the bytes are, the loop ends with a size of two 16-bit numbers or with \<open>ValueError\<close>; no
  index is out of range.
\<close>

lemma parse_total:
  "parse_jpeg_from data idx = Inl ValueError \<or>
   (\<exists>w h. parse_jpeg_from data idx = Inr (w, h) \<and> 0 \<le> w \<and> w < 65536 \<and> 0 \<le> h \<and> h < 65536)"
proof (induction data idx rule: parse_jpeg_from.induct)
  case (1 data idx)
  note IH = 1
  show ?case
  proof (cases "idx + 9 < length data")
    case True
    let ?m = "uint (data ! (idx + 1))" let ?n = "uint (data ! (idx + 2)) * 256 + uint (data ! (idx + 3))"
    have p: "byte_at data idx = Inr (uint (data ! idx))" "byte_at data (idx + 1) = Inr ?m" "read16 data (idx + 2) = Inr ?n"
      using True by (simp_all add: header_reads)
    note IH1 = IH(1)[OF True p(1)] and IH2 = IH(2)[OF True p(1) _ p(2)] and IH3 = IH(3)[OF True p(1) _ p(2) _ _ _ _ p(3)]
    consider "uint (data ! idx) \<noteq> 255" | "uint (data ! idx) = 255" "?m = 255"
      | "uint (data ! idx) = 255" "?m \<noteq> 255" "?m \<in> SOF_MARKERS"
      | "uint (data ! idx) = 255" "?m \<noteq> 255" "?m \<notin> SOF_MARKERS" "?m \<in> {217, 218} \<or> ?n < 2"
      | "uint (data ! idx) = 255" "?m \<noteq> 255" "?m \<notin> SOF_MARKERS" "?m \<notin> {217, 218}" "\<not> ?n < 2" by blast
    then show ?thesis
    proof cases
      case 3
      then show ?thesis using parse_sof[of idx data] True two_bytes_bound by (simp add: uint_marker)
    next
      case 4
      then show ?thesis using True by (auto simp: parse_jpeg_from.simps[of data idx] header_reads)
    next
      case 5
      then show ?thesis using True IH3 by (simp add: parse_jpeg_from.simps[of data idx] header_reads)
    qed (use True IH1 IH2 in \<open>simp_all add: parse_jpeg_from.simps[of data idx]\<close>)
  qed (simp add: parse_end)
qed

section \<open>Reading back a header\<close>

lemma parse_fill:
  assumes "data = pre @ replicate n 0xFF @ 0xFF # post" and "length pre + n + 9 < length data"
  shows "parse_jpeg_from data (length pre) = parse_jpeg_from data (length pre + n)"
  using assms
proof (induction n arbitrary: pre)
  case (Suc n)
  have d: "data = (pre @ [0xFF]) @ replicate n 0xFF @ 0xFF # post" using Suc.prems(1) by simp
  have "data ! length pre = 0xFF" "data ! (length pre + 1) = 0xFF"
    using Suc.prems(1) by (cases n; simp add: nth_append)+
  then have "parse_jpeg_from data (length pre) = parse_jpeg_from data (length (pre @ [0xFF]))"
    using parse_pad[of "length pre" data] Suc.prems(2) by simp
  then show ?case using Suc.IH[OF d] Suc.prems(2) by simp
qed simp

lemma parse_segment:
  assumes ok: "segment_ok s" and d: "data = pre @ segment_bytes s @ post" and p: "6 \<le> length post"
  shows "parse_jpeg_from data (length pre) = parse_jpeg_from data (length (pre @ segment_bytes s))"
proof -
  let ?n = "length (payload s) + 2" let ?pre = "pre @ replicate (fill s) 0xFF"
  have d2: "data = ?pre @ 0xFF # marker s # hi_byte (int ?n) # lo_byte (int ?n) # payload s @ post"
    using d by (simp add: segment_bytes_def add.commute)
  have l: "length ?pre + 9 < length data" using p by (simp add: d2)
  have x: "data ! length ?pre = 0xFF" "data ! (length ?pre + 1) = marker s" "data ! (length ?pre + 2) = hi_byte (int ?n)"
    "data ! (length ?pre + 3) = lo_byte (int ?n)"
    unfolding d2 nth_append_length_plus by (simp_all add: nth_append)
  have "uint (hi_byte (int ?n)) * 256 + uint (lo_byte (int ?n)) = int ?n" using ok by (intro hi_lo) (simp_all add: segment_ok_def)
  then have "parse_jpeg_from data (length ?pre) = parse_jpeg_from data (length ?pre + 2 + ?n)"
    using ok l by (intro parse_skip) (simp_all only: x segment_ok_def, simp_all)
  moreover have "parse_jpeg_from data (length pre) = parse_jpeg_from data (length pre + fill s)"
    using parse_fill[of data pre "fill s"] d2 l by simp
  ultimately show ?thesis by (simp add: segment_bytes_def add.assoc)
qed

lemma parse_frame:
  assumes d: "data = pre @ frame_header n sof l1 l2 precision h w @ post" and "post \<noteq> []" and "uint sof \<in> SOF_MARKERS"
    and "0 \<le> h" "h < 65536" "0 \<le> w" "w < 65536"
  shows "parse_jpeg_from data (length pre) = Inr (w, h)"
proof -
  let ?pre = "pre @ replicate n 0xFF"
  have d2: "data = ?pre @ [0xFF, sof, l1, l2, precision, hi_byte h, lo_byte h, hi_byte w, lo_byte w] @ post"
    using d by (simp add: frame_header_def)
  have l: "length ?pre + 9 < length data" using assms(2) by (simp add: d2)
  have x: "data ! length ?pre = 0xFF" "data ! (length ?pre + 1) = sof" "data ! (length ?pre + 5) = hi_byte h"
    "data ! (length ?pre + 6) = lo_byte h" "data ! (length ?pre + 7) = hi_byte w" "data ! (length ?pre + 8) = lo_byte w"
    unfolding d2 nth_append_length_plus by (simp_all add: nth_append)
  have "parse_jpeg_from data (length ?pre) = Inr (w, h)"
    using parse_sof[of "length ?pre" data] l assms(3-7) unfolding x by (simp add: hi_lo)
  moreover have "parse_jpeg_from data (length pre) = parse_jpeg_from data (length pre + n)"
    using parse_fill[of data pre n] d2 l by simp
  ultimately show ?thesis by simp
qed

lemma parse_segments:
  assumes "list_all segment_ok segs" and "data = pre @ concat (map segment_bytes segs) @ frame_header n sof l1 l2 precision h w @ post"
    and "post \<noteq> []" "uint sof \<in> SOF_MARKERS" "0 \<le> h" "h < 65536" "0 \<le> w" "w < 65536"
  shows "parse_jpeg_from data (length pre) = Inr (w, h)"
  using assms(1,2)
proof (induction segs arbitrary: pre)
  case Nil
  then show ?case using parse_frame[of data pre n sof l1 l2 precision h w post] assms(3-) by simp
next
  case (Cons s segs)
  let ?post = "concat (map segment_bytes segs) @ frame_header n sof l1 l2 precision h w @ post"
  have "6 \<le> length ?post" by (simp add: frame_header_def)
  with Cons.prems have "parse_jpeg_from data (length pre) = parse_jpeg_from data (length (pre @ segment_bytes s))"
    by (intro parse_segment[where post = ?post]) simp_all
  then show ?case using Cons.IH[of "pre @ segment_bytes s"] Cons.prems by simp
qed

section \<open>Properties\<close>

text \<open>
  Reading the size of a JPEG always ends, whatever the bytes are, and either raises
  \<open>ValueError\<close> or answers two numbers below \<open>2 ^ 16\<close>; in particular no index is ever out of range.
\<close>

theorem jpeg_size_total:
  "parse_jpeg_size data = Inl ValueError \<or>
   (\<exists>w h. parse_jpeg_size data = Inr (w, h) \<and> 0 \<le> w \<and> w < 2 ^ 16 \<and> 0 \<le> h \<and> h < 2 ^ 16)"
  using parse_total[of data 2] by (simp add: parse_jpeg_size_def)

text \<open>
  The size and the price of a JPEG are read back from its bytes. For a file with any segments
  (with any payload, also one that looks like a frame header) before a frame header of width \<open>w\<close> and
  height \<open>h\<close> that ends within the first 64 KiB and is followed by data, the local lookup answers
  \<open>(w, h)\<close> and the price is the number of 32 by 32 patches that cover the image.
\<close>

theorem jpeg_size_read_back:
  assumes segs: "list_all segment_ok segs" and sof: "uint sof \<in> SOF_MARKERS"
    and h: "0 \<le> h" "h < 2 ^ 16" and w: "0 \<le> w" "w < 2 ^ 16" and post: "post \<noteq> []"
    and header: "header = [0xFF, 0xD8] @ concat (map segment_bytes segs) @ frame_header n sof l1 l2 precision h w"
    and fits: "length header < 65536" and stored: "files path = Inr (header @ post)"
  shows "get_hw_from_local files (''file://'' @ path) = Inr (w, h) \<and>
    get_mul_token (image_hw pil files) (''file://'' @ path) = Inr (of_int (\<lceil>of_int w / 32 :: pyfloat\<rceil> * \<lceil>of_int h / 32 :: pyfloat\<rceil>))"
proof -
  let ?post = "take (65536 - length header) post"
  define data where "data = header @ ?post"
  have d: "take 65536 (header @ post) = data" using fits by (simp add: data_def)
  have "?post \<noteq> []" using fits post by simp
  then have p: "parse_jpeg_from data (length [0xFF, 0xD8 :: 8 word]) = Inr (w, h)"
    using segs sof h w by (intro parse_segments[where post = ?post and segs = segs]) (simp_all add: header data_def)
  have "take 4 data \<noteq> [0x89, 0x50, 0x4E, 0x47]" "take 2 data = [0xFF, 0xD8]" "2 \<le> length data" by (simp_all add: header data_def)
  then have "parse_jpeg_size data = Inr (w, h)" using p by (simp add: parse_jpeg_size_def numeral_2_eq_2)
  then have found: "get_hw_from_local files (''file://'' @ path) = Inr (w, h)"
    using \<open>take 4 data \<noteq> [0x89, 0x50, 0x4E, 0x47]\<close> by (simp add: get_hw_from_local_def Let_def py_startswith_def stored d del: take_append)
  then show ?thesis by (simp add: get_mul_token_def image_hw_def py_startswith_def)
qed

section \<open>Witnesses\<close>

theorem jpeg_size_read_back_witness:
  "get_hw_from_local (\<lambda>p. Inr ([0xFF, 0xD8, 0xFF, 0xE0, 0, 6, 0xFF, 0xC0, 1, 2, 0xFF, 0xFF, 0xC2, 0, 11, 8, 2, 0x80, 1, 0x40] @ [3]))
     ''file://a.jpg'' = Inr (320, 640)"
proof -
  let ?segs = "[\<lparr>fill = 0, marker = 0xE0, payload = [0xFF, 0xC0, 1, 2]\<rparr>]"
  let ?header = "[0xFF, 0xD8, 0xFF, 0xE0, 0, 6, 0xFF, 0xC0, 1, 2, 0xFF, 0xFF, 0xC2, 0, 11, 8, 2, 0x80, 1, 0x40]"
  have "?header = [0xFF, 0xD8] @ concat (map segment_bytes ?segs) @ frame_header 1 0xC2 0 11 8 640 320"
    by (simp add: segment_bytes_def frame_header_def hi_byte_def lo_byte_def)
  from jpeg_size_read_back[OF _ _ _ _ _ _ _ this, of "[3]" "\<lambda>p. Inr (?header @ [3])" "''a.jpg''"] show ?thesis
    by (simp add: segment_ok_def SOF_MARKERS_def)
qed

end
