(* ===== verification/Coordinator_Pools.thy ===== *)
theory Coordinator_Pools
  imports Resources
begin

text \<open>
  The coordinator's instance pools: \<^verbatim>\<open>motor/coordinator/domain/instance_manager.py\<close> and the readiness
  derived from them in \<^verbatim>\<open>motor/coordinator/domain/scheduling.py\<close>.

  An \<open>Instance\<close> object is shared between the available pool, its role pool and the endpoint index,
  and it is mutated through any of them. Objects therefore live in a heap (a list, an address is a
  position), the pools hold addresses and the index holds the address of an instance with the path
  of an endpoint in it. A refresh request brings new objects.

  Every operation runs to its end under the manager's lock or without awaiting, so it is one step.
  An operation that raises answers \<open>Inl\<close> together with the state it has reached. The iteration
  order of a Python \<open>set\<close> is the argument \<open>ord\<close>; the messages to the KV conductor are kept in a log.
\<close>

section \<open>Identity of an instance\<close>

datatype EventType = ADD | DEL | SET | PAUSE | RESUME

datatype UpdateInstanceMode = AVAILABLE | UNAVAILABLE

text \<open>
  \<open>sorted\<close> on tuples; two entries that differ first in an optional port (and so agree on pod, ID, IP
  and business port) would make Python compare \<open>None\<close> with an integer, which is ordered here.
\<close>

definition endpoint_identity ::
  "Instance \<Rightarrow> (string \<times> int \<times> string \<times> string \<times> int option \<times> int option \<times> bool) list" where
  "endpoint_identity ins =
     sort (map (\<lambda>((pod, k), ep). (pod, ep_id ep, ep_ip ep, business_port ep, bootstrap_port ep, kv_events_port ep, headless ep))
             (ep_entries ins))"

definition same_add_identity :: "Instance \<Rightarrow> Instance \<Rightarrow> bool" where
  "same_add_identity existing new \<longleftrightarrow>
     ins_role existing = ins_role new \<and> job_name existing = job_name new \<and>
     endpoint_identity existing = endpoint_identity new"

definition delete_endpoint_identity :: "Instance \<Rightarrow> (string \<times> string \<times> int \<times> bool) list" where
  "delete_endpoint_identity ins =
     sort (map (\<lambda>ep. (ep_ip ep, business_port ep, (case bootstrap_port ep of Some p \<Rightarrow> p | None \<Rightarrow> 0), headless ep))
             (all_eps ins))"

definition same_delete_identity :: "Instance \<Rightarrow> Instance \<Rightarrow> bool" where
  "same_delete_identity existing requested \<longleftrightarrow>
     ins_role existing = ins_role requested \<and> delete_endpoint_identity existing = delete_endpoint_identity requested"

definition role_to_pdrole :: "string \<Rightarrow> py_error + PDRole" where
  "role_to_pdrole r = (case PDRole_of r of Some p \<Rightarrow> Inr p | None \<Rightarrow> Inl ValueError)"

definition ep_sig :: "Instance \<Rightarrow> (string \<times> int \<times> string \<times> string \<times> int option) set" where
  "ep_sig ins = set (map (\<lambda>((pod, k), ep). (pod, ep_id ep, ep_ip ep, business_port ep, kv_events_port ep)) (ep_entries ins))"

definition instance_needs_update :: "Instance \<Rightarrow> Instance \<Rightarrow> bool" where
  "instance_needs_update existing new \<longleftrightarrow>
     job_name existing \<noteq> job_name new \<or> model_name existing \<noteq> model_name new \<or>
     engine_type existing \<noteq> engine_type new \<or> dispatch_capabilities existing \<noteq> dispatch_capabilities new \<or>
     ins_role existing \<noteq> ins_role new \<or> parallel_config existing \<noteq> parallel_config new \<or>
     enable_multi_endpoints existing \<noteq> enable_multi_endpoints new \<or>
     map (\<lambda>nm. (pod_ip nm, nm_port nm, device_num nm)) (node_managers existing) \<noteq>
       map (\<lambda>nm. (pod_ip nm, nm_port nm, device_num nm)) (node_managers new) \<or>
     ep_sig existing \<noteq> ep_sig new"

section \<open>Workload of an instance\<close>

definition clamp_workload_floor :: "Workload \<Rightarrow> Workload \<times> bool" where
  "clamp_workload_floor w = (if active_tokens w < 0 then (\<lparr>active_tokens = 0\<rparr>, True) else (w, False))"

text \<open>
  Assigning to every endpoint object of an instance, and to the one at a path.
\<close>

definition map_endpoints :: "(Endpoint \<Rightarrow> Endpoint) \<Rightarrow> Instance \<Rightarrow> Instance" where
  "map_endpoints f ins = ins\<lparr>endpoints := map (\<lambda>(pod, eps). (pod, map (\<lambda>(k, ep). (k, f ep)) eps)) (endpoints ins)\<rparr>"

definition modify_endpoint :: "string \<times> int \<Rightarrow> (Endpoint \<Rightarrow> Endpoint) \<Rightarrow> Instance \<Rightarrow> Instance" where
  "modify_endpoint path f ins =
     ins\<lparr>endpoints := dict_modify (fst path) (dict_modify (snd path) f) (endpoints ins)\<rparr>"

definition ep_tokens :: "Endpoint \<Rightarrow> pyfloat" where
  "ep_tokens ep = active_tokens (ep_workload ep)"

definition rebuild_instance_workload :: "Instance \<Rightarrow> Instance \<times> bool" where
  "rebuild_instance_workload ins =
     (let ins1 = map_endpoints (\<lambda>ep. ep\<lparr>ep_workload := fst (clamp_workload_floor (ep_workload ep))\<rparr>) ins
      in (ins1\<lparr>gathered_workload := \<lparr>active_tokens = sum_list (map ep_tokens (all_eps ins1))\<rparr>\<rparr>,
          list_ex (\<lambda>ep. snd (clamp_workload_floor (ep_workload ep))) (all_eps ins)))"

definition reset_workload :: "Instance \<Rightarrow> Instance" where
  "reset_workload ins =
     map_endpoints (\<lambda>ep. ep\<lparr>ep_workload := empty_workload\<rparr>) (ins\<lparr>gathered_workload := empty_workload\<rparr>)"

section \<open>Pools\<close>

text \<open>
  \<open>role_pools\<close> is the dictionary \<open>_available_role_pools\<close>, whose values are the encode, prefill, decode
  and hybrid pools. The dictionary of workload locks is never filled.
\<close>

record InstancePools =
  is_mgmt :: bool
  cp_heap :: "Instance list"
  available_pool :: "(int, nat) dict"
  unavailable_pool :: "(int, nat) dict"
  paused_pool :: "(int, nat) dict"
  role_pools :: "PDRole \<Rightarrow> (int, nat) dict"
  endpoint_id_cache :: "(int, (int, nat \<times> string \<times> int) dict) dict"
  kv_log :: "(bool \<times> int list) list"

definition InstancePools_init :: "bool \<Rightarrow> InstancePools" where
  "InstancePools_init mgmt = \<lparr>is_mgmt = mgmt, cp_heap = [], available_pool = [], unavailable_pool = [], paused_pool = [],
     role_pools = (\<lambda>role. []), endpoint_id_cache = [], kv_log = []\<rparr>"

definition stop_pools :: "InstancePools \<Rightarrow> InstancePools" where
  "stop_pools s = s\<lparr>available_pool := [], unavailable_pool := [], paused_pool := [],
     role_pools := (\<lambda>role. []), endpoint_id_cache := []\<rparr>"

definition obj :: "InstancePools \<Rightarrow> nat \<Rightarrow> Instance" where
  "obj s r = cp_heap s ! r"

definition heap_modify :: "nat \<Rightarrow> (Instance \<Rightarrow> Instance) \<Rightarrow> InstancePools \<Rightarrow> InstancePools" where
  "heap_modify r f s = s\<lparr>cp_heap := (cp_heap s)[r := f (cp_heap s ! r)]\<rparr>"

text \<open>
  \<open>{**a, **b}\<close>, and the queries.
\<close>

definition dict_merge :: "('k, 'v) dict \<Rightarrow> ('k, 'v) dict \<Rightarrow> ('k, 'v) dict" where
  "dict_merge a b = foldl (\<lambda>d x. dict_set (fst x) (snd x) d) a b"

definition co_get_available_instances :: "PDRole option \<Rightarrow> InstancePools \<Rightarrow> (int, nat) dict" where
  "co_get_available_instances role s =
     (case role of
        None \<Rightarrow> dict_merge (dict_merge (dict_merge (role_pools s ROLE_E) (role_pools s ROLE_P)) (role_pools s ROLE_D)) (role_pools s ROLE_U)
      | Some p \<Rightarrow> role_pools s p)"

definition co_get_all_instances :: "InstancePools \<Rightarrow> (int, nat) dict \<times> (int, nat) dict" where
  "co_get_all_instances s = (available_pool s, unavailable_pool s)"

definition snapshot_instances :: "InstancePools \<Rightarrow> nat list" where
  "snapshot_instances s = dict_values (available_pool s) @ dict_values (unavailable_pool s) @ dict_values (paused_pool s)"

definition get_tracked_instance_pool :: "int \<Rightarrow> InstancePools \<Rightarrow> string option" where
  "get_tracked_instance_pool i s =
     (if in_dict i (available_pool s) then Some ''available''
      else if in_dict i (unavailable_pool s) then Some ''unavailable''
      else if in_dict i (paused_pool s) then Some ''paused''
      else None)"

definition find_instance_by_id :: "int \<Rightarrow> InstancePools \<Rightarrow> nat option" where
  "find_instance_by_id i s =
     (case dict_get (available_pool s) i of
        Some r \<Rightarrow> Some r
      | None \<Rightarrow> (case dict_get (unavailable_pool s) i of
                  Some r \<Rightarrow> Some r
                | None \<Rightarrow> dict_get (paused_pool s) i))"

definition find_instance_by_job_name :: "string \<Rightarrow> InstancePools \<Rightarrow> nat option" where
  "find_instance_by_job_name jn s = find (\<lambda>r. job_name (obj s r) = jn) (snapshot_instances s)"

subsection \<open>The available pool and its indexes\<close>

definition build_endpoint_cache :: "nat \<Rightarrow> Instance \<Rightarrow> (int, nat \<times> string \<times> int) dict" where
  "build_endpoint_cache r ins = foldl (\<lambda>d x. dict_set (ep_id (snd x)) (r, fst x) d) [] (ep_entries ins)"

definition find_available_pool :: "int \<Rightarrow> InstancePools \<Rightarrow> py_error + PDRole option" where
  "find_available_pool i s =
     (case dict_get (available_pool s) i of
        None \<Rightarrow> Inr None
      | Some r \<Rightarrow> map_sum id Some (role_to_pdrole (ins_role (obj s r))))"

definition put_available :: "nat \<Rightarrow> PDRole \<Rightarrow> InstancePools \<Rightarrow> InstancePools" where
  "put_available r role s =
     (let ins = obj s r; i = ins_id ins
      in s\<lparr>role_pools := (role_pools s)(role := dict_set i r (role_pools s role)),
           available_pool := dict_set i r (available_pool s),
           endpoint_id_cache := dict_set i (build_endpoint_cache r ins) (endpoint_id_cache s)\<rparr>)"

definition add_instance_to_available_pool :: "nat \<Rightarrow> InstancePools \<Rightarrow> InstancePools \<times> (py_error + bool)" where
  "add_instance_to_available_pool r s =
     (case role_to_pdrole (ins_role (obj s r)) of
        Inl e \<Rightarrow> (s, Inl e)
      | Inr role \<Rightarrow>
          if in_dict (ins_id (obj s r)) (available_pool s) then (s, Inr False)
          else (put_available r role s, Inr True))"

definition drop_available :: "int \<Rightarrow> PDRole \<Rightarrow> InstancePools \<Rightarrow> InstancePools" where
  "drop_available i role s =
     s\<lparr>role_pools := (role_pools s)(role := dict_pop i (role_pools s role)),
       available_pool := dict_pop i (available_pool s),
       endpoint_id_cache := dict_pop i (endpoint_id_cache s)\<rparr>"

definition delete_instance_from_available_pool :: "int \<Rightarrow> InstancePools \<Rightarrow> InstancePools \<times> (py_error + bool)" where
  "delete_instance_from_available_pool i s =
     (case find_available_pool i s of
        Inl e \<Rightarrow> (s, Inl e)
      | Inr None \<Rightarrow> (s, Inr False)
      | Inr (Some role) \<Rightarrow>
          if \<not> in_dict i (role_pools s role) then (s, Inl KeyError)
          else (drop_available i role s, Inr True))"

definition remove_instance_from_all_pools :: "int \<Rightarrow> InstancePools \<Rightarrow> InstancePools \<times> (py_error + bool)" where
  "remove_instance_from_all_pools i s =
     (if in_dict i (available_pool s) then delete_instance_from_available_pool i s
      else if in_dict i (unavailable_pool s) then (s\<lparr>unavailable_pool := dict_pop i (unavailable_pool s)\<rparr>, Inr True)
      else if in_dict i (paused_pool s) then (s\<lparr>paused_pool := dict_pop i (paused_pool s)\<rparr>, Inr True)
      else (s, Inr False))"

subsection \<open>Workload updates\<close>

definition ensure_endpoint_cache :: "int \<Rightarrow> nat \<Rightarrow> InstancePools \<Rightarrow> InstancePools \<times> (int, nat \<times> string \<times> int) dict" where
  "ensure_endpoint_cache i r s =
     (case dict_get (endpoint_id_cache s) i of
        Some c \<Rightarrow> (s, c)
      | None \<Rightarrow> (let c = build_endpoint_cache r (obj s r)
                in (s\<lparr>endpoint_id_cache := dict_set i c (endpoint_id_cache s)\<rparr>, c)))"

definition role_or_union :: "string \<Rightarrow> py_error + PDRole" where
  "role_or_union r = (if r \<noteq> [] then role_to_pdrole r else Inr ROLE_U)"

text \<open>
  The workload an endpoint reference points to; the reference comes from an index.
\<close>

definition endpoint_workload :: "InstancePools \<Rightarrow> nat \<times> string \<times> int \<Rightarrow> Workload" where
  "endpoint_workload s ref =
     (case deref (obj s (fst ref)) (snd ref) of Some ep \<Rightarrow> ep_workload ep | None \<Rightarrow> empty_workload)"

definition update_instance_workload_sync ::
  "int \<Rightarrow> int \<Rightarrow> Workload \<Rightarrow> InstancePools \<Rightarrow> InstancePools \<times> (py_error + (PDRole \<times> Workload) option)" where
  "update_instance_workload_sync i e change s =
     (case dict_get (available_pool s) i of
        None \<Rightarrow> (s, Inr None)
      | Some r \<Rightarrow>
          (let (s1, cache) = ensure_endpoint_cache i r s
           in case dict_get cache e of
                None \<Rightarrow> (s1, Inr None)
              | Some ref \<Rightarrow>
                  (let (w, floored) = clamp_workload_floor (workload_iadd (endpoint_workload s1 ref) change);
                       s2 = heap_modify (fst ref) (modify_endpoint (snd ref) (\<lambda>ep. ep\<lparr>ep_workload := w\<rparr>)) s1;
                       s3 = (if floored then heap_modify r (\<lambda>ins. fst (rebuild_instance_workload ins)) s2
                             else heap_modify r (\<lambda>ins. ins\<lparr>gathered_workload := workload_iadd (gathered_workload ins) change\<rparr>) s2)
                   in (s3, map_sum id (\<lambda>role. Some (role, endpoint_workload s3 ref)) (role_or_union (ins_role (obj s3 r)))))))"

definition get_endpoint_workload_sync ::
  "int \<Rightarrow> int \<Rightarrow> InstancePools \<Rightarrow> InstancePools \<times> (py_error + (PDRole \<times> Workload) option)" where
  "get_endpoint_workload_sync i e s =
     (case dict_get (available_pool s) i of
        None \<Rightarrow> (s, Inr None)
      | Some r \<Rightarrow>
          (let (s1, cache) = ensure_endpoint_cache i r s
           in case dict_get cache e of
                None \<Rightarrow> (s1, Inr None)
              | Some ref \<Rightarrow> (s1, map_sum id (\<lambda>role. Some (role, endpoint_workload s1 ref)) (role_or_union (ins_role (obj s1 r))))))"

definition has_instance_endpoint :: "int \<Rightarrow> int \<Rightarrow> InstancePools \<Rightarrow> bool" where
  "has_instance_endpoint i e s =
     (case dict_get (available_pool s) i of
        None \<Rightarrow> False
      | Some r \<Rightarrow> (case dict_get (endpoint_id_cache s) i of
                    None \<Rightarrow> e \<in> set (map ep_id (all_eps (obj s r)))
                  | Some c \<Rightarrow> in_dict e c))"

subsection \<open>Moving instances between pools\<close>

definition delete_unavailable_instance :: "int \<Rightarrow> InstancePools \<Rightarrow> InstancePools" where
  "delete_unavailable_instance i s =
     (if in_dict i (unavailable_pool s) then s\<lparr>unavailable_pool := dict_pop i (unavailable_pool s)\<rparr> else s)"

definition update_instance_state :: "int \<Rightarrow> UpdateInstanceMode \<Rightarrow> InstancePools \<Rightarrow> InstancePools \<times> (py_error + unit)" where
  "update_instance_state i mode s =
     (case mode of
        AVAILABLE \<Rightarrow>
          (case dict_get (unavailable_pool s) i of
             None \<Rightarrow> (s, Inr ())
           | Some r \<Rightarrow>
               (let (s1, a) = add_instance_to_available_pool r (s\<lparr>unavailable_pool := dict_pop i (unavailable_pool s)\<rparr>)
                in (s1, map_sum id (\<lambda>b. ()) a)))
      | UNAVAILABLE \<Rightarrow>
          (case dict_get (available_pool s) i of
             None \<Rightarrow> (s, Inr ())
           | Some r \<Rightarrow>
               (case delete_instance_from_available_pool i s of
                  (s1, Inl e) \<Rightarrow> (s1, Inl e)
                | (s1, Inr False) \<Rightarrow> (s1, Inr ())
                | (s1, Inr True) \<Rightarrow> (s1\<lparr>unavailable_pool := dict_set i r (unavailable_pool s1)\<rparr>, Inr ()))))"

subsection \<open>Refresh\<close>

definition register_kv_instance :: "bool \<Rightarrow> int list \<Rightarrow> InstancePools \<Rightarrow> InstancePools" where
  "register_kv_instance is_register ids s =
     (if is_mgmt s then s\<lparr>kv_log := kv_log s @ [(is_register, ids)]\<rparr> else s)"

text \<open>
  The checks of \<open>_validate_refresh_instances\<close>, which raise before any pool is touched.
\<close>

definition validate_refresh_instances :: "EventType \<Rightarrow> Instance list \<Rightarrow> InstancePools \<Rightarrow> py_error + unit" where
  "validate_refresh_instances ev instances s =
     (if \<not> distinct (map ins_id instances) then Inl ValueError
      else if ev \<in> {ADD, SET, RESUME} \<and> \<not> list_all (\<lambda>ins. PDRole_of (ins_role ins) \<noteq> None) instances then Inl ValueError
      else if ev = ADD
      then (case find (\<lambda>ins. case find_instance_by_id (ins_id ins) s of
                         Some x \<Rightarrow> \<not> same_add_identity (obj s x) ins | None \<Rightarrow> False) instances of
              Some ins \<Rightarrow> Inl (InstanceIdConflictError (ins_id ins)) | None \<Rightarrow> Inr ())
      else if ev = DEL
      then (case find (\<lambda>ins. case find_instance_by_id (ins_id ins) s of
                         Some x \<Rightarrow> endpoints ins \<noteq> [] \<and> \<not> same_delete_identity (obj s x) ins | None \<Rightarrow> False) instances of
              Some ins \<Rightarrow> Inl (InstanceIdConflictError (ins_id ins)) | None \<Rightarrow> Inr ())
      else Inr ())"

text \<open>
  Removing the stale instance of a job before its replacement is added: the answer is the address
  of the instance that was replaced.
\<close>

definition replace_stale :: "nat \<Rightarrow> InstancePools \<Rightarrow> InstancePools \<times> (py_error + nat option)" where
  "replace_stale r s =
     (case find_instance_by_job_name (job_name (obj s r)) s of
        None \<Rightarrow> (s, Inr None)
      | Some x \<Rightarrow>
          if ins_id (obj s x) \<noteq> ins_id (obj s r)
          then (case remove_instance_from_all_pools (ins_id (obj s x)) s of
                  (s1, Inl e) \<Rightarrow> (s1, Inl e)
                | (s1, Inr b) \<Rightarrow> (s1, Inr (Some x)))
          else (s, Inr None))"

fun add_loop :: "nat list \<Rightarrow> bool \<Rightarrow> nat list \<Rightarrow> nat list \<Rightarrow> InstancePools
    \<Rightarrow> InstancePools \<times> (py_error + bool \<times> nat list \<times> nat list)" where
  "add_loop [] modified added replaced s = (s, Inr (modified, added, replaced))"
| "add_loop (r # rs) modified added replaced s =
     (case find_instance_by_id (ins_id (obj s r)) s of
        Some x \<Rightarrow>
          if \<not> same_add_identity (obj s x) (obj s r) then (s, Inl (InstanceIdConflictError (ins_id (obj s r))))
          else add_loop rs modified added replaced s
      | None \<Rightarrow>
          (case replace_stale r s of
             (s1, Inl e) \<Rightarrow> (s1, Inl e)
           | (s1, Inr stale) \<Rightarrow>
               (let replaced1 = replaced @ (case stale of Some x \<Rightarrow> [x] | None \<Rightarrow> [])
                in case add_instance_to_available_pool r s1 of
                     (s2, Inl e) \<Rightarrow> (s2, Inl e)
                   | (s2, Inr False) \<Rightarrow> add_loop rs modified added replaced1 s2
                   | (s2, Inr True) \<Rightarrow>
                       add_loop rs True (added @ [r]) replaced1 (heap_modify r reset_workload s2))))"

definition add_instances :: "nat list \<Rightarrow> InstancePools \<Rightarrow> InstancePools \<times> (py_error + bool)" where
  "add_instances rs s =
     (case add_loop rs False [] [] s of
        (s1, Inl e) \<Rightarrow> (s1, Inl e)
      | (s1, Inr (modified, added, replaced)) \<Rightarrow>
          (register_kv_instance False (map (ins_id \<circ> obj s1) replaced)
             (register_kv_instance True (map (ins_id \<circ> obj s1) added) s1), Inr modified))"

fun delete_loop :: "int list \<Rightarrow> bool \<Rightarrow> InstancePools \<Rightarrow> InstancePools \<times> (py_error + bool)" where
  "delete_loop [] modified s = (s, Inr modified)"
| "delete_loop (i # is) modified s =
     (if in_dict i (unavailable_pool s) then delete_loop is True (s\<lparr>unavailable_pool := dict_pop i (unavailable_pool s)\<rparr>)
      else if in_dict i (paused_pool s) then delete_loop is True (s\<lparr>paused_pool := dict_pop i (paused_pool s)\<rparr>)
      else (case delete_instance_from_available_pool i s of
              (s1, Inl e) \<Rightarrow> (s1, Inl e)
            | (s1, Inr b) \<Rightarrow> delete_loop is (modified \<or> b) s1))"

definition delete_instances :: "int list \<Rightarrow> InstancePools \<Rightarrow> InstancePools \<times> (py_error + bool)" where
  "delete_instances ids s = delete_loop ids False s"

definition tracked_ids :: "InstancePools \<Rightarrow> int list" where
  "tracked_ids s = dict_keys (available_pool s) @ dict_keys (unavailable_pool s) @ dict_keys (paused_pool s)"

text \<open>
  An ID in both the pools and the request that has to be removed and added again.
\<close>

definition needs_refresh :: "(int, nat) dict \<Rightarrow> InstancePools \<Rightarrow> int \<Rightarrow> bool" where
  "needs_refresh by_id s i =
     (case (dict_get by_id i, find_instance_by_id i s) of
        (Some r, Some x) \<Rightarrow> \<not> in_dict i (available_pool s) \<or> instance_needs_update (obj s x) (obj s r)
      | _ \<Rightarrow> False)"

definition compute_set_diff :: "(int list \<Rightarrow> int list) \<Rightarrow> nat list \<Rightarrow> InstancePools \<Rightarrow> nat list \<times> nat list" where
  "compute_set_diff ord rs s =
     (let by_id = foldl (\<lambda>d r. dict_set (ins_id (obj s r)) r d) [] rs;
          to_remove_ids = ord (filter (\<lambda>i. \<not> in_dict i by_id \<or> needs_refresh by_id s i) (tracked_ids s));
          to_add_ids = ord (filter (\<lambda>i. i \<notin> set (tracked_ids s) \<or> needs_refresh by_id s i) (dict_keys by_id))
      in (List.map_filter (dict_get by_id) to_add_ids, List.map_filter (\<lambda>i. find_instance_by_id i s) to_remove_ids))"

definition apply_set_diff ::
  "(int list \<Rightarrow> int list) \<Rightarrow> nat list \<Rightarrow> InstancePools \<Rightarrow> InstancePools \<times> (py_error + bool \<times> int list)" where
  "apply_set_diff ord rs s =
     (let (to_add, to_remove) = compute_set_diff ord rs s;
          removed_ids = filter (\<lambda>i. i \<notin> set (map (ins_id \<circ> obj s) rs)) (map (ins_id \<circ> obj s) to_remove)
      in if to_remove = [] \<and> to_add = [] then (s, Inr (False, removed_ids))
         else (case (if to_remove \<noteq> [] then delete_instances (map (ins_id \<circ> obj s) to_remove) s else (s, Inr False)) of
                 (s1, Inl e) \<Rightarrow> (s1, Inl e)
               | (s1, Inr b) \<Rightarrow>
                   (case (if to_add \<noteq> [] then add_instances to_add s1 else (s1, Inr False)) of
                      (s2, Inl e) \<Rightarrow> (s2, Inl e)
                    | (s2, Inr c) \<Rightarrow> (s2, Inr (True, removed_ids)))))"

fun pause_instances :: "nat list \<Rightarrow> bool \<Rightarrow> InstancePools \<Rightarrow> InstancePools \<times> (py_error + bool)" where
  "pause_instances [] modified s = (s, Inr modified)"
| "pause_instances (r # rs) modified s =
     (let i = ins_id (obj s r)
      in if in_dict i (paused_pool s) then pause_instances rs modified s
         else if \<not> in_dict i (available_pool s) then pause_instances rs modified s
         else (case delete_instance_from_available_pool i s of
                 (s1, Inl e) \<Rightarrow> (s1, Inl e)
               | (s1, Inr False) \<Rightarrow> pause_instances rs modified s1
               | (s1, Inr True) \<Rightarrow> pause_instances rs True (s1\<lparr>paused_pool := dict_set i r (paused_pool s1)\<rparr>)))"

fun resume_instances :: "nat list \<Rightarrow> bool \<Rightarrow> InstancePools \<Rightarrow> InstancePools \<times> (py_error + bool)" where
  "resume_instances [] modified s = (s, Inr modified)"
| "resume_instances (r # rs) modified s =
     (let i = ins_id (obj s r)
      in case dict_get (paused_pool s) i of
           None \<Rightarrow> resume_instances rs modified s
         | Some paused \<Rightarrow>
             (case add_instance_to_available_pool r (s\<lparr>paused_pool := dict_pop i (paused_pool s)\<rparr>) of
                (s1, Inl e) \<Rightarrow> (s1, Inl e)
              | (s1, Inr False) \<Rightarrow> resume_instances rs modified (s1\<lparr>paused_pool := dict_set i paused (paused_pool s1)\<rparr>)
              | (s1, Inr True) \<Rightarrow> resume_instances rs True s1))"

text \<open>
  The request's objects are placed in the heap when the request arrives.
\<close>

definition alloc_instances :: "Instance list \<Rightarrow> InstancePools \<Rightarrow> InstancePools \<times> nat list" where
  "alloc_instances instances s =
     (s\<lparr>cp_heap := cp_heap s @ instances\<rparr>, [length (cp_heap s) ..< length (cp_heap s) + length instances])"

definition refresh_instances ::
  "(int list \<Rightarrow> int list) \<Rightarrow> EventType \<Rightarrow> Instance list \<Rightarrow> InstancePools
   \<Rightarrow> InstancePools \<times> (py_error + bool \<times> int list)" where
  "refresh_instances ord ev instances s0 =
     (let (s, rs) = alloc_instances instances s0
      in case validate_refresh_instances ev instances s of
           Inl e \<Rightarrow> (s, Inl e)
         | Inr u \<Rightarrow>
             (case ev of
                ADD \<Rightarrow> (let (s1, a) = add_instances rs s in (s1, map_sum id (\<lambda>b. (b, [])) a))
              | DEL \<Rightarrow>
                  (case delete_instances (map ins_id instances) s of
                     (s1, Inl e) \<Rightarrow> (s1, Inl e)
                   | (s1, Inr b) \<Rightarrow> (register_kv_instance False (map ins_id instances) s1, Inr (b, [])))
              | SET \<Rightarrow> apply_set_diff ord rs s
              | PAUSE \<Rightarrow> (let (s1, a) = pause_instances rs False s in (s1, map_sum id (\<lambda>b. (b, [])) a))
              | RESUME \<Rightarrow> (let (s1, a) = resume_instances rs False s in (s1, map_sum id (\<lambda>b. (b, [])) a))))"

section \<open>Readiness\<close>

datatype InstanceReadiness =
    REQUIRED_MET_EPD | ENCODE_PREFILL | REQUIRED_MET | ONLY_PREFILL | ONLY_DECODE | ONLY_ENCODE | NONE | UNKNOWN

definition is_ready :: "InstanceReadiness \<Rightarrow> bool" where
  "is_ready x \<longleftrightarrow> x \<in> {REQUIRED_MET, REQUIRED_MET_EPD}"

definition is_run :: "bool \<Rightarrow> InstanceReadiness \<Rightarrow> bool" where
  "is_run allow_decode_only x \<longleftrightarrow>
     is_ready x \<or> x \<in> {ONLY_PREFILL, ENCODE_PREFILL} \<or> (allow_decode_only \<and> x = ONLY_DECODE)"

definition readiness_from_instances :: "Instance list \<Rightarrow> InstanceReadiness" where
  "readiness_from_instances instances =
     (let enc = filter (\<lambda>ins. ins_role ins = ''encode'') instances;
          pre = filter (\<lambda>ins. ins_role ins = ''prefill'') instances;
          dec = filter (\<lambda>ins. ins_role ins = ''decode'') instances;
          uni = filter (\<lambda>ins. ins_role ins \<in> {''union'', ''both'', ''hybrid''}) instances
      in if pre \<noteq> [] \<and> dec \<noteq> [] then (if enc \<noteq> [] then REQUIRED_MET_EPD else REQUIRED_MET)
         else if uni \<noteq> [] then REQUIRED_MET
         else if enc \<noteq> [] \<and> pre \<noteq> [] then ENCODE_PREFILL
         else if pre \<noteq> [] then ONLY_PREFILL
         else if dec \<noteq> [] then ONLY_DECODE
         else if enc \<noteq> [] then ONLY_ENCODE
         else NONE)"

definition get_required_instances_status :: "InstancePools \<Rightarrow> InstanceReadiness" where
  "get_required_instances_status s =
     readiness_from_instances (map (obj s) (concat (map (\<lambda>role. dict_values (role_pools s role)) [ROLE_E, ROLE_P, ROLE_D, ROLE_U])))"

definition has_required_instances :: "InstancePools \<Rightarrow> bool" where
  "has_required_instances s = is_run False (get_required_instances_status s)"

text \<open>
  The heap may grow and workloads may change; everything else of an object stays.
\<close>

definition heap_le :: "InstancePools \<Rightarrow> InstancePools \<Rightarrow> bool" where
  "heap_le s s' \<longleftrightarrow> length (cp_heap s) \<le> length (cp_heap s') \<and>
     (\<forall>r < length (cp_heap s). reset_workload (obj s' r) = reset_workload (obj s r))"

text \<open>
  The pools partition the tracked instances; the role pools partition the available pool by role;
  the endpoint index is exactly that of the available instances.
\<close>

definition role_view :: "InstancePools \<Rightarrow> PDRole \<Rightarrow> int \<Rightarrow> nat option" where
  "role_view s role i =
     (case dict_get (available_pool s) i of
        None \<Rightarrow> None
      | Some r \<Rightarrow> if PDRole_of (ins_role (obj s r)) = Some role then Some r else None)"

definition entry_ok :: "InstancePools \<Rightarrow> int \<Rightarrow> nat \<Rightarrow> bool" where
  "entry_ok s i r \<longleftrightarrow> r < length (cp_heap s) \<and> ins_id (obj s r) = i"

definition pools_ok :: "InstancePools \<Rightarrow> bool" where
  "pools_ok s \<longleftrightarrow>
     distinct (dict_keys (available_pool s)) \<and> distinct (dict_keys (unavailable_pool s)) \<and>
     distinct (dict_keys (paused_pool s)) \<and> (\<forall>role. distinct (dict_keys (role_pools s role))) \<and>
     (\<forall>i r. dict_get (available_pool s) i = Some r \<longrightarrow> entry_ok s i r \<and> PDRole_of (ins_role (obj s r)) \<noteq> None \<and>
        dict_get (unavailable_pool s) i = None \<and> dict_get (paused_pool s) i = None) \<and>
     (\<forall>i r. dict_get (unavailable_pool s) i = Some r \<longrightarrow> entry_ok s i r \<and> PDRole_of (ins_role (obj s r)) \<noteq> None \<and>
        dict_get (paused_pool s) i = None) \<and>
     (\<forall>i r. dict_get (paused_pool s) i = Some r \<longrightarrow> entry_ok s i r) \<and>
     (\<forall>role i. dict_get (role_pools s role) i = role_view s role i) \<and>
     (\<forall>i. dict_get (endpoint_id_cache s) i =
        map_option (\<lambda>r. build_endpoint_cache r (obj s r)) (dict_get (available_pool s) i))"

text \<open>
  The aggregate of an instance is the sum of its endpoints' workloads, none of them negative.
  A Python dictionary has distinct keys, so every object in the heap is well formed.
\<close>

definition balanced :: "Instance \<Rightarrow> bool" where
  "balanced ins \<longleftrightarrow> active_tokens (gathered_workload ins) = sum_list (map ep_tokens (all_eps ins)) \<and>
     list_all (\<lambda>ep. 0 \<le> ep_tokens ep) (all_eps ins)"

definition ledgers_ok :: "InstancePools \<Rightarrow> bool" where
  "ledgers_ok s \<longleftrightarrow> (\<forall>r < length (cp_heap s). wf_endpoints (obj s r)) \<and>
     (\<forall>i r. dict_get (available_pool s) i = Some r \<or> dict_get (unavailable_pool s) i = Some r \<longrightarrow> balanced (obj s r))"

text \<open>
  The IDs in \<open>I\<close> are gone from every pool, the others are as before, and so are the objects.
\<close>

definition without :: "InstancePools \<Rightarrow> InstancePools \<Rightarrow> int set \<Rightarrow> bool" where
  "without s s' I \<longleftrightarrow> cp_heap s' = cp_heap s \<and>
     dict_get (available_pool s') = (\<lambda>i. if i \<in> I then None else dict_get (available_pool s) i) \<and>
     dict_get (unavailable_pool s') = (\<lambda>i. if i \<in> I then None else dict_get (unavailable_pool s) i) \<and>
     dict_get (paused_pool s') = (\<lambda>i. if i \<in> I then None else dict_get (paused_pool s) i)"

text \<open>
  An iteration order of Python sets: the elements, each once.
\<close>

definition iterates :: "(int list \<Rightarrow> int list) \<Rightarrow> bool" where
  "iterates ord \<longleftrightarrow> (\<forall>xs. set (ord xs) = set xs \<and> (distinct xs \<longrightarrow> distinct (ord xs)))"

text \<open>
  The available instance a SET leaves in place for the object at an address of the request.
\<close>

definition keeps :: "InstancePools \<Rightarrow> nat \<Rightarrow> nat option" where
  "keeps s r =
     (case dict_get (available_pool s) (ins_id (obj s r)) of
        None \<Rightarrow> None
      | Some x \<Rightarrow> if instance_needs_update (obj s x) (obj s r) then None else Some x)"

definition tokens :: "Instance \<Rightarrow> pyfloat" where
  "tokens ins = sum_list (map ep_tokens (all_eps ins))"

text \<open>
  What one workload update does to the instance object.
\<close>

definition charged :: "string \<times> int \<Rightarrow> Workload \<Rightarrow> Workload \<Rightarrow> Instance \<Rightarrow> Instance" where
  "charged p old change ins =
     (let (w, floored) = clamp_workload_floor (workload_iadd old change);
          ins1 = modify_endpoint p (\<lambda>ep. ep\<lparr>ep_workload := w\<rparr>) ins
      in if floored then fst (rebuild_instance_workload ins1)
         else ins1\<lparr>gathered_workload := workload_iadd (gathered_workload ins1) change\<rparr>)"

text \<open>
  Every operation of the manager that can change its state.
\<close>

datatype pool_op =
    Pool_refresh "int list \<Rightarrow> int list" EventType "Instance list"
  | Pool_state int UpdateInstanceMode
  | Pool_delete_unavailable int
  | Pool_workload int int Workload
  | Pool_get_workload int int
  | Pool_stop

fun pool_step :: "InstancePools \<Rightarrow> pool_op \<Rightarrow> InstancePools" where
  "pool_step s (Pool_refresh ord ev instances) = fst (refresh_instances ord ev instances s)"
| "pool_step s (Pool_state i mode) = fst (update_instance_state i mode s)"
| "pool_step s (Pool_delete_unavailable i) = delete_unavailable_instance i s"
| "pool_step s (Pool_workload i e change) = fst (update_instance_workload_sync i e change s)"
| "pool_step s (Pool_get_workload i e) = fst (get_endpoint_workload_sync i e s)"
| "pool_step s Pool_stop = stop_pools s"

fun legal_pool_op :: "pool_op \<Rightarrow> bool" where
  "legal_pool_op (Pool_refresh ord ev instances) \<longleftrightarrow> iterates ord \<and> (\<forall>ins \<in> set instances. wf_endpoints ins)"
| "legal_pool_op _ \<longleftrightarrow> True"

text \<open>
  A RESUME puts the request's objects into the available pool as they are, so their aggregates
  have to be right; an ADD or SET resets them.
\<close>

fun balanced_op :: "pool_op \<Rightarrow> bool" where
  "balanced_op (Pool_refresh ord ev instances) \<longleftrightarrow>
     iterates ord \<and> (\<forall>ins \<in> set instances. wf_endpoints ins) \<and> (ev = RESUME \<longrightarrow> (\<forall>ins \<in> set instances. balanced ins))"
| "balanced_op _ \<longleftrightarrow> True"

definition heap_wf :: "InstancePools \<Rightarrow> bool" where
  "heap_wf s \<longleftrightarrow> (\<forall>r < length (cp_heap s). wf_endpoints (obj s r))"

text \<open>
  A pool with one prefill instance, and the same instance with another bootstrap port.
\<close>

definition demo_add :: pool_op where
  "demo_add = Pool_refresh remdups ADD [demo_instance 7 ''prefill'' ACTIVE]"

definition demo_pools :: InstancePools where
  "demo_pools = foldl pool_step (InstancePools_init False) [demo_add]"

definition demo_rebooted :: Instance where
  "demo_rebooted = (demo_instance 7 ''prefill'' ACTIVE)\<lparr>endpoints :=
     [(''10.0.0.1'', [(0, (demo_endpoint 0 EP_NORMAL)\<lparr>bootstrap_port := Some 9\<rparr>), (1, demo_endpoint 1 EP_NORMAL)])]\<rparr>"

section \<open>What a workload change keeps\<close>

lemma map_endpoints_entries:
  "ep_entries (map_endpoints f ins) = map (\<lambda>(p, ep). (p, f ep)) (ep_entries ins)"
  by (simp add: ep_entries_def map_endpoints_def map_concat o_def case_prod_unfold)

lemma map_endpoints_all_eps: "all_eps (map_endpoints f ins) = map f (all_eps ins)"
  by (simp add: all_eps_def map_endpoints_def map_concat o_def case_prod_unfold)

lemma reset_fields [simp]:
  "ins_id (reset_workload ins) = ins_id ins" "ins_role (reset_workload ins) = ins_role ins"
  "job_name (reset_workload ins) = job_name ins" "model_name (reset_workload ins) = model_name ins"
  "engine_type (reset_workload ins) = engine_type ins" "dispatch_capabilities (reset_workload ins) = dispatch_capabilities ins"
  "parallel_config (reset_workload ins) = parallel_config ins"
  "enable_multi_endpoints (reset_workload ins) = enable_multi_endpoints ins"
  "node_managers (reset_workload ins) = node_managers ins"
  by (simp_all add: reset_workload_def map_endpoints_def)

lemma reset_entries:
  "ep_entries (reset_workload ins) = map (\<lambda>(p, ep). (p, ep\<lparr>ep_workload := empty_workload\<rparr>)) (ep_entries ins)"
proof -
  have "ep_entries (ins\<lparr>gathered_workload := w\<rparr>) = ep_entries ins" for w by (simp add: ep_entries_def)
  then show ?thesis by (simp add: reset_workload_def map_endpoints_entries)
qed

lemma reset_identity [simp]:
  "endpoint_identity (reset_workload ins) = endpoint_identity ins" "ep_sig (reset_workload ins) = ep_sig ins"
  "build_endpoint_cache r (reset_workload ins) = build_endpoint_cache r ins"
  "delete_endpoint_identity (reset_workload ins) = delete_endpoint_identity ins"
  by (simp_all add: endpoint_identity_def ep_sig_def build_endpoint_cache_def delete_endpoint_identity_def reset_entries
      map_snd_ep_entries[symmetric] o_def case_prod_unfold foldl_map image_image)

lemma reset_eqD:
  assumes "reset_workload a = reset_workload b"
  shows "ins_id a = ins_id b" "ins_role a = ins_role b" "job_name a = job_name b"
    "build_endpoint_cache r a = build_endpoint_cache r b"
    "same_add_identity a c = same_add_identity b c" "same_add_identity c a = same_add_identity c b"
    "instance_needs_update a c = instance_needs_update b c" "instance_needs_update c a = instance_needs_update c b"
proof -
  have i: "instance_needs_update (reset_workload x) c = instance_needs_update x c"
    "instance_needs_update c (reset_workload x) = instance_needs_update c x"
    "same_add_identity (reset_workload x) c = same_add_identity x c"
    "same_add_identity c (reset_workload x) = same_add_identity c x" for x c
    by (simp_all add: instance_needs_update_def same_add_identity_def)
  show "ins_id a = ins_id b" "ins_role a = ins_role b" "job_name a = job_name b"
    "build_endpoint_cache r a = build_endpoint_cache r b"
    using assms reset_fields reset_identity by metis+
  show "same_add_identity a c = same_add_identity b c" "same_add_identity c a = same_add_identity c b"
    "instance_needs_update a c = instance_needs_update b c" "instance_needs_update c a = instance_needs_update c b"
    using assms i by metis+
qed

lemma reset_idem [simp]: "reset_workload (reset_workload ins) = reset_workload ins"
  by (simp add: reset_workload_def map_endpoints_def case_prod_unfold)

lemma heap_le_refl [simp]: "heap_le s s"
  by (simp add: heap_le_def)

lemma heap_le_trans: "heap_le s s' \<Longrightarrow> heap_le s' s'' \<Longrightarrow> heap_le s s''"
  by (simp add: heap_le_def)

lemma heap_leD:
  assumes "heap_le s s'" "r < length (cp_heap s)"
  shows "r < length (cp_heap s')" "ins_id (obj s' r) = ins_id (obj s r)" "ins_role (obj s' r) = ins_role (obj s r)"
    "job_name (obj s' r) = job_name (obj s r)" "build_endpoint_cache x (obj s' r) = build_endpoint_cache x (obj s r)"
  using assms reset_eqD[of "obj s' r" "obj s r"] by (simp_all add: heap_le_def)

lemma obj_heap_modify: "r < length (cp_heap s) \<Longrightarrow> obj (heap_modify r f s) x = (if x = r then f (obj s r) else obj s x)"
  by (simp add: obj_def heap_modify_def)

lemma heap_modify_frame [simp]:
  "available_pool (heap_modify r f s) = available_pool s" "unavailable_pool (heap_modify r f s) = unavailable_pool s"
  "paused_pool (heap_modify r f s) = paused_pool s" "role_pools (heap_modify r f s) = role_pools s"
  "endpoint_id_cache (heap_modify r f s) = endpoint_id_cache s" "length (cp_heap (heap_modify r f s)) = length (cp_heap s)"
  by (simp_all add: heap_modify_def)

lemma heap_le_modify:
  "r < length (cp_heap s) \<Longrightarrow> reset_workload (f (obj s r)) = reset_workload (obj s r) \<Longrightarrow> heap_le s (heap_modify r f s)"
  by (simp add: heap_le_def obj_heap_modify)

lemma heap_le_heap: "cp_heap s' = cp_heap s \<Longrightarrow> heap_le s s'"
  by (simp add: heap_le_def obj_def)

lemma pools_ok_heap:
  assumes ok: "pools_ok s" and h: "heap_le s s'"
    and "available_pool s' = available_pool s" "unavailable_pool s' = unavailable_pool s" "paused_pool s' = paused_pool s"
    and "role_pools s' = role_pools s" "endpoint_id_cache s' = endpoint_id_cache s"
  shows "pools_ok s'"
proof -
  note d = heap_leD[OF h]
  have e: "entry_ok s i r \<Longrightarrow> entry_ok s' i r" for i r by (simp add: entry_ok_def d)
  have v: "r < length (cp_heap s)" if "dict_get (available_pool s) i = Some r" for i r
    using ok that by (simp add: pools_ok_def entry_ok_def)
  have u: "r < length (cp_heap s)" if "dict_get (unavailable_pool s) i = Some r" for i r
    using ok that by (simp add: pools_ok_def entry_ok_def)
  have rv: "role_view s' role i = role_view s role i" for role i
    using v d(3) by (simp add: role_view_def assms split: option.split)
  have c: "map_option (\<lambda>r. build_endpoint_cache r (obj s' r)) (dict_get (available_pool s) i) =
      map_option (\<lambda>r. build_endpoint_cache r (obj s r)) (dict_get (available_pool s) i)" for i
    using v d(5) by (cases "dict_get (available_pool s) i") simp_all
  have ra: "PDRole_of (ins_role (obj s' r)) = PDRole_of (ins_role (obj s r))" if "dict_get (available_pool s) i = Some r" for i r
    using v[OF that] d(3) by simp
  have ru: "PDRole_of (ins_role (obj s' r)) = PDRole_of (ins_role (obj s r))" if "dict_get (unavailable_pool s) i = Some r" for i r
    using u[OF that] d(3) by simp
  show ?thesis
    using ok unfolding pools_ok_def assms(3-7) rv c
    by (intro conjI allI impI) (simp_all add: e ra ru)
qed

lemma pools_ok_available:
  assumes ok: "pools_ok s" and a: "dict_get (available_pool s) i = Some r"
  shows "r < length (cp_heap s)" "ins_id (obj s r) = i" "dict_get (unavailable_pool s) i = None"
    "dict_get (paused_pool s) i = None" "dict_get (endpoint_id_cache s) i = Some (build_endpoint_cache r (obj s r))"
    "\<exists>role. PDRole_of (ins_role (obj s r)) = Some role \<and> dict_get (role_pools s role) i = Some r"
proof -
  from ok a have e: "entry_ok s i r" "PDRole_of (ins_role (obj s r)) \<noteq> None"
    unfolding pools_ok_def by blast+
  then show "r < length (cp_heap s)" "ins_id (obj s r) = i" by (simp_all add: entry_ok_def)
  from ok a show "dict_get (unavailable_pool s) i = None" "dict_get (paused_pool s) i = None"
    unfolding pools_ok_def by blast+
  have "dict_get (endpoint_id_cache s) i =
      map_option (\<lambda>r. build_endpoint_cache r (obj s r)) (dict_get (available_pool s) i)"
    using ok unfolding pools_ok_def by blast
  then show "dict_get (endpoint_id_cache s) i = Some (build_endpoint_cache r (obj s r))" using a by simp
  from e(2) obtain role where r: "PDRole_of (ins_role (obj s r)) = Some role" by blast
  have "dict_get (role_pools s role) i = role_view s role i" using ok unfolding pools_ok_def by blast
  then show "\<exists>role. PDRole_of (ins_role (obj s r)) = Some role \<and> dict_get (role_pools s role) i = Some r"
    using r a by (auto simp: role_view_def)
qed

lemma pools_ok_unavailable:
  assumes ok: "pools_ok s" and a: "dict_get (unavailable_pool s) i = Some r"
  shows "r < length (cp_heap s)" "ins_id (obj s r) = i" "PDRole_of (ins_role (obj s r)) \<noteq> None"
    "dict_get (available_pool s) i = None" "dict_get (paused_pool s) i = None"
proof -
  from ok a have "entry_ok s i r" unfolding pools_ok_def by blast
  then show "r < length (cp_heap s)" "ins_id (obj s r) = i" by (simp_all add: entry_ok_def)
  from ok a show "PDRole_of (ins_role (obj s r)) \<noteq> None" "dict_get (paused_pool s) i = None"
    unfolding pools_ok_def by blast+
  show "dict_get (available_pool s) i = None"
    using pools_ok_available(3)[OF ok] a by (cases "dict_get (available_pool s) i") auto
qed

lemma pools_ok_paused:
  assumes ok: "pools_ok s" and a: "dict_get (paused_pool s) i = Some r"
  shows "r < length (cp_heap s)" "ins_id (obj s r) = i"
    "dict_get (available_pool s) i = None" "dict_get (unavailable_pool s) i = None"
proof -
  from ok a have "entry_ok s i r" unfolding pools_ok_def by blast
  then show "r < length (cp_heap s)" "ins_id (obj s r) = i" by (simp_all add: entry_ok_def)
  show "dict_get (available_pool s) i = None"
    using pools_ok_available(4)[OF ok] a by (cases "dict_get (available_pool s) i") auto
  show "dict_get (unavailable_pool s) i = None"
    using pools_ok_unavailable(5)[OF ok] a by (cases "dict_get (unavailable_pool s) i") auto
qed

section \<open>Primitive moves\<close>

lemma obj_frame [simp]:
  "obj (s\<lparr>available_pool := a\<rparr>) r = obj s r" "obj (s\<lparr>unavailable_pool := a\<rparr>) r = obj s r"
  "obj (s\<lparr>paused_pool := a\<rparr>) r = obj s r" "obj (s\<lparr>kv_log := l\<rparr>) r = obj s r"
  "obj (s\<lparr>endpoint_id_cache := c\<rparr>) r = obj s r" "obj (drop_available i role s) r = obj s r"
  "obj (put_available x role s) r = obj s r"
  by (simp_all add: obj_def drop_available_def put_available_def Let_def)

lemma drop_available_frame [simp]:
  "available_pool (drop_available i role s) = dict_pop i (available_pool s)"
  "unavailable_pool (drop_available i role s) = unavailable_pool s"
  "paused_pool (drop_available i role s) = paused_pool s" "cp_heap (drop_available i role s) = cp_heap s"
  by (simp_all add: drop_available_def)

lemma put_available_frame [simp]:
  "available_pool (put_available r role s) = dict_set (ins_id (obj s r)) r (available_pool s)"
  "unavailable_pool (put_available r role s) = unavailable_pool s"
  "paused_pool (put_available r role s) = paused_pool s" "cp_heap (put_available r role s) = cp_heap s"
  by (simp_all add: put_available_def Let_def)

lemma pools_ok_drop_available:
  assumes ok: "pools_ok s" and a: "dict_get (available_pool s) i = Some r" and r: "PDRole_of (ins_role (obj s r)) = Some role"
  shows "pools_ok (drop_available i role s)"
proof -
  let ?s = "drop_available i role s"
  have rv: "role_view ?s role' j = (if j = i then None else role_view s role' j)" for role' j
    by (simp add: role_view_def split: option.split)
  have "dict_get (role_pools ?s role') j = role_view ?s role' j" for role' j
  proof -
    have "dict_get (role_pools s role') j = role_view s role' j" using ok unfolding pools_ok_def by blast
    then show ?thesis unfolding rv using a r by (auto simp: drop_available_def role_view_def)
  qed
  moreover have "dict_get (endpoint_id_cache ?s) j =
      map_option (\<lambda>r. build_endpoint_cache r (obj ?s r)) (dict_get (available_pool ?s) j)" for j
  proof -
    have "dict_get (endpoint_id_cache s) j =
      map_option (\<lambda>r. build_endpoint_cache r (obj s r)) (dict_get (available_pool s) j)"
      using ok unfolding pools_ok_def by blast
    then show ?thesis by (simp add: drop_available_def obj_def)
  qed
  moreover have "distinct (dict_keys (role_pools ?s role'))" for role'
    using ok by (simp add: pools_ok_def drop_available_def)
  ultimately show ?thesis
    using ok unfolding pools_ok_def[of ?s] entry_ok_def
    by (simp add: pools_ok_def entry_ok_def)
qed

lemma pools_ok_put_available:
  assumes ok: "pools_ok s" and r: "r < length (cp_heap s)" "PDRole_of (ins_role (obj s r)) = Some role"
    and f: "dict_get (available_pool s) (ins_id (obj s r)) = None" "dict_get (unavailable_pool s) (ins_id (obj s r)) = None"
      "dict_get (paused_pool s) (ins_id (obj s r)) = None"
  shows "pools_ok (put_available r role s)"
proof -
  let ?s = "put_available r role s" and ?i = "ins_id (obj s r)"
  have rv: "role_view ?s role' j = (if j = ?i then (if role' = role then Some r else None) else role_view s role' j)" for role' j
    using r by (auto simp: role_view_def split: option.split)
  have "dict_get (role_pools ?s role') j = role_view ?s role' j" for role' j
  proof -
    have "dict_get (role_pools s role') j = role_view s role' j" using ok unfolding pools_ok_def by blast
    moreover have "role_view s role' ?i = None" using f by (simp add: role_view_def)
    ultimately show ?thesis unfolding rv by (auto simp: put_available_def Let_def)
  qed
  moreover have "dict_get (endpoint_id_cache ?s) j =
      map_option (\<lambda>r. build_endpoint_cache r (obj ?s r)) (dict_get (available_pool ?s) j)" for j
  proof -
    have "dict_get (endpoint_id_cache s) j =
      map_option (\<lambda>r. build_endpoint_cache r (obj s r)) (dict_get (available_pool s) j)"
      using ok unfolding pools_ok_def by blast
    then show ?thesis by (auto simp: put_available_def Let_def obj_def)
  qed
  moreover have "distinct (dict_keys (role_pools ?s role'))" for role'
    using ok by (auto simp: pools_ok_def put_available_def Let_def)
  ultimately show ?thesis
    using ok r f unfolding pools_ok_def[of ?s] entry_ok_def
    by (auto simp: pools_ok_def entry_ok_def)
qed

lemma role_view_frame [simp]:
  "role_view (s\<lparr>unavailable_pool := a\<rparr>) = role_view s" "role_view (s\<lparr>paused_pool := a\<rparr>) = role_view s"
  by (simp_all add: role_view_def fun_eq_iff split: option.split)

lemma pools_ok_pop:
  "pools_ok s \<Longrightarrow> pools_ok (s\<lparr>unavailable_pool := dict_pop i (unavailable_pool s)\<rparr>)"
  "pools_ok s \<Longrightarrow> pools_ok (s\<lparr>paused_pool := dict_pop i (paused_pool s)\<rparr>)"
  unfolding pools_ok_def entry_ok_def by (simp_all del: map_of_eq_Some_iff not_None_eq) (blast+)?

lemma pools_ok_set_unavailable:
  assumes "pools_ok s" "r < length (cp_heap s)" "ins_id (obj s r) = i" "PDRole_of (ins_role (obj s r)) \<noteq> None"
    and "dict_get (available_pool s) i = None" "dict_get (paused_pool s) i = None"
  shows "pools_ok (s\<lparr>unavailable_pool := dict_set i r (unavailable_pool s)\<rparr>)"
  using assms by (auto simp: pools_ok_def entry_ok_def)

lemma pools_ok_set_paused:
  assumes "pools_ok s" "r < length (cp_heap s)" "ins_id (obj s r) = i"
    and "dict_get (available_pool s) i = None" "dict_get (unavailable_pool s) i = None"
  shows "pools_ok (s\<lparr>paused_pool := dict_set i r (paused_pool s)\<rparr>)"
  using assms by (auto simp: pools_ok_def entry_ok_def)

section \<open>Removing and adding\<close>

lemma role_pdrole: "PDRole_of x = Some role \<Longrightarrow> role_to_pdrole x = Inr role"
  by (simp add: role_to_pdrole_def)

lemma delete_available_absent:
  "dict_get (available_pool s) i = None \<Longrightarrow> delete_instance_from_available_pool i s = (s, Inr False)"
  by (simp add: delete_instance_from_available_pool_def find_available_pool_def)

lemma delete_available_present:
  assumes ok: "pools_ok s" and a: "dict_get (available_pool s) i = Some r"
  obtains role where "PDRole_of (ins_role (obj s r)) = Some role"
    "delete_instance_from_available_pool i s = (drop_available i role s, Inr True)" "pools_ok (drop_available i role s)"
proof -
  from pools_ok_available(6)[OF ok a] obtain role where
    r: "PDRole_of (ins_role (obj s r)) = Some role" "dict_get (role_pools s role) i = Some r" by blast
  have "delete_instance_from_available_pool i s = (drop_available i role s, Inr True)"
    using a r by (simp add: delete_instance_from_available_pool_def find_available_pool_def role_pdrole)
  then show thesis using that r(1) pools_ok_drop_available[OF ok a r(1)] by blast
qed

lemma without_trans: "without s s1 I \<Longrightarrow> without s1 s2 J \<Longrightarrow> without s s2 (I \<union> J)"
  by (auto simp: without_def fun_eq_iff)

lemma delete_loop_ok:
  assumes "pools_ok s"
  shows "\<exists>s' b. delete_loop ids m s = (s', Inr b) \<and> pools_ok s' \<and> without s s' (set ids)"
  using assms
proof (induction ids arbitrary: m s)
  case Nil
  then show ?case by (auto simp: without_def fun_eq_iff)
next
  case (Cons i ids)
  have step: ?case if "delete_loop (i # ids) m s = delete_loop ids m1 s1" "pools_ok s1" "without s s1 {i}" for m1 s1
  proof -
    from Cons.IH[OF that(2), of m1] obtain s' b where
      "delete_loop ids m1 s1 = (s', Inr b)" "pools_ok s'" "without s1 s' (set ids)" by blast
    then have "delete_loop (i # ids) m s = (s', Inr b) \<and> pools_ok s' \<and> without s s' (set (i # ids))"
      using without_trans[OF that(3)] that(1) by (simp del: delete_loop.simps)
    then show ?thesis by blast
  qed
  show ?case
  proof (cases "dict_get (available_pool s) i")
    case None
    show ?thesis
    proof (cases "in_dict i (unavailable_pool s)")
      case True
      then have "delete_loop (i # ids) m s = delete_loop ids True (s\<lparr>unavailable_pool := dict_pop i (unavailable_pool s)\<rparr>)" by simp
      moreover from True obtain r where "dict_get (unavailable_pool s) i = Some r" by blast
      then have "without s (s\<lparr>unavailable_pool := dict_pop i (unavailable_pool s)\<rparr>) {i}"
        using None pools_ok_unavailable(5)[OF Cons.prems] by (auto simp: without_def fun_eq_iff)
      ultimately show ?thesis using step pools_ok_pop(1)[OF Cons.prems] by blast
    next
      case False
      show ?thesis
      proof (cases "in_dict i (paused_pool s)")
        case True
        then have "delete_loop (i # ids) m s = delete_loop ids True (s\<lparr>paused_pool := dict_pop i (paused_pool s)\<rparr>)"
          using False by simp
        moreover have "without s (s\<lparr>paused_pool := dict_pop i (paused_pool s)\<rparr>) {i}"
          using None False by (auto simp: without_def fun_eq_iff)
        ultimately show ?thesis using step pools_ok_pop(2)[OF Cons.prems] by blast
      next
        case p: False
        have "delete_loop (i # ids) m s = delete_loop ids m s"
          using None False p by (simp add: delete_available_absent)
        moreover have "without s s {i}" using None False p by (auto simp: without_def fun_eq_iff)
        ultimately show ?thesis using step Cons.prems by blast
      qed
    qed
  next
    case (Some r)
    obtain role where d: "delete_instance_from_available_pool i s = (drop_available i role s, Inr True)"
      "pools_ok (drop_available i role s)" using delete_available_present[OF Cons.prems Some] by blast
    note n = pools_ok_available(3,4)[OF Cons.prems Some]
    have "delete_loop (i # ids) m s = delete_loop ids True (drop_available i role s)" using d n by simp
    moreover have "without s (drop_available i role s) {i}" using n by (auto simp: without_def fun_eq_iff)
    ultimately show ?thesis using step d by blast
  qed
qed

lemma remove_all_pools_ok:
  assumes ok: "pools_ok s"
  shows "\<exists>s' b. remove_instance_from_all_pools i s = (s', Inr b) \<and> pools_ok s' \<and> without s s' {i}"
proof (cases "dict_get (available_pool s) i")
  case None
  show ?thesis
  proof (cases "in_dict i (unavailable_pool s)")
    case True
    then obtain r where "dict_get (unavailable_pool s) i = Some r" by blast
    then have "without s (s\<lparr>unavailable_pool := dict_pop i (unavailable_pool s)\<rparr>) {i}"
      using None pools_ok_unavailable(5)[OF ok] by (auto simp: without_def fun_eq_iff)
    then show ?thesis using None True pools_ok_pop(1)[OF ok] by (auto simp: remove_instance_from_all_pools_def)
  next
    case False
    then show ?thesis
      using None pools_ok_pop(2)[OF ok] ok by (auto simp: remove_instance_from_all_pools_def without_def fun_eq_iff)
  qed
next
  case (Some r)
  obtain role where d: "delete_instance_from_available_pool i s = (drop_available i role s, Inr True)"
    "pools_ok (drop_available i role s)" using delete_available_present[OF ok Some] by blast
  moreover have "without s (drop_available i role s) {i}"
    using pools_ok_available(3,4)[OF ok Some] by (auto simp: without_def fun_eq_iff)
  ultimately show ?thesis using Some by (auto simp: remove_instance_from_all_pools_def)
qed

lemma find_by_id_without: "without s s' I \<Longrightarrow> find_instance_by_id i s' = (if i \<in> I then None else find_instance_by_id i s)"
  by (simp add: without_def find_instance_by_id_def split: option.split)

lemma find_by_id_None:
  "find_instance_by_id i s = None \<longleftrightarrow>
     dict_get (available_pool s) i = None \<and> dict_get (unavailable_pool s) i = None \<and> dict_get (paused_pool s) i = None"
  by (simp add: find_instance_by_id_def split: option.split)

lemma find_by_id_entry:
  assumes "pools_ok s" "find_instance_by_id i s = Some r"
  shows "r < length (cp_heap s)" "ins_id (obj s r) = i"
proof -
  from assms(2) consider "dict_get (available_pool s) i = Some r" | "dict_get (unavailable_pool s) i = Some r"
    | "dict_get (paused_pool s) i = Some r" by (auto simp: find_instance_by_id_def split: option.splits)
  then have "r < length (cp_heap s) \<and> ins_id (obj s r) = i"
    by cases (use pools_ok_available(1,2) pools_ok_unavailable(1,2) pools_ok_paused(1,2) assms(1) in blast)+
  then show "r < length (cp_heap s)" "ins_id (obj s r) = i" by simp_all
qed

lemma find_by_job_entry:
  assumes ok: "pools_ok s" and f: "find_instance_by_job_name jn s = Some x"
  shows "job_name (obj s x) = jn" "find_instance_by_id (ins_id (obj s x)) s = Some x"
proof -
  have x: "x \<in> set (snapshot_instances s)" and j: "job_name (obj s x) = jn"
    using f by (auto simp: find_instance_by_job_name_def find_Some_iff in_set_conv_nth)
  show "job_name (obj s x) = jn" by (rule j)
  from x obtain i where "(i, x) \<in> set (available_pool s) \<or> (i, x) \<in> set (unavailable_pool s) \<or> (i, x) \<in> set (paused_pool s)"
    by (fastforce simp: snapshot_instances_def)
  moreover have "distinct (dict_keys (available_pool s))" "distinct (dict_keys (unavailable_pool s))"
    "distinct (dict_keys (paused_pool s))" using ok by (simp_all add: pools_ok_def)
  ultimately consider "dict_get (available_pool s) i = Some x" | "dict_get (unavailable_pool s) i = Some x"
    | "dict_get (paused_pool s) i = Some x" by (auto simp: dict_get_eq_iff)
  then show "find_instance_by_id (ins_id (obj s x)) s = Some x"
  proof cases
    case 1
    then show ?thesis using pools_ok_available(2)[OF ok 1] by (simp add: find_instance_by_id_def)
  next
    case 2
    then show ?thesis using pools_ok_unavailable(2,4)[OF ok 2] by (simp add: find_instance_by_id_def)
  next
    case 3
    then show ?thesis using pools_ok_paused(2-4)[OF ok 3] by (simp add: find_instance_by_id_def)
  qed
qed

lemma replace_stale_ok:
  assumes ok: "pools_ok s"
  obtains s' st I where "replace_stale r s = (s', Inr st)" "pools_ok s'" "without s s' I" "ins_id (obj s r) \<notin> I"
    "find_instance_by_job_name (job_name (obj s r)) s = None \<Longrightarrow> I = {}"
proof (cases "find_instance_by_job_name (job_name (obj s r)) s")
  case None
  then show ?thesis using that[of s None "{}"] ok by (simp add: replace_stale_def without_def)
next
  case (Some x)
  show ?thesis
  proof (cases "ins_id (obj s x) = ins_id (obj s r)")
    case True
    then show ?thesis using that[of s None "{}"] ok Some by (simp add: replace_stale_def without_def)
  next
    case False
    from remove_all_pools_ok[OF ok, of "ins_id (obj s x)"] obtain s' b where
      "remove_instance_from_all_pools (ins_id (obj s x)) s = (s', Inr b)" "pools_ok s'" "without s s' {ins_id (obj s x)}" by blast
    then show ?thesis using that[of s' "Some x" "{ins_id (obj s x)}"] Some False by (simp add: replace_stale_def)
  qed
qed

text \<open>
  Adding an untracked instance: the index and role pool follow, the workload is reset.
\<close>

lemma add_available_ok:
  assumes ok: "pools_ok s" and r: "r < length (cp_heap s)" "PDRole_of (ins_role (obj s r)) = Some role"
    and f: "find_instance_by_id (ins_id (obj s r)) s = None"
  shows "add_instance_to_available_pool r s = (put_available r role s, Inr True)" "pools_ok (put_available r role s)"
  using f pools_ok_put_available[OF ok r] r by (simp_all add: add_instance_to_available_pool_def role_pdrole find_by_id_None)

lemma added_instance_ok:
  assumes ok: "pools_ok s" and r: "r < length (cp_heap s)" "PDRole_of (ins_role (obj s r)) = Some role"
    and f: "find_instance_by_id (ins_id (obj s r)) s = None"
  defines "s' \<equiv> heap_modify r reset_workload (put_available r role s)"
  shows "pools_ok s'" "heap_le s s'" "find_instance_by_id i s' = (if i = ins_id (obj s r) then Some r else find_instance_by_id i s)"
proof -
  note a = add_available_ok(2)[OF ok r f]
  have h: "heap_le (put_available r role s) s'" unfolding s'_def by (rule heap_le_modify) (use r in simp_all)
  then show "heap_le s s'" by (rule heap_le_trans[OF heap_le_heap, rotated]) simp
  show "pools_ok s'" by (rule pools_ok_heap[OF a h]) (simp_all add: s'_def)
  show "find_instance_by_id i s' = (if i = ins_id (obj s r) then Some r else find_instance_by_id i s)"
    by (simp add: s'_def find_instance_by_id_def split: option.split)
qed

lemma without_heap: "without s s' I \<Longrightarrow> obj s' r = obj s r" "without s s' I \<Longrightarrow> cp_heap s' = cp_heap s"
  by (simp_all add: without_def obj_def)

lemma balanced_reset: "balanced (reset_workload ins)"
proof -
  have "all_eps (ins\<lparr>gathered_workload := w\<rparr>) = all_eps ins" for w by (simp add: all_eps_def)
  then show ?thesis
    by (simp add: balanced_def reset_workload_def map_endpoints_all_eps o_def ep_tokens_def empty_workload_def list_all_iff
        sum_list_0) (simp add: map_endpoints_def)
qed

lemma wf_map_endpoints [simp]: "wf_endpoints (map_endpoints f ins) = wf_endpoints ins"
  by (simp add: wf_endpoints_def map_endpoints_def list_all_iff o_def case_prod_unfold)

lemma wf_reset [simp]: "wf_endpoints (reset_workload ins) = wf_endpoints ins"
  by (simp add: reset_workload_def) (simp add: wf_endpoints_def)

lemma ledgers_without: "ledgers_ok s \<Longrightarrow> without s s' I \<Longrightarrow> ledgers_ok s'"
  by (auto simp: ledgers_ok_def without_def obj_def split: if_splits)

lemma ledgers_frame:
  assumes "ledgers_ok s" "cp_heap s' = cp_heap s" "unavailable_pool s' = unavailable_pool s"
    and "\<And>i r. dict_get (available_pool s') i = Some r \<Longrightarrow> dict_get (available_pool s) i = Some r \<or> balanced (obj s r)"
  shows "ledgers_ok s'"
proof -
  have "obj s' = obj s" using assms(2) by (simp add: obj_def fun_eq_iff)
  then show ?thesis using assms(1,4) unfolding ledgers_ok_def assms(2,3) by (simp only:) blast
qed

lemma ledgers_added:
  assumes l: "ledgers_ok s" and r: "r < length (cp_heap s)"
  shows "ledgers_ok (heap_modify r reset_workload (put_available r role s))"
proof -
  let ?s = "heap_modify r reset_workload (put_available r role s)"
  have o: "obj ?s x = (if x = r then reset_workload (obj s r) else obj s x)" for x using r by (simp add: obj_heap_modify)
  show ?thesis
    using l unfolding ledgers_ok_def o by (auto simp: balanced_reset split: if_splits)
qed

text \<open>
  The requests a loop accepts: addresses of the request's objects with roles that have a pool,
  distinct IDs, and no tracked instance of another identity under one of them.
\<close>

lemma add_loop_ok:
  assumes "pools_ok s" "\<forall>r \<in> set rs. r < length (cp_heap s) \<and> PDRole_of (ins_role (obj s r)) \<noteq> None"
    and "distinct (map (ins_id \<circ> obj s) rs)"
    and "\<forall>r \<in> set rs. \<forall>x. find_instance_by_id (ins_id (obj s r)) s = Some x \<longrightarrow> same_add_identity (obj s x) (obj s r)"
  shows "\<exists>s' res. add_loop rs m a rp s = (s', Inr res) \<and> pools_ok s' \<and> heap_le s s' \<and> (ledgers_ok s \<longrightarrow> ledgers_ok s')"
  using assms
proof (induction rs arbitrary: m a rp s)
  case (Cons r rs)
  show ?case
  proof (cases "find_instance_by_id (ins_id (obj s r)) s")
    case (Some x)
    then have "same_add_identity (obj s x) (obj s r)" using Cons.prems(4) by simp
    then show ?thesis using Some Cons.IH[of s m a rp] Cons.prems by simp
  next
    case None
    obtain s1 st I where st: "replace_stale r s = (s1, Inr st)" "pools_ok s1" "without s s1 I"
      using replace_stale_ok[OF Cons.prems(1), of r] by blast
    note o1 = without_heap[OF st(3)]
    obtain role where role: "PDRole_of (ins_role (obj s r)) = Some role" using Cons.prems(2) by auto
    have f1: "find_instance_by_id (ins_id (obj s1 r)) s1 = None" using None find_by_id_without[OF st(3)] by (simp add: o1)
    have r1: "r < length (cp_heap s1)" "PDRole_of (ins_role (obj s1 r)) = Some role" using Cons.prems(2) role by (simp_all add: o1)
    define s2 where "s2 = heap_modify r reset_workload (put_available r role s1)"
    note a2 = added_instance_ok[OF st(2) r1 f1, folded s2_def]
    have le: "heap_le s s2" using a2(2) heap_le_trans[OF heap_le_heap[OF o1(2)]] by blast
    note d = heap_leD[OF le]
    obtain rp' where e: "add_loop (r # rs) m a rp s = add_loop rs True (a @ [r]) rp' s2"
      using None st(1) add_available_ok(1)[OF st(2) r1 f1] by (simp add: s2_def Let_def)
    have "\<exists>s' res. add_loop rs True (a @ [r]) rp' s2 = (s', Inr res) \<and> pools_ok s' \<and> heap_le s2 s' \<and> (ledgers_ok s2 \<longrightarrow> ledgers_ok s')"
    proof (rule Cons.IH[OF a2(1)])
      show "\<forall>x \<in> set rs. x < length (cp_heap s2) \<and> PDRole_of (ins_role (obj s2 x)) \<noteq> None"
        using Cons.prems(2) d by simp
      have m: "map (ins_id \<circ> obj s2) rs = map (ins_id \<circ> obj s) rs" using Cons.prems(2) d(2) by simp
      show "distinct (map (ins_id \<circ> obj s2) rs)" unfolding m using Cons.prems(3) by (simp add: o_def)
      show "\<forall>y \<in> set rs. \<forall>x. find_instance_by_id (ins_id (obj s2 y)) s2 = Some x \<longrightarrow> same_add_identity (obj s2 x) (obj s2 y)"
      proof (intro ballI allI impI)
        fix y x assume y: "y \<in> set rs" and fx: "find_instance_by_id (ins_id (obj s2 y)) s2 = Some x"
        have yl: "y < length (cp_heap s)" using Cons.prems(2) y by simp
        have ne: "ins_id (obj s y) \<noteq> ins_id (obj s r)" using Cons.prems(3) y by (auto simp: image_iff)
        have "find_instance_by_id (ins_id (obj s y)) s = Some x"
          using fx ne a2(3) find_by_id_without[OF st(3)] d(2)[OF yl] o1 by (auto split: if_splits)
        then have "same_add_identity (obj s x) (obj s y)" "x < length (cp_heap s)"
          using Cons.prems(1,4) y find_by_id_entry(1) by auto
        moreover have "reset_workload (obj s2 x) = reset_workload (obj s x)" "reset_workload (obj s2 y) = reset_workload (obj s y)"
          using le yl calculation(2) by (simp_all add: heap_le_def)
        ultimately show "same_add_identity (obj s2 x) (obj s2 y)" using reset_eqD(5,6) by metis
      qed
    qed
    moreover have "ledgers_ok s2" if "ledgers_ok s"
      unfolding s2_def by (rule ledgers_added[OF ledgers_without[OF that st(3)] r1(1)])
    ultimately show ?thesis using heap_le_trans[OF le] unfolding e by blast
  qed
qed simp

lemma pause_loop_ok:
  assumes "pools_ok s" "\<forall>r \<in> set rs. r < length (cp_heap s)"
  shows "\<exists>s' b. pause_instances rs m s = (s', Inr b) \<and> pools_ok s' \<and> cp_heap s' = cp_heap s \<and> (ledgers_ok s \<longrightarrow> ledgers_ok s')"
  using assms
proof (induction rs arbitrary: m s)
  case (Cons r rs)
  let ?i = "ins_id (obj s r)"
  show ?case
  proof (cases "in_dict ?i (paused_pool s) \<or> \<not> in_dict ?i (available_pool s)")
    case True
    then have "pause_instances (r # rs) m s = pause_instances rs m s" by (auto simp: Let_def)
    then show ?thesis using Cons by (simp del: pause_instances.simps)
  next
    case False
    then obtain x where x: "dict_get (available_pool s) ?i = Some x" by auto
    obtain role where d: "delete_instance_from_available_pool ?i s = (drop_available ?i role s, Inr True)"
      "pools_ok (drop_available ?i role s)" using delete_available_present[OF Cons.prems(1) x] by blast
    let ?d = "drop_available ?i role s"
    let ?s = "?d\<lparr>paused_pool := dict_set ?i r (paused_pool ?d)\<rparr>"
    have "pools_ok ?s"
      by (rule pools_ok_set_paused[OF d(2)]) (use Cons.prems pools_ok_available(3)[OF Cons.prems(1) x] in simp_all)
    moreover have "pause_instances (r # rs) m s = pause_instances rs True ?s" using False d(1) by (simp add: Let_def)
    moreover have "ledgers_ok ?s" if "ledgers_ok s"
      by (rule ledgers_frame[OF that]) (auto split: if_splits)
    ultimately show ?thesis using Cons.IH[of ?s True] Cons.prems(2) by (auto simp del: pause_instances.simps)
  qed
qed simp

lemma resume_loop_ok:
  assumes "pools_ok s" "\<forall>r \<in> set rs. r < length (cp_heap s) \<and> PDRole_of (ins_role (obj s r)) \<noteq> None"
  shows "\<exists>s' b. resume_instances rs m s = (s', Inr b) \<and> pools_ok s' \<and> cp_heap s' = cp_heap s \<and>
    (ledgers_ok s \<and> (\<forall>r \<in> set rs. balanced (obj s r)) \<longrightarrow> ledgers_ok s')"
  using assms
proof (induction rs arbitrary: m s)
  case (Cons r rs)
  let ?i = "ins_id (obj s r)"
  show ?case
  proof (cases "dict_get (paused_pool s) ?i")
    case None
    then have "resume_instances (r # rs) m s = resume_instances rs m s" by (simp add: Let_def)
    then show ?thesis using Cons.IH[OF Cons.prems(1), of m] Cons.prems(2) by (auto simp del: resume_instances.simps)
  next
    case (Some x)
    let ?s = "s\<lparr>paused_pool := dict_pop ?i (paused_pool s)\<rparr>"
    obtain role where role: "PDRole_of (ins_role (obj s r)) = Some role" using Cons.prems(2) by auto
    have f: "find_instance_by_id (ins_id (obj ?s r)) ?s = None"
      using pools_ok_paused(3,4)[OF Cons.prems(1) Some] by (simp add: find_by_id_None)
    note a = add_available_ok[OF pools_ok_pop(2)[OF Cons.prems(1)] _ _ f]
    have "resume_instances (r # rs) m s = resume_instances rs True (put_available r role ?s)"
      using Some a(1)[of role] role Cons.prems(2) by (simp add: Let_def)
    moreover have "pools_ok (put_available r role ?s)" using a(2)[of role] role Cons.prems(2) by simp
    moreover have "ledgers_ok (put_available r role ?s)" if "ledgers_ok s" "balanced (obj s r)"
      by (rule ledgers_frame[OF that(1)]) (use that(2) in \<open>auto split: if_splits\<close>)
    ultimately show ?thesis
      using Cons.IH[of "put_available r role ?s" True] Cons.prems(2) by (auto simp del: resume_instances.simps)
  qed
qed simp

section \<open>SET\<close>

lemma by_id_dict:
  "distinct (map (ins_id \<circ> obj s) rs) \<Longrightarrow>
   foldl (\<lambda>d r. dict_set (ins_id (obj s r)) r d) [] rs = map (\<lambda>r. (ins_id (obj s r), r)) rs"
  using foldl_dict_set_fresh[of "ins_id \<circ> obj s" rs "[]" "\<lambda>r. r"] by (simp add: o_def)

lemma tracked_iff: "i \<in> set (tracked_ids s) \<longleftrightarrow> find_instance_by_id i s \<noteq> None"
  by (simp add: tracked_ids_def find_by_id_None in_dict_iff del: not_None_eq)

lemma tracked_distinct: "pools_ok s \<Longrightarrow> distinct (tracked_ids s)"
proof -
  assume ok: "pools_ok s"
  have d: "distinct (dict_keys (available_pool s))" "distinct (dict_keys (unavailable_pool s))" "distinct (dict_keys (paused_pool s))"
    using ok by (simp_all add: pools_ok_def)
  have "i \<notin> fst ` set (unavailable_pool s)" "i \<notin> fst ` set (paused_pool s)" if "i \<in> fst ` set (available_pool s)" for i
    using pools_ok_available(3,4)[OF ok, of i] that by (auto simp: in_dict_iff[symmetric] simp del: not_None_eq)
  moreover have "i \<notin> fst ` set (paused_pool s)" if "i \<in> fst ` set (unavailable_pool s)" for i
    using pools_ok_unavailable(5)[OF ok, of i] that by (auto simp: in_dict_iff[symmetric] simp del: not_None_eq)
  ultimately have "fst ` set (available_pool s) \<inter> (fst ` set (unavailable_pool s) \<union> fst ` set (paused_pool s)) = {}"
    "fst ` set (unavailable_pool s) \<inter> fst ` set (paused_pool s) = {}" by blast+
  then show ?thesis using d by (simp add: tracked_ids_def)
qed

text \<open>
  Whether a request's object has to be added by a SET.
\<close>

lemma set_map_filter: "set (List.map_filter f xs) = {y. \<exists>x \<in> set xs. f x = Some y}"
  by (induction xs) (auto simp: List.map_filter_simps split: option.splits)

lemma needs_refresh_iff:
  assumes "distinct (map (ins_id \<circ> obj s) rs)" "r \<in> set rs"
  shows "needs_refresh (map (\<lambda>r. (ins_id (obj s r), r)) rs) s (ins_id (obj s r)) \<longleftrightarrow>
     (\<exists>x. find_instance_by_id (ins_id (obj s r)) s = Some x \<and>
        (\<not> in_dict (ins_id (obj s r)) (available_pool s) \<or> instance_needs_update (obj s x) (obj s r)))"
proof -
  have "dict_get (map (\<lambda>r. (ins_id (obj s r), r)) rs) (ins_id (obj s r)) = Some r"
    using assms by (simp add: map_of_eq_Some_iff o_def image_iff)
  then show ?thesis by (simp add: needs_refresh_def split: option.split)
qed

lemma by_id_get:
  "distinct (map (ins_id \<circ> obj s) rs) \<Longrightarrow>
   dict_get (map (\<lambda>r. (ins_id (obj s r), r)) rs) i = Some r \<longleftrightarrow> r \<in> set rs \<and> ins_id (obj s r) = i"
  by (auto simp: map_of_eq_Some_iff o_def image_iff)

lemma keeps_None_iff:
  assumes "distinct (map (ins_id \<circ> obj s) rs)" "r \<in> set rs"
  shows "keeps s r = None \<longleftrightarrow> find_instance_by_id (ins_id (obj s r)) s = None \<or>
    needs_refresh (map (\<lambda>r. (ins_id (obj s r), r)) rs) s (ins_id (obj s r))"
  using needs_refresh_iff[OF assms] by (auto simp: keeps_def find_instance_by_id_def split: option.splits)

lemma compute_set_diff_eq:
  assumes "distinct (map (ins_id \<circ> obj s) rs)"
  defines "d \<equiv> map (\<lambda>r. (ins_id (obj s r), r)) rs"
  shows "compute_set_diff ord rs s =
    (List.map_filter (dict_get d) (ord (filter (\<lambda>i. i \<notin> set (tracked_ids s) \<or> needs_refresh d s i) (dict_keys d))),
     List.map_filter (\<lambda>i. find_instance_by_id i s) (ord (filter (\<lambda>i. \<not> in_dict i d \<or> needs_refresh d s i) (tracked_ids s))))"
  unfolding d_def by (simp add: compute_set_diff_def by_id_dict[OF assms(1)] Let_def)

lemma ids_of_by_id:
  assumes dis: "distinct (map (ins_id \<circ> obj s) rs)" and "set xs \<subseteq> (ins_id \<circ> obj s) ` set rs"
  shows "map (ins_id \<circ> obj s) (List.map_filter (dict_get (map (\<lambda>r. (ins_id (obj s r), r)) rs)) xs) = xs"
  using assms(2)
proof (induction xs)
  case (Cons x xs)
  then obtain r where r: "r \<in> set rs" "ins_id (obj s r) = x" by auto
  then have "dict_get (map (\<lambda>r. (ins_id (obj s r), r)) rs) x = Some r" by (simp only: by_id_get[OF dis] simp_thms)
  then show ?case using Cons r(2) by (simp add: List.map_filter_simps)
qed (simp add: List.map_filter_simps)

lemma set_diff_added:
  assumes dis: "distinct (map (ins_id \<circ> obj s) rs)" and ord: "iterates ord"
    and c: "compute_set_diff ord rs s = (to_add, to_remove)"
  shows "distinct (map (ins_id \<circ> obj s) to_add)" and "set to_add = {r \<in> set rs. keeps s r = None}"
proof -
  let ?d = "map (\<lambda>r. (ins_id (obj s r), r)) rs"
  let ?A = "filter (\<lambda>i. i \<notin> set (tracked_ids s) \<or> needs_refresh ?d s i) (dict_keys ?d)"
  have e: "to_add = List.map_filter (dict_get ?d) (ord ?A)" using c by (simp add: compute_set_diff_eq[OF dis])
  have A: "set ?A = {ins_id (obj s r) | r. r \<in> set rs \<and> keeps s r = None}"
    using keeps_None_iff[OF dis] by (auto simp: tracked_iff simp del: not_None_eq)
  have o: "distinct (ord ?A)" "set (ord ?A) = set ?A" using ord dis by (simp_all add: iterates_def o_def)
  have u: "r' = r" if "r \<in> set rs" "r' \<in> set rs" "ins_id (obj s r') = ins_id (obj s r)" for r r'
    using dis that by (auto simp: distinct_map inj_on_def)
  have "set to_add = {r. \<exists>i \<in> {ins_id (obj s r) | r. r \<in> set rs \<and> keeps s r = None}. r \<in> set rs \<and> ins_id (obj s r) = i}"
    unfolding e set_map_filter o(2) A by_id_get[OF dis] ..
  also have "\<dots> = {r \<in> set rs. keeps s r = None}" using u by fastforce
  finally show "set to_add = {r \<in> set rs. keeps s r = None}" .
  have "set (ord ?A) \<subseteq> (ins_id \<circ> obj s) ` set rs" unfolding o(2) by auto
  then show "distinct (map (ins_id \<circ> obj s) to_add)" unfolding e using ids_of_by_id[OF dis] o(1) by simp
qed

lemma set_diff_removed:
  assumes ok: "pools_ok s" and dis: "distinct (map (ins_id \<circ> obj s) rs)" and ord: "iterates ord"
    and c: "compute_set_diff ord rs s = (to_add, to_remove)"
  shows "set (map (ins_id \<circ> obj s) to_remove) =
      {i. find_instance_by_id i s \<noteq> None \<and> (\<forall>r \<in> set rs. ins_id (obj s r) = i \<longrightarrow> keeps s r = None)}"
proof -
  let ?d = "map (\<lambda>r. (ins_id (obj s r), r)) rs"
  let ?R = "filter (\<lambda>i. \<not> in_dict i ?d \<or> needs_refresh ?d s i) (tracked_ids s)"
  have "set (ord ?R) = set ?R" using ord by (simp add: iterates_def)
  then have "set to_remove = {x. \<exists>i \<in> set ?R. find_instance_by_id i s = Some x}"
    using c by (auto simp: compute_set_diff_eq[OF dis] set_map_filter simp del: not_None_eq)
  then have "set (map (ins_id \<circ> obj s) to_remove) = {ins_id (obj s x) | i x. i \<in> set ?R \<and> find_instance_by_id i s = Some x}"
    by auto
  also have "\<dots> = set ?R" using find_by_id_entry(2)[OF ok] tracked_iff by force
  also have "\<dots> = {i. find_instance_by_id i s \<noteq> None \<and> (\<forall>r \<in> set rs. ins_id (obj s r) = i \<longrightarrow> keeps s r = None)}"
  proof -
    have "(\<not> in_dict i ?d \<or> needs_refresh ?d s i) \<longleftrightarrow> (\<forall>r \<in> set rs. ins_id (obj s r) = i \<longrightarrow> keeps s r = None)"
      if "find_instance_by_id i s \<noteq> None" for i
    proof (cases "dict_get ?d i")
      case None
      then have "\<not> (r \<in> set rs \<and> ins_id (obj s r) = i)" for r using by_id_get[OF dis, of i r] by simp
      with None show ?thesis by auto
    next
      case (Some r)
      then have r: "r \<in> set rs" "ins_id (obj s r) = i" using by_id_get[OF dis] by auto
      have "(\<forall>r' \<in> set rs. ins_id (obj s r') = i \<longrightarrow> keeps s r' = None) \<longleftrightarrow> keeps s r = None"
        using r dis by (auto simp: distinct_map inj_on_def)
      moreover have "keeps s r = None \<longleftrightarrow> needs_refresh ?d s i" using keeps_None_iff[OF dis r(1)] that unfolding r(2) by blast
      ultimately show ?thesis using Some by (simp only: option.distinct not_False_eq_True simp_thms)
    qed
    then show ?thesis by (auto simp: tracked_iff simp del: not_None_eq)
  qed
  finally show ?thesis .
qed

lemma set_removal:
  assumes ok: "pools_ok s" and dis: "distinct (map (ins_id \<circ> obj s) rs)" and ord: "iterates ord"
    and c: "compute_set_diff ord rs s = (to_add, to_remove)"
  obtains s1 b where "(if to_remove \<noteq> [] then delete_instances (map (ins_id \<circ> obj s) to_remove) s else (s, Inr False)) = (s1, Inr b)"
    "pools_ok s1" "without s s1 (set (map (ins_id \<circ> obj s) to_remove))"
proof (cases "to_remove = []")
  case True
  then show ?thesis using that[of s False] ok by (simp add: without_def)
next
  case False
  from delete_loop_ok[OF ok, of "map (ins_id \<circ> obj s) to_remove" False] obtain s' b where
    "delete_loop (map (ins_id \<circ> obj s) to_remove) False s = (s', Inr b)" "pools_ok s'"
    "without s s' (set (map (ins_id \<circ> obj s) to_remove))" by blast
  then show ?thesis using that[of s' b] False by (simp add: delete_instances_def)
qed

lemma kv_frame [simp]:
  "cp_heap (register_kv_instance b ids s) = cp_heap s" "available_pool (register_kv_instance b ids s) = available_pool s"
  "unavailable_pool (register_kv_instance b ids s) = unavailable_pool s"
  "paused_pool (register_kv_instance b ids s) = paused_pool s" "role_pools (register_kv_instance b ids s) = role_pools s"
  "endpoint_id_cache (register_kv_instance b ids s) = endpoint_id_cache s" "obj (register_kv_instance b ids s) = obj s"
  by (simp_all add: register_kv_instance_def obj_def fun_eq_iff)

lemma pools_ok_kv [simp]: "pools_ok s \<Longrightarrow> pools_ok (register_kv_instance b ids s)"
  by (rule pools_ok_heap[of s]) (simp_all add: heap_le_heap)

lemma add_instances_ok:
  assumes "pools_ok s" "\<forall>r \<in> set rs. r < length (cp_heap s) \<and> PDRole_of (ins_role (obj s r)) \<noteq> None"
    and "distinct (map (ins_id \<circ> obj s) rs)"
    and "\<forall>r \<in> set rs. \<forall>x. find_instance_by_id (ins_id (obj s r)) s = Some x \<longrightarrow> same_add_identity (obj s x) (obj s r)"
  shows "\<exists>s' b. add_instances rs s = (s', Inr b) \<and> pools_ok s' \<and> heap_le s s' \<and> (ledgers_ok s \<longrightarrow> ledgers_ok s')"
proof -
  from add_loop_ok[OF assms, of False "[]" "[]"] obtain s' m a rp where
    "add_loop rs False [] [] s = (s', Inr (m, a, rp))" "pools_ok s'" "heap_le s s'" "ledgers_ok s \<longrightarrow> ledgers_ok s'"
    by (metis prod_cases3)
  moreover have "ledgers_ok (register_kv_instance x i (register_kv_instance y j s'))" if "ledgers_ok s'" for x i y j
    by (rule ledgers_frame[OF that]) simp_all
  moreover from calculation(3) have "heap_le s (register_kv_instance x i (register_kv_instance y j s'))" for x i y j
    by (rule heap_le_trans[OF _ heap_le_heap]) simp
  ultimately show ?thesis by (simp add: add_instances_def)
qed

lemma apply_set_ok:
  assumes ok: "pools_ok s" and dis: "distinct (map (ins_id \<circ> obj s) rs)" and ord: "iterates ord"
    and v: "\<forall>r \<in> set rs. r < length (cp_heap s) \<and> PDRole_of (ins_role (obj s r)) \<noteq> None"
  shows "\<exists>s' a. apply_set_diff ord rs s = (s', Inr a) \<and> pools_ok s' \<and> heap_le s s' \<and> (ledgers_ok s \<longrightarrow> ledgers_ok s')"
proof -
  obtain to_add to_remove where c: "compute_set_diff ord rs s = (to_add, to_remove)" by fastforce
  note f = set_diff_added[OF dis ord c] set_diff_removed[OF ok dis ord c]
  obtain s1 b where s1: "(if to_remove \<noteq> [] then delete_instances (map (ins_id \<circ> obj s) to_remove) s else (s, Inr False)) = (s1, Inr b)"
    "pools_ok s1" "without s s1 (set (map (ins_id \<circ> obj s) to_remove))" by (rule set_removal[OF ok dis ord c])
  note o1 = without_heap[OF s1(3)]
  have n: "find_instance_by_id (ins_id (obj s1 r)) s1 = None" if "r \<in> set to_add" for r
  proof -
    have r: "r \<in> set rs" "keeps s r = None" using that f(2) by auto
    have "keeps s r' = None" if "r' \<in> set rs" "ins_id (obj s r') = ins_id (obj s r)" for r'
      using dis that r by (auto simp: distinct_map inj_on_def)
    then have "find_instance_by_id (ins_id (obj s r)) s = None \<or> ins_id (obj s r) \<in> set (map (ins_id \<circ> obj s) to_remove)"
      unfolding f(3) by blast
    then show ?thesis unfolding o1 find_by_id_without[OF s1(3)] by auto
  qed
  have "\<exists>s2 b. (if to_add \<noteq> [] then add_instances to_add s1 else (s1, Inr False)) = (s2, Inr b) \<and> pools_ok s2 \<and> heap_le s1 s2 \<and> (ledgers_ok s1 \<longrightarrow> ledgers_ok s2)"
  proof (cases "to_add = []")
    case True
    then show ?thesis using s1(2) by auto
  next
    case False
    have "\<exists>s2 b. add_instances to_add s1 = (s2, Inr b) \<and> pools_ok s2 \<and> heap_le s1 s2 \<and> (ledgers_ok s1 \<longrightarrow> ledgers_ok s2)"
      by (rule add_instances_ok[OF s1(2)]) (use v f(1,2) n o1 in \<open>simp_all add: o_def\<close>)
    then show ?thesis using False by simp
  qed
  then obtain s2 b2 where s2: "(if to_add \<noteq> [] then add_instances to_add s1 else (s1, Inr False)) = (s2, Inr b2)"
    "pools_ok s2" "heap_le s1 s2" "ledgers_ok s1 \<longrightarrow> ledgers_ok s2" by blast
  have "heap_le s s2" using s2(3) heap_le_trans[OF heap_le_heap[OF o1(2)]] by blast
  then show ?thesis using s1(1) s2(1,2,4) ledgers_without[OF _ s1(3)] ok c unfolding apply_set_diff_def by (auto simp: Let_def)
qed

section \<open>Refresh\<close>

lemma alloc_ok:
  assumes "pools_ok s0" and a: "alloc_instances instances s0 = (s, rs)"
  shows "pools_ok s" "map (obj s) rs = instances" "\<forall>r \<in> set rs. r < length (cp_heap s)" "heap_le s0 s"
    "available_pool s = available_pool s0" "unavailable_pool s = unavailable_pool s0" "paused_pool s = paused_pool s0"
    "role_pools s = role_pools s0" "endpoint_id_cache s = endpoint_id_cache s0"
proof -
  have s: "s = s0\<lparr>cp_heap := cp_heap s0 @ instances\<rparr>" "rs = [length (cp_heap s0) ..< length (cp_heap s0) + length instances]"
    using a by (simp_all add: alloc_instances_def)
  show h: "heap_le s0 s" by (simp add: s heap_le_def obj_def nth_append)
  show "pools_ok s" by (rule pools_ok_heap[OF assms(1) h]) (simp_all add: s)
  show "map (obj s) rs = instances" by (rule nth_equalityI) (simp_all add: s obj_def nth_append)
  show "\<forall>r \<in> set rs. r < length (cp_heap s)" "available_pool s = available_pool s0" "unavailable_pool s = unavailable_pool s0"
    "paused_pool s = paused_pool s0" "role_pools s = role_pools s0" "endpoint_id_cache s = endpoint_id_cache s0"
    by (simp_all add: s)
qed

lemma find_by_id_alloc:
  "alloc_instances instances s0 = (s, rs) \<Longrightarrow> find_instance_by_id i s = find_instance_by_id i s0"
  by (auto simp: alloc_instances_def find_instance_by_id_def split: option.split)

lemma validated:
  assumes "validate_refresh_instances ev instances s = Inr u" "map (obj s) rs = instances"
  shows "distinct (map (ins_id \<circ> obj s) rs)"
    and "ev \<in> {ADD, SET, RESUME} \<Longrightarrow> \<forall>r \<in> set rs. PDRole_of (ins_role (obj s r)) \<noteq> None"
    and "ev = ADD \<Longrightarrow> \<forall>r \<in> set rs. \<forall>x. find_instance_by_id (ins_id (obj s r)) s = Some x \<longrightarrow> same_add_identity (obj s x) (obj s r)"
proof -
  have i: "map ins_id instances = map (ins_id \<circ> obj s) rs" using assms(2) by auto
  show "distinct (map (ins_id \<circ> obj s) rs)"
    using assms(1) unfolding i[symmetric] by (auto simp: validate_refresh_instances_def split: if_splits)
  have "list_all (\<lambda>ins. PDRole_of (ins_role ins) \<noteq> None) instances" if "ev \<in> {ADD, SET, RESUME}"
    using assms(1) that by (auto simp: validate_refresh_instances_def split: if_splits)
  then show "ev \<in> {ADD, SET, RESUME} \<Longrightarrow> \<forall>r \<in> set rs. PDRole_of (ins_role (obj s r)) \<noteq> None"
    using assms(2) by (auto simp: list_all_iff)
  show "\<forall>r \<in> set rs. \<forall>x. find_instance_by_id (ins_id (obj s r)) s = Some x \<longrightarrow> same_add_identity (obj s x) (obj s r)" if "ev = ADD"
  proof -
    have "find (\<lambda>ins. case find_instance_by_id (ins_id ins) s of
        Some x \<Rightarrow> \<not> same_add_identity (obj s x) ins | None \<Rightarrow> False) instances = None"
      using assms(1) that by (auto simp: validate_refresh_instances_def split: if_splits option.splits)
    then show ?thesis using assms(2) by (fastforce simp: find_None_iff split: option.splits)
  qed
qed

lemma refresh_cases:
  assumes ok: "pools_ok s0" and ord: "iterates ord" and a: "alloc_instances instances s0 = (s, rs)"
  obtains e where "validate_refresh_instances ev instances s = Inl e" "refresh_instances ord ev instances s0 = (s, Inl e)"
  | s' ans where "validate_refresh_instances ev instances s = Inr ()" "refresh_instances ord ev instances s0 = (s', Inr ans)"
      "pools_ok s'" "heap_le s s'"
      "ledgers_ok s \<Longrightarrow> (ev = RESUME \<Longrightarrow> \<forall>ins \<in> set instances. balanced ins) \<Longrightarrow> ledgers_ok s'"
proof (cases "validate_refresh_instances ev instances s")
  case (Inl e)
  then show ?thesis using that(1) a by (simp add: refresh_instances_def)
next
  case (Inr u)
  note al = alloc_ok[OF ok a] and v = validated[OF Inr alloc_ok(2)[OF ok a]]
  have "\<exists>s' ans. refresh_instances ord ev instances s0 = (s', Inr ans) \<and> pools_ok s' \<and> heap_le s s' \<and>
      (ledgers_ok s \<and> (ev = RESUME \<longrightarrow> (\<forall>ins \<in> set instances. balanced ins)) \<longrightarrow> ledgers_ok s')"
  proof (cases ev)
    case ADD
    then obtain s' b where "add_instances rs s = (s', Inr b)" "pools_ok s'" "heap_le s s'" "ledgers_ok s \<longrightarrow> ledgers_ok s'"
      using add_instances_ok[OF al(1) _ v(1)] v(2,3) al(3) by blast
    then show ?thesis using ADD Inr a by (simp add: refresh_instances_def)
  next
    case DEL
    obtain s' b where d: "delete_loop (map ins_id instances) False s = (s', Inr b)" "pools_ok s'"
      "without s s' (set (map ins_id instances))" using delete_loop_ok[OF al(1)] by blast
    have "heap_le s (register_kv_instance False (map ins_id instances) s')"
      by (rule heap_le_heap) (simp add: without_heap(2)[OF d(3)])
    moreover have "ledgers_ok (register_kv_instance False (map ins_id instances) s')" if "ledgers_ok s"
      by (rule ledgers_frame[OF ledgers_without[OF that d(3)]]) simp_all
    ultimately show ?thesis using d(1,2) DEL Inr a by (simp add: refresh_instances_def delete_instances_def)
  next
    case SET
    then obtain s' b where "apply_set_diff ord rs s = (s', Inr b)" "pools_ok s'" "heap_le s s'" "ledgers_ok s \<longrightarrow> ledgers_ok s'"
      using apply_set_ok[OF al(1) v(1) ord] v(2) al(3) by blast
    then show ?thesis using SET Inr a by (simp add: refresh_instances_def)
  next
    case PAUSE
    obtain s' b where "pause_instances rs False s = (s', Inr b)" "pools_ok s'" "cp_heap s' = cp_heap s" "ledgers_ok s \<longrightarrow> ledgers_ok s'"
      using pause_loop_ok[OF al(1,3)] by blast
    then show ?thesis using PAUSE Inr a heap_le_heap by (simp add: refresh_instances_def)
  next
    case RESUME
    then obtain s' b where "resume_instances rs False s = (s', Inr b)" "pools_ok s'" "cp_heap s' = cp_heap s"
      "ledgers_ok s \<and> (\<forall>r \<in> set rs. balanced (obj s r)) \<longrightarrow> ledgers_ok s'"
      using resume_loop_ok[OF al(1)] al(3) v(2) by blast
    moreover from this(4) have "ledgers_ok s \<and> (\<forall>ins \<in> set instances. balanced ins) \<longrightarrow> ledgers_ok s'"
      unfolding al(2)[symmetric] by simp
    ultimately show ?thesis using RESUME Inr a heap_le_heap by (simp add: refresh_instances_def)
  qed
  then show ?thesis using that(2) Inr by auto
qed

lemma find_by_job_None:
  assumes ok: "pools_ok s"
  shows "find_instance_by_job_name jn s = None \<longleftrightarrow> (\<forall>i x. find_instance_by_id i s = Some x \<longrightarrow> job_name (obj s x) \<noteq> jn)"
proof
  assume n: "find_instance_by_job_name jn s = None"
  show "\<forall>i x. find_instance_by_id i s = Some x \<longrightarrow> job_name (obj s x) \<noteq> jn"
  proof (intro allI impI)
    fix i x assume "find_instance_by_id i s = Some x"
    then have "x \<in> set (snapshot_instances s)"
      by (auto simp: find_instance_by_id_def snapshot_instances_def image_iff dest!: dict_get_in split: option.splits) force+
    then show "job_name (obj s x) \<noteq> jn" using n by (simp add: find_instance_by_job_name_def find_None_iff)
  qed
next
  assume "\<forall>i x. find_instance_by_id i s = Some x \<longrightarrow> job_name (obj s x) \<noteq> jn"
  then show "find_instance_by_job_name jn s = None"
    by (meson find_by_job_entry[OF ok] not_None_eq)
qed

lemma add_loop_fresh:
  assumes "pools_ok s" "\<forall>r \<in> set rs. r < length (cp_heap s) \<and> PDRole_of (ins_role (obj s r)) \<noteq> None"
    and "distinct (map (ins_id \<circ> obj s) rs)" "\<forall>r \<in> set rs. find_instance_by_id (ins_id (obj s r)) s = None"
    and "distinct (map (job_name \<circ> obj s) rs)"
    and "\<forall>i x. find_instance_by_id i s = Some x \<longrightarrow> job_name (obj s x) \<notin> (job_name \<circ> obj s) ` set rs"
  shows "\<exists>s' res. add_loop rs m a rp s = (s', Inr res) \<and> pools_ok s' \<and> heap_le s s' \<and>
    (\<forall>r \<in> set rs. dict_get (available_pool s') (ins_id (obj s r)) = Some r) \<and>
    (\<forall>i. i \<notin> (ins_id \<circ> obj s) ` set rs \<longrightarrow> dict_get (available_pool s') i = dict_get (available_pool s) i) \<and>
    unavailable_pool s' = unavailable_pool s \<and> paused_pool s' = paused_pool s"
  using assms
proof (induction rs arbitrary: m a rp s)
  case (Cons r rs)
  have nj: "find_instance_by_job_name (job_name (obj s r)) s = None"
    unfolding find_by_job_None[OF Cons.prems(1)] using Cons.prems(6) by auto
  have st: "replace_stale r s = (s, Inr None)" by (simp add: replace_stale_def nj)
  obtain role where role: "PDRole_of (ins_role (obj s r)) = Some role" using Cons.prems(2) by auto
  have f: "find_instance_by_id (ins_id (obj s r)) s = None" and rl: "r < length (cp_heap s)" using Cons.prems(2,4) by simp_all
  define s2 where "s2 = heap_modify r reset_workload (put_available r role s)"
  note a2 = added_instance_ok[OF Cons.prems(1) rl role f, folded s2_def]
  note d = heap_leD[OF a2(2)]
  have e: "add_loop (r # rs) m a rp s = add_loop rs True (a @ [r]) rp s2"
    using f st add_available_ok(1)[OF Cons.prems(1) rl role f] by (simp add: s2_def)
  have ids: "map (ins_id \<circ> obj s2) rs = map (ins_id \<circ> obj s) rs" and jobs: "map (job_name \<circ> obj s2) rs = map (job_name \<circ> obj s) rs"
    using Cons.prems(2) d by simp_all
  have ids': "(ins_id \<circ> obj s2) ` set rs = (ins_id \<circ> obj s) ` set rs" "(job_name \<circ> obj s2) ` set rs = (job_name \<circ> obj s) ` set rs"
    using ids jobs by (metis set_map)+
  have "\<exists>s' res. add_loop rs True (a @ [r]) rp s2 = (s', Inr res) \<and> pools_ok s' \<and> heap_le s2 s' \<and>
    (\<forall>r \<in> set rs. dict_get (available_pool s') (ins_id (obj s2 r)) = Some r) \<and>
    (\<forall>i. i \<notin> (ins_id \<circ> obj s2) ` set rs \<longrightarrow> dict_get (available_pool s') i = dict_get (available_pool s2) i) \<and>
    unavailable_pool s' = unavailable_pool s2 \<and> paused_pool s' = paused_pool s2"
  proof (rule Cons.IH[OF a2(1)])
    show "\<forall>x \<in> set rs. x < length (cp_heap s2) \<and> PDRole_of (ins_role (obj s2 x)) \<noteq> None" using Cons.prems(2) d by simp
    show "distinct (map (ins_id \<circ> obj s2) rs)" "distinct (map (job_name \<circ> obj s2) rs)"
      unfolding ids jobs using Cons.prems(3,5) by (simp_all add: o_def)
    show "\<forall>x \<in> set rs. find_instance_by_id (ins_id (obj s2 x)) s2 = None"
    proof
      fix x assume x: "x \<in> set rs"
      have "ins_id (obj s x) \<noteq> ins_id (obj s r)" using Cons.prems(3) x by (auto simp: image_iff)
      then show "find_instance_by_id (ins_id (obj s2 x)) s2 = None" using Cons.prems(2,4) d(2) x by (simp add: a2(3))
    qed
    show "\<forall>i x. find_instance_by_id i s2 = Some x \<longrightarrow> job_name (obj s2 x) \<notin> (job_name \<circ> obj s2) ` set rs"
      unfolding ids'
    proof (intro allI impI)
      fix i x assume "find_instance_by_id i s2 = Some x"
      then have "(if i = ins_id (obj s r) then Some r else find_instance_by_id i s) = Some x" by (simp only: a2(3))
      then consider "x = r" | "find_instance_by_id i s = Some x" by (cases "i = ins_id (obj s r)") simp_all
      then show "job_name (obj s2 x) \<notin> (job_name \<circ> obj s) ` set rs"
      proof cases
        case 1
        then show ?thesis using Cons.prems(5) d(4)[OF rl] by auto
      next
        case 2
        then show ?thesis using Cons.prems(6) d(4) find_by_id_entry(1)[OF Cons.prems(1) 2] by auto
      qed
    qed
  qed
  then obtain s' res where h: "add_loop rs True (a @ [r]) rp s2 = (s', Inr res)" "pools_ok s'" "heap_le s2 s'"
    "\<forall>r \<in> set rs. dict_get (available_pool s') (ins_id (obj s2 r)) = Some r"
    "\<forall>i. i \<notin> (ins_id \<circ> obj s) ` set rs \<longrightarrow> dict_get (available_pool s') i = dict_get (available_pool s2) i"
    "unavailable_pool s' = unavailable_pool s2" "paused_pool s' = paused_pool s2" unfolding ids' by blast
  have "\<forall>x \<in> set rs. dict_get (available_pool s') (ins_id (obj s x)) = Some x" using h(4) Cons.prems(2) d(2) by simp
  moreover have "dict_get (available_pool s') (ins_id (obj s r)) = Some r"
    using h(5) Cons.prems(3) by (simp add: s2_def o_def)
  moreover have "i \<notin> (ins_id \<circ> obj s) ` set (r # rs) \<Longrightarrow> dict_get (available_pool s') i = dict_get (available_pool s) i" for i
    using h(5) by (simp add: s2_def)
  moreover have "heap_le s s'" using heap_le_trans[OF a2(2) h(3)] .
  ultimately show ?case unfolding e using h(1,2,6,7) by (intro exI[of _ s'] exI[of _ res]) (simp add: s2_def)
qed simp

text \<open>
  A SET on a request with distinct IDs, distinct job names and roles that have a pool: what is left
  after the removals are the instances the SET keeps, then the others are added.
\<close>

lemma set_survivors:
  assumes ok: "pools_ok s" and dis: "distinct (map (ins_id \<circ> obj s) rs)" and ord: "iterates ord"
    and c: "compute_set_diff ord rs s = (to_add, to_remove)"
    and w: "without s s1 (set (map (ins_id \<circ> obj s) to_remove))"
  shows "find_instance_by_id i s1 = Some x \<longleftrightarrow> (\<exists>r \<in> set rs. ins_id (obj s r) = i \<and> keeps s r = Some x)"
proof -
  let ?P = "\<forall>r \<in> set rs. ins_id (obj s r) = i \<longrightarrow> keeps s r = None"
  have "find_instance_by_id i s1 = (if find_instance_by_id i s \<noteq> None \<and> ?P then None else find_instance_by_id i s)"
    unfolding find_by_id_without[OF w] set_diff_removed[OF ok dis ord c] by simp
  then have e: "find_instance_by_id i s1 = Some x \<longleftrightarrow> find_instance_by_id i s = Some x \<and> \<not> ?P" by (simp split: if_splits)
  have k: "find_instance_by_id i s = Some y" if "ins_id (obj s r) = i" "keeps s r = Some y" for r y
    using that by (auto simp: keeps_def find_instance_by_id_def split: option.splits if_splits)
  show ?thesis
  proof
    assume "find_instance_by_id i s1 = Some x"
    then have x: "find_instance_by_id i s = Some x" and "\<not> ?P" unfolding e by blast+
    then obtain r y where r: "r \<in> set rs" "ins_id (obj s r) = i" "keeps s r = Some y" by auto
    then show "\<exists>r \<in> set rs. ins_id (obj s r) = i \<and> keeps s r = Some x" using k[OF r(2,3)] x by auto
  next
    assume "\<exists>r \<in> set rs. ins_id (obj s r) = i \<and> keeps s r = Some x"
    then obtain r where "r \<in> set rs" "ins_id (obj s r) = i" "keeps s r = Some x" by blast
    then show "find_instance_by_id i s1 = Some x" unfolding e using k by auto
  qed
qed

lemma keeps_available: "keeps s r = Some x \<Longrightarrow> dict_get (available_pool s) (ins_id (obj s r)) = Some x"
  "keeps s r = Some x \<Longrightarrow> \<not> instance_needs_update (obj s x) (obj s r)"
  by (auto simp: keeps_def split: option.splits if_splits)

lemma set_addition:
  assumes ok: "pools_ok s" and dis: "distinct (map (ins_id \<circ> obj s) rs)" and ord: "iterates ord"
    and v: "\<forall>r \<in> set rs. r < length (cp_heap s) \<and> PDRole_of (ins_role (obj s r)) \<noteq> None"
    and jobs: "distinct (map (job_name \<circ> obj s) rs)" and c: "compute_set_diff ord rs s = (to_add, to_remove)"
    and s1: "pools_ok s1" "without s s1 (set (map (ins_id \<circ> obj s) to_remove))"
  shows "\<exists>s' res. add_loop to_add False [] [] s1 = (s', Inr res) \<and> pools_ok s' \<and> heap_le s s' \<and>
    (\<forall>r \<in> set to_add. dict_get (available_pool s') (ins_id (obj s r)) = Some r) \<and>
    (\<forall>i. i \<notin> (ins_id \<circ> obj s) ` set to_add \<longrightarrow> dict_get (available_pool s') i = dict_get (available_pool s1) i) \<and>
    unavailable_pool s' = unavailable_pool s1 \<and> paused_pool s' = paused_pool s1"
proof -
  note o1 = without_heap[OF s1(2)] and f = set_diff_added[OF dis ord c] and sv = set_survivors[OF ok dis ord c s1(2)]
  have u: "r' = r" if "r \<in> set rs" "r' \<in> set rs" "ins_id (obj s r') = ins_id (obj s r)" for r r'
    using dis that by (auto simp: distinct_map inj_on_def)
  have uj: "r' = r" if "r \<in> set rs" "r' \<in> set rs" "job_name (obj s r') = job_name (obj s r)" for r r'
    using jobs that by (auto simp: distinct_map inj_on_def)
  have n: "find_instance_by_id (ins_id (obj s r)) s1 = None" if "r \<in> set to_add" for r
  proof (rule ccontr)
    assume "find_instance_by_id (ins_id (obj s r)) s1 \<noteq> None"
    then obtain x where "find_instance_by_id (ins_id (obj s r)) s1 = Some x" by blast
    then obtain r' where "r' \<in> set rs" "ins_id (obj s r') = ins_id (obj s r)" "keeps s r' = Some x" unfolding sv by blast
    then show False using u[of r r'] that unfolding f(2) by simp
  qed
  have j: "job_name (obj s x) \<notin> (job_name \<circ> obj s) ` set to_add" if "find_instance_by_id i s1 = Some x" for i x
  proof
    assume "job_name (obj s x) \<in> (job_name \<circ> obj s) ` set to_add"
    then obtain r where r: "r \<in> set rs" "keeps s r = None" "job_name (obj s x) = job_name (obj s r)" unfolding f(2) by auto
    from that obtain r' where r': "r' \<in> set rs" "keeps s r' = Some x" unfolding sv by blast
    have "job_name (obj s x) = job_name (obj s r')" using keeps_available(2)[OF r'(2)] by (simp add: instance_needs_update_def)
    then have "job_name (obj s r') = job_name (obj s r)" using r(3) by (simp only:)
    then have "r' = r" using uj[OF r(1) r'(1)] by blast
    then show False using r(2) r'(2) by simp
  qed
  have "distinct to_add" using f(1) by (simp add: distinct_map)
  then have "distinct (map (job_name \<circ> obj s) to_add)" using uj unfolding distinct_map f(2) by (auto simp: inj_on_def)
  then have "\<exists>s' res. add_loop to_add False [] [] s1 = (s', Inr res) \<and> pools_ok s' \<and> heap_le s1 s' \<and>
    (\<forall>r \<in> set to_add. dict_get (available_pool s') (ins_id (obj s1 r)) = Some r) \<and>
    (\<forall>i. i \<notin> (ins_id \<circ> obj s1) ` set to_add \<longrightarrow> dict_get (available_pool s') i = dict_get (available_pool s1) i) \<and>
    unavailable_pool s' = unavailable_pool s1 \<and> paused_pool s' = paused_pool s1"
    by (intro add_loop_fresh[OF s1(1)]) (use v f n j o1 in \<open>simp_all add: o_def\<close>)
  moreover have "heap_le s s1" by (rule heap_le_heap[OF o1(2)])
  ultimately show ?thesis unfolding o_def o1 using heap_le_trans by blast
qed

lemma kept_or_added:
  assumes inj: "inj_on f R" and A: "A = {r \<in> R. k r = None}"
    and F1: "\<And>x. F1 = Some x \<longleftrightarrow> (\<exists>r \<in> R. f r = i \<and> k r = Some x)" and F2: "\<And>r. r \<in> A \<Longrightarrow> f r = i \<Longrightarrow> F2 = Some r"
  shows "(if i \<in> f ` A then F2 else F1) = Some x \<longleftrightarrow> (\<exists>r \<in> R. f r = i \<and> x = (case k r of Some y \<Rightarrow> y | None \<Rightarrow> r))"
proof (cases "i \<in> f ` A")
  case True
  then obtain r where r: "r \<in> A" "f r = i" by blast
  then have "r \<in> R" "k r = None" "F2 = Some r" using A F2 by auto
  moreover have "r' = r" if "r' \<in> R" "f r' = i" for r' using inj_onD[OF inj] that r(2) \<open>r \<in> R\<close> by blast
  ultimately have "(\<exists>r \<in> R. f r = i \<and> x = (case k r of Some y \<Rightarrow> y | None \<Rightarrow> r)) \<longleftrightarrow> x = (case k r of Some y \<Rightarrow> y | None \<Rightarrow> r)"
    using r(2) by blast
  then show ?thesis using True \<open>k r = None\<close> \<open>F2 = Some r\<close> by auto
next
  case False
  then have kr: "k r \<noteq> None" if "r \<in> R" "f r = i" for r using that by (auto simp: A)
  have "(f r = i \<and> k r = Some x) = (f r = i \<and> x = (case k r of Some y \<Rightarrow> y | None \<Rightarrow> r))" if "r \<in> R" for r
    using kr[OF that] by (cases "f r = i"; cases "k r") auto
  then show ?thesis using False F1 by simp
qed

lemma apply_set_exact:
  assumes ok: "pools_ok s" and dis: "distinct (map (ins_id \<circ> obj s) rs)" and ord: "iterates ord"
    and v: "\<forall>r \<in> set rs. r < length (cp_heap s) \<and> PDRole_of (ins_role (obj s r)) \<noteq> None"
    and jobs: "distinct (map (job_name \<circ> obj s) rs)"
  obtains s' b removed where "apply_set_diff ord rs s = (s', Inr (b, removed))" "pools_ok s'" "heap_le s s'"
     "set removed = set (tracked_ids s) - (ins_id \<circ> obj s) ` set rs"
     "\<forall>i x. find_instance_by_id i s' = Some x \<longleftrightarrow>
        (\<exists>r \<in> set rs. ins_id (obj s r) = i \<and> x = (case keeps s r of Some x \<Rightarrow> x | None \<Rightarrow> r))"
     "\<forall>i. dict_get (unavailable_pool s') i = None \<and> dict_get (paused_pool s') i = None"
proof -
  obtain to_add to_remove where c: "compute_set_diff ord rs s = (to_add, to_remove)" by fastforce
  obtain s1 b where s1: "(if to_remove \<noteq> [] then delete_instances (map (ins_id \<circ> obj s) to_remove) s else (s, Inr False)) = (s1, Inr b)"
    "pools_ok s1" "without s s1 (set (map (ins_id \<circ> obj s) to_remove))" by (rule set_removal[OF ok dis ord c])
  note f = set_diff_added[OF dis ord c] and sv = set_survivors[OF ok dis ord c s1(3)]
  obtain s2 m a rp where l: "add_loop to_add False [] [] s1 = (s2, Inr (m, a, rp))" "pools_ok s2" "heap_le s s2"
    "\<forall>r \<in> set to_add. dict_get (available_pool s2) (ins_id (obj s r)) = Some r"
    "\<forall>i. i \<notin> (ins_id \<circ> obj s) ` set to_add \<longrightarrow> dict_get (available_pool s2) i = dict_get (available_pool s1) i"
    "unavailable_pool s2 = unavailable_pool s1" "paused_pool s2 = paused_pool s1"
    using set_addition[OF ok dis ord v jobs c s1(2,3)] by (metis prod_cases3)
  have empty: "dict_get (unavailable_pool s1) i = None \<and> dict_get (paused_pool s1) i = None" for i
  proof (cases "find_instance_by_id i s1")
    case None
    then show ?thesis by (simp add: find_by_id_None)
  next
    case (Some x)
    then obtain r where r: "r \<in> set rs" "ins_id (obj s r) = i" "keeps s r = Some x" unfolding sv by blast
    have a: "dict_get (available_pool s) i = Some x" using keeps_available(1)[OF r(3)] r(2) by simp
    show ?thesis using pools_ok_available(3,4)[OF ok a] s1(3) by (simp add: without_def)
  qed
  define s3 where "s3 = (if to_add \<noteq> [] then fst (add_instances to_add s1) else s1)"
  have s3: "(if to_add \<noteq> [] then add_instances to_add s1 else (s1, Inr False)) = (s3, Inr (to_add \<noteq> [] \<and> m))"
    "available_pool s3 = available_pool s2" "unavailable_pool s3 = unavailable_pool s1" "paused_pool s3 = paused_pool s1"
    "pools_ok s3" "heap_le s s3"
    using l(1,2,3,6,7) heap_le_trans[OF l(3) heap_le_heap] s1(2)
    by (auto simp: s3_def add_instances_def)
  show thesis
  proof (rule that[of s3 "to_remove \<noteq> [] \<or> to_add \<noteq> []"
        "filter (\<lambda>i. i \<notin> set (map (ins_id \<circ> obj s) rs)) (map (ins_id \<circ> obj s) to_remove)"])
    show "apply_set_diff ord rs s = (s3, Inr (to_remove \<noteq> [] \<or> to_add \<noteq> [],
        filter (\<lambda>i. i \<notin> set (map (ins_id \<circ> obj s) rs)) (map (ins_id \<circ> obj s) to_remove)))"
      using s1(1) s3(1) c unfolding apply_set_diff_def by (auto simp: Let_def)
    show "set (filter (\<lambda>i. i \<notin> set (map (ins_id \<circ> obj s) rs)) (map (ins_id \<circ> obj s) to_remove)) =
        set (tracked_ids s) - (ins_id \<circ> obj s) ` set rs"
      using set_diff_removed[OF ok dis ord c] by (auto simp: tracked_iff simp del: not_None_eq)
    show "\<forall>i. dict_get (unavailable_pool s3) i = None \<and> dict_get (paused_pool s3) i = None" using empty s3 by simp
    show "\<forall>i x. find_instance_by_id i s3 = Some x \<longleftrightarrow>
        (\<exists>r \<in> set rs. ins_id (obj s r) = i \<and> x = (case keeps s r of Some x \<Rightarrow> x | None \<Rightarrow> r))"
    proof (intro allI)
      fix i x
      have "find_instance_by_id i s3 = dict_get (available_pool s2) i"
        using empty s3 by (simp add: find_instance_by_id_def split: option.split)
      moreover have "find_instance_by_id i s1 = dict_get (available_pool s1) i"
        using empty by (simp add: find_instance_by_id_def split: option.split)
      ultimately have "find_instance_by_id i s3 =
          (if i \<in> (ins_id \<circ> obj s) ` set to_add then dict_get (available_pool s2) i else find_instance_by_id i s1)"
        using l(5) by simp
      also have "\<dots> = Some x \<longleftrightarrow> (\<exists>r \<in> set rs. (ins_id \<circ> obj s) r = i \<and> x = (case keeps s r of Some x \<Rightarrow> x | None \<Rightarrow> r))"
        by (rule kept_or_added[OF _ f(2)]) (use dis l(4) sv in \<open>auto simp: distinct_map\<close>)
      finally show "find_instance_by_id i s3 = Some x \<longleftrightarrow>
        (\<exists>r \<in> set rs. ins_id (obj s r) = i \<and> x = (case keeps s r of Some x \<Rightarrow> x | None \<Rightarrow> r))" by simp
    qed
  qed (use s3 in simp_all)
qed

section \<open>Workload updates\<close>

lemma sum_dict_modify:
  fixes g :: "'v \<Rightarrow> 'n :: ab_group_add"
  shows "distinct (dict_keys d) \<Longrightarrow> dict_get d k = Some v \<Longrightarrow>
   sum_list (map (\<lambda>x. g (snd x)) (dict_modify k f d)) = sum_list (map (\<lambda>x. g (snd x)) d) - g v + g (f v)"
proof (induction d)
  case (Cons x d)
  show ?case
  proof (cases "fst x = k")
    case True
    then have "dict_get d k = None" using Cons.prems by (auto simp: dict_get_None_iff)
    then show ?thesis using True Cons.prems by (cases x) simp
  next
    case False
    then show ?thesis using Cons by (cases x) simp
  qed
qed simp

lemma tokens_pods: "tokens ins = sum_list (map (\<lambda>x. sum_list (map (\<lambda>y. ep_tokens (snd y)) (snd x))) (endpoints ins))"
proof -
  have "sum_list (map ep_tokens (concat (map (\<lambda>(pod, eps). dict_values eps) d))) =
      sum_list (map (\<lambda>x. sum_list (map (\<lambda>y. ep_tokens (snd y)) (snd x))) d)" for d :: "(string, (int, Endpoint) dict) dict"
    by (induction d) (auto simp: o_def)
  then show ?thesis by (simp add: tokens_def all_eps_def)
qed

lemma tokens_modify:
  assumes wf: "wf_endpoints ins" and d: "deref ins p = Some ep"
  shows "tokens (modify_endpoint p f ins) = tokens ins - ep_tokens ep + ep_tokens (f ep)"
proof -
  obtain eps where e: "dict_get (endpoints ins) (fst p) = Some eps" "dict_get eps (snd p) = Some ep"
    using d by (auto simp: deref_def split: option.splits)
  have "distinct (dict_keys (endpoints ins))" "distinct (dict_keys eps)"
    using wf dict_get_in[OF e(1)] by (auto simp: wf_endpoints_def list_all_iff)
  then show ?thesis
    using sum_dict_modify[of "endpoints ins" "fst p" eps "\<lambda>eps. sum_list (map (\<lambda>y. ep_tokens (snd y)) eps)"]
      sum_dict_modify[of eps "snd p" ep ep_tokens f] e
    by (simp add: tokens_pods modify_endpoint_def)
qed

lemma wf_modify [simp]: "wf_endpoints (modify_endpoint p f ins) = wf_endpoints ins"
proof -
  have "list_all (\<lambda>(pod, eps). distinct (dict_keys eps)) (dict_modify a (dict_modify b f) d) =
      list_all (\<lambda>(pod, eps). distinct (dict_keys eps)) d" for a b and d :: "(string, (int, Endpoint) dict) dict"
    by (induction d) auto
  then show ?thesis by (simp add: wf_endpoints_def modify_endpoint_def)
qed

lemma deref_modify: "deref (modify_endpoint p f ins) q = (if q = p then map_option f (deref ins q) else deref ins q)"
  by (cases p; cases q) (auto simp: deref_def modify_endpoint_def split: option.split)

lemma deref_map: "deref (map_endpoints f ins) q = map_option f (deref ins q)"
proof -
  have "dict_get (map (\<lambda>(k, v). (k, g v)) d) k = map_option g (dict_get d k)" for g :: "'b \<Rightarrow> 'c" and d :: "('a, 'b) dict" and k
    by (induction d) auto
  from this[of "map (\<lambda>(k, ep). (k, f ep))" "endpoints ins" "fst q"] this[of f _ "snd q"]
  show ?thesis by (simp add: deref_def map_endpoints_def split: option.split)
qed

lemma modify_reset:
  "reset_workload (modify_endpoint p (\<lambda>ep. ep\<lparr>ep_workload := w\<rparr>) ins) = reset_workload ins"
proof -
  have i: "map (\<lambda>(k, ep). (k, ep\<lparr>ep_workload := empty_workload\<rparr>)) (dict_modify b (\<lambda>ep. ep\<lparr>ep_workload := w\<rparr>) d) =
      map (\<lambda>(k, ep). (k, ep\<lparr>ep_workload := empty_workload\<rparr>)) d" for b and d :: "(int, Endpoint) dict"
    by (induction d) auto
  have "map (\<lambda>(pod, eps). (pod, map (\<lambda>(k, ep). (k, ep\<lparr>ep_workload := empty_workload\<rparr>)) eps))
      (dict_modify a (dict_modify b (\<lambda>ep. ep\<lparr>ep_workload := w\<rparr>)) d) =
    map (\<lambda>(pod, eps). (pod, map (\<lambda>(k, ep). (k, ep\<lparr>ep_workload := empty_workload\<rparr>)) eps)) d" for a b and d :: "(string, (int, Endpoint) dict) dict"
    by (induction d) (auto simp: i)
  then show ?thesis by (simp add: reset_workload_def map_endpoints_def modify_endpoint_def)
qed

lemma clamp_floor: "fst (clamp_workload_floor w) = \<lparr>active_tokens = max 0 (active_tokens w)\<rparr>"
  by (cases w) (simp add: clamp_workload_floor_def)

lemma all_eps_gathered [simp]: "all_eps (ins\<lparr>gathered_workload := w\<rparr>) = all_eps ins"
  by (simp add: all_eps_def)

lemma rebuild_balanced: "balanced (fst (rebuild_instance_workload ins))"
  by (auto simp: rebuild_instance_workload_def Let_def balanced_def list_all_iff map_endpoints_all_eps ep_tokens_def clamp_floor)

lemma charged_eq:
  "charged p (ep_workload ep) change ins =
     (let ins1 = modify_endpoint p (\<lambda>x. x\<lparr>ep_workload := \<lparr>active_tokens = max 0 (ep_tokens ep + active_tokens change)\<rparr>\<rparr>) ins
      in if ep_tokens ep + active_tokens change < 0 then fst (rebuild_instance_workload ins1)
         else ins1\<lparr>gathered_workload := workload_iadd (gathered_workload ins1) change\<rparr>)"
proof -
  have "workload_iadd a b = \<lparr>active_tokens = active_tokens a + active_tokens b\<rparr>" for a b
    by (cases a) (simp add: workload_iadd_def)
  then show ?thesis by (simp add: charged_def clamp_workload_floor_def ep_tokens_def Let_def)
qed

lemma deref_gathered [simp]: "deref (ins\<lparr>gathered_workload := w\<rparr>) q = deref ins q"
  by (simp add: deref_def)

lemma wf_gathered [simp]: "wf_endpoints (ins\<lparr>gathered_workload := w\<rparr>) = wf_endpoints ins"
  by (simp add: wf_endpoints_def)

lemma reset_gathered [simp]: "reset_workload (ins\<lparr>gathered_workload := w\<rparr>) = reset_workload ins"
  by (simp add: reset_workload_def)

lemma rebuild_frame [simp]:
  "wf_endpoints (fst (rebuild_instance_workload ins)) = wf_endpoints ins"
  "reset_workload (fst (rebuild_instance_workload ins)) = reset_workload ins"
proof -
  show "wf_endpoints (fst (rebuild_instance_workload ins)) = wf_endpoints ins" by (simp add: rebuild_instance_workload_def Let_def)
  show "reset_workload (fst (rebuild_instance_workload ins)) = reset_workload ins"
    by (simp add: rebuild_instance_workload_def Let_def)
      (simp add: reset_workload_def map_endpoints_def case_prod_unfold)
qed

lemma charged_frame:
  fixes ep :: Endpoint
  shows "wf_endpoints (charged p (ep_workload ep) change ins) = wf_endpoints ins"
  "reset_workload (charged p (ep_workload ep) change ins) = reset_workload ins"
  unfolding charged_eq Let_def by (simp_all add: modify_reset)

lemma charged_balanced:
  assumes wf: "wf_endpoints ins" and b: "balanced ins" and d: "deref ins p = Some ep"
  shows "balanced (charged p (ep_workload ep) change ins)"
proof (cases "ep_tokens ep + active_tokens change < 0")
  case True
  then show ?thesis by (simp add: charged_eq Let_def rebuild_balanced)
next
  case False
  let ?f = "\<lambda>x. x\<lparr>ep_workload := \<lparr>active_tokens = max 0 (ep_tokens ep + active_tokens change)\<rparr>\<rparr>"
  let ?i = "modify_endpoint p ?f ins"
  have t: "tokens ?i = tokens ins + active_tokens change"
    using tokens_modify[OF wf d, of ?f] False by (simp add: ep_tokens_def)
  have g: "gathered_workload ?i = gathered_workload ins" by (simp add: modify_endpoint_def)
  have "0 \<le> ep_tokens x" if x: "x \<in> set (all_eps ?i)" for x
  proof -
    obtain q where "deref ?i q = Some x" using x wf by (auto simp: all_eps_iff)
    then consider "x = ?f ep" | "deref ins q = Some x" using d by (auto simp: deref_modify split: if_splits)
    then show ?thesis
    proof cases
      case 2
      then have "x \<in> set (all_eps ins)" using all_eps_iff[OF wf] by blast
      then show ?thesis using b by (simp add: balanced_def list_all_iff)
    qed (simp add: ep_tokens_def)
  qed
  then show ?thesis
    using False b t g by (simp add: charged_eq Let_def balanced_def list_all_iff tokens_def workload_iadd_def)
qed

lemma charged_deref:
  assumes wf: "wf_endpoints ins" and b: "balanced ins" and d: "deref ins p = Some ep"
  shows "map_option ep_workload (deref (charged p (ep_workload ep) change ins) q) =
    (if q = p then Some \<lparr>active_tokens = max 0 (ep_tokens ep + active_tokens change)\<rparr> else map_option ep_workload (deref ins q))"
proof -
  have nn: "0 \<le> ep_tokens x" if "deref ins q = Some x" for x q
  proof -
    have "x \<in> set (all_eps ins)" using that all_eps_iff[OF wf] by blast
    then show ?thesis using b by (simp add: balanced_def list_all_iff)
  qed
  have "deref (fst (rebuild_instance_workload ins1)) q =
      map_option (\<lambda>x. x\<lparr>ep_workload := fst (clamp_workload_floor (ep_workload x))\<rparr>) (deref ins1 q)" for ins1
    by (simp add: rebuild_instance_workload_def Let_def deref_map)
  then show ?thesis
    using d nn[of q] by (cases "deref ins q") (auto simp: charged_eq Let_def deref_modify clamp_workload_floor_def ep_tokens_def)
qed

text \<open>
  The endpoint index leads to the endpoint with the ID asked for.
\<close>

lemma foldl_dict_set_get:
  "dict_get (foldl (\<lambda>d x. dict_set (k x) (v x) d) d xs) i = Some y \<Longrightarrow>
   dict_get d i = Some y \<or> (\<exists>x \<in> set xs. k x = i \<and> v x = y)"
  by (induction xs arbitrary: d) (fastforce split: if_splits)+

lemma endpoint_cache_entry:
  assumes "wf_endpoints ins"
  shows "dict_get (build_endpoint_cache r ins) e = Some ref \<Longrightarrow>
      \<exists>p ep. ref = (r, p) \<and> deref ins p = Some ep \<and> ep_id ep = e"
    and "in_dict e (build_endpoint_cache r ins) \<longleftrightarrow> e \<in> ep_id ` set (all_eps ins)"
proof -
  show "\<exists>p ep. ref = (r, p) \<and> deref ins p = Some ep \<and> ep_id ep = e" if c: "dict_get (build_endpoint_cache r ins) e = Some ref"
  proof -
    obtain p ep where "(p, ep) \<in> set (ep_entries ins)" "ep_id ep = e" "ref = (r, p)"
      using foldl_dict_set_get[OF c[unfolded build_endpoint_cache_def]] by fastforce
    then show ?thesis using ep_entries_iff[OF assms] by blast
  qed
  show "in_dict e (build_endpoint_cache r ins) \<longleftrightarrow> e \<in> ep_id ` set (all_eps ins)"
    by (simp add: in_dict_iff build_endpoint_cache_def foldl_dict_set_keys map_snd_ep_entries[symmetric] image_image del: not_None_eq)
qed

lemma heap_modify_twice:
  "r < length (cp_heap s) \<Longrightarrow> heap_modify r g (heap_modify r f s) = heap_modify r (\<lambda>x. g (f x)) s"
  by (simp add: heap_modify_def)

lemma update_workload_eq:
  assumes ok: "pools_ok s" and a: "dict_get (available_pool s) i = Some r" and wf: "wf_endpoints (obj s r)"
  obtains "update_instance_workload_sync i e change s = (s, Inr None)" "e \<notin> ep_id ` set (all_eps (obj s r))"
  | p ep role s' where "deref (obj s r) p = Some ep" "ep_id ep = e" "PDRole_of (ins_role (obj s r)) = Some role"
      "s' = heap_modify r (charged p (ep_workload ep) change) s"
      "update_instance_workload_sync i e change s = (s', Inr (Some (role, endpoint_workload s' (r, p))))"
proof -
  let ?c = "build_endpoint_cache r (obj s r)"
  note av = pools_ok_available[OF ok a]
  have c: "ensure_endpoint_cache i r s = (s, ?c)" using av(5) by (simp add: ensure_endpoint_cache_def)
  show thesis
  proof (cases "dict_get ?c e")
    case None
    then show ?thesis
      using that(1) a c endpoint_cache_entry(2)[OF wf, of r e] by (simp add: update_instance_workload_sync_def)
  next
    case (Some ref)
    then obtain p ep where p: "ref = (r, p)" "deref (obj s r) p = Some ep" "ep_id ep = e" using endpoint_cache_entry(1)[OF wf] by blast
    obtain role where role: "PDRole_of (ins_role (obj s r)) = Some role" using av(6) by blast
    define s' where "s' = heap_modify r (charged p (ep_workload ep) change) s"
    have o: "obj s' r = charged p (ep_workload ep) change (obj s r)" using av(1) by (simp add: s'_def obj_heap_modify)
    have ro: "role_or_union (ins_role (obj s' r)) = Inr role"
      using role reset_eqD(2)[OF charged_frame(2)] by (auto simp: o role_or_union_def role_pdrole PDRole_of_def)
    have "update_instance_workload_sync i e change s = (s', Inr (Some (role, endpoint_workload s' (r, p))))"
    proof -
      obtain w fl where w: "clamp_workload_floor (workload_iadd (ep_workload ep) change) = (w, fl)" by fastforce
      have "heap_modify r (if fl then (\<lambda>ins. fst (rebuild_instance_workload ins))
            else (\<lambda>ins. ins\<lparr>gathered_workload := workload_iadd (gathered_workload ins) change\<rparr>))
          (heap_modify r (modify_endpoint p (\<lambda>ep. ep\<lparr>ep_workload := w\<rparr>)) s) = s'"
        using av(1) by (simp add: heap_modify_twice s'_def) (simp add: heap_modify_def charged_def w Let_def)
      moreover have "endpoint_workload s ref = ep_workload ep" using p by (simp add: endpoint_workload_def)
      ultimately show ?thesis using a c Some p(1) ro w by (cases fl) (simp_all add: update_instance_workload_sync_def Let_def)
    qed
    then show ?thesis using that(2)[OF p(2,3) role s'_def] by blast
  qed
qed

section \<open>Runs\<close>

lemma wf_reset_eq: "reset_workload a = reset_workload b \<Longrightarrow> wf_endpoints a = wf_endpoints b"
  by (metis wf_reset)

lemma heap_wf_le:
  assumes "heap_wf s" "heap_le s s'" "length (cp_heap s') = length (cp_heap s)"
  shows "heap_wf s'"
  using assms wf_reset_eq unfolding heap_wf_def heap_le_def by metis

lemma update_state_ok:
  assumes ok: "pools_ok s"
  shows "pools_ok (fst (update_instance_state i mode s))" "cp_heap (fst (update_instance_state i mode s)) = cp_heap s"
    "\<exists>u. snd (update_instance_state i mode s) = Inr u"
    "ledgers_ok s \<Longrightarrow> ledgers_ok (fst (update_instance_state i mode s))"
proof -
  have "pools_ok (fst (update_instance_state i mode s)) \<and> cp_heap (fst (update_instance_state i mode s)) = cp_heap s \<and>
    (\<exists>u. snd (update_instance_state i mode s) = Inr u) \<and>
    (ledgers_ok s \<longrightarrow> ledgers_ok (fst (update_instance_state i mode s)))"
  proof (cases mode)
    case AVAILABLE
    show ?thesis
    proof (cases "dict_get (unavailable_pool s) i")
      case None
      then show ?thesis using AVAILABLE ok by (simp add: update_instance_state_def)
    next
      case (Some r)
      note u = pools_ok_unavailable[OF ok Some]
      let ?s = "s\<lparr>unavailable_pool := dict_pop i (unavailable_pool s)\<rparr>"
      obtain role where role: "PDRole_of (ins_role (obj ?s r)) = Some role" using u(3) by auto
      have f: "find_instance_by_id (ins_id (obj ?s r)) ?s = None" using u by (simp add: find_by_id_None)
      have r: "r < length (cp_heap ?s)" using u(1) by simp
      note a = add_available_ok[OF pools_ok_pop(1)[OF ok] r role f]
      have "ledgers_ok (put_available r role ?s)" if l: "ledgers_ok s"
      proof -
        have b: "balanced (obj s r)" using l Some unfolding ledgers_ok_def by blast
        have "ledgers_ok ?s" by (rule ledgers_without[OF l, of _ "{i}"]) (use u in \<open>auto simp: without_def fun_eq_iff\<close>)
        then show ?thesis by (rule ledgers_frame) (use b in \<open>auto split: if_splits\<close>)
      qed
      then show ?thesis using AVAILABLE Some a by (simp add: update_instance_state_def)
    qed
  next
    case UNAVAILABLE
    show ?thesis
    proof (cases "dict_get (available_pool s) i")
      case None
      then show ?thesis using UNAVAILABLE ok by (simp add: update_instance_state_def)
    next
      case (Some r)
      note v = pools_ok_available[OF ok Some]
      obtain role where d: "PDRole_of (ins_role (obj s r)) = Some role"
        "delete_instance_from_available_pool i s = (drop_available i role s, Inr True)" "pools_ok (drop_available i role s)"
        using delete_available_present[OF ok Some] by blast
      let ?d = "drop_available i role s"
      have p: "pools_ok (?d\<lparr>unavailable_pool := dict_set i r (unavailable_pool ?d)\<rparr>)"
        by (rule pools_ok_set_unavailable[OF d(3)]) (use v d(1) in simp_all)
      have "ledgers_ok (?d\<lparr>unavailable_pool := dict_set i r (unavailable_pool ?d)\<rparr>)" if l: "ledgers_ok s"
        using l Some unfolding ledgers_ok_def by (auto split: if_splits)
      then show ?thesis using UNAVAILABLE Some d(2) p by (simp add: update_instance_state_def)
    qed
  qed
  then show "pools_ok (fst (update_instance_state i mode s))" "cp_heap (fst (update_instance_state i mode s)) = cp_heap s"
    "\<exists>u. snd (update_instance_state i mode s) = Inr u"
    "ledgers_ok s \<Longrightarrow> ledgers_ok (fst (update_instance_state i mode s))" by blast+
qed

lemma get_workload_state: "pools_ok s \<Longrightarrow> fst (get_endpoint_workload_sync i e s) = s"
proof (cases "dict_get (available_pool s) i")
  case (Some r)
  assume ok: "pools_ok s"
  then show ?thesis
    using Some pools_ok_available(5)[OF ok Some]
    by (simp add: get_endpoint_workload_sync_def ensure_endpoint_cache_def split: option.split)
qed (simp add: get_endpoint_workload_sync_def)

lemma update_workload_ok:
  assumes ok: "pools_ok s" and wf: "heap_wf s"
    and s'_def: "s' = fst (update_instance_workload_sync i e change s)"
  shows "pools_ok s'" "heap_le s s'" "length (cp_heap s') = length (cp_heap s)" "ledgers_ok s \<Longrightarrow> ledgers_ok s'"
proof -
  have "pools_ok s' \<and> heap_le s s' \<and> length (cp_heap s') = length (cp_heap s) \<and> (ledgers_ok s \<longrightarrow> ledgers_ok s')"
  proof (cases "dict_get (available_pool s) i")
    case None
    then show ?thesis using ok by (simp add: s'_def update_instance_workload_sync_def)
  next
    case (Some r)
    have rl: "r < length (cp_heap s)" using pools_ok_available(1)[OF ok Some] .
    then have wr: "wf_endpoints (obj s r)" using wf by (simp add: heap_wf_def)
    show ?thesis
    proof (cases rule: update_workload_eq[OF ok Some wr, of e change])
      case 1
      then show ?thesis using ok by (simp add: s'_def)
    next
      case (2 p ep role s1)
      then have s': "s' = heap_modify r (charged p (ep_workload ep) change) s" by (simp add: s'_def)
      have h: "heap_le s s'" unfolding s' by (rule heap_le_modify[OF rl]) (simp add: charged_frame(2))
      have "ledgers_ok s'" if l: "ledgers_ok s"
      proof -
        have b: "balanced (obj s r)" using l Some unfolding ledgers_ok_def by blast
        have o: "obj s' x = (if x = r then charged p (ep_workload ep) change (obj s r) else obj s x)" for x
          using rl by (simp add: s' obj_heap_modify)
        show ?thesis
          using l wr unfolding ledgers_ok_def o by (simp add: s' charged_frame charged_balanced[OF wr b 2(1)])
      qed
      then show ?thesis using h pools_ok_heap[OF ok h] by (simp add: s')
    qed
  qed
  then show "pools_ok s'" "heap_le s s'" "length (cp_heap s') = length (cp_heap s)" "ledgers_ok s \<Longrightarrow> ledgers_ok s'" by blast+
qed

text \<open>
  After the request's objects are placed, no refresh allocates.
\<close>

lemma length_primitives:
  "length (cp_heap (fst (delete_instance_from_available_pool i s))) = length (cp_heap s)"
  "length (cp_heap (fst (add_instance_to_available_pool r s))) = length (cp_heap s)"
  "length (cp_heap (fst (remove_instance_from_all_pools i s))) = length (cp_heap s)"
proof -
  show d: "length (cp_heap (fst (delete_instance_from_available_pool i s))) = length (cp_heap s)"
    by (simp add: delete_instance_from_available_pool_def split: sum.split option.split)
  show "length (cp_heap (fst (add_instance_to_available_pool r s))) = length (cp_heap s)"
    by (simp add: add_instance_to_available_pool_def split: sum.split)
  show "length (cp_heap (fst (remove_instance_from_all_pools i s))) = length (cp_heap s)"
    using d by (simp add: remove_instance_from_all_pools_def)
qed

lemma length_replace_stale: "length (cp_heap (fst (replace_stale r s))) = length (cp_heap s)"
proof (cases "find_instance_by_job_name (job_name (obj s r)) s")
  case (Some x)
  then show ?thesis
    using length_primitives(3)[of "ins_id (obj s x)" s]
    by (auto simp: replace_stale_def split: prod.splits sum.splits)
qed (simp add: replace_stale_def)

lemma length_add_loop: "length (cp_heap (fst (add_loop rs m a rp s))) = length (cp_heap s)"
proof (induction rs arbitrary: m a rp s)
  case (Cons r rs)
  obtain s1 x where r: "replace_stale r s = (s1, x)" by fastforce
  obtain s2 y where a: "add_instance_to_available_pool r s1 = (s2, y)" by fastforce
  have "length (cp_heap s1) = length (cp_heap s)" "length (cp_heap s2) = length (cp_heap s1)"
    using length_replace_stale[of r s] length_primitives(2)[of r s1] r a by simp_all
  then show ?case
    using r a Cons.IH by (auto simp: Let_def split: option.split sum.split bool.split)
qed simp

lemma length_delete_loop: "length (cp_heap (fst (delete_loop ids m s))) = length (cp_heap s)"
proof (induction ids arbitrary: m s)
  case (Cons i ids)
  obtain s1 x where d: "delete_instance_from_available_pool i s = (s1, x)" by fastforce
  have "length (cp_heap s1) = length (cp_heap s)" using length_primitives(1)[of i s] d by simp
  then show ?case using d Cons.IH by (auto split: sum.split)
qed simp

lemma length_pause: "length (cp_heap (fst (pause_instances rs m s))) = length (cp_heap s)"
proof (induction rs arbitrary: m s)
  case (Cons r rs)
  obtain s1 x where d: "delete_instance_from_available_pool (ins_id (obj s r)) s = (s1, x)" by fastforce
  have "length (cp_heap s1) = length (cp_heap s)" using length_primitives(1)[of "ins_id (obj s r)" s] d by simp
  then show ?case using d Cons.IH by (auto simp: Let_def split: sum.split bool.split)
qed simp

lemma length_resume: "length (cp_heap (fst (resume_instances rs m s))) = length (cp_heap s)"
proof (induction rs arbitrary: m s)
  case (Cons r rs)
  let ?s = "s\<lparr>paused_pool := dict_pop (ins_id (obj s r)) (paused_pool s)\<rparr>"
  obtain s1 x where d: "add_instance_to_available_pool r ?s = (s1, x)" by fastforce
  have "length (cp_heap s1) = length (cp_heap s)" using length_primitives(2)[of r ?s] d by simp
  then show ?case using d Cons.IH by (auto simp: Let_def split: option.split sum.split bool.split)
qed simp

lemma length_add_instances: "length (cp_heap (fst (add_instances rs s))) = length (cp_heap s)"
  using length_add_loop[of rs False "[]" "[]" s] by (auto simp: add_instances_def split: prod.splits sum.splits)

lemma length_apply_set: "length (cp_heap (fst (apply_set_diff ord rs s))) = length (cp_heap s)"
proof -
  obtain A R where c: "compute_set_diff ord rs s = (A, R)" by fastforce
  obtain s1 x where d: "(if R \<noteq> [] then delete_instances (map (ins_id \<circ> obj s) R) s else (s, Inr False)) = (s1, x)" by fastforce
  obtain s2 y where a: "(if A \<noteq> [] then add_instances A s1 else (s1, Inr False)) = (s2, y)" by fastforce
  have "length (cp_heap s1) = length (cp_heap s)"
    using d length_delete_loop[of "map (ins_id \<circ> obj s) R" False s] by (auto simp: delete_instances_def split: if_splits)
  moreover have "length (cp_heap s2) = length (cp_heap s1)"
    using a length_add_instances[of A s1] by (auto split: if_splits)
  ultimately show ?thesis using c d a by (auto simp: apply_set_diff_def Let_def split: sum.split)
qed

lemma length_refresh: "length (cp_heap (fst (refresh_instances ord ev instances s0))) = length (cp_heap s0) + length instances"
proof -
  obtain s rs where a: "alloc_instances instances s0 = (s, rs)" by fastforce
  then have l: "length (cp_heap s) = length (cp_heap s0) + length instances" by (auto simp: alloc_instances_def)
  show ?thesis
    using l length_add_instances[of rs s] length_apply_set[of ord rs s] length_pause[of rs False s] length_resume[of rs False s]
      length_delete_loop[of "map ins_id instances" False s]
    by (cases ev) (auto simp: refresh_instances_def a delete_instances_def split: sum.split prod.split)
qed

lemma refresh_step:
  assumes ok: "pools_ok s0" and wf: "heap_wf s0" and ord: "iterates ord" and p: "\<forall>ins \<in> set instances. wf_endpoints ins"
    and s'_def: "s' = fst (refresh_instances ord ev instances s0)"
  shows "pools_ok s'" "heap_wf s'"
    "ledgers_ok s0 \<Longrightarrow> (ev = RESUME \<Longrightarrow> \<forall>ins \<in> set instances. balanced ins) \<Longrightarrow> ledgers_ok s'"
proof -
  obtain s rs where a: "alloc_instances instances s0 = (s, rs)" by fastforce
  note al = alloc_ok[OF ok a]
  have h: "cp_heap s = cp_heap s0 @ instances" using a by (auto simp: alloc_instances_def)
  have w: "heap_wf s" using wf p by (auto simp: heap_wf_def obj_def h nth_append)
  have l: "ledgers_ok s" if "ledgers_ok s0"
  proof -
    have "balanced (obj s r)" if x: "dict_get (available_pool s0) i = Some r \<or> dict_get (unavailable_pool s0) i = Some r" for i r
    proof -
      have "r < length (cp_heap s0)" using x pools_ok_available(1)[OF ok] pools_ok_unavailable(1)[OF ok] by blast
      then have "obj s r = obj s0 r" by (simp add: obj_def h nth_append)
      then show ?thesis using \<open>ledgers_ok s0\<close> x unfolding ledgers_ok_def by auto
    qed
    then show ?thesis using w al(5,6) unfolding ledgers_ok_def heap_wf_def by simp
  qed
  have "pools_ok s' \<and> heap_wf s' \<and>
    (ledgers_ok s0 \<longrightarrow> (ev = RESUME \<longrightarrow> (\<forall>ins \<in> set instances. balanced ins)) \<longrightarrow> ledgers_ok s')"
  proof (cases rule: refresh_cases[OF ok ord a, of ev])
    case (1 e)
    then show ?thesis using al(1) w l by (simp add: s'_def)
  next
    case (2 s1 ans)
    then have "s' = s1" by (simp add: s'_def)
    moreover have "length (cp_heap s1) = length (cp_heap s)"
      using length_refresh[of ord ev instances s0] 2(2) h by simp
    ultimately show ?thesis using 2 l heap_wf_le[OF w 2(4)] by blast
  qed
  then show "pools_ok s'" "heap_wf s'"
    "ledgers_ok s0 \<Longrightarrow> (ev = RESUME \<Longrightarrow> \<forall>ins \<in> set instances. balanced ins) \<Longrightarrow> ledgers_ok s'" by blast+
qed

lemma pools_step:
  assumes "pools_ok s" "heap_wf s" "legal_pool_op op"
  shows "pools_ok (pool_step s op) \<and> heap_wf (pool_step s op)"
proof (cases op)
  case (Pool_refresh ord ev instances)
  then show ?thesis using refresh_step(1,2)[OF assms(1,2)] assms(3) by simp
next
  case (Pool_state i mode)
  then show ?thesis
    using update_state_ok(1,2)[OF assms(1), of i mode] assms(2) by (simp add: heap_wf_def obj_def)
next
  case (Pool_delete_unavailable i)
  then show ?thesis using assms pools_ok_pop(1)[OF assms(1)] by (simp add: delete_unavailable_instance_def heap_wf_def)
next
  case (Pool_workload i e change)
  then show ?thesis
    using update_workload_ok(1-3)[OF assms(1,2) refl, of i e change] heap_wf_le[OF assms(2)] by simp
next
  case (Pool_get_workload i e)
  then show ?thesis using assms get_workload_state[OF assms(1)] by simp
next
  case Pool_stop
  then show ?thesis using assms(2) by (simp add: stop_pools_def pools_ok_def role_view_def heap_wf_def obj_def)
qed

lemma ledgers_step:
  assumes "pools_ok s" "ledgers_ok s" "balanced_op op"
  shows "ledgers_ok (pool_step s op)"
proof -
  have wf: "heap_wf s" using assms(2) by (simp add: ledgers_ok_def heap_wf_def)
  show ?thesis
  proof (cases op)
    case (Pool_refresh ord ev instances)
    then show ?thesis using refresh_step(3)[OF assms(1) wf] assms(2,3) by simp
  next
    case (Pool_state i mode)
    then show ?thesis using update_state_ok(4)[OF assms(1,2)] by simp
  next
    case (Pool_delete_unavailable i)
    then show ?thesis using assms(2) by (auto simp: delete_unavailable_instance_def ledgers_ok_def split: if_splits)
  next
    case (Pool_workload i e change)
    then show ?thesis using update_workload_ok(4)[OF assms(1) wf refl assms(2)] by simp
  next
    case (Pool_get_workload i e)
    then show ?thesis using assms get_workload_state[OF assms(1)] by simp
  next
    case Pool_stop
    then show ?thesis using assms(2) by (simp add: stop_pools_def ledgers_ok_def obj_def)
  qed
qed

interpretation pool_run: step_invariant pool_step legal_pool_op "\<lambda>s. pools_ok s \<and> heap_wf s"
  by unfold_locales (use pools_step in blast)

interpretation ledger_pool_run: step_invariant pool_step balanced_op "\<lambda>s. (pools_ok s \<and> heap_wf s) \<and> ledgers_ok s"
proof unfold_locales
  fix s op assume a: "(pools_ok s \<and> heap_wf s) \<and> ledgers_ok s" "balanced_op op"
  then have "legal_pool_op op" by (cases op) simp_all
  then show "(pools_ok (pool_step s op) \<and> heap_wf (pool_step s op)) \<and> ledgers_ok (pool_step s op)"
    using a pools_step ledgers_step by blast
qed

lemma init_ok: "pools_ok (InstancePools_init mgmt) \<and> heap_wf (InstancePools_init mgmt)" "ledgers_ok (InstancePools_init mgmt)"
  by (simp_all add: InstancePools_init_def pools_ok_def role_view_def heap_wf_def ledgers_ok_def)

section \<open>Properties\<close>

text \<open>
  C2: whatever refreshes (ADD, DEL, SET, PAUSE, RESUME, also those that are rejected), state moves,
  workload updates, queries and stops the manager has served, every tracked instance is in exactly
  one of the available, unavailable and paused pools, under its own ID; the role pool of a role
  holds exactly the available instances of that role; and the endpoint index is the one of the
  available instances.
\<close>

theorem pools_stay_partitioned:
  assumes "list_all legal_pool_op ops" and "s = foldl pool_step (InstancePools_init mgmt) ops"
  shows "pools_ok s \<and>
    (\<forall>i. length (filter (\<lambda>pool. in_dict i pool) [available_pool s, unavailable_pool s, paused_pool s]) \<le> 1) \<and>
    (\<forall>role i. dict_get (co_get_available_instances (Some role) s) i =
       (case dict_get (available_pool s) i of
          None \<Rightarrow> None | Some r \<Rightarrow> if PDRole_of (ins_role (obj s r)) = Some role then Some r else None))"
proof -
  have ok: "pools_ok s" using pool_run.run_keeps[OF init_ok(1) assms(1)] assms(2) by blast
  have "length (filter (\<lambda>pool. in_dict i pool) [available_pool s, unavailable_pool s, paused_pool s]) \<le> 1" for i
  proof (cases "dict_get (available_pool s) i")
    case None
    then show ?thesis
      using pools_ok_unavailable(5)[OF ok, of i] by (cases "dict_get (unavailable_pool s) i") auto
  next
    case (Some r)
    then show ?thesis using pools_ok_available(3,4)[OF ok Some] by simp
  qed
  moreover have "dict_get (role_pools s role) i = role_view s role i" for role i using ok unfolding pools_ok_def by blast
  ultimately show ?thesis using ok by (simp add: co_get_available_instances_def role_view_def)
qed

text \<open>
  C26: a refresh that raises leaves every pool, role pool, index and the conductor log as they were:
  all raising checks come before the first change, for every event type.
\<close>

theorem refresh_all_or_nothing:
  assumes "pools_ok s" "iterates ord" and "refresh_instances ord ev instances s = (s', Inl e)"
  shows "s' = s\<lparr>cp_heap := cp_heap s @ instances\<rparr> \<and> validate_refresh_instances ev instances s' = Inl e"
proof -
  obtain s1 rs where a: "alloc_instances instances s = (s1, rs)" by fastforce
  then have s1: "s1 = s\<lparr>cp_heap := cp_heap s @ instances\<rparr>" by (auto simp: alloc_instances_def)
  show ?thesis
    by (cases rule: refresh_cases[OF assms(1,2) a, of ev]) (use assms(3) s1 in auto)
qed

lemma set_accepted:
  assumes ok: "pools_ok s" and ord: "iterates ord"
    and dis: "distinct (map ins_id instances)" and jobs: "distinct (map job_name instances)"
    and roles: "\<forall>ins \<in> set instances. PDRole_of (ins_role ins) \<noteq> None"
  shows "\<exists>s' b removed. refresh_instances ord SET instances s = (s', Inr (b, removed)) \<and> pools_ok s' \<and>
     set (dict_keys (available_pool s')) = set (map ins_id instances) \<and> unavailable_pool s' = [] \<and> paused_pool s' = [] \<and>
     (\<forall>ins \<in> set instances. \<exists>r. dict_get (available_pool s') (ins_id ins) = Some r \<and> \<not> instance_needs_update (obj s' r) ins) \<and>
     set removed = set (tracked_ids s) - set (map ins_id instances)"
proof -
  obtain s1 rs where a: "alloc_instances instances s = (s1, rs)" by fastforce
  note al = alloc_ok[OF ok a]
  have i: "map (ins_id \<circ> obj s1) rs = map ins_id instances" and j: "map (job_name \<circ> obj s1) rs = map job_name instances"
    unfolding al(2)[symmetric] by simp_all
  have v: "\<forall>r \<in> set rs. r < length (cp_heap s1) \<and> PDRole_of (ins_role (obj s1 r)) \<noteq> None"
    using al(3) roles unfolding al(2)[symmetric] by auto
  have d1: "distinct (map (ins_id \<circ> obj s1) rs)" "distinct (map (job_name \<circ> obj s1) rs)" unfolding i j using dis jobs .
  obtain s' b removed where e: "apply_set_diff ord rs s1 = (s', Inr (b, removed))" "pools_ok s'" "heap_le s1 s'"
     "set removed = set (tracked_ids s1) - (ins_id \<circ> obj s1) ` set rs"
     "\<forall>i x. find_instance_by_id i s' = Some x \<longleftrightarrow>
        (\<exists>r \<in> set rs. ins_id (obj s1 r) = i \<and> x = (case keeps s1 r of Some x \<Rightarrow> x | None \<Rightarrow> r))"
     "\<forall>i. dict_get (unavailable_pool s') i = None \<and> dict_get (paused_pool s') i = None"
    by (rule apply_set_exact[OF al(1) d1(1) ord v d1(2)])
  have f: "find_instance_by_id i s' = dict_get (available_pool s') i" for i
    using e(6) by (simp add: find_instance_by_id_def split: option.split)
  have em: "unavailable_pool s' = []" "paused_pool s' = []"
    using e(6) by (metis dict_get_None_iff empty_iff equals0I image_is_empty list.set(1) set_empty)+
  have "validate_refresh_instances SET instances s1 = Inr ()"
    using dis roles by (simp add: validate_refresh_instances_def list_all_iff)
  then have r: "refresh_instances ord SET instances s = (s', Inr (b, removed))" using a e(1) by (simp add: refresh_instances_def)
  have "in_dict k (available_pool s') \<longleftrightarrow> k \<in> (ins_id \<circ> obj s1) ` set rs" for k
    unfolding f[symmetric] using e(5) by (auto simp: image_iff)
  then have keys: "set (dict_keys (available_pool s')) = set (map ins_id instances)"
    unfolding i[symmetric] set_map in_dict_iff by blast
  have "\<exists>r. dict_get (available_pool s') (ins_id ins) = Some r \<and> \<not> instance_needs_update (obj s' r) ins" if ins: "ins \<in> set instances" for ins
  proof -
    obtain r where r: "r \<in> set rs" "ins = obj s1 r" using ins al(2) by auto
    let ?x = "case keeps s1 r of Some x \<Rightarrow> x | None \<Rightarrow> r"
    have a: "dict_get (available_pool s') (ins_id ins) = Some ?x" using e(5) r unfolding f[symmetric] by blast
    have x: "?x < length (cp_heap s1)"
    proof (cases "keeps s1 r")
      case (Some y)
      then show ?thesis using pools_ok_available(1)[OF al(1) keeps_available(1)[OF Some]] by simp
    qed (use v r(1) in simp)
    have "\<not> instance_needs_update (obj s1 ?x) (obj s1 r)"
      using keeps_available(2) by (auto simp: instance_needs_update_def split: option.split)
    then have "\<not> instance_needs_update (obj s' ?x) ins"
      using reset_eqD(7)[of "obj s' ?x" "obj s1 ?x"] e(3) x r(2) by (simp add: heap_le_def)
    then show ?thesis using a by blast
  qed
  moreover have "set removed = set (tracked_ids s) - set (map ins_id instances)"
    using e(4) arg_cong[OF i, of set] al(5-7) by (simp add: tracked_ids_def)
  ultimately show ?thesis using r e(2) keys em by blast
qed


text \<open>
  In every run whose RESUME requests carry balanced instances, the aggregate workload of every
  available instance is the sum over its endpoints and no endpoint is below zero, whatever
  allocations and (also excessive) releases were applied.
\<close>

theorem aggregate_is_endpoint_sum:
  assumes "list_all balanced_op ops" and "s = foldl pool_step (InstancePools_init mgmt) ops"
    and "dict_get (available_pool s) i = Some r"
  shows "active_tokens (gathered_workload (obj s r)) = sum_list (map ep_tokens (all_eps (obj s r))) \<and>
    (\<forall>ep \<in> set (all_eps (obj s r)). 0 \<le> ep_tokens ep)"
proof -
  have "ledgers_ok s" using ledger_pool_run.run_keeps[OF _ assms(1)] init_ok assms(2) by blast
  then have "balanced (obj s r)" using assms(3) unfolding ledgers_ok_def by blast
  then show ?thesis by (simp add: balanced_def list_all_iff)
qed

text \<open>
  A workload update for an endpoint of an available instance is always applied: the endpoint's
  tokens become the old ones plus the change, at least zero; no other endpoint and no other
  instance changes; and the role and new workload are answered.
\<close>

theorem workload_update_exact:
  assumes ok: "pools_ok s" and l: "ledgers_ok s" and a: "dict_get (available_pool s) i = Some r"
    and e: "e \<in> ep_id ` set (all_eps (obj s r))"
  shows "\<exists>s' role p ep. PDRole_of (ins_role (obj s r)) = Some role \<and> deref (obj s r) p = Some ep \<and> ep_id ep = e \<and>
    update_instance_workload_sync i e change s =
      (s', Inr (Some (role, \<lparr>active_tokens = max 0 (ep_tokens ep + active_tokens change)\<rparr>))) \<and>
    (\<forall>q. map_option ep_workload (deref (obj s' r) q) =
       (if q = p then Some \<lparr>active_tokens = max 0 (ep_tokens ep + active_tokens change)\<rparr>
        else map_option ep_workload (deref (obj s r) q))) \<and>
    (\<forall>x. x \<noteq> r \<longrightarrow> obj s' x = obj s x)"
proof -
  have rl: "r < length (cp_heap s)" using pools_ok_available(1)[OF ok a] .
  have wf: "wf_endpoints (obj s r)" "balanced (obj s r)" using l rl a unfolding ledgers_ok_def by blast+
  show ?thesis
  proof (cases rule: update_workload_eq[OF ok a wf(1), of e change])
    case 1
    then show ?thesis using e by blast
  next
    case (2 p ep role s')
    have o: "obj s' x = (if x = r then charged p (ep_workload ep) change (obj s r) else obj s x)" for x
      using rl 2(4) by (simp add: obj_heap_modify)
    note d = charged_deref[OF wf 2(1), of change]
    have "endpoint_workload s' (r, p) = \<lparr>active_tokens = max 0 (ep_tokens ep + active_tokens change)\<rparr>"
      using d[of p] by (auto simp: endpoint_workload_def o split: option.splits)
    then show ?thesis using 2 d o by (intro exI[of _ s'] exI[of _ role] exI[of _ p] exI[of _ ep]) simp
  qed
qed

text \<open>
  The coordinator reports that it can take traffic exactly when some available instance has the
  prefill or the union role.
\<close>

theorem traffic_iff_prefill_or_union:
  assumes ok: "pools_ok s"
  shows "has_required_instances s \<longleftrightarrow> role_pools s ROLE_P \<noteq> [] \<or> role_pools s ROLE_U \<noteq> []"
proof -
  let ?I = "map (obj s) (concat (map (\<lambda>role. dict_values (role_pools s role)) [ROLE_E, ROLE_P, ROLE_D, ROLE_U]))"
  have m: "PDRole_of (ins_role (obj s r)) = Some role" if rm: "(i, r) \<in> set (role_pools s role)" for i r role
  proof -
    have "distinct (dict_keys (role_pools s role))" "dict_get (role_pools s role) i = role_view s role i"
      using ok unfolding pools_ok_def by blast+
    then have "role_view s role i = Some r" using dict_get_eq_iff[of "role_pools s role" i r] rm by simp
    then show ?thesis by (auto simp: role_view_def split: option.splits if_splits)
  qed
  have i: "ins \<in> set ?I \<longleftrightarrow> (\<exists>role i r. (i, r) \<in> set (role_pools s role) \<and> ins = obj s r)" for ins
  proof
    assume "\<exists>role i r. (i, r) \<in> set (role_pools s role) \<and> ins = obj s r"
    then obtain role i r where "(i, r) \<in> set (role_pools s role)" "ins = obj s r" by blast
    then show "ins \<in> set ?I" by (cases role) force+
  qed (auto, blast+)
  have e: "(\<exists>ins \<in> set ?I. ins_role ins \<in> V) \<longleftrightarrow> role_pools s role \<noteq> []"
    if V: "\<And>x role'. x \<in> V \<Longrightarrow> PDRole_of x = Some role' \<Longrightarrow> role' = role" "\<And>x. PDRole_of x = Some role \<Longrightarrow> x \<in> V" for V role
  proof
    assume "\<exists>ins \<in> set ?I. ins_role ins \<in> V"
    then obtain ins where "ins \<in> set ?I" "ins_role ins \<in> V" by blast
    then obtain role' k r where "(k, r) \<in> set (role_pools s role')" "ins_role (obj s r) \<in> V" using i[of ins] by blast
    then show "role_pools s role \<noteq> []" using V(1) m by fastforce
  next
    assume "role_pools s role \<noteq> []"
    then obtain k r where kr: "(k, r) \<in> set (role_pools s role)" by (cases "role_pools s role") auto
    then have "obj s r \<in> set ?I" "ins_role (obj s r) \<in> V" using i V(2)[OF m[OF kr]] by blast+
    then show "\<exists>ins \<in> set ?I. ins_role ins \<in> V" by blast
  qed
  have p: "(\<exists>ins \<in> set ?I. ins_role ins \<in> {''prefill''}) \<longleftrightarrow> role_pools s ROLE_P \<noteq> []"
    by (rule e) (auto simp: PDRole_of_def split: if_splits)
  have u: "(\<exists>ins \<in> set ?I. ins_role ins \<in> {''union'', ''both'', ''hybrid''}) \<longleftrightarrow> role_pools s ROLE_U \<noteq> []"
    by (rule e) (auto simp: PDRole_of_def split: if_splits)
  have "is_run False (readiness_from_instances xs) \<longleftrightarrow>
      (\<exists>ins \<in> set xs. ins_role ins \<in> {''prefill''}) \<or> (\<exists>ins \<in> set xs. ins_role ins \<in> {''union'', ''both'', ''hybrid''})" for xs
    by (auto simp: readiness_from_instances_def is_run_def is_ready_def Let_def filter_empty_conv)
  then show ?thesis unfolding has_required_instances_def get_required_instances_status_def using p u by (simp only:)
qed

text \<open>
  SET compares endpoints without their bootstrap ports and headless flags, which belong to an
  instance's identity: a SET that changes only those keeps the old instance, and an ADD of the very
  instance just SET is then refused as an ID conflict.
\<close>

theorem set_then_add_conflicts:
  assumes ok: "pools_ok s" and ord: "iterates ord" and a: "dict_get (available_pool s) (ins_id ins) = Some r"
    and role: "PDRole_of (ins_role ins) \<noteq> None"
    and same: "\<not> instance_needs_update (obj s r) ins" and other: "\<not> same_add_identity (obj s r) ins"
  shows "\<exists>s' b removed s''. refresh_instances ord SET [ins] s = (s', Inr (b, removed)) \<and>
    dict_get (available_pool s') (ins_id ins) = Some r \<and>
    refresh_instances ord ADD [ins] s' = (s'', Inl (InstanceIdConflictError (ins_id ins)))"
proof -
  obtain s1 rs where al: "alloc_instances [ins] s = (s1, rs)" by fastforce
  note A = alloc_ok[OF ok al]
  obtain r1 where r1: "rs = [r1]" "obj s1 r1 = ins" using A(2) by (cases rs) auto
  have rl: "r < length (cp_heap s)" using pools_ok_available(1)[OF ok a] .
  have o: "obj s1 r = obj s r" using rl al by (auto simp: alloc_instances_def obj_def nth_append)
  have k: "keeps s1 r1 = Some r" using a same by (simp add: keeps_def r1 A(5) o)
  have v: "\<forall>x \<in> set rs. x < length (cp_heap s1) \<and> PDRole_of (ins_role (obj s1 x)) \<noteq> None" using A(3) role r1 by simp
  have dd: "distinct (map (ins_id \<circ> obj s1) rs)" "distinct (map (job_name \<circ> obj s1) rs)" using r1 by simp_all
  obtain s' b removed where e: "apply_set_diff ord rs s1 = (s', Inr (b, removed))" "pools_ok s'" "heap_le s1 s'"
     "\<forall>i x. find_instance_by_id i s' = Some x \<longleftrightarrow>
        (\<exists>r \<in> set rs. ins_id (obj s1 r) = i \<and> x = (case keeps s1 r of Some x \<Rightarrow> x | None \<Rightarrow> r))"
     "\<forall>i. dict_get (unavailable_pool s') i = None \<and> dict_get (paused_pool s') i = None"
    by (rule apply_set_exact[OF A(1) dd(1) ord v dd(2)]) (rule that)
  have f: "find_instance_by_id (ins_id ins) s' = Some r" using e(4) k r1 by simp
  then have av: "dict_get (available_pool s') (ins_id ins) = Some r"
    using e(5) by (simp add: find_instance_by_id_def split: option.splits)
  have set: "refresh_instances ord SET [ins] s = (s', Inr (b, removed))"
    using al e(1) role by (simp add: refresh_instances_def validate_refresh_instances_def)
  obtain s2 rs2 where al2: "alloc_instances [ins] s' = (s2, rs2)" by fastforce
  note B = alloc_ok[OF e(2) al2]
  have "reset_workload (obj s2 r) = reset_workload (obj s r)"
    using B(4) e(3) A(4) rl unfolding heap_le_def by (metis (no_types, lifting) less_le_trans)
  then have "\<not> same_add_identity (obj s2 r) ins" using other reset_eqD(5) by blast
  moreover have "find_instance_by_id (ins_id ins) s2 = Some r" using f find_by_id_alloc[OF al2] by simp
  ultimately have "validate_refresh_instances ADD [ins] s2 = Inl (InstanceIdConflictError (ins_id ins))"
    using role by (simp add: validate_refresh_instances_def)
  then have "refresh_instances ord ADD [ins] s' = (s2, Inl (InstanceIdConflictError (ins_id ins)))"
    using al2 by (simp add: refresh_instances_def)
  then show ?thesis using set av by blast
qed

section \<open>Witnesses\<close>

lemma demo_iterates: "iterates remdups"
  by (simp add: iterates_def)

lemma demo_pools_heap: "available_pool demo_pools = [(7, 0)]" "length (cp_heap demo_pools) = 1"
  "obj demo_pools 0 = demo_instance 7 ''prefill'' ACTIVE" "role_pools demo_pools ROLE_P = [(7, 0)]"
  by code_simp+

lemma demo_pools_ok: "pools_ok demo_pools" "ledgers_ok demo_pools"
proof -
  have "list_all balanced_op [demo_add]"
    by (simp add: demo_add_def demo_iterates wf_endpoints_def demo_instance_def)
  from ledger_pool_run.run_keeps[OF _ this, of "InstancePools_init False"] init_ok
  show "pools_ok demo_pools" "ledgers_ok demo_pools" unfolding demo_pools_def by blast+
qed

lemma demo_entry: "dict_get (available_pool demo_pools) 7 = Some 0"
  by (simp add: demo_pools_heap)

theorem pools_stay_partitioned_witness:
  "pools_ok (foldl pool_step (InstancePools_init False)
     [demo_add, Pool_state 7 UNAVAILABLE, Pool_refresh remdups SET [demo_instance 8 ''decode'' ACTIVE]])"
proof -
  let ?ops = "[demo_add, Pool_state 7 UNAVAILABLE, Pool_refresh remdups SET [demo_instance 8 ''decode'' ACTIVE]]"
  have "list_all legal_pool_op ?ops" by (simp add: demo_add_def demo_iterates wf_endpoints_def demo_instance_def)
  from pools_stay_partitioned[OF this refl, of False] show ?thesis by blast
qed

theorem refresh_all_or_nothing_witness:
  "snd (refresh_instances remdups ADD [demo_instance 7 ''x'' ACTIVE] demo_pools) = Inl ValueError \<and>
   available_pool (fst (refresh_instances remdups ADD [demo_instance 7 ''x'' ACTIVE] demo_pools)) = [(7, 0)]"
proof -
  obtain s' where e: "refresh_instances remdups ADD [demo_instance 7 ''x'' ACTIVE] demo_pools = (s', Inl ValueError)"
    by (simp add: refresh_instances_def alloc_instances_def validate_refresh_instances_def PDRole_of_def demo_instance_def)
  from refresh_all_or_nothing[OF demo_pools_ok(1) demo_iterates e] show ?thesis by (simp add: e demo_pools_heap)
qed


theorem aggregate_is_endpoint_sum_witness:
  "active_tokens (gathered_workload (obj (foldl pool_step (InstancePools_init False)
     [demo_add, Pool_workload 7 0 \<lparr>active_tokens = 12\<rparr>, Pool_workload 7 1 \<lparr>active_tokens = - 5\<rparr>]) 0)) = 12"
proof -
  let ?ops = "[demo_add, Pool_workload 7 0 \<lparr>active_tokens = 12\<rparr>, Pool_workload 7 1 \<lparr>active_tokens = - 5\<rparr>]"
  let ?s = "foldl pool_step (InstancePools_init False) ?ops"
  have "list_all balanced_op ?ops" by (simp add: demo_add_def demo_iterates wf_endpoints_def demo_instance_def)
  moreover have "dict_get (available_pool ?s) 7 = Some 0" by code_simp
  ultimately have "active_tokens (gathered_workload (obj ?s 0)) = sum_list (map ep_tokens (all_eps (obj ?s 0)))"
    using aggregate_is_endpoint_sum[OF _ refl] by blast
  moreover have "sum_list (map ep_tokens (all_eps (obj ?s 0))) = 12" by code_simp
  ultimately show ?thesis by simp
qed

theorem workload_update_exact_witness:
  "\<exists>s'. update_instance_workload_sync 7 1 \<lparr>active_tokens = - 5\<rparr> demo_pools = (s', Inr (Some (ROLE_P, \<lparr>active_tokens = 0\<rparr>)))"
proof -
  have "1 \<in> ep_id ` set (all_eps (obj demo_pools 0))"
    by (simp add: demo_pools_heap demo_instance_def demo_endpoint_def all_eps_def)
  from workload_update_exact[OF demo_pools_ok demo_entry this, of "\<lparr>active_tokens = - 5\<rparr>"] obtain s' role p ep where
    u: "PDRole_of (ins_role (obj demo_pools 0)) = Some role" "deref (obj demo_pools 0) p = Some ep"
    "update_instance_workload_sync 7 1 \<lparr>active_tokens = - 5\<rparr> demo_pools =
      (s', Inr (Some (role, \<lparr>active_tokens = max 0 (ep_tokens ep + - 5)\<rparr>)))" by auto
  have "role = ROLE_P" using u(1) by (simp add: demo_pools_heap demo_instance_def PDRole_of_def)
  moreover have "ep_tokens ep = 0"
    using u(2) by (auto simp: demo_pools_heap demo_instance_def demo_endpoint_def deref_def ep_tokens_def empty_workload_def
        split: option.splits if_splits)
  ultimately show ?thesis using u(3) by simp
qed

theorem traffic_iff_prefill_or_union_witness: "has_required_instances demo_pools"
  using traffic_iff_prefill_or_union[OF demo_pools_ok(1)] demo_pools_heap(4) by simp

theorem set_then_add_conflicts_witness:
  "\<exists>s' b removed s''. refresh_instances remdups SET [demo_rebooted] demo_pools = (s', Inr (b, removed)) \<and>
     refresh_instances remdups ADD [demo_rebooted] s' = (s'', Inl (InstanceIdConflictError 7))"
proof -
  have i: "ins_id demo_rebooted = 7" by (simp add: demo_rebooted_def demo_instance_def)
  then have a: "dict_get (available_pool demo_pools) (ins_id demo_rebooted) = Some 0" using demo_entry by simp
  have r: "PDRole_of (ins_role demo_rebooted) \<noteq> None" by (simp add: demo_rebooted_def demo_instance_def PDRole_of_def)
  have n: "\<not> instance_needs_update (obj demo_pools 0) demo_rebooted" unfolding demo_pools_heap by code_simp
  have s: "\<not> same_add_identity (obj demo_pools 0) demo_rebooted" unfolding demo_pools_heap by code_simp
  from set_then_add_conflicts[OF demo_pools_ok(1) demo_iterates a r n s] show ?thesis unfolding i by blast
qed

end
