(* ===== verification/Scheduling.thy ===== *)
theory Scheduling
  imports Coordinator_Pools "HOL-Library.Multiset"
begin

text \<open>
  The scheduling policies of the coordinator, \<^verbatim>\<open>motor/coordinator/scheduler/policy/round_robin.py\<close> and
  \<^verbatim>\<open>load_balance.py\<close>, and the arbitration over a fresh view of the pools,
  \<^verbatim>\<open>motor/coordinator/scheduler/allocate_arbitration.py\<close>.

  A policy reads instances and keeps only counters, so instances are values here. Reading the
  endpoints of an instance may fill its cache, which does not change what later readings answer
  (\<open>get_all_endpoints_coherent\<close>). Random tie-breakers are the argument \<open>rnd\<close>: the number drawn for the
  i-th candidate. Logging is left out.
\<close>

section \<open>Round robin\<close>

definition eps_of :: "Instance \<Rightarrow> Endpoint list" where
  "eps_of ins = snd (get_all_endpoints False ins)"

record RoundRobinPolicy =
  instance_rr_counters :: "(PDRole option, int) dict"
  endpoint_rr_counters :: "(int, int) dict"

definition RoundRobinPolicy_init :: RoundRobinPolicy where
  "RoundRobinPolicy_init = \<lparr>instance_rr_counters = [], endpoint_rr_counters = []\<rparr>"

definition rr_select_instance_from_list :: "Instance list \<Rightarrow> int \<Rightarrow> Instance option \<times> int" where
  "rr_select_instance_from_list instances counter =
     (if instances = [] then (None, counter)
      else (Some (instances ! nat (counter mod int (length instances))), counter + 1))"

definition rr_select_endpoint_from_instance ::
  "Instance \<Rightarrow> (int \<Rightarrow> bool) option \<Rightarrow> (int, int) dict \<Rightarrow> (int, int) dict \<times> Endpoint option" where
  "rr_select_endpoint_from_instance ins is_blocked counters =
     (let eps = eps_of ins;
          eps1 = (case is_blocked of None \<Rightarrow> eps | Some blocked \<Rightarrow> filter (\<lambda>ep. \<not> blocked (ins_id ins)) eps)
      in if eps = [] \<or> eps1 = [] then (counters, None)
         else (let counters1 = (if in_dict (ins_id ins) counters then counters else dict_set (ins_id ins) 0 counters);
                   c = the (dict_get counters1 (ins_id ins));
                   n = int (length eps1)
               in (dict_set (ins_id ins) ((c + 1) mod n) counters1, Some (eps1 ! nat (c mod n)))))"

definition rr_select_instance :: "Instance list \<Rightarrow> PDRole option \<Rightarrow> RoundRobinPolicy \<Rightarrow> RoundRobinPolicy \<times> Instance option" where
  "rr_select_instance active role p =
     (if active = [] then (p, None)
      else (let counters = (if in_dict role (instance_rr_counters p) then instance_rr_counters p
                            else dict_set role 0 (instance_rr_counters p));
                (ins, next) = rr_select_instance_from_list active (the (dict_get counters role))
            in (p\<lparr>instance_rr_counters := dict_set role (next mod int (length active)) counters\<rparr>, ins)))"

definition rr_select_endpoint :: "Instance \<Rightarrow> RoundRobinPolicy \<Rightarrow> RoundRobinPolicy \<times> Endpoint option" where
  "rr_select_endpoint ins p =
     (if eps_of ins = [] then (p, None)
      else (let (counters, ep) = rr_select_endpoint_from_instance ins None (endpoint_rr_counters p)
            in (p\<lparr>endpoint_rr_counters := counters\<rparr>, ep)))"

text \<open>
  \<open>BaseSchedulingPolicy.select_instance_and_endpoint\<close> with the round-robin methods, and the
  selection from a given list.
\<close>

definition rr_select_instance_and_endpoint ::
  "Instance list \<Rightarrow> PDRole option \<Rightarrow> RoundRobinPolicy \<Rightarrow> RoundRobinPolicy \<times> (Instance \<times> Endpoint) option" where
  "rr_select_instance_and_endpoint active role p =
     (case rr_select_instance active role p of
        (p1, None) \<Rightarrow> (p1, None)
      | (p1, Some ins) \<Rightarrow>
          (case rr_select_endpoint ins p1 of
             (p2, None) \<Rightarrow> (p2, None)
           | (p2, Some ep) \<Rightarrow> (p2, Some (ins, ep))))"

definition rr_select_from_list ::
  "Instance list \<Rightarrow> PDRole option \<Rightarrow> RoundRobinPolicy \<Rightarrow> RoundRobinPolicy \<times> (Instance \<times> Endpoint) option" where
  "rr_select_from_list instances role p =
     (if instances = [] then (p, None)
      else (let counter = (case dict_get (instance_rr_counters p) role of Some c \<Rightarrow> c | None \<Rightarrow> 0);
                (ins, next) = rr_select_instance_from_list instances counter;
                p1 = p\<lparr>instance_rr_counters := dict_set role (next mod int (length instances)) (instance_rr_counters p)\<rparr>
            in case ins of
                 None \<Rightarrow> (p1, None)
               | Some i \<Rightarrow>
                   (let (counters, ep) = rr_select_endpoint_from_instance i None (endpoint_rr_counters p1)
                    in (p1\<lparr>endpoint_rr_counters := counters\<rparr>, map_option (\<lambda>e. (i, e)) ep))))"

section \<open>Load balance\<close>

record EndpointCandidate =
  cand_instance :: Instance
  cand_endpoint :: Endpoint
  cand_score :: pyfloat

type_synonym kv_usage = "Instance \<Rightarrow> Endpoint \<Rightarrow> py_error + pyfloat option"

definition DEFAULT_ENDPOINT_INSTANCE_SCORE_WEIGHT :: pyfloat where
  "DEFAULT_ENDPOINT_INSTANCE_SCORE_WEIGHT = 5 / 100"

definition set_endpoint_instance_score_weight :: "pyfloat \<Rightarrow> pyfloat" where
  "set_endpoint_instance_score_weight weight = max 0 weight"

definition calculate_endpoint_score ::
  "Instance \<Rightarrow> Endpoint \<Rightarrow> pyfloat \<Rightarrow> pyfloat option \<Rightarrow> pyfloat option \<Rightarrow> pyfloat" where
  "calculate_endpoint_score ins ep weight endpoint_score instance_score =
     (let es = (case endpoint_score of Some x \<Rightarrow> x | None \<Rightarrow> calculate_workload_score (ep_workload ep))
      in if weight \<le> 0 then es
         else (let n = max 1 (of_nat (length (eps_of ins)));
                   isc = (case instance_score of Some x \<Rightarrow> x | None \<Rightarrow> calculate_workload_score (gathered_workload ins))
               in es + weight * (isc / n)))"

definition apply_kv_usage_penalty :: "pyfloat \<Rightarrow> Instance \<Rightarrow> Endpoint \<Rightarrow> kv_usage \<Rightarrow> pyfloat option \<Rightarrow> pyfloat" where
  "apply_kv_usage_penalty score ins ep provider instance_score =
     (case provider ins ep of
        Inr (Some usage) \<Rightarrow>
          (let isc = (case instance_score of Some x \<Rightarrow> x | None \<Rightarrow> calculate_workload_score (gathered_workload ins));
               n = max 1 (of_nat (length (eps_of ins)))
           in score + usage * (isc / n))
      | _ \<Rightarrow> score)"

text \<open>
  The score of a candidate, the loop that collects the candidates, and the \<open>top_k\<close> smallest by
  score and drawn number (\<open>heapq.nsmallest\<close> is \<open>sorted(...)[:k]\<close>).
\<close>

definition candidate_score :: "pyfloat \<Rightarrow> bool \<Rightarrow> kv_usage option \<Rightarrow> Instance \<Rightarrow> Endpoint \<Rightarrow> pyfloat" where
  "candidate_score weight exclude_highest provider ins ep =
     (let score = calculate_endpoint_score ins ep weight None None
      in case provider of
           Some kv \<Rightarrow> if exclude_highest then apply_kv_usage_penalty score ins ep kv None else score
         | None \<Rightarrow> score)"

definition collect_candidates ::
  "Instance list \<Rightarrow> (int \<Rightarrow> bool) option \<Rightarrow> (int \<times> int) set option \<Rightarrow> (Instance \<times> Endpoint) list" where
  "collect_candidates instances is_blocked excluded =
     filter (\<lambda>(ins, ep). \<not> (case is_blocked of Some f \<Rightarrow> f (ins_id ins) | None \<Rightarrow> False) \<and>
                         \<not> (case excluded of Some X \<Rightarrow> (ins_id ins, ep_id ep) \<in> X | None \<Rightarrow> False))
       (concat (map (\<lambda>ins. map (Pair ins) (eps_of ins)) instances))"

definition select_endpoint_candidates_from_list ::
  "(nat \<Rightarrow> pyfloat) \<Rightarrow> Instance list \<Rightarrow> int \<Rightarrow> pyfloat \<Rightarrow> (int \<Rightarrow> bool) option \<Rightarrow> (int \<times> int) set option \<Rightarrow> bool \<Rightarrow> kv_usage option
   \<Rightarrow> EndpointCandidate list" where
  "select_endpoint_candidates_from_list rnd instances top_k weight is_blocked excluded exclude_highest provider =
     (if top_k \<le> 0 \<or> instances = [] then []
      else (let cands = map (\<lambda>(ins, ep). \<lparr>cand_instance = ins, cand_endpoint = ep,
                                 cand_score = candidate_score weight exclude_highest provider ins ep\<rparr>)
                          (collect_candidates instances is_blocked excluded);
                scored = map (\<lambda>(j, c). (cand_score c, rnd j, c)) (enumerate 0 cands)
            in map (\<lambda>(s, r, c). c) (take (nat top_k) (sort_key (\<lambda>(s, r, c). (s, r)) scored))))"

definition lb_select_endpoint_from_list :: "(nat \<Rightarrow> pyfloat) \<Rightarrow> Instance list \<Rightarrow> pyfloat \<Rightarrow> (Instance \<times> Endpoint) option" where
  "lb_select_endpoint_from_list rnd instances weight =
     (case select_endpoint_candidates_from_list rnd instances 1 weight None None False None of
        [] \<Rightarrow> None | c # cs \<Rightarrow> Some (cand_instance c, cand_endpoint c))"

definition lb_select_instance_from_list :: "Instance list \<Rightarrow> int \<Rightarrow> Instance option" where
  "lb_select_instance_from_list instances start_index =
     (let score = (\<lambda>ins. calculate_workload_score (gathered_workload ins)); n = length instances
      in if start_index \<noteq> 0
         then (if instances = [] then None
               else min_scan score None (map (\<lambda>i. instances ! nat ((start_index + int i) mod int n)) [0..<n]))
         else min_scan score None instances)"

definition lb_select_endpoint_from_instance :: "Instance \<Rightarrow> Endpoint option" where
  "lb_select_endpoint_from_instance ins =
     min_scan (\<lambda>ep. calculate_workload_score (ep_workload ep)) None (eps_of ins)"

definition lb_select_instance_and_endpoint ::
  "(nat \<Rightarrow> pyfloat) \<Rightarrow> pyfloat \<Rightarrow> Instance list \<Rightarrow> (Instance \<times> Endpoint) option" where
  "lb_select_instance_and_endpoint rnd weight active =
     (if active = [] then None else lb_select_endpoint_from_list rnd active weight)"

section \<open>Arbitration\<close>

record ArbitrationContext =
  ctx_available :: "PDRole \<Rightarrow> (int, Instance) dict"
  ctx_circuit_open :: "int \<Rightarrow> bool"
  ctx_score_weight :: pyfloat
  ctx_is_load_balance :: bool
  ctx_kv_usage :: "kv_usage option"

text \<open>
  \<open>str.lower()\<close> on ASCII letters.
\<close>

definition py_lower :: "string \<Rightarrow> string" where
  "py_lower = map (\<lambda>c. let n = (of_char c :: nat) in if 65 \<le> n \<and> n \<le> 90 then char_of (n + 32) else c)"

definition matches_engine_type :: "Instance \<Rightarrow> string option \<Rightarrow> bool" where
  "matches_engine_type ins required =
     (case required of
        None \<Rightarrow> True
      | Some e \<Rightarrow> e = [] \<or> py_lower (py_strip (case engine_type ins of Some t \<Rightarrow> t | None \<Rightarrow> ''None'')) = e)"

definition matches_dispatch_capability :: "Instance \<Rightarrow> string option \<Rightarrow> bool" where
  "matches_dispatch_capability ins required =
     (case required of None \<Rightarrow> True | Some c \<Rightarrow> c = [] \<or> c \<in> set (dispatch_capabilities ins))"

definition find_in_role :: "ArbitrationContext \<Rightarrow> int \<Rightarrow> int \<Rightarrow> PDRole \<Rightarrow> (Instance \<times> Endpoint) option" where
  "find_in_role ctx i e role =
     (case dict_get (ctx_available ctx role) i of
        None \<Rightarrow> None
      | Some ins \<Rightarrow> map_option (Pair ins) (find (\<lambda>ep. ep_id ep = e) (all_eps ins)))"

definition find_available_instance_endpoint :: "ArbitrationContext \<Rightarrow> int \<Rightarrow> int \<Rightarrow> (Instance \<times> Endpoint) option" where
  "find_available_instance_endpoint ctx i e =
     (case List.map_filter (find_in_role ctx i e) [ROLE_E, ROLE_P, ROLE_D, ROLE_U] of
        [] \<Rightarrow> None | x # xs \<Rightarrow> Some x)"

text \<open>
  The checks every branch makes on a proposed pair: circuit, presence, engine, capability and role.
  The answer is the instance and endpoint that passed them.
\<close>

definition role_of_instance :: "Instance \<Rightarrow> PDRole" where
  "role_of_instance ins = (case PDRole_of (ins_role ins) of Some r \<Rightarrow> r | None \<Rightarrow> ROLE_U)"

definition valid_pair ::
  "ArbitrationContext \<Rightarrow> PDRole \<Rightarrow> string option \<Rightarrow> string option \<Rightarrow> int \<times> int \<Rightarrow> (Instance \<times> Endpoint) option" where
  "valid_pair ctx role engine capability pair =
     (if ctx_circuit_open ctx (fst pair) then None
      else case find_available_instance_endpoint ctx (fst pair) (snd pair) of
             None \<Rightarrow> None
           | Some (ins, ep) \<Rightarrow>
               if \<not> matches_engine_type ins engine then None
               else if \<not> matches_dispatch_capability ins capability then None
               else if role_of_instance ins \<noteq> role then None
               else Some (ins, ep))"

definition fresh_score :: "ArbitrationContext \<Rightarrow> Instance \<Rightarrow> Endpoint \<Rightarrow> pyfloat" where
  "fresh_score ctx ins ep = calculate_endpoint_score ins ep (ctx_score_weight ctx) None None"

definition select_valid_candidate ::
  "ArbitrationContext \<Rightarrow> int \<times> int \<Rightarrow> PDRole \<Rightarrow> string option \<Rightarrow> string option \<Rightarrow> (Instance \<times> Endpoint \<times> pyfloat) option" where
  "select_valid_candidate ctx candidate role engine capability =
     (case valid_pair ctx role engine capability candidate of
        None \<Rightarrow> None | Some (ins, ep) \<Rightarrow> Some (ins, ep, fresh_score ctx ins ep))"

definition eligible_instances :: "ArbitrationContext \<Rightarrow> PDRole \<Rightarrow> string option \<Rightarrow> string option \<Rightarrow> Instance list" where
  "eligible_instances ctx role engine capability =
     filter (\<lambda>ins. matches_engine_type ins engine \<and> matches_dispatch_capability ins capability)
       (dict_values (ctx_available ctx role))"

definition select_global_load_balance_candidate ::
  "(nat \<Rightarrow> pyfloat) \<Rightarrow> ArbitrationContext \<Rightarrow> PDRole \<Rightarrow> string option \<Rightarrow> (int \<times> int) set option \<Rightarrow> string option
   \<Rightarrow> (Instance \<times> Endpoint \<times> pyfloat) option" where
  "select_global_load_balance_candidate rnd ctx role engine excluded capability =
     (case select_endpoint_candidates_from_list rnd (eligible_instances ctx role engine capability) 1 (ctx_score_weight ctx)
             (Some (ctx_circuit_open ctx)) excluded (role = ROLE_D \<and> ctx_kv_usage ctx \<noteq> None)
             (if role = ROLE_D then ctx_kv_usage ctx else None) of
        [] \<Rightarrow> None
      | c # cs \<Rightarrow> Some (cand_instance c, cand_endpoint c, cand_score c))"

definition not_excluded :: "(int \<times> int) set option \<Rightarrow> int \<times> int \<Rightarrow> bool" where
  "not_excluded excluded pair = (case excluded of None \<Rightarrow> True | Some X \<Rightarrow> pair \<notin> X)"

text \<open>
  The loop of \<open>select_affinity_global\<close>: the best so far with its combined cost and prefill cost.
\<close>

fun affinity_loop ::
  "ArbitrationContext \<Rightarrow> PDRole \<Rightarrow> string option \<Rightarrow> string option \<Rightarrow> (int \<times> int) set option \<Rightarrow> pyfloat \<Rightarrow> pyfloat
   \<Rightarrow> (Instance \<times> Endpoint \<times> pyfloat \<times> pyfloat) option \<Rightarrow> (int \<times> int \<times> pyfloat) list
   \<Rightarrow> (Instance \<times> Endpoint \<times> pyfloat \<times> pyfloat) option" where
  "affinity_loop ctx role engine capability excluded pscale lweight best [] = best"
| "affinity_loop ctx role engine capability excluded pscale lweight best (c # cs) =
     (let (i, e, prefill_cost) = c
      in if \<not> not_excluded excluded (i, e) then affinity_loop ctx role engine capability excluded pscale lweight best cs
         else case valid_pair ctx role engine capability (i, e) of
                None \<Rightarrow> affinity_loop ctx role engine capability excluded pscale lweight best cs
              | Some (ins, ep) \<Rightarrow>
                  (let combined = pscale * prefill_cost + lweight * fresh_score ctx ins ep;
                       best1 = (case best of
                                  None \<Rightarrow> Some (ins, ep, combined, prefill_cost)
                                | Some (bi, be, bc, bp) \<Rightarrow>
                                    if combined < bc \<or> (combined = bc \<and> prefill_cost < bp)
                                    then Some (ins, ep, combined, prefill_cost) else best)
                   in affinity_loop ctx role engine capability excluded pscale lweight best1 cs))"

definition select_affinity_global ::
  "ArbitrationContext \<Rightarrow> (int \<times> int \<times> pyfloat) list \<Rightarrow> PDRole \<Rightarrow> pyfloat option \<Rightarrow> pyfloat option \<Rightarrow> string option
   \<Rightarrow> (int \<times> int) set option \<Rightarrow> string option \<Rightarrow> (Instance \<times> Endpoint \<times> pyfloat) option" where
  "select_affinity_global ctx cands role prefill_load_scale load_weight engine excluded capability =
     (let pscale = (case prefill_load_scale of Some x \<Rightarrow> x | None \<Rightarrow> 1);
          lweight = (case load_weight of Some x \<Rightarrow> x | None \<Rightarrow> 1)
      in map_option (\<lambda>(ins, ep, combined, cost). (ins, ep, combined))
           (affinity_loop ctx role engine capability excluded pscale lweight None cands))"

definition scored_pairs ::
  "ArbitrationContext \<Rightarrow> PDRole \<Rightarrow> string option \<Rightarrow> string option \<Rightarrow> (int \<times> int) list \<Rightarrow> (Instance \<times> Endpoint \<times> pyfloat) list" where
  "scored_pairs ctx role engine capability pairs =
     map (\<lambda>(ins, ep). (ins, ep, fresh_score ctx ins ep)) (List.map_filter (valid_pair ctx role engine capability) pairs)"

definition select_lowest_load_among_candidates ::
  "ArbitrationContext \<Rightarrow> (int \<times> int) list \<Rightarrow> PDRole \<Rightarrow> string option \<Rightarrow> string option \<Rightarrow> (Instance \<times> Endpoint \<times> pyfloat) option" where
  "select_lowest_load_among_candidates ctx pairs role engine capability =
     min_scan (\<lambda>(ins, ep, score). score) None (scored_pairs ctx role engine capability pairs)"

definition select_lightest_dynamic_bucket_candidate ::
  "ArbitrationContext \<Rightarrow> (int \<times> int) list \<Rightarrow> PDRole \<Rightarrow> string option \<Rightarrow> (int \<times> int) set option \<Rightarrow> string option
   \<Rightarrow> (Instance \<times> Endpoint \<times> pyfloat) option" where
  "select_lightest_dynamic_bucket_candidate ctx pairs role engine excluded capability =
     map_option (\<lambda>(ins, ep). (ins, ep, active_tokens (ep_workload ep)))
       (min_scan (\<lambda>(ins, ep). (active_tokens (ep_workload ep), ins_id ins, ep_id ep)) None
         (List.map_filter (valid_pair ctx role engine capability) (filter (not_excluded excluded) pairs)))"

definition KNOWN_CANDIDATE_POLICIES :: "string set" where
  "KNOWN_CANDIDATE_POLICIES = {''load_balance'', ''round_robin'', ''kv_cache_affinity'', ''dynamic_bucket''}"

definition should_scan_global_load_balance :: "ArbitrationContext \<Rightarrow> string option \<Rightarrow> bool" where
  "should_scan_global_load_balance ctx policy =
     (case policy of
        None \<Rightarrow> ctx_is_load_balance ctx
      | Some p \<Rightarrow> if p = ''load_balance'' then True
                 else if p \<in> KNOWN_CANDIDATE_POLICIES then False
                 else ctx_is_load_balance ctx)"

definition select_authoritative_allocate_candidate ::
  "(nat \<Rightarrow> pyfloat) \<Rightarrow> ArbitrationContext \<Rightarrow> int \<times> int \<Rightarrow> (int \<times> int) list \<Rightarrow> PDRole \<Rightarrow> string option
   \<Rightarrow> (int \<times> int \<times> pyfloat) list \<Rightarrow> pyfloat option \<Rightarrow> pyfloat option \<Rightarrow> string option \<Rightarrow> (int \<times> int) set option \<Rightarrow> string option
   \<Rightarrow> (Instance \<times> Endpoint \<times> pyfloat) option" where
  "select_authoritative_allocate_candidate rnd ctx candidate pairs role policy affinity pscale lweight engine excluded capability =
     (let a = (if should_scan_global_load_balance ctx policy
               then select_global_load_balance_candidate rnd ctx role engine excluded capability else None);
          b = (if policy = Some ''kv_cache_affinity''
               then (if affinity \<noteq> [] then select_affinity_global ctx affinity role pscale lweight engine excluded capability
                     else if length pairs > 1 then select_lowest_load_among_candidates ctx pairs role engine capability
                     else None)
               else None);
          c = (if policy = Some ''dynamic_bucket''
               then select_lightest_dynamic_bucket_candidate ctx pairs role engine excluded capability else None)
      in case a of
           Some x \<Rightarrow> Some x
         | None \<Rightarrow> (case b of
                     Some x \<Rightarrow> Some x
                   | None \<Rightarrow> (case c of
                               Some x \<Rightarrow> Some x
                             | None \<Rightarrow> select_valid_candidate ctx candidate role engine capability)))"

section \<open>The view of the coordinator's pools\<close>

text \<open>
  \<open>get_available_instances(role)\<close> of the coordinator's pools, with the objects the references denote,
  and the context a worker arbitrates in.
\<close>

definition pool_view :: "InstancePools \<Rightarrow> PDRole \<Rightarrow> (int, Instance) dict" where
  "pool_view s role = map (\<lambda>(i, r). (i, obj s r)) (co_get_available_instances (Some role) s)"

definition pool_context :: "InstancePools \<Rightarrow> (int \<Rightarrow> bool) \<Rightarrow> pyfloat \<Rightarrow> bool \<Rightarrow> kv_usage option \<Rightarrow> ArbitrationContext" where
  "pool_context s circuit_open weight lb kv =
     \<lparr>ctx_available = pool_view s, ctx_circuit_open = circuit_open, ctx_score_weight = weight,
      ctx_is_load_balance = lb, ctx_kv_usage = kv\<rparr>"

text \<open>
  A sequence of requests, each with its key, answered one after the other; and what was answered
  for one key.
\<close>

fun serve :: "('k \<Rightarrow> 's \<Rightarrow> 's \<times> 'a option) \<Rightarrow> 'k list \<Rightarrow> 's \<Rightarrow> ('k \<times> 'a option) list" where
  "serve pick [] s = []"
| "serve pick (k # ks) s = (let (s', x) = pick k s in (k, x) # serve pick ks s')"

definition answers_for :: "'k \<Rightarrow> ('k \<times> 'a option) list \<Rightarrow> 'a option list" where
  "answers_for k xs = map snd (filter (\<lambda>x. fst x = k) xs)"

abbreviation counter_of :: "'k \<Rightarrow> ('k, int) dict \<Rightarrow> int" where
  "counter_of k d \<equiv> (case dict_get d k of Some c \<Rightarrow> c | None \<Rightarrow> 0)"

abbreviation dflt :: "pyfloat option \<Rightarrow> pyfloat" where
  "dflt x \<equiv> (case x of Some y \<Rightarrow> y | None \<Rightarrow> 1)"

text \<open>
  The candidates each policy may choose from: those a scan of the pool admits, those of the affinity
  list, and those of the bucket.
\<close>

definition lb_candidates :: "ArbitrationContext \<Rightarrow> PDRole \<Rightarrow> string option \<Rightarrow> string option \<Rightarrow> (int \<times> int) set option \<Rightarrow> (Instance \<times> Endpoint) set" where
  "lb_candidates ctx role engine capability excluded =
     {(ins, ep). ins \<in> set (dict_values (ctx_available ctx role)) \<and> ep \<in> set (eps_of ins) \<and>
        matches_engine_type ins engine \<and> matches_dispatch_capability ins capability \<and>
        \<not> ctx_circuit_open ctx (ins_id ins) \<and> not_excluded excluded (ins_id ins, ep_id ep)}"

definition affinity_valid ::
  "ArbitrationContext \<Rightarrow> PDRole \<Rightarrow> string option \<Rightarrow> string option \<Rightarrow> (int \<times> int) set option \<Rightarrow> (int \<times> int \<times> pyfloat) list
   \<Rightarrow> (Instance \<times> Endpoint \<times> pyfloat) set" where
  "affinity_valid ctx role engine capability excluded cands =
     {(ins, ep, cost). \<exists>i e. (i, e, cost) \<in> set cands \<and> not_excluded excluded (i, e) \<and>
        valid_pair ctx role engine capability (i, e) = Some (ins, ep)}"

definition bucket_valid ::
  "ArbitrationContext \<Rightarrow> PDRole \<Rightarrow> string option \<Rightarrow> string option \<Rightarrow> (int \<times> int) set option \<Rightarrow> (int \<times> int) list \<Rightarrow> (Instance \<times> Endpoint) set" where
  "bucket_valid ctx role engine capability excluded pairs =
     {x. \<exists>pair \<in> set pairs. not_excluded excluded pair \<and> valid_pair ctx role engine capability pair = Some x}"

definition global_score :: "ArbitrationContext \<Rightarrow> PDRole \<Rightarrow> Instance \<Rightarrow> Endpoint \<Rightarrow> pyfloat" where
  "global_score ctx role ins ep =
     (if role = ROLE_D \<and> ctx_kv_usage ctx \<noteq> None
      then apply_kv_usage_penalty (fresh_score ctx ins ep) ins ep (the (ctx_kv_usage ctx)) None
      else fresh_score ctx ins ep)"

text \<open>
  The pool of the demonstration with load on endpoint 0.
\<close>

definition demo_busy :: InstancePools where
  "demo_busy = foldl pool_step (InstancePools_init False) [demo_add, Pool_workload 7 0 \<lparr>active_tokens = 12\<rparr>]"

section \<open>Scans\<close>

text \<open>
  \<open>affinity_loop\<close> is a scan for the least over the valid candidates, by combined cost and then prefill cost.
\<close>

lemma affinity_loop_scan:
  "affinity_loop ctx role engine capability excluded pscale lweight best cands =
   min_scan (\<lambda>(ins, ep, combined, cost). (combined, cost)) best
     (List.map_filter (\<lambda>(i, e, cost).
        if not_excluded excluded (i, e)
        then map_option (\<lambda>(ins, ep). (ins, ep, pscale * cost + lweight * fresh_score ctx ins ep, cost))
               (valid_pair ctx role engine capability (i, e))
        else None) cands)"
proof (induction cands arbitrary: best)
  case (Cons c cands)
  obtain i e cost where c: "c = (i, e, cost)" by (cases c) auto
  show ?case
    by (cases "valid_pair ctx role engine capability (i, e)")
      (auto simp: c Cons.IH List.map_filter_simps Let_def split: option.splits)
qed (simp add: List.map_filter_simps)

section \<open>The endpoints a policy sees\<close>

lemma eps_of_subset: "set (eps_of ins) \<subseteq> set (all_eps ins)"
proof
  fix ep assume "ep \<in> set (eps_of ins)"
  then consider p where "deref ins p = Some ep" | p where "(p, ep) \<in> set (scan_endpoints False ins)"
    by (auto simp: eps_of_def get_all_endpoints_def set_map_filter split: option.splits if_splits)
  then show "ep \<in> set (all_eps ins)"
  proof cases
    case 1
    then show ?thesis by (force simp: deref_def all_eps_def split: option.splits dest!: map_of_SomeD)
  next
    case 2
    then show ?thesis by (auto simp: scan_endpoints_def map_snd_ep_entries[symmetric] rev_image_eqI)
  qed
qed

lemma set_collect:
  "(ins, ep) \<in> set (collect_candidates instances is_blocked excluded) \<longleftrightarrow>
   ins \<in> set instances \<and> ep \<in> set (eps_of ins) \<and>
   \<not> (case is_blocked of Some f \<Rightarrow> f (ins_id ins) | None \<Rightarrow> False) \<and> not_excluded excluded (ins_id ins, ep_id ep)"
  by (auto simp: collect_candidates_def not_excluded_def split: option.splits)

section \<open>Best candidates\<close>

text \<open>
  What taking the \<open>k\<close> smallest does, for any key.
\<close>

lemma smallest_k:
  assumes "S = sort_key f xs"
  shows "sorted (map f (take k S))" "mset (take k S) + mset (drop k S) = mset xs"
    "x \<in> set (take k S) \<Longrightarrow> y \<in> set (drop k S) \<Longrightarrow> f x \<le> f y"
proof -
  have s: "sorted (map f (take k S @ drop k S))" using assms by simp
  then show "sorted (map f (take k S))" "x \<in> set (take k S) \<Longrightarrow> y \<in> set (drop k S) \<Longrightarrow> f x \<le> f y"
    unfolding map_append sorted_append by auto
  show "mset (take k S) + mset (drop k S) = mset xs"
    unfolding mset_append[symmetric] append_take_drop_id using assms by simp
qed

lemma map_enumerate: "map (\<lambda>(j, c). (g c, h j, c)) (enumerate n (map q xs)) = map (\<lambda>(j, x). (g (q x), h j, q x)) (enumerate n xs)"
  by (induction xs arbitrary: n) simp_all

lemma sorted_fst: "sorted (map (\<lambda>(s, r, c). (s, r)) xs) \<Longrightarrow> sorted (map fst xs)"
  by (induction xs) (fastforce simp: less_eq_prod_def)+

lemma candidates_spec:
  fixes instances weight exclude_highest provider
  defines "sc \<equiv> \<lambda>(ins, ep). candidate_score weight exclude_highest provider ins ep"
  assumes R: "R = select_endpoint_candidates_from_list rnd instances k weight is_blocked excluded exclude_highest provider"
    and k: "0 < k"
  shows "\<exists>rest. mset (map (\<lambda>c. (cand_instance c, cand_endpoint c)) R) + mset rest = mset (collect_candidates instances is_blocked excluded) \<and>
    length R = min (nat k) (length (collect_candidates instances is_blocked excluded)) \<and> sorted (map cand_score R) \<and>
    (\<forall>c \<in> set R. cand_score c = sc (cand_instance c, cand_endpoint c)) \<and> (\<forall>c \<in> set R. \<forall>x \<in> set rest. cand_score c \<le> sc x)"
proof -
  let ?E = "collect_candidates instances is_blocked excluded"
  define mk where "mk = (\<lambda>(ins, ep). \<lparr>cand_instance = ins, cand_endpoint = ep, cand_score = sc (ins, ep)\<rparr>)"
  define pair where "pair = (\<lambda>c :: EndpointCandidate. (cand_instance c, cand_endpoint c))"
  let ?key = "\<lambda>(s, r, c). (s, r)"
  define scored where "scored = map (\<lambda>(j, x). (sc x, rnd j, mk x)) (enumerate 0 ?E)"
  define S where "S = sort_key ?key scored"
  have pm: "pair (mk x) = x" "cand_score (mk x) = sc x" for x by (simp_all add: pair_def mk_def split: prod.split)
  have "map (\<lambda>(j, c). (cand_score c, rnd j, c)) (enumerate 0 (map mk ?E)) = scored"
    by (simp add: map_enumerate scored_def pm)
  moreover have "mk = (\<lambda>(ins, ep). \<lparr>cand_instance = ins, cand_endpoint = ep,
      cand_score = candidate_score weight exclude_highest provider ins ep\<rparr>)" by (simp add: mk_def sc_def)
  moreover have "S = []" if "instances = []" using that by (simp add: S_def scored_def collect_candidates_def)
  ultimately have R': "R = map (\<lambda>(s, r, c). c) (take (nat k) S)"
    using k R unfolding select_endpoint_candidates_from_list_def S_def Let_def by auto
  note small = smallest_k[OF S_def, where k = "nat k"]
  have el: "\<exists>y. x = (sc y, r, mk y)" if "x = (s, r, c)" "x \<in> set S" for x s r c using that by (auto simp: S_def scored_def)
  let ?rest = "map (\<lambda>(s, r, c). pair c) (drop (nat k) S)"
  have "mset (map (\<lambda>(s, r, c). pair c) (take (nat k) S)) + mset ?rest = image_mset (\<lambda>(s, r, c). pair c) (mset scored)"
    unfolding mset_map image_mset_union[symmetric] small(2) ..
  also have "\<dots> = mset ?E"
    using map_snd_enumerate[of 0 ?E] unfolding mset_map[symmetric] scored_def map_map
    by (simp add: pm o_def case_prod_unfold)
  finally have 1: "mset (map pair R) + mset ?rest = mset ?E" by (simp add: R' case_prod_unfold o_def)
  have 2: "length R = min (nat k) (length ?E)" by (simp add: R' S_def scored_def)
  have fst: "map cand_score R = map fst (take (nat k) S)"
    unfolding R' by (auto dest!: in_set_takeD el[OF refl] simp: pm)
  then have 3: "sorted (map cand_score R)" using sorted_fst[OF small(1)] by simp
  have 4: "\<forall>c \<in> set R. cand_score c = sc (pair c)"
    unfolding R' by (auto dest!: in_set_takeD el[OF refl] simp: pm)
  have 5: "cand_score c \<le> sc x" if cx: "c \<in> set R" "x \<in> set ?rest" for c x
  proof -
    obtain s r where a: "(s, r, c) \<in> set (take (nat k) S)" using cx(1) by (auto simp: R')
    obtain s' r' c' where b: "(s', r', c') \<in> set (drop (nat k) S)" "x = pair c'" using cx(2) by auto
    obtain y z where "s = sc y" "c = mk y" "s' = sc z" "c' = mk z"
      using el[OF refl in_set_takeD[OF a]] el[OF refl in_set_dropD[OF b(1)]] by auto
    then show ?thesis using small(3)[OF a b(1)] b(2) by (auto simp: pm less_eq_prod_def)
  qed
  show ?thesis using 1 2 3 4 5 unfolding pair_def by blast
qed

section \<open>Rotation\<close>

lemma mset_rotate: "mset (rotate n xs) = mset xs"
  by (metis append_take_drop_id mset_append rotate_drop_take union_commute)

text \<open>
  A policy that answers requests with keys: for each key it walks through a fixed list of items with
  a counter of its own. Whatever requests for other keys come in between, every full window of
  answers for one key has each of its items exactly once.
\<close>

locale rotation =
  fixes pick :: "'k \<Rightarrow> 's \<Rightarrow> 's \<times> 'a option"
    and items :: "'k \<Rightarrow> 'a list"
    and counter :: "'k \<Rightarrow> 's \<Rightarrow> int"
  assumes pick_item: "items k \<noteq> [] \<Longrightarrow> snd (pick k s) = Some (items k ! nat (counter k s mod int (length (items k))))"
    and pick_counter: "items k \<noteq> [] \<Longrightarrow> counter k (fst (pick k s)) mod int (length (items k)) = (counter k s + 1) mod int (length (items k))"
    and pick_other: "k' \<noteq> k \<Longrightarrow> counter k' (fst (pick k s)) = counter k' s"
begin

lemma answers_rotate:
  assumes "items k \<noteq> []"
  shows "answers_for k (serve pick ks s) =
    map (\<lambda>j. Some (items k ! nat ((counter k s + int j) mod int (length (items k))))) [0..<count_list ks k]"
proof (induction ks arbitrary: s)
  case (Cons k' ks)
  let ?n = "int (length (items k))"
  obtain s' x where p: "pick k' s = (s', x)" by fastforce
  show ?case
  proof (cases "k' = k")
    case True
    have "(counter k s' + int j) mod ?n = (counter k s + int (Suc j)) mod ?n" for j
      using pick_counter[OF assms, of s] p True
      by (metis (no_types, lifting) add.assoc add.commute fst_conv mod_add_left_eq of_nat_Suc)
    then show ?thesis
      using pick_item[OF assms, of s] p True Cons.IH[of s']
      by (simp add: answers_for_def map_upt_Suc del: upt_Suc of_nat_Suc)
  next
    case False
    then show ?thesis using pick_other[of k k' s] p Cons.IH[of s'] by (simp add: answers_for_def)
  qed
qed (simp add: answers_for_def)

lemma window_fair:
  assumes "items k \<noteq> []" and m: "m + length (items k) \<le> length (answers_for k (serve pick ks s))"
  shows "mset (take (length (items k)) (drop m (answers_for k (serve pick ks s)))) = mset (map Some (items k))"
proof -
  let ?xs = "items k" let ?n = "length ?xs" let ?c = "counter k s + int m"
  define r where "r = nat (?c mod int ?n)"
  have n: "0 < int ?n" using assms(1) by simp
  have r: "r < ?n" "int r = ?c mod int ?n" using n by (simp_all add: r_def nat_less_iff)
  have idx: "nat ((?c + int j) mod int ?n) = (r + j) mod ?n" for j
    by (metis mod_add_left_eq nat_int of_nat_add r(2) zmod_int)
  have "take ?n (drop m (answers_for k (serve pick ks s))) = map (\<lambda>j. Some (?xs ! nat ((?c + int j) mod int ?n))) [0..<?n]"
    using m by (intro nth_equalityI) (simp_all add: answers_rotate[OF assms(1)] add.assoc)
  also have "\<dots> = map Some (rotate r ?xs)"
    by (intro nth_equalityI) (simp_all add: idx nth_rotate)
  finally show ?thesis by (simp add: mset_rotate)
qed

end

lemma rr_select_instance_eq:
  assumes "active \<noteq> []"
  shows "rr_select_instance active role p =
    (p\<lparr>instance_rr_counters := dict_set role ((counter_of role (instance_rr_counters p) + 1) mod int (length active)) (instance_rr_counters p)\<rparr>,
     Some (active ! nat (counter_of role (instance_rr_counters p) mod int (length active))))"
  using assms by (auto simp: rr_select_instance_def rr_select_instance_from_list_def Let_def split: option.split)

lemma rr_select_endpoint_eq:
  assumes "eps_of ins \<noteq> []"
  shows "rr_select_endpoint ins p =
    (p\<lparr>endpoint_rr_counters := dict_set (ins_id ins)
        ((counter_of (ins_id ins) (endpoint_rr_counters p) + 1) mod int (length (eps_of ins))) (endpoint_rr_counters p)\<rparr>,
     Some (eps_of ins ! nat (counter_of (ins_id ins) (endpoint_rr_counters p) mod int (length (eps_of ins)))))"
  using assms by (auto simp: rr_select_endpoint_def rr_select_endpoint_from_instance_def Let_def split: option.split)

interpretation rr_instances: rotation "\<lambda>role. rr_select_instance (pools role) role" pools
  "\<lambda>role p. counter_of role (instance_rr_counters p)" for pools
proof
  fix k :: "PDRole option" and k' s assume "k' \<noteq> k"
  then show "counter_of k' (instance_rr_counters (fst (rr_select_instance (pools k) k s))) = counter_of k' (instance_rr_counters s)"
    by (cases "pools k = []") (simp_all add: rr_select_instance_eq, simp add: rr_select_instance_def)
qed (simp_all add: rr_select_instance_eq)

text \<open>
  The endpoint counters are kept by instance ID: \<open>inst\<close> gives the instance of an ID.
\<close>

interpretation rr_endpoints: rotation "\<lambda>i. rr_select_endpoint ((inst i)\<lparr>ins_id := i\<rparr>)" "\<lambda>i. eps_of ((inst i)\<lparr>ins_id := i\<rparr>)"
  "\<lambda>i p. counter_of i (endpoint_rr_counters p)" for inst
proof
  fix k k' :: int and s assume "k' \<noteq> k"
  then show "counter_of k' (endpoint_rr_counters (fst (rr_select_endpoint ((inst k)\<lparr>ins_id := k\<rparr>) s))) = counter_of k' (endpoint_rr_counters s)"
    by (cases "eps_of ((inst k)\<lparr>ins_id := k\<rparr>) = []") (simp_all add: rr_select_endpoint_eq, simp add: rr_select_endpoint_def)
qed (simp_all add: rr_select_endpoint_eq)

section \<open>Arbitration over a provider of instances\<close>

text \<open>
  What arbitration relies on: the provider's dictionary for a role has the instances of that role,
  each under its own ID.
\<close>

locale instance_provider =
  fixes avail :: "'s \<Rightarrow> PDRole \<Rightarrow> (int, Instance) dict"
    and invar :: "'s \<Rightarrow> bool"
  assumes keyed: "invar s \<Longrightarrow> (i, ins) \<in> set (avail s role) \<Longrightarrow> ins_id ins = i \<and> PDRole_of (ins_role ins) = Some role"
    and distinct_keys: "invar s \<Longrightarrow> distinct (dict_keys (avail s role))"
begin

lemma lookup_iff: "invar s \<Longrightarrow> dict_get (avail s role) i = Some ins \<longleftrightarrow> (i, ins) \<in> set (avail s role)"
  by (rule dict_get_eq_iff[OF distinct_keys])

lemma valid_pair_sound:
  assumes "invar s" and "ctx_available ctx = avail s" and "valid_pair ctx role engine capability pair = Some (ins, ep)"
  shows "pair = (ins_id ins, ep_id ep) \<and> dict_get (avail s role) (ins_id ins) = Some ins \<and> ep \<in> set (all_eps ins) \<and>
    \<not> ctx_circuit_open ctx (ins_id ins) \<and> matches_engine_type ins engine \<and> matches_dispatch_capability ins capability"
proof -
  obtain i e where pair: "pair = (i, e)" by fastforce
  from assms(3) have v: "\<not> ctx_circuit_open ctx i" "find_available_instance_endpoint ctx i e = Some (ins, ep)"
    "matches_engine_type ins engine" "matches_dispatch_capability ins capability" "role_of_instance ins = role"
    by (auto simp: pair valid_pair_def split: if_splits option.splits)
  from v(2) have "(ins, ep) \<in> set (List.map_filter (find_in_role ctx i e) [ROLE_E, ROLE_P, ROLE_D, ROLE_U])"
    by (auto simp: find_available_instance_endpoint_def split: list.splits)
  then obtain role' where "find_in_role ctx i e role' = Some (ins, ep)" unfolding set_map_filter by blast
  then have f: "dict_get (avail s role') i = Some ins" "find (\<lambda>ep. ep_id ep = e) (all_eps ins) = Some ep"
    using assms(2) by (auto simp: find_in_role_def split: option.splits)
  have k: "ins_id ins = i" "PDRole_of (ins_role ins) = Some role'"
    using keyed[OF assms(1)] f(1) lookup_iff[OF assms(1)] by blast+
  then have "role' = role" using v(5) by (simp add: role_of_instance_def)
  moreover have "ep \<in> set (all_eps ins)" "ep_id ep = e" using f(2) by (auto simp: find_Some_iff)
  ultimately show ?thesis using v f(1) k(1) pair by simp
qed

end

interpretation pool_provider: instance_provider pool_view pools_ok
proof
  fix s role assume ok: "pools_ok s"
  then have d: "distinct (dict_keys (role_pools s role))" and v: "\<And>i. dict_get (role_pools s role) i = role_view s role i"
    unfolding pools_ok_def by blast+
  show "distinct (dict_keys (pool_view s role))"
    using d by (simp add: pool_view_def co_get_available_instances_def comp_def case_prod_unfold)
  fix i ins assume "(i, ins) \<in> set (pool_view s role)"
  then obtain r where r: "(i, r) \<in> set (role_pools s role)" "ins = obj s r"
    by (auto simp: pool_view_def co_get_available_instances_def)
  then have "role_view s role i = Some r" using v[of i] dict_get_eq_iff[OF d, of i r] by simp
  then have "dict_get (available_pool s) i = Some r" "PDRole_of (ins_role (obj s r)) = Some role"
    by (auto simp: role_view_def split: option.splits if_splits)
  then show "ins_id ins = i \<and> PDRole_of (ins_role ins) = Some role"
    using pools_ok_available(2)[OF ok] r(2) by blast
qed

lemma global_spec:
  fixes ctx role engine excluded capability
  defines "prov \<equiv> (if role = ROLE_D then ctx_kv_usage ctx else None)"
  defines "E \<equiv> collect_candidates (eligible_instances ctx role engine capability) (Some (ctx_circuit_open ctx)) excluded"
  shows "select_global_load_balance_candidate rnd ctx role engine excluded capability = None \<longleftrightarrow> E = []"
    and "select_global_load_balance_candidate rnd ctx role engine excluded capability = Some (ins, ep, score) \<Longrightarrow>
      (ins, ep) \<in> set E \<and> score = candidate_score (ctx_score_weight ctx) (prov \<noteq> None) prov ins ep \<and>
      (\<forall>(i, e) \<in> set E. score \<le> candidate_score (ctx_score_weight ctx) (prov \<noteq> None) prov i e)"
proof -
  define R where "R = select_endpoint_candidates_from_list rnd (eligible_instances ctx role engine capability) 1 (ctx_score_weight ctx)
    (Some (ctx_circuit_open ctx)) excluded (prov \<noteq> None) prov"
  have g: "select_global_load_balance_candidate rnd ctx role engine excluded capability =
      (case R of [] \<Rightarrow> None | c # cs \<Rightarrow> Some (cand_instance c, cand_endpoint c, cand_score c))"
    by (cases "role = ROLE_D") (simp_all add: select_global_load_balance_candidate_def R_def prov_def)
  from candidates_spec[OF R_def] obtain rest where s:
    "mset (map (\<lambda>c. (cand_instance c, cand_endpoint c)) R) + mset rest = mset E" "length R = min 1 (length E)"
    "\<forall>c \<in> set R. cand_score c = candidate_score (ctx_score_weight ctx) (prov \<noteq> None) prov (cand_instance c) (cand_endpoint c)"
    "\<forall>c \<in> set R. \<forall>(i, e) \<in> set rest. cand_score c \<le> candidate_score (ctx_score_weight ctx) (prov \<noteq> None) prov i e"
    unfolding E_def by force
  show "select_global_load_balance_candidate rnd ctx role engine excluded capability = None \<longleftrightarrow> E = []"
    using s(2) by (cases R; cases E) (simp_all add: g)
  assume "select_global_load_balance_candidate rnd ctx role engine excluded capability = Some (ins, ep, score)"
  then obtain c cs where c: "R = c # cs" "ins = cand_instance c" "ep = cand_endpoint c" "score = cand_score c"
    by (auto simp: g split: list.splits)
  then have "R = [c]" using s(2) by (cases cs) auto
  then have "set E = insert (ins, ep) (set rest)" using arg_cong[OF s(1), of set_mset] c by simp
  then show "(ins, ep) \<in> set E \<and> score = candidate_score (ctx_score_weight ctx) (prov \<noteq> None) prov ins ep \<and>
      (\<forall>(i, e) \<in> set E. score \<le> candidate_score (ctx_score_weight ctx) (prov \<noteq> None) prov i e)"
    using s(3,4) c by auto
qed

lemma affinity_spec:
  assumes "select_affinity_global ctx cands role pscale lweight engine excluded capability = Some (ins, ep, score)"
  shows "\<exists>i e cost. (i, e, cost) \<in> set cands \<and> not_excluded excluded (i, e) \<and> valid_pair ctx role engine capability (i, e) = Some (ins, ep) \<and>
    score = dflt pscale * cost + dflt lweight * fresh_score ctx ins ep \<and>
    (\<forall>(i', e', cost') \<in> set cands. not_excluded excluded (i', e') \<longrightarrow>
       (\<forall>ins' ep'. valid_pair ctx role engine capability (i', e') = Some (ins', ep') \<longrightarrow>
          (score, cost) \<le> (dflt pscale * cost' + dflt lweight * fresh_score ctx ins' ep', cost')))"
proof -
  let ?v = "\<lambda>(i, e, cost). if not_excluded excluded (i, e)
        then map_option (\<lambda>(ins, ep). (ins, ep, dflt pscale * cost + dflt lweight * fresh_score ctx ins ep, cost))
               (valid_pair ctx role engine capability (i, e)) else None"
  let ?key = "\<lambda>(ins :: Instance, ep :: Endpoint, combined :: pyfloat, cost :: pyfloat). (combined, cost)"
  obtain cost where m: "min_scan ?key None (List.map_filter ?v cands) = Some (ins, ep, score, cost)"
    using assms by (auto simp: select_affinity_global_def affinity_loop_scan Let_def)
  obtain c where c: "c \<in> set cands" "?v c = Some (ins, ep, score, cost)"
    using min_scan_least(1)[OF m] unfolding set_map_filter by blast
  have "(score, cost) \<le> (dflt pscale * cost' + dflt lweight * fresh_score ctx ins' ep', cost')"
    if "(i', e', cost') \<in> set cands" "not_excluded excluded (i', e')" "valid_pair ctx role engine capability (i', e') = Some (ins', ep')"
    for i' e' cost' ins' ep'
  proof -
    have "?v (i', e', cost') = Some (ins', ep', dflt pscale * cost' + dflt lweight * fresh_score ctx ins' ep', cost')"
      using that by simp
    then have "(ins', ep', dflt pscale * cost' + dflt lweight * fresh_score ctx ins' ep', cost') \<in> set (List.map_filter ?v cands)"
      using that(1) unfolding set_map_filter by blast
    from min_scan_least(2)[OF m this] show ?thesis by simp
  qed
  moreover obtain i e k where k: "c = (i, e, k)" by (cases c)
  with c(2) have n: "not_excluded excluded (i, e)" by (simp only: prod.case split: if_splits) simp
  with c(2) k obtain x where "valid_pair ctx role engine capability (i, e) = Some x" "(ins, ep) = x" "k = cost"
    "score = dflt pscale * cost + dflt lweight * fresh_score ctx ins ep" by (simp only: prod.case if_True) auto
  ultimately show ?thesis using c(1) k n by blast
qed

lemma lowest_load_spec:
  assumes "select_lowest_load_among_candidates ctx pairs role engine capability = Some (ins, ep, score)"
  shows "\<exists>pair \<in> set pairs. valid_pair ctx role engine capability pair = Some (ins, ep)" "score = fresh_score ctx ins ep"
    "pair \<in> set pairs \<Longrightarrow> valid_pair ctx role engine capability pair = Some (ins', ep') \<Longrightarrow> score \<le> fresh_score ctx ins' ep'"
proof -
  note m = assms[unfolded select_lowest_load_among_candidates_def]
  show "\<exists>pair \<in> set pairs. valid_pair ctx role engine capability pair = Some (ins, ep)" "score = fresh_score ctx ins ep"
    using min_scan_least(1)[OF m] unfolding scored_pairs_def set_map set_map_filter by auto
  show "score \<le> fresh_score ctx ins' ep'" if "pair \<in> set pairs" "valid_pair ctx role engine capability pair = Some (ins', ep')"
  proof -
    have "(ins', ep', fresh_score ctx ins' ep') \<in> set (scored_pairs ctx role engine capability pairs)"
      using that unfolding scored_pairs_def set_map set_map_filter by force
    from min_scan_least(2)[OF m this] show ?thesis by simp
  qed
qed

lemma bucket_spec:
  assumes "select_lightest_dynamic_bucket_candidate ctx pairs role engine excluded capability = Some (ins, ep, score)"
  shows "\<exists>pair \<in> set pairs. not_excluded excluded pair \<and> valid_pair ctx role engine capability pair = Some (ins, ep)"
    "score = active_tokens (ep_workload ep)"
    "pair \<in> set pairs \<Longrightarrow> not_excluded excluded pair \<Longrightarrow> valid_pair ctx role engine capability pair = Some (ins', ep') \<Longrightarrow>
       (score, ins_id ins, ep_id ep) \<le> (active_tokens (ep_workload ep'), ins_id ins', ep_id ep')"
proof -
  let ?key = "\<lambda>(ins, ep). (active_tokens (ep_workload ep), ins_id ins, ep_id ep)"
  have m: "min_scan ?key None (List.map_filter (valid_pair ctx role engine capability) (filter (not_excluded excluded) pairs)) = Some (ins, ep)"
    and sc: "score = active_tokens (ep_workload ep)"
    using assms by (auto simp: select_lightest_dynamic_bucket_candidate_def)
  show "\<exists>pair \<in> set pairs. not_excluded excluded pair \<and> valid_pair ctx role engine capability pair = Some (ins, ep)" "score = active_tokens (ep_workload ep)"
    using min_scan_least(1)[OF m] sc unfolding set_map_filter by auto
  show "(score, ins_id ins, ep_id ep) \<le> (active_tokens (ep_workload ep'), ins_id ins', ep_id ep')"
    if "pair \<in> set pairs" "not_excluded excluded pair" "valid_pair ctx role engine capability pair = Some (ins', ep')"
  proof -
    have "(ins', ep') \<in> set (List.map_filter (valid_pair ctx role engine capability) (filter (not_excluded excluded) pairs))"
      using that unfolding set_map_filter set_filter by blast
    from min_scan_least(2)[OF m this] sc show ?thesis by simp
  qed
qed

context instance_provider
begin

lemma arbitration_sound:
  assumes i: "invar s" and a: "ctx_available ctx = avail s"
    and sel: "select_authoritative_allocate_candidate rnd ctx candidate pairs role policy affinity pscale lweight engine excluded capability = Some (ins, ep, score)"
  shows "dict_get (avail s role) (ins_id ins) = Some ins \<and> ep \<in> set (all_eps ins) \<and>
    \<not> ctx_circuit_open ctx (ins_id ins) \<and> matches_engine_type ins engine \<and> matches_dispatch_capability ins capability"
proof -
  from sel consider "select_global_load_balance_candidate rnd ctx role engine excluded capability = Some (ins, ep, score)"
    | "select_affinity_global ctx affinity role pscale lweight engine excluded capability = Some (ins, ep, score)"
    | "select_lowest_load_among_candidates ctx pairs role engine capability = Some (ins, ep, score)"
    | "select_lightest_dynamic_bucket_candidate ctx pairs role engine excluded capability = Some (ins, ep, score)"
    | "select_valid_candidate ctx candidate role engine capability = Some (ins, ep, score)"
    by (auto simp: select_authoritative_allocate_candidate_def Let_def split: if_splits option.splits)
  then consider "select_global_load_balance_candidate rnd ctx role engine excluded capability = Some (ins, ep, score)"
    | pair where "valid_pair ctx role engine capability pair = Some (ins, ep)"
  proof cases
    case 2
    from affinity_spec[OF this] show ?thesis using that(2) by blast
  next
    case 3
    from lowest_load_spec(1)[OF this] show ?thesis using that(2) by blast
  next
    case 4
    from bucket_spec(1)[OF this] show ?thesis using that(2) by blast
  next
    case 5
    then show ?thesis using that(2)[of candidate] by (simp add: select_valid_candidate_def split: option.splits prod.splits)
  qed (rule that(1))
  then show ?thesis
  proof cases
    case 1
    from global_spec(2)[OF this] have e: "ins \<in> set (eligible_instances ctx role engine capability)" "ep \<in> set (eps_of ins)"
      "\<not> ctx_circuit_open ctx (ins_id ins)" by (simp_all add: set_collect)
    then obtain j where "(j, ins) \<in> set (avail s role)" using a by (auto simp: eligible_instances_def)
    then have "dict_get (avail s role) (ins_id ins) = Some ins" using keyed[OF i] lookup_iff[OF i] by blast
    then show ?thesis using e eps_of_subset by (auto simp: eligible_instances_def)
  next
    case 2
    then show ?thesis using valid_pair_sound[OF i a] by blast
  qed
qed

end

section \<open>Every policy picks the best of its candidates\<close>

lemma global_score_eq:
  "candidate_score (ctx_score_weight ctx) ((if role = ROLE_D then ctx_kv_usage ctx else None) \<noteq> None)
     (if role = ROLE_D then ctx_kv_usage ctx else None) = global_score ctx role"
  by (auto simp: candidate_score_def global_score_def fresh_score_def fun_eq_iff Let_def split: option.split)

lemma set_lb_candidates:
  "set (collect_candidates (eligible_instances ctx role engine capability) (Some (ctx_circuit_open ctx)) excluded) =
   lb_candidates ctx role engine capability excluded"
  by (auto simp: lb_candidates_def eligible_instances_def set_collect rev_image_eqI)

lemma global_pick:
  assumes "lb_candidates ctx role engine capability excluded \<noteq> {}"
  shows "\<exists>ins ep. select_global_load_balance_candidate rnd ctx role engine excluded capability = Some (ins, ep, global_score ctx role ins ep) \<and>
    (ins, ep) \<in> lb_candidates ctx role engine capability excluded \<and>
    (\<forall>(i, e) \<in> lb_candidates ctx role engine capability excluded. global_score ctx role ins ep \<le> global_score ctx role i e)"
proof -
  have "select_global_load_balance_candidate rnd ctx role engine excluded capability \<noteq> None"
    using global_spec(1)[of rnd ctx role engine excluded capability] assms set_lb_candidates[of ctx role engine capability excluded] by auto
  then obtain ins ep score where s: "select_global_load_balance_candidate rnd ctx role engine excluded capability = Some (ins, ep, score)" by auto
  from global_spec(2)[OF s] have "(ins, ep) \<in> lb_candidates ctx role engine capability excluded" "score = global_score ctx role ins ep"
    "\<forall>(i, e) \<in> lb_candidates ctx role engine capability excluded. score \<le> global_score ctx role i e"
    unfolding global_score_eq set_lb_candidates by blast+
  then show ?thesis using s by blast
qed

lemma affinity_pick:
  assumes "affinity_valid ctx role engine capability excluded cands \<noteq> {}"
  shows "\<exists>ins ep cost. select_affinity_global ctx cands role pscale lweight engine excluded capability =
      Some (ins, ep, dflt pscale * cost + dflt lweight * fresh_score ctx ins ep) \<and>
    (ins, ep, cost) \<in> affinity_valid ctx role engine capability excluded cands \<and>
    (\<forall>(i, e, c) \<in> affinity_valid ctx role engine capability excluded cands.
       (dflt pscale * cost + dflt lweight * fresh_score ctx ins ep, cost) \<le> (dflt pscale * c + dflt lweight * fresh_score ctx i e, c))"
proof -
  obtain ins ep cost i e where v: "(i, e, cost) \<in> set cands" "not_excluded excluded (i, e)"
    "valid_pair ctx role engine capability (i, e) = Some (ins, ep)" using assms by (auto simp: affinity_valid_def)
  have "select_affinity_global ctx cands role pscale lweight engine excluded capability \<noteq> None"
  proof
    assume "select_affinity_global ctx cands role pscale lweight engine excluded capability = None"
    then have "set (List.map_filter (\<lambda>(i, e, cost). if not_excluded excluded (i, e)
        then map_option (\<lambda>(ins, ep). (ins, ep, dflt pscale * cost + dflt lweight * fresh_score ctx ins ep, cost))
               (valid_pair ctx role engine capability (i, e)) else None) cands) = {}"
      unfolding select_affinity_global_def Let_def affinity_loop_scan option.map_disc_iff min_scan_None_iff by simp
    then show False using v unfolding set_map_filter by force
  qed
  then obtain ins ep score where s: "select_affinity_global ctx cands role pscale lweight engine excluded capability = Some (ins, ep, score)" by auto
  from affinity_spec[OF s] show ?thesis unfolding s affinity_valid_def by blast
qed

lemma bucket_pick:
  assumes "bucket_valid ctx role engine capability excluded pairs \<noteq> {}"
  shows "\<exists>ins ep. select_lightest_dynamic_bucket_candidate ctx pairs role engine excluded capability =
      Some (ins, ep, active_tokens (ep_workload ep)) \<and> (ins, ep) \<in> bucket_valid ctx role engine capability excluded pairs \<and>
    (\<forall>(i, e) \<in> bucket_valid ctx role engine capability excluded pairs.
       (active_tokens (ep_workload ep), ins_id ins, ep_id ep) \<le> (active_tokens (ep_workload e), ins_id i, ep_id e))"
proof -
  have "set (List.map_filter (valid_pair ctx role engine capability) (filter (not_excluded excluded) pairs)) =
      bucket_valid ctx role engine capability excluded pairs"
    unfolding bucket_valid_def set_map_filter set_filter by blast
  then have "select_lightest_dynamic_bucket_candidate ctx pairs role engine excluded capability \<noteq> None"
    using assms unfolding select_lightest_dynamic_bucket_candidate_def option.map_disc_iff min_scan_None_iff by auto
  then obtain ins ep score where s: "select_lightest_dynamic_bucket_candidate ctx pairs role engine excluded capability = Some (ins, ep, score)" by auto
  note b = bucket_spec[OF s]
  have "(ins, ep) \<in> bucket_valid ctx role engine capability excluded pairs" using b(1) unfolding bucket_valid_def by blast
  moreover have "\<forall>(i, e) \<in> bucket_valid ctx role engine capability excluded pairs.
      (score, ins_id ins, ep_id ep) \<le> (active_tokens (ep_workload e), ins_id i, ep_id e)"
    unfolding bucket_valid_def by clarify (rule b(3))
  ultimately show ?thesis using s b(2) by blast
qed

section \<open>Properties\<close>

text \<open>
  The candidate selection returns the best candidates. With \<open>E\<close> the endpoints of instances that
  are neither blocked nor excluded, the answer has \<open>min k |E|\<close> of them, each with its score, in
  ascending order, and no endpoint left out scores lower than one returned, whatever tie-breakers
  are drawn.
\<close>

theorem candidates_are_best:
  assumes "0 < k"
    and "R = select_endpoint_candidates_from_list rnd instances k weight is_blocked excluded exclude_highest provider"
    and "E = collect_candidates instances is_blocked excluded"
  shows "length R = min (nat k) (length E) \<and> sorted (map cand_score R) \<and>
    (\<forall>c \<in> set R. cand_score c = candidate_score weight exclude_highest provider (cand_instance c) (cand_endpoint c)) \<and>
    (\<exists>rest. mset (map (\<lambda>c. (cand_instance c, cand_endpoint c)) R) + mset rest = mset E \<and>
       (\<forall>c \<in> set R. \<forall>(ins, ep) \<in> set rest. cand_score c \<le> candidate_score weight exclude_highest provider ins ep))"
proof -
  from candidates_spec[OF assms(2,1)] obtain rest where s:
    "mset (map (\<lambda>c. (cand_instance c, cand_endpoint c)) R) + mset rest = mset E" "length R = min (nat k) (length E)"
    "sorted (map cand_score R)"
    "\<forall>c \<in> set R. cand_score c = candidate_score weight exclude_highest provider (cand_instance c) (cand_endpoint c)"
    "\<forall>c \<in> set R. \<forall>(ins, ep) \<in> set rest. cand_score c \<le> candidate_score weight exclude_highest provider ins ep"
    unfolding assms(3) by force
  then show ?thesis by blast
qed

text \<open>
  C8: an allocation can always be charged. Whatever policy and candidates a worker proposes, what the
  arbitration selects over the pools of a reachable state is an available instance of the requested
  role whose circuit is closed and which has the required engine and capability; the endpoint is one
  of its endpoints, and charging it in the pools succeeds with that role.
\<close>

theorem allocation_chargeable:
  assumes "list_all legal_pool_op ops" and "s = foldl pool_step (InstancePools_init mgmt) ops"
    and "select_authoritative_allocate_candidate rnd (pool_context s circuit_open weight lb kv) candidate pairs role policy
           affinity pscale lweight engine excluded capability = Some (ins, ep, score)"
  shows "(\<exists>r. dict_get (role_pools s role) (ins_id ins) = Some r \<and> ins = obj s r) \<and> ep \<in> set (all_eps ins) \<and>
    \<not> circuit_open (ins_id ins) \<and> matches_engine_type ins engine \<and> matches_dispatch_capability ins capability \<and>
    (\<exists>s' w. update_instance_workload_sync (ins_id ins) (ep_id ep) change s = (s', Inr (Some (role, w))))"
proof -
  have ok: "pools_ok s" "heap_wf s" using pool_run.run_keeps[OF _ assms(1)] init_ok assms(2) by blast+
  have "ctx_available (pool_context s circuit_open weight lb kv) = pool_view s"
    "ctx_circuit_open (pool_context s circuit_open weight lb kv) = circuit_open" by (simp_all add: pool_context_def)
  from pool_provider.arbitration_sound[OF ok(1) this(1) assms(3)] this(2) have a:
    "dict_get (pool_view s role) (ins_id ins) = Some ins" "ep \<in> set (all_eps ins)" "\<not> circuit_open (ins_id ins)"
    "matches_engine_type ins engine" "matches_dispatch_capability ins capability" by simp_all
  obtain r where r: "dict_get (role_pools s role) (ins_id ins) = Some r" "ins = obj s r"
    using a(1) by (auto simp: pool_view_def co_get_available_instances_def map_of_map)
  have "dict_get (role_pools s role) (ins_id ins) = role_view s role (ins_id ins)" using ok(1) unfolding pools_ok_def by blast
  then have v: "dict_get (available_pool s) (ins_id ins) = Some r" "PDRole_of (ins_role (obj s r)) = Some role"
    using r(1) by (auto simp: role_view_def split: option.splits if_splits)
  have wf: "wf_endpoints (obj s r)" using ok(2) pools_ok_available(1)[OF ok(1) v(1)] by (simp add: heap_wf_def)
  have "\<exists>s' w. update_instance_workload_sync (ins_id ins) (ep_id ep) change s = (s', Inr (Some (role, w)))"
    by (cases rule: update_workload_eq[OF ok(1) v(1) wf, of "ep_id ep" change]) (use a(2) r(2) v(2) in auto)
  then show ?thesis using a r by blast
qed

text \<open>
  The arbitration is optimal and does not give up while there is a choice. With the load-balance
  policy it selects an endpoint of the least score among all that are admissible in the pool; with
  the affinity policy one of the least combined cost among the admissible proposals, and among
  those the cheapest prefill; with the bucket policy the fewest active tokens, then the smallest IDs.
\<close>

theorem arbitration_optimal:
  assumes "pick = select_authoritative_allocate_candidate rnd ctx candidate pairs role policy affinity pscale lweight engine excluded capability"
  shows "(policy = Some ''load_balance'' \<and> lb_candidates ctx role engine capability excluded \<noteq> {} \<longrightarrow>
      (\<exists>ins ep. pick = Some (ins, ep, global_score ctx role ins ep) \<and> (ins, ep) \<in> lb_candidates ctx role engine capability excluded \<and>
         (\<forall>(i, e) \<in> lb_candidates ctx role engine capability excluded. global_score ctx role ins ep \<le> global_score ctx role i e))) \<and>
    (policy = Some ''kv_cache_affinity'' \<and> affinity_valid ctx role engine capability excluded affinity \<noteq> {} \<longrightarrow>
      (\<exists>ins ep cost. pick = Some (ins, ep, dflt pscale * cost + dflt lweight * fresh_score ctx ins ep) \<and>
         (ins, ep, cost) \<in> affinity_valid ctx role engine capability excluded affinity \<and>
         (\<forall>(i, e, c) \<in> affinity_valid ctx role engine capability excluded affinity.
            (dflt pscale * cost + dflt lweight * fresh_score ctx ins ep, cost) \<le> (dflt pscale * c + dflt lweight * fresh_score ctx i e, c)))) \<and>
    (policy = Some ''dynamic_bucket'' \<and> bucket_valid ctx role engine capability excluded pairs \<noteq> {} \<longrightarrow>
      (\<exists>ins ep. pick = Some (ins, ep, active_tokens (ep_workload ep)) \<and> (ins, ep) \<in> bucket_valid ctx role engine capability excluded pairs \<and>
         (\<forall>(i, e) \<in> bucket_valid ctx role engine capability excluded pairs.
            (active_tokens (ep_workload ep), ins_id ins, ep_id ep) \<le> (active_tokens (ep_workload e), ins_id i, ep_id e))))"
    (is "?L \<and> ?A \<and> ?B")
proof (intro conjI)
  have k: "should_scan_global_load_balance ctx (Some ''load_balance'')" "\<not> should_scan_global_load_balance ctx (Some ''kv_cache_affinity'')"
    "\<not> should_scan_global_load_balance ctx (Some ''dynamic_bucket'')"
    by (simp_all add: should_scan_global_load_balance_def KNOWN_CANDIDATE_POLICIES_def)
  show ?L
  proof
    assume l: "policy = Some ''load_balance'' \<and> lb_candidates ctx role engine capability excluded \<noteq> {}"
    then have "pick = Some x" if "select_global_load_balance_candidate rnd ctx role engine excluded capability = Some x" for x
      using that k(1) by (simp add: assms select_authoritative_allocate_candidate_def)
    then show "\<exists>ins ep. pick = Some (ins, ep, global_score ctx role ins ep) \<and> (ins, ep) \<in> lb_candidates ctx role engine capability excluded \<and>
         (\<forall>(i, e) \<in> lb_candidates ctx role engine capability excluded. global_score ctx role ins ep \<le> global_score ctx role i e)"
      using global_pick[of ctx role engine capability excluded rnd] l by blast
  qed
  show ?A
  proof
    assume l: "policy = Some ''kv_cache_affinity'' \<and> affinity_valid ctx role engine capability excluded affinity \<noteq> {}"
    moreover from l have "affinity \<noteq> []" by (auto simp: affinity_valid_def)
    ultimately have "pick = Some x" if "select_affinity_global ctx affinity role pscale lweight engine excluded capability = Some x" for x
      using that k(2) by (simp add: assms select_authoritative_allocate_candidate_def)
    then show "\<exists>ins ep cost. pick = Some (ins, ep, dflt pscale * cost + dflt lweight * fresh_score ctx ins ep) \<and>
         (ins, ep, cost) \<in> affinity_valid ctx role engine capability excluded affinity \<and>
         (\<forall>(i, e, c) \<in> affinity_valid ctx role engine capability excluded affinity.
            (dflt pscale * cost + dflt lweight * fresh_score ctx ins ep, cost) \<le> (dflt pscale * c + dflt lweight * fresh_score ctx i e, c))"
      using affinity_pick[of ctx role engine capability excluded affinity pscale lweight] l by blast
  qed
  show ?B
  proof
    assume l: "policy = Some ''dynamic_bucket'' \<and> bucket_valid ctx role engine capability excluded pairs \<noteq> {}"
    then have "pick = Some x" if "select_lightest_dynamic_bucket_candidate ctx pairs role engine excluded capability = Some x" for x
      using that k(3) by (simp add: assms select_authoritative_allocate_candidate_def)
    then show "\<exists>ins ep. pick = Some (ins, ep, active_tokens (ep_workload ep)) \<and> (ins, ep) \<in> bucket_valid ctx role engine capability excluded pairs \<and>
         (\<forall>(i, e) \<in> bucket_valid ctx role engine capability excluded pairs.
            (active_tokens (ep_workload ep), ins_id ins, ep_id ep) \<le> (active_tokens (ep_workload e), ins_id i, ep_id e))"
      using bucket_pick[of ctx role engine capability excluded pairs] l by blast
  qed
qed

text \<open>
  Round robin starves nobody. However requests for different roles are interleaved, every
  \<open>n\<close> consecutive answers for a role with \<open>n\<close> instances name each of them exactly once; and however
  the picks of instances are interleaved, every \<open>m\<close> consecutive endpoint picks of an instance with
  \<open>m\<close> endpoints name each of them exactly once.
\<close>

theorem round_robin_fair:
  assumes inst: "\<forall>i. ins_id (inst i) = i"
    and A: "A = answers_for role (serve (\<lambda>role. rr_select_instance (pools role) role) roles p)"
    and B: "B = answers_for i (serve (\<lambda>i. rr_select_endpoint (inst i)) ids p)"
  shows "(\<forall>k. k + length (pools role) \<le> length A \<and> pools role \<noteq> [] \<longrightarrow>
      mset (take (length (pools role)) (drop k A)) = mset (map Some (pools role))) \<and>
    (\<forall>k. k + length (eps_of (inst i)) \<le> length B \<and> eps_of (inst i) \<noteq> [] \<longrightarrow>
      mset (take (length (eps_of (inst i))) (drop k B)) = mset (map Some (eps_of (inst i))))"
proof -
  have "(x :: Instance)\<lparr>ins_id := ins_id x\<rparr> = x" for x by simp
  then have "(inst i)\<lparr>ins_id := i\<rparr> = inst i" for i using inst by metis
  then show ?thesis
    using rr_instances.window_fair[where k = role and pools = pools and ks = roles and s = p]
      rr_endpoints.window_fair[where k = i and inst = inst and ks = ids and s = p] unfolding A B by simp
qed

section \<open>Witnesses\<close>

theorem candidates_are_best_witness:
  "length (select_endpoint_candidates_from_list (\<lambda>j. 0) [obj demo_busy 0] 1 (1 / 20) None (Some {(7, 5)}) False None) = 1"
proof -
  have "length (collect_candidates [obj demo_busy 0] None (Some {(7, 5)})) = 2" by code_simp
  with candidates_are_best[OF zero_less_one refl refl, of "\<lambda>j. 0" "[obj demo_busy 0]" "1 / 20" None "Some {(7, 5)}" False None]
  show ?thesis by simp
qed

theorem allocation_chargeable_witness:
  "\<exists>s' w. update_instance_workload_sync 7 1 \<lparr>active_tokens = 3\<rparr> demo_busy = (s', Inr (Some (ROLE_P, w)))"
proof -
  let ?sel = "select_authoritative_allocate_candidate (\<lambda>j. 0) (pool_context demo_busy (\<lambda>i. False) 0 True None) (7, 0) [] ROLE_P
    (Some ''load_balance'') [] None None None None None"
  have e: "map_option (\<lambda>(ins, ep, score). (ins_id ins, ep_id ep)) ?sel = Some (7, 1)" by code_simp
  then obtain ins ep score where s: "?sel = Some (ins, ep, score)" "ins_id ins = 7" "ep_id ep = 1" by auto
  have "list_all legal_pool_op [demo_add, Pool_workload 7 0 \<lparr>active_tokens = 12\<rparr>]"
    by (simp add: demo_add_def demo_iterates wf_endpoints_def demo_instance_def)
  from allocation_chargeable[OF this demo_busy_def s(1), of "\<lparr>active_tokens = 3\<rparr>"] s(2,3) show ?thesis by simp
qed

theorem arbitration_optimal_witness:
  "\<exists>ins ep. select_authoritative_allocate_candidate (\<lambda>j. 0) (pool_context demo_busy (\<lambda>i. False) 0 True None) (7, 0) [(7, 0), (7, 1)] ROLE_P
     (Some ''dynamic_bucket'') [] None None None None None = Some (ins, ep, active_tokens (ep_workload ep)) \<and> active_tokens (ep_workload ep) \<le> 0"
proof -
  let ?ctx = "pool_context demo_busy (\<lambda>i. False) 0 True None"
  have "map_option (\<lambda>(ins, ep). ep_workload ep) (valid_pair ?ctx ROLE_P None None (7, 1)) = Some \<lparr>active_tokens = 0\<rparr>" by code_simp
  then obtain i e where "valid_pair ?ctx ROLE_P None None (7, 1) = Some (i, e)" "active_tokens (ep_workload e) = 0" by auto
  then have v: "(i, e) \<in> bucket_valid ?ctx ROLE_P None None None [(7, 0), (7, 1)]" "active_tokens (ep_workload e) = 0"
    by (auto simp: bucket_valid_def not_excluded_def)
  let ?pick = "select_authoritative_allocate_candidate (\<lambda>j. 0) ?ctx (7, 0) [(7, 0), (7, 1)] ROLE_P (Some ''dynamic_bucket'') [] None None None None None"
  from v(1) arbitration_optimal[OF refl, where rnd = "\<lambda>j. 0" and ctx = ?ctx and candidate = "(7, 0)" and pairs = "[(7, 0), (7, 1)]"
      and role = ROLE_P and policy = "Some ''dynamic_bucket''" and affinity = "[]" and pscale = None and lweight = None and engine = None
      and excluded = None and capability = None]
  obtain ins ep where "?pick = Some (ins, ep, active_tokens (ep_workload ep))"
    "\<forall>(i, e) \<in> bucket_valid ?ctx ROLE_P None None None [(7, 0), (7, 1)].
       (active_tokens (ep_workload ep), ins_id ins, ep_id ep) \<le> (active_tokens (ep_workload e), ins_id i, ep_id e)" by blast
  then show ?thesis using v by fastforce
qed

theorem round_robin_fair_witness:
  "mset (take 2 (drop 0 (answers_for (Some ROLE_P) (serve (\<lambda>role. rr_select_instance [demo_instance 7 ''prefill'' ACTIVE, demo_instance 8 ''prefill'' ACTIVE] role)
     [Some ROLE_P, None, Some ROLE_P] RoundRobinPolicy_init)))) =
   {#Some (demo_instance 7 ''prefill'' ACTIVE), Some (demo_instance 8 ''prefill'' ACTIVE)#}"
proof -
  let ?pools = "\<lambda>role :: PDRole option. [demo_instance 7 ''prefill'' ACTIVE, demo_instance 8 ''prefill'' ACTIVE]"
  let ?A = "answers_for (Some ROLE_P) (serve (\<lambda>role. rr_select_instance (?pools role) role) [Some ROLE_P, None, Some ROLE_P] RoundRobinPolicy_init)"
  have "\<forall>i. ins_id (demo_instance i ''prefill'' ACTIVE) = i" by (simp add: demo_instance_def)
  moreover have "length ?A = 2" by (simp add: answers_for_def case_prod_unfold Let_def)
  ultimately show ?thesis
    using round_robin_fair[of "\<lambda>i. demo_instance i ''prefill'' ACTIVE", OF _ refl refl, of ?pools "Some ROLE_P" "[Some ROLE_P, None, Some ROLE_P]" RoundRobinPolicy_init]
    by (simp add: numeral_2_eq_2)
qed

end
