(* ===== verification/Port_Allocation.thy ===== *)
theory Port_Allocation
  imports Prelude
begin

text \<open>
  Port allocation at start-up, \<^verbatim>\<open>motor/common/utils/port_allocator.py\<close>.

  Whether a TCP port of a host can be bound is the argument \<open>net\<close>; the answers do not change during
  the set-up of one process. The port matrix, which is only logged, is left out, and so is the
  reachability check whose answer only goes there.
\<close>

type_synonym network = "string \<Rightarrow> int \<Rightarrow> bool"

section \<open>The allocator\<close>

definition socket_host :: "string \<Rightarrow> string" where
  "socket_host host = (if host \<noteq> [] \<and> hd host = CHR ''['' \<and> last host = CHR '']'' then butlast (tl host) else host)"

text \<open>
  \<open>socket.bind\<close> raises \<open>OverflowError\<close>, which is no \<open>OSError\<close>, on a port that is not a 16-bit number.
\<close>

definition probe_tcp :: "network \<Rightarrow> string \<Rightarrow> int \<Rightarrow> py_error + bool" where
  "probe_tcp net host port = (if 0 \<le> port \<and> port \<le> 65535 then Inr (net (socket_host host) port) else Inl OverflowError)"

definition allocate_strict :: "network \<Rightarrow> string \<Rightarrow> int \<Rightarrow> py_error + int" where
  "allocate_strict net host port =
     (case probe_tcp net host port of
        Inl e \<Rightarrow> Inl e
      | Inr free \<Rightarrow> if free then Inr port else Inl PortConflictError)"

fun scan_ports :: "network \<Rightarrow> string \<Rightarrow> int set \<Rightarrow> int list \<Rightarrow> py_error + int" where
  "scan_ports net host blocked [] = Inl PortConflictError"
| "scan_ports net host blocked (candidate # cs) =
     (if candidate \<in> blocked then scan_ports net host blocked cs
      else case probe_tcp net host candidate of
             Inl e \<Rightarrow> Inl e
           | Inr free \<Rightarrow> if free then Inr candidate else scan_ports net host blocked cs)"

definition allocate_auto :: "network \<Rightarrow> string \<Rightarrow> int \<Rightarrow> int \<Rightarrow> int set \<Rightarrow> py_error + int" where
  "allocate_auto net host port scan_range skip_ports = scan_ports net host skip_ports [port..port + scan_range - 1]"

definition allocate_auto_broadcast ::
  "network \<Rightarrow> string \<Rightarrow> int \<Rightarrow> (int \<Rightarrow> py_error + unit) \<Rightarrow> int \<Rightarrow> py_error + int" where
  "allocate_auto_broadcast net host port broadcast_fn scan_range =
     (case allocate_auto net host port scan_range {} of
        Inl e \<Rightarrow> Inl e
      | Inr chosen \<Rightarrow> (case broadcast_fn chosen of Inl e \<Rightarrow> Inl PortConflictError | Inr u \<Rightarrow> Inr chosen))"

record PortAllocatorConfig =
  pac_enable :: bool
  pac_scan_range :: int
  pac_bind_host :: string

definition maybe_strict :: "PortAllocatorConfig \<Rightarrow> network \<Rightarrow> int \<Rightarrow> py_error + int" where
  "maybe_strict pac net port = (if \<not> pac_enable pac then Inr port else allocate_strict net (pac_bind_host pac) port)"

definition maybe_auto :: "PortAllocatorConfig \<Rightarrow> network \<Rightarrow> int \<Rightarrow> int set \<Rightarrow> py_error + int" where
  "maybe_auto pac net port skip_ports =
     (if \<not> pac_enable pac then Inr port
      else allocate_auto net (pac_bind_host pac) port (pac_scan_range pac) skip_ports)"

section \<open>Coordinator and controller\<close>

text \<open>
  A configuration is updated field by field, so that an exception leaves the fields set before it.
  \<open>set_port\<close> is one such assignment.
\<close>

definition set_port :: "('c \<Rightarrow> py_error + int) \<Rightarrow> (int \<Rightarrow> 'c \<Rightarrow> 'c) \<Rightarrow> 'c \<times> (py_error + unit) \<Rightarrow> 'c \<times> (py_error + unit)" where
  "set_port alloc put s =
     (case s of
        (c, Inl e) \<Rightarrow> (c, Inl e)
      | (c, Inr u) \<Rightarrow> (case alloc c of Inl e \<Rightarrow> (c, Inl e) | Inr p \<Rightarrow> (put p c, Inr ())))"

record CoordinatorPorts =
  coordinator_api_infer_port :: int
  coordinator_api_mgmt_port :: int
  coordinator_obs_port :: int
  conductor_service :: string
  http_server_port :: int

definition apply_coordinator_ports ::
  "PortAllocatorConfig \<Rightarrow> network \<Rightarrow> CoordinatorPorts \<Rightarrow> CoordinatorPorts \<times> (py_error + unit)" where
  "apply_coordinator_ports pac net config =
     (let s1 = set_port (\<lambda>c. maybe_strict pac net (coordinator_api_infer_port c)) (\<lambda>p c. c\<lparr>coordinator_api_infer_port := p\<rparr>) (config, Inr ());
          s2 = set_port (\<lambda>c. maybe_auto pac net (coordinator_api_mgmt_port c) {}) (\<lambda>p c. c\<lparr>coordinator_api_mgmt_port := p\<rparr>) s1;
          s3 = set_port (\<lambda>c. maybe_auto pac net (coordinator_obs_port c) {}) (\<lambda>p c. c\<lparr>coordinator_obs_port := p\<rparr>) s2
      in if conductor_service config \<noteq> []
         then set_port (\<lambda>c. maybe_auto pac net (http_server_port c) {}) (\<lambda>p c. c\<lparr>http_server_port := p\<rparr>) s3
         else s3)"

record ControllerPorts =
  controller_api_port :: int
  observability_api_port :: int

definition apply_controller_ports ::
  "PortAllocatorConfig \<Rightarrow> network \<Rightarrow> ControllerPorts \<Rightarrow> ControllerPorts \<times> (py_error + unit)" where
  "apply_controller_ports pac net config =
     set_port (\<lambda>c. maybe_auto pac net (observability_api_port c) {}) (\<lambda>p c. c\<lparr>observability_api_port := p\<rparr>)
       (set_port (\<lambda>c. maybe_strict pac net (controller_api_port c)) (\<lambda>p c. c\<lparr>controller_api_port := p\<rparr>) (config, Inr ()))"

section \<open>Node manager\<close>

record NodeManagerPorts =
  node_manager_port :: int
  service_ports :: "string list"
  single_container_flag :: bool
  kv_port :: "int option"
  lookup_rpc_port :: "int option"
  dp_rpc_port :: "int option"

fun parse_ports :: "string list \<Rightarrow> py_error + int list" where
  "parse_ports [] = Inr []"
| "parse_ports (p # ps) =
     (case py_parse_int p of
        None \<Rightarrow> Inl ValueError
      | Some n \<Rightarrow> (case parse_ports ps of Inl e \<Rightarrow> Inl e | Inr ns \<Rightarrow> Inr (n # ns)))"

definition reserved_ports :: "NodeManagerPorts \<Rightarrow> int list \<Rightarrow> int set" where
  "reserved_ports c services =
     {node_manager_port c} \<union> set services \<union>
     (if single_container_flag c
      then set (filter (\<lambda>p. p \<noteq> 0) (List.map_filter (\<lambda>x. x) [kv_port c, lookup_rpc_port c, dp_rpc_port c])) else {})"

text \<open>
  The inner function \<open>_auto\<close>, which remembers what it has handed out, and its use on a list.
\<close>

definition nm_auto :: "PortAllocatorConfig \<Rightarrow> network \<Rightarrow> int set \<Rightarrow> int \<Rightarrow> int set \<Rightarrow> py_error + int \<times> int set" where
  "nm_auto pac net reserved pref allocated =
     (case maybe_auto pac net pref ((reserved - {pref}) \<union> allocated) of
        Inl e \<Rightarrow> Inl e
      | Inr p \<Rightarrow> Inr (p, insert p allocated))"

fun nm_auto_list :: "PortAllocatorConfig \<Rightarrow> network \<Rightarrow> int set \<Rightarrow> int list \<Rightarrow> int set \<Rightarrow> py_error + int list \<times> int set" where
  "nm_auto_list pac net reserved [] allocated = Inr ([], allocated)"
| "nm_auto_list pac net reserved (pref # prefs) allocated =
     (case nm_auto pac net reserved pref allocated of
        Inl e \<Rightarrow> Inl e
      | Inr (p, allocated1) \<Rightarrow>
          (case nm_auto_list pac net reserved prefs allocated1 of
             Inl e \<Rightarrow> Inl e
           | Inr (ps, allocated2) \<Rightarrow> Inr (p # ps, allocated2)))"

text \<open>
  An optional port of the single-container mode.
\<close>

definition nm_optional ::
  "PortAllocatorConfig \<Rightarrow> network \<Rightarrow> int set \<Rightarrow> (NodeManagerPorts \<Rightarrow> int option) \<Rightarrow> (int \<Rightarrow> NodeManagerPorts \<Rightarrow> NodeManagerPorts)
   \<Rightarrow> NodeManagerPorts \<times> (py_error + int set) \<Rightarrow> NodeManagerPorts \<times> (py_error + int set)" where
  "nm_optional pac net reserved get put s =
     (case s of
        (c, Inl e) \<Rightarrow> (c, Inl e)
      | (c, Inr allocated) \<Rightarrow>
          (case get c of
             None \<Rightarrow> (c, Inr allocated)
           | Some pref \<Rightarrow>
               (case nm_auto pac net reserved pref allocated of
                  Inl e \<Rightarrow> (c, Inl e)
                | Inr (p, allocated1) \<Rightarrow> (put p c, Inr allocated1))))"

definition apply_node_manager_ports ::
  "PortAllocatorConfig \<Rightarrow> network \<Rightarrow> NodeManagerPorts \<Rightarrow> NodeManagerPorts \<times> (py_error + unit)" where
  "apply_node_manager_ports pac net config =
     (case parse_ports (service_ports config) of
        Inl e \<Rightarrow> (config, Inl e)
      | Inr services \<Rightarrow>
          (let reserved = reserved_ports config services
           in case nm_auto pac net reserved (node_manager_port config) {} of
                Inl e \<Rightarrow> (config, Inl e)
              | Inr (p, allocated) \<Rightarrow>
                  (let c1 = config\<lparr>node_manager_port := p\<rparr>
                   in case nm_auto_list pac net reserved services allocated of
                        Inl e \<Rightarrow> (c1, Inl e)
                      | Inr (ps, allocated1) \<Rightarrow>
                          (let c2 = (if services = [] then c1 else c1\<lparr>service_ports := map py_str_int ps\<rparr>);
                               (c3, ans) =
                                 (if single_container_flag config
                                  then nm_optional pac net reserved dp_rpc_port (\<lambda>p c. c\<lparr>dp_rpc_port := Some p\<rparr>)
                                         (nm_optional pac net reserved lookup_rpc_port (\<lambda>p c. c\<lparr>lookup_rpc_port := Some p\<rparr>)
                                           (nm_optional pac net reserved kv_port (\<lambda>p c. c\<lparr>kv_port := Some p\<rparr>) (c2, Inr allocated1)))
                                  else (c2, Inr allocated1))
                           in (c3, map_sum id (\<lambda>a. ()) ans)))))"

text \<open>
  The allocator can bind the port.
\<close>

definition bindable :: "PortAllocatorConfig \<Rightarrow> network \<Rightarrow> int \<Rightarrow> bool" where
  "bindable pac net port \<longleftrightarrow> probe_tcp net (pac_bind_host pac) port = Inr True"

text \<open>
  All ports a node manager was given, and those it asked for, in the order of allocation.
\<close>

definition nm_ports :: "NodeManagerPorts \<Rightarrow> int list \<Rightarrow> int list" where
  "nm_ports c services = node_manager_port c # services @
     (if single_container_flag c
      then (case kv_port c of None \<Rightarrow> [] | Some p \<Rightarrow> [p]) @ (case lookup_rpc_port c of None \<Rightarrow> [] | Some p \<Rightarrow> [p]) @
           (case dp_rpc_port c of None \<Rightarrow> [] | Some p \<Rightarrow> [p])
      else [])"

text \<open>
  On the host of the demonstration port 2000 is busy.
\<close>

definition demo_pac :: PortAllocatorConfig where
  "demo_pac = \<lparr>pac_enable = True, pac_scan_range = 10, pac_bind_host = ''h''\<rparr>"

definition demo_net :: network where
  "demo_net host port \<longleftrightarrow> port \<noteq> 2000"

section \<open>One allocation\<close>

lemma scan_ports_Inr:
  assumes "scan_ports net host blocked cs = Inr p"
  shows "p \<in> set cs" "p \<notin> blocked" "probe_tcp net host p = Inr True"
    "\<And>c. cs \<noteq> [] \<Longrightarrow> c = hd cs \<Longrightarrow> probe_tcp net host c = Inr True \<Longrightarrow> c \<notin> blocked \<Longrightarrow> p = c"
  using assms by (induction cs) (auto split: if_splits sum.splits)

lemma nm_auto_Inr:
  assumes en: "pac_enable pac" and a: "nm_auto pac net reserved pref A = Inr (p, A')"
  shows "A' = insert p A" "p \<notin> A" "p \<notin> reserved - {pref}" "bindable pac net p" "pref \<le> p" "p < pref + pac_scan_range pac"
    "bindable pac net pref \<Longrightarrow> pref \<notin> A \<Longrightarrow> p = pref"
proof -
  have s: "scan_ports net (pac_bind_host pac) ((reserved - {pref}) \<union> A) [pref..pref + pac_scan_range pac - 1] = Inr p" and A: "A' = insert p A"
    using assms by (auto simp: nm_auto_def maybe_auto_def allocate_auto_def split: sum.splits)
  note n = scan_ports_Inr[OF s]
  show "A' = insert p A" "p \<notin> A" "p \<notin> reserved - {pref}" "bindable pac net p" using n(2,3) A by (simp_all add: bindable_def)
  show r: "pref \<le> p" "p < pref + pac_scan_range pac" using n(1) by auto
  have l: "[pref..pref + pac_scan_range pac - 1] = pref # [pref + 1..pref + pac_scan_range pac - 1]"
    using r by (intro upto_rec1) simp
  show "p = pref" if "bindable pac net pref" "pref \<notin> A"
    using n(4)[of pref] that unfolding l by (simp add: bindable_def)
qed

section \<open>A list of allocations\<close>

lemma nm_auto_list_append:
  "nm_auto_list pac net reserved (xs @ ys) A =
   (case nm_auto_list pac net reserved xs A of
      Inl e \<Rightarrow> Inl e
    | Inr (ps, A1) \<Rightarrow> (case nm_auto_list pac net reserved ys A1 of Inl e \<Rightarrow> Inl e | Inr (qs, A2) \<Rightarrow> Inr (ps @ qs, A2)))"
  by (induction xs arbitrary: A) (auto split: sum.splits)

lemma nm_auto_list_Inr:
  assumes "pac_enable pac" and "nm_auto_list pac net reserved prefs A = Inr (ps, A')"
  shows "length ps = length prefs \<and> distinct ps \<and> set ps \<inter> A = {} \<and>
    (\<forall>i < length prefs. bindable pac net (ps ! i) \<and> prefs ! i \<le> ps ! i \<and> ps ! i < prefs ! i + pac_scan_range pac \<and>
      (bindable pac net (prefs ! i) \<and> prefs ! i \<in> reserved \<and> prefs ! i \<notin> A \<and> prefs ! i \<notin> set (take i prefs) \<longrightarrow> ps ! i = prefs ! i))"
  using assms(2)
proof (induction prefs arbitrary: A ps)
  case (Cons pref prefs)
  from Cons.prems obtain p qs where p: "nm_auto pac net reserved pref A = Inr (p, insert p A)"
      "nm_auto_list pac net reserved prefs (insert p A) = Inr (qs, A')" "ps = p # qs"
    by (auto simp: nm_auto_def split: sum.splits)
  note n = nm_auto_Inr[OF assms(1) p(1)] and IH = Cons.IH[OF p(2)]
  have "bindable pac net (ps ! i) \<and> (pref # prefs) ! i \<le> ps ! i \<and> ps ! i < (pref # prefs) ! i + pac_scan_range pac \<and>
      (bindable pac net ((pref # prefs) ! i) \<and> (pref # prefs) ! i \<in> reserved \<and> (pref # prefs) ! i \<notin> A \<and> (pref # prefs) ! i \<notin> set (take i (pref # prefs)) \<longrightarrow>
         ps ! i = (pref # prefs) ! i)" if i: "i < length (pref # prefs)" for i
  proof (cases i)
    case 0
    then show ?thesis using n(4-7) unfolding p(3) by (simp only: nth_Cons_0) blast
  next
    case (Suc j)
    then have j: "j < length prefs" using i by simp
    have x: "prefs ! j \<notin> insert p A" if "prefs ! j \<in> reserved" "prefs ! j \<notin> A" "prefs ! j \<noteq> pref" using that n(3) by blast
    from IH j have y: "bindable pac net (qs ! j)" "prefs ! j \<le> qs ! j" "qs ! j < prefs ! j + pac_scan_range pac"
      "bindable pac net (prefs ! j) \<and> prefs ! j \<in> reserved \<and> prefs ! j \<notin> insert p A \<and> prefs ! j \<notin> set (take j prefs) \<longrightarrow> qs ! j = prefs ! j"
      by blast+
    have "qs ! j = prefs ! j" if "bindable pac net (prefs ! j)" "prefs ! j \<in> reserved" "prefs ! j \<notin> A" "prefs ! j \<notin> set (take i (pref # prefs))"
      using y(4) x that Suc by simp
    then show ?thesis using y(1-3) Suc p(3) by simp
  qed
  then show ?case using IH n(2) p(3) by simp
qed simp

lemma parse_ports_show: "parse_ports (map py_str_int ps) = Inr ps"
  by (induction ps) simp_all

lemma nm_optional_list:
  assumes "nm_optional pac net reserved get put (c, Inr A) = (c', Inr A')"
  obtains q where "nm_auto_list pac net reserved (case get c of None \<Rightarrow> [] | Some p \<Rightarrow> [p]) A =
      Inr (case q of None \<Rightarrow> [] | Some p \<Rightarrow> [p], A')" "c' = (case q of None \<Rightarrow> c | Some p \<Rightarrow> put p c)" "q = None \<longleftrightarrow> get c = None"
proof (cases "get c")
  case None
  then show ?thesis using assms by (intro that[of None]) (simp_all add: nm_optional_def)
next
  case (Some pref)
  then obtain p where "nm_auto pac net reserved pref A = Inr (p, A')" "c' = put p c"
    using assms by (auto simp: nm_optional_def split: sum.splits)
  then show ?thesis using Some by (intro that[of "Some p"]) simp_all
qed

lemma nm_optional_Inl: "nm_optional pac net reserved get put (c, Inl e) = (c, Inl e)"
  by (simp add: nm_optional_def)

text \<open>
  The whole set-up of a node manager is one list of allocations.
\<close>

lemma node_manager_list:
  assumes "apply_node_manager_ports pac net config = (config', Inr ())"
  shows "\<exists>prefs ps A. parse_ports (service_ports config) = Inr prefs \<and> parse_ports (service_ports config') = Inr ps \<and>
    nm_auto_list pac net (reserved_ports config prefs) (nm_ports config prefs) {} = Inr (nm_ports config' ps, A)"
proof -
  obtain prefs where prefs: "parse_ports (service_ports config) = Inr prefs"
    using assms by (auto simp: apply_node_manager_ports_def split: sum.splits)
  let ?R = "reserved_ports config prefs"
  obtain p A where p: "nm_auto pac net ?R (node_manager_port config) {} = Inr (p, A)"
    using assms prefs by (auto simp: apply_node_manager_ports_def Let_def split: sum.splits)
  obtain ps A1 where ps: "nm_auto_list pac net ?R prefs A = Inr (ps, A1)"
    using assms prefs p by (auto simp: apply_node_manager_ports_def Let_def split: sum.splits)
  define c2 where "c2 = (if prefs = [] then config\<lparr>node_manager_port := p\<rparr> else config\<lparr>node_manager_port := p, service_ports := map py_str_int ps\<rparr>)"
  have c2: "kv_port c2 = kv_port config" "lookup_rpc_port c2 = lookup_rpc_port config" "dp_rpc_port c2 = dp_rpc_port config"
    "single_container_flag c2 = single_container_flag config" "node_manager_port c2 = p" "parse_ports (service_ports c2) = Inr ps"
    using prefs ps by (simp_all add: c2_def parse_ports_show) (auto split: if_splits)
  have list: "nm_auto_list pac net ?R (node_manager_port config # prefs) {} = Inr (p # ps, A1)" using p ps by simp
  show ?thesis
  proof (cases "single_container_flag config")
    case False
    then have "config' = c2" using assms prefs p ps by (simp add: apply_node_manager_ports_def c2_def Let_def split: if_splits)
    then show ?thesis using False list prefs c2 by (intro exI[of _ prefs] exI[of _ ps] exI[of _ A1]) (simp add: nm_ports_def)
  next
    case True
    let ?kv = "nm_optional pac net ?R kv_port (\<lambda>p c. c\<lparr>kv_port := Some p\<rparr>) (c2, Inr A1)"
    let ?lk = "nm_optional pac net ?R lookup_rpc_port (\<lambda>p c. c\<lparr>lookup_rpc_port := Some p\<rparr>)"
    let ?dp = "nm_optional pac net ?R dp_rpc_port (\<lambda>p c. c\<lparr>dp_rpc_port := Some p\<rparr>)"
    have all: "(fst (?dp (?lk ?kv)), map_sum id (\<lambda>a. ()) (snd (?dp (?lk ?kv)))) = (config', Inr ())"
      using assms prefs p ps True unfolding apply_node_manager_ports_def c2_def case_prod_unfold Let_def by (cases "prefs = []") simp_all
    obtain c5 A5 where 5: "?dp (?lk ?kv) = (c5, Inr A5)" "config' = c5"
      using all by (cases "?dp (?lk ?kv)"; cases "snd (?dp (?lk ?kv))") auto
    obtain c4 A4 where 4: "?lk ?kv = (c4, Inr A4)"
      using 5(1) nm_optional_Inl[of pac net ?R dp_rpc_port "\<lambda>p c. c\<lparr>dp_rpc_port := Some p\<rparr>"]
      by (metis Inl_Inr_False prod.inject surj_pair sum.exhaust)
    obtain c3 A3 where 3: "?kv = (c3, Inr A3)"
      using 4 nm_optional_Inl[of pac net ?R lookup_rpc_port "\<lambda>p c. c\<lparr>lookup_rpc_port := Some p\<rparr>"]
      by (metis Inl_Inr_False prod.inject surj_pair sum.exhaust)
    obtain q3 where q3: "nm_auto_list pac net ?R (case kv_port c2 of None \<Rightarrow> [] | Some p \<Rightarrow> [p]) A1 = Inr (case q3 of None \<Rightarrow> [] | Some p \<Rightarrow> [p], A3)"
      "c3 = (case q3 of None \<Rightarrow> c2 | Some p \<Rightarrow> c2\<lparr>kv_port := Some p\<rparr>)" "q3 = None \<longleftrightarrow> kv_port c2 = None" by (rule nm_optional_list[OF 3])
    obtain q4 where q4: "nm_auto_list pac net ?R (case lookup_rpc_port c3 of None \<Rightarrow> [] | Some p \<Rightarrow> [p]) A3 = Inr (case q4 of None \<Rightarrow> [] | Some p \<Rightarrow> [p], A4)"
      "c4 = (case q4 of None \<Rightarrow> c3 | Some p \<Rightarrow> c3\<lparr>lookup_rpc_port := Some p\<rparr>)" "q4 = None \<longleftrightarrow> lookup_rpc_port c3 = None"
      by (rule nm_optional_list[OF 4[unfolded 3]])
    obtain q5 where q5: "nm_auto_list pac net ?R (case dp_rpc_port c4 of None \<Rightarrow> [] | Some p \<Rightarrow> [p]) A4 = Inr (case q5 of None \<Rightarrow> [] | Some p \<Rightarrow> [p], A5)"
      "c5 = (case q5 of None \<Rightarrow> c4 | Some p \<Rightarrow> c4\<lparr>dp_rpc_port := Some p\<rparr>)" "q5 = None \<longleftrightarrow> dp_rpc_port c4 = None"
      by (rule nm_optional_list[OF 5(1)[unfolded 4]])
    have get: "kv_port c5 = q3" "lookup_rpc_port c5 = q4" "dp_rpc_port c5 = q5" "lookup_rpc_port c3 = lookup_rpc_port config"
      "dp_rpc_port c4 = dp_rpc_port config" "node_manager_port c5 = p" "service_ports c5 = service_ports c2" "single_container_flag c5"
      using q3 q4 q5 c2 True by (auto split: option.splits)
    have "nm_auto_list pac net ?R (nm_ports config prefs) {} = Inr (nm_ports c5 ps, A5)"
      using q3(1)[unfolded c2] q4(1)[unfolded get] q5(1)[unfolded get] True p ps
      by (simp add: nm_ports_def get nm_auto_list_append)
    then show ?thesis using prefs c2(6) 5(2) get(7) by metis
  qed
qed

section \<open>Outcomes of a scan\<close>

lemma scan_ports_find:
  "scan_ports net host blocked cs =
   (case find (\<lambda>c. c \<notin> blocked \<and> probe_tcp net host c \<noteq> Inr False) cs of
      None \<Rightarrow> Inl PortConflictError
    | Some c \<Rightarrow> if probe_tcp net host c = Inr True then Inr c else Inl OverflowError)"
  by (induction cs) (auto simp: probe_tcp_def split: if_splits)

lemma find_upto_Some: "find P [a..b] = Some c \<longleftrightarrow> a \<le> c \<and> c \<le> b \<and> P c \<and> (\<forall>c'. a \<le> c' \<and> c' < c \<longrightarrow> \<not> P c')"
proof
  assume "find P [a..b] = Some c"
  then obtain i where i: "i < length [a..b]" "P ([a..b] ! i)" "c = [a..b] ! i" "\<forall>j < i. \<not> P ([a..b] ! j)" by (auto simp: find_Some_iff)
  then have c: "c = a + int i" "c \<le> b" by (simp_all add: nth_upto)
  have "\<not> P c'" if c': "a \<le> c'" "c' < c" for c'
  proof -
    have "[a..b] ! nat (c' - a) = c'" "nat (c' - a) < i" using c' c by (simp_all add: nth_upto)
    then show ?thesis using i(4) by metis
  qed
  then show "a \<le> c \<and> c \<le> b \<and> P c \<and> (\<forall>c'. a \<le> c' \<and> c' < c \<longrightarrow> \<not> P c')" using i c by auto
next
  assume c: "a \<le> c \<and> c \<le> b \<and> P c \<and> (\<forall>c'. a \<le> c' \<and> c' < c \<longrightarrow> \<not> P c')"
  then have i: "nat (c - a) < length [a..b]" "[a..b] ! nat (c - a) = c" by (simp_all add: nth_upto)
  have "\<not> P ([a..b] ! j)" if "j < nat (c - a)" for j
  proof -
    have "a + int j \<le> b" using that c by linarith
    then have "[a..b] ! j = a + int j" by (rule nth_upto)
    then show ?thesis using that c by simp
  qed
  then show "find P [a..b] = Some c" unfolding find_Some_iff using i c by (intro exI[of _ "nat (c - a)"]) simp
qed

lemma nm_ports_reserved: "p \<in> set (nm_ports c services) \<Longrightarrow> p \<noteq> 0 \<Longrightarrow> p \<in> reserved_ports c services"
  by (auto simp: nm_ports_def reserved_ports_def List.map_filter_simps split: if_splits option.splits)

section \<open>Properties\<close>

text \<open>
  The ports of a node manager are exclusive. When the set-up succeeds, the management, service
  and single-container ports are pairwise distinct, can be bound, and lie in the scan range of what
  was asked for; and a port that could be bound and was not asked for by an earlier one is granted
  as asked, because nobody is moved onto a port another one asks for.
\<close>

theorem node_manager_ports_exclusive:
  assumes en: "pac_enable pac" and a: "apply_node_manager_ports pac net config = (config', Inr ())"
  shows "\<exists>prefs ps. parse_ports (service_ports config) = Inr prefs \<and> parse_ports (service_ports config') = Inr ps \<and>
    length (nm_ports config' ps) = length (nm_ports config prefs) \<and> distinct (nm_ports config' ps) \<and>
    (\<forall>i < length (nm_ports config prefs). let pref = nm_ports config prefs ! i; p = nm_ports config' ps ! i in
       bindable pac net p \<and> pref \<le> p \<and> p < pref + pac_scan_range pac \<and>
       (bindable pac net pref \<and> pref \<noteq> 0 \<and> pref \<notin> set (take i (nm_ports config prefs)) \<longrightarrow> p = pref))"
proof -
  obtain prefs ps A where l: "parse_ports (service_ports config) = Inr prefs" "parse_ports (service_ports config') = Inr ps"
    "nm_auto_list pac net (reserved_ports config prefs) (nm_ports config prefs) {} = Inr (nm_ports config' ps, A)"
    using node_manager_list[OF a] by blast
  note n = nm_auto_list_Inr[OF en l(3)]
  have "nm_ports config prefs ! i \<in> reserved_ports config prefs" if "i < length (nm_ports config prefs)" "nm_ports config prefs ! i \<noteq> 0" for i
    using that nm_ports_reserved nth_mem by blast
  then show ?thesis using l(1,2) n unfolding Let_def by blast
qed

text \<open>
  What a scan for a free port answers. It is the first port of the range that is not to be
  skipped and can be bound; \<open>PortConflictError\<close> when every port of the range is skipped or busy; and
  when the scan first meets a port above 65535 that it would try, the \<open>OverflowError\<close> of the socket,
  which the caller does not handle.
\<close>

theorem allocate_auto_outcome:
  assumes "0 \<le> port"
  shows "(allocate_auto net host port n skip = Inr c \<longleftrightarrow>
       port \<le> c \<and> c < port + n \<and> c \<le> 65535 \<and> c \<notin> skip \<and> net (socket_host host) c \<and>
       (\<forall>c'. port \<le> c' \<and> c' < c \<longrightarrow> c' \<in> skip \<or> \<not> net (socket_host host) c')) \<and>
    (allocate_auto net host port n skip = Inl PortConflictError \<longleftrightarrow>
       (\<forall>c. port \<le> c \<and> c < port + n \<longrightarrow> c \<in> skip \<or> c \<le> 65535 \<and> \<not> net (socket_host host) c)) \<and>
    (allocate_auto net host port n skip = Inl OverflowError \<longleftrightarrow>
       (\<exists>c. port \<le> c \<and> c < port + n \<and> 65535 < c \<and> c \<notin> skip \<and>
          (\<forall>c'. port \<le> c' \<and> c' < c \<longrightarrow> c' \<in> skip \<or> c' \<le> 65535 \<and> \<not> net (socket_host host) c')))"
    (is "?R \<and> ?C \<and> ?O")
proof -
  let ?tries = "\<lambda>c. c \<notin> skip \<and> (65535 < c \<or> net (socket_host host) c)"
  have t: "c' \<notin> skip \<and> probe_tcp net host c' \<noteq> Inr False \<longleftrightarrow> ?tries c'"
    "probe_tcp net host c' = Inr True \<longleftrightarrow> c' \<le> 65535 \<and> net (socket_host host) c'" if "port \<le> c'" for c'
    using that assms by (auto simp: probe_tcp_def)
  have cong: "find (\<lambda>c. c \<notin> skip \<and> probe_tcp net host c \<noteq> Inr False) [port..port + n - 1] = find ?tries [port..port + n - 1]"
    by (rule find_cong[OF refl]) (use t(1) in simp)
  have f: "find ?tries [port..port + n - 1] = Some x \<longleftrightarrow> port \<le> x \<and> x < port + n \<and> x \<notin> skip \<and> (65535 < x \<or> net (socket_host host) x) \<and>
      (\<forall>c'. port \<le> c' \<and> c' < x \<longrightarrow> c' \<in> skip \<or> c' \<le> 65535 \<and> \<not> net (socket_host host) c')" for x
    unfolding find_upto_Some by (auto simp: not_less)
  have N: "find ?tries [port..port + n - 1] = None \<longleftrightarrow> (\<forall>c. port \<le> c \<and> c < port + n \<longrightarrow> c \<in> skip \<or> c \<le> 65535 \<and> \<not> net (socket_host host) c)"
    unfolding find_None_iff by (auto simp: not_less)
  show ?thesis
  proof (cases "find ?tries [port..port + n - 1]")
    case None
    then have e: "allocate_auto net host port n skip = Inl PortConflictError" by (simp add: allocate_auto_def scan_ports_find cong)
    show ?thesis unfolding e using N None by (auto simp: not_less)
  next
    case (Some x)
    then have x: "port \<le> x" "x < port + n" "x \<notin> skip" "65535 < x \<or> net (socket_host host) x"
      "\<forall>c'. port \<le> c' \<and> c' < x \<longrightarrow> c' \<in> skip \<or> c' \<le> 65535 \<and> \<not> net (socket_host host) c'" using f by auto
    have e: "allocate_auto net host port n skip = (if x \<le> 65535 \<and> net (socket_host host) x then Inr x else Inl OverflowError)"
      using Some t(2)[OF x(1)] by (simp add: allocate_auto_def scan_ports_find cong)
    show ?thesis unfolding e using x by (cases "x \<le> 65535") (auto simp: not_less, (metis linorder_neqE not_less)+)
  qed
qed

text \<open>
  The coordinator's ports are not exclusive: its allocations do not know of each other and a
  probe releases the port at once. When the management port is busy, the next port is free and
  the observability port asks for it, both are given the same port.
\<close>

theorem coordinator_ports_collide:
  assumes "pac_enable pac" and "2 \<le> pac_scan_range pac" and "conductor_service config = []"
    and "bindable pac net (coordinator_api_infer_port config)"
    and "m = coordinator_api_mgmt_port config" and "0 \<le> m" and "m < 65535"
    and "\<not> net (socket_host (pac_bind_host pac)) m" and "net (socket_host (pac_bind_host pac)) (m + 1)"
    and "coordinator_obs_port config = m + 1"
  shows "apply_coordinator_ports pac net config = (config\<lparr>coordinator_api_mgmt_port := m + 1, coordinator_obs_port := m + 1\<rparr>, Inr ())"
proof -
  have s: "maybe_strict pac net (coordinator_api_infer_port config) = Inr (coordinator_api_infer_port config)"
    using assms(1,4) by (auto simp: maybe_strict_def allocate_strict_def bindable_def)
  have l: "[m..m + pac_scan_range pac - 1] = m # (m + 1) # [m + 1 + 1..m + pac_scan_range pac - 1]"
    using assms(2) upto_rec1[of m "m + pac_scan_range pac - 1"] upto_rec1[of "m + 1" "m + pac_scan_range pac - 1"] by simp
  have l': "[m + 1..m + 1 + pac_scan_range pac - 1] = (m + 1) # [m + 1 + 1..m + 1 + pac_scan_range pac - 1]"
    using assms(2) upto_rec1[of "m + 1" "m + 1 + pac_scan_range pac - 1"] by simp
  have "maybe_auto pac net m {} = Inr (m + 1)" "maybe_auto pac net (m + 1) {} = Inr (m + 1)"
    using assms(1,6-9) unfolding maybe_auto_def allocate_auto_def l l' by (simp_all add: probe_tcp_def)
  then show ?thesis using s assms(3,5,10) by (simp add: apply_coordinator_ports_def set_port_def Let_def)
qed

section \<open>Witnesses\<close>

theorem node_manager_ports_exclusive_witness:
  "\<exists>config' ps. apply_node_manager_ports demo_pac demo_net
      \<lparr>node_manager_port = 2000, service_ports = [''2001'', ''2001''], single_container_flag = True, kv_port = Some 2003, lookup_rpc_port = None,
       dp_rpc_port = Some 2000\<rparr> = (config', Inr ()) \<and>
     parse_ports (service_ports config') = Inr ps \<and> distinct (nm_ports config' ps) \<and> length (nm_ports config' ps) = 5"
proof -
  let ?c = "\<lparr>node_manager_port = 2000, service_ports = [''2001'', ''2001''], single_container_flag = True, kv_port = Some 2003, lookup_rpc_port = None,
       dp_rpc_port = Some 2000\<rparr>"
  have "snd (apply_node_manager_ports demo_pac demo_net ?c) = Inr ()" by code_simp
  then obtain config' where c: "apply_node_manager_ports demo_pac demo_net ?c = (config', Inr ())" by (metis prod.collapse)
  have p: "parse_ports (service_ports ?c) = Inr [2001, 2001]" by code_simp
  have "pac_enable demo_pac" by (simp add: demo_pac_def)
  from node_manager_ports_exclusive[OF this c] p obtain ps where
    "parse_ports (service_ports config') = Inr ps" "length (nm_ports config' ps) = length (nm_ports ?c [2001, 2001])" "distinct (nm_ports config' ps)" by auto
  then show ?thesis using c by (intro exI[of _ config'] exI[of _ ps]) (simp add: nm_ports_def)
qed

theorem allocate_auto_outcome_witness: "allocate_auto demo_net ''h'' 2000 10 {2001} = Inr 2002"
  using allocate_auto_outcome[of 2000 demo_net "''h''" 10 "{2001}" 2002] by (auto simp: demo_net_def)

theorem coordinator_ports_collide_witness:
  "\<exists>config'. apply_coordinator_ports demo_pac demo_net
      \<lparr>coordinator_api_infer_port = 1025, coordinator_api_mgmt_port = 2000, coordinator_obs_port = 2001, conductor_service = [], http_server_port = 0\<rparr> =
     (config', Inr ()) \<and> coordinator_api_mgmt_port config' = coordinator_obs_port config'"
proof -
  let ?c = "\<lparr>coordinator_api_infer_port = 1025, coordinator_api_mgmt_port = 2000, coordinator_obs_port = 2001, conductor_service = [], http_server_port = 0\<rparr>"
  from coordinator_ports_collide[of demo_pac ?c demo_net 2000] show ?thesis
    by (simp add: demo_pac_def demo_net_def bindable_def probe_tcp_def)
qed

end
