(* ===== verification/Session_Affinity.thy ===== *)
theory Session_Affinity
  imports Prelude
begin

text \<open>
  Session affinity of the scheduler, \<^verbatim>\<open>motor/coordinator/scheduler/runtime/session_affinity.py\<close>: the
  in-process table of pins, the resolution of a request's pin, and the balanced placement of new
  pins (\<open>select_balanced_instance\<close> of \<^verbatim>\<open>session_affinity_shared.py\<close>).

  A table maps a role and a session to the instance the session is pinned to. A missing session ID
  (\<open>None\<close>) behaves like the empty one in every operation, so both are the empty string. An
  \<open>OrderedDict\<close> is an association list, its oldest entry first. What resolution needs of a table is
  the locale \<open>pin_table\<close>; the in-process table and the shared one (\<open>Shared_Affinity\<close>) provide it.
\<close>

section \<open>Pins and the in-process table\<close>

record SessionPin =
  pin_instance_id :: int
  pin_epoch :: "int option"
  pin_endpoint_id :: "int option"

type_synonym pin_key = "string \<times> string"

record SessionAffinityTable =
  max_entries :: nat
  aff_entries :: "(pin_key, SessionPin) dict"

definition SessionAffinityTable_init :: "int \<Rightarrow> SessionAffinityTable" where
  "SessionAffinityTable_init n = \<lparr>max_entries = nat (max 1 n), aff_entries = []\<rparr>"

definition aff_len :: "SessionAffinityTable \<Rightarrow> nat" where
  "aff_len t = length (aff_entries t)"

definition move_to_end :: "'k \<Rightarrow> ('k, 'v) dict \<Rightarrow> ('k, 'v) dict" where
  "move_to_end k d = (case dict_get d k of None \<Rightarrow> d | Some v \<Rightarrow> dict_pop k d @ [(k, v)])"

definition aff_get :: "string \<Rightarrow> string \<Rightarrow> SessionAffinityTable \<Rightarrow> SessionAffinityTable \<times> SessionPin option" where
  "aff_get session_id role t =
     (if session_id = [] then (t, None)
      else case dict_get (aff_entries t) (role, session_id) of
             None \<Rightarrow> (t, None)
           | Some p \<Rightarrow> (t\<lparr>aff_entries := move_to_end (role, session_id) (aff_entries t)\<rparr>, Some p))"

text \<open>
  The loop \<open>while len(entries) > max_entries: entries.popitem(last=False)\<close> drops the oldest ones.
\<close>

definition aff_record :: "string \<Rightarrow> int \<Rightarrow> string \<Rightarrow> int option \<Rightarrow> int option \<Rightarrow> SessionAffinityTable \<Rightarrow> SessionAffinityTable" where
  "aff_record session_id instance_id role epoch endpoint_id t =
     (if session_id = [] then t
      else (let pin = \<lparr>pin_instance_id = instance_id, pin_epoch = epoch, pin_endpoint_id = endpoint_id\<rparr>;
                d = move_to_end (role, session_id) (dict_set (role, session_id) pin (aff_entries t))
            in t\<lparr>aff_entries := drop (length d - max_entries t) d\<rparr>))"

definition aff_drop :: "string \<Rightarrow> string \<Rightarrow> SessionAffinityTable \<Rightarrow> SessionAffinityTable" where
  "aff_drop session_id role t = t\<lparr>aff_entries := dict_pop (role, session_id) (aff_entries t)\<rparr>"

fun count_pins :: "string \<Rightarrow> (pin_key \<times> SessionPin) list \<Rightarrow> (int, nat) dict \<Rightarrow> (int, nat) dict" where
  "count_pins role [] counts = counts"
| "count_pins role (((r, s), pin) # es) counts =
     count_pins role es
       (if r = role
        then dict_set (pin_instance_id pin) ((case dict_get counts (pin_instance_id pin) of Some c \<Rightarrow> c | None \<Rightarrow> 0) + 1) counts
        else counts)"

definition aff_count_pins_by_instance :: "string \<Rightarrow> SessionAffinityTable \<Rightarrow> (int, nat) dict" where
  "aff_count_pins_by_instance role t = count_pins role (aff_entries t) []"

definition aff_drop_all_roles :: "string \<Rightarrow> SessionAffinityTable \<Rightarrow> SessionAffinityTable \<times> nat" where
  "aff_drop_all_roles session_id t =
     (if session_id = [] then (t, 0)
      else (t\<lparr>aff_entries := filter (\<lambda>(k, p). snd k \<noteq> session_id) (aff_entries t)\<rparr>,
            length (filter (\<lambda>(k, p). snd k = session_id) (aff_entries t))))"

section \<open>Balanced placement\<close>

definition placement_score :: "(int, nat) dict \<Rightarrow> (int, pyfloat) dict \<Rightarrow> int \<Rightarrow> nat \<times> pyfloat" where
  "placement_score pin_counts tokens i =
     (case dict_get pin_counts i of Some c \<Rightarrow> c | None \<Rightarrow> 0, case dict_get tokens i of Some x \<Rightarrow> x | None \<Rightarrow> 0)"

definition select_balanced_instance :: "int list \<Rightarrow> (int, nat) dict \<Rightarrow> (int, pyfloat) dict \<Rightarrow> int \<Rightarrow> int option" where
  "select_balanced_instance eligible pin_counts tokens placement_seq =
     (let ids = sort (remdups eligible); score = placement_score pin_counts tokens
      in if ids = [] then None
         else (let best = Min (score ` set ids); tied = filter (\<lambda>i. score i = best) ids
               in if length tied = 1 then Some (tied ! 0)
                  else Some (tied ! nat (placement_seq mod int (length tied)))))"

definition aff_record_balanced ::
  "string \<Rightarrow> int list \<Rightarrow> string \<Rightarrow> int option \<Rightarrow> (int, pyfloat) dict \<Rightarrow> int \<Rightarrow> int option \<Rightarrow> SessionAffinityTable
   \<Rightarrow> SessionAffinityTable \<times> int option" where
  "aff_record_balanced session_id candidates role epoch load placement_seq endpoint_id t =
     (if session_id = [] then (t, None)
      else (let counts = aff_count_pins_by_instance role t;
                loads = map (\<lambda>i. (i, case dict_get load i of Some x \<Rightarrow> x | None \<Rightarrow> 0)) candidates
            in case select_balanced_instance candidates counts loads placement_seq of
                 None \<Rightarrow> (t, None)
               | Some chosen \<Rightarrow> (aff_record session_id chosen role epoch endpoint_id t, Some chosen)))"

section \<open>Resolution of a pin\<close>

datatype affinity_outcome = HIT | PARENT | FRESH | STALE | EPOCH | NO_AFFINITY

record AffinityDecision =
  dec_instance_id :: "int option"
  dec_outcome :: affinity_outcome
  dec_endpoint_id :: "int option"

definition pinned :: "affinity_outcome \<Rightarrow> SessionPin \<Rightarrow> AffinityDecision" where
  "pinned outcome p = \<lparr>dec_instance_id = Some (pin_instance_id p), dec_outcome = outcome, dec_endpoint_id = pin_endpoint_id p\<rparr>"

definition unpinned :: "affinity_outcome \<Rightarrow> AffinityDecision" where
  "unpinned outcome = \<lparr>dec_instance_id = None, dec_outcome = outcome, dec_endpoint_id = None\<rparr>"

definition outdated :: "int option \<Rightarrow> SessionPin \<Rightarrow> bool" where
  "outdated epoch p \<longleftrightarrow> pin_epoch p \<noteq> None \<and> epoch \<noteq> None \<and> pin_epoch p \<noteq> epoch"

text \<open>
  The function takes the table's methods, as the code calls them on whichever table it is given;
  \<open>None\<close> is the table of a scheduler without affinity.
\<close>

definition resolve_own ::
  "(string \<Rightarrow> string \<Rightarrow> 't \<Rightarrow> 't \<times> SessionPin option) \<Rightarrow> (string \<Rightarrow> string \<Rightarrow> 't \<Rightarrow> 't) \<Rightarrow> 't \<Rightarrow> string \<Rightarrow> int option \<Rightarrow> string \<Rightarrow> int set
   \<Rightarrow> 't \<times> (AffinityDecision + affinity_outcome option)" where
  "resolve_own get drp t session_id epoch role eligible =
     (if session_id = [] then (t, Inr None)
      else case get session_id role t of
             (t1, None) \<Rightarrow> (t1, Inr None)
           | (t1, Some p) \<Rightarrow>
               if outdated epoch p then (drp session_id role t1, Inr (Some EPOCH))
               else if pin_instance_id p \<in> eligible then (t1, Inl (pinned HIT p))
               else (drp session_id role t1, Inr (Some STALE)))"

definition resolve_session_pin ::
  "(string \<Rightarrow> string \<Rightarrow> 't \<Rightarrow> 't \<times> SessionPin option) \<Rightarrow> (string \<Rightarrow> string \<Rightarrow> 't \<Rightarrow> 't) \<Rightarrow> 't option \<Rightarrow> string \<Rightarrow> string \<Rightarrow> int option
   \<Rightarrow> string \<Rightarrow> int set \<Rightarrow> 't option \<times> AffinityDecision" where
  "resolve_session_pin get drp table session_id parent_session_id epoch role eligible =
     (case table of
        None \<Rightarrow> (None, unpinned NO_AFFINITY)
      | Some t \<Rightarrow>
          if session_id = [] \<and> parent_session_id = [] then (Some t, unpinned NO_AFFINITY)
          else (case resolve_own get drp t session_id epoch role eligible of
                  (t1, Inl d) \<Rightarrow> (Some t1, d)
                | (t1, Inr own_dropped) \<Rightarrow>
                    (let (t2, parent) = (if parent_session_id = [] then (t1, None) else get parent_session_id role t1);
                         rest = (Some t2, unpinned (case own_dropped of Some x \<Rightarrow> x | None \<Rightarrow> FRESH))
                     in case parent of
                          Some p \<Rightarrow> if pin_instance_id p \<in> eligible then (Some t2, pinned PARENT p) else rest
                        | None \<Rightarrow> rest)))"

section \<open>Specification\<close>

text \<open>
  Resolution over a plain map of pins: the new map and the decision.
\<close>

definition resolve_spec ::
  "(pin_key \<Rightarrow> SessionPin option) \<Rightarrow> string \<Rightarrow> string \<Rightarrow> int option \<Rightarrow> string \<Rightarrow> int set \<Rightarrow> (pin_key \<Rightarrow> SessionPin option) \<times> AffinityDecision" where
  "resolve_spec m session_id parent epoch role eligible =
     (let own = (if session_id = [] then None else m (role, session_id));
          usable = (\<lambda>p. pin_instance_id p \<in> eligible)
      in if session_id = [] \<and> parent = [] then (m, unpinned NO_AFFINITY)
         else case own of
           Some p \<Rightarrow>
             if \<not> outdated epoch p \<and> usable p then (m, pinned HIT p)
             else (let m1 = m((role, session_id) := None);
                       why = (if outdated epoch p then EPOCH else STALE)
                   in case (if parent = [] then None else m1 (role, parent)) of
                        Some q \<Rightarrow> if usable q then (m1, pinned PARENT q) else (m1, unpinned why)
                      | None \<Rightarrow> (m1, unpinned why))
         | None \<Rightarrow>
             (case (if parent = [] then None else m (role, parent)) of
                Some q \<Rightarrow> if usable q then (m, pinned PARENT q) else (m, unpinned FRESH)
              | None \<Rightarrow> (m, unpinned FRESH)))"

text \<open>
  The in-process table is a map from keys to pins with at most \<open>max_entries\<close> entries.
\<close>

abbreviation aff_pins :: "SessionAffinityTable \<Rightarrow> pin_key \<Rightarrow> SessionPin option" where
  "aff_pins t \<equiv> dict_get (aff_entries t)"

definition aff_ok :: "SessionAffinityTable \<Rightarrow> bool" where
  "aff_ok t \<longleftrightarrow> distinct (dict_keys (aff_entries t)) \<and> length (aff_entries t) \<le> max_entries t \<and> 0 < max_entries t \<and>
     (\<forall>r. dict_get (aff_entries t) (r, []) = None)"

datatype aff_op =
    Aff_get string string
  | Aff_record string int string "int option" "int option"
  | Aff_drop string string
  | Aff_drop_all string
  | Aff_balanced string "int list" string "int option" "(int, pyfloat) dict" int "int option"

fun aff_step :: "SessionAffinityTable \<Rightarrow> aff_op \<Rightarrow> SessionAffinityTable" where
  "aff_step t (Aff_get s r) = fst (aff_get s r t)"
| "aff_step t (Aff_record s i r e ep) = aff_record s i r e ep t"
| "aff_step t (Aff_drop s r) = aff_drop s r t"
| "aff_step t (Aff_drop_all s) = fst (aff_drop_all_roles s t)"
| "aff_step t (Aff_balanced s c r e l q ep) = fst (aff_record_balanced s c r e l q ep t)"

text \<open>
  The keys an operation makes recent, and the operations that leave the pin of a key alone.
\<close>

fun touched :: "aff_op \<Rightarrow> pin_key set" where
  "touched (Aff_get s r) = {(r, s)}"
| "touched (Aff_record s i r e ep) = {(r, s)}"
| "touched (Aff_balanced s c r e l q ep) = {(r, s)}"
| "touched _ = {}"

fun spares :: "pin_key \<Rightarrow> aff_op \<Rightarrow> bool" where
  "spares k (Aff_get s r) = True"
| "spares k (Aff_record s i r e ep) = ((r, s) \<noteq> k)"
| "spares k (Aff_balanced s c r e l q ep) = ((r, s) \<noteq> k)"
| "spares k (Aff_drop s r) = ((r, s) \<noteq> k)"
| "spares k (Aff_drop_all s) = (s \<noteq> snd k)"

definition newer_than :: "pin_key \<Rightarrow> SessionPin \<Rightarrow> pin_key set \<Rightarrow> SessionAffinityTable \<Rightarrow> bool" where
  "newer_than k p T t \<longleftrightarrow> aff_ok t \<and> (\<exists>pre post. aff_entries t = pre @ (k, p) # post \<and> fst ` set post \<subseteq> T)"

definition pin_count :: "string \<Rightarrow> (pin_key \<times> SessionPin) list \<Rightarrow> int \<Rightarrow> nat" where
  "pin_count role es i = length (filter (\<lambda>(k, p). fst k = role \<and> pin_instance_id p = i) es)"

definition demo_table :: SessionAffinityTable where
  "demo_table = foldl aff_step (SessionAffinityTable_init 2) [Aff_record ''a'' 7 ''prefill'' (Some 1) None]"

section \<open>Resolution over any table\<close>

locale pin_table =
  fixes get :: "string \<Rightarrow> string \<Rightarrow> 't \<Rightarrow> 't \<times> SessionPin option"
    and drp :: "string \<Rightarrow> string \<Rightarrow> 't \<Rightarrow> 't"
    and pins :: "'t \<Rightarrow> pin_key \<Rightarrow> SessionPin option"
    and invar :: "'t \<Rightarrow> bool"
    and keys :: "pin_key set"
  assumes get_answer: "invar t \<Longrightarrow> s \<noteq> [] \<Longrightarrow> (r, s) \<in> keys \<Longrightarrow> snd (get s r t) = pins t (r, s)"
    and get_keeps: "invar t \<Longrightarrow> s \<noteq> [] \<Longrightarrow> (r, s) \<in> keys \<Longrightarrow> invar (fst (get s r t)) \<and> pins (fst (get s r t)) = pins t"
    and drop_removes: "invar t \<Longrightarrow> s \<noteq> [] \<Longrightarrow> (r, s) \<in> keys \<Longrightarrow> invar (drp s r t) \<and> pins (drp s r t) = (pins t)((r, s) := None)"
begin

lemma get_cases:
  assumes "invar t" and "s \<noteq> []" and "(r, s) \<in> keys"
  obtains t' where "get s r t = (t', pins t (r, s))" "invar t'" "pins t' = pins t"
  using get_answer[OF assms] get_keeps[OF assms] that by (metis prod.collapse)

lemma resolve_own_refines:
  assumes inv: "invar t" and k: "s \<noteq> [] \<Longrightarrow> (r, s) \<in> keys"
  defines "own \<equiv> (if s = [] then None else pins t (r, s))"
  shows "\<exists>t'. invar t' \<and>
    (case own of
       None \<Rightarrow> resolve_own get drp t s epoch r eligible = (t', Inr None) \<and> pins t' = pins t
     | Some p \<Rightarrow>
         if \<not> outdated epoch p \<and> pin_instance_id p \<in> eligible
         then resolve_own get drp t s epoch r eligible = (t', Inl (pinned HIT p)) \<and> pins t' = pins t
         else resolve_own get drp t s epoch r eligible = (t', Inr (Some (if outdated epoch p then EPOCH else STALE))) \<and>
              pins t' = (pins t)((r, s) := None))"
proof (cases "s = []")
  case True
  then show ?thesis using inv by (auto simp: own_def resolve_own_def)
next
  case False
  then obtain t1 where g: "get s r t = (t1, pins t (r, s))" "invar t1" "pins t1 = pins t" using get_cases inv k by blast
  show ?thesis
  proof (cases "pins t (r, s)")
    case None
    then show ?thesis using False g by (auto simp: own_def resolve_own_def)
  next
    case (Some p)
    have d: "invar (drp s r t1)" "pins (drp s r t1) = (pins t)((r, s) := None)"
      using drop_removes[OF g(2) False k[OF False]] g(3) by simp_all
    show ?thesis
      by (cases "\<not> outdated epoch p \<and> pin_instance_id p \<in> eligible")
        (use False g d Some in \<open>auto simp: own_def resolve_own_def\<close>)
  qed
qed

lemma resolve_refines:
  assumes inv: "invar t" and k: "s \<noteq> [] \<Longrightarrow> (r, s) \<in> keys" and kp: "q \<noteq> [] \<Longrightarrow> (r, q) \<in> keys"
  shows "\<exists>t'. invar t' \<and> resolve_session_pin get drp (Some t) s q epoch r eligible =
    (Some t', snd (resolve_spec (pins t) s q epoch r eligible)) \<and> pins t' = fst (resolve_spec (pins t) s q epoch r eligible)"
proof (cases "s = [] \<and> q = []")
  case True
  then show ?thesis using inv by (simp add: resolve_session_pin_def resolve_spec_def)
next
  case F: False
  define own where "own = (if s = [] then None else pins t (r, s))"
  obtain t1 where i1: "invar t1" and o1: "case own of
       None \<Rightarrow> resolve_own get drp t s epoch r eligible = (t1, Inr None) \<and> pins t1 = pins t
     | Some p \<Rightarrow>
         if \<not> outdated epoch p \<and> pin_instance_id p \<in> eligible
         then resolve_own get drp t s epoch r eligible = (t1, Inl (pinned HIT p)) \<and> pins t1 = pins t
         else resolve_own get drp t s epoch r eligible = (t1, Inr (Some (if outdated epoch p then EPOCH else STALE))) \<and>
              pins t1 = (pins t)((r, s) := None)"
    using resolve_own_refines[OF inv k, where epoch = epoch and eligible = eligible] unfolding own_def by blast
  obtain t2 where t2: "(if q = [] then (t1, None) else get q r t1) = (t2, if q = [] then None else pins t1 (r, q))" "invar t2" "pins t2 = pins t1"
  proof (cases "q = []")
    case True
    then show ?thesis using that i1 by simp
  next
    case False
    then show ?thesis using that get_cases[OF i1 False kp[OF False]] by (metis (full_types))
  qed
  let ?par = "if q = [] then None else pins t1 (r, q)"
  have rest: "resolve_session_pin get drp (Some t) s q epoch r eligible =
      (case ?par of
         Some p \<Rightarrow> if pin_instance_id p \<in> eligible then (Some t2, pinned PARENT p) else (Some t2, unpinned (case x of Some x \<Rightarrow> x | None \<Rightarrow> FRESH))
       | None \<Rightarrow> (Some t2, unpinned (case x of Some x \<Rightarrow> x | None \<Rightarrow> FRESH)))"
    if "resolve_own get drp t s epoch r eligible = (t1, Inr x)" for x
    unfolding resolve_session_pin_def using F that t2(1) by (simp only: option.case sum.case prod.case if_False Let_def)
  show ?thesis
  proof (cases own)
    case None
    then have "resolve_own get drp t s epoch r eligible = (t1, Inr None)" "pins t1 = pins t" using o1 by simp_all
    then show ?thesis using rest[of None] None F t2 by (auto simp: resolve_spec_def own_def[symmetric] Let_def split: option.split)
  next
    case (Some p)
    show ?thesis
    proof (cases "\<not> outdated epoch p \<and> pin_instance_id p \<in> eligible")
      case True
      then have o: "resolve_own get drp t s epoch r eligible = (t1, Inl (pinned HIT p))" "pins t1 = pins t" using o1 Some by simp_all
      have "resolve_spec (pins t) s q epoch r eligible = (pins t, pinned HIT p)"
        using F Some True unfolding resolve_spec_def own_def[symmetric] Let_def by auto
      moreover have "resolve_session_pin get drp (Some t) s q epoch r eligible = (Some t1, pinned HIT p)"
        using F o(1) by (auto simp: resolve_session_pin_def)
      ultimately show ?thesis using i1 o(2) by simp
    next
      case False
      define why where "why = (if outdated epoch p then EPOCH else STALE)"
      have o: "resolve_own get drp t s epoch r eligible = (t1, Inr (Some why))" "pins t1 = (pins t)((r, s) := None)"
        using o1 Some False by (simp_all add: why_def)
      have "resolve_spec (pins t) s q epoch r eligible =
         (case ?par of Some x \<Rightarrow> if pin_instance_id x \<in> eligible then (pins t1, pinned PARENT x) else (pins t1, unpinned why)
          | None \<Rightarrow> (pins t1, unpinned why))"
        unfolding resolve_spec_def Let_def own_def[symmetric] Some o(2) why_def by (simp only: F False option.case if_False)
      then show ?thesis using rest[OF o(1)] t2(2,3) by (auto split: option.split)
    qed
  qed
qed

end

section \<open>The in-process table\<close>

lemma move_to_end_get [simp]: "dict_get (move_to_end k d) k' = dict_get d k'"
  by (auto simp: move_to_end_def map_add_def split: option.split)

lemma length_dict_pop: "distinct (dict_keys d) \<Longrightarrow> dict_get d k = Some v \<Longrightarrow> Suc (length (dict_pop k d)) = length d"
proof (induction d)
  case (Cons x d)
  then show ?case by (cases "fst x = k") (auto simp: dict_get_None_iff)
qed simp

lemma move_to_end_ok:
  assumes "distinct (dict_keys d)"
  shows "distinct (dict_keys (move_to_end k d))" "length (move_to_end k d) = length d"
  using assms length_dict_pop[OF assms, of k] by (auto simp: move_to_end_def split: option.split)

lemma length_dict_set: "length (dict_set k v d) = (if in_dict k d then length d else Suc (length d))"
  by (induction d) auto

text \<open>
  Recording makes the pin the newest entry and drops entries from the old end.
\<close>

lemma aff_record_eq:
  fixes i e ep
  assumes ok: "aff_ok t" and s: "s \<noteq> []"
  defines "pin \<equiv> \<lparr>pin_instance_id = i, pin_epoch = e, pin_endpoint_id = ep\<rparr>"
  shows "aff_record s i r e ep t = t\<lparr>aff_entries := drop (length (dict_pop (r, s) (aff_entries t)) + 1 - max_entries t)
    (dict_pop (r, s) (aff_entries t) @ [((r, s), pin)])\<rparr>"
proof -
  have "dict_pop k (dict_set k v d) = dict_pop k d" for k v and d :: "(pin_key, SessionPin) dict"
    by (induction d) auto
  then have "move_to_end (r, s) (dict_set (r, s) pin (aff_entries t)) = dict_pop (r, s) (aff_entries t) @ [((r, s), pin)]"
    by (simp add: move_to_end_def)
  then show ?thesis using s by (simp add: aff_record_def pin_def Let_def)
qed

lemma dict_get_drop: "distinct (dict_keys d) \<Longrightarrow> dict_get (drop n d) k = Some v \<Longrightarrow> dict_get d k = Some v"
  by (metis dict_get_eq_iff distinct_drop drop_map in_set_dropD)

lemma aff_record_ok:
  assumes ok: "aff_ok t"
  shows "aff_ok (aff_record s i r e ep t)"
proof (cases "s = []")
  case False
  let ?d = "dict_pop (r, s) (aff_entries t) @ [((r, s), \<lparr>pin_instance_id = i, pin_epoch = e, pin_endpoint_id = ep\<rparr>)]"
  have d: "distinct (dict_keys ?d)" using ok by (auto simp: aff_ok_def set_dict_pop)
  have "dict_get ?d (r', []) = None" for r' using ok False by (auto simp: aff_ok_def map_add_def split: option.split)
  then have "dict_get (drop n ?d) (r', []) = None" for r' n using dict_get_drop[OF d] by (metis not_Some_eq)
  then show ?thesis
    using ok d unfolding aff_record_eq[OF ok False] by (simp add: aff_ok_def drop_map[symmetric] distinct_drop del: drop_append)
qed (use ok in \<open>simp add: aff_record_def\<close>)

lemma aff_get_ok: "aff_ok t \<Longrightarrow> aff_ok (fst (aff_get s r t)) \<and> aff_pins (fst (aff_get s r t)) = aff_pins t"
  using move_to_end_ok[of "aff_entries t" "(r, s)"] by (auto simp: aff_get_def aff_ok_def fun_eq_iff split: option.split)

lemma aff_drop_ok: "aff_ok t \<Longrightarrow> aff_ok (aff_drop s r t) \<and> aff_pins (aff_drop s r t) = (aff_pins t)((r, s) := None)"
proof -
  assume ok: "aff_ok t"
  have "length (dict_pop (r, s) (aff_entries t)) \<le> length (aff_entries t)" by (simp add: AList.delete_eq)
  then show ?thesis using ok by (auto simp: aff_drop_def aff_ok_def fun_eq_iff)
qed

lemma aff_drop_all_ok: "aff_ok t \<Longrightarrow> aff_ok (fst (aff_drop_all_roles s t))"
proof -
  assume ok: "aff_ok t"
  let ?d = "filter (\<lambda>(k, p). snd k \<noteq> s) (aff_entries t)"
  have l: "length ?d \<le> max_entries t" using ok unfolding aff_ok_def by (meson length_filter_le order.trans)
  have "dict_get ?d (r, []) = None" for r
    using ok by (auto simp: aff_ok_def map_of_eq_None_iff image_iff)
  then show ?thesis using ok l by (auto simp: aff_drop_all_roles_def aff_ok_def distinct_map_filter)
qed

lemma aff_step_ok: "aff_ok t \<Longrightarrow> aff_ok (aff_step t op)"
  by (cases op) (auto simp: aff_record_ok aff_get_ok aff_drop_ok aff_drop_all_ok aff_record_balanced_def Let_def split: option.split)

interpretation aff_run: step_invariant aff_step "\<lambda>op. True" aff_ok
  by unfold_locales (rule aff_step_ok)

interpretation in_process: pin_table aff_get aff_drop aff_pins aff_ok UNIV
proof
  fix t s r assume "aff_ok t" "s \<noteq> ([] :: string)"
  then show "snd (aff_get s r t) = aff_pins t (r, s)" by (simp add: aff_get_def split: option.split)
qed (use aff_get_ok aff_drop_ok in blast)+

section \<open>Least recently used\<close>

lemma newer_get: "newer_than k p T t \<Longrightarrow> aff_pins t k = Some p"
proof -
  assume "newer_than k p T t"
  then have "distinct (dict_keys (aff_entries t))" "(k, p) \<in> set (aff_entries t)" by (auto simp: newer_than_def aff_ok_def)
  then show ?thesis by (simp add: dict_get_eq_iff)
qed

lemma dict_pop_append: "dict_pop k (a @ b) = dict_pop k a @ dict_pop k b"
  by (simp add: AList.delete_eq)

lemma newer_append:
  assumes n: "newer_than k p T t" and k': "k' \<noteq> k"
  shows "\<exists>pre post. dict_pop k' (aff_entries t) @ [(k', v)] = pre @ (k, p) # post \<and> fst ` set post \<subseteq> insert k' T"
proof -
  obtain pre post where e: "aff_entries t = pre @ (k, p) # post" "fst ` set post \<subseteq> T" using n by (auto simp: newer_than_def)
  have "dict_pop k' (aff_entries t) @ [(k', v)] = dict_pop k' pre @ (k, p) # (dict_pop k' post @ [(k', v)])"
    using k' by (simp add: e dict_pop_append)
  moreover have "fst ` set (dict_pop k' post @ [(k', v)]) \<subseteq> insert k' T" using e(2) by (auto simp: set_dict_pop)
  ultimately show ?thesis by blast
qed

lemma newer_drop:
  assumes d: "d = pre @ (k, p) # post" "distinct (dict_keys d)" and T: "fst ` set post \<subseteq> T" "finite T" "card (T - {k}) < n"
  shows "\<exists>pre'. drop (length d - n) d = pre' @ (k, p) # post"
proof -
  have k: "fst ` set post \<subseteq> T - {k}" "distinct (dict_keys post)" using d T by auto
  then have "card (fst ` set post) = length post" by (metis distinct_card length_map set_map)
  then have "length post < n" using card_mono[OF _ k(1)] T by (simp add: finite_subset)
  then have "length d - n \<le> length pre" by (simp add: d)
  then show ?thesis by (auto simp: d)
qed

lemma newer_record:
  assumes n: "newer_than k p T t" and k': "(r, s) \<noteq> k" and T: "finite T" "card (insert (r, s) T - {k}) < max_entries t"
  shows "newer_than k p (insert (r, s) T) (aff_record s i r e ep t)"
proof (cases "s = []")
  case False
  have ok: "aff_ok t" using n by (simp add: newer_than_def)
  let ?d = "dict_pop (r, s) (aff_entries t) @ [((r, s), \<lparr>pin_instance_id = i, pin_epoch = e, pin_endpoint_id = ep\<rparr>)]"
  obtain pre post where d: "?d = pre @ (k, p) # post" "fst ` set post \<subseteq> insert (r, s) T" using newer_append[OF n k'] by blast
  have "distinct (dict_keys ?d)" using ok by (auto simp: aff_ok_def set_dict_pop)
  then obtain pre' where "drop (length ?d - max_entries t) ?d = pre' @ (k, p) # post"
    using newer_drop[OF d(1) _ d(2)] T by auto
  then have "aff_entries (aff_record s i r e ep t) = pre' @ (k, p) # post" by (simp add: aff_record_eq[OF ok False])
  then show ?thesis using d(2) aff_record_ok[OF ok] by (auto simp: newer_than_def)
qed (use n in \<open>auto simp: newer_than_def aff_record_def\<close>)

lemma newer_mono: "newer_than k p T t \<Longrightarrow> T \<subseteq> T' \<Longrightarrow> newer_than k p T' t"
  unfolding newer_than_def by blast

lemma newer_filter:
  assumes n: "newer_than k p T t" and P: "P (k, p)" and e: "aff_entries t' = filter P (aff_entries t)" and ok: "aff_ok t'"
  shows "newer_than k p T t'"
proof -
  obtain pre post where d: "aff_entries t = pre @ (k, p) # post" "fst ` set post \<subseteq> T" using n by (auto simp: newer_than_def)
  then have "aff_entries t' = filter P pre @ (k, p) # filter P post" "fst ` set (filter P post) \<subseteq> T" using e P by auto
  then show ?thesis using ok unfolding newer_than_def by blast
qed

lemma newer_step:
  assumes n: "newer_than k p T t" and sp: "spares k op" and T: "finite T" "card (T \<union> touched op - {k}) < max_entries t"
  shows "newer_than k p (T \<union> touched op) (aff_step t op)" "max_entries (aff_step t op) = max_entries t"
proof -
  have ok: "aff_ok t" using n by (simp add: newer_than_def)
  have ok': "aff_ok (aff_step t op)" using ok by (rule aff_step_ok)
  have rec: "newer_than k p (insert (r, s) T) (aff_record s i r e ep t)" if "(r, s) \<noteq> k" "touched op = {(r, s)}" for s i r e ep
    using newer_record[OF n that(1) T(1)] T(2) that(2) by simp
  show "newer_than k p (T \<union> touched op) (aff_step t op)"
  proof (cases op)
    case (Aff_get s r)
    show ?thesis
    proof (cases "s = [] \<or> dict_get (aff_entries t) (r, s) = None")
      case True
      then have "aff_step t op = t" using Aff_get by (auto simp: aff_get_def)
      then show ?thesis using newer_mono[OF n, of "T \<union> touched op"] by simp
    next
      case False
      then obtain v where v: "dict_get (aff_entries t) (r, s) = Some v" by auto
      then have e: "aff_entries (aff_step t op) = dict_pop (r, s) (aff_entries t) @ [((r, s), v)]"
        using False Aff_get by (simp add: aff_get_def move_to_end_def)
      show ?thesis
      proof (cases "(r, s) = k")
        case True
        then have "v = p" using v newer_get[OF n] by simp
        then show ?thesis using e True ok' unfolding newer_than_def
          by (intro conjI exI[of _ "dict_pop (r, s) (aff_entries t)"] exI[of _ "[]"]) simp_all
      next
        case False
        then show ?thesis using newer_append[OF n False, of v] e ok' Aff_get by (auto simp: newer_than_def)
      qed
    qed
  next
    case (Aff_record s i r e ep)
    then show ?thesis using rec[of r s] sp by simp
  next
    case (Aff_balanced s c r e l q ep)
    then have "newer_than k p (insert (r, s) T) (aff_record s i r e ep t)" for i using rec[of r s] sp by simp
    moreover have "newer_than k p (insert (r, s) T) t" using newer_mono[OF n] by blast
    ultimately show ?thesis using Aff_balanced
      by (cases "s = []") (simp_all add: aff_record_balanced_def Let_def split: option.split)
  next
    case (Aff_drop s r)
    have "newer_than k p T (aff_step t op)"
      by (rule newer_filter[OF n _ _ ok', of "\<lambda>x. (r, s) \<noteq> fst x"]) (use sp Aff_drop in \<open>auto simp: aff_drop_def AList.delete_eq case_prod_unfold\<close>)
    then show ?thesis using Aff_drop by simp
  next
    case (Aff_drop_all s)
    have "newer_than k p T (aff_step t op)"
    proof (cases "s = []")
      case False
      then show ?thesis using sp Aff_drop_all
        by (intro newer_filter[OF n _ _ ok', of "\<lambda>(k, p). snd k \<noteq> s"]) (auto simp: aff_drop_all_roles_def)
    qed (use n Aff_drop_all in \<open>simp add: aff_drop_all_roles_def\<close>)
    then show ?thesis using Aff_drop_all by simp
  qed
  show "max_entries (aff_step t op) = max_entries t"
    by (cases op) (auto simp: aff_get_def aff_record_def aff_drop_def aff_drop_all_roles_def aff_record_balanced_def Let_def split: option.split)
qed

lemma finite_touched: "finite (touched op)"
  by (cases op) simp_all

lemma newer_run:
  assumes "newer_than k p T t" and "list_all (spares k) ops" and "finite T" and "card (T \<union> \<Union> (touched ` set ops) - {k}) < max_entries t"
  shows "newer_than k p (T \<union> \<Union> (touched ` set ops)) (foldl aff_step t ops)"
  using assms
proof (induction ops arbitrary: T t)
  case (Cons op ops)
  have fin: "finite (touched op)" "finite (\<Union> (touched ` set ops))" by (simp_all add: finite_touched)
  have "card (T \<union> touched op - {k}) \<le> card (T \<union> \<Union> (touched ` set (op # ops)) - {k})"
    using Cons.prems(3) fin by (intro card_mono) auto
  then have c: "card (T \<union> touched op - {k}) < max_entries t" using Cons.prems(4) by linarith
  have "newer_than k p (T \<union> touched op) (aff_step t op)" "max_entries (aff_step t op) = max_entries t"
    using newer_step[OF Cons.prems(1) _ Cons.prems(3) c] Cons.prems(2) by simp_all
  from Cons.IH[OF this(1)] this(2) show ?case using Cons.prems fin by (simp add: Un_assoc)
qed simp

section \<open>Balanced placement\<close>

lemma count_pins_get:
  "dict_get (count_pins role es counts) i =
   (if pin_count role es i = 0 then dict_get counts i
    else Some (pin_count role es i + (case dict_get counts i of Some c \<Rightarrow> c | None \<Rightarrow> 0)))"
  by (induction role es counts rule: count_pins.induct) (auto simp: pin_count_def split: option.split)

lemma placement_count: "fst (placement_score (aff_count_pins_by_instance role t) loads i) = pin_count role (aff_entries t) i"
  by (simp add: placement_score_def aff_count_pins_by_instance_def count_pins_get)

lemma select_balanced_least:
  assumes "eligible \<noteq> []"
  shows "\<exists>c \<in> set eligible. select_balanced_instance eligible counts loads seq = Some c \<and>
    (\<forall>i \<in> set eligible. placement_score counts loads c \<le> placement_score counts loads i)"
proof -
  let ?ids = "sort (remdups eligible)" let ?s = "placement_score counts loads"
  let ?tied = "filter (\<lambda>i. ?s i = Min (?s ` set ?ids)) ?ids"
  have "Min (?s ` set ?ids) \<in> ?s ` set ?ids" using assms by (intro Min_in) auto
  then have t: "?tied \<noteq> []" by (auto simp: filter_empty_conv)
  then have "0 \<le> seq mod int (length ?tied)" "seq mod int (length ?tied) < int (length ?tied)" by simp_all
  then have "?tied ! nat (seq mod int (length ?tied)) \<in> set ?tied" by (intro nth_mem) (simp add: nat_less_iff)
  moreover have "?tied ! 0 \<in> set ?tied" using t by (intro nth_mem) simp
  moreover have "select_balanced_instance eligible counts loads seq =
      Some (if length ?tied = 1 then ?tied ! 0 else ?tied ! nat (seq mod int (length ?tied)))"
  proof -
    have "?ids \<noteq> []" using assms by (metis set_empty set_remdups set_sort)
    then show ?thesis unfolding select_balanced_instance_def Let_def by simp
  qed
  ultimately obtain c where c: "select_balanced_instance eligible counts loads seq = Some c" "c \<in> set ?tied"
    by (cases "length ?tied = 1") presburger+
  have "?s c \<le> ?s i" if "i \<in> set eligible" for i
    using c(2) that by (auto intro!: Min_le)
  then show ?thesis using c by auto
qed

lemma pin_count_append: "pin_count role (a @ b) i = pin_count role a i + pin_count role b i"
  by (simp add: pin_count_def)

lemma record_balanced_spreads:
  assumes ok: "aff_ok t" and s: "s \<noteq> []" and fresh: "aff_pins t (r, s) = None" and room: "length (aff_entries t) < max_entries t"
    and E: "E \<noteq> []" and even: "\<forall>i \<in> set E. \<forall>j \<in> set E. pin_count r (aff_entries t) i \<le> pin_count r (aff_entries t) j + 1"
    and t': "t' = fst (aff_record_balanced s E r e load seq ep t)"
  shows "\<exists>p. aff_entries t' = aff_entries t @ [((r, s), p)] \<and> pin_instance_id p \<in> set E"
    "\<forall>i \<in> set E. \<forall>j \<in> set E. pin_count r (aff_entries t') i \<le> pin_count r (aff_entries t') j + 1" "aff_ok t'" "max_entries t' = max_entries t"
proof -
  let ?loads = "map (\<lambda>i. (i, case dict_get load i of Some x \<Rightarrow> x | None \<Rightarrow> 0)) E"
  let ?counts = "aff_count_pins_by_instance r t"
  obtain c where c: "c \<in> set E" "select_balanced_instance E ?counts ?loads seq = Some c"
    "\<forall>i \<in> set E. placement_score ?counts ?loads c \<le> placement_score ?counts ?loads i"
    using select_balanced_least[OF E] by blast
  let ?p = "\<lparr>pin_instance_id = c, pin_epoch = e, pin_endpoint_id = ep\<rparr>"
  have r: "t' = aff_record s c r e ep t" using c(2) s by (simp add: t' aff_record_balanced_def)
  have es: "aff_entries t' = aff_entries t @ [((r, s), ?p)]" and m: "max_entries t' = max_entries t"
    using room fresh by (simp_all add: r aff_record_eq[OF ok s])
  show "\<exists>p. aff_entries t' = aff_entries t @ [((r, s), p)] \<and> pin_instance_id p \<in> set E" using es c(1) by auto
  show "aff_ok t'" unfolding r by (rule aff_record_ok[OF ok])
  show "max_entries t' = max_entries t" by (rule m)
  have least: "pin_count r (aff_entries t) c \<le> pin_count r (aff_entries t) i" if "i \<in> set E" for i
  proof -
    have "fst (placement_score ?counts ?loads c) \<le> fst (placement_score ?counts ?loads i)"
      using c(3) that by (force simp: less_eq_prod_def)
    then show ?thesis by (simp add: placement_count)
  qed
  have n: "pin_count r (aff_entries t') i = pin_count r (aff_entries t) i + (if i = c then 1 else 0)" for i
    by (simp add: es pin_count_def)
  show "\<forall>i \<in> set E. \<forall>j \<in> set E. pin_count r (aff_entries t') i \<le> pin_count r (aff_entries t') j + 1"
    unfolding n using even least by (auto intro: le_SucI)
qed

section \<open>Properties\<close>

text \<open>
  Resolving a pin on the in-process table is resolution over the map of its pins: the session's
  own pin is used if it is not outdated and its instance eligible; otherwise it is forgotten, and
  the parent's pin is used if eligible. A decision never names an instance that is not eligible,
  and only the session's own unusable pin is forgotten.
\<close>

theorem resolution_in_process:
  assumes "t = foldl aff_step (SessionAffinityTable_init n) ops"
  shows "\<exists>t'. resolve_session_pin aff_get aff_drop (Some t) s q epoch r eligible = (Some t', snd (resolve_spec (aff_pins t) s q epoch r eligible)) \<and>
    aff_pins t' = fst (resolve_spec (aff_pins t) s q epoch r eligible) \<and> aff_ok t' \<and>
    (\<forall>i. dec_instance_id (snd (resolve_session_pin aff_get aff_drop (Some t) s q epoch r eligible)) = Some i \<longrightarrow> i \<in> eligible)"
proof -
  have "aff_ok (SessionAffinityTable_init n)" by (simp add: aff_ok_def SessionAffinityTable_init_def)
  then have "aff_ok t" using aff_run.run_keeps[of _ ops] assms by (simp add: list_all_iff)
  from in_process.resolve_refines[OF this, of s r q epoch eligible] obtain t' where
    t': "aff_ok t'" "resolve_session_pin aff_get aff_drop (Some t) s q epoch r eligible = (Some t', snd (resolve_spec (aff_pins t) s q epoch r eligible))"
    "aff_pins t' = fst (resolve_spec (aff_pins t) s q epoch r eligible)" by auto
  moreover have "dec_instance_id (snd (resolve_spec m s q epoch r eligible)) = Some i \<longrightarrow> i \<in> eligible" for m i
    by (auto simp: resolve_spec_def Let_def pinned_def unpinned_def split: option.splits if_splits)
  ultimately show ?thesis by auto
qed

text \<open>
  The table forgets only what is old. Once a pin is recorded it is still found after any
  operations that do not replace or drop it, as long as these touch fewer other keys than the table
  has room for.
\<close>

theorem recent_pins_survive:
  assumes ok: "aff_ok t" and s: "s \<noteq> []" and spare: "list_all (spares (r, s)) ops"
    and few: "card (\<Union> (touched ` set ops) - {(r, s)}) < max_entries t"
  shows "aff_pins (foldl aff_step (aff_record s i r e ep t) ops) (r, s) =
    Some \<lparr>pin_instance_id = i, pin_epoch = e, pin_endpoint_id = ep\<rparr>"
proof -
  let ?d = "dict_pop (r, s) (aff_entries t)" let ?p = "\<lparr>pin_instance_id = i, pin_epoch = e, pin_endpoint_id = ep\<rparr>"
  have "length ?d + 1 - max_entries t \<le> length ?d" using ok by (auto simp: aff_ok_def)
  then have "aff_entries (aff_record s i r e ep t) = drop (length ?d + 1 - max_entries t) ?d @ [((r, s), ?p)]"
    by (simp add: aff_record_eq[OF ok s])
  then have "newer_than (r, s) ?p {} (aff_record s i r e ep t)" using aff_record_ok[OF ok] by (auto simp: newer_than_def)
  moreover have "max_entries (aff_record s i r e ep t) = max_entries t" by (simp add: aff_record_def Let_def)
  ultimately have "newer_than (r, s) ?p (\<Union> (touched ` set ops)) (foldl aff_step (aff_record s i r e ep t) ops)"
    using newer_run[of "(r, s)" ?p "{}" _ ops] spare few by simp
  then show ?thesis by (rule newer_get)
qed

text \<open>
  A burst of new sessions is spread evenly. When sessions without a pin are placed one after the
  other by the balanced placement while the table has room, and the instances' pin counts differed
  by at most one before, they differ by at most one afterwards, whatever the loads and sequence
  numbers.
\<close>

theorem balanced_burst_even:
  assumes "aff_ok t" and "E \<noteq> []" and "distinct (map fst burst)"
    and "\<forall>(s, e, load, seq, ep) \<in> set burst. s \<noteq> [] \<and> aff_pins t (r, s) = None"
    and "length (aff_entries t) + length burst \<le> max_entries t"
    and "\<forall>i \<in> set E. \<forall>j \<in> set E. pin_count r (aff_entries t) i \<le> pin_count r (aff_entries t) j + 1"
    and "t' = foldl aff_step t (map (\<lambda>(s, e, load, seq, ep). Aff_balanced s E r e load seq ep) burst)"
  shows "length (aff_entries t') = length (aff_entries t) + length burst \<and>
    (\<forall>i \<in> set E. \<forall>j \<in> set E. pin_count r (aff_entries t') i \<le> pin_count r (aff_entries t') j + 1)"
  using assms
proof (induction burst arbitrary: t)
  case (Cons x burst)
  obtain s e load seq ep where x: "x = (s, e, load, seq, ep)" by (cases x) auto
  let ?t = "fst (aff_record_balanced s E r e load seq ep t)"
  note one = record_balanced_spreads[OF Cons.prems(1) _ _ _ Cons.prems(2) Cons.prems(6) refl, of s e load seq ep]
  have a: "s \<noteq> []" "aff_pins t (r, s) = None" "length (aff_entries t) < max_entries t" using Cons.prems(4,5) x by auto
  obtain p where p: "aff_entries ?t = aff_entries t @ [((r, s), p)]" using one(1)[OF a] by blast
  have "s' \<noteq> [] \<and> aff_pins ?t (r, s') = None" if "(s', e', load', seq', ep') \<in> set burst" for s' e' load' seq' ep'
  proof -
    have "s' \<noteq> s" using Cons.prems(3) that x by (force simp: image_iff)
    then show ?thesis using Cons.prems(4) that by (force simp: p map_add_def)
  qed
  then have "\<forall>(s, e, load, seq, ep) \<in> set burst. s \<noteq> [] \<and> aff_pins ?t (r, s) = None" by blast
  moreover have "distinct (map fst burst)" "length (aff_entries ?t) + length burst \<le> max_entries ?t"
    using Cons.prems(3,5) one(4)[OF a] p by simp_all
  moreover have "t' = foldl aff_step ?t (map (\<lambda>(s, e, load, seq, ep). Aff_balanced s E r e load seq ep) burst)"
    using Cons.prems(7) x by simp
  ultimately show ?case using Cons.IH[OF one(3)[OF a] Cons.prems(2) _ _ _ one(2)[OF a]] p by simp
qed simp

section \<open>Witnesses\<close>

lemma demo_table_ok: "aff_ok demo_table"
proof -
  have "aff_ok (SessionAffinityTable_init 2)" by (simp add: aff_ok_def SessionAffinityTable_init_def)
  then show ?thesis unfolding demo_table_def by (rule aff_run.run_keeps) simp
qed

theorem resolution_in_process_witness:
  "dec_outcome (snd (resolve_session_pin aff_get aff_drop (Some demo_table) ''b'' ''a'' None ''prefill'' {7})) = PARENT"
proof -
  have "snd (resolve_session_pin aff_get aff_drop (Some demo_table) ''b'' ''a'' None ''prefill'' {7}) =
      snd (resolve_spec (aff_pins demo_table) ''b'' ''a'' None ''prefill'' {7})"
    using resolution_in_process[OF demo_table_def, of "''b''" "''a''" None "''prefill''" "{7}"] by auto
  moreover have "dec_outcome (snd (resolve_spec (aff_pins demo_table) ''b'' ''a'' None ''prefill'' {7})) = PARENT" by code_simp
  ultimately show ?thesis by simp
qed

theorem recent_pins_survive_witness:
  "aff_pins (foldl aff_step (aff_record ''s'' 3 ''decode'' None None demo_table)
     [Aff_record ''x'' 1 ''decode'' None None, Aff_get ''x'' ''decode'', Aff_drop_all ''y'']) (''decode'', ''s'') =
   Some \<lparr>pin_instance_id = 3, pin_epoch = None, pin_endpoint_id = None\<rparr>"
proof -
  have "max_entries demo_table = 2" by code_simp
  then show ?thesis
    by (intro recent_pins_survive[OF demo_table_ok]) simp_all
qed

theorem balanced_burst_even_witness:
  "pin_count ''decode'' (aff_entries (foldl aff_step (SessionAffinityTable_init 9)
     [Aff_balanced ''x'' [1, 2] ''decode'' None [] 0 None, Aff_balanced ''y'' [1, 2] ''decode'' None [] 0 None])) 1 \<le>
   pin_count ''decode'' (aff_entries (foldl aff_step (SessionAffinityTable_init 9)
     [Aff_balanced ''x'' [1, 2] ''decode'' None [] 0 None, Aff_balanced ''y'' [1, 2] ''decode'' None [] 0 None])) 2 + 1"
proof -
  let ?t = "SessionAffinityTable_init 9"
  have "aff_ok ?t" by (simp add: aff_ok_def SessionAffinityTable_init_def)
  from balanced_burst_even[OF this, of "[1, 2]" "[(''x'', None, [], 0, None), (''y'', None, [], 0, None)]" "''decode''", OF _ _ _ _ _ refl]
  show ?thesis by (simp add: SessionAffinityTable_init_def pin_count_def)
qed

end
