(* ===== verification/Shared_Affinity.thy ===== *)
theory Shared_Affinity
  imports Session_Affinity
begin

text \<open>
  The session-affinity table that all worker processes of a coordinator share,
  \<^verbatim>\<open>motor/coordinator/scheduler/runtime/session_affinity_shared.py\<close>: a hash table with linear probing
  in a window, tombstones, eviction of the least recently used slot without a live retention
  promise, and counters of pins per role and instance.

  Every operation holds the exclusive file lock, so it is one step. The slot array and the counter
  region of the file are lists; a slot is the record that \<open>struct\<close> packs, with byte strings padded as
  in the file, and packing a number that is no 64-bit integer raises \<open>StructError\<close>. The digests are
  arguments: \<open>dig\<close> for the key digest (blake2b), as its two halves, and \<open>tag\<close> for the session tag
  (sha256). Clock readings are arguments: \<open>now\<close> for \<open>time.time()\<close>, \<open>tick\<close> for \<open>time.monotonic()\<close>.
\<close>

section \<open>Slots\<close>

record Slot =
  key_lo :: nat
  key_hi :: nat
  sl_session :: string
  sl_role :: string
  sl_instance_id :: int
  sl_epoch :: int
  last_used :: pyfloat
  renewed_at :: pyfloat
  retention_expires :: pyfloat
  pinned_endpoint :: int

record SharedTable =
  st_slots :: "Slot list"
  st_counters :: "int list"

type_synonym key_digest = "string \<Rightarrow> string \<Rightarrow> nat \<times> nat"
type_synonym session_tag = "string \<Rightarrow> string"

definition NUL :: char where
  "NUL = char_of (0 :: nat)"

definition pack_text :: "string \<Rightarrow> nat \<Rightarrow> string" where
  "pack_text value n = take n value @ replicate (n - length value) NUL"

definition unpack_text :: "string \<Rightarrow> string" where
  "unpack_text raw = rev (dropWhile (\<lambda>c. c = NUL) (rev raw))"

definition empty_slot :: Slot where
  "empty_slot = \<lparr>key_lo = 0, key_hi = 0, sl_session = replicate 64 NUL, sl_role = replicate 16 NUL, sl_instance_id = 0,
     sl_epoch = 0, last_used = 0, renewed_at = 0, retention_expires = 0, pinned_endpoint = 0\<rparr>"

definition tombstone :: Slot where
  "tombstone = \<lparr>key_lo = 1, key_hi = 1, sl_session = replicate 64 NUL, sl_role = replicate 16 NUL, sl_instance_id = 0,
     sl_epoch = 0, last_used = 0, renewed_at = 0, retention_expires = 0, pinned_endpoint = - 1\<rparr>"

definition is_empty_slot :: "Slot \<Rightarrow> bool" where
  "is_empty_slot s \<longleftrightarrow> key_lo s = 0 \<and> key_hi s = 0"

definition is_tombstone :: "Slot \<Rightarrow> bool" where
  "is_tombstone s \<longleftrightarrow> key_lo s = 1 \<and> key_hi s = 1"

definition is_live :: "Slot \<Rightarrow> bool" where
  "is_live s \<longleftrightarrow> \<not> is_empty_slot s \<and> \<not> is_tombstone s"

section \<open>Counters\<close>

definition COUNTER_INSTANCES :: nat where
  "COUNTER_INSTANCES = 64"

definition COUNTER_SLOTS :: nat where
  "COUNTER_SLOTS = COUNTER_INSTANCES + 1"

definition AFFINITY_ROLES :: "string list" where
  "AFFINITY_ROLES = [''prefill'', ''decode'', ''union'', ''encode'']"

fun index_of :: "'a \<Rightarrow> 'a list \<Rightarrow> nat option" where
  "index_of x [] = None"
| "index_of x (y # ys) = (if x = y then Some 0 else map_option Suc (index_of x ys))"

definition role_counter_idx :: "string \<Rightarrow> nat option" where
  "role_counter_idx role = index_of role AFFINITY_ROLES"

text \<open>
  Offsets into the counter region are in units of one counter.
\<close>

definition counter_offset :: "string \<Rightarrow> int \<Rightarrow> nat option" where
  "counter_offset role instance_id =
     (case role_counter_idx role of
        None \<Rightarrow> None
      | Some r \<Rightarrow> if \<not> (0 \<le> instance_id \<and> instance_id < int COUNTER_INSTANCES) then None
                 else Some (r * COUNTER_SLOTS + nat instance_id))"

definition overflow_counter_offset :: "string \<Rightarrow> nat option" where
  "overflow_counter_offset role = map_option (\<lambda>r. r * COUNTER_SLOTS + COUNTER_INSTANCES) (role_counter_idx role)"

definition counter_add :: "string \<Rightarrow> int \<Rightarrow> int \<Rightarrow> SharedTable \<Rightarrow> SharedTable" where
  "counter_add role instance_id delta t =
     (case (case counter_offset role instance_id of Some i \<Rightarrow> Some i | None \<Rightarrow> overflow_counter_offset role) of
        None \<Rightarrow> t
      | Some i \<Rightarrow> t\<lparr>st_counters := (st_counters t)[i := max 0 (st_counters t ! i + delta)]\<rparr>)"

definition read_counters :: "string \<Rightarrow> SharedTable \<Rightarrow> (int, nat) dict \<times> bool" where
  "read_counters role t =
     (case role_counter_idx role of
        None \<Rightarrow> ([], True)
      | Some r \<Rightarrow>
          (let raw = take COUNTER_SLOTS (drop (r * COUNTER_SLOTS) (st_counters t))
           in if raw ! COUNTER_INSTANCES \<noteq> 0 then ([], True)
              else (List.map_filter (\<lambda>i. if raw ! i \<noteq> 0 then Some (int i, nat (raw ! i)) else None) [0..<COUNTER_INSTANCES], False)))"

text \<open>
  \<open>for slot in range(slot_count)\<close>, counting the live slots of a role by instance.
\<close>

fun scan_slots :: "string \<Rightarrow> Slot list \<Rightarrow> (int, nat) dict \<Rightarrow> (int, nat) dict" where
  "scan_slots role [] counts = counts"
| "scan_slots role (s # ss) counts =
     scan_slots role ss
       (if is_live s \<and> unpack_text (sl_role s) = role
        then dict_set (sl_instance_id s) ((case dict_get counts (sl_instance_id s) of Some c \<Rightarrow> c | None \<Rightarrow> 0) + 1) counts
        else counts)"

definition scan_counts :: "string \<Rightarrow> SharedTable \<Rightarrow> (int, nat) dict" where
  "scan_counts role t = scan_slots role (st_slots t) []"

fun count_all :: "Slot list \<Rightarrow> (string \<times> int, nat) dict \<Rightarrow> (string \<times> int, nat) dict" where
  "count_all [] counts = counts"
| "count_all (s # ss) counts =
     count_all ss
       (if is_live s
        then (let k = (unpack_text (sl_role s), sl_instance_id s)
              in dict_set k ((case dict_get counts k of Some c \<Rightarrow> c | None \<Rightarrow> 0) + 1) counts)
        else counts)"

definition rebuild_counters :: "SharedTable \<Rightarrow> SharedTable" where
  "rebuild_counters t =
     foldl (\<lambda>t ((role, i), c). counter_add role i (int c) t)
       (t\<lparr>st_counters := replicate (COUNTER_SLOTS * length AFFINITY_ROLES) 0\<rparr>) (count_all (st_slots t) [])"

definition count_pins_by_instance :: "string \<Rightarrow> SharedTable \<Rightarrow> (int, nat) dict" where
  "count_pins_by_instance role t =
     (let (counts, incomplete) = read_counters role t in if incomplete then scan_counts role t else counts)"

definition shared_len :: "SharedTable \<Rightarrow> nat" where
  "shared_len t = length (filter is_live (st_slots t))"

text \<open>
  A table on a new file, and a later process that attaches to the same one.
\<close>

definition SharedTable_init :: "int \<Rightarrow> SharedTable" where
  "SharedTable_init n = rebuild_counters \<lparr>st_slots = replicate (nat (max 1 n)) empty_slot, st_counters = []\<rparr>"

section \<open>Probing\<close>

definition PROBE_WINDOW :: nat where
  "PROBE_WINDOW = 256"

definition probe_slots :: "nat \<Rightarrow> nat \<Rightarrow> nat list" where
  "probe_slots lo n = map (\<lambda>offset. (lo mod n + offset) mod n) [0..<min PROBE_WINDOW n]"

definition keep_older :: "Slot list \<Rightarrow> nat \<Rightarrow> nat option \<Rightarrow> nat option" where
  "keep_older slots i best =
     (case best of None \<Rightarrow> Some i | Some b \<Rightarrow> if last_used (slots ! i) < last_used (slots ! b) then Some i else Some b)"

text \<open>
  The loop of \<open>_find_slot\<close> over the indices to probe, with the first tombstone seen and the oldest
  slots without and with a live promise.
\<close>

fun find_loop ::
  "pyfloat \<Rightarrow> nat \<times> nat \<Rightarrow> Slot list \<Rightarrow> nat list \<Rightarrow> nat option \<Rightarrow> nat option \<Rightarrow> nat option \<Rightarrow> nat option \<times> nat option" where
  "find_loop now k slots [] tomb oldest oldest_protected =
     (None, case tomb of Some i \<Rightarrow> Some i | None \<Rightarrow> (case oldest of Some i \<Rightarrow> Some i | None \<Rightarrow> oldest_protected))"
| "find_loop now k slots (i # is) tomb oldest oldest_protected =
     (let s = slots ! i
      in if is_tombstone s then find_loop now k slots is (case tomb of None \<Rightarrow> Some i | Some x \<Rightarrow> Some x) oldest oldest_protected
         else if is_empty_slot s then (None, Some (case tomb of Some x \<Rightarrow> x | None \<Rightarrow> i))
         else if (key_lo s, key_hi s) = k then (Some i, None)
         else if now < retention_expires s then find_loop now k slots is tomb oldest (keep_older slots i oldest_protected)
         else find_loop now k slots is tomb (keep_older slots i oldest) oldest_protected)"

definition find_slot :: "pyfloat \<Rightarrow> nat \<times> nat \<Rightarrow> SharedTable \<Rightarrow> nat option \<times> nat option" where
  "find_slot now k t = find_loop now k (st_slots t) (probe_slots (fst k) (length (st_slots t))) None None None"

section \<open>Operations\<close>

definition EPOCH_NONE :: int where
  "EPOCH_NONE = - 1"

definition fits64 :: "int \<Rightarrow> bool" where
  "fits64 n \<longleftrightarrow> - (2 ^ 63) \<le> n \<and> n < 2 ^ 63"

definition write_slot :: "nat \<Rightarrow> Slot \<Rightarrow> SharedTable \<Rightarrow> SharedTable \<times> (py_error + unit)" where
  "write_slot i s t =
     (if fits64 (sl_instance_id s) \<and> fits64 (sl_epoch s) \<and> fits64 (pinned_endpoint s)
      then (t\<lparr>st_slots := (st_slots t)[i := s]\<rparr>, Inr ()) else (t, Inl StructError))"

definition make_tombstone :: "nat \<Rightarrow> string \<Rightarrow> int \<Rightarrow> SharedTable \<Rightarrow> SharedTable" where
  "make_tombstone i role instance_id t =
     (let t1 = counter_add role instance_id (- 1) t in t1\<lparr>st_slots := (st_slots t1)[i := tombstone]\<rparr>)"

definition prepare_slot_overwrite :: "nat \<Rightarrow> nat \<times> nat \<Rightarrow> string \<Rightarrow> int \<Rightarrow> SharedTable \<Rightarrow> SharedTable \<times> pyfloat" where
  "prepare_slot_overwrite i k role instance_id t =
     (let s = st_slots t ! i; occupant_role = unpack_text (sl_role s)
      in if is_empty_slot s \<or> is_tombstone s then (counter_add role instance_id 1 t, 0)
         else if (key_lo s, key_hi s) = k \<and> occupant_role = role
         then (if sl_instance_id s \<noteq> instance_id
               then counter_add role instance_id 1 (counter_add role (sl_instance_id s) (- 1) t) else t,
               retention_expires s)
         else (counter_add role instance_id 1 (counter_add occupant_role (sl_instance_id s) (- 1) t), 0))"

text \<open>
  The slot of a key that also carries its tag and role, which the reading operations look for.
\<close>

definition matching_slot :: "key_digest \<Rightarrow> session_tag \<Rightarrow> pyfloat \<Rightarrow> string \<Rightarrow> string \<Rightarrow> SharedTable \<Rightarrow> nat option" where
  "matching_slot dig tag now session_id role t =
     (case fst (find_slot now (dig session_id role) t) of
        None \<Rightarrow> None
      | Some i \<Rightarrow>
          (let s = st_slots t ! i
           in if unpack_text (sl_session s) \<noteq> tag session_id \<or> unpack_text (sl_role s) \<noteq> role then None else Some i))"

definition pin_of :: "Slot \<Rightarrow> SessionPin" where
  "pin_of s = \<lparr>pin_instance_id = sl_instance_id s, pin_epoch = (if sl_epoch s = EPOCH_NONE then None else Some (sl_epoch s)),
     pin_endpoint_id = (if pinned_endpoint s = - 1 then None else Some (pinned_endpoint s))\<rparr>"

definition shared_get ::
  "key_digest \<Rightarrow> session_tag \<Rightarrow> pyfloat \<Rightarrow> pyfloat \<Rightarrow> string \<Rightarrow> string \<Rightarrow> SharedTable \<Rightarrow> SharedTable \<times> SessionPin option" where
  "shared_get dig tag now tick session_id role t =
     (if session_id = [] then (t, None)
      else case matching_slot dig tag now session_id role t of
             None \<Rightarrow> (t, None)
           | Some i \<Rightarrow> (t\<lparr>st_slots := (st_slots t)[i := (st_slots t ! i)\<lparr>last_used := tick\<rparr>]\<rparr>, Some (pin_of (st_slots t ! i))))"

definition new_slot ::
  "key_digest \<Rightarrow> session_tag \<Rightarrow> pyfloat \<Rightarrow> pyfloat \<Rightarrow> string \<Rightarrow> int \<Rightarrow> string \<Rightarrow> int option \<Rightarrow> int option \<Rightarrow> pyfloat \<Rightarrow> Slot" where
  "new_slot dig tag now tick session_id instance_id role epoch endpoint_id retention =
     \<lparr>key_lo = fst (dig session_id role), key_hi = snd (dig session_id role), sl_session = pack_text (tag session_id) 64,
      sl_role = pack_text role 16, sl_instance_id = instance_id, sl_epoch = (case epoch of None \<Rightarrow> EPOCH_NONE | Some e \<Rightarrow> e),
      last_used = tick, renewed_at = now, retention_expires = retention,
      pinned_endpoint = (case endpoint_id of None \<Rightarrow> - 1 | Some e \<Rightarrow> e)\<rparr>"

text \<open>
  What \<open>record\<close> and \<open>record_balanced\<close> do under the lock once the instance is known; \<open>Inr False\<close> when
  there is no slot.
\<close>

definition commit_pin ::
  "key_digest \<Rightarrow> session_tag \<Rightarrow> pyfloat \<Rightarrow> pyfloat \<Rightarrow> string \<Rightarrow> int \<Rightarrow> string \<Rightarrow> int option \<Rightarrow> int option \<Rightarrow> SharedTable
   \<Rightarrow> SharedTable \<times> (py_error + bool)" where
  "commit_pin dig tag now tick session_id instance_id role epoch endpoint_id t =
     (let (match, free) = find_slot now (dig session_id role) t
      in case (case match of Some i \<Rightarrow> Some i | None \<Rightarrow> free) of
           None \<Rightarrow> (t, Inr False)
         | Some i \<Rightarrow>
             (let (t1, retention) = prepare_slot_overwrite i (dig session_id role) role instance_id t;
                  (t2, ans) = write_slot i (new_slot dig tag now tick session_id instance_id role epoch endpoint_id retention) t1
              in (t2, map_sum id (\<lambda>u. True) ans)))"

definition shared_record ::
  "key_digest \<Rightarrow> session_tag \<Rightarrow> pyfloat \<Rightarrow> pyfloat \<Rightarrow> string \<Rightarrow> int \<Rightarrow> string \<Rightarrow> int option \<Rightarrow> int option \<Rightarrow> SharedTable
   \<Rightarrow> SharedTable \<times> (py_error + unit)" where
  "shared_record dig tag now tick session_id instance_id role epoch endpoint_id t =
     (if session_id = [] then (t, Inr ())
      else (let (t1, ans) = commit_pin dig tag now tick session_id instance_id role epoch endpoint_id t in (t1, map_sum id (\<lambda>b. ()) ans)))"

definition shared_drop :: "key_digest \<Rightarrow> session_tag \<Rightarrow> pyfloat \<Rightarrow> string \<Rightarrow> string \<Rightarrow> SharedTable \<Rightarrow> SharedTable" where
  "shared_drop dig tag now session_id role t =
     (if session_id = [] then t
      else case matching_slot dig tag now session_id role t of
             None \<Rightarrow> t
           | Some i \<Rightarrow> make_tombstone i role (sl_instance_id (st_slots t ! i)) t)"

definition shared_drop_all_roles :: "session_tag \<Rightarrow> string \<Rightarrow> SharedTable \<Rightarrow> SharedTable \<times> nat" where
  "shared_drop_all_roles tag session_id t =
     (if session_id = [] then (t, 0)
      else foldl (\<lambda>(t, n) i.
             let s = st_slots t ! i
             in if is_live s \<and> unpack_text (sl_session s) = tag session_id
                then (make_tombstone i (unpack_text (sl_role s)) (sl_instance_id s) t, n + 1) else (t, n))
           (t, 0) [0..<length (st_slots t)])"

definition shared_record_balanced ::
  "key_digest \<Rightarrow> session_tag \<Rightarrow> pyfloat \<Rightarrow> pyfloat \<Rightarrow> string \<Rightarrow> int list \<Rightarrow> string \<Rightarrow> int option \<Rightarrow> (int, pyfloat) dict \<Rightarrow> int \<Rightarrow> int option
   \<Rightarrow> SharedTable \<Rightarrow> SharedTable \<times> (py_error + int option)" where
  "shared_record_balanced dig tag now tick session_id candidates role epoch load placement_seq endpoint_id t =
     (if session_id = [] \<or> candidates = [] then (t, Inr None)
      else (let ids = sort (remdups candidates); counts = count_pins_by_instance role t;
                loads = map (\<lambda>i. (i, case dict_get load i of Some x \<Rightarrow> x | None \<Rightarrow> 0)) ids
            in case select_balanced_instance ids counts loads placement_seq of
                 None \<Rightarrow> (t, Inr None)
               | Some chosen \<Rightarrow>
                   (let (t1, ans) = commit_pin dig tag now tick session_id chosen role epoch endpoint_id t
                    in (t1, map_sum id (\<lambda>done. if done then Some chosen else None) ans))))"

definition peek_last_used :: "key_digest \<Rightarrow> session_tag \<Rightarrow> pyfloat \<Rightarrow> string \<Rightarrow> string \<Rightarrow> SharedTable \<Rightarrow> pyfloat option" where
  "peek_last_used dig tag now session_id role t =
     (if session_id = [] then None else map_option (\<lambda>i. last_used (st_slots t ! i)) (matching_slot dig tag now session_id role t))"

definition peek_renewal :: "key_digest \<Rightarrow> session_tag \<Rightarrow> pyfloat \<Rightarrow> string \<Rightarrow> string \<Rightarrow> SharedTable \<Rightarrow> pyfloat option" where
  "peek_renewal dig tag now session_id role t =
     (if session_id = [] then None else map_option (\<lambda>i. renewed_at (st_slots t ! i)) (matching_slot dig tag now session_id role t))"

definition declare_retention :: "key_digest \<Rightarrow> session_tag \<Rightarrow> pyfloat \<Rightarrow> string \<Rightarrow> string \<Rightarrow> pyfloat \<Rightarrow> SharedTable \<Rightarrow> SharedTable" where
  "declare_retention dig tag now session_id role expires_at t =
     (if session_id = [] then t
      else case matching_slot dig tag now session_id role t of
             None \<Rightarrow> t
           | Some i \<Rightarrow> t\<lparr>st_slots := (st_slots t)[i := (st_slots t ! i)\<lparr>retention_expires := max (retention_expires (st_slots t ! i)) expires_at\<rparr>]\<rparr>)"

definition peek_retention_expires :: "key_digest \<Rightarrow> session_tag \<Rightarrow> pyfloat \<Rightarrow> string \<Rightarrow> string \<Rightarrow> SharedTable \<Rightarrow> pyfloat" where
  "peek_retention_expires dig tag now session_id role t =
     (if session_id = [] then 0
      else case matching_slot dig tag now session_id role t of None \<Rightarrow> 0 | Some i \<Rightarrow> retention_expires (st_slots t ! i))"

text \<open>
  The table as a map: the pins of the live slots by their keys. A key is a role and a session; the
  keys in use are a set \<open>K\<close> on which the digests are assumed to be distinct and not reserved.
\<close>

definition text_ok :: "nat \<Rightarrow> string \<Rightarrow> bool" where
  "text_ok n s \<longleftrightarrow> length s \<le> n \<and> (s \<noteq> [] \<longrightarrow> last s \<noteq> NUL)"

definition digests_ok :: "key_digest \<Rightarrow> session_tag \<Rightarrow> pin_key set \<Rightarrow> bool" where
  "digests_ok dig tag K \<longleftrightarrow> inj_on (\<lambda>(r, s). dig s r) K \<and>
     (\<forall>(r, s) \<in> K. dig s r \<notin> {(0, 0), (1, 1)} \<and> text_ok 64 (tag s) \<and> text_ok 16 r)"

definition slot_key :: "Slot \<Rightarrow> nat \<times> nat" where
  "slot_key s = (key_lo s, key_hi s)"

definition shared_pins :: "key_digest \<Rightarrow> SharedTable \<Rightarrow> pin_key \<Rightarrow> SessionPin option" where
  "shared_pins dig t k = map_option pin_of (find (\<lambda>s. is_live s \<and> slot_key s = dig (snd k) (fst k)) (st_slots t))"

text \<open>
  A live slot is found by probing from its key, no two live slots have the same key, and a live slot
  has the digest, tag and role of a key in use.
\<close>

definition reaches :: "Slot list \<Rightarrow> nat \<Rightarrow> nat \<times> nat \<Rightarrow> bool" where
  "reaches slots i k \<longleftrightarrow> (\<exists>pre post. probe_slots (fst k) (length slots) = pre @ i # post \<and> (\<forall>j \<in> set pre. \<not> is_empty_slot (slots ! j)))"

definition slot_of :: "key_digest \<Rightarrow> session_tag \<Rightarrow> pin_key set \<Rightarrow> Slot \<Rightarrow> bool" where
  "slot_of dig tag K s \<longleftrightarrow> (\<exists>(r, ss) \<in> K. slot_key s = dig ss r \<and> sl_session s = pack_text (tag ss) 64 \<and> sl_role s = pack_text r 16)"

definition slots_ok :: "key_digest \<Rightarrow> session_tag \<Rightarrow> pin_key set \<Rightarrow> Slot list \<Rightarrow> bool" where
  "slots_ok dig tag K slots \<longleftrightarrow> slots \<noteq> [] \<and>
     (\<forall>i < length slots. is_live (slots ! i) \<longrightarrow> reaches slots i (slot_key (slots ! i)) \<and> slot_of dig tag K (slots ! i)) \<and>
     (\<forall>i < length slots. \<forall>j < length slots. is_live (slots ! i) \<and> is_live (slots ! j) \<and> slot_key (slots ! i) = slot_key (slots ! j) \<longrightarrow> i = j)"

text \<open>
  The counter of a role and a bucket is the number of its live slots; the last bucket is for the
  instance IDs without a counter of their own.
\<close>

definition bucket :: "int \<Rightarrow> nat" where
  "bucket i = (if 0 \<le> i \<and> i < 64 then nat i else 64)"

definition live_count :: "Slot list \<Rightarrow> string \<Rightarrow> nat \<Rightarrow> nat" where
  "live_count slots role b = length (filter (\<lambda>s. is_live s \<and> unpack_text (sl_role s) = role \<and> bucket (sl_instance_id s) = b) slots)"

definition counters_ok :: "Slot list \<Rightarrow> int list \<Rightarrow> bool" where
  "counters_ok slots C \<longleftrightarrow> length C = 260 \<and>
     (\<forall>role r b. role_counter_idx role = Some r \<longrightarrow> b < 65 \<longrightarrow> C ! (r * 65 + b) = int (live_count slots role b))"

definition shared_ok :: "key_digest \<Rightarrow> session_tag \<Rightarrow> pin_key set \<Rightarrow> SharedTable \<Rightarrow> bool" where
  "shared_ok dig tag K t \<longleftrightarrow> slots_ok dig tag K (st_slots t) \<and> counters_ok (st_slots t) (st_counters t)"

text \<open>
  The loop passes over tombstones and live slots of other keys; what it answers depends on where it
  stops and on what it passed.
\<close>

definition passes :: "nat \<times> nat \<Rightarrow> Slot list \<Rightarrow> nat \<Rightarrow> bool" where
  "passes k slots i \<longleftrightarrow> is_tombstone (slots ! i) \<or> \<not> is_empty_slot (slots ! i) \<and> slot_key (slots ! i) \<noteq> k"

definition first_of :: "'a option \<Rightarrow> 'a option \<Rightarrow> 'a option" where
  "first_of a b = (case a of Some x \<Rightarrow> Some x | None \<Rightarrow> b)"

text \<open>
  Replacing a slot: taking the old occupant out of its counter and putting the new one in.
\<close>

definition uncount :: "Slot \<Rightarrow> SharedTable \<Rightarrow> SharedTable" where
  "uncount s t = (if is_live s then counter_add (unpack_text (sl_role s)) (sl_instance_id s) (- 1) t else t)"

definition recount :: "Slot \<Rightarrow> SharedTable \<Rightarrow> SharedTable" where
  "recount s t = (if is_live s then counter_add (unpack_text (sl_role s)) (sl_instance_id s) 1 t else t)"

text \<open>
  A live slot is given to another key only when the whole window is live, and then it is the least
  recently used of the slots without a live promise, or of all if every one has a promise.
\<close>

definition evictable :: "pyfloat \<Rightarrow> nat \<times> nat \<Rightarrow> Slot list \<Rightarrow> nat \<Rightarrow> bool" where
  "evictable now k slots i \<longleftrightarrow>
     (\<forall>j \<in> set (probe_slots (fst k) (length slots)). is_live (slots ! j) \<and>
        (now < retention_expires (slots ! i) \<longrightarrow> now < retention_expires (slots ! j)) \<and>
        ((now < retention_expires (slots ! j) \<longleftrightarrow> now < retention_expires (slots ! i)) \<longrightarrow> last_used (slots ! i) \<le> last_used (slots ! j)))"

definition packable :: "int \<Rightarrow> int option \<Rightarrow> int option \<Rightarrow> bool" where
  "packable i e ep \<longleftrightarrow> fits64 i \<and> (\<forall>x. e = Some x \<longrightarrow> 0 \<le> x \<and> fits64 x) \<and> (\<forall>x. ep = Some x \<longrightarrow> 0 \<le> x \<and> fits64 x)"

text \<open>
  The slot that recording writes to.
\<close>

definition target_slot :: "pyfloat \<Rightarrow> nat \<times> nat \<Rightarrow> SharedTable \<Rightarrow> nat option" where
  "target_slot now k t = (case find_slot now k t of (Some i, fr) \<Rightarrow> Some i | (None, fr) \<Rightarrow> fr)"

definition of_session :: "session_tag \<Rightarrow> string \<Rightarrow> Slot \<Rightarrow> bool" where
  "of_session tag s x \<longleftrightarrow> is_live x \<and> unpack_text (sl_session x) = tag s"

definition drop_session_step :: "session_tag \<Rightarrow> string \<Rightarrow> SharedTable \<times> nat \<Rightarrow> nat \<Rightarrow> SharedTable \<times> nat" where
  "drop_session_step tag s = (\<lambda>(t, n) i.
     let x = st_slots t ! i
     in if of_session tag s x
        then (make_tombstone i (unpack_text (sl_role x)) (sl_instance_id x) t, n + 1) else (t, n))"

definition counted :: "(string \<times> int, nat) dict \<Rightarrow> string \<Rightarrow> nat \<Rightarrow> nat" where
  "counted d role b = sum_list (map snd (filter (\<lambda>(k, c). fst k = role \<and> bucket (snd k) = b) d))"

datatype shared_op =
    Sh_attach
  | Sh_get pyfloat pyfloat string string
  | Sh_record pyfloat pyfloat string int string "int option" "int option"
  | Sh_drop pyfloat string string
  | Sh_drop_all string
  | Sh_balanced pyfloat pyfloat string "int list" string "int option" "(int, pyfloat) dict" int "int option"
  | Sh_retain pyfloat string string pyfloat

fun shared_step :: "key_digest \<Rightarrow> session_tag \<Rightarrow> SharedTable \<Rightarrow> shared_op \<Rightarrow> SharedTable" where
  "shared_step dig tag t Sh_attach = rebuild_counters t"
| "shared_step dig tag t (Sh_get now tick s r) = fst (shared_get dig tag now tick s r t)"
| "shared_step dig tag t (Sh_record now tick s i r e ep) = fst (shared_record dig tag now tick s i r e ep t)"
| "shared_step dig tag t (Sh_drop now s r) = shared_drop dig tag now s r t"
| "shared_step dig tag t (Sh_drop_all s) = fst (shared_drop_all_roles tag s t)"
| "shared_step dig tag t (Sh_balanced now tick s c r e l q ep) = fst (shared_record_balanced dig tag now tick s c r e l q ep t)"
| "shared_step dig tag t (Sh_retain now s r x) = declare_retention dig tag now s r x t"

fun op_fits :: "pin_key set \<Rightarrow> shared_op \<Rightarrow> bool" where
  "op_fits K (Sh_get now tick s r) = ((r, s) \<in> K)"
| "op_fits K (Sh_record now tick s i r e ep) = ((r, s) \<in> K \<and> packable i e ep)"
| "op_fits K (Sh_drop now s r) = ((r, s) \<in> K)"
| "op_fits K (Sh_balanced now tick s c r e l q ep) = ((r, s) \<in> K \<and> (\<forall>i \<in> set c. packable i e ep))"
| "op_fits K (Sh_retain now s r x) = ((r, s) \<in> K)"
| "op_fits K _ = True"

abbreviation shared_inv :: "key_digest \<Rightarrow> session_tag \<Rightarrow> pin_key set \<Rightarrow> SharedTable \<Rightarrow> bool" where
  "shared_inv dig tag K t \<equiv> digests_ok dig tag K \<and> shared_ok dig tag K t"

definition inst_count :: "string \<Rightarrow> Slot list \<Rightarrow> int \<Rightarrow> nat" where
  "inst_count role slots i = length (filter (\<lambda>s. is_live s \<and> unpack_text (sl_role s) = role \<and> sl_instance_id s = i) slots)"

text \<open>
  The live slots of a role and an instance are the sessions pinned to it.
\<close>

definition pinned_sessions :: "key_digest \<Rightarrow> pin_key set \<Rightarrow> SharedTable \<Rightarrow> string \<Rightarrow> int \<Rightarrow> string set" where
  "pinned_sessions dig K t role i = {s. (role, s) \<in> K \<and> (\<exists>p. shared_pins dig t (role, s) = Some p \<and> pin_instance_id p = i)}"

definition demo_dig :: key_digest where
  "demo_dig s r = (length s + 1, length r)"

definition demo_keys :: "pin_key set" where
  "demo_keys = {(''prefill'', ''a''), (''prefill'', ''bb''), (''prefill'', ''ccc'')}"

definition demo_ops :: "shared_op list" where
  "demo_ops = [Sh_record 1 1 ''a'' 7 ''prefill'' None None, Sh_record 2 2 ''bb'' 8 ''prefill'' (Some 1) (Some 0), Sh_get 3 3 ''a'' ''prefill'']"

definition demo_shared :: SharedTable where
  "demo_shared = foldl (shared_step demo_dig id) (SharedTable_init 2) demo_ops"

section \<open>Texts\<close>

lemma unpack_pack: "text_ok n s \<Longrightarrow> unpack_text (pack_text s n) = s"
proof -
  assume ok: "text_ok n s"
  have r: "dropWhile (\<lambda>c. c = NUL) (replicate m NUL @ xs) = dropWhile (\<lambda>c. c = NUL) xs" for m xs by (induction m) simp_all
  have "dropWhile (\<lambda>c. c = NUL) (rev s) = rev s" using ok by (cases "rev s") (auto simp: text_ok_def last_rev[symmetric] hd_rev)
  then show ?thesis using ok by (simp add: unpack_text_def pack_text_def text_ok_def r)
qed

section \<open>Probing\<close>

lemma not_both [simp]: "is_tombstone s \<Longrightarrow> \<not> is_empty_slot s"
  by (simp add: is_tombstone_def is_empty_slot_def)

lemma probe_rotate:
  assumes "0 < n"
  shows "probe_slots lo n = take (min PROBE_WINDOW n) (rotate (lo mod n) [0..<n])"
  using assms by (intro nth_equalityI) (simp_all add: probe_slots_def nth_rotate)

lemma probe_distinct: "0 < n \<Longrightarrow> distinct (probe_slots lo n)"
  by (simp add: probe_rotate)

lemma probe_bound: "0 < n \<Longrightarrow> i \<in> set (probe_slots lo n) \<Longrightarrow> i < n"
  by (auto simp: probe_slots_def)

lemma probe_nonempty: "0 < n \<Longrightarrow> probe_slots lo n \<noteq> []"
  by (simp add: probe_slots_def PROBE_WINDOW_def)

lemma first_of_simps [simp]: "first_of (Some x) b = Some x" "first_of None b = b"
  by (simp_all add: first_of_def)

lemma find_loop_spec:
  "find_loop now k slots is tomb old oldp =
   (let vis = takeWhile (passes k slots) is;
        tomb' = first_of tomb (find (\<lambda>i. is_tombstone (slots ! i)) vis);
        old' = min_scan (\<lambda>i. last_used (slots ! i)) old (filter (\<lambda>i. \<not> is_tombstone (slots ! i) \<and> \<not> now < retention_expires (slots ! i)) vis);
        oldp' = min_scan (\<lambda>i. last_used (slots ! i)) oldp (filter (\<lambda>i. \<not> is_tombstone (slots ! i) \<and> now < retention_expires (slots ! i)) vis)
    in case dropWhile (passes k slots) is of
         i # js \<Rightarrow> if is_empty_slot (slots ! i) then (None, Some (case tomb' of Some x \<Rightarrow> x | None \<Rightarrow> i)) else (Some i, None)
       | [] \<Rightarrow> (None, first_of tomb' (first_of old' oldp')))"
proof (induction "is" arbitrary: tomb old oldp)
  case Nil
  then show ?case by (simp add: first_of_def split: option.split)
next
  case (Cons i "is")
  have t: "(case tomb of None \<Rightarrow> Some i | Some x \<Rightarrow> Some x) = first_of tomb (Some i)" by (simp add: first_of_def)
  have ff: "first_of (first_of tomb (Some i)) x = first_of tomb (Some i)" for x by (cases tomb) simp_all
  consider "is_tombstone (slots ! i)" | "\<not> is_tombstone (slots ! i)" "\<not> passes k slots i"
    | "\<not> is_tombstone (slots ! i)" "passes k slots i" "now < retention_expires (slots ! i)"
    | "\<not> is_tombstone (slots ! i)" "passes k slots i" "\<not> now < retention_expires (slots ! i)" by blast
  then show ?case
  proof cases
    case 1
    then have p: "passes k slots i" by (simp add: passes_def)
    have e: "find_loop now k slots (i # is) tomb old oldp = find_loop now k slots is (first_of tomb (Some i)) old oldp"
      using 1 by (simp add: t)
    show ?thesis unfolding e Cons.IH Let_def using 1 p by (simp add: ff del: dropWhile_eq_Nil_conv split: list.split)
  next
    case 2
    then show ?thesis by (auto simp: passes_def slot_key_def Let_def first_of_def split: option.split)
  next
    case 3
    then have "\<not> is_empty_slot (slots ! i)" "(key_lo (slots ! i), key_hi (slots ! i)) \<noteq> k" by (auto simp: passes_def slot_key_def)
    then have e: "find_loop now k slots (i # is) tomb old oldp = find_loop now k slots is tomb old (keep_older slots i oldp)"
      using 3 by (auto simp: Let_def)
    show ?thesis unfolding e Cons.IH Let_def using 3 by (simp add: keep_older_def del: dropWhile_eq_Nil_conv split: list.split)
  next
    case 4
    then have "\<not> is_empty_slot (slots ! i)" "(key_lo (slots ! i), key_hi (slots ! i)) \<noteq> k" by (auto simp: passes_def slot_key_def)
    then have e: "find_loop now k slots (i # is) tomb old oldp = find_loop now k slots is tomb (keep_older slots i old) oldp"
      using 4 by (auto simp: Let_def)
    show ?thesis unfolding e Cons.IH Let_def using 4 by (simp add: keep_older_def del: dropWhile_eq_Nil_conv split: list.split)
  qed
qed

lemma split_While: "takeWhile P xs @ dropWhile P xs = xs" "dropWhile P xs = y # ys \<Longrightarrow> \<not> P y"
  by (simp_all add: takeWhile_dropWhile_id dropWhile_eq_Cons_conv)

lemma find_reaches:
  assumes n: "slots \<noteq> []" and f: "find_loop now k slots (probe_slots (fst k) (length slots)) None None None = (m, fr)"
  shows "m = Some i \<Longrightarrow> reaches slots i k \<and> i < length slots \<and> is_live (slots ! i) \<and> slot_key (slots ! i) = k"
    and "m = None \<Longrightarrow> \<exists>i. fr = Some i \<and> reaches slots i k \<and> i < length slots"
proof -
  let ?I = "probe_slots (fst k) (length slots)" let ?vis = "takeWhile (passes k slots) ?I"
  have n0: "0 < length slots" using n by simp
  have ne: "\<not> is_empty_slot (slots ! j)" if "j \<in> set ?vis" for j
    using set_takeWhileD[OF that] by (auto simp: passes_def)
  have reach_hd: "reaches slots j k \<and> j < length slots" if "dropWhile (passes k slots) ?I = j # js" for j js
  proof -
    have "?I = ?vis @ j # js" using split_While(1)[of "passes k slots" ?I] that by simp
    then show ?thesis using ne probe_bound[OF n0, of j "fst k"] unfolding reaches_def by (metis in_set_conv_decomp)
  qed
  have reach_vis: "reaches slots j k \<and> j < length slots" if j: "j \<in> set ?vis" for j
  proof -
    obtain a b where v: "?vis = a @ j # b" using j by (meson split_list)
    then have "?I = a @ j # (b @ dropWhile (passes k slots) ?I)" using split_While(1)[of "passes k slots" ?I] by simp
    moreover have "\<forall>x \<in> set a. \<not> is_empty_slot (slots ! x)" using ne v by simp
    ultimately show ?thesis using probe_bound[OF n0, of j "fst k"] unfolding reaches_def by (metis in_set_conv_decomp)
  qed
  note spec = f[unfolded find_loop_spec Let_def]
  show "reaches slots i k \<and> i < length slots \<and> is_live (slots ! i) \<and> slot_key (slots ! i) = k" if m: "m = Some i"
  proof (cases "dropWhile (passes k slots) ?I")
    case (Cons j js)
    then have "i = j" "\<not> is_empty_slot (slots ! j)" using spec m by (auto split: if_splits)
    then show ?thesis using reach_hd[OF Cons] split_While(2)[OF Cons] by (auto simp: passes_def is_live_def)
  next
    case Nil
    show ?thesis using spec m unfolding Nil by simp
  qed
  show "\<exists>i. fr = Some i \<and> reaches slots i k \<and> i < length slots" if m: "m = None"
  proof -
    let ?tomb = "find (\<lambda>i. is_tombstone (slots ! i)) ?vis"
    let ?f = "\<lambda>i. last_used (slots ! i)"
    let ?U = "filter (\<lambda>i. \<not> is_tombstone (slots ! i) \<and> \<not> now < retention_expires (slots ! i)) ?vis"
    let ?P = "filter (\<lambda>i. \<not> is_tombstone (slots ! i) \<and> now < retention_expires (slots ! i)) ?vis"
    have tomb: "x \<in> set ?vis" if "?tomb = Some x" for x using that by (auto simp: find_Some_iff)
    show ?thesis
    proof (cases "dropWhile (passes k slots) ?I")
      case (Cons j js)
      then have "fr = Some (case ?tomb of Some x \<Rightarrow> x | None \<Rightarrow> j)" using spec m by (simp split: if_splits)
      then show ?thesis using reach_hd[OF Cons] tomb reach_vis by (cases ?tomb) auto
    next
      case Nil
      have v: "?vis = ?I" using split_While(1)[of "passes k slots" ?I] unfolding Nil by simp
      have fr: "fr = first_of ?tomb (first_of (min_scan ?f None ?U) (min_scan ?f None ?P))" using spec m unfolding Nil by simp
      have "\<exists>x. fr = Some x \<and> x \<in> set ?vis"
      proof (cases ?tomb)
        case None
        obtain x where x: "x \<in> set ?vis" using probe_nonempty[OF n0, of "fst k"] v by (metis last_in_set)
        then have "x \<in> set ?U \<or> x \<in> set ?P" using None by (auto simp: find_None_iff)
        then have "?U \<noteq> [] \<or> ?P \<noteq> []" by (metis empty_iff list.set(1))
        then show ?thesis
        proof (cases "?U = []")
          case False
          then obtain y where "min_scan ?f None ?U = Some y" using min_scan_None_iff[of ?f ?U] by auto
          moreover from this have "y \<in> set ?U" by (rule min_scan_least(1))
          ultimately show ?thesis using fr None by auto
        next
          case True
          then obtain y where "min_scan ?f None ?P = Some y" using min_scan_None_iff[of ?f ?P] \<open>?U \<noteq> [] \<or> ?P \<noteq> []\<close> by auto
          moreover from this have "y \<in> set ?P" by (rule min_scan_least(1))
          ultimately show ?thesis using fr None True by auto
        qed
      qed (use fr tomb in auto)
      then show ?thesis using reach_vis by blast
    qed
  qed
qed

section \<open>The slot array\<close>

lemma slots_unique:
  "slots_ok dig tag K slots \<Longrightarrow> i < length slots \<Longrightarrow> j < length slots \<Longrightarrow> is_live (slots ! i) \<Longrightarrow> is_live (slots ! j) \<Longrightarrow>
   slot_key (slots ! i) = slot_key (slots ! j) \<Longrightarrow> i = j"
  unfolding slots_ok_def by (elim conjE) (drule spec, drule mp, assumption, blast)

lemma find_match_iff:
  assumes ok: "slots_ok dig tag K slots" and f: "find_loop now k slots (probe_slots (fst k) (length slots)) None None None = (m, fr)"
  shows "m = Some i \<longleftrightarrow> i < length slots \<and> is_live (slots ! i) \<and> slot_key (slots ! i) = k"
proof
  have n: "slots \<noteq> []" using ok by (simp add: slots_ok_def)
  show "i < length slots \<and> is_live (slots ! i) \<and> slot_key (slots ! i) = k" if "m = Some i" using find_reaches(1)[OF n f that] by blast
  assume i: "i < length slots \<and> is_live (slots ! i) \<and> slot_key (slots ! i) = k"
  then obtain pre post where p: "probe_slots (fst k) (length slots) = pre @ i # post" "\<forall>j \<in> set pre. \<not> is_empty_slot (slots ! j)"
    using ok unfolding slots_ok_def reaches_def by blast
  have d: "distinct (pre @ i # post)" "\<And>j. j \<in> set (pre @ i # post) \<Longrightarrow> j < length slots"
    using probe_distinct[of "length slots" "fst k"] probe_bound[of "length slots" _ "fst k"] n p(1) by auto
  have "passes k slots j" if j: "j \<in> set pre" for j
  proof (cases "is_tombstone (slots ! j)")
    case False
    then have "is_live (slots ! j)" using p(2) j by (simp add: is_live_def)
    then have "slot_key (slots ! j) \<noteq> k" using ok i d j unfolding slots_ok_def by (metis UnI1 disjoint_iff distinct_append list.set_intros(1) set_append)
    then show ?thesis using p(2) j by (simp add: passes_def)
  qed (simp add: passes_def)
  moreover have "\<not> passes k slots i" "\<not> is_empty_slot (slots ! i)" using i by (auto simp: passes_def is_live_def)
  ultimately have "dropWhile (passes k slots) (probe_slots (fst k) (length slots)) = i # post"
    unfolding p(1) by (simp add: dropWhile_append2)
  then show "m = Some i" using f \<open>\<not> is_empty_slot (slots ! i)\<close> unfolding find_loop_spec Let_def by simp
qed

lemma reaches_update:
  assumes "reaches slots j k" and "\<not> is_empty_slot s"
  shows "reaches (slots[i := s]) j k"
  using assms unfolding reaches_def length_list_update by (metis nth_list_update_eq nth_list_update_neq list_update_beyond not_less)

lemma slots_write:
  assumes ok: "slots_ok dig tag K slots" and i: "i < length slots" and s: "\<not> is_empty_slot s"
    and live: "is_live s \<Longrightarrow> reaches slots i (slot_key s) \<and> slot_of dig tag K s \<and>
      (\<forall>j < length slots. j \<noteq> i \<and> is_live (slots ! j) \<longrightarrow> slot_key (slots ! j) \<noteq> slot_key s)"
  shows "slots_ok dig tag K (slots[i := s])"
proof -
  have 1: "reaches (slots[i := s]) j (slot_key (slots[i := s] ! j)) \<and> slot_of dig tag K (slots[i := s] ! j)"
    if j: "j < length slots" "is_live (slots[i := s] ! j)" for j
  proof (cases "j = i")
    case True
    then show ?thesis using live reaches_update[OF _ s] i j by simp
  next
    case False
    then show ?thesis using ok j reaches_update[OF _ s] unfolding slots_ok_def by simp
  qed
  have 2: "j = k" if "j < length slots" "k < length slots" "is_live (slots[i := s] ! j)" "is_live (slots[i := s] ! k)"
    "slot_key (slots[i := s] ! j) = slot_key (slots[i := s] ! k)" for j k
  proof (cases "j = i \<or> k = i")
    case True
    then show ?thesis using live i that by (cases "j = i"; cases "k = i") auto
  next
    case False
    then show ?thesis using ok that unfolding slots_ok_def by simp
  qed
  show ?thesis using ok 1 2 unfolding slots_ok_def by auto
qed

lemma slots_tombstone: "slots_ok dig tag K slots \<Longrightarrow> i < length slots \<Longrightarrow> slots_ok dig tag K (slots[i := tombstone])"
  by (rule slots_write) (simp_all add: is_live_def is_tombstone_def is_empty_slot_def tombstone_def)

lemma slots_touch:
  assumes ok: "slots_ok dig tag K slots" and i: "i < length slots" "is_live (slots ! i)"
    and s: "slot_key s = slot_key (slots ! i)" "sl_session s = sl_session (slots ! i)" "sl_role s = sl_role (slots ! i)"
  shows "slots_ok dig tag K (slots[i := s])"
proof (rule slots_write[OF ok i(1)])
  show "\<not> is_empty_slot s" using i(2) s(1) by (auto simp: is_live_def is_empty_slot_def slot_key_def)
  have "reaches slots i (slot_key (slots ! i))" "slot_of dig tag K (slots ! i)" using ok i unfolding slots_ok_def by blast+
  moreover have "slot_key (slots ! j) \<noteq> slot_key s" if "j < length slots" "j \<noteq> i" "is_live (slots ! j)" for j
  proof
    assume "slot_key (slots ! j) = slot_key s"
    then have "slot_key (slots ! j) = slot_key (slots ! i)" using s(1) by simp
    then show False using slots_unique[OF ok that(1) i(1) that(3) i(2)] that(2) by blast
  qed
  ultimately show "reaches slots i (slot_key s) \<and> slot_of dig tag K s \<and>
      (\<forall>j < length slots. j \<noteq> i \<and> is_live (slots ! j) \<longrightarrow> slot_key (slots ! j) \<noteq> slot_key s)"
    using s unfolding slot_of_def by simp
qed

text \<open>
  The map of pins, through the unique slot of a key.
\<close>

lemma pins_at:
  assumes ok: "slots_ok dig tag K (st_slots t)" and i: "i < length (st_slots t)" "is_live (st_slots t ! i)" "slot_key (st_slots t ! i) = dig s r"
  shows "shared_pins dig t (r, s) = Some (pin_of (st_slots t ! i))"
proof -
  let ?P = "\<lambda>x. is_live x \<and> slot_key x = dig s r"
  have "find ?P (st_slots t) \<noteq> None" using i nth_mem[OF i(1)] unfolding find_None_iff by blast
  then obtain x where x: "find ?P (st_slots t) = Some x" by blast
  then obtain j where j: "j < length (st_slots t)" "?P (st_slots t ! j)" "x = st_slots t ! j" unfolding find_Some_iff by blast
  have "j = i" using slots_unique[OF ok j(1) i(1) _ i(2)] j(2) i(3) by simp
  then have "x = st_slots t ! i" using j(3) by simp
  then show ?thesis using x by (simp add: shared_pins_def)
qed

lemma pins_None: "(\<And>i. i < length (st_slots t) \<Longrightarrow> is_live (st_slots t ! i) \<Longrightarrow> slot_key (st_slots t ! i) \<noteq> dig s r) \<Longrightarrow> shared_pins dig t (r, s) = None"
  by (auto simp: shared_pins_def find_None_iff in_set_conv_nth)

lemma pins_cases:
  obtains (absent) "shared_pins dig t (r, s) = None" "\<forall>i < length (st_slots t). is_live (st_slots t ! i) \<longrightarrow> slot_key (st_slots t ! i) \<noteq> dig s r"
  | (present) i where "i < length (st_slots t)" "is_live (st_slots t ! i)" "slot_key (st_slots t ! i) = dig s r"
proof (cases "\<forall>i < length (st_slots t). is_live (st_slots t ! i) \<longrightarrow> slot_key (st_slots t ! i) \<noteq> dig s r")
  case True
  then show ?thesis by (intro absent pins_None) simp_all
next
  case False
  then show ?thesis using present by blast
qed

lemma matching_slot_iff:
  assumes dg: "digests_ok dig tag K" and ok: "slots_ok dig tag K (st_slots t)" and k: "(r, s) \<in> K"
  shows "matching_slot dig tag now s r t = Some i \<longleftrightarrow> i < length (st_slots t) \<and> is_live (st_slots t ! i) \<and> slot_key (st_slots t ! i) = dig s r"
proof -
  obtain m fr where f: "find_slot now (dig s r) t = (m, fr)" by fastforce
  note iff = find_match_iff[OF ok f[unfolded find_slot_def]]
  have "unpack_text (sl_session (st_slots t ! i)) = tag s \<and> unpack_text (sl_role (st_slots t ! i)) = r"
    if i: "i < length (st_slots t)" "is_live (st_slots t ! i)" "slot_key (st_slots t ! i) = dig s r" for i
  proof -
    have "slot_of dig tag K (st_slots t ! i)" using ok i unfolding slots_ok_def by blast
    then obtain r' s' where x: "(r', s') \<in> K" "dig s' r' = dig s r" "sl_session (st_slots t ! i) = pack_text (tag s') 64" "sl_role (st_slots t ! i) = pack_text r' 16"
      using i(3) unfolding slot_of_def by auto
    have inj: "inj_on (\<lambda>(r, s). dig s r) K" using dg by (simp add: digests_ok_def)
    have "(r', s') = (r, s)" using inj_onD[OF inj _ x(1) k] x(2) by simp
    then show ?thesis using x(3,4) dg k unfolding digests_ok_def by (auto simp: unpack_pack)
  qed
  note texts = this
  show ?thesis
  proof (cases m)
    case None
    then show ?thesis using iff[of i] by (simp add: matching_slot_def f)
  next
    case (Some j)
    then have "j < length (st_slots t)" "is_live (st_slots t ! j)" "slot_key (st_slots t ! j) = dig s r" using iff[of j] by simp_all
    then have "matching_slot dig tag now s r t = Some j" using texts[of j] Some by (simp add: matching_slot_def f)
    then show ?thesis using iff[of i] Some by simp
  qed
qed

section \<open>The counters\<close>

lemma index_of_Some: "index_of x xs = Some i \<Longrightarrow> i < length xs \<and> xs ! i = x"
  by (induction xs arbitrary: i) (auto split: if_splits)

lemma role_idx: "role_counter_idx role = Some r \<Longrightarrow> r < 4 \<and> AFFINITY_ROLES ! r = role"
  using index_of_Some[of role AFFINITY_ROLES r] by (simp add: role_counter_idx_def AFFINITY_ROLES_def)

lemma bucket_bound: "bucket i < 65"
  by (auto simp: bucket_def)

lemma counter_add_eq:
  "counter_add role i d t =
   (case role_counter_idx role of
      None \<Rightarrow> t
    | Some r \<Rightarrow> t\<lparr>st_counters := (st_counters t)[r * 65 + bucket i := max 0 (st_counters t ! (r * 65 + bucket i) + d)]\<rparr>)"
  by (auto simp: counter_add_def counter_offset_def overflow_counter_offset_def bucket_def COUNTER_SLOTS_def COUNTER_INSTANCES_def
      split: option.split)

lemma counter_add_frame [simp]: "st_slots (counter_add role i d t) = st_slots t"
  by (simp add: counter_add_eq split: option.split)

lemma counter_add_at:
  assumes l: "length (st_counters t) = 260" and r: "role_counter_idx role' = Some r'" and b: "b < 65"
  shows "length (st_counters (counter_add role i d t)) = 260"
    "st_counters (counter_add role i d t) ! (r' * 65 + b) =
      (if role' = role \<and> b = bucket i then max 0 (st_counters t ! (r' * 65 + b) + d) else st_counters t ! (r' * 65 + b))"
proof -
  show "length (st_counters (counter_add role i d t)) = 260" using l by (simp add: counter_add_eq split: option.split)
  show "st_counters (counter_add role i d t) ! (r' * 65 + b) =
      (if role' = role \<and> b = bucket i then max 0 (st_counters t ! (r' * 65 + b) + d) else st_counters t ! (r' * 65 + b))"
  proof (cases "role_counter_idx role")
    case None
    then show ?thesis using r by (auto simp: counter_add_eq)
  next
    case (Some r0)
    have inj: "r0 * 65 + bucket i = r' * 65 + b \<longleftrightarrow> role' = role \<and> b = bucket i"
    proof
      assume e: "r0 * 65 + bucket i = r' * 65 + b"
      have "(r0 * 65 + bucket i) div 65 = r0" "(r' * 65 + b) div 65 = r'" using bucket_bound[of i] b by simp_all
      then have "r0 = r'" using e by metis
      then show "role' = role \<and> b = bucket i" using e role_idx[OF Some] role_idx[OF r] by simp
    qed (use Some r in auto)
    have "r' * 65 + b < 260" using role_idx[OF r] b by linarith
    then show ?thesis using Some l inj by (auto simp: counter_add_eq nth_list_update)
  qed
qed

lemma live_count_update:
  assumes "i < length slots"
  shows "int (live_count (slots[i := s]) role b) = int (live_count slots role b)
    - (if is_live (slots ! i) \<and> unpack_text (sl_role (slots ! i)) = role \<and> bucket (sl_instance_id (slots ! i)) = b then 1 else 0)
    + (if is_live s \<and> unpack_text (sl_role s) = role \<and> bucket (sl_instance_id s) = b then 1 else 0)"
  unfolding live_count_def using assms by (rule length_filter_update)

lemma live_count_pos:
  assumes "i < length slots" "is_live (slots ! i)"
  shows "1 \<le> live_count slots (unpack_text (sl_role (slots ! i))) (bucket (sl_instance_id (slots ! i)))"
proof -
  have "slots ! i \<in> set (filter (\<lambda>s. is_live s \<and> unpack_text (sl_role s) = unpack_text (sl_role (slots ! i)) \<and> bucket (sl_instance_id s) = bucket (sl_instance_id (slots ! i))) slots)"
    using assms by simp
  then have "0 < length (filter (\<lambda>s. is_live s \<and> unpack_text (sl_role s) = unpack_text (sl_role (slots ! i)) \<and> bucket (sl_instance_id s) = bucket (sl_instance_id (slots ! i))) slots)"
    by (rule length_pos_if_in_set)
  then show ?thesis unfolding live_count_def by linarith
qed

lemma counters_replace:
  assumes c: "counters_ok (st_slots t) (st_counters t)" and i: "i < length (st_slots t)"
  shows "counters_ok ((st_slots t)[i := s]) (st_counters (recount s (uncount (st_slots t ! i) t)))"
proof -
  let ?o = "st_slots t ! i" let ?t1 = "uncount ?o t"
  have l: "length (st_counters t) = 260" using c by (simp add: counters_ok_def)
  have l1: "length (st_counters ?t1) = 260" using l by (simp add: uncount_def counter_add_eq split: option.split)
  have l2: "length (st_counters (recount s ?t1)) = 260" using l1 by (simp add: recount_def counter_add_eq split: option.split)
  have "st_counters (recount s ?t1) ! (r * 65 + b) = int (live_count ((st_slots t)[i := s]) role b)"
    if r: "role_counter_idx role = Some r" and b: "b < 65" for role r b
  proof -
    have c0: "st_counters t ! (r * 65 + b) = int (live_count (st_slots t) role b)" using c r b by (simp add: counters_ok_def)
    have c1: "st_counters ?t1 ! (r * 65 + b) = int (live_count (st_slots t) role b)
        - (if is_live ?o \<and> unpack_text (sl_role ?o) = role \<and> bucket (sl_instance_id ?o) = b then 1 else 0)"
    proof (cases "is_live ?o \<and> unpack_text (sl_role ?o) = role \<and> bucket (sl_instance_id ?o) = b")
      case True
      then have "1 \<le> live_count (st_slots t) role b" using live_count_pos[OF i] by blast
      then show ?thesis using counter_add_at(2)[OF l r b, of "unpack_text (sl_role ?o)" "sl_instance_id ?o" "- 1"] True
        unfolding c0 by (simp add: uncount_def)
    next
      case False
      show ?thesis using counter_add_at(2)[OF l r b, of "unpack_text (sl_role ?o)" "sl_instance_id ?o" "- 1"] False
        by (cases "is_live ?o") (auto simp: uncount_def c0)
    qed
    have "1 \<le> live_count (st_slots t) role b" if "is_live ?o \<and> unpack_text (sl_role ?o) = role \<and> bucket (sl_instance_id ?o) = b"
      using live_count_pos[OF i] that by blast
    then have "0 \<le> st_counters ?t1 ! (r * 65 + b)" unfolding c1 by simp
    then show ?thesis
      using counter_add_at(2)[OF l1 r b, of "unpack_text (sl_role s)" "sl_instance_id s" 1] unfolding live_count_update[OF i] c1[symmetric]
      by (auto simp: recount_def)
  qed
  then show ?thesis using l2 unfolding counters_ok_def by blast
qed

lemma counters_same:
  assumes c: "counters_ok slots C" and i: "i < length slots" "is_live (slots ! i)" "is_live s"
    and s: "unpack_text (sl_role s) = unpack_text (sl_role (slots ! i))" "sl_instance_id s = sl_instance_id (slots ! i)"
  shows "counters_ok (slots[i := s]) C"
proof -
  have "int (live_count (slots[i := s]) role b) = int (live_count slots role b)" for role b
    unfolding live_count_update[OF i(1)] using i s by simp
  then show ?thesis using c by (simp add: counters_ok_def)
qed

section \<open>Operations on a well-formed table\<close>

lemma pins_write:
  assumes ok: "slots_ok dig tag K (st_slots t)" and i: "i < length (st_slots t)"
    and t': "st_slots t' = (st_slots t)[i := s]" and ok': "slots_ok dig tag K (st_slots t')"
  shows "shared_pins dig t' (r, ss) =
    (if is_live s \<and> slot_key s = dig ss r then Some (pin_of s)
     else if is_live (st_slots t ! i) \<and> slot_key (st_slots t ! i) = dig ss r then None
     else shared_pins dig t (r, ss))"
proof (cases "is_live s \<and> slot_key s = dig ss r")
  case True
  then show ?thesis using pins_at[OF ok', of i ss r] i t' by simp
next
  case s: False
  show ?thesis
  proof (cases "is_live (st_slots t ! i) \<and> slot_key (st_slots t ! i) = dig ss r")
    case True
    have "slot_key (st_slots t' ! j) \<noteq> dig ss r" if j: "j < length (st_slots t')" "is_live (st_slots t' ! j)" for j
    proof (cases "j = i")
      case False
      then have "is_live (st_slots t ! j)" "j < length (st_slots t)" "st_slots t' ! j = st_slots t ! j" using j t' by simp_all
      then show ?thesis using slots_unique[OF ok, of j i] i True False by auto
    qed (use s i j t' in auto)
    then show ?thesis using True s pins_None[of t' dig ss r] by simp
  next
    case o: False
    consider (absent) "shared_pins dig t (r, ss) = None" "\<forall>j < length (st_slots t). is_live (st_slots t ! j) \<longrightarrow> slot_key (st_slots t ! j) \<noteq> dig ss r"
      | (present) j where "j < length (st_slots t)" "is_live (st_slots t ! j)" "slot_key (st_slots t ! j) = dig ss r"
      by (rule pins_cases)
    then show ?thesis
    proof cases
      case absent
      have "slot_key (st_slots t' ! j) \<noteq> dig ss r" if "j < length (st_slots t')" "is_live (st_slots t' ! j)" for j
        using absent(2) that s i t' by (cases "j = i") auto
      then show ?thesis using absent(1) s o pins_None[of t' dig ss r] by simp
    next
      case present
      then have ij: "i \<noteq> j" using o by auto
      have "shared_pins dig t' (r, ss) = Some (pin_of (st_slots t' ! j))"
        by (rule pins_at[OF ok']) (use present ij t' in simp_all)
      then show ?thesis using pins_at[of dig tag K t j ss r, OF ok present] s o t' ij by auto
    qed
  qed
qed

lemma counters_uncount_recount:
  assumes "is_live s" and "unpack_text (sl_role s) = role" and "sl_instance_id s = inst"
  shows "counter_add role inst 1 t = recount s t" "counter_add role inst (- 1) t = uncount s t"
  using assms by (simp_all add: recount_def uncount_def)

lemma prepare_counters:
  assumes c: "counters_ok (st_slots t) (st_counters t)" and i: "i < length (st_slots t)"
    and s: "is_live s" "unpack_text (sl_role s) = role" "sl_instance_id s = inst"
    and p: "prepare_slot_overwrite i k role inst t = (t1, ret)"
  shows "st_slots t1 = st_slots t \<and> counters_ok ((st_slots t)[i := s]) (st_counters t1)"
proof -
  let ?o = "st_slots t ! i"
  note rep = counters_replace[OF c i, of s]
  note ud = counters_uncount_recount[OF s]
  consider "is_empty_slot ?o \<or> is_tombstone ?o"
    | "is_live ?o" "(key_lo ?o, key_hi ?o) = k \<and> unpack_text (sl_role ?o) = role" "sl_instance_id ?o = inst"
    | "is_live ?o" "(key_lo ?o, key_hi ?o) = k \<and> unpack_text (sl_role ?o) = role" "sl_instance_id ?o \<noteq> inst"
    | "is_live ?o" "\<not> ((key_lo ?o, key_hi ?o) = k \<and> unpack_text (sl_role ?o) = role)" unfolding is_live_def by blast
  then show ?thesis
  proof cases
    case 1
    then have "t1 = recount s t" "uncount ?o t = t" using p ud by (auto simp: prepare_slot_overwrite_def uncount_def is_live_def)
    then show ?thesis using rep by (simp add: recount_def)
  next
    case 2
    then have "t1 = t" using p by (auto simp: prepare_slot_overwrite_def is_live_def Let_def)
    then show ?thesis using counters_same[OF c i 2(1) s(1)] s 2 by simp
  next
    case 3
    then have "t1 = recount s (uncount ?o t)" using p ud by (auto simp: prepare_slot_overwrite_def uncount_def is_live_def Let_def)
    then show ?thesis using rep by (simp add: recount_def uncount_def)
  next
    case 4
    then have "t1 = recount s (uncount ?o t)" using p ud by (auto simp: prepare_slot_overwrite_def uncount_def is_live_def Let_def)
    then show ?thesis using rep by (simp add: recount_def uncount_def)
  qed
qed

lemma count_frame [simp]: "st_slots (uncount s t) = st_slots t" "st_slots (recount s t) = st_slots t"
  by (simp_all add: uncount_def recount_def)

lemma tombstone_slot [simp]: "\<not> is_live tombstone" "\<not> is_empty_slot tombstone"
  by (simp_all add: is_live_def tombstone_def is_tombstone_def is_empty_slot_def)

lemma make_tombstone_ok:
  assumes ok: "shared_ok dig tag K t" and i: "i < length (st_slots t)" "is_live (st_slots t ! i)"
    and r: "unpack_text (sl_role (st_slots t ! i)) = role"
  defines "t' \<equiv> make_tombstone i role (sl_instance_id (st_slots t ! i)) t"
  shows "shared_ok dig tag K t'" "st_slots t' = (st_slots t)[i := tombstone]"
proof -
  have e: "st_slots t' = (st_slots t)[i := tombstone]" "st_counters t' = st_counters (recount tombstone (uncount (st_slots t ! i) t))"
    unfolding t'_def make_tombstone_def counters_uncount_recount(2)[OF i(2) r refl] by (simp_all add: Let_def recount_def)
  then show "st_slots t' = (st_slots t)[i := tombstone]" by simp
  show "shared_ok dig tag K t'"
    using ok counters_replace[of t i tombstone] slots_tombstone[of dig tag K "st_slots t" i] i(1) unfolding shared_ok_def e by blast
qed

lemma touch_ok:
  assumes ok: "shared_ok dig tag K t" and i: "i < length (st_slots t)" "is_live (st_slots t ! i)"
    and s: "slot_key s = slot_key (st_slots t ! i)" "sl_session s = sl_session (st_slots t ! i)" "sl_role s = sl_role (st_slots t ! i)"
    "sl_instance_id s = sl_instance_id (st_slots t ! i)" "pin_of s = pin_of (st_slots t ! i)"
  defines "t' \<equiv> t\<lparr>st_slots := (st_slots t)[i := s]\<rparr>"
  shows "shared_ok dig tag K t'" "shared_pins dig t' = shared_pins dig t"
proof -
  have l: "is_live s" using i(2) s(1) by (simp add: is_live_def is_empty_slot_def is_tombstone_def slot_key_def)
  have so: "slots_ok dig tag K (st_slots t)" "counters_ok (st_slots t) (st_counters t)" using ok by (simp_all add: shared_ok_def)
  have so': "slots_ok dig tag K (st_slots t')" using slots_touch[OF so(1) i s(1-3)] by (simp add: t'_def)
  moreover have "counters_ok (st_slots t') (st_counters t')" using counters_same[OF so(2) i l] s by (simp add: t'_def)
  ultimately show "shared_ok dig tag K t'" by (simp add: shared_ok_def)
  have "shared_pins dig t' (r, ss) = shared_pins dig t (r, ss)" for r ss
    using pins_write[OF so(1) i(1) _ so', of s r ss] pins_at[OF so(1) i, of ss r] l i(2) s by (simp add: t'_def)
  then show "shared_pins dig t' = shared_pins dig t" by (simp add: fun_eq_iff)
qed

text \<open>
  Reading and dropping, as the interface of resolution asks for it.
\<close>

lemma shared_get_spec:
  assumes dg: "digests_ok dig tag K" and ok: "shared_ok dig tag K t" and k: "(r, s) \<in> K" and s: "s \<noteq> []"
  obtains t' where "shared_get dig tag now tick s r t = (t', shared_pins dig t (r, s))" "shared_ok dig tag K t'" "shared_pins dig t' = shared_pins dig t"
proof (cases "matching_slot dig tag now s r t")
  case None
  have so: "slots_ok dig tag K (st_slots t)" using ok by (simp add: shared_ok_def)
  have "shared_pins dig t (r, s) = None"
    using matching_slot_iff[OF dg so k, of now] None by (intro pins_None) auto
  then show ?thesis using that[of t] None ok s by (simp add: shared_get_def)
next
  case (Some i)
  have so: "slots_ok dig tag K (st_slots t)" using ok by (simp add: shared_ok_def)
  have i: "i < length (st_slots t)" "is_live (st_slots t ! i)" "slot_key (st_slots t ! i) = dig s r"
    using matching_slot_iff[OF dg so k, of now i] Some by simp_all
  let ?s = "(st_slots t ! i)\<lparr>last_used := tick\<rparr>"
  note ok' = touch_ok[OF ok i(1,2), of ?s]
  show ?thesis
    by (rule that[of "t\<lparr>st_slots := (st_slots t)[i := ?s]\<rparr>"])
      (use s Some pins_at[OF so i] ok' in \<open>simp_all add: shared_get_def slot_key_def pin_of_def\<close>)
qed

lemma live_role:
  assumes dg: "digests_ok dig tag K" and so: "slots_ok dig tag K slots" and i: "i < length slots" "is_live (slots ! i)"
  obtains r s where "(r, s) \<in> K" "slot_key (slots ! i) = dig s r" "unpack_text (sl_role (slots ! i)) = r" "unpack_text (sl_session (slots ! i)) = tag s"
proof -
  have "slot_of dig tag K (slots ! i)" using so i unfolding slots_ok_def by blast
  then obtain r s where rs: "(r, s) \<in> K" "slot_key (slots ! i) = dig s r" "sl_session (slots ! i) = pack_text (tag s) 64" "sl_role (slots ! i) = pack_text r 16"
    unfolding slot_of_def by blast
  have "text_ok 64 (tag s)" "text_ok 16 r" using dg rs(1) unfolding digests_ok_def by auto
  then show ?thesis using that[OF rs(1,2)] rs(3,4) by (simp add: unpack_pack)
qed

lemma digest_inj: "digests_ok dig tag K \<Longrightarrow> (r, s) \<in> K \<Longrightarrow> (r', s') \<in> K \<Longrightarrow> dig s r = dig s' r' \<longleftrightarrow> r = r' \<and> s = s'"
  unfolding digests_ok_def using inj_onD[of "\<lambda>(r, s). dig s r" K "(r, s)" "(r', s')"] by auto

lemma shared_drop_spec:
  fixes now
  assumes dg: "digests_ok dig tag K" and ok: "shared_ok dig tag K t" and k: "(r, s) \<in> K" and s: "s \<noteq> []"
  defines "t' \<equiv> shared_drop dig tag now s r t"
  shows "shared_ok dig tag K t'" "shared_pins dig t' |` K = (shared_pins dig t |` K)((r, s) := None)"
proof -
  have so: "slots_ok dig tag K (st_slots t)" using ok by (simp add: shared_ok_def)
  have "shared_ok dig tag K t' \<and> shared_pins dig t' |` K = (shared_pins dig t |` K)((r, s) := None)"
  proof (cases "matching_slot dig tag now s r t")
    case None
    have "shared_pins dig t (r, s) = None"
      using matching_slot_iff[OF dg so k, of now] None by (intro pins_None) auto
    then show ?thesis using None ok s by (auto simp: t'_def shared_drop_def restrict_map_def)
  next
    case (Some i)
    have i: "i < length (st_slots t)" "is_live (st_slots t ! i)" "slot_key (st_slots t ! i) = dig s r"
      using matching_slot_iff[OF dg so k, of now i] Some by simp_all
    obtain r' s' where x: "(r', s') \<in> K" "slot_key (st_slots t ! i) = dig s' r'" "unpack_text (sl_role (st_slots t ! i)) = r'"
      using live_role[OF dg so i(1,2)] by metis
    have rr: "unpack_text (sl_role (st_slots t ! i)) = r" using digest_inj[OF dg k x(1)] x(2,3) i(3) by simp
    have t': "t' = make_tombstone i r (sl_instance_id (st_slots t ! i)) t" using s Some by (simp add: t'_def shared_drop_def)
    note ok' = make_tombstone_ok[OF ok i(1,2) rr, folded t']
    then have so': "slots_ok dig tag K (st_slots t')" by (simp add: shared_ok_def)
    have "shared_pins dig t' (ra, sa) = (if (ra, sa) = (r, s) then None else shared_pins dig t (ra, sa))" if "(ra, sa) \<in> K" for ra sa
      using pins_write[OF so i(1) ok'(2) so', of ra sa] i(2,3) digest_inj[OF dg k that] by auto
    then show ?thesis using ok'(1) by (auto simp: restrict_map_def fun_eq_iff)
  qed
  then show "shared_ok dig tag K t'" "shared_pins dig t' |` K = (shared_pins dig t |` K)((r, s) := None)" by blast+
qed

interpretation shared: pin_table "shared_get dig tag now tick" "shared_drop dig tag now" "\<lambda>t. shared_pins dig t |` K"
    "\<lambda>t. digests_ok dig tag K \<and> shared_ok dig tag K t" K for dig tag now tick K
proof
  fix t s r assume a: "digests_ok dig tag K \<and> shared_ok dig tag K t" "s \<noteq> []" "(r, s) \<in> K"
  then obtain t' where "shared_get dig tag now tick s r t = (t', shared_pins dig t (r, s))" "shared_ok dig tag K t'" "shared_pins dig t' = shared_pins dig t"
    using shared_get_spec by blast
  then show "snd (shared_get dig tag now tick s r t) = (shared_pins dig t |` K) (r, s)"
    "(digests_ok dig tag K \<and> shared_ok dig tag K (fst (shared_get dig tag now tick s r t))) \<and>
     shared_pins dig (fst (shared_get dig tag now tick s r t)) |` K = shared_pins dig t |` K" using a by simp_all
  show "(digests_ok dig tag K \<and> shared_ok dig tag K (shared_drop dig tag now s r t)) \<and>
     shared_pins dig (shared_drop dig tag now s r t) |` K = (shared_pins dig t |` K)((r, s) := None)"
    using shared_drop_spec[of dig tag K t r s now] a by blast
qed

section \<open>Recording a pin\<close>

lemma find_evicts:
  assumes f: "find_loop now k slots (probe_slots (fst k) (length slots)) None None None = (None, Some i)" and l: "is_live (slots ! i)"
  shows "evictable now k slots i"
proof -
  let ?I = "probe_slots (fst k) (length slots)" let ?vis = "takeWhile (passes k slots) ?I"
  let ?tomb = "find (\<lambda>i. is_tombstone (slots ! i)) ?vis"
  let ?f = "\<lambda>i. last_used (slots ! i)"
  let ?U = "filter (\<lambda>i. \<not> is_tombstone (slots ! i) \<and> \<not> now < retention_expires (slots ! i)) ?vis"
  let ?P = "filter (\<lambda>i. \<not> is_tombstone (slots ! i) \<and> now < retention_expires (slots ! i)) ?vis"
  note spec = f[unfolded find_loop_spec Let_def]
  have tomb: "is_tombstone (slots ! x)" if "?tomb = Some x" for x using that by (auto simp: find_Some_iff)
  have it: "\<not> is_tombstone (slots ! i)" "\<not> is_empty_slot (slots ! i)" using l by (simp_all add: is_live_def)
  have Nil: "dropWhile (passes k slots) ?I = []"
  proof (rule ccontr)
    assume "dropWhile (passes k slots) ?I \<noteq> []"
    then obtain j js where c: "dropWhile (passes k slots) ?I = j # js" by (meson neq_Nil_conv)
    then have "is_empty_slot (slots ! j)" "i = (case ?tomb of Some x \<Rightarrow> x | None \<Rightarrow> j)" using spec by (auto split: if_splits)
    then show False using it tomb by (cases ?tomb) auto
  qed
  have v: "?vis = ?I" using split_While(1)[of "passes k slots" ?I] unfolding Nil by simp
  have fr: "Some i = first_of ?tomb (first_of (min_scan ?f None ?U) (min_scan ?f None ?P))" using spec unfolding Nil by simp
  have no: "?tomb = None" using fr tomb it by (cases ?tomb) auto
  have mem: "j \<in> set ?vis" if "j \<in> set ?I" for j unfolding v by (rule that)
  have lv: "is_live (slots ! j)" if "j \<in> set ?I" for j
  proof -
    note j = mem[OF that]
    have "\<not> is_tombstone (slots ! j)" using no j unfolding find_None_iff by blast
    then show ?thesis using set_takeWhileD[OF j] by (auto simp: passes_def is_live_def)
  qed
  show ?thesis
  proof (cases "min_scan ?f None ?U")
    case None
    then have u: "?U = []" and m: "min_scan ?f None ?P = Some i" using fr no min_scan_None_iff[of ?f ?U] by auto
    have p: "now < retention_expires (slots ! j)" if "j \<in> set ?I" for j
    proof (rule ccontr)
      assume "\<not> now < retention_expires (slots ! j)"
      then have "j \<in> set ?U" using mem[OF that] lv[OF that] by (simp add: is_live_def)
      then show False unfolding u by simp
    qed
    have "?f i \<le> ?f j" if "j \<in> set ?I" for j
      using min_scan_least(2)[OF m] p[OF that] lv[OF that] mem[OF that] by (simp add: is_live_def)
    then show ?thesis using lv p by (simp add: evictable_def)
  next
    case (Some x)
    then have m: "min_scan ?f None ?U = Some i" using fr no by simp
    have iu: "i \<in> set ?U" using min_scan_least(1)[OF m] .
    have "?f i \<le> ?f j" if "j \<in> set ?I" "\<not> now < retention_expires (slots ! j)" for j
      using min_scan_least(2)[OF m] lv[OF that(1)] that mem[OF that(1)] by (simp add: is_live_def)
    then show ?thesis using lv iu by (simp add: evictable_def)
  qed
qed

lemma new_slot_simps:
  "slot_key (new_slot dig tag now tick s i r e ep ret) = dig s r"
  "sl_session (new_slot dig tag now tick s i r e ep ret) = pack_text (tag s) 64"
  "sl_role (new_slot dig tag now tick s i r e ep ret) = pack_text r 16"
  "sl_instance_id (new_slot dig tag now tick s i r e ep ret) = i"
  by (simp_all add: new_slot_def slot_key_def)

lemma pin_of_new_slot:
  assumes "packable i e ep"
  shows "pin_of (new_slot dig tag now tick s i r e ep ret) = \<lparr>pin_instance_id = i, pin_epoch = e, pin_endpoint_id = ep\<rparr>"
  using assms by (auto simp: pin_of_def new_slot_def packable_def EPOCH_NONE_def split: option.split)

lemma write_packable:
  assumes "packable i e ep"
  shows "write_slot j (new_slot dig tag now tick s i r e ep ret) t = (t\<lparr>st_slots := (st_slots t)[j := new_slot dig tag now tick s i r e ep ret]\<rparr>, Inr ())"
  using assms by (auto simp: write_slot_def new_slot_def packable_def EPOCH_NONE_def fits64_def split: option.split)

lemma target_cases:
  assumes so: "slots_ok dig tag K (st_slots t)"
  obtains (matched) i where "target_slot now k t = Some i" "i < length (st_slots t)" "is_live (st_slots t ! i)" "slot_key (st_slots t ! i) = k"
  | (free) i where "target_slot now k t = Some i" "i < length (st_slots t)" "reaches (st_slots t) i k" "find_slot now k t = (None, Some i)"
      "\<forall>j < length (st_slots t). is_live (st_slots t ! j) \<longrightarrow> slot_key (st_slots t ! j) \<noteq> k" "is_live (st_slots t ! i) \<longrightarrow> evictable now k (st_slots t) i"
proof -
  obtain m fr where f: "find_slot now k t = (m, fr)" by fastforce
  note f' = f[unfolded find_slot_def]
  have ne: "st_slots t \<noteq> []" using so by (simp add: slots_ok_def)
  show ?thesis
  proof (cases m)
    case (Some i)
    then have "i < length (st_slots t)" "is_live (st_slots t ! i)" "slot_key (st_slots t ! i) = k" using find_match_iff[OF so f', of i] by simp_all
    then show ?thesis using Some f by (intro matched) (simp_all add: target_slot_def)
  next
    case None
    then obtain i where i: "fr = Some i" "reaches (st_slots t) i k" "i < length (st_slots t)" using find_reaches(2)[OF ne f'] by blast
    have "\<forall>j < length (st_slots t). is_live (st_slots t ! j) \<longrightarrow> slot_key (st_slots t ! j) \<noteq> k" using find_match_iff[OF so f'] None by auto
    moreover have "is_live (st_slots t ! i) \<longrightarrow> evictable now k (st_slots t) i" using find_evicts f' None i(1) by simp
    ultimately show ?thesis using free[of i] None f i by (simp add: target_slot_def)
  qed
qed

lemma commit_pin_eq:
  assumes "target_slot now (dig s r) t = Some i" "prepare_slot_overwrite i (dig s r) r inst t = (t1, ret)" "packable inst e ep"
  shows "commit_pin dig tag now tick s inst r e ep t =
    (t1\<lparr>st_slots := (st_slots t1)[i := new_slot dig tag now tick s inst r e ep ret]\<rparr>, Inr True)"
  using assms by (auto simp: commit_pin_def target_slot_def write_packable split: prod.splits option.splits)

text \<open>
  The effect of recording: the key gets the pin, and at most the key whose slot was taken loses its.
\<close>

lemma commit_pin_spec:
  assumes dg: "digests_ok dig tag K" and ok: "shared_ok dig tag K t" and k: "(r, s) \<in> K" and p: "packable inst e ep"
  obtains i t' where "target_slot now (dig s r) t = Some i" "i < length (st_slots t)"
    "commit_pin dig tag now tick s inst r e ep t = (t', Inr True)" "shared_ok dig tag K t'"
    "\<forall>k' \<in> K. shared_pins dig t' k' =
      (if k' = (r, s) then Some \<lparr>pin_instance_id = inst, pin_epoch = e, pin_endpoint_id = ep\<rparr>
       else if is_live (st_slots t ! i) \<and> slot_key (st_slots t ! i) = dig (snd k') (fst k') then None else shared_pins dig t k')"
    "is_live (st_slots t ! i) \<longrightarrow> slot_key (st_slots t ! i) = dig s r \<or> evictable now (dig s r) (st_slots t) i"
proof -
  have so: "slots_ok dig tag K (st_slots t)" and co: "counters_ok (st_slots t) (st_counters t)" using ok by (simp_all add: shared_ok_def)
  obtain i where i: "target_slot now (dig s r) t = Some i" "i < length (st_slots t)" "reaches (st_slots t) i (dig s r)"
    "\<forall>j < length (st_slots t). j \<noteq> i \<and> is_live (st_slots t ! j) \<longrightarrow> slot_key (st_slots t ! j) \<noteq> dig s r"
    and ev: "is_live (st_slots t ! i) \<longrightarrow> slot_key (st_slots t ! i) = dig s r \<or> evictable now (dig s r) (st_slots t) i"
  proof (rule target_cases[OF so, of now "dig s r"])
    fix i assume a: "target_slot now (dig s r) t = Some i" "i < length (st_slots t)" "is_live (st_slots t ! i)" "slot_key (st_slots t ! i) = dig s r"
    have "reaches (st_slots t) i (dig s r)" using so a unfolding slots_ok_def by metis
    moreover have "\<forall>j < length (st_slots t). j \<noteq> i \<and> is_live (st_slots t ! j) \<longrightarrow> slot_key (st_slots t ! j) \<noteq> dig s r"
      using slots_unique[OF so _ a(2) _ a(3)] a(4) by auto
    ultimately show thesis using a by (intro that[of i]) simp_all
  qed (use that in blast)
  obtain t1 ret where pr: "prepare_slot_overwrite i (dig s r) r inst t = (t1, ret)" by fastforce
  let ?n = "new_slot dig tag now tick s inst r e ep ret" let ?t' = "t1\<lparr>st_slots := (st_slots t1)[i := ?n]\<rparr>"
  have tx: "text_ok 64 (tag s)" "text_ok 16 r" "dig s r \<noteq> (0, 0)" "dig s r \<noteq> (1, 1)" using dg k unfolding digests_ok_def by auto
  have live: "is_live ?n" using tx(3,4) new_slot_simps(1)[of dig tag now tick s inst r e ep ret]
    by (cases "dig s r") (auto simp: is_live_def is_empty_slot_def is_tombstone_def slot_key_def)
  have t1: "st_slots t1 = st_slots t" "counters_ok ((st_slots t)[i := ?n]) (st_counters t1)"
    using prepare_counters[OF co i(2) live _ _ pr] tx(2) by (simp_all add: new_slot_simps unpack_pack)
  have "slot_of dig tag K ?n" using k unfolding slot_of_def new_slot_simps by blast
  then have so': "slots_ok dig tag K (st_slots ?t')"
    using slots_write[OF so i(2), of ?n] live i(3,4) t1(1) by (simp add: new_slot_simps is_live_def)
  have pins: "shared_pins dig ?t' (r', s') =
      (if (r', s') = (r, s) then Some \<lparr>pin_instance_id = inst, pin_epoch = e, pin_endpoint_id = ep\<rparr>
       else if is_live (st_slots t ! i) \<and> slot_key (st_slots t ! i) = dig s' r' then None else shared_pins dig t (r', s'))" if k': "(r', s') \<in> K" for r' s'
    using pins_write[OF so i(2) _ so', of ?n r' s'] digest_inj[OF dg k k'] live t1(1) by (simp add: new_slot_simps pin_of_new_slot[OF p])
  show ?thesis
  proof (rule that[OF i(1,2) commit_pin_eq[where dig = dig, OF i(1) pr p] _ _ ev])
    show "shared_ok dig tag K ?t'" using so' t1 by (simp add: shared_ok_def)
    show "\<forall>k' \<in> K. shared_pins dig ?t' k' =
      (if k' = (r, s) then Some \<lparr>pin_instance_id = inst, pin_epoch = e, pin_endpoint_id = ep\<rparr>
       else if is_live (st_slots t ! i) \<and> slot_key (st_slots t ! i) = dig (snd k') (fst k') then None else shared_pins dig t k')"
      using pins by (metis prod.collapse)
  qed
qed

section \<open>Dropping a session\<close>

lemma drop_session_prefix:
  assumes ok: "shared_ok dig tag K t" and m: "m \<le> length (st_slots t)"
  shows "\<exists>t'. foldl (drop_session_step tag s) (t, 0) [0..<m] = (t', length (filter (of_session tag s) (take m (st_slots t)))) \<and>
    shared_ok dig tag K t' \<and>
    st_slots t' = map (\<lambda>x. if of_session tag s x then tombstone else x) (take m (st_slots t)) @ drop m (st_slots t)"
  using m
proof (induction m)
  case (Suc m)
  let ?f = "\<lambda>x. if of_session tag s x then tombstone else x" let ?S = "st_slots t" let ?x = "?S ! m"
  from Suc obtain t' where t': "foldl (drop_session_step tag s) (t, 0) [0..<m] = (t', length (filter (of_session tag s) (take m ?S)))"
    "shared_ok dig tag K t'" "st_slots t' = map ?f (take m ?S) @ drop m ?S" by auto
  have m: "m < length ?S" using Suc.prems by simp
  have x: "st_slots t' ! m = ?x" "length (st_slots t') = length ?S" using m t'(3) by (simp_all add: nth_append)
  have tk: "take (Suc m) ?S = take m ?S @ [?x]" "drop m ?S = ?x # drop (Suc m) ?S" using m by (simp_all add: take_Suc_conv_app_nth Cons_nth_drop_Suc)
  show ?case
  proof (cases "of_session tag s ?x")
    case True
    let ?t'' = "make_tombstone m (unpack_text (sl_role ?x)) (sl_instance_id ?x) t'"
    have "shared_ok dig tag K ?t''" "st_slots ?t'' = (st_slots t')[m := tombstone]"
      using make_tombstone_ok[OF t'(2), of m] m x True by (simp_all add: of_session_def)
    moreover have "drop_session_step tag s (t', n) m = (?t'', Suc n)" for n using True by (simp add: drop_session_step_def Let_def x(1))
    moreover have "(st_slots t')[m := tombstone] = map ?f (take m ?S) @ tombstone # drop (Suc m) ?S" using m by (simp add: t'(3) tk(2) list_update_append)
    ultimately show ?thesis using t'(1) True by (simp add: tk(1))
  next
    case False
    then have "drop_session_step tag s (t', n) m = (t', n)" for n by (simp add: drop_session_step_def Let_def x(1))
    then show ?thesis using t' False by (simp add: tk)
  qed
qed (use ok in simp)

lemma drop_all_spec:
  assumes dg: "digests_ok dig tag K" and ok: "shared_ok dig tag K t" and s: "s \<noteq> []"
  obtains t' where "shared_drop_all_roles tag s t = (t', length (filter (of_session tag s) (st_slots t)))" "shared_ok dig tag K t'"
    "\<forall>k \<in> K. shared_pins dig t' k = (if tag (snd k) = tag s then None else shared_pins dig t k)"
proof -
  let ?f = "\<lambda>x. if of_session tag s x then tombstone else x" let ?S = "st_slots t"
  obtain t' where t': "foldl (drop_session_step tag s) (t, 0) [0..<length ?S] = (t', length (filter (of_session tag s) ?S))"
    "shared_ok dig tag K t'" "st_slots t' = map ?f ?S" using drop_session_prefix[OF ok order.refl, of s] by auto
  have so: "slots_ok dig tag K ?S" "slots_ok dig tag K (st_slots t')" using ok t'(2) by (simp_all add: shared_ok_def)
  have l: "length (st_slots t') = length ?S" using t'(3) by simp
  have live: "is_live (st_slots t' ! j) \<longleftrightarrow> is_live (?S ! j) \<and> \<not> of_session tag s (?S ! j)"
    "is_live (st_slots t' ! j) \<Longrightarrow> st_slots t' ! j = ?S ! j" if "j < length ?S" for j using that t'(3) by auto
  have "shared_pins dig t' (ra, sa) = (if tag sa = tag s then None else shared_pins dig t (ra, sa))" if k: "(ra, sa) \<in> K" for ra sa
  proof (rule pins_cases[of dig t ra sa])
    assume a: "shared_pins dig t (ra, sa) = None" "\<forall>i < length ?S. is_live (?S ! i) \<longrightarrow> slot_key (?S ! i) \<noteq> dig sa ra"
    have "slot_key (st_slots t' ! j) \<noteq> dig sa ra" if "j < length (st_slots t')" "is_live (st_slots t' ! j)" for j
      using live[of j] that l a(2) by metis
    then have "shared_pins dig t' (ra, sa) = None" by (rule pins_None)
    then show ?thesis using a(1) by simp
  next
    fix i assume i: "i < length ?S" "is_live (?S ! i)" "slot_key (?S ! i) = dig sa ra"
    obtain r' s' where x: "(r', s') \<in> K" "slot_key (?S ! i) = dig s' r'" "unpack_text (sl_session (?S ! i)) = tag s'"
      using live_role[OF dg so(1) i(1,2)] by metis
    then have "tag sa = tag s'" using digest_inj[OF dg k x(1)] i(3) by simp
    then have os: "of_session tag s (?S ! i) \<longleftrightarrow> tag sa = tag s" using i(2) x(3) by (auto simp: of_session_def)
    show ?thesis
    proof (cases "tag sa = tag s")
      case True
      have "slot_key (st_slots t' ! j) \<noteq> dig sa ra" if "j < length (st_slots t')" "is_live (st_slots t' ! j)" for j
      proof
        assume e: "slot_key (st_slots t' ! j) = dig sa ra"
        have j: "j < length ?S" using that(1) l by simp
        have "is_live (?S ! j)" "\<not> of_session tag s (?S ! j)" "st_slots t' ! j = ?S ! j" using live[OF j] that(2) by blast+
        then have "j = i" using slots_unique[OF so(1) j i(1) _ i(2)] e i(3) by simp
        then show False using \<open>\<not> of_session tag s (?S ! j)\<close> os True by simp
      qed
      then show ?thesis using True pins_None[of t' dig sa ra] by simp
    next
      case False
      then have li: "is_live (st_slots t' ! i)" "st_slots t' ! i = ?S ! i" using live[OF i(1)] i(2) os by auto
      have "shared_pins dig t' (ra, sa) = Some (pin_of (?S ! i))"
        using pins_at[OF so(2), of i sa ra] li l i by simp
      then show ?thesis using pins_at[of dig tag K t i sa ra, OF so(1) i] False by simp
    qed
  qed
  then have "\<forall>k \<in> K. shared_pins dig t' k = (if tag (snd k) = tag s then None else shared_pins dig t k)" by (metis prod.collapse)
  moreover have "shared_drop_all_roles tag s t = (t', length (filter (of_session tag s) ?S))"
    using s t'(1) by (simp add: shared_drop_all_roles_def drop_session_step_def[abs_def] of_session_def)
  ultimately show ?thesis using that t'(2) by blast
qed

lemma declare_retention_ok:
  assumes dg: "digests_ok dig tag K" and ok: "shared_ok dig tag K t" and k: "(r, s) \<in> K"
  shows "shared_ok dig tag K (declare_retention dig tag now s r x t) \<and> shared_pins dig (declare_retention dig tag now s r x t) = shared_pins dig t"
proof (cases "s = [] \<or> matching_slot dig tag now s r t = None")
  case False
  have so: "slots_ok dig tag K (st_slots t)" using ok by (simp add: shared_ok_def)
  obtain i where m: "matching_slot dig tag now s r t = Some i" using False by auto
  have i: "i < length (st_slots t)" "is_live (st_slots t ! i)" using matching_slot_iff[OF dg so k, of now i] m by simp_all
  let ?s = "(st_slots t ! i)\<lparr>retention_expires := max (retention_expires (st_slots t ! i)) x\<rparr>"
  show ?thesis using touch_ok[OF ok i, of ?s] m False by (simp add: declare_retention_def slot_key_def pin_of_def)
qed (use ok in \<open>auto simp: declare_retention_def\<close>)

section \<open>Attaching\<close>

lemma counted_Nil [simp]: "counted [] role b = 0"
  by (simp add: counted_def)

lemma counted_Cons: "counted ((k, c) # d) role b = (if fst k = role \<and> bucket (snd k) = b then c else 0) + counted d role b"
  by (simp add: counted_def)

lemma counted_increment:
  "counted (dict_set k (Suc (case dict_get d k of Some c \<Rightarrow> c | None \<Rightarrow> 0)) d) role b =
   counted d role b + (if fst k = role \<and> bucket (snd k) = b then 1 else 0)"
  by (induction d) (auto simp: counted_Cons counted_def)

lemma count_all_counted: "counted (count_all ss d) role b = counted d role b + live_count ss role b"
proof (induction ss d rule: count_all.induct)
  case (2 s ss d)
  then show ?case by (simp add: live_count_def counted_increment Let_def)
qed (simp add: live_count_def)

lemma foldl_counter_add:
  assumes "length (st_counters t) = 260" and "role_counter_idx role = Some r" and "b < 65" and "0 \<le> st_counters t ! (r * 65 + b)"
    and "t' = foldl (\<lambda>t ((role, i), c). counter_add role i (int c) t) t d"
  shows "length (st_counters t') = 260 \<and> st_slots t' = st_slots t \<and> st_counters t' ! (r * 65 + b) = st_counters t ! (r * 65 + b) + int (counted d role b)"
  using assms
proof (induction d arbitrary: t t')
  case Nil
  then show ?case by (simp add: counted_def)
next
  case (Cons x d)
  obtain ro i c where x: "x = ((ro, i), c)" by (metis surj_pair)
  let ?t = "counter_add ro i (int c) t"
  note at = counter_add_at[OF Cons.prems(1-3), of ro i "int c"]
  have "0 \<le> st_counters ?t ! (r * 65 + b)" using at(2) Cons.prems(4) by simp
  from Cons.IH[OF at(1) Cons.prems(2,3) this refl]
  show ?case using at(2) Cons.prems(4,5) by (auto simp: x counted_Cons)
qed

lemma rebuild_ok:
  "counters_ok (st_slots t) (st_counters (rebuild_counters t)) \<and> st_slots (rebuild_counters t) = st_slots t"
proof -
  let ?z = "t\<lparr>st_counters := replicate (COUNTER_SLOTS * length AFFINITY_ROLES) 0\<rparr>"
  have l: "length (st_counters ?z) = 260" by (simp add: COUNTER_SLOTS_def COUNTER_INSTANCES_def AFFINITY_ROLES_def)
  have z: "st_counters ?z ! j = 0" if "j < 260" for j using that by (simp add: COUNTER_SLOTS_def COUNTER_INSTANCES_def AFFINITY_ROLES_def)
  have r: "length (st_counters (rebuild_counters t)) = 260 \<and> st_slots (rebuild_counters t) = st_slots t \<and>
      st_counters (rebuild_counters t) ! (r * 65 + b) = int (live_count (st_slots t) role b)"
    if rb: "role_counter_idx role = Some r" "b < 65" for role r b
  proof -
    have "r * 65 + b < 260" using role_idx[OF rb(1)] rb(2) by linarith
    then have z0: "st_counters ?z ! (r * 65 + b) = 0" by (rule z)
    show ?thesis using foldl_counter_add[OF l rb _ refl, of "count_all (st_slots t) []"] z0
      by (simp add: rebuild_counters_def count_all_counted)
  qed
  have "role_counter_idx ''prefill'' = Some 0" by (simp add: role_counter_idx_def AFFINITY_ROLES_def)
  then have "length (st_counters (rebuild_counters t)) = 260" "st_slots (rebuild_counters t) = st_slots t" using r[of "''prefill''" 0 0] by simp_all
  then show ?thesis using r unfolding counters_ok_def by simp
qed

section \<open>Runs\<close>

lemma commit_keeps:
  assumes "shared_inv dig tag K t" and "(r, s) \<in> K" and "packable i e ep"
  shows "shared_ok dig tag K (fst (commit_pin dig tag now tick s i r e ep t))"
proof -
  from assms(1) have dg: "digests_ok dig tag K" and ok: "shared_ok dig tag K t" by simp_all
  show ?thesis by (rule commit_pin_spec[OF dg ok assms(2,3), of now tick]) simp
qed

lemma balanced_commits:
  "shared_record_balanced dig tag now tick s c r e l q ep t = (t', ans) \<Longrightarrow>
   t' = t \<or> (\<exists>i \<in> set c. t' = fst (commit_pin dig tag now tick s i r e ep t))"
proof (cases "s = [] \<or> c = []")
  case False
  assume b: "shared_record_balanced dig tag now tick s c r e l q ep t = (t', ans)"
  let ?ids = "sort (remdups c)" let ?n = "count_pins_by_instance r t"
  let ?l = "map (\<lambda>i. (i, case dict_get l i of Some x \<Rightarrow> x | None \<Rightarrow> 0)) ?ids"
  have "?ids \<noteq> []" using False by (metis set_empty set_remdups set_sort)
  then obtain i where i: "i \<in> set c" "select_balanced_instance ?ids ?n ?l q = Some i"
    using select_balanced_least[of ?ids ?n ?l q] by auto
  have "t' = fst (commit_pin dig tag now tick s i r e ep t)"
    using b False i(2) by (auto simp: shared_record_balanced_def Let_def split: prod.splits)
  then show ?thesis using i(1) by blast
qed (auto simp: shared_record_balanced_def)

lemma shared_step_keeps:
  assumes inv: "shared_inv dig tag K t" and f: "op_fits K op"
  shows "shared_inv dig tag K (shared_step dig tag t op)"
proof -
  from inv have dg: "digests_ok dig tag K" and ok: "shared_ok dig tag K t" by simp_all
  have "shared_ok dig tag K (shared_step dig tag t op)"
  proof (cases op)
    case Sh_attach
    then show ?thesis using ok rebuild_ok[of t] by (simp add: shared_ok_def)
  next
    case (Sh_get now tick s r)
    then show ?thesis using shared.get_keeps[OF inv, of s r now tick] f ok by (cases "s = []") (simp_all add: shared_get_def)
  next
    case (Sh_record now tick s i r e ep)
    then show ?thesis using commit_keeps[OF inv, of r s i e ep now tick] f ok
      by (cases "s = []") (simp_all add: shared_record_def case_prod_unfold Let_def)
  next
    case (Sh_drop now s r)
    then show ?thesis using shared.drop_removes[OF inv, of s r now] f ok by (cases "s = []") (simp_all add: shared_drop_def)
  next
    case (Sh_drop_all s)
    show ?thesis
    proof (cases "s = []")
      case False
      obtain t' n where "shared_drop_all_roles tag s t = (t', n)" "shared_ok dig tag K t'" by (rule drop_all_spec[OF dg ok False])
      then show ?thesis using Sh_drop_all by simp
    qed (use Sh_drop_all ok in \<open>simp add: shared_drop_all_roles_def\<close>)
  next
    case (Sh_balanced now tick s c r e l q ep)
    obtain t' ans where b: "shared_record_balanced dig tag now tick s c r e l q ep t = (t', ans)" by fastforce
    show ?thesis using balanced_commits[OF b] commit_keeps[OF inv, of r s _ e ep now tick] f ok b Sh_balanced by auto
  next
    case (Sh_retain now s r x)
    then show ?thesis using declare_retention_ok[OF dg ok, of r s] f by simp
  qed
  then show ?thesis using dg by simp
qed

interpretation shared_run: step_invariant "shared_step dig tag" "op_fits K" "shared_inv dig tag K" for dig tag K
  by unfold_locales (rule shared_step_keeps)

lemma init_slots: "st_slots (SharedTable_init n) = replicate (nat (max 1 n)) empty_slot"
  using rebuild_ok[of "\<lparr>st_slots = replicate (nat (max 1 n)) empty_slot, st_counters = []\<rparr>"] by (simp add: SharedTable_init_def)

lemma shared_init_ok: "shared_ok dig tag K (SharedTable_init n)"
proof -
  have "slots_ok dig tag K (st_slots (SharedTable_init n))"
    unfolding init_slots by (simp add: slots_ok_def is_live_def is_empty_slot_def empty_slot_def)
  then show ?thesis using rebuild_ok[of "\<lparr>st_slots = replicate (nat (max 1 n)) empty_slot, st_counters = []\<rparr>"]
    unfolding shared_ok_def SharedTable_init_def by simp
qed

lemma reachable_ok:
  assumes "digests_ok dig tag K" and "list_all (op_fits K) ops"
  shows "shared_ok dig tag K (foldl (shared_step dig tag) (SharedTable_init n) ops)"
  using shared_run.run_keeps[of dig tag K "SharedTable_init n" ops] assms shared_init_ok by blast

section \<open>Counting pins\<close>

lemma scan_slots_get:
  "dict_get (scan_slots role ss d) i =
   (if inst_count role ss i = 0 then dict_get d i else Some (inst_count role ss i + (case dict_get d i of Some c \<Rightarrow> c | None \<Rightarrow> 0)))"
  by (induction role ss d rule: scan_slots.induct) (auto simp: inst_count_def split: option.split)

lemma scan_counts_get: "dict_get (scan_counts role t) i = (if inst_count role (st_slots t) i = 0 then None else Some (inst_count role (st_slots t) i))"
  by (simp add: scan_counts_def scan_slots_get)

lemma map_filter_get:
  "dict_get (List.map_filter (\<lambda>i. if P i then Some (int i, f i) else None) [0..<n]) k =
   (if 0 \<le> k \<and> k < int n \<and> P (nat k) then Some (f (nat k)) else None)"
proof (induction n)
  case (Suc n)
  have "k < int (Suc n) \<longleftrightarrow> k < int n \<or> k = int n" by linarith
  then show ?case using Suc by (auto simp: List.map_filter_def map_add_def)
qed (simp add: List.map_filter_def)

lemma bucket_eq: "0 \<le> i \<Longrightarrow> i < 64 \<Longrightarrow> bucket j = nat i \<longleftrightarrow> j = i"
  by (auto simp: bucket_def)

lemma inst_count_bucket: "0 \<le> i \<Longrightarrow> i < 64 \<Longrightarrow> live_count slots role (nat i) = inst_count role slots i"
  by (simp add: live_count_def inst_count_def bucket_eq)

lemma inst_count_overflow: "live_count slots role 64 = 0 \<Longrightarrow> \<not> (0 \<le> i \<and> i < 64) \<Longrightarrow> inst_count role slots i = 0"
  by (auto simp: live_count_def inst_count_def filter_empty_conv bucket_def)

lemma counts_get:
  assumes c: "counters_ok (st_slots t) (st_counters t)"
  shows "dict_get (count_pins_by_instance role t) i = dict_get (scan_counts role t) i"
proof (cases "role_counter_idx role")
  case None
  then show ?thesis by (simp add: count_pins_by_instance_def read_counters_def)
next
  case (Some r)
  let ?raw = "take COUNTER_SLOTS (drop (r * COUNTER_SLOTS) (st_counters t))"
  have raw: "?raw ! b = int (live_count (st_slots t) role b)" if b: "b < 65" for b
  proof -
    have "length (st_counters t) = 260" "st_counters t ! (r * 65 + b) = int (live_count (st_slots t) role b)"
      using c Some b by (simp_all add: counters_ok_def)
    moreover have "r * 65 + b < 260" using role_idx[OF Some] b by linarith
    ultimately show ?thesis using b by (simp add: COUNTER_SLOTS_def COUNTER_INSTANCES_def)
  qed
  show ?thesis
  proof (cases "live_count (st_slots t) role 64 = 0")
    case False
    then have "?raw ! COUNTER_INSTANCES \<noteq> 0" using raw[of 64] by (simp add: COUNTER_INSTANCES_def)
    then show ?thesis using Some by (simp add: count_pins_by_instance_def read_counters_def Let_def)
  next
    case True
    then have "?raw ! COUNTER_INSTANCES = 0" using raw[of 64] by (simp add: COUNTER_INSTANCES_def)
    then have e: "count_pins_by_instance role t =
        List.map_filter (\<lambda>i. if ?raw ! i \<noteq> 0 then Some (int i, nat (?raw ! i)) else None) [0..<COUNTER_INSTANCES]"
      using Some by (simp add: count_pins_by_instance_def read_counters_def Let_def)
    have "dict_get (count_pins_by_instance role t) i =
        (if 0 \<le> i \<and> i < 64 \<and> ?raw ! nat i \<noteq> 0 then Some (nat (?raw ! nat i)) else None)"
      unfolding e map_filter_get[where P = "\<lambda>i. ?raw ! i \<noteq> 0" and f = "\<lambda>i. nat (?raw ! i)"] by (simp add: COUNTER_INSTANCES_def)
    also have "\<dots> = (if inst_count role (st_slots t) i = 0 then None else Some (inst_count role (st_slots t) i))"
    proof (cases "0 \<le> i \<and> i < 64")
      case True
      then have "?raw ! nat i = int (inst_count role (st_slots t) i)" using raw[of "nat i"] inst_count_bucket[of i] by (simp add: nat_less_iff)
      then show ?thesis using True by simp
    qed (use inst_count_overflow[OF True] in auto)
    finally show ?thesis by (simp add: scan_counts_get)
  qed
qed

lemma inst_count_sessions:
  assumes dg: "digests_ok dig tag K" and so: "slots_ok dig tag K (st_slots t)"
  shows "inst_count role (st_slots t) i = card (pinned_sessions dig K t role i)"
proof -
  let ?S = "st_slots t"
  let ?I = "{j. j < length ?S \<and> is_live (?S ! j) \<and> unpack_text (sl_role (?S ! j)) = role \<and> sl_instance_id (?S ! j) = i}"
  let ?h = "\<lambda>j. THE s. (role, s) \<in> K \<and> slot_key (?S ! j) = dig s role"
  have h: "\<exists>s. ?h j = s \<and> (role, s) \<in> K \<and> slot_key (?S ! j) = dig s role" if jI: "j \<in> ?I" for j
  proof -
    have j: "j < length ?S" "is_live (?S ! j)" "unpack_text (sl_role (?S ! j)) = role" using jI by simp_all
    obtain r s where rs: "(r, s) \<in> K" "slot_key (?S ! j) = dig s r" "unpack_text (sl_role (?S ! j)) = r" by (rule live_role[OF dg so j(1,2)])
    then have s: "(role, s) \<in> K" "slot_key (?S ! j) = dig s role" using j(3) by simp_all
    have "?h j = s" by (rule the_equality) (use s digest_inj[OF dg s(1)] in auto)
    then show ?thesis using s by blast
  qed
  have inj: "inj_on ?h ?I"
  proof (rule inj_onI)
    fix j k assume jk: "j \<in> ?I" "k \<in> ?I" "?h j = ?h k"
    then have "slot_key (?S ! j) = slot_key (?S ! k)" using h[OF jk(1)] h[OF jk(2)] by metis
    then show "j = k" using slots_unique[OF so] jk(1,2) by blast
  qed
  have img: "?h ` ?I = pinned_sessions dig K t role i"
  proof (intro equalityI subsetI)
    fix s assume "s \<in> ?h ` ?I"
    then obtain j where j: "j \<in> ?I" "(role, s) \<in> K" "slot_key (?S ! j) = dig s role" using h by blast
    then have "shared_pins dig t (role, s) = Some (pin_of (?S ! j))" using pins_at[OF so, of j s role] by simp
    then show "s \<in> pinned_sessions dig K t role i" using j by (simp add: pinned_sessions_def pin_of_def)
  next
    fix s assume "s \<in> pinned_sessions dig K t role i"
    then obtain p where p: "(role, s) \<in> K" "shared_pins dig t (role, s) = Some p" "pin_instance_id p = i" by (auto simp: pinned_sessions_def)
    show "s \<in> ?h ` ?I"
    proof (rule pins_cases[of dig t role s])
      fix j assume j: "j < length ?S" "is_live (?S ! j)" "slot_key (?S ! j) = dig s role"
      then have "p = pin_of (?S ! j)" using pins_at[OF so, of j s role] p(2) by simp
      moreover obtain r' s' where x: "(r', s') \<in> K" "slot_key (?S ! j) = dig s' r'" "unpack_text (sl_role (?S ! j)) = r'"
        using live_role[OF dg so j(1,2)] by metis
      ultimately have ji: "j \<in> ?I" using j p(3) digest_inj[OF dg p(1) x(1)] by (simp add: pin_of_def)
      obtain s'' where x': "?h j = s''" "(role, s'') \<in> K" "slot_key (?S ! j) = dig s'' role" using h[OF ji] by blast
      have "s = s''" using j(3) x'(3) digest_inj[OF dg p(1) x'(2)] by simp
      then show ?thesis using imageI[OF ji, of ?h] x'(1) by simp
    qed (use p(2) in simp)
  qed
  have "card ?I = card (pinned_sessions dig K t role i)" using card_image[OF inj] unfolding img by (rule sym)
  then show ?thesis unfolding inst_count_def length_filter_conv_card by simp
qed

section \<open>Properties\<close>

text \<open>
  C14: the shared table is a map from keys to pins. Recording a pin never fails; it gives the key that
  pin and leaves every other key as it was, except for at most one: a key whose slot was taken, and
  a slot is taken from another key only when every slot of the window is live, as the least recently
  used of those without a live retention promise if there is one.
\<close>

theorem record_refines_map:
  assumes dg: "digests_ok dig tag K" and ops: "list_all (op_fits K) ops" and t: "t = foldl (shared_step dig tag) (SharedTable_init n) ops"
    and k: "(r, s) \<in> K" "s \<noteq> []" and p: "packable i e ep"
  shows "\<exists>t' lost. shared_record dig tag now tick s i r e ep t = (t', Inr ()) \<and>
    shared_pins dig t' |` K = (shared_pins dig t |` (K - lost))((r, s) \<mapsto> \<lparr>pin_instance_id = i, pin_epoch = e, pin_endpoint_id = ep\<rparr>) \<and>
    finite lost \<and> card lost \<le> 1 \<and>
    (\<forall>(r', s') \<in> lost. \<exists>j < length (st_slots t). slot_key (st_slots t ! j) = dig s' r' \<and> evictable now (dig s r) (st_slots t) j)"
proof -
  have ok: "shared_ok dig tag K t" unfolding t by (rule reachable_ok[OF dg ops])
  obtain j t' where j: "j < length (st_slots t)" "commit_pin dig tag now tick s i r e ep t = (t', Inr True)"
    and pins: "\<forall>k' \<in> K. shared_pins dig t' k' =
      (if k' = (r, s) then Some \<lparr>pin_instance_id = i, pin_epoch = e, pin_endpoint_id = ep\<rparr>
       else if is_live (st_slots t ! j) \<and> slot_key (st_slots t ! j) = dig (snd k') (fst k') then None else shared_pins dig t k')"
    and ev: "is_live (st_slots t ! j) \<longrightarrow> slot_key (st_slots t ! j) = dig s r \<or> evictable now (dig s r) (st_slots t) j"
    by (rule commit_pin_spec[OF dg ok k(1) p, of now tick])
  let ?lost = "{k' \<in> K. k' \<noteq> (r, s) \<and> is_live (st_slots t ! j) \<and> slot_key (st_slots t ! j) = dig (snd k') (fst k')}"
  have one: "x = y" if "x \<in> ?lost" "y \<in> ?lost" for x y
    using that digest_inj[OF dg, of "fst x" "snd x" "fst y" "snd y"] by (simp add: prod_eq_iff)
  have lost: "?lost = {} \<or> (\<exists>x. ?lost = {x})"
  proof (cases "?lost = {}")
    case False
    then obtain x where x: "x \<in> ?lost" by blast
    then have "?lost = {x}" using one[OF _ x] by (intro equalityI subsetI) auto
    then show ?thesis by blast
  qed simp
  then have fin: "finite ?lost \<and> card ?lost \<le> 1" by (elim disjE exE) (metis card.empty finite.emptyI zero_le, metis card_1_singleton_iff One_nat_def finite.emptyI finite_insert order.refl)
  have map: "shared_pins dig t' |` K = (shared_pins dig t |` (K - ?lost))((r, s) \<mapsto> \<lparr>pin_instance_id = i, pin_epoch = e, pin_endpoint_id = ep\<rparr>)"
    using pins k(1) by (auto simp: fun_eq_iff restrict_map_def)
  have taken: "slot_key (st_slots t ! j) = dig s' r' \<and> evictable now (dig s r) (st_slots t) j" if "(r', s') \<in> ?lost" for r' s'
    using that ev digest_inj[OF dg k(1), of r' s'] by auto
  have "shared_record dig tag now tick s i r e ep t = (t', Inr ())" using k(2) j(2) by (simp add: shared_record_def)
  moreover have "\<forall>(r', s') \<in> ?lost. \<exists>j < length (st_slots t). slot_key (st_slots t ! j) = dig s' r' \<and> evictable now (dig s r) (st_slots t) j"
    using taken j(1) by blast
  ultimately show ?thesis using fin map by blast
qed

text \<open>
  The counters that balanced placement reads are exact: after any operations, the count of an
  instance is the number of sessions pinned to it in that role, as the full scan of the slots
  reports it, with or without instances beyond the counter region.
\<close>

theorem shared_counts_exact:
  assumes dg: "digests_ok dig tag K" and ops: "list_all (op_fits K) ops" and t: "t = foldl (shared_step dig tag) (SharedTable_init n) ops"
  shows "(let c = card (pinned_sessions dig K t role i) in
      dict_get (count_pins_by_instance role t) i = (if c = 0 then None else Some c) \<and>
      dict_get (scan_counts role t) i = dict_get (count_pins_by_instance role t) i)"
proof -
  have "shared_ok dig tag K t" unfolding t by (rule reachable_ok[OF dg ops])
  then have so: "slots_ok dig tag K (st_slots t)" and co: "counters_ok (st_slots t) (st_counters t)" by (simp_all add: shared_ok_def)
  show ?thesis unfolding Let_def counts_get[OF co] scan_counts_get inst_count_sessions[OF dg so] by simp
qed

text \<open>
  Resolution of a pin on the shared table is resolution over the map of its pins, as it is on
  the in-process table; another process can attach, drop or record in between.
\<close>

theorem resolution_shared:
  assumes dg: "digests_ok dig tag K" and ops: "list_all (op_fits K) ops" and t: "t = foldl (shared_step dig tag) (SharedTable_init n) ops"
    and k: "(r, s) \<in> K" "(r, q) \<in> K"
  shows "\<exists>t'. resolve_session_pin (shared_get dig tag now tick) (shared_drop dig tag now) (Some t) s q epoch r eligible =
      (Some t', snd (resolve_spec (shared_pins dig t |` K) s q epoch r eligible)) \<and>
    shared_pins dig t' |` K = fst (resolve_spec (shared_pins dig t |` K) s q epoch r eligible)"
proof -
  have "shared_inv dig tag K t" unfolding t using reachable_ok[OF dg ops] dg by blast
  from shared.resolve_refines[OF this, of s r q now tick epoch eligible] k show ?thesis by blast
qed

text \<open>
  An epoch that does not fit a signed 64-bit integer makes recording raise after the counters
  were adjusted: the session has no pin, but the counter of the instance is one too high.
\<close>

theorem oversized_epoch_miscounts:
  assumes dg: "digests_ok dig tag K" and ops: "list_all (op_fits K) ops" and t: "t = foldl (shared_step dig tag) (SharedTable_init n) ops"
    and k: "(r, s) \<in> K" "s \<noteq> []" "shared_pins dig t (r, s) = None" and x: "role_counter_idx r = Some x" and e: "2 ^ 63 \<le> e"
    and room: "\<exists>j \<in> set (probe_slots (fst (dig s r)) (length (st_slots t))). \<not> is_live (st_slots t ! j)"
  shows "\<exists>t'. shared_record dig tag now tick s i r (Some e) ep t = (t', Inl StructError) \<and> st_slots t' = st_slots t \<and>
    st_counters t' ! (x * 65 + bucket i) = int (live_count (st_slots t') r (bucket i)) + 1"
proof -
  have "shared_ok dig tag K t" unfolding t by (rule reachable_ok[OF dg ops])
  then have so: "slots_ok dig tag K (st_slots t)" and co: "counters_ok (st_slots t) (st_counters t)" by (simp_all add: shared_ok_def)
  obtain j where j: "find_slot now (dig s r) t = (None, Some j)" "\<not> is_live (st_slots t ! j)"
  proof (rule target_cases[OF so, of now "dig s r"])
    fix j assume "j < length (st_slots t)" "is_live (st_slots t ! j)" "slot_key (st_slots t ! j) = dig s r"
    from pins_at[OF so this] k(3) show thesis by simp
  next
    fix j assume a: "find_slot now (dig s r) t = (None, Some j)" "is_live (st_slots t ! j) \<longrightarrow> evictable now (dig s r) (st_slots t) j"
    then have "\<not> is_live (st_slots t ! j)" using room unfolding evictable_def by blast
    then show thesis using that a(1) by blast
  qed
  have pr: "prepare_slot_overwrite j (dig s r) r i t = (counter_add r i 1 t, 0)"
    using j(2) by (auto simp: prepare_slot_overwrite_def is_live_def Let_def)
  have w: "write_slot j (new_slot dig tag now tick s i r (Some e) ep 0) t1 = (t1, Inl StructError)" for t1
    using e by (simp add: write_slot_def new_slot_def fits64_def)
  have "shared_record dig tag now tick s i r (Some e) ep t = (counter_add r i 1 t, Inl StructError)"
    using k(2) by (simp add: shared_record_def commit_pin_def j(1) pr w)
  moreover have "st_counters (counter_add r i 1 t) ! (x * 65 + bucket i) = int (live_count (st_slots t) r (bucket i)) + 1"
    using counter_add_at(2)[of t r x "bucket i" r i 1] co x bucket_bound[of i] by (simp add: counters_ok_def)
  ultimately show ?thesis by simp
qed

section \<open>Witnesses\<close>

lemma demo_digests: "digests_ok demo_dig id demo_keys"
  by (simp add: digests_ok_def demo_keys_def demo_dig_def text_ok_def NUL_def char_of_def inj_on_def)

lemma demo_fits: "list_all (op_fits demo_keys) demo_ops"
  by (simp add: demo_ops_def demo_keys_def packable_def fits64_def)

text \<open>
  Recording a third session in a table of two slots evicts the second one.
\<close>

theorem record_refines_map_witness:
  "\<exists>t'. shared_record demo_dig id 4 4 ''ccc'' 9 ''prefill'' None None demo_shared = (t', Inr ()) \<and>
    shared_pins demo_dig t' (''prefill'', ''ccc'') = Some \<lparr>pin_instance_id = 9, pin_epoch = None, pin_endpoint_id = None\<rparr>"
proof -
  have k: "(''prefill'', ''ccc'') \<in> demo_keys" "''ccc'' \<noteq> []" "packable 9 None None" by (simp_all add: demo_keys_def packable_def fits64_def)
  obtain t' lost where "shared_record demo_dig id 4 4 ''ccc'' 9 ''prefill'' None None demo_shared = (t', Inr ())"
    "shared_pins demo_dig t' |` demo_keys = (shared_pins demo_dig demo_shared |` (demo_keys - lost))((''prefill'', ''ccc'') \<mapsto>
       \<lparr>pin_instance_id = 9, pin_epoch = None, pin_endpoint_id = None\<rparr>)"
    using record_refines_map[OF demo_digests demo_fits demo_shared_def k, of 4 4] by blast
  then show ?thesis using k(1) by (metis fun_upd_same restrict_in)
qed

theorem shared_counts_exact_witness:
  "dict_get (count_pins_by_instance ''prefill'' demo_shared) 7 = dict_get (scan_counts ''prefill'' demo_shared) 7"
  using shared_counts_exact[OF demo_digests demo_fits demo_shared_def, of "''prefill''" 7] by (simp add: Let_def)

theorem resolution_shared_witness:
  "\<exists>t'. resolve_session_pin (shared_get demo_dig id 4 4) (shared_drop demo_dig id 4) (Some demo_shared) ''a'' ''bb'' None ''prefill'' {8} =
      (Some t', snd (resolve_spec (shared_pins demo_dig demo_shared |` demo_keys) ''a'' ''bb'' None ''prefill'' {8}))"
proof -
  have k: "(''prefill'', ''a'') \<in> demo_keys" "(''prefill'', ''bb'') \<in> demo_keys" by (simp_all add: demo_keys_def)
  show ?thesis using resolution_shared[OF demo_digests demo_fits demo_shared_def k] by blast
qed

theorem oversized_epoch_miscounts_witness:
  "\<exists>t'. shared_record demo_dig id 1 1 ''a'' 7 ''prefill'' (Some (2 ^ 63)) None (SharedTable_init 2) = (t', Inl StructError) \<and>
    st_counters t' ! 7 = int (live_count (st_slots t') ''prefill'' 7) + 1"
proof -
  have t: "SharedTable_init 2 = foldl (shared_step demo_dig id) (SharedTable_init 2) []" by simp
  have k: "(''prefill'', ''a'') \<in> demo_keys" "''a'' \<noteq> []" "shared_pins demo_dig (SharedTable_init 2) (''prefill'', ''a'') = None"
    by (simp_all add: demo_keys_def shared_pins_def init_slots find_None_iff is_live_def is_empty_slot_def empty_slot_def)
  have x: "role_counter_idx ''prefill'' = Some 0" by (simp add: role_counter_idx_def AFFINITY_ROLES_def)
  have e: "\<not> is_live (replicate 2 empty_slot ! 0)" by (simp add: is_live_def is_empty_slot_def empty_slot_def)
  have "\<exists>j \<in> set (probe_slots (fst (demo_dig ''a'' ''prefill'')) (length (st_slots (SharedTable_init 2)))). \<not> is_live (st_slots (SharedTable_init 2) ! j)"
    unfolding init_slots using e by (intro bexI[of _ 0]) (auto simp: probe_slots_def demo_dig_def PROBE_WINDOW_def numeral_2_eq_2)
  from oversized_epoch_miscounts[OF demo_digests _ t k x order.refl this, of 1 1 7 None]
  show ?thesis by (auto simp: bucket_def)
qed

end
