(* ===== verification/Cache_Declarations.thy ===== *)
theory Cache_Declarations
  imports Shared_Affinity "HOL-Library.Multiset"
begin

text \<open>
  Retention of session pins, \<^verbatim>\<open>motor/coordinator/domain/cache_declaration.py\<close>, and its keeper in
  \<^verbatim>\<open>motor/coordinator/scheduler/runtime/scheduler_client.py\<close>: a client declares how long it wants
  its session kept; every worker process remembers the declarations it received in a table of its
  own, publishes them on the shared table of pins (\<open>Shared_Affinity\<close>), and a periodic pass releases
  the pins of the declarations that have expired.

  A table is one object of a worker whose methods hold its lock; the keeper's pass does not await.
  Both are one step. \<open>now_ms\<close> is the monotonic clock in milliseconds, \<open>wall\<close> the wall clock. A TTL
  that \<open>int()\<close> rejects is \<open>None\<close>, and so is a message offset that is no integer; a missing session
  ID or role behaves like the empty one.
\<close>

section \<open>Declarations\<close>

record CacheDeclaration =
  decl_session_id :: string
  decl_type :: string
  ttl_s :: int
  decl_msg_offset :: "int option"
  created_ms :: int
  expire_ms :: int
  decl_roles :: "string list"
  wall_created_s :: pyfloat
  dropped :: nat

record CacheDeclarationTable =
  max_declarations :: nat
  ttl_max_s :: int
  declarations :: "(string, CacheDeclaration) dict"
  pending_release :: "(string, CacheDeclaration) dict"

definition DECL_TYPES :: "string list" where
  "DECL_TYPES = [''pin'', ''ephemeral'']"

definition TTL_MIN_S :: int where
  "TTL_MIN_S = 60"

definition TTL_MAX_S :: int where
  "TTL_MAX_S = 3600"

definition remaining_s :: "int \<Rightarrow> CacheDeclaration \<Rightarrow> int" where
  "remaining_s now_ms d = max 0 ((expire_ms d - now_ms) div 1000)"

definition age_s :: "int \<Rightarrow> CacheDeclaration \<Rightarrow> int" where
  "age_s now_ms d = max 0 ((now_ms - created_ms d) div 1000)"

definition is_expired :: "int \<Rightarrow> CacheDeclaration \<Rightarrow> bool" where
  "is_expired now_ms d \<longleftrightarrow> expire_ms d \<le> now_ms"

definition normalize_ttl_max :: "int option \<Rightarrow> int" where
  "normalize_ttl_max n = (case n of Some x \<Rightarrow> max TTL_MIN_S x | None \<Rightarrow> TTL_MAX_S)"

definition CacheDeclarationTable_init :: "int \<Rightarrow> int option \<Rightarrow> CacheDeclarationTable" where
  "CacheDeclarationTable_init n ttl_max =
     \<lparr>max_declarations = nat (max 1 n), ttl_max_s = normalize_ttl_max ttl_max, declarations = [], pending_release = []\<rparr>"

definition clamp_ttl :: "int option \<Rightarrow> CacheDeclarationTable \<Rightarrow> int option" where
  "clamp_ttl ttl t = map_option (\<lambda>v. max TTL_MIN_S (min (ttl_max_s t) v)) ttl"

text \<open>
  \<open>while len(d) > n: d.popitem(last=False)\<close>
\<close>

definition keep_newest :: "nat \<Rightarrow> ('k, 'v) dict \<Rightarrow> ('k, 'v) dict" where
  "keep_newest n d = drop (length d - n) d"

definition expire_locked :: "int \<Rightarrow> CacheDeclarationTable \<Rightarrow> CacheDeclarationTable" where
  "expire_locked now_ms t =
     (let expired = filter (is_expired now_ms) (dict_values (declarations t));
          (decls, pend) = foldl (\<lambda>(decls, pend) d. (dict_pop (decl_session_id d) decls, dict_set (decl_session_id d) d pend))
                            (declarations t, pending_release t) expired
      in t\<lparr>declarations := decls, pending_release := keep_newest (max_declarations t) pend\<rparr>)"

definition update_limits :: "int \<Rightarrow> int option \<Rightarrow> int \<Rightarrow> CacheDeclarationTable \<Rightarrow> CacheDeclarationTable" where
  "update_limits n ttl_max now_ms t =
     (let t1 = expire_locked now_ms (t\<lparr>max_declarations := nat (max 1 n), ttl_max_s := normalize_ttl_max ttl_max\<rparr>)
      in t1\<lparr>declarations := keep_newest (max_declarations t1) (declarations t1)\<rparr>)"

definition declare_cache ::
  "string \<Rightarrow> string \<Rightarrow> int option \<Rightarrow> int option \<Rightarrow> string \<Rightarrow> int \<Rightarrow> pyfloat \<Rightarrow> CacheDeclarationTable
   \<Rightarrow> CacheDeclarationTable \<times> CacheDeclaration option" where
  "declare_cache session_id dtype ttl msg_offset role now_ms wall t =
     (if session_id = [] then (t, None)
      else if dtype \<notin> set DECL_TYPES then (t, None)
      else case clamp_ttl ttl t of
        None \<Rightarrow> (t, None)
      | Some ttl \<Rightarrow>
          (let t1 = expire_locked now_ms t;
               roles = (case dict_get (declarations t1) session_id of Some p \<Rightarrow> decl_roles p | None \<Rightarrow> []);
               d = \<lparr>decl_session_id = session_id, decl_type = dtype, ttl_s = ttl, decl_msg_offset = msg_offset, created_ms = now_ms,
                    expire_ms = now_ms + ttl * 1000, decl_roles = (if role \<noteq> [] \<and> role \<notin> set roles then roles @ [role] else roles),
                    wall_created_s = wall, dropped = 0\<rparr>
           in (t1\<lparr>pending_release := dict_pop session_id (pending_release t1),
                  declarations := keep_newest (max_declarations t1) (move_to_end session_id (dict_set session_id d (declarations t1)))\<rparr>,
               Some d)))"

definition decl_get :: "string \<Rightarrow> int \<Rightarrow> CacheDeclarationTable \<Rightarrow> CacheDeclarationTable \<times> CacheDeclaration option" where
  "decl_get session_id now_ms t =
     (if session_id = [] then (t, None)
      else (let t1 = expire_locked now_ms t in (t1, dict_get (declarations t1) session_id)))"

definition decl_drop :: "string \<Rightarrow> CacheDeclarationTable \<Rightarrow> CacheDeclarationTable \<times> bool" where
  "decl_drop session_id t =
     (if session_id = [] then (t, False)
      else (t\<lparr>pending_release := dict_pop session_id (pending_release t), declarations := dict_pop session_id (declarations t)\<rparr>,
            in_dict session_id (declarations t) \<or> in_dict session_id (pending_release t)))"

definition sweep :: "int \<Rightarrow> CacheDeclarationTable \<Rightarrow> CacheDeclarationTable \<times> CacheDeclaration list" where
  "sweep now_ms t =
     (let t1 = expire_locked now_ms t
      in (t1\<lparr>pending_release := []\<rparr>, sort_key (\<lambda>d. (expire_ms d, decl_session_id d)) (dict_values (pending_release t1))))"

definition requeue :: "CacheDeclaration \<Rightarrow> CacheDeclarationTable \<Rightarrow> CacheDeclarationTable" where
  "requeue d t = t\<lparr>pending_release := dict_set (decl_session_id d) d (pending_release t)\<rparr>"

definition decl_snapshot :: "CacheDeclarationTable \<Rightarrow> CacheDeclaration list" where
  "decl_snapshot t = rev (dict_values (declarations t))"

definition decl_active :: "int \<Rightarrow> CacheDeclarationTable \<Rightarrow> CacheDeclarationTable \<times> CacheDeclaration list" where
  "decl_active now_ms t = (let t1 = expire_locked now_ms t in (t1, rev (dict_values (declarations t1))))"

section \<open>The keeper\<close>

text \<open>
  The affinity table of a worker: none, its own, or the shared one, which alone has the operations
  on renewals and promises (\<open>hasattr\<close>).
\<close>

datatype affinity_table = No_table | In_process SessionAffinityTable | Shared SharedTable

fun table_drop_all_roles :: "session_tag \<Rightarrow> string \<Rightarrow> affinity_table \<Rightarrow> affinity_table \<times> nat" where
  "table_drop_all_roles tag s No_table = (No_table, 0)"
| "table_drop_all_roles tag s (In_process t) = (let (t', n) = aff_drop_all_roles s t in (In_process t', n))"
| "table_drop_all_roles tag s (Shared t) = (let (t', n) = shared_drop_all_roles tag s t in (Shared t', n))"

fun table_get :: "key_digest \<Rightarrow> session_tag \<Rightarrow> pyfloat \<Rightarrow> pyfloat \<Rightarrow> string \<Rightarrow> string \<Rightarrow> affinity_table \<Rightarrow> affinity_table \<times> SessionPin option" where
  "table_get dig tag now tick s r No_table = (No_table, None)"
| "table_get dig tag now tick s r (In_process t) = (let (t', p) = aff_get s r t in (In_process t', p))"
| "table_get dig tag now tick s r (Shared t) = (let (t', p) = shared_get dig tag now tick s r t in (Shared t', p))"

record CacheControl =
  cc_type :: string
  cc_ttl :: "int option"
  cc_msg_offset :: "int option"
  ttl_explicit :: bool

definition record_cache_declaration ::
  "key_digest \<Rightarrow> session_tag \<Rightarrow> pyfloat \<Rightarrow> int \<Rightarrow> pyfloat \<Rightarrow> CacheControl option \<Rightarrow> string \<Rightarrow> string
   \<Rightarrow> CacheDeclarationTable option \<Rightarrow> affinity_table \<Rightarrow> CacheDeclarationTable option \<times> affinity_table" where
  "record_cache_declaration dig tag now now_ms wall hint session_id role table a =
     (case table of
        None \<Rightarrow> (table, a)
      | Some c \<Rightarrow>
          if session_id = [] then (table, a)
          else case hint of
            None \<Rightarrow> (table, a)
          | Some cc \<Rightarrow>
              if \<not> ttl_explicit cc then (table, a)
              else (let (c1, ans) = declare_cache session_id (cc_type cc) (cc_ttl cc) (cc_msg_offset cc) role now_ms wall c
                    in case ans of
                         None \<Rightarrow> (Some c1, a)
                       | Some d \<Rightarrow>
                           (Some c1, case a of Shared t \<Rightarrow>
                              if role \<noteq> [] then Shared (declare_retention dig tag now session_id role (now + of_int (ttl_s d)) t) else a
                            | _ \<Rightarrow> a)))"

text \<open>
  Another worker's promise or a later renewal stands in the way of a release.
\<close>

definition outlived :: "key_digest \<Rightarrow> session_tag \<Rightarrow> pyfloat \<Rightarrow> CacheDeclaration \<Rightarrow> SharedTable \<Rightarrow> string \<Rightarrow> bool" where
  "outlived dig tag now d t role \<longleftrightarrow>
     (let own_expiry = wall_created_s d + of_int (ttl_s d)
      in role \<noteq> [] \<and>
         (own_expiry + 1 < peek_retention_expires dig tag now (decl_session_id d) role t \<or>
          (case peek_renewal dig tag now (decl_session_id d) role t of Some renewal \<Rightarrow> own_expiry + 1 < renewal | None \<Rightarrow> False)))"

definition release_expired_declaration ::
  "key_digest \<Rightarrow> session_tag \<Rightarrow> pyfloat \<Rightarrow> CacheDeclaration \<Rightarrow> affinity_table \<Rightarrow> affinity_table \<times> CacheDeclaration \<times> bool" where
  "release_expired_declaration dig tag now d a =
     (if (case a of Shared t \<Rightarrow> list_ex (outlived dig tag now d t) (decl_roles d) | _ \<Rightarrow> False) then (a, d, False)
      else (let (a1, n) = table_drop_all_roles tag (decl_session_id d) a in (a1, d\<lparr>dropped := n\<rparr>, True)))"

definition SWEEP_RELEASE_BATCH :: nat where
  "SWEEP_RELEASE_BATCH = 64"

text \<open>
  The pass over the swept declarations. The two lists are the declarations it logs as released and
  as deferred.
\<close>

fun release_loop ::
  "key_digest \<Rightarrow> session_tag \<Rightarrow> pyfloat \<Rightarrow> CacheDeclaration list \<Rightarrow> nat \<Rightarrow> CacheDeclarationTable \<Rightarrow> affinity_table
   \<Rightarrow> CacheDeclarationTable \<times> affinity_table \<times> CacheDeclaration list \<times> CacheDeclaration list" where
  "release_loop dig tag now [] n c a = (c, a, [], [])"
| "release_loop dig tag now (d # ds) n c a =
     (if SWEEP_RELEASE_BATCH \<le> n then release_loop dig tag now ds n (requeue d c) a
      else case release_expired_declaration dig tag now d a of
        (a1, d1, True) \<Rightarrow> (case release_loop dig tag now ds (n + 1) c a1 of (c2, a2, rel, dfr) \<Rightarrow> (c2, a2, d1 # rel, dfr))
      | (a1, d1, False) \<Rightarrow> (case release_loop dig tag now ds n c a1 of (c2, a2, rel, dfr) \<Rightarrow> (c2, a2, rel, d1 # dfr)))"

definition sweep_cache_declarations ::
  "key_digest \<Rightarrow> session_tag \<Rightarrow> pyfloat \<Rightarrow> int \<Rightarrow> CacheDeclarationTable \<Rightarrow> affinity_table
   \<Rightarrow> CacheDeclarationTable \<times> affinity_table \<times> CacheDeclaration list \<times> CacheDeclaration list" where
  "sweep_cache_declarations dig tag now now_ms c a = (let (c1, swept) = sweep now_ms c in release_loop dig tag now swept 0 c1 a)"

definition touch_cache_declarations ::
  "key_digest \<Rightarrow> session_tag \<Rightarrow> pyfloat \<Rightarrow> pyfloat \<Rightarrow> int \<Rightarrow> CacheDeclarationTable \<Rightarrow> affinity_table
   \<Rightarrow> CacheDeclarationTable \<times> affinity_table \<times> nat" where
  "touch_cache_declarations dig tag now tick now_ms c a =
     (if a = No_table then (c, a, 0)
      else (let (c1, act) = decl_active now_ms c;
                (a1, touched) = foldl (\<lambda>(a, n) (s, r). let (a', p) = table_get dig tag now tick s r a in (a', if p = None then n else n + 1)) (a, 0)
                  (concat (map (\<lambda>d. map (\<lambda>r. (decl_session_id d, r)) (decl_roles d)) act))
            in (c1, a1, touched)))"

text \<open>
  The end of a session, which every worker is told of.
\<close>

definition on_agent_status_event :: "session_tag \<Rightarrow> string \<Rightarrow> string \<Rightarrow> CacheDeclarationTable option \<Rightarrow> affinity_table
   \<Rightarrow> CacheDeclarationTable option \<times> affinity_table" where
  "on_agent_status_event tag session_id state c a =
     (if session_id = [] \<or> state = [] \<or> state \<noteq> ''finalize'' then (c, a)
      else (map_option (\<lambda>c. fst (decl_drop session_id c)) c, fst (table_drop_all_roles tag session_id a)))"

text \<open>
  A table in working order: a session is declared or waiting for its release, not both, and filed
  under its own ID.
\<close>

definition cache_ok :: "CacheDeclarationTable \<Rightarrow> bool" where
  "cache_ok t \<longleftrightarrow> distinct (dict_keys (declarations t @ pending_release t)) \<and> 0 < max_declarations t \<and>
     (\<forall>x \<in> set (declarations t @ pending_release t). decl_session_id (snd x) = fst x \<and> fst x \<noteq> [])"

definition roomy :: "string set \<Rightarrow> CacheDeclarationTable \<Rightarrow> bool" where
  "roomy S t \<longleftrightarrow> cache_ok t \<and> finite S \<and> card S \<le> max_declarations t \<and> fst ` set (declarations t @ pending_release t) \<subseteq> S"

definition filed :: "string \<Rightarrow> CacheDeclarationTable \<Rightarrow> CacheDeclaration option \<times> CacheDeclaration option" where
  "filed s t = (dict_get (declarations t) s, dict_get (pending_release t) s)"

datatype decl_op =
    D_declare string string "int option" "int option" string int pyfloat
  | D_get string int
  | D_drop string
  | D_sweep int
  | D_active int

fun decl_step :: "CacheDeclarationTable \<Rightarrow> decl_op \<Rightarrow> CacheDeclarationTable \<times> CacheDeclaration list" where
  "decl_step t (D_declare s ty ttl off r now wall) = (fst (declare_cache s ty ttl off r now wall t), [])"
| "decl_step t (D_get s now) = (fst (decl_get s now t), [])"
| "decl_step t (D_drop s) = (fst (decl_drop s t), [])"
| "decl_step t (D_sweep now) = sweep now t"
| "decl_step t (D_active now) = (fst (decl_active now t), [])"

fun decl_run :: "CacheDeclarationTable \<Rightarrow> decl_op list \<Rightarrow> CacheDeclarationTable \<times> CacheDeclaration list" where
  "decl_run t [] = (t, [])"
| "decl_run t (e # es) = (let (t1, out) = decl_step t e; (t2, outs) = decl_run t1 es in (t2, out @ outs))"

fun op_time :: "decl_op \<Rightarrow> int option" where
  "op_time (D_declare s ty ttl off r now wall) = Some now"
| "op_time (D_get s now) = Some now"
| "op_time (D_drop s) = None"
| "op_time (D_sweep now) = Some now"
| "op_time (D_active now) = Some now"

fun op_session :: "decl_op \<Rightarrow> string option" where
  "op_session (D_declare s ty ttl off r now wall) = Some s"
| "op_session (D_drop s) = Some s"
| "op_session _ = None"

definition reports_of :: "string \<Rightarrow> CacheDeclaration list \<Rightarrow> CacheDeclaration list" where
  "reports_of s = filter (\<lambda>d. decl_session_id d = s)"

definition expire_file :: "int \<Rightarrow> CacheDeclaration option \<times> CacheDeclaration option \<Rightarrow> CacheDeclaration option \<times> CacheDeclaration option" where
  "expire_file now f = (case f of (Some d, p) \<Rightarrow> if is_expired now d then (None, Some d) else f | _ \<Rightarrow> f)"

definition op_times :: "decl_op list \<Rightarrow> int list" where
  "op_times es = List.map_filter op_time es"

definition ops_within :: "string set \<Rightarrow> string \<Rightarrow> decl_op list \<Rightarrow> bool" where
  "ops_within S s es \<longleftrightarrow> (\<forall>e \<in> set es. op_session e \<noteq> Some s \<and> (\<forall>x. op_session e = Some x \<longrightarrow> x \<in> S))"

definition keyed :: "pin_key set \<Rightarrow> CacheDeclaration \<Rightarrow> bool" where
  "keyed K d \<longleftrightarrow> decl_session_id d \<noteq> [] \<and> decl_session_id d \<in> snd ` K \<and> (\<forall>r \<in> set (decl_roles d). r \<noteq> [] \<longrightarrow> (r, decl_session_id d) \<in> K)"

abbreviation sids :: "CacheDeclaration list \<Rightarrow> string list" where
  "sids ds \<equiv> map decl_session_id ds"

text \<open>
  Every declaration of the pass is released, deferred or put back; released ones lose their pins,
  and nothing else changes.
\<close>

definition pass_result ::
  "key_digest \<Rightarrow> session_tag \<Rightarrow> pin_key set \<Rightarrow> pyfloat \<Rightarrow> CacheDeclaration list \<Rightarrow> nat \<Rightarrow> CacheDeclarationTable \<Rightarrow> SharedTable
   \<Rightarrow> CacheDeclarationTable \<Rightarrow> SharedTable \<Rightarrow> CacheDeclaration list \<Rightarrow> CacheDeclaration list \<Rightarrow> CacheDeclaration list \<Rightarrow> bool" where
  "pass_result dig tag K now ds n c t c' t' rel dfr rest \<longleftrightarrow>
     shared_ok dig tag K t' \<and>
     (\<forall>k \<in> K. shared_pins dig t' k = (if snd k \<in> set (sids rel) then None else shared_pins dig t k)) \<and>
     n + length rel \<le> max n SWEEP_RELEASE_BATCH \<and> (rest \<noteq> [] \<longrightarrow> SWEEP_RELEASE_BATCH \<le> n + length rel) \<and>
     mset (sids rel @ sids dfr @ sids rest) = mset (sids ds) \<and> c' = foldl (\<lambda>c d. requeue d c) c rest \<and> set rest \<subseteq> set ds \<and>
     (\<forall>d \<in> set ds. decl_session_id d \<in> set (sids rel) \<longrightarrow> \<not> list_ex (outlived dig tag now d t) (decl_roles d)) \<and>
     (\<forall>d \<in> set ds. decl_session_id d \<in> set (sids dfr) \<longrightarrow> list_ex (outlived dig tag now d t) (decl_roles d))"

definition demo_cache :: CacheDeclarationTable where
  "demo_cache = fst (declare_cache ''bb'' ''pin'' (Some 100) None ''prefill'' 0 0 (CacheDeclarationTable_init 4 (Some 3600)))"

section \<open>Specification\<close>

section \<open>Expiry\<close>

lemma keep_newest_all [simp]: "length d \<le> n \<Longrightarrow> keep_newest n d = d"
  by (simp add: keep_newest_def)

lemma keep_newest_sub: "set (keep_newest n d) \<subseteq> set d" "distinct (dict_keys d) \<Longrightarrow> distinct (dict_keys (keep_newest n d))"
  by (auto simp: keep_newest_def drop_map[symmetric] distinct_drop dest: in_set_dropD)

lemma foldl_move:
  "foldl (\<lambda>(a, b) d. (f a d, g b d)) (a, b) ds = (foldl f a ds, foldl g b ds)"
  by (induction ds arbitrary: a b) simp_all

lemma foldl_pop: "foldl (\<lambda>D d. dict_pop (k d) D) D ds = filter (\<lambda>x. fst x \<notin> k ` set ds) D"
proof (induction ds arbitrary: D)
  case (Cons d ds)
  have "filter (\<lambda>x. fst x \<notin> k ` set ds) (dict_pop (k d) D) = filter (\<lambda>x. fst x \<notin> k ` set (d # ds)) D"
    unfolding AList.delete_eq filter_filter by (intro filter_cong) auto
  then show ?case by (simp add: Cons.IH)
qed simp

lemma expire_eq:
  assumes ok: "cache_ok t"
  shows "expire_locked now t = t\<lparr>declarations := filter (\<lambda>x. \<not> is_expired now (snd x)) (declarations t),
    pending_release := keep_newest (max_declarations t) (pending_release t @ filter (\<lambda>x. is_expired now (snd x)) (declarations t))\<rparr>"
proof -
  let ?D = "declarations t" let ?P = "pending_release t"
  let ?E = "filter (\<lambda>x. is_expired now (snd x)) ?D"
  have d: "distinct (map fst ?D)" "distinct (map fst ?P)" "set (map fst ?D) \<inter> set (map fst ?P) = {}" and sid: "\<forall>x \<in> set ?D. decl_session_id (snd x) = fst x"
    using ok by (auto simp: cache_ok_def)
  have ex: "filter (is_expired now) (map snd ?D) = map snd ?E" by (simp add: filter_map comp_def)
  have ks: "map decl_session_id (map snd ?E) = map fst ?E" using sid by simp
  have k: "decl_session_id ` set (map snd ?E) = fst ` set ?E" using ks by (metis list.set_map)
  have pop: "filter (\<lambda>x. fst x \<notin> decl_session_id ` set (map snd ?E)) ?D = filter (\<lambda>x. \<not> is_expired now (snd x)) ?D"
  proof (rule filter_cong[OF refl])
    fix x assume x: "x \<in> set ?D"
    have u: "y = x" if "y \<in> set ?D" "fst y = fst x" for y using d(1) x that by (metis eq_key_imp_eq_value prod.collapse)
    have "fst x \<in> fst ` set ?E \<longleftrightarrow> is_expired now (snd x)"
    proof
      assume "fst x \<in> fst ` set ?E"
      then obtain y where "y \<in> set ?D" "is_expired now (snd y)" "fst y = fst x" by fastforce
      then show "is_expired now (snd x)" using u by blast
    qed (use x in simp)
    then show "(fst x \<notin> decl_session_id ` set (map snd ?E)) = (\<not> is_expired now (snd x))" unfolding k by blast
  qed
  have "foldl (\<lambda>P d. dict_set (decl_session_id d) d P) ?P (map snd ?E) = ?P @ map (\<lambda>d. (decl_session_id d, d)) (map snd ?E)"
  proof (rule foldl_dict_set_fresh)
    show "distinct (map decl_session_id (map snd ?E))" unfolding ks using d(1) by (rule distinct_map_filter)
    have "dict_get ?P (decl_session_id (snd x)) = None" if "x \<in> set ?E" for x
      using that sid d(3) unfolding dict_get_None_iff by auto
    then show "\<forall>e \<in> set (map snd ?E). dict_get ?P (decl_session_id e) = None" by auto
  qed
  moreover have "map (\<lambda>d. (decl_session_id d, d)) (map snd ?E) = ?E" using sid by (intro nth_equalityI) (auto simp: prod_eq_iff dest!: nth_mem[of _ ?E])
  ultimately show ?thesis unfolding expire_locked_def ex foldl_move foldl_pop pop Let_def by simp
qed

lemma dict_get_filter_snd:
  "distinct (dict_keys d) \<Longrightarrow> dict_get (filter (\<lambda>x. P (snd x)) d) k = (case dict_get d k of Some v \<Rightarrow> if P v then Some v else None | None \<Rightarrow> None)"
  using dict_get_filter_map[of d "\<lambda>v. v" P k] by (simp add: case_prod_unfold)

lemma roomy_length: "roomy S t \<Longrightarrow> length (declarations t) + length (pending_release t) \<le> max_declarations t"
proof -
  assume r: "roomy S t"
  let ?ks = "dict_keys (declarations t @ pending_release t)"
  have "distinct ?ks" "set ?ks \<subseteq> S" "finite S" "card S \<le> max_declarations t" using r by (auto simp: roomy_def cache_ok_def)
  then have "length ?ks \<le> max_declarations t" using card_mono[of S "set ?ks"] distinct_card[of ?ks] by linarith
  then show ?thesis by simp
qed

lemma expire_roomy:
  fixes now
  assumes r: "roomy S t"
  defines "D \<equiv> filter (\<lambda>x. \<not> is_expired now (snd x)) (declarations t)" and "E \<equiv> filter (\<lambda>x. is_expired now (snd x)) (declarations t)"
  shows "expire_locked now t = t\<lparr>declarations := D, pending_release := pending_release t @ E\<rparr>" "roomy S (expire_locked now t)"
    "filed s (expire_locked now t) =
      (case filed s t of (Some d, p) \<Rightarrow> if is_expired now d then (None, Some d) else (Some d, p) | (None, p) \<Rightarrow> (None, p))"
proof -
  have ok: "cache_ok t" using r by (simp add: roomy_def)
  have d: "distinct (dict_keys (declarations t))" "distinct (dict_keys (pending_release t))"
    "fst ` set (declarations t) \<inter> fst ` set (pending_release t) = {}" using ok by (auto simp: cache_ok_def)
  have "length (pending_release t @ E) \<le> max_declarations t" 
    using roomy_length[OF r] length_filter_le[of "\<lambda>x. is_expired now (snd x)" "declarations t"] unfolding E_def length_append by linarith
  then show e: "expire_locked now t = t\<lparr>declarations := D, pending_release := pending_release t @ E\<rparr>"
    unfolding expire_eq[OF ok] D_def E_def by simp
  have sub: "set D \<union> set E = set (declarations t)" "fst ` set D \<inter> fst ` set E = {}"
  proof -
    show "set D \<union> set E = set (declarations t)" by (auto simp: D_def E_def)
    show "fst ` set D \<inter> fst ` set E = {}"
    proof (rule ccontr)
      assume "fst ` set D \<inter> fst ` set E \<noteq> {}"
      then obtain k v w where kv: "(k, v) \<in> set D" "(k, w) \<in> set E" by auto
      then have "v = w" using eq_key_imp_eq_value[OF d(1), of k v w] by (simp add: D_def E_def)
      then show False using kv by (simp add: D_def E_def)
    qed
  qed
  have dd: "distinct (dict_keys D)" "distinct (dict_keys E)" using d(1) by (simp_all add: D_def E_def distinct_map_filter)
  have "distinct (dict_keys (D @ pending_release t @ E))" using dd d(2,3) sub by auto
  moreover have "set (D @ pending_release t @ E) = set (declarations t @ pending_release t)" using sub(1) by auto
  ultimately show "roomy S (expire_locked now t)" using r unfolding e roomy_def cache_ok_def by (simp del: set_append map_append distinct_append)
  have E: "dict_get E s = (case dict_get (declarations t) s of Some v \<Rightarrow> if is_expired now v then Some v else None | None \<Rightarrow> None)"
    and D: "dict_get D s = (case dict_get (declarations t) s of Some v \<Rightarrow> if is_expired now v then None else Some v | None \<Rightarrow> None)"
    unfolding D_def E_def using dict_get_filter_snd[OF d(1), of "is_expired now" s] dict_get_filter_snd[OF d(1), of "\<lambda>v. \<not> is_expired now v" s]
    by (auto split: option.split)
  have "dict_get (pending_release t) s = None" if "dict_get (declarations t) s = Some v" for v
  proof -
    have "s \<in> fst ` set (declarations t)" using dict_get_in[OF that] by force
    then show ?thesis using d(3) unfolding dict_get_None_iff by blast
  qed
  then show "filed s (expire_locked now t) =
      (case filed s t of (Some d, p) \<Rightarrow> if is_expired now d then (None, Some d) else (Some d, p) | (None, p) \<Rightarrow> (None, p))"
    unfolding e filed_def by (auto simp: D E map_add_def split: option.split)
qed

text \<open>
  Declaring a session files it as declared and touches no other session.
\<close>

lemma declare_roomy:
  assumes r: "roomy S t" and s: "s \<in> S" and dc: "declare_cache s ty ttl off ro now wall t = (t', ans)"
  shows "roomy S t'" "s' \<noteq> s \<Longrightarrow> filed s' t' = filed s' (if ans = None then t else expire_locked now t)"
    "ans = Some d \<Longrightarrow> filed s t' = (Some d, None) \<and> decl_session_id d = s"
proof -
  let ?t1 = "expire_locked now t"
  have r1: "roomy S ?t1" by (rule expire_roomy(2)[OF r])
  then have ok1: "cache_ok ?t1" by (simp add: roomy_def)
  let ?D = "declarations ?t1" let ?P = "pending_release ?t1"
  have "roomy S t' \<and> (s' \<noteq> s \<longrightarrow> filed s' t' = filed s' (if ans = None then t else ?t1)) \<and> (ans = Some d \<longrightarrow> filed s t' = (Some d, None) \<and> decl_session_id d = s)"
  proof (cases ans)
    case None
    then have "t' = t" using dc by (auto simp: declare_cache_def Let_def split: if_splits option.splits)
    then show ?thesis using None r by simp
  next
    case (Some e)
    then have sn: "s \<noteq> []" and sid: "decl_session_id e = s"
      and t': "t' = ?t1\<lparr>pending_release := dict_pop s ?P, declarations := keep_newest (max_declarations ?t1) (move_to_end s (dict_set s e ?D))\<rparr>"
      using dc by (auto simp: declare_cache_def Let_def split: if_splits option.splits)
    have d: "distinct (dict_keys ?D)" "distinct (dict_keys ?P)" "fst ` set ?D \<inter> fst ` set ?P = {}" using ok1 by (auto simp: cache_ok_def)
    have dS: "distinct (dict_keys (dict_set s e ?D))" using d(1) by simp
    have lS: "set (dict_keys (dict_set s e ?D)) \<subseteq> S" using r1 s by (auto simp: roomy_def)
    have "length (dict_keys (dict_set s e ?D)) \<le> card S"
      using card_mono[OF _ lS] distinct_card[OF dS] r1 unfolding roomy_def by simp
    then have k: "keep_newest (max_declarations ?t1) (move_to_end s (dict_set s e ?D)) = move_to_end s (dict_set s e ?D)"
      using r1 move_to_end_ok(2)[OF dS, of s] by (simp add: roomy_def)
    have keys: "fst ` set (move_to_end s (dict_set s e ?D)) = insert s (fst ` set ?D)" by (auto simp: move_to_end_def)
    have mset: "set (move_to_end s (dict_set s e ?D)) \<subseteq> insert (s, e) (set ?D)"
      using d(1) by (auto simp: move_to_end_def set_dict_pop set_dict_set)
    have "distinct (dict_keys (move_to_end s (dict_set s e ?D) @ dict_pop s ?P))"
      using move_to_end_ok(1)[OF dS, of s] d keys by auto
    moreover have "\<forall>x \<in> set (move_to_end s (dict_set s e ?D) @ dict_pop s ?P). decl_session_id (snd x) = fst x \<and> fst x \<noteq> []"
      using mset ok1 sid sn by (auto simp: cache_ok_def set_dict_pop)
    moreover have "fst ` set (move_to_end s (dict_set s e ?D) @ dict_pop s ?P) \<subseteq> S"
      using r1 s unfolding roomy_def set_append image_Un keys keys_dict_pop by blast
    ultimately have "roomy S t'" using r1 s unfolding t' k roomy_def cache_ok_def by simp
    moreover have "filed s' t' = (if s' = s then (Some e, None) else filed s' ?t1)" for s' unfolding t' k filed_def by simp
    ultimately show ?thesis using Some sid by auto
  qed
  then show "roomy S t'" "s' \<noteq> s \<Longrightarrow> filed s' t' = filed s' (if ans = None then t else ?t1)"
    "ans = Some d \<Longrightarrow> filed s t' = (Some d, None) \<and> decl_session_id d = s" by blast+
qed

section \<open>Runs of a table\<close>

lemma filter_distinct_key:
  "distinct (map fst d) \<Longrightarrow> filter (\<lambda>x. fst x = k) d = (case dict_get d k of Some v \<Rightarrow> [(k, v)] | None \<Rightarrow> [])"
proof (induction d)
  case (Cons x d)
  have "filter (\<lambda>y. fst y = fst x) d = []" using Cons.prems by (auto simp: filter_empty_conv image_iff)
  then show ?case using Cons by (auto simp: prod_eq_iff)
qed simp

lemma reports_values:
  assumes "distinct (map fst d)" and "\<forall>x \<in> set d. decl_session_id (snd x) = fst x"
  shows "reports_of s (dict_values d) = (case dict_get d s of Some v \<Rightarrow> [v] | None \<Rightarrow> [])"
proof -
  have "reports_of s (dict_values d) = map snd (filter (\<lambda>x. fst x = s) d)"
    unfolding reports_of_def filter_map comp_def using assms(2) by (simp cong: filter_cong)
  then show ?thesis using filter_distinct_key[OF assms(1), of s] by (simp split: option.split)
qed

lemma reports_sort:
  assumes "reports_of s ds = rs" and "length rs \<le> 1"
  shows "reports_of s (sort_key f ds) = rs"
proof -
  have "reports_of s (sort_key f ds) = sort_key f rs" using assms(1) by (simp add: reports_of_def filter_sort)
  then show ?thesis using assms(2) by (cases rs) (auto simp: insort_is_Cons)
qed

text \<open>
  An operation that does not declare or drop a session moves its file at most from declared to
  pending; a sweep reports what is pending.
\<close>

lemma roomy_drop: "roomy S t \<Longrightarrow> roomy S (fst (decl_drop x t))"
  by (auto simp: decl_drop_def roomy_def cache_ok_def set_dict_pop)

lemma expire_filed:
  assumes "roomy S t"
  shows "filed s (expire_locked now t) = expire_file now (filed s t)"
  using expire_roomy(3)[OF assms, of s now] by (auto simp: expire_file_def split: prod.splits option.splits)

lemma sweep_roomy: "roomy S t \<Longrightarrow> roomy S (fst (sweep now t))"
  using expire_roomy(2)[of S t now] by (auto simp: sweep_def Let_def roomy_def cache_ok_def)

lemma sweep_filed:
  assumes r: "roomy S t"
  shows "filed s (fst (sweep now t)) = (fst (expire_file now (filed s t)), None)"
    "reports_of s (snd (sweep now t)) = (case snd (expire_file now (filed s t)) of Some d \<Rightarrow> [d] | None \<Rightarrow> [])"
proof -
  let ?t1 = "expire_locked now t"
  note f = expire_filed[OF r, of s now, symmetric]
  have r1: "roomy S ?t1" by (rule expire_roomy(2)[OF r])
  show "filed s (fst (sweep now t)) = (fst (expire_file now (filed s t)), None)" unfolding f by (simp add: sweep_def Let_def filed_def)
  have "reports_of s (dict_values (pending_release ?t1)) = (case snd (filed s ?t1) of Some d \<Rightarrow> [d] | None \<Rightarrow> [])"
    using reports_values[of "pending_release ?t1" s] r1 by (simp add: roomy_def cache_ok_def filed_def)
  then show "reports_of s (snd (sweep now t)) = (case snd (expire_file now (filed s t)) of Some d \<Rightarrow> [d] | None \<Rightarrow> [])"
    unfolding sweep_def Let_def snd_conv f by (intro reports_sort) (simp_all split: option.split)
qed

lemma filed_step:
  assumes r: "roomy S t" and e: "op_session e \<noteq> Some s" "\<forall>now. e \<noteq> D_sweep now" and inS: "\<forall>x. op_session e = Some x \<longrightarrow> x \<in> S"
  shows "roomy S (fst (decl_step t e)) \<and> snd (decl_step t e) = [] \<and>
    (filed s (fst (decl_step t e)) = filed s t \<or> (\<exists>now. op_time e = Some now \<and> filed s (fst (decl_step t e)) = expire_file now (filed s t)))"
proof -
  note f1 = expire_filed[OF r, of s]
  note r1 = expire_roomy(2)[OF r]
  show ?thesis
  proof (cases e)
    case (D_declare s' ty ttl off ro now wall)
    obtain t' ans where d: "declare_cache s' ty ttl off ro now wall t = (t', ans)" by fastforce
    have s': "s \<noteq> s'" "s' \<in> S" using e inS D_declare by auto
    show ?thesis using declare_roomy(1,2)[OF r s'(2) d] s'(1) d D_declare f1[of now] by (cases ans) auto
  next
    case (D_get s' now)
    then show ?thesis using r r1[of now] f1[of now] by (auto simp: decl_get_def Let_def)
  next
    case (D_drop s')
    then show ?thesis using roomy_drop[OF r, of s'] e by (auto simp: decl_drop_def filed_def)
  next
    case (D_active now)
    then show ?thesis using r1[of now] f1[of now] by (auto simp: decl_active_def Let_def)
  qed (use e in blast)
qed

lemma op_times_simps [simp]: "op_times [] = []" "op_times (e # es) = (case op_time e of Some n \<Rightarrow> n # op_times es | None \<Rightarrow> op_times es)"
  by (simp_all add: op_times_def List.map_filter_simps split: option.split)

lemma sweep_times: "D_sweep n \<in> set es \<Longrightarrow> n \<in> set (op_times es)"
  by (induction es) (auto split: option.splits)

lemma reports_append: "reports_of s (a @ b) = reports_of s a @ reports_of s b" "reports_of s [] = []"
  by (simp_all add: reports_of_def)

lemma run_Cons: "reports_of s (snd (decl_run t (e # es))) = reports_of s (snd (decl_step t e)) @ reports_of s (snd (decl_run (fst (decl_step t e)) es))"
  by (simp add: case_prod_unfold Let_def reports_append)

lemma within_Cons:
  "ops_within S s (e # es) \<longleftrightarrow> op_session e \<noteq> Some s \<and> (\<forall>x. op_session e = Some x \<longrightarrow> x \<in> S) \<and> ops_within S s es"
  by (auto simp: ops_within_def)

text \<open>
  The reports of a session that is filed nowhere, pending or declared.
\<close>

lemma run_gone:
  "roomy S t \<Longrightarrow> ops_within S s es \<Longrightarrow> filed s t = (None, None) \<Longrightarrow> reports_of s (snd (decl_run t es)) = []"
proof (induction es arbitrary: t)
  case (Cons e es)
  show ?case
  proof (cases "\<exists>n. e = D_sweep n")
    case True
    then obtain n where "e = D_sweep n" ..
    then show ?thesis using sweep_roomy[OF Cons.prems(1), of n] sweep_filed[OF Cons.prems(1), of s n] Cons.IH[of "fst (sweep n t)"] Cons.prems(2,3)
      unfolding run_Cons within_Cons by (simp add: expire_file_def)
  next
    case False
    then show ?thesis using filed_step[OF Cons.prems(1), of e s] Cons.IH[of "fst (decl_step t e)"] Cons.prems(2,3)
      unfolding run_Cons within_Cons by (auto simp: expire_file_def reports_append)
  qed
qed (simp add: reports_append)

lemma run_pending:
  "roomy S t \<Longrightarrow> ops_within S s es \<Longrightarrow> filed s t = (None, Some d) \<Longrightarrow>
   reports_of s (snd (decl_run t es)) = (if \<exists>n. D_sweep n \<in> set es then [d] else [])"
proof (induction es arbitrary: t)
  case (Cons e es)
  show ?case
  proof (cases "\<exists>n. e = D_sweep n")
    case True
    then obtain n where e: "e = D_sweep n" ..
    note sw = sweep_roomy[OF Cons.prems(1), of n] sweep_filed[OF Cons.prems(1), of s n, unfolded Cons.prems(3)]
    have "reports_of s (snd (decl_run (fst (sweep n t)) es)) = []"
      using sw Cons.prems(2) by (intro run_gone[of S]) (simp_all add: expire_file_def within_Cons)
    then show ?thesis using sw e unfolding run_Cons by (auto simp: expire_file_def)
  next
    case False
    then have n: "D_sweep n \<in> set (e # es) \<longleftrightarrow> D_sweep n \<in> set es" for n by auto
    show ?thesis using filed_step[OF Cons.prems(1), of e s] Cons.IH[of "fst (decl_step t e)"] Cons.prems(2,3) False
      unfolding run_Cons within_Cons n by (auto simp: expire_file_def reports_append)
  qed
qed (simp add: reports_append)

lemma run_declared:
  "roomy S t \<Longrightarrow> ops_within S s es \<Longrightarrow> filed s t = (Some d, None) \<Longrightarrow> sorted (op_times es) \<Longrightarrow>
   reports_of s (snd (decl_run t es)) = (if \<exists>n. D_sweep n \<in> set es \<and> is_expired n d then [d] else [])"
proof (induction es arbitrary: t)
  case (Cons e es)
  have later: "m \<le> n" if "op_time e = Some m" "D_sweep n \<in> set es" for m n
    using Cons.prems(4) that sweep_times[of n es] by simp
  have srt: "sorted (op_times es)" using Cons.prems(4) by (simp split: option.splits)
  have wi: "ops_within S s es" using Cons.prems(2) by (simp add: within_Cons)
  show ?case
  proof (cases "\<exists>n. e = D_sweep n")
    case True
    then obtain n where e: "e = D_sweep n" ..
    note sw = sweep_roomy[OF Cons.prems(1), of n] sweep_filed[OF Cons.prems(1), of s n, unfolded Cons.prems(3)]
    show ?thesis
    proof (cases "is_expired n d")
      case True
      then have "reports_of s (snd (decl_run (fst (sweep n t)) es)) = []"
        using sw wi by (intro run_gone[of S]) (simp_all add: expire_file_def)
      then show ?thesis using sw e True unfolding run_Cons by (auto simp: expire_file_def)
    next
      case False
      then show ?thesis using sw e Cons.IH[OF sw(1) wi _ srt] unfolding run_Cons by (auto simp: expire_file_def)
    qed
  next
    case False
    then have n: "D_sweep n \<in> set (e # es) \<longleftrightarrow> D_sweep n \<in> set es" for n by auto
    have st: "roomy S (fst (decl_step t e))" "snd (decl_step t e) = []"
      "filed s (fst (decl_step t e)) = filed s t \<or> (\<exists>now. op_time e = Some now \<and> filed s (fst (decl_step t e)) = expire_file now (filed s t))"
      using filed_step[OF Cons.prems(1), of e s] Cons.prems(2) False by (simp_all add: within_Cons)
    show ?thesis
    proof (cases "filed s (fst (decl_step t e)) = (Some d, None)")
      case True
      then show ?thesis using Cons.IH[OF st(1) wi True srt] st(2) unfolding run_Cons n by (simp add: reports_append)
    next
      case False
      then obtain now where now: "op_time e = Some now" "is_expired now d" "filed s (fst (decl_step t e)) = (None, Some d)"
        using st(3) Cons.prems(3) by (auto simp: expire_file_def split: if_splits)
      then have "is_expired m d" if "D_sweep m \<in> set es" for m using later[OF now(1) that] by (simp add: is_expired_def)
      then show ?thesis using run_pending[OF st(1) wi now(3)] st(2) unfolding run_Cons n by (auto simp: reports_append)
    qed
  qed
qed (simp add: reports_append)

section \<open>The keeper's pass\<close>

lemma drop_all_slots:
  assumes ok: "shared_ok dig tag K t" and s: "s \<noteq> []"
  shows "st_slots (fst (shared_drop_all_roles tag s t)) = map (\<lambda>x. if of_session tag s x then tombstone else x) (st_slots t)"
proof -
  obtain t' n where "foldl (drop_session_step tag s) (t, 0) [0..<length (st_slots t)] = (t', n)"
    "st_slots t' = map (\<lambda>x. if of_session tag s x then tombstone else x) (st_slots t)"
    using drop_session_prefix[OF ok order.refl, of s] by auto
  then show ?thesis using s by (simp add: shared_drop_all_roles_def drop_session_step_def[abs_def] of_session_def)
qed

lemma drop_all_ok:
  assumes dg: "digests_ok dig tag K" and ok: "shared_ok dig tag K t" and s: "s \<noteq> []"
  shows "shared_ok dig tag K (fst (shared_drop_all_roles tag s t))"
    "k \<in> K \<Longrightarrow> shared_pins dig (fst (shared_drop_all_roles tag s t)) k = (if tag (snd k) = tag s then None else shared_pins dig t k)"
proof -
  obtain t' where t': "shared_drop_all_roles tag s t = (t', length (filter (of_session tag s) (st_slots t)))" "shared_ok dig tag K t'"
    "\<forall>k \<in> K. shared_pins dig t' k = (if tag (snd k) = tag s then None else shared_pins dig t k)" by (rule drop_all_spec[OF dg ok s])
  show "shared_ok dig tag K (fst (shared_drop_all_roles tag s t))" using t'(1,2) by simp
  show "k \<in> K \<Longrightarrow> shared_pins dig (fst (shared_drop_all_roles tag s t)) k = (if tag (snd k) = tag s then None else shared_pins dig t k)"
    using t'(1,3) by simp
qed

text \<open>
  Dropping a session does not change the slots of others.
\<close>

lemma matching_drop:
  fixes now
  assumes dg: "digests_ok dig tag K" and ok: "shared_ok dig tag K t" and s: "s \<noteq> []" and k: "(r, x) \<in> K" "tag x \<noteq> tag s"
  defines "t' \<equiv> fst (shared_drop_all_roles tag s t)"
  shows "matching_slot dig tag now x r t' = matching_slot dig tag now x r t"
    "matching_slot dig tag now x r t = Some i \<Longrightarrow> st_slots t' ! i = st_slots t ! i"
proof -
  have so: "slots_ok dig tag K (st_slots t)" "slots_ok dig tag K (st_slots t')"
    using ok drop_all_ok(1)[OF dg ok s] by (simp_all add: shared_ok_def t'_def)
  have sl: "st_slots t' = map (\<lambda>x. if of_session tag s x then tombstone else x) (st_slots t)" unfolding t'_def by (rule drop_all_slots[OF ok s])
  have keep: "st_slots t' ! j = st_slots t ! j" if j: "j < length (st_slots t)" "is_live (st_slots t ! j)" "slot_key (st_slots t ! j) = dig x r" for j
  proof -
    obtain r' x' where y: "(r', x') \<in> K" "slot_key (st_slots t ! j) = dig x' r'" "unpack_text (sl_session (st_slots t ! j)) = tag x'"
      using live_role[OF dg so(1) j(1,2)] by metis
    then have "\<not> of_session tag s (st_slots t ! j)" using digest_inj[OF dg k(1) y(1)] j(3) k(2) by (auto simp: of_session_def)
    then show ?thesis using j(1) by (simp add: sl)
  qed
  have live_back: "is_live (st_slots t ! j) \<and> st_slots t' ! j = st_slots t ! j" if "j < length (st_slots t)" "is_live (st_slots t' ! j)" for j
    using that by (auto simp: sl split: if_splits)
  have "matching_slot dig tag now x r t' = Some j \<longleftrightarrow> matching_slot dig tag now x r t = Some j" for j
  proof (cases "j < length (st_slots t)")
    case True
    have l: "length (st_slots t') = length (st_slots t)" by (simp add: sl)
    have "is_live (st_slots t' ! j) \<and> slot_key (st_slots t' ! j) = dig x r \<longleftrightarrow> is_live (st_slots t ! j) \<and> slot_key (st_slots t ! j) = dig x r"
    proof
      assume a: "is_live (st_slots t' ! j) \<and> slot_key (st_slots t' ! j) = dig x r"
      then have e: "is_live (st_slots t ! j)" "st_slots t' ! j = st_slots t ! j" using live_back[OF True] by blast+
      show "is_live (st_slots t ! j) \<and> slot_key (st_slots t ! j) = dig x r" using a e(1) unfolding e(2) by blast
    next
      assume a: "is_live (st_slots t ! j) \<and> slot_key (st_slots t ! j) = dig x r"
      then have e: "st_slots t' ! j = st_slots t ! j" using keep[OF True] by blast
      show "is_live (st_slots t' ! j) \<and> slot_key (st_slots t' ! j) = dig x r" using a unfolding e by blast
    qed
    then show ?thesis unfolding matching_slot_iff[OF dg so(1) k(1)] matching_slot_iff[OF dg so(2) k(1)] l by blast
  qed (simp add: matching_slot_iff[OF dg so(1) k(1)] matching_slot_iff[OF dg so(2) k(1)] sl)
  then show "matching_slot dig tag now x r t' = matching_slot dig tag now x r t" by (metis not_Some_eq)
  show "st_slots t' ! i = st_slots t ! i" if "matching_slot dig tag now x r t = Some i"
    using that keep unfolding matching_slot_iff[OF dg so(1) k(1)] by blast
qed

lemma outlived_drop:
  assumes dg: "digests_ok dig tag K" and ok: "shared_ok dig tag K t" and s: "s \<noteq> []"
    and k: "r \<noteq> [] \<Longrightarrow> (r, decl_session_id d) \<in> K" "tag (decl_session_id d) \<noteq> tag s"
  shows "outlived dig tag now d (fst (shared_drop_all_roles tag s t)) r = outlived dig tag now d t r"
proof (cases "r = []")
  case False
  note m = matching_drop[OF dg ok s k(1)[OF False] k(2), of now]
  show ?thesis
    by (cases "matching_slot dig tag now (decl_session_id d) r t")
      (use m in \<open>auto simp: outlived_def peek_retention_expires_def peek_renewal_def\<close>)
qed (simp add: outlived_def)

lemma pass_sub:
  assumes "pass_result dig tag K now ds n c t c' t' rel dfr rest"
  shows "set (sids rel) \<union> set (sids dfr) \<subseteq> set (sids ds)"
proof -
  have "mset (sids rel @ sids dfr @ sids rest) = mset (sids ds)" using assms by (simp add: pass_result_def)
  from mset_eq_setD[OF this] show ?thesis by auto
qed

lemma release_loop_result:
  assumes "shared_inv dig tag K t" and "inj_on tag (snd ` K)" and "\<forall>d \<in> set ds. keyed K d" and "distinct (sids ds)"
  shows "\<exists>c' t' rel dfr rest. release_loop dig tag now ds n c (Shared t) = (c', Shared t', rel, dfr) \<and>
    pass_result dig tag K now ds n c t c' t' rel dfr rest"
  using assms
proof (induction ds arbitrary: n c t)
  case Nil
  then show ?case by (intro exI[of _ c] exI[of _ t] exI[of _ "[]"]) (simp add: pass_result_def)
next
  case (Cons d ds)
  have dg: "digests_ok dig tag K" and ok: "shared_ok dig tag K t" using Cons.prems(1) by simp_all
  have ks: "\<forall>d \<in> set ds. keyed K d" "distinct (sids ds)" "decl_session_id d \<notin> set (sids ds)" "keyed K d" using Cons.prems(3,4) by auto
  have ne: "decl_session_id e \<noteq> decl_session_id d" if "e \<in> set ds" for e using that ks(3) by (metis image_eqI set_map)
  show ?case
  proof (cases "SWEEP_RELEASE_BATCH \<le> n")
    case True
    from Cons.IH[OF Cons.prems(1,2) ks(1,2), of n "requeue d c"] obtain c' t' rel dfr rest where
      r: "release_loop dig tag now ds n (requeue d c) (Shared t) = (c', Shared t', rel, dfr)"
      "pass_result dig tag K now ds n (requeue d c) t c' t' rel dfr rest" by blast
    then have "rel = []" using True by (simp add: pass_result_def)
    moreover have "decl_session_id d \<notin> set (sids dfr)" using pass_sub[OF r(2)] ks(3) by blast
    ultimately have "pass_result dig tag K now (d # ds) n c t c' t' rel dfr (d # rest)" using r(2) True unfolding pass_result_def by auto
    then show ?thesis using r(1) True by auto
  next
    case False
    show ?thesis
    proof (cases "list_ex (outlived dig tag now d t) (decl_roles d)")
      case True
      from Cons.IH[OF Cons.prems(1,2) ks(1,2), of n c] obtain c' t' rel dfr rest where
        r: "release_loop dig tag now ds n c (Shared t) = (c', Shared t', rel, dfr)" "pass_result dig tag K now ds n c t c' t' rel dfr rest" by blast
      have "decl_session_id d \<notin> set (sids rel)" using pass_sub[OF r(2)] ks(3) by blast
      then have "pass_result dig tag K now (d # ds) n c t c' t' rel (d # dfr) rest" using r(2) True ne unfolding pass_result_def by auto
      moreover have "release_expired_declaration dig tag now d (Shared t) = (Shared t, d, False)" using True by (simp add: release_expired_declaration_def)
      ultimately show ?thesis using r(1) False by auto
    next
      case rel: False
      let ?s = "decl_session_id d"
      obtain t1 m where t1: "shared_drop_all_roles tag ?s t = (t1, m)" by fastforce
      have s: "?s \<noteq> []" using ks(4) by (simp add: keyed_def)
      have ok1: "shared_ok dig tag K t1" using drop_all_ok(1)[OF dg ok s] t1 by simp
      have pins1: "shared_pins dig t1 k = (if snd k = ?s then None else shared_pins dig t k)" if "k \<in> K" for k
        using drop_all_ok(2)[OF dg ok s that] t1 inj_onD[OF Cons.prems(2), of "snd k" ?s] that ks(4) by (auto simp: keyed_def)
      have out1: "outlived dig tag now e t1 r = outlived dig tag now e t r" if e: "e \<in> set ds" and r: "r \<in> set (decl_roles e)" for e r
      proof -
        have "decl_session_id e \<noteq> ?s" "keyed K e" using ne[OF e] ks(1) e by simp_all
        then have "tag (decl_session_id e) \<noteq> tag ?s" "r \<noteq> [] \<Longrightarrow> (r, decl_session_id e) \<in> K"
          using inj_onD[OF Cons.prems(2), of "decl_session_id e" ?s] ks(4) r by (auto simp: keyed_def)
        then show ?thesis using outlived_drop[OF dg ok s, of r e now] t1 by simp
      qed
      have lo: "list_ex (outlived dig tag now e t1) (decl_roles e) = list_ex (outlived dig tag now e t) (decl_roles e)" if "e \<in> set ds" for e
        using out1[OF that] by (auto simp: list_ex_iff)
      from Cons.IH[OF _ Cons.prems(2) ks(1,2), of t1 "n + 1" c] dg ok1 obtain c' t' rl dfr rest where
        r: "release_loop dig tag now ds (n + 1) c (Shared t1) = (c', Shared t', rl, dfr)" "pass_result dig tag K now ds (n + 1) c t1 c' t' rl dfr rest" by blast
      let ?d = "d\<lparr>dropped := m\<rparr>"
      have "?s \<notin> set (sids dfr)" using pass_sub[OF r(2)] ks(3) by blast
      then have "pass_result dig tag K now (d # ds) n c t c' t' (?d # rl) dfr rest"
        using r(2) False rel pins1 lo ne unfolding pass_result_def by auto
      moreover have "release_expired_declaration dig tag now d (Shared t) = (Shared t1, ?d, True)" using rel t1 by (simp add: release_expired_declaration_def)
      ultimately show ?thesis using r(1) False by auto
    qed
  qed
qed

lemma cache_ok_sweep:
  assumes ok: "cache_ok c" and sw: "sweep now c = (c1, ds)"
  shows "distinct (sids ds)" "set ds \<subseteq> set (dict_values (declarations c @ pending_release c))"
    "d \<in> set ds \<Longrightarrow> is_expired now d \<or> d \<in> set (dict_values (pending_release c))" "pending_release c1 = []"
    "d \<in> set ds \<Longrightarrow> dict_get (declarations c1) (decl_session_id d) = None"
proof -
  let ?P = "pending_release c @ filter (\<lambda>x. is_expired now (snd x)) (declarations c)"
  let ?Q = "keep_newest (max_declarations c) ?P"
  have c1: "pending_release c1 = []" "declarations c1 = filter (\<lambda>x. \<not> is_expired now (snd x)) (declarations c)" and ds: "ds = sort_key (\<lambda>d. (expire_ms d, decl_session_id d)) (dict_values ?Q)"
    using sw by (auto simp: sweep_def Let_def expire_eq[OF ok])
  show "pending_release c1 = []" by (rule c1(1))
  have sub: "set ?Q \<subseteq> set ?P" by (rule keep_newest_sub)
  have dP: "distinct (dict_keys ?P)" using ok by (auto simp: cache_ok_def distinct_map_filter)
  have dQ: "distinct (dict_keys ?Q)" by (rule keep_newest_sub(2)[OF dP])
  have "map decl_session_id (dict_values ?Q) = dict_keys ?Q" using sub ok by (auto simp: cache_ok_def)
  then have "distinct (sids (dict_values ?Q))" using dQ by metis
  moreover have "mset (sids ds) = mset (sids (dict_values ?Q))" unfolding ds mset_map mset_sort by simp
  ultimately show "distinct (sids ds)" by (metis mset_eq_imp_distinct_iff)
  have sd: "set ds = snd ` set ?Q" by (simp add: ds)
  show "set ds \<subseteq> set (dict_values (declarations c @ pending_release c))" using sub unfolding sd by auto
  show "is_expired now d \<or> d \<in> set (dict_values (pending_release c))" if "d \<in> set ds" using that sub unfolding sd by auto
  show "dict_get (declarations c1) (decl_session_id d) = None" if d: "d \<in> set ds"
  proof (rule ccontr)
    assume "dict_get (declarations c1) (decl_session_id d) \<noteq> None"
    then obtain e where e: "(decl_session_id d, e) \<in> set (declarations c)" "\<not> is_expired now e" using c1(2) by (auto dest!: dict_get_in)
    obtain k where "(k, d) \<in> set ?Q" using d unfolding sd by auto
    then have k: "(k, d) \<in> set ?P" by (rule subsetD[OF sub])
    then have kd: "decl_session_id d = k" using ok unfolding cache_ok_def by force
    have dd: "distinct (dict_keys (declarations c @ pending_release c))" using ok by (simp add: cache_ok_def)
    have "(k, d) \<in> set (declarations c @ pending_release c)" "(k, e) \<in> set (declarations c @ pending_release c)" using k e(1) kd by auto
    then have "d = e" by (rule eq_key_imp_eq_value[OF dd])
    then have "(k, d) \<in> set (pending_release c)" using k e(2) by auto
    moreover have "(k, d) \<in> set (declarations c)" using e(1) kd \<open>d = e\<close> by simp
    ultimately show False using dd by (force simp: distinct_append)
  qed
qed

lemma foldl_requeue: "distinct (sids ds) \<Longrightarrow> d \<in> set ds \<Longrightarrow> dict_get (pending_release (foldl (\<lambda>c d. requeue d c) c ds)) (decl_session_id d) = Some d"
proof (induction ds arbitrary: c)
  case (Cons e ds)
  have keep: "decl_session_id d \<notin> set (sids es) \<Longrightarrow>
      dict_get (pending_release (foldl (\<lambda>c d. requeue d c) c es)) (decl_session_id d) = dict_get (pending_release c) (decl_session_id d)" for es c
    by (induction es arbitrary: c) (auto simp: requeue_def)
  show ?case using Cons keep[of ds "requeue e c"] by (auto simp: requeue_def)
qed simp

lemma declare_retention_peek:
  assumes dg: "digests_ok dig tag K" and ok: "shared_ok dig tag K t" and k: "(r, s) \<in> K" "s \<noteq> []" and p: "shared_pins dig t (r, s) = Some p"
  shows "peek_retention_expires dig tag now' s r (declare_retention dig tag now s r x t) = max (peek_retention_expires dig tag now s r t) x"
proof -
  let ?t = "declare_retention dig tag now s r x t"
  have so: "slots_ok dig tag K (st_slots t)" "slots_ok dig tag K (st_slots ?t)"
    using ok declare_retention_ok[OF dg ok k(1)] by (simp_all add: shared_ok_def)
  obtain i where i: "i < length (st_slots t)" "is_live (st_slots t ! i)" "slot_key (st_slots t ! i) = dig s r"
    by (rule pins_cases[of dig t r s]) (use p in auto)
  have m: "matching_slot dig tag now s r t = Some i" unfolding matching_slot_iff[OF dg so(1) k(1)] using i by blast
  let ?s = "(st_slots t ! i)\<lparr>retention_expires := max (retention_expires (st_slots t ! i)) x\<rparr>"
  have t: "?t = t\<lparr>st_slots := (st_slots t)[i := ?s]\<rparr>" using k(2) m by (simp add: declare_retention_def)
  have "st_slots ?t ! i = ?s" "length (st_slots ?t) = length (st_slots t)" using i(1) by (simp_all add: t)
  then have "matching_slot dig tag now' s r ?t = Some i" unfolding matching_slot_iff[OF dg so(2) k(1)]
    using i by (simp add: is_live_def is_empty_slot_def is_tombstone_def slot_key_def)
  then show ?thesis using k(2) m \<open>st_slots ?t ! i = ?s\<close> by (simp add: peek_retention_expires_def)
qed

section \<open>Properties\<close>


text \<open>
  The keeper's pass over any reachable shared table releases at most 64 sessions; every swept
  declaration is released, deferred or waits for the next pass; it is released only if no slot of
  its session carries a promise or renewal that outlives it, and deferred only if one does; a
  released session loses its pins in every role, and no other pin changes.
\<close>

theorem keeper_pass_exact:
  assumes dg: "digests_ok dig tag K" and ops: "list_all (op_fits K) ops" and t: "t = foldl (shared_step dig tag) (SharedTable_init n) ops"
    and inj: "inj_on tag (snd ` K)" and c: "cache_ok c" "\<forall>d \<in> set (dict_values (declarations c @ pending_release c)). keyed K d"
    and sw: "sweep now_ms c = (c1, swept)"
  shows "\<exists>c' t' rel dfr rest. sweep_cache_declarations dig tag now now_ms c (Shared t) = (c', Shared t', rel, dfr) \<and>
    length rel \<le> SWEEP_RELEASE_BATCH \<and> mset (sids rel @ sids dfr @ sids rest) = mset (sids swept) \<and> (\<forall>d \<in> set rest. d \<in> set swept \<and> filed (decl_session_id d) c' = (None, Some d)) \<and>
    (\<forall>d \<in> set swept. (decl_session_id d \<in> set (sids rel) \<longrightarrow> \<not> list_ex (outlived dig tag now d t) (decl_roles d)) \<and>
      (decl_session_id d \<in> set (sids dfr) \<longrightarrow> list_ex (outlived dig tag now d t) (decl_roles d))) \<and>
    (\<forall>k \<in> K. shared_pins dig t' k = (if snd k \<in> set (sids rel) then None else shared_pins dig t k))"
proof -
  have inv: "shared_inv dig tag K t" unfolding t using reachable_ok[OF dg ops] dg by blast
  note ds = cache_ok_sweep[OF c(1) sw]
  have kd: "\<forall>d \<in> set swept. keyed K d" using ds(2) c(2) by blast
  obtain c' t' rel dfr rest where r: "release_loop dig tag now swept 0 c1 (Shared t) = (c', Shared t', rel, dfr)"
    "pass_result dig tag K now swept 0 c1 t c' t' rel dfr rest"
    using release_loop_result[OF inv inj kd ds(1), of now 0 c1] by blast
  have m: "mset (sids rel @ sids dfr @ sids rest) = mset (sids swept)" and c': "c' = foldl (\<lambda>c d. requeue d c) c1 rest"
    using r(2) by (simp_all add: pass_result_def)
  have dr: "distinct (sids rest)" using ds(1) mset_eq_imp_distinct_iff[OF m] by simp
  have "declarations (foldl (\<lambda>c d. requeue d c) c xs) = declarations c" for xs c by (induction xs arbitrary: c) (simp_all add: requeue_def)
  then have "filed (decl_session_id d) c' = (None, Some d)" if "d \<in> set rest" "d \<in> set swept" for d
    using ds(5)[OF that(2)] foldl_requeue[OF dr that(1), of c1] by (simp add: filed_def c')
  then have rest: "\<forall>d \<in> set rest. d \<in> set swept \<and> filed (decl_session_id d) c' = (None, Some d)" using r(2) by (auto simp: pass_result_def)
  have sc: "sweep_cache_declarations dig tag now now_ms c (Shared t) = (c', Shared t', rel, dfr)" using r(1) sw by (simp add: sweep_cache_declarations_def)
  show ?thesis using r(2) m rest sc unfolding pass_result_def by (intro exI[of _ c'] exI[of _ t'] exI[of _ rel] exI[of _ dfr] exI[of _ rest]) simp
qed

text \<open>
  A client that shortens its retention is not released. After a declaration and a shorter one
  for the same session and role, the sweep that reports the expiry of the second defers to the
  promise of the first, which no worker still remembers: the declaration is gone and the pin stays.
\<close>

theorem shortened_retention_forgotten:
  assumes dg: "digests_ok dig tag K" and ops: "list_all (op_fits K) ops" and t: "t = foldl (shared_step dig tag) (SharedTable_init n) ops"
    and k: "(r, s) \<in> K" "s \<noteq> []" "r \<noteq> []" and p: "shared_pins dig t (r, s) = Some p"
    and ttl: "60 \<le> b" "b < a" "a \<le> normalize_ttl_max cap" and ms: "n2 < n1 + a * 1000" "n2 + b * 1000 \<le> n3"
    and wall: "w2 + of_int b + 1 < w1 + of_int a"
    and hint: "hint = (\<lambda>x. Some \<lparr>cc_type = ''pin'', cc_ttl = Some x, cc_msg_offset = None, ttl_explicit = True\<rparr>)"
    and c1: "record_cache_declaration dig tag w1 n1 w1 (hint a) s r (Some (CacheDeclarationTable_init m cap)) (Shared t) = (Some c1, a1)"
    and c2: "record_cache_declaration dig tag w2 n2 w2 (hint b) s r (Some c1) a1 = (Some c2, a2)"
  shows "\<exists>c' t' dfr. sweep_cache_declarations dig tag w3 n3 c2 a2 = (c', Shared t', [], dfr) \<and> sids dfr = [s] \<and>
    filed s c' = (None, None) \<and> shared_pins dig t' (r, s) = Some p"
proof -
  have ok: "shared_ok dig tag K t" unfolding t by (rule reachable_ok[OF dg ops])
  let ?d = "\<lambda>x now w. \<lparr>decl_session_id = s, decl_type = ''pin'', ttl_s = x, decl_msg_offset = None, created_ms = now,
     expire_ms = now + x * 1000, decl_roles = [r], wall_created_s = w, dropped = 0\<rparr>"
  let ?c = "\<lambda>d. (CacheDeclarationTable_init m cap)\<lparr>declarations := [(s, d)]\<rparr>"
  let ?t1 = "declare_retention dig tag w1 s r (w1 + of_int a) t" let ?t2 = "declare_retention dig tag w2 s r (w2 + of_int b) ?t1"
  have cl: "clamp_ttl (Some x) c = Some x" if "60 \<le> x" "x \<le> ttl_max_s c" for x c using that by (simp add: clamp_ttl_def TTL_MIN_S_def)
  have "c1 = ?c (?d a n1 w1) \<and> a1 = Shared ?t1"
    using c1 k ttl cl[of a "CacheDeclarationTable_init m cap"] unfolding hint
    by (auto simp: record_cache_declaration_def declare_cache_def Let_def DECL_TYPES_def CacheDeclarationTable_init_def expire_locked_def move_to_end_def keep_newest_def)
  then have e1: "c1 = ?c (?d a n1 w1)" "a1 = Shared ?t1" by blast+
  have "c2 = ?c (?d b n2 w2) \<and> a2 = Shared ?t2"
    using c2 k ttl ms(1) cl[of b c1] unfolding hint e1
    by (auto simp: record_cache_declaration_def declare_cache_def Let_def DECL_TYPES_def CacheDeclarationTable_init_def expire_locked_def move_to_end_def keep_newest_def is_expired_def)
  then have e2: "c2 = ?c (?d b n2 w2)" "a2 = Shared ?t2" by blast+
  have ok1: "shared_ok dig tag K ?t1" "shared_pins dig ?t1 = shared_pins dig t" using declare_retention_ok[OF dg ok k(1)] by simp_all
  have ok2: "shared_pins dig ?t2 = shared_pins dig t" using declare_retention_ok[OF dg ok1(1) k(1)] ok1(2) by simp
  have "w1 + of_int a \<le> peek_retention_expires dig tag w3 s r ?t2"
    using declare_retention_peek[OF dg ok1(1) k(1,2), of p w3 w2] declare_retention_peek[OF dg ok k(1,2) p, of w2 w1] p ok1(2) by simp
  then have out: "outlived dig tag w3 (?d b n2 w2) ?t2 r" using wall k(3) by (simp add: outlived_def)
  have sw: "sweep n3 c2 = (?c (?d b n2 w2)\<lparr>declarations := []\<rparr>, [?d b n2 w2])"
    using ms(2) unfolding e2(1) by (simp add: sweep_def expire_locked_def CacheDeclarationTable_init_def is_expired_def keep_newest_def)
  show ?thesis using out p ok2 unfolding sweep_cache_declarations_def sw e2(2)
    by (simp add: release_expired_declaration_def SWEEP_RELEASE_BATCH_def filed_def CacheDeclarationTable_init_def)
qed

section \<open>Witnesses\<close>

lemma init_roomy: "finite S \<Longrightarrow> card S \<le> nat (max 1 n) \<Longrightarrow> roomy S (CacheDeclarationTable_init n x)"
  by (simp add: roomy_def cache_ok_def CacheDeclarationTable_init_def)

lemma demo_cache_ok: "roomy {''a'', ''bb''} demo_cache"
proof -
  have r: "roomy {''a'', ''bb''} (CacheDeclarationTable_init 4 (Some 3600))" by (rule init_roomy) simp_all
  obtain t' ans where d: "declare_cache ''bb'' ''pin'' (Some 100) None ''prefill'' 0 0 (CacheDeclarationTable_init 4 (Some 3600)) = (t', ans)" by fastforce
  show ?thesis using declare_roomy(1)[OF r _ d] d by (simp add: demo_cache_def)
qed


theorem keeper_pass_exact_witness:
  "\<exists>c' t' rel dfr. sweep_cache_declarations demo_dig id 5 100000 demo_cache (Shared demo_shared) = (c', Shared t', rel, dfr) \<and>
    length rel \<le> SWEEP_RELEASE_BATCH"
proof -
  have ok: "cache_ok demo_cache" using demo_cache_ok by (simp add: roomy_def)
  have k: "\<forall>d \<in> set (dict_values (declarations demo_cache @ pending_release demo_cache)). keyed demo_keys d"
    by (simp add: demo_cache_def declare_cache_def DECL_TYPES_def CacheDeclarationTable_init_def clamp_ttl_def expire_locked_def move_to_end_def
        keep_newest_def Let_def keyed_def demo_keys_def)
  obtain c1 swept where sw: "sweep 100000 demo_cache = (c1, swept)" by fastforce
  from keeper_pass_exact[OF demo_digests demo_fits demo_shared_def _ ok k sw, of 5] show ?thesis by auto
qed

theorem shortened_retention_forgotten_witness:
  "\<exists>c1 a1 c2 a2 c' t' dfr.
    record_cache_declaration demo_dig id 0 0 0 (Some \<lparr>cc_type = ''pin'', cc_ttl = Some 3600, cc_msg_offset = None, ttl_explicit = True\<rparr>)
      ''a'' ''prefill'' (Some (CacheDeclarationTable_init 9 (Some 3600))) (Shared demo_shared) = (Some c1, a1) \<and>
    record_cache_declaration demo_dig id 1 1000 1 (Some \<lparr>cc_type = ''pin'', cc_ttl = Some 60, cc_msg_offset = None, ttl_explicit = True\<rparr>)
      ''a'' ''prefill'' (Some c1) a1 = (Some c2, a2) \<and>
    sweep_cache_declarations demo_dig id 70 70000 c2 a2 = (c', Shared t', [], dfr) \<and> sids dfr = [''a'']"
proof -
  let ?h = "\<lambda>x. Some \<lparr>cc_type = ''pin'', cc_ttl = Some x, cc_msg_offset = None, ttl_explicit = True\<rparr>"
  have some: "\<exists>c1 a1. record_cache_declaration dig tag w n v h s r (Some c) a = (Some c1, a1)" for dig tag w n v h s r c a
    by (auto simp: record_cache_declaration_def split: option.splits prod.splits)
  obtain c1 a1 where c1: "record_cache_declaration demo_dig id 0 0 0 (?h 3600) ''a'' ''prefill'' (Some (CacheDeclarationTable_init 9 (Some 3600))) (Shared demo_shared) = (Some c1, a1)"
    using some by blast
  obtain c2 a2 where c2: "record_cache_declaration demo_dig id 1 1000 1 (?h 60) ''a'' ''prefill'' (Some c1) a1 = (Some c2, a2)" using some by blast
  have k: "(''prefill'', ''a'') \<in> demo_keys" "''a'' \<noteq> []" "''prefill'' \<noteq> []" by (simp_all add: demo_keys_def)
  obtain p where p: "shared_pins demo_dig demo_shared (''prefill'', ''a'') = Some p"
  proof -
    have "shared_pins demo_dig demo_shared (''prefill'', ''a'') \<noteq> None" by code_simp
    then show ?thesis using that by blast
  qed
  have "normalize_ttl_max (Some 3600) = 3600" by (simp add: normalize_ttl_max_def TTL_MIN_S_def)
  then have "\<exists>c' t' dfr. sweep_cache_declarations demo_dig id 70 70000 c2 a2 = (c', Shared t', [], dfr) \<and> sids dfr = [''a''] \<and>
      filed ''a'' c' = (None, None) \<and> shared_pins demo_dig t' (''prefill'', ''a'') = Some p"
    by (intro shortened_retention_forgotten[OF demo_digests demo_fits demo_shared_def k p _ _ _ _ _ _ refl c1 c2]) simp_all
  then obtain c' t' dfr where x: "sweep_cache_declarations demo_dig id 70 70000 c2 a2 = (c', Shared t', [], dfr)" "sids dfr = [''a'']" by (elim exE conjE) (rule that)
  show ?thesis by (intro exI conjI) (rule c1, rule c2, rule x(1), rule x(2))
qed

end
