(* ===== verification/Refresh_Channel.thy ===== *)
theory Refresh_Channel
  imports Coordinator_Pools
begin

text \<open>
  How an instance event travels from the controller to the coordinators:
  \<^verbatim>\<open>motor/controller/api_client/coordinator_api_client.py\<close> on the sending side, the handler of
  \<^verbatim>\<open>POST /instances/refresh\<close> in \<^verbatim>\<open>motor/coordinator/api_server/management_server.py\<close> on the other.

  The client pins a coordinator pod after a failover; otherwise it addresses every coordinator pod
  that Kubernetes lists (an argument), and the Service DNS name when there is none. An address is
  an optional host, \<open>None\<close> the Service DNS name. The transport is a function \<open>post\<close> from an address,
  an event and its instances to the new state of the world and whether a response came back; the
  JSON encoding of the body is faithful, so the handler receives the instances that were sent.
  The locale \<open>refresh_channel\<close> states what a sender of full rosters may rely on, and is interpreted
  on the client connected to the coordinators' pools.
\<close>

section \<open>Addresses\<close>

text \<open>
  \<open>ipaddress.ip_address\<close>: whether it accepts a string, as an IPv4 or an IPv6 address.
\<close>

definition decimal_octet :: "string \<Rightarrow> bool" where
  "decimal_octet s \<longleftrightarrow> s \<noteq> [] \<and> length s \<le> 3 \<and> list_all (\<lambda>c. digit_val c \<noteq> None) s \<and>
     \<not> (length s > 1 \<and> hd s = CHR ''0'') \<and>
     (case parse_digits 0 False s of Some n \<Rightarrow> n \<le> 255 | None \<Rightarrow> False)"

definition ipv4_ok :: "string \<Rightarrow> bool" where
  "ipv4_ok s \<longleftrightarrow> (let octets = py_split ''.'' s in length octets = 4 \<and> list_all decimal_octet octets)"

definition hextet :: "string \<Rightarrow> bool" where
  "hextet s \<longleftrightarrow> s \<noteq> [] \<and> length s \<le> 4 \<and> list_all (\<lambda>c. c \<in> set ''0123456789ABCDEFabcdef'') s"

text \<open>
  The colon-separated parts: a trailing IPv4 part counts as two groups, and at most one empty inner
  part stands for the groups that are left out.
\<close>

definition ipv6_groups :: "string list \<Rightarrow> string list option" where
  "ipv6_groups parts =
     (if length parts < 3 then None
      else if CHR ''.'' \<in> set (last parts)
      then (if ipv4_ok (last parts) then Some (butlast parts @ [''0'', ''0'']) else None)
      else Some parts)"

definition ipv6_layout :: "string list \<Rightarrow> bool" where
  "ipv6_layout parts =
     (let n = length parts; gaps = filter (\<lambda>i. parts ! i = []) [1..<n - 1]
      in n \<le> 9 \<and>
         (case gaps of
            [] \<Rightarrow> n = 8 \<and> list_all hextet parts
          | [g] \<Rightarrow>
              (let hi = (if hd parts = [] then g - 1 else g);
                   lo = (if last parts = [] then n - g - 2 else n - g - 1)
               in (hd parts = [] \<longrightarrow> hi = 0) \<and> (last parts = [] \<longrightarrow> lo = 0) \<and> hi + lo < 8 \<and>
                  list_all hextet (take hi parts) \<and> list_all hextet (drop (n - lo) parts))
          | _ \<Rightarrow> False))"

text \<open>
  A scope identifier follows the first percent sign.
\<close>

definition ipv6_ok :: "string \<Rightarrow> bool" where
  "ipv6_ok s \<longleftrightarrow>
     (let addr = takeWhile (\<lambda>c. c \<noteq> CHR ''%'') s; rest = dropWhile (\<lambda>c. c \<noteq> CHR ''%'') s
      in CHR ''/'' \<notin> set s \<and> (rest = [] \<or> (tl rest \<noteq> [] \<and> CHR ''%'' \<notin> set (tl rest))) \<and>
         (case ipv6_groups (py_split '':'' addr) of None \<Rightarrow> False | Some parts \<Rightarrow> ipv6_layout parts))"

definition ip_address_ok :: "string \<Rightarrow> bool" where
  "ip_address_ok s \<longleftrightarrow> ipv4_ok s \<or> ipv6_ok s"

definition parse_refresh_host :: "string option \<Rightarrow> string option" where
  "parse_refresh_host host =
     (case host of
        None \<Rightarrow> None
      | Some h \<Rightarrow>
          if h = [] then None
          else (let s0 = py_strip h;
                    s = (if s0 \<noteq> [] \<and> hd s0 = CHR ''['' \<and> last s0 = CHR '']'' then butlast (tl s0) else s0)
                in if ip_address_ok s then Some s else None))"

text \<open>
  The module's variable \<open>_REFRESH_HOST_OVERRIDE\<close> is passed along. Closing the unused long-lived
  client has no effect on what is sent and is left out.
\<close>

definition set_refresh_host :: "string option \<Rightarrow> string option \<Rightarrow> string option" where
  "set_refresh_host host override =
     (case host of
        None \<Rightarrow> None
      | Some h \<Rightarrow> (case parse_refresh_host (Some h) of None \<Rightarrow> override | Some p \<Rightarrow> Some p))"

definition clear_refresh_host :: "string \<Rightarrow> string option \<Rightarrow> string option \<times> bool" where
  "clear_refresh_host expected override =
     (if expected = [] \<or> override \<noteq> Some expected then (override, False) else (None, True))"

text \<open>
  \<open>x or y\<close> on optional strings: the empty string is false.
\<close>

definition str_or :: "string option \<Rightarrow> string option \<Rightarrow> string option" where
  "str_or x y = (case x of None \<Rightarrow> y | Some s \<Rightarrow> if s = [] then y else x)"

definition instance_refresh_hosts :: "string option \<Rightarrow> string list \<Rightarrow> string option list" where
  "instance_refresh_hosts override pod_ips =
     (let start = (case str_or override None of None \<Rightarrow> [] | Some h \<Rightarrow> [h]);
          ordered = foldl (\<lambda>acc ip. if ip \<notin> set acc then acc @ [ip] else acc) start pod_ips
      in if ordered \<noteq> [] then map Some ordered else [None])"

text \<open>
  The host \<open>_generate_client_args\<close> puts into the address; no host is the Service DNS name.
\<close>

definition target_host :: "string option \<Rightarrow> string option \<Rightarrow> string option" where
  "target_host override host = str_or host (str_or override None)"

section \<open>Sending an event\<close>

text \<open>
  The constructor \<open>InsEventMsg(event, instances)\<close> rejects duplicate IDs.
\<close>

definition InsEventMsg :: "EventType \<Rightarrow> Instance list \<Rightarrow> py_error + (EventType \<times> Instance list)" where
  "InsEventMsg ev instances =
     (if distinct (map ins_id instances) then Inr (ev, instances) else Inl ValidationError)"

type_synonym 'w transport = "string option \<Rightarrow> EventType \<Rightarrow> Instance list \<Rightarrow> 'w \<Rightarrow> 'w \<times> bool"

fun push_round ::
  "'w transport \<Rightarrow> string option \<Rightarrow> string option list \<Rightarrow> EventType \<Rightarrow> Instance list \<Rightarrow> 'w \<Rightarrow> 'w \<times> bool" where
  "push_round post override [] ev instances w = (w, False)"
| "push_round post override (host # hosts) ev instances w =
     (let (w1, b) = post (target_host override host) ev instances w;
          (w2, any_ok) = push_round post override hosts ev instances w1
      in (w2, b \<or> any_ok))"

definition send_instance_refresh ::
  "'w transport \<Rightarrow> string option \<Rightarrow> string list \<Rightarrow> EventType \<Rightarrow> Instance list \<Rightarrow> 'w \<Rightarrow> 'w \<times> bool" where
  "send_instance_refresh post override pod_ips ev instances w =
     (let hosts = instance_refresh_hosts override pod_ips;
          (w1, any_ok) = push_round post override hosts ev instances w
      in if any_ok then (w1, True)
         else if None \<notin> set hosts then post (target_host override None) ev instances w1
         else (w1, False))"

section \<open>Receiving an event\<close>

text \<open>
  The handler of a controller's request: validation of the body, the refresh of the pools under the
  refresh lock, and the status codes of its errors.
\<close>

definition handle_refresh_instances ::
  "(int list \<Rightarrow> int list) \<Rightarrow> EventType \<Rightarrow> Instance list \<Rightarrow> InstancePools \<Rightarrow> InstancePools \<times> (py_error + unit)" where
  "handle_refresh_instances ord ev instances s =
     (case InsEventMsg ev instances of
        Inl e \<Rightarrow> (s, Inl (HTTPException 400))
      | Inr msg \<Rightarrow>
          (case refresh_instances ord ev instances s of
             (s', Inl (InstanceIdConflictError i)) \<Rightarrow> (s', Inl (HTTPException 409))
           | (s', Inl ValueError) \<Rightarrow> (s', Inl (HTTPException 400))
           | (s', Inl e) \<Rightarrow> (s', Inl e)
           | (s', Inr a) \<Rightarrow> (s', Inr ())))"

text \<open>
  The coordinators with the addresses they answer at. A request to an address nobody answers at,
  and a response with an error status, raise in the client.
\<close>

record Network =
  coordinators :: "nat \<Rightarrow> InstancePools"
  answers :: "string option \<Rightarrow> nat option"

definition coordinator_post :: "(int list \<Rightarrow> int list) \<Rightarrow> Network transport" where
  "coordinator_post ord target ev instances w =
     (case answers w target of
        None \<Rightarrow> (w, False)
      | Some c \<Rightarrow>
          (let (s, a) = handle_refresh_instances ord ev instances (coordinators w c)
           in (w\<lparr>coordinators := (coordinators w)(c := s)\<rparr>, (case a of Inl e \<Rightarrow> False | Inr u \<Rightarrow> True))))"

definition network_ok :: "Network \<Rightarrow> bool" where
  "network_ok w \<longleftrightarrow> (\<forall>c. pools_ok (coordinators w c))"

text \<open>
  The coordinators an event reaches: those that answer at one of the hosts, or else at the last
  resort address.
\<close>

definition reached_at :: "Network \<Rightarrow> string option list \<Rightarrow> nat set" where
  "reached_at w targets = {c. \<exists>t \<in> set targets. answers w t = Some c}"

definition reached :: "string option \<Rightarrow> string list \<Rightarrow> Network \<Rightarrow> nat set" where
  "reached override pod_ips w =
     (let hosts = instance_refresh_hosts override pod_ips;
          first = reached_at w (map (target_host override) hosts)
      in if first \<noteq> {} then first else reached_at w [target_host override None])"

definition routes :: "Network \<Rightarrow> nat \<Rightarrow> int \<Rightarrow> int \<Rightarrow> bool" where
  "routes w c i e = has_instance_endpoint i e (coordinators w c)"

text \<open>
  A roster a SET accepts.
\<close>

definition roster_ok :: "Instance list \<Rightarrow> bool" where
  "roster_ok xs \<longleftrightarrow> distinct (map ins_id xs) \<and> distinct (map job_name xs) \<and>
     (\<forall>x \<in> set xs. PDRole_of (ins_role x) \<noteq> None)"

definition listed :: "Instance list \<Rightarrow> int \<Rightarrow> int \<Rightarrow> bool" where
  "listed xs i e \<longleftrightarrow> (\<exists>x \<in> set xs. ins_id x = i \<and> e \<in> ep_id ` set (all_eps x))"

text \<open>
  Two transports for a witness: nobody answers, and only the Service does. The world is the list of
  the addresses tried.
\<close>

definition silent_transport :: "string option list transport" where
  "silent_transport target ev instances tried = (tried @ [target], False)"

definition service_transport :: "string option list transport" where
  "service_transport target ev instances tried = (tried @ [target], target = None)"

locale refresh_channel =
  fixes send :: "EventType \<Rightarrow> Instance list \<Rightarrow> 'w \<Rightarrow> 'w \<times> bool"
    and ok :: "'w \<Rightarrow> bool"
    and reach :: "'w \<Rightarrow> 'c set"
    and serves :: "'w \<Rightarrow> 'c \<Rightarrow> int \<Rightarrow> int \<Rightarrow> bool"
  assumes send_keeps: "ok w \<Longrightarrow> ok (fst (send ev xs w))"
    and set_answer: "ok w \<Longrightarrow> roster_ok xs \<Longrightarrow> snd (send SET xs w) \<longleftrightarrow> reach w \<noteq> {}"
    and set_served: "ok w \<Longrightarrow> roster_ok xs \<Longrightarrow> c \<in> reach w \<Longrightarrow> serves (fst (send SET xs w)) c i e = listed xs i e"
    and reach_stays: "ok w \<Longrightarrow> reach (fst (send ev xs w)) = reach w"
begin

text \<open>
  After two rosters in a row the coordinators serve the second one.
\<close>

lemma last_roster_wins:
  assumes "ok w" "roster_ok xs" "c \<in> reach w"
  shows "serves (fst (send SET xs (fst (send ev ys w)))) c i e = listed xs i e"
  using assms set_served[OF send_keeps[OF assms(1)] assms(2)] by (simp add: reach_stays)

lemma accepted_roster:
  assumes "ok w" "roster_ok xs" "snd (send SET xs w)"
  obtains c where "c \<in> reach w" "\<forall>i e. serves (fst (send SET xs w)) c i e = listed xs i e"
  using assms set_answer[OF assms(1,2)] set_served[OF assms(1,2)] by blast

end

section \<open>One coordinator\<close>

lemma build_cache_dom: "in_dict e (build_endpoint_cache r ins) \<longleftrightarrow> e \<in> ep_id ` set (all_eps ins)"
  unfolding in_dict_iff build_endpoint_cache_def foldl_dict_set_keys map_snd_ep_entries[symmetric]
  by (auto simp: image_iff)

lemma has_endpoint_iff:
  assumes "pools_ok s"
  shows "has_instance_endpoint i e s \<longleftrightarrow>
     (\<exists>r. dict_get (available_pool s) i = Some r \<and> e \<in> ep_id ` set (all_eps (obj s r)))"
proof -
  have "dict_get (endpoint_id_cache s) i = map_option (\<lambda>r. build_endpoint_cache r (obj s r)) (dict_get (available_pool s) i)"
    using assms by (simp add: pools_ok_def)
  then show ?thesis by (auto simp: has_instance_endpoint_def build_cache_dom simp del: not_None_eq split: option.split)
qed

lemma sig_ids: "ep_sig a = ep_sig b \<Longrightarrow> ep_id ` set (all_eps a) = ep_id ` set (all_eps b)"
proof -
  have "ep_id ` set (all_eps x) = (\<lambda>(pod, i, rest). i) ` ep_sig x" for x
    unfolding ep_sig_def map_snd_ep_entries[symmetric] set_map image_image by (simp add: case_prod_unfold)
  then show "ep_sig a = ep_sig b \<Longrightarrow> ?thesis" by simp
qed

text \<open>
  A SET of an acceptable roster succeeds, and the endpoints that can be routed to afterwards are
  exactly the roster's.
\<close>

lemma handle_set:
  assumes ok: "pools_ok s" and ord: "iterates ord" and ros: "roster_ok xs"
  obtains s' where "handle_refresh_instances ord SET xs s = (s', Inr ())" "pools_ok s'"
    "\<forall>i e. has_instance_endpoint i e s' = listed xs i e"
proof -
  have r: "distinct (map ins_id xs)" "distinct (map job_name xs)" "\<forall>x \<in> set xs. PDRole_of (ins_role x) \<noteq> None"
    using ros by (simp_all add: roster_ok_def)
  obtain s' b rm where e: "refresh_instances ord SET xs s = (s', Inr (b, rm))" "pools_ok s'"
    "set (dict_keys (available_pool s')) = set (map ins_id xs)"
    "\<forall>x \<in> set xs. \<exists>r. dict_get (available_pool s') (ins_id x) = Some r \<and> \<not> instance_needs_update (obj s' r) x"
    using set_accepted[OF ok ord r] by blast
  have h: "handle_refresh_instances ord SET xs s = (s', Inr ())"
    using r(1) e(1) by (simp add: handle_refresh_instances_def InsEventMsg_def)
  have same: "ep_id ` set (all_eps (obj s' r)) = ep_id ` set (all_eps x)"
    if "dict_get (available_pool s') (ins_id x) = Some r" "x \<in> set xs" for x r
    using e(4) that by (intro sig_ids) (auto simp: instance_needs_update_def)
  have "has_instance_endpoint i e' s' = listed xs i e'" for i e'
  proof
    assume "has_instance_endpoint i e' s'"
    then obtain r where r: "dict_get (available_pool s') i = Some r" "e' \<in> ep_id ` set (all_eps (obj s' r))"
      unfolding has_endpoint_iff[OF e(2)] by blast
    then have "i \<in> set (map ins_id xs)" unfolding e(3)[symmetric] by (metis dict_get_in fst_conv image_eqI set_map)
    then obtain x where "x \<in> set xs" "ins_id x = i" by auto
    with r same[of x r] show "listed xs i e'" by (auto simp: listed_def)
  next
    assume "listed xs i e'"
    then obtain x where x: "x \<in> set xs" "ins_id x = i" "e' \<in> ep_id ` set (all_eps x)" by (auto simp: listed_def)
    then obtain r where "dict_get (available_pool s') i = Some r" using e(4) by blast
    with x same[of x r] show "has_instance_endpoint i e' s'" unfolding has_endpoint_iff[OF e(2)] by auto
  qed
  with h e(2) show thesis by (intro that) auto
qed

lemma handle_keeps:
  assumes "pools_ok s" "iterates ord"
  shows "pools_ok (fst (handle_refresh_instances ord ev xs s))"
proof -
  have "fst (handle_refresh_instances ord ev xs s) \<in> {s, fst (refresh_instances ord ev xs s)}"
    by (auto simp: handle_refresh_instances_def split: sum.split prod.split py_error.split)
  moreover have "pools_ok (fst (refresh_instances ord ev xs s))"
  proof -
    obtain s1 rs where a: "alloc_instances xs s = (s1, rs)" by fastforce
    show ?thesis by (rule refresh_cases[OF assms a, of ev]) (simp_all add: alloc_ok(1)[OF assms(1) a])
  qed
  ultimately show ?thesis using assms(1) by auto
qed

section \<open>All coordinators\<close>

lemma post_frame [frame_simps]: "answers (fst (coordinator_post ord t ev xs w)) = answers w"
  by (simp add: coordinator_post_def Let_def case_prod_unfold split: option.split)

lemma post_keeps: "network_ok w \<Longrightarrow> iterates ord \<Longrightarrow> network_ok (fst (coordinator_post ord t ev xs w))"
  using handle_keeps by (auto simp: network_ok_def coordinator_post_def Let_def case_prod_unfold split: option.split)

lemma post_other:
  "answers w t \<noteq> Some c \<Longrightarrow> coordinators (fst (coordinator_post ord t ev xs w)) c = coordinators w c"
  by (auto simp: coordinator_post_def Let_def case_prod_unfold split: option.split)

lemma post_set:
  assumes "network_ok w" "iterates ord" "roster_ok xs"
  shows "snd (coordinator_post ord t SET xs w) \<longleftrightarrow> answers w t \<noteq> None"
    and "answers w t = Some c \<Longrightarrow> routes (fst (coordinator_post ord t SET xs w)) c i e = listed xs i e"
proof -
  have p: "pools_ok (coordinators w c)" for c using assms(1) by (simp add: network_ok_def)
  show "snd (coordinator_post ord t SET xs w) \<longleftrightarrow> answers w t \<noteq> None"
  proof (cases "answers w t")
    case (Some c)
    show ?thesis by (rule handle_set[OF p[of c] assms(2,3)]) (simp add: Some coordinator_post_def)
  qed (simp add: coordinator_post_def)
  show "routes (fst (coordinator_post ord t SET xs w)) c i e = listed xs i e" if "answers w t = Some c"
    by (rule handle_set[OF p[of c] assms(2,3)]) (simp add: that coordinator_post_def routes_def)
qed

lemma push_round_Cons:
  "push_round post ov (h # hs) ev xs w =
     (let w1 = fst (post (target_host ov h) ev xs w)
      in (fst (push_round post ov hs ev xs w1), snd (post (target_host ov h) ev xs w) \<or> snd (push_round post ov hs ev xs w1)))"
  by (simp add: Let_def case_prod_unfold)

declare push_round.simps(2) [simp del]

lemma round_frame:
  assumes "network_ok w" "iterates ord"
  shows "network_ok (fst (push_round (coordinator_post ord) ov hs ev xs w)) \<and>
    answers (fst (push_round (coordinator_post ord) ov hs ev xs w)) = answers w \<and>
    (c \<notin> reached_at w (map (target_host ov) hs) \<longrightarrow>
       coordinators (fst (push_round (coordinator_post ord) ov hs ev xs w)) c = coordinators w c)"
  using assms
proof (induction hs arbitrary: w)
  case (Cons h hs)
  let ?w = "fst (coordinator_post ord (target_host ov h) ev xs w)"
  have "network_ok ?w" using Cons.prems by (rule post_keeps)
  from Cons.IH[OF this Cons.prems(2)] show ?case
    by (simp add: push_round_Cons Let_def frame_simps) (simp add: reached_at_def frame_simps post_other)
qed simp

lemma round_set:
  assumes "network_ok w" "iterates ord" "roster_ok xs"
  shows "(snd (push_round (coordinator_post ord) ov hs SET xs w) \<longleftrightarrow> reached_at w (map (target_host ov) hs) \<noteq> {}) \<and>
    (c \<in> reached_at w (map (target_host ov) hs) \<longrightarrow>
       routes (fst (push_round (coordinator_post ord) ov hs SET xs w)) c i e = listed xs i e)"
  using assms
proof (induction hs arbitrary: w)
  case (Cons h hs)
  let ?t = "target_host ov h" and ?ts = "map (target_host ov) hs"
  let ?w = "fst (coordinator_post ord ?t SET xs w)"
  have ok: "network_ok ?w" using Cons.prems(1,2) by (rule post_keeps)
  have r: "reached_at ?w ?ts = reached_at w ?ts" by (simp add: reached_at_def frame_simps)
  note IH = Cons.IH[OF ok Cons.prems(2,3), unfolded r]
  have h: "reached_at w (map (target_host ov) (h # hs)) = {c. answers w ?t = Some c} \<union> reached_at w ?ts"
    by (auto simp: reached_at_def)
  have "coordinators (fst (push_round (coordinator_post ord) ov hs SET xs ?w)) c = coordinators ?w c" if "c \<notin> reached_at w ?ts"
    using round_frame[OF ok Cons.prems(2)] that r by blast
  then have "routes (fst (push_round (coordinator_post ord) ov hs SET xs ?w)) c i e = listed xs i e"
    if "answers w ?t = Some c"
    using IH post_set(2)[OF Cons.prems that] by (cases "c \<in> reached_at w ?ts") (simp_all add: routes_def)
  with IH show ?case unfolding h push_round_Cons Let_def by (auto simp: post_set(1)[OF Cons.prems])
qed (simp add: reached_at_def)

section \<open>The client as a channel\<close>

lemma target_self: "target_host ov (Some h) = (if h = [] then str_or ov None else Some h)"
  by (simp add: target_host_def str_or_def)

lemma hosts_None: "None \<in> set (instance_refresh_hosts ov ips) \<longleftrightarrow> instance_refresh_hosts ov ips = [None]"
  by (auto simp: instance_refresh_hosts_def Let_def)

lemma send_cases:
  obtains w1 b where "push_round post ov (instance_refresh_hosts ov ips) ev xs w = (w1, b)"
    "send_instance_refresh post ov ips ev xs w =
       (if b then (w1, True) else if instance_refresh_hosts ov ips = [None] then (w1, False)
        else post (target_host ov None) ev xs w1)"
proof -
  obtain w1 b where p: "push_round post ov (instance_refresh_hosts ov ips) ev xs w = (w1, b)" by fastforce
  show thesis by (rule that[OF p]) (simp add: send_instance_refresh_def p hosts_None)
qed

lemma send_frame:
  assumes "network_ok w" "iterates ord"
  shows "network_ok (fst (send_instance_refresh (coordinator_post ord) ov ips ev xs w))"
    "answers (fst (send_instance_refresh (coordinator_post ord) ov ips ev xs w)) = answers w"
proof -
  obtain w1 b where p: "push_round (coordinator_post ord) ov (instance_refresh_hosts ov ips) ev xs w = (w1, b)"
    and s: "send_instance_refresh (coordinator_post ord) ov ips ev xs w =
       (if b then (w1, True) else if instance_refresh_hosts ov ips = [None] then (w1, False)
        else coordinator_post ord (target_host ov None) ev xs w1)" by (rule send_cases)
  have "network_ok w1" "answers w1 = answers w"
    using round_frame[OF assms, of ov "instance_refresh_hosts ov ips" ev xs] p by simp_all
  with post_keeps[OF _ assms(2)] show "network_ok (fst (send_instance_refresh (coordinator_post ord) ov ips ev xs w))"
    "answers (fst (send_instance_refresh (coordinator_post ord) ov ips ev xs w)) = answers w"
    unfolding s by (simp_all add: frame_simps)
qed

lemma reached_cong: "answers w' = answers w \<Longrightarrow> reached ov ips w' = reached ov ips w"
  by (simp add: reached_def reached_at_def Let_def)

lemma send_set:
  assumes "network_ok w" "iterates ord" "roster_ok xs"
  shows "snd (send_instance_refresh (coordinator_post ord) ov ips SET xs w) \<longleftrightarrow> reached ov ips w \<noteq> {}"
    and "c \<in> reached ov ips w \<Longrightarrow>
      routes (fst (send_instance_refresh (coordinator_post ord) ov ips SET xs w)) c i e = listed xs i e"
proof -
  let ?hs = "instance_refresh_hosts ov ips"
  let ?first = "reached_at w (map (target_host ov) ?hs)"
  obtain w1 b where p: "push_round (coordinator_post ord) ov ?hs SET xs w = (w1, b)"
    and s: "send_instance_refresh (coordinator_post ord) ov ips SET xs w =
       (if b then (w1, True) else if ?hs = [None] then (w1, False)
        else coordinator_post ord (target_host ov None) SET xs w1)" by (rule send_cases)
  have w1: "network_ok w1" "answers w1 = answers w" using round_frame[OF assms(1,2), of ov ?hs SET xs] p by simp_all
  have b: "b \<longleftrightarrow> ?first \<noteq> {}" and served: "c \<in> ?first \<Longrightarrow> routes w1 c i e = listed xs i e"
    using round_set[OF assms, of ov ?hs] p by simp_all
  have only: "?first = reached_at w [target_host ov None]" if "?hs = [None]" using that by simp
  show "snd (send_instance_refresh (coordinator_post ord) ov ips SET xs w) \<longleftrightarrow> reached ov ips w \<noteq> {}"
    unfolding s using b only post_set(1)[OF w1(1) assms(2,3)] w1(2) by (auto simp: reached_def Let_def reached_at_def)
  show "routes (fst (send_instance_refresh (coordinator_post ord) ov ips SET xs w)) c i e = listed xs i e"
    if c: "c \<in> reached ov ips w"
  proof (cases b)
    case True
    then show ?thesis using c b served unfolding s by (simp add: reached_def Let_def)
  next
    case False
    then have "answers w (target_host ov None) = Some c" "?hs \<noteq> [None]"
      using c b only by (auto simp: reached_def Let_def reached_at_def)
    then show ?thesis using False post_set(2)[OF w1(1) assms(2,3)] w1(2) unfolding s by simp
  qed
qed

interpretation net: refresh_channel
  "send_instance_refresh (coordinator_post ord) ov ips" "\<lambda>w. network_ok w \<and> iterates ord" "reached ov ips" routes
proof unfold_locales
  fix w ev xs assume "network_ok w \<and> iterates ord"
  then have a: "network_ok w" "iterates ord" by simp_all
  show "network_ok (fst (send_instance_refresh (coordinator_post ord) ov ips ev xs w)) \<and> iterates ord"
    using send_frame(1)[OF a] a(2) by simp
  show "reached ov ips (fst (send_instance_refresh (coordinator_post ord) ov ips ev xs w)) = reached ov ips w"
    by (rule reached_cong[OF send_frame(2)[OF a]])
qed (simp_all add: send_set)

section \<open>Where a refresh goes\<close>

lemma push_round_cong:
  "(\<And>h. h \<in> set hs \<Longrightarrow> post (target_host ov h) = post' (target_host ov h)) \<Longrightarrow>
   push_round post ov hs ev xs w = push_round post' ov hs ev xs w"
proof (induction hs arbitrary: w)
  case (Cons h hs)
  have "post (target_host ov h) = post' (target_host ov h)" using Cons.prems[of h] by simp
  moreover have "push_round post ov hs ev xs v = push_round post' ov hs ev xs v" for v
    by (rule Cons.IH) (rule Cons.prems[OF list.set_intros(2)])
  ultimately show ?case unfolding push_round_Cons by simp
qed simp

text \<open>
  While a coordinator pod is pinned, no refresh is ever sent to the Service DNS name: whatever
  the Service would answer, the outcome is the same, although a round in which every pod fails is
  followed by a retry that is announced as going there.
\<close>

theorem pinned_ignores_service:
  assumes "h \<noteq> []" and same: "\<forall>t. t \<noteq> None \<longrightarrow> post t = post' t"
  shows "send_instance_refresh post (Some h) pod_ips ev instances w =
    send_instance_refresh post' (Some h) pod_ips ev instances w"
proof -
  have t: "target_host (Some h) x \<noteq> None" for x using assms(1) by (auto simp: target_host_def str_or_def split: option.split)
  have "push_round post (Some h) hs ev instances w = push_round post' (Some h) hs ev instances w" for hs
    by (rule push_round_cong) (metis same t)
  moreover have "post (target_host (Some h) None) = post' (target_host (Some h) None)" using same t by blast
  ultimately show ?thesis by (simp add: send_instance_refresh_def Let_def case_prod_unfold)
qed

theorem pinned_ignores_service_witness:
  "send_instance_refresh service_transport (Some ''10.0.0.1'') [''10.0.0.2''] SET [] [] =
     ([Some ''10.0.0.1'', Some ''10.0.0.2'', Some ''10.0.0.1''], False) \<and>
   send_instance_refresh service_transport None [''10.0.0.2''] SET [] [] = ([Some ''10.0.0.2'', None], True)"
proof -
  have "send_instance_refresh service_transport (Some ''10.0.0.1'') [''10.0.0.2''] SET [] [] =
      send_instance_refresh silent_transport (Some ''10.0.0.1'') [''10.0.0.2''] SET [] []"
    by (rule pinned_ignores_service) (simp_all add: fun_eq_iff service_transport_def silent_transport_def)
  also have "\<dots> = ([Some ''10.0.0.1'', Some ''10.0.0.2'', Some ''10.0.0.1''], False)" by code_simp
  moreover have "send_instance_refresh service_transport None [''10.0.0.2''] SET [] [] = ([Some ''10.0.0.2'', None], True)"
    by code_simp
  ultimately show ?thesis by simp
qed

end
