(* ===== verification/Serving_Overlay.thy ===== *)
theory Serving_Overlay
  imports Refresh_Channel Controller_Instances
begin

text \<open>
  The serving view of instances under fault tolerance:
  \<^verbatim>\<open>motor/controller/fault_tolerance/serving_overlay.py\<close>.

  The class has no instances: its state is the set of held instance IDs and the runtime store, which
  are passed along. \<open>send\<close> is the coordinator client; a call that raises counts as one that answers
  \<open>False\<close>, which is what the only caller that catches makes of it. The publish lock makes a full
  publication one step.
\<close>

section \<open>Projection\<close>

definition WITHDRAWN_PHASES :: "FtPhase set" where
  "WITHDRAWN_PHASES = {PH_DECIDING, PH_WAITING_ENGINE_FAULT, PH_SCALING_DOWN, PH_POST_SCALE_CLEANUP, PH_RECONFIGURING}"

definition overlay_hold :: "int \<Rightarrow> int set \<Rightarrow> int set" where
  "overlay_hold i held = insert i held"

definition overlay_release :: "int \<Rightarrow> int set \<Rightarrow> int set" where
  "overlay_release i held = held - {i}"

definition overlay_copy :: "Instance \<Rightarrow> Instance" where
  "overlay_copy ins = to_instance ins"

definition without_dead_ranks :: "Instance \<Rightarrow> int set \<Rightarrow> Instance option" where
  "without_dead_ranks snapshot dead =
     (let kept = map (\<lambda>(pod, eps). (pod, filter (\<lambda>(k, ep). ep_id ep \<notin> dead) eps)) (endpoints snapshot);
          routable = filter (\<lambda>(pod, eps). eps \<noteq> []) kept
      in if routable \<noteq> [] then Some (snapshot\<lparr>endpoints := routable\<rparr>) else None)"

definition project :: "int set \<Rightarrow> FtRuntimeStore \<Rightarrow> Instance \<Rightarrow> Instance option" where
  "project held st ins =
     (let snapshot = overlay_copy ins
      in case rt_get (ins_id snapshot) st of
           None \<Rightarrow> if ins_id snapshot \<in> held then None else Some snapshot
         | Some rt \<Rightarrow>
             if phase rt \<in> {PH_DISABLED, PH_NORMAL} then if ins_id snapshot \<in> held then None else Some snapshot
             else if phase rt \<in> WITHDRAWN_PHASES then None
             else if phase rt = PH_SCALED_DOWN_RUNNING then without_dead_ranks snapshot (set (dead_committed rt))
             else if phase rt = PH_WARMING_UP
             then (let serving = set (serving_dp_ranks rt)
                   in if serving \<noteq> {}
                      then without_dead_ranks snapshot (set (map ep_id (snd (get_all_endpoints True snapshot))) - serving)
                      else Some snapshot)
             else Some snapshot)"

definition project_many :: "int set \<Rightarrow> FtRuntimeStore \<Rightarrow> Instance list \<Rightarrow> Instance list" where
  "project_many held st xs = List.map_filter (project held st) xs"

definition fingerprint :: "Instance list \<Rightarrow> (int \<times> int list) list" where
  "fingerprint xs =
     sort (map (\<lambda>ins. (ins_id ins, sort (map ep_id (snd (get_all_endpoints True ins))))) xs)"

definition mark_published :: "Instance list \<Rightarrow> FtRuntimeStore \<Rightarrow> FtRuntimeStore" where
  "mark_published xs st = mark_serving_published (remdups (map ins_id xs)) st"

section \<open>Publication\<close>

definition withdraw ::
  "(EventType \<Rightarrow> Instance list \<Rightarrow> 'w \<Rightarrow> 'w \<times> bool) \<Rightarrow> FtRuntimeStore \<Rightarrow> Instance \<Rightarrow> 'w \<Rightarrow> 'w \<times> bool" where
  "withdraw send st ins w =
     (let snapshot = overlay_copy ins;
          visible = (case rt_get (ins_id snapshot) st of
                       None \<Rightarrow> Some snapshot
                     | Some rt \<Rightarrow> without_dead_ranks snapshot (set (dead_committed rt)))
      in case visible of None \<Rightarrow> (w, False) | Some x \<Rightarrow> send DEL [x] w)"

definition publish ::
  "(EventType \<Rightarrow> Instance list \<Rightarrow> 'w \<Rightarrow> 'w \<times> bool) \<Rightarrow> int set \<Rightarrow> FtRuntimeStore \<Rightarrow> Instance \<Rightarrow> 'w \<Rightarrow> 'w \<times> bool" where
  "publish send held st ins w =
     (case project held st ins of None \<Rightarrow> (w, False) | Some projected \<Rightarrow> send ADD [projected] w)"

definition restored_roster ::
  "int set \<Rightarrow> FtRuntimeStore \<Rightarrow> 'r InstanceManager \<Rightarrow> Instance \<Rightarrow> Instance list" where
  "restored_roster held st im restored =
     dict_values
       (foldl (\<lambda>roster candidate.
                 if ins_id candidate = ins_id restored then roster
                 else case project held st candidate of
                        None \<Rightarrow> roster
                      | Some projected \<Rightarrow> dict_set (ins_id projected) projected roster)
              [(ins_id restored, restored)] (get_instances (Some {ACTIVE}) im))"

definition is_warming_up :: "int \<Rightarrow> FtRuntimeStore \<Rightarrow> bool" where
  "is_warming_up i st = (case rt_get i st of None \<Rightarrow> False | Some rt \<Rightarrow> phase rt = PH_WARMING_UP)"

text \<open>
  The phase is read twice, before and after the lock is taken; as one step the two readings agree.
\<close>

definition publish_restored ::
  "(EventType \<Rightarrow> Instance list \<Rightarrow> 'w \<Rightarrow> 'w \<times> bool) \<Rightarrow> int set \<Rightarrow> 'r InstanceManager \<Rightarrow> Instance
   \<Rightarrow> FtRuntimeStore \<Rightarrow> 'w \<Rightarrow> FtRuntimeStore \<times> 'w \<times> bool" where
  "publish_restored send held im ins st w =
     (let snapshot = overlay_copy ins
      in if \<not> is_warming_up (ins_id snapshot) st then (st, w, False)
         else (let (w', published) = send SET (restored_roster held st im snapshot) w
               in if \<not> published
                  then (fst (transition (ins_id snapshot)
                              [Ch_last_error (Some ''ServingOverlay restored publication pending'')] st), w', False)
                  else (fst (transition (ins_id snapshot)
                              [Ch_phase PH_NORMAL, Ch_dead_committed [], Ch_pending_removed_ranks [],
                               Ch_serving_dp_ranks [], Ch_serving_published True, Ch_last_error None] st), w', True)))"

definition complete_dp_scale_up ::
  "(EventType \<Rightarrow> Instance list \<Rightarrow> 'w \<Rightarrow> 'w \<times> bool) \<Rightarrow> int set \<Rightarrow> 'r InstanceManager \<Rightarrow> Instance
   \<Rightarrow> FtRuntimeStore \<Rightarrow> 'w \<Rightarrow> FtRuntimeStore \<times> 'w \<times> bool" where
  "complete_dp_scale_up send held im ins st w = publish_restored send held im ins st w"

section \<open>What may serve\<close>

text \<open>
  The contract: an instance serves all its ranks in normal operation unless it is held, the ranks
  that are not committed dead after a scale-down, the ranks recorded as serving while it warms up,
  and none while a recovery is under way.
\<close>

definition may_serve :: "int set \<Rightarrow> FtRuntimeStore \<Rightarrow> int \<Rightarrow> int \<Rightarrow> bool" where
  "may_serve held st i e =
     (case rt_get i st of
        None \<Rightarrow> i \<notin> held
      | Some rt \<Rightarrow>
          (case phase rt of
             PH_DISABLED \<Rightarrow> i \<notin> held
           | PH_NORMAL \<Rightarrow> i \<notin> held
           | PH_SCALED_DOWN_RUNNING \<Rightarrow> e \<notin> set (dead_committed rt)
           | PH_WARMING_UP \<Rightarrow> serving_dp_ranks rt = [] \<or> e \<in> set (serving_dp_ranks rt)
           | _ \<Rightarrow> False))"

abbreviation ranks :: "Instance \<Rightarrow> int set" where
  "ranks ins \<equiv> ep_id ` set (all_eps ins)"

text \<open>
  The ACTIVE instances other than the one that comes back.
\<close>

definition others :: "'r InstanceManager \<Rightarrow> Instance \<Rightarrow> Instance list" where
  "others im ins = filter (\<lambda>x. ins_id x \<noteq> ins_id ins) (get_instances (Some {ACTIVE}) im)"

text \<open>
  One coordinator that answers at one address, and instance 7 with rank 2 committed dead or warming
  up on ranks 0 and 1.
\<close>

definition demo_network :: Network where
  "demo_network = \<lparr>coordinators = (\<lambda>c. InstancePools_init False), answers = [Some ''10.0.0.9'' \<mapsto> 0]\<rparr>"

definition demo_scaled_down :: FtRuntimeStore where
  "demo_scaled_down = put ((new_runtime 7)\<lparr>phase := PH_SCALED_DOWN_RUNNING, dead_committed := [2]\<rparr>) empty_store"

definition demo_warming :: FtRuntimeStore where
  "demo_warming = put ((new_runtime 7)\<lparr>phase := PH_WARMING_UP, dead_committed := [2], serving_dp_ranks := [0, 1]\<rparr>) empty_store"

definition demo_empty_manager :: "Instance InstanceManager" where
  "demo_empty_manager = (demo_manager ACTIVE)\<lparr>instances := []\<rparr>"

section \<open>Projection against the contract\<close>

lemma without_dead_eps:
  "(case without_dead_ranks x dead of None \<Rightarrow> [] | Some y \<Rightarrow> all_eps y) = filter (\<lambda>ep. ep_id ep \<notin> dead) (all_eps x)"
proof -
  let ?kept = "map (\<lambda>(pod, eps). (pod, filter (\<lambda>(k, ep). ep_id ep \<notin> dead) eps)) (endpoints x)"
  have "concat (map (\<lambda>(pod, eps). dict_values eps) (filter (\<lambda>(pod, eps). eps \<noteq> []) ys)) =
      concat (map (\<lambda>(pod, eps). dict_values eps) ys)" for ys :: "(string, (int, Endpoint) dict) dict"
    by (induction ys) auto
  moreover have "concat (map (\<lambda>(pod, eps). dict_values eps) ?kept) = filter (\<lambda>ep. ep_id ep \<notin> dead) (all_eps x)"
    by (simp add: all_eps_def filter_concat filter_map o_def case_prod_unfold)
  ultimately have e: "concat (map (\<lambda>(pod, eps). dict_values eps) (filter (\<lambda>(pod, eps). eps \<noteq> []) ?kept)) =
      filter (\<lambda>ep. ep_id ep \<notin> dead) (all_eps x)" by simp
  show ?thesis
    unfolding e[symmetric] without_dead_ranks_def Let_def by (simp add: all_eps_def)
qed

lemma without_dead_fields:
  assumes "without_dead_ranks x dead = Some y"
  shows "ins_id y = ins_id x" "job_name y = job_name x" "ins_role y = ins_role x"
  using assms by (auto simp: without_dead_ranks_def Let_def split: if_splits)

lemma copy_fields [simp]:
  "ins_id (overlay_copy x) = ins_id x" "job_name (overlay_copy x) = job_name x" "ins_role (overlay_copy x) = ins_role x"
  "all_eps (overlay_copy x) = all_eps x" "enable_multi_endpoints (overlay_copy x) = enable_multi_endpoints x"
  "ep_entries (overlay_copy x) = ep_entries x"
  by (simp_all add: overlay_copy_def to_instance_def all_eps_def ep_entries_def)

lemma project_fields:
  assumes "project held st x = Some y"
  shows "ins_id y = ins_id x" "job_name y = job_name x" "ins_role y = ins_role x"
  using assms by (auto simp: project_def Let_def dest: without_dead_fields split: option.splits if_splits)

lemma scan_all: "enable_multi_endpoints x \<Longrightarrow> map snd (scan_endpoints True x) = all_eps x"
  by (simp add: scan_endpoints_def case_prod_unfold map_snd_ep_entries)

lemma project_eps:
  assumes "enable_multi_endpoints x"
  shows "(case project held st x of None \<Rightarrow> [] | Some y \<Rightarrow> all_eps y) =
     filter (\<lambda>ep. may_serve held st (ins_id x) (ep_id ep)) (all_eps x)"
proof (cases "rt_get (ins_id x) st")
  case None
  then show ?thesis by (simp add: project_def Let_def may_serve_def)
next
  case (Some rt)
  have a: "snd (get_all_endpoints True (overlay_copy x)) = all_eps x"
    using scan_all[of "overlay_copy x"] assms by (simp add: get_all_endpoints_def)
  note w = without_dead_eps[of "overlay_copy x", simplified]
  show ?thesis
    using Some a by (cases "phase rt")
      (simp_all add: project_def Let_def may_serve_def WITHDRAWN_PHASES_def w cong: filter_cong)
qed

lemma project_ranks:
  assumes "enable_multi_endpoints x"
  shows "(\<exists>y. project held st x = Some y \<and> e \<in> ranks y) \<longleftrightarrow> e \<in> ranks x \<and> may_serve held st (ins_id x) e"
proof -
  have "(\<exists>y. project held st x = Some y \<and> e \<in> ranks y) \<longleftrightarrow>
      e \<in> ep_id ` set (case project held st x of None \<Rightarrow> [] | Some y \<Rightarrow> all_eps y)"
    by (cases "project held st x") simp_all
  also have "\<dots> \<longleftrightarrow> e \<in> ranks x \<and> may_serve held st (ins_id x) e" unfolding project_eps[OF assms] by auto
  finally show ?thesis .
qed

lemma project_many_Cons:
  "project_many held st (x # xs) = (case project held st x of None \<Rightarrow> [] | Some y \<Rightarrow> [y]) @ project_many held st xs"
  by (simp add: project_many_def List.map_filter_simps split: option.split)

lemma project_many_Nil [simp]: "project_many held st [] = []"
  by (simp add: project_many_def List.map_filter_simps)

lemma set_project_many: "set (project_many held st xs) = {y. \<exists>x \<in> set xs. project held st x = Some y}"
  by (induction xs) (auto simp: project_many_Cons split: option.splits)

lemma listed_project_many:
  assumes "\<forall>x \<in> set xs. enable_multi_endpoints x"
  shows "listed (project_many held st xs) i e \<longleftrightarrow>
     (\<exists>x \<in> set xs. ins_id x = i \<and> e \<in> ranks x \<and> may_serve held st i e)"
proof -
  have "listed (project_many held st xs) i e \<longleftrightarrow> (\<exists>x \<in> set xs. \<exists>y. project held st x = Some y \<and> ins_id y = i \<and> e \<in> ranks y)"
    unfolding listed_def set_project_many by blast
  also have "\<dots> \<longleftrightarrow> (\<exists>x \<in> set xs. ins_id x = i \<and> (\<exists>y. project held st x = Some y \<and> e \<in> ranks y))"
    using project_fields(1)[of held st] by metis
  finally show ?thesis using assms project_ranks by blast
qed

lemma distinct_project_many:
  assumes "\<And>x y. project held st x = Some y \<Longrightarrow> k y = k x" "distinct (map k xs)"
  shows "distinct (map k (project_many held st xs))"
  using assms(2)
proof (induction xs)
  case (Cons x xs)
  have "k ` set (project_many held st xs) \<subseteq> k ` set xs" using assms(1) by (auto simp: set_project_many)
  with Cons show ?case using assms(1) by (auto simp: project_many_Cons split: option.split)
qed simp

lemma roster_project:
  assumes "roster_ok xs"
  shows "roster_ok (project_many held st xs)"
  using assms distinct_project_many[OF project_fields(1)] distinct_project_many[OF project_fields(2)]
  by (auto simp: roster_ok_def set_project_many dest: project_fields(3))

lemma roster_fold:
  assumes "distinct (map ins_id xs)" "\<forall>x \<in> set xs. ins_id x \<notin> fst ` set d"
  shows "dict_values (foldl (\<lambda>d x. case project held st x of None \<Rightarrow> d | Some y \<Rightarrow> dict_set (ins_id y) y d) d xs) =
    dict_values d @ project_many held st xs"
  using assms
proof (induction xs arbitrary: d)
  case (Cons x xs)
  show ?case
  proof (cases "project held st x")
    case None
    then show ?thesis using Cons by (simp add: project_many_Cons)
  next
    case (Some y)
    have y: "ins_id y = ins_id x" by (rule project_fields(1)[OF Some])
    then have "dict_set (ins_id y) y d = d @ [(ins_id y, y)]"
      using Cons.prems(2) by (intro dict_set_fresh) (simp add: dict_get_None_iff)
    moreover have "\<forall>z \<in> set xs. ins_id z \<notin> fst ` set (d @ [(ins_id y, y)])" using Cons.prems y by (auto simp: image_iff)
    ultimately show ?thesis using Some Cons.IH Cons.prems(1) by (simp add: project_many_Cons)
  qed
qed simp

lemma restored_roster_eq:
  assumes "distinct (map ins_id (others im ins))"
  shows "restored_roster held st im ins = ins # project_many held st (others im ins)"
proof -
  have "foldl (\<lambda>d x. if ins_id x = ins_id ins then d else g d x) d xs = foldl g d (filter (\<lambda>x. ins_id x \<noteq> ins_id ins) xs)"
    for d xs and g :: "(int, Instance) dict \<Rightarrow> Instance \<Rightarrow> (int, Instance) dict"
    by (induction xs arbitrary: d) simp_all
  then show ?thesis
    using roster_fold[OF assms, of "[(ins_id ins, ins)]"] by (simp add: restored_roster_def others_def)
qed

section \<open>What the coordinators serve\<close>

lemma rt_get_transition:
  assumes "rt_get i st = Some rt"
  shows "rt_get j (fst (transition i cs st)) = (if j = i then Some (fst (apply_changes cs False rt)) else rt_get j st)"
  using assms by (simp add: rt_get_def transition_instances setdefault_def)

text \<open>
  After a full SET of the projected roster, every coordinator the controller reaches can route
  exactly to the ranks that may serve: none of a held or recovering instance, no committed dead
  rank, only the recorded survivors of one that warms up, and every other rank of the roster.
\<close>

theorem projection_served_exactly:
  assumes "network_ok w" "iterates ord" "roster_ok xs" "\<forall>x \<in> set xs. enable_multi_endpoints x"
    and "c \<in> reached override pod_ips w"
  shows "routes (fst (send_instance_refresh (coordinator_post ord) override pod_ips SET (project_many held st xs) w)) c i e \<longleftrightarrow>
    (\<exists>x \<in> set xs. ins_id x = i \<and> e \<in> ranks x \<and> may_serve held st i e)"
  using net.set_served[OF conjI[OF assms(1,2)] roster_project[OF assms(3)] assms(5)] listed_project_many[OF assms(4)]
  by simp

lemma failed_publication_projects:
  assumes "rt_get i st = Some rt"
  shows "project held (fst (transition i [Ch_last_error e] st)) x = project held st x"
  using assms by (auto simp: project_def rt_get_transition[OF assms] Let_def)

lemma listed_restored:
  assumes "roster_ok (ins # others im ins)" "\<forall>x \<in> set (others im ins). enable_multi_endpoints x"
  shows "roster_ok (restored_roster held st im (overlay_copy ins))"
    "listed (restored_roster held st im (overlay_copy ins)) i e \<longleftrightarrow>
      (if i = ins_id ins then e \<in> ranks ins
       else \<exists>x \<in> set (others im ins). ins_id x = i \<and> e \<in> ranks x \<and> may_serve held st i e)"
proof -
  have o: "others im (overlay_copy ins) = others im ins" by (simp add: others_def)
  have "distinct (map ins_id (others im ins))" "roster_ok (others im ins)" using assms(1) by (simp_all add: roster_ok_def)
  then have r: "restored_roster held st im (overlay_copy ins) = overlay_copy ins # project_many held st (others im ins)"
    and p: "roster_ok (project_many held st (others im ins))"
    using restored_roster_eq[of im "overlay_copy ins"] roster_project o by auto
  have sub: "k ` set (project_many held st (others im ins)) \<subseteq> k ` set (others im ins)"
    if "\<And>x y. project held st x = Some y \<Longrightarrow> k y = k x" for k :: "Instance \<Rightarrow> 'b" using that by (auto simp: set_project_many)
  show "roster_ok (restored_roster held st im (overlay_copy ins))"
    unfolding r using p assms(1) sub[of ins_id] sub[of job_name] project_fields by (auto simp: roster_ok_def)
  have "listed (restored_roster held st im (overlay_copy ins)) i e \<longleftrightarrow>
     (i = ins_id ins \<and> e \<in> ranks ins) \<or> listed (project_many held st (others im ins)) i e"
    unfolding r by (auto simp: listed_def)
  then show "listed (restored_roster held st im (overlay_copy ins)) i e \<longleftrightarrow>
      (if i = ins_id ins then e \<in> ranks ins
       else \<exists>x \<in> set (others im ins). ins_id x = i \<and> e \<in> ranks x \<and> may_serve held st i e)"
    unfolding listed_project_many[OF assms(2)] by (auto simp: others_def)
qed

text \<open>
  C20: the publication of a restored instance is all or nothing. When some coordinator is reached the
  answer is yes, every coordinator reached routes to every rank of the instance and to the others
  as they may serve, and the runtime is back to normal with nothing committed dead. Otherwise the
  answer is no and no instance projects differently from before.
\<close>

theorem restored_all_or_nothing:
  fixes im :: "'r InstanceManager"
  assumes ok: "network_ok w" "iterates ord" and rt: "rt_get (ins_id ins) st = Some rt" "phase rt = PH_WARMING_UP"
    and ros: "roster_ok (ins # others im ins)" "\<forall>x \<in> set (others im ins). enable_multi_endpoints x"
  shows "case publish_restored (send_instance_refresh (coordinator_post ord) override pod_ips) held im ins st w of (st', w', b) \<Rightarrow>
    (b \<longleftrightarrow> reached override pod_ips w \<noteq> {}) \<and>
    (b \<longrightarrow> (\<exists>rt'. rt_get (ins_id ins) st' = Some rt' \<and> phase rt' = PH_NORMAL \<and> dead_committed rt' = [] \<and> serving_published rt') \<and>
       (\<forall>c \<in> reached override pod_ips w. \<forall>i e. routes w' c i e \<longleftrightarrow>
          (if i = ins_id ins then e \<in> ranks ins
           else \<exists>x \<in> set (others im ins). ins_id x = i \<and> e \<in> ranks x \<and> may_serve held st i e))) \<and>
    (\<not> b \<longrightarrow> (\<forall>x. project held st' x = project held st x)) \<and>
    (\<forall>j. j \<noteq> ins_id ins \<longrightarrow> rt_get j st' = rt_get j st)"
proof -
  let ?send = "send_instance_refresh (coordinator_post ord) override pod_ips"
  let ?roster = "restored_roster held st im (overlay_copy ins)"
  note l = listed_restored[OF ros, of held st]
  obtain w' b where s: "?send SET ?roster w = (w', b)" by fastforce
  have b: "b \<longleftrightarrow> reached override pod_ips w \<noteq> {}" using net.set_answer[OF conjI[OF ok] l(1), of override pod_ips] s by simp
  have r: "routes w' c i e = listed ?roster i e" if "c \<in> reached override pod_ips w" for c i e
    using net.set_served[OF conjI[OF ok] l(1) that] s by simp
  have wu: "is_warming_up (ins_id ins) st" using rt by (simp add: is_warming_up_def)
  show ?thesis
  proof (cases b)
    case True
    then show ?thesis
      using b r s wu unfolding l(2)[symmetric] by (simp add: publish_restored_def rt_get_transition[OF rt(1)])
  next
    case False
    then show ?thesis
      using b s wu by (simp add: publish_restored_def rt_get_transition[OF rt(1)] failed_publication_projects[OF rt(1)])
  qed
qed

section \<open>Witnesses\<close>

lemma demo_network_facts:
  "network_ok demo_network" "0 \<in> reached None [''10.0.0.9''] demo_network"
  by (simp_all add: network_ok_def demo_network_def Coordinator_Pools.init_ok reached_def reached_at_def instance_refresh_hosts_def
      str_or_def target_host_def)

lemma demo_dp_facts:
  "ranks demo_dp_instance = {0, 1, 2}" "enable_multi_endpoints demo_dp_instance" "ins_id demo_dp_instance = 7"
  "roster_ok [demo_dp_instance]"
  by (auto simp: demo_dp_instance_def demo_instance_def demo_endpoint_def all_eps_def roster_ok_def PDRole_of_def)

theorem projection_served_exactly_witness:
  "let w = fst (send_instance_refresh (coordinator_post remdups) None [''10.0.0.9''] SET
       (project_many {} demo_scaled_down [demo_dp_instance]) demo_network)
   in routes w 0 7 0 \<and> routes w 0 7 1 \<and> \<not> routes w 0 7 2"
proof -
  have m: "may_serve {} demo_scaled_down 7 e \<longleftrightarrow> e \<noteq> 2" for e
    by (simp add: may_serve_def demo_scaled_down_def put_def empty_store_def rt_get_def new_runtime_def)
  show ?thesis
    using projection_served_exactly[OF demo_network_facts(1) demo_iterates _ _ demo_network_facts(2),
        of "[demo_dp_instance]" "{}" demo_scaled_down 7] demo_dp_facts
    by (simp add: Let_def m)
qed

theorem restored_all_or_nothing_witness:
  "\<exists>st' w'. publish_restored (send_instance_refresh (coordinator_post remdups) None [''10.0.0.9'']) {}
       demo_empty_manager demo_dp_instance demo_warming demo_network = (st', w', True) \<and>
     routes w' 0 7 2 \<and> may_serve {} st' 7 2 \<and> \<not> may_serve {} demo_warming 7 2"
proof -
  let ?rt = "(new_runtime 7)\<lparr>phase := PH_WARMING_UP, dead_committed := [2], serving_dp_ranks := [0, 1]\<rparr>"
  have g: "rt_get (ins_id demo_dp_instance) demo_warming = Some ?rt"
    by (simp add: demo_dp_facts demo_warming_def put_def empty_store_def rt_get_def new_runtime_def)
  have o: "others demo_empty_manager demo_dp_instance = []"
    by (simp add: others_def demo_empty_manager_def get_instances_def instances_with_def)
  obtain st' w' b where p: "publish_restored (send_instance_refresh (coordinator_post remdups) None [''10.0.0.9'']) {}
       demo_empty_manager demo_dp_instance demo_warming demo_network = (st', w', b)" by (metis prod_cases3)
  have "b \<and> (\<exists>rt'. rt_get 7 st' = Some rt' \<and> phase rt' = PH_NORMAL) \<and> routes w' 0 7 2"
    using restored_all_or_nothing[OF demo_network_facts(1) demo_iterates g, of demo_empty_manager None "[''10.0.0.9'']" "{}"]
      demo_network_facts(2) demo_dp_facts
    by (auto simp: o p)
  then show ?thesis
    using p g by (auto simp: may_serve_def demo_dp_facts)
qed

end
