(* ===== verification/Event_Pusher.thy ===== *)
theory Event_Pusher
  imports Serving_Overlay
begin

text \<open>
  The controller's event pusher: \<^verbatim>\<open>motor/controller/core/event_pusher.py\<close>.

  The instance manager's notifications become events in a queue; a consumer thread sends them to the
  coordinators, and a heartbeat thread queues full SETs when a coordinator is not ready, was lost or
  after an interval. A notification, one iteration of the consumer and one iteration of the heartbeat
  thread are one step each. The state holds the pusher's fields, the pinned host of the coordinator
  client, the runtime store and the held instances of the serving overlay, and the world behind the
  transport \<open>post\<close>.

  The pusher keeps read-only views of the instance manager's objects, so its dictionary holds
  addresses; the objects at the time of a step are the argument \<open>h\<close>. Clock readings, the pod
  addresses that Kubernetes lists and whether the pusher is stopped while it waits are arguments.
\<close>

section \<open>State\<close>

record Event =
  event_type :: EventType
  event_instance :: "Instance option"

text \<open>
  The fingerprint of a roster with and without the serving overlay.
\<close>

datatype serving_fingerprint = Fp_ids "int list" | Fp_ranks "(int \<times> int list) list"

record 'w EventPusher =
  is_coordinator_reset :: bool
  is_first_heartbeat_success :: bool
  event_queue :: "Event list"
  pu_instances :: "(string, nat) dict"
  enable_dp_scale_down :: bool
  set_sync_interval :: pyfloat
  last_set_sync_time :: pyfloat
  last_sent_fingerprint :: "serving_fingerprint option"
  failed_incremental_set_pending :: bool
  ready_false_set_sent :: bool
  resync_after_hb_loss :: bool
  hb_loss_cnt :: nat
  refresh_host :: "string option"
  pu_store :: FtRuntimeStore
  pu_held :: "int set"
  pu_world :: 'w

definition HB_LOSS_SET_THRESHOLD :: nat where
  "HB_LOSS_SET_THRESHOLD = 1"

definition EventPusher_init ::
  "bool \<Rightarrow> bool \<Rightarrow> pyfloat \<Rightarrow> pyfloat \<Rightarrow> FtRuntimeStore \<Rightarrow> int set \<Rightarrow> 'w \<Rightarrow> 'w EventPusher" where
  "EventPusher_init enable_ft enable_sd interval now st held w =
     \<lparr>is_coordinator_reset = False, is_first_heartbeat_success = False, event_queue = [], pu_instances = [],
      enable_dp_scale_down = (enable_ft \<and> enable_sd), set_sync_interval = interval, last_set_sync_time = now,
      last_sent_fingerprint = None, failed_incremental_set_pending = False, ready_false_set_sent = False,
      resync_after_hb_loss = False, hb_loss_cnt = 0, refresh_host = None, pu_store = st, pu_held = held, pu_world = w\<rparr>"

definition pu_update_config :: "bool \<Rightarrow> bool \<Rightarrow> pyfloat \<Rightarrow> 'w EventPusher \<Rightarrow> 'w EventPusher" where
  "pu_update_config enable_ft enable_sd interval s =
     s\<lparr>set_sync_interval := interval, enable_dp_scale_down := (enable_ft \<and> enable_sd)\<rparr>"

definition queue_put :: "EventType \<Rightarrow> Instance option \<Rightarrow> 'w EventPusher \<Rightarrow> 'w EventPusher" where
  "queue_put ev x s = s\<lparr>event_queue := event_queue s @ [\<lparr>event_type = ev, event_instance = x\<rparr>]\<rparr>"

section \<open>Notifications\<close>

definition project_instance :: "(nat \<Rightarrow> Instance) \<Rightarrow> nat \<Rightarrow> 'w EventPusher \<Rightarrow> Instance option" where
  "project_instance h r s =
     (if \<not> enable_dp_scale_down s then Some (to_instance (h r)) else project (pu_held s) (pu_store s) (h r))"

definition serving_snapshot :: "(nat \<Rightarrow> Instance) \<Rightarrow> 'w EventPusher \<Rightarrow> Instance list \<times> serving_fingerprint" where
  "serving_snapshot h s =
     (let xs = map h (dict_values (pu_instances s))
      in if \<not> enable_dp_scale_down s
         then (let projected = map to_instance xs in (projected, Fp_ids (sort (map ins_id projected))))
         else (let projected = project_many (pu_held s) (pu_store s) xs in (projected, Fp_ranks (fingerprint projected))))"

text \<open>
  \<open>INSTANCE_READY\<close> and \<open>INSTANCE_RESUMED\<close>, then \<open>INSTANCE_SEPARATED\<close> and \<open>INSTANCE_PAUSED\<close>.
\<close>

definition announce :: "EventType \<Rightarrow> (nat \<Rightarrow> Instance) \<Rightarrow> nat \<Rightarrow> 'w EventPusher \<Rightarrow> 'w EventPusher" where
  "announce ev h r s =
     (let s1 = s\<lparr>pu_instances := dict_set (job_name (h r)) r (pu_instances s)\<rparr>
      in case project_instance h r s1 of None \<Rightarrow> s1 | Some projected \<Rightarrow> queue_put ev (Some projected) s1)"

definition retire :: "EventType \<Rightarrow> (nat \<Rightarrow> Instance) \<Rightarrow> nat \<Rightarrow> 'w EventPusher \<Rightarrow> 'w EventPusher" where
  "retire ev h r s =
     (if in_dict (job_name (h r)) (pu_instances s)
      then queue_put ev (Some (to_instance (h r))) (s\<lparr>pu_instances := dict_pop (job_name (h r)) (pu_instances s)\<rparr>)
      else s)"

definition pu_update :: "(nat \<Rightarrow> Instance) \<Rightarrow> nat \<Rightarrow> ObserverEvent \<Rightarrow> 'w EventPusher \<Rightarrow> 'w EventPusher" where
  "pu_update h r event s =
     (case event of
        OBS_READY \<Rightarrow> announce ADD h r s
      | OBS_SEPARATED \<Rightarrow> retire DEL h r s
      | OBS_PAUSED \<Rightarrow> retire PAUSE h r s
      | OBS_RESUMED \<Rightarrow> announce RESUME h r s
      | OBS_REMOVED \<Rightarrow>
          (case dict_get (pu_instances s) (job_name (h r)) of
             Some live \<Rightarrow> if ins_id (h live) > ins_id (h r) then s else queue_put DEL (Some (to_instance (h r))) s
           | None \<Rightarrow> queue_put DEL (Some (to_instance (h r))) s)
      | OBS_INITIAL \<Rightarrow> s)"

definition push_event :: "EventType \<Rightarrow> 'w EventPusher \<Rightarrow> 'w EventPusher" where
  "push_event ev s = queue_put ev None s"

definition enqueue_full_instance_set :: "'w EventPusher \<Rightarrow> 'w EventPusher" where
  "enqueue_full_instance_set s = queue_put SET None s"

definition notify_coordinator_failover :: "string option \<Rightarrow> 'w EventPusher \<Rightarrow> 'w EventPusher" where
  "notify_coordinator_failover master_host s =
     enqueue_full_instance_set (s\<lparr>refresh_host := set_refresh_host master_host (refresh_host s), resync_after_hb_loss := True\<rparr>)"

section \<open>The consumer\<close>

text \<open>
  What follows the request: the flags and the queue after a failure, and after a success.
\<close>

definition send_failed :: "bool \<Rightarrow> EventType \<Rightarrow> 'w EventPusher \<Rightarrow> 'w EventPusher" where
  "send_failed stopped ev s =
     (if ev = SET \<and> resync_after_hb_loss s then if stopped then s else queue_put SET None s
      else if ev \<noteq> SET \<and> \<not> failed_incremental_set_pending s
      then queue_put SET None (s\<lparr>failed_incremental_set_pending := True\<rparr>)
      else s)"

definition send_succeeded :: "EventType \<Rightarrow> Instance list \<Rightarrow> serving_fingerprint option \<Rightarrow> 'w EventPusher \<Rightarrow> 'w EventPusher" where
  "send_succeeded ev xs fp s =
     (let s1 = (if ev = SET then s\<lparr>last_sent_fingerprint := fp, is_coordinator_reset := False, resync_after_hb_loss := False\<rparr>
                else s)
      in if enable_dp_scale_down s1 \<and> ev \<in> {ADD, RESUME, SET}
         then s1\<lparr>pu_store := mark_published xs (pu_store s1)\<rparr> else s1)"

definition send_message ::
  "'w transport \<Rightarrow> string list \<Rightarrow> bool \<Rightarrow> EventType \<Rightarrow> Instance list \<Rightarrow> serving_fingerprint option
   \<Rightarrow> 'w EventPusher \<Rightarrow> 'w EventPusher" where
  "send_message post pod_ips stopped ev xs fp s =
     (let (w', success) = send_instance_refresh post (refresh_host s) pod_ips ev xs (pu_world s);
          s1 = s\<lparr>pu_world := w'\<rparr>
      in if success then send_succeeded ev xs fp s1 else send_failed stopped ev s1)"

text \<open>
  One iteration with the event at the head of the queue. Building the message raises when an
  incremental event has no instance or a roster repeats an ID; the exception ends the thread.
\<close>

definition consume_event ::
  "'w transport \<Rightarrow> string list \<Rightarrow> (nat \<Rightarrow> Instance) \<Rightarrow> bool \<Rightarrow> 'w EventPusher \<Rightarrow> 'w EventPusher \<times> (py_error + unit)" where
  "consume_event post pod_ips h stopped s =
     (case event_queue s of
        [] \<Rightarrow> (s, Inr ())
      | event # rest \<Rightarrow>
          (let ev = event_type event;
               s1 = s\<lparr>event_queue := rest,
                      failed_incremental_set_pending := (ev \<noteq> SET \<and> failed_incremental_set_pending s)\<rparr>
           in if ev = SET
              then (let (xs, fp) = serving_snapshot h s1
                    in if xs = [] then (s1, Inr ())
                       else case InsEventMsg SET xs of
                              Inl e \<Rightarrow> (s1, Inl e)
                            | Inr msg \<Rightarrow> (send_message post pod_ips stopped SET xs (Some fp) s1, Inr ()))
              else (case event_instance event of
                      None \<Rightarrow> (s1, Inl ValidationError)
                    | Some x \<Rightarrow> (send_message post pod_ips stopped ev [x] None s1, Inr ()))))"

section \<open>The heartbeat thread\<close>

text \<open>
  A readiness query answers with a truth value for \<open>ready\<close> (absent counts as not ready) or raises.
\<close>

definition heartbeat_answered :: "bool \<Rightarrow> 'w EventPusher \<Rightarrow> 'w EventPusher" where
  "heartbeat_answered ready s =
     (let s1 = s\<lparr>is_first_heartbeat_success := True\<rparr>;
          s2 = (if ready then s1\<lparr>ready_false_set_sent := False\<rparr>
                else if \<not> ready_false_set_sent s1 then s1\<lparr>is_coordinator_reset := True, ready_false_set_sent := True\<rparr>
                else s1)
      in if is_coordinator_reset s2
         then (enqueue_full_instance_set s2)\<lparr>is_coordinator_reset := False, hb_loss_cnt := 0\<rparr> else s2)"

definition heartbeat_lost :: "'w EventPusher \<Rightarrow> 'w EventPusher" where
  "heartbeat_lost s =
     (let s0 = (case str_or (refresh_host s) None of
                  None \<Rightarrow> s
                | Some host \<Rightarrow> s\<lparr>refresh_host := fst (clear_refresh_host host (refresh_host s))\<rparr>)
      in if \<not> is_first_heartbeat_success s0 then s0
         else (let s1 = s0\<lparr>hb_loss_cnt := hb_loss_cnt s0 + 1\<rparr>
               in if hb_loss_cnt s1 \<ge> HB_LOSS_SET_THRESHOLD
                  then (let s2 = s1\<lparr>is_coordinator_reset := True, resync_after_hb_loss := True\<rparr>;
                            s3 = (if \<not> resync_after_hb_loss s1 then enqueue_full_instance_set s2 else s2)
                        in s3\<lparr>hb_loss_cnt := 0\<rparr>)
                  else s1))"

definition periodic_sync :: "pyfloat \<Rightarrow> 'w EventPusher \<Rightarrow> 'w EventPusher" where
  "periodic_sync now s =
     (if set_sync_interval s > 0 \<and> now - last_set_sync_time s \<ge> set_sync_interval s
      then (queue_put SET None s)\<lparr>last_set_sync_time := now\<rparr> else s)"

definition detect_heartbeat :: "bool option \<Rightarrow> pyfloat \<Rightarrow> 'w EventPusher \<Rightarrow> 'w EventPusher" where
  "detect_heartbeat answer now s =
     periodic_sync now (case answer of Some ready \<Rightarrow> heartbeat_answered ready s | None \<Rightarrow> heartbeat_lost s)"

section \<open>The pusher as a component\<close>

datatype 'w push_op =
    Push_update "nat \<Rightarrow> Instance" nat ObserverEvent
  | Push_type EventType
  | Push_failover "string option"
  | Push_consume "'w transport" "string list" "nat \<Rightarrow> Instance" bool
  | Push_heartbeat "bool option" pyfloat
  | Push_config bool bool pyfloat

fun push_step :: "'w EventPusher \<Rightarrow> 'w push_op \<Rightarrow> 'w EventPusher" where
  "push_step s (Push_update h r event) = pu_update h r event s"
| "push_step s (Push_type ev) = push_event ev s"
| "push_step s (Push_failover host) = notify_coordinator_failover host s"
| "push_step s (Push_consume post ips h stopped) = fst (consume_event post ips h stopped s)"
| "push_step s (Push_heartbeat answer now) = detect_heartbeat answer now s"
| "push_step s (Push_config ft sd interval) = pu_update_config ft sd interval s"

definition set_queued :: "'w EventPusher \<Rightarrow> bool" where
  "set_queued s \<longleftrightarrow> SET \<in> set (map event_type (event_queue s))"

definition reconciles :: "'w EventPusher \<Rightarrow> bool" where
  "reconciles s \<longleftrightarrow> (failed_incremental_set_pending s \<longrightarrow> set_queued s)"

text \<open>
  The roster the pusher stands for.
\<close>

definition roster :: "(nat \<Rightarrow> Instance) \<Rightarrow> 'w EventPusher \<Rightarrow> Instance list" where
  "roster h s = map h (dict_values (pu_instances s))"

definition demo_pusher :: "Network EventPusher" where
  "demo_pusher = push_event SET ((EventPusher_init True True 0 0 demo_scaled_down {} demo_network)
     \<lparr>pu_instances := [(''job'', 0)], resync_after_hb_loss := True\<rparr>)"

definition demo_announced :: "Network EventPusher" where
  "demo_announced = pu_update (\<lambda>r. demo_dp_instance) 0 OBS_READY (EventPusher_init True True 300 0 empty_store {} demo_network)"

section \<open>A failed refresh leads to a full one\<close>

lemma queue_put_frame [simp]:
  "failed_incremental_set_pending (queue_put ev x s) = failed_incremental_set_pending s"
  "set_queued (queue_put ev x s) \<longleftrightarrow> set_queued s \<or> ev = SET"
  by (auto simp: queue_put_def set_queued_def)

lemma send_message_reconciles: "reconciles s \<Longrightarrow> reconciles (send_message post ips stopped ev xs fp s)"
  by (auto simp: send_message_def case_prod_unfold Let_def send_failed_def send_succeeded_def reconciles_def set_queued_def
      queue_put_def)

lemma consume_reconciles:
  assumes "reconciles s"
  shows "reconciles (fst (consume_event post ips h stopped s))"
proof (cases "event_queue s")
  case Nil
  then show ?thesis using assms by (simp add: consume_event_def)
next
  case (Cons event rest)
  let ?ev = "event_type event"
  let ?s = "s\<lparr>event_queue := rest, failed_incremental_set_pending := (?ev \<noteq> SET \<and> failed_incremental_set_pending s)\<rparr>"
  have "reconciles ?s" using assms Cons by (auto simp: reconciles_def set_queued_def)
  then show ?thesis using Cons send_message_reconciles[of ?s]
    by (auto simp: consume_event_def Let_def case_prod_unfold split: option.split sum.split)
qed

lemma reconciles_step: "reconciles s \<Longrightarrow> reconciles (push_step s op)"
proof (cases op)
  case (Push_consume post ips h stopped)
  then show "reconciles s \<Longrightarrow> ?thesis" by (simp add: consume_reconciles)
qed (auto simp: reconciles_def set_queued_def pu_update_def announce_def retire_def push_event_def notify_coordinator_failover_def
      detect_heartbeat_def heartbeat_answered_def heartbeat_lost_def periodic_sync_def enqueue_full_instance_set_def queue_put_def
      pu_update_config_def Let_def split: ObserverEvent.split option.split)

interpretation push_run: step_invariant push_step "\<lambda>op. True" reconciles
  by unfold_locales (rule reconciles_step)

text \<open>
  C25: whatever the order of notifications, heartbeats, failovers, configuration changes and
  deliveries, and whatever the coordinators answer, a pusher that has recorded a failed incremental
  refresh has a full SET in its queue.
\<close>

theorem failed_refresh_reconciled:
  "failed_incremental_set_pending (foldl push_step (EventPusher_init ft sd interval now st held w) ops) \<longrightarrow>
   set_queued (foldl push_step (EventPusher_init ft sd interval now st held w) ops)"
  using push_run.run_keeps[of "EventPusher_init ft sd interval now st held w" ops]
  by (simp add: reconciles_def EventPusher_init_def list_all_iff)

section \<open>What a delivered SET establishes\<close>

lemma rt_get_publish:
  "rt_get i (mark_serving_published ids st) = (if i \<in> set ids then map_option publish_runtime (rt_get i st) else rt_get i st)"
  if "distinct ids"
proof -
  have "dict_get (foldl (\<lambda>d i. dict_modify i publish_runtime d) d ids) i =
      (if i \<in> set ids then map_option publish_runtime (dict_get d i) else dict_get d i)" for d
    using that by (induction ids arbitrary: d) auto
  then show ?thesis by (simp add: rt_get_def mark_serving_published_def)
qed

lemma published_when_projected:
  assumes "project held st x = Some y" "rt_get (ins_id x) st = Some rt" "phase rt \<noteq> PH_DISABLED"
  shows "serving_published (publish_runtime rt)"
  using assms by (cases "phase rt") (auto simp: project_def Let_def WITHDRAWN_PHASES_def publish_runtime_def)

lemma consume_set:
  assumes q: "event_queue s = event # rest" "event_type event = SET" and sd: "enable_dp_scale_down s"
    and xs: "project_many (pu_held s) (pu_store s) (roster h s) = xs" "xs \<noteq> []" "distinct (map ins_id xs)"
  shows "consume_event post ips h stopped s =
    (send_message post ips stopped SET xs (Some (Fp_ranks (fingerprint xs)))
       (s\<lparr>event_queue := rest, failed_incremental_set_pending := False\<rparr>), Inr ())"
  using assms by (simp add: consume_event_def serving_snapshot_def roster_def InsEventMsg_def Let_def)


section \<open>Where a SET is lost\<close>

lemma not_ready_again:
  assumes "ready_false_set_sent s" "\<not> is_coordinator_reset s" "set_sync_interval s \<le> 0"
  shows "event_queue (foldl (\<lambda>s t. detect_heartbeat (Some False) t s) s ts) = event_queue s"
  using assms
proof (induction ts arbitrary: s)
  case (Cons t ts)
  have "detect_heartbeat (Some False) t s = s\<lparr>is_first_heartbeat_success := True\<rparr>"
    using Cons.prems by (simp add: detect_heartbeat_def heartbeat_answered_def periodic_sync_def)
  then show ?case using Cons.IH[of "s\<lparr>is_first_heartbeat_success := True\<rparr>"] Cons.prems by simp
qed simp

text \<open>
  A coordinator that reports itself not ready gets one SET. When that SET fails and the periodic
  synchronisation is switched off, no later report of the same coordinator queues another one, for as
  long as it stays not ready.
\<close>

theorem not_ready_set_lost:
  assumes s: "event_queue s = []" "\<not> ready_false_set_sent s" "\<not> resync_after_hb_loss s" "set_sync_interval s \<le> 0"
    and fail: "\<And>xs. snd (send_instance_refresh post (refresh_host s) pod_ips SET xs (pu_world s)) = False"
    and asked: "asked = detect_heartbeat (Some False) now s"
  shows "set_queued asked \<and>
    event_queue (foldl (\<lambda>s t. detect_heartbeat (Some False) t s) (fst (consume_event post pod_ips h stopped asked)) ts) = []"
proof -
  let ?e = "\<lparr>event_type = SET, event_instance = None\<rparr>"
  have a: "asked = s\<lparr>is_first_heartbeat_success := True, ready_false_set_sent := True, is_coordinator_reset := False,
      event_queue := [?e], hb_loss_cnt := 0\<rparr>"
    using s by (simp add: asked detect_heartbeat_def heartbeat_answered_def periodic_sync_def enqueue_full_instance_set_def queue_put_def)
  define t where "t = fst (consume_event post pod_ips h stopped asked)"
  have snap: "serving_snapshot h (asked\<lparr>event_queue := [], failed_incremental_set_pending := False\<rparr>) = serving_snapshot h s"
    by (simp add: serving_snapshot_def a Let_def)
  have "event_queue t = []" "ready_false_set_sent t" "\<not> is_coordinator_reset t" "set_sync_interval t \<le> 0"
    using s(3,4) fail snap unfolding t_def consume_event_def
    by (auto simp: a Let_def InsEventMsg_def send_message_def send_failed_def case_prod_unfold)
  then show ?thesis using not_ready_again[of t ts] by (simp add: t_def a set_queued_def)
qed

text \<open>
  An announcement carries the serving view of the moment it was queued. When a scale-down starts
  and withdraws the instance before the consumer gets to it, the consumer announces it all the same:
  the coordinator accepts, and routes to a rank that may not serve.
\<close>

theorem stale_announcement_served:
  "let s1 = demo_announced;
       (st, r) = transition 7 [Ch_phase PH_SCALING_DOWN] (pu_store s1);
       (w, withdrawn) = withdraw (send_instance_refresh (coordinator_post remdups) None [''10.0.0.9'']) st demo_dp_instance (pu_world s1);
       s2 = fst (consume_event (coordinator_post remdups) [''10.0.0.9''] (\<lambda>r. demo_dp_instance) False (s1\<lparr>pu_store := st, pu_world := w\<rparr>))
   in withdrawn \<and> routes (pu_world s2) 0 7 0 \<and> \<not> may_serve (pu_held s2) (pu_store s2) 7 0"
  by code_simp

section \<open>Witnesses\<close>

theorem failed_refresh_reconciled_witness:
  "let ops = [Push_update (\<lambda>r. demo_dp_instance) 0 OBS_READY, Push_consume silent_transport [] (\<lambda>r. demo_dp_instance) False];
       s = foldl push_step (EventPusher_init True True 300 0 empty_store {} []) ops
   in failed_incremental_set_pending s \<and> set_queued s"
proof -
  let ?ops = "[Push_update (\<lambda>r. demo_dp_instance) 0 OBS_READY, Push_consume silent_transport [] (\<lambda>r. demo_dp_instance) False]"
  have "failed_incremental_set_pending (foldl push_step (EventPusher_init True True 300 0 empty_store {} []) ?ops)"
    by code_simp
  then show ?thesis
    using failed_refresh_reconciled[of True True 300 0 empty_store "{}" "[]" ?ops] by (simp add: Let_def)
qed


theorem not_ready_set_lost_witness:
  "let s = (EventPusher_init True True 0 0 empty_store {} [])\<lparr>pu_instances := [(''job'', 0)]\<rparr>;
       asked = detect_heartbeat (Some False) 1 s;
       t = fst (consume_event silent_transport [] (\<lambda>r. demo_dp_instance) False asked)
   in set_queued asked \<and> pu_world t = [None] \<and>
      event_queue (foldl (\<lambda>s t. detect_heartbeat (Some False) t s) t [11, 21, 31]) = []"
proof -
  let ?s = "(EventPusher_init True True 0 0 empty_store {} ([] :: string option list))\<lparr>pu_instances := [(''job'', 0)]\<rparr>"
  have f: "snd (send_instance_refresh silent_transport (refresh_host ?s) [] SET xs (pu_world ?s)) = False" for xs
    by (simp add: send_instance_refresh_def push_round_Cons silent_transport_def instance_refresh_hosts_def str_or_def
        EventPusher_init_def)
  have p: "event_queue ?s = []" "\<not> ready_false_set_sent ?s" "\<not> resync_after_hb_loss ?s" "set_sync_interval ?s \<le> 0"
    by (simp_all add: EventPusher_init_def)
  have "set_queued (detect_heartbeat (Some False) 1 ?s) \<and>
    event_queue (foldl (\<lambda>s t. detect_heartbeat (Some False) t s)
      (fst (consume_event silent_transport [] (\<lambda>r. demo_dp_instance) False (detect_heartbeat (Some False) 1 ?s))) [11, 21, 31]) = []"
    by (rule not_ready_set_lost[OF p f refl])
  moreover have "pu_world (fst (consume_event silent_transport [] (\<lambda>r. demo_dp_instance) False (detect_heartbeat (Some False) 1 ?s))) = [None]"
    by code_simp
  ultimately show ?thesis by (simp only: Let_def)
qed

end
