(* ===== verification/Fault_Types.thy ===== *)
theory Fault_Types
  imports Ft_Runtime
begin

text \<open>
  Faults: \<^verbatim>\<open>motor/controller/fault_tolerance/fault_types.py\<close>, and \<open>FaultNormalizer\<close> of
  \<^verbatim>\<open>motor/controller/fault_tolerance/dp_scale_down.py\<close>, which attributes faults to DP ranks.

  An instance argument that may be missing is an option. Exceptions, clocks and the text of a fault
  are not interpreted. Regular expressions are written out; digits outside ASCII are not modelled.
\<close>

section \<open>Levels, codes and categories\<close>

datatype FaultCategory = FC_HARDWARE | FC_SOFTWARE

datatype NodeStatus = NODE_READY | NODE_NOT_READY

datatype HardwareFaultType = CARD_UNHEALTHY | CARD_NETWORK_UNHEALTHY | NODE_UNHEALTHY

datatype OriginFaultLevel =
    NOT_HANDLE_FAULT
  | SUB_HEALTH_FAULT
  | RESTART_REQUEST
  | RESTART_BUSINESS
  | FREE_RESTART_NPU
  | RESTART_NPU
  | SEPARATE_NPU
  | PRE_SEPARATE_NPU
  | MANUALLY_SEPARATE_NPU

datatype FaultLevel = HEALTHY | L1 | L2 | L3 | L4 | L5 | L6

definition level_value :: "FaultLevel \<Rightarrow> nat" where
  "level_value l = (case l of HEALTHY \<Rightarrow> 0 | L1 \<Rightarrow> 1 | L2 \<Rightarrow> 2 | L3 \<Rightarrow> 3 | L4 \<Rightarrow> 4 | L5 \<Rightarrow> 5 | L6 \<Rightarrow> 6)"

instantiation FaultLevel :: linorder
begin

definition less_eq_FaultLevel :: "FaultLevel \<Rightarrow> FaultLevel \<Rightarrow> bool" where
  "less_eq_FaultLevel a b \<longleftrightarrow> level_value a \<le> level_value b"

definition less_FaultLevel :: "FaultLevel \<Rightarrow> FaultLevel \<Rightarrow> bool" where
  "less_FaultLevel a b \<longleftrightarrow> level_value a < level_value b"

instance
proof
  fix x y z :: FaultLevel
  show "x < y \<longleftrightarrow> x \<le> y \<and> \<not> y \<le> x" "x \<le> x" "x \<le> y \<Longrightarrow> y \<le> z \<Longrightarrow> x \<le> z" "x \<le> y \<or> y \<le> x"
    by (auto simp: less_eq_FaultLevel_def less_FaultLevel_def)
  show "x \<le> y \<Longrightarrow> y \<le> x \<Longrightarrow> x = y"
    by (cases x; cases y) (simp_all add: less_eq_FaultLevel_def level_value_def)
qed

end

definition NODE_REBOOT :: int where
  "NODE_REBOOT = 1"

definition ENGINE_DEAD :: int where
  "ENGINE_DEAD = 0x1000001"

definition ENGINE_UNHEALTHY :: int where
  "ENGINE_UNHEALTHY = 0x1000002"

definition CARD_NETWORK_LINKDOWN :: int where
  "CARD_NETWORK_LINKDOWN = 0x81078603"

definition A2_PD_ISOLATION_FAULT_CODES :: "int set" where
  "A2_PD_ISOLATION_FAULT_CODES = {CARD_NETWORK_LINKDOWN}"

definition LINKDOWN_FAULT_CODES :: "int set" where
  "LINKDOWN_FAULT_CODES = {CARD_NETWORK_LINKDOWN}"

record FaultInfo =
  fault_category :: FaultCategory
  fault_level :: FaultLevel
  fault_code :: int
  fault_type :: "HardwareFaultType option"
  npu_name :: string
  origin_fault_level :: "OriginFaultLevel option"
  exception_type :: "string option"
  exception_message :: "string option"
  engine_id :: "int option"
  engine_status :: "int option"
  fi_instance_id :: "int option"
  fi_timestamp :: "string option"
  additional_info :: "(string, json) dict option"

definition map_engine_status_to_fault_level :: "int \<Rightarrow> FaultLevel" where
  "map_engine_status_to_fault_level st = (if st \<in> {1, 2} then L2 else L1)"

definition engine_status_to_fault_code :: "int \<Rightarrow> int" where
  "engine_status_to_fault_code st = (if st = 1 then ENGINE_DEAD else if st = 2 then ENGINE_UNHEALTHY else 0)"

definition from_exception ::
  "string \<Rightarrow> string \<Rightarrow> string \<Rightarrow> int \<Rightarrow> int \<Rightarrow> (string, json) dict option \<Rightarrow> int option \<Rightarrow> FaultInfo" where
  "from_exception name msg clock engine st info i =
     \<lparr>fault_category = FC_SOFTWARE, fault_level = map_engine_status_to_fault_level st,
      fault_code = engine_status_to_fault_code st, fault_type = None, npu_name = [], origin_fault_level = None,
      exception_type = Some name, exception_message = Some msg, engine_id = Some engine, engine_status = Some st,
      fi_instance_id = i, fi_timestamp = Some clock,
      additional_info = Some (case info of Some d \<Rightarrow> d | None \<Rightarrow> [])\<rparr>"

section \<open>Keys\<close>

definition hex_digit :: "int \<Rightarrow> char" where
  "hex_digit d = ''0123456789abcdef'' ! nat d"

function show_hex :: "int \<Rightarrow> string" where
  "show_hex n = (if n < 16 then [hex_digit n] else show_hex (n div 16) @ [hex_digit (n mod 16)])"
  by pat_completeness auto

termination show_hex
  by (relation "measure nat") auto

declare show_hex.simps [simp del]

definition hex_int :: "int \<Rightarrow> string" where
  "hex_int i = (if i < 0 then CHR ''-'' # show_hex (- i) else show_hex i)"

definition hardware_fault_storage_key :: "FaultInfo \<Rightarrow> string" where
  "hardware_fault_storage_key f = hex_int (fault_code f) @ '':'' @ (if npu_name f = [] then ''node'' else npu_name f)"

definition hardware_fault_identity :: "string \<Rightarrow> FaultInfo \<Rightarrow> string" where
  "hardware_fault_identity node f = node @ '':'' @ hardware_fault_storage_key f"

definition software_fault_storage_key :: "FaultInfo \<Rightarrow> string" where
  "software_fault_storage_key f =
     (let engine = (case engine_id f of Some e \<Rightarrow> py_str_int e | None \<Rightarrow> ''unknown'')
      in case fi_instance_id f of Some i \<Rightarrow> py_str_int i @ '':'' @ engine | None \<Rightarrow> engine)"

definition instance_software_fault_key :: "string \<Rightarrow> string \<Rightarrow> int \<Rightarrow> string" where
  "instance_software_fault_key ip port engine = ip @ '':'' @ port @ '':'' @ py_str_int engine"

definition map_fault_type :: "string \<Rightarrow> HardwareFaultType" where
  "map_fault_type s = (if s = ''CardUnhealthy'' then CARD_UNHEALTHY
     else if s = ''CardNetworkUnhealthy'' then CARD_NETWORK_UNHEALTHY else NODE_UNHEALTHY)"

definition origin_value :: "OriginFaultLevel \<Rightarrow> string" where
  "origin_value l = (case l of
     NOT_HANDLE_FAULT \<Rightarrow> ''NotHandleFault''
   | SUB_HEALTH_FAULT \<Rightarrow> ''SubHealthFault''
   | RESTART_REQUEST \<Rightarrow> ''RestartRequest''
   | RESTART_BUSINESS \<Rightarrow> ''RestartBusiness''
   | FREE_RESTART_NPU \<Rightarrow> ''FreeRestartNPU''
   | RESTART_NPU \<Rightarrow> ''RestartNPU''
   | SEPARATE_NPU \<Rightarrow> ''SeparateNPU''
   | PRE_SEPARATE_NPU \<Rightarrow> ''PreSeparateNPU''
   | MANUALLY_SEPARATE_NPU \<Rightarrow> ''ManuallySeparateNPU'')"

definition origin_level :: "OriginFaultLevel \<Rightarrow> FaultLevel" where
  "origin_level l = (case l of
     NOT_HANDLE_FAULT \<Rightarrow> L1 | SUB_HEALTH_FAULT \<Rightarrow> L1 | RESTART_REQUEST \<Rightarrow> L2 | RESTART_BUSINESS \<Rightarrow> L3
   | FREE_RESTART_NPU \<Rightarrow> L4 | RESTART_NPU \<Rightarrow> L5 | SEPARATE_NPU \<Rightarrow> L6 | PRE_SEPARATE_NPU \<Rightarrow> L6
   | MANUALLY_SEPARATE_NPU \<Rightarrow> L6)"

definition all_origins :: "OriginFaultLevel list" where
  "all_origins = [NOT_HANDLE_FAULT, SUB_HEALTH_FAULT, RESTART_REQUEST, RESTART_BUSINESS, FREE_RESTART_NPU, RESTART_NPU,
     SEPARATE_NPU, PRE_SEPARATE_NPU, MANUALLY_SEPARATE_NPU]"

definition map_fault_level :: "string \<Rightarrow> FaultLevel" where
  "map_fault_level s = (case find (\<lambda>l. origin_value l = s) all_origins of Some l \<Rightarrow> origin_level l | None \<Rightarrow> HEALTHY)"

section \<open>Attribution to instances\<close>

definition to_upper :: "char \<Rightarrow> char" where
  "to_upper c = (let n = (of_char c :: nat) in if 97 \<le> n \<and> n \<le> 122 then char_of (n - 32) else c)"

definition is_800i_a2 :: "string \<Rightarrow> bool" where
  "is_800i_a2 hw \<longleftrightarrow>
     map to_upper (map (\<lambda>c. if c = CHR ''_'' then CHR ''-'' else c) (py_strip hw)) = ''800I-A2''"

definition is_a2_linkdown_pre_separate :: "FaultInfo \<Rightarrow> string \<Rightarrow> bool" where
  "is_a2_linkdown_pre_separate f hw \<longleftrightarrow>
     is_800i_a2 hw \<and> origin_fault_level f = Some PRE_SEPARATE_NPU \<and> fault_code f \<in> A2_PD_ISOLATION_FAULT_CODES"

definition is_non_a2_linkdown_noise :: "FaultInfo \<Rightarrow> string \<Rightarrow> bool" where
  "is_non_a2_linkdown_noise f hw =
     (let h = py_strip hw in if h = [] \<or> is_800i_a2 h then False else fault_code f \<in> LINKDOWN_FAULT_CODES)"

definition instance_requires_a2_linkdown_l6 :: "Instance option \<Rightarrow> bool" where
  "instance_requires_a2_linkdown_l6 x =
     (case x of
        None \<Rightarrow> False
      | Some ins \<Rightarrow>
          if ins_role ins \<in> {''prefill'', ''decode''} then True
          else if ins_role ins = ''union'' then length (node_managers ins) > 1 else False)"

text \<open>
  The pattern \<open>(?:Ascend\d+|npu)-?(\d+)\<close> without regard to case: its group. With a dash it is what
  follows the dash; without, the greedy first part of \<open>Ascend\<close> leaves the last digit.
\<close>

definition digits :: "string \<Rightarrow> bool" where
  "digits s \<longleftrightarrow> s \<noteq> [] \<and> list_all (\<lambda>c. digit_val c \<noteq> None) s"

definition undash :: "string \<Rightarrow> string" where
  "undash s = (case s of c # cs \<Rightarrow> if c = CHR ''-'' then cs else s | [] \<Rightarrow> [])"

definition chip_group :: "string \<Rightarrow> string option" where
  "chip_group token =
     (let t = map to_upper token
      in if py_startswith t ''NPU'' then (let r = undash (drop 3 token) in if digits r then Some r else None)
         else if py_startswith t ''ASCEND''
         then (let r = drop 6 token;
                   d = takeWhile (\<lambda>c. digit_val c \<noteq> None) r;
                   rest = dropWhile (\<lambda>c. digit_val c \<noteq> None) r
               in if d = [] then None
                  else if rest = [] then if length d > 1 then Some [last d] else None
                  else if hd rest = CHR ''-'' \<and> digits (tl rest) then Some (tl rest) else None)
         else None)"

definition parse_npu_chip_ids :: "string \<Rightarrow> int set" where
  "parse_npu_chip_ids name =
     set (List.map_filter (\<lambda>token. Option.bind (chip_group (py_strip token)) py_parse_int)
            (filter (\<lambda>token. py_strip token \<noteq> [] \<and> \<not> py_startswith (py_strip token) ''...'')
               (py_split '','' (map (\<lambda>c. if c = CHR '';'' then CHR '','' else c) name))))"

definition collect_instance_chip_ids :: "Instance option \<Rightarrow> int set" where
  "collect_instance_chip_ids x =
     (case x of
        None \<Rightarrow> {}
      | Some ins \<Rightarrow>
          set (List.map_filter (\<lambda>d. py_parse_int (device_id d))
                 (concat (map device_infos (snd (get_all_endpoints False ins))))))"

definition a2_linkdown_targets_instance :: "FaultInfo \<Rightarrow> Instance option \<Rightarrow> string \<Rightarrow> bool" where
  "a2_linkdown_targets_instance f x hw =
     (if \<not> is_a2_linkdown_pre_separate f hw then True
      else (let chips = parse_npu_chip_ids (npu_name f); owned = collect_instance_chip_ids x
            in if chips = {} then True else if owned = {} then False else chips \<inter> owned \<noteq> {}))"

section \<open>Nodes\<close>

text \<open>
  A key of the fault dictionaries is a string, or the integer code of a node reboot. A fault
  generation is a fresh token (the argument \<open>tok\<close>).
\<close>

datatype fault_key = K_code int | K_str string

record NodeMetadata =
  node_name :: string
  instance_ids :: "int set"
  instance_pod_ips :: "(int, string) dict"
  instance_job_names :: "(int, string) dict"
  node_status :: NodeStatus
  hardware_fault_infos :: "(fault_key, FaultInfo) dict"
  scale_p2d_fault_generation :: string
  scale_p2d_handled_jobs :: "string set"
  node_software_fault_infos :: "(fault_key, FaultInfo) dict"

definition new_node :: "string \<Rightarrow> string \<Rightarrow> int \<Rightarrow> string \<Rightarrow> string \<Rightarrow> NodeMetadata" where
  "new_node tok name i ip job =
     \<lparr>node_name = name, instance_ids = {i}, instance_pod_ips = [(i, ip)], instance_job_names = [(i, job)],
      node_status = NODE_READY, hardware_fault_infos = [], scale_p2d_fault_generation = tok,
      scale_p2d_handled_jobs = {}, node_software_fault_infos = []\<rparr>"

definition reset_scale_p2d_if_faults_cleared :: "string \<Rightarrow> NodeMetadata \<Rightarrow> NodeMetadata \<times> bool" where
  "reset_scale_p2d_if_faults_cleared tok n =
     (if \<not> list_ex (\<lambda>f. fault_level f \<ge> L3) (dict_values (hardware_fault_infos n))
      then (n\<lparr>scale_p2d_handled_jobs := {}, scale_p2d_fault_generation := tok\<rparr>, scale_p2d_handled_jobs n \<noteq> {})
      else (n, False))"

definition pre_separate_fault_affects_instance :: "FaultInfo \<Rightarrow> NodeMetadata \<Rightarrow> Instance option \<Rightarrow> string \<Rightarrow> bool" where
  "pre_separate_fault_affects_instance f n x hw =
     (if origin_fault_level f \<noteq> Some PRE_SEPARATE_NPU then True
      else if fault_level f = L6 \<and> is_a2_linkdown_pre_separate f hw \<and> \<not> instance_requires_a2_linkdown_l6 x then False
      else if \<not> a2_linkdown_targets_instance f x hw then False
      else if fault_level f \<noteq> L6 then True
      else instance_ids n \<noteq> {})"

section \<open>Ranks of a fault: \<open>FaultNormalizer\<close>\<close>

definition device_number :: "DeviceInfo \<Rightarrow> int option" where
  "device_number d = (if digits (device_id d) then py_parse_int (device_id d) else None)"

definition hardware_fault_affects_instance :: "Instance option \<Rightarrow> string \<Rightarrow> FaultInfo \<Rightarrow> bool" where
  "hardware_fault_affects_instance x ip f =
     (if npu_name f = [] then True
      else (let chips = parse_npu_chip_ids (npu_name f)
            in if chips = {} then True
               else case x of
                      None \<Rightarrow> True
                    | Some ins \<Rightarrow>
                        (case dict_get (endpoints ins) ip of
                           None \<Rightarrow> True
                         | Some eps \<Rightarrow>
                             (let owned = set (List.map_filter device_number (concat (map device_infos (dict_values eps))))
                              in owned = {} \<or> chips \<inter> owned \<noteq> {}))))"

definition software_dp_ranks :: "FaultInfo list \<Rightarrow> int set" where
  "software_dp_ranks fs = set (List.map_filter (\<lambda>f. if engine_status f = Some 1 then engine_id f else None) fs)"

text \<open>
  The ranks one fault maps to; no rank also means that the fault is not mapped.
\<close>

definition fault_ranks :: "Instance \<Rightarrow> string \<Rightarrow> FaultInfo \<Rightarrow> int set" where
  "fault_ranks ins ip f =
     (case dict_get (endpoints ins) ip of
        None \<Rightarrow> {}
      | Some eps \<Rightarrow>
          if npu_name f = [] then ep_id ` set (dict_values eps)
          else (let chips = parse_npu_chip_ids (npu_name f)
                in ep_id ` {ep \<in> set (dict_values eps). \<exists>d \<in> set (device_infos ep). case device_number d of
                      Some n \<Rightarrow> n \<in> chips | None \<Rightarrow> False}))"

definition hardware_dp_ranks :: "Instance \<Rightarrow> (string \<times> string \<times> FaultInfo) list \<Rightarrow> int set \<times> string set" where
  "hardware_dp_ranks ins faults =
     foldl (\<lambda>(ranks, keys) (key, ip, f).
              let r = fault_ranks ins ip f in if r = {} then (ranks, keys) else (ranks \<union> r, insert key keys))
           ({}, {}) faults"

record ScaleDownContext =
  sc_pending_removed_ranks :: "int list"
  sc_source :: string
  sc_fallback_strategy :: string
  sc_fault_keys :: "string list"
  all_dp_unhealthy :: bool
  collection_complete :: bool
  collection_timed_out :: bool
  engine_fault_observed :: bool
  all_dp_removed :: bool
  hardware_fault_observed :: bool
  hardware_wait_timed_out :: bool
  hardware_affected_ranks :: "int list"
  hardware_ft_observed :: bool
  already_removed_fault_keys :: "string list"
  engine_recovery_eligible :: bool
  hardware_mapping_complete :: bool

definition default_context :: ScaleDownContext where
  "default_context = \<lparr>sc_pending_removed_ranks = [], sc_source = ''software'', sc_fallback_strategy = [], sc_fault_keys = [],
     all_dp_unhealthy = False, collection_complete = False, collection_timed_out = False, engine_fault_observed = False,
     all_dp_removed = False, hardware_fault_observed = False, hardware_wait_timed_out = False, hardware_affected_ranks = [],
     hardware_ft_observed = False, already_removed_fault_keys = [], engine_recovery_eligible = True,
     hardware_mapping_complete = True\<rparr>"

end
