(* ===== verification/Fault_Evidence.thy ===== *)
theory Fault_Evidence
  imports Fault_Types Serving_Overlay
begin

text \<open>
  The evidence side of the fault manager: \<^verbatim>\<open>motor/controller/fault_tolerance/fault_manager.py\<close> and its
  mixin \<^verbatim>\<open>mixin/resource_manager.py\<close>.

  The state holds the manager's nodes and instances together with the instance manager it acts on,
  the runtime store and the world behind the coordinator client. A handler is one step. The
  snapshot the code takes of an instance's faults refers to the fault objects in the nodes, which a
  re-evaluation then changes; it is kept as their places (node and key) and read again.
  Separating an active instance notifies the observers, among them the fault manager itself,
  which refreshes the level a second time before the first call goes on.

  Clock readings, fresh tokens, the node a pod runs on (Kubernetes) and the iteration order of a
  Python set are arguments. Timers and the condition variable only wake the strategy thread.
\<close>

section \<open>State\<close>

text \<open>
  The strategies by class, and one that runs: whether it has finished, whether it failed and the
  scale-down context it was bound to.
\<close>

datatype strategy_class =
    DpScaleDownStrategy
  | EngineFastRecoveryStrategy
  | EngineRelaunchStrategy
  | InstanceReconfigurationStrategy
  | NmSuicideStrategy
  | ScaleP2DStrategy
  | TokenReinferenceStrategy

record strategy_run =
  run_class :: strategy_class
  run_finished :: bool
  run_failed :: bool
  run_context :: "ScaleDownContext option"

record InstanceMetadata =
  md_instance_id :: int
  md_software_fault_infos :: "(string, FaultInfo) dict"
  md_fault_level :: FaultLevel
  md_fault_code :: int
  strategy_fault_level :: FaultLevel
  prev_strategy_failed :: bool
  prev_strategy_name :: "strategy_class option"
  prev_strategy_fallback :: string
  handled_hardware_faults :: "string set"
  fault_collection_started_at :: "pyfloat option"
  hardware_fault_observed_at :: "pyfloat option"
  software_dead_observed_at :: "(int, pyfloat) dict"
  software_unhealthy_observed_at :: "(int, pyfloat) dict"
  recovery_ready :: bool
  ignored_pre_ready_hardware_faults :: "string set"
  recovery_plan_source :: string
  recovery_plan_strategy :: "strategy_class option"
  recovery_plan_fallback :: string
  strategy :: "strategy_run option"
  strategy_preempted :: bool

definition new_metadata :: "int \<Rightarrow> bool \<Rightarrow> InstanceMetadata" where
  "new_metadata i ready = \<lparr>md_instance_id = i, md_software_fault_infos = [], md_fault_level = HEALTHY, md_fault_code = 0,
     strategy_fault_level = HEALTHY, prev_strategy_failed = False, prev_strategy_name = None, prev_strategy_fallback = [],
     handled_hardware_faults = {}, fault_collection_started_at = None, hardware_fault_observed_at = None,
     software_dead_observed_at = [], software_unhealthy_observed_at = [], recovery_ready = ready,
     ignored_pre_ready_hardware_faults = {}, recovery_plan_source = [], recovery_plan_strategy = None,
     recovery_plan_fallback = [], strategy = None, strategy_preempted = False\<rparr>"

record FtConfig =
  hardware_type :: string
  enable_fault_tolerance :: bool
  cfg_enable_dp_scale_down :: bool
  cfg_enable_dp_scale_up :: bool
  enable_engine_relaunch :: bool
  enable_token_reinference :: bool
  enable_scale_p2d :: bool
  fault_collection_timeout_seconds :: pyfloat
  hardware_ft_correlation_window_sec :: pyfloat
  cfg_enable_etcd_persistence :: bool

record ('r, 'w) FaultManager =
  fm_config :: FtConfig
  fm_nodes :: "(string, NodeMetadata) dict"
  fm_instances :: "(int, InstanceMetadata) dict"
  resource_monitors :: "string set"
  fm_persist_calls :: nat
  problem_pod_recover_futures :: "(int, bool) dict"
  fm_im :: "'r InstanceManager"
  fm_store :: FtRuntimeStore
  fm_world :: 'w

text \<open>
  What a handler reads from outside: the instance manager's environment, the coordinator client and
  the order in which a set of instance IDs is iterated.
\<close>

record ('r, 'w) ft_env =
  ctl :: "'r ctl_env"
  send_refresh :: "EventType \<Rightarrow> Instance list \<Rightarrow> 'w \<Rightarrow> 'w \<times> bool"
  set_order :: "int set \<Rightarrow> int list"

definition fm_persist :: "('r, 'w) FaultManager \<Rightarrow> ('r, 'w) FaultManager" where
  "fm_persist fm = (if cfg_enable_etcd_persistence (fm_config fm) then fm\<lparr>fm_persist_calls := fm_persist_calls fm + 1\<rparr> else fm)"

definition modify_metadata ::
  "int \<Rightarrow> (InstanceMetadata \<Rightarrow> InstanceMetadata) \<Rightarrow> ('r, 'w) FaultManager \<Rightarrow> ('r, 'w) FaultManager" where
  "modify_metadata i f fm = fm\<lparr>fm_instances := dict_modify i f (fm_instances fm)\<rparr>"

definition modify_node ::
  "string \<Rightarrow> (NodeMetadata \<Rightarrow> NodeMetadata) \<Rightarrow> ('r, 'w) FaultManager \<Rightarrow> ('r, 'w) FaultManager" where
  "modify_node name f fm = fm\<lparr>fm_nodes := dict_modify name f (fm_nodes fm)\<rparr>"

section \<open>Collecting faults\<close>

record fault_snapshot =
  snap_instance :: "Instance option"
  snap_nodes :: "string list"
  snap_hardware :: "(string \<times> string \<times> string \<times> fault_key) list"
  snap_software :: "FaultInfo list"

text \<open>
  The fault at a place of the snapshot, as it is now.
\<close>

definition fault_at :: "('r, 'w) FaultManager \<Rightarrow> string \<Rightarrow> fault_key \<Rightarrow> FaultInfo option" where
  "fault_at fm name key =
     (case dict_get (fm_nodes fm) name of None \<Rightarrow> None | Some n \<Rightarrow> dict_get (hardware_fault_infos n) key)"

definition pod_ip_of :: "int \<Rightarrow> NodeMetadata \<Rightarrow> string" where
  "pod_ip_of i n = (case dict_get (instance_pod_ips n) i of Some ip \<Rightarrow> ip | None \<Rightarrow> [])"

definition collect_instance_faults :: "int \<Rightarrow> ('r, 'w) FaultManager \<Rightarrow> fault_snapshot option" where
  "collect_instance_faults i fm =
     (let x = get_instance i (fm_im fm)
      in case dict_get (fm_instances fm) i of
           None \<Rightarrow> None
         | Some md \<Rightarrow>
             (let nodes = filter (\<lambda>(name, n). i \<in> instance_ids n \<and>
                              (hardware_fault_infos n \<noteq> [] \<or> node_software_fault_infos n \<noteq> [])) (fm_nodes fm)
              in Some \<lparr>snap_instance = x, snap_nodes = dict_keys nodes,
                   snap_hardware = concat (map (\<lambda>(name, n).
                     map (\<lambda>(key, f). (hardware_fault_identity (node_name n) f, pod_ip_of i n, name, key))
                       (filter (\<lambda>(key, f). hardware_fault_affects_instance x (pod_ip_of i n) f) (hardware_fault_infos n))) nodes),
                   snap_software = dict_values (md_software_fault_infos md) @
                     concat (map (\<lambda>(name, n). filter (\<lambda>f. fi_instance_id f \<in> {None, Some i})
                                                (dict_values (node_software_fault_infos n))) nodes)\<rparr>))"

section \<open>The fault level of an instance\<close>

definition node_has_active_instances :: "('r, 'w) FaultManager \<Rightarrow> NodeMetadata \<Rightarrow> bool" where
  "node_has_active_instances fm n \<longleftrightarrow>
     (\<exists>i \<in> instance_ids n. in_dict i (fm_instances fm) \<and>
        (case get_instance i (fm_im fm) of None \<Rightarrow> False | Some ins \<Rightarrow> ins_status ins \<in> {INITIAL, ACTIVE}))"

definition node_requires_a2_linkdown_l6 :: "('r, 'w) FaultManager \<Rightarrow> NodeMetadata \<Rightarrow> bool" where
  "node_requires_a2_linkdown_l6 fm n \<longleftrightarrow>
     (\<exists>i \<in> instance_ids n. instance_requires_a2_linkdown_l6 (get_instance i (fm_im fm)))"

definition keep_a2_linkdown_at_l6 :: "('r, 'w) FaultManager \<Rightarrow> FaultInfo \<Rightarrow> NodeMetadata \<Rightarrow> bool" where
  "keep_a2_linkdown_at_l6 fm f n \<longleftrightarrow>
     is_a2_linkdown_pre_separate f (hardware_type (fm_config fm)) \<and> node_requires_a2_linkdown_l6 fm n"

text \<open>
  The level of a PreSeparateNPU fault follows the node's business. A second pass of the code looks
  for levels that other threads made stale in the meantime; in one step it changes nothing.
\<close>

definition reevaluate_fault :: "('r, 'w) FaultManager \<Rightarrow> NodeMetadata \<Rightarrow> FaultInfo \<Rightarrow> FaultInfo" where
  "reevaluate_fault fm n f =
     (if origin_fault_level f \<noteq> Some PRE_SEPARATE_NPU then f
      else if keep_a2_linkdown_at_l6 fm f n then f\<lparr>fault_level := L6\<rparr>
      else if node_has_active_instances fm n then f\<lparr>fault_level := L2\<rparr>
      else f\<lparr>fault_level := L6\<rparr>)"

definition reevaluate_node :: "('r, 'w) FaultManager \<Rightarrow> NodeMetadata \<Rightarrow> NodeMetadata" where
  "reevaluate_node fm n = n\<lparr>hardware_fault_infos := map (\<lambda>(key, f). (key, reevaluate_fault fm n f)) (hardware_fault_infos n)\<rparr>"

definition reevaluate_nodes :: "string list \<Rightarrow> ('r, 'w) FaultManager \<Rightarrow> ('r, 'w) FaultManager" where
  "reevaluate_nodes names fm =
     fm\<lparr>fm_nodes := map (\<lambda>(name, n). (name, if name \<in> set names then reevaluate_node fm n else n)) (fm_nodes fm)\<rparr>"

text \<open>
  \<open>max(faults, key=level, default=None)\<close>: the first one of the highest level.
\<close>

fun max_level :: "FaultInfo option \<Rightarrow> FaultInfo list \<Rightarrow> FaultInfo option" where
  "max_level best [] = best"
| "max_level best (f # fs) =
     max_level (case best of None \<Rightarrow> Some f | Some b \<Rightarrow> if fault_level b < fault_level f then Some f else Some b) fs"

definition target_fault :: "FaultInfo list \<Rightarrow> FaultInfo list \<Rightarrow> FaultInfo option" where
  "target_fault hw sw =
     (case (max_level None hw, max_level None sw) of
        (Some h, Some s) \<Rightarrow> if fault_level h \<ge> fault_level s then Some h else Some s
      | (Some h, None) \<Rightarrow> Some h
      | (None, s) \<Rightarrow> s)"

definition hardware_scale_down_candidate ::
  "InstanceMetadata \<Rightarrow> fault_snapshot \<Rightarrow> ('r, 'w) FaultManager \<Rightarrow> bool" where
  "hardware_scale_down_candidate md snap fm \<longleftrightarrow>
     cfg_enable_dp_scale_down (fm_config fm) \<and> recovery_ready md \<and>
     (case snap_instance snap of
        None \<Rightarrow> False
      | Some ins \<Rightarrow>
          fst (hardware_dp_ranks ins
                 (List.map_filter (\<lambda>(ident, ip, name, key).
                    case fault_at fm name key of
                      None \<Rightarrow> None
                    | Some f \<Rightarrow> if fault_level f \<ge> L4 \<and> ident \<notin> handled_hardware_faults md \<and>
                                    ident \<notin> ignored_pre_ready_hardware_faults md
                                then Some (ident, ip, f) else None) (snap_hardware snap))) \<noteq> {})"

definition relevant_hardware :: "InstanceMetadata \<Rightarrow> fault_snapshot \<Rightarrow> ('r, 'w) FaultManager \<Rightarrow> FaultInfo list" where
  "relevant_hardware md snap fm =
     (if recovery_ready md
      then List.map_filter (\<lambda>(ident, ip, name, key).
             case (dict_get (fm_nodes fm) name, fault_at fm name key) of
               (Some n, Some f) \<Rightarrow>
                 if pre_separate_fault_affects_instance f n (snap_instance snap) (hardware_type (fm_config fm)) \<and>
                    ident \<notin> handled_hardware_faults md \<and> ident \<notin> ignored_pre_ready_hardware_faults md
                 then Some f else None
             | _ \<Rightarrow> None) (snap_hardware snap)
      else [])"

text \<open>
  Isolation and recovery of the instance. \<open>again\<close> is the refresh that the notification of a
  separation triggers, before the separation is persisted (which changes nothing it reads).
\<close>

definition apply_level ::
  "(('r, 'w) FaultManager \<Rightarrow> ('r, 'w) FaultManager) \<Rightarrow> 'r ctl_env \<Rightarrow> int \<Rightarrow> FaultInfo \<Rightarrow> bool
   \<Rightarrow> ('r, 'w) FaultManager \<Rightarrow> ('r, 'w) FaultManager" where
  "apply_level again env i target candidate fm =
     (if fault_level target > L2
      then if fault_category target = FC_HARDWARE \<and> candidate then fm
           else (let fm1 = fm\<lparr>fm_im := separate_instance env i (fm_im fm)\<rparr>
                 in if map_option ins_status (get_instance i (fm_im fm)) = Some ACTIVE then again fm1 else fm1)
      else if is_instance_separated i (fm_im fm) then fm\<lparr>fm_im := recover_instance i (fm_im fm)\<rparr> else fm)"

definition clear_collection :: "InstanceMetadata \<Rightarrow> InstanceMetadata" where
  "clear_collection md = md\<lparr>fault_collection_started_at := None, hardware_fault_observed_at := None,
     software_dead_observed_at := [], software_unhealthy_observed_at := []\<rparr>"

definition settle_level ::
  "(('r, 'w) FaultManager \<Rightarrow> ('r, 'w) FaultManager) \<Rightarrow> 'r ctl_env \<Rightarrow> int \<Rightarrow> bool \<Rightarrow> FaultInfo option
   \<Rightarrow> ('r, 'w) FaultManager \<Rightarrow> ('r, 'w) FaultManager" where
  "settle_level again env i candidate target fm =
     (case target of
        None \<Rightarrow>
          (let fm1 = modify_metadata i clear_collection fm
           in if map_option md_fault_level (dict_get (fm_instances fm1) i) \<noteq> Some HEALTHY
              then (modify_metadata i (\<lambda>m. m\<lparr>md_fault_level := HEALTHY, md_fault_code := 0\<rparr>) fm1)
                     \<lparr>fm_im := recover_instance i (fm_im fm1)\<rparr>
              else fm1)
      | Some t \<Rightarrow>
          fm_persist (apply_level again env i t candidate
            (modify_metadata i (\<lambda>m. m\<lparr>md_fault_level := fault_level t, md_fault_code := fault_code t\<rparr>) fm)))"

definition refresh_with ::
  "(('r, 'w) FaultManager \<Rightarrow> ('r, 'w) FaultManager) \<Rightarrow> 'r ctl_env \<Rightarrow> int \<Rightarrow> ('r, 'w) FaultManager \<Rightarrow> ('r, 'w) FaultManager" where
  "refresh_with again env i fm =
     (case (dict_get (fm_instances fm) i, collect_instance_faults i fm) of
        (Some md0, Some snap) \<Rightarrow>
          if \<not> recovery_ready md0 \<and> \<not> list_ex (\<lambda>f. engine_status f = Some 1) (dict_values (md_software_fault_infos md0)) then fm
          else (let active = fst ` set (snap_hardware snap);
                    md = md0\<lparr>handled_hardware_faults := handled_hardware_faults md0 \<inter> active,
                             ignored_pre_ready_hardware_faults := ignored_pre_ready_hardware_faults md0 \<inter> active\<rparr>;
                    candidate = hardware_scale_down_candidate md snap fm;
                    fm1 = reevaluate_nodes (snap_nodes snap) (modify_metadata i (\<lambda>m. md) fm)
                in settle_level again env i candidate (target_fault (relevant_hardware md snap fm1) (snap_software snap)) fm1)
      | _ \<Rightarrow> fm)"

text \<open>
  The second refresh finds the instance inactive, so it does not separate and notify again.
\<close>

definition refresh_instance_fault_level :: "'r ctl_env \<Rightarrow> int \<Rightarrow> ('r, 'w) FaultManager \<Rightarrow> ('r, 'w) FaultManager" where
  "refresh_instance_fault_level env i fm = refresh_with (refresh_with (\<lambda>fm. fm) env i) env i fm"

section \<open>Hardware evidence\<close>

definition record_hardware_fault_event :: "pyfloat \<Rightarrow> int \<Rightarrow> string set \<Rightarrow> ('r, 'w) FaultManager \<Rightarrow> ('r, 'w) FaultManager" where
  "record_hardware_fault_event now i keys fm =
     (case dict_get (fm_instances fm) i of
        None \<Rightarrow> fm
      | Some md \<Rightarrow>
          if \<not> recovery_ready md
          then modify_metadata i (\<lambda>m. m\<lparr>ignored_pre_ready_hardware_faults := ignored_pre_ready_hardware_faults m \<union> keys\<rparr>) fm
          else if keys - ignored_pre_ready_hardware_faults md - handled_hardware_faults md = {} then fm
          else if hardware_fault_observed_at md \<noteq> None then fm
          else modify_metadata i (\<lambda>m. m\<lparr>hardware_fault_observed_at := Some now\<rparr>) fm)"

text \<open>
  One reported fault as it is stored, and the dictionary of a batch: a repeated key keeps the
  later fault of at least the same level.
\<close>

definition stored_fault :: "('r, 'w) FaultManager \<Rightarrow> NodeMetadata \<Rightarrow> FaultInfo \<Rightarrow> FaultInfo" where
  "stored_fault fm n raw = reevaluate_fault fm n (raw\<lparr>fault_category := FC_HARDWARE\<rparr>)"

definition store_fault :: "FaultInfo \<Rightarrow> (fault_key, FaultInfo) dict \<Rightarrow> (fault_key, FaultInfo) dict" where
  "store_fault f d =
     (let key = K_str (hardware_fault_storage_key f)
      in case dict_get d key of
           None \<Rightarrow> dict_set key f d
         | Some old \<Rightarrow> if fault_level f \<ge> fault_level old then dict_set key f d else d)"

definition batch_faults :: "('r, 'w) FaultManager \<Rightarrow> NodeMetadata \<Rightarrow> FaultInfo list \<Rightarrow> (fault_key, FaultInfo) dict" where
  "batch_faults fm n fs =
     (let kept = filter (\<lambda>f. \<not> is_non_a2_linkdown_noise f (hardware_type (fm_config fm))) fs;
          stored = foldl (\<lambda>d f. store_fault (stored_fault fm n f) d) [] kept
      in case dict_get (hardware_fault_infos n) (K_code NODE_REBOOT) of
           None \<Rightarrow> stored
         | Some reboot \<Rightarrow> dict_set (K_code NODE_REBOOT) reboot stored)"

definition actionable_keys :: "string \<Rightarrow> ('r, 'w) FaultManager \<Rightarrow> string set" where
  "actionable_keys name fm =
     (case dict_get (fm_nodes fm) name of
        None \<Rightarrow> {}
      | Some n \<Rightarrow> hardware_fault_identity name ` {f \<in> set (dict_values (hardware_fault_infos n)). fault_level f \<ge> L4})"

definition handle_fault_info_update ::
  "('r, 'w) ft_env \<Rightarrow> pyfloat \<Rightarrow> string \<Rightarrow> FaultInfo list \<Rightarrow> string \<Rightarrow> ('r, 'w) FaultManager \<Rightarrow> ('r, 'w) FaultManager" where
  "handle_fault_info_update env now tok fs name fm =
     (case dict_get (fm_nodes fm) name of
        None \<Rightarrow> fm
      | Some n \<Rightarrow>
          (let (n', was_reset) = reset_scale_p2d_if_faults_cleared tok (n\<lparr>hardware_fault_infos := batch_faults fm n fs\<rparr>);
               fm1 = modify_node name (\<lambda>m. n') fm;
               affected = filter (\<lambda>i. in_dict i (fm_instances fm1)) (set_order env (instance_ids n'));
               fm2 = foldl (\<lambda>fm i.
                       let keys = actionable_keys name fm;
                           fm' = (if keys \<noteq> {} then record_hardware_fault_event now i keys fm else fm)
                       in refresh_instance_fault_level (ctl env) i fm') fm1 affected
           in if was_reset then fm_persist fm2 else fm2))"

definition reboot_fault :: FaultInfo where
  "reboot_fault = \<lparr>fault_category = FC_HARDWARE, fault_level = L6, fault_code = NODE_REBOOT, fault_type = Some NODE_UNHEALTHY,
     npu_name = [], origin_fault_level = None, exception_type = None, exception_message = None, engine_id = None,
     engine_status = None, fi_instance_id = None, fi_timestamp = None, additional_info = None\<rparr>"

definition handle_node_status_update ::
  "('r, 'w) ft_env \<Rightarrow> string \<Rightarrow> NodeStatus \<Rightarrow> string \<Rightarrow> ('r, 'w) FaultManager \<Rightarrow> ('r, 'w) FaultManager" where
  "handle_node_status_update env tok status name fm =
     (case dict_get (fm_nodes fm) name of
        None \<Rightarrow> fm
      | Some n \<Rightarrow>
          (let n1 = n\<lparr>node_status := status\<rparr>;
               n2 = (if node_status n = status then n1
                     else if status = NODE_NOT_READY
                     then n1\<lparr>hardware_fault_infos := dict_set (K_code NODE_REBOOT) reboot_fault (hardware_fault_infos n1)\<rparr>
                     else n1\<lparr>hardware_fault_infos := dict_pop (K_code NODE_REBOOT) (hardware_fault_infos n1)\<rparr>);
               (n', was_reset) = reset_scale_p2d_if_faults_cleared tok n2;
               fm1 = modify_node name (\<lambda>m. n') fm;
               fm2 = foldl (\<lambda>fm i. refresh_instance_fault_level (ctl env) i fm) fm1 (set_order env (instance_ids n'))
           in if was_reset then fm_persist fm2 else fm2))"

section \<open>Software evidence\<close>

definition clear_node_software :: "int \<Rightarrow> NodeMetadata \<Rightarrow> NodeMetadata" where
  "clear_node_software i n =
     (if i \<in> instance_ids n
      then n\<lparr>node_software_fault_infos := filter (\<lambda>(key, f). fi_instance_id f \<notin> {None, Some i}) (node_software_fault_infos n)\<rparr>
      else n)"

definition map_nodes :: "(NodeMetadata \<Rightarrow> NodeMetadata) \<Rightarrow> ('r, 'w) FaultManager \<Rightarrow> ('r, 'w) FaultManager" where
  "map_nodes g fm = fm\<lparr>fm_nodes := map (\<lambda>(name, n). (name, g n)) (fm_nodes fm)\<rparr>"

definition mark_instance_recovery_ready :: "'r ctl_env \<Rightarrow> int \<Rightarrow> ('r, 'w) FaultManager \<Rightarrow> ('r, 'w) FaultManager" where
  "mark_instance_recovery_ready env i fm =
     (if \<not> in_dict i (fm_instances fm) then fm
      else (let baseline = (if cfg_enable_dp_scale_down (fm_config fm)
                            then \<Union>n \<in> {n \<in> set (dict_values (fm_nodes fm)). i \<in> instance_ids n}.
                                   hardware_fault_identity (node_name n) `
                                     {f \<in> set (dict_values (hardware_fault_infos n)). fault_level f \<ge> L4}
                            else {});
                fm1 = map_nodes (clear_node_software i) fm;
                fm2 = modify_metadata i (\<lambda>m. clear_collection (m\<lparr>md_software_fault_infos := [],
                        ignored_pre_ready_hardware_faults := ignored_pre_ready_hardware_faults m \<union> baseline,
                        recovery_ready := True\<rparr>)) fm1
            in refresh_instance_fault_level env i fm2))"

definition clear_software_faults :: "int \<Rightarrow> ('r, 'w) FaultManager \<Rightarrow> ('r, 'w) FaultManager" where
  "clear_software_faults i fm =
     map_nodes (clear_node_software i)
       (modify_metadata i (\<lambda>m. (clear_collection m)\<lparr>md_software_fault_infos := []\<rparr>) fm)"

definition reporter_known :: "string \<Rightarrow> string \<Rightarrow> Instance \<Rightarrow> bool" where
  "reporter_known ip port ins =
     (if ip \<noteq> [] \<and> port \<noteq> [] then list_ex (\<lambda>nm. pod_ip nm = ip \<and> nm_port nm = port) (node_managers ins)
      else if ip \<noteq> [] then has_node_mgr (Some ip) ins else True)"

definition engine_known :: "FaultInfo \<Rightarrow> Instance \<Rightarrow> bool" where
  "engine_known f ins =
     (case engine_id f of
        None \<Rightarrow> True
      | Some e \<Rightarrow> (let ids = set (map ep_id (snd (get_all_endpoints True ins))) in ids = {} \<or> e \<in> ids))"

text \<open>
  The instance a report belongs to and the key its fault is stored under; \<open>None\<close> when the report is
  rejected.
\<close>

definition resolve_software_fault_target ::
  "FaultInfo \<Rightarrow> string \<Rightarrow> int option \<Rightarrow> string \<Rightarrow> ('r, 'w) FaultManager \<Rightarrow> (int \<times> string) option" where
  "resolve_software_fault_target f ip given port fm =
     (let resolved = (case given of
            Some i \<Rightarrow> Some i
          | None \<Rightarrow> (let m = remdups (concat (map (\<lambda>n. dict_keys (filter (\<lambda>(i, p). p = ip) (instance_pod_ips n)))
                                              (dict_values (fm_nodes fm))))
                    in if ip \<noteq> [] \<and> length m = 1 then Some (hd m) else None))
      in case resolved of
           None \<Rightarrow> None
         | Some i \<Rightarrow>
             (case (dict_get (fm_instances fm) i, get_instance i (fm_im fm)) of
                (Some md, Some ins) \<Rightarrow>
                  if reporter_known ip port ins \<and> engine_known f ins
                  then Some (i, instance_software_fault_key ip port (case engine_id f of Some e \<Rightarrow> e | None \<Rightarrow> 0)) else None
              | _ \<Rightarrow> None))"

definition observe_engine :: "pyfloat \<Rightarrow> FaultInfo \<Rightarrow> InstanceMetadata \<Rightarrow> InstanceMetadata" where
  "observe_engine now f md =
     (case engine_id f of
        None \<Rightarrow> md
      | Some e \<Rightarrow>
          if engine_status f = Some 1
          then md\<lparr>software_dead_observed_at := (if in_dict e (software_dead_observed_at md) then software_dead_observed_at md
                                               else dict_set e now (software_dead_observed_at md)),
                  software_unhealthy_observed_at := dict_pop e (software_unhealthy_observed_at md)\<rparr>
          else md\<lparr>software_unhealthy_observed_at := (if in_dict e (software_unhealthy_observed_at md)
                                                    then software_unhealthy_observed_at md
                                                    else dict_set e now (software_unhealthy_observed_at md)),
                  software_dead_observed_at := dict_pop e (software_dead_observed_at md)\<rparr>)"

definition store_software_fault :: "pyfloat \<Rightarrow> string \<Rightarrow> FaultInfo \<Rightarrow> InstanceMetadata \<Rightarrow> InstanceMetadata" where
  "store_software_fault now key f md =
     (let md1 = md\<lparr>md_software_fault_infos := dict_set key f (md_software_fault_infos md)\<rparr>
      in if engine_status f \<in> {Some 1, Some 2} \<and> recovery_ready md
         then observe_engine now f (md1\<lparr>fault_collection_started_at :=
                (case fault_collection_started_at md1 of None \<Rightarrow> Some now | Some t \<Rightarrow> Some t)\<rparr>)
         else md1)"

text \<open>
  The first engine fault of a round withdraws the instance from the coordinators. The probe of the
  survivors that is started next only reads.
\<close>

definition report_software_fault ::
  "('r, 'w) ft_env \<Rightarrow> pyfloat \<Rightarrow> FaultInfo \<Rightarrow> string \<Rightarrow> int option \<Rightarrow> string \<Rightarrow> ('r, 'w) FaultManager
   \<Rightarrow> ('r, 'w) FaultManager \<times> bool" where
  "report_software_fault env now f ip given port fm =
     (if fault_category f \<noteq> FC_SOFTWARE then (fm, False)
      else case resolve_software_fault_target f ip given port fm of
             None \<Rightarrow> (fm, False)
           | Some (i, key) \<Rightarrow>
               (let f' = f\<lparr>fi_instance_id := Some i\<rparr>;
                    started = (case dict_get (fm_instances fm) i of
                                 None \<Rightarrow> False
                               | Some md \<Rightarrow> engine_status f \<in> {Some 1, Some 2} \<and> recovery_ready md \<and>
                                            fault_collection_started_at md = None);
                    fm1 = refresh_instance_fault_level (ctl env) i (modify_metadata i (store_software_fault now key f') fm)
                in if started \<and> enable_fault_tolerance (fm_config fm1) \<and> cfg_enable_dp_scale_down (fm_config fm1)
                   then (let st = fst (transition i [Ch_phase PH_WAITING_ENGINE_FAULT, Ch_serving_published False] (fm_store fm1))
                         in (fm1\<lparr>fm_store := st,
                               fm_world := (case get_instance i (fm_im fm1) of
                                              None \<Rightarrow> fm_world fm1
                                            | Some ins \<Rightarrow> fst (withdraw (send_refresh env) st ins (fm_world fm1)))\<rparr>, True))
                   else (fm1, True)))"

section \<open>Nodes of an instance\<close>

text \<open>
  \<open>resolve\<close> answers the node of a pod; \<open>None\<close> when Kubernetes does not know.
\<close>

definition build_node_name_mapping :: "(string \<Rightarrow> string option) \<Rightarrow> NodeManagerInfo list \<Rightarrow> (string, string) dict" where
  "build_node_name_mapping resolve nms =
     foldl (\<lambda>d nm. case str_or (resolve (pod_ip nm)) None of None \<Rightarrow> d | Some name \<Rightarrow> dict_set (pod_ip nm) name d) [] nms"

definition join_node :: "int \<Rightarrow> string \<Rightarrow> string \<Rightarrow> NodeMetadata \<Rightarrow> NodeMetadata" where
  "join_node i ip job n = n\<lparr>instance_pod_ips := dict_set i ip (instance_pod_ips n), instance_ids := insert i (instance_ids n),
     instance_job_names := dict_set i job (instance_job_names n)\<rparr>"

definition leave_node :: "int \<Rightarrow> NodeMetadata \<Rightarrow> NodeMetadata" where
  "leave_node i n = n\<lparr>instance_ids := instance_ids n - {i}, instance_pod_ips := dict_pop i (instance_pod_ips n),
     instance_job_names := dict_pop i (instance_job_names n)\<rparr>"

definition create_resource_monitor :: "string \<Rightarrow> ('r, 'w) FaultManager \<Rightarrow> ('r, 'w) FaultManager" where
  "create_resource_monitor name fm = fm\<lparr>resource_monitors := insert name (resource_monitors fm)\<rparr>"

definition ensure_node ::
  "string \<Rightarrow> string list \<Rightarrow> int \<Rightarrow> string \<Rightarrow> ('r, 'w) FaultManager \<Rightarrow> string \<times> string \<Rightarrow> ('r, 'w) FaultManager" where
  "ensure_node tok known i job fm pod =
     (let (ip, name) = pod
      in if name \<in> set known then modify_node name (join_node i ip job) fm
         else fm\<lparr>fm_nodes := dict_set name (new_node tok name i ip job) (fm_nodes fm)\<rparr>)"

definition detach_node :: "int \<Rightarrow> ('r, 'w) FaultManager \<Rightarrow> string \<Rightarrow> ('r, 'w) FaultManager" where
  "detach_node i fm name =
     (case dict_get (fm_nodes fm) name of
        None \<Rightarrow> fm
      | Some n \<Rightarrow>
          if instance_ids (leave_node i n) = {}
          then fm\<lparr>fm_nodes := dict_pop name (fm_nodes fm), resource_monitors := resource_monitors fm - {name}\<rparr>
          else modify_node name (leave_node i) fm)"

definition sync_existing_instance_nodes ::
  "string \<Rightarrow> Instance \<Rightarrow> (string, string) dict \<Rightarrow> ('r, 'w) FaultManager \<Rightarrow> ('r, 'w) FaultManager" where
  "sync_existing_instance_nodes tok ins pods fm =
     (let i = ins_id ins;
          removed = filter (\<lambda>name. name \<notin> set (dict_values pods))
                      (dict_keys (filter (\<lambda>(name, n). i \<in> instance_ids n) (fm_nodes fm)));
          fm1 = foldl (detach_node i) fm removed
      in foldl (\<lambda>fm pod.
                  if in_dict (snd pod) (fm_nodes fm) then ensure_node tok (dict_keys (fm_nodes fm)) i (job_name ins) fm pod
                  else create_resource_monitor (snd pod) (ensure_node tok (dict_keys (fm_nodes fm)) i (job_name ins) fm pod))
               fm1 pods)"

text \<open>
  Nodes without an instance the manager still tracks: those of the new instance's pods that belong to
  another job, and those of its own job elsewhere.
\<close>

definition idle_node :: "('r, 'w) FaultManager \<Rightarrow> NodeMetadata \<Rightarrow> bool" where
  "idle_node fm n \<longleftrightarrow> (\<forall>i \<in> instance_ids n. \<not> in_dict i (fm_instances fm))"

definition foreign_nodes :: "string \<Rightarrow> (string, string) dict \<Rightarrow> ('r, 'w) FaultManager \<Rightarrow> string list" where
  "foreign_nodes job pods fm =
     filter (\<lambda>name. case dict_get (fm_nodes fm) name of
               None \<Rightarrow> False
             | Some n \<Rightarrow> idle_node fm n \<and> list_ex (\<lambda>jn. jn \<noteq> [] \<and> jn \<noteq> job) (dict_values (instance_job_names n)))
       (rev (remdups (rev (dict_values pods))))"

definition orphaned_nodes :: "string \<Rightarrow> (string, string) dict \<Rightarrow> ('r, 'w) FaultManager \<Rightarrow> string list" where
  "orphaned_nodes job pods fm =
     dict_keys (filter (\<lambda>(name, n). name \<notin> set (dict_values pods) \<and> idle_node fm n \<and>
                          job \<in> set (dict_values (instance_job_names n))) (fm_nodes fm))"

definition take_node :: "int \<Rightarrow> string \<Rightarrow> NodeMetadata \<Rightarrow> NodeMetadata" where
  "take_node i job n = n\<lparr>instance_ids := {i}, instance_job_names := [(i, job)], node_software_fault_infos := []\<rparr>"

definition give_node :: "int \<Rightarrow> string \<Rightarrow> string \<Rightarrow> NodeMetadata \<Rightarrow> NodeMetadata" where
  "give_node i job ip n = n\<lparr>instance_ids := {i}, instance_job_names := [(i, job)], instance_pod_ips := [(i, ip)],
     node_software_fault_infos := []\<rparr>"

fun swap_node_ownership ::
  "(int set \<Rightarrow> int list) \<Rightarrow> int \<Rightarrow> string \<Rightarrow> string list \<Rightarrow> string list \<Rightarrow> ('r, 'w) FaultManager
   \<Rightarrow> ('r, 'w) FaultManager \<times> (py_error + unit)" where
  "swap_node_ownership ord i job [] orphans fm = (fm, Inr ())"
| "swap_node_ownership ord i job (f # fs) [] fm =
     (case dict_get (fm_nodes fm) f of
        None \<Rightarrow> (fm, Inl KeyError)
      | Some n \<Rightarrow>
          if instance_job_names n = [] \<or> ord (instance_ids n) = [] then (fm, Inl StopIteration)
          else swap_node_ownership ord i job fs [] (modify_node f (take_node i job) fm))"
| "swap_node_ownership ord i job (f # fs) (g # gs) fm =
     (case (dict_get (fm_nodes fm) f, dict_get (fm_nodes fm) g) of
        (Some n, Some m) \<Rightarrow>
          (case ord (instance_ids n) of
             [] \<Rightarrow> (fm, Inl StopIteration)
           | old # _ \<Rightarrow>
               (let old_job = (case dict_get (instance_job_names n) old of Some jn \<Rightarrow> jn | None \<Rightarrow> []);
                    fm1 = modify_node f (take_node i job) fm
                in case dict_values (instance_pod_ips m) of
                     [] \<Rightarrow> (fm1, Inl StopIteration)
                   | ip # _ \<Rightarrow> swap_node_ownership ord i job fs gs (modify_node g (give_node old old_job ip) fm1)))
      | _ \<Rightarrow> (fm, Inl KeyError))"

definition add_new_instance_with_nodes ::
  "(int set \<Rightarrow> int list) \<Rightarrow> string \<Rightarrow> Instance \<Rightarrow> (string, string) dict \<Rightarrow> ('r, 'w) FaultManager
   \<Rightarrow> ('r, 'w) FaultManager \<times> (py_error + unit)" where
  "add_new_instance_with_nodes ord tok ins pods fm =
     (let i = ins_id ins; job = job_name ins;
          fm1 = fm\<lparr>fm_instances := dict_set i (new_metadata i False) (fm_instances fm)\<rparr>
      in case swap_node_ownership ord i job (foreign_nodes job pods fm1) (orphaned_nodes job pods fm1) fm1 of
           (fm2, Inl e) \<Rightarrow> (fm2, Inl e)
         | (fm2, Inr u) \<Rightarrow>
             (let fm3 = foldl (ensure_node tok (dict_keys (fm_nodes fm2)) i job) fm2 pods
              in (foldl (\<lambda>fm name. create_resource_monitor name fm) fm3 (dict_values pods), Inr ())))"

definition sync_instance_nodes ::
  "(int set \<Rightarrow> int list) \<Rightarrow> (string \<Rightarrow> string option) \<Rightarrow> string \<Rightarrow> Instance \<Rightarrow> ('r, 'w) FaultManager
   \<Rightarrow> ('r, 'w) FaultManager \<times> (py_error + unit)" where
  "sync_instance_nodes ord resolve tok ins fm =
     (let pods = build_node_name_mapping resolve (node_managers ins)
      in if in_dict (ins_id ins) (fm_instances fm) then (sync_existing_instance_nodes tok ins pods fm, Inr ())
         else add_new_instance_with_nodes ord tok ins pods fm)"

section \<open>Observer and queries\<close>

definition remove_superseded_ft_runtimes :: "Instance \<Rightarrow> ('r, 'w) FaultManager \<Rightarrow> ('r, 'w) FaultManager" where
  "remove_superseded_ft_runtimes ins fm =
     (let same = filter (\<lambda>x. job_name x = job_name ins) (get_instances None (fm_im fm))
      in if same = [] \<or> Max (ins_id ` set same) \<noteq> ins_id ins then fm
         else fm\<lparr>fm_store := foldl (\<lambda>st x. if ins_id x \<noteq> ins_id ins then fst (rt_remove (ins_id x) st) else st) (fm_store fm) same\<rparr>)"

definition fm_update ::
  "('r, 'w) ft_env \<Rightarrow> (string \<Rightarrow> string option) \<Rightarrow> string \<Rightarrow> Instance \<Rightarrow> ObserverEvent \<Rightarrow> ('r, 'w) FaultManager
   \<Rightarrow> ('r, 'w) FaultManager \<times> (py_error + unit)" where
  "fm_update env resolve tok ins event fm =
     (case event of
        OBS_INITIAL \<Rightarrow> if in_dict (ins_id ins) (fm_instances fm) then (fm, Inr ())
                       else sync_instance_nodes (set_order env) resolve tok ins fm
      | OBS_READY \<Rightarrow> (remove_superseded_ft_runtimes ins (mark_instance_recovery_ready (ctl env) (ins_id ins) fm), Inr ())
      | OBS_SEPARATED \<Rightarrow> (refresh_instance_fault_level (ctl env) (ins_id ins) fm, Inr ())
      | OBS_REMOVED \<Rightarrow> (fm\<lparr>fm_instances := dict_pop (ins_id ins) (fm_instances fm),
                            fm_store := fst (rt_remove (ins_id ins) (fm_store fm))\<rparr>, Inr ())
      | _ \<Rightarrow> (fm, Inr ()))"

fun update_instances ::
  "('r, 'w) ft_env \<Rightarrow> (string \<Rightarrow> string option) \<Rightarrow> string \<Rightarrow> Instance list \<Rightarrow> ('r, 'w) FaultManager
   \<Rightarrow> ('r, 'w) FaultManager \<times> (py_error + unit)" where
  "update_instances env resolve tok [] fm = (fm, Inr ())"
| "update_instances env resolve tok (x # xs) fm =
     (case sync_instance_nodes (set_order env) resolve tok x fm of
        (fm1, Inl e) \<Rightarrow> (fm1, Inl e)
      | (fm1, Inr u) \<Rightarrow>
          update_instances env resolve tok xs
            (if ins_status x = ACTIVE then mark_instance_recovery_ready (ctl env) (ins_id x) fm1 else fm1))"

definition highest_level :: "FaultInfo list \<Rightarrow> FaultLevel" where
  "highest_level fs = foldl (\<lambda>l f. max l (fault_level f)) HEALTHY fs"

definition get_node_fault_levels :: "int \<Rightarrow> ('r, 'w) FaultManager \<Rightarrow> (string, FaultLevel) dict" where
  "get_node_fault_levels i fm =
     (case dict_get (fm_instances fm) i of
        None \<Rightarrow> []
      | Some md \<Rightarrow>
          map (\<lambda>(name, n). (name, max (highest_level (dict_values (hardware_fault_infos n)))
                 (max (highest_level (filter (\<lambda>f. fi_instance_id f \<in> {None, Some i}) (dict_values (node_software_fault_infos n))))
                      (highest_level (dict_values (md_software_fault_infos md))))))
              (filter (\<lambda>(name, n). i \<in> instance_ids n) (fm_nodes fm)))"

definition get_pending_scale_p2d_nodes :: "int \<Rightarrow> string option \<Rightarrow> ('r, 'w) FaultManager \<Rightarrow> (string, string) dict option" where
  "get_pending_scale_p2d_nodes i job fm =
     (let faulty = filter (\<lambda>n. i \<in> instance_ids n \<and> list_ex (\<lambda>f. fault_level f \<ge> L3) (dict_values (hardware_fault_infos n)))
                     (dict_values (fm_nodes fm));
          job_of = (\<lambda>n. case str_or job None of Some jn \<Rightarrow> jn
                        | None \<Rightarrow> (case dict_get (instance_job_names n) i of Some jn \<Rightarrow> jn | None \<Rightarrow> []))
      in if faulty = [] then None
         else Some (map (\<lambda>n. (node_name n, scale_p2d_fault_generation n))
                        (filter (\<lambda>n. job_of n \<notin> scale_p2d_handled_jobs n) faulty)))"

definition mark_scale_p2d_nodes_handled :: "string \<Rightarrow> (string, string) dict \<Rightarrow> ('r, 'w) FaultManager \<Rightarrow> ('r, 'w) FaultManager" where
  "mark_scale_p2d_nodes_handled job gens fm =
     fm_persist (foldl (\<lambda>fm (name, gen).
        modify_node name (\<lambda>n. if scale_p2d_fault_generation n = gen
                              then n\<lparr>scale_p2d_handled_jobs := insert job (scale_p2d_handled_jobs n)\<rparr> else n) fm) fm gens)"

section \<open>Evidence and ownership\<close>

text \<open>
  The faults that count for an instance.
\<close>

definition evidence :: "int \<Rightarrow> ('r, 'w) FaultManager \<Rightarrow> FaultInfo list" where
  "evidence i fm =
     (case (dict_get (fm_instances fm) i, collect_instance_faults i fm) of
        (Some md, Some snap) \<Rightarrow> relevant_hardware md snap fm @ snap_software snap
      | _ \<Rightarrow> [])"

text \<open>
  The bookkeeping of a node agrees with the instances on it.
\<close>

definition node_ok :: "string \<Rightarrow> NodeMetadata \<Rightarrow> bool" where
  "node_ok name n \<longleftrightarrow> node_name n = name \<and> finite (instance_ids n) \<and> instance_ids n \<noteq> {} \<and>
     set (dict_keys (instance_job_names n)) = instance_ids n \<and> instance_ids n \<subseteq> set (dict_keys (instance_pod_ips n))"

definition nodes_ok :: "('r, 'w) FaultManager \<Rightarrow> bool" where
  "nodes_ok fm \<longleftrightarrow> distinct (dict_keys (fm_nodes fm)) \<and> (\<forall>(name, n) \<in> set (fm_nodes fm). node_ok name n)"

definition orders :: "(int set \<Rightarrow> int list) \<Rightarrow> bool" where
  "orders ord \<longleftrightarrow> (\<forall>S. finite S \<longrightarrow> set (ord S) = S)"

definition isolation_deferred :: "int \<Rightarrow> ('r, 'w) FaultManager \<Rightarrow> bool" where
  "isolation_deferred i fm =
     (case (dict_get (fm_instances fm) i, collect_instance_faults i fm) of
        (Some md, Some snap) \<Rightarrow> hardware_scale_down_candidate md snap fm
      | _ \<Rightarrow> False)"

definition level_of :: "int \<Rightarrow> ('r, 'w) FaultManager \<Rightarrow> FaultLevel option" where
  "level_of i fm = map_option md_fault_level (dict_get (fm_instances fm) i)"

definition settled :: "int \<Rightarrow> bool \<Rightarrow> ('r, 'w) FaultManager \<Rightarrow> ('r, 'w) FaultManager \<Rightarrow> bool" where
  "settled i excuse before after \<longleftrightarrow>
     level_of i after = Some (highest_level (evidence i after)) \<and>
     (highest_level (evidence i after) \<le> L2 \<longrightarrow> level_of i before \<noteq> Some HEALTHY \<or> evidence i after \<noteq> [] \<longrightarrow>
        \<not> is_instance_separated i (fm_im after)) \<and>
     (highest_level (evidence i after) > L2 \<longrightarrow> is_instance_separated i (fm_im before) \<or> \<not> excuse \<longrightarrow>
        is_instance_separated i (fm_im after))"

text \<open>
  A refresh that does not refresh again: the instance is not active or nothing is to be isolated.
\<close>

definition quiet :: "InsStatus \<Rightarrow> bool \<Rightarrow> FaultInfo option \<Rightarrow> bool" where
  "quiet status deferred target \<longleftrightarrow> status = ACTIVE \<longrightarrow>
     (case target of None \<Rightarrow> True | Some t \<Rightarrow> fault_level t \<le> L2 \<or> fault_category t = FC_HARDWARE \<and> deferred)"

definition preseparate_only :: "int \<Rightarrow> ('r, 'w) FaultManager \<Rightarrow> bool" where
  "preseparate_only i fm \<longleftrightarrow>
     (\<forall>n \<in> set (dict_values (fm_nodes fm)). i \<in> instance_ids n \<longrightarrow>
        (\<forall>f \<in> set (dict_values (hardware_fault_infos n)). origin_fault_level f = Some PRE_SEPARATE_NPU))"

definition software_mild :: "int \<Rightarrow> ('r, 'w) FaultManager \<Rightarrow> bool" where
  "software_mild i fm \<longleftrightarrow>
     (case collect_instance_faults i fm of None \<Rightarrow> True | Some snap \<Rightarrow> \<forall>f \<in> set (snap_software snap). fault_level f \<le> L2)"

definition all_nodes :: "(string \<Rightarrow> NodeMetadata \<Rightarrow> bool) \<Rightarrow> ('r, 'w) FaultManager \<Rightarrow> bool" where
  "all_nodes P fm \<longleftrightarrow> distinct (dict_keys (fm_nodes fm)) \<and> (\<forall>(name, n) \<in> set (fm_nodes fm). P name n)"

text \<open>
  A node in hand-over to instance \<open>i\<close>: only its pod may still be unknown.
\<close>

definition node_almost :: "int \<Rightarrow> string \<Rightarrow> NodeMetadata \<Rightarrow> bool" where
  "node_almost i name n \<longleftrightarrow> node_name n = name \<and> finite (instance_ids n) \<and> instance_ids n \<noteq> {} \<and>
     set (dict_keys (instance_job_names n)) = instance_ids n \<and> instance_ids n - {i} \<subseteq> set (dict_keys (instance_pod_ips n))"

definition handing_over :: "int \<Rightarrow> string set \<Rightarrow> string set \<Rightarrow> string \<Rightarrow> NodeMetadata \<Rightarrow> bool" where
  "handing_over i pods todo name n \<longleftrightarrow> node_almost i name n \<and> (name \<notin> pods \<longrightarrow> node_ok name n \<and> i \<notin> instance_ids n) \<and>
     (name \<in> todo \<longrightarrow> i \<notin> instance_ids n)"

definition placing :: "int \<Rightarrow> string set \<Rightarrow> string set \<Rightarrow> string \<Rightarrow> NodeMetadata \<Rightarrow> bool" where
  "placing i pods todo name n \<longleftrightarrow> node_almost i name n \<and> (name \<notin> todo \<longrightarrow> node_ok name n \<and> (i \<in> instance_ids n \<longleftrightarrow> name \<in> pods))"

section \<open>What a refresh leaves alone\<close>

lemma reevaluate_same [simp]:
  "fault_code (reevaluate_fault fm n f) = fault_code f" "npu_name (reevaluate_fault fm n f) = npu_name f"
  "origin_fault_level (reevaluate_fault fm n f) = origin_fault_level f"
  "hardware_fault_identity name (reevaluate_fault fm n f) = hardware_fault_identity name f"
  "hardware_fault_affects_instance x ip (reevaluate_fault fm n f) = hardware_fault_affects_instance x ip f"
  by (simp_all add: reevaluate_fault_def hardware_fault_identity_def hardware_fault_storage_key_def
      hardware_fault_affects_instance_def)

lemma reevaluate_node_same [simp]:
  "instance_ids (reevaluate_node fm n) = instance_ids n" "node_name (reevaluate_node fm n) = node_name n"
  "pod_ip_of i (reevaluate_node fm n) = pod_ip_of i n"
  "node_software_fault_infos (reevaluate_node fm n) = node_software_fault_infos n"
  "instance_pod_ips (reevaluate_node fm n) = instance_pod_ips n" "instance_job_names (reevaluate_node fm n) = instance_job_names n"
  "hardware_fault_infos (reevaluate_node fm n) = [] \<longleftrightarrow> hardware_fault_infos n = []"
  by (simp_all add: reevaluate_node_def pod_ip_of_def)

lemma reevaluate_nodes_frame [simp]:
  "fm_instances (reevaluate_nodes ns fm) = fm_instances fm" "fm_im (reevaluate_nodes ns fm) = fm_im fm"
  "fm_config (reevaluate_nodes ns fm) = fm_config fm" "fm_store (reevaluate_nodes ns fm) = fm_store fm"
  by (simp_all add: reevaluate_nodes_def)

lemma modify_metadata_frame [simp]:
  "fm_nodes (modify_metadata i f fm) = fm_nodes fm" "fm_im (modify_metadata i f fm) = fm_im fm"
  "fm_config (modify_metadata i f fm) = fm_config fm" "fm_store (modify_metadata i f fm) = fm_store fm"
  "fm_instances (modify_metadata i f fm) = dict_modify i f (fm_instances fm)"
  by (simp_all add: modify_metadata_def)

lemma collect_cong:
  assumes "fm_nodes fm' = fm_nodes fm" "get_instance i (fm_im fm') = get_instance i (fm_im fm)"
    "map_option md_software_fault_infos (dict_get (fm_instances fm') i) =
       map_option md_software_fault_infos (dict_get (fm_instances fm) i)"
  shows "collect_instance_faults i fm' = collect_instance_faults i fm"
  using assms(3)
  by (cases "dict_get (fm_instances fm) i"; cases "dict_get (fm_instances fm') i")
     (simp_all add: collect_instance_faults_def Let_def assms(1,2))

lemma concat_filter_map:
  "concat (map g (filter P (map h xs))) = concat (map (g \<circ> h) (filter (P \<circ> h) xs))"
  by (simp add: filter_map)

lemma collect_reevaluate: "collect_instance_faults i (reevaluate_nodes ns fm) = collect_instance_faults i fm"
proof -
  let ?r = "\<lambda>(name, n). (name, if name \<in> set ns then reevaluate_node fm n else n)"
  let ?P = "\<lambda>(name, n). i \<in> instance_ids n \<and> (hardware_fault_infos n \<noteq> [] \<or> node_software_fault_infos n \<noteq> [])"
  have P: "?P \<circ> ?r = ?P" by (auto simp: fun_eq_iff)
  have n: "fm_nodes (reevaluate_nodes ns fm) = map ?r (fm_nodes fm)" by (simp add: reevaluate_nodes_def)
  have keys: "dict_keys (filter ?P (map ?r xs)) = dict_keys (filter ?P xs)" for xs
    by (simp add: filter_map P o_def case_prod_unfold)
  have hw: "(\<lambda>(name, n). map (\<lambda>(key, f). (hardware_fault_identity (node_name n) f, pod_ip_of i n, name, key))
      (filter (\<lambda>(key, f). hardware_fault_affects_instance x (pod_ip_of i n) f) (hardware_fault_infos n))) \<circ> ?r =
    (\<lambda>(name, n). map (\<lambda>(key, f). (hardware_fault_identity (node_name n) f, pod_ip_of i n, name, key))
      (filter (\<lambda>(key, f). hardware_fault_affects_instance x (pod_ip_of i n) f) (hardware_fault_infos n)))" for x
    by (auto simp: fun_eq_iff reevaluate_node_def filter_map o_def case_prod_unfold pod_ip_of_def)
  have sw: "(\<lambda>(name, n). filter (\<lambda>f. fi_instance_id f \<in> {None, Some i}) (dict_values (node_software_fault_infos n))) \<circ> ?r =
    (\<lambda>(name, n). filter (\<lambda>f. fi_instance_id f \<in> {None, Some i}) (dict_values (node_software_fault_infos n)))"
    by (auto simp: fun_eq_iff)
  show ?thesis
    unfolding collect_instance_faults_def n reevaluate_nodes_frame Let_def keys concat_filter_map hw sw P ..
qed

lemma collect_metadata:
  assumes "\<And>m. md_software_fault_infos (f m) = md_software_fault_infos m"
  shows "collect_instance_faults i (modify_metadata j f fm) = collect_instance_faults i fm"
  by (rule collect_cong) (auto simp: assms option.map_comp o_def split: if_splits)

section \<open>The level follows the evidence\<close>

lemma healthy_least [simp]: "HEALTHY \<le> l" "max HEALTHY l = l" "l \<le> HEALTHY \<longleftrightarrow> l = HEALTHY"
  by (cases l; simp add: less_eq_FaultLevel_def level_value_def max_def)+

lemma foldl_highest: "foldl (\<lambda>l f. max l (fault_level f)) a fs = max a (highest_level fs)"
proof (induction fs arbitrary: a)
  case Nil
  then show ?case by (simp add: highest_level_def max_def)
next
  case (Cons f fs)
  from Cons[of "max a (fault_level f)"] Cons[of "fault_level f"] show ?case
    by (simp add: highest_level_def max.assoc)
qed

lemma highest_append: "highest_level (fs @ gs) = max (highest_level fs) (highest_level gs)"
  using foldl_highest[of "highest_level fs" gs] by (simp add: highest_level_def)

lemma highest_simps [simp]: "highest_level [] = HEALTHY" "highest_level (f # fs) = max (fault_level f) (highest_level fs)"
  using foldl_highest[of "fault_level f" fs] by (simp_all add: highest_level_def)

lemma max_level_spec:
  "case max_level best fs of
     None \<Rightarrow> best = None \<and> fs = []
   | Some f \<Rightarrow> (best \<noteq> None \<or> fs \<noteq> []) \<and>
       fault_level f = max (case best of None \<Rightarrow> HEALTHY | Some b \<Rightarrow> fault_level b) (highest_level fs)"
proof (induction best fs rule: max_level.induct)
  case (1 best)
  then show ?case by (cases best) (simp_all add: max_def)
next
  case (2 best f fs)
  then show ?case by (auto split: option.splits if_splits simp: max.assoc[symmetric] max_def)
qed

lemma target_fault_spec:
  "case target_fault hw sw of
     None \<Rightarrow> hw = [] \<and> sw = []
   | Some t \<Rightarrow> hw @ sw \<noteq> [] \<and> fault_level t = highest_level (hw @ sw)"
  using max_level_spec[of None hw] max_level_spec[of None sw]
  by (auto simp: target_fault_def highest_append max_def split: option.splits)

lemma evidence_cong:
  assumes "fm_nodes fm' = fm_nodes fm" "get_instance i (fm_im fm') = get_instance i (fm_im fm)" "fm_config fm' = fm_config fm"
    and "dict_get (fm_instances fm) i = Some m" "dict_get (fm_instances fm') i = Some m'"
    and "md_software_fault_infos m' = md_software_fault_infos m" "recovery_ready m' = recovery_ready m"
      "handled_hardware_faults m' = handled_hardware_faults m"
      "ignored_pre_ready_hardware_faults m' = ignored_pre_ready_hardware_faults m"
  shows "evidence i fm' = evidence i fm"
proof -
  have "collect_instance_faults i fm' = collect_instance_faults i fm" by (rule collect_cong) (simp_all add: assms)
  moreover have "relevant_hardware m' snap fm' = relevant_hardware m snap fm" for snap
    unfolding relevant_hardware_def fault_at_def assms ..
  ultimately show ?thesis by (simp add: evidence_def assms split: option.split)
qed

lemma candidate_cong:
  assumes "recovery_ready md' = recovery_ready md"
    "\<And>k. k \<in> fst ` set (snap_hardware snap) \<Longrightarrow>
       (k \<in> handled_hardware_faults md' \<longleftrightarrow> k \<in> handled_hardware_faults md) \<and>
       (k \<in> ignored_pre_ready_hardware_faults md' \<longleftrightarrow> k \<in> ignored_pre_ready_hardware_faults md)"
  shows "hardware_scale_down_candidate md' snap fm = hardware_scale_down_candidate md snap fm"
proof -
  let ?g = "\<lambda>md (ident, ip, name, key). case fault_at fm name key of None \<Rightarrow> None
    | Some f \<Rightarrow> if fault_level f \<ge> L4 \<and> ident \<notin> handled_hardware_faults md \<and>
        ident \<notin> ignored_pre_ready_hardware_faults md then Some (ident, ip, f) else None"
  have "List.map_filter (?g md') xs = List.map_filter (?g md) xs" if "set xs \<subseteq> set (snap_hardware snap)" for xs
    using that
  proof (induction xs)
    case (Cons p xs)
    obtain ident ip name key where p: "p = (ident, ip, name, key)" by (cases p)
    with Cons.prems have "ident \<in> fst ` set (snap_hardware snap)" by force
    with assms(2) Cons p show ?case by (simp add: map_filter_simps split: option.split)
  qed (simp add: map_filter_simps)
  from this[OF subset_refl] have e: "List.map_filter (?g md') (snap_hardware snap) = List.map_filter (?g md) (snap_hardware snap)" .
  show ?thesis unfolding hardware_scale_down_candidate_def assms(1) e ..
qed

lemma refresh_pass_state:
  assumes md: "dict_get (fm_instances fm) i = Some md0"
    and guard: "recovery_ready md0 \<or> list_ex (\<lambda>f. engine_status f = Some 1) (dict_values (md_software_fault_infos md0))"
  obtains fm1 md1 hw sw where "fm_im fm1 = fm_im fm" "dict_get (fm_instances fm1) i = Some md1"
    "md_fault_level md1 = md_fault_level md0" "recovery_ready md1 = recovery_ready md0"
    "md_software_fault_infos md1 = md_software_fault_infos md0" "evidence i fm1 = hw @ sw"
    "fm1 = reevaluate_nodes (case collect_instance_faults i fm of None \<Rightarrow> [] | Some snap \<Rightarrow> snap_nodes snap)
             (modify_metadata i (\<lambda>m. md1) fm)"
    "\<And>again env. refresh_with again env i fm = settle_level again env i (isolation_deferred i fm) (target_fault hw sw) fm1"
proof -
  obtain snap where snap: "collect_instance_faults i fm = Some snap"
    using md by (simp add: collect_instance_faults_def Let_def)
  define md where "md = md0\<lparr>handled_hardware_faults := handled_hardware_faults md0 \<inter> fst ` set (snap_hardware snap),
    ignored_pre_ready_hardware_faults := ignored_pre_ready_hardware_faults md0 \<inter> fst ` set (snap_hardware snap)\<rparr>"
  define fm1 where "fm1 = reevaluate_nodes (snap_nodes snap) (modify_metadata i (\<lambda>m. md) fm)"
  have get: "dict_get (fm_instances fm1) i = Some md" using md by (simp add: fm1_def)
  have "collect_instance_faults i fm1 = collect_instance_faults i fm"
    unfolding fm1_def collect_reevaluate by (rule collect_cong) (use md in \<open>simp_all add: md_def\<close>)
  then have c: "collect_instance_faults i fm1 = Some snap" using snap by simp
  have cand: "hardware_scale_down_candidate md snap fm = isolation_deferred i fm"
    using candidate_cong[of md md0 snap fm] by (simp add: isolation_deferred_def snap \<open>dict_get (fm_instances fm) i = Some md0\<close> md_def)
  show thesis
  proof (rule that)
    show "fm_im fm1 = fm_im fm" by (simp add: fm1_def)
    show "dict_get (fm_instances fm1) i = Some md" by (rule get)
    show "md_fault_level md = md_fault_level md0" "recovery_ready md = recovery_ready md0"
      "md_software_fault_infos md = md_software_fault_infos md0" by (simp_all add: md_def)
    show "fm1 = reevaluate_nodes (case collect_instance_faults i fm of None \<Rightarrow> [] | Some snap \<Rightarrow> snap_nodes snap)
             (modify_metadata i (\<lambda>m. md) fm)" by (simp add: fm1_def snap)
    show "evidence i fm1 = relevant_hardware md snap fm1 @ snap_software snap" by (simp add: evidence_def get c)
    show "refresh_with again env i fm = settle_level again env i (isolation_deferred i fm)
        (target_fault (relevant_hardware md snap fm1) (snap_software snap)) fm1" for again env
      using guard by (auto simp: refresh_with_def Let_def snap \<open>dict_get (fm_instances fm) i = Some md0\<close> cand
          simp flip: md_def fm1_def)
  qed
qed

lemma refresh_pass:
  assumes md: "dict_get (fm_instances fm) i = Some md0"
    and guard: "recovery_ready md0 \<or> list_ex (\<lambda>f. engine_status f = Some 1) (dict_values (md_software_fault_infos md0))"
  obtains fm1 md1 hw sw where "fm_im fm1 = fm_im fm" "dict_get (fm_instances fm1) i = Some md1"
    "md_fault_level md1 = md_fault_level md0" "recovery_ready md1 = recovery_ready md0"
    "md_software_fault_infos md1 = md_software_fault_infos md0" "evidence i fm1 = hw @ sw"
    "\<And>again env. refresh_with again env i fm = settle_level again env i (isolation_deferred i fm) (target_fault hw sw) fm1"
  by (rule refresh_pass_state[OF md guard]) (rule that; assumption)

lemma separated_cong:
  "get_instance i st' = get_instance i st \<Longrightarrow> forced_separated_instances st' = forced_separated_instances st \<Longrightarrow>
   is_instance_separated i st' = is_instance_separated i st"
  by (simp add: is_instance_separated_def split: option.split)

lemma recover_unseparates:
  assumes "registry_ok st" shows "\<not> is_instance_separated i (recover_instance i st)"
  using registry_get[OF assms] recover_get[OF assms, of i]
  by (auto simp: is_instance_separated_def recover_instance_def get_instance_def split: option.splits)

lemma separate_separates:
  assumes "registry_ok st" "get_instance i st = Some ins" shows "is_instance_separated i (separate_instance env i st)"
proof -
  have "status_of (separate_instance env i st) i \<noteq> None"
    using separate_get[OF assms(1), of env i i] assms(2) by (auto simp: status_of_def get_instance_def)
  then obtain x where x: "get_instance i (separate_instance env i st) = Some x"
    by (auto simp: status_of_def get_instance_def)
  have "ins_id x = i" using registry_get[of "separate_instance env i st" i x] separate_get[OF assms(1), of env i i] x
    by (auto simp: get_instance_def)
  then show ?thesis using x separate_get[OF assms(1), of env i i] assms(2) by (simp add: is_instance_separated_def get_instance_def)
qed

lemma separate_inactive:
  "get_instance i st = Some ins \<Longrightarrow> ins_status ins \<noteq> ACTIVE \<Longrightarrow> get_instance j (separate_instance env i st) = get_instance j st"
  by (simp add: separate_instance_def Let_def get_instance_def)

lemma fm_persist_frame [simp]:
  "fm_nodes (fm_persist fm) = fm_nodes fm" "fm_instances (fm_persist fm) = fm_instances fm" "fm_im (fm_persist fm) = fm_im fm"
  "fm_config (fm_persist fm) = fm_config fm" "fm_store (fm_persist fm) = fm_store fm" "fm_world (fm_persist fm) = fm_world fm"
  "resource_monitors (fm_persist fm) = resource_monitors fm"
  by (simp_all add: fm_persist_def)

lemma evidence_persist [simp]: "evidence i (fm_persist fm) = evidence i fm" "level_of i (fm_persist fm) = level_of i fm"
  unfolding evidence_def level_of_def relevant_hardware_def fault_at_def collect_instance_faults_def fm_persist_frame by (rule refl)+

lemma dict_modify_comp: "dict_modify k f (dict_modify k g d) = dict_modify k (f \<circ> g) d"
  by (induction d) auto

lemma evidence_only:
  assumes "get_instance i (fm_im fm') = get_instance i (fm_im fm)" "fm_nodes fm' = fm_nodes fm" "fm_config fm' = fm_config fm"
    "fm_instances fm' = dict_modify i g (fm_instances fm)" "dict_get (fm_instances fm) i = Some md"
    and "\<And>m. md_software_fault_infos (g m) = md_software_fault_infos m \<and> recovery_ready (g m) = recovery_ready m \<and>
      handled_hardware_faults (g m) = handled_hardware_faults m \<and>
      ignored_pre_ready_hardware_faults (g m) = ignored_pre_ready_hardware_faults m"
  shows "evidence i fm' = evidence i fm"
  by (rule evidence_cong[where m = md and m' = "g md"]) (use assms in simp_all)

lemma settle_passive:
  assumes reg: "registry_ok (fm_im fm)" and ins: "get_instance i (fm_im fm) = Some ins"
    and quiet: "quiet (ins_status ins) excuse (target_fault hw sw)"
    and md: "dict_get (fm_instances fm) i = Some md" and ev: "evidence i fm = hw @ sw"
  shows "settled i excuse fm (settle_level again env i excuse (target_fault hw sw) fm)" (is "settled i _ fm ?fm'")
proof (cases "target_fault hw sw")
  case None
  let ?heal = "\<lambda>m. m\<lparr>md_fault_level := HEALTHY, md_fault_code := 0\<rparr>"
  from None target_fault_spec[of hw sw] ev have e: "evidence i fm = []" by simp
  show ?thesis
  proof (cases "md_fault_level md = HEALTHY")
    case True
    have "evidence i ?fm' = evidence i fm"
      by (rule evidence_only[OF _ _ _ _ md, where g = clear_collection])
         (use None md True in \<open>simp_all add: settle_level_def Let_def clear_collection_def\<close>)
    then show ?thesis using e None md True
      by (simp add: settled_def level_of_def settle_level_def Let_def clear_collection_def less_eq_FaultLevel_def less_FaultLevel_def level_value_def)
  next
    case False
    have m: "fm_instances ?fm' = dict_modify i (?heal \<circ> clear_collection) (fm_instances fm)"
      using None md False by (simp add: settle_level_def Let_def clear_collection_def dict_modify_comp)
    have "evidence i ?fm' = evidence i fm"
      by (rule evidence_only[OF _ _ _ m md])
         (use None md False recover_get[OF reg, of i] in \<open>simp_all add: settle_level_def Let_def clear_collection_def get_instance_def\<close>)
    moreover have "\<not> is_instance_separated i (fm_im ?fm')"
      using None md False recover_unseparates[OF reg] by (simp add: settle_level_def Let_def clear_collection_def)
    ultimately show ?thesis using e md
      by (simp add: settled_def level_of_def m less_FaultLevel_def level_value_def)
  qed
next
  case (Some t)
  let ?raise = "\<lambda>m. m\<lparr>md_fault_level := fault_level t, md_fault_code := fault_code t\<rparr>"
  from Some target_fault_spec[of hw sw] ev
  have e: "evidence i fm \<noteq> []" "highest_level (evidence i fm) = fault_level t" by simp_all
  let ?fm1 = "modify_metadata i ?raise fm"
  have f: "?fm' = fm_persist (apply_level again env i t excuse ?fm1)" by (simp add: settle_level_def Some)
  have q: "fault_level t \<le> L2 \<or> fault_category t = FC_HARDWARE \<and> excuse \<or> ins_status ins \<noteq> ACTIVE"
    using quiet Some by (auto simp: quiet_def)
  have m: "fm_instances ?fm' = dict_modify i ?raise (fm_instances fm)"
    using ins q by (auto simp: f apply_level_def Let_def)
  have g: "get_instance i (fm_im ?fm') = get_instance i (fm_im fm)"
    using q separate_inactive[OF ins] recover_get[OF reg, of i] ins by (auto simp: f apply_level_def Let_def get_instance_def)
  have "evidence i ?fm' = evidence i fm"
    by (rule evidence_only[OF g _ _ m md]) (use ins q in \<open>auto simp: f apply_level_def Let_def\<close>)
  moreover have "level_of i ?fm' = Some (fault_level t)" using md by (simp add: level_of_def m)
  moreover have "\<not> is_instance_separated i (fm_im ?fm')" if "fault_level t \<le> L2"
    using leD[OF that] recover_unseparates[OF reg] by (simp add: f apply_level_def)
  moreover have "is_instance_separated i (fm_im ?fm')"
    if "fault_level t > L2" "is_instance_separated i (fm_im fm) \<or> \<not> excuse"
    using that q ins separate_separates[OF reg ins(1)] by (auto simp: f apply_level_def Let_def)
  ultimately show ?thesis using e by (simp add: settled_def)
qed

lemma refresh_passive:
  assumes reg: "registry_ok (fm_im fm)" and ins: "get_instance i (fm_im fm) = Some ins" "ins_status ins \<noteq> ACTIVE"
    and md: "dict_get (fm_instances fm) i = Some md"
      "recovery_ready md \<or> list_ex (\<lambda>f. engine_status f = Some 1) (dict_values (md_software_fault_infos md))"
  shows "settled i (isolation_deferred i fm) fm (refresh_with again env i fm)"
proof -
  obtain fm1 md1 hw sw where p: "fm_im fm1 = fm_im fm" "dict_get (fm_instances fm1) i = Some md1"
    "md_fault_level md1 = md_fault_level md" "recovery_ready md1 = recovery_ready md"
    "md_software_fault_infos md1 = md_software_fault_infos md" "evidence i fm1 = hw @ sw"
    "\<And>again env. refresh_with again env i fm = settle_level again env i (isolation_deferred i fm) (target_fault hw sw) fm1"
    using refresh_pass[OF md] by blast
  have l: "level_of i fm = level_of i fm1" using p(2,3) md by (simp add: level_of_def)
  have "settled i (isolation_deferred i fm) fm1 (settle_level again env i (isolation_deferred i fm) (target_fault hw sw) fm1)"
    by (rule settle_passive[where ins = ins and md = md1]) (use reg ins p(1,2,6) in \<open>simp_all add: quiet_def\<close>)
  then show ?thesis unfolding p(7) settled_def p(1) l .
qed

lemma refresh_settles:
  assumes reg: "registry_ok (fm_im fm)" and ins: "get_instance i (fm_im fm) = Some ins"
    and md: "dict_get (fm_instances fm) i = Some md"
      "recovery_ready md \<or> list_ex (\<lambda>f. engine_status f = Some 1) (dict_values (md_software_fault_infos md))"
  shows "settled i (isolation_deferred i fm) fm (refresh_instance_fault_level env i fm)"
proof -
  let ?d = "isolation_deferred i fm"
  let ?again = "refresh_with (\<lambda>fm. fm) env i"
  obtain fm1 md1 hw sw where p: "fm_im fm1 = fm_im fm" "dict_get (fm_instances fm1) i = Some md1"
    "md_fault_level md1 = md_fault_level md" "recovery_ready md1 = recovery_ready md"
    "md_software_fault_infos md1 = md_software_fault_infos md" "evidence i fm1 = hw @ sw"
    "\<And>again env. refresh_with again env i fm = settle_level again env i ?d (target_fault hw sw) fm1"
    using refresh_pass[OF md] by blast
  have l: "level_of i fm = level_of i fm1" using p(2,3) md by (simp add: level_of_def)
  note r = refresh_instance_fault_level_def p(7)
  show ?thesis
  proof (cases "quiet (ins_status ins) ?d (target_fault hw sw)")
    case True
    have "settled i ?d fm1 (settle_level ?again env i ?d (target_fault hw sw) fm1)"
      by (rule settle_passive[where ins = ins and md = md1]) (use reg ins p(1,2,6) True in simp_all)
    then show ?thesis unfolding r settled_def p(1) l .
  next
    case False
    then obtain t where t: "target_fault hw sw = Some t" "fault_level t > L2" "\<not> (fault_category t = FC_HARDWARE \<and> ?d)"
      and a: "ins_status ins = ACTIVE"
      by (auto simp: quiet_def split: option.splits)
    let ?fm2 = "(modify_metadata i (\<lambda>m. m\<lparr>md_fault_level := fault_level t, md_fault_code := fault_code t\<rparr>) fm1)
      \<lparr>fm_im := separate_instance env i (fm_im fm)\<rparr>"
    have e: "refresh_instance_fault_level env i fm = fm_persist (?again ?fm2)"
      unfolding r using t a ins p(1) by (auto simp: settle_level_def apply_level_def Let_def)
    have s: "registry_ok (fm_im ?fm2)" "is_instance_separated i (fm_im ?fm2)"
      using separate_get[OF reg, of env i i] separate_separates[OF reg ins] by simp_all
    obtain x where x: "get_instance i (fm_im ?fm2) = Some x" "ins_status x \<noteq> ACTIVE"
      using separate_get[OF reg, of env i i] ins a by (auto simp: status_of_def get_instance_def)
    have "settled i (isolation_deferred i ?fm2) ?fm2 (?again ?fm2)"
      by (rule refresh_passive[OF s(1) x, where md = "md1\<lparr>md_fault_level := fault_level t, md_fault_code := fault_code t\<rparr>"])
         (use p(2,4,5) md in simp_all)
    moreover have "level_of i ?fm2 = Some (fault_level t)" using p(2) by (simp add: level_of_def)
    moreover have "fault_level t \<noteq> HEALTHY" using t(2) by (auto simp: less_FaultLevel_def level_value_def)
    ultimately show ?thesis unfolding e using s(2) by (simp add: settled_def)
  qed
qed

section \<open>PreSeparateNPU faults\<close>

lemma reevaluate_serving:
  assumes "i \<in> instance_ids n" "in_dict i (fm_instances fm)" "get_instance i (fm_im fm) = Some ins"
    "ins_status ins \<in> {INITIAL, ACTIVE}" "\<not> is_800i_a2 (hardware_type (fm_config fm))"
    "origin_fault_level f = Some PRE_SEPARATE_NPU"
  shows "fault_level (reevaluate_fault fm n f) = L2"
proof -
  have "node_has_active_instances fm n" using assms(1-4) unfolding node_has_active_instances_def by (intro bexI[of _ i]) simp_all
  then show ?thesis using assms(5,6)
    by (simp add: reevaluate_fault_def keep_a2_linkdown_at_l6_def is_a2_linkdown_pre_separate_def)
qed

lemma highest_le: "highest_level fs \<le> l \<longleftrightarrow> (\<forall>f \<in> set fs. fault_level f \<le> l)"
  by (induction fs) simp_all

lemma collect_places:
  assumes "collect_instance_faults i fm = Some snap" "(ident, ip, name, key) \<in> set (snap_hardware snap)"
  obtains n where "(name, n) \<in> set (fm_nodes fm)" "i \<in> instance_ids n" "key \<in> fst ` set (hardware_fault_infos n)"
    "name \<in> set (snap_nodes snap)"
proof -
  have "\<exists>n. (name, n) \<in> set (fm_nodes fm) \<and> i \<in> instance_ids n \<and> key \<in> fst ` set (hardware_fault_infos n) \<and>
      name \<in> set (snap_nodes snap)"
    using assms by (force simp: collect_instance_faults_def Let_def split: option.splits)
  then show thesis using that by blast
qed

lemma dict_get_map_entries: "dict_get (map (\<lambda>(k, v). (k, h k v)) d) k = map_option (h k) (dict_get d k)"
  by (induction d) auto

lemma reevaluate_nodes_get:
  "dict_get (fm_nodes (reevaluate_nodes ns fm)) name =
     map_option (\<lambda>n. if name \<in> set ns then reevaluate_node fm n else n) (dict_get (fm_nodes fm) name)"
  by (simp add: reevaluate_nodes_def dict_get_map_entries)

lemma evidence_reevaluated:
  assumes c: "collect_instance_faults i fm = Some snap" and d: "distinct (dict_keys (fm_nodes fm))"
    and f: "f \<in> set (evidence i (reevaluate_nodes (snap_nodes snap) fm))"
  shows "f \<in> set (snap_software snap) \<or>
    (\<exists>n \<in> set (dict_values (fm_nodes fm)). i \<in> instance_ids n \<and> (\<exists>g \<in> set (dict_values (hardware_fault_infos n)). f = reevaluate_fault fm n g))"
proof -
  obtain md where md: "dict_get (fm_instances fm) i = Some md"
    using c by (cases "dict_get (fm_instances fm) i") (simp_all add: collect_instance_faults_def Let_def)
  let ?fm1 = "reevaluate_nodes (snap_nodes snap) fm"
  have "evidence i ?fm1 = relevant_hardware md snap ?fm1 @ snap_software snap"
    using md by (simp add: evidence_def collect_reevaluate c)
  then consider "f \<in> set (snap_software snap)" | ident ip name key n where "(ident, ip, name, key) \<in> set (snap_hardware snap)"
      "dict_get (fm_nodes ?fm1) name = Some n" "fault_at ?fm1 name key = Some f"
    using f by (auto simp: relevant_hardware_def List.map_filter_def split: option.splits if_splits)
  then show ?thesis
  proof cases
    case 2
    from c 2(1) obtain n0 where n0: "(name, n0) \<in> set (fm_nodes fm)" "i \<in> instance_ids n0" "name \<in> set (snap_nodes snap)"
      by (rule collect_places)
    with d have "dict_get (fm_nodes fm) name = Some n0" by (simp add: dict_get_eq_iff)
    with 2(3) n0(3) have "dict_get (map (\<lambda>(key, f). (key, reevaluate_fault fm n0 f)) (hardware_fault_infos n0)) key = Some f"
      by (simp add: fault_at_def reevaluate_nodes_get reevaluate_node_def)
    then obtain g where "(key, g) \<in> set (hardware_fault_infos n0)" "f = reevaluate_fault fm n0 g"
      by (auto dest!: dict_get_in)
    then show ?thesis using n0 by force
  qed simp
qed

lemma mild_target:
  assumes "target_fault hw sw = Some t" "\<forall>f \<in> set (hw @ sw). fault_level f \<le> L2"
  shows "fault_level t \<le> L2"
  using target_fault_spec[of hw sw] assms highest_le[of "hw @ sw" L2] by simp

lemma settle_mild:
  assumes reg: "registry_ok (fm_im fm)" and mild: "\<forall>f \<in> set (hw @ sw). fault_level f \<le> L2"
  shows "let im = fm_im (settle_level again env i candidate (target_fault hw sw) fm) in im = fm_im fm \<or> im = recover_instance i (fm_im fm)"
proof (cases "target_fault hw sw")
  case None
  then show ?thesis by (simp add: settle_level_def Let_def)
next
  case (Some t)
  then have "\<not> fault_level t > L2" using mild_target[OF Some mild] by (simp add: not_less)
  then show ?thesis by (simp add: settle_level_def Let_def apply_level_def Some)
qed

lemma recover_keeps:
  assumes "registry_ok st"
  shows "get_instance j (recover_instance i st) = get_instance j st \<and>
    (is_instance_separated j (recover_instance i st) \<longrightarrow> is_instance_separated j st)"
  using recover_get[OF assms, of i]
  by (auto simp: get_instance_def is_instance_separated_def recover_instance_def split: option.splits)

text \<open>
  PreSeparateNPU faults do not interrupt an instance that serves: on hardware other than the
  800I A2, when every hardware fault on the nodes of a ready INITIAL or ACTIVE instance is of that
  kind and its software faults are at level 2 at most, a refresh leaves its status alone and does
  not isolate it, whatever levels the faults were stored with.
\<close>

theorem preseparate_keeps_serving:
  assumes reg: "registry_ok (fm_im fm)" and ins: "get_instance i (fm_im fm) = Some ins" "ins_status ins \<in> {INITIAL, ACTIVE}"
    and md: "dict_get (fm_instances fm) i = Some md" "recovery_ready md"
    and nodes: "distinct (dict_keys (fm_nodes fm))" and hw: "\<not> is_800i_a2 (hardware_type (fm_config fm))"
    and pre: "preseparate_only i fm" "software_mild i fm"
  shows "get_instance i (fm_im (refresh_instance_fault_level env i fm)) = Some ins \<and>
    (is_instance_separated i (fm_im (refresh_instance_fault_level env i fm)) \<longrightarrow> is_instance_separated i (fm_im fm))"
proof -
  obtain snap where snap: "collect_instance_faults i fm = Some snap" using md by (simp add: collect_instance_faults_def Let_def)
  obtain fm1 md1 hw sw where p: "fm_im fm1 = fm_im fm" "evidence i fm1 = hw @ sw"
    "md_software_fault_infos md1 = md_software_fault_infos md"
    and f1: "fm1 = reevaluate_nodes (snap_nodes snap) (modify_metadata i (\<lambda>m. md1) fm)"
    and r: "\<And>again env. refresh_with again env i fm = settle_level again env i (isolation_deferred i fm) (target_fault hw sw) fm1"
    by (rule refresh_pass_state[OF md(1)]) (use md(2) snap in simp_all)
  let ?fm0 = "modify_metadata i (\<lambda>m. md1) fm"
  have c: "collect_instance_faults i ?fm0 = Some snap"
    using collect_cong[of ?fm0 fm i] md(1) p(3) snap by simp
  have "fault_level f \<le> L2" if "f \<in> set (hw @ sw)" for f
  proof -
    from that have "f \<in> set (evidence i (reevaluate_nodes (snap_nodes snap) ?fm0))" by (simp add: p(2) flip: f1)
    from evidence_reevaluated[OF c _ this] nodes show ?thesis
      using pre snap ins md(1) assms(7) reevaluate_serving[of i _ ?fm0 ins]
      by (fastforce simp: preseparate_only_def software_mild_def in_dict_iff dest: dict_get_in)
  qed
  from settle_mild[of fm1 hw sw] this reg p(1) have "fm_im (refresh_instance_fault_level env i fm) \<in> {fm_im fm, recover_instance i (fm_im fm)}"
    by (simp add: refresh_instance_fault_level_def r Let_def)
  then show ?thesis using recover_keeps[OF reg, of i i] ins(1) by auto
qed

section \<open>Ownership of nodes\<close>

lemma nodes_ok_all: "nodes_ok fm \<longleftrightarrow> all_nodes node_ok fm"
  by (simp add: nodes_ok_def all_nodes_def)

lemma node_ok_almost: "node_ok name n \<Longrightarrow> node_almost i name n"
  by (auto simp: node_ok_def node_almost_def)

lemma all_nodes_get: "all_nodes P fm \<Longrightarrow> dict_get (fm_nodes fm) name = Some n \<Longrightarrow> P name n"
  by (auto simp: all_nodes_def dest: dict_get_in)

lemma all_nodes_mono: "all_nodes P fm \<Longrightarrow> (\<And>name n. P name n \<Longrightarrow> Q name n) \<Longrightarrow> all_nodes Q fm"
  by (auto simp: all_nodes_def)

lemma all_nodes_modify:
  assumes "all_nodes P fm" "\<And>n. dict_get (fm_nodes fm) name = Some n \<Longrightarrow> P name n \<Longrightarrow> Q name (g n)"
    "\<And>name' n. name' \<noteq> name \<Longrightarrow> P name' n \<Longrightarrow> Q name' n"
  shows "all_nodes Q (modify_node name g fm)"
  using assms by (auto simp: all_nodes_def modify_node_def set_dict_modify dict_get_eq_iff)

lemma all_nodes_set:
  assumes "all_nodes P fm" "Q name n" "\<And>name' n. name' \<noteq> name \<Longrightarrow> P name' n \<Longrightarrow> Q name' n"
  shows "all_nodes Q (fm\<lparr>fm_nodes := dict_set name n (fm_nodes fm)\<rparr>)"
  using assms by (auto simp: all_nodes_def set_dict_set)

lemma keys_modify_node [simp]: "dict_keys (fm_nodes (modify_node name g fm)) = dict_keys (fm_nodes fm)"
  by (simp add: modify_node_def)

lemma take_over:
  assumes "all_nodes (handing_over i pods (set (f # fs))) fm" "f \<in> pods" "f \<notin> set fs"
  shows "all_nodes (handing_over i pods (set fs)) (modify_node f (take_node i job) fm)"
  by (rule all_nodes_modify[OF assms(1)]) (use assms(2,3) in \<open>auto simp: handing_over_def take_node_def node_almost_def\<close>)

lemma give_over:
  assumes "all_nodes (handing_over i pods todo) fm" "g \<notin> pods" "old \<noteq> i"
  shows "all_nodes (handing_over i pods todo) (modify_node g (give_node old job ip) fm)"
  by (rule all_nodes_modify[OF assms(1)])
     (use assms(2,3) in \<open>auto simp: handing_over_def give_node_def node_almost_def node_ok_def\<close>)

lemma dict_member: "k \<in> set (dict_keys d) \<Longrightarrow> \<exists>v. dict_get d k = Some v"
  by (induction d) auto

lemma hand_order:
  assumes "orders ord" "handing_over i pods todo name n"
  shows "ord (instance_ids n) \<noteq> []" "instance_job_names n \<noteq> []" "set (ord (instance_ids n)) = instance_ids n"
proof -
  have n: "finite (instance_ids n)" "instance_ids n \<noteq> {}" "set (dict_keys (instance_job_names n)) = instance_ids n"
    using assms(2) by (simp_all add: handing_over_def node_almost_def)
  show o: "set (ord (instance_ids n)) = instance_ids n" using assms(1) n(1) by (simp add: orders_def)
  show "ord (instance_ids n) \<noteq> []" using o n(2) by force
  show "instance_job_names n \<noteq> []" using n(2,3) by force
qed

lemma swap_total:
  assumes "orders ord" "all_nodes (handing_over i pods (set fs)) fm" "distinct fs" "set fs \<subseteq> pods"
    "set gs \<inter> pods = {}" "set fs \<union> set gs \<subseteq> set (dict_keys (fm_nodes fm))"
  shows "\<exists>fm'. swap_node_ownership ord i job fs gs fm = (fm', Inr ()) \<and> all_nodes (handing_over i pods {}) fm' \<and>
    fm_instances fm' = fm_instances fm"
  using assms(2-)
proof (induction fs arbitrary: gs fm)
  case (Cons f fs)
  note IH = Cons.IH and prems = Cons.prems
  let ?fm1 = "modify_node f (take_node i job) fm"
  from prems(5) obtain n where n: "dict_get (fm_nodes fm) f = Some n" by (meson Un_iff dict_member list.set_intros(1) subsetD)
  note h = all_nodes_get[OF prems(1) n]
  obtain old rest where old: "ord (instance_ids n) = old # rest" using hand_order[OF assms(1) h] by (auto simp: neq_Nil_conv)
  have t: "all_nodes (handing_over i pods (set fs)) ?fm1" by (rule take_over) (use prems in simp_all)
  show ?case
  proof (cases gs)
    case Nil
    from IH[OF t, of "[]"] prems Nil n old hand_order(2)[OF assms(1) h] show ?thesis
      by (simp add: modify_node_def)
  next
    case gs: (Cons g gs')
    from prems(5) gs obtain m where m: "dict_get (fm_nodes fm) g = Some m" using dict_member[of g "fm_nodes fm"] by auto
    have "instance_pod_ips m \<noteq> []" using all_nodes_get[OF prems(1) m] prems(4) gs by (auto simp: handing_over_def node_ok_def)
    then obtain ip ips where ip: "dict_values (instance_pod_ips m) = ip # ips" by (cases "instance_pod_ips m") auto
    have ne: "old \<noteq> i" using hand_order(3)[OF assms(1) h] old h by (auto simp: handing_over_def)
    let ?fm2 = "modify_node g (give_node old (case dict_get (instance_job_names n) old of Some jn \<Rightarrow> jn | None \<Rightarrow> []) ip) ?fm1"
    have "all_nodes (handing_over i pods (set fs)) ?fm2" by (rule give_over[OF t]) (use prems ne gs in simp_all)
    from IH[OF this, of gs'] prems gs n m old ip show ?thesis
      by (simp add: gs modify_node_def)
  qed
qed simp

lemma all_nodes_cong: "fm_nodes fm' = fm_nodes fm \<Longrightarrow> all_nodes P fm' = all_nodes P fm"
  by (simp add: all_nodes_def)

lemma monitor_nodes [simp]: "fm_nodes (create_resource_monitor name fm) = fm_nodes fm"
  by (simp add: create_resource_monitor_def)

lemma joined: "node_almost i name n \<Longrightarrow> node_ok name (join_node i ip job n) \<and> i \<in> instance_ids (join_node i ip job n)"
  by (auto simp: node_almost_def node_ok_def join_node_def)

lemma join_placing:
  "placing i pods todo name n \<Longrightarrow> name \<in> pods \<Longrightarrow> placing i pods todo' name (join_node i ip job n)"
  using joined[of i name n ip job] node_ok_almost[of name "join_node i ip job n" i] by (simp add: placing_def)

lemma ensure_places:
  assumes a: "all_nodes (placing i pods todo) fm" and p: "snd pod \<in> pods" "set known \<subseteq> set (dict_keys (fm_nodes fm))"
  shows "all_nodes (placing i pods (todo - {snd pod})) (ensure_node tok known i job fm pod)"
proof -
  obtain ip name where pod: "pod = (ip, name)" by (cases pod)
  have other: "placing i pods (todo - {name}) name' n" if "name' \<noteq> name" "placing i pods todo name' n" for name' n
    using that by (simp add: placing_def)
  show ?thesis
  proof (cases "name \<in> set known")
    case True
    have "all_nodes (placing i pods (todo - {name})) (modify_node name (join_node i ip job) fm)"
      by (rule all_nodes_modify[OF a _ other]) (use p pod join_placing in simp_all)
    then show ?thesis using True pod by (simp add: ensure_node_def)
  next
    case False
    have "all_nodes (placing i pods (todo - {name})) (fm\<lparr>fm_nodes := dict_set name (new_node tok name i ip job) (fm_nodes fm)\<rparr>)"
      by (rule all_nodes_set[OF a _ other]) (use p pod in \<open>auto simp: placing_def node_almost_def node_ok_def new_node_def\<close>)
    then show ?thesis using False pod by (simp add: ensure_node_def)
  qed
qed

lemma ensure_keys: "set (dict_keys (fm_nodes fm)) \<subseteq> set (dict_keys (fm_nodes (ensure_node tok known i job fm pod)))"
  by (cases pod) (auto simp: ensure_node_def modify_node_def)

text \<open>
  A loop whose steps change the nodes as \<open>ensure_node\<close> does.
\<close>

lemma ensure_fold:
  assumes "\<And>fm pod. fm_nodes (step fm pod) = fm_nodes (ensure_node tok (known fm) i job fm pod)"
    "\<And>fm pod. set known0 \<subseteq> set (dict_keys (fm_nodes fm)) \<Longrightarrow> set (known fm) \<subseteq> set (dict_keys (fm_nodes fm))"
    "all_nodes (placing i pods todo) fm" "snd ` set ps \<subseteq> pods" "set known0 \<subseteq> set (dict_keys (fm_nodes fm))"
  shows "all_nodes (placing i pods (todo - snd ` set ps)) (foldl step fm ps)"
  using assms(3-)
proof (induction ps arbitrary: fm todo)
  case (Cons p ps)
  have "all_nodes (placing i pods (todo - {snd p})) (ensure_node tok (known fm) i job fm p)"
    by (rule ensure_places) (use Cons.prems assms(2) in auto)
  then have a: "all_nodes (placing i pods (todo - {snd p})) (step fm p)" by (simp add: all_nodes_cong[OF assms(1)])
  have b: "set known0 \<subseteq> set (dict_keys (fm_nodes (step fm p)))"
    using ensure_keys[of fm tok "known fm" i job p] Cons.prems(3) unfolding assms(1) by blast
  have "all_nodes (placing i pods (todo - {snd p} - snd ` set ps)) (foldl step (step fm p) ps)"
    by (rule Cons.IH[OF a _ b]) (use Cons.prems(2) in simp)
  moreover have "todo - {snd p} - snd ` set ps = todo - snd ` set (p # ps)" by auto
  ultimately show ?case by simp
qed simp

lemma placed: "all_nodes (placing i pods {}) fm \<Longrightarrow> nodes_ok fm \<and> (\<forall>(name, n) \<in> set (fm_nodes fm). i \<in> instance_ids n \<longleftrightarrow> name \<in> pods)"
  by (auto simp: nodes_ok_def all_nodes_def placing_def)

lemma detach_ok:
  assumes "nodes_ok fm" shows "nodes_ok (detach_node i fm name)"
proof (cases "dict_get (fm_nodes fm) name")
  case (Some n)
  show ?thesis
  proof (cases "instance_ids (leave_node i n) = {}")
    case True
    then show ?thesis using Some assms by (auto simp: detach_node_def nodes_ok_def set_dict_pop)
  next
    case False
    have "all_nodes node_ok (modify_node name (leave_node i) fm)"
    proof (rule all_nodes_modify)
      show "all_nodes node_ok fm" using assms by (simp add: nodes_ok_all)
      fix m assume m: "dict_get (fm_nodes fm) name = Some m" "node_ok name m"
      then show "node_ok name (leave_node i m)" using False Some
        by (auto simp: node_ok_def leave_node_def)
    qed
    then show ?thesis using Some False by (simp add: detach_node_def nodes_ok_all)
  qed
qed (use assms in \<open>simp add: detach_node_def\<close>)

lemma detach_entries:
  assumes "distinct (dict_keys (fm_nodes fm))" "(name', n) \<in> set (fm_nodes (detach_node i fm name))"
  shows "(name' = name \<longrightarrow> i \<notin> instance_ids n) \<and> (name' \<noteq> name \<longrightarrow> (name', n) \<in> set (fm_nodes fm))"
  using assms by (auto simp: detach_node_def set_dict_pop modify_node_def set_dict_modify leave_node_def dict_get_None_iff image_iff
      split: option.splits if_splits)

lemma detach_fold:
  assumes "nodes_ok fm"
  shows "nodes_ok (foldl (detach_node i) fm names) \<and>
    (\<forall>(name, n) \<in> set (fm_nodes (foldl (detach_node i) fm names)). name \<in> set names \<longrightarrow> i \<notin> instance_ids n) \<and>
    (\<forall>(name, n) \<in> set (fm_nodes (foldl (detach_node i) fm names)). name \<notin> set names \<longrightarrow> (name, n) \<in> set (fm_nodes fm))"
  using assms
proof (induction names arbitrary: fm)
  case (Cons name names)
  let ?fm1 = "detach_node i fm name"
  have d: "distinct (dict_keys (fm_nodes fm))" using Cons.prems by (simp add: nodes_ok_def)
  from Cons.IH[OF detach_ok[OF Cons.prems]] show ?case using detach_entries[OF d, of _ _ i name]
    by (fastforce simp: case_prod_unfold)
qed simp

lemma sync_existing_ok:
  assumes ok: "nodes_ok fm"
  shows "all_nodes (placing (ins_id ins) (set (dict_values pods)) {}) (sync_existing_instance_nodes tok ins pods fm)"
proof -
  let ?i = "ins_id ins" and ?V = "set (dict_values pods)"
  let ?names = "filter (\<lambda>name. name \<notin> ?V) (dict_keys (filter (\<lambda>(name, n). ?i \<in> instance_ids n) (fm_nodes fm)))"
  let ?fm1 = "foldl (detach_node ?i) fm ?names"
  note d = detach_fold[OF ok, of ?i ?names]
  have off: "?i \<notin> instance_ids n" if "(name, n) \<in> set (fm_nodes ?fm1)" "name \<notin> ?V" for name n
  proof (cases "name \<in> set ?names")
    case False
    then have "(name, n) \<in> set (fm_nodes fm)" using d that(1) by blast
    with False that(2) show ?thesis by force
  qed (use d that in blast)
  have "placing ?i ?V ?V name n" if "(name, n) \<in> set (fm_nodes ?fm1)" for name n
  proof -
    have "node_ok name n" using d that by (auto simp: nodes_ok_def)
    then show ?thesis using node_ok_almost off[OF that] by (simp add: placing_def)
  qed
  then have "all_nodes (placing ?i ?V ?V) ?fm1" using d unfolding nodes_ok_def all_nodes_def by blast
  then have "all_nodes (placing ?i ?V (?V - snd ` set pods)) (foldl (\<lambda>fm pod.
      if in_dict (snd pod) (fm_nodes fm) then ensure_node tok (dict_keys (fm_nodes fm)) ?i (job_name ins) fm pod
      else create_resource_monitor (snd pod) (ensure_node tok (dict_keys (fm_nodes fm)) ?i (job_name ins) fm pod)) ?fm1 pods)"
    by (intro ensure_fold[where known = "\<lambda>fm. dict_keys (fm_nodes fm)" and ?known0.0 = "[]" and tok = tok and job = "job_name ins"])
       simp_all
  then show ?thesis by (simp add: sync_existing_instance_nodes_def Let_def)
qed

lemma foreign_spec:
  "distinct (foreign_nodes job pods fm)" "set (foreign_nodes job pods fm) \<subseteq> set (dict_values pods)"
  "set (foreign_nodes job pods fm) \<subseteq> set (dict_keys (fm_nodes fm))"
proof -
  have "name \<in> set (dict_values pods) \<and> name \<in> set (dict_keys (fm_nodes fm))" if "name \<in> set (foreign_nodes job pods fm)" for name
    using that dict_get_in[of "fm_nodes fm" name]
    by (cases "dict_get (fm_nodes fm) name") (force simp: foreign_nodes_def)+
  then show "set (foreign_nodes job pods fm) \<subseteq> set (dict_values pods)"
    "set (foreign_nodes job pods fm) \<subseteq> set (dict_keys (fm_nodes fm))" by blast+
qed (simp add: foreign_nodes_def)

lemma orphaned_spec:
  "set (orphaned_nodes job pods fm) \<inter> set (dict_values pods) = {}" "set (orphaned_nodes job pods fm) \<subseteq> set (dict_keys (fm_nodes fm))"
  by (force simp: orphaned_nodes_def)+

lemma foldl_monitor_nodes: "fm_nodes (foldl (\<lambda>fm name. create_resource_monitor name fm) fm names) = fm_nodes fm"
  by (induction names arbitrary: fm) simp_all

lemma add_new_ok:
  assumes ok: "nodes_ok fm" and ord: "orders ord" and new: "\<forall>(name, n) \<in> set (fm_nodes fm). ins_id ins \<notin> instance_ids n"
  shows "\<exists>fm'. add_new_instance_with_nodes ord tok ins pods fm = (fm', Inr ()) \<and>
    all_nodes (placing (ins_id ins) (set (dict_values pods)) {}) fm'"
proof -
  let ?i = "ins_id ins" and ?V = "set (dict_values pods)" and ?job = "job_name ins"
  let ?fm1 = "fm\<lparr>fm_instances := dict_set ?i (new_metadata ?i False) (fm_instances fm)\<rparr>"
  let ?fs = "foreign_nodes ?job pods ?fm1" and ?gs = "orphaned_nodes ?job pods ?fm1"
  have "all_nodes (handing_over ?i ?V (set ?fs)) ?fm1"
    using ok new node_ok_almost by (fastforce simp: nodes_ok_def all_nodes_def handing_over_def)
  then have "\<exists>fm'. swap_node_ownership ord ?i ?job ?fs ?gs ?fm1 = (fm', Inr ()) \<and> all_nodes (handing_over ?i ?V {}) fm' \<and>
      fm_instances fm' = fm_instances ?fm1"
    by (rule swap_total[OF ord _ foreign_spec(1,2) orphaned_spec(1)]) (use foreign_spec(3) orphaned_spec(2) in blast)
  then obtain fm2 where s: "swap_node_ownership ord ?i ?job ?fs ?gs ?fm1 = (fm2, Inr ())" and h: "all_nodes (handing_over ?i ?V {}) fm2"
    by blast
  let ?fm3 = "foldl (ensure_node tok (dict_keys (fm_nodes fm2)) ?i ?job) fm2 pods"
  have "all_nodes (placing ?i ?V ?V) fm2" by (rule all_nodes_mono[OF h]) (auto simp: handing_over_def placing_def)
  then have "all_nodes (placing ?i ?V (?V - snd ` set pods)) ?fm3"
    by (intro ensure_fold[where known = "\<lambda>fm. dict_keys (fm_nodes fm2)" and ?known0.0 = "dict_keys (fm_nodes fm2)" and tok = tok and job = ?job])
       simp_all
  then have "all_nodes (placing ?i ?V {}) (foldl (\<lambda>fm name. create_resource_monitor name fm) ?fm3 (dict_values pods))"
    by (simp add: all_nodes_cong[OF foldl_monitor_nodes])
  then show ?thesis using s by (simp add: add_new_instance_with_nodes_def Let_def)
qed

text \<open>
  Synchronising the nodes of an instance never fails and places it exactly: the swap of owners
  raises neither \<open>KeyError\<close> nor \<open>StopIteration\<close>, the bookkeeping of every node stays consistent, and
  afterwards the instance is recorded on a known node if and only if one of its pods runs there.
\<close>

theorem sync_places_instance:
  assumes ok: "nodes_ok fm" and ord: "orders ord"
    and new: "\<not> in_dict (ins_id ins) (fm_instances fm) \<longrightarrow> (\<forall>(name, n) \<in> set (fm_nodes fm). ins_id ins \<notin> instance_ids n)"
  shows "\<exists>fm'. sync_instance_nodes ord resolve tok ins fm = (fm', Inr ()) \<and> nodes_ok fm' \<and>
    (\<forall>(name, n) \<in> set (fm_nodes fm'). ins_id ins \<in> instance_ids n \<longleftrightarrow>
       name \<in> set (dict_values (build_node_name_mapping resolve (node_managers ins))))"
proof (cases "in_dict (ins_id ins) (fm_instances fm)")
  case True
  then show ?thesis
    using placed[OF sync_existing_ok[OF ok, of ins "build_node_name_mapping resolve (node_managers ins)" tok]]
    by (simp add: sync_instance_nodes_def Let_def)
next
  case False
  let ?pods = "build_node_name_mapping resolve (node_managers ins)"
  from add_new_ok[OF ok ord mp[OF new False], of tok ?pods] obtain fm' where
    a: "add_new_instance_with_nodes ord tok ins ?pods fm = (fm', Inr ())" "all_nodes (placing (ins_id ins) (set (dict_values ?pods)) {}) fm'"
    by blast
  show ?thesis
  proof (rule exI[of _ fm'], intro conjI)
    show "sync_instance_nodes ord resolve tok ins fm = (fm', Inr ())" using False a(1) by (simp add: sync_instance_nodes_def Let_def)
  qed (use placed[OF a(2)] in blast)+
qed

definition outside_of :: "('r, 'w) FaultManager \<Rightarrow> FtConfig \<times> FtRuntimeStore \<times> 'w" where
  "outside_of fm = (fm_config fm, fm_store fm, fm_world fm)"

text \<open>
  An active instance 7 of two pods on nodes \<open>n1\<close> and \<open>n2\<close>, with faults on the first.
\<close>

definition demo_ft_config :: FtConfig where
  "demo_ft_config = \<lparr>hardware_type = ''800I-A3'', enable_fault_tolerance = True, cfg_enable_dp_scale_down = True,
     cfg_enable_dp_scale_up = False, enable_engine_relaunch = True, enable_token_reinference = True, enable_scale_p2d = False,
     fault_collection_timeout_seconds = 30, hardware_ft_correlation_window_sec = 5, cfg_enable_etcd_persistence = False\<rparr>"

definition demo_hw_fault :: "FaultLevel \<Rightarrow> OriginFaultLevel \<Rightarrow> FaultInfo" where
  "demo_hw_fault l origin = reboot_fault\<lparr>fault_level := l, fault_code := 17, origin_fault_level := Some origin\<rparr>"

definition demo_nodes :: "FaultInfo list \<Rightarrow> (string, NodeMetadata) dict" where
  "demo_nodes fs = [(''n1'', (new_node ''tok'' ''n1'' 7 ''10.0.0.1'' ''job'')\<lparr>hardware_fault_infos := map (Pair (K_code 17)) fs\<rparr>),
     (''n2'', new_node ''tok'' ''n2'' 7 ''10.0.0.2'' ''job'')]"

definition demo_fault_manager ::
  "FtConfig \<Rightarrow> (string, NodeMetadata) dict \<Rightarrow> InstanceMetadata \<Rightarrow> FtRuntimeStore \<Rightarrow> (Instance, nat) FaultManager" where
  "demo_fault_manager cfg nodes md st = \<lparr>fm_config = cfg, fm_nodes = nodes, fm_instances = [(7, md)], resource_monitors = {},
     fm_persist_calls = 0, problem_pod_recover_futures = [],
     fm_im = (demo_manager ACTIVE)\<lparr>instances := [(7, demo_dp_instance)]\<rparr>, fm_store = st, fm_world = 0\<rparr>"

definition demo_ft_env :: "(Instance, nat) ft_env" where
  "demo_ft_env = \<lparr>ctl = demo_env, send_refresh = (\<lambda>event xs w. (w + 1, True)), set_order = sorted_list_of_set\<rparr>"

definition demo_engine_fault :: "int \<Rightarrow> int \<Rightarrow> FaultInfo" where
  "demo_engine_fault engine st = from_exception ''E'' ''gone'' ''now'' engine st None (Some 7)"

definition demo_separating :: "(Instance, nat) FaultManager" where
  "demo_separating = demo_fault_manager (demo_ft_config\<lparr>cfg_enable_dp_scale_down := False\<rparr>) (demo_nodes [demo_hw_fault L5 RESTART_NPU])
     (new_metadata 7 True) empty_store"

definition demo_preseparate :: "(Instance, nat) FaultManager" where
  "demo_preseparate = demo_fault_manager demo_ft_config (demo_nodes [demo_hw_fault L6 PRE_SEPARATE_NPU]) (new_metadata 7 True) empty_store"

section \<open>Engine faults\<close>

lemma outside_frame [simp]:
  "outside_of (fm_persist fm) = outside_of fm" "outside_of (modify_metadata i f fm) = outside_of fm"
  "outside_of (reevaluate_nodes ns fm) = outside_of fm" "outside_of (fm\<lparr>fm_im := im\<rparr>) = outside_of fm"
  by (simp_all add: outside_of_def fm_persist_def modify_metadata_def reevaluate_nodes_def)

lemma outside_settle:
  "(\<And>fm. outside_of (again fm) = outside_of fm) \<Longrightarrow> outside_of (settle_level again env i c t fm) = outside_of fm"
  by (simp add: settle_level_def apply_level_def Let_def split: option.split)

lemma outside_with:
  "(\<And>fm. outside_of (again fm) = outside_of fm) \<Longrightarrow> outside_of (refresh_with again env i fm) = outside_of fm"
  by (simp add: refresh_with_def Let_def outside_settle split: option.split)

lemma outside_refresh: "outside_of (refresh_instance_fault_level env i fm) = outside_of fm"
  by (simp add: refresh_instance_fault_level_def outside_with)

lemma refresh_outside [simp]:
  "fm_config (refresh_instance_fault_level env i fm) = fm_config fm" "fm_store (refresh_instance_fault_level env i fm) = fm_store fm"
  "fm_world (refresh_instance_fault_level env i fm) = fm_world fm"
  using outside_refresh[of env i fm] by (simp_all add: outside_of_def)

lemma transition_phase: "\<exists>rt. rt_get i (fst (transition i [Ch_phase p, Ch_serving_published b] st)) = Some rt \<and> phase rt = p"
  by (auto simp: rt_get_def transition_def Let_def case_prod_unfold)

text \<open>
  The first engine fault of a round withdraws its instance: with DP scale-down enabled, an
  accepted report moves the runtime to waiting for the engines, and the instance is in no roster
  that the overlay projects, whatever instances it holds.
\<close>

theorem first_engine_fault_withdraws:
  assumes f: "fault_category f = FC_SOFTWARE" "engine_status f \<in> {Some 1, Some 2}"
    and target: "resolve_software_fault_target f ip given port fm = Some (i, key)"
    and md: "dict_get (fm_instances fm) i = Some md" "recovery_ready md" "fault_collection_started_at md = None"
    and cfg: "enable_fault_tolerance (fm_config fm)" "cfg_enable_dp_scale_down (fm_config fm)"
    and held: "ins_id ins = i"
  shows "let (fm', ok) = report_software_fault env now f ip given port fm
    in ok \<and> project held (fm_store fm') ins = None \<and> ins_id ins \<notin> ins_id ` set (project_many held (fm_store fm') xs)"
proof -
  let ?fm' = "fst (report_software_fault env now f ip given port fm)"
  have "snd (report_software_fault env now f ip given port fm) \<and>
      (\<exists>rt. rt_get i (fm_store ?fm') = Some rt \<and> phase rt = PH_WAITING_ENGINE_FAULT)"
    using assms transition_phase[of i PH_WAITING_ENGINE_FAULT False "fm_store fm"]
    by (auto simp: report_software_fault_def Let_def)
  then obtain rt where rt: "rt_get i (fm_store ?fm') = Some rt" "phase rt = PH_WAITING_ENGINE_FAULT"
    and ok: "snd (report_software_fault env now f ip given port fm)" by blast
  have n: "project held (fm_store ?fm') x = None" if "ins_id x = i" for x
    using rt that by (simp add: project_def WITHDRAWN_PHASES_def)
  have "ins_id ins \<notin> ins_id ` set (project_many held (fm_store ?fm') xs)"
  proof
    assume "ins_id ins \<in> ins_id ` set (project_many held (fm_store ?fm') xs)"
    then obtain y x where "ins_id y = i" "project held (fm_store ?fm') x = Some y"
      using held by (auto simp: set_project_many)
    moreover from this have "ins_id y = ins_id x" using project_fields by metis
    ultimately show False using n[of x] by simp
  qed
  then show ?thesis using ok n[OF held] by (simp add: case_prod_unfold)
qed

lemma demo_registry: "registry_ok (fm_im (demo_fault_manager cfg nodes md st))"
  by (simp add: demo_fault_manager_def demo_manager_def registry_ok_def demo_dp_instance_def demo_instance_def)

lemma demo_tracked [simp]:
  "fm_instances (demo_fault_manager cfg nodes md st) = [(7, md)]" "fm_config (demo_fault_manager cfg nodes md st) = cfg"
  "fm_nodes (demo_fault_manager cfg nodes md st) = nodes" "fm_store (demo_fault_manager cfg nodes md st) = st"
  "get_instance 7 (fm_im (demo_fault_manager cfg nodes md st)) = Some demo_dp_instance"
  by (simp_all add: demo_fault_manager_def get_instance_def)



theorem preseparate_keeps_serving_witness:
  "get_instance 7 (fm_im (refresh_instance_fault_level demo_env 7 demo_preseparate)) = Some demo_dp_instance \<and>
   \<not> is_instance_separated 7 (fm_im (refresh_instance_fault_level demo_env 7 demo_preseparate))"
proof -
  have a: "preseparate_only 7 demo_preseparate" "software_mild 7 demo_preseparate" "\<not> is_instance_separated 7 (fm_im demo_preseparate)"
    by code_simp+
  have b: "\<not> is_800i_a2 (hardware_type demo_ft_config)" "ins_status demo_dp_instance \<in> {INITIAL, ACTIVE}"
    "distinct (dict_keys (demo_nodes [demo_hw_fault L6 PRE_SEPARATE_NPU]))" "recovery_ready (new_metadata 7 True)" by code_simp+
  show ?thesis
    using preseparate_keeps_serving[of demo_preseparate 7 demo_dp_instance "new_metadata 7 True" demo_env] a b
    by (simp add: demo_preseparate_def demo_registry)
qed

theorem sync_places_instance_witness:
  "\<exists>fm'. sync_instance_nodes sorted_list_of_set (\<lambda>ip. Some ''n3'') ''tok'' demo_dp_instance demo_preseparate = (fm', Inr ()) \<and>
     nodes_ok fm'"
proof -
  have o: "orders sorted_list_of_set" by (simp add: orders_def)
  have n: "nodes_ok demo_preseparate" "in_dict (ins_id demo_dp_instance) (fm_instances demo_preseparate)"
    by (simp_all add: demo_preseparate_def nodes_ok_def node_ok_def demo_nodes_def new_node_def demo_dp_instance_def demo_instance_def)
  show ?thesis using sync_places_instance[OF n(1) o] n(2) by blast
qed

theorem first_engine_fault_withdraws_witness:
  "project {} (fm_store (fst (report_software_fault demo_ft_env 3 (demo_engine_fault 0 1) ''10.0.0.1'' None ''90'' demo_preseparate)))
     demo_dp_instance = None"
proof -
  have a: "fault_category (demo_engine_fault 0 1) = FC_SOFTWARE" "engine_status (demo_engine_fault 0 1) \<in> {Some 1, Some 2}"
    "recovery_ready (new_metadata 7 True)" "fault_collection_started_at (new_metadata 7 True) = None"
    "enable_fault_tolerance demo_ft_config" "cfg_enable_dp_scale_down demo_ft_config" "ins_id demo_dp_instance = 7" by code_simp+
  have r: "resolve_software_fault_target (demo_engine_fault 0 1) ''10.0.0.1'' None ''90'' demo_preseparate = Some (7, ''10.0.0.1:90:0'')"
    by code_simp
  show ?thesis
    using first_engine_fault_withdraws[OF a(1,2) r _ a(3,4), of demo_dp_instance demo_ft_env 3 "{}" "[]"] a
    by (simp add: demo_preseparate_def case_prod_unfold Let_def)
qed

end
