(* ===== verification/Recovery_Planning.thy ===== *)
theory Recovery_Planning
  imports Fault_Evidence
begin

text \<open>
  The decision side of the fault manager: \<open>_build_scale_down_context\<close>, \<open>_process_instance_strategy\<close>,
  \<open>_complete_finished_strategy\<close> and \<open>start_user_recovery\<close> of \<^verbatim>\<open>fault_manager.py\<close>, with
  \<^verbatim>\<open>recovery_planner.py\<close> and \<^verbatim>\<open>strategy/strategy.py\<close>.

  One call of a handler is one step; the strategy threads end in steps of their own. A future that
  is done and a strategy that is finished are one flag of the run. A submission to the executor
  succeeds. The overlay's held instances and the clock are arguments.
\<close>

section \<open>The context of a round\<close>

definition actionable ::
  "InstanceMetadata \<Rightarrow> FaultLevel \<Rightarrow> fault_snapshot \<Rightarrow> ('r, 'w) FaultManager \<Rightarrow> (string \<times> string \<times> FaultInfo) list" where
  "actionable md l snap fm =
     List.map_filter (\<lambda>(ident, ip, name, key).
       case fault_at fm name key of
         None \<Rightarrow> None
       | Some f \<Rightarrow> if fault_level f \<ge> l \<and> ident \<notin> handled_hardware_faults md \<and> ident \<notin> ignored_pre_ready_hardware_faults md
                   then Some (ident, ip, f) else None) (snap_hardware snap)"

text \<open>
  The hardware faults one by one: candidate ranks, mapped keys, keys of ranks already removed, and
  whether some fault maps to no rank.
\<close>

definition correlate_hardware ::
  "Instance \<Rightarrow> int set \<Rightarrow> (string \<times> string \<times> FaultInfo) list \<Rightarrow> int set \<times> string set \<times> string set \<times> bool" where
  "correlate_hardware ins committed faults =
     foldl (\<lambda>(cands, keys, removed, unmapped) fault.
              let (rks, ks) = hardware_dp_ranks ins [fault]
              in if rks \<noteq> {} \<and> rks \<subseteq> committed then (cands, keys, removed \<union> ks, unmapped)
                 else (cands \<union> (rks - committed), keys \<union> ks, removed, unmapped \<or> rks = {}))
           ({}, {}, {}, False) faults"

definition timely :: "pyfloat option \<Rightarrow> pyfloat \<Rightarrow> (int, pyfloat) dict \<Rightarrow> int set" where
  "timely started window observed =
     (case started of None \<Rightarrow> {} | Some s \<Rightarrow> fst ` set (filter (\<lambda>(r, t). t - s \<le> window) observed))"

definition engine_ranks :: "FaultInfo list \<Rightarrow> int \<Rightarrow> int set" where
  "engine_ranks fs st = set (List.map_filter (\<lambda>f. if engine_status f = Some st then engine_id f else None) fs)"

definition context_of ::
  "pyfloat \<Rightarrow> Instance \<Rightarrow> InstanceMetadata \<Rightarrow> fault_snapshot \<Rightarrow> int set \<Rightarrow> ('r, 'w) FaultManager \<Rightarrow> ScaleDownContext" where
  "context_of now ins md snap committed fm =
     (let hw = filter (\<lambda>(key, ip, f). fault_level f \<ge> L4) (actionable md L2 snap fm);
          sw = snap_software snap;
          registered = ep_id ` set (snd (get_all_endpoints False ins));
          act = registered - committed;
          dead = software_dp_ranks sw \<inter> act;
          unhealthy = engine_ranks sw 2 \<inter> act;
          started = fault_collection_started_at md;
          hw_started = hardware_fault_observed_at md;
          timed_out = (case started of None \<Rightarrow> False
                       | Some t \<Rightarrow> now - t \<ge> fault_collection_timeout_seconds (fm_config fm));
          (cands, keys, removed, unmapped) = correlate_hardware ins committed hw;
          engine_fault = (dead \<noteq> {} \<or> unhealthy \<noteq> {});
          all_unhealthy = (act \<noteq> {} \<and> dead = {} \<and> act \<subseteq> unhealthy);
          complete = (dead \<noteq> {} \<and> unhealthy \<noteq> {} \<and> act \<subseteq> dead \<union> unhealthy);
          hw_fault = (cands \<noteq> {} \<or> unmapped);
          hw_first = (hw_fault \<and> (case hw_started of None \<Rightarrow> False
                       | Some h \<Rightarrow> (case started of None \<Rightarrow> True | Some t \<Rightarrow> h < t)));
          window = hardware_ft_correlation_window_sec (fm_config fm);
          hw_dead = (cands \<noteq> {} \<and> cands \<subseteq> dead);
          timely_dead = timely hw_started window (software_dead_observed_at md);
          timely_unhealthy = timely hw_started window (software_unhealthy_observed_at md);
          hw_ft = (hw_first \<and> (all_unhealthy \<and> act \<subseteq> timely_unhealthy \<or>
                                complete \<and> hw_dead \<and> cands \<subseteq> timely_dead));
          hw_timed_out = (hw_first \<and> \<not> hw_ft \<and> (case hw_started of None \<Rightarrow> False | Some h \<Rightarrow> now - h \<ge> window))
      in \<lparr>sc_pending_removed_ranks = sorted_list_of_set dead,
          sc_source = (if hw_first then ''hardware'' else ''software''),
          sc_fallback_strategy = [],
          sc_fault_keys = sorted_list_of_set keys,
          all_dp_unhealthy = all_unhealthy,
          collection_complete = complete,
          collection_timed_out = timed_out,
          engine_fault_observed = engine_fault,
          all_dp_removed = (act \<noteq> {} \<and> act \<subseteq> dead),
          hardware_fault_observed = hw_fault,
          hardware_wait_timed_out = hw_timed_out,
          hardware_affected_ranks = sorted_list_of_set cands,
          hardware_ft_observed = hw_ft,
          already_removed_fault_keys = sorted_list_of_set removed,
          engine_recovery_eligible = (ins_status ins = ACTIVE),
          hardware_mapping_complete = (\<not> unmapped)\<rparr>)"

definition build_scale_down_context :: "pyfloat \<Rightarrow> int \<Rightarrow> ('r, 'w) FaultManager \<Rightarrow> ScaleDownContext" where
  "build_scale_down_context now i fm =
     (case (dict_get (fm_instances fm) i, collect_instance_faults i fm) of
        (Some md, Some snap) \<Rightarrow>
          (case snap_instance snap of
             None \<Rightarrow> default_context
           | Some ins \<Rightarrow> context_of now ins md snap (committed_dp_ranks (fm_store fm) i) fm)
      | _ \<Rightarrow> default_context)"

section \<open>Strategies of a level\<close>

definition level1_strategy :: "int \<Rightarrow> int \<Rightarrow> FtConfig \<Rightarrow> strategy_class option" where
  "level1_strategy code i cfg = None"

definition level2_strategy :: "int \<Rightarrow> int \<Rightarrow> FtConfig \<Rightarrow> strategy_class option" where
  "level2_strategy code i cfg =
     (if code \<in> {ENGINE_DEAD, ENGINE_UNHEALTHY}
      then if \<not> enable_engine_relaunch cfg then None else Some EngineRelaunchStrategy
      else if \<not> enable_token_reinference cfg then None
      else if code \<in> {0x00F1FEF5, 0x08520003} then Some TokenReinferenceStrategy else None)"

definition level3_strategy :: "int \<Rightarrow> int \<Rightarrow> FtConfig \<Rightarrow> strategy_class option" where
  "level3_strategy code i cfg = level1_strategy code i cfg"

definition level4_strategy :: "int \<Rightarrow> int \<Rightarrow> FtConfig \<Rightarrow> 'r InstanceManager \<Rightarrow> strategy_class option" where
  "level4_strategy code i cfg im =
     (if \<not> enable_scale_p2d cfg then None
      else case get_instance i im of
             None \<Rightarrow> None
           | Some ins \<Rightarrow> if ins_role ins = ''decode'' then Some ScaleP2DStrategy else None)"

definition level5_strategy :: "int \<Rightarrow> int \<Rightarrow> FtConfig \<Rightarrow> 'r InstanceManager \<Rightarrow> strategy_class option" where
  "level5_strategy code i cfg im = level4_strategy code i cfg im"

definition level6_strategy :: "int \<Rightarrow> int \<Rightarrow> FtConfig \<Rightarrow> 'r InstanceManager \<Rightarrow> strategy_class option" where
  "level6_strategy code i cfg im =
     (case get_instance i im of
        None \<Rightarrow> None
      | Some ins \<Rightarrow>
          (let suicide = (is_800i_a2 (hardware_type cfg) \<and> code \<in> A2_PD_ISOLATION_FAULT_CODES)
           in if ins_role ins \<in> {''prefill'', ''decode''} \<and> suicide then Some NmSuicideStrategy
              else if ins_role ins = ''decode'' then level4_strategy code i cfg im
              else if ins_role ins = ''union'' \<and> suicide \<and> instance_requires_a2_linkdown_l6 (Some ins)
              then Some NmSuicideStrategy else None))"

definition generate_strategy :: "FaultLevel \<Rightarrow> int \<Rightarrow> int \<Rightarrow> FtConfig \<Rightarrow> 'r InstanceManager \<Rightarrow> strategy_class option" where
  "generate_strategy l code i cfg im =
     (case l of
        HEALTHY \<Rightarrow> None
      | L1 \<Rightarrow> level1_strategy code i cfg
      | L2 \<Rightarrow> level2_strategy code i cfg
      | L3 \<Rightarrow> level3_strategy code i cfg
      | L4 \<Rightarrow> level4_strategy code i cfg im
      | L5 \<Rightarrow> level5_strategy code i cfg im
      | L6 \<Rightarrow> level6_strategy code i cfg im)"

section \<open>The plan of a round\<close>

datatype RecoverySource = RS_HARDWARE | RS_SOFTWARE

definition recovery_source :: "string \<Rightarrow> RecoverySource option" where
  "recovery_source s = (if s = ''hardware'' then Some RS_HARDWARE else if s = ''software'' then Some RS_SOFTWARE else None)"

definition source_value :: "RecoverySource \<Rightarrow> string" where
  "source_value s = (case s of RS_HARDWARE \<Rightarrow> ''hardware'' | RS_SOFTWARE \<Rightarrow> ''software'')"

record FastRecoveryContext =
  fast_level :: FaultLevel
  fast_code :: int
  fast_source :: string

datatype plan_context = Ctx_scale_down ScaleDownContext | Ctx_fast FastRecoveryContext

record RecoveryPlan =
  plan_source :: RecoverySource
  plan_strategy :: "strategy_class option"
  plan_context :: plan_context
  plan_fallback :: "strategy_class option"
  plan_evidence :: ScaleDownContext

definition is_applicable :: "int \<Rightarrow> FastRecoveryContext \<Rightarrow> FtConfig \<Rightarrow> bool" where
  "is_applicable i c cfg = False"

definition class_name :: "strategy_class \<Rightarrow> string" where
  "class_name c = (case c of
     DpScaleDownStrategy \<Rightarrow> ''DpScaleDownStrategy''
   | EngineFastRecoveryStrategy \<Rightarrow> ''EngineFastRecoveryStrategy''
   | EngineRelaunchStrategy \<Rightarrow> ''EngineRelaunchStrategy''
   | InstanceReconfigurationStrategy \<Rightarrow> ''InstanceReconfigurationStrategy''
   | NmSuicideStrategy \<Rightarrow> ''NmSuicideStrategy''
   | ScaleP2DStrategy \<Rightarrow> ''ScaleP2DStrategy''
   | TokenReinferenceStrategy \<Rightarrow> ''TokenReinferenceStrategy'')"

definition plan_choice ::
  "int \<Rightarrow> FtConfig \<Rightarrow> RecoverySource \<Rightarrow> ScaleDownContext \<Rightarrow> strategy_class option \<Rightarrow> FaultLevel \<Rightarrow> int
   \<Rightarrow> strategy_class option \<times> plan_context" where
  "plan_choice i cfg source ctx generated l code =
     (let fallback = InstanceReconfigurationStrategy;
          same = Ctx_scale_down ctx;
          generated_or_fallback = (case generated of Some c \<Rightarrow> Some c | None \<Rightarrow> Some fallback);
          on_timeout = (if collection_timed_out ctx then Some fallback else None)
      in if already_removed_fault_keys ctx \<noteq> [] \<and> \<not> (hardware_fault_observed ctx \<or> engine_fault_observed ctx) then (None, same)
         else if \<not> engine_recovery_eligible ctx
         then if \<not> engine_fault_observed ctx \<and> \<not> hardware_fault_observed ctx then (generated, same)
              else (generated_or_fallback, same)
         else if hardware_fault_observed ctx \<and> (\<not> hardware_mapping_complete ctx \<or> hardware_affected_ranks ctx = [])
         then (generated_or_fallback, same)
         else if source = RS_HARDWARE \<and> hardware_fault_observed ctx \<and> hardware_wait_timed_out ctx \<and> \<not> collection_complete ctx
         then (Some fallback, same)
         else if source = RS_HARDWARE \<and> hardware_fault_observed ctx \<and> \<not> hardware_ft_observed ctx \<and> \<not> collection_complete ctx
         then (None, same)
         else if all_dp_unhealthy ctx
         then (let fast = \<lparr>fast_level = l, fast_code = code, fast_source = source_value source\<rparr>
               in if is_applicable i fast cfg then (Some EngineFastRecoveryStrategy, Ctx_fast fast) else (on_timeout, same))
         else if all_dp_removed ctx \<and> source = RS_SOFTWARE \<and> engine_fault_observed ctx \<and> \<not> hardware_fault_observed ctx \<and>
                 generated = Some EngineRelaunchStrategy
         then (generated, same)
         else if all_dp_removed ctx then (Some fallback, same)
         else if collection_complete ctx
         then if cfg_enable_dp_scale_down cfg \<and> sc_pending_removed_ranks ctx \<noteq> []
              then (Some DpScaleDownStrategy, Ctx_scale_down (ctx\<lparr>sc_fallback_strategy := class_name fallback\<rparr>))
              else (Some fallback, same)
         else if engine_fault_observed ctx then (on_timeout, same)
         else if hardware_fault_observed ctx then (None, same)
         else if l \<le> L2 then (None, same)
         else (generated_or_fallback, same))"

definition build_recovery_plan ::
  "int \<Rightarrow> FtConfig \<Rightarrow> ScaleDownContext \<Rightarrow> strategy_class option \<Rightarrow> FaultLevel \<Rightarrow> int \<Rightarrow> py_error + RecoveryPlan" where
  "build_recovery_plan i cfg ctx generated l code =
     (case recovery_source (sc_source ctx) of
        None \<Rightarrow> Inl ValueError
      | Some source \<Rightarrow>
          (let (strat, c) = plan_choice i cfg source ctx generated l code
           in Inr \<lparr>plan_source = source, plan_strategy = strat, plan_context = c,
                   plan_fallback = Some InstanceReconfigurationStrategy, plan_evidence = ctx\<rparr>))"

section \<open>The strategy centre\<close>

definition is_superseded_instance :: "int \<Rightarrow> ('r, 'w) FaultManager \<Rightarrow> bool" where
  "is_superseded_instance i fm =
     (case get_instance i (fm_im fm) of
        None \<Rightarrow> False
      | Some ins \<Rightarrow>
          (case get_instance_by_job_name (job_name ins) (fm_im fm) of None \<Rightarrow> False | Some c \<Rightarrow> ins_id c \<noteq> i))"

text \<open>
  The metadata after a strategy has returned.
\<close>

definition complete_metadata :: "strategy_run \<Rightarrow> InstanceMetadata \<Rightarrow> InstanceMetadata" where
  "complete_metadata run md =
     (let md1 = (if strategy_preempted md then md\<lparr>strategy_preempted := False\<rparr>
                 else (let failed = run_failed run;
                           m1 = md\<lparr>prev_strategy_failed := failed, prev_strategy_name := Some (run_class run),
                                prev_strategy_fallback :=
                                  (case (failed, run_context run) of
                                     (True, Some c) \<Rightarrow> sc_fallback_strategy c
                                   | (True, None) \<Rightarrow> if run_class run = EngineFastRecoveryStrategy then recovery_plan_fallback md else []
                                   | (False, _) \<Rightarrow> [])\<rparr>;
                           m2 = (case run_context run of
                                   Some c \<Rightarrow> if \<not> failed \<and> run_class run \<noteq> ScaleP2DStrategy
                                             then m1\<lparr>handled_hardware_faults := handled_hardware_faults m1 \<union> set (sc_fault_keys c)\<rparr>
                                             else m1
                                 | None \<Rightarrow> m1)
                       in if failed then m2
                          else m2\<lparr>recovery_plan_source := [], recovery_plan_strategy := None, recovery_plan_fallback := []\<rparr>))
      in md1\<lparr>strategy := None, strategy_fault_level := HEALTHY\<rparr>)"

definition complete_finished_strategy ::
  "'r ctl_env \<Rightarrow> int \<Rightarrow> ('r, 'w) FaultManager \<Rightarrow> ('r, 'w) FaultManager \<times> bool" where
  "complete_finished_strategy env i fm =
     (case Option.bind (dict_get (fm_instances fm) i) (\<lambda>md. map_option (Pair md) (strategy md)) of
        None \<Rightarrow> (fm, False)
      | Some (md, run) \<Rightarrow>
          if \<not> run_finished run then (fm, False)
          else (let fm1 = modify_metadata i (complete_metadata run) fm;
                    fm2 = (if \<not> strategy_preempted md \<and> \<not> run_failed run then clear_software_faults i fm1 else fm1)
                in (refresh_instance_fault_level env i (fm_persist fm2), True)))"

text \<open>
  The strategy of a round and the context it is bound to; the flag asks to wait for the engines.
\<close>

definition choose_strategy ::
  "int \<Rightarrow> bool \<Rightarrow> ScaleDownContext \<Rightarrow> InstanceMetadata \<Rightarrow> ('r, 'w) FaultManager
   \<Rightarrow> py_error + strategy_class option \<times> plan_context \<times> bool" where
  "choose_strategy i superseded ctx md fm =
     (let cfg = fm_config fm; l = md_fault_level md; code = md_fault_code md;
          generated = generate_strategy l code i cfg (fm_im fm);
          same = Ctx_scale_down ctx;
          left_reconfiguring = (cfg_enable_dp_scale_up cfg \<and> prev_strategy_name md = Some DpScaleDownStrategy \<and>
            (case rt_get i (fm_store fm) of None \<Rightarrow> False | Some rt \<Rightarrow> phase rt = PH_RECONFIGURING))
      in if superseded
         then Inr (if l \<ge> L4 \<and> generated = Some ScaleP2DStrategy then Some ScaleP2DStrategy else None, same, False)
         else if prev_strategy_failed md \<and> (l \<noteq> HEALTHY \<or> left_reconfiguring)
         then Inr (if prev_strategy_name md = Some InstanceReconfigurationStrategy
                   then if l \<ge> L4 \<and> hardware_fault_observed ctx then generated else None
                   else if prev_strategy_name md \<in>
                        {Some DpScaleDownStrategy, Some EngineFastRecoveryStrategy, Some EngineRelaunchStrategy}
                   then Some InstanceReconfigurationStrategy
                   else if enable_engine_relaunch cfg then Some EngineRelaunchStrategy else None, same, False)
         else if l \<noteq> HEALTHY
         then (case build_recovery_plan i cfg ctx generated l code of
                 Inl e \<Rightarrow> Inl e
               | Inr plan \<Rightarrow> Inr (plan_strategy plan, plan_context plan,
                                   plan_strategy plan = None \<and> engine_fault_observed (plan_evidence plan)))
         else Inr (None, same, False))"

definition scale_down_context_of :: "plan_context \<Rightarrow> ScaleDownContext option" where
  "scale_down_context_of c = (case c of Ctx_scale_down s \<Rightarrow> Some s | Ctx_fast f \<Rightarrow> None)"

definition start_strategy ::
  "int \<Rightarrow> strategy_class \<Rightarrow> plan_context \<Rightarrow> ScaleDownContext \<Rightarrow> ('r, 'w) FaultManager \<Rightarrow> ('r, 'w) FaultManager" where
  "start_strategy i cls c ctx fm =
     fm_persist (modify_metadata i (\<lambda>md.
       let md1 = md\<lparr>strategy := Some \<lparr>run_class = cls, run_finished = False, run_failed = False,
                                      run_context = scale_down_context_of c\<rparr>,
                    strategy_fault_level := md_fault_level md\<rparr>
       in if prev_strategy_failed md then md1
          else md1\<lparr>recovery_plan_source := sc_source ctx, recovery_plan_strategy := Some cls,
                   recovery_plan_fallback := class_name InstanceReconfigurationStrategy\<rparr>) fm)"

definition plan_round ::
  "int \<Rightarrow> bool \<Rightarrow> ScaleDownContext \<Rightarrow> (string, string) dict option \<Rightarrow> InstanceMetadata \<Rightarrow> ('r, 'w) FaultManager
   \<Rightarrow> ('r, 'w) FaultManager \<times> (py_error + unit)" where
  "plan_round i superseded ctx pending md fm =
     (if strategy md \<noteq> None then (fm, Inr ())
      else if (case rt_get i (fm_store fm) of None \<Rightarrow> False | Some rt \<Rightarrow> phase rt = PH_WARMING_UP) then (fm, Inr ())
      else case choose_strategy i superseded ctx md fm of
             Inl e \<Rightarrow> (fm, Inl e)
           | Inr (cls, c, waiting) \<Rightarrow>
               (let fm1 = (if waiting
                           then fm\<lparr>fm_store := fst (transition i [Ch_phase PH_WAITING_ENGINE_FAULT] (fm_store fm))\<rparr> else fm)
                in case cls of
                     None \<Rightarrow> (fm1, Inr ())
                   | Some k \<Rightarrow> if k = ScaleP2DStrategy \<and> pending = Some [] then (fm1, Inr ())
                               else (start_strategy i k c ctx fm1, Inr ())))"

text \<open>
  The fault has gone while the instance waits for its engines: it serves again.
\<close>

definition resume_waiting :: "('r, 'w) ft_env \<Rightarrow> int set \<Rightarrow> int \<Rightarrow> ('r, 'w) FaultManager \<Rightarrow> ('r, 'w) FaultManager" where
  "resume_waiting env held i fm =
     (let (st, restored) = resume_after_fault_clear i (fm_store fm);
          fm1 = fm\<lparr>fm_store := st\<rparr>
      in case (restored, get_instance i (fm_im fm)) of
           (Some rt, Some ins) \<Rightarrow>
             (let (w, ok) = publish (send_refresh env) held st ins (fm_world fm)
              in fm1\<lparr>fm_world := w, fm_store := (if ok then mark_serving_published [i] st else st)\<rparr>)
         | _ \<Rightarrow> fm1)"

definition process_instance_strategy ::
  "('r, 'w) ft_env \<Rightarrow> pyfloat \<Rightarrow> int set \<Rightarrow> int \<Rightarrow> ('r, 'w) FaultManager \<Rightarrow> ('r, 'w) FaultManager \<times> (py_error + unit)" where
  "process_instance_strategy env now held i fm =
     (case dict_get (fm_instances fm) i of
        None \<Rightarrow> (fm, Inr ())
      | Some md \<Rightarrow>
          (case complete_finished_strategy (ctl env) i fm of
             (fm', True) \<Rightarrow> (fm', Inr ())
           | (_, False) \<Rightarrow>
               (let superseded = is_superseded_instance i fm;
                    has_fault = (md_fault_level md \<noteq> HEALTHY);
                    pending = (if has_fault then get_pending_scale_p2d_nodes i None fm else None);
                    ctx = (if has_fault \<and> \<not> superseded then build_scale_down_context now i fm else default_context);
                    handled = (\<lambda>m. m\<lparr>handled_hardware_faults := handled_hardware_faults m \<union> set (already_removed_fault_keys ctx)\<rparr>);
                    fm1 = modify_metadata i handled fm
                in if already_removed_fault_keys ctx \<noteq> [] \<and> \<not> (hardware_fault_observed ctx \<or> engine_fault_observed ctx)
                   then (refresh_instance_fault_level (ctl env) i fm1, Inr ())
                   else if \<not> has_fault \<and> \<not> superseded \<and>
                           (case rt_get i (fm_store fm) of None \<Rightarrow> False | Some rt \<Rightarrow> phase rt = PH_WAITING_ENGINE_FAULT)
                   then (resume_waiting env held i fm1, Inr ())
                   else plan_round i superseded ctx pending (handled md) fm1)))"

text \<open>
  One sweep of \<open>_ft_strategy_center\<close> over the tracked instances.
\<close>

fun strategy_sweep ::
  "('r, 'w) ft_env \<Rightarrow> pyfloat \<Rightarrow> int set \<Rightarrow> int list \<Rightarrow> ('r, 'w) FaultManager \<Rightarrow> ('r, 'w) FaultManager \<times> (py_error + unit)" where
  "strategy_sweep env now held [] fm = (fm, Inr ())"
| "strategy_sweep env now held (i # is) fm =
     (case process_instance_strategy env now held i fm of
        (fm', Inl e) \<Rightarrow> (fm', Inl e)
      | (fm', Inr u) \<Rightarrow> strategy_sweep env now held is fm')"

definition ft_strategy_center ::
  "('r, 'w) ft_env \<Rightarrow> pyfloat \<Rightarrow> int set \<Rightarrow> ('r, 'w) FaultManager \<Rightarrow> ('r, 'w) FaultManager \<times> (py_error + unit)" where
  "ft_strategy_center env now held fm = strategy_sweep env now held (dict_keys (fm_instances fm)) fm"

section \<open>Recovery by the user\<close>

text \<open>
  The answer for one instance: its action with the ranks it reports.
\<close>

datatype user_result =
    Reconfigure int "int list"
  | Kill_problem_pod_workers int int "int list" "int list"
  | Scale_up int "int list"
  | Submitted int strategy_class "int list"

definition recovery_round_busy :: "int \<Rightarrow> ('r, 'w) FaultManager \<Rightarrow> bool" where
  "recovery_round_busy i fm \<longleftrightarrow>
     (case Option.bind (dict_get (fm_instances fm) i) strategy of None \<Rightarrow> False | Some run \<Rightarrow> \<not> run_finished run) \<or>
     (case dict_get (problem_pod_recover_futures fm) i of None \<Rightarrow> False | Some finished \<Rightarrow> \<not> finished)"

definition user_round :: "strategy_class \<Rightarrow> ScaleDownContext option \<Rightarrow> InstanceMetadata \<Rightarrow> InstanceMetadata" where
  "user_round cls ctx md =
     md\<lparr>strategy := Some \<lparr>run_class = cls, run_finished = False, run_failed = False, run_context = ctx\<rparr>,
        strategy_fault_level := L2, prev_strategy_failed := False, recovery_plan_source := ''user'',
        recovery_plan_strategy := Some cls, recovery_plan_fallback := class_name InstanceReconfigurationStrategy\<rparr>"

definition submit_user_strategy ::
  "int \<Rightarrow> strategy_class \<Rightarrow> ScaleDownContext option \<Rightarrow> ('r, 'w) FaultManager \<Rightarrow> ('r, 'w) FaultManager \<times> (py_error + unit)" where
  "submit_user_strategy i cls ctx fm =
     (if recovery_round_busy i fm then (fm, Inl RuntimeError)
      else (modify_metadata i (user_round cls ctx) fm, Inr ()))"

text \<open>
  The worker that kills the problem pods is a future of its own and leaves the strategy slot free.
\<close>

definition try_kill_problem_pod_workers ::
  "int \<Rightarrow> int list \<Rightarrow> int set \<Rightarrow> int \<Rightarrow> int list \<Rightarrow> ('r, 'w) FaultManager \<Rightarrow> ('r, 'w) FaultManager \<times> user_result option" where
  "try_kill_problem_pod_workers i original expanded target to_remove fm =
     (if recovery_round_busy i fm then (fm, None)
      else (fm\<lparr>problem_pod_recover_futures := dict_set i False (problem_pod_recover_futures fm),
               fm_store := fst (transition i [Ch_original_dp_ranks original,
                  Ch_pending_removed_ranks (sorted_list_of_set expanded), Ch_last_error None] (fm_store fm))\<rparr>,
            Some (Kill_problem_pod_workers i target (sorted_list_of_set expanded) to_remove)))"

text \<open>
  The slot is taken before the recyclable pods are computed, which may raise; only what follows is
  inside the \<open>try\<close>.
\<close>

definition accept_empty_shell_scale_up ::
  "int \<Rightarrow> Instance \<Rightarrow> int list \<Rightarrow> int list \<Rightarrow> ('r, 'w) FaultManager
   \<Rightarrow> ('r, 'w) FaultManager \<times> (py_error + user_result option)" where
  "accept_empty_shell_scale_up i ins original dead fm =
     (if recovery_round_busy i fm then (fm, Inr None)
      else (let fm1 = modify_metadata i (user_round DpScaleDownStrategy None) fm
            in case recyclable_pods ins (set dead) of
                 Inl e \<Rightarrow> (fm1, Inl e)
               | Inr pods \<Rightarrow>
                   (fm1\<lparr>fm_store := fst (transition i [Ch_phase PH_SCALED_DOWN_RUNNING] (fm_store fm1))\<rparr>,
                    Inr (Some (Scale_up i original)))))"

text \<open>
  An instance that has scaled down.
\<close>

definition recover_shrunk ::
  "int \<Rightarrow> Instance \<Rightarrow> int list \<Rightarrow> int list \<Rightarrow> ('r, 'w) FaultManager
   \<Rightarrow> ('r, 'w) FaultManager \<times> (py_error + user_result option)" where
  "recover_shrunk i ins dead stored fm =
     (let original = (if stored \<noteq> [] then stored
            else case topo_original_dp_ranks ins of
                   Inr rks \<Rightarrow> rks
                 | Inl e \<Rightarrow> sorted_list_of_set (set (map ep_id (snd (get_all_endpoints False ins)))));
          expanded = (case expand_problem_pod_ranks ins (set dead) of Inr rks \<Rightarrow> rks | Inl e \<Rightarrow> set dead);
          to_remove = sorted_list_of_set (expanded - set dead)
      in if to_remove = [] then accept_empty_shell_scale_up i ins original dead fm
         else case elastic_pod_cut_target_dp (set original) expanded of
                None \<Rightarrow>
                  (case submit_user_strategy i InstanceReconfigurationStrategy None fm of
                     (fm1, Inl e) \<Rightarrow> (fm1, Inr None)
                   | (fm1, Inr u) \<Rightarrow> (fm1, Inr (Some (Reconfigure i (sorted_list_of_set expanded)))))
              | Some target \<Rightarrow>
                  (let (fm1, r) = try_kill_problem_pod_workers i original expanded target to_remove fm in (fm1, Inr r)))"

definition user_context :: "int set \<Rightarrow> ScaleDownContext \<Rightarrow> ScaleDownContext" where
  "user_context rks ctx =
     default_context\<lparr>sc_pending_removed_ranks := sorted_list_of_set rks, sc_source := ''user'',
       sc_fallback_strategy := class_name InstanceReconfigurationStrategy, sc_fault_keys := sc_fault_keys ctx,
       collection_complete := True, engine_fault_observed := True,
       hardware_fault_observed := hardware_fault_observed ctx\<rparr>"

text \<open>
  An instance that has not: \<open>None\<close> for the outer option when it is left alone.
\<close>

definition recover_faulted ::
  "pyfloat \<Rightarrow> int \<Rightarrow> InstanceMetadata \<Rightarrow> ('r, 'w) FaultManager \<Rightarrow> ('r, 'w) FaultManager \<times> user_result option option" where
  "recover_faulted now i md fm =
     (let ctx = build_scale_down_context now i fm;
          rks = set (sc_pending_removed_ranks ctx)
      in if md_fault_level md = HEALTHY \<and> rks = {} \<and> \<not> engine_fault_observed ctx \<and> \<not> hardware_fault_observed ctx
         then (fm, None)
         else case get_instance i (fm_im fm) of
                None \<Rightarrow> (fm, None)
              | Some ins \<Rightarrow>
                  if rks = {} then (fm, None)
                  else (let (cls, c) = (if can_stop_all_problem_pods ins rks
                                        then (DpScaleDownStrategy, Some (user_context rks ctx))
                                        else (InstanceReconfigurationStrategy, None))
                        in case submit_user_strategy i cls c fm of
                             (fm1, Inl e) \<Rightarrow> (fm1, Some None)
                           | (fm1, Inr u) \<Rightarrow> (fm1, Some (Some (Submitted i cls (sorted_list_of_set rks))))))"

text \<open>
  One instance of the loop: nothing, in progress (\<open>Some None\<close>) or a result.
\<close>

definition recover_one ::
  "pyfloat \<Rightarrow> int \<Rightarrow> ('r, 'w) FaultManager \<Rightarrow> ('r, 'w) FaultManager \<times> (py_error + user_result option option)" where
  "recover_one now i fm =
     (let rt = rt_get i (fm_store fm);
          dead = (case rt of None \<Rightarrow> [] | Some r \<Rightarrow> dead_committed r);
          stored = (case rt of None \<Rightarrow> [] | Some r \<Rightarrow> original_dp_ranks r)
      in case dict_get (fm_instances fm) i of
           None \<Rightarrow> (fm, Inr None)
         | Some md \<Rightarrow>
             if (case rt of None \<Rightarrow> False | Some r \<Rightarrow> phase r \<in> {PH_SCALED_DOWN_RUNNING, PH_WARMING_UP}) \<or> dead \<noteq> []
             then (case get_instance i (fm_im fm) of
                     None \<Rightarrow> (fm, Inr None)
                   | Some ins \<Rightarrow>
                       (case recover_shrunk i ins dead stored fm of
                          (fm1, Inl e) \<Rightarrow> (fm1, Inl e)
                        | (fm1, Inr r) \<Rightarrow> (fm1, Inr (Some r))))
             else (let (fm1, r) = recover_faulted now i md fm in (fm1, Inr r)))"

fun recover_all ::
  "pyfloat \<Rightarrow> int list \<Rightarrow> user_result list \<Rightarrow> nat \<Rightarrow> ('r, 'w) FaultManager
   \<Rightarrow> ('r, 'w) FaultManager \<times> (py_error + user_result list \<times> nat)" where
  "recover_all now [] rs busy fm = (fm, Inr (rs, busy))"
| "recover_all now (i # is) rs busy fm =
     (case recover_one now i fm of
        (fm1, Inl e) \<Rightarrow> (fm1, Inl e)
      | (fm1, Inr None) \<Rightarrow> recover_all now is rs busy fm1
      | (fm1, Inr (Some None)) \<Rightarrow> recover_all now is rs (busy + 1) fm1
      | (fm1, Inr (Some (Some r))) \<Rightarrow> recover_all now is (rs @ [r]) busy fm1)"

definition start_user_recovery ::
  "pyfloat \<Rightarrow> ('r, 'w) FaultManager \<Rightarrow> ('r, 'w) FaultManager \<times> (py_error + user_result list)" where
  "start_user_recovery now fm =
     (case recover_all now (dict_keys (fm_instances fm)) [] 0 fm of
        (fm1, Inl e) \<Rightarrow> (fm1, Inl e)
      | (fm1, Inr (rs, busy)) \<Rightarrow>
          (fm1, if rs \<noteq> [] then Inr rs else if busy > 0 then Inl RuntimeError else Inl LookupError))"

text \<open>
  The handlers and the end of a strategy's thread as steps.
\<close>

datatype ('r, 'w) fm_op =
    Op_faults "('r, 'w) ft_env" pyfloat string "FaultInfo list" string
  | Op_node "('r, 'w) ft_env" string NodeStatus string
  | Op_report "('r, 'w) ft_env" pyfloat FaultInfo string "int option" string
  | Op_observe "('r, 'w) ft_env" "string \<Rightarrow> string option" string Instance ObserverEvent
  | Op_sweep "('r, 'w) ft_env" pyfloat "int set"
  | Op_user pyfloat
  | Op_handled string "(string, string) dict"
  | Op_finish int bool

definition finish_run :: "bool \<Rightarrow> InstanceMetadata \<Rightarrow> InstanceMetadata" where
  "finish_run failed md = md\<lparr>strategy := map_option (\<lambda>run. run\<lparr>run_finished := True, run_failed := failed\<rparr>) (strategy md)\<rparr>"

fun fm_step :: "('r, 'w) FaultManager \<Rightarrow> ('r, 'w) fm_op \<Rightarrow> ('r, 'w) FaultManager" where
  "fm_step fm (Op_faults env now tok fs name) = handle_fault_info_update env now tok fs name fm"
| "fm_step fm (Op_node env tok status name) = handle_node_status_update env tok status name fm"
| "fm_step fm (Op_report env now f ip given port) = fst (report_software_fault env now f ip given port fm)"
| "fm_step fm (Op_observe env resolve tok ins event) = fst (fm_update env resolve tok ins event fm)"
| "fm_step fm (Op_sweep env now held) = fst (ft_strategy_center env now held fm)"
| "fm_step fm (Op_user now) = fst (start_user_recovery now fm)"
| "fm_step fm (Op_handled job gens) = mark_scale_p2d_nodes_handled job gens fm"
| "fm_step fm (Op_finish i failed) = modify_metadata i (finish_run failed) fm"

text \<open>
  What decides the next round of an instance.
\<close>

definition round_of :: "InstanceMetadata \<Rightarrow> strategy_run option \<times> bool \<times> strategy_class option" where
  "round_of md = (strategy md, prev_strategy_failed md, prev_strategy_name md)"

definition round_info :: "int \<Rightarrow> ('r, 'w) FaultManager \<Rightarrow> (strategy_run option \<times> bool \<times> strategy_class option) option" where
  "round_info i fm = map_option round_of (dict_get (fm_instances fm) i)"

definition running :: "int \<Rightarrow> strategy_run \<Rightarrow> ('r, 'w) FaultManager \<Rightarrow> bool" where
  "running i run fm \<longleftrightarrow> \<not> run_finished run \<and> map_option strategy (dict_get (fm_instances fm) i) = Some (Some run)"

fun ends_round :: "int \<Rightarrow> ('r, 'w) fm_op \<Rightarrow> bool" where
  "ends_round i (Op_finish j failed) \<longleftrightarrow> j = i"
| "ends_round i (Op_observe env resolve tok ins event) \<longleftrightarrow> event = OBS_REMOVED \<and> ins_id ins = i"
| "ends_round i op \<longleftrightarrow> False"

definition live_ranks :: "int \<Rightarrow> Instance \<Rightarrow> ('r, 'w) FaultManager \<Rightarrow> int set" where
  "live_ranks i ins fm = ep_id ` set (snd (get_all_endpoints False ins)) - committed_dp_ranks (fm_store fm) i"

definition reported :: "int \<Rightarrow> int \<Rightarrow> ('r, 'w) FaultManager \<Rightarrow> int set" where
  "reported st i fm = (case collect_instance_faults i fm of None \<Rightarrow> {} | Some snap \<Rightarrow> engine_ranks (snap_software snap) st)"

text \<open>
  A round without an earlier failure: the call of \<open>_process_instance_strategy\<close> comes down to the plan.
\<close>

definition fresh_round :: "int \<Rightarrow> InstanceMetadata \<Rightarrow> Instance \<Rightarrow> ('r, 'w) FaultManager \<Rightarrow> bool" where
  "fresh_round i md ins fm \<longleftrightarrow> dict_get (fm_instances fm) i = Some md \<and> get_instance i (fm_im fm) = Some ins \<and>
     strategy md = None \<and> \<not> prev_strategy_failed md \<and> md_fault_level md \<noteq> HEALTHY \<and> \<not> is_superseded_instance i fm \<and>
     (\<forall>rt. rt_get i (fm_store fm) = Some rt \<longrightarrow> phase rt \<noteq> PH_WARMING_UP)"

fun settles_round :: "int \<Rightarrow> ('r, 'w) fm_op \<Rightarrow> bool" where
  "settles_round i (Op_user now) \<longleftrightarrow> True"
| "settles_round i (Op_sweep env now held) \<longleftrightarrow> True"
| "settles_round i op \<longleftrightarrow> ends_round i op"

text \<open>
  Reports of the engines of instance 7: rank 0 is dead, ranks 1 and 2 are unhealthy, in a round that
  began at time 10.
\<close>

definition demo_reports :: InstanceMetadata where
  "demo_reports = (new_metadata 7 True)\<lparr>md_fault_level := L2, md_fault_code := ENGINE_DEAD, fault_collection_started_at := Some 10,
     md_software_fault_infos := [(''a'', demo_engine_fault 0 1), (''b'', demo_engine_fault 1 2), (''c'', demo_engine_fault 2 2)]\<rparr>"

definition demo_planning :: "(Instance, nat) FaultManager" where
  "demo_planning = demo_fault_manager demo_ft_config (demo_nodes []) demo_reports empty_store"

definition demo_run :: strategy_run where
  "demo_run = \<lparr>run_class = TokenReinferenceStrategy, run_finished = False, run_failed = False, run_context = None\<rparr>"

definition demo_reinfer :: InstanceMetadata where
  "demo_reinfer = (new_metadata 7 True)\<lparr>md_fault_level := L2, md_fault_code := 0x00F1FEF5\<rparr>"

definition demo_reinferring :: "(Instance, nat) FaultManager" where
  "demo_reinferring = demo_fault_manager demo_ft_config (demo_nodes []) demo_reinfer empty_store"

text \<open>
  Instance 7 after it has lost the endpoint of rank 2.
\<close>

definition demo_shrunk :: Instance where
  "demo_shrunk = demo_dp_instance\<lparr>endpoints := [(''10.0.0.1'', [(0, demo_endpoint 0 EP_NORMAL), (1, demo_endpoint 1 EP_NORMAL)])]\<rparr>"

definition demo_leaking :: "(Instance, nat) FaultManager" where
  "demo_leaking = (demo_fault_manager demo_ft_config (demo_nodes []) (new_metadata 7 True) demo_scaled_down)
     \<lparr>fm_im := (demo_manager ACTIVE)\<lparr>instances := [(7, demo_shrunk)]\<rparr>\<rparr>"

definition demo_failed :: InstanceMetadata where
  "demo_failed = (new_metadata 7 True)\<lparr>prev_strategy_failed := True, prev_strategy_name := Some InstanceReconfigurationStrategy\<rparr>"

definition demo_failing :: "(Instance, nat) FaultManager" where
  "demo_failing = demo_fault_manager demo_ft_config (demo_nodes []) demo_failed empty_store"

definition demo_report :: "(Instance, nat) fm_op" where
  "demo_report = Op_report demo_ft_env 20 (demo_engine_fault 0 1) ''10.0.0.1'' None ''90''"

section \<open>Steps of the fault manager\<close>

lemma round_modify [simp]: "(\<And>m. round_of (f m) = round_of m) \<Longrightarrow> round_info j (modify_metadata i f fm) = round_info j fm"
  by (simp add: round_info_def option.map_comp o_def)

lemma round_replace:
  "dict_get (fm_instances fm) i = Some md \<Longrightarrow> round_of m = round_of md \<Longrightarrow> round_info j (modify_metadata i (\<lambda>_. m) fm) = round_info j fm"
  by (simp add: round_info_def)

lemma round_cong: "fm_instances fm' = fm_instances fm \<Longrightarrow> round_info i fm' = round_info i fm"
  by (simp add: round_info_def)

lemma round_info_frame [simp]:
  "round_info i (fm\<lparr>fm_im := im\<rparr>) = round_info i fm" "round_info i (fm\<lparr>fm_store := st\<rparr>) = round_info i fm" "round_info i (fm\<lparr>fm_world := w\<rparr>) = round_info i fm"
  "round_info i (fm\<lparr>fm_nodes := ns\<rparr>) = round_info i fm" "round_info i (fm\<lparr>resource_monitors := ms\<rparr>) = round_info i fm"
  "round_info i (fm\<lparr>problem_pod_recover_futures := fs\<rparr>) = round_info i fm" "round_info i (fm_persist fm) = round_info i fm"
  "round_info i (reevaluate_nodes names fm) = round_info i fm" "round_info i (modify_node name g fm) = round_info i fm"
  "round_info i (map_nodes h fm) = round_info i fm" "round_info i (create_resource_monitor name fm) = round_info i fm"
  by (simp_all add: round_info_def modify_node_def map_nodes_def create_resource_monitor_def)

lemma round_apply:
  "(\<And>fm. round_info j (again fm) = round_info j fm) \<Longrightarrow> round_info j (apply_level again env i t candidate fm) = round_info j fm"
  by (simp add: apply_level_def Let_def)

lemma round_settle:
  "(\<And>fm. round_info j (again fm) = round_info j fm) \<Longrightarrow> round_info j (settle_level again env i candidate t fm) = round_info j fm"
  by (simp add: settle_level_def Let_def round_apply round_of_def clear_collection_def split: option.split)

lemma round_refresh_with:
  assumes "\<And>fm. round_info j (again fm) = round_info j fm"
  shows "round_info j (refresh_with again env i fm) = round_info j fm"
proof (cases "dict_get (fm_instances fm) i")
  case (Some md)
  show ?thesis
  proof (cases "recovery_ready md \<or> list_ex (\<lambda>f. engine_status f = Some 1) (dict_values (md_software_fault_infos md))")
    case True
    obtain snap where "collect_instance_faults i fm = Some snap" using Some by (simp add: collect_instance_faults_def Let_def)
    then show ?thesis using Some True
      by (auto simp: refresh_with_def Let_def round_settle[OF assms] round_replace[OF Some] round_of_def)
  next
    case False
    then show ?thesis using Some by (simp add: refresh_with_def split: option.split)
  qed
qed (simp add: refresh_with_def)

lemma round_refresh [simp]: "round_info j (refresh_instance_fault_level env i fm) = round_info j fm"
  by (simp add: refresh_instance_fault_level_def round_refresh_with)

lemma round_foldl: "(\<And>fm x. round_info j (g fm x) = round_info j fm) \<Longrightarrow> round_info j (foldl g fm xs) = round_info j fm"
  by (induction xs arbitrary: fm) simp_all

lemma round_record [simp]: "round_info j (record_hardware_fault_event now i keys fm) = round_info j fm"
  by (simp add: record_hardware_fault_event_def round_of_def split: option.split)

lemma round_handlers [simp]:
  "round_info j (handle_fault_info_update env now tok fs name fm) = round_info j fm"
  "round_info j (handle_node_status_update env tok status name fm) = round_info j fm"
  "round_info j (mark_instance_recovery_ready c i fm) = round_info j fm" "round_info j (clear_software_faults i fm) = round_info j fm"
  "round_info j (mark_scale_p2d_nodes_handled job gens fm) = round_info j fm"
  by (simp_all add: handle_fault_info_update_def handle_node_status_update_def mark_instance_recovery_ready_def
      clear_software_faults_def mark_scale_p2d_nodes_handled_def Let_def case_prod_unfold round_foldl round_of_def
      clear_collection_def split: option.split)

lemma round_report [simp]: "round_info j (fst (report_software_fault env now f ip given port fm)) = round_info j fm"
  by (simp add: report_software_fault_def Let_def case_prod_unfold round_of_def store_software_fault_def observe_engine_def
      split: option.split)

lemma round_superseded [simp]: "round_info j (remove_superseded_ft_runtimes ins fm) = round_info j fm"
  by (simp add: remove_superseded_ft_runtimes_def Let_def)

lemma round_ensure [simp]: "round_info j (ensure_node tok known i job fm pod) = round_info j fm"
  by (simp add: ensure_node_def case_prod_unfold)

lemma round_detach [simp]: "round_info j (detach_node i fm name) = round_info j fm"
  by (simp add: detach_node_def round_info_def modify_node_def split: option.split)

lemma round_swap: "round_info j (fst (swap_node_ownership ord i job fs gs fm)) = round_info j fm"
  proof (induction fs arbitrary: gs fm)
  case (Cons f fs)
  then show ?case by (cases gs) (auto simp: Let_def split: option.split list.split)
qed simp

lemma round_sync:
  assumes "in_dict j (fm_instances fm)"
  shows "round_info j (fst (sync_instance_nodes ord resolve tok ins fm)) = round_info j fm"
proof (cases "in_dict (ins_id ins) (fm_instances fm)")
  case True
  then show ?thesis by (simp add: sync_instance_nodes_def sync_existing_instance_nodes_def Let_def round_foldl)
next
  case False
  then have "j \<noteq> ins_id ins" using assms by blast
  let ?fm1 = "fm\<lparr>fm_instances := dict_set (ins_id ins) (new_metadata (ins_id ins) False) (fm_instances fm)\<rparr>"
  have "round_info j ?fm1 = round_info j fm" using \<open>j \<noteq> ins_id ins\<close> by (simp add: round_info_def)
  moreover obtain fm2 r where "swap_node_ownership ord (ins_id ins) (job_name ins)
      (foreign_nodes (job_name ins) (build_node_name_mapping resolve (node_managers ins)) ?fm1)
      (orphaned_nodes (job_name ins) (build_node_name_mapping resolve (node_managers ins)) ?fm1) ?fm1 = (fm2, r)" by fastforce
  moreover from this have "round_info j fm2 = round_info j ?fm1" by (metis fst_conv round_swap)
  ultimately show ?thesis using False
    by (simp add: sync_instance_nodes_def add_new_instance_with_nodes_def Let_def round_foldl split: sum.split)
qed

lemma round_pop: "k \<noteq> j \<Longrightarrow> round_info j (fm\<lparr>fm_instances := dict_pop k (fm_instances fm)\<rparr>) = round_info j fm"
  by (simp add: round_info_def)

lemma round_update:
  assumes "in_dict j (fm_instances fm)" "event = OBS_REMOVED \<longrightarrow> ins_id ins \<noteq> j"
  shows "round_info j (fst (fm_update env resolve tok ins event fm)) = round_info j fm"
  using assms round_sync[OF assms(1)] by (cases event) (simp_all add: fm_update_def round_pop)

lemma round_other: "i \<noteq> j \<Longrightarrow> round_info i (modify_metadata j f fm) = round_info i fm"
  by (simp add: round_info_def)

lemma round_resume [simp]: "round_info i (resume_waiting env held j fm) = round_info i fm"
  by (simp add: resume_waiting_def Let_def case_prod_unfold split: option.split)

lemma complete_other: "i \<noteq> j \<Longrightarrow> round_info i (fst (complete_finished_strategy c j fm)) = round_info i fm"
  by (simp add: complete_finished_strategy_def Let_def round_other split: option.split)

lemma complete_running: "running i run fm \<Longrightarrow> complete_finished_strategy c i fm = (fm, False)"
  by (auto simp: complete_finished_strategy_def running_def)

lemma plan_round_other: "i \<noteq> j \<Longrightarrow> round_info i (fst (plan_round j superseded ctx pending md fm)) = round_info i fm"
  by (simp add: plan_round_def start_strategy_def Let_def round_other case_prod_unfold split: sum.split option.split)

lemma process_other:
  assumes "i \<noteq> j" shows "round_info i (fst (process_instance_strategy env now held j fm)) = round_info i fm"
  using complete_other[OF assms, of "ctl env" fm]
  by (auto simp: process_instance_strategy_def Let_def plan_round_other[OF assms] round_other[OF assms] split: option.split prod.split bool.split)

lemma process_running:
  assumes r: "running i run fm" shows "round_info i (fst (process_instance_strategy env now held j fm)) = round_info i fm"
proof (cases "j = i")
  case True
  obtain md where "dict_get (fm_instances fm) i = Some md" "strategy md = Some run" using r by (auto simp: running_def)
  then show ?thesis using True complete_running[OF r]
    by (simp add: process_instance_strategy_def Let_def plan_round_def round_of_def)
qed (simp add: process_other)

lemma running_round: "round_info i fm' = round_info i fm \<Longrightarrow> running i run fm' = running i run fm"
  by (cases "dict_get (fm_instances fm) i"; cases "dict_get (fm_instances fm') i") (auto simp: running_def round_info_def round_of_def)

lemma sweep_running: "running i run fm \<Longrightarrow> round_info i (fst (strategy_sweep env now held is fm)) = round_info i fm"
proof (induction "is" arbitrary: fm)
  case (Cons j js)
  obtain fm' r where p: "process_instance_strategy env now held j fm = (fm', r)" by fastforce
  then have "round_info i fm' = round_info i fm" using process_running[OF Cons.prems, of env now held j] by simp
  moreover from this have "running i run fm'" using Cons.prems running_round by blast
  ultimately show ?case using Cons.IH[of fm'] p by (simp split: sum.split)
qed simp

lemma busy_running: "running i run fm \<Longrightarrow> recovery_round_busy i fm"
  by (auto simp: recovery_round_busy_def running_def)

lemma submit_other: "i \<noteq> j \<Longrightarrow> round_info i (fst (submit_user_strategy j cls c fm)) = round_info i fm"
  by (simp add: submit_user_strategy_def round_other)

lemma recover_shrunk_other:
  "i \<noteq> j \<Longrightarrow> round_info i (fst (recover_shrunk j ins dead stored fm)) = round_info i fm"
  by (simp add: recover_shrunk_def accept_empty_shell_scale_up_def try_kill_problem_pod_workers_def submit_user_strategy_def
      Let_def case_prod_unfold round_other split: option.split sum.split)

lemma recover_shrunk_busy:
  "recovery_round_busy i fm \<Longrightarrow> fst (recover_shrunk i ins dead stored fm) = fm"
  by (simp add: recover_shrunk_def accept_empty_shell_scale_up_def try_kill_problem_pod_workers_def submit_user_strategy_def
      Let_def case_prod_unfold split: option.split sum.split)

lemma recover_faulted_other: "i \<noteq> j \<Longrightarrow> round_info i (fst (recover_faulted now j md fm)) = round_info i fm"
  by (simp add: recover_faulted_def submit_user_strategy_def Let_def case_prod_unfold round_other split: option.split sum.split)

lemma recover_faulted_busy: "recovery_round_busy i fm \<Longrightarrow> fst (recover_faulted now i md fm) = fm"
  by (simp add: recover_faulted_def submit_user_strategy_def Let_def case_prod_unfold split: option.split sum.split)

lemma recover_one_running:
  assumes "running i run fm" shows "round_info i (fst (recover_one now j fm)) = round_info i fm"
proof (cases "j = i")
  case True
  then show ?thesis using recover_shrunk_busy[OF busy_running[OF assms]] recover_faulted_busy[OF busy_running[OF assms]]
    by (simp add: recover_one_def Let_def case_prod_unfold split: option.split sum.split)
next
  case False
  then have n: "i \<noteq> j" by simp
  show ?thesis
    by (simp add: recover_one_def Let_def case_prod_unfold recover_shrunk_other[OF n] recover_faulted_other[OF n]
        split: option.split sum.split)
qed

lemma recover_all_running:
  "running i run fm \<Longrightarrow> round_info i (fst (recover_all now is rs busy fm)) = round_info i fm"
proof (induction "is" arbitrary: rs busy fm)
  case (Cons j js)
  obtain fm' r where p: "recover_one now j fm = (fm', r)" by fastforce
  then have k: "round_info i fm' = round_info i fm" using recover_one_running[OF Cons.prems, of now j] by simp
  then have "running i run fm'" using Cons.prems running_round by blast
  then show ?case using Cons.IH[of fm'] p k by (simp split: sum.split option.split)
qed simp

lemma user_running: "running i run fm \<Longrightarrow> round_info i (fst (start_user_recovery now fm)) = round_info i fm"
  using recover_all_running[of i run fm now "dict_keys (fm_instances fm)" "[]" 0]
  by (simp add: start_user_recovery_def case_prod_unfold split: sum.split)

lemma step_running:
  assumes r: "running i run fm" and n: "\<not> ends_round i op"
  shows "running i run (fm_step fm op)"
proof (rule iffD2[OF running_round r])
  have d: "in_dict i (fm_instances fm)" using r by (auto simp: running_def)
  show "round_info i (fm_step fm op) = round_info i fm"
    using n sweep_running[OF r] user_running[OF r] round_update[OF d]
    by (cases op) (auto simp: ft_strategy_center_def round_other)
qed

lemma run_slot_kept: "running i run fm \<Longrightarrow> list_all (\<lambda>op. \<not> ends_round i op) ops \<Longrightarrow> running i run (foldl fm_step fm ops)"
  by (induction ops arbitrary: fm) (simp_all add: step_running)

section \<open>Plans\<close>

lemma software_engine_ranks: "software_dp_ranks fs = engine_ranks fs 1"
  by (simp add: software_dp_ranks_def engine_ranks_def)

lemma finite_engine_ranks [simp]: "finite (engine_ranks fs st)"
  by (simp add: engine_ranks_def)

lemma snapshot_of:
  assumes "dict_get (fm_instances fm) i = Some md"
  obtains snap where "collect_instance_faults i fm = Some snap" "snap_instance snap = get_instance i (fm_im fm)"
  using assms by (simp add: collect_instance_faults_def Let_def)

lemma context_untracked: "dict_get (fm_instances fm) i = None \<Longrightarrow> build_scale_down_context now i fm = default_context"
  by (simp add: build_scale_down_context_def)

lemma context_fields:
  assumes md: "dict_get (fm_instances fm) i = Some md" and ins: "get_instance i (fm_im fm) = Some ins"
  shows "set (sc_pending_removed_ranks (build_scale_down_context now i fm)) = reported 1 i fm \<inter> live_ranks i ins fm"
    "engine_recovery_eligible (build_scale_down_context now i fm) \<longleftrightarrow> ins_status ins = ACTIVE"
    "engine_fault_observed (build_scale_down_context now i fm) \<longleftrightarrow> (reported 1 i fm \<union> reported 2 i fm) \<inter> live_ranks i ins fm \<noteq> {}"
    "collection_complete (build_scale_down_context now i fm) \<longleftrightarrow> reported 1 i fm \<inter> live_ranks i ins fm \<noteq> {} \<and>
       reported 2 i fm \<inter> live_ranks i ins fm \<noteq> {} \<and> live_ranks i ins fm \<subseteq> reported 1 i fm \<union> reported 2 i fm"
    "all_dp_removed (build_scale_down_context now i fm) \<longleftrightarrow> live_ranks i ins fm \<noteq> {} \<and> live_ranks i ins fm \<subseteq> reported 1 i fm"
    "sc_source (build_scale_down_context now i fm) \<in> {''hardware'', ''software''}"
proof -
  obtain snap where snap: "collect_instance_faults i fm = Some snap" "snap_instance snap = Some ins"
    using snapshot_of[OF md] ins by metis
  note d = build_scale_down_context_def md snap context_of_def Let_def case_prod_unfold live_ranks_def reported_def software_engine_ranks
  show "set (sc_pending_removed_ranks (build_scale_down_context now i fm)) = reported 1 i fm \<inter> live_ranks i ins fm" by (simp add: d)
  show "engine_recovery_eligible (build_scale_down_context now i fm) \<longleftrightarrow> ins_status ins = ACTIVE" by (simp add: d)
  show "engine_fault_observed (build_scale_down_context now i fm) \<longleftrightarrow> (reported 1 i fm \<union> reported 2 i fm) \<inter> live_ranks i ins fm \<noteq> {}"
    by (simp add: d Int_Un_distrib2)
  show "collection_complete (build_scale_down_context now i fm) \<longleftrightarrow> reported 1 i fm \<inter> live_ranks i ins fm \<noteq> {} \<and>
       reported 2 i fm \<inter> live_ranks i ins fm \<noteq> {} \<and> live_ranks i ins fm \<subseteq> reported 1 i fm \<union> reported 2 i fm"
    by (auto simp: d)
  show "all_dp_removed (build_scale_down_context now i fm) \<longleftrightarrow> live_ranks i ins fm \<noteq> {} \<and> live_ranks i ins fm \<subseteq> reported 1 i fm"
    by (auto simp: d)
  show "sc_source (build_scale_down_context now i fm) \<in> {''hardware'', ''software''}" by (simp add: d)
qed

lemma source_hardware: "((if a then ''hardware'' else ''software'') = ''hardware'') = a"
  by simp

lemma context_wait:
  "hardware_wait_timed_out (context_of now ins md snap committed fm) \<longleftrightarrow>
     sc_source (context_of now ins md snap committed fm) = ''hardware'' \<and>
     \<not> hardware_ft_observed (context_of now ins md snap committed fm) \<and>
     (case hardware_fault_observed_at md of None \<Rightarrow> False
      | Some h \<Rightarrow> now - h \<ge> hardware_ft_correlation_window_sec (fm_config fm))"
  unfolding context_of_def Let_def case_prod_unfold by (simp only: ScaleDownContext.select_convs source_hardware)

lemma context_deadlines:
  assumes md: "dict_get (fm_instances fm) i = Some md" and ins: "get_instance i (fm_im fm) = Some ins"
  shows "collection_timed_out (build_scale_down_context now i fm) \<longleftrightarrow>
      (case fault_collection_started_at md of None \<Rightarrow> False | Some t \<Rightarrow> now - t \<ge> fault_collection_timeout_seconds (fm_config fm))"
    "sc_source (build_scale_down_context now i fm) = ''hardware'' \<Longrightarrow> \<not> hardware_ft_observed (build_scale_down_context now i fm) \<Longrightarrow>
      (\<And>h. hardware_fault_observed_at md = Some h \<Longrightarrow> now - h \<ge> hardware_ft_correlation_window_sec (fm_config fm)) \<Longrightarrow>
      hardware_wait_timed_out (build_scale_down_context now i fm)"
proof -
  obtain snap where snap: "collect_instance_faults i fm = Some snap" "snap_instance snap = Some ins"
    using snapshot_of[OF md] ins by metis
  note d = build_scale_down_context_def md snap context_of_def Let_def case_prod_unfold
  show "collection_timed_out (build_scale_down_context now i fm) \<longleftrightarrow>
      (case fault_collection_started_at md of None \<Rightarrow> False | Some t \<Rightarrow> now - t \<ge> fault_collection_timeout_seconds (fm_config fm))"
    by (simp add: d)
  have f: "hardware_wait_timed_out (build_scale_down_context now i fm) \<longleftrightarrow>
      sc_source (build_scale_down_context now i fm) = ''hardware'' \<and> \<not> hardware_ft_observed (build_scale_down_context now i fm) \<and>
      (case hardware_fault_observed_at md of None \<Rightarrow> False
       | Some h \<Rightarrow> now - h \<ge> hardware_ft_correlation_window_sec (fm_config fm))"
    using context_wait[of now ins md snap "committed_dp_ranks (fm_store fm) i" fm] by (simp add: build_scale_down_context_def md snap)
  assume a: "sc_source (build_scale_down_context now i fm) = ''hardware''" "\<not> hardware_ft_observed (build_scale_down_context now i fm)"
    "\<And>h. hardware_fault_observed_at md = Some h \<Longrightarrow> now - h \<ge> hardware_ft_correlation_window_sec (fm_config fm)"
  have "hardware_fault_observed_at md \<noteq> None" using a(1) by (cases "hardware_fault_observed_at md") (simp_all add: d)
  then show "hardware_wait_timed_out (build_scale_down_context now i fm)" unfolding f using a by auto
qed

lemma plan_of_context:
  assumes "dict_get (fm_instances fm) i = Some md" "get_instance i (fm_im fm) = Some ins"
  obtains source where "recovery_source (sc_source (build_scale_down_context now i fm)) = Some source"
    "source = RS_HARDWARE \<longleftrightarrow> sc_source (build_scale_down_context now i fm) = ''hardware''"
    "\<And>gen l code. build_recovery_plan i cfg (build_scale_down_context now i fm) gen l code =
       Inr \<lparr>plan_source = source,
            plan_strategy = fst (plan_choice i cfg source (build_scale_down_context now i fm) gen l code),
            plan_context = snd (plan_choice i cfg source (build_scale_down_context now i fm) gen l code),
            plan_fallback = Some InstanceReconfigurationStrategy, plan_evidence = build_scale_down_context now i fm\<rparr>"
  using context_fields(6)[OF assms, of now] that
  by (auto simp: recovery_source_def build_recovery_plan_def case_prod_unfold Let_def)

lemma generated_classes:
  "generate_strategy l code i cfg im \<notin> {Some DpScaleDownStrategy, Some EngineFastRecoveryStrategy, Some InstanceReconfigurationStrategy}"
proof -
  have "level2_strategy code i cfg \<in> {None, Some EngineRelaunchStrategy, Some TokenReinferenceStrategy}"
    by (simp add: level2_strategy_def)
  moreover have four: "level4_strategy code i cfg im \<in> {None, Some ScaleP2DStrategy}"
    by (simp add: level4_strategy_def split: option.split)
  moreover have "level6_strategy code i cfg im \<in> {None, Some ScaleP2DStrategy, Some NmSuicideStrategy}"
    using four by (auto simp: level6_strategy_def Let_def split: option.split)
  ultimately show ?thesis
    by (cases l) (auto simp: generate_strategy_def level1_strategy_def level3_strategy_def level5_strategy_def)
qed

lemma if_intro: "(c \<Longrightarrow> P a) \<Longrightarrow> (\<not> c \<Longrightarrow> P b) \<Longrightarrow> P (if c then a else b)"
  by simp

lemma choice_cases:
  "fst (plan_choice i cfg source ctx gen l code) \<in> {None, gen, Some InstanceReconfigurationStrategy} \<or>
   engine_recovery_eligible ctx \<and> collection_complete ctx \<and> \<not> all_dp_removed ctx \<and> cfg_enable_dp_scale_down cfg \<and>
   plan_choice i cfg source ctx gen l code =
     (Some DpScaleDownStrategy, Ctx_scale_down (ctx\<lparr>sc_fallback_strategy := class_name InstanceReconfigurationStrategy\<rparr>))"
  (is "?P (plan_choice i cfg source ctx gen l code)")
proof -
  have "(case gen of Some c \<Rightarrow> Some c | None \<Rightarrow> Some InstanceReconfigurationStrategy) \<in> {gen, Some InstanceReconfigurationStrategy}"
    by (cases gen) simp_all
  then show ?thesis unfolding plan_choice_def Let_def is_applicable_def
    by (intro if_intro[where P = ?P]) simp_all
qed

text \<open>
  C21: A planned DP scale-down leaves a survivor. It is only planned for an active instance with the
  feature enabled; the ranks it removes are registered and not yet committed, there is at least one,
  and every rank that remains, of which there is one at least, has reported itself unhealthy and so
  takes part; a failure falls back to reconfiguration.
\<close>

theorem scale_down_leaves_survivor:
  assumes md: "dict_get (fm_instances fm) i = Some md" and ins: "get_instance i (fm_im fm) = Some ins"
    and plan: "build_recovery_plan i cfg (build_scale_down_context now i fm) (generate_strategy l code i cfg (fm_im fm)) l code = Inr plan"
      "plan_strategy plan = Some DpScaleDownStrategy"
  shows "\<exists>ctx. plan_context plan = Ctx_scale_down ctx \<and> sc_fallback_strategy ctx = ''InstanceReconfigurationStrategy'' \<and>
    ins_status ins = ACTIVE \<and> cfg_enable_dp_scale_down cfg \<and>
    set (sc_pending_removed_ranks ctx) \<noteq> {} \<and> set (sc_pending_removed_ranks ctx) \<subseteq> live_ranks i ins fm \<and>
    (\<exists>r \<in> live_ranks i ins fm - set (sc_pending_removed_ranks ctx). r \<in> reported 2 i fm) \<and>
    live_ranks i ins fm - set (sc_pending_removed_ranks ctx) \<subseteq> reported 2 i fm"
proof -
  let ?ctx = "build_scale_down_context now i fm" and ?gen = "generate_strategy l code i cfg (fm_im fm)"
  obtain source where p: "\<And>gen l code. build_recovery_plan i cfg ?ctx gen l code =
       Inr \<lparr>plan_source = source, plan_strategy = fst (plan_choice i cfg source ?ctx gen l code),
            plan_context = snd (plan_choice i cfg source ?ctx gen l code),
            plan_fallback = Some InstanceReconfigurationStrategy, plan_evidence = ?ctx\<rparr>"
    using plan_of_context[OF md ins, where now = now and cfg = cfg] by metis
  have "plan_strategy plan = fst (plan_choice i cfg source ?ctx ?gen l code)"
    and c: "plan_context plan = snd (plan_choice i cfg source ?ctx ?gen l code)"
    using plan(1) unfolding p by auto
  with plan(2) have "fst (plan_choice i cfg source ?ctx ?gen l code) = Some DpScaleDownStrategy" by simp
  then have s: "engine_recovery_eligible ?ctx" "collection_complete ?ctx" "\<not> all_dp_removed ?ctx" "cfg_enable_dp_scale_down cfg"
    "snd (plan_choice i cfg source ?ctx ?gen l code) = Ctx_scale_down (?ctx\<lparr>sc_fallback_strategy := class_name InstanceReconfigurationStrategy\<rparr>)"
    using choice_cases[of i cfg source ?ctx ?gen l code] generated_classes[of l code i cfg "fm_im fm"] by auto
  show ?thesis
  proof (rule exI, intro conjI)
    show "plan_context plan = Ctx_scale_down (?ctx\<lparr>sc_fallback_strategy := class_name InstanceReconfigurationStrategy\<rparr>)" using c s(5) by simp
  qed (use s(1-4) context_fields[OF md ins, of now] in \<open>auto simp: class_name_def\<close>)
qed

lemma choice_decides:
  assumes "engine_fault_observed ctx" "collection_timed_out ctx"
    and "source = RS_HARDWARE \<Longrightarrow> \<not> hardware_ft_observed ctx \<Longrightarrow> hardware_wait_timed_out ctx"
  shows "fst (plan_choice i cfg source ctx gen l code) \<noteq> None" (is "?P (plan_choice i cfg source ctx gen l code)")
proof -
  have "(case gen of Some c \<Rightarrow> Some c | None \<Rightarrow> Some InstanceReconfigurationStrategy) \<noteq> None" by (cases gen) simp_all
  then show ?thesis unfolding plan_choice_def Let_def is_applicable_def
    by (intro if_intro[where P = ?P]) (use assms in simp_all)
qed

lemma choice_mild:
  assumes "engine_recovery_eligible ctx" "\<not> hardware_fault_observed ctx" "\<not> engine_fault_observed ctx" "\<not> collection_complete ctx"
    "\<not> all_dp_unhealthy ctx" "\<not> all_dp_removed ctx" "l \<le> L2"
  shows "plan_choice i cfg source ctx gen l code = (None, Ctx_scale_down ctx)"
  using assms by (simp add: plan_choice_def Let_def)

lemma context_unhealthy:
  assumes md: "dict_get (fm_instances fm) i = Some md" and ins: "get_instance i (fm_im fm) = Some ins"
  shows "all_dp_unhealthy (build_scale_down_context now i fm) \<Longrightarrow> engine_fault_observed (build_scale_down_context now i fm)"
proof -
  obtain snap where snap: "collect_instance_faults i fm = Some snap" "snap_instance snap = Some ins"
    using snapshot_of[OF md] ins by metis
  assume "all_dp_unhealthy (build_scale_down_context now i fm)"
  then show "engine_fault_observed (build_scale_down_context now i fm)"
    by (auto simp: build_scale_down_context_def md snap context_of_def Let_def case_prod_unfold)
qed

lemma process_fresh:
  assumes f: "fresh_round i md ins fm"
    and n: "\<not> (already_removed_fault_keys (build_scale_down_context now i fm) \<noteq> [] \<and>
      \<not> (hardware_fault_observed (build_scale_down_context now i fm) \<or> engine_fault_observed (build_scale_down_context now i fm)))"
  obtains source fm1 where "source = RS_HARDWARE \<longleftrightarrow> sc_source (build_scale_down_context now i fm) = ''hardware''"
    "round_info i fm1 = round_info i fm"
    "process_instance_strategy env now held i fm =
       (case fst (plan_choice i (fm_config fm) source (build_scale_down_context now i fm)
                (generate_strategy (md_fault_level md) (md_fault_code md) i (fm_config fm) (fm_im fm)) (md_fault_level md) (md_fault_code md)) of
          None \<Rightarrow> (fm1, Inr ())
        | Some k \<Rightarrow>
            if k = ScaleP2DStrategy \<and> get_pending_scale_p2d_nodes i None fm = Some [] then (fm1, Inr ())
            else (start_strategy i k (snd (plan_choice i (fm_config fm) source (build_scale_down_context now i fm)
                (generate_strategy (md_fault_level md) (md_fault_code md) i (fm_config fm) (fm_im fm)) (md_fault_level md) (md_fault_code md)))
                    (build_scale_down_context now i fm) fm1, Inr ()))"
proof -
  let ?ctx = "build_scale_down_context now i fm"
  note d = f[unfolded fresh_round_def]
  obtain source where s: "source = RS_HARDWARE \<longleftrightarrow> sc_source ?ctx = ''hardware''"
    and p: "\<And>gen l code. build_recovery_plan i (fm_config fm) ?ctx gen l code =
       Inr \<lparr>plan_source = source, plan_strategy = fst (plan_choice i (fm_config fm) source ?ctx gen l code),
            plan_context = snd (plan_choice i (fm_config fm) source ?ctx gen l code),
            plan_fallback = Some InstanceReconfigurationStrategy, plan_evidence = ?ctx\<rparr>"
    using plan_of_context[of fm i md ins now "fm_config fm"] d by metis
  let ?gen = "generate_strategy (md_fault_level md) (md_fault_code md) i (fm_config fm) (fm_im fm)"
  let ?handled = "\<lambda>m. m\<lparr>handled_hardware_faults := handled_hardware_faults m \<union> set (already_removed_fault_keys ?ctx)\<rparr>"
  let ?fm0 = "modify_metadata i ?handled fm"
  let ?choice = "plan_choice i (fm_config fm) source ?ctx ?gen (md_fault_level md) (md_fault_code md)"
  let ?fm1 = "if fst ?choice = None \<and> engine_fault_observed ?ctx
    then ?fm0\<lparr>fm_store := fst (transition i [Ch_phase PH_WAITING_ENGINE_FAULT] (fm_store ?fm0))\<rparr> else ?fm0"
  have c: "choose_strategy i False ?ctx (?handled md) ?fm0 =
      Inr (fst ?choice, snd ?choice, fst ?choice = None \<and> engine_fault_observed ?ctx)"
    using d by (simp add: choose_strategy_def Let_def p)
  have "process_instance_strategy env now held i fm =
      plan_round i False ?ctx (get_pending_scale_p2d_nodes i None fm) (?handled md) ?fm0"
    using d n by (auto simp: process_instance_strategy_def complete_finished_strategy_def Let_def)
  also have "\<dots> = (case fst ?choice of None \<Rightarrow> (?fm1, Inr ())
      | Some k \<Rightarrow> if k = ScaleP2DStrategy \<and> get_pending_scale_p2d_nodes i None fm = Some [] then (?fm1, Inr ())
                  else (start_strategy i k (snd ?choice) ?ctx ?fm1, Inr ()))"
    using d unfolding plan_round_def c by (auto simp: Let_def split: option.split)
  finally show thesis using that[of source ?fm1] s by (simp add: round_of_def)
qed

lemma started:
  "dict_get (fm_instances fm) i = Some md \<Longrightarrow>
   \<exists>md' run. dict_get (fm_instances (start_strategy i k c ctx fm)) i = Some md' \<and> strategy md' = Some run \<and>
     \<not> run_finished run \<and> run_class run = k"
  by (cases "prev_strategy_failed md") (simp_all add: start_strategy_def Let_def)

lemma slot_of_round:
  "round_info i fm' = round_info i fm \<Longrightarrow> dict_get (fm_instances fm) i = Some md \<Longrightarrow>
   \<exists>md'. dict_get (fm_instances fm') i = Some md' \<and> strategy md' = strategy md \<and>
     prev_strategy_failed md' = prev_strategy_failed md \<and> prev_strategy_name md' = prev_strategy_name md"
  by (cases "dict_get (fm_instances fm') i") (auto simp: round_info_def round_of_def)


text \<open>
  A level-2 fault with a code for token re-inference starts no strategy while the instance is
  active and nothing else is reported, although its level's strategy is enabled.
\<close>

theorem active_never_reinfers:
  assumes f: "fresh_round i md ins fm"
    and l: "md_fault_level md = L2" "md_fault_code md \<in> {0x00F1FEF5, 0x08520003}" "enable_token_reinference (fm_config fm)"
    and a: "ins_status ins = ACTIVE" and e: "(reported 1 i fm \<union> reported 2 i fm) \<inter> live_ranks i ins fm = {}"
    and hw: "\<not> hardware_fault_observed (build_scale_down_context now i fm)"
  shows "generate_strategy L2 (md_fault_code md) i (fm_config fm) (fm_im fm) = Some TokenReinferenceStrategy \<and>
    (\<exists>md'. dict_get (fm_instances (fst (process_instance_strategy env now held i fm))) i = Some md' \<and> strategy md' = None)"
proof
  let ?ctx = "build_scale_down_context now i fm"
  show "generate_strategy L2 (md_fault_code md) i (fm_config fm) (fm_im fm) = Some TokenReinferenceStrategy"
    using l by (auto simp: generate_strategy_def level2_strategy_def ENGINE_DEAD_def ENGINE_UNHEALTHY_def)
  have md: "dict_get (fm_instances fm) i = Some md" and ins: "get_instance i (fm_im fm) = Some ins"
    using f by (simp_all add: fresh_round_def)
  note c = context_fields[OF md ins, of now]
  have "round_info i (fst (process_instance_strategy env now held i fm)) = round_info i fm"
  proof (cases "already_removed_fault_keys ?ctx \<noteq> [] \<and> \<not> (hardware_fault_observed ?ctx \<or> engine_fault_observed ?ctx)")
    case True
    then show ?thesis using f
      by (simp add: process_instance_strategy_def complete_finished_strategy_def Let_def fresh_round_def round_of_def)
  next
    case False
    have "\<not> engine_fault_observed ?ctx" "\<not> all_dp_unhealthy ?ctx" "\<not> collection_complete ?ctx" "\<not> all_dp_removed ?ctx"
      using c(3-5) context_unhealthy[OF md ins, of now] e by auto
    then have p: "plan_choice i (fm_config fm) source ?ctx gen (md_fault_level md) code = (None, Ctx_scale_down ?ctx)" for source gen code
      using choice_mild[of ?ctx "md_fault_level md" i "fm_config fm" source gen code] c(2) a hw l(1) by simp
    show ?thesis by (rule process_fresh[OF f False, where env = env and held = held]) (simp add: p)
  qed
  from slot_of_round[OF this md] f show "\<exists>md'. dict_get (fm_instances (fst (process_instance_strategy env now held i fm))) i = Some md' \<and> strategy md' = None"
    by (auto simp: fresh_round_def)
qed


lemma recyclable_raises: "topo_original_dp_ranks ins = Inl e \<Longrightarrow> recyclable_pods ins dead = Inl e"
  by (simp add: recyclable_pods_def pod_dp_ranks_def)

lemma expand_raises: "topo_original_dp_ranks ins = Inl e \<Longrightarrow> seed \<noteq> {} \<Longrightarrow> expand_problem_pod_ranks ins seed = Inl e"
  by (simp add: expand_problem_pod_ranks_def pod_dp_ranks_def)

lemma reservation_taken:
  assumes md: "fm_instances fm = [(i, md)]" and idle: "\<not> recovery_round_busy i fm"
    and rt: "rt_get i (fm_store fm) = Some rt" "dead_committed rt \<noteq> []"
    and ins: "get_instance i (fm_im fm) = Some ins" "topo_original_dp_ranks ins = Inl e"
  shows "start_user_recovery now fm = (modify_metadata i (user_round DpScaleDownStrategy None) fm, Inl e)"
proof -
  have "recover_shrunk i ins (dead_committed rt) stored fm = (modify_metadata i (user_round DpScaleDownStrategy None) fm, Inl e)" for stored
    using idle recyclable_raises[OF ins(2)] expand_raises[OF ins(2), of "set (dead_committed rt)"] rt(2)
    by (simp add: recover_shrunk_def accept_empty_shell_scale_up_def Let_def)
  then have "recover_one now i fm = (modify_metadata i (user_round DpScaleDownStrategy None) fm, Inl e)"
    using md rt ins by (simp add: recover_one_def Let_def)
  then show ?thesis by (simp add: start_user_recovery_def md)
qed

lemma busy_alone:
  assumes "fm_instances fm = [(i, md)]" "recovery_round_busy i fm" "rt_get i (fm_store fm) = Some rt" "dead_committed rt \<noteq> []"
    "get_instance i (fm_im fm) = Some ins"
  shows "start_user_recovery now fm = (fm, Inl RuntimeError)"
proof -
  have "recover_shrunk i ins dead stored fm = (fm, Inr None)" for dead stored
    using assms(2) by (simp add: recover_shrunk_def accept_empty_shell_scale_up_def try_kill_problem_pod_workers_def
        submit_user_strategy_def Let_def split: option.split)
  then show ?thesis using assms by (simp add: start_user_recovery_def recover_one_def Let_def)
qed

text \<open>
  A user recovery that fails leaves its reservation behind. When the instance's endpoints no
  longer cover its original ranks, the recovery of a scaled-down instance raises after it has taken
  the strategy slot, no worker runs, every later request is refused as in progress, and no
  sequence of steps but the instance's removal frees the slot.
\<close>

theorem scale_up_reservation_leaks:
  assumes md: "fm_instances fm = [(i, md)]" and idle: "\<not> recovery_round_busy i fm"
    and rt: "rt_get i (fm_store fm) = Some rt" "dead_committed rt \<noteq> []"
    and ins: "get_instance i (fm_im fm) = Some ins" "topo_original_dp_ranks ins = Inl ValueError"
    and ops: "list_all (\<lambda>op. \<not> ends_round i op) ops"
  shows "snd (start_user_recovery now fm) = Inl ValueError \<and>
    snd (start_user_recovery now (fst (start_user_recovery now fm))) = Inl RuntimeError \<and>
    (\<exists>md' run. dict_get (fm_instances (foldl fm_step (fst (start_user_recovery now fm)) ops)) i = Some md' \<and>
       strategy md' = Some run \<and> \<not> run_finished run)"
proof -
  let ?fm1 = "modify_metadata i (user_round DpScaleDownStrategy None) fm"
  note r = reservation_taken[OF md idle rt ins, of now]
  let ?run = "\<lparr>run_class = DpScaleDownStrategy, run_finished = False, run_failed = False, run_context = None\<rparr>"
  have run: "running i ?run ?fm1" using md by (simp add: running_def user_round_def)
  have "start_user_recovery now ?fm1 = (?fm1, Inl RuntimeError)"
    by (rule busy_alone[OF _ busy_running[OF run]]) (use md rt ins in simp_all)
  then show ?thesis using r run_slot_kept[OF run ops] by (auto simp: running_def)
qed

lemma step_latched:
  assumes "in_dict i (fm_instances fm)" "\<not> settles_round i op"
  shows "round_info i (fm_step fm op) = round_info i fm"
  using assms round_update[OF assms(1)] by (cases op) (auto simp: round_other)

lemma run_latched:
  assumes "in_dict i (fm_instances fm)" "list_all (\<lambda>op. \<not> settles_round i op) ops"
  shows "round_info i (foldl fm_step fm ops) = round_info i fm"
  using assms
proof (induction ops arbitrary: fm)
  case (Cons op ops)
  then have r: "round_info i (fm_step fm op) = round_info i fm" using step_latched[OF Cons.prems(1)] by simp
  moreover from this have "in_dict i (fm_instances (fm_step fm op))"
    using Cons.prems(1) by (cases "dict_get (fm_instances (fm_step fm op)) i") (auto simp: round_info_def)
  ultimately show ?case using Cons by simp
qed simp

lemma plan_round_latched:
  assumes "prev_strategy_failed md" "prev_strategy_name md = Some InstanceReconfigurationStrategy" "md_fault_level md < L4"
  shows "round_info j (fst (plan_round i s ctx pending md fm)) = round_info j fm"
proof -
  have "\<not> L4 \<le> md_fault_level md" using assms(3) by simp
  then have "choose_strategy i s ctx md fm = Inr (None, Ctx_scale_down ctx, False)"
    using assms by (simp add: choose_strategy_def Let_def)
  then show ?thesis by (simp add: plan_round_def)
qed

lemma process_latched:
  assumes "dict_get (fm_instances fm) i = Some md" "strategy md = None" "prev_strategy_failed md"
    "prev_strategy_name md = Some InstanceReconfigurationStrategy" "md_fault_level md < L4"
  shows "round_info i (fst (process_instance_strategy env now held i fm)) = round_info i fm"
  using assms
  by (simp add: process_instance_strategy_def complete_finished_strategy_def Let_def plan_round_latched round_of_def)

text \<open>
  A failed reconfiguration is final for everything below level 4: the mark outlives the faults
  it was made for, so that evidence which arrives later, after the instance has been ready again,
  starts no strategy either.
\<close>

theorem reconfiguration_failure_latches:
  assumes md: "dict_get (fm_instances fm) i = Some md" "strategy md = None" "prev_strategy_failed md"
      "prev_strategy_name md = Some InstanceReconfigurationStrategy"
    and ops: "list_all (\<lambda>op. \<not> settles_round i op) ops"
    and l: "level_of i (foldl fm_step fm ops) = Some l" "l < L4"
  shows "\<exists>md'. dict_get (fm_instances (fst (process_instance_strategy env now held i (foldl fm_step fm ops)))) i = Some md' \<and>
    strategy md' = None \<and> prev_strategy_failed md'"
proof -
  have r: "round_info i (foldl fm_step fm ops) = round_info i fm" using run_latched[OF _ ops] md(1) by blast
  from slot_of_round[OF r md(1)] obtain md1 where m: "dict_get (fm_instances (foldl fm_step fm ops)) i = Some md1" "strategy md1 = None"
    "prev_strategy_failed md1" "prev_strategy_name md1 = Some InstanceReconfigurationStrategy" using md by auto
  have "md_fault_level md1 < L4" using l m(1) by (simp add: level_of_def)
  from slot_of_round[OF process_latched[OF m this, of env now held] m(1)] m(2,3) show ?thesis by auto
qed

theorem scale_down_leaves_survivor_witness:
  "\<exists>plan ctx. build_recovery_plan 7 demo_ft_config (build_scale_down_context 20 7 demo_planning)
       (generate_strategy L2 ENGINE_DEAD 7 demo_ft_config (fm_im demo_planning)) L2 ENGINE_DEAD = Inr plan \<and>
     plan_context plan = Ctx_scale_down ctx \<and> set (sc_pending_removed_ranks ctx) \<noteq> {} \<and>
     live_ranks 7 demo_dp_instance demo_planning - set (sc_pending_removed_ranks ctx) \<noteq> {}"
proof -
  let ?plan = "build_recovery_plan 7 demo_ft_config (build_scale_down_context 20 7 demo_planning)
       (generate_strategy L2 ENGINE_DEAD 7 demo_ft_config (fm_im demo_planning)) L2 ENGINE_DEAD"
  have "case ?plan of Inl e \<Rightarrow> False | Inr p \<Rightarrow> plan_strategy p = Some DpScaleDownStrategy" by code_simp
  then obtain plan where p: "?plan = Inr plan" "plan_strategy plan = Some DpScaleDownStrategy" by (cases ?plan) auto
  show ?thesis
    using scale_down_leaves_survivor[OF _ _ p, of demo_reports demo_dp_instance] p(1) by (auto simp: demo_planning_def)
qed


theorem active_never_reinfers_witness:
  "generate_strategy L2 0x00F1FEF5 7 demo_ft_config (fm_im demo_reinferring) = Some TokenReinferenceStrategy \<and>
   (\<exists>md'. dict_get (fm_instances (fst (process_instance_strategy demo_ft_env 20 {} 7 demo_reinferring))) 7 = Some md' \<and> strategy md' = None)"
proof -
  have "strategy demo_reinfer = None \<and> \<not> prev_strategy_failed demo_reinfer \<and> md_fault_level demo_reinfer \<noteq> HEALTHY \<and>
      \<not> is_superseded_instance 7 demo_reinferring \<and> rt_get 7 (fm_store demo_reinferring) = None" by code_simp
  then have f: "fresh_round 7 demo_reinfer demo_dp_instance demo_reinferring" by (simp add: fresh_round_def demo_reinferring_def)
  have e: "(reported 1 7 demo_reinferring \<union> reported 2 7 demo_reinferring) \<inter> live_ranks 7 demo_dp_instance demo_reinferring = {}" by code_simp
  have t: "md_fault_level demo_reinfer = L2" "md_fault_code demo_reinfer = 0x00F1FEF5"
    "enable_token_reinference (fm_config demo_reinferring)" "ins_status demo_dp_instance = ACTIVE"
    "\<not> hardware_fault_observed (build_scale_down_context 20 7 demo_reinferring)" by code_simp+
  show ?thesis using active_never_reinfers[OF f t(1) _ t(3,4) e t(5), of demo_ft_env "{}"] t(2) by (simp add: demo_reinferring_def)
qed


theorem scale_up_reservation_leaks_witness:
  "snd (start_user_recovery 5 demo_leaking) = Inl ValueError \<and>
   snd (start_user_recovery 5 (fst (start_user_recovery 5 demo_leaking))) = Inl RuntimeError"
proof -
  have a: "fm_instances demo_leaking = [(7, new_metadata 7 True)]" "\<not> recovery_round_busy 7 demo_leaking"
    "topo_original_dp_ranks demo_shrunk = Inl ValueError" by code_simp+
  have b: "get_instance 7 (fm_im demo_leaking) = Some demo_shrunk"
    "rt_get 7 (fm_store demo_leaking) = Some ((new_runtime 7)\<lparr>phase := PH_SCALED_DOWN_RUNNING, dead_committed := [2]\<rparr>)"
    by (simp_all add: demo_leaking_def get_instance_def demo_scaled_down_def put_def rt_get_def new_runtime_def empty_store_def)
  show ?thesis using scale_up_reservation_leaks[OF a(1,2) b(2) _ b(1) a(3), of "[]" 5] by simp
qed

theorem reconfiguration_failure_latches_witness:
  "\<exists>md'. dict_get (fm_instances (fst (process_instance_strategy demo_ft_env 90 {} 7 (foldl fm_step demo_failing [demo_report])))) 7 = Some md' \<and>
     strategy md' = None \<and> prev_strategy_failed md'"
proof -
  have a: "strategy demo_failed = None" "prev_strategy_failed demo_failed"
    "prev_strategy_name demo_failed = Some InstanceReconfigurationStrategy"
    "level_of 7 (foldl fm_step demo_failing [demo_report]) = Some L2" "L2 < L4" by code_simp+
  show ?thesis
    by (rule reconfiguration_failure_latches[OF _ a(1-3) _ a(4,5)]) (simp_all add: demo_failing_def demo_report_def)
qed

end
