(* ===== verification/Instance_Assembly.thy ===== *)
theory Instance_Assembly
  imports Controller_Instances
begin

text \<open>
  The controller's instance assembler: \<^verbatim>\<open>motor/controller/core/instance_assembler.py\<close>.

  Node managers register pods; the assembler collects them into an instance, hands the complete
  instance to the instance manager and sends every node manager its start command. The state is
  the singleton's fields, the manager it calls, what ETCD holds for it and the log of start
  commands. The object an entry refers to is, once handed over, the one the manager works on: such
  an entry is marked \<open>md_shared\<close>, and every change of the manager's registry is copied into the
  shared entries (\<open>share_sync\<close>).

  A handler and one pass of each of the two loops run without interruption; the order in which they
  take the two locks is a model of its own at the end. The clock, the node managers' answers, the
  fault-tolerance store, the engine configuration file, the iteration order of a set and the
  pydantic dump of an entry are fields of the environment \<open>asm_env\<close>.
\<close>

section \<open>Messages: \<^verbatim>\<open>http_msg_spec.py\<close>\<close>

record ServerInfo =
  server_id :: string
  container_ip :: string
  sv_device :: "DeviceInfo list"

record Ranktable =
  rk_version :: string
  rk_status :: string
  server_count :: string
  server_list :: "ServerInfo list"

record RegisterMsg =
  rg_job_name :: string
  rg_model_name :: string
  rg_engine_type :: "string option"
  rg_dispatch_capabilities :: "string list"
  rg_ft_capability :: FtCapabilitySnapshot
  rg_role :: string
  rg_pod_ip :: string
  rg_business_port :: "string list"
  rg_bootstrap_port :: "int option"
  rg_nm_port :: string
  rg_parallel_config :: ParallelConfig
  rg_enable_multi_endpoints :: bool
  rg_device_num :: int
  rg_ranktable :: "Ranktable option"
  rg_nnodes :: int
  rg_is_master :: bool

record StartCmdMsg =
  sc_job_name :: string
  sc_role :: string
  sc_instance_id :: int
  sc_endpoints :: "Endpoint list"
  master_dp_ip :: string
  sc_ranktable :: "Ranktable option"
  d2d_peer_ips :: "string list option"
  sc_node_rank :: int
  extra_env :: "(string, string) dict"

record ReregisterMsg =
  rr_job_name :: string
  rr_model_name :: string
  rr_engine_type :: "string option"
  rr_dispatch_capabilities :: "string list"
  rr_ft_capability :: FtCapabilitySnapshot
  rr_instance_id :: int
  rr_role :: string
  rr_pod_ip :: string
  rr_nm_port :: string
  rr_parallel_config :: ParallelConfig
  rr_enable_multi_endpoints :: bool
  rr_device_num :: int
  rr_endpoints :: "Endpoint list"
  rr_nnodes :: int
  rr_node_rank :: int

text \<open>
  The argument type \<open>RegisterMsg | ReregisterMsg\<close> of the join of a replacement pod, and the
  attributes both classes have.
\<close>

datatype join_msg = Join_register RegisterMsg | Join_reregister ReregisterMsg

fun jm_job_name :: "join_msg \<Rightarrow> string" where
  "jm_job_name (Join_register m) = rg_job_name m"
| "jm_job_name (Join_reregister m) = rr_job_name m"

fun jm_pod_ip :: "join_msg \<Rightarrow> string" where
  "jm_pod_ip (Join_register m) = rg_pod_ip m"
| "jm_pod_ip (Join_reregister m) = rr_pod_ip m"

fun jm_nm_port :: "join_msg \<Rightarrow> string" where
  "jm_nm_port (Join_register m) = rg_nm_port m"
| "jm_nm_port (Join_reregister m) = rr_nm_port m"

fun jm_device_num :: "join_msg \<Rightarrow> int" where
  "jm_device_num (Join_register m) = rg_device_num m"
| "jm_device_num (Join_reregister m) = rr_device_num m"

fun jm_ft_capability :: "join_msg \<Rightarrow> FtCapabilitySnapshot" where
  "jm_ft_capability (Join_register m) = rg_ft_capability m"
| "jm_ft_capability (Join_reregister m) = rr_ft_capability m"

fun jm_local_world_size :: "join_msg \<Rightarrow> int" where
  "jm_local_world_size (Join_register m) = local_world_size (rg_parallel_config m)"
| "jm_local_world_size (Join_reregister m) = local_world_size (rr_parallel_config m)"

text \<open>
  \<open>getattr(msg, "ranktable", None)\<close>: a re-registration has no such attribute.
\<close>

fun jm_ranktable :: "join_msg \<Rightarrow> Ranktable option" where
  "jm_ranktable (Join_register m) = rg_ranktable m"
| "jm_ranktable (Join_reregister m) = None"

section \<open>State and environment\<close>

datatype RegisterStatus = NOT_REGISTERED | ASSEMBLING | ASSEMBLED

record AssembleInstanceMetadata =
  md_instance :: Instance
  register_status :: RegisterStatus
  start_command_send_times :: int
  register_timestamp :: pyfloat
  is_reregister :: bool
  md_ranktable :: "Ranktable option"
  md_nnodes :: int
  snapshot_dp_master_ip :: "string option"
  md_shared :: bool

record 'm AssemblerData =
  ad_ins_id_cnt :: "int option"
  ad_instances :: "(string, 'm) dict option"

record 'm AssemblerState =
  as_data :: "'m AssemblerData"
  as_version :: int
  as_timestamp :: pyfloat
  as_checksum :: string

datatype 'm asm_cell = Asm_empty | Asm_malformed | Asm_state "'m AssemblerState"

record 'm asm_env =
  asm_now :: pyfloat
  nm_reachable :: "NodeManagerInfo \<Rightarrow> bool"
  post_start :: "NodeManagerInfo \<Rightarrow> StartCmdMsg \<Rightarrow> bool"
  asm_ft_store :: FtRuntimeStore
  load_d2d_config :: "string \<Rightarrow> string \<Rightarrow> py_error + (string, json) dict option"
  iter_set :: "string list \<Rightarrow> string list"
  asm_etcd_up :: bool
  md_dump :: "AssembleInstanceMetadata \<Rightarrow> 'm"
  md_validate :: "'m \<Rightarrow> AssembleInstanceMetadata option"
  asm_digest :: "'m AssemblerData \<Rightarrow> int \<Rightarrow> pyfloat \<Rightarrow> string"

record ('r, 'm) InstanceAssembler =
  ins_id_cnt :: int
  asm_instances :: "(string, AssembleInstanceMetadata) dict"
  user_config_path :: string
  d2d_enabled_cache :: "(string, bool) dict"
  asm_persistence :: bool
  instance_assemble_timeout :: pyfloat
  send_cmd_retry_times :: int
  enable_dp_scale_up :: bool
  asm_data_version :: int
  asm_etcd :: "'m asm_cell"
  start_commands :: "(NodeManagerInfo \<times> StartCmdMsg) list"
  manager :: "'r InstanceManager"

text \<open>
  \<open>InstanceAssembler.__init__\<close> on a configuration, and \<open>update_config\<close>.
\<close>

definition InstanceAssembler_init ::
  "string \<Rightarrow> bool \<Rightarrow> pyfloat \<Rightarrow> int \<Rightarrow> bool \<Rightarrow> 'm asm_cell \<Rightarrow> 'r InstanceManager \<Rightarrow> ('r, 'm) InstanceAssembler" where
  "InstanceAssembler_init path persistence timeout retries scale_up cell mgr =
     \<lparr>ins_id_cnt = 1, asm_instances = [], user_config_path = path, d2d_enabled_cache = [],
      asm_persistence = persistence, instance_assemble_timeout = timeout,
      send_cmd_retry_times = retries, enable_dp_scale_up = scale_up, asm_data_version = 0,
      asm_etcd = cell, start_commands = [], manager = mgr\<rparr>"

definition asm_update_config ::
  "string \<Rightarrow> bool \<Rightarrow> pyfloat \<Rightarrow> int \<Rightarrow> bool \<Rightarrow> ('r, 'm) InstanceAssembler \<Rightarrow> ('r, 'm) InstanceAssembler" where
  "asm_update_config path persistence timeout retries scale_up s =
     s\<lparr>user_config_path := path, d2d_enabled_cache := [], asm_persistence := persistence,
       instance_assemble_timeout := timeout, send_cmd_retry_times := retries,
       enable_dp_scale_up := scale_up\<rparr>"

text \<open>
  Objects shared with the manager: a shared entry follows the manager's object; once the manager
  has dropped it, the entry keeps the object as it last was.
\<close>

definition share_entry :: "'r InstanceManager \<Rightarrow> AssembleInstanceMetadata \<Rightarrow> AssembleInstanceMetadata" where
  "share_entry mgr md =
     (if md_shared md
      then (case get_instance (ins_id (md_instance md)) mgr of
              Some ins \<Rightarrow> md\<lparr>md_instance := ins\<rparr>
            | None \<Rightarrow> md\<lparr>md_shared := False\<rparr>)
      else md)"

definition on_manager ::
  "('r InstanceManager \<Rightarrow> 'r InstanceManager) \<Rightarrow> ('r, 'm) InstanceAssembler \<Rightarrow> ('r, 'm) InstanceAssembler" where
  "on_manager f s =
     s\<lparr>manager := f (manager s),
       asm_instances := map (\<lambda>(job, md). (job, share_entry (f (manager s)) md)) (asm_instances s)\<rparr>"

definition on_managed_instance ::
  "int \<Rightarrow> (Instance \<Rightarrow> Instance) \<Rightarrow> ('r, 'm) InstanceAssembler \<Rightarrow> ('r, 'm) InstanceAssembler" where
  "on_managed_instance i f =
     on_manager (\<lambda>mgr. mgr\<lparr>instances := dict_modify i f (instances mgr)\<rparr>)"

definition on_entry ::
  "string \<Rightarrow> (AssembleInstanceMetadata \<Rightarrow> AssembleInstanceMetadata) \<Rightarrow> ('r, 'm) InstanceAssembler
   \<Rightarrow> ('r, 'm) InstanceAssembler" where
  "on_entry job f s = s\<lparr>asm_instances := dict_modify job f (asm_instances s)\<rparr>"

definition drop_entry :: "string \<Rightarrow> ('r, 'm) InstanceAssembler \<Rightarrow> ('r, 'm) InstanceAssembler" where
  "drop_entry job s = s\<lparr>asm_instances := dict_pop job (asm_instances s)\<rparr>"

text \<open>
  A method call on \<open>metadata.instance\<close>.
\<close>

definition on_instance ::
  "string \<Rightarrow> (Instance \<Rightarrow> Instance) \<Rightarrow> ('r, 'm) InstanceAssembler \<Rightarrow> ('r, 'm) InstanceAssembler" where
  "on_instance job f s =
     (case dict_get (asm_instances s) job of
        None \<Rightarrow> s
      | Some md \<Rightarrow>
          if md_shared md then on_managed_instance (ins_id (md_instance md)) f s
          else on_entry job (\<lambda>md. md\<lparr>md_instance := f (md_instance md)\<rparr>) s)"

section \<open>Persistence\<close>

definition asm_checksum :: "'m asm_env \<Rightarrow> 'm AssemblerState \<Rightarrow> string" where
  "asm_checksum env ps = asm_digest env (as_data ps) (as_version ps) (as_timestamp ps)"

definition asm_persist :: "'m asm_env \<Rightarrow> ('r, 'm) InstanceAssembler \<Rightarrow> ('r, 'm) InstanceAssembler \<times> bool" where
  "asm_persist env s =
     (let v = asm_data_version s + 1;
          data = \<lparr>ad_ins_id_cnt = Some (ins_id_cnt s),
                  ad_instances = Some (map (\<lambda>(job, md). (job, md_dump env md)) (asm_instances s))\<rparr>;
          ps = \<lparr>as_data = data, as_version = v, as_timestamp = asm_now env, as_checksum = []\<rparr>;
          ps' = ps\<lparr>as_checksum := asm_checksum env ps\<rparr>;
          s1 = s\<lparr>asm_data_version := v\<rparr>
      in if asm_etcd_up env then (s1\<lparr>asm_etcd := Asm_state ps'\<rparr>, True) else (s1, False))"

definition maybe_persist :: "'m asm_env \<Rightarrow> ('r, 'm) InstanceAssembler \<Rightarrow> ('r, 'm) InstanceAssembler" where
  "maybe_persist env s = (if asm_persistence s then fst (asm_persist env s) else s)"

text \<open>
  One restored entry is marked as a re-registration; one that pydantic rejects is skipped.
\<close>

definition restore_metadata ::
  "'m asm_env \<Rightarrow> (string, AssembleInstanceMetadata) dict \<Rightarrow> string \<times> 'm
   \<Rightarrow> (string, AssembleInstanceMetadata) dict" where
  "restore_metadata env d entry =
     (case md_validate env (snd entry) of
        None \<Rightarrow> d
      | Some md \<Rightarrow> dict_set (fst entry) (md\<lparr>is_reregister := True, md_shared := False\<rparr>) d)"

definition asm_restore :: "'m asm_env \<Rightarrow> ('r, 'm) InstanceAssembler \<Rightarrow> ('r, 'm) InstanceAssembler \<times> bool" where
  "asm_restore env s =
     (case asm_etcd s of
        Asm_empty \<Rightarrow> (s, True)
      | Asm_malformed \<Rightarrow> (s, False)
      | Asm_state ps \<Rightarrow>
          if as_checksum ps \<noteq> asm_checksum env ps then (s, False)
          else (s\<lparr>asm_data_version := max (asm_data_version s) (as_version ps),
                  ins_id_cnt := (case ad_ins_id_cnt (as_data ps) of Some n \<Rightarrow> n | None \<Rightarrow> 0),
                  asm_instances := foldl (restore_metadata env) []
                    (case ad_instances (as_data ps) of Some d \<Rightarrow> d | None \<Rightarrow> [])\<rparr>, True))"

text \<open>
  The part of \<open>start\<close> that touches the entries.
\<close>

definition asm_start :: "'m asm_env \<Rightarrow> ('r, 'm) InstanceAssembler \<Rightarrow> ('r, 'm) InstanceAssembler" where
  "asm_start env s = (if asm_persistence s then fst (asm_restore env s) else s)"

section \<open>Endpoints of a registering pod\<close>

definition py_slice :: "int \<Rightarrow> int \<Rightarrow> 'a list \<Rightarrow> 'a list" where
  "py_slice a b xs =
     (let n = int (length xs);
          norm = (\<lambda>i. if i < 0 then max 0 (n + i) else min n i)
      in take (nat (norm b - norm a)) (drop (nat (norm a)) xs))"

definition fresh_endpoint ::
  "pyfloat \<Rightarrow> int \<Rightarrow> string \<Rightarrow> string \<Rightarrow> int option \<Rightarrow> DeviceInfo list \<Rightarrow> Endpoint" where
  "fresh_endpoint now i ip port boot devs =
     \<lparr>ep_id = i, ep_ip = ip, business_port = port, bootstrap_port = boot, kv_events_port = None,
      ep_status = EP_INITIAL, device_infos = devs, hb_timestamp = now,
      ep_workload = empty_workload, headless = False, engine_rank = None\<rparr>"

definition plain_device :: "int \<Rightarrow> int \<Rightarrow> DeviceInfo" where
  "plain_device dev rank =
     \<lparr>device_ip = None, device_id = py_str_int dev, rank_id = py_str_int rank, super_device_id = None\<rparr>"

definition build_device_infos :: "RegisterMsg \<Rightarrow> int \<Rightarrow> int \<Rightarrow> int \<Rightarrow> py_error + DeviceInfo list" where
  "build_device_infos msg start_idx devices_per_endpoint id_offset =
     (case rg_ranktable msg of
        Some rt \<Rightarrow>
          (case server_list rt of
             [] \<Rightarrow> Inl IndexError
           | first # _ \<Rightarrow>
               (let server = (case find (\<lambda>item. rg_pod_ip msg = container_ip item \<or> rg_pod_ip msg = server_id item)
                                        (server_list rt) of Some sv \<Rightarrow> sv | None \<Rightarrow> first)
                in Inr (py_slice start_idx (start_idx + devices_per_endpoint) (sv_device server))))
      | None \<Rightarrow>
          Inr (map (\<lambda>d. plain_device d (id_offset * devices_per_endpoint + d))
                 (filter (\<lambda>d. d < rg_device_num msg)
                    (map (\<lambda>j. start_idx + int j) [0..<nat devices_per_endpoint]))))"

definition build_single_endpoint :: "pyfloat \<Rightarrow> RegisterMsg \<Rightarrow> int \<Rightarrow> py_error + (int, Endpoint) dict" where
  "build_single_endpoint now msg id_offset =
     (case build_device_infos msg 0 (local_world_size (rg_parallel_config msg)) id_offset of
        Inl e \<Rightarrow> Inl e
      | Inr devs \<Rightarrow>
          (case rg_business_port msg of
             [] \<Rightarrow> Inl IndexError
           | port # _ \<Rightarrow>
               Inr [(id_offset, fresh_endpoint now id_offset (rg_pod_ip msg) port (rg_bootstrap_port msg) devs)]))"

text \<open>
  The loop over the ports, from port \<open>i\<close> on.
\<close>

fun multi_loop :: "pyfloat \<Rightarrow> RegisterMsg \<Rightarrow> int \<Rightarrow> int \<Rightarrow> string list \<Rightarrow> py_error + (int, Endpoint) dict" where
  "multi_loop now msg id_offset i [] = Inr []"
| "multi_loop now msg id_offset i (port # ports) =
     (let n = local_world_size (rg_parallel_config msg); start_idx = n * i
      in if start_idx + n > rg_device_num msg then Inr []
         else (case build_device_infos msg start_idx n id_offset of
                 Inl e \<Rightarrow> Inl e
               | Inr devs \<Rightarrow>
                   (case multi_loop now msg id_offset (i + 1) ports of
                      Inl e \<Rightarrow> Inl e
                    | Inr eps \<Rightarrow>
                        Inr ((id_offset + i, fresh_endpoint now (id_offset + i) (rg_pod_ip msg) port
                                (rg_bootstrap_port msg) devs) # eps))))"

definition build_multi_endpoints :: "pyfloat \<Rightarrow> RegisterMsg \<Rightarrow> int \<Rightarrow> py_error + (int, Endpoint) dict" where
  "build_multi_endpoints now msg id_offset =
     (let n = local_world_size (rg_parallel_config msg)
      in if int (length (rg_business_port msg)) * n > rg_device_num msg
         then (if n = 0 then Inl ZeroDivisionError
               else multi_loop now msg id_offset 0 (py_slice 0 (rg_device_num msg div n) (rg_business_port msg)))
         else multi_loop now msg id_offset 0 (rg_business_port msg))"

text \<open>
  The endpoints of the pod, and the instance's ranktable with the pod's servers appended.
\<close>

definition merge_ranktable :: "Ranktable option \<Rightarrow> Ranktable option \<Rightarrow> Ranktable option" where
  "merge_ranktable new old =
     (case new of
        None \<Rightarrow> old
      | Some rt \<Rightarrow>
          (case old of
             None \<Rightarrow> Some rt
           | Some t \<Rightarrow>
               (let servers = server_list t @ server_list rt
                in Some (t\<lparr>server_list := servers, server_count := py_str_int (int (length servers))\<rparr>))))"

definition build_endpoints ::
  "pyfloat \<Rightarrow> RegisterMsg \<Rightarrow> AssembleInstanceMetadata \<Rightarrow> py_error + (int, Endpoint) dict \<times> Ranktable option" where
  "build_endpoints now msg md =
     (let id_offset = get_endpoints_num (md_instance md)
      in case (if rg_enable_multi_endpoints msg then build_multi_endpoints now msg id_offset
               else build_single_endpoint now msg id_offset) of
           Inl e \<Rightarrow> Inl e
         | Inr eps \<Rightarrow> Inr (eps, merge_ranktable (rg_ranktable msg) (md_ranktable md)))"

section \<open>Start commands\<close>

definition send_start_command ::
  "'m asm_env \<Rightarrow> NodeManagerInfo \<Rightarrow> StartCmdMsg \<Rightarrow> ('r, 'm) InstanceAssembler \<Rightarrow> ('r, 'm) InstanceAssembler \<times> bool" where
  "send_start_command env nm cmd s =
     (s\<lparr>start_commands := start_commands s @ [(nm, cmd)]\<rparr>, post_start env nm cmd)"

definition role_section_key :: "string \<Rightarrow> string" where
  "role_section_key role =
     (case PDRole_of role of
        Some ROLE_E \<Rightarrow> ''motor_engine_encode_config''
      | Some ROLE_P \<Rightarrow> ''motor_engine_prefill_config''
      | Some ROLE_D \<Rightarrow> ''motor_engine_decode_config''
      | _ \<Rightarrow> ''motor_engine_union_config'')"

definition read_d2d_enabled :: "'m asm_env \<Rightarrow> string \<Rightarrow> string \<Rightarrow> bool" where
  "read_d2d_enabled env path role =
     (if path = [] then False
      else (case load_d2d_config env path (role_section_key role) of
              Inl e \<Rightarrow> False
            | Inr None \<Rightarrow> False
            | Inr (Some d2d) \<Rightarrow>
                if json_get d2d ''source'' JNull \<noteq> JStr ''auto'' then False
                else json_get d2d ''listen_port'' JNull \<noteq> JNull))"

definition is_d2d_enabled_for_role ::
  "'m asm_env \<Rightarrow> string \<Rightarrow> ('r, 'm) InstanceAssembler \<Rightarrow> ('r, 'm) InstanceAssembler \<times> bool" where
  "is_d2d_enabled_for_role env role s =
     (case dict_get (d2d_enabled_cache s) role of
        Some cached \<Rightarrow> (s, cached)
      | None \<Rightarrow>
          (let enabled = read_d2d_enabled env (user_config_path s) role
           in (s\<lparr>d2d_enabled_cache := dict_set role enabled (d2d_enabled_cache s)\<rparr>, enabled)))"

text \<open>
  The IPs of the active peers' endpoints with a given ID, each once, and their encoding. The
  order in which the code walks a set of IPs is \<open>iter_set\<close>.
\<close>

definition peer_ips :: "AssembleInstanceMetadata \<Rightarrow> 'r InstanceManager \<Rightarrow> int \<Rightarrow> string list" where
  "peer_ips md mgr i =
     remdups (concat (map (\<lambda>inst. map ep_ip (filter (\<lambda>ep. ep_id ep = i) (snd (get_all_endpoints True inst))))
       (filter (\<lambda>inst. ins_role inst = ins_role (md_instance md) \<and> job_name inst \<noteq> job_name (md_instance md))
          (get_instances (Some {ACTIVE}) mgr))))"

definition collect_d2d_peer_ips ::
  "'m asm_env \<Rightarrow> AssembleInstanceMetadata \<Rightarrow> Endpoint list \<Rightarrow> 'r InstanceManager \<Rightarrow> string list option" where
  "collect_d2d_peer_ips env md eps mgr =
     (let encoded = concat (map (\<lambda>ep. map (\<lambda>ip. py_str_int (ep_id ep) @ '':'' @ ip)
                                   (iter_set env (peer_ips md mgr (ep_id ep)))) eps)
      in if encoded = [] then None else Some encoded)"

definition start_cmd_for ::
  "'m asm_env \<Rightarrow> AssembleInstanceMetadata \<Rightarrow> string \<Rightarrow> bool \<Rightarrow> int \<Rightarrow> Endpoint list \<Rightarrow> 'r InstanceManager \<Rightarrow> StartCmdMsg" where
  "start_cmd_for env md master d2d rank eps mgr =
     \<lparr>sc_job_name = job_name (md_instance md), sc_role = ins_role (md_instance md),
      sc_instance_id = ins_id (md_instance md), sc_endpoints = eps, master_dp_ip = master,
      sc_ranktable = md_ranktable md,
      d2d_peer_ips = (if d2d then collect_d2d_peer_ips env md eps mgr else None),
      sc_node_rank = (if md_nnodes md > 1 then rank mod md_nnodes md else rank), extra_env = []\<rparr>"

text \<open>
  The loop over the node managers from rank \<open>rank\<close> on, with the number of commands sent and the
  conjunction of the answers.
\<close>

fun start_loop ::
  "'m asm_env \<Rightarrow> AssembleInstanceMetadata \<Rightarrow> string \<Rightarrow> bool \<Rightarrow> int \<Rightarrow> NodeManagerInfo list \<Rightarrow> int \<times> bool
   \<Rightarrow> ('r, 'm) InstanceAssembler \<Rightarrow> ('r, 'm) InstanceAssembler \<times> int \<times> bool" where
  "start_loop env md master d2d rank [] acc s = (s, acc)"
| "start_loop env md master d2d rank (nm # nms) acc s =
     (let eps = dict_values (get_endpoints (pod_ip nm) (md_instance md))
      in if eps = [] then start_loop env md master d2d (rank + 1) nms acc s
         else (let (s1, ok) = send_start_command env nm (start_cmd_for env md master d2d rank eps (manager s)) s
               in start_loop env md master d2d (rank + 1) nms (fst acc + 1, ok \<and> snd acc) s1))"

definition choose_master :: "AssembleInstanceMetadata \<Rightarrow> string" where
  "choose_master md =
     (case snapshot_dp_master_ip md of
        Some ip \<Rightarrow> if ip \<noteq> [] then ip
                   else (case node_managers (md_instance md) of [] \<Rightarrow> [] | nm # _ \<Rightarrow> pod_ip nm)
      | None \<Rightarrow> (case node_managers (md_instance md) of [] \<Rightarrow> [] | nm # _ \<Rightarrow> pod_ip nm))"

definition send_start_commands ::
  "'m asm_env \<Rightarrow> AssembleInstanceMetadata \<Rightarrow> ('r, 'm) InstanceAssembler \<Rightarrow> ('r, 'm) InstanceAssembler \<times> bool" where
  "send_start_commands env md s =
     (let master = choose_master md; nms = node_managers (md_instance md)
      in if master = [] then (s, False)
         else (let (s1, d2d) = is_d2d_enabled_for_role env (ins_role (md_instance md)) s;
                   (s2, sent, ok) = start_loop env md master d2d 0 nms (0, True) s1
               in if sent = 0 then (s2, False)
                  else if md_nnodes md > 1 \<and> sent < int (length nms) then (s2, False)
                  else (s2, ok)))"

text \<open>
  One job in a pass of the start-command sender, with the flag \<open>state_changed\<close>, and the pass.
\<close>

definition start_job ::
  "'m asm_env \<Rightarrow> int \<Rightarrow> ('r, 'm) InstanceAssembler \<times> bool \<Rightarrow> string \<Rightarrow> ('r, 'm) InstanceAssembler \<times> bool" where
  "start_job env max_retry_times st job =
     (let (s, changed) = st
      in case dict_get (asm_instances s) job of
           None \<Rightarrow> st
         | Some md \<Rightarrow>
             if register_status md \<noteq> ASSEMBLED then st
             else (let (s1, ok) = send_start_commands env md s
                   in if ok then (drop_entry job s1, True)
                      else (let retry_times = start_command_send_times md + 1
                            in if retry_times < max_retry_times
                               then (on_entry job (\<lambda>md. md\<lparr>start_command_send_times := retry_times\<rparr>) s1, True)
                               else (drop_entry job s1, True))))"

definition start_command_round :: "'m asm_env \<Rightarrow> ('r, 'm) InstanceAssembler \<Rightarrow> ('r, 'm) InstanceAssembler" where
  "start_command_round env s =
     (let (s1, changed) = foldl (start_job env (send_cmd_retry_times s)) (s, False) (dict_keys (asm_instances s))
      in if changed then maybe_persist env s1 else s1)"

section \<open>Replacement pods of a scaled-down instance\<close>

definition active_instance_by_job_name :: "string \<Rightarrow> 'r InstanceManager \<Rightarrow> Instance option" where
  "active_instance_by_job_name job mgr =
     (case foldl (\<lambda>current cand.
                    if job_name cand \<noteq> job then current
                    else (case current of
                            None \<Rightarrow> Some (ins_id cand)
                          | Some c \<Rightarrow> if ins_id cand \<ge> c then Some (ins_id cand) else current))
                 None (get_instances (Some {ACTIVE}) mgr) of
        None \<Rightarrow> None
      | Some i \<Rightarrow> get_instance i mgr)"

definition original_ranks :: "Instance \<Rightarrow> FtRuntime \<Rightarrow> int list" where
  "original_ranks ins rt =
     (if original_dp_ranks rt \<noteq> [] then original_dp_ranks rt
      else (case parallel_config ins of
              None \<Rightarrow> []
            | Some pc \<Rightarrow> if dp_size pc > 0 then map int [0..<nat (dp_size pc)] else []))"

definition present_ranks :: "Instance \<Rightarrow> int list" where
  "present_ranks ins =
     map ep_id (filter (\<lambda>ep. ep_ip ep \<in> pod_ip ` set (node_managers ins)) (snd (get_all_endpoints True ins)))"

definition missing_dp_ranks :: "Instance \<Rightarrow> FtRuntime \<Rightarrow> int list" where
  "missing_dp_ranks ins rt =
     sort (remdups (filter (\<lambda>r. r \<notin> set (present_ranks ins)) (original_ranks ins rt)))"

fun replacement_business_ports :: "join_msg \<Rightarrow> string list" where
  "replacement_business_ports (Join_register m) = rg_business_port m"
| "replacement_business_ports (Join_reregister m) = map business_port (rr_endpoints m)"

definition devices_per_rank :: "join_msg \<Rightarrow> int" where
  "devices_per_rank msg = (if jm_local_world_size msg = 0 then 1 else jm_local_world_size msg)"

definition pick_replacement_rank_slot :: "join_msg \<Rightarrow> int list \<Rightarrow> int list" where
  "pick_replacement_rank_slot msg missing =
     (if missing = [] then []
      else (let dpr = devices_per_rank msg;
                ports = replacement_business_ports msg;
                dn = jm_device_num msg
            in if dn < dpr then []
               else (let by_device = dn div dpr;
                         by_ports = (if ports \<noteq> [] then int (length ports) else by_device);
                         capacity = min by_device by_ports
                     in if capacity \<le> 0 then []
                        else (let slot = py_slice 0 capacity missing
                              in if dn < int (length slot) * dpr then []
                                 else if ports \<noteq> [] \<and> length ports < length slot then []
                                 else slot))))"

fun carried_endpoints :: "string \<Rightarrow> Endpoint list \<Rightarrow> int list \<Rightarrow> (int, Endpoint) dict" where
  "carried_endpoints ip (src # eps) (r # rs) =
     (r, src\<lparr>ep_id := r, ep_ip := ip, ep_status := EP_INITIAL, hb_timestamp := 0\<rparr>)
     # carried_endpoints ip eps rs"
| "carried_endpoints ip _ _ = []"

definition replacement_devices :: "RegisterMsg \<Rightarrow> int \<Rightarrow> int \<Rightarrow> int \<Rightarrow> py_error + DeviceInfo list" where
  "replacement_devices msg dpr start_idx rank =
     (case build_device_infos msg start_idx dpr 0 of
        Inl e \<Rightarrow> Inl e
      | Inr devs \<Rightarrow>
          if devs \<noteq> [] then Inr devs
          else Inr (map (\<lambda>j. plain_device (start_idx + int j) (rank * dpr + int j))
                      (filter (\<lambda>j. start_idx + int j < rg_device_num msg) [0..<nat dpr])))"

fun replacement_loop ::
  "pyfloat \<Rightarrow> RegisterMsg \<Rightarrow> int \<Rightarrow> int \<Rightarrow> string list \<Rightarrow> int list \<Rightarrow> py_error + (int, Endpoint) dict" where
  "replacement_loop now msg dpr idx (port # ports) (r # rs) =
     (case replacement_devices msg dpr (dpr * idx) r of
        Inl e \<Rightarrow> Inl e
      | Inr devs \<Rightarrow>
          (case replacement_loop now msg dpr (idx + 1) ports rs of
             Inl e \<Rightarrow> Inl e
           | Inr eps \<Rightarrow>
               Inr ((r, fresh_endpoint now r (rg_pod_ip msg) port (rg_bootstrap_port msg) devs) # eps)))"
| "replacement_loop now msg dpr idx _ _ = Inr []"

fun build_replacement_endpoints :: "pyfloat \<Rightarrow> join_msg \<Rightarrow> int list \<Rightarrow> py_error + (int, Endpoint) dict" where
  "build_replacement_endpoints now (Join_reregister m) ranks =
     (if length (rr_endpoints m) < length ranks then Inr []
      else Inr (carried_endpoints (rr_pod_ip m) (rr_endpoints m) (sort ranks)))"
| "build_replacement_endpoints now (Join_register m) ranks =
     (if length (rg_business_port m) < length ranks then Inr []
      else replacement_loop now m (devices_per_rank (Join_register m)) 0 (rg_business_port m) (sort ranks))"

definition pod_ranktable_servers :: "join_msg \<Rightarrow> ServerInfo list" where
  "pod_ranktable_servers msg =
     (case jm_ranktable msg of
        None \<Rightarrow> []
      | Some rt \<Rightarrow>
          (case server_list rt of
             [] \<Rightarrow> []
           | first # _ \<Rightarrow>
               (let matched = filter (\<lambda>sv. jm_pod_ip msg = container_ip sv \<or> jm_pod_ip msg = server_id sv)
                                     (server_list rt)
                in if matched \<noteq> [] then matched else [first])))"

text \<open>
  \<open>seen\<close> keeps the first server of every pair (server ID, container IP).
\<close>

fun first_servers :: "(string \<times> string) set \<Rightarrow> ServerInfo list \<Rightarrow> ServerInfo list" where
  "first_servers seen [] = []"
| "first_servers seen (sv # svs) =
     (if (server_id sv, container_ip sv) \<in> seen then first_servers seen svs
      else sv # first_servers (insert (server_id sv, container_ip sv) seen) svs)"

definition survivor_servers :: "Instance \<Rightarrow> string \<Rightarrow> ServerInfo list" where
  "survivor_servers ins joiner =
     filter (\<lambda>sv. sv_device sv \<noteq> [])
       (map (\<lambda>nm. \<lparr>server_id = pod_ip nm, container_ip = pod_ip nm,
                   sv_device = concat (map device_infos (dict_values (get_endpoints (pod_ip nm) ins)))\<rparr>)
          (filter (\<lambda>nm. pod_ip nm \<noteq> joiner) (node_managers ins)))"

definition instance_ranktable_for_replacement :: "Instance \<Rightarrow> join_msg \<Rightarrow> Ranktable option" where
  "instance_ranktable_for_replacement ins msg =
     (let servers = first_servers {} (survivor_servers ins (jm_pod_ip msg) @ pod_ranktable_servers msg)
      in if servers = [] then None
         else Some \<lparr>rk_version = (case jm_ranktable msg of
                                    Some rt \<Rightarrow> if rk_version rt \<noteq> [] then rk_version rt else ''1.2''
                                  | None \<Rightarrow> ''1.2''),
                    rk_status = ''completed'', server_count = py_str_int (int (length servers)),
                    server_list = servers\<rparr>)"

definition send_replacement_start_command ::
  "'m asm_env \<Rightarrow> Instance \<Rightarrow> join_msg \<Rightarrow> (int, Endpoint) dict \<Rightarrow> ('r, 'm) InstanceAssembler
   \<Rightarrow> ('r, 'm) InstanceAssembler \<times> bool" where
  "send_replacement_start_command env ins msg eps s =
     (case find (\<lambda>nm. pod_ip nm = jm_pod_ip msg) (node_managers ins) of
        None \<Rightarrow> (s, False)
      | Some nm \<Rightarrow>
          (let others = concat (map (\<lambda>nm. dict_values (get_endpoints (pod_ip nm) ins))
                                  (filter (\<lambda>nm. pod_ip nm \<noteq> jm_pod_ip msg) (node_managers ins)))
           in case min_scan ep_id None (dict_values eps @ others) of
                None \<Rightarrow> (s, False)
              | Some master_ep \<Rightarrow>
                  (let ep_ids = sort (dict_keys eps)
                   in send_start_command env nm
                        \<lparr>sc_job_name = job_name ins, sc_role = ins_role ins, sc_instance_id = ins_id ins,
                         sc_endpoints = dict_values eps, master_dp_ip = ep_ip master_ep,
                         sc_ranktable = instance_ranktable_for_replacement ins msg, d2d_peer_ips = None,
                         sc_node_rank = (case ep_ids of [] \<Rightarrow> 0 | i # _ \<Rightarrow> i div int (length ep_ids)),
                         extra_env = [(''VLLM_ELASTIC_EP_SCALE_UP_LAUNCH'', ''1'')]\<rparr> s)))"

definition JOIN_PHASES :: "FtPhase set" where
  "JOIN_PHASES = {PH_SCALED_DOWN_RUNNING, PH_POST_SCALE_CLEANUP, PH_WARMING_UP}"

text \<open>
  The attachment of the built endpoints, the start command and, when it fails, the rollback.
\<close>

definition attach_replacement ::
  "'m asm_env \<Rightarrow> 'r ctl_env \<Rightarrow> int \<Rightarrow> join_msg \<Rightarrow> (int, Endpoint) dict \<Rightarrow> ('r, 'm) InstanceAssembler
   \<Rightarrow> ('r, 'm) InstanceAssembler \<times> int" where
  "attach_replacement env cenv i msg eps s =
     (let ip = jm_pod_ip msg;
          s1 = on_managed_instance i (add_node_mgr (Some ip) (Some (jm_nm_port msg)) (jm_device_num msg)
                                      \<circ> add_endpoints ip (Some eps)) s
      in case get_instance i (manager s1) of
           None \<Rightarrow> (s1, -1)
         | Some ins \<Rightarrow>
             (let (s2, started) = send_replacement_start_command env ins msg eps s1
              in if started then (on_manager (\<lambda>mgr. fst (persist_topology cenv mgr)) s2, 0)
                 else (on_managed_instance i (del_endpoints ip \<circ> del_node_mgr (Some ip) (Some (jm_nm_port msg))) s2,
                       -1)))"

definition join_or_reject_assembled ::
  "'m asm_env \<Rightarrow> 'r ctl_env \<Rightarrow> join_msg \<Rightarrow> ('r, 'm) InstanceAssembler
   \<Rightarrow> ('r, 'm) InstanceAssembler \<times> (py_error + int)" where
  "join_or_reject_assembled env cenv msg s =
     (if \<not> enable_dp_scale_up s then (s, Inr (-1))
      else case active_instance_by_job_name (jm_job_name msg) (manager s) of
        None \<Rightarrow> (s, Inr (-1))
      | Some ins \<Rightarrow>
          if ft_capability ins \<noteq> jm_ft_capability msg then (s, Inr (-1))
          else if has_node_mgr (Some (jm_pod_ip msg)) ins then (s, Inr 0)
          else (case rt_get (ins_id ins) (asm_ft_store env) of
                  None \<Rightarrow> (s, Inr (-1))
                | Some rt \<Rightarrow>
                    if phase rt \<notin> JOIN_PHASES then (s, Inr (-1))
                    else (let slot = pick_replacement_rank_slot msg (missing_dp_ranks ins rt)
                          in if slot = [] then (s, Inr (-1))
                             else (case build_replacement_endpoints (asm_now env) msg slot of
                                     Inl e \<Rightarrow> (s, Inl e)
                                   | Inr eps \<Rightarrow>
                                       if eps = [] then (s, Inr (-1))
                                       else if list_ex (\<lambda>r. r \<notin> set (missing_dp_ranks ins rt)) slot then (s, Inr (-1))
                                       else (let (s1, ret) = attach_replacement env cenv (ins_id ins) msg eps s
                                             in (s1, Inr ret))))))"

section \<open>Registration\<close>

definition eval_register_status :: "string \<Rightarrow> ('r, 'm) InstanceAssembler \<Rightarrow> RegisterStatus" where
  "eval_register_status job s =
     (if has_active_instance_by_job_name job (manager s) then ASSEMBLED
      else if in_dict job (asm_instances s) then ASSEMBLING
      else NOT_REGISTERED)"

definition Instance_init ::
  "string \<Rightarrow> string \<Rightarrow> string option \<Rightarrow> string list \<Rightarrow> FtCapabilitySnapshot \<Rightarrow> int \<Rightarrow> string \<Rightarrow> ParallelConfig
   \<Rightarrow> bool \<Rightarrow> Instance" where
  "Instance_init job model eng disp ft i role pc multi =
     \<lparr>job_name = job, model_name = model, engine_type = eng, dispatch_capabilities = disp,
      ft_capability = ft, ins_id = i, ins_role = role, ins_status = INITIAL, parallel_config = Some pc,
      enable_multi_endpoints = multi, node_managers = [], endpoints = [],
      gathered_workload = empty_workload, endpoints_version = 0, cached_endpoints_tuple = None,
      cached_endpoints_version = None\<rparr>"

definition new_entry :: "pyfloat \<Rightarrow> Instance \<Rightarrow> bool \<Rightarrow> int \<Rightarrow> AssembleInstanceMetadata" where
  "new_entry now ins rereg nn =
     \<lparr>md_instance = ins, register_status = NOT_REGISTERED, start_command_send_times = 0,
      register_timestamp = now, is_reregister = rereg, md_ranktable = None, md_nnodes = nn,
      snapshot_dp_master_ip = None, md_shared = False\<rparr>"

definition open_registration ::
  "'m asm_env \<Rightarrow> RegisterMsg \<Rightarrow> ('r, 'm) InstanceAssembler \<Rightarrow> ('r, 'm) InstanceAssembler" where
  "open_registration env msg s =
     (let ins = Instance_init (rg_job_name msg) (rg_model_name msg) (rg_engine_type msg)
                  (rg_dispatch_capabilities msg) (rg_ft_capability msg) (ins_id_cnt s) (rg_role msg)
                  (rg_parallel_config msg) (rg_enable_multi_endpoints msg)
      in s\<lparr>asm_instances := dict_set (rg_job_name msg) (new_entry (asm_now env) ins False (rg_nnodes msg))
                              (asm_instances s),
           ins_id_cnt := ins_id_cnt s + 1\<rparr>)"

text \<open>
  A pod that says it hosts DP rank 0 becomes the snapshot master unless the recorded one is still
  registered.
\<close>

definition record_master :: "RegisterMsg \<Rightarrow> AssembleInstanceMetadata \<Rightarrow> AssembleInstanceMetadata" where
  "record_master msg md =
     (if \<not> rg_is_master msg then md
      else (case snapshot_dp_master_ip md of
              Some ip \<Rightarrow>
                if ip \<noteq> [] \<and> ip \<noteq> rg_pod_ip msg \<and> has_node_mgr (Some ip) (md_instance md) then md
                else md\<lparr>snapshot_dp_master_ip := Some (rg_pod_ip msg)\<rparr>
            | None \<Rightarrow> md\<lparr>snapshot_dp_master_ip := Some (rg_pod_ip msg)\<rparr>))"

definition admit_pod ::
  "'m asm_env \<Rightarrow> RegisterMsg \<Rightarrow> ('r, 'm) InstanceAssembler \<Rightarrow> ('r, 'm) InstanceAssembler \<times> (py_error + int)" where
  "admit_pod env msg s =
     (let job = rg_job_name msg; ip = rg_pod_ip msg;
          s1 = on_entry job (record_master msg) s;
          s2 = on_instance job (add_node_mgr (Some ip) (Some (rg_nm_port msg)) (rg_device_num msg)) s1
      in case dict_get (asm_instances s2) job of
           None \<Rightarrow> (s2, Inl KeyError)
         | Some md \<Rightarrow>
             (case build_endpoints (asm_now env) msg md of
                Inl e \<Rightarrow> (s2, Inl e)
              | Inr (eps, table) \<Rightarrow>
                  (maybe_persist env
                     (on_instance job (add_endpoints ip (Some eps))
                        (on_entry job (\<lambda>md. md\<lparr>md_ranktable := table\<rparr>) s2)), Inr 0)))"

definition register_pod ::
  "'m asm_env \<Rightarrow> RegisterMsg \<Rightarrow> ('r, 'm) InstanceAssembler \<Rightarrow> ('r, 'm) InstanceAssembler \<times> (py_error + int)" where
  "register_pod env msg s =
     (case dict_get (asm_instances s) (rg_job_name msg) of
        None \<Rightarrow> (s, Inl KeyError)
      | Some md \<Rightarrow>
          if ft_capability (md_instance md) \<noteq> rg_ft_capability msg then (s, Inr (-1))
          else if has_node_mgr (Some (rg_pod_ip msg)) (md_instance md) then (s, Inr 0)
          else admit_pod env msg s)"

definition touch_registration :: "'m asm_env \<Rightarrow> string \<Rightarrow> ('r, 'm) InstanceAssembler \<Rightarrow> ('r, 'm) InstanceAssembler" where
  "touch_registration env job = on_entry job (\<lambda>md. md\<lparr>register_timestamp := asm_now env\<rparr>)"

definition via_reregister :: "string \<Rightarrow> ('r, 'm) InstanceAssembler \<Rightarrow> bool" where
  "via_reregister job s =
     (case dict_get (asm_instances s) job of None \<Rightarrow> False | Some md \<Rightarrow> is_reregister md)"

definition register ::
  "'m asm_env \<Rightarrow> 'r ctl_env \<Rightarrow> RegisterMsg \<Rightarrow> ('r, 'm) InstanceAssembler
   \<Rightarrow> ('r, 'm) InstanceAssembler \<times> (py_error + int)" where
  "register env cenv msg s =
     (case eval_register_status (rg_job_name msg) s of
        ASSEMBLED \<Rightarrow> join_or_reject_assembled env cenv (Join_register msg) s
      | NOT_REGISTERED \<Rightarrow> register_pod env msg (open_registration env msg s)
      | ASSEMBLING \<Rightarrow>
          if via_reregister (rg_job_name msg) s then (s, Inr (-1))
          else register_pod env msg (touch_registration env (rg_job_name msg) s))"

definition open_reregistration ::
  "'m asm_env \<Rightarrow> ReregisterMsg \<Rightarrow> ('r, 'm) InstanceAssembler \<Rightarrow> ('r, 'm) InstanceAssembler" where
  "open_reregistration env msg s =
     (let ins = Instance_init (rr_job_name msg) (rr_model_name msg) (rr_engine_type msg)
                  (rr_dispatch_capabilities msg) (rr_ft_capability msg) (rr_instance_id msg) (rr_role msg)
                  (rr_parallel_config msg) (rr_enable_multi_endpoints msg)
      in s\<lparr>asm_instances := dict_set (rr_job_name msg) (new_entry (asm_now env) ins True (rr_nnodes msg))
                              (asm_instances s)\<rparr>)"

text \<open>
  The endpoints a pod brings back, keyed by their IDs; those of a cross-node slave are headless.
\<close>

definition reregistered_endpoints :: "int \<Rightarrow> ReregisterMsg \<Rightarrow> (int, Endpoint) dict" where
  "reregistered_endpoints nn msg =
     foldl (\<lambda>d ep. dict_set (ep_id ep) ep d) []
       (if nn > 1 \<and> rr_node_rank msg \<noteq> 0 then map (\<lambda>ep. ep\<lparr>headless := True\<rparr>) (rr_endpoints msg)
        else rr_endpoints msg)"

definition reregister_pod ::
  "'m asm_env \<Rightarrow> ReregisterMsg \<Rightarrow> ('r, 'm) InstanceAssembler \<Rightarrow> ('r, 'm) InstanceAssembler \<times> (py_error + int)" where
  "reregister_pod env msg s =
     (let job = rr_job_name msg; ip = rr_pod_ip msg
      in case dict_get (asm_instances s) job of
           None \<Rightarrow> (s, Inl KeyError)
         | Some md \<Rightarrow>
             if ft_capability (md_instance md) \<noteq> rr_ft_capability msg then (s, Inr (-1))
             else (let s1 = s\<lparr>ins_id_cnt := max (ins_id_cnt s) (rr_instance_id msg + 1)\<rparr>;
                       s2 = on_instance job (add_node_mgr (Some ip) (Some (rr_nm_port msg)) (rr_device_num msg)) s1;
                       s3 = on_instance job (add_endpoints ip (Some (reregistered_endpoints (md_nnodes md) msg))) s2
                   in (maybe_persist env s3, Inr 0)))"

definition reregister ::
  "'m asm_env \<Rightarrow> 'r ctl_env \<Rightarrow> ReregisterMsg \<Rightarrow> ('r, 'm) InstanceAssembler
   \<Rightarrow> ('r, 'm) InstanceAssembler \<times> (py_error + int)" where
  "reregister env cenv msg s =
     (case eval_register_status (rr_job_name msg) s of
        ASSEMBLED \<Rightarrow> join_or_reject_assembled env cenv (Join_reregister msg) s
      | NOT_REGISTERED \<Rightarrow> reregister_pod env msg (open_reregistration env msg s)
      | ASSEMBLING \<Rightarrow>
          if \<not> via_reregister (rr_job_name msg) s then (s, Inr (-1))
          else reregister_pod env msg (touch_registration env (rr_job_name msg) s))"

section \<open>Assembly\<close>

definition filter_abnormal_endpoints :: "'m asm_env \<Rightarrow> Instance \<Rightarrow> Instance" where
  "filter_abnormal_endpoints env ins =
     foldl (\<lambda>x nm. if nm_reachable env nm then x
                   else del_node_mgr (Some (pod_ip nm)) (Some (nm_port nm)) (del_endpoints (pod_ip nm) x))
           ins (node_managers ins)"

definition clear_stale_master :: "AssembleInstanceMetadata \<Rightarrow> AssembleInstanceMetadata" where
  "clear_stale_master md =
     (case snapshot_dp_master_ip md of
        None \<Rightarrow> md
      | Some ip \<Rightarrow>
          if ip \<noteq> [] \<and> \<not> has_node_mgr (Some ip) (md_instance md) then md\<lparr>snapshot_dp_master_ip := None\<rparr>
          else md)"

definition expected_nodes :: "AssembleInstanceMetadata \<Rightarrow> int" where
  "expected_nodes md =
     (if enable_multi_endpoints (md_instance md)
      then (case parallel_config (md_instance md) of Some pc \<Rightarrow> dp_size pc | None \<Rightarrow> 1) * md_nnodes md
      else get_expected_endpoint_count (md_instance md))"

definition assembly_ready :: "AssembleInstanceMetadata \<Rightarrow> bool" where
  "assembly_ready md =
     (if md_nnodes md > 1 then int (length (node_managers (md_instance md))) \<ge> expected_nodes md
      else is_endpoints_enough (md_instance md))"

text \<open>
  The endpoints of every node manager whose rank is not a multiple of \<open>nnodes\<close> become headless.
\<close>

definition hide_pod :: "string \<Rightarrow> Instance \<Rightarrow> Instance" where
  "hide_pod ip ins =
     ins\<lparr>endpoints := dict_modify ip (map (\<lambda>(k, ep). (k, ep\<lparr>headless := True\<rparr>))) (endpoints ins)\<rparr>"

definition mark_headless :: "int \<Rightarrow> Instance \<Rightarrow> Instance" where
  "mark_headless nn ins =
     invalidate_endpoints_cache
       (foldl (\<lambda>x (rank, nm). if int rank mod nn = 0 then x else hide_pod (pod_ip nm) x)
          ins (enumerate 0 (node_managers ins)))"

text \<open>
  The instance enters the manager's registry: if its ID is new there, the entry's object is the
  one the manager keeps.
\<close>

definition hand_over :: "'m asm_env \<Rightarrow> string \<Rightarrow> ('r, 'm) InstanceAssembler \<Rightarrow> ('r, 'm) InstanceAssembler" where
  "hand_over env job s =
     (case dict_get (asm_instances s) job of
        None \<Rightarrow> s
      | Some md \<Rightarrow>
          (let fresh = (get_instance (ins_id (md_instance md)) (manager s) = None)
           in on_manager (add_instance (asm_now env) (md_instance md))
                (on_entry job (\<lambda>md. md\<lparr>register_status := ASSEMBLED, md_shared := (md_shared md \<or> fresh)\<rparr>) s)))"

definition complete_assembly :: "'m asm_env \<Rightarrow> string \<Rightarrow> ('r, 'm) InstanceAssembler \<Rightarrow> ('r, 'm) InstanceAssembler" where
  "complete_assembly env job s =
     (case dict_get (asm_instances s) job of
        None \<Rightarrow> s
      | Some md \<Rightarrow>
          (let s1 = (if md_nnodes md > 1 \<and> \<not> is_reregister md
                     then on_instance job (mark_headless (md_nnodes md)) s else s);
               s2 = hand_over env job s1
           in if is_reregister md then maybe_persist env (drop_entry job s2) else s2))"

definition assemble_instance :: "'m asm_env \<Rightarrow> string \<Rightarrow> ('r, 'm) InstanceAssembler \<Rightarrow> ('r, 'm) InstanceAssembler" where
  "assemble_instance env job s =
     (let s1 = on_entry job clear_stale_master (on_instance job (filter_abnormal_endpoints env) s)
      in case dict_get (asm_instances s1) job of
           None \<Rightarrow> s1
         | Some md \<Rightarrow>
             if assembly_ready md then complete_assembly env job s1
             else if asm_now env - register_timestamp md > instance_assemble_timeout s1
                  then maybe_persist env (drop_entry job s1)
                  else s1)"

definition assemble_job :: "'m asm_env \<Rightarrow> ('r, 'm) InstanceAssembler \<Rightarrow> string \<Rightarrow> ('r, 'm) InstanceAssembler" where
  "assemble_job env s job =
     (case dict_get (asm_instances s) job of
        None \<Rightarrow> s
      | Some md \<Rightarrow> if register_status md = ASSEMBLED then s else assemble_instance env job s)"

definition assembler_round :: "'m asm_env \<Rightarrow> ('r, 'm) InstanceAssembler \<Rightarrow> ('r, 'm) InstanceAssembler" where
  "assembler_round env s = foldl (assemble_job env) s (dict_keys (asm_instances s))"

section \<open>The assembler as a component\<close>

datatype ('r, 'm) asm_op =
    Asm_register "'m asm_env" "'r ctl_env" RegisterMsg
  | Asm_reregister "'m asm_env" "'r ctl_env" ReregisterMsg
  | Asm_assemble "'m asm_env"
  | Asm_send "'m asm_env"
  | Asm_persist "'m asm_env"
  | Asm_config string bool pyfloat int bool
  | Asm_manager "'r ctl_op"

fun asm_step :: "('r, 'm) InstanceAssembler \<Rightarrow> ('r, 'm) asm_op \<Rightarrow> ('r, 'm) InstanceAssembler" where
  "asm_step s (Asm_register env cenv msg) = fst (register env cenv msg s)"
| "asm_step s (Asm_reregister env cenv msg) = fst (reregister env cenv msg s)"
| "asm_step s (Asm_assemble env) = assembler_round env s"
| "asm_step s (Asm_send env) = start_command_round env s"
| "asm_step s (Asm_persist env) = fst (asm_persist env s)"
| "asm_step s (Asm_config p b t n u) = asm_update_config p b t n u s"
| "asm_step s (Asm_manager op) = on_manager (\<lambda>mgr. ctl_step mgr op) s"

text \<open>
  The endpoint IDs of an instance number its endpoints in registration order, and every pod with
  endpoints is a registered node manager.
\<close>

definition ranks_numbered :: "Instance \<Rightarrow> bool" where
  "ranks_numbered ins \<longleftrightarrow> map ep_id (all_eps ins) = map int [0..<length (all_eps ins)] \<and>
     (\<forall>ip. in_dict ip (endpoints ins) \<longrightarrow> has_node_mgr (Some ip) ins)"

text \<open>
  An entry: its ID was handed out, and while it is being assembled the object is not the
  manager's. The roster of a cold start is tracked (\<open>c\<close>) when every node manager answers.
\<close>

definition asm_entry_ok :: "bool \<Rightarrow> int \<Rightarrow> AssembleInstanceMetadata \<Rightarrow> bool" where
  "asm_entry_ok c cnt md \<longleftrightarrow> ins_id (md_instance md) < cnt \<and>
     (register_status md \<noteq> ASSEMBLED \<longrightarrow> \<not> md_shared md \<and> ins_status (md_instance md) = INITIAL \<and>
        (c \<and> \<not> is_reregister md \<longrightarrow> ranks_numbered (md_instance md)))"

definition asm_ok :: "bool \<Rightarrow> ('r, 'm) InstanceAssembler \<Rightarrow> bool" where
  "asm_ok c s \<longleftrightarrow> registry_ok (manager s) \<and> distinct (dict_keys (asm_instances s)) \<and>
     (\<forall>i. in_dict i (instances (manager s)) \<longrightarrow> i < ins_id_cnt s) \<and>
     (\<forall>job md. dict_get (asm_instances s) job = Some md \<longrightarrow> asm_entry_ok c (ins_id_cnt s) md)"

text \<open>
  The operations between two restarts; the assembler is the only caller of \<open>add_instance\<close>.
\<close>

fun keeps_ids :: "'r ctl_op \<Rightarrow> bool" where
  "keeps_ids (Ctl_add ts ins) = False"
| "keeps_ids (Ctl_restore env) = False"
| "keeps_ids (Ctl_start env) = False"
| "keeps_ids _ = True"

fun asm_legal :: "bool \<Rightarrow> ('r, 'm) asm_op \<Rightarrow> bool" where
  "asm_legal c (Asm_assemble env) = (c \<longrightarrow> (\<forall>nm. nm_reachable env nm))"
| "asm_legal c (Asm_manager op) = keeps_ids op"
| "asm_legal c _ = True"

text \<open>
  Inputs for the witnesses: pods with one device of an instance of two data-parallel ranks, an
  environment in which the pods \<open>dead\<close> do not answer, and an assembler on an empty registry.
\<close>

definition demo_manager0 :: "Instance InstanceManager" where
  "demo_manager0 = (demo_manager ACTIVE)\<lparr>instances := []\<rparr>"

definition demo_pc :: "int \<Rightarrow> ParallelConfig" where
  "demo_pc n = \<lparr>dp_size = n, pcp_size = 1, tp_size = 1, ep_size = 1, pp_size = 1, world_size = n,
     local_world_size = 1, dp_master_port = 29500\<rparr>"

definition demo_register :: "string \<Rightarrow> string list \<Rightarrow> bool \<Rightarrow> RegisterMsg" where
  "demo_register ip ports multi = \<lparr>rg_job_name = ''job'', rg_model_name = ''m'', rg_engine_type = Some ''vllm'',
     rg_dispatch_capabilities = [], rg_ft_capability = default_ft_capability, rg_role = ''prefill'', rg_pod_ip = ip,
     rg_business_port = ports, rg_bootstrap_port = None, rg_nm_port = ''90'', rg_parallel_config = demo_pc 2,
     rg_enable_multi_endpoints = multi, rg_device_num = 1, rg_ranktable = None, rg_nnodes = 1, rg_is_master = False\<rparr>"

definition demo_aenv :: "string list \<Rightarrow> bool \<Rightarrow> AssembleInstanceMetadata asm_env" where
  "demo_aenv dead ok = \<lparr>asm_now = 5, nm_reachable = (\<lambda>nm. pod_ip nm \<notin> set dead), post_start = (\<lambda>nm cmd. ok),
     asm_ft_store = empty_store, load_d2d_config = (\<lambda>path sec. Inr None), iter_set = (\<lambda>xs. xs), asm_etcd_up = True,
     md_dump = (\<lambda>md. md), md_validate = Some, asm_digest = (\<lambda>d v t. ''sum'')\<rparr>"

definition demo_asm :: "bool \<Rightarrow> (Instance, AssembleInstanceMetadata) InstanceAssembler" where
  "demo_asm persistence = InstanceAssembler_init ''cfg'' persistence 600 3 True Asm_empty demo_manager0"

text \<open>
  An active instance of two ranks that has lost the pod with rank 0, scaled down.
\<close>

definition demo_survivor :: Instance where
  "demo_survivor = (demo_instance 7 ''prefill'' ACTIVE)\<lparr>parallel_config := Some (demo_pc 2),
     endpoints := [(''10.0.0.1'', [(1, demo_endpoint 1 EP_NORMAL)])]\<rparr>"

definition demo_joining :: "bool \<Rightarrow> (Instance, AssembleInstanceMetadata) InstanceAssembler" where
  "demo_joining b = (demo_asm b)\<lparr>manager := demo_manager0\<lparr>instances := [(7, demo_survivor)]\<rparr>\<rparr>"

definition demo_join_env :: "bool \<Rightarrow> AssembleInstanceMetadata asm_env" where
  "demo_join_env ok = (demo_aenv [] ok)\<lparr>asm_ft_store :=
     empty_store\<lparr>rt_instances := [(7, (new_runtime 7)\<lparr>phase := PH_SCALED_DOWN_RUNNING, original_dp_ranks := [0, 1]\<rparr>)]\<rparr>\<rparr>"

text \<open>
  Entries that came from ETCD and are not assembled; one pass of a loop.
\<close>

definition all_restored :: "('r, 'm) InstanceAssembler \<Rightarrow> bool" where
  "all_restored s \<longleftrightarrow> (\<forall>job md. dict_get (asm_instances s) job = Some md \<longrightarrow>
     is_reregister md \<and> register_status md \<noteq> ASSEMBLED \<and> \<not> md_shared md)"

fun is_pass :: "('r, 'm) asm_op \<Rightarrow> bool" where
  "is_pass (Asm_assemble env) = True"
| "is_pass (Asm_send env) = True"
| "is_pass _ = False"

definition demo_cell :: "AssembleInstanceMetadata asm_cell" where
  "demo_cell = asm_etcd (foldl asm_step (demo_asm True)
     [Asm_register (demo_aenv [] True) demo_env (demo_register ''10.0.0.1'' [''80''] True),
      Asm_register (demo_aenv [] True) demo_env (demo_register ''10.0.0.2'' [''80''] True)])"

text \<open>
  The two locks. \<open>self.lock\<close> guards the entries, \<open>metadata.lock\<close> one entry; both are plain
  \<open>threading.Lock\<close>s. The lock operations of a registration that finds its entry, of the sender's
  check of an entry, and of the part of \<open>_assemble_instance\<close> that removes a re-registered or a
  timed-out entry.
\<close>

datatype asm_lock = State_lock | Metadata_lock

datatype lock_action = Acquire asm_lock | Release asm_lock

definition register_locks :: "lock_action list" where
  "register_locks = [Acquire State_lock, Acquire Metadata_lock, Release Metadata_lock, Release State_lock]"

definition sender_locks :: "lock_action list" where
  "sender_locks = [Acquire State_lock, Acquire Metadata_lock, Release Metadata_lock, Release State_lock]"

definition removal_locks :: "lock_action list" where
  "removal_locks = [Acquire Metadata_lock, Acquire State_lock, Release State_lock, Release Metadata_lock]"

text \<open>
  Threads as the lock operations they still have to do, and who holds which lock.
\<close>

type_synonym lock_state = "lock_action list list \<times> (asm_lock \<Rightarrow> nat option)"

inductive lock_step :: "lock_state \<Rightarrow> lock_state \<Rightarrow> bool" where
  acquire: "i < length ts \<Longrightarrow> ts ! i = Acquire l # as \<Longrightarrow> h l = None \<Longrightarrow> lock_step (ts, h) (ts[i := as], h(l := Some i))"
| release: "i < length ts \<Longrightarrow> ts ! i = Release l # as \<Longrightarrow> h l = Some i \<Longrightarrow> lock_step (ts, h) (ts[i := as], h(l := None))"

definition deadlocked :: "lock_state \<Rightarrow> bool" where
  "deadlocked c \<longleftrightarrow> (\<exists>as \<in> set (fst c). as \<noteq> []) \<and> (\<forall>c'. \<not> lock_step c c')"

definition demo_assembled :: "(Instance, AssembleInstanceMetadata) InstanceAssembler" where
  "demo_assembled = foldl asm_step (demo_asm False)
     [Asm_register (demo_aenv [] True) demo_env (demo_register ''10.0.0.1'' [''80''] True),
      Asm_register (demo_aenv [] True) demo_env (demo_register ''10.0.0.2'' [''80''] True),
      Asm_assemble (demo_aenv [] True)]"

definition demo_reregister :: "string \<Rightarrow> int \<Rightarrow> ReregisterMsg" where
  "demo_reregister job i = \<lparr>rr_job_name = job, rr_model_name = ''m'', rr_engine_type = Some ''vllm'',
     rr_dispatch_capabilities = [], rr_ft_capability = default_ft_capability, rr_instance_id = i, rr_role = ''prefill'',
     rr_pod_ip = ''10.0.0.7'', rr_nm_port = ''90'', rr_parallel_config = demo_pc 1, rr_enable_multi_endpoints = True,
     rr_device_num = 1, rr_endpoints = [demo_endpoint 0 EP_NORMAL], rr_nnodes = 1, rr_node_rank = 0\<rparr>"

lemma manager_ids_shrink:
  assumes ok: "registry_ok st" and k: "keeps_ids op" and n: "dict_get (instances st) j = None"
  shows "dict_get (instances (ctl_step st op)) j = None"
proof -
  have none: "dict_get (instances st) j = None \<longleftrightarrow> status_of st j = None" for st :: "'a InstanceManager"
    by (simp add: status_of_def)
  show ?thesis
  proof (cases op)
    case (Ctl_heartbeat env ts msg)
    obtain st' res where h: "handle_heartbeat env ts msg st = (st', res)" by fastforce
    with heartbeat_life[OF ok h, of j] Ctl_heartbeat n show ?thesis by (metis ctl_step.simps(5) fst_conv life_step_none none)
  next
    case (Ctl_manage env)
    have "distinct (dict_keys (instances st))" using ok by (simp add: registry_ok_def)
    from round_life[OF ok this, of env j, folded management_round_def] Ctl_manage n show ?thesis
      by (metis ctl_step.simps(6) life_step_none none)
  next
    case (Ctl_separate env i)
    with separate_get[OF ok, of env i j] n show ?thesis by (auto simp: none)
  next
    case (Ctl_recover i)
    with recover_get[OF ok, of i] n show ?thesis by simp
  qed (use k n in \<open>simp_all add: del_instance_def persist_topology_def update_config_def\<close>)
qed

lemma keeps_ids_legal: "keeps_ids op \<Longrightarrow> legal_ctl_op op"
  by (cases op) simp_all

section \<open>Elementary changes\<close>

lemma asm_okD:
  assumes "asm_ok c s"
  shows "registry_ok (manager s)" "distinct (dict_keys (asm_instances s))"
    "dict_get (instances (manager s)) i = Some ins \<Longrightarrow> i < ins_id_cnt s"
    "dict_get (asm_instances s) job = Some md \<Longrightarrow> asm_entry_ok c (ins_id_cnt s) md"
  using assms by (auto simp: asm_ok_def)

lemma on_manager_frame [simp]:
  "ins_id_cnt (on_manager f s) = ins_id_cnt s" "manager (on_manager f s) = f (manager s)"
  "dict_keys (asm_instances (on_manager f s)) = dict_keys (asm_instances s)"
  "instance_assemble_timeout (on_manager f s) = instance_assemble_timeout s"
  "start_commands (on_manager f s) = start_commands s"
  by (simp_all add: on_manager_def case_prod_unfold)

lemma on_manager_get [simp]:
  "dict_get (asm_instances (on_manager f s)) job =
     map_option (share_entry (f (manager s))) (dict_get (asm_instances s) job)"
  by (simp add: on_manager_def map_of_map)

lemma share_entry_frame [simp]:
  "register_status (share_entry mgr md) = register_status md" "is_reregister (share_entry mgr md) = is_reregister md"
  "md_nnodes (share_entry mgr md) = md_nnodes md" "md_ranktable (share_entry mgr md) = md_ranktable md"
  "start_command_send_times (share_entry mgr md) = start_command_send_times md"
  "register_timestamp (share_entry mgr md) = register_timestamp md"
  "snapshot_dp_master_ip (share_entry mgr md) = snapshot_dp_master_ip md"
  "\<not> md_shared md \<Longrightarrow> share_entry mgr md = md"
  by (simp_all add: share_entry_def split: option.split)

lemma share_entry_ok: "registry_ok mgr \<Longrightarrow> asm_entry_ok c cnt md \<Longrightarrow> asm_entry_ok c cnt (share_entry mgr md)"
  by (auto simp: share_entry_def asm_entry_ok_def get_instance_def registry_ok_def split: option.split)

lemma on_manager_ok:
  assumes ok: "asm_ok c s" and r: "registry_ok (f (manager s))"
    and ids: "\<And>j. in_dict j (instances (f (manager s))) \<Longrightarrow> j < ins_id_cnt s"
  shows "asm_ok c (on_manager f s)"
  unfolding asm_ok_def on_manager_frame
proof (intro conjI allI impI)
  fix job md
  assume "dict_get (asm_instances (on_manager f s)) job = Some md"
  then obtain md0 where "dict_get (asm_instances s) job = Some md0" "md = share_entry (f (manager s)) md0" by auto
  with share_entry_ok[OF r] asm_okD(4)[OF ok] show "asm_entry_ok c (ins_id_cnt s) md" by blast
qed (use r ids asm_okD(2)[OF ok] in simp_all)

lemma on_managed_instance_ok:
  assumes ok: "asm_ok c s" and f: "\<And>ins. ins_id (f ins) = ins_id ins \<and> ins_status (f ins) = ins_status ins"
  shows "asm_ok c (on_managed_instance i f s)"
  unfolding on_managed_instance_def
proof (rule on_manager_ok[OF ok])
  show "registry_ok ((manager s)\<lparr>instances := dict_modify i f (instances (manager s))\<rparr>)"
    using asm_okD(1)[OF ok] f by (auto simp: registry_ok_def split: if_splits)
  show "j < ins_id_cnt s" if "in_dict j (instances ((manager s)\<lparr>instances := dict_modify i f (instances (manager s))\<rparr>))" for j
    using that ok by (auto simp: asm_ok_def split: if_splits)
qed

lemma on_entry_frame [simp]:
  "ins_id_cnt (on_entry job f s) = ins_id_cnt s" "manager (on_entry job f s) = manager s"
  "asm_instances (on_entry job f s) = dict_modify job f (asm_instances s)"
  "instance_assemble_timeout (on_entry job f s) = instance_assemble_timeout s"
  "start_commands (on_entry job f s) = start_commands s"
  by (simp_all add: on_entry_def)

lemma on_entry_ok:
  assumes "asm_ok c s"
    and "\<And>md. dict_get (asm_instances s) job = Some md \<Longrightarrow> asm_entry_ok c (ins_id_cnt s) md \<Longrightarrow> asm_entry_ok c (ins_id_cnt s) (f md)"
  shows "asm_ok c (on_entry job f s)"
  using assms by (auto simp: asm_ok_def split: if_splits)

lemma drop_entry_frame [simp]:
  "ins_id_cnt (drop_entry job s) = ins_id_cnt s" "manager (drop_entry job s) = manager s"
  "asm_instances (drop_entry job s) = dict_pop job (asm_instances s)"
  "start_commands (drop_entry job s) = start_commands s"
  by (simp_all add: drop_entry_def)

lemma drop_entry_ok [inv_intros]: "asm_ok c s \<Longrightarrow> asm_ok c (drop_entry job s)"
  unfolding asm_ok_def drop_entry_frame by (auto simp del: map_map split: if_splits)

lemma asm_persist_frame [simp]:
  "ins_id_cnt (fst (asm_persist env s)) = ins_id_cnt s" "manager (fst (asm_persist env s)) = manager s"
  "asm_instances (fst (asm_persist env s)) = asm_instances s"
  "start_commands (fst (asm_persist env s)) = start_commands s"
  by (simp_all add: asm_persist_def Let_def)

lemma maybe_persist_frame [simp]:
  "ins_id_cnt (maybe_persist env s) = ins_id_cnt s" "manager (maybe_persist env s) = manager s"
  "asm_instances (maybe_persist env s) = asm_instances s"
  "start_commands (maybe_persist env s) = start_commands s"
  by (simp_all add: maybe_persist_def)

lemma asm_ok_cong:
  "asm_ok c s \<Longrightarrow> ins_id_cnt s' = ins_id_cnt s \<Longrightarrow> manager s' = manager s \<Longrightarrow> asm_instances s' = asm_instances s \<Longrightarrow> asm_ok c s'"
  by (simp add: asm_ok_def)

lemma maybe_persist_ok [inv_intros]: "asm_ok c s \<Longrightarrow> asm_ok c (maybe_persist env s)"
  by (erule asm_ok_cong) simp_all

lemma on_instance_ok:
  assumes ok: "asm_ok c s" and f: "\<And>ins. ins_id (f ins) = ins_id ins \<and> ins_status (f ins) = ins_status ins"
    and r: "\<And>md. dict_get (asm_instances s) job = Some md \<Longrightarrow> c \<Longrightarrow> \<not> is_reregister md \<Longrightarrow>
      register_status md \<noteq> ASSEMBLED \<Longrightarrow> ranks_numbered (md_instance md) \<Longrightarrow> ranks_numbered (f (md_instance md))"
  shows "asm_ok c (on_instance job f s)"
proof (cases "dict_get (asm_instances s) job")
  case (Some md)
  show ?thesis
  proof (cases "md_shared md")
    case True
    with Some on_managed_instance_ok[OF ok f] show ?thesis by (simp add: on_instance_def)
  next
    case False
    have "asm_ok c (on_entry job (\<lambda>md. md\<lparr>md_instance := f (md_instance md)\<rparr>) s)"
      by (rule on_entry_ok[OF ok]) (use f r Some in \<open>auto simp: asm_entry_ok_def\<close>)
    with Some False show ?thesis by (simp add: on_instance_def)
  qed
qed (use ok in \<open>simp add: on_instance_def\<close>)

section \<open>The roster of a cold start\<close>

lemma all_eps_append:
  "\<not> in_dict ip (endpoints ins) \<Longrightarrow> all_eps (add_endpoints ip (Some eps) ins) = all_eps ins @ dict_values eps"
  by (simp add: all_eps_def add_endpoints_def dict_set_fresh)

lemma endpoints_num_all_eps: "get_endpoints_num ins = int (length (all_eps ins))"
proof -
  have "sum_list (map (\<lambda>(pod, eps). length eps) d) = length (concat (map (\<lambda>(pod, eps). dict_values eps) d))"
    for d :: "(string, (int, Endpoint) dict) dict"
    by (induction d) auto
  then show ?thesis by (simp add: get_endpoints_num_def all_eps_def)
qed

lemma fresh_endpoint_id [simp]: "ep_id (fresh_endpoint now i ip port boot devs) = i"
  "ep_ip (fresh_endpoint now i ip port boot devs) = ip"
  "device_infos (fresh_endpoint now i ip port boot devs) = devs"
  "business_port (fresh_endpoint now i ip port boot devs) = port"
  by (simp_all add: fresh_endpoint_def)

lemma multi_loop_ids:
  "multi_loop now msg off i ports = Inr eps \<Longrightarrow>
   map ep_id (dict_values eps) = map (\<lambda>k. off + i + int k) [0..<length eps]"
proof (induction ports arbitrary: i eps)
  case (Cons port ports)
  show ?case
  proof (cases eps)
    case (Cons e rest)
    with Cons.prems obtain devs where e: "e = (off + i, fresh_endpoint now (off + i) (rg_pod_ip msg) port (rg_bootstrap_port msg) devs)"
      and rest: "multi_loop now msg off (i + 1) ports = Inr rest"
      by (auto simp: Let_def split: sum.splits if_splits)
    have "map (\<lambda>k. off + i + int k) [0..<Suc (length rest)] = (off + i) # map (\<lambda>k. off + (i + 1) + int k) [0..<length rest]"
      by (simp add: upt_conv_Cons map_Suc_upt[symmetric] algebra_simps del: upt_Suc map_Suc_upt)
    with Cons.IH[OF rest] e Cons show ?thesis by simp
  qed simp
qed simp

lemma build_endpoints_ids:
  assumes "build_endpoints now msg md = Inr (eps, table)"
  shows "map ep_id (dict_values eps) = map (\<lambda>k. get_endpoints_num (md_instance md) + int k) [0..<length eps]"
proof (cases "rg_enable_multi_endpoints msg")
  case True
  with assms obtain ports where "multi_loop now msg (get_endpoints_num (md_instance md)) 0 ports = Inr eps"
    by (auto simp: build_endpoints_def build_multi_endpoints_def Let_def split: sum.splits if_splits)
  from multi_loop_ids[OF this] show ?thesis by simp
next
  case False
  with assms show ?thesis
    by (auto simp: build_endpoints_def build_single_endpoint_def Let_def split: sum.splits if_splits list.splits)
qed

lemma add_node_mgr_frame [simp]:
  "ins_id (add_node_mgr ip port dev ins) = ins_id ins" "ins_status (add_node_mgr ip port dev ins) = ins_status ins"
  "endpoints (add_node_mgr ip port dev ins) = endpoints ins"
  "enable_multi_endpoints (add_node_mgr ip port dev ins) = enable_multi_endpoints ins"
  by (simp_all add: add_node_mgr_def Let_def split: option.split)

lemma add_endpoints_frame [simp]:
  "ins_id (add_endpoints ip eps ins) = ins_id ins" "ins_status (add_endpoints ip eps ins) = ins_status ins"
  "node_managers (add_endpoints ip eps ins) = node_managers ins"
  by (simp_all add: add_endpoints_def split: option.split)

lemma del_frame [simp]:
  "ins_id (del_node_mgr ip port ins) = ins_id ins" "ins_status (del_node_mgr ip port ins) = ins_status ins"
  "endpoints (del_node_mgr ip port ins) = endpoints ins"
  "ins_id (del_endpoints i ins) = ins_id ins" "ins_status (del_endpoints i ins) = ins_status ins"
  "node_managers (del_endpoints i ins) = node_managers ins"
  by (simp_all add: del_node_mgr_def del_endpoints_def split: option.split)

lemma has_added_node_mgr:
  "has_node_mgr (Some ip') (add_node_mgr (Some ip) (Some port) dev ins) \<longleftrightarrow> ip' = ip \<or> has_node_mgr (Some ip') ins"
  by (auto simp: add_node_mgr_def has_node_mgr_def Let_def) force

lemma has_node_mgr_endpoints [simp]: "has_node_mgr ip (add_endpoints ip' eps ins) = has_node_mgr ip ins"
  by (cases ip) (simp_all add: has_node_mgr_def)

lemma all_eps_add_node_mgr [simp]: "all_eps (add_node_mgr ip port dev ins) = all_eps ins"
  by (simp add: all_eps_def)

lemma roster_add_node_mgr: "ranks_numbered ins \<Longrightarrow> ranks_numbered (add_node_mgr (Some ip) (Some port) dev ins)"
  unfolding ranks_numbered_def by (auto simp: has_added_node_mgr)

text \<open>
  The endpoints of a new pod continue the numbering.
\<close>

lemma roster_add_endpoints:
  assumes r: "ranks_numbered ins" and nm: "has_node_mgr (Some ip) ins" and new: "\<not> in_dict ip (endpoints ins)"
    and ids: "map ep_id (dict_values eps) = map (\<lambda>k. get_endpoints_num ins + int k) [0..<length eps]"
  shows "ranks_numbered (add_endpoints ip (Some eps) ins)"
proof -
  let ?n = "length (all_eps ins)"
  have "map (\<lambda>k. int ?n + int k) [0..<length eps] = map int [?n..<?n + length eps]"
    by (simp add: map_add_upt[symmetric, of ?n] add.commute)
  with r ids new have "map ep_id (all_eps (add_endpoints ip (Some eps) ins)) =
      map int [0..<length (all_eps (add_endpoints ip (Some eps) ins))]"
    by (simp add: ranks_numbered_def all_eps_append endpoints_num_all_eps upt_add_eq_append[of 0])
  moreover have "in_dict ip' (endpoints (add_endpoints ip (Some eps) ins)) \<longleftrightarrow> ip' = ip \<or> in_dict ip' (endpoints ins)" for ip'
    by (simp add: add_endpoints_def)
  ultimately show ?thesis using r nm by (auto simp: ranks_numbered_def)
qed

lemma get_endpoints_num_add_node_mgr [simp]:
  "get_endpoints_num (add_node_mgr ip port dev ins) = get_endpoints_num ins"
  by (simp add: get_endpoints_num_def)

section \<open>Every operation keeps the invariant\<close>

lemma on_instance_get:
  "dict_get (asm_instances s) job = Some md \<Longrightarrow> \<not> md_shared md \<Longrightarrow>
   dict_get (asm_instances (on_instance job f s)) job = Some (md\<lparr>md_instance := f (md_instance md)\<rparr>)"
  by (simp add: on_instance_def)

lemma on_instance_frame [simp]:
  "ins_id_cnt (on_instance job f s) = ins_id_cnt s"
  "instance_assemble_timeout (on_instance job f s) = instance_assemble_timeout s"
  "start_commands (on_instance job f s) = start_commands s"
  by (simp_all add: on_instance_def on_managed_instance_def split: option.split)

lemma on_instance_entry:
  assumes "dict_get (asm_instances (on_instance job f s)) job = Some md"
    and "dict_get (asm_instances s) job = Some md0"
  shows "register_status md = register_status md0 \<and> is_reregister md = is_reregister md0 \<and> md_nnodes md = md_nnodes md0 \<and>
    (\<not> md_shared md0 \<longrightarrow> md = md0\<lparr>md_instance := f (md_instance md0)\<rparr>)"
proof (cases "md_shared md0")
  case True
  with assms have "md = share_entry ((manager s)\<lparr>instances := dict_modify (ins_id (md_instance md0)) f (instances (manager s))\<rparr>) md0"
    by (simp add: on_instance_def on_managed_instance_def)
  with True show ?thesis by simp
qed (use assms in \<open>auto simp: on_instance_def\<close>)

lemma record_master_frame [simp]:
  "md_instance (record_master msg md) = md_instance md" "register_status (record_master msg md) = register_status md"
  "is_reregister (record_master msg md) = is_reregister md" "md_shared (record_master msg md) = md_shared md"
  by (simp_all add: record_master_def split: option.split)

lemma asm_entry_ok_cong:
  "asm_entry_ok c cnt md \<Longrightarrow> md_instance md' = md_instance md \<Longrightarrow> register_status md' = register_status md \<Longrightarrow>
   is_reregister md' = is_reregister md \<Longrightarrow> md_shared md' = md_shared md \<Longrightarrow> asm_entry_ok c cnt md'"
  by (simp add: asm_entry_ok_def)

lemma admit_pod_ok:
  assumes ok: "asm_ok c s" and md0: "dict_get (asm_instances s) (rg_job_name msg) = Some md0"
    and new: "\<not> has_node_mgr (Some (rg_pod_ip msg)) (md_instance md0)"
  shows "asm_ok c (fst (admit_pod env msg s))"
proof -
  define job where "job = rg_job_name msg"
  define add where "add = add_node_mgr (Some (rg_pod_ip msg)) (Some (rg_nm_port msg)) (rg_device_num msg)"
  define s1 where "s1 = on_entry job (record_master msg) s"
  define s2 where "s2 = on_instance job add s1"
  have ok1: "asm_ok c s1"
    unfolding s1_def by (rule on_entry_ok[OF ok]) (erule asm_entry_ok_cong; simp)
  have ok2: "asm_ok c s2"
    unfolding s2_def by (rule on_instance_ok[OF ok1]) (simp_all add: add_def roster_add_node_mgr)
  show ?thesis
  proof (cases "dict_get (asm_instances s2) job")
    case (Some md)
    show ?thesis
    proof (cases "build_endpoints (asm_now env) msg md")
      case (Inr r)
      obtain eps table where r: "r = (eps, table)" by fastforce
      define s3 where "s3 = on_entry job (\<lambda>md. md\<lparr>md_ranktable := table\<rparr>) s2"
      have ok3: "asm_ok c s3"
        unfolding s3_def by (rule on_entry_ok[OF ok2]) (erule asm_entry_ok_cong; simp)
      have "asm_ok c (on_instance job (add_endpoints (rg_pod_ip msg) (Some eps)) s3)"
      proof (rule on_instance_ok[OF ok3])
        fix md3
        assume md3: "dict_get (asm_instances s3) job = Some md3" "c" "\<not> is_reregister md3"
          "register_status md3 \<noteq> ASSEMBLED" "ranks_numbered (md_instance md3)"
        with Some have same: "md_instance md3 = md_instance md" "register_status md \<noteq> ASSEMBLED" "\<not> is_reregister md"
          by (auto simp: s3_def)
        have "dict_get (asm_instances s1) job = Some (record_master msg md0)" using md0 by (simp add: s1_def job_def)
        from on_instance_entry[OF Some[unfolded s2_def] this] same
        have e: "register_status md0 \<noteq> ASSEMBLED" "\<not> is_reregister md0"
          "\<not> md_shared md0 \<longrightarrow> md_instance md = add (md_instance md0)" by auto
        from e asm_okD(4)[OF ok md0] \<open>c\<close> have "ranks_numbered (md_instance md0)" "md_instance md = add (md_instance md0)"
          by (auto simp: asm_entry_ok_def)
        with new have "\<not> in_dict (rg_pod_ip msg) (endpoints (md_instance md))" "has_node_mgr (Some (rg_pod_ip msg)) (md_instance md)"
          by (auto simp: ranks_numbered_def add_def has_added_node_mgr)
        with roster_add_endpoints md3(5) build_endpoints_ids Inr r same(1)
        show "ranks_numbered (add_endpoints (rg_pod_ip msg) (Some eps) (md_instance md3))" by simp
      qed simp
      then have "asm_ok c (maybe_persist env (on_instance job (add_endpoints (rg_pod_ip msg) (Some eps)) s3))"
        by (rule maybe_persist_ok)
      with Some Inr r show ?thesis
        by (simp add: admit_pod_def Let_def s2_def[unfolded add_def s1_def job_def, symmetric] s3_def job_def)
    qed (use Some ok2 in \<open>simp add: admit_pod_def Let_def s2_def[unfolded add_def s1_def job_def, symmetric] job_def\<close>)
  qed (use ok2 in \<open>simp add: admit_pod_def Let_def s2_def[unfolded add_def s1_def job_def, symmetric] job_def\<close>)
qed

lemma register_pod_ok: "asm_ok c s \<Longrightarrow> asm_ok c (fst (register_pod env msg s))"
  by (auto simp: register_pod_def admit_pod_ok split: option.split)

lemma touch_registration_ok: "asm_ok c s \<Longrightarrow> asm_ok c (touch_registration env job s)"
  unfolding touch_registration_def by (erule on_entry_ok) (erule asm_entry_ok_cong; simp)

lemma asm_entry_ok_mono: "asm_entry_ok c cnt md \<Longrightarrow> cnt \<le> cnt' \<Longrightarrow> asm_entry_ok c cnt' md"
  by (auto simp: asm_entry_ok_def)

lemma roster_init: "ranks_numbered (Instance_init job model eng disp ft i role pc multi)"
  by (simp add: ranks_numbered_def Instance_init_def all_eps_def)

lemma Instance_init_frame [simp]:
  "ins_id (Instance_init job model eng disp ft i role pc multi) = i"
  "ins_status (Instance_init job model eng disp ft i role pc multi) = INITIAL"
  "ft_capability (Instance_init job model eng disp ft i role pc multi) = ft"
  "node_managers (Instance_init job model eng disp ft i role pc multi) = []"
  by (simp_all add: Instance_init_def)

lemma new_metadata_ok:
  "asm_entry_ok c cnt (new_entry now (Instance_init job model eng disp ft i role pc multi) rereg nn) \<longleftrightarrow> i < cnt"
  by (simp add: asm_entry_ok_def new_entry_def roster_init)

lemma asm_ok_open:
  assumes "asm_ok c s" and "asm_entry_ok c cnt md" and "ins_id_cnt s \<le> cnt"
    and "ins_id_cnt s' = cnt" and "manager s' = manager s" and "asm_instances s' = dict_set job md (asm_instances s)"
  shows "asm_ok c s'"
  using assms asm_entry_ok_mono[of c _ _ cnt] by (fastforce simp: asm_ok_def)

lemma open_registration_ok: "asm_ok c s \<Longrightarrow> asm_ok c (open_registration env msg s)"
  by (rule asm_ok_open[where cnt = "ins_id_cnt s + 1"], assumption)
    (simp_all add: open_registration_def Let_def new_metadata_ok)

lemma reregister_pod_ok:
  assumes ok: "asm_ok c (s\<lparr>ins_id_cnt := max (ins_id_cnt s) (rr_instance_id msg + 1)\<rparr>)"
    and md: "dict_get (asm_instances s) (rr_job_name msg) = Some md" "is_reregister md"
      "ft_capability (md_instance md) = rr_ft_capability msg"
  shows "asm_ok c (fst (reregister_pod env msg s))"
proof -
  let ?s1 = "s\<lparr>ins_id_cnt := max (ins_id_cnt s) (rr_instance_id msg + 1)\<rparr>"
  let ?s2 = "on_instance (rr_job_name msg) (add_node_mgr (Some (rr_pod_ip msg)) (Some (rr_nm_port msg)) (rr_device_num msg)) ?s1"
  have ok2: "asm_ok c ?s2" by (rule on_instance_ok[OF ok]) (use md in simp_all)
  have md2: "is_reregister md2" if "dict_get (asm_instances ?s2) (rr_job_name msg) = Some md2" for md2
    using on_instance_entry[OF that] md by simp
  have "asm_ok c (on_instance (rr_job_name msg) (add_endpoints (rr_pod_ip msg) (Some (reregistered_endpoints (md_nnodes md) msg))) ?s2)"
    by (rule on_instance_ok[OF ok2]) (use md2 in auto)
  with md show ?thesis by (simp add: reregister_pod_def Let_def maybe_persist_ok)
qed

lemma asm_ok_raise: "asm_ok c s \<Longrightarrow> ins_id_cnt s \<le> cnt \<Longrightarrow> asm_ok c (s\<lparr>ins_id_cnt := cnt\<rparr>)"
  by (force simp: asm_ok_def intro: asm_entry_ok_mono)

lemma send_replacement_frame [simp]:
  "ins_id_cnt (fst (send_replacement_start_command env ins msg eps s)) = ins_id_cnt s"
  "manager (fst (send_replacement_start_command env ins msg eps s)) = manager s"
  "asm_instances (fst (send_replacement_start_command env ins msg eps s)) = asm_instances s"
  by (simp_all add: send_replacement_start_command_def send_start_command_def Let_def split: option.split)

lemma persist_topology_ok: "registry_ok mgr \<Longrightarrow> registry_ok (fst (persist_topology cenv mgr))"
  and persist_topology_instances [simp]: "instances (fst (persist_topology cenv mgr)) = instances mgr"
  by (simp_all add: persist_topology_def registry_ok_def)

lemma attach_replacement_ok:
  assumes ok: "asm_ok c s"
  shows "asm_ok c (fst (attach_replacement env cenv i msg eps s))"
proof -
  let ?s1 = "on_managed_instance i (add_node_mgr (Some (jm_pod_ip msg)) (Some (jm_nm_port msg)) (jm_device_num msg)
               \<circ> add_endpoints (jm_pod_ip msg) (Some eps)) s"
  have ok1: "asm_ok c ?s1" by (rule on_managed_instance_ok[OF ok]) simp
  show ?thesis
  proof (cases "get_instance i (manager ?s1)")
    case (Some ins)
    obtain s2 b where snd: "send_replacement_start_command env ins msg eps ?s1 = (s2, b)" by fastforce
    have ok2: "asm_ok c s2"
      using asm_ok_cong[OF ok1, of s2] send_replacement_frame[of env ins msg eps ?s1] snd by simp
    have "asm_ok c (on_manager (\<lambda>mgr. fst (persist_topology cenv mgr)) s2)"
      by (rule on_manager_ok[OF ok2]) (use asm_okD[OF ok2] in \<open>auto simp: persist_topology_ok\<close>)
    moreover have "asm_ok c (on_managed_instance i (del_endpoints (jm_pod_ip msg) \<circ> del_node_mgr (Some (jm_pod_ip msg)) (Some (jm_nm_port msg))) s2)"
      by (rule on_managed_instance_ok[OF ok2]) simp
    ultimately show ?thesis using Some snd by (simp add: attach_replacement_def Let_def)
  qed (use ok1 in \<open>simp add: attach_replacement_def Let_def\<close>)
qed

lemma join_ok: "asm_ok c s \<Longrightarrow> asm_ok c (fst (join_or_reject_assembled env cenv msg s))"
  by (simp add: join_or_reject_assembled_def Let_def case_prod_unfold attach_replacement_ok split: option.split sum.split)

lemma register_ok: "asm_ok c s \<Longrightarrow> asm_ok c (fst (register env cenv msg s))"
  by (simp add: register_def join_ok register_pod_ok open_registration_ok touch_registration_ok split: RegisterStatus.split)

lemma reregister_ok:
  assumes ok: "asm_ok c s"
  shows "asm_ok c (fst (reregister env cenv msg s))"
proof (cases "eval_register_status (rr_job_name msg) s")
  case NOT_REGISTERED
  let ?s = "open_reregistration env msg s" and ?cnt = "max (ins_id_cnt s) (rr_instance_id msg + 1)"
  have "asm_ok c (fst (reregister_pod env msg ?s))"
  proof (rule reregister_pod_ok)
    show "asm_ok c (?s\<lparr>ins_id_cnt := max (ins_id_cnt ?s) (rr_instance_id msg + 1)\<rparr>)"
      by (rule asm_ok_open[OF ok, where cnt = ?cnt]) (simp_all add: open_reregistration_def Let_def new_metadata_ok)
    show "dict_get (asm_instances ?s) (rr_job_name msg) =
        Some (new_entry (asm_now env) (Instance_init (rr_job_name msg) (rr_model_name msg) (rr_engine_type msg)
                  (rr_dispatch_capabilities msg) (rr_ft_capability msg) (rr_instance_id msg) (rr_role msg)
                  (rr_parallel_config msg) (rr_enable_multi_endpoints msg)) True (rr_nnodes msg))"
      by (simp add: open_reregistration_def Let_def)
  qed (simp_all add: new_entry_def)
  with NOT_REGISTERED show ?thesis by (simp add: reregister_def)
next
  case ASSEMBLING
  show ?thesis
  proof (cases "via_reregister (rr_job_name msg) s")
    case True
    let ?s = "touch_registration env (rr_job_name msg) s"
    from True obtain md where md: "dict_get (asm_instances ?s) (rr_job_name msg) = Some md" "is_reregister md"
      by (auto simp: via_reregister_def touch_registration_def split: option.splits)
    have ok': "asm_ok c ?s" using ok by (rule touch_registration_ok)
    show ?thesis
    proof (cases "ft_capability (md_instance md) = rr_ft_capability msg")
      case ft: True
      have "asm_ok c (fst (reregister_pod env msg ?s))"
        by (rule reregister_pod_ok[OF asm_ok_raise[OF ok'] md ft]) simp
      with ASSEMBLING True show ?thesis by (simp add: reregister_def)
    next
      case False
      with md have "fst (reregister_pod env msg ?s) = ?s" by (simp add: reregister_pod_def Let_def)
      with ok' ASSEMBLING True show ?thesis by (simp add: reregister_def)
    qed
  qed (use ASSEMBLING ok in \<open>simp add: reregister_def\<close>)
qed (use ok in \<open>simp add: reregister_def join_ok\<close>)

lemma filter_abnormal_frame [simp]:
  "ins_id (filter_abnormal_endpoints env ins) = ins_id ins" "ins_status (filter_abnormal_endpoints env ins) = ins_status ins"
proof -
  have "ins_id (foldl (\<lambda>x nm. if nm_reachable env nm then x
          else del_node_mgr (Some (pod_ip nm)) (Some (nm_port nm)) (del_endpoints (pod_ip nm) x)) ins nms) = ins_id ins \<and>
        ins_status (foldl (\<lambda>x nm. if nm_reachable env nm then x
          else del_node_mgr (Some (pod_ip nm)) (Some (nm_port nm)) (del_endpoints (pod_ip nm) x)) ins nms) = ins_status ins" for nms
    by (induction nms arbitrary: ins) simp_all
  then show "ins_id (filter_abnormal_endpoints env ins) = ins_id ins" "ins_status (filter_abnormal_endpoints env ins) = ins_status ins"
    by (simp_all add: filter_abnormal_endpoints_def)
qed

lemma filter_abnormal_all: "\<forall>nm. nm_reachable env nm \<Longrightarrow> filter_abnormal_endpoints env ins = ins"
proof -
  assume a: "\<forall>nm. nm_reachable env nm"
  have "foldl (\<lambda>x nm. if nm_reachable env nm then x
          else del_node_mgr (Some (pod_ip nm)) (Some (nm_port nm)) (del_endpoints (pod_ip nm) x)) ins nms = ins" for nms
    by (induction nms) (simp_all add: a)
  then show ?thesis by (simp add: filter_abnormal_endpoints_def)
qed

lemma hide_pod_frame [simp]:
  "ins_id (hide_pod ip ins) = ins_id ins" "ins_status (hide_pod ip ins) = ins_status ins"
  "node_managers (hide_pod ip ins) = node_managers ins"
  "dict_keys (endpoints (hide_pod ip ins)) = dict_keys (endpoints ins)"
  by (simp_all add: hide_pod_def)

lemma hide_pod_ids: "map ep_id (all_eps (hide_pod ip ins)) = map ep_id (all_eps ins)"
proof -
  have "map ep_id (concat (map (\<lambda>(pod, eps). dict_values eps) (dict_modify ip (map (\<lambda>(k, ep). (k, ep\<lparr>headless := True\<rparr>))) d))) =
    map ep_id (concat (map (\<lambda>(pod, eps). dict_values eps) d))" for d :: "(string, (int, Endpoint) dict) dict"
    by (induction d) (auto simp: comp_def case_prod_unfold)
  then show ?thesis by (simp add: all_eps_def hide_pod_def)
qed

lemma roster_cong:
  assumes r: "ranks_numbered ins" and ids: "map ep_id (all_eps ins') = map ep_id (all_eps ins)"
    and keys: "dict_keys (endpoints ins') = dict_keys (endpoints ins)" and nms: "node_managers ins' = node_managers ins"
  shows "ranks_numbered ins'"
proof -
  have "length (all_eps ins') = length (all_eps ins)" using ids map_eq_imp_length_eq by blast
  moreover have "in_dict ip (endpoints ins') \<longleftrightarrow> in_dict ip (endpoints ins)" for ip
    unfolding in_dict_iff using arg_cong[OF keys, of set] by simp
  ultimately show ?thesis using r ids nms by (simp add: ranks_numbered_def has_node_mgr_def)
qed

lemma mark_headless_frame:
  "ins_id (mark_headless nn ins) = ins_id ins" "ins_status (mark_headless nn ins) = ins_status ins"
  "ranks_numbered ins \<Longrightarrow> ranks_numbered (mark_headless nn ins)"
proof -
  let ?f = "\<lambda>x (rank, nm). if int rank mod nn = 0 then x else hide_pod (pod_ip nm) x"
  have f: "ins_id (foldl ?f ins l) = ins_id ins \<and> ins_status (foldl ?f ins l) = ins_status ins \<and>
      map ep_id (all_eps (foldl ?f ins l)) = map ep_id (all_eps ins) \<and>
      dict_keys (endpoints (foldl ?f ins l)) = dict_keys (endpoints ins) \<and>
      node_managers (foldl ?f ins l) = node_managers ins" for l :: "(nat \<times> NodeManagerInfo) list"
    by (induction l arbitrary: ins) (auto simp: hide_pod_ids simp del: map_map)
  then show "ins_id (mark_headless nn ins) = ins_id ins" "ins_status (mark_headless nn ins) = ins_status ins"
    by (simp_all add: mark_headless_def invalidate_endpoints_cache_def)
  show "ranks_numbered ins \<Longrightarrow> ranks_numbered (mark_headless nn ins)"
    by (erule roster_cong) (use f in \<open>simp_all add: mark_headless_def invalidate_endpoints_cache_def all_eps_def\<close>)
qed

lemma registered_entry_get:
  "dict_get (asm_instances s) job = Some md \<Longrightarrow> asm_ok c s \<Longrightarrow> register_status md \<noteq> ASSEMBLED \<Longrightarrow>
   \<not> md_shared md \<and> ins_status (md_instance md) = INITIAL \<and> ins_id (md_instance md) < ins_id_cnt s"
  using asm_okD(4)[of c s job md] by (simp add: asm_entry_ok_def)

lemma hand_over_ok:
  assumes ok: "asm_ok c s" and md: "dict_get (asm_instances s) job = Some md" "register_status md \<noteq> ASSEMBLED"
  shows "asm_ok c (hand_over env job s)"
proof -
  note e = registered_entry_get[OF md(1) ok md(2)]
  let ?f = "\<lambda>fresh md. md\<lparr>register_status := ASSEMBLED, md_shared := (md_shared md \<or> fresh)\<rparr>"
  let ?s = "\<lambda>fresh. on_entry job (?f fresh) s"
  have ok': "asm_ok c (?s fresh)" for fresh
    by (rule on_entry_ok[OF ok]) (simp add: asm_entry_ok_def)
  have "asm_ok c (on_manager (add_instance (asm_now env) (md_instance md)) (?s fresh))" for fresh
  proof (rule on_manager_ok[OF ok'])
    show "registry_ok (add_instance (asm_now env) (md_instance md) (manager (?s fresh)))"
      using add_ok[OF asm_okD(1)[OF ok]] e by simp
    show "j < ins_id_cnt (?s fresh)" if "in_dict j (instances (add_instance (asm_now env) (md_instance md) (manager (?s fresh))))" for j
      using that e ok by (auto simp: add_instance_frame asm_ok_def split: if_splits)
  qed
  with md show ?thesis by (simp add: hand_over_def Let_def)
qed

lemma complete_assembly_ok:
  assumes ok: "asm_ok c s" and md: "dict_get (asm_instances s) job = Some md" "register_status md \<noteq> ASSEMBLED"
  shows "asm_ok c (complete_assembly env job s)"
proof -
  let ?s1 = "if md_nnodes md > 1 \<and> \<not> is_reregister md then on_instance job (mark_headless (md_nnodes md)) s else s"
  have "asm_ok c ?s1" using ok by (simp add: on_instance_ok mark_headless_frame)
  moreover have "\<exists>md1. dict_get (asm_instances ?s1) job = Some md1 \<and> register_status md1 \<noteq> ASSEMBLED"
    using md registered_entry_get[OF md(1) ok md(2)] by (simp add: on_instance_get)
  then obtain md1 where "dict_get (asm_instances ?s1) job = Some md1" "register_status md1 \<noteq> ASSEMBLED" by blast
  ultimately have "asm_ok c (hand_over env job ?s1)" by (rule hand_over_ok)
  with md show ?thesis by (auto simp: complete_assembly_def Let_def maybe_persist_ok drop_entry_ok split: if_splits)
qed

lemma clear_stale_master_frame [simp]:
  "md_instance (clear_stale_master md) = md_instance md" "register_status (clear_stale_master md) = register_status md"
  "is_reregister (clear_stale_master md) = is_reregister md" "md_shared (clear_stale_master md) = md_shared md"
  "md_nnodes (clear_stale_master md) = md_nnodes md"
  by (simp_all add: clear_stale_master_def split: option.split)

lemma assemble_instance_ok:
  assumes ok: "asm_ok c s" and all: "c \<longrightarrow> (\<forall>nm. nm_reachable env nm)"
    and md: "dict_get (asm_instances s) job = Some md" "register_status md \<noteq> ASSEMBLED"
  shows "asm_ok c (assemble_instance env job s)"
proof -
  define s1 where "s1 = on_entry job clear_stale_master (on_instance job (filter_abnormal_endpoints env) s)"
  have "asm_ok c (on_instance job (filter_abnormal_endpoints env) s)"
    by (rule on_instance_ok[OF ok]) (use all in \<open>simp_all add: filter_abnormal_all\<close>)
  then have ok1: "asm_ok c s1" unfolding s1_def by (rule on_entry_ok) (erule asm_entry_ok_cong; simp)
  have "\<exists>md1. dict_get (asm_instances s1) job = Some md1 \<and> register_status md1 \<noteq> ASSEMBLED"
    using md registered_entry_get[OF md(1) ok md(2)] by (simp add: s1_def on_instance_get)
  then obtain md1 where md1: "dict_get (asm_instances s1) job = Some md1" "register_status md1 \<noteq> ASSEMBLED" by blast
  from complete_assembly_ok[OF ok1 md1] md1 ok1 show ?thesis
    by (simp add: assemble_instance_def Let_def s1_def[symmetric] maybe_persist_ok drop_entry_ok)
qed

lemma assembler_round_ok:
  assumes "asm_ok c s" and "c \<longrightarrow> (\<forall>nm. nm_reachable env nm)"
  shows "asm_ok c (assembler_round env s)"
proof -
  have "asm_ok c s \<Longrightarrow> asm_ok c (foldl (assemble_job env) s jobs)" for jobs s
  proof (induction jobs arbitrary: s)
    case (Cons job jobs)
    have "asm_ok c (assemble_job env s job)"
      using Cons.prems assemble_instance_ok[OF Cons.prems assms(2)] by (simp add: assemble_job_def split: option.split)
    with Cons.IH show ?case by simp
  qed simp
  with assms(1) show ?thesis by (simp add: assembler_round_def)
qed

lemma start_loop_frame:
  "start_loop env md master d2d rank nms acc s = (s', r) \<Longrightarrow>
   ins_id_cnt s' = ins_id_cnt s \<and> manager s' = manager s \<and> asm_instances s' = asm_instances s"
proof (induction nms arbitrary: rank acc s)
  case (Cons nm nms)
  then show ?case by (auto simp: Let_def send_start_command_def split: if_splits dest!: Cons.IH)
qed simp

lemma send_start_commands_frame [simp]:
  "ins_id_cnt (fst (send_start_commands env md s)) = ins_id_cnt s"
  "manager (fst (send_start_commands env md s)) = manager s"
  "asm_instances (fst (send_start_commands env md s)) = asm_instances s"
proof -
  let ?s1 = "fst (is_d2d_enabled_for_role env (ins_role (md_instance md)) s)"
  have f: "ins_id_cnt ?s1 = ins_id_cnt s" "manager ?s1 = manager s" "asm_instances ?s1 = asm_instances s"
    by (simp_all add: is_d2d_enabled_for_role_def Let_def split: option.split)
  obtain s2 r where l: "start_loop env md (choose_master md) (snd (is_d2d_enabled_for_role env (ins_role (md_instance md)) s)) 0
      (node_managers (md_instance md)) (0, True) ?s1 = (s2, r)" by (rule prod.exhaust)
  have "fst (send_start_commands env md s) = (if choose_master md = [] then s else s2)"
    using l by (cases r) (simp add: send_start_commands_def Let_def case_prod_unfold)
  with f start_loop_frame[OF l]
  show "ins_id_cnt (fst (send_start_commands env md s)) = ins_id_cnt s"
    "manager (fst (send_start_commands env md s)) = manager s"
    "asm_instances (fst (send_start_commands env md s)) = asm_instances s" by simp_all
qed

lemma start_job_ok: "asm_ok c (fst st) \<Longrightarrow> asm_ok c (fst (start_job env n st job))"
proof (cases "dict_get (asm_instances (fst st)) job")
  case (Some md)
  assume ok: "asm_ok c (fst st)"
  obtain s1 b where snd: "send_start_commands env md (fst st) = (s1, b)" by fastforce
  have ok1: "asm_ok c s1" using asm_ok_cong[OF ok, of s1] send_start_commands_frame[of env md "fst st"] snd by simp
  have "asm_ok c (on_entry job (\<lambda>md. md\<lparr>start_command_send_times := k\<rparr>) s1)" for k
    by (rule on_entry_ok[OF ok1]) (erule asm_entry_ok_cong; simp)
  with ok ok1 Some snd show ?thesis by (simp add: start_job_def Let_def case_prod_unfold drop_entry_ok)
qed (simp add: start_job_def case_prod_unfold)

lemma start_round_ok: "asm_ok c s \<Longrightarrow> asm_ok c (start_command_round env s)"
proof -
  have "asm_ok c (fst st) \<Longrightarrow> asm_ok c (fst (foldl (start_job env n) st jobs))" for n jobs and st :: "('a, 'b) InstanceAssembler \<times> bool"
    by (induction jobs arbitrary: st) (simp_all add: start_job_ok)
  then show "asm_ok c s \<Longrightarrow> asm_ok c (start_command_round env s)"
    by (simp add: start_command_round_def Let_def case_prod_unfold maybe_persist_ok)
qed

lemma asm_step_ok: "asm_ok c s \<Longrightarrow> asm_legal c op \<Longrightarrow> asm_ok c (asm_step s op)"
proof (cases op)
  case (Asm_manager cop)
  assume ok: "asm_ok c s" and l: "asm_legal c op"
  with Asm_manager have k: "keeps_ids cop" by simp
  have "asm_ok c (on_manager (\<lambda>mgr. ctl_step mgr cop) s)"
  proof (rule on_manager_ok[OF ok])
    show "registry_ok (ctl_step (manager s) cop)"
      using asm_okD(1)[OF ok] keeps_ids_legal[OF k] by (rule registry_step)
    show "j < ins_id_cnt s" if "in_dict j (instances (ctl_step (manager s) cop))" for j
      using that manager_ids_shrink[OF asm_okD(1)[OF ok] k, of j] asm_okD(3)[OF ok, of j]
      by (cases "dict_get (instances (manager s)) j") simp_all
  qed
  with Asm_manager show ?thesis by simp
qed (simp_all add: register_ok reregister_ok assembler_round_ok start_round_ok asm_update_config_def,
     (erule asm_ok_cong; simp)+)

interpretation asm_run: step_invariant asm_step "asm_legal c" "asm_ok c" for c
  by unfold_locales (rule asm_step_ok)

lemma asm_ok_init: "instances mgr = [] \<Longrightarrow> asm_ok c (InstanceAssembler_init path b t n u cell mgr)"
  by (simp add: asm_ok_def registry_ok_def InstanceAssembler_init_def)

section \<open>Instance IDs and ranks\<close>

lemma admit_pod_entry:
  assumes md0: "dict_get (asm_instances s) (rg_job_name msg) = Some md0" "\<not> md_shared md0"
  shows "\<exists>md. dict_get (asm_instances (fst (admit_pod env msg s))) (rg_job_name msg) = Some md \<and>
      ins_id (md_instance md) = ins_id (md_instance md0) \<and> has_node_mgr (Some (rg_pod_ip msg)) (md_instance md) \<and>
      ft_capability (md_instance md) = ft_capability (md_instance md0) \<and> \<not> md_shared md \<and> is_reregister md = is_reregister md0 \<and>
      (isl (snd (admit_pod env msg s)) \<longrightarrow> endpoints (md_instance md) = endpoints (md_instance md0))"
    "ins_id_cnt (fst (admit_pod env msg s)) = ins_id_cnt s" "manager (fst (admit_pod env msg s)) = manager s"
proof -
  let ?job = "rg_job_name msg" and ?add = "add_node_mgr (Some (rg_pod_ip msg)) (Some (rg_nm_port msg)) (rg_device_num msg)"
  define s2 where "s2 = on_instance ?job ?add (on_entry ?job (record_master msg) s)"
  define md2 where "md2 = (record_master msg md0)\<lparr>md_instance := ?add (md_instance md0)\<rparr>"
  have get2: "dict_get (asm_instances s2) ?job = Some md2"
    using md0 by (simp add: s2_def md2_def on_instance_get)
  have sh: "\<not> md_shared md2" using md0(2) by (simp add: md2_def)
  have f2: "ins_id_cnt s2 = ins_id_cnt s" "manager s2 = manager s"
    using md0 by (simp_all add: s2_def on_instance_def)
  have nm: "has_node_mgr (Some (rg_pod_ip msg)) (md_instance md2)" by (simp add: md2_def has_added_node_mgr)
  have same: "ins_id (md_instance md2) = ins_id (md_instance md0)" "ft_capability (md_instance md2) = ft_capability (md_instance md0)"
    "endpoints (md_instance md2) = endpoints (md_instance md0)" "is_reregister md2 = is_reregister md0"
    by (simp_all add: md2_def add_node_mgr_def Let_def)
  have "(\<exists>md. dict_get (asm_instances (fst (admit_pod env msg s))) ?job = Some md \<and>
      ins_id (md_instance md) = ins_id (md_instance md0) \<and> has_node_mgr (Some (rg_pod_ip msg)) (md_instance md) \<and>
      ft_capability (md_instance md) = ft_capability (md_instance md0) \<and> \<not> md_shared md \<and> is_reregister md = is_reregister md0 \<and>
      (isl (snd (admit_pod env msg s)) \<longrightarrow> endpoints (md_instance md) = endpoints (md_instance md0))) \<and>
    ins_id_cnt (fst (admit_pod env msg s)) = ins_id_cnt s \<and> manager (fst (admit_pod env msg s)) = manager s"
  proof (cases "build_endpoints (asm_now env) msg md2")
    case (Inl e)
    with get2 f2 nm same sh show ?thesis by (simp add: admit_pod_def Let_def s2_def[symmetric])
  next
    case (Inr r)
    obtain eps table where r: "r = (eps, table)" by fastforce
    let ?s3 = "on_entry ?job (\<lambda>md. md\<lparr>md_ranktable := table\<rparr>) s2"
    let ?s4 = "on_instance ?job (add_endpoints (rg_pod_ip msg) (Some eps)) ?s3"
    have get4: "dict_get (asm_instances ?s4) ?job =
        Some (md2\<lparr>md_ranktable := table, md_instance := add_endpoints (rg_pod_ip msg) (Some eps) (md_instance md2)\<rparr>)"
      using get2 sh by (simp add: on_instance_get)
    have "manager ?s4 = manager s2" using get2 sh by (simp add: on_instance_def)
    with Inr r get2 get4 f2 nm same sh show ?thesis
      by (simp add: admit_pod_def Let_def s2_def[symmetric]) (simp add: add_endpoints_def)
  qed
  then show "\<exists>md. dict_get (asm_instances (fst (admit_pod env msg s))) ?job = Some md \<and>
      ins_id (md_instance md) = ins_id (md_instance md0) \<and> has_node_mgr (Some (rg_pod_ip msg)) (md_instance md) \<and>
      ft_capability (md_instance md) = ft_capability (md_instance md0) \<and> \<not> md_shared md \<and> is_reregister md = is_reregister md0 \<and>
      (isl (snd (admit_pod env msg s)) \<longrightarrow> endpoints (md_instance md) = endpoints (md_instance md0))"
    "ins_id_cnt (fst (admit_pod env msg s)) = ins_id_cnt s" "manager (fst (admit_pod env msg s)) = manager s" by blast+
qed





text \<open>
  A pod that disappears during assembly makes ranks collide: the next pod is numbered from the
  count of the remaining endpoints. Two pods register, the first stops answering and is filtered
  out, a replacement registers; the instance is then complete, is handed to the manager and
  started with rank 1 twice and no rank 0.
\<close>

theorem lost_pod_duplicates_rank:
  "let env = demo_aenv [] True;
       s = foldl asm_step (demo_asm False)
             [Asm_register env demo_env (demo_register ''10.0.0.1'' [''80''] True),
              Asm_register env demo_env (demo_register ''10.0.0.2'' [''80''] True),
              Asm_assemble (demo_aenv [''10.0.0.1''] True),
              Asm_register env demo_env (demo_register ''10.0.0.3'' [''80''] True),
              Asm_assemble env, Asm_send env]
   in map_option (\<lambda>ins. map (\<lambda>ep. (ep_ip ep, ep_id ep)) (all_eps ins)) (get_instance 1 (manager s))
        = Some [(''10.0.0.2'', 1), (''10.0.0.3'', 1)] \<and>
      map (\<lambda>(nm, cmd). (pod_ip nm, map ep_id (sc_endpoints cmd))) (start_commands s)
        = [(''10.0.0.2'', [1]), (''10.0.0.3'', [1])]"
  by code_simp

text \<open>
  When all node managers of a cross-node instance with one endpoint per pod have gone, the
  expected number of nodes is computed as zero and the empty instance is complete: it is handed
  to the manager.
\<close>

theorem empty_instance_handed_over:
  "let env = demo_aenv [] True;
       s = foldl asm_step (demo_asm False)
             [Asm_register env demo_env ((demo_register ''10.0.0.1'' [''80''] False)\<lparr>rg_nnodes := 2\<rparr>),
              Asm_assemble (demo_aenv [''10.0.0.1''] True)]
   in map_option (\<lambda>ins. (node_managers ins, endpoints ins, ins_status ins)) (get_instance 1 (manager s)) = Some ([], [], INITIAL)"
  by code_simp

section \<open>Replacement pods\<close>

lemma py_slice_prefix: "py_slice 0 n xs = take (nat n) xs" if "0 \<le> n"
  using that by (simp add: py_slice_def Let_def min_def)

lemma missing_sorted: "sorted (missing_dp_ranks ins rt)" "distinct (missing_dp_ranks ins rt)"
  "set (missing_dp_ranks ins rt) = set (original_ranks ins rt) - set (present_ranks ins)"
  by (auto simp: missing_dp_ranks_def)

lemma slot_prefix:
  assumes "pick_replacement_rank_slot msg missing = slot" "slot \<noteq> []"
  shows "(\<exists>k. slot = take k missing) \<and> int (length slot) * devices_per_rank msg \<le> jm_device_num msg"
  using assms
  by (auto simp: pick_replacement_rank_slot_def Let_def py_slice_prefix split: if_splits)

lemma carried_keys:
  "length rs \<le> length eps \<Longrightarrow> dict_keys (carried_endpoints ip eps rs) = rs \<and>
     (\<forall>(r, ep) \<in> set (carried_endpoints ip eps rs). ep_id ep = r \<and> ep_ip ep = ip \<and> ep_status ep = EP_INITIAL)"
proof (induction rs arbitrary: eps)
  case (Cons r rs)
  then show ?case by (cases eps) auto
qed simp

lemma replacement_loop_keys:
  "length rs \<le> length ports \<Longrightarrow> replacement_loop now msg dpr idx ports rs = Inr eps \<Longrightarrow>
   dict_keys eps = rs \<and> (\<forall>(r, ep) \<in> set eps. ep_id ep = r \<and> ep_ip ep = rg_pod_ip msg \<and> ep_status ep = EP_INITIAL)"
proof (induction rs arbitrary: ports idx eps)
  case (Cons r rs)
  then obtain port ports' where p: "ports = port # ports'" by (cases ports) auto
  with Cons.prems obtain devs eps' where
    "eps = (r, fresh_endpoint now r (rg_pod_ip msg) port (rg_bootstrap_port msg) devs) # eps'"
    "replacement_loop now msg dpr (idx + 1) ports' rs = Inr eps'" by (auto split: sum.splits)
  with Cons.IH[of ports' "idx + 1" eps'] Cons.prems(1) p show ?case by (simp add: fresh_endpoint_def)
qed simp

lemma replacement_keys:
  assumes "build_replacement_endpoints now msg slot = Inr eps" "eps \<noteq> []"
  shows "dict_keys eps = sort slot \<and>
    (\<forall>(r, ep) \<in> set eps. ep_id ep = r \<and> ep_ip ep = jm_pod_ip msg \<and> ep_status ep = EP_INITIAL)"
proof (cases msg)
  case (Join_register m)
  with assms show ?thesis
    using replacement_loop_keys[of "sort slot" "rg_business_port m" now m "devices_per_rank msg" 0 eps] by (auto split: if_splits)
next
  case (Join_reregister m)
  with assms show ?thesis
    using carried_keys[of "sort slot" "rr_endpoints m" "rr_pod_ip m"] by (auto split: if_splits)
qed

lemma active_instance_get:
  assumes ok: "registry_ok mgr" and a: "active_instance_by_job_name job mgr = Some ins"
  shows "dict_get (instances mgr) (ins_id ins) = Some ins"
  using a registry_get[OF ok] by (auto simp: active_instance_by_job_name_def get_instance_def split: option.splits)

lemma pop_added_node_mgr:
  "\<forall>nm \<in> set nms. pod_ip nm \<noteq> ip \<Longrightarrow> pop_node_mgr ip port (nms @ [\<lparr>pod_ip = ip, nm_port = port, device_num = d\<rparr>]) = nms"
  by (induction nms) auto

lemma rollback_restores:
  assumes new: "\<not> has_node_mgr (Some ip) ins" "\<not> in_dict ip (endpoints ins)"
  shows "let x = del_endpoints ip (del_node_mgr (Some ip) (Some port)
               (add_node_mgr (Some ip) (Some port) d (add_endpoints ip (Some eps) ins)))
         in node_managers x = node_managers ins \<and> endpoints x = endpoints ins"
proof -
  have f: "\<forall>nm \<in> set (node_managers ins). pod_ip nm \<noteq> ip" using new(1) by (auto simp: has_node_mgr_def)
  then have n: "\<lparr>pod_ip = ip, nm_port = port, device_num = d\<rparr> \<notin> set (node_managers ins)" by auto
  have "dict_pop ip (endpoints ins @ [(ip, eps)]) = dict_pop ip (endpoints ins)" by (simp add: AList.delete_eq)
  with new(2) have "dict_pop ip (dict_set ip eps (endpoints ins)) = endpoints ins" by (simp add: dict_set_fresh)
  with f n show ?thesis
    by (simp add: Let_def add_node_mgr_def del_node_mgr_def add_endpoints_def del_endpoints_def pop_added_node_mgr)
qed

lemma on_managed_get [simp]:
  "dict_get (instances (manager (on_managed_instance i f s))) j =
     (if j = i then map_option f (dict_get (instances (manager s)) j) else dict_get (instances (manager s)) j)"
  by (simp add: on_managed_instance_def)

lemma attach_outcome:
  assumes ins: "dict_get (instances (manager s)) i = Some ins"
    and new: "\<not> has_node_mgr (Some (jm_pod_ip msg)) ins" "\<not> in_dict (jm_pod_ip msg) (endpoints ins)"
    and r: "attach_replacement env cenv i msg eps s = (s', ret)"
  shows "(ret = 0 \<and> (\<exists>ins'. dict_get (instances (manager s')) i = Some ins' \<and>
             endpoints ins' = endpoints ins @ [(jm_pod_ip msg, eps)] \<and>
             has_node_mgr (Some (jm_pod_ip msg)) ins')) \<or>
         (ret = -1 \<and> (\<exists>ins'. dict_get (instances (manager s')) i = Some ins' \<and>
             endpoints ins' = endpoints ins \<and> node_managers ins' = node_managers ins))"
proof -
  let ?add = "add_node_mgr (Some (jm_pod_ip msg)) (Some (jm_nm_port msg)) (jm_device_num msg) \<circ> add_endpoints (jm_pod_ip msg) (Some eps)"
  let ?s1 = "on_managed_instance i ?add s"
  have g1: "get_instance i (manager ?s1) = Some (?add ins)" using ins by (simp add: get_instance_def)
  obtain s2 b where snd: "send_replacement_start_command env (?add ins) msg eps ?s1 = (s2, b)" by fastforce
  then have m2: "manager s2 = manager ?s1" using send_replacement_frame(2) by (metis fst_conv)
  have add: "endpoints (?add ins) = endpoints ins @ [(jm_pod_ip msg, eps)]" "has_node_mgr (Some (jm_pod_ip msg)) (?add ins)"
    using new(2) by (simp_all add: has_added_node_mgr add_endpoints_def dict_set_fresh)
  show ?thesis
  proof (cases b)
    case True
    with r g1 snd have "ret = 0" "manager s' = fst (persist_topology cenv (manager s2))"
      by (auto simp: attach_replacement_def Let_def)
    with m2 ins add show ?thesis by simp
  next
    case False
    let ?del = "del_endpoints (jm_pod_ip msg) \<circ> del_node_mgr (Some (jm_pod_ip msg)) (Some (jm_nm_port msg))"
    from False r g1 snd have "ret = -1" "s' = on_managed_instance i ?del s2" by (auto simp: attach_replacement_def Let_def)
    moreover have "dict_get (instances (manager s2)) i = Some (?add ins)" using m2 ins by simp
    ultimately show ?thesis using rollback_restores[OF new, of "jm_nm_port msg" "jm_device_num msg" eps]
      by (simp add: Let_def)
  qed
qed

text \<open>
  C11: A replacement pod joins an active instance all or nothing. If the join succeeds, the pod
  brings one endpoint per assigned rank; these ranks are original ranks that no registered pod
  holds, no more than its devices can carry, and the other pods' endpoints are unchanged. If the
  answer is -1, also when the start command failed, the instance's node managers and endpoints
  are what they were.
\<close>

theorem replacement_all_or_nothing:
  assumes ok: "registry_ok (manager s)"
    and ins: "active_instance_by_job_name (jm_job_name msg) (manager s) = Some ins"
    and closed: "\<forall>ip. in_dict ip (endpoints ins) \<longrightarrow> has_node_mgr (Some ip) ins"
    and new: "\<not> has_node_mgr (Some (jm_pod_ip msg)) ins"
    and res: "join_or_reject_assembled env cenv msg s = (s', Inr ret)"
  shows "\<exists>ins'. get_instance (ins_id ins) (manager s') = Some ins' \<and>
    (if ret = 0
     then \<exists>rt eps. rt_get (ins_id ins) (asm_ft_store env) = Some rt \<and> phase rt \<in> JOIN_PHASES \<and> eps \<noteq> [] \<and>
            distinct (dict_keys eps) \<and>
            set (dict_keys eps) \<subseteq> set (original_ranks ins rt) - set (present_ranks ins) \<and>
            int (length eps) * devices_per_rank msg \<le> jm_device_num msg \<and>
            (\<forall>(r, ep) \<in> set eps. ep_id ep = r \<and> ep_ip ep = jm_pod_ip msg \<and> ep_status ep = EP_INITIAL) \<and>
            endpoints ins' = endpoints ins @ [(jm_pod_ip msg, eps)] \<and> has_node_mgr (Some (jm_pod_ip msg)) ins'
     else ret = -1 \<and> endpoints ins' = endpoints ins \<and> node_managers ins' = node_managers ins)"
proof -
  note get = active_instance_get[OF ok ins]
  have absent: "\<not> in_dict (jm_pod_ip msg) (endpoints ins)" using closed new by blast
  show ?thesis
  proof (cases "s' = s \<and> ret = -1")
    case True
    with get show ?thesis by (simp add: get_instance_def)
  next
    case False
    with res ins new obtain rt eps slot where
      rt: "rt_get (ins_id ins) (asm_ft_store env) = Some rt" "phase rt \<in> JOIN_PHASES"
      and slot: "pick_replacement_rank_slot msg (missing_dp_ranks ins rt) = slot" "slot \<noteq> []"
      and eps: "build_replacement_endpoints (asm_now env) msg slot = Inr eps" "eps \<noteq> []"
      and at: "attach_replacement env cenv (ins_id ins) msg eps s = (s', ret)"
      by (auto simp: join_or_reject_assembled_def Let_def case_prod_unfold split: if_splits option.splits sum.splits)
    obtain k where k: "slot = take k (missing_dp_ranks ins rt)" "int (length slot) * devices_per_rank msg \<le> jm_device_num msg"
      using slot_prefix[OF slot] by blast
    note keys = replacement_keys[OF eps]
    have len: "length eps = length slot" using keys by (metis length_map length_sort)
    have dis: "distinct (dict_keys eps)" using keys k(1) missing_sorted(2)[of ins rt] by (simp add: distinct_take)
    have sub: "set (dict_keys eps) \<subseteq> set (original_ranks ins rt) - set (present_ranks ins)"
      using keys k(1) missing_sorted(3)[of ins rt] set_take_subset[of k "missing_dp_ranks ins rt"] by simp
    have new_eps: "distinct (dict_keys eps) \<and>
            set (dict_keys eps) \<subseteq> set (original_ranks ins rt) - set (present_ranks ins) \<and>
            int (length eps) * devices_per_rank msg \<le> jm_device_num msg \<and>
            (\<forall>(r, ep) \<in> set eps. ep_id ep = r \<and> ep_ip ep = jm_pod_ip msg \<and> ep_status ep = EP_INITIAL)"
      by (intro conjI, fact dis, fact sub, use len k(2) in simp, fact conjunct2[OF keys])
    from attach_outcome[OF get new absent at] show ?thesis
    proof (elim disjE conjE exE)
      fix ins'
      assume z: "ret = 0" and "dict_get (instances (manager s')) (ins_id ins) = Some ins'"
        "endpoints ins' = endpoints ins @ [(jm_pod_ip msg, eps)]" "has_node_mgr (Some (jm_pod_ip msg)) ins'"
      with rt eps(2) new_eps show ?thesis unfolding get_instance_def if_P[OF z] by blast
    qed (auto simp: get_instance_def)
  qed
qed

theorem replacement_all_or_nothing_witness:
  "\<exists>ins'. get_instance 7 (manager (fst (join_or_reject_assembled (demo_join_env True) demo_env
        (Join_register (demo_register ''10.0.0.9'' [''80''] True)) (demo_joining False)))) = Some ins' \<and>
      (\<exists>eps. endpoints ins' = endpoints demo_survivor @ [(''10.0.0.9'', eps)])"
proof -
  let ?msg = "Join_register (demo_register ''10.0.0.9'' [''80''] True)"
  let ?r = "join_or_reject_assembled (demo_join_env True) demo_env ?msg (demo_joining False)"
  have "snd ?r = Inr 0" by code_simp
  then have res: "?r = (fst ?r, Inr 0)" by (metis prod.collapse)
  have ok: "registry_ok (manager (demo_joining False))"
    by (simp add: registry_ok_def demo_joining_def demo_asm_def InstanceAssembler_init_def demo_manager0_def demo_survivor_def
        demo_instance_def demo_manager_def)
  have act: "active_instance_by_job_name (jm_job_name ?msg) (manager (demo_joining False)) = Some demo_survivor"
    by code_simp
  have closed: "\<forall>ip. in_dict ip (endpoints demo_survivor) \<longrightarrow> has_node_mgr (Some ip) demo_survivor"
    by (simp add: demo_survivor_def demo_instance_def has_node_mgr_def)
  have new: "\<not> has_node_mgr (Some (jm_pod_ip ?msg)) demo_survivor" by code_simp
  have ip: "jm_pod_ip ?msg = ''10.0.0.9''" "ins_id demo_survivor = 7"
    by (simp_all add: demo_register_def demo_survivor_def demo_instance_def)
  show ?thesis using replacement_all_or_nothing[OF ok act closed new res] ip by auto
qed

section \<open>Registrations that fail half-way\<close>

lemma register_admits:
  assumes ok: "asm_ok c s" and un: "\<forall>md. dict_get (asm_instances s) (rg_job_name msg) = Some md \<longrightarrow> register_status md \<noteq> ASSEMBLED"
    and act: "\<not> has_active_instance_by_job_name (rg_job_name msg) (manager s)"
    and fail: "isl (snd (register env cenv msg s))"
  obtains s0 md0 where "dict_get (asm_instances s0) (rg_job_name msg) = Some md0" "\<not> md_shared md0" "\<not> is_reregister md0"
    "ft_capability (md_instance md0) = rg_ft_capability msg" "\<not> has_node_mgr (Some (rg_pod_ip msg)) (md_instance md0)"
    "manager s0 = manager s" "register env cenv msg s = admit_pod env msg s0" "asm_ok c s0" "register_status md0 \<noteq> ASSEMBLED"
proof -
  let ?job = "rg_job_name msg"
  define s0 where "s0 = (if in_dict ?job (asm_instances s) then touch_registration env ?job s else open_registration env msg s)"
  have nr: "\<not> via_reregister ?job s" using act fail
    by (auto simp: register_def eval_register_status_def via_reregister_def split: option.splits)
  have reg: "register env cenv msg s = register_pod env msg s0"
    using act nr by (auto simp: register_def eval_register_status_def s0_def via_reregister_def)
  have ok0: "asm_ok c s0" using ok by (simp add: s0_def touch_registration_ok open_registration_ok)
  have man: "manager s0 = manager s" by (simp add: s0_def touch_registration_def open_registration_def Let_def)
  obtain md0 where md0: "dict_get (asm_instances s0) ?job = Some md0" "register_status md0 \<noteq> ASSEMBLED" "\<not> is_reregister md0"
    using un nr by (cases "dict_get (asm_instances s) ?job")
      (auto simp: s0_def touch_registration_def open_registration_def Let_def new_entry_def via_reregister_def)
  have sh: "\<not> md_shared md0" using registered_entry_get[OF md0(1) ok0 md0(2)] by blast
  from fail reg md0 have ft: "ft_capability (md_instance md0) = rg_ft_capability msg" "\<not> has_node_mgr (Some (rg_pod_ip msg)) (md_instance md0)"
    "register env cenv msg s = admit_pod env msg s0"
    by (auto simp: register_pod_def split: if_splits)
  show thesis by (rule that[OF md0(1) sh md0(3) ft(1,2) man ft(3) ok0 md0(2)])
qed

text \<open>
  A registration that raises while its endpoints are built (an empty port list, a ranktable
  without servers) has already added the node manager: the pod stays registered without endpoints,
  and every retry of the registration is answered with success and adds nothing.
\<close>

theorem failed_registration_acknowledged:
  assumes ok: "asm_ok True s"
    and un: "\<forall>md. dict_get (asm_instances s) (rg_job_name msg) = Some md \<longrightarrow> register_status md \<noteq> ASSEMBLED"
    and act: "\<not> has_active_instance_by_job_name (rg_job_name msg) (manager s)"
    and fail: "register env cenv msg s = (s', Inl e)"
  shows "\<exists>md. dict_get (asm_instances s') (rg_job_name msg) = Some md \<and>
     has_node_mgr (Some (rg_pod_ip msg)) (md_instance md) \<and> get_endpoints (rg_pod_ip msg) (md_instance md) = [] \<and>
     (\<forall>env' cenv'. snd (register env' cenv' msg s') = Inr 0 \<and>
        (\<exists>md'. dict_get (asm_instances (fst (register env' cenv' msg s'))) (rg_job_name msg) = Some md' \<and>
               md_instance md' = md_instance md))"
proof -
  let ?job = "rg_job_name msg" and ?ip = "rg_pod_ip msg"
  have "isl (snd (register env cenv msg s))" using fail by simp
  from register_admits[OF ok un act this]
  obtain s0 md0 where s0: "dict_get (asm_instances s0) ?job = Some md0" "\<not> md_shared md0" "\<not> is_reregister md0"
    "ft_capability (md_instance md0) = rg_ft_capability msg" "\<not> has_node_mgr (Some ?ip) (md_instance md0)"
    "manager s0 = manager s" "register env cenv msg s = admit_pod env msg s0" "asm_ok True s0" "register_status md0 \<noteq> ASSEMBLED" .
  have "ranks_numbered (md_instance md0)" using asm_okD(4)[OF s0(8,1)] s0(3,9) by (simp add: asm_entry_ok_def)
  with s0(5) have ne: "\<not> in_dict ?ip (endpoints (md_instance md0))" by (auto simp: ranks_numbered_def)
  from s0(7) fail have ad: "admit_pod env msg s0 = (s', Inl e)" by simp
  obtain md where md: "dict_get (asm_instances s') ?job = Some md" "has_node_mgr (Some ?ip) (md_instance md)"
    "ft_capability (md_instance md) = rg_ft_capability msg" "is_reregister md = is_reregister md0"
    "endpoints (md_instance md) = endpoints (md_instance md0)"
    using admit_pod_entry(1)[OF s0(1,2), of env] ad s0(4) by auto
  have man: "manager s' = manager s" using admit_pod_entry(3)[OF s0(1,2), of env] ad s0(6) by simp
  have again: "register env' cenv' msg s' = (touch_registration env' ?job s', Inr 0)" for env' cenv'
    using md s0(3) act man
    by (simp add: register_def eval_register_status_def via_reregister_def register_pod_def touch_registration_def)
  from md ne have "get_endpoints ?ip (md_instance md) = []" by (simp add: get_endpoints_def)
  with md again show ?thesis by (auto simp: touch_registration_def)
qed

theorem failed_registration_acknowledged_witness:
  "\<exists>md. dict_get (asm_instances (fst (register (demo_aenv [] True) demo_env (demo_register ''10.0.0.1'' [] False) (demo_asm False)))) ''job'' = Some md \<and>
     has_node_mgr (Some ''10.0.0.1'') (md_instance md) \<and> get_endpoints ''10.0.0.1'' (md_instance md) = []"
proof -
  let ?msg = "demo_register ''10.0.0.1'' [] False"
  let ?r = "register (demo_aenv [] True) demo_env ?msg (demo_asm False)"
  have "snd ?r = Inl IndexError" by code_simp
  then have r: "?r = (fst ?r, Inl IndexError)" by (metis prod.collapse)
  have ok: "asm_ok True (demo_asm False)" unfolding demo_asm_def by (rule asm_ok_init) (simp add: demo_manager0_def)
  have un: "\<forall>md. dict_get (asm_instances (demo_asm False)) (rg_job_name ?msg) = Some md \<longrightarrow> register_status md \<noteq> ASSEMBLED"
    by (simp add: demo_asm_def InstanceAssembler_init_def)
  have act: "\<not> has_active_instance_by_job_name (rg_job_name ?msg) (manager (demo_asm False))"
    by code_simp
  have "rg_job_name ?msg = ''job''" "rg_pod_ip ?msg = ''10.0.0.1''" by (simp_all add: demo_register_def)
  with failed_registration_acknowledged[OF ok un act r] show ?thesis by auto
qed

section \<open>Restored registrations\<close>

lemma restored_get:
  assumes "dict_get (foldl (restore_metadata env) d entries) job = Some md"
    and "\<forall>md. dict_get d job = Some md \<longrightarrow> P md"
    and "\<forall>x \<in> set entries. \<forall>md. md_validate env (snd x) = Some md \<longrightarrow> P (md\<lparr>is_reregister := True, md_shared := False\<rparr>)"
  shows "P md"
  using assms
proof (induction entries arbitrary: d)
  case (Cons x entries)
  have "\<forall>md. dict_get (restore_metadata env d x) job = Some md \<longrightarrow> P md"
    using Cons.prems(2,3) by (auto simp: restore_metadata_def split: option.split if_splits)
  from Cons.IH[OF _ this] Cons.prems(1,3) show ?case by simp
qed simp

lemma restored_cong:
  "all_restored s \<Longrightarrow> (\<And>job md. dict_get (asm_instances s') job = Some md \<Longrightarrow> dict_get (asm_instances s) job = Some md) \<Longrightarrow> all_restored s'"
  by (auto simp: all_restored_def)

lemma restored_persist [simp]: "all_restored (maybe_persist env s) \<longleftrightarrow> all_restored s"
  by (simp add: all_restored_def)

lemma complete_reregistration:
  assumes r: "all_restored s" and md: "dict_get (asm_instances s) job = Some md"
  shows "all_restored (complete_assembly env job s) \<and> start_commands (complete_assembly env job s) = start_commands s"
proof -
  from r md have m: "is_reregister md" by (auto simp: all_restored_def)
  have "dict_get (asm_instances (drop_entry job (hand_over env job s))) job' = Some md' \<Longrightarrow> dict_get (asm_instances s) job' = Some md'" for job' md'
    using r md by (auto simp: hand_over_def Let_def all_restored_def split: if_splits)
  then have "all_restored (drop_entry job (hand_over env job s))" by (rule restored_cong[OF r])
  moreover have "start_commands (hand_over env job s) = start_commands s" by (simp add: hand_over_def Let_def split: option.split)
  ultimately show ?thesis using m md by (simp add: complete_assembly_def)
qed

lemma assemble_restored:
  assumes r: "all_restored s" and md: "dict_get (asm_instances s) job = Some md"
  shows "all_restored (assemble_instance env job s) \<and> start_commands (assemble_instance env job s) = start_commands s"
proof -
  define s1 where "s1 = on_entry job clear_stale_master (on_instance job (filter_abnormal_endpoints env) s)"
  from r md have "\<not> md_shared md" by (auto simp: all_restored_def)
  with md have get: "asm_instances s1 = dict_modify job clear_stale_master
      (dict_modify job (\<lambda>md. md\<lparr>md_instance := filter_abnormal_endpoints env (md_instance md)\<rparr>) (asm_instances s))"
    by (simp add: s1_def on_instance_def)
  have r1: "all_restored s1" using r by (auto simp: all_restored_def get split: if_splits)
  have c: "start_commands s1 = start_commands s" by (simp add: s1_def)
  have d: "all_restored (drop_entry job s1)" by (rule restored_cong[OF r1]) (simp split: if_splits)
  show ?thesis
  proof (cases "dict_get (asm_instances s1) job")
    case (Some md1)
    with complete_reregistration[OF r1 Some, of env] c d r1 show ?thesis
      by (simp add: assemble_instance_def Let_def s1_def[symmetric])
  qed (use r1 c in \<open>simp add: assemble_instance_def Let_def s1_def[symmetric]\<close>)
qed

lemma pass_restored:
  assumes r: "all_restored s" and p: "is_pass op"
  shows "all_restored (asm_step s op) \<and> start_commands (asm_step s op) = start_commands s"
proof (cases op)
  case (Asm_assemble env)
  have "all_restored s \<Longrightarrow> all_restored (foldl (assemble_job env) s jobs) \<and> start_commands (foldl (assemble_job env) s jobs) = start_commands s" for jobs s
  proof (induction jobs arbitrary: s)
    case (Cons job jobs)
    have "all_restored (assemble_job env s job) \<and> start_commands (assemble_job env s job) = start_commands s"
      using Cons.prems assemble_restored[OF Cons.prems, of job _ env] by (simp add: assemble_job_def split: option.split)
    with Cons.IH[of "assemble_job env s job"] show ?case by simp
  qed simp
  with r Asm_assemble show ?thesis by (simp add: assembler_round_def)
next
  case (Asm_send env)
  have "start_job env n (s, b) job = (s, b)" for n b job
    using r by (auto simp: start_job_def all_restored_def split: option.split)
  then have "foldl (start_job env n) (s, b) jobs = (s, b)" for n b jobs by (induction jobs) simp_all
  with r Asm_send show ?thesis by (simp add: start_command_round_def Let_def)
qed (use p in simp_all)

text \<open>
  An instance whose registrations were still being collected when the controller stopped is
  never started after the restart: every restored entry counts as a re-registration, so no number
  of passes of the two loops sends it a start command, although (as the witness shows) a complete
  one is handed to the manager.
\<close>

theorem restored_never_started:
  assumes cell: "asm_etcd s0 = Asm_state ps" and restored: "asm_restore env s0 = (s, True)"
    and entries: "ad_instances (as_data ps) = Some entries"
    and un: "\<forall>x \<in> set entries. \<forall>md. md_validate env (snd x) = Some md \<longrightarrow> register_status md \<noteq> ASSEMBLED"
    and passes: "list_all is_pass ops"
  shows "start_commands (foldl asm_step s ops) = start_commands s0 \<and>
    (\<forall>job md. dict_get (asm_instances (foldl asm_step s ops)) job = Some md \<longrightarrow> register_status md \<noteq> ASSEMBLED)"
proof -
  from cell restored entries have s: "asm_instances s = foldl (restore_metadata env) [] entries" "start_commands s = start_commands s0"
    by (auto simp: asm_restore_def split: if_splits)
  have "all_restored s"
    unfolding all_restored_def
  proof (intro allI impI)
    fix job md assume "dict_get (asm_instances s) job = Some md"
    then show "is_reregister md \<and> register_status md \<noteq> ASSEMBLED \<and> \<not> md_shared md"
      unfolding s(1) by (rule restored_get) (use un in simp_all)
  qed
  then have "all_restored (foldl asm_step s ops) \<and> start_commands (foldl asm_step s ops) = start_commands s"
    using passes
  proof (induction ops arbitrary: s)
    case (Cons op ops)
    with pass_restored[of s op] show ?case by simp
  qed simp
  with s(2) show ?thesis by (auto simp: all_restored_def)
qed

theorem restored_never_started_witness:
  "let env = demo_aenv [] True; s0 = (demo_asm True)\<lparr>asm_etcd := demo_cell\<rparr>;
       s' = foldl asm_step (asm_start env s0) [Asm_assemble env, Asm_send env]
   in start_commands s' = [] \<and> asm_instances s' = [] \<and>
      map_option (\<lambda>ins. length (all_eps ins)) (get_instance 1 (manager s')) = Some 2"
proof -
  let ?env = "demo_aenv [] True" and ?s0 = "(demo_asm True)\<lparr>asm_etcd := demo_cell\<rparr>"
  define ps where "ps = (case demo_cell of Asm_state ps \<Rightarrow> ps)"
  have cell: "asm_etcd ?s0 = Asm_state ps" unfolding ps_def by code_simp
  define entries where "entries = the (ad_instances (as_data ps))"
  have "ad_instances (as_data ps) \<noteq> None" unfolding ps_def by code_simp
  then have entries: "ad_instances (as_data ps) = Some entries" unfolding entries_def by (rule option.collapse[symmetric])
  have ok: "asm_restore ?env ?s0 = (asm_start ?env ?s0, True)" by code_simp
  have un: "\<forall>x \<in> set entries. \<forall>md. md_validate ?env (snd x) = Some md \<longrightarrow> register_status md \<noteq> ASSEMBLED"
  proof -
    have "list_all (\<lambda>x. register_status (snd x) \<noteq> ASSEMBLED) entries" unfolding entries_def ps_def by code_simp
    then show ?thesis by (auto simp: list_all_iff demo_aenv_def)
  qed
  have "start_commands (foldl asm_step (asm_start ?env ?s0) [Asm_assemble ?env, Asm_send ?env]) = start_commands ?s0"
    by (rule conjunct1[OF restored_never_started[OF cell ok entries un]]) simp
  moreover have "start_commands ?s0 = []" by code_simp
  moreover have "asm_instances (foldl asm_step (asm_start ?env ?s0) [Asm_assemble ?env, Asm_send ?env]) = []" by code_simp
  moreover have "map_option (\<lambda>ins. length (all_eps ins))
      (get_instance 1 (manager (foldl asm_step (asm_start ?env ?s0) [Asm_assemble ?env, Asm_send ?env]))) = Some 2" by code_simp
  ultimately show ?thesis unfolding Let_def by metis
qed

inductive_cases lock_step_elim: "lock_step (ts, h) c"

section \<open>Start commands that fail\<close>

lemma start_loop_fails:
  "\<forall>nm cmd. \<not> post_start env nm cmd \<Longrightarrow> start_loop env md master d2d rank nms acc s = (s', sent, ok) \<Longrightarrow>
   fst acc \<le> sent \<and> (fst acc < sent \<longrightarrow> \<not> ok)"
proof (induction nms arbitrary: rank acc s)
  case (Cons nm nms)
  let ?eps = "dict_values (get_endpoints (pod_ip nm) (md_instance md))"
  show ?case
  proof (cases "?eps = []")
    case True
    with Cons.prems(2) have "start_loop env md master d2d (rank + 1) nms acc s = (s', sent, ok)" by simp
    then show ?thesis by (rule Cons.IH[OF Cons.prems(1)])
  next
    case False
    let ?s = "s\<lparr>start_commands := start_commands s @ [(nm, start_cmd_for env md master d2d rank ?eps (manager s))]\<rparr>"
    from False Cons.prems have l: "start_loop env md master d2d (rank + 1) nms (fst acc + 1, False) ?s = (s', sent, ok)"
      by (simp add: send_start_command_def Let_def)
    have "ok \<Longrightarrow> False"
    proof -
      have stays: "start_loop env md master d2d r nms (n, False) s0 = (s1, m, o1) \<Longrightarrow> \<not> o1" for r n s0 s1 m o1 nms
        by (induction nms arbitrary: r n s0) (auto simp: Let_def send_start_command_def split: if_splits)
      then show "ok \<Longrightarrow> False" using l by blast
    qed
    with Cons.IH[OF Cons.prems(1) l] show ?thesis by auto
  qed
qed simp

lemma send_fails: "\<forall>nm cmd. \<not> post_start env nm cmd \<Longrightarrow> \<not> snd (send_start_commands env md s)"
proof -
  assume f: "\<forall>nm cmd. \<not> post_start env nm cmd"
  let ?i = "is_d2d_enabled_for_role env (ins_role (md_instance md)) s"
  obtain s2 sent ok where l: "start_loop env md (choose_master md) (snd ?i) 0 (node_managers (md_instance md)) (0, True) (fst ?i) = (s2, sent, ok)"
    by (rule prod_cases3)
  with start_loop_fails[OF f l] show ?thesis by (auto simp: send_start_commands_def Let_def case_prod_unfold)
qed

lemma start_job_other: "job' \<noteq> job \<Longrightarrow>
   dict_get (asm_instances (fst (start_job env n st job'))) job = dict_get (asm_instances (fst st)) job"
  by (auto simp: start_job_def Let_def case_prod_unfold split: option.split)

lemma start_job_fails:
  assumes "\<forall>nm cmd. \<not> post_start env nm cmd" and "dict_get (asm_instances (fst st)) job = Some md" and "register_status md = ASSEMBLED"
  shows "dict_get (asm_instances (fst (start_job env n st job))) job =
    (if start_command_send_times md + 1 < n
     then Some (md\<lparr>start_command_send_times := start_command_send_times md + 1\<rparr>) else None)"
  using assms send_fails[OF assms(1), of md "fst st"] by (simp add: start_job_def Let_def case_prod_unfold)

lemma start_jobs_other:
  "job \<notin> set js \<Longrightarrow> dict_get (asm_instances (fst (foldl (start_job env n) st js))) job = dict_get (asm_instances (fst st)) job"
  by (induction js arbitrary: st) (auto simp: start_job_other)

lemma start_jobs_fail:
  assumes f: "\<forall>nm cmd. \<not> post_start env nm cmd"
  shows "distinct jobs \<Longrightarrow> dict_get (asm_instances (fst st)) job = Some md \<Longrightarrow> register_status md = ASSEMBLED \<Longrightarrow>
    dict_get (asm_instances (fst (foldl (start_job env n) st jobs))) job =
     (if job \<notin> set jobs then Some md
      else if start_command_send_times md + 1 < n
      then Some (md\<lparr>start_command_send_times := start_command_send_times md + 1\<rparr>) else None)"
proof (induction jobs arbitrary: st)
  case (Cons j jobs)
  show ?case
  proof (cases "j = job")
    case True
    with Cons.prems start_jobs_other[of job jobs env n "start_job env n st job"] start_job_fails[OF f Cons.prems(2,3), of n] show ?thesis by simp
  next
    case False
    with Cons.IH[of "start_job env n st j"] Cons.prems start_job_other[OF False, of env n st] show ?thesis by auto
  qed
qed simp

lemma failing_round:
  assumes ok: "asm_ok c s" and f: "\<forall>nm cmd. \<not> post_start env nm cmd"
    and md: "dict_get (asm_instances s) job = Some md" "register_status md = ASSEMBLED"
  shows "dict_get (asm_instances (start_command_round env s)) job =
     (if start_command_send_times md + 1 < send_cmd_retry_times s
      then Some (md\<lparr>start_command_send_times := start_command_send_times md + 1\<rparr>) else None)"
proof -
  have "job \<in> set (dict_keys (asm_instances s))" using md(1) by (force dest: dict_get_in)
  with start_jobs_fail[OF f asm_okD(2)[OF ok], of "(s, False)" job md "send_cmd_retry_times s"] md show ?thesis
    by (simp add: start_command_round_def Let_def case_prod_unfold)
qed

lemma retries_kept [simp]:
  fixes s :: "('r, 'm) InstanceAssembler"
  shows "send_cmd_retry_times (start_command_round env s) = send_cmd_retry_times s"
proof -
  have l: "send_cmd_retry_times (fst (start_loop env md m d r nms acc s)) = send_cmd_retry_times s" for md m d r nms acc and s :: "('r, 'm) InstanceAssembler"
    by (induction nms arbitrary: r acc s) (simp_all add: Let_def send_start_command_def)
  have "send_cmd_retry_times (fst (send_start_commands env md s)) = send_cmd_retry_times s" for md and s :: "('r, 'm) InstanceAssembler"
    by (simp add: send_start_commands_def Let_def case_prod_unfold l) (simp add: is_d2d_enabled_for_role_def Let_def split: option.split)
  then have j: "send_cmd_retry_times (fst (start_job env n st job)) = send_cmd_retry_times (fst st)" for n job and st :: "('r, 'm) InstanceAssembler \<times> bool"
    by (simp add: start_job_def Let_def case_prod_unfold drop_entry_def on_entry_def split: option.split)
  have "send_cmd_retry_times (fst (foldl (start_job env n) st jobs)) = send_cmd_retry_times (fst st)" for n jobs and st :: "('r, 'm) InstanceAssembler \<times> bool"
    by (induction jobs arbitrary: st) (simp_all add: j)
  then show ?thesis by (simp add: start_command_round_def Let_def case_prod_unfold maybe_persist_def asm_persist_def)
qed

text \<open>
  C29: Retrying the start command ends: an assembled instance whose node managers never accept the
  command stays with its count raised by one per pass, and is given up in the pass that makes the
  count reach the configured number of retries (in the first pass when that is at most one).
\<close>

theorem start_retries_end:
  assumes "asm_ok c s" and "dict_get (asm_instances s) job = Some md" and "register_status md = ASSEMBLED"
    and "\<forall>env \<in> set envs. \<forall>nm cmd. \<not> post_start env nm cmd"
    and "int (length envs) = max 1 (send_cmd_retry_times s - start_command_send_times md)"
  shows "dict_get (asm_instances (foldl (\<lambda>s env. start_command_round env s) s envs)) job = None \<and>
    (\<forall>k < length envs. \<exists>md'. dict_get (asm_instances (foldl (\<lambda>s env. start_command_round env s) s (take k envs))) job = Some md' \<and>
        start_command_send_times md' = start_command_send_times md + int k)"
  using assms
proof (induction envs arbitrary: s md)
  case (Cons env envs)
  let ?s = "start_command_round env s" and ?n = "send_cmd_retry_times s" and ?t = "start_command_send_times md"
  have ok: "asm_ok c ?s" using Cons.prems(1) by (rule start_round_ok)
  have f: "\<forall>nm cmd. \<not> post_start env nm cmd" using Cons.prems(4) by simp
  note r = failing_round[OF Cons.prems(1) f Cons.prems(2,3)]
  show ?case
  proof (cases "?t + 1 < ?n")
    case True
    let ?md = "md\<lparr>start_command_send_times := ?t + 1\<rparr>"
    have get: "dict_get (asm_instances ?s) job = Some ?md" using r True by simp
    have "int (length envs) = max 1 (send_cmd_retry_times ?s - start_command_send_times ?md)" using Cons.prems(5) True by simp
    from Cons.IH[OF ok get _ _ this] Cons.prems(3,4)
    have ih: "dict_get (asm_instances (foldl (\<lambda>s env. start_command_round env s) ?s envs)) job = None"
      "\<forall>k < length envs. \<exists>md'. dict_get (asm_instances (foldl (\<lambda>s env. start_command_round env s) ?s (take k envs))) job = Some md' \<and>
        start_command_send_times md' = ?t + 1 + int k" by simp_all
    have "\<exists>md'. dict_get (asm_instances (foldl (\<lambda>s env. start_command_round env s) s (take k (env # envs)))) job = Some md' \<and>
        start_command_send_times md' = ?t + int k" if "k < Suc (length envs)" for k
      using that ih(2) Cons.prems(2) by (cases k) auto
    with ih(1) show ?thesis by simp
  next
    case False
    with Cons.prems(5) have "envs = []" by simp
    with r False Cons.prems(2) show ?thesis by simp
  qed
qed simp

theorem start_retries_end_witness:
  "dict_get (asm_instances (foldl (\<lambda>s env. start_command_round env s) demo_assembled (replicate 3 (demo_aenv [] False)))) ''job'' = None"
proof -
  have ok: "asm_ok True demo_assembled"
    unfolding demo_assembled_def demo_asm_def
    by (rule asm_run.run_keeps[OF asm_ok_init]) (simp_all add: demo_manager0_def demo_aenv_def)
  have "dict_get (asm_instances demo_assembled) ''job'' \<noteq> None" by code_simp
  then obtain md where get: "dict_get (asm_instances demo_assembled) ''job'' = Some md" by blast
  then have md: "md = the (dict_get (asm_instances demo_assembled) ''job'')" by simp
  have st: "register_status md = ASSEMBLED" unfolding md by code_simp
  have "send_cmd_retry_times demo_assembled = 3" by code_simp
  moreover have "start_command_send_times md = 0" unfolding md by code_simp
  ultimately have len: "int (length (replicate 3 (demo_aenv [] False))) =
      max 1 (send_cmd_retry_times demo_assembled - start_command_send_times md)" by simp
  have fail: "\<forall>env \<in> set (replicate 3 (demo_aenv [] False)). \<forall>nm cmd. \<not> post_start env nm cmd" by (simp add: demo_aenv_def)
  show ?thesis by (rule conjunct1[OF start_retries_end[OF ok get st fail len]])
qed

section \<open>Lock order\<close>


section \<open>Restart without persistence\<close>

text \<open>
  The counter starts at 1 again: an instance that registers before an older one re-registers takes
  its ID, and the older one is dropped when it is complete.
\<close>

lemma restarted_counter_collides:
  "let env = demo_aenv [] True;
       s = foldl asm_step (demo_asm False)
             [Asm_register env demo_env (demo_register ''10.0.0.1'' [''80''] True),
              Asm_register env demo_env (demo_register ''10.0.0.2'' [''80''] True),
              Asm_reregister env demo_env (demo_reregister ''old'' 1), Asm_assemble env]
   in map (\<lambda>(i, ins). (i, job_name ins)) (instances (manager s)) = [(1, ''job'')] \<and>
      dict_keys (asm_instances s) = [''job'']"
  by code_simp

text \<open>
  Pods without a ranktable have device rows all the same: the ranktable built for their replacement
  is not None, and it lists the survivors without the joining pod.
\<close>

lemma replacement_ranktable_without_joiner:
  "let ins = demo_survivor\<lparr>endpoints := [(''10.0.0.1'', [(1, (demo_endpoint 1 EP_NORMAL)\<lparr>device_infos :=
         projr (build_device_infos (demo_register ''10.0.0.1'' [''80''] True) 0 1 1)\<rparr>)])]\<rparr>;
       msg = Join_register (demo_register ''10.0.0.9'' [''80''] True)
   in map_option (\<lambda>rt. map server_id (server_list rt)) (instance_ranktable_for_replacement ins msg) = Some [''10.0.0.1'']"
  by code_simp

end
