(* ===== verification/Etcd_Client.thy ===== *)
theory Etcd_Client
  imports Prelude "HOL-Library.Sublist"
begin

text \<open>
  The ETCD client: \<^verbatim>\<open>motor/common/etcd/etcd_client.py\<close> and the lock it builds on,
  \<^verbatim>\<open>motor/common/etcd/locks.py\<close>.

  The ETCD server is not part of the program: it is a record of the RPCs the client issues, each a
  function on a server state that also says whether the call returned or raised (\<open>None\<close>). What the
  client relies on is the predicate \<open>etcd_kv\<close>: a call that returns has the effect ETCD documents
  for it. Keys and values are byte strings and ordered byte by byte; JSON encoding and decoding are
  arguments. The client's own lock makes an operation one step.
\<close>

section \<open>Server and client\<close>

record 's EtcdServer =
  lease_grant :: "int \<Rightarrow> 's \<Rightarrow> 's \<times> int option"
  lease_keep_alive :: "int \<Rightarrow> 's \<Rightarrow> 's \<times> int option"
  lease_revoke :: "int \<Rightarrow> 's \<Rightarrow> 's \<times> bool"
  txn_create :: "string \<Rightarrow> string \<Rightarrow> int \<Rightarrow> 's \<Rightarrow> 's \<times> bool option"
  kv_put :: "string \<Rightarrow> string \<Rightarrow> 's \<Rightarrow> 's \<times> bool"
  kv_delete_range :: "string \<Rightarrow> string \<Rightarrow> 's \<Rightarrow> 's \<times> bool"
  kv_range :: "string \<Rightarrow> string \<Rightarrow> 's \<Rightarrow> 's \<times> (string \<times> string) list option"

record 's EtcdClient =
  namespace :: string
  client_job :: string
  lock_uuid :: string
  client_leases :: "(string, int) dict"
  server :: 's

definition get_key_with_namespace_and_job_name :: "string \<Rightarrow> string \<Rightarrow> string \<Rightarrow> string" where
  "get_key_with_namespace_and_job_name ns job key =
     (if py_startswith key (ns @ ''/'' @ job @ ''/'') then key else ns @ ''/'' @ job @ key)"

abbreviation full_key :: "'s EtcdClient \<Rightarrow> string \<Rightarrow> string" where
  "full_key c \<equiv> get_key_with_namespace_and_job_name (namespace c) (client_job c)"

text \<open>
  The last byte below 255 is incremented, in place.
\<close>

fun bump_last :: "string \<Rightarrow> string" where
  "bump_last [] = []"
| "bump_last (b # bs) =
     (if of_char b < (255 :: nat) then char_of (of_char b + 1 :: nat) # bs else b # bump_last bs)"

definition prefix_range_end :: "string \<Rightarrow> string" where
  "prefix_range_end s = rev (bump_last (rev s))"

section \<open>Locks\<close>

definition revoke_lease_silent :: "'s EtcdServer \<Rightarrow> int \<Rightarrow> 's EtcdClient \<Rightarrow> 's EtcdClient" where
  "revoke_lease_silent srv lid c = c\<lparr>server := fst (lease_revoke srv lid (server c))\<rparr>"

text \<open>
  \<open>Lock.acquire\<close>: grant a lease, then write the key if it does not exist. The lease ID of a lock
  whose grant failed is None, which the request encodes as 0.
\<close>

definition lock_acquire :: "'s EtcdServer \<Rightarrow> string \<Rightarrow> int \<Rightarrow> 's EtcdClient \<Rightarrow> 's EtcdClient \<times> int option" where
  "lock_acquire srv name ttl c =
     (let (s1, granted) = lease_grant srv ttl (server c)
      in case granted of
           None \<Rightarrow> (revoke_lease_silent srv 0 (c\<lparr>server := s1\<rparr>), None)
         | Some lid \<Rightarrow>
             (let (s2, succeeded) = txn_create srv (''/locks/'' @ name) (lock_uuid c) lid s1
              in if succeeded = Some True then (c\<lparr>server := s2\<rparr>, Some lid)
                 else (revoke_lease_silent srv lid (c\<lparr>server := s2\<rparr>), None)))"

definition acquire_lock :: "'s EtcdServer \<Rightarrow> string \<Rightarrow> int \<Rightarrow> 's EtcdClient \<Rightarrow> 's EtcdClient \<times> bool" where
  "acquire_lock srv key ttl c =
     (let k = full_key c key
      in if in_dict k (client_leases c) then (c, False)
         else (case lock_acquire srv k ttl c of
                 (c1, Some lid) \<Rightarrow> (c1\<lparr>client_leases := dict_set k lid (client_leases c1)\<rparr>, True)
               | (c1, None) \<Rightarrow> (c1, False)))"

definition renew_lease :: "'s EtcdServer \<Rightarrow> string \<Rightarrow> 's EtcdClient \<Rightarrow> 's EtcdClient \<times> bool" where
  "renew_lease srv key c =
     (let k = full_key c key
      in case dict_get (client_leases c) k of
           None \<Rightarrow> (c, False)
         | Some lid \<Rightarrow>
             (let (s1, ttl) = lease_keep_alive srv lid (server c); c1 = c\<lparr>server := s1\<rparr>
              in case ttl of
                   Some t \<Rightarrow> if t > 0 then (c1, True)
                              else (c1\<lparr>client_leases := dict_pop k (client_leases c)\<rparr>, False)
                 | None \<Rightarrow> (c1\<lparr>client_leases := dict_pop k (client_leases c)\<rparr>, False)))"

definition release_lock :: "'s EtcdServer \<Rightarrow> string \<Rightarrow> 's EtcdClient \<Rightarrow> 's EtcdClient \<times> bool" where
  "release_lock srv key c =
     (let k = full_key c key
      in case dict_get (client_leases c) k of
           None \<Rightarrow> (c, False)
         | Some lid \<Rightarrow>
             (let (s1, ok) = lease_revoke srv lid (server c)
              in (c\<lparr>server := s1, client_leases := dict_pop k (client_leases c)\<rparr>, ok)))"

section \<open>Data\<close>

definition put_json :: "'s EtcdServer \<Rightarrow> ('j \<Rightarrow> string) \<Rightarrow> string \<Rightarrow> 'j \<Rightarrow> 's EtcdClient \<Rightarrow> 's EtcdClient \<times> bool" where
  "put_json srv enc key v c =
     (let (s1, ok) = kv_put srv (full_key c key) (enc v) (server c) in (c\<lparr>server := s1\<rparr>, ok))"

definition delete_prefix :: "'s EtcdServer \<Rightarrow> string \<Rightarrow> 's EtcdClient \<Rightarrow> 's EtcdClient \<times> bool" where
  "delete_prefix srv pfx c =
     (let p = full_key c pfx; (s1, ok) = kv_delete_range srv p (prefix_range_end p) (server c)
      in (c\<lparr>server := s1\<rparr>, ok))"

definition set_bool :: "'s EtcdServer \<Rightarrow> string \<Rightarrow> bool \<Rightarrow> 's EtcdClient \<Rightarrow> 's EtcdClient \<times> bool" where
  "set_bool srv key b c =
     (let (s1, ok) = kv_put srv (full_key c key) (if b then ''true'' else ''false'') (server c)
      in (c\<lparr>server := s1\<rparr>, ok))"

text \<open>
  \<open>str.lower\<close> on ASCII, and the value of a key: a single-key Range is the range up to the key
  followed by a zero byte.
\<close>

definition ascii_lower :: "string \<Rightarrow> string" where
  "ascii_lower s = map (\<lambda>b. let n = of_char b :: nat in if 65 \<le> n \<and> n \<le> 90 then char_of (n + 32) else b) s"

definition get_bool :: "'s EtcdServer \<Rightarrow> string \<Rightarrow> bool \<Rightarrow> 's EtcdClient \<Rightarrow> 's EtcdClient \<times> bool" where
  "get_bool srv key dflt c =
     (let k = full_key c key; (s1, resp) = kv_range srv k (k @ [CHR 0x00]) (server c)
      in (c\<lparr>server := s1\<rparr>,
          case resp of
            Some ((k', v) # _) \<Rightarrow>
              (let t = ascii_lower (py_strip v)
               in if t \<in> {''true'', ''1''} then True else if t \<in> {''false'', ''0''} then False else dflt)
          | _ \<Rightarrow> dflt))"

text \<open>
  The loop over the items, which stops at the first failed write, and the whole persist under
  its own lock.
\<close>

fun put_items ::
  "'s EtcdServer \<Rightarrow> ('j \<Rightarrow> string) \<Rightarrow> string \<Rightarrow> (string, 'j) dict \<Rightarrow> 's EtcdClient \<Rightarrow> 's EtcdClient \<times> bool" where
  "put_items srv enc pfx [] c = (c, True)"
| "put_items srv enc pfx ((k, v) # items) c =
     (let (c1, ok) = put_json srv enc (pfx @ ''/'' @ k) v c
      in if ok then put_items srv enc pfx items c1 else (c1, False))"

definition etcd_persist ::
  "'s EtcdServer \<Rightarrow> ('j \<Rightarrow> string) \<Rightarrow> string \<Rightarrow> (string, 'j) dict \<Rightarrow> 's EtcdClient \<Rightarrow> 's EtcdClient \<times> bool" where
  "etcd_persist srv enc pfx data c =
     (let (c1, locked) = acquire_lock srv (''persist_'' @ pfx) 30 c
      in if \<not> locked then (c1, False)
         else (let (c2, ignored) = delete_prefix srv pfx c1;
                   (c3, ok) = put_items srv enc pfx data c2;
                   (c4, released) = release_lock srv (''persist_'' @ pfx) c3
               in (c4, ok)))"

text \<open>
  Reading a prefix back. An RPC that fails and a value that cannot be decoded both give the empty
  dictionary, which \<open>restore_data\<close> reports as None.
\<close>

fun decode_items :: "(string \<Rightarrow> 'j option) \<Rightarrow> nat \<Rightarrow> (string \<times> string) list \<Rightarrow> (string, 'j) dict \<Rightarrow> (string, 'j) dict option" where
  "decode_items dec n [] d = Some d"
| "decode_items dec n ((k, v) # kvs) d =
     (case dec v of None \<Rightarrow> None | Some x \<Rightarrow> decode_items dec n kvs (dict_set (drop (n + 1) k) x d))"

definition get_prefix_data ::
  "'s EtcdServer \<Rightarrow> (string \<Rightarrow> 'j option) \<Rightarrow> string \<Rightarrow> 's EtcdClient \<Rightarrow> 's EtcdClient \<times> (string, 'j) dict" where
  "get_prefix_data srv dec pfx c =
     (let p = full_key c pfx; (s1, resp) = kv_range srv p (prefix_range_end p) (server c)
      in (c\<lparr>server := s1\<rparr>,
          case resp of
            None \<Rightarrow> []
          | Some kvs \<Rightarrow> (case decode_items dec (length p) kvs [] of None \<Rightarrow> [] | Some d \<Rightarrow> d)))"

definition etcd_restore ::
  "'s EtcdServer \<Rightarrow> (string \<Rightarrow> 'j option) \<Rightarrow> string \<Rightarrow> 's EtcdClient \<Rightarrow> 's EtcdClient \<times> (string, 'j) dict option" where
  "etcd_restore srv dec pfx c =
     (let (c1, data) = get_prefix_data srv dec pfx c in (c1, if data = [] then None else Some data))"

section \<open>What ETCD documents\<close>

text \<open>
  \<open>content\<close> reads the keys of a server state. A put, a range delete or a range read that returns has
  taken effect on exactly the keys it names; lock and lease calls leave the keys below
  \<open>/locks/\<close> aside alone.
\<close>

definition etcd_kv :: "'s EtcdServer \<Rightarrow> ('s \<Rightarrow> string \<Rightarrow> string option) \<Rightarrow> bool" where
  "etcd_kv srv content \<longleftrightarrow>
     (\<forall>k v s s'. kv_put srv k v s = (s', True) \<longrightarrow> content s' = (content s)(k \<mapsto> v)) \<and>
     (\<forall>a b s s'. kv_delete_range srv a b s = (s', True) \<longrightarrow>
        content s' = (\<lambda>k. if a \<le> k \<and> k < b then None else content s k)) \<and>
     (\<forall>a b s s' kvs. kv_range srv a b s = (s', Some kvs) \<longrightarrow>
        distinct (dict_keys kvs) \<and> map_of kvs = (\<lambda>k. if a \<le> k \<and> k < b then content s k else None)) \<and>
     (\<forall>lid s k. \<not> prefix ''/locks/'' k \<longrightarrow> content (fst (lease_revoke srv lid s)) k = content s k)"

text \<open>
  A server for the witnesses: a list of keys and values, every call succeeds; \<open>deaf\<close> makes writes
  fail.
\<close>

definition demo_server :: "bool \<Rightarrow> ((string, string) dict) EtcdServer" where
  "demo_server deaf = \<lparr>lease_grant = (\<lambda>ttl s. (s, Some 1)), lease_keep_alive = (\<lambda>lid s. (s, Some 15)),
     lease_revoke = (\<lambda>lid s. (s, True)), txn_create = (\<lambda>k v lid s. (s, Some True)),
     kv_put = (\<lambda>k v s. if deaf then (s, False) else (dict_set k v s, True)),
     kv_delete_range = (\<lambda>a b s. (filter (\<lambda>(k, v). \<not> (a \<le> k \<and> k < b)) s, True)),
     kv_range = (\<lambda>a b s. (s, Some (filter (\<lambda>(k, v). a \<le> k \<and> k < b) (AList.clearjunk s))))\<rparr>"

definition demo_client :: "(string, string) dict \<Rightarrow> ((string, string) dict) EtcdClient" where
  "demo_client s = \<lparr>namespace = ''ns'', client_job = ''job'', lock_uuid = ''u'', client_leases = [], server = s\<rparr>"

section \<open>Prefix ranges\<close>

lemma char_succ: "of_char b < (255 :: nat) \<Longrightarrow> x < (char_of (of_char b + 1 :: nat) :: char) \<longleftrightarrow> x \<le> b"
  by (simp add: less_char_def less_eq_char_def) linarith

lemma bump_append: "of_char b < (255 :: nat) \<Longrightarrow> prefix_range_end (q @ [b]) = q @ [char_of (of_char b + 1 :: nat)]"
  by (simp add: prefix_range_end_def)

lemma range_prefix: "of_char b < (255 :: nat) \<Longrightarrow>
   q @ [b] \<le> k \<and> k < prefix_range_end (q @ [b]) \<longleftrightarrow> prefix (q @ [b]) k"
proof (induction q arbitrary: k)
  case Nil
  then show ?case by (cases k) (auto simp: prefix_range_end_def char_succ char_succ[unfolded Suc_eq_plus1[symmetric]])
next
  case (Cons a q)
  have e: "prefix_range_end (a # q @ [b]) = a # prefix_range_end (q @ [b])"
    using bump_append[OF Cons.prems, of "a # q"] bump_append[OF Cons.prems, of q] by simp
  show ?case
  proof (cases k)
    case (Cons x k')
    with Cons.IH[OF Cons.prems, of k'] e show ?thesis by (auto simp: Cons_less_Cons Cons_le_Cons)
  qed simp
qed

text \<open>
  C28: The key range the client computes for a prefix selects exactly the keys that begin with it,
  for every key that ends in a byte below 255 (no byte of UTF-8 text is 255).
\<close>

theorem prefix_range_exact:
  assumes "p \<noteq> []" and "of_char (last p) < (255 :: nat)"
  shows "p \<le> k \<and> k < prefix_range_end p \<longleftrightarrow> prefix p k"
  using range_prefix[OF assms(2), of "butlast p" k] assms(1) by simp

theorem prefix_range_exact_witness:
  "''/a'' \<le> ''/ab'' \<and> ''/ab'' < prefix_range_end ''/a'' \<longleftrightarrow> prefix ''/a'' ''/ab''"
  by (rule prefix_range_exact) simp_all

section \<open>Persisting and restoring\<close>

lemma full_key_rooted:
  assumes "namespace c \<noteq> []" "hd (namespace c) \<noteq> CHR ''/''" "hd pfx = CHR ''/''" "pfx \<noteq> []"
  shows "full_key c (pfx @ x) = namespace c @ ''/'' @ client_job c @ pfx @ x"
proof -
  obtain a ns p where "namespace c = a # ns" "pfx = CHR ''/'' # p" "a \<noteq> CHR ''/''"
    using assms by (cases "namespace c"; cases pfx) auto
  then show ?thesis by (auto simp: get_key_with_namespace_and_job_name_def py_startswith_def)
qed

lemma client_frame [simp]:
  "namespace (c\<lparr>server := s\<rparr>) = namespace c" "client_job (c\<lparr>server := s\<rparr>) = client_job c"
  by simp_all

lemma put_json_frame:
  "put_json srv enc key v c = (c', ok) \<Longrightarrow> namespace c' = namespace c \<and> client_job c' = client_job c \<and> client_leases c' = client_leases c"
  by (auto simp: put_json_def Let_def split: prod.splits)

lemma put_items_frame:
  "put_items srv enc pfx data c = (c', ok) \<Longrightarrow> namespace c' = namespace c \<and> client_job c' = client_job c \<and> client_leases c' = client_leases c"
proof (induction data arbitrary: c)
  case (Cons x data)
  obtain k v where x: "x = (k, v)" by fastforce
  obtain c1 b where p: "put_json srv enc (pfx @ ''/'' @ k) v c = (c1, b)" by fastforce
  with Cons x put_json_frame[OF p] show ?case by (cases b) auto
qed simp

lemma put_items_content:
  assumes kv: "etcd_kv srv content"
  shows "put_items srv enc pfx data c = (c', True) \<Longrightarrow> distinct (dict_keys data) \<Longrightarrow>
    (\<And>k. full_key c (pfx @ ''/'' @ k) = P @ ''/'' @ k) \<Longrightarrow>
    content (server c') key =
      (if \<exists>k \<in> set (dict_keys data). key = P @ ''/'' @ k
       then map_option enc (dict_get data (drop (length P + 1) key)) else content (server c) key)"
proof (induction data arbitrary: c)
  case (Cons x data)
  obtain k v where x: "x = (k, v)" by fastforce
  obtain c1 b where p: "put_json srv enc (pfx @ ''/'' @ k) v c = (c1, b)" by fastforce
  with Cons.prems x have b: "b" and r: "put_items srv enc pfx data c1 = (c', True)" by (auto split: if_splits)
  from p b Cons.prems(3) have "kv_put srv (P @ ''/'' @ k) (enc v) (server c) = (server c1, True)"
    by (auto simp: put_json_def Let_def split: prod.splits)
  with kv have c1: "content (server c1) = (content (server c))(P @ ''/'' @ k \<mapsto> enc v)" by (auto simp: etcd_kv_def)
  have full: "full_key c1 (pfx @ ''/'' @ j) = P @ ''/'' @ j" for j
    using put_json_frame[OF p] Cons.prems(3) by simp
  have d: "distinct (dict_keys data)" "k \<notin> set (dict_keys data)" using Cons.prems(2) x by simp_all
  show ?case
    using Cons.IH[OF r d(1) full] c1 d(2) x by auto
qed simp

lemma decode_items_map:
  assumes dec: "\<forall>(k, v) \<in> set kvs. dec v \<noteq> None \<and> (\<exists>j. k = P @ ''/'' @ j)" and dist: "distinct (dict_keys kvs)"
  shows "\<exists>d'. decode_items dec (length P) kvs d = Some d' \<and>
    (\<forall>j. dict_get d' j = (case dict_get kvs (P @ ''/'' @ j) of Some v \<Rightarrow> dec v | None \<Rightarrow> dict_get d j))"
  using assms
proof (induction kvs arbitrary: d)
  case (Cons x kvs)
  obtain k v where x: "x = (k, v)" by fastforce
  with Cons.prems obtain j y where j: "k = P @ ''/'' @ j" and y: "dec v = Some y" by auto
  let ?d = "dict_set j y d"
  obtain d' where d': "decode_items dec (length P) kvs ?d = Some d'"
    "\<forall>i. dict_get d' i = (case dict_get kvs (P @ ''/'' @ i) of Some v \<Rightarrow> dec v | None \<Rightarrow> dict_get ?d i)"
    using Cons.IH[of ?d] Cons.prems by auto
  have "dict_get kvs k = None" using Cons.prems(2) x by (simp add: dict_get_None_iff)
  with d' x j y show ?case by (auto split: option.split)
qed simp

lemma acquire_frame:
  "acquire_lock srv key ttl c = (c', b) \<Longrightarrow> namespace c' = namespace c \<and> client_job c' = client_job c"
  by (auto simp: acquire_lock_def lock_acquire_def revoke_lease_silent_def Let_def split: prod.splits if_splits option.splits)

lemma delete_frame:
  "delete_prefix srv pfx c = (c', b) \<Longrightarrow> namespace c' = namespace c \<and> client_job c' = client_job c"
  by (auto simp: delete_prefix_def Let_def split: prod.splits)

lemma release_frame:
  "release_lock srv key c = (c', b) \<Longrightarrow> namespace c' = namespace c \<and> client_job c' = client_job c"
  by (auto simp: release_lock_def Let_def split: prod.splits option.splits)

lemma release_content:
  assumes "etcd_kv srv content" and "release_lock srv key c = (c', b)" and "\<not> prefix ''/locks/'' k"
  shows "content (server c') k = content (server c) k"
proof -
  have revoked: "content (fst (lease_revoke srv lid s)) k = content s k" for lid s
    using assms(1,3) by (simp add: etcd_kv_def)
  then show ?thesis
    using assms(2) by (auto simp: release_lock_def Let_def case_prod_unfold split: option.splits)
qed

lemma data_key_plain:
  assumes "namespace c \<noteq> []" "hd (namespace c) \<noteq> CHR ''/''" "pfx \<noteq> []" "hd pfx = CHR ''/''"
    and "prefix (full_key c pfx) k"
  shows "\<not> prefix ''/locks/'' k"
proof -
  from assms(5) full_key_rooted[of c pfx "[]"] assms(1-4) have "k \<noteq> []" "hd k = hd (namespace c)" by (auto simp: prefix_def)
  with assms(2) show ?thesis by (auto simp: prefix_def)
qed

lemma full_key_selects:
  assumes "namespace c \<noteq> []" "hd (namespace c) \<noteq> CHR ''/''" "pfx \<noteq> []" "hd pfx = CHR ''/''" "of_char (last pfx) < (255 :: nat)"
  shows "full_key c pfx \<le> k \<and> k < prefix_range_end (full_key c pfx) \<longleftrightarrow> prefix (full_key c pfx) k"
proof -
  have "full_key c pfx = namespace c @ ''/'' @ client_job c @ pfx" using full_key_rooted[of c pfx "[]"] assms by simp
  with assms have "full_key c pfx \<noteq> []" "of_char (last (full_key c pfx)) < (255 :: nat)" by simp_all
  then show ?thesis using range_prefix[of "last (full_key c pfx)" "butlast (full_key c pfx)" k] by simp
qed

text \<open>
  What the server holds under the prefix after an acknowledged persist.
\<close>

lemma persisted_content:
  assumes kv: "etcd_kv srv content"
    and root: "namespace c \<noteq> []" "hd (namespace c) \<noteq> CHR ''/''" "pfx \<noteq> []" "hd pfx = CHR ''/''" "of_char (last pfx) < (255 :: nat)"
    and data: "distinct (dict_keys data)"
    and persist: "etcd_persist srv enc pfx data c = (c', True)"
    and deleted: "snd (delete_prefix srv pfx (fst (acquire_lock srv (''persist_'' @ pfx) 30 c)))"
    and key: "prefix (full_key c pfx) key"
  shows "content (server c') key = (if \<exists>k \<in> set (dict_keys data). key = full_key c pfx @ ''/'' @ k
       then map_option enc (dict_get data (drop (length (full_key c pfx) + 1) key)) else None) \<and>
     full_key c' pfx = full_key c pfx"
proof -
  let ?P = "full_key c pfx" and ?lk = "''persist_'' @ pfx"
  have full: "full_key c (pfx @ x) = ?P @ x" for x
    using full_key_rooted[of c pfx x] full_key_rooted[of c pfx "[]"] root by simp
  obtain c1 b1 where a: "acquire_lock srv ?lk 30 c = (c1, b1)" by fastforce
  obtain c2 b2 where d: "delete_prefix srv pfx c1 = (c2, b2)" by fastforce
  obtain c3 b3 where p: "put_items srv enc pfx data c2 = (c3, b3)" by fastforce
  obtain c4 b4 where r: "release_lock srv ?lk c3 = (c4, b4)" by fastforce
  from persist a d p r have eq: "b1" "b3" "c' = c4" by (auto simp: etcd_persist_def Let_def split: if_splits)
  have b2: "b2" using deleted a d by simp
  note frames = acquire_frame[OF a] delete_frame[OF d] put_items_frame[OF p] release_frame[OF r]
  have full1: "full_key c1 = full_key c" "full_key c2 = full_key c" "full_key c4 = full_key c" using frames by simp_all
  have "content (server c2) = (\<lambda>k. if ?P \<le> k \<and> k < prefix_range_end ?P then None else content (server c1) k)"
    using d b2 kv full1(1) by (auto simp: delete_prefix_def etcd_kv_def Let_def split: prod.splits)
  then have gone: "content (server c2) k = None" if "prefix ?P k" for k
    using that full_key_selects[OF root, of k] by simp
  have put: "content (server c3) key = (if \<exists>k \<in> set (dict_keys data). key = ?P @ ''/'' @ k
       then map_option enc (dict_get data (drop (length ?P + 1) key)) else content (server c2) key)" for key
    by (rule put_items_content[OF kv _ data]) (use p eq(2) full full1(2) in auto)
  show ?thesis
    using release_content[OF kv r data_key_plain[OF root(1-4) key]] put[of key] gone[OF key] eq(3) full1(3) by simp
qed

text \<open>
  C13: What is persisted is what is restored: after a persist under a prefix that the server
  acknowledged (the lock, the deletion of the old keys and every write), a restore of that prefix
  that the server answers returns the same dictionary, whatever the prefix held before.
\<close>

theorem etcd_roundtrip:
  assumes kv: "etcd_kv srv content" and codec: "\<forall>v. dec (enc v) = Some v"
    and root: "namespace c \<noteq> []" "hd (namespace c) \<noteq> CHR ''/''" "pfx \<noteq> []" "hd pfx = CHR ''/''" "of_char (last pfx) < (255 :: nat)"
    and data: "distinct (dict_keys data)" "data \<noteq> []"
    and persist: "etcd_persist srv enc pfx data c = (c', True)"
    and deleted: "snd (delete_prefix srv pfx (fst (acquire_lock srv (''persist_'' @ pfx) 30 c)))"
    and answered: "snd (kv_range srv (full_key c pfx) (prefix_range_end (full_key c pfx)) (server c')) \<noteq> None"
  shows "\<exists>d. snd (etcd_restore srv dec pfx c') = Some d \<and> (\<forall>k. dict_get d k = dict_get data k)"
proof -
  let ?P = "full_key c pfx"
  note final = conjunct1[OF persisted_content[OF kv root data(1) persist deleted]]
  have full: "full_key c' pfx = ?P" using persisted_content[OF kv root data(1) persist deleted, of ?P] by simp
  obtain s5 kvs where range: "kv_range srv ?P (prefix_range_end ?P) (server c') = (s5, Some kvs)"
    using answered by (cases "kv_range srv ?P (prefix_range_end ?P) (server c')") auto
  with kv have kvs: "distinct (dict_keys kvs)"
    "dict_get kvs key = (if prefix ?P key then content (server c') key else None)" for key
    using full_key_selects[OF root, of key] unfolding etcd_kv_def by (fastforce, fastforce)
  have val: "dec v \<noteq> None \<and> (\<exists>j. k = ?P @ ''/'' @ j)" if "(k, v) \<in> set kvs" for k v
  proof -
    from that kvs(1) have "dict_get kvs k = Some v" by simp
    with kvs(2)[of k] have "prefix ?P k" "content (server c') k = Some v" by (auto split: if_splits)
    with final[of k] have "(\<exists>j \<in> set (dict_keys data). k = ?P @ ''/'' @ j) \<and> map_option enc (dict_get data (drop (length ?P + 1) k)) = Some v"
      by (metis option.distinct(1))
    then obtain j x where j: "k = ?P @ ''/'' @ j" and "v = enc x" by fastforce
    with codec show ?thesis by auto
  qed
  then have vals: "\<forall>(k, v) \<in> set kvs. dec v \<noteq> None \<and> (\<exists>j. k = ?P @ ''/'' @ j)" by blast
  obtain d' where d': "decode_items dec (length ?P) kvs [] = Some d'"
    "\<forall>j. dict_get d' j = (case dict_get kvs (?P @ ''/'' @ j) of Some v \<Rightarrow> dec v | None \<Rightarrow> dict_get [] j)"
    using decode_items_map[OF vals kvs(1), of "[]"] by blast
  have same: "dict_get d' j = dict_get data j" for j
  proof -
    have "j \<in> set (dict_keys data) \<longleftrightarrow> dict_get data j \<noteq> None" by (simp add: in_dict_iff[simplified])
    with d'(2) kvs(2)[of "?P @ ''/'' @ j"] final[of "?P @ ''/'' @ j"] codec show ?thesis
      by (auto split: option.split)
  qed
  moreover have "d' \<noteq> []"
  proof
    assume "d' = []"
    moreover obtain k v where "(k, v) \<in> set data" using data(2) by (cases data) auto
    ultimately show False using same[of k] data(1) by simp
  qed
  ultimately show ?thesis
    using range d'(1) full by (simp add: etcd_restore_def get_prefix_data_def)
qed

lemma demo_server_kv: "etcd_kv (demo_server b) (\<lambda>s. dict_get s)"
proof -
  have f: "dict_get (filter (\<lambda>(k, v). Q k) d) = (\<lambda>k. if Q k then dict_get d k else None)" for Q and d :: "(string, string) dict"
    by (induction d) (auto simp: fun_eq_iff)
  have "distinct (dict_keys (filter (\<lambda>(k, v). Q k) (AList.clearjunk s)))" for Q and s :: "(string, string) dict"
    by (rule distinct_map_filter) (rule distinct_clearjunk)
  with f show ?thesis by (auto simp: etcd_kv_def demo_server_def update_conv' map_of_clearjunk split: if_splits)
qed

theorem etcd_roundtrip_witness:
  "\<exists>d. snd (etcd_restore (demo_server False) Some ''/a'' (fst (etcd_persist (demo_server False) (\<lambda>v. v) ''/a'' [(''state'', ''x'')]
          (demo_client [(''ns/jobnot'', ''z''), (''ns/job/a/old'', ''y'')])))) = Some d \<and> (\<forall>k. dict_get d k = dict_get [(''state'', ''x'')] k)"
proof -
  let ?c = "demo_client [(''ns/jobnot'', ''z''), (''ns/job/a/old'', ''y'')]"
  let ?p = "etcd_persist (demo_server False) (\<lambda>v. v) ''/a'' [(''state'', ''x'')] ?c"
  have "snd ?p = True" by code_simp
  then have p: "?p = (fst ?p, True)" by (simp add: prod_eq_iff)
  have d: "snd (delete_prefix (demo_server False) ''/a'' (fst (acquire_lock (demo_server False) (''persist_'' @ ''/a'') 30 ?c)))"
    by code_simp
  have r: "snd (kv_range (demo_server False) (full_key ?c ''/a'') (prefix_range_end (full_key ?c ''/a'')) (server (fst ?p))) \<noteq> None"
    by code_simp
  show ?thesis
    by (rule etcd_roundtrip[OF demo_server_kv _ _ _ _ _ _ _ _ p d r]) (simp_all add: demo_client_def)
qed

text \<open>
  C34: A persist that fails half-way has already removed what was stored: when the deletion
  succeeds and the first write does not, nothing is left under the prefix, and the next restore
  reports that there is no data.
\<close>

theorem failed_persist_loses_state:
  assumes kv: "etcd_kv srv content"
    and root: "namespace c \<noteq> []" "hd (namespace c) \<noteq> CHR ''/''" "pfx \<noteq> []" "hd pfx = CHR ''/''" "of_char (last pfx) < (255 :: nat)"
    and locked: "acquire_lock srv (''persist_'' @ pfx) 30 c = (c1, True)"
    and deleted: "delete_prefix srv pfx c1 = (c2, True)"
    and refused: "\<forall>k v s. kv_put srv k v s = (s, False)" and data: "data \<noteq> []"
    and persist: "etcd_persist srv enc pfx data c = (c', ok)"
  shows "\<not> ok \<and> (\<forall>k. prefix (full_key c pfx) k \<longrightarrow> content (server c') k = None) \<and>
    snd (etcd_restore srv dec pfx c') = None"
proof -
  let ?P = "full_key c pfx"
  note sel = full_key_selects[OF root]
  obtain x rest where "data = x # rest" using data by (cases data) auto
  then have put: "put_items srv enc pfx data c2 = (c2, False)"
    using refused by (cases x) (simp add: put_json_def)
  obtain c4 b4 where r: "release_lock srv (''persist_'' @ pfx) c2 = (c4, b4)" by fastforce
  from persist locked deleted put r have eq: "\<not> ok" "c' = c4" by (auto simp: etcd_persist_def)
  have full: "full_key c4 pfx = ?P" "full_key c1 pfx = ?P"
    using acquire_frame[OF locked] delete_frame[OF deleted] release_frame[OF r] by simp_all
  have "content (server c2) = (\<lambda>k. if ?P \<le> k \<and> k < prefix_range_end ?P then None else content (server c1) k)"
    using deleted kv full(2) by (auto simp: delete_prefix_def etcd_kv_def Let_def split: prod.splits)
  then have gone: "content (server c4) k = None" if "prefix ?P k" for k
    using that sel[of k] release_content[OF kv r data_key_plain[OF root(1-4) that]] by simp
  have "dict_get kvs = (\<lambda>k. None)" if "kv_range srv ?P (prefix_range_end ?P) (server c4) = (s, Some kvs)" for s kvs
    using that kv sel gone by (auto simp: etcd_kv_def fun_eq_iff)
  moreover have "dict_get kvs = (\<lambda>k. None) \<Longrightarrow> kvs = []" for kvs :: "(string, string) dict"
    by (cases kvs) (auto dest: fun_cong)
  ultimately have empty: "kvs = []" if "kv_range srv ?P (prefix_range_end ?P) (server c4) = (s, Some kvs)" for s kvs
    using that by blast
  have "snd (etcd_restore srv dec pfx c4) = None"
  proof (cases "kv_range srv ?P (prefix_range_end ?P) (server c4)")
    case (Pair s resp)
    with empty[of s] show ?thesis by (cases resp) (simp_all add: etcd_restore_def get_prefix_data_def full(1))
  qed
  with eq(1) gone show ?thesis unfolding eq(2) by (intro conjI allI impI)
qed

theorem failed_persist_loses_state_witness:
  "snd (etcd_restore (demo_server True) Some ''/a'' (fst (etcd_persist (demo_server True) (\<lambda>v. v) ''/a'' [(''state'', ''x'')]
          (demo_client [(''ns/job/a/state'', ''y'')])))) = None"
proof -
  let ?c = "demo_client [(''ns/job/a/state'', ''y'')]" and ?v = "demo_server True"
  define c1 where "c1 = fst (acquire_lock ?v (''persist_'' @ ''/a'') 30 ?c)"
  have "snd (acquire_lock ?v (''persist_'' @ ''/a'') 30 ?c) = True" by code_simp
  then have a: "acquire_lock ?v (''persist_'' @ ''/a'') 30 ?c = (c1, True)" by (simp add: c1_def prod_eq_iff)
  have "snd (delete_prefix ?v ''/a'' c1) = True" unfolding c1_def by code_simp
  then have d: "delete_prefix ?v ''/a'' c1 = (fst (delete_prefix ?v ''/a'' c1), True)" by (simp add: prod_eq_iff)
  have f: "\<forall>k v s. kv_put ?v k v s = (s, False)" by (simp add: demo_server_def)
  show ?thesis
    by (rule conjunct2[OF conjunct2[OF failed_persist_loses_state[OF demo_server_kv _ _ _ _ _ a d f _ prod.collapse[symmetric]]]])
      (simp_all add: demo_client_def)
qed

text \<open>
  A restore cannot tell an unreadable server from an empty one: a failed read and a value that
  cannot be decoded give None, the answer for a prefix that holds nothing.
\<close>

theorem unreadable_reported_empty:
  assumes "case snd (kv_range srv (full_key c pfx) (prefix_range_end (full_key c pfx)) (server c)) of
             None \<Rightarrow> True
           | Some kvs \<Rightarrow> kvs = [] \<or> (\<exists>(k, v) \<in> set kvs. dec v = None)"
  shows "snd (etcd_restore srv dec pfx c) = None"
proof -
  have d: "\<exists>(k, v) \<in> set kvs. dec v = None \<Longrightarrow> decode_items dec n kvs d = None" for kvs n d
    by (induction kvs arbitrary: d) (auto split: option.split, fastforce)
  show ?thesis
    using assms by (auto simp: etcd_restore_def get_prefix_data_def Let_def case_prod_unfold split: option.splits) (use d in fastforce)
qed

theorem unreadable_reported_empty_witness:
  "snd (etcd_restore (demo_server False) (\<lambda>v. if v = ''bad'' then None else Some v) ''/a''
     (demo_client [(''ns/job/a/good'', ''x''), (''ns/job/a/state'', ''bad'')])) = None"
  by (rule unreadable_reported_empty) code_simp

end
