(* ===== verification/Standby_Manager.thy ===== *)
theory Standby_Manager
  imports Etcd_Client
begin

text \<open>
  Master and standby pods: \<^verbatim>\<open>motor/common/standby/standby_manager.py\<close>.

  One iteration of the loop is a step. It is given the ETCD server of \<open>Etcd_Client\<close>, what happens
  to the server while the loop sleeps between two attempts to renew (\<open>elapse\<close>, any function: the
  lease may expire, another pod may take the lock), and whether the callback that starts the
  modules raises. The callbacks the manager makes are a log. \<open>EtcdClient.acquire_lock\<close> catches every
  exception, so the retry branch of \<open>_try_become_master\<close> has no exception to handle.
\<close>

section \<open>State\<close>

datatype StandbyRole = STANDBY | MASTER

datatype standby_callback = Become_master bool | Become_standby | Lock_unhealthy | Lock_healthy

record 's StandbyManager =
  master_lock_key :: string
  report_event_key :: string
  lock_ttl :: int
  max_lock_failures :: int
  has_lock_callbacks :: bool
  current_role :: StandbyRole
  has_set_role :: bool
  lock_unhealthy :: bool
  sb_client :: "'s EtcdClient"
  callbacks :: "standby_callback list"

record 's standby_env =
  sb_server :: "'s EtcdServer"
  elapse :: "nat \<Rightarrow> 's \<Rightarrow> 's"
  master_callback_raises :: bool
  stop_requested :: bool

definition is_master :: "'s StandbyManager \<Rightarrow> bool" where
  "is_master m \<longleftrightarrow> current_role m = MASTER"

definition set_role :: "StandbyRole \<Rightarrow> 's StandbyManager \<Rightarrow> 's StandbyManager" where
  "set_role r m = (if current_role m \<noteq> r then m\<lparr>current_role := r\<rparr> else m)"

definition call_back :: "standby_callback \<Rightarrow> 's StandbyManager \<Rightarrow> 's StandbyManager" where
  "call_back cb m = m\<lparr>callbacks := callbacks m @ [cb]\<rparr>"

section \<open>Renewal\<close>

definition mark_lock_unhealthy :: "'s StandbyManager \<Rightarrow> 's StandbyManager" where
  "mark_lock_unhealthy m =
     (if lock_unhealthy m then m
      else (let m1 = m\<lparr>lock_unhealthy := True\<rparr>
            in if has_lock_callbacks m then call_back Lock_unhealthy m1 else m1))"

definition mark_lock_healthy :: "'s StandbyManager \<Rightarrow> 's StandbyManager" where
  "mark_lock_healthy m =
     (if \<not> lock_unhealthy m then m
      else (let m1 = m\<lparr>lock_unhealthy := False\<rparr>
            in if has_lock_callbacks m then call_back Lock_healthy m1 else m1))"

text \<open>
  \<open>n\<close> attempts are left after the one at hand, the \<open>attempt\<close>-th.
\<close>

fun renew_attempts :: "'s standby_env \<Rightarrow> nat \<Rightarrow> nat \<Rightarrow> 's StandbyManager \<Rightarrow> 's StandbyManager \<times> bool" where
  "renew_attempts env attempt n m =
     (let (c1, ok) = renew_lease (sb_server env) (master_lock_key m) (sb_client m);
          m1 = m\<lparr>sb_client := c1\<rparr>
      in if ok then (mark_lock_healthy m1, True)
         else (let m2 = mark_lock_unhealthy m1
               in case n of
                    0 \<Rightarrow> (m2, False)
                  | Suc k \<Rightarrow>
                      renew_attempts env (attempt + 1) k
                        (m2\<lparr>sb_client := (sb_client m2)\<lparr>server := elapse env attempt (server (sb_client m2))\<rparr>\<rparr>)))"

definition max_retries :: "'s StandbyManager \<Rightarrow> nat" where
  "max_retries m = (if lock_ttl m \<le> 8 then 1 else 2)"

definition renew_master_lock :: "'s standby_env \<Rightarrow> 's StandbyManager \<Rightarrow> 's StandbyManager \<times> bool" where
  "renew_master_lock env m =
     (if \<not> is_master m then (m, False) else renew_attempts env 0 (max_retries m) m)"

section \<open>Election and the loop\<close>

definition try_become_master :: "'s standby_env \<Rightarrow> 's StandbyManager \<Rightarrow> 's StandbyManager \<times> bool" where
  "try_become_master env m =
     (if max_lock_failures m \<le> 0 \<or> stop_requested env then (m, False)
      else (let (c1, acquired) = acquire_lock (sb_server env) (master_lock_key m) (lock_ttl m) (sb_client m);
                m1 = m\<lparr>sb_client := c1\<rparr>
            in if acquired then (set_role MASTER (m1\<lparr>lock_unhealthy := False\<rparr>), True)
               else (set_role STANDBY m1, False)))"

definition start_modules :: "'s standby_env \<Rightarrow> 's StandbyManager \<Rightarrow> 's StandbyManager" where
  "start_modules env m =
     (let (c1, report) = get_bool (sb_server env) (report_event_key m) False (sb_client m);
          m1 = call_back (Become_master report) (m\<lparr>sb_client := c1\<rparr>)
      in if master_callback_raises env then m1
         else m1\<lparr>sb_client := fst (set_bool (sb_server env) (report_event_key m) True (sb_client m1)),
                 has_set_role := True\<rparr>)"

definition standby_loop_step :: "'s standby_env \<Rightarrow> 's StandbyManager \<Rightarrow> 's StandbyManager" where
  "standby_loop_step env m =
     (if is_master m
      then (let (m1, ok) = renew_master_lock env m
            in if ok then m1 else call_back Become_standby (set_role STANDBY m1))
      else (let (m1, ok) = try_become_master env m
            in if ok then start_modules env m1 else m1\<lparr>has_set_role := True\<rparr>))"

text \<open>
  After the loop: the lock is given back and the role reset; the callback is not made.
\<close>

definition standby_exit :: "'s standby_env \<Rightarrow> 's StandbyManager \<Rightarrow> 's StandbyManager" where
  "standby_exit env m =
     (if is_master m
      then set_role STANDBY (m\<lparr>sb_client := fst (release_lock (sb_server env) (master_lock_key m) (sb_client m))\<rparr>)
      else m)"

definition StandbyManager_init :: "string \<Rightarrow> string \<Rightarrow> int \<Rightarrow> int \<Rightarrow> bool \<Rightarrow> 's EtcdClient \<Rightarrow> 's StandbyManager" where
  "StandbyManager_init key report ttl failures cbs c =
     \<lparr>master_lock_key = key, report_event_key = report, lock_ttl = ttl, max_lock_failures = failures,
      has_lock_callbacks = cbs, current_role = STANDBY, has_set_role = False, lock_unhealthy = False,
      sb_client = c, callbacks = []\<rparr>"

text \<open>
  The invariant: a master has a recorded lease, and the modules were started once more than they
  were stopped exactly when the pod is master.
\<close>

definition starts :: "standby_callback list \<Rightarrow> nat" where
  "starts cbs = length (filter (\<lambda>cb. case cb of Become_master b \<Rightarrow> True | _ \<Rightarrow> False) cbs)"

definition stops_made :: "standby_callback list \<Rightarrow> nat" where
  "stops_made cbs = length (filter (\<lambda>cb. cb = Become_standby) cbs)"

definition role_ok :: "'s StandbyManager \<Rightarrow> bool" where
  "role_ok m \<longleftrightarrow> (is_master m \<longrightarrow> in_dict (full_key (sb_client m) (master_lock_key m)) (client_leases (sb_client m))) \<and>
     starts (callbacks m) = stops_made (callbacks m) + (if is_master m then 1 else 0)"

text \<open>
  A standby on the server of \<open>Etcd_Client\<close>'s witnesses, and the same server whose keep-alive fails.
\<close>

definition demo_standby :: "((string, string) dict) StandbyManager" where
  "demo_standby = StandbyManager_init ''/controller/master_lock'' ''/controller/should_report_event'' 15 3 True (demo_client [])"

definition demo_standby_env :: "bool \<Rightarrow> ((string, string) dict) standby_env" where
  "demo_standby_env lost = \<lparr>sb_server = (if lost then (demo_server False)\<lparr>lease_keep_alive := (\<lambda>lid s. (s, None))\<rparr> else demo_server False),
     elapse = (\<lambda>i s. s), master_callback_raises = False, stop_requested = False\<rparr>"

section \<open>Roles follow the lease\<close>

lemma role_frames [simp]:
  "master_lock_key (set_role r m) = master_lock_key m" "sb_client (set_role r m) = sb_client m"
  "callbacks (set_role r m) = callbacks m" "is_master (set_role r m) \<longleftrightarrow> r = MASTER"
  "current_role (set_role r m) = r"
  "master_lock_key (call_back cb m) = master_lock_key m" "sb_client (call_back cb m) = sb_client m"
  "callbacks (call_back cb m) = callbacks m @ [cb]" "current_role (call_back cb m) = current_role m"
  by (simp_all add: set_role_def call_back_def is_master_def)

lemma counts_append [simp]:
  "starts (cbs @ [cb]) = starts cbs + (case cb of Become_master b \<Rightarrow> 1 | _ \<Rightarrow> 0)"
  "stops_made (cbs @ [cb]) = stops_made cbs + (if cb = Become_standby then 1 else 0)"
  by (simp_all add: starts_def stops_made_def split: standby_callback.split)

lemma marks_frame [simp]:
  "current_role (mark_lock_unhealthy m) = current_role m" "current_role (mark_lock_healthy m) = current_role m"
  "sb_client (mark_lock_unhealthy m) = sb_client m" "sb_client (mark_lock_healthy m) = sb_client m"
  "master_lock_key (mark_lock_unhealthy m) = master_lock_key m" "master_lock_key (mark_lock_healthy m) = master_lock_key m"
  "starts (callbacks (mark_lock_unhealthy m)) = starts (callbacks m)" "starts (callbacks (mark_lock_healthy m)) = starts (callbacks m)"
  "stops_made (callbacks (mark_lock_unhealthy m)) = stops_made (callbacks m)"
  "stops_made (callbacks (mark_lock_healthy m)) = stops_made (callbacks m)"
  by (simp_all add: mark_lock_unhealthy_def mark_lock_healthy_def call_back_def Let_def)

lemma renew_lease_frame:
  "renew_lease srv key c = (c', ok) \<Longrightarrow> namespace c' = namespace c \<and> client_job c' = client_job c \<and>
     (ok \<longrightarrow> client_leases c' = client_leases c \<and> in_dict (full_key c key) (client_leases c)) \<and>
     (\<not> ok \<longrightarrow> dict_get (client_leases c') (full_key c key) = None)"
  by (auto simp: renew_lease_def Let_def split: option.splits prod.splits if_splits)

lemma renew_attempts_frame:
  "renew_attempts env k n m = (m', ok) \<Longrightarrow> current_role m' = current_role m \<and> master_lock_key m' = master_lock_key m \<and>
     starts (callbacks m') = starts (callbacks m) \<and> stops_made (callbacks m') = stops_made (callbacks m) \<and>
     namespace (sb_client m') = namespace (sb_client m) \<and> client_job (sb_client m') = client_job (sb_client m) \<and>
     (ok \<longrightarrow> in_dict (full_key (sb_client m') (master_lock_key m')) (client_leases (sb_client m')))"
proof (induction n arbitrary: k m)
  case 0
  obtain c1 b where r: "renew_lease (sb_server env) (master_lock_key m) (sb_client m) = (c1, b)" by fastforce
  from renew_lease_frame[OF r] r 0 show ?case by (cases b) auto
next
  case (Suc n)
  obtain c1 b where r: "renew_lease (sb_server env) (master_lock_key m) (sb_client m) = (c1, b)" by fastforce
  show ?case
  proof (cases b)
    case True
    with renew_lease_frame[OF r] r Suc.prems show ?thesis by auto
  next
    case False
    let ?m = "mark_lock_unhealthy (m\<lparr>sb_client := c1\<rparr>)"
    let ?m' = "?m\<lparr>sb_client := (sb_client ?m)\<lparr>server := elapse env k (server (sb_client ?m))\<rparr>\<rparr>"
    from False r Suc.prems have "renew_attempts env (k + 1) n ?m' = (m', ok)" by simp
    from Suc.IH[OF this] renew_lease_frame[OF r] show ?thesis by auto
  qed
qed

declare renew_attempts.simps [simp del]

lemma acquire_records:
  "acquire_lock srv key ttl c = (c', True) \<Longrightarrow> in_dict (full_key c' key) (client_leases c')"
  by (auto simp: acquire_lock_def lock_acquire_def revoke_lease_silent_def Let_def split: prod.splits if_splits option.splits)

lemma bool_frames [simp]:
  "namespace (fst (get_bool srv key b c)) = namespace c" "client_job (fst (get_bool srv key b c)) = client_job c"
  "client_leases (fst (get_bool srv key b c)) = client_leases c"
  "namespace (fst (set_bool srv key b c)) = namespace c" "client_job (fst (set_bool srv key b c)) = client_job c"
  "client_leases (fst (set_bool srv key b c)) = client_leases c"
  by (simp_all add: get_bool_def set_bool_def Let_def case_prod_unfold)

lemma role_step: "role_ok m \<Longrightarrow> role_ok (standby_loop_step env m)"
proof (cases "is_master m")
  case True
  assume ok: "role_ok m"
  obtain m1 b where r: "renew_attempts env 0 (max_retries m) m = (m1, b)" by fastforce
  from renew_attempts_frame[OF r] True ok r show ?thesis
    by (cases b) (auto simp: standby_loop_step_def renew_master_lock_def role_ok_def is_master_def)
next
  case False
  assume ok: "role_ok m"
  show ?thesis
  proof (cases "max_lock_failures m \<le> 0 \<or> stop_requested env")
    case True
    with False ok show ?thesis by (auto simp: standby_loop_step_def try_become_master_def role_ok_def is_master_def)
  next
    case go: False
    obtain c1 b where a: "acquire_lock (sb_server env) (master_lock_key m) (lock_ttl m) (sb_client m) = (c1, b)" by fastforce
    show ?thesis
    proof (cases b)
      case True
      with a have "in_dict (full_key c1 (master_lock_key m)) (client_leases c1)" by (intro acquire_records) simp
      with go False ok a True show ?thesis
        by (auto simp: standby_loop_step_def try_become_master_def role_ok_def start_modules_def Let_def case_prod_unfold is_master_def set_role_def)
    qed (use go False ok a in \<open>auto simp: standby_loop_step_def try_become_master_def role_ok_def is_master_def Let_def set_role_def\<close>)
  qed
qed

interpretation standby_run: step_invariant "\<lambda>m env. standby_loop_step env m" "\<lambda>env. True" role_ok
  by unfold_locales (rule role_step)

text \<open>
  C12: The role follows the lease and the callbacks follow the role: after any number of iterations,
  whatever the server answers and the callbacks raise, a pod that is master has a recorded lease for
  the lock, and its modules were started exactly once more than they were stopped if it is master
  and equally often if it is standby.
\<close>

theorem role_follows_lease:
  assumes "m = foldl (\<lambda>m env. standby_loop_step env m) (StandbyManager_init key report ttl failures cbs c) envs"
  shows "(is_master m \<longrightarrow> in_dict (full_key (sb_client m) (master_lock_key m)) (client_leases (sb_client m))) \<and>
    starts (callbacks m) = stops_made (callbacks m) + (if is_master m then 1 else 0)"
proof -
  have "role_ok (StandbyManager_init key report ttl failures cbs c)"
    by (simp add: role_ok_def StandbyManager_init_def is_master_def starts_def stops_made_def)
  then have "role_ok m" unfolding assms by (rule standby_run.run_keeps) (simp add: list_all_iff)
  then show ?thesis by (simp add: role_ok_def)
qed

section \<open>Retries\<close>

lemma retry_without_lease:
  assumes "dict_get (client_leases (sb_client m)) (full_key (sb_client m) (master_lock_key m)) = None"
  shows "\<exists>m'. renew_attempts env k n m = (m', False) \<and> client_leases (sb_client m') = client_leases (sb_client m) \<and>
     server (sb_client m') = foldl (\<lambda>s i. elapse env i s) (server (sb_client m)) [k..<k + n] \<and> current_role m' = current_role m"
  using assms
proof (induction n arbitrary: k m)
  case 0
  then show ?case by (subst renew_attempts.simps) (simp add: renew_lease_def)
next
  case (Suc n)
  let ?m = "mark_lock_unhealthy m"
  let ?m' = "?m\<lparr>sb_client := (sb_client ?m)\<lparr>server := elapse env k (server (sb_client ?m))\<rparr>\<rparr>"
  have "renew_attempts env k (Suc n) m = renew_attempts env (k + 1) n ?m'"
    using Suc.prems by (subst renew_attempts.simps) (simp add: renew_lease_def)
  moreover obtain m' where "renew_attempts env (k + 1) n ?m' = (m', False)" "client_leases (sb_client m') = client_leases (sb_client ?m')"
    "server (sb_client m') = foldl (\<lambda>s i. elapse env i s) (server (sb_client ?m')) [k + 1..<k + 1 + n]" "current_role m' = current_role ?m'"
    using Suc.IH[of ?m' "k + 1"] Suc.prems by auto
  moreover have "[k..<k + Suc n] = k # [k + 1..<k + 1 + n]" by (simp add: upt_conv_Cons)
  ultimately show ?case by simp
qed

text \<open>
  C35: The retries of the lease renewal never help: one keep-alive call that fails, for whatever
  reason, makes the client forget the lease, so the remaining attempts fail without contacting the
  server; the pod is standby at the end of the iteration even if the server answers again at
  once and the lease is still valid.
\<close>

theorem one_missed_renewal_loses_role:
  assumes master: "is_master m" "dict_get (client_leases (sb_client m)) (full_key (sb_client m) (master_lock_key m)) = Some lid"
    and miss: "lease_keep_alive (sb_server env) lid (server (sb_client m)) = (s1, answer)" "answer = None \<or> (\<exists>t \<le> 0. answer = Some t)"
  shows "let m' = standby_loop_step env m
    in current_role m' = STANDBY \<and> last (callbacks m') = Become_standby \<and>
       server (sb_client m') = foldl (\<lambda>s i. elapse env i s) s1 [0..<max_retries m] \<and>
       client_leases (sb_client m') = dict_pop (full_key (sb_client m) (master_lock_key m)) (client_leases (sb_client m))"
proof -
  let ?key = "master_lock_key m" and ?k = "full_key (sb_client m) (master_lock_key m)"
  let ?c1 = "(sb_client m)\<lparr>server := s1, client_leases := dict_pop ?k (client_leases (sb_client m))\<rparr>"
  have r: "renew_lease (sb_server env) ?key (sb_client m) = (?c1, False)"
    using master(2) miss by (auto simp: renew_lease_def)
  let ?m1 = "mark_lock_unhealthy (m\<lparr>sb_client := ?c1\<rparr>)"
  have "max_retries m = Suc (if lock_ttl m \<le> 8 then 0 else 1)" by (simp add: max_retries_def)
  then obtain n where n: "max_retries m = Suc n" by blast
  let ?m2 = "?m1\<lparr>sb_client := (sb_client ?m1)\<lparr>server := elapse env 0 (server (sb_client ?m1))\<rparr>\<rparr>"
  have "renew_attempts env 0 (max_retries m) m = renew_attempts env 1 n ?m2"
    by (subst renew_attempts.simps) (simp add: r n)
  moreover obtain m' where m': "renew_attempts env 1 n ?m2 = (m', False)" "client_leases (sb_client m') = client_leases (sb_client ?m2)"
    "server (sb_client m') = foldl (\<lambda>s i. elapse env i s) (server (sb_client ?m2)) [1..<1 + n]"
    using retry_without_lease[of ?m2 env 1 n] by auto
  moreover have "[0..<max_retries m] = 0 # [1..<1 + n]" by (simp add: n upt_conv_Cons)
  ultimately show ?thesis using master(1)
    by (simp add: standby_loop_step_def renew_master_lock_def Let_def)
qed

theorem role_follows_lease_witness:
  "let m = foldl (\<lambda>m env. standby_loop_step env m) demo_standby [demo_standby_env False, demo_standby_env False]
   in is_master m \<and> in_dict (full_key (sb_client m) (master_lock_key m)) (client_leases (sb_client m))"
proof -
  let ?m = "foldl (\<lambda>m env. standby_loop_step env m) demo_standby [demo_standby_env False, demo_standby_env False]"
  have "is_master ?m" by code_simp
  with role_follows_lease[OF refl, of "''/controller/master_lock''" "''/controller/should_report_event''" 15 3 True
      "demo_client []" "[demo_standby_env False, demo_standby_env False]", folded demo_standby_def]
  show ?thesis unfolding Let_def by blast
qed

theorem one_missed_renewal_loses_role_witness:
  "current_role (standby_loop_step (demo_standby_env True) (standby_loop_step (demo_standby_env False) demo_standby)) = STANDBY"
proof -
  let ?m = "standby_loop_step (demo_standby_env False) demo_standby"
  have master: "is_master ?m" by code_simp
  have lid: "dict_get (client_leases (sb_client ?m)) (full_key (sb_client ?m) (master_lock_key ?m)) = Some 1" by code_simp
  have miss: "lease_keep_alive (sb_server (demo_standby_env True)) 1 (server (sb_client ?m)) = (server (sb_client ?m), None)"
    by (simp add: demo_standby_env_def)
  show ?thesis using one_missed_renewal_loses_role[OF master lid miss] by (simp add: Let_def)
qed

end
