(* ===== verification/Block_Offsets.thy ===== *)
theory Block_Offsets
  imports Prelude
begin

text \<open>
  Message and tool positions as cache-block coordinates:
  \<^verbatim>\<open>motor/coordinator/domain/block_offset_translator.py\<close>, with the message normalisation of
  \<^verbatim>\<open>motor/coordinator/scheduler/policy/utils.py\<close> it calls.

  The tokenizer is not part of the program: it is a record of the methods the code calls, each of
  which may raise (\<open>Inl\<close>). Messages and tools are decoded JSON, a rendered prompt is the list of its
  code points, so that the full-width bars of the DeepSeek markers have a place in it. The chat
  template is called with and without \<open>return_dict\<close>; only a \<open>TypeError\<close> of the first call leads to
  the second. A result of the wrong type is \<open>Inr None\<close>. \<open>str\<close> of a value that is not a string and
  \<open>json.loads\<close> are arguments.
\<close>

section \<open>Message normalisation\<close>

definition TEXT_CONTENT_PART_FIELDS :: "(string \<times> string) list" where
  "TEXT_CONTENT_PART_FIELDS =
     [(''text'', ''text''), (''input_text'', ''text''), (''output_text'', ''text''),
      (''refusal'', ''refusal''), (''thinking'', ''thinking'')]"

definition extract_text_from_content_part :: "(string \<times> json) list \<Rightarrow> py_error + json option" where
  "extract_text_from_content_part part =
     (case obj_get part ''type'' of
        JNull \<Rightarrow> Inr None
      | JList _ \<Rightarrow> Inl TypeError
      | JObj _ \<Rightarrow> Inl TypeError
      | JStr part_type \<Rightarrow>
          (case dict_get TEXT_CONTENT_PART_FIELDS part_type of
             None \<Rightarrow> Inr None
           | Some field \<Rightarrow>
               let v0 = obj_get part field;
                   v1 = (if v0 = JNull \<and> field \<noteq> ''text'' then obj_get part ''text'' else v0);
                   v2 = (if v1 = JNull \<and> part_type = ''thinking'' then obj_get part ''reasoning_content'' else v1)
               in Inr (Some (if truthy v2 then v2 else JStr [])))
      | _ \<Rightarrow> Inr None)"

fun content_texts :: "(json \<Rightarrow> string) \<Rightarrow> json list \<Rightarrow> py_error + json list" where
  "content_texts py_str [] = Inr []"
| "content_texts py_str (part # parts) =
     (case part of
        JStr s \<Rightarrow> (case content_texts py_str parts of Inl e \<Rightarrow> Inl e | Inr ts \<Rightarrow> Inr (JStr s # ts))
      | JObj d \<Rightarrow>
          (case extract_text_from_content_part d of
             Inl e \<Rightarrow> Inl e
           | Inr extracted \<Rightarrow>
               (case content_texts py_str parts of
                  Inl e \<Rightarrow> Inl e
                | Inr ts \<Rightarrow>
                    (case extracted of
                       Some t \<Rightarrow> Inr (t # ts)
                     | None \<Rightarrow>
                         if obj_get d ''type'' = JNull then Inr ts
                         else Inr (JStr (''[Unsupported '' @ py_str (obj_get d ''type'') @ '']'') # ts))))
      | _ \<Rightarrow> content_texts py_str parts)"

definition str_of :: "json \<Rightarrow> string option" where
  "str_of v = (case v of JStr s \<Rightarrow> Some s | _ \<Rightarrow> None)"

text \<open>
  \<open>sep.join(texts)\<close> raises on an element that is not a string.
\<close>

definition join_texts :: "json list \<Rightarrow> py_error + string" where
  "join_texts ts =
     (if list_all (\<lambda>t. str_of t \<noteq> None) ts
      then Inr (py_join [char_of (10 :: nat)] (map (\<lambda>t. the (str_of t)) ts))
      else Inl TypeError)"

definition content_parts_to_string :: "(json \<Rightarrow> string) \<Rightarrow> json \<Rightarrow> py_error + string" where
  "content_parts_to_string py_str content =
     (case content of
        JNull \<Rightarrow> Inr []
      | JStr s \<Rightarrow> Inr s
      | JList parts \<Rightarrow>
          (case content_texts py_str parts of Inl e \<Rightarrow> Inl e | Inr ts \<Rightarrow> join_texts ts)
      | v \<Rightarrow> Inr (py_str v))"

definition is_text_part :: "json \<Rightarrow> bool" where
  "is_text_part item = (case item of JObj d \<Rightarrow> obj_get d ''type'' = JStr ''text'' | _ \<Rightarrow> False)"

definition is_object :: "json \<Rightarrow> bool" where
  "is_object v = (case v of JObj _ \<Rightarrow> True | _ \<Rightarrow> False)"

definition text_of_part :: "json \<Rightarrow> json" where
  "text_of_part item =
     (case item of
        JObj d \<Rightarrow> (case dict_get d ''text'' of Some v \<Rightarrow> v | None \<Rightarrow> JStr [])
      | v \<Rightarrow> v)"

definition exchange_tool_content :: "(string \<times> json) list \<Rightarrow> py_error + (string \<times> json) list" where
  "exchange_tool_content message =
     (if dict_get message ''role'' \<noteq> Some (JStr ''tool'') then Inr message
      else (case dict_get message ''content'' of
              Some (JList content) \<Rightarrow>
                if list_ex (\<lambda>item. is_object item \<and> \<not> is_text_part item) content then Inr message
                else (let texts = map text_of_part (filter is_text_part content)
                      in if texts = [] then Inr (dict_set ''content'' (JStr []) message)
                         else (case join_texts texts of
                                 Inl e \<Rightarrow> Inl e
                               | Inr s \<Rightarrow> Inr (dict_set ''content'' (JStr s) message)))
            | _ \<Rightarrow> Inr message))"

definition flatten_message_content_to_string ::
  "(json \<Rightarrow> string) \<Rightarrow> (string \<times> json) list \<Rightarrow> py_error + (string \<times> json) list" where
  "flatten_message_content_to_string py_str message =
     (case dict_get message ''content'' of
        None \<Rightarrow> Inr message
      | Some content \<Rightarrow>
          if obj_get message ''role'' = JStr ''tool'' then exchange_tool_content message
          else (case content_parts_to_string py_str content of
                  Inl e \<Rightarrow> Inl e
                | Inr s \<Rightarrow> Inr (dict_set ''content'' (JStr s) message)))"

definition exchange_call :: "(string \<Rightarrow> py_error + json) \<Rightarrow> json \<Rightarrow> py_error + json" where
  "exchange_call loads tool =
     (case tool of
        JObj d \<Rightarrow>
          (case obj_get d ''function'' of
             JObj f \<Rightarrow>
               if (case dict_get d ''type'' of Some t \<Rightarrow> t | None \<Rightarrow> JStr ''function'') \<noteq> JStr ''function''
               then Inr tool
               else if \<not> truthy (obj_get f ''arguments'')
               then Inr (JObj (dict_set ''function'' (JObj (dict_set ''arguments'' (JObj []) f)) d))
               else (case obj_get f ''arguments'' of
                       JObj _ \<Rightarrow> Inr tool
                     | JList _ \<Rightarrow> Inr tool
                     | JStr s \<Rightarrow>
                         (case loads s of
                            Inl e \<Rightarrow> Inl e
                          | Inr v \<Rightarrow> Inr (JObj (dict_set ''function'' (JObj (dict_set ''arguments'' v f)) d)))
                     | _ \<Rightarrow> Inl TypeError)
           | _ \<Rightarrow> Inr tool)
      | _ \<Rightarrow> Inr tool)"

fun map_result :: "('a \<Rightarrow> py_error + 'b) \<Rightarrow> 'a list \<Rightarrow> py_error + 'b list" where
  "map_result f [] = Inr []"
| "map_result f (x # xs) =
     (case f x of
        Inl e \<Rightarrow> Inl e
      | Inr y \<Rightarrow> (case map_result f xs of Inl e \<Rightarrow> Inl e | Inr ys \<Rightarrow> Inr (y # ys)))"

definition exchange_arguments ::
  "(string \<Rightarrow> py_error + json) \<Rightarrow> (string \<times> json) list \<Rightarrow> py_error + (string \<times> json) list" where
  "exchange_arguments loads message =
     (case dict_get message ''tool_calls'' of
        Some (JList tool_calls) \<Rightarrow>
          if tool_calls = [] then Inr (dict_pop ''tool_calls'' message)
          else (case map_result (exchange_call loads) tool_calls of
                  Inl e \<Rightarrow> Inl e
                | Inr calls \<Rightarrow> Inr (dict_set ''tool_calls'' (JList calls) message))
      | _ \<Rightarrow> Inr message)"

definition priority_fields :: "string list" where
  "priority_fields = [''name'', ''description'', ''parameters'']"

definition field_priority :: "string \<Rightarrow> nat" where
  "field_priority k = (if k = ''name'' then 1 else if k = ''description'' then 2 else if k = ''parameters'' then 3 else 100)"

text \<open>
  A \<open>function\<close> entry that is no dictionary raises: a string or a list supports \<open>in\<close> but neither item
  assignment by name nor \<open>items\<close>, a number or null does not even support \<open>in\<close>.
\<close>

definition function_mismatch :: "json \<Rightarrow> py_error" where
  "function_mismatch v =
     (case v of
        JStr s \<Rightarrow> if list_all (\<lambda>f. \<exists>i \<in> set [0..<length s]. take (length f) (drop i s) = f) priority_fields
                  then AttributeError else TypeError
      | JList xs \<Rightarrow> if list_all (\<lambda>f. JStr f \<in> set xs) priority_fields then AttributeError else TypeError
      | _ \<Rightarrow> TypeError)"

definition ensure_field :: "(string \<times> json) list \<Rightarrow> string \<Rightarrow> (string \<times> json) list" where
  "ensure_field d f = (if in_dict f d then d else dict_set f JNull d)"

definition exchange_tools :: "(string \<times> json) list \<Rightarrow> py_error + (string \<times> json) list" where
  "exchange_tools tool =
     (case dict_get tool ''function'' of
        None \<Rightarrow> Inr tool
      | Some (JObj f) \<Rightarrow>
          Inr (dict_set ''function''
                 (JObj (sort_key (\<lambda>kv. field_priority (fst kv)) (foldl ensure_field f priority_fields))) tool)
      | Some v \<Rightarrow> Inl (function_mismatch v))"

definition preprocess_message ::
  "(json \<Rightarrow> string) \<Rightarrow> (string \<Rightarrow> py_error + json) \<Rightarrow> json \<Rightarrow> py_error + json" where
  "preprocess_message py_str loads m =
     (case m of
        JObj d \<Rightarrow>
          (case flatten_message_content_to_string py_str d of
             Inl e \<Rightarrow> Inl e
           | Inr d' \<Rightarrow> (case exchange_arguments loads d' of Inl e \<Rightarrow> Inl e | Inr d'' \<Rightarrow> Inr (JObj d'')))
      | _ \<Rightarrow> Inr m)"

definition preprocess_tool :: "json \<Rightarrow> py_error + json" where
  "preprocess_tool t =
     (case t of
        JObj d \<Rightarrow> (case exchange_tools d of Inl e \<Rightarrow> Inl e | Inr d' \<Rightarrow> Inr (JObj d'))
      | _ \<Rightarrow> Inr t)"

definition preprocess_messages_for_dsv4 ::
  "(json \<Rightarrow> string) \<Rightarrow> (string \<Rightarrow> py_error + json) \<Rightarrow> json list \<Rightarrow> json list option \<Rightarrow>
   py_error + json list \<times> json list option" where
  "preprocess_messages_for_dsv4 py_str loads messages tools =
     (case map_result (preprocess_message py_str loads) messages of
        Inl e \<Rightarrow> Inl e
      | Inr ms \<Rightarrow>
          (case tools of
             None \<Rightarrow> Inr (ms, None)
           | Some ts \<Rightarrow>
               if ts = [] then Inr (ms, None)
               else (case map_result preprocess_tool ts of Inl e \<Rightarrow> Inl e | Inr ts' \<Rightarrow> Inr (ms, Some ts'))))"

section \<open>Tokenizer and text\<close>

record tokenizer =
  class_names :: "string list"
  convert_tokens_to_ids :: "ptext \<Rightarrow> py_error + int option"
  unk_token_id :: "int option"
  tok_encode :: "ptext \<Rightarrow> py_error + int list"
  tok_decode :: "int list \<Rightarrow> py_error + ptext option"
  template_ids :: "bool \<Rightarrow> json list \<Rightarrow> json list option \<Rightarrow> py_error + int list option"
  template_str :: "bool \<Rightarrow> json list \<Rightarrow> json list option \<Rightarrow> py_error + ptext option"

text \<open>
  \<open>str.rfind(sub, start, stop)\<close> for non-negative positions.
\<close>

definition py_rfind :: "'a list \<Rightarrow> 'a list \<Rightarrow> nat \<Rightarrow> nat \<Rightarrow> nat option" where
  "py_rfind xs sub start stop =
     List.find (\<lambda>i. occurs_at xs sub i) (rev [start..<min stop (length xs) + 1 - length sub])"

definition DSV4_USER_MARKER :: ptext where
  "DSV4_USER_MARKER = codes ''<'' @ [0xFF5C] @ codes ''User'' @ [0xFF5C] @ codes ''>''"

definition DSV4_ASSISTANT_MARKER :: ptext where
  "DSV4_ASSISTANT_MARKER = codes ''<'' @ [0xFF5C] @ codes ''Assistant'' @ [0xFF5C] @ codes ''>''"

definition DSV4_EOS_MARKER :: ptext where
  "DSV4_EOS_MARKER = codes ''<'' @ [0xFF5C] @ codes ''end'' @ [0x2581] @ codes ''of'' @ [0x2581] @
     codes ''sentence'' @ [0xFF5C] @ codes ''>''"

definition CHAT_MARKER_CANDIDATES :: "ptext list" where
  "CHAT_MARKER_CANDIDATES =
     map codes [''<|im_start|>'', ''<|begin_of_text|>'', ''<|user|>'', ''<|sep|>'']"

definition is_dsv4_tokenizer :: "tokenizer option \<Rightarrow> bool" where
  "is_dsv4_tokenizer t =
     (case t of None \<Rightarrow> False | Some tk \<Rightarrow> list_ex (\<lambda>n. py_startswith n ''DSV4'') (class_names tk))"

definition try_get_token_id :: "tokenizer option \<Rightarrow> ptext \<Rightarrow> int option" where
  "try_get_token_id t tok =
     (case t of
        None \<Rightarrow> None
      | Some tk \<Rightarrow>
          (case convert_tokens_to_ids tk tok of
             Inr (Some tid) \<Rightarrow>
               if unk_token_id tk = Some tid then None
               else (case tok_encode tk tok of
                       Inr enc \<Rightarrow> if enc = [tid] then Some tid else None
                     | Inl e \<Rightarrow> None)
           | _ \<Rightarrow> None))"

text \<open>
  The rendering attempts. The generic messages table lets an exception of the second attempt out,
  every other caller turns it into an unavailable table.
\<close>

definition render_ids :: "tokenizer \<Rightarrow> json list \<Rightarrow> json list option \<Rightarrow> py_error + int list option" where
  "render_ids tk messages tools =
     (case template_ids tk True messages tools of
        Inl TypeError \<Rightarrow> template_ids tk False messages tools
      | r \<Rightarrow> r)"

definition render_str :: "tokenizer \<Rightarrow> json list \<Rightarrow> json list option \<Rightarrow> ptext option" where
  "render_str tk messages tools =
     (case (case template_str tk True messages tools of
              Inl TypeError \<Rightarrow> template_str tk False messages tools
            | r \<Rightarrow> r) of
        Inr (Some s) \<Rightarrow> if s = [] then None else Some s
      | _ \<Rightarrow> None)"

definition positions :: "int \<Rightarrow> int list \<Rightarrow> nat list" where
  "positions tid ids = filter (\<lambda>i. ids ! i = tid) [0..<length ids]"

definition role_of :: "json \<Rightarrow> json option" where
  "role_of m = (case m of JObj d \<Rightarrow> Some (obj_get d ''role'') | _ \<Rightarrow> None)"

section \<open>Message tables\<close>

subsection \<open>DeepSeek V4\<close>

text \<open>
  The loop over the messages with the three indices; \<open>None\<close> is any of its early returns.
\<close>

definition user_like :: "json \<Rightarrow> bool" where
  "user_like role \<longleftrightarrow> role \<in> {JStr ''user'', JStr ''developer'', JStr ''tool''}"

fun marker_loop ::
  "nat list \<Rightarrow> nat list \<Rightarrow> nat list \<Rightarrow> nat \<Rightarrow> nat \<Rightarrow> nat \<Rightarrow> json list \<Rightarrow> nat list option" where
  "marker_loop user_pos asst_pos eos_pos u a e [] = Some []"
| "marker_loop user_pos asst_pos eos_pos u a e (msg # msgs) =
     (case role_of msg of
        None \<Rightarrow> None
      | Some role \<Rightarrow>
          if user_like role
          then (let next_user = (if u + 1 < length user_pos then Some (user_pos ! (u + 1)) else None)
                in if a < length asst_pos \<and> (case next_user of None \<Rightarrow> True | Some p \<Rightarrow> asst_pos ! a < p)
                   then map_option ((#) (asst_pos ! a)) (marker_loop user_pos asst_pos eos_pos (u + 1) (a + 1) e msgs)
                   else (case next_user of
                           Some p \<Rightarrow> map_option ((#) p) (marker_loop user_pos asst_pos eos_pos (u + 1) a e msgs)
                         | None \<Rightarrow> None))
          else if role = JStr ''assistant''
          then (if e \<ge> length eos_pos then None
                else map_option ((#) (eos_pos ! e + 1)) (marker_loop user_pos asst_pos eos_pos u a (e + 1) msgs))
          else None)"

definition has_system_at_start :: "json list \<Rightarrow> bool" where
  "has_system_at_start messages =
     (case messages of [] \<Rightarrow> False | m # _ \<Rightarrow> role_of m = Some (JStr ''system''))"

definition marker_table :: "int \<Rightarrow> int \<Rightarrow> int \<Rightarrow> int list \<Rightarrow> json list \<Rightarrow> nat list option" where
  "marker_table eos_id user_id asst_id ids messages =
     (let user_pos = positions user_id ids; asst_pos = positions asst_id ids; eos_pos = positions eos_id ids
      in if has_system_at_start messages
         then (case user_pos of
                 [] \<Rightarrow> None
               | p # _ \<Rightarrow> map_option ((#) p) (marker_loop user_pos asst_pos eos_pos 1 0 0 (tl messages)))
         else marker_loop user_pos asst_pos eos_pos 0 0 0 messages)"

definition dsv4_messages_table :: "tokenizer option \<Rightarrow> json list \<Rightarrow> json list option \<Rightarrow> nat list option" where
  "dsv4_messages_table t messages tools =
     (if messages = [] then None
      else (case (try_get_token_id t DSV4_EOS_MARKER, try_get_token_id t DSV4_USER_MARKER,
                  try_get_token_id t DSV4_ASSISTANT_MARKER, t) of
              (Some eos_id, Some user_id, Some asst_id, Some tk) \<Rightarrow>
                (case render_ids tk messages tools of
                   Inr (Some ids) \<Rightarrow> if ids = [] then None else marker_table eos_id user_id asst_id ids messages
                 | _ \<Rightarrow> None)
            | _ \<Rightarrow> None))"

subsection \<open>Other families\<close>

definition detect_chat_marker_id :: "tokenizer option \<Rightarrow> int option" where
  "detect_chat_marker_id t =
     foldr (\<lambda>tok rest. case try_get_token_id t tok of Some tid \<Rightarrow> Some tid | None \<Rightarrow> rest)
       CHAT_MARKER_CANDIDATES None"

definition table_of_starts :: "nat list \<Rightarrow> nat \<Rightarrow> nat \<Rightarrow> nat list option" where
  "table_of_starts im_starts ids_len n =
     (if length im_starts = n + 1 then Some (map (\<lambda>i. im_starts ! (i + 1)) [0..<n])
      else if length im_starts = n
      then Some (map (\<lambda>i. if i + 1 < length im_starts then im_starts ! (i + 1) else ids_len) [0..<n])
      else None)"

definition standard_messages_table ::
  "tokenizer option \<Rightarrow> json list \<Rightarrow> json list option \<Rightarrow> py_error + nat list option" where
  "standard_messages_table t messages tools =
     (case t of
        None \<Rightarrow> Inr None
      | Some tk \<Rightarrow>
          if messages = [] then Inr None
          else (case detect_chat_marker_id t of
                  None \<Rightarrow> Inr None
                | Some marker_id \<Rightarrow>
                    (case template_ids tk True messages tools of
                       Inl e \<Rightarrow> if e \<noteq> TypeError then Inr None
                                else (case template_ids tk False messages tools of
                                        Inl e \<Rightarrow> Inl e
                                      | Inr None \<Rightarrow> Inr None
                                      | Inr (Some ids) \<Rightarrow>
                                          Inr (if ids = [] then None
                                               else table_of_starts (positions marker_id ids) (length ids) (length messages)))
                     | Inr None \<Rightarrow> Inr None
                     | Inr (Some ids) \<Rightarrow>
                         Inr (if ids = [] then None
                              else table_of_starts (positions marker_id ids) (length ids) (length messages)))))"

section \<open>Tools tables\<close>

definition tool_name_of :: "(json \<Rightarrow> string) \<Rightarrow> json \<Rightarrow> string option" where
  "tool_name_of py_str tool =
     (case tool of
        JObj d \<Rightarrow>
          (case (if truthy (obj_get d ''function'') then obj_get d ''function'' else JObj []) of
             JObj f \<Rightarrow>
               (let name = (case obj_get f ''name'' of JStr s \<Rightarrow> s
                            | v \<Rightarrow> if truthy v then py_str v else [])
                in if name = [] then None else Some name)
           | _ \<Rightarrow> None)
      | _ \<Rightarrow> None)"

definition name_marker :: "string \<Rightarrow> ptext" where
  \<open>name_marker tool_name = codes (''"name": "'' @ tool_name @ ''"'')\<close>

text \<open>
  The start of one tool in the rendered prompt: the opening brace before its name, at or after the
  start of the tool before it.
\<close>

definition opener_before_name :: "ptext \<Rightarrow> string \<Rightarrow> nat \<Rightarrow> nat option" where
  "opener_before_name full_str tool_name search_from =
     (case py_find full_str (name_marker tool_name) search_from of
        None \<Rightarrow> None
      | Some nm_idx \<Rightarrow> py_rfind full_str (codes ''{'') search_from nm_idx)"

fun dsv4_char_positions :: "(json \<Rightarrow> string) \<Rightarrow> ptext \<Rightarrow> nat \<Rightarrow> json list \<Rightarrow> nat list option" where
  "dsv4_char_positions py_str full_str search_from [] = Some []"
| "dsv4_char_positions py_str full_str search_from (tool # rest) =
     (case tool_name_of py_str tool of
        None \<Rightarrow> None
      | Some tool_name \<Rightarrow>
          (case opener_before_name full_str tool_name search_from of
             None \<Rightarrow> None
           | Some obj_open \<Rightarrow> map_option ((#) obj_open) (dsv4_char_positions py_str full_str obj_open rest)))"

definition resolve_tools_end_pos_dsv4 :: "ptext \<Rightarrow> nat list \<Rightarrow> nat option" where
  "resolve_tools_end_pos_dsv4 full_str char_positions =
     (if char_positions = [] then None
      else (case py_find full_str DSV4_USER_MARKER 0 of
              None \<Rightarrow> None
            | Some um \<Rightarrow> if um \<le> last char_positions then None else Some um))"

text \<open>
  Character positions to token positions, each by encoding the prefix, with the monotonicity check.
\<close>

definition token_positions :: "tokenizer \<Rightarrow> ptext \<Rightarrow> nat list \<Rightarrow> nat list option" where
  "token_positions tk full_str char_positions =
     (case map_result (\<lambda>cp. tok_encode tk (take cp full_str)) char_positions of
        Inl e \<Rightarrow> None
      | Inr idss \<Rightarrow> if sorted (map length idss) then Some (map length idss) else None)"

definition dsv4_tools_table ::
  "(json \<Rightarrow> string) \<Rightarrow> tokenizer option \<Rightarrow> json list \<Rightarrow> json list option \<Rightarrow> nat list option" where
  "dsv4_tools_table py_str t messages tools =
     (case (t, tools) of
        (Some tk, Some ts) \<Rightarrow>
          if ts = [] then None
          else (case render_ids tk messages tools of
                  Inr (Some ids) \<Rightarrow>
                    if ids = [] then None
                    else (case tok_decode tk ids of
                            Inr (Some full_str) \<Rightarrow>
                              if full_str = [] then None
                              else (case dsv4_char_positions py_str full_str 0 ts of
                                      None \<Rightarrow> None
                                    | Some cps \<Rightarrow>
                                        let end_pos = (case resolve_tools_end_pos_dsv4 full_str cps of
                                                         Some p \<Rightarrow> p | None \<Rightarrow> length full_str)
                                        in token_positions tk full_str (cps @ [end_pos]))
                          | _ \<Rightarrow> None)
                | _ \<Rightarrow> None)
      | _ \<Rightarrow> None)"

text \<open>
  The walk over the occurrences of the function opener: the name that follows decides; running out of
  quotes ends it.
\<close>

definition candidate_prefix :: ptext where
  \<open>candidate_prefix = codes ''{"type": "function"''\<close>

definition quote_mark :: ptext where
  "quote_mark = [34]"

definition name_key :: ptext where
  \<open>name_key = codes ''"name":''\<close>

definition name_after :: "ptext \<Rightarrow> nat \<Rightarrow> ptext option" where
  "name_after full_str idx =
     (case py_find full_str name_key idx of
        None \<Rightarrow> None
      | Some next_name_idx \<Rightarrow>
          (case py_find full_str quote_mark (next_name_idx + length name_key) of
             None \<Rightarrow> None
           | Some name_start \<Rightarrow>
               (case py_find full_str quote_mark (name_start + 1) of
                  None \<Rightarrow> None
                | Some name_end \<Rightarrow> Some (drop (name_start + 1) (take name_end full_str)))))"

function walk_candidates :: "ptext \<Rightarrow> string \<Rightarrow> nat option \<Rightarrow> nat option" where
  "walk_candidates full_str tool_name None = None"
| "walk_candidates full_str tool_name (Some idx) =
     (case name_after full_str idx of
        None \<Rightarrow> None
      | Some found_name \<Rightarrow>
          if found_name = codes tool_name then Some idx
          else walk_candidates full_str tool_name (py_find full_str candidate_prefix (idx + 1)))"
  by pat_completeness auto
termination
proof (relation "measure (\<lambda>(full_str, tool_name, i).
                   case i of None \<Rightarrow> 0 | Some idx \<Rightarrow> length full_str + 2 - idx)", goal_cases)
  case (2 full_str tool_name idx found_name)
  show ?case
  proof (cases "py_find full_str candidate_prefix (idx + 1)")
    case None
    have "idx < length full_str"
    proof (rule ccontr)
      assume "\<not> idx < length full_str"
      then have "py_find full_str name_key idx = None"
        by (auto simp: py_find_def find_None_iff name_key_def codes_def)
      then show False using 2(1) by (simp add: name_after_def)
    qed
    then show ?thesis using None by simp
  next
    case (Some i)
    then have "idx + 1 \<le> i" and "i \<le> length full_str"
      unfolding py_find_def find_Some_iff by auto
    then show ?thesis using Some by simp
  qed
qed simp

definition standard_tool_position ::
  "(json \<Rightarrow> string) \<Rightarrow> tokenizer \<Rightarrow> json list \<Rightarrow> ptext \<Rightarrow> nat \<Rightarrow> json \<Rightarrow> nat option" where
  "standard_tool_position py_str tk messages full_str search_from tool =
     (case render_str tk messages (Some [tool]) of
        None \<Rightarrow> None
      | Some s_i \<Rightarrow>
          (case tool_name_of py_str tool of
             None \<Rightarrow> None
           | Some tool_name \<Rightarrow>
               if py_find s_i (name_marker tool_name) 0 = None then None
               else (case walk_candidates full_str tool_name (py_find full_str candidate_prefix search_from) of
                       Some idx \<Rightarrow> Some idx
                     | None \<Rightarrow> opener_before_name full_str tool_name search_from)))"

fun standard_char_positions ::
  "(json \<Rightarrow> string) \<Rightarrow> tokenizer \<Rightarrow> json list \<Rightarrow> ptext \<Rightarrow> nat \<Rightarrow> json list \<Rightarrow> nat list option" where
  "standard_char_positions py_str tk messages full_str search_from [] = Some []"
| "standard_char_positions py_str tk messages full_str search_from (tool # rest) =
     (case standard_tool_position py_str tk messages full_str search_from tool of
        None \<Rightarrow> None
      | Some cp \<Rightarrow> map_option ((#) cp) (standard_char_positions py_str tk messages full_str cp rest))"

definition tools_closer_pos :: "ptext \<Rightarrow> nat \<Rightarrow> nat" where
  "tools_closer_pos full_str last_start =
     foldr (\<lambda>closer rest. case py_rfind full_str (codes closer) 0 (length full_str) of
              Some idx \<Rightarrow> if idx > last_start then idx else rest
            | None \<Rightarrow> rest)
       [''</tools>'', ''</tools_section>''] (length full_str)"

definition standard_tools_table ::
  "(json \<Rightarrow> string) \<Rightarrow> tokenizer option \<Rightarrow> json list \<Rightarrow> json list option \<Rightarrow> nat list option" where
  "standard_tools_table py_str t messages tools =
     (case (t, tools) of
        (Some tk, Some ts) \<Rightarrow>
          if ts = [] then None
          else (case render_str tk messages tools of
                  None \<Rightarrow> None
                | Some full_str \<Rightarrow>
                    (case standard_char_positions py_str tk messages full_str 0 ts of
                       None \<Rightarrow> None
                     | Some cps \<Rightarrow> token_positions tk full_str (cps @ [tools_closer_pos full_str (last cps)])))
      | _ \<Rightarrow> None)"

section \<open>Block coordinates\<close>

text \<open>
  A coordinate is block index, offset inside the block and absolute token offset.
\<close>

type_synonym coordinate = "int \<times> int \<times> int"

definition coordinate_of :: "int \<Rightarrow> int \<Rightarrow> coordinate" where
  "coordinate_of block_size token_idx = (token_idx div block_size, token_idx mod block_size, token_idx)"

definition prefix_diff_block_offset ::
  "json list \<Rightarrow> int \<Rightarrow> int \<Rightarrow> nat list option \<Rightarrow> coordinate option" where
  "prefix_diff_block_offset messages msg_idx block_size messages_table =
     (if messages = [] \<or> msg_idx < 0 \<or> msg_idx \<ge> int (length messages) then None
      else (case messages_table of
              None \<Rightarrow> None
            | Some tbl \<Rightarrow>
                if msg_idx \<ge> int (length tbl) then None
                else (let token_idx = int (tbl ! nat msg_idx)
                      in if token_idx \<le> 0 then None else Some (coordinate_of block_size token_idx))))"

definition align_block_for_op :: "int \<Rightarrow> int \<Rightarrow> string \<Rightarrow> string \<Rightarrow> int" where
  "align_block_for_op token_idx block_size align_policy boundary =
     (if block_size \<le> 0 then 0
      else let block = token_idx div block_size; intra = token_idx mod block_size
           in if align_policy = ''negative''
              then max 0 (if boundary = ''start'' then block + (if intra \<noteq> 0 then 1 else 0)
                          else if boundary = ''end'' then block - (if intra \<noteq> block_size - 1 then 1 else 0)
                          else block)
              else block)"

definition offload_offset_computer ::
  "json list \<Rightarrow> int \<Rightarrow> int \<Rightarrow> string \<Rightarrow> nat list option \<Rightarrow> coordinate option" where
  "offload_offset_computer messages msg_idx block_size boundary messages_table =
     (case prefix_diff_block_offset messages msg_idx block_size messages_table of
        None \<Rightarrow> None
      | Some (_, intra, token_idx) \<Rightarrow>
          Some (align_block_for_op token_idx block_size ''positive'' boundary, intra, token_idx))"

definition prefetch_offset_computer ::
  "json list \<Rightarrow> int \<Rightarrow> int \<Rightarrow> string \<Rightarrow> nat list option \<Rightarrow> coordinate option" where
  "prefetch_offset_computer messages msg_idx block_size boundary messages_table =
     (case prefix_diff_block_offset messages msg_idx block_size messages_table of
        None \<Rightarrow> None
      | Some (_, intra, token_idx) \<Rightarrow>
          Some (align_block_for_op token_idx block_size ''positive'' boundary, intra, token_idx))"

definition evict_offset_computer ::
  "json list \<Rightarrow> int \<Rightarrow> int \<Rightarrow> string \<Rightarrow> nat list option \<Rightarrow> coordinate option" where
  "evict_offset_computer messages msg_idx block_size boundary messages_table =
     (case prefix_diff_block_offset messages msg_idx block_size messages_table of
        None \<Rightarrow> None
      | Some (_, intra, token_idx) \<Rightarrow>
          Some (align_block_for_op token_idx block_size ''positive'' boundary, intra, token_idx))"

definition edit_type_computer ::
  "string \<Rightarrow> (json list \<Rightarrow> int \<Rightarrow> int \<Rightarrow> string \<Rightarrow> nat list option \<Rightarrow> coordinate option) option" where
  "edit_type_computer edit_type =
     (if edit_type = ''offload'' then Some offload_offset_computer
      else if edit_type = ''prefetch'' then Some prefetch_offset_computer
      else if edit_type = ''evict'' then Some evict_offset_computer
      else None)"

definition compute_block_offset ::
  "json list \<Rightarrow> int option \<Rightarrow> int \<Rightarrow> nat list option \<Rightarrow> coordinate option" where
  "compute_block_offset messages msg_offset block_size messages_table =
     (if block_size \<le> 0 \<or> messages = [] then None
      else (case (messages_table, msg_offset) of
              (Some tbl, Some off) \<Rightarrow>
                let effective = off - 1
                in if effective < 0 \<or> effective \<ge> int (length tbl) then None
                   else (let token_idx = int (tbl ! nat effective)
                         in if token_idx = 0 then None else Some (coordinate_of block_size token_idx))
            | _ \<Rightarrow> None))"

text \<open>
  The answer of \<open>compute_edit_block_offset\<close>: the bare \<open>None\<close> of an invalid block size is \<open>None\<close> here,
  every other answer is a pair.
\<close>

definition compute_edit_block_offset ::
  "string \<Rightarrow> json list \<Rightarrow> json list option \<Rightarrow> int option \<Rightarrow> int option \<Rightarrow> int \<Rightarrow> string \<Rightarrow>
   nat list option \<Rightarrow> nat list option \<Rightarrow> (coordinate option \<times> coordinate option) option" where
  "compute_edit_block_offset edit_type messages tools start stop block_size tgt messages_table tools_table =
     (if block_size \<le> 0 then None
      else if tgt = ''session'' then Some (None, None)
      else if tgt = ''tools'' then
        (case (tools, tools_table) of
           (Some ts, Some tbl) \<Rightarrow>
             if ts = [] \<or> length tbl \<noteq> length ts + 1 then Some (None, None)
             else (let n_tools = int (length ts);
                       eff_start = (case start of None \<Rightarrow> 0 | Some s \<Rightarrow> max 0 (min s n_tools));
                       eff_end = (case stop of None \<Rightarrow> n_tools | Some e \<Rightarrow> max 0 (min e n_tools));
                       s_tok = int (tbl ! nat eff_start);
                       e_tok = int (tbl ! nat eff_end);
                       bo_start = (if eff_start = 0 then coordinate_of block_size s_tok
                                   else (align_block_for_op s_tok block_size edit_type ''start'',
                                         s_tok mod block_size, s_tok));
                       bo_end = (align_block_for_op e_tok block_size edit_type ''end'', e_tok mod block_size, e_tok)
                   in if eff_start = eff_end then Some (Some bo_start, None)
                      else Some (Some bo_start, Some bo_end))
         | _ \<Rightarrow> Some (None, None))
      else (case edit_type_computer edit_type of
              None \<Rightarrow> Some (None, None)
            | Some computer \<Rightarrow>
                if messages = [] then Some (None, None)
                else (let n = int (length messages);
                          eff_start = (case start of None \<Rightarrow> 0 | Some s \<Rightarrow> max 0 (min s (n - 1)));
                          eff_end = (case stop of None \<Rightarrow> n | Some e \<Rightarrow> max 0 (min e n));
                          bo_start = (if eff_start = 0 then Some (0, 0, 0)
                                      else computer messages (eff_start - 1) block_size ''start'' messages_table);
                          bo_end = computer messages (eff_end - 1) block_size ''end'' messages_table
                      in Some (bo_start, bo_end))))"

section \<open>Attaching the coordinates to a request\<close>

text \<open>
  The parts of the hint the function reads and writes, and the request body. An exception anywhere
  is swallowed and leaves what was written before it; the dictionary under \<open>agent_hint\<close> is written in
  place when the body holds one, and its \<open>edits\<close> list when it has one entry per parsed edit.
\<close>

record context_edit =
  ce_type :: string
  ce_target :: string
  ce_start :: "int option"
  ce_end :: "int option"
  ce_at_start :: "coordinate option"
  ce_at_end :: "coordinate option"

record cache_point =
  cp_msg_offset :: "int option"
  cp_coordinate :: "coordinate option"

record offset_hint =
  oh_session_id :: string
  oh_management :: "(bool \<times> context_edit list) option"
  oh_cache_control :: "cache_point option"

record offset_request =
  or_hint :: "offset_hint option"
  or_data :: "(string \<times> json) list"

definition json_opt_int :: "int option \<Rightarrow> json" where
  "json_opt_int v = (case v of None \<Rightarrow> JNull | Some n \<Rightarrow> JInt n)"

definition edit_entry :: "context_edit \<Rightarrow> json" where
  "edit_entry e = JObj [(''type'', JStr (ce_type e)), (''target'', JStr (ce_target e)),
                        (''start'', json_opt_int (ce_start e)), (''end'', json_opt_int (ce_end e))]"

definition hint_in_body :: "(string \<times> json) list \<Rightarrow> json" where
  "hint_in_body data = (if truthy (obj_get data ''agent_hint'') then obj_get data ''agent_hint'' else JObj [])"

text \<open>
  What the body shows of a change of the hint dictionary before it is stored back: only a dictionary
  that came from the body is shared with it.
\<close>

definition write_through :: "(string \<times> json) list \<Rightarrow> (string \<times> json) list \<Rightarrow> (string \<times> json) list" where
  "write_through data ah =
     (if truthy (obj_get data ''agent_hint'') then dict_set ''agent_hint'' (JObj ah) data else data)"

definition section_default :: "string \<Rightarrow> (string \<times> json) list \<Rightarrow> (string \<times> json) list" where
  "section_default k d = (if in_dict k d then d else dict_set k (JObj []) d)"

text \<open>
  The section of the hint dictionary under a key, created when absent: \<open>Inl\<close> is the body left behind
  by an exception (the hint or the section is no dictionary), \<open>Inr\<close> the hint and its section.
\<close>

definition open_section ::
  "string \<Rightarrow> (string \<times> json) list \<Rightarrow>
   (string \<times> json) list + (string \<times> json) list \<times> (string \<times> json) list" where
  "open_section k data =
     (case hint_in_body data of
        JObj ah0 \<Rightarrow>
          (let ah = section_default k ah0
           in case obj_get ah k of
                JObj sec \<Rightarrow> Inr (ah, sec)
              | _ \<Rightarrow> Inl (write_through data ah))
      | _ \<Rightarrow> Inl data)"

definition put_coordinate ::
  "string \<Rightarrow> string \<Rightarrow> string \<Rightarrow> coordinate \<Rightarrow> (string \<times> json) list \<Rightarrow> (string \<times> json) list" where
  "put_coordinate kb ki kt c d =
     (case c of (b, i, t) \<Rightarrow> dict_set kt (JInt t) (dict_set ki (JInt i) (dict_set kb (JInt b) d)))"

definition attach_cache_point ::
  "json list \<Rightarrow> int \<Rightarrow> nat list option \<Rightarrow> cache_point \<Rightarrow> (string \<times> json) list \<Rightarrow>
   bool \<times> cache_point \<times> (string \<times> json) list" where
  "attach_cache_point messages block_size messages_table cc data =
     (case compute_block_offset messages (cp_msg_offset cc) block_size messages_table of
        None \<Rightarrow> (True, cc, data)
      | Some bo \<Rightarrow>
          (let cc' = cc\<lparr>cp_coordinate := Some bo\<rparr>
           in case open_section ''cache_control'' data of
                Inl data' \<Rightarrow> (False, cc', data')
              | Inr (ah, sec) \<Rightarrow>
                  (True, cc',
                   dict_set ''agent_hint''
                     (JObj (dict_set ''cache_control''
                              (JObj (put_coordinate ''block_offset'' ''intra_block_offset'' ''token_offset'' bo sec)) ah))
                     data)))"

text \<open>
  One iteration of the loop over the edits: the flag is \<open>False\<close> when it raises.
\<close>

definition attach_edit ::
  "json list \<Rightarrow> json list option \<Rightarrow> int \<Rightarrow> nat list option \<Rightarrow> nat list option \<Rightarrow>
   context_edit \<Rightarrow> json \<Rightarrow> bool \<times> context_edit \<times> json" where
  "attach_edit messages tools block_size messages_table tools_table e item =
     (if ce_target e = ''session''
      then (let n = int (length messages)
            in (True, e\<lparr>ce_start := Some 0, ce_end := Some n\<rparr>,
                case item of
                  JObj d \<Rightarrow> JObj (dict_set ''end'' (JInt n) (dict_set ''start'' (JInt 0) d))
                | v \<Rightarrow> v))
      else (case compute_edit_block_offset (ce_type e) messages tools (ce_start e) (ce_end e) block_size
                   (ce_target e) messages_table tools_table of
              None \<Rightarrow> (False, e, item)
            | Some (bo_start, bo_end) \<Rightarrow>
                let e1 = (case bo_start of None \<Rightarrow> e | Some c \<Rightarrow> e\<lparr>ce_at_start := Some c\<rparr>);
                    e2 = (case bo_end of None \<Rightarrow> e1 | Some c \<Rightarrow> e1\<lparr>ce_at_end := Some c\<rparr>)
                in if bo_start = None \<and> bo_end = None then (True, e2, item)
                   else (case item of
                           JObj d \<Rightarrow>
                             let d1 = (case bo_start of None \<Rightarrow> d
                                       | Some c \<Rightarrow> put_coordinate ''block_start'' ''block_intra_start'' ''start_token'' c d);
                                 d2 = (case bo_end of None \<Rightarrow> d1
                                       | Some c \<Rightarrow> put_coordinate ''block_end'' ''block_intra_end'' ''end_token'' c d1)
                             in (True, e2, JObj d2)
                         | _ \<Rightarrow> (False, e2, item))))"

fun attach_edits ::
  "(context_edit \<Rightarrow> json \<Rightarrow> bool \<times> context_edit \<times> json) \<Rightarrow> context_edit list \<Rightarrow> json list \<Rightarrow>
   bool \<times> context_edit list \<times> json list" where
  "attach_edits step (e # es) (item # items) =
     (case step e item of
        (False, e', item') \<Rightarrow> (False, e' # es, item' # items)
      | (True, e', item') \<Rightarrow>
          (case attach_edits step es items of (ok, es', items') \<Rightarrow> (ok, e' # es', item' # items')))"
| "attach_edits step es items = (True, es, items)"

definition edits_in_body :: "(string \<times> json) list \<Rightarrow> nat \<Rightarrow> json list option" where
  "edits_in_body cm_dict n =
     (case obj_get cm_dict ''edits'' of
        JList items \<Rightarrow> if length items = n then Some items else None
      | _ \<Rightarrow> None)"

definition attach_management ::
  "(context_edit \<Rightarrow> json \<Rightarrow> bool \<times> context_edit \<times> json) \<Rightarrow> context_edit list \<Rightarrow> (string \<times> json) list \<Rightarrow>
   context_edit list \<times> (string \<times> json) list" where
  "attach_management step edits data =
     (case open_section ''context_management'' data of
        Inl data' \<Rightarrow> (edits, data')
      | Inr (ah, cm_dict) \<Rightarrow>
          (let shared = edits_in_body cm_dict (length edits);
               stored = (\<lambda>items. dict_set ''context_management'' (JObj (dict_set ''edits'' (JList items) cm_dict)) ah)
           in case attach_edits step edits (case shared of Some items \<Rightarrow> items | None \<Rightarrow> map edit_entry edits) of
                (ok, edits', items') \<Rightarrow>
                  if ok then (edits', dict_set ''agent_hint'' (JObj (stored items')) data)
                  else (edits', write_through data (if shared = None then ah else stored items'))))"

datatype calculator = Dsv4 | Standard

definition get_block_offset_calculator :: "tokenizer option \<Rightarrow> calculator" where
  "get_block_offset_calculator t = (if is_dsv4_tokenizer t then Dsv4 else Standard)"

text \<open>
  Preprocessing and the two tables, the messages table first; an exception ends the attachment.
\<close>

definition offset_tables ::
  "(json \<Rightarrow> string) \<Rightarrow> (string \<Rightarrow> py_error + json) \<Rightarrow> tokenizer option \<Rightarrow> json list \<Rightarrow> json list option \<Rightarrow>
   py_error + json list \<times> json list option \<times> nat list option \<times> nat list option" where
  "offset_tables py_str loads t messages tools =
     (case get_block_offset_calculator t of
        Dsv4 \<Rightarrow>
          (case preprocess_messages_for_dsv4 py_str loads messages tools of
             Inl e \<Rightarrow> Inl e
           | Inr (ms, ts) \<Rightarrow> Inr (ms, ts, dsv4_messages_table t ms ts, dsv4_tools_table py_str t ms ts))
      | Standard \<Rightarrow>
          (case standard_messages_table t messages tools of
             Inl e \<Rightarrow> Inl e
           | Inr tbl \<Rightarrow> Inr (messages, tools, tbl, standard_tools_table py_str t messages tools)))"

definition attach_block_offsets ::
  "(json \<Rightarrow> string) \<Rightarrow> (string \<Rightarrow> py_error + json) \<Rightarrow> int \<Rightarrow> tokenizer option \<Rightarrow> json list \<Rightarrow>
   json list option \<Rightarrow> offset_request \<Rightarrow> offset_request" where
  "attach_block_offsets py_str loads block_size t messages tools r =
     (case or_hint r of
        None \<Rightarrow> r
      | Some h \<Rightarrow>
          (case oh_management h of
             Some (True, edits) \<Rightarrow>
               if oh_session_id h = [] then r
               else (case (if edits = [] then Inr (or_data r)
                           else case open_section ''context_management'' (or_data r) of
                                  Inl data \<Rightarrow> Inl data
                                | Inr (ah, cm_dict) \<Rightarrow> Inr (write_through (or_data r) ah)) of
                       Inl data \<Rightarrow> r\<lparr>or_data := data\<rparr>
                     | Inr data0 \<Rightarrow>
                         (let session_only = list_ex (\<lambda>e. ce_target e = ''session'') edits \<and> oh_cache_control h = None
                          in case (if session_only then Inr (messages, tools, None, None)
                                   else offset_tables py_str loads t messages tools) of
                               Inl e \<Rightarrow> r\<lparr>or_data := data0\<rparr>
                             | Inr (ms, ts, mt, tt) \<Rightarrow>
                                 (case (case oh_cache_control h of
                                          None \<Rightarrow> (True, None, data0)
                                        | Some cc \<Rightarrow>
                                            (case attach_cache_point ms block_size mt cc data0 of
                                               (ok, cc', d) \<Rightarrow> (ok, Some cc', d))) of
                                    (ok, cc', data1) \<Rightarrow>
                                      if \<not> ok \<or> edits = []
                                      then r\<lparr>or_hint := Some (h\<lparr>oh_cache_control := cc'\<rparr>), or_data := data1\<rparr>
                                      else (case attach_management (attach_edit ms ts block_size mt tt) edits data1 of
                                              (edits', data2) \<Rightarrow>
                                                r\<lparr>or_hint := Some (h\<lparr>oh_cache_control := cc',
                                                                  oh_management := Some (True, edits')\<rparr>),
                                                  or_data := data2\<rparr>))))
           | _ \<Rightarrow> r))"

section \<open>The prompt the marker scan expects\<close>

text \<open>
  The token stream the comment on the DeepSeek V4 markers describes: a user-like message starts with
  the user marker and is closed by the assistant marker when an assistant message or the generation
  follows; an assistant message ends with the end-of-sentence marker; a leading system message has no
  marker. \<open>content\<close> gives the tokens between the markers.
\<close>

definition is_user_like :: "json \<Rightarrow> bool" where
  "is_user_like m = (case role_of m of Some r \<Rightarrow> user_like r | None \<Rightarrow> False)"

definition is_assistant :: "json \<Rightarrow> bool" where
  "is_assistant m \<longleftrightarrow> role_of m = Some (JStr ''assistant'')"

definition closes :: "json list \<Rightarrow> bool" where
  "closes rest = (case rest of [] \<Rightarrow> True | m # _ \<Rightarrow> \<not> is_user_like m)"

fun dsv4_stream :: "int \<Rightarrow> int \<Rightarrow> int \<Rightarrow> (json \<Rightarrow> int list) \<Rightarrow> json list \<Rightarrow> int list" where
  "dsv4_stream eos_id user_id asst_id content [] = []"
| "dsv4_stream eos_id user_id asst_id content (m # ms) =
     (if is_user_like m
      then user_id # content m @ (if closes ms then [asst_id] else []) @ dsv4_stream eos_id user_id asst_id content ms
      else content m @ eos_id # dsv4_stream eos_id user_id asst_id content ms)"

fun message_ends :: "(json \<Rightarrow> int list) \<Rightarrow> nat \<Rightarrow> json list \<Rightarrow> nat list" where
  "message_ends content k [] = []"
| "message_ends content k (m # ms) =
     (let e = k + length (content m) + 1
      in e # message_ends content (if is_user_like m then e + (if closes ms then 1 else 0) else e) ms)"

definition dsv4_prompt ::
  "int \<Rightarrow> int \<Rightarrow> int \<Rightarrow> (json \<Rightarrow> int list) \<Rightarrow> int list \<Rightarrow> json list \<Rightarrow> int list" where
  "dsv4_prompt eos_id user_id asst_id content preamble messages =
     (if has_system_at_start messages
      then preamble @ content (hd messages) @ dsv4_stream eos_id user_id asst_id content (tl messages)
      else preamble @ dsv4_stream eos_id user_id asst_id content messages)"

definition prompt_ends :: "(json \<Rightarrow> int list) \<Rightarrow> int list \<Rightarrow> json list \<Rightarrow> nat list" where
  "prompt_ends content preamble messages =
     (if has_system_at_start messages
      then (let k = length preamble + length (content (hd messages)) in k # message_ends content k (tl messages))
      else message_ends content (length preamble) messages)"

definition marker_free :: "int \<Rightarrow> int \<Rightarrow> int \<Rightarrow> int list \<Rightarrow> bool" where
  "marker_free eos_id user_id asst_id ids \<longleftrightarrow> eos_id \<notin> set ids \<and> user_id \<notin> set ids \<and> asst_id \<notin> set ids"

fun user_run :: "json list \<Rightarrow> bool" where
  "user_run (m # m' # ms) \<longleftrightarrow> is_user_like m \<and> is_user_like m' \<or> user_run (m' # ms)"
| "user_run ms \<longleftrightarrow> False"

text \<open>
  The conversations the scan is exact on: user-like and assistant messages in any order, or a system
  message followed by them when a user-like message comes next and no two of them are adjacent.
\<close>

definition scannable :: "json list \<Rightarrow> bool" where
  "scannable messages \<longleftrightarrow>
     (if has_system_at_start messages
      then list_all (\<lambda>m. is_user_like m \<or> is_assistant m) (tl messages) \<and> \<not> user_run (tl messages) \<and>
           (case tl messages of [] \<Rightarrow> False | m # _ \<Rightarrow> is_user_like m)
      else list_all (\<lambda>m. is_user_like m \<or> is_assistant m) messages)"

definition sample_prompt :: ptext where
  \<open>sample_prompt = codes ''{"name": "f"}''\<close>

definition sample_tokenizer :: tokenizer where
  "sample_tokenizer =
     \<lparr>class_names = [''Qwen2Tokenizer''],
      convert_tokens_to_ids = (\<lambda>s. Inr (if s = codes ''<|im_start|>'' then Some 7 else None)),
      unk_token_id = None,
      tok_encode = (\<lambda>s. Inr (if s = codes ''<|im_start|>'' then [7] else map int s)),
      tok_decode = (\<lambda>ids. Inr (Some (map nat ids))),
      template_ids = (\<lambda>d ms ts. Inr (Some (concat (map (\<lambda>m. [7, 0]) ms) @ [7]))),
      template_str = (\<lambda>d ms ts. Inr (Some sample_prompt))\<rparr>"

definition sample_tool :: json where
  "sample_tool = JObj [(''function'', JObj [(''name'', JStr ''f'')])]"

definition coordinate_ok :: "int \<Rightarrow> coordinate \<Rightarrow> bool" where
  "coordinate_ok block_size c \<longleftrightarrow>
     (case c of (b, i, t) \<Rightarrow> 0 \<le> b \<and> 0 \<le> i \<and> i < block_size \<and> t = b * block_size + i)"

definition range_ordered :: "int option \<Rightarrow> int option \<Rightarrow> bool" where
  "range_ordered start stop = (case (start, stop) of (Some s, Some e) \<Rightarrow> s \<le> e | _ \<Rightarrow> True)"

definition table_sorted :: "nat list option \<Rightarrow> bool" where
  "table_sorted t = (case t of None \<Rightarrow> True | Some tbl \<Rightarrow> sorted tbl)"

text \<open>
  The two targets of an edit, with the clamped range and the coordinates as plain positions.
\<close>

definition clamp :: "int \<Rightarrow> int \<Rightarrow> int option \<Rightarrow> int" where
  "clamp dflt hi v = (case v of None \<Rightarrow> dflt | Some x \<Rightarrow> max 0 (min x hi))"

definition shows_coordinate :: "string \<Rightarrow> string \<Rightarrow> string \<Rightarrow> (string \<times> json) list \<Rightarrow> coordinate \<Rightarrow> bool" where
  "shows_coordinate kb ki kt d c \<longleftrightarrow>
     (case c of (b, i, t) \<Rightarrow>
        dict_get d kb = Some (JInt b) \<and> dict_get d ki = Some (JInt i) \<and> dict_get d kt = Some (JInt t))"

definition mirrored :: "context_edit \<Rightarrow> json \<Rightarrow> bool" where
  "mirrored e item =
     (case item of
        JObj d \<Rightarrow>
          (\<forall>c. ce_at_start e = Some c \<longrightarrow> shows_coordinate ''block_start'' ''block_intra_start'' ''start_token'' d c) \<and>
          (\<forall>c. ce_at_end e = Some c \<longrightarrow> shows_coordinate ''block_end'' ''block_intra_end'' ''end_token'' d c)
      | _ \<Rightarrow> ce_at_start e = None \<and> ce_at_end e = None)"

definition fresh_edit :: "context_edit \<Rightarrow> bool" where
  "fresh_edit e \<longleftrightarrow> ce_at_start e = None \<and> ce_at_end e = None"

text \<open>
  The edits as the body lists them.
\<close>

definition body_edits :: "(string \<times> json) list \<Rightarrow> json" where
  "body_edits data =
     (case hint_in_body data of
        JObj ah \<Rightarrow> (case obj_get ah ''context_management'' of JObj cm \<Rightarrow> obj_get cm ''edits'' | _ \<Rightarrow> JNull)
      | _ \<Rightarrow> JNull)"

text \<open>
  A body whose hint, context management and cache control are dictionaries or absent, and whose
  listed edits, when they match the parsed ones in number, are dictionaries.
\<close>

definition is_section :: "string \<Rightarrow> (string \<times> json) list \<Rightarrow> bool" where
  "is_section k ah \<longleftrightarrow> is_object (obj_get (section_default k ah) k)"

definition body_ready :: "nat \<Rightarrow> (string \<times> json) list \<Rightarrow> bool" where
  "body_ready n data =
     (case hint_in_body data of
        JObj ah \<Rightarrow>
          is_section ''cache_control'' ah \<and>
          (case obj_get (section_default ''context_management'' ah) ''context_management'' of
             JObj cm \<Rightarrow> (case edits_in_body cm n of Some items \<Rightarrow> list_all is_object items | None \<Rightarrow> True)
           | _ \<Rightarrow> False)
      | _ \<Rightarrow> False)"

definition sample_edit :: context_edit where
  "sample_edit = \<lparr>ce_type = ''evict'', ce_target = ''messages'', ce_start = Some 1, ce_end = None,
                  ce_at_start = None, ce_at_end = None\<rparr>"

definition sample_request :: offset_request where
  "sample_request =
     \<lparr>or_hint = Some \<lparr>oh_session_id = ''s'', oh_management = Some (True, [sample_edit]), oh_cache_control = None\<rparr>,
      or_data = [(''agent_hint'', JObj [(''session_id'', JStr ''s'')])]\<rparr>"

section \<open>The marker scan\<close>

lemma positions_Nil [simp]: "positions t [] = []"
  by (simp add: positions_def)

lemma positions_append: "positions t (xs @ ys) = positions t xs @ map (\<lambda>i. length xs + i) (positions t ys)"
proof -
  have "filter (\<lambda>i. (xs @ ys) ! i = t) [length xs..<length xs + length ys] =
        map (\<lambda>i. length xs + i) (filter (\<lambda>i. ys ! i = t) [0..<length ys])"
  proof -
    have "[length xs..<length xs + length ys] = map (\<lambda>i. length xs + i) [0..<length ys]"
      by (rule nth_equalityI) auto
    then show ?thesis by (simp add: filter_map o_def)
  qed
  moreover have "filter (\<lambda>i. (xs @ ys) ! i = t) [0..<length xs] = filter (\<lambda>i. xs ! i = t) [0..<length xs]"
    by (rule filter_cong) (auto simp: nth_append)
  moreover have "[0..<length xs + length ys] = [0..<length xs] @ [length xs..<length xs + length ys]"
    using upt_add_eq_append [of 0 "length xs" "length ys"] by simp
  ultimately show ?thesis by (simp add: positions_def)
qed

lemma positions_Cons: "positions t (x # xs) = (if x = t then [0] else []) @ map Suc (positions t xs)"
  using positions_append [of t "[x]" xs] by (simp add: positions_def)

lemma positions_absent [simp]: "t \<notin> set xs \<Longrightarrow> positions t xs = []"
  by (induction xs) (auto simp: positions_Cons)

lemma positions_bound: "i \<in> set (positions t xs) \<Longrightarrow> i < length xs"
  by (simp add: positions_def)

lemma positions_sorted: "sorted_wrt (<) (positions t xs)"
  unfolding positions_def by (rule sorted_wrt_filter) simp

lemma is_user_like_not_assistant: "is_user_like m \<Longrightarrow> \<not> is_assistant m"
  by (auto simp: is_user_like_def is_assistant_def user_like_def split: option.splits)

lemma user_step_closed:
  assumes "distinct [E, U, A]" and "marker_free E U A c" and "k = 0 \<or> k = (1 :: nat)"
    and "ids = P @ U # c @ A # rest"
    and "u = k + length (positions U P)" and "a = length (positions A P)"
  shows "a < length (positions A ids) \<and> positions A ids ! a = length P + length c + 1 \<and>
         (u + 1 < length (positions U ids) \<longrightarrow> positions A ids ! a < positions U ids ! (u + 1))"
proof -
  have A: "positions A ids = positions A P @ (length P + length c + 1) #
             map (\<lambda>i. length P + Suc (length c + Suc i)) (positions A rest)"
    using assms(1,2) unfolding assms(4)
    by (simp add: positions_append positions_Cons marker_free_def o_def)
  have U: "positions U ids = positions U P @ length P #
             map (\<lambda>i. length P + Suc (length c + Suc i)) (positions U rest)"
    using assms(1,2) unfolding assms(4)
    by (simp add: positions_append positions_Cons marker_free_def o_def)
  show ?thesis
    using assms(3) unfolding A U assms(5,6)
    by (auto simp: nth_append nth_Cons split: nat.splits)
qed

lemma user_step_open:
  assumes "distinct [E, U, A]" and "marker_free E U A c"
    and "ids = P @ U # c @ U # rest"
    and "u = length (positions U P)" and "a = length (positions A P)"
  shows "u + 1 < length (positions U ids) \<and> positions U ids ! (u + 1) = length P + length c + 1 \<and>
         (a < length (positions A ids) \<longrightarrow> \<not> positions A ids ! a < positions U ids ! (u + 1))"
proof -
  have A: "positions A ids = positions A P @
             map (\<lambda>i. length P + Suc (length c + Suc i)) (positions A rest)"
    using assms(1,2) unfolding assms(3)
    by (simp add: positions_append positions_Cons marker_free_def o_def)
  have U: "positions U ids = positions U P @ length P # (length P + length c + 1) #
             map (\<lambda>i. length P + Suc (length c + Suc i)) (positions U rest)"
    using assms(1,2) unfolding assms(3)
    by (simp add: positions_append positions_Cons marker_free_def o_def)
  show ?thesis
    unfolding A U assms(4,5) by (auto simp: nth_append)
qed

lemma assistant_step:
  assumes "marker_free E U A c" and "ids = P @ c @ E # rest" and "e = length (positions E P)"
  shows "e < length (positions E ids) \<and> positions E ids ! e = length P + length c"
proof -
  have "positions E ids = positions E P @ (length P + length c) #
          map (\<lambda>i. length P + (length c + Suc i)) (positions E rest)"
    using assms(1) unfolding assms(2)
    by (simp add: positions_append positions_Cons marker_free_def o_def)
  then show ?thesis by (simp add: assms(3))
qed

lemma user_run_tl: "\<not> user_run (m # ms) \<Longrightarrow> \<not> user_run ms"
  by (cases ms) auto

lemma marker_loop_exact:
  assumes "distinct [E, U, A]" and "\<forall>m \<in> set ms. marker_free E U A (c m)"
    and "list_all (\<lambda>m. is_user_like m \<or> is_assistant m) ms"
    and "k = 0 \<or> k = (1 :: nat) \<and> \<not> user_run ms"
    and "ids = P @ dsv4_stream E U A c ms"
    and "u = k + length (positions U P)" and "a = length (positions A P)" and "e = length (positions E P)"
  shows "marker_loop (positions U ids) (positions A ids) (positions E ids) u a e ms =
         Some (message_ends c (length P) ms)"
  using assms(2-)
proof (induction ms arbitrary: P u a e)
  case Nil
  then show ?case by simp
next
  case (Cons m ms)
  let ?S = "dsv4_stream E U A c ms"
  have free: "marker_free E U A (c m)" using Cons.prems(1) by simp
  have rest: "\<forall>m \<in> set ms. marker_free E U A (c m)" "list_all (\<lambda>m. is_user_like m \<or> is_assistant m) ms"
    "k = 0 \<or> k = 1 \<and> \<not> user_run ms"
    using Cons.prems(1-3) user_run_tl by auto
  show ?case
  proof (cases "is_user_like m")
    case True
    then obtain r where r: "role_of m = Some r" "user_like r"
      by (auto simp: is_user_like_def split: option.splits)
    let ?Q = "P @ U # c m @ (if closes ms then [A] else [])"
    have ids: "ids = ?Q @ ?S" using Cons.prems(4) True by simp
    have counts: "u + 1 = k + length (positions U ?Q)" "e = length (positions E ?Q)"
      "length (positions A ?Q) = a + (if closes ms then 1 else 0)"
      using assms(1) free Cons.prems(5-)
      by (simp_all add: positions_append positions_Cons marker_free_def)
    have IH: "marker_loop (positions U ids) (positions A ids) (positions E ids) (u + 1)
                (a + (if closes ms then 1 else 0)) e ms = Some (message_ends c (length ?Q) ms)"
      using Cons.IH [OF rest ids counts(1) _ counts(2)] counts(3) by simp
    show ?thesis
    proof (cases "closes ms")
      case closed: True
      then have "ids = P @ U # c m @ A # ?S" using ids by simp
      then have "a < length (positions A ids) \<and> positions A ids ! a = length P + length (c m) + 1 \<and>
          (u + 1 < length (positions U ids) \<longrightarrow> positions A ids ! a < positions U ids ! (u + 1))"
        using user_step_closed [OF assms(1) free _ _ Cons.prems(5,6), of ids ?S] Cons.prems(3) by blast
      then show ?thesis using IH r True closed by (auto simp: Let_def)
    next
      case opened: False
      then obtain m' ms' where ms: "ms = m' # ms'" "is_user_like m'"
        by (auto simp: closes_def split: list.splits)
      then have k: "k = 0" using Cons.prems(3) True by simp
      have uP: "u = length (positions U P)" using Cons.prems(5) k by simp
      have "ids = P @ U # c m @ U # (c m' @ (if closes ms' then [A] else []) @ dsv4_stream E U A c ms')"
        using ids opened ms by simp
      then have "u + 1 < length (positions U ids) \<and> positions U ids ! (u + 1) = length P + length (c m) + 1 \<and>
         (a < length (positions A ids) \<longrightarrow> \<not> positions A ids ! a < positions U ids ! (u + 1))"
        by (rule user_step_open [OF assms(1) free _ uP Cons.prems(6)])
      then show ?thesis using IH r True opened by (auto simp: Let_def)
    qed
  next
    case False
    then have asst: "role_of m = Some (JStr ''assistant'')" "\<not> user_like (JStr ''assistant'')"
      using Cons.prems(2) by (simp_all add: is_assistant_def user_like_def)
    let ?Q = "P @ c m @ [E]"
    have ids: "ids = ?Q @ ?S" using Cons.prems(4) False by simp
    have counts: "u = k + length (positions U ?Q)" "a = length (positions A ?Q)"
      "e + 1 = length (positions E ?Q)"
      using assms(1) free Cons.prems(5-) by (auto simp: positions_append positions_Cons marker_free_def)
    have IH: "marker_loop (positions U ids) (positions A ids) (positions E ids) u a (e + 1) ms =
                Some (message_ends c (length ?Q) ms)"
      using Cons.IH [OF rest ids counts] .
    have "e < length (positions E ids) \<and> positions E ids ! e = length P + length (c m)"
      using assistant_step [OF free _ Cons.prems(7), of ids ?S] ids by simp
    then show ?thesis using IH asst False by (simp add: Let_def)
  qed
qed



text \<open>
  C36: a system message followed by two user-like messages gets no table at all: the scan starts with
  the second user marker as the current one, takes the assistant marker for the end of the first of
  them and finds nothing left for the second. Without the system message the same two messages are
  located exactly.
\<close>

theorem user_run_after_system:
  assumes "distinct [eos_id, user_id, asst_id]"
    and "role_of s = Some (JStr ''system'')" and "is_user_like m1" and "is_user_like m2"
    and "marker_free eos_id user_id asst_id preamble"
    and "\<forall>m \<in> {s, m1, m2}. marker_free eos_id user_id asst_id (content m)"
  shows "marker_table eos_id user_id asst_id (dsv4_prompt eos_id user_id asst_id content preamble [s, m1, m2])
           [s, m1, m2] = None \<and>
         marker_table eos_id user_id asst_id (dsv4_prompt eos_id user_id asst_id content preamble [m1, m2])
           [m1, m2] = Some (prompt_ends content preamble [m1, m2])"
proof -
  obtain r1 r2 where r: "role_of m1 = Some r1" "user_like r1" "role_of m2 = Some r2" "user_like r2"
    using assms(3,4) by (auto simp: is_user_like_def split: option.splits)
  have nosys: "\<not> has_system_at_start [m1, m2]"
    using r(1,2) by (auto simp: has_system_at_start_def user_like_def)
  then have "scannable [m1, m2]" using assms(3,4) by (simp add: scannable_def)
  then have "marker_table eos_id user_id asst_id (dsv4_prompt eos_id user_id asst_id content preamble [m1, m2])
           [m1, m2] = Some (prompt_ends content preamble [m1, m2])"
    using marker_loop_exact [OF assms(1), of "[m1, m2]" content 0 _ preamble 0 0 0] assms(3-6) nosys
    by (simp add: marker_table_def dsv4_prompt_def prompt_ends_def marker_free_def
        del: marker_loop.simps dsv4_stream.simps message_ends.simps)
  moreover have "has_system_at_start [s, m1, m2]" using assms(2) by (simp add: has_system_at_start_def)
  then have "marker_table eos_id user_id asst_id (dsv4_prompt eos_id user_id asst_id content preamble [s, m1, m2])
           [s, m1, m2] = None"
    using assms r
    by (simp add: marker_table_def dsv4_prompt_def closes_def marker_free_def positions_append positions_Cons Let_def)
  ultimately show ?thesis by simp
qed

lemma user_run_after_system_witness:
  "marker_table 1 2 3 [0, 9, 2, 9, 2, 9, 3]
     [JObj [(''role'', JStr ''system'')], JObj [(''role'', JStr ''user'')], JObj [(''role'', JStr ''tool'')]] = None"
  using user_run_after_system [of 1 2 3 "JObj [(''role'', JStr ''system'')]" "JObj [(''role'', JStr ''user'')]"
      "JObj [(''role'', JStr ''tool'')]" "[0]" "\<lambda>_. [9]"]
  by (simp add: scannable_def has_system_at_start_def role_of_def obj_get_def is_user_like_def
      user_like_def marker_free_def dsv4_prompt_def closes_def)

section \<open>Shape of the tables\<close>

lemma marker_loop_Cons_Some:
  assumes "marker_loop up ap ep u a e (m # ms) = Some tbl"
  shows "\<exists>p u' a' e' tbl'. tbl = p # tbl' \<and> marker_loop up ap ep u' a' e' ms = Some tbl'"
proof -
  obtain r where r: "role_of m = Some r" using assms by (cases "role_of m") auto
  show ?thesis
  proof (cases "user_like r")
    case True
    have "\<exists>p u' a'. map_option ((#) p) (marker_loop up ap ep u' a' e ms) = Some tbl"
      using assms r True unfolding marker_loop.simps Let_def
      by (cases "u + 1 < length up"; cases "a < length ap") (auto split: if_splits)
    then show ?thesis by blast
  next
    case False
    then have "\<exists>p. map_option ((#) p) (marker_loop up ap ep u a (e + 1) ms) = Some tbl"
      using assms r by (auto split: if_splits)
    then show ?thesis by blast
  qed
qed

lemma marker_loop_length: "marker_loop up ap ep u a e ms = Some tbl \<Longrightarrow> length tbl = length ms"
proof (induction ms arbitrary: u a e tbl)
  case (Cons m ms)
  then show ?case using marker_loop_Cons_Some [OF Cons.prems] by auto
qed simp

lemma marker_table_length:
  "marker_table eos_id user_id asst_id ids ms = Some tbl \<Longrightarrow> length tbl = length ms"
  unfolding marker_table_def Let_def
  by (cases ms) (auto simp: has_system_at_start_def dest!: marker_loop_length simp del: marker_loop.simps split: if_splits list.splits)

lemma dsv4_messages_length: "dsv4_messages_table t ms ts = Some tbl \<Longrightarrow> length tbl = length ms"
  unfolding dsv4_messages_table_def
  by (auto dest: marker_table_length split: if_splits option.splits sum.splits)

lemma table_of_starts_shape:
  assumes "table_of_starts (positions t ids) (length ids) n = Some tbl"
  shows "length tbl = n \<and> sorted_wrt (<) tbl \<and> (\<forall>p \<in> set tbl. 0 < p \<and> p \<le> length ids)"
proof -
  have mono: "i < j \<Longrightarrow> j < length (positions t ids) \<Longrightarrow> positions t ids ! i < positions t ids ! j" for i j
    using positions_sorted [of t ids] by (simp add: sorted_wrt_iff_nth_less)
  have bound: "j < length (positions t ids) \<Longrightarrow> positions t ids ! j < length ids" for j
    using positions_bound nth_mem by blast
  have pos: "Suc j < length (positions t ids) \<Longrightarrow> 0 < positions t ids ! Suc j" for j
    using mono [of 0 "Suc j"] by simp
  show ?thesis
  proof (cases "length (positions t ids) = n + 1")
    case True
    then have tbl: "tbl = map (\<lambda>i. positions t ids ! (i + 1)) [0..<n]"
      using assms by (simp add: table_of_starts_def)
    show ?thesis using True mono bound pos unfolding tbl
      by (auto simp: sorted_wrt_iff_nth_less less_imp_le)
  next
    case False
    then have tbl: "tbl = map (\<lambda>i. if i + 1 < length (positions t ids) then positions t ids ! (i + 1) else length ids) [0..<n]"
      and n: "length (positions t ids) = n"
      using assms by (auto simp: table_of_starts_def split: if_splits)
    have "0 < length ids" if "0 < n" using bound [of 0] that n by linarith
    then show ?thesis using n mono bound pos unfolding tbl
      by (auto simp: sorted_wrt_iff_nth_less less_imp_le)
  qed
qed

lemma standard_messages_shape:
  "standard_messages_table t ms ts = Inr (Some tbl) \<Longrightarrow> length tbl = length ms \<and> sorted_wrt (<) tbl"
  unfolding standard_messages_table_def
  by (auto dest!: table_of_starts_shape split: if_splits option.splits sum.splits)

lemma map_result_length: "map_result f xs = Inr ys \<Longrightarrow> length ys = length xs"
  by (induction xs arbitrary: ys) (auto split: sum.splits)

lemma token_positions_shape: "token_positions tk s cps = Some tbl \<Longrightarrow> length tbl = length cps \<and> sorted tbl"
  unfolding token_positions_def by (auto dest: map_result_length split: sum.splits if_splits)

lemma dsv4_char_positions_length: "dsv4_char_positions py s k ts = Some cps \<Longrightarrow> length cps = length ts"
  by (induction py s k ts arbitrary: cps rule: dsv4_char_positions.induct) (auto split: option.splits)

lemma standard_char_positions_length:
  "standard_char_positions py tk ms s k ts = Some cps \<Longrightarrow> length cps = length ts"
  by (induction py tk ms s k ts arbitrary: cps rule: standard_char_positions.induct) (auto split: option.splits)

lemma dsv4_tools_shape:
  "dsv4_tools_table py t ms ts = Some tbl \<Longrightarrow> \<exists>l. ts = Some l \<and> l \<noteq> [] \<and> length tbl = length l + 1 \<and> sorted tbl"
  unfolding dsv4_tools_table_def
  by (auto simp: Let_def dest!: token_positions_shape dsv4_char_positions_length
      split: if_splits option.splits sum.splits)

lemma standard_tools_shape:
  "standard_tools_table py t ms ts = Some tbl \<Longrightarrow> \<exists>l. ts = Some l \<and> l \<noteq> [] \<and> length tbl = length l + 1 \<and> sorted tbl"
  unfolding standard_tools_table_def
  by (auto simp: Let_def dest!: token_positions_shape standard_char_positions_length
      split: if_splits option.splits sum.splits)

text \<open>
  Whatever the tokenizer answers, the tables handed to the coordinate computation have the
  promised shape: one entry per message of the normalised conversation, strictly increasing for the
  generic family, and one entry per tool plus the end sentinel, never decreasing.
\<close>

theorem offset_tables_shape:
  assumes "offset_tables py_str loads t messages tools = Inr (ms, ts, mt, tt)"
  shows "length ms = length messages \<and>
         (\<forall>tbl. mt = Some tbl \<longrightarrow> length tbl = length ms \<and> (\<not> is_dsv4_tokenizer t \<longrightarrow> sorted_wrt (<) tbl)) \<and>
         (\<forall>tbl. tt = Some tbl \<longrightarrow> (\<exists>l. ts = Some l \<and> l \<noteq> [] \<and> length tbl = length l + 1 \<and> sorted tbl))"
proof (cases "is_dsv4_tokenizer t")
  case True
  then have "preprocess_messages_for_dsv4 py_str loads messages tools = Inr (ms, ts)"
    and tabs: "mt = dsv4_messages_table t ms ts" "tt = dsv4_tools_table py_str t ms ts"
    using assms by (auto simp: offset_tables_def get_block_offset_calculator_def split: sum.splits)
  then have "length ms = length messages"
    by (auto simp: preprocess_messages_for_dsv4_def dest: map_result_length split: sum.splits option.splits if_splits)
  then show ?thesis using True dsv4_messages_length dsv4_tools_shape unfolding tabs by blast
next
  case False
  then have "ms = messages" "standard_messages_table t ms ts = Inr mt" "tt = standard_tools_table py_str t ms ts"
    using assms by (auto simp: offset_tables_def get_block_offset_calculator_def split: sum.splits)
  then show ?thesis using standard_messages_shape standard_tools_shape by auto
qed

lemma offset_tables_shape_witness:
  "\<exists>mt tt. offset_tables (\<lambda>v. []) (\<lambda>s. Inl ValueError) (Some sample_tokenizer) [JNull, JNull] (Some [sample_tool]) =
     Inr ([JNull, JNull], Some [sample_tool], Some mt, Some tt) \<and> length mt = 2 \<and> sorted_wrt (<) mt \<and>
     length tt = 2 \<and> sorted tt"
proof -
  have "offset_tables (\<lambda>v. []) (\<lambda>s. Inl ValueError) (Some sample_tokenizer) [JNull, JNull] (Some [sample_tool]) =
     Inr ([JNull, JNull], Some [sample_tool], Some [2, 4], Some [0, 13])"
    by code_simp
  moreover have "\<not> is_dsv4_tokenizer (Some sample_tokenizer)" by code_simp
  ultimately show ?thesis
    using offset_tables_shape [of "\<lambda>v. []" "\<lambda>s. Inl ValueError" "Some sample_tokenizer" "[JNull, JNull]"
        "Some [sample_tool]"] by force
qed

section \<open>Soundness of the coordinates\<close>

lemma coordinate_of_ok: "0 < block_size \<Longrightarrow> 0 \<le> t \<Longrightarrow> coordinate_ok block_size (coordinate_of block_size t)"
  by (simp add: coordinate_ok_def coordinate_of_def pos_imp_zdiv_nonneg_iff)

lemma align_positive: "0 < block_size \<Longrightarrow> policy \<noteq> ''negative'' \<Longrightarrow>
  (align_block_for_op t block_size policy boundary, t mod block_size, t) = coordinate_of block_size t"
  by (simp add: align_block_for_op_def coordinate_of_def)

lemma computers_eq:
  assumes "0 < block_size" and "edit_type_computer edit_type = Some computer"
  shows "computer messages i block_size boundary mt = prefix_diff_block_offset messages i block_size mt"
proof -
  have "(case prefix_diff_block_offset messages i block_size mt of None \<Rightarrow> None
         | Some (_, intra, token_idx) \<Rightarrow>
             Some (align_block_for_op token_idx block_size ''positive'' boundary, intra, token_idx)) =
        prefix_diff_block_offset messages i block_size mt"
    using assms(1)
    by (auto simp: prefix_diff_block_offset_def Let_def coordinate_of_def align_block_for_op_def split: option.splits)
  then show ?thesis
    using assms(2)
    by (auto simp: edit_type_computer_def offload_offset_computer_def prefetch_offset_computer_def
        evict_offset_computer_def split: if_splits)
qed

lemma prefix_diff_Some:
  "prefix_diff_block_offset messages i block_size mt = Some c \<Longrightarrow>
   \<exists>tbl. mt = Some tbl \<and> 0 \<le> i \<and> i < int (length tbl) \<and> c = coordinate_of block_size (int (tbl ! nat i)) \<and>
         0 < tbl ! nat i"
  by (auto simp: prefix_diff_block_offset_def Let_def split: option.splits if_splits)

text \<open>
  The negative policy keeps only whole blocks: a block it admits lies inside the range it was asked
  for, from either end.
\<close>

lemma negative_start_inside:
  assumes "0 < block_size" and "0 \<le> t"
  shows "t \<le> align_block_for_op t block_size ''negative'' ''start'' * block_size"
proof -
  define b i where bi: "b = t div block_size" "i = t mod block_size"
  then have t: "t = b * block_size + i" and "i < block_size" and "0 \<le> b"
    using assms by (simp_all add: pos_imp_zdiv_nonneg_iff)
  moreover have "align_block_for_op t block_size ''negative'' ''start'' = (if i \<noteq> 0 then b + 1 else b)"
    using assms(1) \<open>0 \<le> b\<close> by (simp add: align_block_for_op_def bi)
  ultimately show ?thesis by (auto simp: distrib_right)
qed

lemma negative_end_inside:
  assumes "0 < block_size" and "block_size - 1 \<le> t"
  shows "align_block_for_op t block_size ''negative'' ''end'' * block_size + (block_size - 1) \<le> t"
proof -
  define b i where bi: "b = t div block_size" "i = t mod block_size"
  then have t: "t = b * block_size + i" and i: "0 \<le> i" "i < block_size" and b: "0 \<le> b"
    using assms by (simp_all add: pos_imp_zdiv_nonneg_iff)
  have al: "align_block_for_op t block_size ''negative'' ''end'' = max 0 (b - (if i \<noteq> block_size - 1 then 1 else 0))"
    using assms(1) by (simp add: align_block_for_op_def bi)
  show ?thesis
  proof (cases "i = block_size - 1")
    case True
    then show ?thesis using al b t by simp
  next
    case False
    have "b \<noteq> 0" using t False assms(2) i by auto
    then have "align_block_for_op t block_size ''negative'' ''end'' = b - 1" using al b False by simp
    then show ?thesis using t i by (simp add: left_diff_distrib)
  qed
qed

lemma clamp_range: "0 \<le> hi \<Longrightarrow> 0 \<le> dflt \<Longrightarrow> dflt \<le> hi \<Longrightarrow> 0 \<le> clamp dflt hi v \<and> clamp dflt hi v \<le> hi"
  by (auto simp: clamp_def split: option.splits)

lemma clamp_ordered: "range_ordered s e \<Longrightarrow> 0 \<le> hi' \<Longrightarrow> hi' \<le> hi \<Longrightarrow> clamp 0 hi' s \<le> clamp hi hi e"
  by (auto simp: clamp_def range_ordered_def split: option.splits)

lemma edit_on_tools:
  assumes "0 < block_size" and "edit_type \<noteq> ''negative''" and "ts \<noteq> []" and "length tbl = length ts + 1"
  shows "compute_edit_block_offset edit_type messages (Some ts) s e block_size ''tools'' mt (Some tbl) =
         (let i = clamp 0 (int (length ts)) s; j = clamp (int (length ts)) (int (length ts)) e
          in Some (Some (coordinate_of block_size (int (tbl ! nat i))),
                   if i = j then None else Some (coordinate_of block_size (int (tbl ! nat j)))))"
  using assms by (simp add: compute_edit_block_offset_def Let_def clamp_def align_positive)

lemma edit_on_messages:
  assumes "0 < block_size" and "tgt \<noteq> ''tools''" and "tgt \<noteq> ''session''" and "messages \<noteq> []"
    and "edit_type_computer edit_type = Some computer"
  shows "compute_edit_block_offset edit_type messages tools s e block_size tgt mt tt =
         (let i = clamp 0 (int (length messages) - 1) s; j = clamp (int (length messages)) (int (length messages)) e
          in Some (if i = 0 then Some (coordinate_of block_size 0)
                   else prefix_diff_block_offset messages (i - 1) block_size mt,
                   prefix_diff_block_offset messages (j - 1) block_size mt))"
  using assms
  by (simp add: compute_edit_block_offset_def Let_def clamp_def computers_eq coordinate_of_def)

text \<open>
  An answered edit is an empty answer or one of the two.
\<close>

lemma edit_cases:
  assumes "compute_edit_block_offset edit_type messages tools s e block_size tgt mt tt = Some (bo_s, bo_e)"
  shows "0 < block_size \<and>
         ((bo_s = None \<and> bo_e = None) \<or>
          (tgt = ''tools'' \<and> (\<exists>ts tbl. tools = Some ts \<and> tt = Some tbl \<and> ts \<noteq> [] \<and> length tbl = length ts + 1)) \<or>
          (tgt \<noteq> ''tools'' \<and> tgt \<noteq> ''session'' \<and> messages \<noteq> [] \<and> (\<exists>c. edit_type_computer edit_type = Some c)))"
proof -
  have "0 < block_size" using assms by (auto simp: compute_edit_block_offset_def split: if_splits)
  consider "tgt = ''session''" | "tgt = ''tools''" | "tgt \<noteq> ''session''" "tgt \<noteq> ''tools''" by blast
  then show ?thesis
  proof cases
    case 2
    then show ?thesis using assms \<open>0 < block_size\<close>
      by (cases tools; cases tt) (auto simp: compute_edit_block_offset_def split: if_splits)
  next
    case 3
    then show ?thesis using assms \<open>0 < block_size\<close>
      by (cases "edit_type_computer edit_type") (auto simp: compute_edit_block_offset_def split: if_splits)
  qed (use assms \<open>0 < block_size\<close> in \<open>simp add: compute_edit_block_offset_def\<close>)
qed

lemma coordinate_of_mono:
  "0 < block_size \<Longrightarrow> s \<le> t \<Longrightarrow> fst (coordinate_of block_size s) \<le> fst (coordinate_of block_size t)"
  by (simp add: coordinate_of_def zdiv_mono1)

lemma prefix_diff_ok:
  "0 < block_size \<Longrightarrow> prefix_diff_block_offset messages i block_size mt = Some c \<Longrightarrow> coordinate_ok block_size c"
  by (auto dest!: prefix_diff_Some intro: coordinate_of_ok)

lemma prefix_diff_no_table: "prefix_diff_block_offset messages i block_size None = None"
  by (auto simp: prefix_diff_block_offset_def)

lemma tools_edit_sound:
  assumes "0 < block_size" and "edit_type \<noteq> ''negative''" and "ts \<noteq> []" and "length tbl = length ts + 1"
    and "compute_edit_block_offset edit_type messages (Some ts) s e block_size ''tools'' mt (Some tbl) =
         Some (bo_s, bo_e)"
  shows "(\<forall>c. bo_s = Some c \<or> bo_e = Some c \<longrightarrow> coordinate_ok block_size c) \<and>
         (range_ordered s e \<and> sorted tbl \<longrightarrow> (\<forall>c c'. bo_s = Some c \<and> bo_e = Some c' \<longrightarrow> fst c \<le> fst c'))"
proof -
  let ?n = "int (length ts)"
  let ?i = "clamp 0 ?n s" and ?j = "clamp ?n ?n e"
  have eq: "bo_s = Some (coordinate_of block_size (int (tbl ! nat ?i)))"
    "bo_e = None \<or> bo_e = Some (coordinate_of block_size (int (tbl ! nat ?j)))"
    using assms(5) unfolding edit_on_tools [OF assms(1-4)] Let_def by (auto split: if_splits)
  have "tbl ! nat ?i \<le> tbl ! nat ?j" if "range_ordered s e" "sorted tbl"
    using that clamp_ordered [of s e ?n ?n] clamp_range [of ?n 0 s] clamp_range [of ?n ?n e] assms(4)
    by (intro sorted_nth_mono) auto
  then show ?thesis
    using eq(2) assms(1) unfolding eq(1)
    by (elim disjE) (simp_all add: coordinate_of_ok coordinate_of_mono all_conj_distrib
        imp_conjL imp_disjL del: split_paired_All)
qed

lemma messages_edit_sound:
  assumes "0 < block_size" and "tgt \<noteq> ''tools''" and "tgt \<noteq> ''session''" and "messages \<noteq> []"
    and "edit_type_computer edit_type = Some computer"
    and "compute_edit_block_offset edit_type messages tools s e block_size tgt mt tt = Some (bo_s, bo_e)"
  shows "(\<forall>c. bo_s = Some c \<or> bo_e = Some c \<longrightarrow> coordinate_ok block_size c) \<and>
         (range_ordered s e \<and> table_sorted mt \<longrightarrow> (\<forall>c c'. bo_s = Some c \<and> bo_e = Some c' \<longrightarrow> fst c \<le> fst c'))"
proof -
  let ?n = "int (length messages)"
  let ?i = "clamp 0 (?n - 1) s" and ?j = "clamp ?n ?n e"
  have n: "1 \<le> ?n" using assms(4) by (cases messages) auto
  have s: "bo_s = (if ?i = 0 then Some (coordinate_of block_size 0)
                   else prefix_diff_block_offset messages (?i - 1) block_size mt)"
    and e: "bo_e = prefix_diff_block_offset messages (?j - 1) block_size mt"
    using assms(6) unfolding edit_on_messages [OF assms(1-5)] Let_def by auto
  have ok: "coordinate_ok block_size c" if "bo_s = Some c \<or> bo_e = Some c" for c
    using that s e coordinate_of_ok [OF assms(1), of 0]
    by (auto split: if_splits dest: prefix_diff_ok [OF assms(1)] sym [of "Some c"])
  have "fst c \<le> fst c'" if R: "range_ordered s e" "table_sorted mt" and c: "bo_s = Some c" "bo_e = Some c'" for c c'
  proof -
    obtain tbl where tbl: "mt = Some tbl" "?j - 1 < int (length tbl)" "0 \<le> ?j - 1"
      "c' = coordinate_of block_size (int (tbl ! nat (?j - 1)))"
      using prefix_diff_Some c(2) e by metis
    show ?thesis
    proof (cases "?i = 0")
      case True
      then show ?thesis using c(1) s tbl(4) assms(1) by (auto simp: coordinate_of_mono)
    next
      case False
      then have "c = coordinate_of block_size (int (tbl ! nat (?i - 1)))" "0 \<le> ?i - 1"
        using prefix_diff_Some [of messages "?i - 1" block_size mt c] c(1) s tbl(1) by auto
      moreover have "?i \<le> ?j" using clamp_ordered [OF R(1), of "?n - 1" ?n] n by linarith
      then have "tbl ! nat (?i - 1) \<le> tbl ! nat (?j - 1)"
        using tbl R(2) \<open>0 \<le> ?i - 1\<close> by (intro sorted_nth_mono) (auto simp: table_sorted_def)
      ultimately show ?thesis using tbl(4) assms(1) by (simp add: coordinate_of_mono)
    qed
  qed
  then show ?thesis using ok by blast
qed

text \<open>
  C18: every block coordinate an edit is answered with is consistent (token offset = block index times
  block size plus an offset smaller than a block, none negative), for message and tool ranges, and
  when the tables do not decrease an ordered range never ends in a block before the one it starts in.
  The edit type \<open>negative\<close>, which is the name of an alignment policy and no edit, is excluded.
\<close>

theorem edit_coordinates_sound:
  assumes "compute_edit_block_offset edit_type messages tools start stop block_size tgt mt tt = Some (bo_start, bo_end)"
    and "edit_type \<noteq> ''negative''"
  shows "(\<forall>c. bo_start = Some c \<or> bo_end = Some c \<longrightarrow> coordinate_ok block_size c) \<and>
         (range_ordered start stop \<and> table_sorted mt \<and> table_sorted tt \<longrightarrow>
          (\<forall>c c'. bo_start = Some c \<and> bo_end = Some c' \<longrightarrow> fst c \<le> fst c'))"
proof -
  have pos: "0 < block_size" using edit_cases [OF assms(1)] by simp
  from edit_cases [OF assms(1)] consider
      "bo_start = None" "bo_end = None"
    | ts tbl where "tgt = ''tools''" "tools = Some ts" "tt = Some tbl" "ts \<noteq> []" "length tbl = length ts + 1"
    | c where "tgt \<noteq> ''tools''" "tgt \<noteq> ''session''" "messages \<noteq> []" "edit_type_computer edit_type = Some c"
    by blast
  then show ?thesis
  proof cases
    case 2
    then show ?thesis
      using tools_edit_sound [OF pos assms(2) 2(4,5), of messages start stop mt bo_start bo_end] assms(1)
      by (simp add: table_sorted_def)
  next
    case 3
    then show ?thesis using messages_edit_sound [OF pos 3 assms(1)] by blast
  qed simp
qed

lemma edit_coordinates_sound_witness:
  "compute_edit_block_offset ''evict'' [JNull, JNull, JNull] None (Some 1) None 16 ''messages'' (Some [20, 37, 50]) None =
     Some (Some (1, 4, 20), Some (3, 2, 50)) \<and> coordinate_ok 16 (1, 4, 20) \<and> coordinate_ok 16 (3, 2, 50)"
proof -
  have "compute_edit_block_offset ''evict'' [JNull, JNull, JNull] None (Some 1) None 16 ''messages'' (Some [20, 37, 50]) None =
     Some (Some (1, 4, 20), Some (3, 2, 50))"
    by code_simp
  then show ?thesis using edit_coordinates_sound by force
qed

text \<open>
  Without a messages table an edit from the first message is half answered: a start coordinate and no
  end, not the pair of absent coordinates the log message announces.
\<close>

lemma missing_table_half_answer:
  assumes "0 < block_size" and "messages \<noteq> []" and "edit_type \<in> {''offload'', ''prefetch'', ''evict''}"
  shows "compute_edit_block_offset edit_type messages tools None stop block_size ''messages'' None tt =
         Some (Some (0, 0, 0), None)"
proof -
  obtain c where "edit_type_computer edit_type = Some c" using assms(3) by (auto simp: edit_type_computer_def)
  then show ?thesis
    using edit_on_messages [of block_size "''messages''" messages edit_type c tools None stop None tt] assms(1,2)
    by (simp add: clamp_def prefix_diff_no_table coordinate_of_def)
qed

section \<open>What the request body shows\<close>

lemma shows_put_coordinate:
  "distinct [kb, ki, kt] \<Longrightarrow> shows_coordinate kb ki kt (put_coordinate kb ki kt c d) c"
  by (cases c) (auto simp: shows_coordinate_def put_coordinate_def)

lemma shows_put_other:
  "shows_coordinate kb ki kt d c \<Longrightarrow> {kb, ki, kt} \<inter> {kb', ki', kt'} = {} \<Longrightarrow>
   shows_coordinate kb ki kt (put_coordinate kb' ki' kt' c' d) c"
  by (cases c; cases c') (auto simp: shows_coordinate_def put_coordinate_def)

lemma attach_edit_mirrored:
  assumes "fresh_edit e" and "attach_edit ms ts bs mt tt e item = (True, e', item')"
  shows "mirrored e' item'"
proof (cases "ce_target e = ''session''")
  case True
  then have "e' = e\<lparr>ce_start := Some 0, ce_end := Some (int (length ms))\<rparr>"
    using assms(2) by (simp add: attach_edit_def Let_def)
  then show ?thesis using assms(1) by (auto simp: mirrored_def fresh_edit_def split: json.splits)
next
  case False
  then obtain bo_s bo_e where
    c: "compute_edit_block_offset (ce_type e) ms ts (ce_start e) (ce_end e) bs (ce_target e) mt tt = Some (bo_s, bo_e)"
    using assms(2) by (auto simp: attach_edit_def split: option.splits)
  show ?thesis
    using assms False c
    by (cases bo_s; cases bo_e; cases item)
       (auto simp: attach_edit_def mirrored_def fresh_edit_def Let_def shows_put_coordinate shows_put_other)
qed

lemma compute_edit_answers:
  "0 < block_size \<Longrightarrow>
   compute_edit_block_offset edit_type messages tools s e block_size tgt mt tt \<noteq> None"
  unfolding compute_edit_block_offset_def Let_def by (simp split: option.split)

lemma attach_edit_ok:
  assumes "0 < bs" and "is_object item"
  shows "\<exists>e' d'. attach_edit ms ts bs mt tt e item = (True, e', JObj d')"
proof -
  obtain d where d: "item = JObj d" using assms(2) by (auto simp: is_object_def split: json.splits)
  obtain bo_s bo_e where
    "compute_edit_block_offset (ce_type e) ms ts (ce_start e) (ce_end e) bs (ce_target e) mt tt = Some (bo_s, bo_e)"
    using compute_edit_answers [OF assms(1)] by fast
  then show ?thesis
    unfolding d by (cases bo_s; cases bo_e) (auto simp: attach_edit_def Let_def)
qed

lemma attach_edits_mirrored:
  assumes "0 < bs"
  shows "length es = length items \<Longrightarrow> list_all fresh_edit es \<Longrightarrow> list_all is_object items \<Longrightarrow>
   \<exists>es' items'. attach_edits (attach_edit ms ts bs mt tt) es items = (True, es', items') \<and>
                list_all2 mirrored es' items' \<and> length items' = length items"
proof (induction es items rule: list_induct2')
  case (4 e es item items)
  obtain e' d' where s: "attach_edit ms ts bs mt tt e item = (True, e', JObj d')"
    using attach_edit_ok [OF assms] 4(4) by fastforce
  moreover have "mirrored e' (JObj d')" using attach_edit_mirrored [OF _ s] 4(3) by simp
  ultimately show ?case using 4 by auto
qed simp_all

lemma section_default_nonempty [simp]: "section_default k d \<noteq> []"
  by (auto simp: section_default_def)

lemma obj_get_section_default [simp]: "k \<noteq> k' \<Longrightarrow> obj_get (section_default k d) k' = obj_get d k'"
  by (simp add: section_default_def)

lemma section_default_idem [simp]: "section_default k (section_default k d) = section_default k d"
  by (simp add: section_default_def)

lemma obj_get_section_default_other [simp]:
  "k \<noteq> k' \<Longrightarrow> obj_get (section_default k' (section_default k d)) k' = obj_get (section_default k' d) k'"
  by (auto simp: section_default_def)

lemma obj_get_section_default_set [simp]:
  "k \<noteq> k' \<Longrightarrow> obj_get (section_default k' (dict_set k v d)) k' = obj_get (section_default k' d) k'"
  "obj_get (section_default k (dict_set k v d)) k = v"
  by (simp_all add: section_default_def)

lemma hint_in_body_set [simp]: "hint_in_body (dict_set ''agent_hint'' (JObj (dict_set k v ah)) data) = JObj (dict_set k v ah)"
  by (simp add: hint_in_body_def)

lemma hint_in_body_write_through:
  "hint_in_body (write_through data (section_default k ah)) =
   (if truthy (obj_get data ''agent_hint'') then JObj (section_default k ah) else JObj [])"
  by (auto simp: hint_in_body_def write_through_def)

lemma open_section_Inr:
  assumes "hint_in_body data = JObj ah0" and "is_section k ah0"
  shows "\<exists>sec. open_section k data = Inr (section_default k ah0, sec) \<and> obj_get (section_default k ah0) k = JObj sec"
  using assms by (auto simp: open_section_def is_section_def is_object_def Let_def split: json.splits)

lemma body_readyD:
  assumes "body_ready n data"
  shows "\<exists>ah cm. hint_in_body data = JObj ah \<and> is_section ''cache_control'' ah \<and>
           obj_get (section_default ''context_management'' ah) ''context_management'' = JObj cm \<and>
           (\<forall>items. edits_in_body cm n = Some items \<longrightarrow> list_all is_object items)"
  using assms by (auto simp: body_ready_def split: json.splits option.splits)

lemma body_ready_write_through:
  assumes "body_ready n data" and "hint_in_body data = JObj ah"
  shows "body_ready n (write_through data (section_default ''context_management'' ah))"
proof (cases "truthy (obj_get data ''agent_hint'')")
  case True
  then show ?thesis
    using assms by (simp add: body_ready_def hint_in_body_write_through is_section_def)
next
  case False
  then show ?thesis using assms(1) by (simp add: write_through_def)
qed

lemma attach_cache_point_ready:
  assumes "body_ready n data"
  shows "\<exists>cc' data'. attach_cache_point ms bs mt cc data = (True, cc', data') \<and> body_ready n data'"
proof (cases "compute_block_offset ms (cp_msg_offset cc) bs mt")
  case None
  then show ?thesis using assms by (simp add: attach_cache_point_def)
next
  case (Some bo)
  obtain ah where ah: "hint_in_body data = JObj ah" "is_section ''cache_control'' ah"
    using body_readyD [OF assms] by blast
  obtain sec where "open_section ''cache_control'' data = Inr (section_default ''cache_control'' ah, sec)"
    using open_section_Inr [OF ah] by blast
  then show ?thesis
    using assms ah Some by (simp add: attach_cache_point_def Let_def body_ready_def is_section_def is_object_def)
qed

lemma attach_management_mirrored:
  assumes "0 < bs" and "body_ready (length edits) data" and "list_all fresh_edit edits"
  shows "\<exists>edits' items. fst (attach_management (attach_edit ms ts bs mt tt) edits data) = edits' \<and>
           body_edits (snd (attach_management (attach_edit ms ts bs mt tt) edits data)) = JList items \<and>
           list_all2 mirrored edits' items"
proof -
  obtain ah cm where ah: "hint_in_body data = JObj ah"
      "obj_get (section_default ''context_management'' ah) ''context_management'' = JObj cm"
      "\<forall>items. edits_in_body cm (length edits) = Some items \<longrightarrow> list_all is_object items"
    using body_readyD [OF assms(2)] by blast
  then have op: "open_section ''context_management'' data = Inr (section_default ''context_management'' ah, cm)"
    by (simp add: open_section_def)
  let ?items = "case edits_in_body cm (length edits) of Some items \<Rightarrow> items | None \<Rightarrow> map edit_entry edits"
  have "list_all is_object ?items" "length edits = length ?items"
    using ah(3) by (auto simp: edits_in_body_def edit_entry_def is_object_def list_all_length
        split: option.splits json.splits if_splits)
  then obtain es' items' where
    r: "attach_edits (attach_edit ms ts bs mt tt) edits ?items = (True, es', items')" "list_all2 mirrored es' items'"
    using attach_edits_mirrored [OF assms(1) _ assms(3), of ?items ms ts mt tt] by blast
  then have "attach_management (attach_edit ms ts bs mt tt) edits data =
     (es', dict_set ''agent_hint'' (JObj (dict_set ''context_management''
        (JObj (dict_set ''edits'' (JList items') cm)) (section_default ''context_management'' ah))) data)"
    by (simp add: attach_management_def op Let_def)
  then show ?thesis using r(2) by (simp add: body_edits_def)
qed

text \<open>
  For a management request whose body is a well-formed hint, and as long as the tables can be
  built, the edits listed in the forwarded body carry exactly the block coordinates computed for the
  parsed edits, entry by entry, whether the body listed the edits itself or the list is rebuilt.
\<close>

theorem attached_edits_mirrored:
  assumes "or_hint r = Some h" and "oh_session_id h \<noteq> []" and "oh_management h = Some (True, edits)"
    and "edits \<noteq> []" and "list_all fresh_edit edits" and "0 < block_size"
    and "body_ready (length edits) (or_data r)"
    and "offset_tables py_str loads t messages tools = Inr tables"
  shows "\<exists>h' edits' items.
           or_hint (attach_block_offsets py_str loads block_size t messages tools r) = Some h' \<and>
           oh_management h' = Some (True, edits') \<and>
           body_edits (or_data (attach_block_offsets py_str loads block_size t messages tools r)) = JList items \<and>
           list_all2 mirrored edits' items"
proof -
  obtain ah cm where ah: "hint_in_body (or_data r) = JObj ah"
      "obj_get (section_default ''context_management'' ah) ''context_management'' = JObj cm"
    using body_readyD [OF assms(7)] by blast
  define data0 where "data0 = write_through (or_data r) (section_default ''context_management'' ah)"
  have op: "open_section ''context_management'' (or_data r) = Inr (section_default ''context_management'' ah, cm)"
    using ah by (simp add: open_section_def)
  have ready0: "body_ready (length edits) data0"
    unfolding data0_def by (rule body_ready_write_through [OF assms(7) ah(1)])
  define tabs where "tabs = (if list_ex (\<lambda>e. ce_target e = ''session'') edits \<and> oh_cache_control h = None
    then Inr (messages, tools, None, None) else offset_tables py_str loads t messages tools)"
  have "\<exists>q. tabs = Inr q" using assms(8) unfolding tabs_def by (simp del: split_paired_Ex)
  then obtain ms ts mt tt where tabs: "tabs = Inr (ms, ts, mt, tt)" by (metis surj_pair)
  define cc where "cc = (case oh_cache_control h of None \<Rightarrow> (True, None, data0)
    | Some c \<Rightarrow> (case attach_cache_point ms block_size mt c data0 of (ok, c', d) \<Rightarrow> (ok, Some c', d)))"
  have "\<exists>cc' data1. cc = (True, cc', data1) \<and> body_ready (length edits) data1"
  proof (cases "oh_cache_control h")
    case None
    then show ?thesis using ready0 by (simp add: cc_def)
  next
    case (Some c)
    obtain c' d where "attach_cache_point ms block_size mt c data0 = (True, c', d)" "body_ready (length edits) d"
      using attach_cache_point_ready [OF ready0, of ms block_size mt c] by blast
    then show ?thesis using Some by (simp add: cc_def)
  qed
  then obtain cc' data1 where cc: "cc = (True, cc', data1)" and ready1: "body_ready (length edits) data1" by blast
  obtain edits' data2 where m: "attach_management (attach_edit ms ts block_size mt tt) edits data1 = (edits', data2)"
    by (rule prod.exhaust)
  have "attach_block_offsets py_str loads block_size t messages tools r =
        r\<lparr>or_hint := Some (h\<lparr>oh_cache_control := cc', oh_management := Some (True, edits')\<rparr>), or_data := data2\<rparr>"
    using assms(2,4) tabs cc m
    by (simp add: attach_block_offsets_def assms(1,3) op data0_def [symmetric] tabs_def [symmetric] cc_def [symmetric] Let_def)
  then show ?thesis
    using attach_management_mirrored [OF assms(6) ready1 assms(5), of ms ts mt tt] m by auto
qed

lemma attached_edits_mirrored_witness:
  "\<exists>h' edits' items.
     or_hint (attach_block_offsets (\<lambda>v. []) (\<lambda>s. Inl ValueError) 2 (Some sample_tokenizer) [JNull, JNull] None
                sample_request) = Some h' \<and>
     oh_management h' = Some (True, edits') \<and>
     body_edits (or_data (attach_block_offsets (\<lambda>v. []) (\<lambda>s. Inl ValueError) 2 (Some sample_tokenizer)
                  [JNull, JNull] None sample_request)) = JList items \<and>
     list_all2 mirrored edits' items"
proof (rule attached_edits_mirrored)
  show "or_hint sample_request =
     Some \<lparr>oh_session_id = ''s'', oh_management = Some (True, [sample_edit]), oh_cache_control = None\<rparr>"
    by (simp add: sample_request_def)
  show "list_all fresh_edit [sample_edit]" by code_simp
  show "body_ready (length [sample_edit]) (or_data sample_request)" by code_simp
  show "offset_tables (\<lambda>v. []) (\<lambda>s. Inl ValueError) (Some sample_tokenizer) [JNull, JNull] None =
        Inr ([JNull, JNull], None, Some [2, 4], None)"
    by code_simp
qed simp_all

text \<open>
  With a block size that is not positive the answer to an edit is no pair; unpacking it raises, and
  the edits behind it are left alone, the session edits among them.
\<close>

lemma invalid_block_size_stops:
  assumes "block_size \<le> 0" and "ce_target e \<noteq> ''session''"
  shows "attach_edits (attach_edit ms ts block_size mt tt) (e # es) (item # items) = (False, e # es, item # items)"
  using assms by (simp add: attach_edit_def compute_edit_block_offset_def)

section \<open>Normalised messages and tools\<close>

lemma exchange_arguments_content:
  "exchange_arguments loads d = Inr d' \<Longrightarrow> dict_get d' ''content'' = dict_get d ''content''"
  by (auto simp: exchange_arguments_def split: option.splits json.splits if_splits sum.splits)

text \<open>
  A message with content that is no tool result ends up with a string as its content.
\<close>

lemma normalised_content:
  assumes "preprocess_message py_str loads (JObj d) = Inr (JObj d')"
    and "dict_get d ''content'' \<noteq> None" and "dict_get d ''role'' \<noteq> Some (JStr ''tool'')"
  shows "\<exists>s. dict_get d' ''content'' = Some (JStr s)"
proof -
  obtain d1 where d1: "flatten_message_content_to_string py_str d = Inr d1" "exchange_arguments loads d1 = Inr d'"
    using assms(1) by (auto simp: preprocess_message_def split: sum.splits)
  have "obj_get d ''role'' \<noteq> JStr ''tool''"
    using assms(3) by (auto simp: obj_get_def split: option.splits)
  then have "\<exists>s. dict_get d1 ''content'' = Some (JStr s)"
    using d1(1) assms(2) by (auto simp: flatten_message_content_to_string_def split: option.splits sum.splits)
  then show ?thesis using exchange_arguments_content [OF d1(2)] by simp
qed

text \<open>
  A tool result with a part that is no text keeps its list of parts.
\<close>

lemma tool_parts_kept:
  assumes "dict_get d ''role'' = Some (JStr ''tool'')" and "dict_get d ''content'' = Some (JList parts)"
    and "JObj p \<in> set parts" and "obj_get p ''type'' \<noteq> JStr ''text''" and "dict_get d ''tool_calls'' = None"
  shows "preprocess_message py_str loads (JObj d) = Inr (JObj d)"
proof -
  have "list_ex (\<lambda>item. is_object item \<and> \<not> is_text_part item) parts"
    using assms(3,4) unfolding list_ex_iff by (intro bexI [OF _ assms(3)]) (simp add: is_object_def is_text_part_def)
  then show ?thesis
    using assms(1,2,5)
    by (simp add: preprocess_message_def flatten_message_content_to_string_def exchange_tool_content_def
        exchange_arguments_def obj_get_def)
qed

lemma ensure_fields_keys: "fst ` set (foldl ensure_field f fs) = fst ` set f \<union> set fs"
  by (induction fs arbitrary: f) (auto simp: ensure_field_def in_dict_iff dest: dict_get_in intro: rev_image_eqI)

text \<open>
  The fields of a normalised tool: the three named ones are present and come first, nothing is lost.
\<close>

lemma normalised_tool:
  assumes "exchange_tools d = Inr d'" and "dict_get d ''function'' = Some (JObj f)"
  shows "\<exists>g. dict_get d' ''function'' = Some (JObj g) \<and> sorted (map (\<lambda>kv. field_priority (fst kv)) g) \<and>
             fst ` set g = fst ` set f \<union> set priority_fields"
  using assms by (auto simp: exchange_tools_def ensure_fields_keys)

end
