(* ===== verification/Token_Replay.thy ===== *)
theory Token_Replay
  imports Prelude
begin

text \<open>
  Resuming a generation on another instance: \<^verbatim>\<open>motor/coordinator/router/rescheduler/rescheduler.py\<close>, the
  stream and shape adapters it uses (\<^verbatim>\<open>router/adapters/stream.py\<close>, \<^verbatim>\<open>completion_to_chat.py\<close>), the token
  cache of \<^verbatim>\<open>models/request.py\<close>, the retry decisions of \<^verbatim>\<open>router/strategies/pd_hybrid.py\<close>,
  \<^verbatim>\<open>unified_pd.py\<close>, \<^verbatim>\<open>base.py\<close> and \<^verbatim>\<open>router/upstream_error.py\<close>, and the attempt states of
  \<^verbatim>\<open>router/dispatch_session.py\<close>.

  A stream chunk is the list of its code points (chunks are valid UTF-8). \<open>json.loads\<close> and the JSON
  encoder are arguments, as is \<open>float\<close>. Operations that may raise return the state reached and
  \<open>Inl\<close> of the exception.
\<close>

section \<open>Lines and JSON values\<close>

text \<open>
  \<open>str.splitlines(keepends=True)\<close>: beside carriage return and line feed, Python breaks lines at
  vertical tab, form feed, the separators 28 to 30, next line and the Unicode line and paragraph
  separators.
\<close>

definition is_line_break :: "nat \<Rightarrow> bool" where
  "is_line_break c \<longleftrightarrow> c \<in> {10, 11, 12, 13, 28, 29, 30, 0x85, 0x2028, 0x2029}"

fun splitlines_from :: "ptext \<Rightarrow> ptext \<Rightarrow> ptext list" where
  "splitlines_from line [] = (if line = [] then [] else [rev line])"
| "splitlines_from line [c] = [rev (c # line)]"
| "splitlines_from line (c # d # cs) =
     (if c = 13 \<and> d = 10 then rev (d # c # line) # splitlines_from [] cs
      else if is_line_break c then rev (c # line) # splitlines_from [] (d # cs)
      else splitlines_from (c # line) (d # cs))"

definition splitlines_keep :: "ptext \<Rightarrow> ptext list" where
  "splitlines_keep s = splitlines_from [] s"

text \<open>
  The same without the line ends: every line loses its one break (two characters for CR LF).
\<close>

definition drop_break :: "ptext \<Rightarrow> ptext" where
  "drop_break line =
     (case rev line of
        [] \<Rightarrow> []
      | c # rest \<Rightarrow>
          if c = 10 \<and> rest \<noteq> [] \<and> hd rest = 13 then rev (tl rest)
          else if is_line_break c then rev rest else line)"

definition py_splitlines :: "ptext \<Rightarrow> ptext list" where
  "py_splitlines s = map drop_break (splitlines_keep s)"

definition is_py_space :: "nat \<Rightarrow> bool" where
  "is_py_space c \<longleftrightarrow> (9 \<le> c \<and> c \<le> 13) \<or> (28 \<le> c \<and> c \<le> 32) \<or> (0x2000 \<le> c \<and> c \<le> 0x200A) \<or>
     c \<in> {0x85, 0xA0, 0x1680, 0x2028, 0x2029, 0x202F, 0x205F, 0x3000}"

definition strip_text :: "ptext \<Rightarrow> ptext" where
  "strip_text s = rev (dropWhile is_py_space (rev (dropWhile is_py_space s)))"

definition begins_with :: "ptext \<Rightarrow> string \<Rightarrow> bool" where
  "begins_with s p \<longleftrightarrow> take (length p) s = codes p"

definition ends :: "ptext \<Rightarrow> nat list \<Rightarrow> bool" where
  "ends s p \<longleftrightarrow> length p \<le> length s \<and> drop (length s - length p) s = p"

text \<open>
  Iterating over a decoded value (\<open>for x in v or []\<close>) and its first element (\<open>v[0]\<close>).
\<close>

definition json_items :: "json \<Rightarrow> py_error + json list" where
  "json_items v =
     (if \<not> truthy v then Inr []
      else case v of
             JList xs \<Rightarrow> Inr xs
           | JObj d \<Rightarrow> Inr (map (\<lambda>kv. JStr (fst kv)) d)
           | JStr s \<Rightarrow> Inr (map (\<lambda>c. JStr [c]) s)
           | _ \<Rightarrow> Inl TypeError)"

definition json_first :: "json \<Rightarrow> py_error + json" where
  "json_first v =
     (case v of
        JList (x # _) \<Rightarrow> Inr x
      | JStr (c # _) \<Rightarrow> Inr (JStr [c])
      | JObj _ \<Rightarrow> Inl KeyError
      | _ \<Rightarrow> Inl TypeError)"

text \<open>
  \<open>int(v)\<close> of a decoded value; \<open>None\<close> when it raises \<open>TypeError\<close> or \<open>ValueError\<close>.
\<close>

definition json_int :: "json \<Rightarrow> int option" where
  "json_int v =
     (case v of
        JInt n \<Rightarrow> Some n
      | JBool b \<Rightarrow> Some (if b then 1 else 0)
      | JFloat q \<Rightarrow> Some (py_int q)
      | JStr s \<Rightarrow> py_parse_int s
      | _ \<Rightarrow> None)"

section \<open>Stream chunks\<close>

text \<open>
  A field name counts when only white space stands between it and a colon.
\<close>

definition key_follows :: "ptext \<Rightarrow> nat \<Rightarrow> bool" where
  "key_follows chunk cursor =
     (case dropWhile (\<lambda>c. c \<in> {32, 9, 13, 10}) (drop cursor chunk) of [] \<Rightarrow> False | c # _ \<Rightarrow> c = 58)"

function json_field_from :: "ptext \<Rightarrow> ptext \<Rightarrow> nat \<Rightarrow> bool" where
  "json_field_from chunk field offset =
     (case py_find chunk field offset of
        None \<Rightarrow> False
      | Some index \<Rightarrow>
          if key_follows chunk (index + length field) then True
          else json_field_from chunk field (index + 1))"
  by pat_completeness auto
termination
proof (relation "measure (\<lambda>(chunk, field, offset). length chunk + 1 - offset)", goal_cases)
  case (2 chunk field offset index)
  then have "offset \<le> index" and "index \<le> length chunk"
    unfolding py_find_def find_Some_iff by auto
  then show ?case by simp
qed simp

declare json_field_from.simps [simp del]

definition contains_json_field :: "ptext \<Rightarrow> ptext \<Rightarrow> bool" where
  "contains_json_field chunk field = json_field_from chunk field 0"

definition stream_chunk_needs_sampling_parse :: "ptext \<Rightarrow> bool" where
  \<open>stream_chunk_needs_sampling_parse chunk \<longleftrightarrow>
     contains_json_field chunk (codes ''"token_ids"'') \<or> contains_json_field chunk (codes ''"prompt_token_ids"'') \<or>
     contains_json_field chunk (codes ''"logprobs"'')\<close>

definition chunk_data :: "ptext \<Rightarrow> ptext" where
  "chunk_data chunk =
     (let s = strip_text chunk
      in case List.find (\<lambda>line. begins_with line ''data:'') (py_splitlines s) of
           Some line \<Rightarrow> dropWhile (\<lambda>c. c = 32) (drop 5 line)
         | None \<Rightarrow> s)"

definition parse_stream_chunk_json :: "(ptext \<Rightarrow> json option) \<Rightarrow> ptext \<Rightarrow> json option" where
  "parse_stream_chunk_json loads chunk = (if strip_text chunk = [] then None
      else case loads (chunk_data chunk) of Some JNull \<Rightarrow> None | r \<Rightarrow> r)"

definition strip_choice :: "bool \<Rightarrow> json \<Rightarrow> json" where
  "strip_choice keep_ids ch =
     (case ch of
        JObj d \<Rightarrow>
          (let d1 = (if keep_ids then d else dict_pop ''prompt_token_ids'' (dict_pop ''token_ids'' d))
           in JObj (if obj_get d1 ''stop_reason'' = JStr ''recomputed'' then dict_set ''stop_reason'' (JStr ''stop'') d1 else d1))
      | v \<Rightarrow> v)"

definition strip_openai_token_id_fields_for_client ::
  "bool \<Rightarrow> (string \<times> json) list \<Rightarrow> py_error + (string \<times> json) list" where
  "strip_openai_token_id_fields_for_client keep_ids obj =
     (let o1 = (if keep_ids then obj else dict_pop ''prompt_token_ids'' obj)
      in case json_items (obj_get o1 ''choices'') of
           Inl e \<Rightarrow> Inl e
         | Inr xs \<Rightarrow>
             (case obj_get o1 ''choices'' of
                JList (_ # _) \<Rightarrow> Inr (dict_set ''choices'' (JList (map (strip_choice keep_ids) xs)) o1)
              | _ \<Rightarrow> Inr o1))"

text \<open>
  Re-encoding keeps the other lines of the frame and its line ends; a chunk without a data line is
  replaced up to its line end.
\<close>

definition rstrip_crlf :: "ptext \<Rightarrow> ptext" where
  "rstrip_crlf line = rev (dropWhile (\<lambda>c. c = 13 \<or> c = 10) (rev line))"

definition encode_line :: "ptext \<Rightarrow> ptext \<Rightarrow> ptext" where
  "encode_line payload line =
     (let body = rstrip_crlf line
      in if begins_with body ''data:'' then codes ''data: '' @ payload @ drop (length body) line else line)"

definition chunk_suffix :: "ptext \<Rightarrow> ptext" where
  "chunk_suffix chunk =
     (if ends chunk [13, 10, 13, 10] then [13, 10, 13, 10]
      else if ends chunk [10, 10] then [10, 10]
      else if ends chunk [13, 10] then [13, 10]
      else if ends chunk [10] then [10] else [])"

definition encode_stream_chunk_bytes :: "ptext \<Rightarrow> ptext \<Rightarrow> ptext" where
  "encode_stream_chunk_bytes chunk payload =
     (if list_ex (\<lambda>line. begins_with line ''data:'') (py_splitlines (strip_text chunk))
      then concat (map (encode_line payload) (splitlines_keep chunk))
      else (if begins_with (strip_text chunk) ''data: '' then codes ''data: '' @ payload else payload) @ chunk_suffix chunk)"

definition has_done :: "ptext \<Rightarrow> bool" where
  "has_done chunk \<longleftrightarrow> py_find (strip_text chunk) (codes ''[DONE]'') 0 \<noteq> None"

definition strip_stream_chunk_bytes_for_client ::
  "(ptext \<Rightarrow> json option) \<Rightarrow> (json \<Rightarrow> ptext) \<Rightarrow> bool \<Rightarrow> ptext \<Rightarrow> py_error + ptext" where
  "strip_stream_chunk_bytes_for_client loads dumps keep_ids chunk =
     (case parse_stream_chunk_json loads chunk of
        None \<Rightarrow> Inr (if has_done chunk then chunk else [])
      | Some (JObj obj) \<Rightarrow>
          (case strip_openai_token_id_fields_for_client keep_ids obj of
             Inl e \<Rightarrow> Inl e
           | Inr obj' \<Rightarrow> Inr (encode_stream_chunk_bytes chunk (dumps (JObj obj'))))
      | Some v \<Rightarrow> Inl (if keep_ids then AttributeError else case v of JList _ \<Rightarrow> TypeError | _ \<Rightarrow> AttributeError))"

section \<open>Completion chunks for chat clients\<close>

definition lift_prompt_token_ids :: "(string \<times> json) list \<Rightarrow> (string \<times> json) list \<Rightarrow> (string \<times> json) list" where
  "lift_prompt_token_ids choice response =
     (if obj_get choice ''prompt_token_ids'' \<noteq> JNull \<and> obj_get response ''prompt_token_ids'' = JNull
      then dict_set ''prompt_token_ids'' (obj_get choice ''prompt_token_ids'') response
      else response)"

definition py_replace :: "string \<Rightarrow> string \<Rightarrow> string" where
  "py_replace old s = py_join [] (py_split old s)"

definition chat_completion_id :: "string \<Rightarrow> string" where
  "chat_completion_id req_id = ''chatcmpl-'' @ py_replace ''chatcmpl-'' (py_replace ''cmpl-'' req_id)"

definition is_completion_like_body :: "(string \<times> json) list \<Rightarrow> py_error + bool" where
  "is_completion_like_body body =
     (if obj_get body ''object'' = JStr ''text_completion'' then Inr True
      else if \<not> truthy (obj_get body ''choices'') then Inr False
      else (case json_first (obj_get body ''choices'') of
              Inl e \<Rightarrow> Inl e
            | Inr (JObj c0) \<Rightarrow> Inr (in_dict ''text'' c0)
            | Inr _ \<Rightarrow> Inr False))"

definition is_completion_like_stream_chunk :: "(string \<times> json) list \<Rightarrow> py_error + bool" where
  "is_completion_like_stream_chunk chunk =
     (if obj_get chunk ''object'' = JStr ''text_completion'' then Inr True
      else if \<not> truthy (obj_get chunk ''choices'') then Inr False
      else (case json_first (obj_get chunk ''choices'') of
              Inl e \<Rightarrow> Inl e
            | Inr (JObj c0) \<Rightarrow> Inr (\<not> truthy (obj_get c0 ''delta'') \<and> in_dict ''text'' c0)
            | Inr _ \<Rightarrow> Inl AttributeError))"

text \<open>
  Log-probabilities: \<open>py_float\<close> is \<open>float\<close>, which may raise.
\<close>

fun top_entries :: "(json \<Rightarrow> py_error + pyfloat) \<Rightarrow> (string \<times> json) list \<Rightarrow> py_error + json list" where
  "top_entries py_float [] = Inr []"
| "top_entries py_float ((k, v) # rest) =
     (if v = JNull then top_entries py_float rest
      else case py_float v of
             Inl e \<Rightarrow> Inl e
           | Inr q \<Rightarrow>
               (case top_entries py_float rest of
                  Inl e \<Rightarrow> Inl e
                | Inr es \<Rightarrow> Inr (JObj [(''token'', JStr k), (''logprob'', JFloat q)] # es)))"

definition top_at :: "json \<Rightarrow> nat \<Rightarrow> py_error + json" where
  "top_at tops i =
     (case tops of
        JList xs \<Rightarrow> Inr (if i < length xs then xs ! i else JNull)
      | JStr s \<Rightarrow> Inr JNull
      | JObj d \<Rightarrow> if i < length d then Inl KeyError else Inr JNull
      | _ \<Rightarrow> Inl TypeError)"

fun content_entries :: "(json \<Rightarrow> py_error + pyfloat) \<Rightarrow> json \<Rightarrow> nat \<Rightarrow> json list \<Rightarrow> py_error + json list" where
  "content_entries py_float tops i [] = Inr []"
| "content_entries py_float tops i (lp # lps) =
     (if lp = JNull then content_entries py_float tops (i + 1) lps
      else case py_float lp of
             Inl e \<Rightarrow> Inl e
           | Inr q \<Rightarrow>
               (case top_at tops i of
                  Inl e \<Rightarrow> Inl e
                | Inr t \<Rightarrow>
                    (case (case t of JObj d \<Rightarrow> top_entries py_float d | _ \<Rightarrow> Inr []) of
                       Inl e \<Rightarrow> Inl e
                     | Inr sub \<Rightarrow>
                         (case content_entries py_float tops (i + 1) lps of
                            Inl e \<Rightarrow> Inl e
                          | Inr es \<Rightarrow>
                              Inr (JObj ((''logprob'', JFloat q) #
                                         (if sub = [] then [] else [(''top_logprobs'', JList sub)])) # es)))))"

definition map_completion_logprobs :: "(json \<Rightarrow> py_error + pyfloat) \<Rightarrow> (string \<times> json) list \<Rightarrow> py_error + (string \<times> json) list" where
  "map_completion_logprobs py_float c0 =
     (case obj_get c0 ''logprobs'' of
        JObj lp \<Rightarrow>
          if \<not> truthy (obj_get lp ''token_logprobs'') then Inr c0
          else (case json_items (obj_get lp ''token_logprobs'') of
                  Inl e \<Rightarrow> Inl e
                | Inr lps \<Rightarrow>
                    (case content_entries py_float
                            (if truthy (obj_get lp ''top_logprobs'') then obj_get lp ''top_logprobs'' else JList []) 0 lps of
                       Inl e \<Rightarrow> Inl e
                     | Inr content \<Rightarrow>
                         Inr (if content = [] then dict_pop ''logprobs'' c0
                              else dict_set ''logprobs'' (JObj [(''content'', JList content)]) c0)))
      | _ \<Rightarrow> Inr c0)"

definition put_unless_null :: "string \<Rightarrow> json \<Rightarrow> (string \<times> json) list \<Rightarrow> (string \<times> json) list" where
  "put_unless_null k v d = (if v = JNull then d else d @ [(k, v)])"

definition or_empty :: "json \<Rightarrow> json" where
  "or_empty v = (if truthy v then v else JStr [])"

definition adapted_choice :: "bool \<Rightarrow> (string \<times> json) list \<Rightarrow> (string \<times> json) list \<Rightarrow> (string \<times> json) list" where
  "adapted_choice role_sent c0 mapped =
     put_unless_null ''logprobs'' (obj_get mapped ''logprobs'')
       (put_unless_null ''stop_reason'' (obj_get c0 ''stop_reason'')
         (put_unless_null ''finish_reason'' (obj_get c0 ''finish_reason'')
           [(''index'', case dict_get c0 ''index'' of Some i \<Rightarrow> i | None \<Rightarrow> JInt 0),
            (''delta'', JObj ((if role_sent then [] else [(''role'', JStr ''assistant'')]) @
                              (if truthy (obj_get c0 ''text'') then [(''content'', obj_get c0 ''text'')] else [])))]))"

text \<open>
  The stream adapter, with the flag that the role was sent; the first choice is replaced in place.
\<close>

definition adapt_completion_stream_chunk_to_chat ::
  "(json \<Rightarrow> py_error + pyfloat) \<Rightarrow> string \<Rightarrow> bool \<Rightarrow> (string \<times> json) list \<Rightarrow> py_error + bool \<times> (string \<times> json) list" where
  "adapt_completion_stream_chunk_to_chat py_float req_id role_sent chunk =
     (let c1 = dict_set ''id'' (JStr (chat_completion_id req_id)) (dict_set ''object'' (JStr ''chat.completion.chunk'') chunk)
      in if \<not> truthy (obj_get c1 ''choices'') then Inr (role_sent, c1)
         else case obj_get c1 ''choices'' of
                JList (JObj c0 # rest) \<Rightarrow>
                  (case map_completion_logprobs py_float c0 of
                     Inl e \<Rightarrow> Inl e
                   | Inr mapped \<Rightarrow>
                       Inr (True, dict_set ''choices'' (JList (JObj (adapted_choice role_sent c0 mapped) # rest))
                                    (lift_prompt_token_ids c0 c1)))
              | JObj _ \<Rightarrow> Inl KeyError
              | JList _ \<Rightarrow> Inl AttributeError
              | JStr _ \<Rightarrow> Inl AttributeError
              | _ \<Rightarrow> Inl TypeError)"

definition adapted_body_choice :: "(string \<times> json) list \<Rightarrow> (string \<times> json) list \<Rightarrow> (string \<times> json) list" where
  "adapted_body_choice c0 mapped =
     put_unless_null ''logprobs'' (obj_get mapped ''logprobs'')
       (put_unless_null ''token_ids'' (obj_get c0 ''token_ids'')
         (put_unless_null ''stop_reason'' (obj_get c0 ''stop_reason'')
           (put_unless_null ''finish_reason'' (obj_get c0 ''finish_reason'')
             [(''index'', JInt 0),
              (''message'', JObj [(''role'', JStr ''assistant''), (''content'', or_empty (obj_get c0 ''text''))])])))"

definition adapt_completion_nonstream_to_chat ::
  "(json \<Rightarrow> py_error + pyfloat) \<Rightarrow> string \<Rightarrow> (string \<times> json) list \<Rightarrow> py_error + (string \<times> json) list" where
  "adapt_completion_nonstream_to_chat py_float req_id body =
     (let b1 = dict_set ''id'' (JStr (chat_completion_id req_id)) (dict_set ''object'' (JStr ''chat.completion'') body)
      in if \<not> truthy (obj_get b1 ''choices'') then Inr b1
         else case obj_get b1 ''choices'' of
                JList (JObj c0 # rest) \<Rightarrow>
                  (case map_completion_logprobs py_float c0 of
                     Inl e \<Rightarrow> Inl e
                   | Inr mapped \<Rightarrow>
                       Inr (dict_set ''choices'' (JList (JObj (adapted_body_choice c0 mapped) # rest))
                              (lift_prompt_token_ids c0 b1)))
              | JObj _ \<Rightarrow> Inl KeyError
              | JList _ \<Rightarrow> Inl AttributeError
              | JStr _ \<Rightarrow> Inl AttributeError
              | _ \<Rightarrow> Inl TypeError)"

section \<open>The rescheduler\<close>

record ReplayRequest =
  req_id :: string
  req_api :: string
  client_expects_token_ids :: bool
  client_expects_chat_shape :: bool
  prompt_tokens_details :: "(string \<times> json) list"
  prompt_token_ids :: "json list"
  cached_token_ids :: "json list"

record Rescheduler =
  enable :: bool
  req :: ReplayRequest
  is_rescheduling :: bool
  retry_count :: nat
  replay_progress_complete :: bool
  stream_finished :: bool

definition Rescheduler_init :: "bool \<Rightarrow> ReplayRequest \<Rightarrow> Rescheduler" where
  "Rescheduler_init en r =
     \<lparr>enable = en, req = r, is_rescheduling = False, retry_count = 0, replay_progress_complete = True,
      stream_finished = False\<rparr>"

text \<open>
  The token cache of the request: the prompt ids are taken once, the ids of the first choice are
  appended. A first choice that is no dictionary raises after the prompt ids were taken.
\<close>

definition chunk_prompt_ids :: "(string \<times> json) list \<Rightarrow> py_error + json" where
  "chunk_prompt_ids chunk =
     (if obj_get chunk ''prompt_token_ids'' \<noteq> JNull then Inr (obj_get chunk ''prompt_token_ids'')
      else if \<not> truthy (obj_get chunk ''choices'') then Inr JNull
      else (case json_first (obj_get chunk ''choices'') of
              Inl e \<Rightarrow> Inl e
            | Inr (JObj c0) \<Rightarrow> Inr (obj_get c0 ''prompt_token_ids'')
            | Inr _ \<Rightarrow> Inr JNull))"

definition take_prompt_ids :: "json \<Rightarrow> ReplayRequest \<Rightarrow> ReplayRequest" where
  "take_prompt_ids pti r =
     (case pti of
        JList ids \<Rightarrow> if prompt_token_ids r = [] then r\<lparr>prompt_token_ids := ids\<rparr> else r
      | _ \<Rightarrow> r)"

definition update_token_id_cache :: "(string \<times> json) list \<Rightarrow> ReplayRequest \<Rightarrow> ReplayRequest \<times> py_error option" where
  "update_token_id_cache chunk r =
     (case chunk_prompt_ids chunk of
        Inl e \<Rightarrow> (r, Some e)
      | Inr pti \<Rightarrow>
          (let r1 = take_prompt_ids pti r
           in if \<not> truthy (obj_get chunk ''choices'') then (r1, None)
              else case json_first (obj_get chunk ''choices'') of
                     Inl e \<Rightarrow> (r1, Some e)
                   | Inr (JObj c0) \<Rightarrow>
                       (case obj_get c0 ''token_ids'' of
                          JList ids \<Rightarrow> (r1\<lparr>cached_token_ids := cached_token_ids r1 @ ids\<rparr>, None)
                        | _ \<Rightarrow> (r1, None))
                   | Inr _ \<Rightarrow> (r1, Some AttributeError)))"

definition visible_payload :: "json \<Rightarrow> bool" where
  "visible_payload payload =
     (case payload of
        JObj d \<Rightarrow> list_ex (\<lambda>(k, v). k \<noteq> ''role'' \<and> v \<notin> {JNull, JStr [], JList [], JObj []}) d
      | _ \<Rightarrow> False)"

definition visible_without_ids :: "json \<Rightarrow> bool" where
  "visible_without_ids choice =
     (case choice of
        JObj d \<Rightarrow>
          (case obj_get d ''token_ids'' of JList (_ # _) \<Rightarrow> False
           | _ \<Rightarrow> truthy (obj_get d ''text'') \<or> visible_payload (obj_get d ''delta'') \<or> visible_payload (obj_get d ''message''))
      | _ \<Rightarrow> False)"

definition has_visible_output_without_token_ids :: "(string \<times> json) list \<Rightarrow> py_error + bool" where
  "has_visible_output_without_token_ids chunk =
     (case json_items (obj_get chunk ''choices'') of
        Inl e \<Rightarrow> Inl e
      | Inr choices \<Rightarrow> Inr (list_ex visible_without_ids choices))"

definition has_finish_reason :: "(string \<times> json) list \<Rightarrow> py_error + bool" where
  "has_finish_reason chunk =
     (case json_items (obj_get chunk ''choices'') of
        Inl e \<Rightarrow> Inl e
      | Inr choices \<Rightarrow>
          Inr (list_ex (\<lambda>c. case c of JObj d \<Rightarrow> obj_get d ''finish_reason'' \<noteq> JNull | _ \<Rightarrow> False) choices))"

text \<open>
  Prompt details are written into a usage that is present; a usage that is no dictionary raises.
\<close>

definition put_prompt_details :: "ReplayRequest \<Rightarrow> (string \<times> json) list \<Rightarrow> py_error + (string \<times> json) list" where
  "put_prompt_details r chunk =
     (if prompt_tokens_details r = [] \<or> \<not> truthy (obj_get chunk ''usage'') then Inr chunk
      else case obj_get chunk ''usage'' of
             JObj u \<Rightarrow> Inr (dict_set ''usage'' (JObj (dict_set ''prompt_tokens_details'' (JObj (prompt_tokens_details r)) u)) chunk)
           | _ \<Rightarrow> Inl TypeError)"

definition track_replay :: "(string \<times> json) list \<Rightarrow> Rescheduler \<Rightarrow> Rescheduler \<times> py_error option" where
  "track_replay chunk s =
     (if \<not> enable s then (s, None)
      else case has_visible_output_without_token_ids chunk of
             Inl e \<Rightarrow> (s, Some e)
           | Inr v \<Rightarrow>
               (let s1 = (if v then s\<lparr>replay_progress_complete := False\<rparr> else s)
                in case update_token_id_cache chunk (req s1) of (r, err) \<Rightarrow> (s1\<lparr>req := r\<rparr>, err)))"

definition adapt_for_client ::
  "(json \<Rightarrow> py_error + pyfloat) \<Rightarrow> Rescheduler \<Rightarrow> bool \<Rightarrow> (string \<times> json) list \<Rightarrow>
   py_error + bool \<times> (string \<times> json) list" where
  "adapt_for_client py_float s role_sent chunk =
     (if is_rescheduling s \<and> client_expects_chat_shape (req s)
      then (case is_completion_like_stream_chunk chunk of
              Inl e \<Rightarrow> Inl e
            | Inr True \<Rightarrow> adapt_completion_stream_chunk_to_chat py_float (req_id (req s)) role_sent chunk
            | Inr False \<Rightarrow> Inr (role_sent, chunk))
      else Inr (role_sent, chunk))"

text \<open>
  One decoded chunk: the new state, the role flag, and the chunk for the client or the exception.
\<close>

definition process_chunk_json ::
  "(json \<Rightarrow> py_error + pyfloat) \<Rightarrow> bool \<Rightarrow> (string \<times> json) list \<Rightarrow> Rescheduler \<Rightarrow>
   Rescheduler \<times> bool \<times> (py_error + (string \<times> json) list)" where
  "process_chunk_json py_float role_sent chunk s =
     (case put_prompt_details (req s) chunk of
        Inl e \<Rightarrow> (s, role_sent, Inl e)
      | Inr c1 \<Rightarrow>
          (case track_replay c1 s of
             (s1, Some e) \<Rightarrow> (s1, role_sent, Inl e)
           | (s1, None) \<Rightarrow>
               (case has_finish_reason c1 of
                  Inl e \<Rightarrow> (s1, role_sent, Inl e)
                | Inr fin \<Rightarrow>
                    (let s2 = (if fin then s1\<lparr>stream_finished := True\<rparr> else s1)
                     in case adapt_for_client py_float s2 role_sent c1 of
                          Inl e \<Rightarrow> (s2, role_sent, Inl e)
                        | Inr (sent, c2) \<Rightarrow>
                            (s2, sent, strip_openai_token_id_fields_for_client (client_expects_token_ids (req s2)) c2)))))"

definition process_stream_chunk ::
  "(ptext \<Rightarrow> json option) \<Rightarrow> (json \<Rightarrow> ptext) \<Rightarrow> (json \<Rightarrow> py_error + pyfloat) \<Rightarrow> bool \<Rightarrow> ptext \<Rightarrow> Rescheduler \<Rightarrow>
   Rescheduler \<times> bool \<times> (py_error + ptext)" where
  "process_stream_chunk loads dumps py_float role_sent chunk s =
     (case parse_stream_chunk_json loads chunk of
        None \<Rightarrow>
          if has_done chunk then (s\<lparr>stream_finished := True\<rparr>, role_sent, Inr chunk) else (s, role_sent, Inr [])
      | Some (JObj obj) \<Rightarrow>
          (case process_chunk_json py_float role_sent obj s of
             (s', sent, Inl e) \<Rightarrow> (s', sent, Inl e)
           | (s', sent, Inr obj') \<Rightarrow> (s', sent, Inr (encode_stream_chunk_bytes chunk (dumps (JObj obj')))))
      | Some v \<Rightarrow> (s, role_sent, Inl AttributeError))"

subsection \<open>Retry requests\<close>

record RetryRequestPlan =
  plan_prompt_token_ids :: "json list"
  plan_api :: string
  remove_chat_fields :: bool
  cached_output_tokens :: nat

definition CHAT_ONLY_KEYS_RECOMPUTE :: "string list" where
  "CHAT_ONLY_KEYS_RECOMPUTE =
     [''messages'', ''tools'', ''tool_choice'', ''functions'', ''function_call'', ''modalities'', ''parallel_tool_calls'',
      ''response_format'', ''reasoning_effort'', ''include_reasoning'', ''audio'', ''metadata'']"

definition text_only_part :: "json \<Rightarrow> bool" where
  "text_only_part part =
     (case part of
        JObj d \<Rightarrow> \<not> truthy (obj_get d ''type'') \<or> obj_get d ''type'' = JStr ''text''
      | _ \<Rightarrow> True)"

fun text_only_messages :: "json list \<Rightarrow> py_error + bool" where
  "text_only_messages [] = Inr True"
| "text_only_messages (m # ms) =
     (case m of
        JObj d \<Rightarrow>
          if (case obj_get d ''content'' of JList parts \<Rightarrow> list_all text_only_part parts | _ \<Rightarrow> True)
          then text_only_messages ms else Inr False
      | _ \<Rightarrow> Inl AttributeError)"

definition completions_retry_eligible :: "(string \<times> json) list \<Rightarrow> py_error + bool" where
  "completions_retry_eligible req_data =
     (if (case obj_get req_data ''response_format'' of
            JNull \<Rightarrow> False
          | JObj rf \<Rightarrow> obj_get rf ''type'' \<noteq> JNull \<and> obj_get rf ''type'' \<noteq> JStr ''text''
          | _ \<Rightarrow> True)
      then Inr False
      else if truthy (obj_get req_data ''tools'') \<or> truthy (obj_get req_data ''logprobs'') \<or>
              truthy (obj_get req_data ''top_logprobs'')
      then Inr False
      else case json_items (obj_get req_data ''messages'') of
             Inl e \<Rightarrow> Inl e
           | Inr ms \<Rightarrow> text_only_messages ms)"

definition requested_n :: "(string \<times> json) list \<Rightarrow> int option" where
  "requested_n req_data = json_int (case dict_get req_data ''n'' of Some v \<Rightarrow> v | None \<Rightarrow> JInt 1)"

definition can_resume_after_visible_output :: "Rescheduler \<Rightarrow> (string \<times> json) list \<Rightarrow> py_error + bool" where
  "can_resume_after_visible_output s req_data =
     (if \<not> enable s \<or> \<not> replay_progress_complete s \<or> stream_finished s \<or>
         prompt_token_ids (req s) = [] \<or> cached_token_ids (req s) = []
      then Inr False
      else if requested_n req_data \<noteq> Some 1 then Inr False
      else if in_dict ''messages'' req_data then completions_retry_eligible req_data
      else Inr True)"

definition build_retry_plan :: "Rescheduler \<Rightarrow> (string \<times> json) list \<Rightarrow> py_error + RetryRequestPlan option" where
  "build_retry_plan s req_data =
     (if prompt_token_ids (req s) = [] \<or> cached_token_ids (req s) = [] then Inr None
      else if requested_n req_data \<noteq> Some 1 then Inl (HTTPException 502)
      else (let is_chat = in_dict ''messages'' req_data;
                plan = (\<lambda>api. \<lparr>plan_prompt_token_ids = prompt_token_ids (req s) @ cached_token_ids (req s), plan_api = api,
                               remove_chat_fields = is_chat, cached_output_tokens = length (cached_token_ids (req s))\<rparr>)
            in if \<not> is_chat then Inr (Some (plan (req_api (req s))))
               else case completions_retry_eligible req_data of
                      Inl e \<Rightarrow> Inl e
                    | Inr False \<Rightarrow> Inl (HTTPException 502)
                    | Inr True \<Rightarrow> Inr (Some (plan ''v1/completions''))))"

definition completion_body :: "(string \<times> json) list \<Rightarrow> (string \<times> json) list" where
  "completion_body req_data =
     (let d = foldl (\<lambda>d k. dict_pop k d) req_data CHAT_ONLY_KEYS_RECOMPUTE
      in case dict_get d ''max_completion_tokens'' of
           Some v \<Rightarrow> dict_set ''max_tokens'' v (dict_pop ''max_completion_tokens'' d)
         | None \<Rightarrow> d)"

definition lower_budget :: "nat \<Rightarrow> (string \<times> json) list \<Rightarrow> (string \<times> json) list" where
  "lower_budget used d =
     (case dict_get d ''max_tokens'' of
        None \<Rightarrow> d
      | Some v \<Rightarrow>
          (case json_int v of
             None \<Rightarrow> d
           | Some m \<Rightarrow> dict_set ''max_tokens'' (JInt (max 1 (m - int used))) d))"

definition apply_retry_plan ::
  "bool \<Rightarrow> RetryRequestPlan \<Rightarrow> (string \<times> json) list \<Rightarrow> (string \<times> json) list \<times> string" where
  "apply_retry_plan prefill plan req_data =
     (let d = dict_set ''prompt'' (JList (plan_prompt_token_ids plan))
                (if remove_chat_fields plan then completion_body req_data else req_data)
      in (if prefill then d else lower_budget (cached_output_tokens plan) d, plan_api plan))"

definition prepare_retry_request ::
  "Rescheduler \<Rightarrow> (string \<times> json) list \<Rightarrow> py_error + (string \<times> json) list \<times> string" where
  "prepare_retry_request s req_data =
     (case build_retry_plan s req_data of
        Inl e \<Rightarrow> Inl e
      | Inr None \<Rightarrow> Inr (req_data, req_api (req s))
      | Inr (Some plan) \<Rightarrow> Inr (apply_retry_plan False plan req_data))"

section \<open>Retry decisions\<close>

text \<open>
  What an attempt may end with: a status of the engine, an exception of the web framework, a transport
  error (with the answer whether its class is in the list of retryable ones), a cancellation with its
  reason, any other exception.
\<close>

datatype attempt_error =
    Upstream_http int
  | Http_exception int
  | Request_error bool
  | Cancelled_because "string option"
  | Other_exception

definition RETRYABLE_UPSTREAM_STATUS_CODES :: "int list" where
  "RETRYABLE_UPSTREAM_STATUS_CODES = [408, 425, 429, 500, 502, 503, 504]"

definition is_retryable_upstream_error :: "attempt_error \<Rightarrow> bool" where
  "is_retryable_upstream_error e =
     (case e of
        Upstream_http code \<Rightarrow> code \<in> set RETRYABLE_UPSTREAM_STATUS_CODES
      | Request_error known \<Rightarrow> known
      | _ \<Rightarrow> False)"

definition is_cb_reportable_failure :: "attempt_error \<Rightarrow> bool" where
  "is_cb_reportable_failure e =
     (case e of Upstream_http code \<Rightarrow> code \<ge> 500 | Http_exception _ \<Rightarrow> False | _ \<Rightarrow> True)"

definition FINAL_CANCEL_REASONS :: "string list" where
  "FINAL_CANCEL_REASONS = [''Client disconnected'', ''Cancelled by dispatch'', ''Infer timeout'']"

definition SCOPE_ABORT :: string where
  "SCOPE_ABORT = ''Cancelled via cancel scope''"

definition check_cancel_error :: "string option \<Rightarrow> string \<times> bool" where
  "check_cancel_error reason =
     (case reason of
        None \<Rightarrow> (''Exception'', True)
      | Some r \<Rightarrow>
          if r \<in> set FINAL_CANCEL_REASONS then (r, False)
          else if py_startswith r SCOPE_ABORT then (SCOPE_ABORT, False)
          else (r, True))"

definition stream_retry_allowed :: "bool \<Rightarrow> Rescheduler \<Rightarrow> (string \<times> json) list \<Rightarrow> py_error + bool" where
  "stream_retry_allowed body_sent s req_data =
     (if \<not> body_sent then Inr True else can_resume_after_visible_output s req_data)"

definition unified_retry ::
  "int \<Rightarrow> bool \<Rightarrow> nat \<Rightarrow> attempt_error \<Rightarrow> bool" where
  "unified_retry transport_retry_limit allow_retry attempt_index e =
     (let max_retry = max transport_retry_limit 1; more = int attempt_index < max_retry - 1
      in case e of
           Cancelled_because reason \<Rightarrow> snd (check_cancel_error reason) \<and> allow_retry \<and> more
         | Http_exception _ \<Rightarrow> False
         | Other_exception \<Rightarrow> allow_retry \<and> more
         | _ \<Rightarrow> allow_retry \<and> more \<and> is_retryable_upstream_error e)"

text \<open>
  The hybrid router; a timeout is decided by whether output went out, not by these rules.
\<close>

definition hybrid_retry ::
  "int \<Rightarrow> bool \<Rightarrow> bool \<Rightarrow> nat \<Rightarrow> attempt_error \<Rightarrow> bool" where
  "hybrid_retry transport_retry_limit reschedule_enabled body_sent attempt e =
     (let max_retry = max transport_retry_limit 1;
          more = (int attempt < max_retry - 1 \<and> (\<not> body_sent \<or> reschedule_enabled))
      in case e of
           Cancelled_because reason \<Rightarrow> snd (check_cancel_error reason) \<and> more
         | Http_exception _ \<Rightarrow> False
         | Other_exception \<Rightarrow> more
         | _ \<Rightarrow> more \<and> is_retryable_upstream_error e)"

text \<open>
  The request of an attempt: the hybrid router rebuilds it for every attempt after the first, the
  unified router from the plan made when the attempt began.
\<close>

definition hybrid_attempt_request ::
  "bool \<Rightarrow> nat \<Rightarrow> Rescheduler \<Rightarrow> (string \<times> json) list \<Rightarrow> string \<Rightarrow> py_error + (string \<times> json) list \<times> string" where
  "hybrid_attempt_request reschedule_enabled attempt s req_data api =
     (let mark = (\<lambda>d. if reschedule_enabled then dict_set ''return_token_ids'' (JBool True) d else d)
      in if attempt > 0 \<and> reschedule_enabled
         then (case build_retry_plan s req_data of
                 Inl e \<Rightarrow> Inl e
               | Inr None \<Rightarrow> Inr (mark req_data, api)
               | Inr (Some plan) \<Rightarrow>
                   (case apply_retry_plan False plan req_data of (d, a) \<Rightarrow> Inr (mark d, a)))
         else Inr (mark req_data, api))"

definition base_request_for_attempt ::
  "bool \<Rightarrow> bool \<Rightarrow> RetryRequestPlan option \<Rightarrow> (string \<times> json) list \<Rightarrow> string \<Rightarrow> (string \<times> json) list \<times> string" where
  "base_request_for_attempt reschedule_enabled prefill plan req_data entry_api =
     (if truthy (case dict_get req_data ''stream'' of Some v \<Rightarrow> v | None \<Rightarrow> JBool False) \<and> reschedule_enabled
      then (let d = dict_set ''return_token_ids'' (JBool True) req_data
            in case plan of None \<Rightarrow> (d, entry_api) | Some p \<Rightarrow> apply_retry_plan prefill p d)
      else (req_data, entry_api))"

section \<open>Attempts\<close>

datatype AttemptState = CREATED | DISPATCHING | ATTEMPT_ACTIVE | FIRST_VISIBLE | DONE | STOPPING | STOPPED

record trigger_prompt =
  tp_dispatched :: bool
  tp_completed :: bool

record AttemptContext =
  attempt_seq :: nat
  att_state :: AttemptState
  prefill_dispatched :: bool
  prefill_completed :: bool
  decode_dispatched :: bool
  decode_completed :: bool
  trigger_prompts :: "(int option, trigger_prompt) dict"

definition attempt_transition :: "AttemptState \<Rightarrow> AttemptContext \<Rightarrow> AttemptContext \<times> bool" where
  "attempt_transition to a =
     (case att_state a of
        STOPPED \<Rightarrow> (a, to = STOPPED)
      | STOPPING \<Rightarrow> if to = STOPPED then (a\<lparr>att_state := to\<rparr>, True) else (a, to = STOPPING)
      | DONE \<Rightarrow> (a, to = DONE)
      | _ \<Rightarrow> (a\<lparr>att_state := to\<rparr>, True))"

definition attempt_stop :: "AttemptContext \<Rightarrow> AttemptContext" where
  "attempt_stop a = (if att_state a \<in> {DONE, STOPPED} then a else a\<lparr>att_state := STOPPING\<rparr>)"

definition mark_dispatched :: "string \<Rightarrow> AttemptContext \<Rightarrow> AttemptContext" where
  "mark_dispatched role a =
     (if role = ''prefill'' then a\<lparr>prefill_dispatched := True\<rparr> else a\<lparr>decode_dispatched := True\<rparr>)"

definition mark_completed :: "string \<Rightarrow> AttemptContext \<Rightarrow> AttemptContext" where
  "mark_completed role a =
     (if role = ''prefill'' then a\<lparr>prefill_completed := True\<rparr> else a\<lparr>decode_completed := True\<rparr>)"

definition needs_abort :: "string \<Rightarrow> AttemptContext \<Rightarrow> bool" where
  "needs_abort role a =
     (if role = ''prefill''
      then (if trigger_prompts a \<noteq> []
            then list_ex (\<lambda>p. tp_dispatched p \<and> \<not> tp_completed p) (dict_values (trigger_prompts a))
            else prefill_dispatched a \<and> \<not> prefill_completed a)
      else decode_dispatched a \<and> \<not> decode_completed a)"

definition new_trigger_prompt :: trigger_prompt where
  "new_trigger_prompt = \<lparr>tp_dispatched = False, tp_completed = False\<rparr>"

definition trigger_prompt_of :: "int option \<Rightarrow> AttemptContext \<Rightarrow> AttemptContext" where
  "trigger_prompt_of i a =
     (if in_dict i (trigger_prompts a) then a
      else a\<lparr>trigger_prompts := dict_set i new_trigger_prompt (trigger_prompts a)\<rparr>)"

definition prompt_mark_dispatched :: "int option \<Rightarrow> AttemptContext \<Rightarrow> AttemptContext" where
  "prompt_mark_dispatched i a =
     a\<lparr>trigger_prompts := dict_modify i (\<lambda>p. p\<lparr>tp_dispatched := True\<rparr>) (trigger_prompts a)\<rparr>"

definition prompt_mark_completed :: "int option \<Rightarrow> AttemptContext \<Rightarrow> AttemptContext" where
  "prompt_mark_completed i a =
     a\<lparr>trigger_prompts := dict_modify i (\<lambda>p. p\<lparr>tp_completed := True\<rparr>) (trigger_prompts a)\<rparr>"

definition reset_trigger_prompts :: "AttemptContext \<Rightarrow> AttemptContext" where
  "reset_trigger_prompts a = a\<lparr>trigger_prompts := []\<rparr>"

text \<open>
  A session numbers its attempts.
\<close>

definition new_attempt :: "nat \<Rightarrow> nat \<times> AttemptContext" where
  "new_attempt seq =
     (seq + 1,
      \<lparr>attempt_seq = seq + 1, att_state = CREATED, prefill_dispatched = False, prefill_completed = False,
       decode_dispatched = False, decode_completed = False, trigger_prompts = []\<rparr>)"

text \<open>
  The decoded chunks of one attempt, all processed; \<open>None\<close> when one raises. Every later attempt is
  marked as rescheduled and starts with a fresh adapter state.
\<close>

fun feed_chunks ::
  "(json \<Rightarrow> py_error + pyfloat) \<Rightarrow> bool \<Rightarrow> (string \<times> json) list list \<Rightarrow> Rescheduler \<Rightarrow> Rescheduler option" where
  "feed_chunks py_float role_sent [] s = Some s"
| "feed_chunks py_float role_sent (c # cs) s =
     (case process_chunk_json py_float role_sent c s of
        (s', sent, Inr _) \<Rightarrow> feed_chunks py_float sent cs s'
      | _ \<Rightarrow> None)"

fun run_attempts ::
  "(json \<Rightarrow> py_error + pyfloat) \<Rightarrow> (string \<times> json) list list list \<Rightarrow> Rescheduler \<Rightarrow> Rescheduler option" where
  "run_attempts py_float [] s = Some s"
| "run_attempts py_float (cs # css) s =
     (case feed_chunks py_float False cs s of
        None \<Rightarrow> None
      | Some s' \<Rightarrow> run_attempts py_float css (s'\<lparr>is_rescheduling := True\<rparr>))"

text \<open>
  The token ids a chunk delivers (those of its first choice), and its visible output without ids.
\<close>

definition chunk_ids :: "(string \<times> json) list \<Rightarrow> json list" where
  "chunk_ids chunk =
     (if \<not> truthy (obj_get chunk ''choices'') then []
      else case json_first (obj_get chunk ''choices'') of
             Inr (JObj c0) \<Rightarrow> (case obj_get c0 ''token_ids'' of JList ids \<Rightarrow> ids | _ \<Rightarrow> [])
           | _ \<Rightarrow> [])"

definition untracked :: "(string \<times> json) list \<Rightarrow> bool" where
  "untracked chunk = (case has_visible_output_without_token_ids chunk of Inr v \<Rightarrow> v | Inl e \<Rightarrow> False)"

definition sample_req :: ReplayRequest where
  "sample_req = \<lparr>req_id = ''r1'', req_api = ''v1/completions'', client_expects_token_ids = False,
                 client_expects_chat_shape = False, prompt_tokens_details = [], prompt_token_ids = [], cached_token_ids = []\<rparr>"

definition sample_attempts :: "(string \<times> json) list list list" where
  "sample_attempts =
     [[[(''prompt_token_ids'', JList [JInt 1, JInt 2]), (''choices'', JList [JObj [(''text'', JStr ''a''), (''token_ids'', JList [JInt 5])]])]],
      [[(''choices'', JList [JObj [(''text'', JStr ''b''), (''token_ids'', JList [JInt 6])]])]]]"

definition sample_body :: "(string \<times> json) list" where
  "sample_body = [(''prompt'', JStr ''hi''), (''max_tokens'', JInt 10)]"

definition ids_removed :: "json \<Rightarrow> bool" where
  "ids_removed ch =
     (case ch of JObj d \<Rightarrow> dict_get d ''token_ids'' = None \<and> dict_get d ''prompt_token_ids'' = None | _ \<Rightarrow> True)"

definition sample_chat :: ReplayRequest where
  "sample_chat = sample_req\<lparr>client_expects_token_ids := True, client_expects_chat_shape := True\<rparr>"

definition sample_completion :: "(string \<times> json) list" where
  "sample_completion = [(''object'', JStr ''text_completion''),
     (''choices'', JList [JObj [(''text'', JStr ''a''), (''token_ids'', JList [JInt 5])]])]"

definition sample_unmarked :: "(string \<times> json) list list" where
  "sample_unmarked = [[(''choices'', JList [JObj [(''text'', JStr ''Hello'')]])]]"

datatype attempt_op = To AttemptState | Stop_it

definition attempt_step :: "AttemptContext \<Rightarrow> attempt_op \<Rightarrow> AttemptContext" where
  "attempt_step a op = (case op of To st \<Rightarrow> fst (attempt_transition st a) | Stop_it \<Rightarrow> attempt_stop a)"

definition frame_ends :: "ptext list" where
  "frame_ends = [[], [10], [13, 10], [10, 10], [13, 10, 13, 10]]"

section \<open>Runs over several attempts\<close>

section \<open>Replaying exactly what was delivered\<close>

lemma put_prompt_details_choices:
  "put_prompt_details r chunk = Inr c \<Longrightarrow> obj_get c ''choices'' = obj_get chunk ''choices''"
  by (auto simp: put_prompt_details_def split: if_splits json.splits)

lemma chunk_ids_choices: "obj_get c ''choices'' = obj_get d ''choices'' \<Longrightarrow> chunk_ids c = chunk_ids d"
  by (simp add: chunk_ids_def)

lemma untracked_choices: "obj_get c ''choices'' = obj_get d ''choices'' \<Longrightarrow> untracked c = untracked d"
  by (simp add: untracked_def has_visible_output_without_token_ids_def)

lemma take_prompt_ids_cached [simp]: "cached_token_ids (take_prompt_ids pti r) = cached_token_ids r"
  by (auto simp: take_prompt_ids_def split: json.splits)

lemma update_cache_ids:
  "update_token_id_cache chunk r = (r', None) \<Longrightarrow> cached_token_ids r' = cached_token_ids r @ chunk_ids chunk"
  by (auto simp: update_token_id_cache_def chunk_ids_def Let_def split: sum.splits if_splits json.splits)

lemma track_replay_ids:
  assumes "enable s" and "track_replay chunk s = (s', None)"
  shows "enable s' \<and> cached_token_ids (req s') = cached_token_ids (req s) @ chunk_ids chunk \<and>
         (replay_progress_complete s' \<longleftrightarrow> replay_progress_complete s \<and> \<not> untracked chunk)"
proof -
  obtain v where v: "has_visible_output_without_token_ids chunk = Inr v"
    using assms by (cases "has_visible_output_without_token_ids chunk") (auto simp: track_replay_def)
  obtain r e where u: "update_token_id_cache chunk (req s) = (r, e)" by (rule prod.exhaust)
  then have "e = None" and s': "s' = (if v then s\<lparr>replay_progress_complete := False\<rparr> else s)\<lparr>req := r\<rparr>"
    using assms v by (auto simp: track_replay_def Let_def split: if_splits)
  then show ?thesis using assms(1) v update_cache_ids [of chunk "req s" r] u by (simp add: untracked_def)
qed

lemma process_chunk_ids:
  assumes "enable s" and "process_chunk_json py role chunk s = (s', sent, Inr out)"
  shows "enable s' \<and> cached_token_ids (req s') = cached_token_ids (req s) @ chunk_ids chunk \<and>
         (replay_progress_complete s' \<longleftrightarrow> replay_progress_complete s \<and> \<not> untracked chunk)"
proof -
  obtain c1 where c1: "put_prompt_details (req s) chunk = Inr c1"
    using assms(2) by (auto simp: process_chunk_json_def split: sum.splits)
  obtain s1 e where t: "track_replay c1 s = (s1, e)" by (rule prod.exhaust)
  then have e: "e = None" using assms(2) c1 by (cases e) (auto simp: process_chunk_json_def)
  have "s' = s1 \<or> s' = s1\<lparr>stream_finished := True\<rparr>"
    using assms(2) c1 t e by (auto simp: process_chunk_json_def Let_def split: sum.splits if_splits)
  then show ?thesis
    using track_replay_ids [OF assms(1) t [unfolded e]] put_prompt_details_choices [OF c1]
      chunk_ids_choices [of c1 chunk] untracked_choices [of c1 chunk] by auto
qed

lemma feed_chunks_ids:
  assumes "enable s" and "feed_chunks py role cs s = Some s'"
  shows "enable s' \<and> cached_token_ids (req s') = cached_token_ids (req s) @ concat (map chunk_ids cs) \<and>
         (replay_progress_complete s' \<longleftrightarrow> replay_progress_complete s \<and> list_all (\<lambda>c. \<not> untracked c) cs)"
  using assms
proof (induction cs arbitrary: role s)
  case (Cons c cs)
  obtain s1 sent res where p: "process_chunk_json py role c s = (s1, sent, res)" by (rule prod_cases3)
  then obtain out where "res = Inr out" using Cons.prems(2) by (cases res) auto
  then show ?case
    using Cons.prems p process_chunk_ids [OF Cons.prems(1), of py role c s1 sent out] Cons.IH [of s1 sent] by auto
qed simp

lemma run_attempts_ids:
  assumes "enable s" and "run_attempts py css s = Some s'"
  shows "enable s' \<and> cached_token_ids (req s') = cached_token_ids (req s) @ concat (map chunk_ids (concat css)) \<and>
         (replay_progress_complete s' \<longleftrightarrow> replay_progress_complete s \<and> list_all (\<lambda>c. \<not> untracked c) (concat css))"
  using assms
proof (induction css arbitrary: s)
  case (Cons cs css)
  obtain s1 where f: "feed_chunks py False cs s = Some s1" using Cons.prems(2) by (auto split: option.splits)
  then show ?case
    using Cons.prems feed_chunks_ids [OF Cons.prems(1) f] Cons.IH [of "s1\<lparr>is_rescheduling := True\<rparr>"] by auto
qed simp

lemma resume_has_plan:
  assumes "can_resume_after_visible_output s req_data = Inr True"
  shows "\<exists>plan. build_retry_plan s req_data = Inr (Some plan) \<and>
           plan_prompt_token_ids plan = prompt_token_ids (req s) @ cached_token_ids (req s) \<and>
           cached_output_tokens plan = length (cached_token_ids (req s)) \<and>
           remove_chat_fields plan = in_dict ''messages'' req_data \<and> replay_progress_complete s"
  using assms
  by (auto simp: can_resume_after_visible_output_def build_retry_plan_def Let_def split: if_splits)

lemma dict_get_pop_all: "dict_get (foldl (\<lambda>d k. dict_pop k d) d ks) k = (if k \<in> set ks then None else dict_get d k)"
  by (induction ks arbitrary: d) auto

lemma lower_budget_other: "k \<noteq> ''max_tokens'' \<Longrightarrow> dict_get (lower_budget used d) k = dict_get d k"
  by (simp add: lower_budget_def split: option.split)

lemma apply_plan_prompt:
  "dict_get (fst (apply_retry_plan prefill plan req_data)) ''prompt'' = Some (JList (plan_prompt_token_ids plan))"
  by (simp add: apply_retry_plan_def Let_def lower_budget_other)

lemma pops_messages: "dict_get (foldl (\<lambda>d k. dict_pop k d) d CHAT_ONLY_KEYS_RECOMPUTE) ''messages'' = None"
  unfolding dict_get_pop_all by (simp add: CHAT_ONLY_KEYS_RECOMPUTE_def)

lemma completion_body_messages: "dict_get (completion_body d) ''messages'' = None"
  by (simp add: completion_body_def Let_def pops_messages split: option.split)

lemma apply_plan_messages:
  "remove_chat_fields plan \<Longrightarrow> dict_get (fst (apply_retry_plan prefill plan req_data)) ''messages'' = None"
  by (simp add: apply_retry_plan_def Let_def lower_budget_other completion_body_messages)



subsection \<open>Token budget\<close>

lemma lower_budget_exact:
  "dict_get d ''max_tokens'' = Some (JInt m) \<Longrightarrow>
   dict_get (lower_budget used d) ''max_tokens'' = Some (JInt (if int used < m then m - int used else 1))"
  by (simp add: lower_budget_def json_int_def)

text \<open>
  A chat request with an explicit null for \<open>max_completion_tokens\<close> loses the limit it set with
  \<open>max_tokens\<close>.
\<close>

lemma null_completion_budget:
  assumes "dict_get d ''max_completion_tokens'' = Some JNull"
  shows "dict_get (lower_budget used (completion_body d)) ''max_tokens'' = Some JNull"
proof -
  have "dict_get (foldl (\<lambda>d k. dict_pop k d) d CHAT_ONLY_KEYS_RECOMPUTE) ''max_completion_tokens'' = Some JNull"
    unfolding dict_get_pop_all using assms by (simp add: CHAT_ONLY_KEYS_RECOMPUTE_def)
  then show ?thesis by (simp add: lower_budget_def completion_body_def Let_def json_int_def)
qed

section \<open>What the client sees\<close>

lemma take_prompt_ids_flag [simp]: "client_expects_token_ids (take_prompt_ids pti r) = client_expects_token_ids r"
  by (auto simp: take_prompt_ids_def split: json.splits)

lemma update_cache_flag [simp]:
  "client_expects_token_ids (fst (update_token_id_cache chunk r)) = client_expects_token_ids r"
  by (auto simp: update_token_id_cache_def Let_def split: sum.splits json.splits)

lemma track_replay_flag [simp]:
  "client_expects_token_ids (req (fst (track_replay chunk s))) = client_expects_token_ids (req s)"
  by (auto simp: track_replay_def Let_def split: sum.splits prod.splits) (metis fst_conv update_cache_flag)+

lemma strip_choice_removed: "ids_removed (strip_choice False ch)"
  by (cases ch) (auto simp: strip_choice_def ids_removed_def Let_def)

lemma strip_removed:
  assumes "strip_openai_token_id_fields_for_client False obj = Inr out"
  shows "dict_get out ''prompt_token_ids'' = None \<and>
         (\<forall>chs. obj_get out ''choices'' = JList chs \<longrightarrow> list_all ids_removed chs)"
proof (cases "obj_get (dict_pop ''prompt_token_ids'' obj) ''choices''")
  case (JList xs)
  then show ?thesis
    using assms strip_choice_removed
    by (cases xs) (auto simp: strip_openai_token_id_fields_for_client_def Let_def json_items_def truthy_def list_all_iff)
qed (use assms in \<open>auto simp: strip_openai_token_id_fields_for_client_def Let_def split: sum.splits\<close>)

text \<open>
  C19: a client that did not ask for token ids never sees one: no chunk handed to it has prompt token
  ids, and no choice in it has token ids, although the coordinator asks the engine for both.
\<close>

theorem client_sees_no_token_ids:
  assumes "process_chunk_json py_float role_sent chunk s = (s', sent, Inr out)"
    and "\<not> client_expects_token_ids (req s)"
  shows "dict_get out ''prompt_token_ids'' = None \<and>
         (\<forall>chs. obj_get out ''choices'' = JList chs \<longrightarrow> list_all ids_removed chs)"
proof -
  obtain c1 where c1: "put_prompt_details (req s) chunk = Inr c1"
    using assms(1) by (auto simp: process_chunk_json_def split: sum.splits)
  obtain s1 e where t: "track_replay c1 s = (s1, e)" by (rule prod.exhaust)
  then have "e = None" using assms(1) c1 by (cases e) (auto simp: process_chunk_json_def)
  moreover have "\<not> client_expects_token_ids (req s1)" using track_replay_flag [of c1 s] t assms(2) by simp
  ultimately have "\<exists>c2. strip_openai_token_id_fields_for_client False c2 = Inr out"
    using assms(1) c1 t by (auto simp: process_chunk_json_def Let_def split: sum.splits if_splits)
  then show ?thesis using strip_removed by blast
qed

lemma client_sees_no_token_ids_witness:
  "\<exists>s' sent out. process_chunk_json (\<lambda>v. Inl TypeError) False (hd (hd sample_attempts)) (Rescheduler_init True sample_req) =
     (s', sent, Inr out) \<and> dict_get out ''prompt_token_ids'' = None"
proof -
  define p where "p = process_chunk_json (\<lambda>v. Inl TypeError) False (hd (hd sample_attempts)) (Rescheduler_init True sample_req)"
  have "isl (snd (snd p)) = False" unfolding p_def by code_simp
  then obtain s' sent out where p: "p = (s', sent, Inr out)" by (metis isl_def prod.collapse sum.exhaust_sel)
  have "\<not> client_expects_token_ids (req (Rescheduler_init True sample_req))"
    by (simp add: Rescheduler_init_def sample_req_def)
  from client_sees_no_token_ids [OF p [unfolded p_def] this] show ?thesis using p unfolding p_def by blast
qed

text \<open>
  The stream adapter drops the token ids of the choice, the body adapter keeps them.
\<close>

lemma adapters_token_ids:
  "dict_get (adapted_choice role_sent c0 mapped) ''token_ids'' = None"
  "obj_get c0 ''token_ids'' \<noteq> JNull \<Longrightarrow> dict_get (adapted_body_choice c0 mapped) ''token_ids'' = Some (obj_get c0 ''token_ids'')"
  by (simp_all add: adapted_choice_def adapted_body_choice_def put_unless_null_def)

lemma chat_id_keeps_chat: "chat_completion_id ''chatcmpl-7'' = ''chatcmpl-chat7''"
  by code_simp

lemma put_details_object: "put_prompt_details r chunk = Inr c \<Longrightarrow> obj_get c ''object'' = obj_get chunk ''object''"
  by (auto simp: put_prompt_details_def split: if_splits json.splits)

lemma take_prompt_ids_shape [simp]:
  "client_expects_chat_shape (take_prompt_ids pti r) = client_expects_chat_shape r"
  by (auto simp: take_prompt_ids_def split: json.splits)

lemma update_cache_shape [simp]:
  "client_expects_chat_shape (fst (update_token_id_cache chunk r)) = client_expects_chat_shape r"
  by (auto simp: update_token_id_cache_def Let_def split: sum.splits json.splits)

lemma track_replay_shape [simp]:
  "client_expects_chat_shape (req (fst (track_replay chunk s))) = client_expects_chat_shape (req s)"
  "is_rescheduling (fst (track_replay chunk s)) = is_rescheduling s"
  by (auto simp: track_replay_def Let_def split: sum.splits prod.splits) (metis fst_conv update_cache_shape)+

lemma adapt_first_choice:
  assumes "adapt_completion_stream_chunk_to_chat py rid role c = Inr (sent, out)"
    and "obj_get c ''choices'' = JList (JObj c0 # rest)"
  shows "\<exists>d. obj_get out ''choices'' = JList (JObj d # rest) \<and> dict_get d ''token_ids'' = None"
  using assms adapters_token_ids(1)
  by (auto simp: adapt_completion_stream_chunk_to_chat_def Let_def truthy_def split: sum.splits)

lemma strip_first_choice:
  assumes "strip_openai_token_id_fields_for_client keep obj = Inr out"
    and "obj_get obj ''choices'' = JList (JObj d # rest)" and "dict_get d ''token_ids'' = None"
  shows "\<exists>d' rest'. obj_get out ''choices'' = JList (JObj d' # rest') \<and> dict_get d' ''token_ids'' = None"
proof -
  have "obj_get (dict_pop ''prompt_token_ids'' obj) ''choices'' = obj_get obj ''choices''" by (simp add: obj_get_def)
  then show ?thesis
    using assms
    by (cases keep) (auto simp: strip_openai_token_id_fields_for_client_def Let_def json_items_def truthy_def strip_choice_def)
qed

text \<open>
  A chat client that asked for token ids does not get them after a retry: every rescheduled chunk
  in the shape of a completion leaves the coordinator without the token ids of its first choice,
  whatever the client asked for, while the adapter for complete bodies keeps them.
\<close>

theorem resumed_chunk_loses_token_ids:
  assumes "is_rescheduling s" and "client_expects_chat_shape (req s)"
    and "obj_get chunk ''object'' = JStr ''text_completion''"
    and "obj_get chunk ''choices'' = JList (JObj c0 # rest)"
    and "process_chunk_json py_float role_sent chunk s = (s', sent, Inr out)"
  shows "(\<exists>d rest'. obj_get out ''choices'' = JList (JObj d # rest') \<and> dict_get d ''token_ids'' = None) \<and>
         (obj_get c0 ''token_ids'' \<noteq> JNull \<longrightarrow>
          dict_get (adapted_body_choice c0 c0) ''token_ids'' = Some (obj_get c0 ''token_ids''))"
proof -
  obtain c1 where c1: "put_prompt_details (req s) chunk = Inr c1"
    using assms(5) by (auto simp: process_chunk_json_def split: sum.splits)
  obtain s1 e where t: "track_replay c1 s = (s1, e)" by (rule prod.exhaust)
  then have e: "e = None" using assms(5) c1 by (cases e) (auto simp: process_chunk_json_def)
  have flags: "is_rescheduling s1" "client_expects_chat_shape (req s1)"
    using track_replay_shape [of c1 s] t assms(1,2) by simp_all
  have obj: "obj_get c1 ''object'' = JStr ''text_completion''" "obj_get c1 ''choices'' = JList (JObj c0 # rest)"
    using put_details_object [OF c1] put_prompt_details_choices [OF c1] assms(3,4) by simp_all
  obtain fin where fin: "has_finish_reason c1 = Inr fin"
    using assms(5) c1 t e by (cases "has_finish_reason c1") (auto simp: process_chunk_json_def)
  define s2 where "s2 = (if fin then s1\<lparr>stream_finished := True\<rparr> else s1)"
  have f2: "is_rescheduling s2" "client_expects_chat_shape (req s2)" using flags by (simp_all add: s2_def)
  obtain snt c2 where "adapt_for_client py_float s2 role_sent c1 = Inr (snt, c2)"
    and st: "strip_openai_token_id_fields_for_client (client_expects_token_ids (req s2)) c2 = Inr out"
    using assms(5) c1 t e fin
    by (cases "adapt_for_client py_float s2 role_sent c1")
       (auto simp: process_chunk_json_def s2_def [symmetric] Let_def split: prod.splits)
  then have a: "adapt_completion_stream_chunk_to_chat py_float (req_id (req s2)) role_sent c1 = Inr (snt, c2)"
    using f2 obj(1) by (simp add: adapt_for_client_def is_completion_like_stream_chunk_def)
  obtain d where "obj_get c2 ''choices'' = JList (JObj d # rest)" "dict_get d ''token_ids'' = None"
    using adapt_first_choice [OF a obj(2)] by blast
  then show ?thesis using strip_first_choice [OF st] adapters_token_ids(2) by blast
qed

lemma resumed_chunk_loses_token_ids_witness:
  "\<exists>s' sent out d rest'.
     process_chunk_json (\<lambda>v. Inl TypeError) False sample_completion
       ((Rescheduler_init True sample_chat)\<lparr>is_rescheduling := True\<rparr>) = (s', sent, Inr out) \<and>
     client_expects_token_ids sample_chat \<and>
     obj_get out ''choices'' = JList (JObj d # rest') \<and> dict_get d ''token_ids'' = None"
proof -
  define s where "s = (Rescheduler_init True sample_chat)\<lparr>is_rescheduling := True\<rparr>"
  define p where "p = process_chunk_json (\<lambda>v. Inl TypeError) False sample_completion s"
  have "isl (snd (snd p)) = False" unfolding p_def s_def by code_simp
  then obtain s' sent out where p: "p = (s', sent, Inr out)" by (metis isl_def prod.collapse sum.exhaust_sel)
  have "is_rescheduling s" "client_expects_chat_shape (req s)"
    by (simp_all add: s_def Rescheduler_init_def sample_chat_def)
  moreover have "obj_get sample_completion ''object'' = JStr ''text_completion''"
    "obj_get sample_completion ''choices'' = JList (JObj [(''text'', JStr ''a''), (''token_ids'', JList [JInt 5])] # [])"
    by (simp_all add: sample_completion_def obj_get_def)
  ultimately show ?thesis
    using resumed_chunk_loses_token_ids [of s sample_completion _ _ "\<lambda>v. Inl TypeError" False s' sent out] p
    unfolding p_def s_def [symmetric] by (auto simp: sample_chat_def)
qed

section \<open>The hybrid router\<close>

lemma no_ids_no_plan:
  assumes "cached_token_ids (req s) = []"
  shows "build_retry_plan s req_data = Inr None"
  using assms by (simp add: build_retry_plan_def)

text \<open>
  C39: after output that came without token ids has gone out to the client, the hybrid router still
  retries, and since nothing can be replayed it sends the original request: the new instance
  generates the answer from the beginning and the client gets the first part twice. The unified
  router refuses to retry in the same situation.
\<close>

theorem hybrid_restarts_after_output:
  assumes "run_attempts py_float [chunks] (Rescheduler_init True r) = Some s" and "cached_token_ids r = []"
    and "list_all (\<lambda>c. chunk_ids c = []) chunks" and "2 \<le> transport_retry_limit"
  shows "hybrid_retry transport_retry_limit True True 0 (Request_error True) \<and>
         hybrid_attempt_request True 1 s req_data api =
           Inr (dict_set ''return_token_ids'' (JBool True) req_data, api) \<and>
         stream_retry_allowed True s req_data = Inr False"
proof -
  have en: "enable (Rescheduler_init True r)" by (simp add: Rescheduler_init_def)
  have "concat (map chunk_ids chunks) = []" using assms(3) by (induction chunks) auto
  then have none: "cached_token_ids (req s) = []"
    using run_attempts_ids [OF en assms(1)] assms(2) by (simp add: Rescheduler_init_def)
  then show ?thesis
    using assms(4)
    by (simp add: hybrid_retry_def is_retryable_upstream_error_def hybrid_attempt_request_def no_ids_no_plan
        stream_retry_allowed_def can_resume_after_visible_output_def Let_def)
qed

lemma hybrid_restarts_after_output_witness:
  "\<exists>s. run_attempts (\<lambda>v. Inl TypeError) [sample_unmarked] (Rescheduler_init True sample_req) = Some s \<and>
       list_ex untracked sample_unmarked \<and>
       hybrid_attempt_request True 1 s sample_body ''v1/completions'' =
         Inr (dict_set ''return_token_ids'' (JBool True) sample_body, ''v1/completions'')"
proof -
  define run where "run = run_attempts (\<lambda>v. Inl TypeError) [sample_unmarked] (Rescheduler_init True sample_req)"
  have "run \<noteq> None" unfolding run_def by code_simp
  then obtain s where s: "run = Some s" by blast
  have "cached_token_ids sample_req = []" by (simp add: sample_req_def)
  moreover have "list_all (\<lambda>c. chunk_ids c = []) sample_unmarked" by code_simp
  moreover have "list_ex untracked sample_unmarked" by code_simp
  ultimately show ?thesis
    using hybrid_restarts_after_output [OF s [unfolded run_def], of 2] s unfolding run_def by auto
qed

section \<open>Line separators\<close>

lemma splitlines_no_break:
  "list_all (\<lambda>c. \<not> is_line_break c) xs \<Longrightarrow> is_line_break b \<Longrightarrow> b \<noteq> 13 \<Longrightarrow>
   splitlines_from line (xs @ b # cs) = rev (b # rev xs @ line) # splitlines_from [] cs"
proof (induction xs arbitrary: line)
  case Nil
  then show ?case by (cases cs) auto
next
  case (Cons x xs)
  obtain y ys where y: "xs @ b # cs = y # ys" by (cases xs) auto
  have "x \<noteq> 13" "\<not> is_line_break x" using Cons.prems(1) by (auto simp: is_line_break_def)
  then show ?case using Cons.IH [of "x # line"] Cons.prems y by simp
qed

lemma strip_text_inner:
  assumes "\<not> is_py_space (hd s)" and "\<not> is_py_space (last s)" and "s \<noteq> []"
  shows "strip_text s = s"
proof -
  obtain a as where a: "s = a # as" "\<not> is_py_space a" using assms(1,3) by (cases s) auto
  obtain z zs where z: "rev s = z # zs" using assms(3) by (cases "rev s") auto
  then have "\<not> is_py_space z" using assms(2) by (metis hd_rev list.sel(1))
  then have "dropWhile is_py_space (rev s) = rev s" using z by simp
  moreover have "dropWhile is_py_space s = s" using a by simp
  ultimately show ?thesis by (simp add: strip_text_def)
qed



section \<open>Attempt states\<close>

lemma attempt_step_final: "att_state a \<in> {DONE, STOPPED} \<Longrightarrow> attempt_step a op = a"
  by (cases op) (auto simp: attempt_step_def attempt_transition_def attempt_stop_def)

lemma attempt_step_stopping:
  "att_state a = STOPPING \<Longrightarrow> att_state (attempt_step a op) \<in> {STOPPING, STOPPED}"
  by (cases op) (auto simp: attempt_step_def attempt_transition_def attempt_stop_def split: if_splits)

text \<open>
  C38: an attempt that is being stopped, was stopped or is done never becomes active again, whatever
  transitions and stops follow: being stopped leads only to stopped, and the two final states are kept.
\<close>

theorem attempt_never_revives:
  "att_state a \<in> {DONE, STOPPING, STOPPED} \<Longrightarrow>
   att_state (foldl attempt_step a ops) \<in> {att_state a, STOPPED} \<and>
   (att_state a = DONE \<longrightarrow> att_state (foldl attempt_step a ops) = DONE)"
proof (induction ops arbitrary: a)
  case (Cons op ops)
  show ?case
  proof (cases "att_state a = STOPPING")
    case True
    then show ?thesis using attempt_step_stopping [OF True, of op] Cons.IH [of "attempt_step a op"] by auto
  next
    case False
    then show ?thesis using attempt_step_final [of a op] Cons.IH [of a] Cons.prems by auto
  qed
qed simp

lemma attempt_never_revives_witness:
  "att_state (foldl attempt_step (attempt_stop (snd (new_attempt 0))) [To FIRST_VISIBLE, To DONE]) \<in> {STOPPING, STOPPED}"
  using attempt_never_revives [of "attempt_stop (snd (new_attempt 0))" "[To FIRST_VISIBLE, To DONE]"]
  by (simp add: attempt_stop_def new_attempt_def)

section \<open>Re-encoding a chunk\<close>

lemma splitlines_skip:
  "list_all (\<lambda>c. \<not> is_line_break c) xs \<Longrightarrow> splitlines_from line (xs @ ys) = splitlines_from (rev xs @ line) ys"
proof (induction xs arbitrary: line)
  case (Cons x xs)
  have x: "x \<noteq> 13" "\<not> is_line_break x" using Cons.prems by (auto simp: is_line_break_def)
  show ?case
  proof (cases "xs @ ys")
    case Nil
    then show ?thesis by simp
  next
    case (Cons y zs)
    then show ?thesis using x Cons.IH [of "x # line"] Cons.prems by simp
  qed
qed simp

lemma splitlines_frame:
  assumes "list_all (\<lambda>c. \<not> is_line_break c) xs" and "xs \<noteq> []" and "e \<in> set frame_ends"
  shows "splitlines_keep (xs @ e) =
           (if e = [10, 10] then [xs @ [10], [10]] else if e = [13, 10, 13, 10] then [xs @ [13, 10], [13, 10]]
            else [xs @ e])"
  using assms
  by (auto simp: splitlines_keep_def splitlines_skip frame_ends_def is_line_break_def)

lemma strip_text_trailing:
  assumes "\<not> is_py_space (hd s)" and "\<not> is_py_space (last s)" and "s \<noteq> []" and "list_all is_py_space e"
  shows "strip_text (s @ e) = s"
proof -
  obtain a as where a: "s = a # as" "\<not> is_py_space a" using assms(1,3) by (cases s) auto
  have "dropWhile is_py_space (rev e @ rev s) = dropWhile is_py_space (rev s)"
    using assms(4) by (intro dropWhile_append2) (simp add: list_all_iff)
  moreover have "dropWhile is_py_space (rev s) = rev s"
    using assms(2,3) by (cases "rev s") (auto simp: hd_rev [symmetric])
  ultimately show ?thesis using a by (simp add: strip_text_def)
qed

lemma frame_end_space: "e \<in> set frame_ends \<Longrightarrow> list_all is_py_space e \<and> list_all (\<lambda>c. c = 13 \<or> c = 10) e"
  by (auto simp: frame_ends_def is_py_space_def)

lemma rstrip_crlf_line:
  assumes "list_all (\<lambda>c. \<not> is_line_break c) xs" and "list_all (\<lambda>c. c = 13 \<or> c = 10) e"
  shows "rstrip_crlf (xs @ e) = xs"
proof -
  have "dropWhile (\<lambda>c. c = 13 \<or> c = 10) (rev e @ rev xs) = dropWhile (\<lambda>c. c = 13 \<or> c = 10) (rev xs)"
    using assms(2) by (intro dropWhile_append2) (simp add: list_all_iff)
  moreover have "dropWhile (\<lambda>c. c = 13 \<or> c = 10) (rev xs) = rev xs"
    using assms(1) by (cases xs rule: rev_cases) (auto simp: is_line_break_def)
  ultimately show ?thesis by (simp add: rstrip_crlf_def)
qed

lemma drop_break_none: "list_all (\<lambda>c. \<not> is_line_break c) l \<Longrightarrow> drop_break l = l"
  by (cases l rule: rev_cases) (auto simp: drop_break_def is_line_break_def)

lemma data_line: "begins_with (codes ''data:'' @ x) ''data:''" "begins_with (codes ''data: '' @ x) ''data:''"
  by (simp_all add: begins_with_def codes_def)

lemma data_no_break: "list_all (\<lambda>c. \<not> is_line_break c) x \<Longrightarrow> list_all (\<lambda>c. \<not> is_line_break c) (codes ''data:'' @ x)"
  "list_all (\<lambda>c. \<not> is_line_break c) x \<Longrightarrow> list_all (\<lambda>c. \<not> is_line_break c) (codes ''data: '' @ x)"
  by (simp_all add: codes_def is_line_break_def)

lemma encode_frame:
  assumes "list_all (\<lambda>c. \<not> is_line_break c) x" and "x \<noteq> []" and "\<not> is_py_space (last x)" and "e \<in> set frame_ends"
  shows "encode_stream_chunk_bytes (codes ''data:'' @ x @ e) payload = codes ''data: '' @ payload @ e"
proof -
  let ?l = "codes ''data:'' @ x"
  have l: "list_all (\<lambda>c. \<not> is_line_break c) ?l" "?l \<noteq> []" using data_no_break(1) assms(1,2) by auto
  have "strip_text (?l @ e) = ?l"
    using assms(2,3) frame_end_space [OF assms(4)]
    by (intro strip_text_trailing) (auto simp: codes_def is_py_space_def)
  moreover have "splitlines_keep ?l = [?l]"
    using splitlines_frame [OF l, of "[]"] by (simp add: frame_ends_def)
  moreover have "drop_break ?l = ?l"
    by (rule drop_break_none [OF l(1)])
  ultimately have "list_ex (\<lambda>line. begins_with line ''data:'') (py_splitlines (strip_text (?l @ e)))"
    using data_line(1) by (simp add: py_splitlines_def)
  moreover have "concat (map (encode_line payload) (splitlines_keep (?l @ e))) = codes ''data: '' @ payload @ e"
  proof -
    have el: "encode_line payload (?l @ t) = codes ''data: '' @ payload @ t" if "list_all (\<lambda>c. c = 13 \<or> c = 10) t" for t
      using rstrip_crlf_line [OF l(1) that] data_line(1) [of x] by (simp add: encode_line_def)
    have "encode_line payload [10] = [10]" "encode_line payload [13, 10] = [13, 10]"
      by (simp_all add: encode_line_def rstrip_crlf_def begins_with_def codes_def)
    then show ?thesis
      using splitlines_frame [OF l assms(4)] el [of "[10]"] el [of "[13, 10]"] el [of e] frame_end_space [OF assms(4)]
      by auto
  qed
  ultimately show ?thesis by (simp add: encode_stream_chunk_bytes_def)
qed



end
