(* ===== verification/Dynamic_Bucket.thy ===== *)
theory Dynamic_Bucket
  imports Scheduling
begin

text \<open>
  The dynamic bucket policy, \<^verbatim>\<open>motor/coordinator/scheduler/policy/dynamic_bucket.py\<close>: decode endpoints are
  split into a bucket for short and one for long requests, a request goes to the lightest endpoint of
  the bucket its length and the bucket loads decide.

  \<open>math.exp\<close> is the argument \<open>py_exp\<close>; that it is positive and increasing is a hypothesis where it is
  needed. An infinite load rate is \<open>None\<close>: its sigmoid is 0 because the load scale is positive. The
  tokenizer is an argument that may raise.
\<close>

section \<open>The selector\<close>

record DynamicBucketSelector =
  bucket_border :: int
  short_bucket_count :: int
  long_bucket_count :: int
  short_bucket_load :: pyfloat
  long_bucket_load :: pyfloat
  load_scale :: pyfloat
  short_load_threshold :: pyfloat
  long_load_threshold :: pyfloat
  long_bucket_size :: int
  short_bucket_size :: int
  long_length_scale :: pyfloat
  short_length_scale :: pyfloat

definition DynamicBucketSelector_init ::
  "int \<Rightarrow> int \<Rightarrow> int \<Rightarrow> pyfloat \<Rightarrow> pyfloat \<Rightarrow> int \<Rightarrow> int \<Rightarrow> py_error + DynamicBucketSelector" where
  "DynamicBucketSelector_init short_median long_median border length_scale ld_scale short_count long_count =
     (if ld_scale \<le> 0 then Inl ValueError
      else if short_median \<le> 0 \<or> long_median \<le> border then Inl ValueError
      else if short_count < 0 \<or> long_count < 0 then Inl ValueError
      else Inr \<lparr>bucket_border = border, short_bucket_count = short_count, long_bucket_count = long_count,
                short_bucket_load = 0, long_bucket_load = 0, load_scale = ld_scale,
                short_load_threshold = 1, long_load_threshold = 1 / ld_scale,
                long_bucket_size = long_median - border, short_bucket_size = short_median,
                long_length_scale = length_scale / of_int (long_median - border),
                short_length_scale = length_scale / of_int short_median\<rparr>)"

definition sigmoid_affinity :: "(pyfloat \<Rightarrow> pyfloat) \<Rightarrow> pyfloat \<Rightarrow> pyfloat" where
  "sigmoid_affinity py_exp x =
     (if x \<ge> 0 then py_exp (- x) / (1 + py_exp (- x)) else 1 / (1 + py_exp x))"

definition length_affinity :: "(pyfloat \<Rightarrow> pyfloat) \<Rightarrow> int \<Rightarrow> int \<Rightarrow> pyfloat \<Rightarrow> pyfloat" where
  "length_affinity py_exp distance bucket_size length_scale =
     sigmoid_affinity py_exp (length_scale * of_int (distance - bucket_size))"

definition load_affinity :: "(pyfloat \<Rightarrow> pyfloat) \<Rightarrow> DynamicBucketSelector \<Rightarrow> pyfloat option \<Rightarrow> pyfloat \<Rightarrow> pyfloat" where
  "load_affinity py_exp s load_rate load_threshold =
     (case load_rate of
        None \<Rightarrow> 0
      | Some r \<Rightarrow> sigmoid_affinity py_exp (load_scale s * (r - load_threshold)))"

definition load_rate_of :: "pyfloat \<Rightarrow> pyfloat \<Rightarrow> pyfloat option" where
  "load_rate_of other own = (if own > 0 then Some (other / own) else None)"

definition select_bucket :: "(pyfloat \<Rightarrow> pyfloat) \<Rightarrow> DynamicBucketSelector \<Rightarrow> int \<Rightarrow> nat" where
  "select_bucket py_exp s len =
     (if len \<le> bucket_border s
      then (if length_affinity py_exp len (short_bucket_size s) (short_length_scale s) +
               load_affinity py_exp s (load_rate_of (long_bucket_load s) (short_bucket_load s)) (long_load_threshold s) > 1
            then 1 else 0)
      else (if length_affinity py_exp (len - bucket_border s) (long_bucket_size s) (long_length_scale s) +
               load_affinity py_exp s (load_rate_of (short_bucket_load s) (long_bucket_load s)) (short_load_threshold s) > 1
            then 0 else 1))"

definition update_bucket_loads :: "pyfloat list \<Rightarrow> pyfloat list \<Rightarrow> DynamicBucketSelector \<Rightarrow> DynamicBucketSelector" where
  "update_bucket_loads short_loads long_loads s =
     (let s1 = (if short_loads = [] then s
                else s\<lparr>short_bucket_load := sum_list short_loads / of_nat (length short_loads)\<rparr>)
      in if long_loads = [] then s1
         else s1\<lparr>long_bucket_load := sum_list long_loads / of_nat (length long_loads)\<rparr>)"

section \<open>The policy\<close>

record BucketEndpoint =
  be_instance :: Instance
  be_endpoint :: Endpoint
  be_bucket :: nat

text \<open>
  \<open>round\<close> to the nearest integer, halves to the even one.
\<close>

definition py_round :: "rat \<Rightarrow> int" where
  "py_round q =
     (let f = \<lfloor>q\<rfloor>; d = q - of_int f
      in if d < 1 / 2 then f else if d > 1 / 2 then f + 1 else if even f then f else f + 1)"

definition resolve_short_bucket_count :: "int \<Rightarrow> int \<Rightarrow> int \<Rightarrow> int" where
  "resolve_short_bucket_count total_count configured_short configured_long =
     (if total_count \<le> 1 then total_count
      else if configured_short \<le> 0 \<and> configured_long \<le> 0 then max 1 (total_count div 2)
      else (let short_count =
                  (if configured_short > 0 \<and> configured_long > 0
                   then py_round (of_int (total_count * configured_short) / of_int (configured_short + configured_long))
                   else if configured_short > 0 then configured_short
                   else total_count - configured_long)
            in min (max 1 short_count) (total_count - 1)))"

definition sorted_pairs :: "Instance list \<Rightarrow> (Instance \<times> Endpoint) list" where
  "sorted_pairs instances =
     sort_key (\<lambda>(ins, ep). (ins_id ins, ep_id ep)) (concat (map (\<lambda>ins. map (Pair ins) (eps_of ins)) instances))"

definition build_bucket_endpoints :: "Instance list \<Rightarrow> int \<Rightarrow> int \<Rightarrow> BucketEndpoint list" where
  "build_bucket_endpoints instances configured_short configured_long =
     (let pairs = sorted_pairs instances;
          short_count = resolve_short_bucket_count (int (length pairs)) configured_short configured_long
      in map (\<lambda>(index, ins, ep). \<lparr>be_instance = ins, be_endpoint = ep, be_bucket = (if int index < short_count then 0 else 1)\<rparr>)
           (enumerate 0 pairs))"

definition bucket_key :: "BucketEndpoint \<Rightarrow> pyfloat \<times> int \<times> int" where
  "bucket_key b = (active_tokens (ep_workload (be_endpoint b)), ins_id (be_instance b), ep_id (be_endpoint b))"

definition select_lightest :: "BucketEndpoint list \<Rightarrow> nat \<Rightarrow> BucketEndpoint option" where
  "select_lightest candidates bucket = min_scan bucket_key None (filter (\<lambda>b. be_bucket b = bucket) candidates)"

definition bucket_loads :: "nat \<Rightarrow> BucketEndpoint list \<Rightarrow> pyfloat list" where
  "bucket_loads bucket candidates =
     map (\<lambda>b. active_tokens (ep_workload (be_endpoint b))) (filter (\<lambda>b. be_bucket b = bucket) candidates)"

definition bucket_select_endpoint ::
  "(pyfloat \<Rightarrow> pyfloat) \<Rightarrow> Instance list \<Rightarrow> int \<Rightarrow> DynamicBucketSelector \<Rightarrow>
   DynamicBucketSelector \<times> (Instance \<times> Endpoint) option" where
  "bucket_select_endpoint py_exp instances req_length s =
     (let candidates = build_bucket_endpoints instances (short_bucket_count s) (long_bucket_count s)
      in if candidates = [] then (s, None)
         else (let s1 = update_bucket_loads (bucket_loads 0 candidates) (bucket_loads 1 candidates) s;
                   bucket = select_bucket py_exp s1 req_length;
                   selected = (case select_lightest candidates bucket of
                                 Some b \<Rightarrow> Some b
                               | None \<Rightarrow> select_lightest candidates (1 - bucket))
               in (s1, map_option (\<lambda>b. (be_instance b, be_endpoint b)) selected)))"

text \<open>
  Outside the worker the policy is load balancing.
\<close>

definition bucket_fallback_endpoint :: "(nat \<Rightarrow> pyfloat) \<Rightarrow> Instance list \<Rightarrow> (Instance \<times> Endpoint) option" where
  "bucket_fallback_endpoint rnd instances =
     lb_select_endpoint_from_list rnd instances DEFAULT_ENDPOINT_INSTANCE_SCORE_WEIGHT"

section \<open>The length of a request\<close>

record bucket_request =
  br_token_ids :: "json option"
  br_data :: "(string, json) dict"

definition is_token_id_sequence :: "json \<Rightarrow> bool" where
  "is_token_id_sequence prompt =
     (case prompt of JList xs \<Rightarrow> list_all (\<lambda>x. case x of JInt _ \<Rightarrow> True | JBool _ \<Rightarrow> True | _ \<Rightarrow> False) xs | _ \<Rightarrow> False)"

text \<open>
  The tokenizer is asked for the messages or the prompt; what it answers is a list of ids.
\<close>

definition get_request_token_length ::
  "(json \<Rightarrow> json \<Rightarrow> py_error + json list) \<Rightarrow> (json \<Rightarrow> py_error + json list) \<Rightarrow> bucket_request option \<Rightarrow>
   bucket_request option \<times> nat option" where
  "get_request_token_length apply_template encode r =
     (case r of
        None \<Rightarrow> (None, None)
      | Some q \<Rightarrow>
          (case br_token_ids q of
             Some (JList (x # xs)) \<Rightarrow> (r, Some (length (x # xs)))
           | _ \<Rightarrow>
               (let messages = obj_get (br_data q) ''messages''; prompt = obj_get (br_data q) ''prompt''
                in case (if messages \<noteq> JNull then apply_template messages (obj_get (br_data q) ''tools'')
                         else if is_token_id_sequence prompt then (case prompt of JList xs \<Rightarrow> Inr xs | _ \<Rightarrow> Inr [])
                         else if prompt \<noteq> JNull then encode prompt else Inr []) of
                     Inl e \<Rightarrow> (r, None)
                   | Inr ids \<Rightarrow>
                       if ids = [] then (r, None)
                       else (Some (q\<lparr>br_token_ids := Some (JList ids)\<rparr>), Some (length ids)))))"

definition make_dynamic_bucket_allocation_workload ::
  "(json \<Rightarrow> json \<Rightarrow> py_error + json list) \<Rightarrow> (json \<Rightarrow> py_error + json list) \<Rightarrow> bucket_request option \<Rightarrow>
   bucket_request option \<times> Workload" where
  "make_dynamic_bucket_allocation_workload apply_template encode r =
     (case get_request_token_length apply_template encode r of
        (r', Some n) \<Rightarrow> (r', \<lparr>active_tokens = of_nat n\<rparr>)
      | (r', None) \<Rightarrow> (r', empty_workload))"

definition demo_selector :: DynamicBucketSelector where
  "demo_selector = projr (DynamicBucketSelector_init 16384 98304 32768 1 4 0 0)"

section \<open>The split\<close>

lemma resolve_short_bounds:
  "2 \<le> total_count \<Longrightarrow> 1 \<le> resolve_short_bucket_count total_count cs cl \<and>
   resolve_short_bucket_count total_count cs cl \<le> total_count - 1"
  by (auto simp: resolve_short_bucket_count_def Let_def)

lemma build_length [simp]: "length (build_bucket_endpoints instances cs cl) = length (sorted_pairs instances)"
  by (simp add: build_bucket_endpoints_def Let_def)

lemma build_nth:
  "i < length (sorted_pairs instances) \<Longrightarrow>
   build_bucket_endpoints instances cs cl ! i =
     \<lparr>be_instance = fst (sorted_pairs instances ! i), be_endpoint = snd (sorted_pairs instances ! i),
      be_bucket = (if int i < resolve_short_bucket_count (int (length (sorted_pairs instances))) cs cl then 0 else 1)\<rparr>"
  by (simp add: build_bucket_endpoints_def Let_def nth_enumerate_eq split: prod.split)

lemma bucket_01: "b \<in> set (build_bucket_endpoints instances cs cl) \<Longrightarrow> be_bucket b \<in> {0, 1}"
  by (auto simp: build_bucket_endpoints_def Let_def split: prod.splits if_splits)

text \<open>
  With at least two endpoints neither bucket is empty.
\<close>

lemma buckets_nonempty:
  assumes "2 \<le> length (sorted_pairs instances)" and "k \<in> {0, 1}"
  shows "\<exists>b \<in> set (build_bucket_endpoints instances cs cl). be_bucket b = k"
proof -
  let ?n = "length (sorted_pairs instances)"
  have b: "1 \<le> resolve_short_bucket_count (int ?n) cs cl" "resolve_short_bucket_count (int ?n) cs cl \<le> int ?n - 1"
    using resolve_short_bounds [of "int ?n" cs cl] assms(1) by auto
  have i: "0 < ?n" "?n - 1 < ?n" using assms(1) by auto
  have "be_bucket (build_bucket_endpoints instances cs cl ! 0) = 0"
    "be_bucket (build_bucket_endpoints instances cs cl ! (?n - 1)) = 1"
    using build_nth [OF i(1), of cs cl] build_nth [OF i(2), of cs cl] b i by auto
  then show ?thesis using assms(2) i by (metis build_length empty_iff insert_iff nth_mem)
qed

lemma select_bucket_01: "select_bucket py_exp s len \<in> {0, 1}"
  by (simp add: select_bucket_def)

section \<open>What is selected\<close>

lemma select_lightest_Some:
  assumes "select_lightest cands k = Some b"
  shows "b \<in> set cands \<and> be_bucket b = k \<and> (\<forall>b' \<in> set cands. be_bucket b' = k \<longrightarrow> bucket_key b \<le> bucket_key b')"
  using min_scan_least [OF assms [unfolded select_lightest_def]] by auto

lemma select_lightest_None: "select_lightest cands k = None \<longleftrightarrow> (\<forall>b \<in> set cands. be_bucket b \<noteq> k)"
  by (auto simp: select_lightest_def min_scan_None_iff filter_empty_conv)

text \<open>
  With two or more endpoints the selected one is the lightest of the bucket that the length of
  the request and the fresh average loads decide (ties by instance and endpoint id), and with none
  nothing is selected.
\<close>

theorem bucket_selects_lightest:
  assumes "bucket_select_endpoint py_exp instances req_length s = (s', r)"
  shows "(sorted_pairs instances = [] \<longrightarrow> r = None) \<and>
         (2 \<le> length (sorted_pairs instances) \<longrightarrow>
          (\<exists>b \<in> set (build_bucket_endpoints instances (short_bucket_count s) (long_bucket_count s)).
             r = Some (be_instance b, be_endpoint b) \<and> be_bucket b = select_bucket py_exp s' req_length \<and>
             (\<forall>b' \<in> set (build_bucket_endpoints instances (short_bucket_count s) (long_bucket_count s)).
                be_bucket b' = be_bucket b \<longrightarrow> bucket_key b \<le> bucket_key b')))"
proof -
  let ?c = "build_bucket_endpoints instances (short_bucket_count s) (long_bucket_count s)"
  have len: "length ?c = length (sorted_pairs instances)" by simp
  show ?thesis
  proof (intro conjI impI)
    assume "sorted_pairs instances = []"
    then have "?c = []" using len by (metis length_0_conv)
    then show "r = None" using assms by (simp add: bucket_select_endpoint_def)
  next
    assume two: "2 \<le> length (sorted_pairs instances)"
    then have ne: "?c \<noteq> []" using len by (metis list.size(3) not_numeral_le_zero)
    define k where "k = select_bucket py_exp s' req_length"
    have s': "s' = update_bucket_loads (bucket_loads 0 ?c) (bucket_loads 1 ?c) s"
      using assms ne by (simp add: bucket_select_endpoint_def Let_def)
    have "k \<in> {0, 1}" unfolding k_def by (rule select_bucket_01)
    then obtain b where b: "select_lightest ?c k = Some b"
      using buckets_nonempty [OF two] select_lightest_None by (cases "select_lightest ?c k") blast+
    then have "r = Some (be_instance b, be_endpoint b)"
      using assms ne unfolding k_def s' by (simp add: bucket_select_endpoint_def Let_def)
    then show "\<exists>b \<in> set ?c. r = Some (be_instance b, be_endpoint b) \<and> be_bucket b = select_bucket py_exp s' req_length \<and>
        (\<forall>b' \<in> set ?c. be_bucket b' = be_bucket b \<longrightarrow> bucket_key b \<le> bucket_key b')"
      using select_lightest_Some [OF b] k_def by blast
  qed
qed

text \<open>
  The order in which the instances arrive does not matter as long as no two endpoints share both ids.
\<close>

lemma sorted_pairs_order_free:
  assumes "mset instances = mset instances'"
    and "inj_on (\<lambda>(ins, ep). (ins_id ins, ep_id ep)) (set (concat (map (\<lambda>ins. map (Pair ins) (eps_of ins)) instances)))"
  shows "sorted_pairs instances = sorted_pairs instances'"
proof -
  let ?p = "\<lambda>l. concat (map (\<lambda>ins. map (Pair ins) (eps_of ins)) l)"
  let ?f = "\<lambda>(ins :: Instance, ep :: Endpoint). (ins_id ins, ep_id ep)"
  have ms: "mset (?p l) = sum_mset (image_mset (\<lambda>ins. mset (map (Pair ins) (eps_of ins))) (mset l))" for l
    by (induction l) auto
  have m: "mset (?p instances) = mset (?p instances')"
    unfolding ms [of instances] ms [of instances'] assms(1) ..
  have "sort_key ?f (?p instances) = sort_key ?f (?p instances')"
  proof (rule properties_for_sort_key)
    show "mset (sort_key ?f (?p instances')) = mset (?p instances)" using m by simp
    show "sorted (map ?f (sort_key ?f (?p instances')))" by (rule sorted_sort_key)
  next
    fix k assume "k \<in> set (sort_key ?f (?p instances'))"
    then have k: "k \<in> set (?p instances)" using mset_eq_setD [OF m] by (simp only: set_sort)
    have one: "filter (\<lambda>x. ?f k = ?f x) xs = replicate (count (mset xs) k) k" if "mset xs = mset (?p instances)" for xs
    proof -
      have "filter (\<lambda>x. ?f k = ?f x) xs = filter (\<lambda>x. x = k) xs"
      proof (rule filter_cong [OF refl])
        fix x assume "x \<in> set xs"
        then have "x \<in> set (?p instances)" using mset_eq_setD [OF that] by (simp only:)
        then show "(?f k = ?f x) = (x = k)" using inj_on_eq_iff [OF assms(2) k] by (metis (no_types, lifting))
      qed
      also have "\<dots> = replicate (count (mset xs) k) k"
        by (induction xs) (auto simp: replicate_append_same)
      finally show ?thesis .
    qed
    show "filter (\<lambda>x. ?f k = ?f x) (sort_key ?f (?p instances')) = filter (\<lambda>x. ?f k = ?f x) (?p instances)"
      using one [of "sort_key ?f (?p instances')"] one [of "?p instances"] m by simp
  qed
  then show ?thesis by (simp add: sorted_pairs_def)
qed

text \<open>
  C31: every worker decides alike: the selected endpoint and the new loads do not depend on the order
  in which the instances are listed, as long as no two endpoints share both ids.
\<close>

theorem bucket_choice_order_free:
  assumes "mset instances = mset instances'"
    and "inj_on (\<lambda>(ins, ep). (ins_id ins, ep_id ep)) (set (concat (map (\<lambda>ins. map (Pair ins) (eps_of ins)) instances)))"
  shows "bucket_select_endpoint py_exp instances req_length s = bucket_select_endpoint py_exp instances' req_length s"
  using sorted_pairs_order_free [OF assms] by (simp add: bucket_select_endpoint_def build_bucket_endpoints_def)

section \<open>Staying in the own bucket\<close>

lemma sigmoid_range:
  assumes "\<forall>x. py_exp x > 0"
  shows "0 < sigmoid_affinity py_exp x \<and> sigmoid_affinity py_exp x < 1"
proof -
  have "0 < py_exp (- x)" "0 < py_exp x" using assms by simp_all
  moreover have "0 < 1 + py_exp (- x)" "0 < 1 + py_exp x" using calculation by linarith+
  ultimately show ?thesis by (simp add: sigmoid_affinity_def divide_simps)
qed

text \<open>
  A request stays in its own bucket while that bucket is idle, whatever the other one does.
\<close>

lemma idle_bucket_keeps_request:
  assumes "\<forall>x. py_exp x > 0"
  shows "len \<le> bucket_border s \<Longrightarrow> short_bucket_load s \<le> 0 \<Longrightarrow> select_bucket py_exp s len = 0"
    and "bucket_border s < len \<Longrightarrow> long_bucket_load s \<le> 0 \<Longrightarrow> select_bucket py_exp s len = 1"
  using sigmoid_range [OF assms, of "short_length_scale s * of_int (len - short_bucket_size s)"]
    sigmoid_range [OF assms, of "long_length_scale s * of_int (len - bucket_border s - long_bucket_size s)"]
  by (auto simp: select_bucket_def load_rate_of_def load_affinity_def length_affinity_def)

lemma demo_eps: "eps_of (demo_instance i r st) = [demo_endpoint 0 EP_NORMAL, demo_endpoint 1 EP_NORMAL]"
  by (simp add: eps_of_def get_all_endpoints_def scan_endpoints_def ep_entries_def demo_instance_def demo_endpoint_def)

lemma bucket_selects_lightest_witness:
  "\<exists>(b :: BucketEndpoint) s' r. bucket_select_endpoint (\<lambda>x. 1) [demo_instance 7 ''decode'' ACTIVE] 100 demo_selector = (s', r) \<and>
     r = Some (be_instance b, be_endpoint b) \<and> be_bucket b = select_bucket (\<lambda>x. 1) s' 100"
proof -
  obtain s' r where b: "bucket_select_endpoint (\<lambda>x. 1) [demo_instance 7 ''decode'' ACTIVE] 100 demo_selector = (s', r)"
    by (rule prod.exhaust)
  have "2 \<le> length (sorted_pairs [demo_instance 7 ''decode'' ACTIVE])"
    by (simp add: sorted_pairs_def demo_eps)
  then show ?thesis using bucket_selects_lightest [OF b] b by blast
qed

lemma bucket_choice_order_free_witness:
  "bucket_select_endpoint (\<lambda>x. 1) [demo_instance 7 ''decode'' ACTIVE, demo_instance 8 ''decode'' ACTIVE] 100 demo_selector =
   bucket_select_endpoint (\<lambda>x. 1) [demo_instance 8 ''decode'' ACTIVE, demo_instance 7 ''decode'' ACTIVE] 100 demo_selector"
proof (rule bucket_choice_order_free)
  show "inj_on (\<lambda>(ins, ep). (ins_id ins, ep_id ep))
     (set (concat (map (\<lambda>ins. map (Pair ins) (eps_of ins)) [demo_instance 7 ''decode'' ACTIVE, demo_instance 8 ''decode'' ACTIVE])))"
    by (simp add: demo_eps) (simp add: demo_instance_def demo_endpoint_def)
qed simp

end
