(* ===== verification/Spec2Isabelle.thy ===== *)
theory Spec2Isabelle
  imports Ft_Runtime Controller_Instances Circuit_Breaker Rate_Limiter Image_Sizes Scheduling Port_Allocation Cache_Declarations Event_Pusher Recovery_Planning Instance_Assembly Standby_Manager Block_Offsets Token_Replay Dynamic_Bucket
begin

text \<open>
  MindIE-Motor serves large language models on a cluster. A \<^emph>\<open>controller\<close> keeps the instances
  (engines with endpoints on pods) alive and healthy; a \<^emph>\<open>coordinator\<close> receives requests, picks an
  instance and an endpoint for each and forwards it; a \<^emph>\<open>node manager\<close> on every pod starts the
  engine processes and sends heartbeats. The controller tells the coordinator about instances with
  ADD, DEL, SET, PAUSE and RESUME events. This development models the decision logic of controller
  and coordinator and proves it correct.

  \<^bold>\<open>Theories and sources\<close> (paths under \<^verbatim>\<open>src/\<close>)

  \<^descr> \<open>Prelude\<close> Python values: dictionaries as association lists in insertion order, floats,
    decoded JSON, integers as strings, exceptions; the locale \<open>step_invariant\<close> that every stateful
    component interprets on its step function.
  \<^descr> \<open>Resources\<close> \<^verbatim>\<open>motor/common/resources/endpoint.py\<close>, \<^verbatim>\<open>instance.py\<close>: endpoints, instances, their
    versioned endpoint cache, heartbeats and health checks. Shown: a heartbeat changes exactly the
    reported endpoints of its pod; the cached endpoint list always equals a fresh scan.
  \<^descr> \<open>Ft_Runtime\<close> \<^verbatim>\<open>motor/controller/fault_tolerance/dp_scale_down.py\<close>: the phases of a DP scale-down
    with their durable store. Shown: what a restart restores and that it can be repeated; which
    transitions persist; that ranks are expanded to whole pods.
  \<^descr> \<open>Controller_Instances\<close> \<^verbatim>\<open>motor/controller/core/instance_manager.py\<close>: registration, heartbeats,
    the state table, forced separation, observers and persistence. Shown: the lifecycle follows the
    table; a separated instance never becomes active; activation needs fresh, ready endpoints; a
    restart restores what was persisted.
  \<^descr> \<open>Circuit_Breaker\<close> \<^verbatim>\<open>motor/coordinator/domain/circuit_breaker.py\<close>: refinement of one abstract
    circuit per instance.
  \<^descr> \<open>Rate_Limiter\<close> \<^verbatim>\<open>motor/coordinator/middleware/rate_limiter.py\<close>: token bucket with a reserve for
    urgent requests; admissions are bounded by the refill.
  \<^descr> \<open>Workload_Ledger\<close> \<^verbatim>\<open>motor/coordinator/domain/request_manager.py\<close>,
    \<^verbatim>\<open>workload_calculator.py\<close>, \<^verbatim>\<open>motor/coordinator/router/workload.py\<close>: what each request has charged.
    Shown: the scheduler's ledger stays equal to the records; a release returns exactly its charge.
  \<^descr> \<open>Coordinator_Pools\<close> \<^verbatim>\<open>motor/coordinator/domain/instance_manager.py\<close>, readiness from
    \<^verbatim>\<open>scheduling.py\<close>: the pools on an explicit heap of instance objects. Shown: the pools partition
    the instances; a refresh is all or nothing; SET is exact; aggregates are endpoint sums.
  \<^descr> \<open>Scheduling\<close> \<^verbatim>\<open>motor/coordinator/scheduler/policy/round_robin.py\<close>, \<^verbatim>\<open>load_balance.py\<close> and
    \<^verbatim>\<open>scheduler/allocate_arbitration.py\<close>: the policies and the arbitration over a fresh view of the
    pools, which the locale \<open>instance_provider\<close> describes and \<open>Coordinator_Pools\<close> provides. Shown:
    every policy picks the best of its candidates; what is picked can be charged in the pools;
    round robin starves nobody.
  \<^descr> \<open>Dynamic_Bucket\<close> \<^verbatim>\<open>motor/coordinator/scheduler/policy/dynamic_bucket.py\<close>: decode endpoints split by
    request length. Shown: neither bucket is empty; the lightest endpoint of the right bucket is
    picked, in whatever order the instances are listed.
  \<^descr> \<open>Image_Sizes\<close> \<^verbatim>\<open>motor/common/utils/image_utils.py\<close>: the size of an image from its header bytes.
    Shown: parsing always ends, without an index out of range; sizes are read back from the format.
  \<^descr> \<open>Port_Allocation\<close> \<^verbatim>\<open>motor/common/utils/port_allocator.py\<close>: ports at start-up. Shown: a node
    manager's ports are exclusive; what a scan answers, errors included; the coordinator's ports can
    collide.
  \<^descr> \<open>Session_Affinity\<close>, \<open>Shared_Affinity\<close> \<^verbatim>\<open>motor/coordinator/scheduler/runtime/session_affinity.py\<close>,
    \<^verbatim>\<open>session_affinity_shared.py\<close>: the in-process table of session pins and the hash table that the
    worker processes share. Both provide the locale \<open>pin_table\<close>, on which resolution is proved
    once. Shown: the shared table is a map with eviction of the least recently used; its counters
    are exact; recent pins survive; bursts of new sessions are spread evenly.
  \<^descr> \<open>Cache_Declarations\<close> \<^verbatim>\<open>motor/coordinator/domain/cache_declaration.py\<close> and the keeper in
    \<^verbatim>\<open>scheduler/runtime/scheduler_client.py\<close>: how long a client wants its session kept. Shown: every
    expiry is reported once; a pass releases exactly what no promise outlives; a shortened
    retention is forgotten.
  \<^descr> \<open>Refresh_Channel\<close> \<^verbatim>\<open>motor/controller/api_client/coordinator_api_client.py\<close> and the handler in
    \<^verbatim>\<open>motor/coordinator/api_server/management_server.py\<close>: how an event reaches the coordinators. The
    locale \<open>refresh_channel\<close> says what a sender of rosters may rely on; it is interpreted on the
    client connected to \<open>Coordinator_Pools\<close>.
  \<^descr> \<open>Serving_Overlay\<close>, \<open>Event_Pusher\<close> \<^verbatim>\<open>motor/controller/fault_tolerance/serving_overlay.py\<close>,
    \<^verbatim>\<open>motor/controller/core/event_pusher.py\<close>: the routable view of instances under fault tolerance, and
    the threads that send it. Shown: after a delivered SET the coordinators route exactly to the
    ranks that may serve; a restored instance is published all or nothing; a failed refresh leads to
    a full one; three ways in which an update is lost or out of date.
  \<^descr> \<open>Fault_Types\<close>, \<open>Fault_Evidence\<close> \<^verbatim>\<open>motor/controller/fault_tolerance/fault_types.py\<close>, the evidence
    side of \<^verbatim>\<open>fault_manager.py\<close> and \<^verbatim>\<open>mixin/resource_manager.py\<close>: faults of nodes and engines, the level
    of an instance, its isolation, and which instance owns which node. Shown: level and isolation
    follow the evidence; PreSeparateNPU faults do not interrupt service; nodes are handed over
    without an error; the first engine fault withdraws the instance.
  \<^descr> \<open>Recovery_Planning\<close> the strategy centre and user recovery of \<^verbatim>\<open>fault_manager.py\<close>,
    \<^verbatim>\<open>recovery_planner.py\<close>, \<^verbatim>\<open>strategy/strategy.py\<close>: the strategy of a recovery round. Shown: a
    scale-down leaves survivors; waiting for engine reports ends; a running strategy is never
    replaced, whatever the order of steps; two ways in which recovery of an instance stops for good.
  \<^descr> \<open>Instance_Assembly\<close> \<^verbatim>\<open>motor/controller/core/instance_assembler.py\<close>: pods register until an
    instance is complete, the engines are started with rank table and start command, lost pods are
    replaced. Shown: instance numbers are never given twice within a run; a cold start numbers the
    ranks without gaps; a replacement happens completely or not at all; start retries end. Also
    shown: two lock orders that deadlock, ranks given twice after a lost pod, restored assemblies
    that are never started, an empty instance that is handed over.
  \<^descr> \<open>Etcd_Client\<close>, \<open>Standby_Manager\<close> \<^verbatim>\<open>motor/common/etcd/\<close>, \<^verbatim>\<open>motor/common/standby/standby_manager.py\<close>:
    persisted state, locks and leases on a server that may fail at every call, and the election of
    the master. Shown: the key range of a prefix is exact; what was persisted is restored; the role
    follows the lease; a failed persist loses the old state; one missed renewal costs the role.
  \<^descr> \<open>Block_Offsets\<close> \<^verbatim>\<open>motor/coordinator/domain/block_offset_translator.py\<close>,
    \<^verbatim>\<open>scheduler/policy/utils.py\<close>: messages and tools of a request as positions in cache blocks. The
    tokenizer is a record of functions. Shown: the marker scan finds the end of every message of a
    prompt laid out as documented; the shape of the tables; coordinates are consistent and ordered;
    the forwarded body carries what was computed; a system message before two user messages
    defeats the scan.
  \<^descr> \<open>Token_Replay\<close> \<^verbatim>\<open>motor/coordinator/router/rescheduler/rescheduler.py\<close>, the adapters it uses and the
    retry decisions of the routers: continuing a generation on another instance. Shown: a retry
    replays exactly the tokens delivered so far; token ids stay hidden from clients that did not ask
    for them; re-encoding is faithful; a stopped attempt never revives; the hybrid router repeats
    output, resumed chunks lose token ids, chunks with Unicode line separators are lost.
  \<^bold>\<open>How the code is modelled\<close>

  \<^item> A class is a record, an enum a datatype, a method a function from the state (and what it reads
    from outside) to the new state and its answer. A method that holds its lock, or does not await,
    is one step; runs are \<open>foldl\<close> over a datatype of operations.
  \<^item> An exception is \<open>Inl\<close> of \<open>py_error\<close>, together with the state reached when it was raised.
  \<^item> A float is a rational: rounding, infinities and NaN are not modelled.
  \<^item> Objects that are shared between containers live in a heap (\<open>Coordinator_Pools\<close>) or are reached
    by a path (\<open>Resources\<close>); elsewhere no claim depends on aliasing.
  \<^item> What the code reads from outside is an argument: clocks, random suffixes, image sizes, answers
    of HTTP clients and of ETCD, the iteration order of a Python set. Laws assumed of them
    (a clock that does not go back, an order that lists each element once) are hypotheses of the
    properties that need them, and each such property has a witness.
  \<^item> Every loop of the modelled code is structural recursion over a list or has a measure, so every
    definition is total; no fuel is used.

  \<^bold>\<open>Not modelled\<close>

  HTTP servers and clients, TLS, configuration loading, logging, metrics collection and tracing
  (I/O and glue); the routers' asynchronous forwarding of requests and streams; what the recovery
  strategies do on the nodes, the fault manager's Kubernetes monitors and the persistence of its
  metadata; the node manager's process control; the validation of agent hints;
  the scheduler's processes, shared memory and ZMQ transport; the KV conductor (Rust).
\<close>

end
